(* ===== verification/Platform_Prelude.thy ===== *)
theory Platform_Prelude
  imports Complex_Main "HOL-Library.AList" "HOL-Library.Finite_Map" "HOL-Library.List_Lexorder"
    "HOL-Library.Char_ord" "HOL-Library.Product_Lexorder" "HOL-Library.Multiset"
begin

text \<open>
  Shared material of the development: Python exceptions as values, the JSON values that the
  control plane stores in \<open>spec\<close> and \<open>status\<close>, Python's \<open>int()\<close>, \<open>float()\<close>, \<open>str()\<close>,
  \<open>str.split\<close>, \<open>str.partition\<close> and \<open>str.strip\<close> on strings, and generic lemmas on
  association lists (Python dictionaries whose iteration order matters) and on the
  exception-passing combinators.  Python's floats are modelled as exact rationals, so rounding
  is not part of the model; Python's integers are \<open>int\<close>.
\<close>

named_theorems py_simps \<open>unfolding rules of the exception-passing combinators\<close>
named_theorems store_laws \<open>laws of the object stores\<close>
named_theorems raft_defs \<open>definitions of the Raft handlers\<close>

section \<open>Exceptions\<close>

datatype exc =
    ConflictError string
  | NotFoundError string
  | AlreadyExistsError string
  | TimeoutError string
  | RuntimeError string
  | ValueError string
  | KeyError string
  | TypeError string
  | AttributeError string
  | IndexError string
  | OverflowError string
  | FileNotFoundError string
  | BuildError string
  | OSError string
  | LookupError string
  | StructError string
  | NetlinkError int
  | TarError string
  | AssertionError string
  | NotSupported string
  | ContainerError string
  | ChildProcessError string
  | ProcessLookupError string
  | CgroupUnavailable string

type_synonym 'a res = "exc + 'a"

text \<open>Sequencing of fallible expressions: the first exception wins.\<close>

definition ebind :: "'a res \<Rightarrow> ('a \<Rightarrow> 'b res) \<Rightarrow> 'b res" where
  "ebind m f = (case m of Inl e \<Rightarrow> Inl e | Inr x \<Rightarrow> f x)"

lemma ebind_simps [simp, py_simps]:
  "ebind (Inl e) f = Inl e" "ebind (Inr x) f = f x"
  by (simp_all add: ebind_def)

lemma ebind_Inr_iff [py_simps]: "ebind m f = Inr y \<longleftrightarrow> (\<exists>x. m = Inr x \<and> f x = Inr y)"
  by (cases m) simp_all

lemma ebind_InrE:
  assumes "ebind m f = Inr y" obtains x where "m = Inr x" "f x = Inr y"
  using assms by (cases m) simp_all

text \<open>A list comprehension whose element expression may raise.\<close>

fun emap :: "('a \<Rightarrow> 'b res) \<Rightarrow> 'a list \<Rightarrow> 'b list res" where
  "emap f [] = Inr []"
| "emap f (x # xs) = ebind (f x) (\<lambda>y. ebind (emap f xs) (\<lambda>ys. Inr (y # ys)))"

lemma emap_Inr_iff: "emap f xs = Inr ys \<longleftrightarrow> list_all2 (\<lambda>x y. f x = Inr y) xs ys"
proof (induction xs arbitrary: ys)
  case Nil
  then show ?case by auto
next
  case (Cons x xs)
  then show ?case by (cases ys) (auto simp: ebind_Inr_iff)
qed

lemma emap_mem: "emap f xs = Inr ys \<Longrightarrow> y \<in> set ys \<Longrightarrow> \<exists>x \<in> set xs. f x = Inr y"
proof (induction xs arbitrary: ys)
  case (Cons x xs)
  then obtain z zs where "f x = Inr z" "emap f xs = Inr zs" "ys = z # zs" by (auto simp: ebind_Inr_iff)
  with Cons show ?case by auto
qed simp

lemma emap_length: "emap f xs = Inr ys \<Longrightarrow> length ys = length xs"
  by (auto simp: emap_Inr_iff dest: list_all2_lengthD)

lemma emap_total: "(\<And>x. x \<in> set xs \<Longrightarrow> f x = Inr (g x)) \<Longrightarrow> emap f xs = Inr (map g xs)"
  by (induction xs) simp_all

text \<open>
  \<open>sorted(xs, key=f)\<close> with a key function that may raise: all keys are computed first, then a
  stable sort runs.
\<close>

definition esorted :: "('a \<Rightarrow> 'k::linorder res) \<Rightarrow> 'a list \<Rightarrow> 'a list res" where
  "esorted f xs = ebind (emap f xs) (\<lambda>ks. Inr (map snd (sort_key fst (zip ks xs))))"

lemma esorted_total:
  assumes "\<And>x. x \<in> set xs \<Longrightarrow> f x = Inr (g x)"
  shows "\<exists>ys. esorted f xs = Inr ys \<and> mset ys = mset xs"
proof -
  have e: "emap f xs = Inr (map g xs)" by (rule emap_total) (rule assms)
  have "mset (map snd (sort_key fst (zip (map g xs) xs))) = mset (map snd (zip (map g xs) xs))"
    by (metis mset_map mset_sort)
  then have "mset (map snd (sort_key fst (zip (map g xs) xs))) = mset xs" by simp
  with e show ?thesis by (simp add: esorted_def)
qed

lemma esorted_mset: "esorted f xs = Inr ys \<Longrightarrow> mset ys = mset xs"
proof -
  assume "esorted f xs = Inr ys"
  then obtain ks where ks: "emap f xs = Inr ks" and ys: "ys = map snd (sort_key fst (zip ks xs))"
    by (auto simp: esorted_def ebind_Inr_iff)
  from ks have "length ks = length xs" by (rule emap_length)
  then have "map snd (zip ks xs) = xs" by simp
  then show "mset ys = mset xs"
    unfolding ys by (metis mset_map mset_sort)
qed

section \<open>Exceptions with state\<close>

text \<open>
  A method body that reads and writes shared state and may raise: it returns a result and the state
  as it is then, so that what was written before an exception stays written.
\<close>

type_synonym ('a, 's) act = "'s \<Rightarrow> 'a res \<times> 's"

definition aret :: "'a \<Rightarrow> ('a, 's) act" where
  "aret x s = (Inr x, s)"

definition alift :: "'a res \<Rightarrow> ('a, 's) act" where
  "alift r s = (r, s)"

definition aread :: "('s \<Rightarrow> 'a) \<Rightarrow> ('a, 's) act" where
  "aread f s = (Inr (f s), s)"

definition abind :: "('a, 's) act \<Rightarrow> ('a \<Rightarrow> ('b, 's) act) \<Rightarrow> ('b, 's) act" where
  "abind m f s = (case m s of (Inl e, s') \<Rightarrow> (Inl e, s') | (Inr x, s') \<Rightarrow> f x s')"

text \<open>A \<open>for\<close> loop with an accumulator.\<close>

fun afold :: "('a \<Rightarrow> 'b \<Rightarrow> ('b, 's) act) \<Rightarrow> 'a list \<Rightarrow> 'b \<Rightarrow> ('b, 's) act" where
  "afold f [] b = aret b"
| "afold f (x # xs) b = abind (f x b) (afold f xs)"

text \<open>A \<open>for\<close> loop without one.\<close>

fun aeach :: "('a \<Rightarrow> (unit, 's) act) \<Rightarrow> 'a list \<Rightarrow> (unit, 's) act" where
  "aeach f [] = aret ()"
| "aeach f (x # xs) = abind (f x) (\<lambda>_. aeach f xs)"

lemma act_simps [simp, py_simps]:
  "aret x s = (Inr x, s)" "alift r s = (r, s)" "aread f s = (Inr (f s), s)"
  by (simp_all add: aret_def alift_def aread_def)

lemma abindE:
  assumes "abind m f s = (Inr y, s')" obtains x t where "m s = (Inr x, t)" "f x t = (Inr y, s')"
  using assms by (auto simp: abind_def split: prod.splits sum.splits)

lemma abind_Inr [simp]: "m s = (Inr x, t) \<Longrightarrow> abind m f s = f x t"
  by (simp add: abind_def)

lemma aeach_append: "aeach f (xs @ ys) s = abind (aeach f xs) (\<lambda>_. aeach f ys) s"
  by (induction xs arbitrary: s) (auto simp: abind_def split: prod.splits sum.splits)

lemma abind_lift_iff [py_simps]:
  "abind (alift r) f s = (Inr y, s') \<longleftrightarrow> (\<exists>x. r = Inr x \<and> f x s = (Inr y, s'))"
  by (auto simp: abind_def split: sum.splits)

lemma abind_read [simp]: "abind (aread g) f s = f (g s) s"
  by simp

text \<open>An action that keeps an invariant of the state, whether or not it raises.\<close>

definition keeps :: "('s \<Rightarrow> bool) \<Rightarrow> ('a, 's) act \<Rightarrow> bool" where
  "keeps P m = (\<forall>s. P s \<longrightarrow> P (snd (m s)))"

lemma keepsD: "keeps P m \<Longrightarrow> P s \<Longrightarrow> P (snd (m s))"
  by (simp add: keeps_def)

lemma keepsI: "(\<And>s. P s \<Longrightarrow> P (snd (m s))) \<Longrightarrow> keeps P m"
  by (simp add: keeps_def)

lemma keeps_basic [simp]: "keeps P (aret x)" "keeps P (alift r)" "keeps P (aread g)"
  by (simp_all add: keeps_def)

lemma keeps_bind: "keeps P m \<Longrightarrow> (\<And>x. keeps P (f x)) \<Longrightarrow> keeps P (abind m f)"
  by (fastforce simp: keeps_def abind_def split: prod.splits sum.splits)

lemma keeps_lift_bind: "(\<And>x. keeps P (f x)) \<Longrightarrow> keeps P (abind (alift r) f)"
  by (rule keeps_bind) simp_all

section \<open>Association lists\<close>

text \<open>
  A Python dictionary whose iteration order matters is an association list: assignment is
  \<open>AList.update\<close> (in place, or at the end for a new key) and \<open>pop\<close> is \<open>AList.delete\<close>.
\<close>

lemma set_alist_update_subset: "set (AList.update k v al) \<subseteq> insert (k, v) (set al)"
  by (induction al) auto

lemma set_alist_delete_subset: "set (AList.delete k al) \<subseteq> set al"
  by (auto simp: AList.delete_eq)

lemma alist_update_distinct_vals:
  "distinct (map g al) \<Longrightarrow> g (k, v) \<notin> g ` set al \<Longrightarrow> distinct (map g (AList.update k v al))"
proof (induction al)
  case (Cons p al)
  have "g ` set (AList.update k v al) \<subseteq> insert (g (k, v)) (g ` set al)"
    using set_alist_update_subset [of k v al] by auto
  with Cons show ?case by auto
qed simp

lemma alist_delete_distinct_vals:
  "distinct (map g al) \<Longrightarrow> distinct (map g (AList.delete k al))"
  by (auto simp: AList.delete_eq distinct_map intro: inj_on_subset)

lemma alist_delete_distinct: "distinct (map fst al) \<Longrightarrow> distinct (map fst (AList.delete k al))"
  by (rule alist_delete_distinct_vals)

lemma alist_update_keys: "fst ` set (AList.update k v al) = insert k (fst ` set al)"
  by (induction al) auto

lemma alist_delete_keys: "fst ` set (AList.delete k al) = fst ` set al - {k}"
  by (induction al) auto

lemma in_set_drop_iff: "x \<in> set (drop d xs) \<longleftrightarrow> (\<exists>j. d \<le> j \<and> j < length xs \<and> xs ! j = x)"
proof
  assume "x \<in> set (drop d xs)"
  then obtain i where "i < length xs - d" "xs ! (d + i) = x" by (auto simp: in_set_conv_nth)
  then show "\<exists>j. d \<le> j \<and> j < length xs \<and> xs ! j = x" by (intro exI [of _ "d + i"]) auto
next
  assume "\<exists>j. d \<le> j \<and> j < length xs \<and> xs ! j = x"
  then obtain j where j: "d \<le> j" "j < length xs" "xs ! j = x" by blast
  then have "drop d xs ! (j - d) = x" "j - d < length (drop d xs)" by auto
  then show "x \<in> set (drop d xs)" by (metis nth_mem)
qed

section \<open>JSON values\<close>

text \<open>
  What \<open>json.dumps\<close> and \<open>json.loads\<close> carry, and what the \<open>dict[str, Any]\<close> fields of an
  object hold.  A dictionary is a finite map, so that HOL's equality is Python's \<open>==\<close> on
  dictionaries (independent of insertion order); a serialised text with sorted keys is
  represented by the value it parses to.
\<close>

datatype json =
    JNull
  | JBool bool
  | JNum rat
  | JStr string
  | JList "json list"
  | JObj "(string, json) fmap"

type_synonym dict = "(string, json) fmap"

definition dget :: "dict \<Rightarrow> string \<Rightarrow> json \<Rightarrow> json" where
  \<comment> \<open>\<open>d.get(k, default)\<close>\<close>
  "dget d k dflt = (case fmlookup d k of None \<Rightarrow> dflt | Some v \<Rightarrow> v)"

lemma dget_upd [simp]: "dget (fmupd k v d) k' dflt = (if k = k' then v else dget d k' dflt)"
  by (simp add: dget_def)

lemma dget_empty [simp]: "dget fmempty k dflt = dflt"
  by (simp add: dget_def)

lemma dget_drop [simp]: "dget (fmdrop k d) k' dflt = (if k = k' then dflt else dget d k' dflt)"
  by (simp add: dget_def)

fun truthy :: "json \<Rightarrow> bool" where
  "truthy JNull = False"
| "truthy (JBool b) = b"
| "truthy (JNum r) = (r \<noteq> 0)"
| "truthy (JStr s) = (s \<noteq> [])"
| "truthy (JList xs) = (xs \<noteq> [])"
| "truthy (JObj d) = (d \<noteq> fmempty)"

fun py_dict :: "json \<Rightarrow> dict res" where
  \<comment> \<open>using a value as a dictionary; anything else has no \<open>.get\<close> / \<open>.items\<close>\<close>
  "py_dict (JObj d) = Inr d"
| "py_dict _ = Inl (AttributeError ''object has no attribute get'')"

end
