(* ===== verification/Py_Text.thy ===== *)
theory Py_Text
  imports Platform_Prelude
begin

text \<open>
  The operations on Python strings that the platform uses: \<open>str(int)\<close>, \<open>int(str)\<close>,
  \<open>float(str)\<close> on plain decimals, \<open>strip\<close>, \<open>split\<close>, \<open>partition\<close>, \<open>join\<close>, \<open>upper\<close>,
  \<open>startswith\<close> and \<open>replace\<close>.  Strings are lists of characters; the text the platform
  handles is ASCII, and only the ASCII white space is white space here.  \<open>int()\<close> accepts an
  optional sign and digits (Python's underscores between digits are not accepted);
  \<open>float()\<close> accepts an optional sign, digits and an optional fractional part (exponents,
  \<open>inf\<close> and \<open>nan\<close> are not accepted).
\<close>

section \<open>Characters\<close>

definition code_of :: "char \<Rightarrow> nat" where
  "code_of c = of_char c"

definition is_space :: "char \<Rightarrow> bool" where
  "is_space c = (c \<in> {CHR '' '', CHR 0x09, CHR 0x0A, CHR 0x0B, CHR 0x0C, CHR 0x0D})"

definition is_digit :: "char \<Rightarrow> bool" where
  "is_digit c = (48 \<le> code_of c \<and> code_of c \<le> 57)"

definition digit_char :: "nat \<Rightarrow> char" where
  "digit_char n = char_of (48 + n)"

definition digit_val :: "char \<Rightarrow> nat" where
  "digit_val c = code_of c - 48"

lemma code_of_digit_char: "n < 10 \<Longrightarrow> code_of (digit_char n) = 48 + n"
  by (simp add: code_of_def digit_char_def)

lemma is_digit_digit_char [simp]: "n < 10 \<Longrightarrow> is_digit (digit_char n)"
  by (simp add: is_digit_def code_of_digit_char)

lemma digit_val_digit_char [simp]: "n < 10 \<Longrightarrow> digit_val (digit_char n) = n"
  by (simp add: digit_val_def code_of_digit_char)

lemma digit_not_space: "is_digit c \<Longrightarrow> \<not> is_space c"
  by (auto simp: is_digit_def is_space_def code_of_def)

lemma digit_not_sign: "is_digit c \<Longrightarrow> c \<noteq> CHR ''-'' \<and> c \<noteq> CHR ''+''"
  by (auto simp: is_digit_def code_of_def)

section \<open>Decimal numerals\<close>

fun str_nat :: "nat \<Rightarrow> string" where
  "str_nat n = (if n < 10 then [digit_char n] else str_nat (n div 10) @ [digit_char (n mod 10)])"

declare str_nat.simps [simp del]

definition str_int :: "int \<Rightarrow> string" where
  "str_int i = (if i < 0 then CHR ''-'' # str_nat (nat (- i)) else str_nat (nat i))"

definition digits_val :: "string \<Rightarrow> nat" where
  "digits_val cs = foldl (\<lambda>n c. 10 * n + digit_val c) 0 cs"

lemma digits_val_snoc: "digits_val (cs @ [c]) = 10 * digits_val cs + digit_val c"
  by (simp add: digits_val_def)

lemma str_nat_digits: "list_all is_digit (str_nat n) \<and> str_nat n \<noteq> []"
proof (induction n rule: str_nat.induct)
  case (1 n)
  then show ?case by (subst (1 2) str_nat.simps) simp
qed

lemma digits_val_str_nat [simp]: "digits_val (str_nat n) = n"
proof (induction n rule: str_nat.induct)
  case (1 n)
  show ?case
  proof (cases "n < 10")
    case True
    then show ?thesis by (subst str_nat.simps) (simp add: digits_val_def)
  next
    case False
    with 1 show ?thesis by (subst str_nat.simps) (simp add: digits_val_snoc)
  qed
qed

section \<open>Stripping and parsing numbers\<close>

definition lstrip :: "string \<Rightarrow> string" where
  "lstrip s = dropWhile is_space s"

definition strip :: "string \<Rightarrow> string" where
  "strip s = rev (dropWhile is_space (rev (dropWhile is_space s)))"

lemma strip_id: "s = [] \<or> (\<not> is_space (hd s) \<and> \<not> is_space (last s)) \<Longrightarrow> strip s = s"
proof -
  assume a: "s = [] \<or> (\<not> is_space (hd s) \<and> \<not> is_space (last s))"
  then have "dropWhile is_space s = s" "dropWhile is_space (rev s) = rev s"
    by (auto simp only: dropWhile_eq_self_iff hd_rev rev_is_Nil_conv)
  then show "strip s = s" by (simp add: strip_def)
qed

fun parse_sign :: "string \<Rightarrow> int \<times> string" where
  "parse_sign (c # cs) =
     (if c = CHR ''-'' then (- 1, cs) else if c = CHR ''+'' then (1, cs) else (1, c # cs))"
| "parse_sign [] = (1, [])"

definition parse_int :: "string \<Rightarrow> int option" where
  "parse_int s =
     (case parse_sign (strip s) of (sg, ds) \<Rightarrow>
        if ds \<noteq> [] \<and> list_all is_digit ds then Some (sg * int (digits_val ds)) else None)"

lemma parse_int_str_int [simp]: "parse_int (str_int i) = Some i"
proof -
  obtain c cs where n: "str_nat (nat \<bar>i\<bar>) = c # cs"
    using str_nat_digits by (metis neq_Nil_conv)
  have d: "list_all is_digit (c # cs)" "digits_val (c # cs) = nat \<bar>i\<bar>"
    using str_nat_digits [of "nat \<bar>i\<bar>"] digits_val_str_nat [of "nat \<bar>i\<bar>"] unfolding n by auto
  have sp: "\<not> is_space (last (c # cs))" "\<not> is_space c"
    using d(1) by (auto simp: digit_not_space list_all_iff)
  have m: "\<not> is_space CHR ''-''" by (simp add: is_space_def)
  have "strip (str_int i) = str_int i"
    by (rule strip_id) (use n sp m in \<open>auto simp: str_int_def abs_if split: if_splits\<close>)
  with n d show ?thesis
    by (cases "i < 0") (auto simp: parse_int_def str_int_def abs_if digit_not_sign)
qed

definition parse_decimal :: "string \<Rightarrow> rat option" where
  "parse_decimal s =
     (case parse_sign (strip s) of (sg, ds) \<Rightarrow>
        (let whole = takeWhile (\<lambda>c. c \<noteq> CHR ''.'') ds;
             rest = dropWhile (\<lambda>c. c \<noteq> CHR ''.'') ds;
             frac = tl rest
         in if (whole \<noteq> [] \<or> frac \<noteq> []) \<and> list_all is_digit whole \<and> list_all is_digit frac
            then Some (of_int sg * (of_nat (digits_val whole)
                        + of_nat (digits_val frac) / 10 ^ length frac))
            else None))"

text \<open>\<open>int(v)\<close> and \<open>float(v)\<close> on JSON values.\<close>

definition trunc :: "rat \<Rightarrow> int" where
  "trunc r = (if r < 0 then \<lceil>r\<rceil> else \<lfloor>r\<rfloor>)"

lemma trunc_of_int [simp]: "trunc (of_int i) = i"
  by (simp add: trunc_def)

lemma trunc_numeral [simp]: "trunc (numeral n) = numeral n" "trunc 0 = 0" "trunc 1 = 1"
  by (simp_all add: trunc_def)

fun py_int :: "json \<Rightarrow> int res" where
  "py_int (JNum r) = Inr (trunc r)"
| "py_int (JBool b) = Inr (of_bool b)"
| "py_int (JStr s) = (case parse_int s of Some i \<Rightarrow> Inr i
                      | None \<Rightarrow> Inl (ValueError ''invalid literal for int() with base 10''))"
| "py_int _ = Inl (TypeError ''int() argument must be a string or a number'')"

fun py_float :: "json \<Rightarrow> rat res" where
  "py_float (JNum r) = Inr r"
| "py_float (JBool b) = Inr (of_bool b)"
| "py_float (JStr s) = (case parse_decimal s of Some r \<Rightarrow> Inr r
                        | None \<Rightarrow> Inl (ValueError ''could not convert string to float''))"
| "py_float _ = Inl (TypeError ''float() argument must be a string or a number'')"

section \<open>Splitting, joining, searching\<close>

definition starts_with :: "string \<Rightarrow> string \<Rightarrow> bool" where
  \<comment> \<open>\<open>s.startswith(p)\<close>\<close>
  "starts_with s p = (take (length p) s = p)"

definition ends_with :: "string \<Rightarrow> string \<Rightarrow> bool" where
  "ends_with s p = (length p \<le> length s \<and> drop (length s - length p) s = p)"

lemma starts_with_append [simp]: "starts_with (p @ s) p"
  by (simp add: starts_with_def)

definition partition_char :: "char \<Rightarrow> string \<Rightarrow> string \<times> bool \<times> string" where
  \<comment> \<open>\<open>s.partition(c)\<close>: before, whether the separator occurs, after\<close>
  "partition_char c s =
     (takeWhile (\<lambda>x. x \<noteq> c) s, c \<in> set s, tl (dropWhile (\<lambda>x. x \<noteq> c) s))"

lemma partition_char_append:
  "c \<notin> set a \<Longrightarrow> partition_char c (a @ c # b) = (a, True, b)"
  by (induction a) (auto simp: partition_char_def)

fun split_char :: "char \<Rightarrow> string \<Rightarrow> string list" where
  \<comment> \<open>\<open>s.split(c)\<close>\<close>
  "split_char c [] = [[]]"
| "split_char c (x # xs) =
     (if x = c then [] # split_char c xs
      else (case split_char c xs of [] \<Rightarrow> [[x]] | p # ps \<Rightarrow> (x # p) # ps))"

fun splitn_char :: "nat \<Rightarrow> char \<Rightarrow> string \<Rightarrow> string list" where
  \<comment> \<open>\<open>s.split(c, n)\<close>: at most \<open>n\<close> cuts\<close>
  "splitn_char 0 c s = [s]"
| "splitn_char (Suc n) c s =
     (case partition_char c s of (a, found, b) \<Rightarrow> if found then a # splitn_char n c b else [s])"

fun words_aux :: "string \<Rightarrow> string \<Rightarrow> string list" where
  "words_aux acc [] = (if acc = [] then [] else [rev acc])"
| "words_aux acc (c # cs) =
     (if is_space c then (if acc = [] then words_aux [] cs else rev acc # words_aux [] cs)
      else words_aux (c # acc) cs)"

definition py_split :: "string \<Rightarrow> string list" where
  \<comment> \<open>\<open>s.split()\<close>\<close>
  "py_split s = words_aux [] s"

fun join :: "string \<Rightarrow> string list \<Rightarrow> string" where
  \<comment> \<open>\<open>sep.join(xs)\<close>\<close>
  "join sep [] = []"
| "join sep [x] = x"
| "join sep (x # y # ys) = x @ sep @ join sep (y # ys)"

definition upper_char :: "char \<Rightarrow> char" where
  "upper_char c = (if 97 \<le> code_of c \<and> code_of c \<le> 122 then char_of (code_of c - 32) else c)"

definition upper :: "string \<Rightarrow> string" where
  "upper s = map upper_char s"

definition replace_char :: "char \<Rightarrow> char \<Rightarrow> string \<Rightarrow> string" where
  "replace_char a b s = map (\<lambda>c. if c = a then b else c) s"

definition rstrip_char :: "char \<Rightarrow> string \<Rightarrow> string" where
  "rstrip_char c s = rev (dropWhile (\<lambda>x. x = c) (rev s))"

definition lstrip_char :: "char \<Rightarrow> string \<Rightarrow> string" where
  "lstrip_char c s = dropWhile (\<lambda>x. x = c) s"

lemma split_char_ne [simp]: "split_char c s \<noteq> []"
  by (induction s) (auto split: list.splits)

lemma split_char_notin: "c \<notin> set s \<Longrightarrow> split_char c s = [s]"
  by (induction s) auto

lemma split_char_append:
  "c \<notin> set a \<Longrightarrow> split_char c (a @ c # b) = a # split_char c b"
  by (induction a) auto

lemma split_join:
  "xs \<noteq> [] \<Longrightarrow> (\<And>x. x \<in> set xs \<Longrightarrow> c \<notin> set x) \<Longrightarrow> split_char c (join [c] xs) = xs"
proof (induction "[c]" xs rule: join.induct)
  case (3 x y ys)
  then show ?case by (simp add: split_char_append)
qed (auto simp: split_char_notin)

end
