(* ===== verification/Objects.thy ===== *)
theory Objects
  imports Py_Text
begin

text \<open>
  The object model of \<open>modules/orchestrator/orchestrator/objects.py\<close>: metadata, objects,
  their JSON form, label selection and the constructors of the well-known kinds.  A field that
  the dataclasses declare as \<open>str\<close> or \<open>float\<close> has that type here, so \<open>from_json\<close> on a value of
  another type is a \<open>TypeError\<close> of the model.  Random identifiers and clock readings are
  arguments.
\<close>

section \<open>Metadata and objects\<close>

record meta =
  m_name :: string
  m_namespace :: string
  m_uid :: string
  m_rv :: int
  m_generation :: int
  m_labels :: dict
  m_annotations :: dict
  m_owner :: string
  m_created_at :: rat
  m_deleted_at :: rat

record obj =
  o_kind :: string
  o_meta :: meta
  o_spec :: dict
  o_status :: dict

definition okey :: "obj \<Rightarrow> string" where
  "okey ob = o_kind ob @ ''/'' @ m_namespace (o_meta ob) @ ''/'' @ m_name (o_meta ob)"

abbreviation orv :: "obj \<Rightarrow> int" where
  "orv ob \<equiv> m_rv (o_meta ob)"

abbreviation set_rv :: "int \<Rightarrow> obj \<Rightarrow> obj" where
  "set_rv r ob \<equiv> ob\<lparr>o_meta := (o_meta ob)\<lparr>m_rv := r\<rparr>\<rparr>"

abbreviation set_gen :: "int \<Rightarrow> obj \<Rightarrow> obj" where
  "set_gen g ob \<equiv> ob\<lparr>o_meta := (o_meta ob)\<lparr>m_generation := g\<rparr>\<rparr>"

lemma okey_updates [simp]:
  "okey (ob\<lparr>o_spec := s\<rparr>) = okey ob" "okey (ob\<lparr>o_status := s\<rparr>) = okey ob"
  "okey (ob\<lparr>o_meta := (o_meta ob)\<lparr>m_rv := r\<rparr>\<rparr>) = okey ob"
  "okey (ob\<lparr>o_meta := (o_meta ob)\<lparr>m_generation := g\<rparr>\<rparr>) = okey ob"
  "okey (ob\<lparr>o_meta := (o_meta ob)\<lparr>m_created_at := t\<rparr>\<rparr>) = okey ob"
  "okey (ob\<lparr>o_meta := (o_meta ob)\<lparr>m_deleted_at := t\<rparr>\<rparr>) = okey ob"
  "okey (ob\<lparr>o_meta := (o_meta ob)\<lparr>m_generation := g, m_rv := r\<rparr>\<rparr>) = okey ob"
  "okey (ob\<lparr>o_meta := (o_meta ob)\<lparr>m_rv := r, m_created_at := t\<rparr>\<rparr>) = okey ob"
  by (simp_all add: okey_def)

section \<open>JSON form\<close>

definition jstr :: "json \<Rightarrow> string res" where
  "jstr v = (case v of JStr s \<Rightarrow> Inr s | _ \<Rightarrow> Inl (TypeError ''expected str''))"

definition jitem :: "dict \<Rightarrow> string \<Rightarrow> json res" where
  \<comment> \<open>\<open>d[k]\<close>\<close>
  "jitem d k = (case fmlookup d k of None \<Rightarrow> Inl (KeyError k) | Some v \<Rightarrow> Inr v)"

definition meta_to_json :: "meta \<Rightarrow> json" where
  "meta_to_json m = JObj (fmap_of_list
     [(''name'', JStr (m_name m)),
      (''namespace'', JStr (m_namespace m)),
      (''uid'', JStr (m_uid m)),
      (''resourceVersion'', JNum (of_int (m_rv m))),
      (''generation'', JNum (of_int (m_generation m))),
      (''labels'', JObj (m_labels m)),
      (''annotations'', JObj (m_annotations m)),
      (''owner'', JStr (m_owner m)),
      (''createdAt'', JNum (m_created_at m)),
      (''deletedAt'', JNum (m_deleted_at m))])"

definition meta_from_json :: "json \<Rightarrow> meta res" where
  "meta_from_json j =
     ebind (py_dict j) (\<lambda>d.
     ebind (jitem d ''name'') (\<lambda>v. ebind (jstr v) (\<lambda>nm.
     ebind (jstr (dget d ''namespace'' (JStr ''default''))) (\<lambda>ns.
     ebind (jstr (dget d ''uid'' (JStr ''''))) (\<lambda>ui.
     ebind (py_int (dget d ''resourceVersion'' (JNum 0))) (\<lambda>rv.
     ebind (py_int (dget d ''generation'' (JNum 1))) (\<lambda>gen.
     ebind (py_dict (dget d ''labels'' (JObj fmempty))) (\<lambda>lb.
     ebind (py_dict (dget d ''annotations'' (JObj fmempty))) (\<lambda>an.
     ebind (jstr (dget d ''owner'' (JStr ''''))) (\<lambda>ow.
     ebind (py_float (dget d ''createdAt'' (JNum 0))) (\<lambda>ca.
     ebind (py_float (dget d ''deletedAt'' (JNum 0))) (\<lambda>da.
     Inr \<lparr>m_name = nm, m_namespace = ns, m_uid = ui, m_rv = rv, m_generation = gen,
          m_labels = lb, m_annotations = an, m_owner = ow, m_created_at = ca,
          m_deleted_at = da\<rparr>))))))))))))"

definition obj_to_json :: "obj \<Rightarrow> json" where
  "obj_to_json ob = JObj (fmap_of_list
     [(''kind'', JStr (o_kind ob)), (''metadata'', meta_to_json (o_meta ob)),
      (''spec'', JObj (o_spec ob)), (''status'', JObj (o_status ob))])"

definition or_empty :: "json \<Rightarrow> json" where
  \<comment> \<open>\<open>v or {}\<close>\<close>
  "or_empty v = (if truthy v then v else JObj fmempty)"

definition obj_from_json :: "json \<Rightarrow> obj res" where
  "obj_from_json j =
     ebind (py_dict j) (\<lambda>d.
     ebind (jitem d ''kind'') (\<lambda>v. ebind (jstr v) (\<lambda>kd.
     ebind (jitem d ''metadata'') (\<lambda>mj. ebind (meta_from_json mj) (\<lambda>m.
     ebind (py_dict (or_empty (dget d ''spec'' (JObj fmempty)))) (\<lambda>sp.
     ebind (py_dict (or_empty (dget d ''status'' (JObj fmempty)))) (\<lambda>st.
     Inr \<lparr>o_kind = kd, o_meta = m, o_spec = sp, o_status = st\<rparr>)))))))"

text \<open>
  The serialised text is the canonical rendering (sorted keys, fixed separators) of the JSON
  value, so it is represented by the value.
\<close>

definition obj_serialise :: "obj \<Rightarrow> json" where
  "obj_serialise ob = obj_to_json ob"

definition obj_deserialise :: "json \<Rightarrow> obj res" where
  "obj_deserialise text = obj_from_json text"

lemma jitem_upd [simp]:
  "jitem (fmupd k v d) k' = (if k = k' then Inr v else jitem d k')"
  by (simp add: jitem_def)

lemma meta_roundtrip [simp]: "meta_from_json (meta_to_json m) = Inr m"
  by (simp add: meta_from_json_def meta_to_json_def jstr_def)

lemma or_empty_JObj [simp]: "or_empty (JObj d) = JObj d"
  by (simp add: or_empty_def)

lemma obj_roundtrip [simp]: "obj_deserialise (obj_serialise ob) = Inr ob"
  by (simp add: obj_deserialise_def obj_serialise_def obj_from_json_def obj_to_json_def jstr_def)

lemma obj_serialise_inject: "obj_serialise a = obj_serialise b \<longleftrightarrow> a = b"
  by (metis obj_roundtrip sum.inject(2))

section \<open>Selection by labels\<close>

definition matches :: "obj \<Rightarrow> dict \<Rightarrow> bool" where
  "matches ob selector = fmpred (\<lambda>k v. dget (m_labels (o_meta ob)) k JNull = v) selector"

lemma matches_empty [simp]: "matches ob fmempty"
  by (simp add: matches_def)

lemma fmpred_upd_iff:
  "fmpred P (fmupd k v m) \<longleftrightarrow> P k v \<and> fmpred P (fmdrop k m)"
  by (auto simp: fmpred_iff split: if_splits)

lemma matches_upd [simp]:
  "matches ob (fmupd k v sel) \<longleftrightarrow>
     dget (m_labels (o_meta ob)) k JNull = v \<and> matches ob (fmdrop k sel)"
  by (simp add: matches_def fmpred_upd_iff)

lemma fmdrop_upd_simp [simp]:
  "fmdrop k (fmupd k' v m) = (if k = k' then fmdrop k m else fmupd k' v (fmdrop k m))"
  by (simp add: fmdrop_fmupd)

section \<open>Constructors\<close>

definition new_object ::
  "string \<Rightarrow> string \<Rightarrow> dict \<Rightarrow> string \<Rightarrow> dict \<Rightarrow> string \<Rightarrow> string \<Rightarrow> rat \<Rightarrow> obj" where
  "new_object kind nm spec namespace labels owner uid now =
     \<lparr>o_kind = kind,
      o_meta = \<lparr>m_name = nm, m_namespace = namespace, m_uid = uid, m_rv = 0, m_generation = 1,
                m_labels = labels, m_annotations = fmempty, m_owner = owner,
                m_created_at = now, m_deleted_at = 0\<rparr>,
      o_spec = spec, o_status = fmempty\<rparr>"

abbreviation "NODE \<equiv> ''Node''"
abbreviation "POD \<equiv> ''Pod''"
abbreviation "REPLICASET \<equiv> ''ReplicaSet''"
abbreviation "DEPLOYMENT \<equiv> ''Deployment''"

abbreviation "PENDING \<equiv> ''Pending''"
abbreviation "SCHEDULED \<equiv> ''Scheduled''"
abbreviation "RUNNING \<equiv> ''Running''"
abbreviation "READY \<equiv> ''Ready''"
abbreviation "CRASHLOOP \<equiv> ''CrashLoopBackOff''"
abbreviation "SUCCEEDED \<equiv> ''Succeeded''"
abbreviation "FAILED \<equiv> ''Failed''"

definition phase_of :: "obj \<Rightarrow> json" where
  \<comment> \<open>\<open>pod.status.get("phase")\<close>\<close>
  "phase_of ob = dget (o_status ob) ''phase'' JNull"

definition terminal :: "obj \<Rightarrow> bool" where
  \<comment> \<open>\<open>pod.status.get("phase") in TERMINAL\<close>\<close>
  "terminal ob = (phase_of ob \<in> {JStr SUCCEEDED, JStr FAILED})"

definition is_ready :: "obj \<Rightarrow> bool" where
  "is_ready ob = (phase_of ob = JStr READY)"

lemma ready_not_terminal: "is_ready ob \<Longrightarrow> \<not> terminal ob"
  by (simp add: is_ready_def terminal_def)

definition pod_spec ::
  "string \<Rightarrow> string list \<Rightarrow> rat \<Rightarrow> int \<Rightarrow> dict \<Rightarrow> rat \<Rightarrow> bool \<Rightarrow> dict" where
  "pod_spec img command cpu memory_mb env readiness_delay_s fail = fmap_of_list
     [(''image'', JStr img),
      (''command'', JList (map JStr command)),
      (''resources'', JObj (fmap_of_list
          [(''cpu'', JNum cpu), (''memoryMB'', JNum (of_int memory_mb))])),
      (''env'', JObj env),
      (''readinessDelaySeconds'', JNum readiness_delay_s),
      (''failOnStart'', JBool fail)]"

definition node_spec :: "rat \<Rightarrow> int \<Rightarrow> bool \<Rightarrow> dict \<Rightarrow> dict" where
  "node_spec cpu memory_mb unschedulable labels = fmap_of_list
     [(''capacity'', JObj (fmap_of_list
          [(''cpu'', JNum cpu), (''memoryMB'', JNum (of_int memory_mb))])),
      (''unschedulable'', JBool unschedulable),
      (''labels'', JObj labels)]"

definition deployment_spec ::
  "int \<Rightarrow> dict \<Rightarrow> dict \<Rightarrow> int \<Rightarrow> int \<Rightarrow> rat \<Rightarrow> rat \<Rightarrow> dict" where
  "deployment_spec replicas template selector max_surge max_unavailable min_ready deadline =
     fmap_of_list
     [(''replicas'', JNum (of_int replicas)),
      (''selector'', JObj selector),
      (''template'', JObj template),
      (''strategy'', JObj (fmap_of_list
         [(''maxSurge'', JNum (of_int max_surge)),
          (''maxUnavailable'', JNum (of_int max_unavailable)),
          (''minReadySeconds'', JNum min_ready),
          (''progressDeadlineSeconds'', JNum deadline)]))]"

end
