(* ===== verification/Cluster_Store.thy ===== *)
theory Cluster_Store
  imports Objects
begin

text \<open>
  The store interface of \<open>modules/orchestrator/orchestrator/store.py\<close> (class
  \<open>ClusterStore\<close>): events, the read-modify-write helper \<open>update_with_retry\<close> that both
  back ends inherit, and the contract the controllers rely on, stated as the locale
  \<open>cluster_store\<close>.  The helper takes \<open>get\<close> and \<open>update\<close> as arguments, as the base class
  reaches them through \<open>self\<close>; \<open>env\<close> is what other threads do to the store between the read
  and the write of one attempt.
\<close>

section \<open>Events\<close>

datatype event_type = ADDED | MODIFIED | DELETED | SYNC

record event =
  ev_type :: event_type
  ev_object :: obj
  ev_revision :: int

definition ev_key :: "event \<Rightarrow> string" where
  "ev_key ev = okey (ev_object ev)"

section \<open>Read-modify-write\<close>

type_synonym mutator = "obj \<Rightarrow> (bool \<times> obj) res"

fun update_with_retry ::
  "('s \<Rightarrow> string \<Rightarrow> obj res) \<Rightarrow> (obj \<Rightarrow> 's \<Rightarrow> (obj \<times> 's) res) \<Rightarrow> (nat \<Rightarrow> 's \<Rightarrow> 's) \<Rightarrow>
   string \<Rightarrow> mutator \<Rightarrow> nat \<Rightarrow> 's \<Rightarrow> obj option res \<times> 's" where
  "update_with_retry get upd env key mutate 0 st =
     (Inl (ConflictError (key @ '': gave up'')), st)"
| "update_with_retry get upd env key mutate (Suc n) st =
     (case get st key of
        Inl (NotFoundError k) \<Rightarrow> (Inr None, st)
      | Inl e \<Rightarrow> (Inl e, st)
      | Inr current \<Rightarrow>
          (case mutate current of
             Inl e \<Rightarrow> (Inl e, st)
           | Inr (False, _) \<Rightarrow> (Inr (Some current), st)
           | Inr (True, candidate) \<Rightarrow>
               (let st' = env n st in
                (case upd candidate st' of
                   Inr (ob, st'') \<Rightarrow> (Inr (Some ob), st'')
                 | Inl (ConflictError m) \<Rightarrow> update_with_retry get upd env key mutate n st'
                 | Inl e \<Rightarrow> (Inl e, st')))))"

definition quiet :: "nat \<Rightarrow> 's \<Rightarrow> 's" where
  \<comment> \<open>no other thread writes between the read and the write\<close>
  "quiet n st = st"

text \<open>The number of attempts of every call in the platform.\<close>

definition attempts :: nat where
  "attempts = 8"

lemma attempts_Suc: "attempts = Suc 7"
  by (simp add: attempts_def)

lemma retry_attempts:
  "update_with_retry get upd env key mutate attempts st =
     (case get st key of
        Inl (NotFoundError k) \<Rightarrow> (Inr None, st)
      | Inl e \<Rightarrow> (Inl e, st)
      | Inr current \<Rightarrow>
          (case mutate current of
             Inl e \<Rightarrow> (Inl e, st)
           | Inr (False, _) \<Rightarrow> (Inr (Some current), st)
           | Inr (True, candidate) \<Rightarrow>
               (let st' = env 7 st in
                (case upd candidate st' of
                   Inr (ob, st'') \<Rightarrow> (Inr (Some ob), st'')
                 | Inl (ConflictError m) \<Rightarrow> update_with_retry get upd env key mutate 7 st'
                 | Inl e \<Rightarrow> (Inl e, st')))))"
  by (simp only: attempts_Suc update_with_retry.simps)

text \<open>A mutator works on the copy it is given and leaves its identity and version alone.\<close>

definition keeps_identity :: "mutator \<Rightarrow> bool" where
  "keeps_identity mutate \<longleftrightarrow>
     (\<forall>ob b cand. mutate ob = Inr (b, cand) \<longrightarrow> b \<longrightarrow> okey cand = okey ob \<and> o_meta cand = o_meta ob)"

lemma keeps_identityD:
  "keeps_identity mutate \<Longrightarrow> mutate ob = Inr (True, cand) \<Longrightarrow>
   okey cand = okey ob \<and> o_meta cand = o_meta ob"
  by (auto simp: keeps_identity_def)

text \<open>
  How a store may change under a reader: the revision does not go back, and whatever is stored
  afterwards was there before or carries a version above the old revision.
\<close>

definition evolves ::
  "('s \<Rightarrow> string \<Rightarrow> obj option) \<Rightarrow> ('s \<Rightarrow> int) \<Rightarrow> 's \<Rightarrow> 's \<Rightarrow> bool" where
  "evolves view rvn s s' \<longleftrightarrow> rvn s \<le> rvn s' \<and>
     (\<forall>k ob. view s' k = Some ob \<longrightarrow> view s k = Some ob \<or> rvn s < orv ob)"

lemma evolves_refl [simp]: "evolves view rvn s s"
  by (simp add: evolves_def)

lemma evolves_trans:
  "evolves view rvn s s' \<Longrightarrow> evolves view rvn s' s'' \<Longrightarrow> evolves view rvn s s''"
  by (fastforce simp: evolves_def)

text \<open>The object an update stores: the candidate with its new generation and version.\<close>

definition committed :: "obj \<Rightarrow> obj \<Rightarrow> int \<Rightarrow> obj" where
  "committed current ob r =
     set_rv r (set_gen (m_generation (o_meta current) + (if o_spec ob \<noteq> o_spec current then 1 else 0)) ob)"

lemma committed_simps [simp]:
  "okey (committed cur ob r) = okey ob" "orv (committed cur ob r) = r"
  "o_spec (committed cur ob r) = o_spec ob" "o_status (committed cur ob r) = o_status ob"
  "o_kind (committed cur ob r) = o_kind ob"
  "m_name (o_meta (committed cur ob r)) = m_name (o_meta ob)"
  "m_owner (o_meta (committed cur ob r)) = m_owner (o_meta ob)"
  "m_labels (o_meta (committed cur ob r)) = m_labels (o_meta ob)"
  "m_annotations (o_meta (committed cur ob r)) = m_annotations (o_meta ob)"
  "m_created_at (o_meta (committed cur ob r)) = m_created_at (o_meta ob)"
  by (simp_all add: committed_def okey_def)

lemma committed_generation:
  "m_generation (o_meta (committed cur ob r)) =
     m_generation (o_meta cur) + (if o_spec ob \<noteq> o_spec cur then 1 else 0)"
  by (simp add: committed_def)

section \<open>The contract\<close>

locale cluster_store =
  fixes get :: "'s \<Rightarrow> string \<Rightarrow> obj res"
    and create :: "obj \<Rightarrow> 's \<Rightarrow> (obj \<times> 's) res"
    and upd :: "obj \<Rightarrow> 's \<Rightarrow> (obj \<times> 's) res"
    and del :: "string \<Rightarrow> 's \<Rightarrow> 's res"
    and view :: "'s \<Rightarrow> string \<Rightarrow> obj option"
    and rvn :: "'s \<Rightarrow> int"
  assumes get_eq: "get s k = (case view s k of Some ob \<Rightarrow> Inr ob | None \<Rightarrow> Inl (NotFoundError k))"
    and upd_missing: "view s (okey ob) = None \<Longrightarrow> upd ob s = Inl (NotFoundError (okey ob))"
    and upd_stale: "view s (okey ob) = Some cur \<Longrightarrow> orv ob \<noteq> orv cur \<Longrightarrow>
          \<exists>m. upd ob s = Inl (ConflictError m)"
    and upd_fresh: "view s (okey ob) = Some cur \<Longrightarrow> orv ob = orv cur \<Longrightarrow>
          \<exists>s'. upd ob s = Inr (committed cur ob (rvn s + 1), s') \<and> rvn s' = rvn s + 1 \<and>
               view s' = (view s)(okey ob \<mapsto> committed cur ob (rvn s + 1))"
    and create_taken: "view s (okey ob) = Some cur \<Longrightarrow> create ob s = Inl (AlreadyExistsError (okey ob))"
    and create_fresh: "view s (okey ob) = None \<Longrightarrow>
          \<exists>s' ob'. create ob s = Inr (ob', s') \<and> rvn s' = rvn s + 1 \<and> orv ob' = rvn s + 1 \<and>
               okey ob' = okey ob \<and> o_spec ob' = o_spec ob \<and> o_status ob' = o_status ob \<and>
               view s' = (view s)(okey ob \<mapsto> ob')"
    and del_missing: "view s k = None \<Longrightarrow> \<exists>m. del k s = Inl (NotFoundError m)"
    and del_present: "view s k = Some cur \<Longrightarrow>
          \<exists>s'. del k s = Inr s' \<and> rvn s' = rvn s + 1 \<and> view s' = (view s)(k := None)"
begin

definition versioned :: "'s \<Rightarrow> bool" where
  \<comment> \<open>objects sit under their key and carry a version the store has issued\<close>
  "versioned s \<longleftrightarrow> (\<forall>k ob. view s k = Some ob \<longrightarrow> okey ob = k \<and> orv ob \<le> rvn s)"

lemma upd_InrD:
  assumes "upd ob s = Inr (ob', s')"
  obtains cur where "view s (okey ob) = Some cur" "orv ob = orv cur"
    "ob' = committed cur ob (rvn s + 1)" "rvn s' = rvn s + 1"
    "view s' = (view s)(okey ob \<mapsto> ob')"
proof (cases "view s (okey ob)")
  case None
  with assms upd_missing show ?thesis by fastforce
next
  case (Some cur)
  with assms upd_stale [OF Some] upd_fresh [OF Some] that [OF Some] show ?thesis by fastforce
qed

lemma create_InrD:
  assumes "create ob s = Inr (ob', s')"
  shows "view s (okey ob) = None \<and> rvn s' = rvn s + 1 \<and> orv ob' = rvn s + 1 \<and>
         okey ob' = okey ob \<and> view s' = (view s)(okey ob \<mapsto> ob')"
proof (cases "view s (okey ob)")
  case None
  with assms create_fresh [OF None] show ?thesis by auto
next
  case (Some cur)
  with assms create_taken [OF Some] show ?thesis by simp
qed

lemma del_InrD:
  assumes "del k s = Inr s'"
  shows "rvn s' = rvn s + 1 \<and> view s' = (view s)(k := None)"
proof (cases "view s k")
  case None
  with assms del_missing [OF None] show ?thesis by auto
next
  case (Some cur)
  with assms del_present [OF Some] show ?thesis by auto
qed

text \<open>Every successful operation keeps the store versioned and lets it evolve.\<close>

lemma upd_step: "upd ob s = Inr (ob', s') \<Longrightarrow> versioned s \<Longrightarrow> versioned s' \<and> evolves view rvn s s'"
  by (erule upd_InrD) (fastforce simp: versioned_def evolves_def)

lemma create_step:
  "create ob s = Inr (ob', s') \<Longrightarrow> versioned s \<Longrightarrow> versioned s' \<and> evolves view rvn s s'"
  by (drule create_InrD) (fastforce simp: versioned_def evolves_def)

lemma del_step: "del k s = Inr s' \<Longrightarrow> versioned s \<Longrightarrow> versioned s' \<and> evolves view rvn s s'"
  by (drule del_InrD) (fastforce simp: versioned_def evolves_def)

text \<open>Of two writers that read the same version, at most one succeeds.\<close>

lemma second_writer_conflicts:
  assumes "versioned s" and "view s (okey a) = Some cur" "orv a = orv cur" "orv b = orv cur"
    and "okey b = okey a" and "upd a s = Inr (a', s')"
  shows "\<exists>m. upd b s' = Inl (ConflictError m)"
proof -
  from assms(6) obtain "view s' (okey a) = Some a'" "a' = committed cur a (rvn s + 1)"
    by (rule upd_InrD) (use assms(2) in auto)
  moreover have "orv cur \<le> rvn s" using assms(1,2) by (auto simp: versioned_def)
  ultimately show ?thesis using assms(4,5) upd_stale [of s' b a'] by simp
qed

text \<open>With no interference one attempt is enough.\<close>

lemma retry_quiet:
  assumes "view s key = Some cur" "mutate cur = Inr (True, cand)" "keeps_identity mutate"
    and "okey cur = key"
  shows "\<exists>s'. update_with_retry get upd quiet key mutate (Suc n) s =
            (Inr (Some (committed cur cand (rvn s + 1))), s') \<and> rvn s' = rvn s + 1 \<and>
            view s' = (view s)(key \<mapsto> committed cur cand (rvn s + 1))"
proof -
  have k: "okey cand = key" "orv cand = orv cur"
    using keeps_identityD [OF assms(3,2)] assms(4) by auto
  then have "view s (okey cand) = Some cur" using assms(1) by simp
  from upd_fresh [OF this] k show ?thesis
    using assms(1,2) by (auto simp: get_eq quiet_def)
qed

lemma retry_declined:
  "view s key = Some cur \<Longrightarrow> mutate cur = Inr (False, cand) \<Longrightarrow>
   update_with_retry get upd env key mutate (Suc n) s = (Inr (Some cur), s)"
  by (simp add: get_eq)

lemma retry_missing:
  "view s key = None \<Longrightarrow> update_with_retry get upd env key mutate (Suc n) s = (Inr None, s)"
  by (simp add: get_eq)

lemma retry_raises:
  "view s key = Some cur \<Longrightarrow> mutate cur = Inl e \<Longrightarrow>
   update_with_retry get upd env key mutate (Suc n) s = (Inl e, s)"
  by (simp add: get_eq)

lemma same_version_same_object:
  "versioned s \<Longrightarrow> evolves view rvn s s' \<Longrightarrow> view s k = Some a \<Longrightarrow> view s' k = Some b \<Longrightarrow>
   orv a = orv b \<Longrightarrow> a = b"
  by (fastforce simp: versioned_def evolves_def)

text \<open>
  No lost update, whatever other threads do in between: a result is either the current object,
  unchanged because the mutator declined it, or the mutation of exactly the object it replaces.
\<close>

lemma retry_no_lost_update:
  assumes "update_with_retry get upd env key mutate n s = (Inr (Some ob'), s')"
    and "versioned s" "keeps_identity mutate"
    and env: "\<And>i t. versioned t \<Longrightarrow> versioned (env i t) \<and> evolves view rvn t (env i t)"
  shows "\<exists>t cur. versioned t \<and> evolves view rvn s t \<and> view t key = Some cur \<and>
           ((\<exists>c. mutate cur = Inr (False, c)) \<and> ob' = cur \<and> s' = t \<or>
            (\<exists>cand. mutate cur = Inr (True, cand) \<and> ob' = committed cur cand (rvn t + 1) \<and>
               rvn s' = rvn t + 1 \<and> view s' = (view t)(key \<mapsto> ob')))"
  using assms(1,2)
proof (induction n arbitrary: s)
  case 0
  then show ?case by simp
next
  case (Suc n)
  obtain cur where cur: "view s key = Some cur"
    using Suc.prems(1) by (auto simp: get_eq split: option.splits)
  then have kc: "okey cur = key" using Suc.prems(2) by (auto simp: versioned_def)
  show ?case
  proof (cases "mutate cur")
    case (Inl e)
    with Suc.prems(1) cur show ?thesis by (simp add: get_eq)
  next
    case (Inr r)
    obtain b cand where r: "r = (b, cand)" by (cases r)
    show ?thesis
    proof (cases b)
      case False
      with Suc.prems cur Inr r show ?thesis
        by (intro exI [of _ s] exI [of _ cur]) (auto simp: get_eq)
    next
      case True
      let ?t = "env n s"
      have m: "mutate cur = Inr (True, cand)" using Inr r True by simp
      have k: "okey cand = key" "orv cand = orv cur"
        using keeps_identityD [OF assms(3) m] kc by auto
      have t: "versioned ?t" "evolves view rvn s ?t" using env [OF Suc.prems(2)] by auto
      show ?thesis
      proof (cases "upd cand ?t")
        case (Inr q)
        obtain ob1 s1 where q: "q = (ob1, s1)" by (cases q)
        with Inr Suc.prems(1) cur m have eq: "ob1 = ob'" "s1 = s'"
          by (auto simp: get_eq)
        obtain cur1 where c1: "view ?t key = Some cur1" "orv cand = orv cur1"
            "ob' = committed cur1 cand (rvn ?t + 1)" "rvn s' = rvn ?t + 1"
            "view s' = (view ?t)(key \<mapsto> ob')"
          using Inr q eq k by (auto elim: upd_InrD)
        have "cur1 = cur"
          using same_version_same_object [OF Suc.prems(2) t(2) cur c1(1)] c1(2) k(2) by simp
        with c1 m t show ?thesis by (intro exI [of _ ?t] exI [of _ cur]) simp
      next
        case (Inl e)
        then obtain msg where e: "e = ConflictError msg"
          using Suc.prems(1) cur m by (cases e) (auto simp: get_eq)
        then have "update_with_retry get upd env key mutate n ?t = (Inr (Some ob'), s')"
          using Suc.prems(1) m Inl get_eq [of s key] cur by simp
        from Suc.IH [OF this t(1)] show ?thesis using evolves_trans [OF t(2)] by blast
      qed
    qed
  qed
qed

end

end
