(* ===== verification/Memory_Store.thy ===== *)
theory Memory_Store
  imports Cluster_Store
begin

text \<open>
  \<open>MemoryStore\<close> of \<open>modules/orchestrator/orchestrator/store.py\<close>.  One method call is one
  atomic step (every method holds the store's lock).  \<open>ms_objects\<close> is the dictionary
  \<open>_objects\<close> in insertion order; a watcher is an identity, and \<open>ms_outbox\<close> records which
  event was handed to which watcher (a handler's own exception is swallowed by \<open>_emit\<close>, so it
  has no effect here).  \<open>now\<close> is the reading of \<open>time.time()\<close>.
\<close>

section \<open>State and operations\<close>

record mem_store =
  ms_objects :: "(string \<times> obj) list"
  ms_revision :: int
  ms_history :: "event list"
  ms_limit :: int
  ms_watchers :: "nat list"
  ms_outbox :: "(nat \<times> event) list"

definition ms_init :: "int \<Rightarrow> mem_store" where
  "ms_init history = \<lparr>ms_objects = [], ms_revision = 0, ms_history = [], ms_limit = history,
     ms_watchers = [], ms_outbox = []\<rparr>"

definition trim_history :: "int \<Rightarrow> event list \<Rightarrow> event list" where
  "trim_history limit h =
     (if int (length h) > limit then drop (nat (int (length h) - limit)) h else h)"

definition ms_emit :: "event \<Rightarrow> mem_store \<Rightarrow> mem_store" where
  "ms_emit ev st = st\<lparr>
     ms_history := trim_history (ms_limit st) (ms_history st @ [ev]),
     ms_outbox := ms_outbox st @ map (\<lambda>w. (w, ev)) (ms_watchers st)\<rparr>"

definition ms_create :: "rat \<Rightarrow> obj \<Rightarrow> mem_store \<Rightarrow> (obj \<times> mem_store) res" where
  "ms_create now ob st =
     (if map_of (ms_objects st) (okey ob) \<noteq> None then Inl (AlreadyExistsError (okey ob))
      else let r = ms_revision st + 1;
               stored = ob\<lparr>o_meta := (o_meta ob)\<lparr>m_rv := r,
                  m_created_at := (if m_created_at (o_meta ob) = 0 then now
                                   else m_created_at (o_meta ob))\<rparr>\<rparr>
           in Inr (stored, ms_emit \<lparr>ev_type = ADDED, ev_object = stored, ev_revision = r\<rparr>
                (st\<lparr>ms_revision := r,
                    ms_objects := AList.update (okey stored) stored (ms_objects st)\<rparr>)))"

definition ms_update :: "obj \<Rightarrow> mem_store \<Rightarrow> (obj \<times> mem_store) res" where
  "ms_update ob st =
     (case map_of (ms_objects st) (okey ob) of
        None \<Rightarrow> Inl (NotFoundError (okey ob))
      | Some current \<Rightarrow>
          if orv ob \<noteq> orv current
          then Inl (ConflictError (okey ob @ '': object has been modified (have ''
                 @ str_int (orv ob) @ '', current '' @ str_int (orv current) @ '')''))
          else let r = ms_revision st + 1;
                   g = m_generation (o_meta current) + (if o_spec ob \<noteq> o_spec current then 1 else 0);
                   stored = ob\<lparr>o_meta := (o_meta ob)\<lparr>m_generation := g, m_rv := r\<rparr>\<rparr>
               in Inr (stored, ms_emit \<lparr>ev_type = MODIFIED, ev_object = stored, ev_revision = r\<rparr>
                    (st\<lparr>ms_revision := r,
                        ms_objects := AList.update (okey stored) stored (ms_objects st)\<rparr>)))"

definition ms_delete :: "rat \<Rightarrow> string \<Rightarrow> mem_store \<Rightarrow> mem_store res" where
  "ms_delete now key st =
     (case map_of (ms_objects st) key of
        None \<Rightarrow> Inl (NotFoundError key)
      | Some existing \<Rightarrow>
          let r = ms_revision st + 1;
              gone = existing\<lparr>o_meta := (o_meta existing)\<lparr>m_deleted_at := now\<rparr>\<rparr>
          in Inr (ms_emit \<lparr>ev_type = DELETED, ev_object = gone, ev_revision = r\<rparr>
               (st\<lparr>ms_revision := r, ms_objects := AList.delete key (ms_objects st)\<rparr>)))"

definition ms_get :: "mem_store \<Rightarrow> string \<Rightarrow> obj res" where
  "ms_get st key = (case map_of (ms_objects st) key of
      None \<Rightarrow> Inl (NotFoundError key) | Some ob \<Rightarrow> Inr ob)"

definition selected :: "string \<Rightarrow> dict option \<Rightarrow> obj \<Rightarrow> bool" where
  "selected kind selector ob \<longleftrightarrow>
     (kind = [] \<or> o_kind ob = kind) \<and> (case selector of None \<Rightarrow> True | Some s \<Rightarrow> matches ob s)"

definition ms_list :: "mem_store \<Rightarrow> string \<Rightarrow> dict option \<Rightarrow> obj list" where
  "ms_list st kind selector =
     sort_key okey (filter (selected kind selector) (map snd (ms_objects st)))"

definition ms_events_since :: "mem_store \<Rightarrow> int \<Rightarrow> event list res" where
  "ms_events_since st r =
     (case ms_history st of
        [] \<Rightarrow> Inr []
      | e # _ \<Rightarrow>
          if r < ev_revision e - 1
          then Inl (ConflictError (''revision '' @ str_int r @ '' is older than the retained history''))
          else Inr (filter (\<lambda>ev. ev_revision ev > r) (ms_history st)))"

definition ms_watch :: "nat \<Rightarrow> mem_store \<Rightarrow> mem_store" where
  "ms_watch w st = st\<lparr>ms_watchers := ms_watchers st @ [w]\<rparr>"

definition ms_cancel :: "nat \<Rightarrow> mem_store \<Rightarrow> mem_store" where
  \<comment> \<open>the closure \<open>watch\<close> returns: remove the first registration of this handler, if any\<close>
  "ms_cancel w st = st\<lparr>ms_watchers := remove1 w (ms_watchers st)\<rparr>"

abbreviation "ms_retry \<equiv> update_with_retry ms_get ms_update"

section \<open>The store satisfies the contract\<close>

definition ms_view :: "mem_store \<Rightarrow> string \<Rightarrow> obj option" where
  "ms_view st = map_of (ms_objects st)"

lemma ms_emit_simps [simp]:
  "ms_objects (ms_emit ev st) = ms_objects st" "ms_revision (ms_emit ev st) = ms_revision st"
  "ms_limit (ms_emit ev st) = ms_limit st" "ms_watchers (ms_emit ev st) = ms_watchers st"
  by (simp_all add: ms_emit_def)

lemma ms_view_emit [simp]: "ms_view (ms_emit ev st) = ms_view st"
  by (simp add: ms_view_def)

lemma ms_update_committed:
  "map_of (ms_objects st) (okey ob) = Some cur \<Longrightarrow> orv ob = orv cur \<Longrightarrow>
   ms_update ob st = Inr (committed cur ob (ms_revision st + 1),
     ms_emit \<lparr>ev_type = MODIFIED, ev_object = committed cur ob (ms_revision st + 1),
              ev_revision = ms_revision st + 1\<rparr>
       (st\<lparr>ms_revision := ms_revision st + 1,
           ms_objects := AList.update (okey ob) (committed cur ob (ms_revision st + 1)) (ms_objects st)\<rparr>))"
  by (simp add: ms_update_def committed_def Let_def)

interpretation mem: cluster_store ms_get "ms_create now" ms_update "ms_delete now" ms_view ms_revision
  for now
proof unfold_locales
  show "ms_get s k = (case ms_view s k of None \<Rightarrow> Inl (NotFoundError k) | Some ob \<Rightarrow> Inr ob)" for s k
    by (simp add: ms_get_def ms_view_def)
  show "ms_update ob s = Inl (NotFoundError (okey ob))" if "ms_view s (okey ob) = None" for s ob
    using that by (simp add: ms_update_def ms_view_def)
  show "\<exists>m. ms_update ob s = Inl (ConflictError m)"
    if "ms_view s (okey ob) = Some cur" "orv ob \<noteq> orv cur" for s ob cur
    using that by (simp add: ms_update_def ms_view_def)
  show "\<exists>s'. ms_update ob s = Inr (committed cur ob (ms_revision s + 1), s') \<and>
          ms_revision s' = ms_revision s + 1 \<and>
          ms_view s' = (ms_view s)(okey ob \<mapsto> committed cur ob (ms_revision s + 1))"
    if "ms_view s (okey ob) = Some cur" "orv ob = orv cur" for s ob cur
    using that by (simp add: ms_update_committed ms_view_def update_conv')
  show "ms_create now ob s = Inl (AlreadyExistsError (okey ob))"
    if "ms_view s (okey ob) = Some cur" for s ob cur
    using that by (simp add: ms_create_def ms_view_def)
  show "\<exists>s' ob'. ms_create now ob s = Inr (ob', s') \<and> ms_revision s' = ms_revision s + 1 \<and>
          orv ob' = ms_revision s + 1 \<and> okey ob' = okey ob \<and> o_spec ob' = o_spec ob \<and>
          o_status ob' = o_status ob \<and> ms_view s' = (ms_view s)(okey ob \<mapsto> ob')"
    if "ms_view s (okey ob) = None" for s ob
    using that by (simp add: ms_create_def ms_view_def Let_def update_conv')
  show "\<exists>m. ms_delete now k s = Inl (NotFoundError m)" if "ms_view s k = None" for s k
    using that by (simp add: ms_delete_def ms_view_def)
  show "\<exists>s'. ms_delete now k s = Inr s' \<and> ms_revision s' = ms_revision s + 1 \<and>
          ms_view s' = (ms_view s)(k := None)"
    if "ms_view s k = Some cur" for s k cur
    using that by (simp add: ms_delete_def ms_view_def Let_def delete_conv')
qed

end
