(* ===== verification/Memory_Store_Props.thy ===== *)
theory Memory_Store_Props
  imports Memory_Store
begin

text \<open>
  What \<open>MemoryStore\<close> guarantees over arbitrary sequences of calls: the well-formedness of its
  tables, the global revision, the retained history as a suffix of everything that ever
  happened, and the resumption of a watch without gaps.
\<close>

section \<open>Runs of the store\<close>

datatype ms_op =
    Create rat obj
  | Update obj
  | Delete rat string
  | Watch nat
  | Cancel nat

text \<open>
  One call, together with the ghost log of all events the store ever published.  A call that
  raises changes nothing.
\<close>

fun ms_step :: "ms_op \<Rightarrow> mem_store \<times> event list \<Rightarrow> mem_store \<times> event list" where
  "ms_step (Create now ob) (st, evs) =
     (case ms_create now ob st of Inl _ \<Rightarrow> (st, evs)
      | Inr (ob', st') \<Rightarrow>
          (st', evs @ [\<lparr>ev_type = ADDED, ev_object = ob', ev_revision = ms_revision st'\<rparr>]))"
| "ms_step (Update ob) (st, evs) =
     (case ms_update ob st of Inl _ \<Rightarrow> (st, evs)
      | Inr (ob', st') \<Rightarrow>
          (st', evs @ [\<lparr>ev_type = MODIFIED, ev_object = ob', ev_revision = ms_revision st'\<rparr>]))"
| "ms_step (Delete now key) (st, evs) =
     (case ms_delete now key st of Inl _ \<Rightarrow> (st, evs)
      | Inr st' \<Rightarrow>
          (let old = the (map_of (ms_objects st) key)
           in (st', evs @ [\<lparr>ev_type = DELETED,
                 ev_object = old\<lparr>o_meta := (o_meta old)\<lparr>m_deleted_at := now\<rparr>\<rparr>,
                 ev_revision = ms_revision st'\<rparr>])))"
| "ms_step (Watch w) (st, evs) = (ms_watch w st, evs)"
| "ms_step (Cancel w) (st, evs) = (ms_cancel w st, evs)"

definition ms_run :: "ms_op list \<Rightarrow> mem_store \<times> event list \<Rightarrow> mem_store \<times> event list" where
  "ms_run ops s = fold ms_step ops s"

lemma ms_run_Nil [simp]: "ms_run [] s = s"
  by (simp add: ms_run_def)

lemma ms_run_Cons [simp]: "ms_run (op # ops) s = ms_run ops (ms_step op s)"
  by (simp add: ms_run_def)

lemma ms_run_append: "ms_run (xs @ ys) s = ms_run ys (ms_run xs s)"
  by (simp add: ms_run_def)

text \<open>The effect of a published event on a replica of the object table.\<close>

definition apply_event :: "event \<Rightarrow> (string \<Rightarrow> obj option) \<Rightarrow> (string \<Rightarrow> obj option)" where
  "apply_event ev v =
     (if ev_type ev = DELETED then v(ev_key ev := None) else v(ev_key ev \<mapsto> ev_object ev))"

section \<open>The invariant\<close>

definition ms_tables_ok :: "mem_store \<Rightarrow> bool" where
  "ms_tables_ok st \<longleftrightarrow>
     distinct (map fst (ms_objects st)) \<and>
     (\<forall>k ob. (k, ob) \<in> set (ms_objects st) \<longrightarrow> okey ob = k \<and> 1 \<le> orv ob \<and> orv ob \<le> ms_revision st) \<and>
     distinct (map (\<lambda>p. orv (snd p)) (ms_objects st)) \<and> 0 \<le> ms_revision st"

definition ms_log_ok :: "mem_store \<Rightarrow> event list \<Rightarrow> bool" where
  "ms_log_ok st evs \<longleftrightarrow>
     map ev_revision evs = [1..ms_revision st] \<and>
     ms_history st = drop (length evs - nat (ms_limit st)) evs \<and>
     ms_view st = fold apply_event evs Map.empty"

definition ms_inv :: "mem_store \<times> event list \<Rightarrow> bool" where
  "ms_inv s \<longleftrightarrow> ms_tables_ok (fst s) \<and> ms_log_ok (fst s) (snd s)"

lemma ms_inv_init: "ms_inv (ms_init limit, [])"
  by (simp add: ms_inv_def ms_tables_ok_def ms_log_ok_def ms_init_def ms_view_def)

lemma trim_suffix:
  assumes "h = drop (length evs - nat limit) evs"
  shows "trim_history limit (h @ [ev]) = drop (length (evs @ [ev]) - nat limit) (evs @ [ev])"
  using assms by (auto simp: trim_history_def nat_diff_distrib Suc_diff_le not_le nat_le_iff)

lemma ms_tables_ok_write:
  assumes "ms_tables_ok st" "okey ob = k" "orv ob = ms_revision st + 1"
  shows "ms_tables_ok (ms_emit ev (st\<lparr>ms_revision := ms_revision st + 1,
           ms_objects := AList.update k ob (ms_objects st)\<rparr>))"
proof -
  let ?os = "AList.update k ob (ms_objects st)"
  have new: "\<forall>p \<in> set (ms_objects st). orv (snd p) \<le> ms_revision st"
    using assms(1) by (auto simp: ms_tables_ok_def)
  have "distinct (map (\<lambda>p. orv (snd p)) ?os)"
    by (rule alist_update_distinct_vals) (use assms new in \<open>force simp: ms_tables_ok_def\<close>)+
  moreover have "distinct (map fst ?os)"
    using assms(1) by (simp add: ms_tables_ok_def distinct_update)
  moreover have "\<forall>k' ob'. (k', ob') \<in> set ?os \<longrightarrow>
      okey ob' = k' \<and> 1 \<le> orv ob' \<and> orv ob' \<le> ms_revision st + 1"
    using set_alist_update_subset [of k ob "ms_objects st"] assms
    by (fastforce simp: ms_tables_ok_def)
  ultimately show ?thesis using assms(1) by (simp add: ms_tables_ok_def)
qed

lemma ms_tables_ok_delete:
  assumes "ms_tables_ok st"
  shows "ms_tables_ok (ms_emit ev (st\<lparr>ms_revision := ms_revision st + 1,
           ms_objects := AList.delete k (ms_objects st)\<rparr>))"
  using assms set_alist_delete_subset [of k "ms_objects st"]
  by (fastforce simp: ms_tables_ok_def alist_delete_distinct alist_delete_distinct_vals)

lemma ms_log_ok_event:
  assumes "ms_log_ok st evs" "0 \<le> ms_revision st" "ev_revision ev = ms_revision st + 1"
    and "map_of os = apply_event ev (ms_view st)"
  shows "ms_log_ok (ms_emit ev (st\<lparr>ms_revision := ms_revision st + 1, ms_objects := os\<rparr>)) (evs @ [ev])"
proof -
  have "ms_history (ms_emit ev (st\<lparr>ms_revision := ms_revision st + 1, ms_objects := os\<rparr>)) =
      drop (length (evs @ [ev]) - nat (ms_limit st)) (evs @ [ev])"
    using trim_suffix [of "ms_history st" evs "ms_limit st" ev] assms(1)
    by (simp add: ms_emit_def ms_log_ok_def)
  with assms show ?thesis
    by (simp add: ms_log_ok_def upto_rec2 ms_view_def [of "_\<lparr>ms_revision := _, ms_objects := _\<rparr>"])
qed

lemma map_of_in_set: "map_of al k = Some v \<Longrightarrow> (k, v) \<in> set al"
  by (rule map_of_SomeD)

lemma ms_step_inv: "ms_inv (st, evs) \<Longrightarrow> ms_inv (ms_step op (st, evs))"
proof (cases op)
  assume inv: "ms_inv (st, evs)"
  then have t: "ms_tables_ok st" and l: "ms_log_ok st evs" and r: "0 \<le> ms_revision st"
    by (auto simp: ms_inv_def ms_tables_ok_def)
  {
    case (Create now ob)
    show ?thesis
    proof (cases "map_of (ms_objects st) (okey ob)")
      case None
      with Create t l r show ?thesis
        by (simp add: ms_create_def Let_def ms_inv_def ms_tables_ok_write ms_log_ok_event
            apply_event_def ev_key_def update_conv' ms_view_def)
    next
      case (Some cur)
      with Create inv show ?thesis by (simp add: ms_create_def)
    qed
  next
    case (Update ob)
    show ?thesis
    proof (cases "\<exists>cur. map_of (ms_objects st) (okey ob) = Some cur \<and> orv ob = orv cur")
      case True
      with Update t l r show ?thesis
        by (auto simp: ms_update_committed ms_inv_def ms_tables_ok_write ms_log_ok_event
            apply_event_def ev_key_def update_conv' ms_view_def)
    next
      case False
      with Update inv show ?thesis by (auto simp: ms_update_def split: option.splits)
    qed
  next
    case (Delete now key)
    show ?thesis
    proof (cases "map_of (ms_objects st) key")
      case None
      with Delete inv show ?thesis by (simp add: ms_delete_def)
    next
      case (Some cur)
      then have "okey cur = key" using t by (auto simp: ms_tables_ok_def dest: map_of_SomeD)
      with Delete Some t l r show ?thesis
        by (simp add: ms_delete_def Let_def ms_inv_def ms_tables_ok_delete ms_log_ok_event
            apply_event_def ev_key_def delete_conv' ms_view_def)
    qed
  next
    case (Watch w)
    with inv show ?thesis by (simp add: ms_inv_def ms_tables_ok_def ms_log_ok_def ms_watch_def ms_view_def)
  next
    case (Cancel w)
    with inv show ?thesis by (simp add: ms_inv_def ms_tables_ok_def ms_log_ok_def ms_cancel_def ms_view_def)
  }
qed

lemma ms_run_inv: "ms_inv s \<Longrightarrow> ms_inv (ms_run ops s)"
proof (induction ops arbitrary: s)
  case (Cons op ops)
  then show ?case using ms_step_inv [of "fst s" "snd s" op] by simp
qed simp

section \<open>The retained history\<close>

lemma revs_nth: "map ev_revision evs = [1..int (length evs)] \<Longrightarrow> i < length evs \<Longrightarrow>
    ev_revision (evs ! i) = 1 + int i"
  by (drule arg_cong [where f = "\<lambda>xs. xs ! i"]) simp

lemma filter_newer:
  assumes "map ev_revision evs = [1..int (length evs)]"
  shows "filter (\<lambda>e. r < ev_revision e) evs = drop (nat r) evs"
proof -
  have "filter (\<lambda>e. r < ev_revision e) (take (nat r) evs) = []"
    using revs_nth [OF assms] by (auto simp: filter_empty_conv in_set_conv_nth)
  moreover have "filter (\<lambda>e. r < ev_revision e) (drop (nat r) evs) = drop (nat r) evs"
    using revs_nth [OF assms] by (auto simp: filter_id_conv in_set_conv_nth)
  ultimately show ?thesis
    by (metis append_take_drop_id filter_append append_Nil)
qed

lemma filter_newer_drop:
  assumes "map ev_revision evs = [1..int (length evs)]" "int d \<le> r"
  shows "filter (\<lambda>e. r < ev_revision e) (drop d evs) = drop (nat r) evs"
proof -
  have "filter (\<lambda>e. r < ev_revision e) (take d evs) = []"
    using revs_nth [OF assms(1)] assms(2) by (auto simp: filter_empty_conv in_set_conv_nth)
  with filter_newer [OF assms(1), of r] show ?thesis
    by (metis append_take_drop_id filter_append append_Nil)
qed

lemma ms_log_revs:
  assumes "ms_log_ok st evs" "0 \<le> ms_revision st"
  shows "map ev_revision evs = [1..int (length evs)]" "int (length evs) = ms_revision st"
proof -
  have "length evs = length [1..ms_revision st]"
    using assms(1) by (metis ms_log_ok_def length_map)
  then show "int (length evs) = ms_revision st" using assms(2) by simp
  with assms(1) show "map ev_revision evs = [1..int (length evs)]" by (simp add: ms_log_ok_def)
qed

lemma ms_events_since_exact:
  assumes "ms_inv (st, evs)" "0 < ms_limit st"
  shows "evs = [] \<or> int (length evs - nat (ms_limit st)) \<le> r \<Longrightarrow>
         ms_events_since st r = Inr (filter (\<lambda>e. r < ev_revision e) evs)"
    and "(\<exists>m. ms_events_since st r = Inl (ConflictError m)) \<longleftrightarrow>
         evs \<noteq> [] \<and> r < int (length evs - nat (ms_limit st))"
proof -
  let ?d = "length evs - nat (ms_limit st)"
  have ok: "ms_log_ok st evs" "0 \<le> ms_revision st"
    using assms(1) by (auto simp: ms_inv_def ms_tables_ok_def)
  note revs = ms_log_revs(1) [OF ok]
  have h: "ms_history st = drop ?d evs" using ok by (simp add: ms_log_ok_def)
  have c: "drop ?d evs = evs ! ?d # drop (Suc ?d) evs" "ev_revision (evs ! ?d) = 1 + int ?d"
    if "evs \<noteq> []"
    using that assms(2) revs_nth [OF revs, of ?d] by (auto intro: Cons_nth_drop_Suc [symmetric])
  show "(\<exists>m. ms_events_since st r = Inl (ConflictError m)) \<longleftrightarrow> evs \<noteq> [] \<and> r < int ?d"
    by (cases "evs = []") (simp_all add: ms_events_since_def h c)
  assume "evs = [] \<or> int ?d \<le> r"
  then show "ms_events_since st r = Inr (filter (\<lambda>e. r < ev_revision e) evs)"
  proof (cases "evs = []")
    case False
    with \<open>evs = [] \<or> int ?d \<le> r\<close> have r: "int ?d \<le> r" by simp
    have "filter (\<lambda>e. r < ev_revision e) (drop ?d evs) = filter (\<lambda>e. r < ev_revision e) evs"
      using filter_newer [OF revs, of r] filter_newer_drop [OF revs r] by simp
    moreover have "ms_events_since st r = Inr (filter (\<lambda>e. r < ev_revision e) (drop ?d evs))"
      using r c [OF False] by (simp add: ms_events_since_def h del: of_nat_diff)
    ultimately show ?thesis by simp
  qed (simp add: ms_events_since_def h)
qed

lemma ms_events_since_result:
  assumes "ms_inv (st, evs)" "0 < ms_limit st" "ms_events_since st r = Inr es"
  shows "es = filter (\<lambda>e. r < ev_revision e) evs"
proof -
  have "evs = [] \<or> int (length evs - nat (ms_limit st)) \<le> r"
    using ms_events_since_exact(2) [OF assms(1,2), of r] assms(3) by (auto simp del: of_nat_diff)
  with ms_events_since_exact(1) [OF assms(1,2)] assms(3) show ?thesis by simp
qed

lemma ms_gap_iff:
  assumes "ms_inv (st, evs)" "0 < ms_limit st" "0 \<le> r"
  shows "evs \<noteq> [] \<and> r < int (length evs - nat (ms_limit st)) \<longleftrightarrow>
         (\<exists>e \<in> set evs. r < ev_revision e \<and> e \<notin> set (ms_history st))"
proof -
  let ?d = "length evs - nat (ms_limit st)"
  have ok: "ms_log_ok st evs" "0 \<le> ms_revision st"
    using assms(1) by (auto simp: ms_inv_def ms_tables_ok_def)
  note nth = revs_nth [OF ms_log_revs(1) [OF ok]]
  have h: "ms_history st = drop ?d evs" using ok by (simp add: ms_log_ok_def)
  have notin: "evs ! i \<notin> set (drop ?d evs)" if "i < ?d" for i
  proof
    assume "evs ! i \<in> set (drop ?d evs)"
    then obtain j where j: "j \<ge> ?d" "j < length evs" "evs ! j = evs ! i"
      by (auto simp: in_set_drop_iff)
    with that nth [of i] nth [of j] show False by simp
  qed
  show ?thesis
  proof
    assume a: "evs \<noteq> [] \<and> r < int ?d"
    then show "\<exists>e \<in> set evs. r < ev_revision e \<and> e \<notin> set (ms_history st)"
    proof (cases "?d = 0")
      case True
      with a assms(3) show ?thesis by (simp del: of_nat_diff)
    next
      case False
      with a nth [of "?d - 1"] notin [of "?d - 1"] show ?thesis
        unfolding h by (intro bexI [of _ "evs ! (?d - 1)"]) auto
    qed
  next
    assume "\<exists>e \<in> set evs. r < ev_revision e \<and> e \<notin> set (ms_history st)"
    then obtain i where i: "i < length evs" "r < ev_revision (evs ! i)" "evs ! i \<notin> set (drop ?d evs)"
      unfolding h by (auto simp: in_set_conv_nth)
    then have "i < ?d" by (metis in_set_drop_iff not_less)
    with i nth [of i] show "evs \<noteq> [] \<and> r < int ?d" by auto
  qed
qed

text \<open>Later events only extend the log, with revisions above the earlier revision.\<close>

lemma ms_step_log: "\<exists>new. snd (ms_step op (st, evs)) = evs @ new"
  by (cases op) (auto split: sum.split prod.split simp: Let_def)

lemma ms_run_log: "\<exists>new. snd (ms_run ops s) = snd s @ new"
proof (induction ops arbitrary: s)
  case (Cons op ops)
  obtain n1 where "snd (ms_step op s) = snd s @ n1" using ms_step_log [of op "fst s" "snd s"] by auto
  then show ?case using Cons [of "ms_step op s"] by auto
qed simp

lemma ms_run_limit: "ms_limit (fst (ms_run ops s)) = ms_limit (fst s)"
proof (induction ops arbitrary: s)
  case (Cons op ops)
  have "ms_limit (fst (ms_step op s)) = ms_limit (fst s)"
    by (cases s; cases op)
      (auto simp: ms_create_def ms_update_def ms_delete_def ms_watch_def ms_cancel_def Let_def
        split: option.split)
  with Cons show ?case by simp
qed simp

lemma ms_resume:
  assumes "ms_inv s1" "s2 = ms_run ops s1" "0 < ms_limit (fst s1)"
    and "ms_events_since (fst s2) (ms_revision (fst s1)) = Inr es"
  shows "ms_view (fst s2) = fold apply_event es (ms_view (fst s1))"
proof -
  obtain st1 l1 where s1: "s1 = (st1, l1)" by (cases s1)
  obtain st2 l2 where s2: "s2 = (st2, l2)" by (cases s2)
  have i2: "ms_inv (st2, l2)" using ms_run_inv [OF assms(1)] assms(2) s2 by simp
  obtain new where l2: "l2 = l1 @ new" using ms_run_log [of ops s1] assms(2) s1 s2 by (metis snd_conv)
  have ok1: "ms_log_ok st1 l1" "0 \<le> ms_revision st1"
    using assms(1) s1 by (auto simp: ms_inv_def ms_tables_ok_def)
  have ok2: "ms_log_ok st2 l2" "0 \<le> ms_revision st2"
    using i2 by (auto simp: ms_inv_def ms_tables_ok_def)
  have lim: "0 < ms_limit st2" using assms(2,3) ms_run_limit [of ops s1] s1 s2 by (metis fst_conv)
  have "es = filter (\<lambda>e. ms_revision st1 < ev_revision e) l2"
    using ms_events_since_result [OF i2 lim] assms(4) s1 s2 by simp
  also have "\<dots> = drop (nat (ms_revision st1)) l2"
    by (rule filter_newer [OF ms_log_revs(1) [OF ok2]])
  also have "\<dots> = new" using ms_log_revs(2) [OF ok1] l2 by simp
  finally show ?thesis using ok1 ok2 l2 s1 s2 by (simp add: ms_log_ok_def)
qed

section \<open>Properties\<close>

text \<open>
  C3: resuming a watch is gap-free.  After any sequence of calls on a fresh store that keeps a
  positive history, \<open>events_since r\<close> either returns exactly the events ever published with a
  revision above \<open>r\<close>, in order, or raises \<open>ConflictError\<close>; it raises precisely when an event
  above \<open>r\<close> has been dropped from the retained history.
\<close>

theorem events_since_no_gap:
  assumes "(st, evs) = ms_run ops (ms_init limit, [])" "0 < limit" "0 \<le> r"
  shows "if \<exists>e \<in> set evs. r < ev_revision e \<and> e \<notin> set (ms_history st)
         then \<exists>m. ms_events_since st r = Inl (ConflictError m)
         else ms_events_since st r = Inr (filter (\<lambda>e. r < ev_revision e) evs)"
proof -
  have i: "ms_inv (st, evs)" using ms_run_inv [OF ms_inv_init] assms(1) by metis
  have l: "0 < ms_limit st"
    using ms_run_limit [of ops "(ms_init limit, [])"] assms(1,2) by (metis fst_conv ms_init_def mem_store.select_convs(4))
  show ?thesis
    using ms_events_since_exact [OF i l, of r] ms_gap_iff [OF i l assms(3)]
    by (auto simp del: of_nat_diff)
qed

definition demo_pod :: obj where
  \<comment> \<open>a concrete object for the witnesses\<close>
  "demo_pod = new_object POD ''p'' fmempty ''default'' fmempty '''' ''u1'' 1"

theorem events_since_no_gap_witness:
  "let s = ms_run [Create 1 demo_pod, Delete 2 (okey demo_pod)] (ms_init 1, [])
   in if \<exists>e \<in> set (snd s). 0 < ev_revision e \<and> e \<notin> set (ms_history (fst s))
      then \<exists>m. ms_events_since (fst s) 0 = Inl (ConflictError m)
      else ms_events_since (fst s) 0 = Inr (filter (\<lambda>e. 0 < ev_revision e) (snd s))"
  unfolding Let_def
  by (rule events_since_no_gap [OF prod.collapse]) simp_all

text \<open>
  C4: a replica that took the table at one revision and then applies what \<open>events_since\<close>
  returns for that revision holds exactly the current table: additions, modifications and
  deletions are all reported, once and in order.
\<close>

theorem watch_resume_reconstructs:
  assumes "s1 = ms_run ops1 (ms_init limit, [])" "s2 = ms_run ops2 s1" "0 < limit"
    and "ms_events_since (fst s2) (ms_revision (fst s1)) = Inr es"
  shows "ms_view (fst s2) = fold apply_event es (ms_view (fst s1))"
proof (rule ms_resume [OF _ assms(2) _ assms(4)])
  show "ms_inv s1" unfolding assms(1) by (rule ms_run_inv [OF ms_inv_init])
  show "0 < ms_limit (fst s1)"
    unfolding assms(1) ms_run_limit using assms(3) by (simp add: ms_init_def)
qed

lemma demo_run: "ms_events_since (fst (ms_run [Create 1 demo_pod] (ms_init 4096, []))) 0 =
    Inr (snd (ms_run [Create 1 demo_pod] (ms_init 4096, [])))"
  by (simp add: ms_create_def ms_init_def ms_emit_def trim_history_def Let_def ms_events_since_def)

theorem watch_resume_reconstructs_witness:
  "let s = ms_run [Create 1 demo_pod] (ms_init 4096, [])
   in ms_view (fst s) = fold apply_event (snd s) Map.empty"
  using watch_resume_reconstructs [of "(ms_init 4096, [])" "[]" 4096 _ "[Create 1 demo_pod]"]
    demo_run by (simp add: Let_def ms_init_def ms_view_def)

text \<open>Calls of other threads keep the tables well formed and only move versions forward.\<close>

lemma tables_ok_versioned: "ms_tables_ok st \<Longrightarrow> mem.versioned st"
  by (auto simp: ms_tables_ok_def mem.versioned_def ms_view_def dest!: map_of_SomeD)

lemma ms_step_evolves:
  assumes "mem.versioned st"
  shows "mem.versioned (fst (ms_step op (st, l))) \<and>
         evolves ms_view ms_revision st (fst (ms_step op (st, l)))"
proof (cases op)
  case (Create now ob)
  with assms mem.create_step [of now ob st] show ?thesis by (auto split: sum.split)
next
  case (Update ob)
  with assms mem.upd_step [of ob st] show ?thesis by (auto split: sum.split)
next
  case (Delete now k)
  with assms mem.del_step [of now k st] show ?thesis by (auto split: sum.split simp: Let_def)
next
  case (Watch w)
  with assms show ?thesis
    by (simp add: ms_watch_def mem.versioned_def ms_view_def evolves_def)
next
  case (Cancel w)
  with assms show ?thesis
    by (simp add: ms_cancel_def mem.versioned_def ms_view_def evolves_def)
qed

lemma ms_run_evolves:
  "mem.versioned st \<Longrightarrow> mem.versioned (fst (ms_run ops (st, l))) \<and>
     evolves ms_view ms_revision st (fst (ms_run ops (st, l)))"
proof (induction ops arbitrary: st l)
  case (Cons op ops)
  obtain st' l' where s: "ms_step op (st, l) = (st', l')" by (cases "ms_step op (st, l)")
  with ms_step_evolves [OF Cons.prems, of op l] Cons.IH [of st' l'] evolves_trans show ?case
    by fastforce
qed simp

text \<open>
  C1: no lost update.  Whatever calls other threads make between the reads and the writes of
  \<open>update_with_retry\<close>, a returned object is either the current one, left alone because the
  mutator declined it, or the mutator's output on exactly the version it replaces.
\<close>

theorem update_with_retry_no_lost_update:
  assumes "ms_retry (\<lambda>i t. fst (ms_run (others i) (t, []))) key mutate n st = (Inr (Some ob'), st')"
    and "ms_tables_ok st" "keeps_identity mutate"
  shows "\<exists>t cur. evolves ms_view ms_revision st t \<and> ms_view t key = Some cur \<and>
           ((\<exists>c. mutate cur = Inr (False, c)) \<and> ob' = cur \<and> st' = t \<or>
            (\<exists>cand. mutate cur = Inr (True, cand) \<and> ob' = committed cur cand (ms_revision t + 1) \<and>
               ms_view st' = (ms_view t)(key \<mapsto> ob')))"
  using mem.retry_no_lost_update [OF assms(1) tables_ok_versioned [OF assms(2)] assms(3)]
    ms_run_evolves by blast

definition touch :: mutator where
  \<comment> \<open>a status write, as the controllers make it\<close>
  "touch ob = Inr (True, ob\<lparr>o_status := fmupd ''seen'' (JBool True) (o_status ob)\<rparr>)"

lemma touch_keeps_identity: "keeps_identity touch"
  by (simp add: keeps_identity_def touch_def)

theorem update_with_retry_no_lost_update_witness:
  "let st = fst (ms_run [Create 1 demo_pod] (ms_init 4096, []));
       r = ms_retry (\<lambda>i t. fst (ms_run [] (t, []))) (okey demo_pod) touch attempts st
   in \<exists>t cur ob'. fst r = Inr (Some ob') \<and> ms_view t (okey demo_pod) = Some cur \<and>
        touch cur = Inr (True, cur\<lparr>o_status := fmupd ''seen'' (JBool True) (o_status cur)\<rparr>)"
proof -
  define st where "st = fst (ms_run [Create 1 demo_pod] (ms_init 4096, []))"
  have t: "ms_tables_ok st"
    using ms_run_inv [OF ms_inv_init, of "[Create 1 demo_pod]" 4096]
    by (auto simp: st_def ms_inv_def)
  obtain ob' st' where r: "ms_retry (\<lambda>i t. fst (ms_run [] (t, []))) (okey demo_pod) touch attempts st =
      (Inr (Some ob'), st')"
    by (simp add: st_def retry_attempts ms_create_def ms_init_def ms_emit_def trim_history_def Let_def
        ms_get_def touch_def ms_update_def)
  from update_with_retry_no_lost_update [OF r t touch_keeps_identity]
  show ?thesis unfolding Let_def st_def [symmetric] r by (auto simp: touch_def)
qed

lemma trim_last: "trim_history l (h @ [ev]) = drop (length h + 1 - nat l) (h @ [ev])"
proof (cases "l < 0")
  case True
  then have "Suc (length h) \<le> nat (1 + int (length h) - l)" by linarith
  with True show ?thesis by (simp add: trim_history_def)
next
  case False
  then have "nat (1 + int (length h) - l) = Suc (length h) - nat l" by linarith
  with False show ?thesis by (simp add: trim_history_def not_less)
qed

text \<open>
  C2: Compare-and-swap on the resource version.  An update raises \<open>NotFoundError\<close> if there is no object
  of that key, \<open>ConflictError\<close> if it does not carry the object's current version, and otherwise
  succeeds.  Then what is stored and returned is the given object with all its fields but two: the version is the
  next global revision, and the generation is the current object's, plus one only if the spec differs.
  Every other object is left alone; the event is appended to the history, of which the last
  \<open>history\<close> events are kept, and handed to every watcher; nothing else changes.
\<close>

theorem update_compare_and_swap:
  "case ms_view st (okey ob) of
     None \<Rightarrow> ms_update ob st = Inl (NotFoundError (okey ob))
   | Some cur \<Rightarrow>
       (let stored = ob\<lparr>o_meta := (o_meta ob)\<lparr>m_generation := (if o_spec ob = o_spec cur then m_generation (o_meta cur)
              else m_generation (o_meta cur) + 1), m_rv := ms_revision st + 1\<rparr>\<rparr>;
            ev = \<lparr>ev_type = MODIFIED, ev_object = stored, ev_revision = ms_revision st + 1\<rparr>
        in if orv ob = orv cur
           then \<exists>st'. ms_update ob st = Inr (stored, st') \<and> ms_revision st' = ms_revision st + 1 \<and>
                  ms_view st' = (ms_view st)(okey ob \<mapsto> stored) \<and>
                  ms_history st' = drop (length (ms_history st) + 1 - nat (ms_limit st)) (ms_history st @ [ev]) \<and>
                  ms_outbox st' = ms_outbox st @ map (\<lambda>w. (w, ev)) (ms_watchers st) \<and>
                  ms_limit st' = ms_limit st \<and> ms_watchers st' = ms_watchers st
           else \<exists>m. ms_update ob st = Inl (ConflictError m))"
proof (cases "ms_view st (okey ob)")
  case None
  then show ?thesis by (simp add: ms_update_def ms_view_def)
next
  case (Some cur)
  show ?thesis
  proof (cases "orv ob = orv cur")
    case True
    from True Some show ?thesis
      by (simp add: ms_update_committed ms_view_def update_conv' ms_emit_def committed_def trim_last Let_def)
  next
    case False
    with mem.upd_stale [OF Some] Some show ?thesis by (simp add: Let_def)
  qed
qed

theorem update_compare_and_swap_witness:
  "let st = fst (ms_run [Create 1 demo_pod] (ms_init 4096, []))
   in \<exists>m. ms_update demo_pod st = Inl (ConflictError m)"
proof -
  let ?st = "fst (ms_run [Create 1 demo_pod] (ms_init 4096, []))"
  have v: "ms_view ?st (okey demo_pod) = Some (set_rv 1 demo_pod)"
    by (simp add: ms_create_def ms_init_def Let_def ms_view_def demo_pod_def new_object_def okey_def)
  have "orv demo_pod \<noteq> orv (set_rv 1 demo_pod)" by (simp add: demo_pod_def new_object_def)
  with update_compare_and_swap [of demo_pod ?st] v show ?thesis by (simp add: Let_def)
qed

text \<open>
  Two controllers that read the same version and write the same object cannot both succeed:
  after the first write the second raises \<open>ConflictError\<close>.
\<close>

theorem concurrent_writers_conflict:
  assumes "ms_tables_ok st" "ms_view st (okey a) = Some cur" "orv a = orv cur" "orv b = orv cur"
    and "okey b = okey a"
  shows "\<exists>a' st' m. ms_update a st = Inr (a', st') \<and> ms_update b st' = Inl (ConflictError m)"
proof -
  from mem.upd_fresh [OF assms(2,3)] obtain a' st' where "ms_update a st = Inr (a', st')" by blast
  with mem.second_writer_conflicts [OF tables_ok_versioned [OF assms(1)] assms(2-5)] show ?thesis
    by blast
qed

theorem concurrent_writers_conflict_witness:
  "let st = fst (ms_run [Create 1 demo_pod] (ms_init 4096, []))
   in \<exists>a' st' m. ms_update (set_rv 1 demo_pod) st = Inr (a', st') \<and>
        ms_update (set_rv 1 demo_pod) st' = Inl (ConflictError m)"
proof -
  let ?st = "fst (ms_run [Create 1 demo_pod] (ms_init 4096, []))"
  have v: "ms_view ?st (okey (set_rv 1 demo_pod)) = Some (set_rv 1 demo_pod)"
    by (simp add: ms_create_def ms_init_def Let_def ms_view_def demo_pod_def new_object_def okey_def)
  have t: "ms_tables_ok ?st"
    using ms_run_inv [OF ms_inv_init, of "[Create 1 demo_pod]" 4096] by (simp add: ms_inv_def)
  from concurrent_writers_conflict [OF t v refl refl refl] show ?thesis by (simp add: Let_def)
qed

end
