(* ===== verification/Object_Machine.thy ===== *)
theory Object_Machine
  imports Memory_Store_Props
begin

text \<open>
  The replicated back end of \<open>modules/orchestrator/orchestrator/store.py\<close>:
  \<open>ObjectStateMachine\<close>, which every Raft member applies its committed commands to, and
  \<open>RaftStore\<close>, which proposes commands and decodes their recorded results.  A command text
  \<open>"VERB id payload"\<close> is a constructor; a JSON payload is represented by what \<open>json.loads\<close>
  returns (\<open>None\<close> when it is not JSON).  What the Raft member answers (leadership, commit) is an
  argument, as is the machine at the moment the polling loop ends.
\<close>

section \<open>The replicated state machine\<close>

datatype reply = Body json | Note string

record obj_machine =
  sm_objects :: "(string \<times> obj) list"
  sm_revision :: int
  sm_history :: "event list"
  sm_results :: "(string \<times> (bool \<times> reply)) list"
  sm_listeners :: "nat list"
  sm_outbox :: "(nat \<times> event) list"

definition sm_init :: obj_machine where
  "sm_init = \<lparr>sm_objects = [], sm_revision = 0, sm_history = [], sm_results = [],
     sm_listeners = [], sm_outbox = []\<rparr>"

datatype sm_command =
    Unsplittable string
  | CREATE string "json option"
  | UPDATE string "json option"
  | DELETE string string
  | OtherVerb string string

fun exc_kind :: "exc \<Rightarrow> string" where
  "exc_kind (ConflictError m) = ''ConflictError''"
| "exc_kind (NotFoundError m) = ''NotFoundError''"
| "exc_kind (AlreadyExistsError m) = ''AlreadyExistsError''"
| "exc_kind (TimeoutError m) = ''TimeoutError''"
| "exc_kind (RuntimeError m) = ''RuntimeError''"
| "exc_kind (ValueError m) = ''ValueError''"
| "exc_kind (KeyError m) = ''KeyError''"
| "exc_kind (TypeError m) = ''TypeError''"
| "exc_kind (AttributeError m) = ''AttributeError''"
| "exc_kind (IndexError m) = ''IndexError''"

fun exc_msg :: "exc \<Rightarrow> string" where
  "exc_msg (ConflictError m) = m" | "exc_msg (NotFoundError m) = m"
| "exc_msg (AlreadyExistsError m) = m" | "exc_msg (TimeoutError m) = m"
| "exc_msg (RuntimeError m) = m" | "exc_msg (ValueError m) = m"
| "exc_msg (KeyError m) = m" | "exc_msg (TypeError m) = m"
| "exc_msg (AttributeError m) = m" | "exc_msg (IndexError m) = m"

definition sm_record :: "event \<Rightarrow> obj_machine \<Rightarrow> obj_machine" where
  "sm_record ev st = st\<lparr>
     sm_history := trim_history 4096 (sm_history st @ [ev]),
     sm_outbox := sm_outbox st @ map (\<lambda>w. (w, ev)) (sm_listeners st)\<rparr>"

definition do_create :: "obj \<Rightarrow> obj_machine \<Rightarrow> (bool \<times> reply) \<times> obj_machine" where
  "do_create ob st =
     (if map_of (sm_objects st) (okey ob) \<noteq> None
      then ((False, Note (''AlreadyExistsError: '' @ okey ob)), st)
      else let r = sm_revision st + 1; stored = set_rv r ob
           in ((True, Body (obj_serialise stored)),
               sm_record \<lparr>ev_type = ADDED, ev_object = stored, ev_revision = r\<rparr>
                 (st\<lparr>sm_revision := r, sm_objects := AList.update (okey stored) stored (sm_objects st)\<rparr>)))"

definition do_update :: "obj \<Rightarrow> obj_machine \<Rightarrow> (bool \<times> reply) \<times> obj_machine" where
  "do_update ob st =
     (case map_of (sm_objects st) (okey ob) of
        None \<Rightarrow> ((False, Note (''NotFoundError: '' @ okey ob)), st)
      | Some current \<Rightarrow>
          if orv ob \<noteq> orv current
          then ((False, Note (''ConflictError: '' @ okey ob @ '': object has been modified (have ''
                  @ str_int (orv ob) @ '', current '' @ str_int (orv current) @ '')'')), st)
          else let g = m_generation (o_meta current) + (if o_spec ob \<noteq> o_spec current then 1 else 0);
                   r = sm_revision st + 1;
                   stored = set_rv r (set_gen g ob)
               in ((True, Body (obj_serialise stored)),
                   sm_record \<lparr>ev_type = MODIFIED, ev_object = stored, ev_revision = r\<rparr>
                     (st\<lparr>sm_revision := r,
                         sm_objects := AList.update (okey stored) stored (sm_objects st)\<rparr>)))"

definition do_delete :: "string \<Rightarrow> obj_machine \<Rightarrow> (bool \<times> reply) \<times> obj_machine" where
  "do_delete key st =
     (case map_of (sm_objects st) key of
        None \<Rightarrow> ((False, Note (''NotFoundError: '' @ key)), st)
      | Some existing \<Rightarrow>
          let r = sm_revision st + 1
          in ((True, Note []),
              sm_record \<lparr>ev_type = DELETED, ev_object = existing, ev_revision = r\<rparr>
                (st\<lparr>sm_revision := r, sm_objects := AList.delete key (sm_objects st)\<rparr>)))"

definition set_result :: "string \<Rightarrow> bool \<times> reply \<Rightarrow> obj_machine \<Rightarrow> obj_machine" where
  "set_result rid r st = st\<lparr>sm_results := AList.update rid r (sm_results st)\<rparr>"

definition deserialise_text :: "json option \<Rightarrow> obj res" where
  "deserialise_text t = (case t of
      None \<Rightarrow> Inl (ValueError ''not JSON'') | Some j \<Rightarrow> obj_deserialise j)"

fun sm_apply :: "sm_command \<Rightarrow> obj_machine \<Rightarrow> obj_machine" where
  "sm_apply (Unsplittable _) st = st"
| "sm_apply (CREATE rid text) st =
     (case deserialise_text text of
        Inl e \<Rightarrow> set_result rid (False, Note (exc_kind e @ '': '' @ exc_msg e)) st
      | Inr ob \<Rightarrow> (case do_create ob st of (r, st') \<Rightarrow> set_result rid r st'))"
| "sm_apply (UPDATE rid text) st =
     (case deserialise_text text of
        Inl e \<Rightarrow> set_result rid (False, Note (exc_kind e @ '': '' @ exc_msg e)) st
      | Inr ob \<Rightarrow> (case do_update ob st of (r, st') \<Rightarrow> set_result rid r st'))"
| "sm_apply (DELETE rid key) st = (case do_delete key st of (r, st') \<Rightarrow> set_result rid r st')"
| "sm_apply (OtherVerb _ _) st = st"

definition sm_get :: "obj_machine \<Rightarrow> string \<Rightarrow> json option" where
  "sm_get st key = map_option obj_serialise (map_of (sm_objects st) key)"

definition result_for :: "obj_machine \<Rightarrow> string \<Rightarrow> (bool \<times> reply) option" where
  "result_for st rid = map_of (sm_results st) rid"

definition sm_snapshot :: "obj_machine \<Rightarrow> (string \<times> json) list" where
  "sm_snapshot st = map (\<lambda>(k, ob). (k, obj_serialise ob)) (sm_objects st)"

definition sm_restore :: "(string \<times> json) list \<Rightarrow> obj_machine \<Rightarrow> obj_machine res" where
  "sm_restore snap st =
     ebind (emap (\<lambda>(k, t). ebind (obj_deserialise t) (\<lambda>ob. Inr (k, ob))) snap)
       (\<lambda>os. Inr (st\<lparr>sm_objects := os\<rparr>))"

section \<open>RaftStore\<close>

fun partition_colon :: "string \<Rightarrow> string \<times> string" where
  \<comment> \<open>\<open>detail.partition(": ")\<close>, without the middle component\<close>
  "partition_colon (a # b # s) =
     (if a = CHR '':'' \<and> b = CHR '' '' then ([], s)
      else (case partition_colon (b # s) of (x, y) \<Rightarrow> (a # x, y)))"
| "partition_colon s = (s, [])"

definition raised_as :: "string \<Rightarrow> exc" where
  \<comment> \<open>the exception the failed result is turned back into\<close>
  "raised_as detail =
     (case partition_colon detail of (kind, message) \<Rightarrow>
        let m = (if message = [] then detail else message)
        in if kind = ''ConflictError'' then ConflictError m
           else if kind = ''NotFoundError'' then NotFoundError m
           else if kind = ''AlreadyExistsError'' then AlreadyExistsError m
           else RuntimeError m)"

definition rs_decode :: "bool \<times> reply \<Rightarrow> reply res" where
  "rs_decode r = (case r of
      (True, detail) \<Rightarrow> Inr detail
    | (False, Note d) \<Rightarrow> Inl (raised_as d)
    | (False, Body j) \<Rightarrow> Inl (RuntimeError ''''))"

text \<open>
  \<open>_propose\<close>: \<open>accepted\<close> is what the Raft node's \<open>propose\<close> answers, \<open>commit_ok\<close> what
  \<open>wait_for_commit\<close> answers, and \<open>later\<close> the local machine when the result polling ends.
\<close>

definition rs_propose :: "bool \<Rightarrow> bool \<Rightarrow> obj_machine \<Rightarrow> string \<Rightarrow> reply res" where
  "rs_propose accepted commit_ok later rid =
     (if \<not> accepted then Inl (ConflictError ''not the leader'')
      else if \<not> commit_ok then Inl (TimeoutError ''did not commit'')
      else (case result_for later rid of
              None \<Rightarrow> Inl (TimeoutError ''committed but was never applied'')
            | Some r \<Rightarrow> rs_decode r))"

definition rs_body :: "reply \<Rightarrow> obj res" where
  "rs_body r = (case r of Body j \<Rightarrow> obj_deserialise j | Note _ \<Rightarrow> Inl (ValueError ''not JSON''))"

definition rs_create :: "bool \<Rightarrow> bool \<Rightarrow> string \<Rightarrow> obj \<Rightarrow> obj_machine \<Rightarrow> (obj \<times> obj_machine) res" where
  "rs_create accepted commit_ok rid ob st =
     (let later = sm_apply (CREATE rid (Some (obj_serialise ob))) st
      in ebind (ebind (rs_propose accepted commit_ok later rid) rs_body) (\<lambda>o'. Inr (o', later)))"

definition rs_update :: "bool \<Rightarrow> bool \<Rightarrow> string \<Rightarrow> obj \<Rightarrow> obj_machine \<Rightarrow> (obj \<times> obj_machine) res" where
  "rs_update accepted commit_ok rid ob st =
     (let later = sm_apply (UPDATE rid (Some (obj_serialise ob))) st
      in ebind (ebind (rs_propose accepted commit_ok later rid) rs_body) (\<lambda>o'. Inr (o', later)))"

definition rs_delete :: "bool \<Rightarrow> bool \<Rightarrow> string \<Rightarrow> string \<Rightarrow> obj_machine \<Rightarrow> obj_machine res" where
  "rs_delete accepted commit_ok rid key st =
     (let later = sm_apply (DELETE rid key) st
      in ebind (rs_propose accepted commit_ok later rid) (\<lambda>_. Inr later))"

definition rs_get :: "obj_machine \<Rightarrow> string \<Rightarrow> obj res" where
  "rs_get st key = (case sm_get st key of
      None \<Rightarrow> Inl (NotFoundError key) | Some t \<Rightarrow> obj_deserialise t)"

definition rs_list :: "obj_machine \<Rightarrow> string \<Rightarrow> dict option \<Rightarrow> obj list res" where
  "rs_list st kind selector =
     ebind (emap (\<lambda>(k, t). obj_deserialise t) (sm_snapshot st))
       (\<lambda>os. Inr (sort_key okey (filter (selected kind selector) os)))"

definition rs_events_since :: "obj_machine \<Rightarrow> int \<Rightarrow> event list" where
  "rs_events_since st r = filter (\<lambda>ev. ev_revision ev > r) (sm_history st)"

definition rs_watch :: "nat \<Rightarrow> obj_machine \<Rightarrow> obj_machine" where
  "rs_watch w st = st\<lparr>sm_listeners := sm_listeners st @ [w]\<rparr>"

definition rs_cancel :: "nat \<Rightarrow> obj_machine \<Rightarrow> obj_machine" where
  "rs_cancel w st = st\<lparr>sm_listeners := remove1 w (sm_listeners st)\<rparr>"

section \<open>The replicated store satisfies the same contract\<close>

definition sm_view :: "obj_machine \<Rightarrow> string \<Rightarrow> obj option" where
  "sm_view st = map_of (sm_objects st)"

lemma sm_record_simps [simp]:
  "sm_objects (sm_record ev st) = sm_objects st" "sm_revision (sm_record ev st) = sm_revision st"
  "sm_results (sm_record ev st) = sm_results st"
  by (simp_all add: sm_record_def)

lemma set_result_simps [simp]:
  "sm_objects (set_result rid r st) = sm_objects st"
  "sm_revision (set_result rid r st) = sm_revision st"
  "sm_history (set_result rid r st) = sm_history st"
  "result_for (set_result rid r st) rid' = (if rid = rid' then Some r else result_for st rid')"
  by (simp_all add: set_result_def result_for_def update_conv')

lemma partition_colon_prefix:
  "CHR '':'' \<notin> set k \<Longrightarrow> partition_colon (k @ '': '' @ m) = (k, m)"
proof (induction k)
  case (Cons c k)
  then show ?case by (cases k) auto
qed simp

lemma raised_as_kinds:
  "m \<noteq> [] \<Longrightarrow> raised_as (''NotFoundError: '' @ m) = NotFoundError m"
  "m \<noteq> [] \<Longrightarrow> raised_as (''AlreadyExistsError: '' @ m) = AlreadyExistsError m"
  "m \<noteq> [] \<Longrightarrow> raised_as (''ConflictError: '' @ m) = ConflictError m"
  using partition_colon_prefix [of "''NotFoundError''" m]
    partition_colon_prefix [of "''AlreadyExistsError''" m]
    partition_colon_prefix [of "''ConflictError''" m]
  by (simp_all add: raised_as_def)

lemmas raised_as_simps [simp] = raised_as_kinds [simplified]

lemma okey_ne [simp]: "okey ob \<noteq> []" "[] \<noteq> okey ob"
  by (auto simp: okey_def)

text \<open>The outcome of a proposal that is accepted, committed and applied.\<close>

lemma rs_update_sync:
  "rs_update True True rid ob st =
     (case map_of (sm_objects st) (okey ob) of
        None \<Rightarrow> Inl (NotFoundError (okey ob))
      | Some cur \<Rightarrow>
          if orv ob = orv cur
          then Inr (committed cur ob (sm_revision st + 1),
                    set_result rid (True, Body (obj_serialise (committed cur ob (sm_revision st + 1))))
                      (sm_record \<lparr>ev_type = MODIFIED, ev_object = committed cur ob (sm_revision st + 1),
                                  ev_revision = sm_revision st + 1\<rparr>
                        (st\<lparr>sm_revision := sm_revision st + 1,
                            sm_objects := AList.update (okey ob)
                              (committed cur ob (sm_revision st + 1)) (sm_objects st)\<rparr>)))
          else Inl (ConflictError (okey ob @ '': object has been modified (have ''
                  @ str_int (orv ob) @ '', current '' @ str_int (orv cur) @ '')'')))"
  by (auto simp: rs_update_def deserialise_text_def do_update_def rs_propose_def rs_decode_def
      rs_body_def committed_def Let_def split: option.split)

lemma rs_create_sync:
  "rs_create True True rid ob st =
     (case map_of (sm_objects st) (okey ob) of
        Some _ \<Rightarrow> Inl (AlreadyExistsError (okey ob))
      | None \<Rightarrow>
          Inr (set_rv (sm_revision st + 1) ob,
               set_result rid (True, Body (obj_serialise (set_rv (sm_revision st + 1) ob)))
                 (sm_record \<lparr>ev_type = ADDED, ev_object = set_rv (sm_revision st + 1) ob,
                             ev_revision = sm_revision st + 1\<rparr>
                   (st\<lparr>sm_revision := sm_revision st + 1,
                       sm_objects := AList.update (okey ob) (set_rv (sm_revision st + 1) ob)
                         (sm_objects st)\<rparr>))))"
  by (auto simp: rs_create_def deserialise_text_def do_create_def rs_propose_def rs_decode_def
      rs_body_def Let_def split: option.split)

lemma rs_delete_sync:
  "rs_delete True True rid key st =
     (case map_of (sm_objects st) key of
        None \<Rightarrow> Inl (if key = [] then NotFoundError ''NotFoundError: '' else NotFoundError key)
      | Some cur \<Rightarrow>
          Inr (set_result rid (True, Note [])
            (sm_record \<lparr>ev_type = DELETED, ev_object = cur, ev_revision = sm_revision st + 1\<rparr>
              (st\<lparr>sm_revision := sm_revision st + 1, sm_objects := AList.delete key (sm_objects st)\<rparr>))))"
  by (auto simp: rs_delete_def do_delete_def rs_propose_def rs_decode_def raised_as_def Let_def
      split: option.split)

lemma rs_get_eq: "rs_get st key = (case sm_view st key of Some ob \<Rightarrow> Inr ob | None \<Rightarrow> Inl (NotFoundError key))"
  by (simp add: rs_get_def sm_get_def sm_view_def split: option.split)

lemma sm_view_set_result [simp]: "sm_view (set_result rid r st) = sm_view st"
  by (simp add: sm_view_def)

interpretation rst: cluster_store rs_get "rs_create True True rid" "rs_update True True rid"
    "rs_delete True True rid" sm_view sm_revision
  for rid
proof unfold_locales
  show "rs_get s k = (case sm_view s k of None \<Rightarrow> Inl (NotFoundError k) | Some ob \<Rightarrow> Inr ob)" for s k
    by (simp add: rs_get_eq)
  show "rs_update True True rid ob s = Inl (NotFoundError (okey ob))"
    if "sm_view s (okey ob) = None" for s ob
    using that by (simp add: rs_update_sync sm_view_def)
  show "\<exists>m. rs_update True True rid ob s = Inl (ConflictError m)"
    if "sm_view s (okey ob) = Some cur" "orv ob \<noteq> orv cur" for s ob cur
    using that by (simp add: rs_update_sync sm_view_def)
  show "\<exists>s'. rs_update True True rid ob s = Inr (committed cur ob (sm_revision s + 1), s') \<and>
          sm_revision s' = sm_revision s + 1 \<and>
          sm_view s' = (sm_view s)(okey ob \<mapsto> committed cur ob (sm_revision s + 1))"
    if "sm_view s (okey ob) = Some cur" "orv ob = orv cur" for s ob cur
    using that by (simp add: rs_update_sync sm_view_def update_conv')
  show "rs_create True True rid ob s = Inl (AlreadyExistsError (okey ob))"
    if "sm_view s (okey ob) = Some cur" for s ob cur
    using that by (simp add: rs_create_sync sm_view_def)
  show "\<exists>s' ob'. rs_create True True rid ob s = Inr (ob', s') \<and> sm_revision s' = sm_revision s + 1 \<and>
          orv ob' = sm_revision s + 1 \<and> okey ob' = okey ob \<and> o_spec ob' = o_spec ob \<and>
          o_status ob' = o_status ob \<and> sm_view s' = (sm_view s)(okey ob \<mapsto> ob')"
    if "sm_view s (okey ob) = None" for s ob
    using that by (simp add: rs_create_sync sm_view_def update_conv')
  show "\<exists>m. rs_delete True True rid k s = Inl (NotFoundError m)" if "sm_view s k = None" for s k
    using that by (simp add: rs_delete_sync sm_view_def)
  show "\<exists>s'. rs_delete True True rid k s = Inr s' \<and> sm_revision s' = sm_revision s + 1 \<and>
          sm_view s' = (sm_view s)(k := None)"
    if "sm_view s k = Some cur" for s k cur
    using that by (simp add: rs_delete_sync sm_view_def delete_conv')
qed

section \<open>Properties\<close>

lemma obj_of_serialised [simp]: "deserialise_text (Some (obj_serialise ob)) = Inr ob"
  by (simp add: deserialise_text_def)

text \<open>
  A command is answered: once a create, update or delete has been applied, its request has a
  result, whatever the payload was.
\<close>

lemma sm_apply_answers:
  "c = CREATE rid t \<or> c = UPDATE rid t \<or> c = DELETE rid k \<Longrightarrow> result_for (sm_apply c st) rid \<noteq> None"
  by (auto split: sum.split prod.split)

text \<open>
  The two back ends agree.  The memory store stamps a missing creation time and the deletion
  time; apart from those clock readings the tables evolve in step.
\<close>

definition unstamp :: "obj \<Rightarrow> obj" where
  "unstamp ob = ob\<lparr>o_meta := (o_meta ob)\<lparr>m_created_at := 0, m_deleted_at := 0\<rparr>\<rparr>"

lemma unstamp_simps [simp]:
  "okey (unstamp ob) = okey ob" "orv (unstamp ob) = orv ob" "o_spec (unstamp ob) = o_spec ob"
  "o_status (unstamp ob) = o_status ob" "o_kind (unstamp ob) = o_kind ob"
  "m_generation (o_meta (unstamp ob)) = m_generation (o_meta ob)"
  by (simp_all add: unstamp_def okey_def)

definition agree :: "mem_store \<Rightarrow> obj_machine \<Rightarrow> bool" where
  "agree ms sm \<longleftrightarrow> ms_revision ms = sm_revision sm \<and>
     (\<forall>k. map_option unstamp (ms_view ms k) = map_option unstamp (sm_view sm k))"

lemma agree_cases:
  assumes "agree ms sm"
  shows "ms_revision ms = sm_revision sm"
    and "(ms_view ms k = None \<and> sm_view sm k = None) \<or>
         (\<exists>a b. ms_view ms k = Some a \<and> sm_view sm k = Some b \<and> unstamp a = unstamp b)"
proof -
  show "ms_revision ms = sm_revision sm" using assms by (simp add: agree_def)
  have "map_option unstamp (ms_view ms k) = map_option unstamp (sm_view sm k)"
    using assms by (simp add: agree_def)
  then show "(ms_view ms k = None \<and> sm_view sm k = None) \<or>
         (\<exists>a b. ms_view ms k = Some a \<and> sm_view sm k = Some b \<and> unstamp a = unstamp b)"
    by (cases "ms_view ms k"; cases "sm_view sm k") auto
qed

lemma unstamp_eqD:
  assumes "unstamp a = unstamp b"
  shows "orv a = orv b" "o_spec a = o_spec b" "m_generation (o_meta a) = m_generation (o_meta b)"
  using assms unstamp_simps by metis+

lemma unstamp_committed: "unstamp a = unstamp b \<Longrightarrow> committed a ob r = committed b ob r"
  by (simp add: committed_def unstamp_eqD [of a b])

lemma sm_view_record [simp]:
  "sm_view (sm_record ev (st\<lparr>sm_revision := r, sm_objects := os\<rparr>)) = map_of os"
  by (simp add: sm_view_def)

definition same_outcome :: "(obj \<times> mem_store) res \<Rightarrow> (obj \<times> obj_machine) res \<Rightarrow> bool" where
  \<comment> \<open>both succeed with the same object up to clock readings and in agreeing states, or both
      raise the same kind of exception\<close>
  "same_outcome x y = (case (x, y) of
      (Inr (a, ms), Inr (b, sm)) \<Rightarrow> unstamp a = unstamp b \<and> agree ms sm
    | (Inl e, Inl f) \<Rightarrow> exc_kind e = exc_kind f
    | _ \<Rightarrow> False)"

lemma agree_update:
  "agree ms sm \<Longrightarrow> same_outcome (ms_update ob ms) (rs_update True True rid ob sm)"
proof -
  assume ag: "agree ms sm"
  note rv = agree_cases(1) [OF ag]
  from agree_cases(2) [OF ag, of "okey ob"] show ?thesis
  proof (elim disjE exE conjE)
    assume "ms_view ms (okey ob) = None" "sm_view sm (okey ob) = None"
    then show ?thesis
      by (simp add: ms_update_def ms_view_def rs_update_sync sm_view_def same_outcome_def)
  next
    fix a b assume v: "ms_view ms (okey ob) = Some a" "sm_view sm (okey ob) = Some b"
      "unstamp a = unstamp b"
    show ?thesis
    proof (cases "orv ob = orv a")
      case True
      with v ag rv show ?thesis
        by (auto simp: ms_update_committed rs_update_sync same_outcome_def agree_def
            ms_view_def sm_view_def update_conv' unstamp_eqD(1) [OF v(3)] unstamp_committed [OF v(3)])
    next
      case False
      with v show ?thesis
        by (simp add: ms_update_def rs_update_sync same_outcome_def ms_view_def sm_view_def
            unstamp_eqD(1) [OF v(3)])
    qed
  qed
qed

lemma agree_create:
  "agree ms sm \<Longrightarrow> same_outcome (ms_create now ob ms) (rs_create True True rid ob sm)"
proof -
  assume ag: "agree ms sm"
  note rv = agree_cases(1) [OF ag]
  from agree_cases(2) [OF ag, of "okey ob"] show ?thesis
  proof (elim disjE exE conjE)
    assume "ms_view ms (okey ob) = None" "sm_view sm (okey ob) = None"
    with ag rv show ?thesis
      by (auto simp: ms_create_def ms_view_def rs_create_sync sm_view_def same_outcome_def Let_def
          agree_def update_conv' unstamp_def)
  next
    fix a b assume v: "ms_view ms (okey ob) = Some a" "sm_view sm (okey ob) = Some b"
      "unstamp a = unstamp b"
    then show ?thesis
      by (simp add: ms_create_def ms_view_def rs_create_sync sm_view_def same_outcome_def)
  qed
qed

lemma agree_delete:
  assumes ag: "agree ms sm"
  shows "case (ms_delete now k ms, rs_delete True True rid k sm) of
           (Inr ms', Inr sm') \<Rightarrow> agree ms' sm' | (Inl e, Inl f) \<Rightarrow> exc_kind e = exc_kind f | _ \<Rightarrow> False"
  using agree_cases(2) [OF ag, of k] ag
  by (auto simp: ms_delete_def ms_view_def rs_delete_sync sm_view_def Let_def agree_def delete_conv')

text \<open>
  The calls of one client history, as every Raft member replays them.
\<close>

fun sm_step :: "ms_op \<Rightarrow> obj_machine \<Rightarrow> obj_machine" where
  "sm_step (Create now ob) st = sm_apply (CREATE ''r'' (Some (obj_serialise ob))) st"
| "sm_step (Update ob) st = sm_apply (UPDATE ''r'' (Some (obj_serialise ob))) st"
| "sm_step (Delete now key) st = sm_apply (DELETE ''r'' key) st"
| "sm_step (Watch w) st = rs_watch w st"
| "sm_step (Cancel w) st = rs_cancel w st"

definition sm_run :: "ms_op list \<Rightarrow> obj_machine \<Rightarrow> obj_machine" where
  "sm_run ops st = fold sm_step ops st"

lemma sm_run_Cons [simp]: "sm_run (op # ops) st = sm_run ops (sm_step op st)" "sm_run [] st = st"
  by (simp_all add: sm_run_def)

lemma failed_apply_unchanged:
  "rs_update True True rid ob st = Inl e \<Longrightarrow>
     sm_view (sm_apply (UPDATE rid (Some (obj_serialise ob))) st) = sm_view st \<and>
     sm_revision (sm_apply (UPDATE rid (Some (obj_serialise ob))) st) = sm_revision st"
  "rs_create True True rid ob st = Inl e \<Longrightarrow>
     sm_view (sm_apply (CREATE rid (Some (obj_serialise ob))) st) = sm_view st \<and>
     sm_revision (sm_apply (CREATE rid (Some (obj_serialise ob))) st) = sm_revision st"
  "rs_delete True True rid key st = Inl e \<Longrightarrow>
     sm_view (sm_apply (DELETE rid key) st) = sm_view st \<and>
     sm_revision (sm_apply (DELETE rid key) st) = sm_revision st"
  by (auto simp: rs_update_sync rs_create_sync rs_delete_sync do_update_def do_create_def do_delete_def
      split: option.splits if_splits)

lemma sync_state:
  "rs_update True True rid ob st = Inr (o', s') \<Longrightarrow> s' = sm_apply (UPDATE rid (Some (obj_serialise ob))) st"
  "rs_create True True rid ob st = Inr (o', s') \<Longrightarrow> s' = sm_apply (CREATE rid (Some (obj_serialise ob))) st"
  "rs_delete True True rid key st = Inr s' \<Longrightarrow> s' = sm_apply (DELETE rid key) st"
  by (auto simp: rs_update_def rs_create_def rs_delete_def Let_def ebind_Inr_iff)

lemma agree_frame:
  "agree ms sm \<Longrightarrow> sm_view sm' = sm_view sm \<and> sm_revision sm' = sm_revision sm \<Longrightarrow> agree ms sm'"
  by (simp add: agree_def)

lemma agree_step:
  assumes "agree (fst s) sm"
  shows "agree (fst (ms_step op s)) (sm_step op sm)"
proof (cases op)
  case (Create now ob)
  obtain st l where s: "s = (st, l)" by (cases s)
  have so: "same_outcome (ms_create now ob st) (rs_create True True ''r'' ob sm)"
    using agree_create assms s by simp
  show ?thesis
  proof (cases "rs_create True True ''r'' ob sm")
    case (Inl e)
    with so Create s assms agree_frame [OF _ failed_apply_unchanged(2) [OF Inl]] show ?thesis
      by (auto simp: same_outcome_def simp del: sm_apply.simps split: sum.splits)
  next
    case (Inr q)
    with so Create s sync_state(2) [of "''r''" ob sm "fst q" "snd q"] show ?thesis
      by (auto simp: same_outcome_def simp del: sm_apply.simps split: sum.splits prod.splits)
  qed
next
  case (Update ob)
  obtain st l where s: "s = (st, l)" by (cases s)
  have so: "same_outcome (ms_update ob st) (rs_update True True ''r'' ob sm)"
    using agree_update assms s by simp
  show ?thesis
  proof (cases "rs_update True True ''r'' ob sm")
    case (Inl e)
    with so Update s assms agree_frame [OF _ failed_apply_unchanged(1) [OF Inl]] show ?thesis
      by (auto simp: same_outcome_def simp del: sm_apply.simps split: sum.splits)
  next
    case (Inr q)
    with so Update s sync_state(1) [of "''r''" ob sm "fst q" "snd q"] show ?thesis
      by (auto simp: same_outcome_def simp del: sm_apply.simps split: sum.splits prod.splits)
  qed
next
  case (Delete now key)
  obtain st l where s: "s = (st, l)" by (cases s)
  have ag: "agree st sm" using assms s by simp
  show ?thesis
  proof (cases "rs_delete True True ''r'' key sm")
    case (Inl e)
    with agree_delete [OF ag, of now key "''r''"] Delete s ag
      agree_frame [OF _ failed_apply_unchanged(3) [OF Inl]] show ?thesis
      by (auto simp del: sm_apply.simps split: sum.splits)
  next
    case (Inr q)
    with agree_delete [OF ag, of now key "''r''"] Delete s sync_state(3) [OF Inr] show ?thesis
      by (auto simp: Let_def simp del: sm_apply.simps split: sum.splits)
  qed
next
  case (Watch w)
  with assms show ?thesis
    by (cases s) (simp add: agree_def ms_watch_def ms_view_def rs_watch_def sm_view_def)
next
  case (Cancel w)
  with assms show ?thesis
    by (cases s) (simp add: agree_def ms_cancel_def ms_view_def rs_cancel_def sm_view_def)
qed

text \<open>
  C5: the in-memory store and the replicated state machine are interchangeable.  After any
  history of creates, updates, deletes and watches, the two hold the same keys with the same
  versions, generations, specs and statuses (up to the clock readings the memory store stamps),
  and the same revision.
\<close>

theorem backends_agree:
  "agree (fst (ms_run ops (ms_init limit, []))) (sm_run ops sm_init)"
proof -
  have "agree (fst (ms_run ops s)) (sm_run ops sm)" if "agree (fst s) sm" for s sm
    using that
  proof (induction ops arbitrary: s sm)
    case (Cons op ops)
    from Cons.IH [OF agree_step [OF Cons.prems]] show ?case by simp
  qed simp
  then show ?thesis
    by (simp add: agree_def ms_init_def sm_init_def ms_view_def sm_view_def)
qed

text \<open>
  What a Raft-backed client sees.  When the node does not lead, the write raises
  \<open>ConflictError\<close> and when it does not commit, \<open>TimeoutError\<close>; otherwise the version check is
  made inside \<open>apply\<close>, so the caller gets the stored object exactly when its version was current
  at that point of the log, and the exception kind of the failed command otherwise.
\<close>

theorem raft_update_outcome:
  "rs_update accepted commit_ok rid ob st =
     (if \<not> accepted then Inl (ConflictError ''not the leader'')
      else if \<not> commit_ok then Inl (TimeoutError ''did not commit'')
      else (case sm_view st (okey ob) of
          None \<Rightarrow> Inl (NotFoundError (okey ob))
        | Some cur \<Rightarrow>
            if orv ob = orv cur
            then Inr (committed cur ob (sm_revision st + 1),
                      sm_apply (UPDATE rid (Some (obj_serialise ob))) st)
            else Inl (ConflictError (okey ob @ '': object has been modified (have ''
                  @ str_int (orv ob) @ '', current '' @ str_int (orv cur) @ '')''))))"
proof (cases "accepted \<and> commit_ok")
  case True
  have "rs_update True True rid ob st = Inr (committed cur ob (sm_revision st + 1),
                      sm_apply (UPDATE rid (Some (obj_serialise ob))) st)"
    if "sm_view st (okey ob) = Some cur" "orv ob = orv cur" for cur
    using rst.upd_fresh [OF that, of rid] sync_state(1) by fastforce
  with True show ?thesis
    by (auto simp: rs_update_sync [of rid ob st, folded sm_view_def] sm_view_def split: option.split)
next
  case False
  then show ?thesis by (auto simp: rs_update_def rs_propose_def Let_def)
qed

text \<open>
  A restored machine starts counting revisions again from zero, so it hands out versions that
  objects of the snapshot already carry.
\<close>

lemma restore_reuses_versions:
  "\<exists>a b st. sm_restore (sm_snapshot (sm_run [Create 1 a] sm_init)) sm_init = Inr st \<and>
     (\<exists>x y. sm_view (sm_run [Create 1 b] st) (okey a) = Some x \<and>
            sm_view (sm_run [Create 1 b] st) (okey b) = Some y \<and> okey a \<noteq> okey b \<and> orv x = orv y)"
proof -
  let ?b = "new_object POD ''q'' fmempty ''default'' fmempty '''' ''u2'' 1"
  have k: "okey demo_pod \<noteq> okey ?b" by (simp add: demo_pod_def new_object_def okey_def)
  show ?thesis
    by (intro exI [of _ demo_pod] exI [of _ ?b])
      (use k in \<open>simp add: do_create_def sm_init_def Let_def sm_snapshot_def sm_restore_def
          sm_record_def set_result_def sm_view_def update_conv'\<close>)
qed

end
