(* ===== verification/Raft_Log.thy ===== *)
theory Raft_Log
  imports Py_Text
begin

text \<open>
  The durable half of a Raft member: \<open>modules/raft-kv/raft_kv/raft/log.py\<close> (the replicated log
  and its JSON-lines file) and \<open>modules/raft-kv/raft_kv/raft/state.py\<close> (term and vote).  A line of
  the log file is represented by the JSON document it holds; \<open>None\<close> as file means the member runs
  without a data directory.  Every public method holds the object's lock, so one call is one step.
\<close>

section \<open>The replicated log\<close>

record log_entry =
  le_term :: int
  le_index :: int
  le_command :: string

datatype log_line = MetaLine int int | EntryLine log_entry

record raft_log =
  rl_entries :: "log_entry list"
  rl_snap_index :: int
  rl_snap_term :: int
  rl_file :: "log_line list option"

definition rl_load :: "log_line list \<Rightarrow> raft_log res" where
  "rl_load ls =
     (case ls of
        [] \<Rightarrow> Inr \<lparr>rl_entries = [], rl_snap_index = 0, rl_snap_term = 0, rl_file = Some ls\<rparr>
      | first # rest \<Rightarrow>
          (let (si, st, raw) = (case first of MetaLine i t \<Rightarrow> (i, t, rest) | EntryLine _ \<Rightarrow> (0, 0, ls))
           in ebind (emap (\<lambda>l. case l of EntryLine e \<Rightarrow> Inr e
                                | MetaLine _ _ \<Rightarrow> Inl (TypeError ''unexpected keyword argument'')) raw)
                (\<lambda>es. Inr \<lparr>rl_entries = es, rl_snap_index = si, rl_snap_term = st,
                          rl_file = Some ls\<rparr>)))"

definition rl_init :: "log_line list option \<Rightarrow> raft_log res" where
  "rl_init file = (case file of
      None \<Rightarrow> Inr \<lparr>rl_entries = [], rl_snap_index = 0, rl_snap_term = 0, rl_file = None\<rparr>
    | Some ls \<Rightarrow> rl_load ls)"

definition rl_persist_entry :: "log_entry \<Rightarrow> raft_log \<Rightarrow> raft_log" where
  "rl_persist_entry e l = (case rl_file l of
      None \<Rightarrow> l | Some ls \<Rightarrow> l\<lparr>rl_file := Some (ls @ [EntryLine e])\<rparr>)"

definition rl_rewrite :: "raft_log \<Rightarrow> raft_log" where
  "rl_rewrite l = (case rl_file l of
      None \<Rightarrow> l
    | Some _ \<Rightarrow> l\<lparr>rl_file := Some (MetaLine (rl_snap_index l) (rl_snap_term l)
                                  # map EntryLine (rl_entries l))\<rparr>)"

definition rl_append :: "log_entry \<Rightarrow> raft_log \<Rightarrow> raft_log" where
  "rl_append e l = rl_persist_entry e (l\<lparr>rl_entries := rl_entries l @ [e]\<rparr>)"

definition rl_append_all :: "log_entry list \<Rightarrow> raft_log \<Rightarrow> raft_log" where
  "rl_append_all es l = fold rl_persist_entry es (l\<lparr>rl_entries := rl_entries l @ es\<rparr>)"

definition rl_get :: "int \<Rightarrow> raft_log \<Rightarrow> log_entry option" where
  \<comment> \<open>\<open>get\<close> and \<open>_get\<close>\<close>
  "rl_get index l =
     (let pos = index - rl_snap_index l - 1
      in if pos < 0 \<or> pos \<ge> int (length (rl_entries l)) then None
         else Some (rl_entries l ! nat pos))"

definition rl_last_index :: "raft_log \<Rightarrow> int" where
  "rl_last_index l = (if rl_entries l = [] then rl_snap_index l else le_index (last (rl_entries l)))"

definition rl_last_term :: "raft_log \<Rightarrow> int" where
  "rl_last_term l = (if rl_entries l = [] then rl_snap_term l else le_term (last (rl_entries l)))"

definition rl_term_at :: "int \<Rightarrow> raft_log \<Rightarrow> int" where
  "rl_term_at index l =
     (if index = 0 then 0
      else if index \<le> rl_snap_index l then rl_snap_term l
      else (case rl_get index l of Some e \<Rightarrow> le_term e | None \<Rightarrow> 0))"

definition rl_entries_from :: "int \<Rightarrow> raft_log \<Rightarrow> log_entry list" where
  "rl_entries_from start l = drop (nat (start - rl_snap_index l - 1)) (rl_entries l)"

definition rl_truncate_from :: "int \<Rightarrow> raft_log \<Rightarrow> raft_log" where
  "rl_truncate_from index l =
     rl_rewrite (l\<lparr>rl_entries := take (nat (index - rl_snap_index l - 1)) (rl_entries l)\<rparr>)"

definition py_slice_from :: "int \<Rightarrow> 'a list \<Rightarrow> 'a list" where
  \<comment> \<open>\<open>xs[c:]\<close>; a negative \<open>c\<close> counts from the end\<close>
  "py_slice_from c xs = drop (nat (if c < 0 then int (length xs) + c else c)) xs"

definition rl_snapshot :: "int \<Rightarrow> int \<Rightarrow> raft_log \<Rightarrow> raft_log" where
  "rl_snapshot last_index last_term l =
     rl_rewrite (l\<lparr>rl_entries := py_slice_from (last_index - rl_snap_index l) (rl_entries l),
                   rl_snap_index := last_index, rl_snap_term := last_term\<rparr>)"

definition rl_len :: "raft_log \<Rightarrow> nat" where
  "rl_len l = length (rl_entries l)"

section \<open>Well-formed logs\<close>

text \<open>Entries are numbered consecutively from just above the snapshot.\<close>

definition log_ok :: "raft_log \<Rightarrow> bool" where
  "log_ok l \<longleftrightarrow> 0 \<le> rl_snap_index l \<and>
     (\<forall>i < length (rl_entries l). le_index (rl_entries l ! i) = rl_snap_index l + 1 + int i)"

text \<open>The file holds what the member would reload.\<close>

definition file_ok :: "raft_log \<Rightarrow> bool" where
  "file_ok l \<longleftrightarrow> (case rl_file l of None \<Rightarrow> True
     | Some ls \<Rightarrow> ls = MetaLine (rl_snap_index l) (rl_snap_term l) # map EntryLine (rl_entries l) \<or>
                  ls = map EntryLine (rl_entries l) \<and> rl_snap_index l = 0 \<and> rl_snap_term l = 0)"

lemma rl_persist_simps [simp]:
  "rl_entries (rl_persist_entry e l) = rl_entries l"
  "rl_snap_index (rl_persist_entry e l) = rl_snap_index l"
  "rl_snap_term (rl_persist_entry e l) = rl_snap_term l"
  by (auto simp: rl_persist_entry_def split: option.split)

lemma rl_fold_persist [simp]:
  "rl_entries (fold rl_persist_entry es l) = rl_entries l"
  "rl_snap_index (fold rl_persist_entry es l) = rl_snap_index l"
  "rl_snap_term (fold rl_persist_entry es l) = rl_snap_term l"
  by (induction es arbitrary: l) simp_all

lemma rl_file_fold_persist:
  "rl_file (fold rl_persist_entry es l) = map_option (\<lambda>ls. ls @ map EntryLine es) (rl_file l)"
  by (induction es arbitrary: l)
    (auto simp: rl_persist_entry_def option.map_comp comp_def option.map_ident split: option.split)

lemma rl_rewrite_simps [simp]:
  "rl_entries (rl_rewrite l) = rl_entries l" "rl_snap_index (rl_rewrite l) = rl_snap_index l"
  "rl_snap_term (rl_rewrite l) = rl_snap_term l"
  by (auto simp: rl_rewrite_def split: option.split)

lemma rl_append_simps [simp]:
  "rl_entries (rl_append e l) = rl_entries l @ [e]" "rl_snap_index (rl_append e l) = rl_snap_index l"
  "rl_entries (rl_append_all es l) = rl_entries l @ es"
  "rl_snap_index (rl_append_all es l) = rl_snap_index l"
  "rl_snap_term (rl_append e l) = rl_snap_term l" "rl_snap_term (rl_append_all es l) = rl_snap_term l"
  by (simp_all add: rl_append_def rl_append_all_def)

lemma rl_truncate_simps [simp]:
  "rl_entries (rl_truncate_from k l) = take (nat (k - rl_snap_index l - 1)) (rl_entries l)"
  "rl_snap_index (rl_truncate_from k l) = rl_snap_index l"
  "rl_snap_term (rl_truncate_from k l) = rl_snap_term l"
  by (simp_all add: rl_truncate_from_def)

lemma last_index_eq: "log_ok l \<Longrightarrow> rl_last_index l = rl_snap_index l + int (length (rl_entries l))"
  by (cases "rl_entries l" rule: rev_cases) (auto simp: rl_last_index_def log_ok_def nth_append)

lemma log_ok_append:
  "log_ok l \<Longrightarrow> le_index e = rl_last_index l + 1 \<Longrightarrow> log_ok (rl_append e l)"
  using last_index_eq [of l] by (auto simp: log_ok_def nth_append less_Suc_eq)

definition consecutive :: "int \<Rightarrow> log_entry list \<Rightarrow> bool" where
  "consecutive k es \<longleftrightarrow> (\<forall>i < length es. le_index (es ! i) = k + int i)"

lemma consecutive_Cons [simp]:
  "consecutive k (e # es) \<longleftrightarrow> le_index e = k \<and> consecutive (k + 1) es"
proof
  assume c: "consecutive k (e # es)"
  have "le_index (es ! i) = k + 1 + int i" if "i < length es" for i
    using c that by (auto simp: consecutive_def dest!: spec [of _ "Suc i"])
  moreover have "le_index e = k" using c by (auto simp: consecutive_def dest!: spec [of _ 0])
  ultimately show "le_index e = k \<and> consecutive (k + 1) es" by (simp add: consecutive_def)
next
  assume "le_index e = k \<and> consecutive (k + 1) es"
  then show "consecutive k (e # es)" by (auto simp: consecutive_def nth_Cons split: nat.split)
qed

lemma log_ok_append_all:
  "log_ok l \<Longrightarrow> consecutive (rl_last_index l + 1) es \<Longrightarrow> log_ok (rl_append_all es l)"
  using last_index_eq [of l] by (auto simp: log_ok_def consecutive_def nth_append)

lemma log_ok_truncate: "log_ok l \<Longrightarrow> log_ok (rl_truncate_from k l)"
  by (simp add: log_ok_def)

lemma log_ok_snapshot:
  "log_ok l \<Longrightarrow> rl_snap_index l \<le> i \<Longrightarrow> i \<le> rl_last_index l \<Longrightarrow> log_ok (rl_snapshot i t l)"
  using last_index_eq [of l] by (auto simp: log_ok_def rl_snapshot_def py_slice_from_def)

lemma file_ok_append: "file_ok l \<Longrightarrow> file_ok (rl_append e l)"
  by (auto simp: file_ok_def rl_append_def rl_persist_entry_def split: option.splits)

lemma file_ok_append_all: "file_ok l \<Longrightarrow> file_ok (rl_append_all es l)"
  by (auto simp: file_ok_def rl_append_all_def rl_file_fold_persist split: option.splits)

lemma file_ok_truncate: "file_ok l \<Longrightarrow> file_ok (rl_truncate_from k l)"
  by (auto simp: file_ok_def rl_truncate_from_def rl_rewrite_def split: option.splits)

lemma file_ok_snapshot: "file_ok l \<Longrightarrow> file_ok (rl_snapshot i t l)"
  by (auto simp: file_ok_def rl_snapshot_def rl_rewrite_def split: option.splits)

lemmas log_step_intros = log_ok_append log_ok_append_all log_ok_truncate
  file_ok_append file_ok_append_all file_ok_truncate file_ok_snapshot

lemma emap_entry_lines:
  "emap (\<lambda>l. case l of EntryLine e \<Rightarrow> Inr e
       | MetaLine _ _ \<Rightarrow> Inl (TypeError ''unexpected keyword argument'')) (map EntryLine es) = Inr es"
  by (induction es) simp_all

lemma reload_file_ok:
  assumes "file_ok l" "rl_file l = Some ls"
  shows "rl_load ls = Inr l"
proof -
  have l: "l = \<lparr>rl_entries = rl_entries l, rl_snap_index = rl_snap_index l,
      rl_snap_term = rl_snap_term l, rl_file = Some ls\<rparr>"
    using assms(2) by simp
  from assms consider "ls = MetaLine (rl_snap_index l) (rl_snap_term l) # map EntryLine (rl_entries l)"
    | "ls = map EntryLine (rl_entries l)" "rl_snap_index l = 0" "rl_snap_term l = 0"
    by (auto simp: file_ok_def)
  then show ?thesis
  proof cases
    case 1
    then show ?thesis by (subst l) (simp add: rl_load_def emap_entry_lines)
  next
    case 2
    then show ?thesis
    proof (cases "rl_entries l")
      case (Cons e es)
      with 2 emap_entry_lines [of "e # es"] show ?thesis by (subst l) (simp add: rl_load_def)
    qed (subst l, simp add: rl_load_def)
  qed
qed

text \<open>Mutations of a log, for statements about arbitrary histories.\<close>

datatype log_op = Append log_entry | AppendAll "log_entry list" | TruncateFrom int | Snapshot int int

fun log_step :: "log_op \<Rightarrow> raft_log \<Rightarrow> raft_log" where
  "log_step (Append e) l = rl_append e l"
| "log_step (AppendAll es) l = rl_append_all es l"
| "log_step (TruncateFrom k) l = rl_truncate_from k l"
| "log_step (Snapshot i t) l = rl_snapshot i t l"

text \<open>
  C6: durability of the log.  Start a member on an empty log file and perform any sequence of
  appends, truncations and snapshots: reloading the file after a crash gives back exactly the
  in-memory log, entries, snapshot index and snapshot term alike.
\<close>

theorem log_reload_after_crash:
  "case rl_init (Some []) of
     Inl e \<Rightarrow> False
   | Inr l0 \<Rightarrow> (let l = fold log_step ops l0 in rl_init (rl_file l) = Inr l)"
proof -
  have "file_ok l \<and> rl_file l \<noteq> None \<Longrightarrow>
        file_ok (fold log_step ops l) \<and> rl_file (fold log_step ops l) \<noteq> None" for l
  proof (induction ops arbitrary: l)
    case (Cons op ops)
    have "rl_file (log_step op l) \<noteq> None" using Cons.prems
      by (cases op) (auto simp: rl_append_def rl_persist_entry_def rl_append_all_def
          rl_file_fold_persist rl_truncate_from_def rl_rewrite_def rl_snapshot_def)
    moreover have "file_ok (log_step op l)" using Cons.prems
      by (cases op) (auto intro: log_step_intros)
    ultimately show ?case using Cons.IH by simp
  qed simp
  from this [of "\<lparr>rl_entries = [], rl_snap_index = 0, rl_snap_term = 0, rl_file = Some []\<rparr>"]
  show ?thesis
    by (auto simp: rl_init_def rl_load_def [of "[]"] file_ok_def [of "\<lparr>rl_entries = [], rl_snap_index = 0,
         rl_snap_term = 0, rl_file = Some []\<rparr>"] Let_def reload_file_ok)
qed

section \<open>Term and vote\<close>

record persistent_state =
  ps_term :: int
  ps_voted :: "string option"
  ps_file :: "(int \<times> string option) option"
  ps_durable :: bool

definition ps_init :: "bool \<Rightarrow> (int \<times> string option) option \<Rightarrow> persistent_state" where
  "ps_init durable file =
     (case (durable, file) of
        (True, Some (t, v)) \<Rightarrow> \<lparr>ps_term = t, ps_voted = v, ps_file = file, ps_durable = True\<rparr>
      | _ \<Rightarrow> \<lparr>ps_term = 0, ps_voted = None, ps_file = file, ps_durable = durable\<rparr>)"

definition ps_save :: "persistent_state \<Rightarrow> persistent_state" where
  "ps_save p = (if ps_durable p then p\<lparr>ps_file := Some (ps_term p, ps_voted p)\<rparr> else p)"

definition ps_set_term :: "int \<Rightarrow> persistent_state \<Rightarrow> persistent_state" where
  "ps_set_term t p = ps_save (p\<lparr>ps_term := t, ps_voted := None\<rparr>)"

definition ps_increment_term :: "persistent_state \<Rightarrow> persistent_state" where
  "ps_increment_term p = ps_save (p\<lparr>ps_term := ps_term p + 1, ps_voted := None\<rparr>)"

definition ps_set_voted_for :: "string option \<Rightarrow> persistent_state \<Rightarrow> persistent_state" where
  "ps_set_voted_for c p = ps_save (p\<lparr>ps_voted := c\<rparr>)"

lemma ps_simps [simp]:
  "ps_term (ps_set_term t p) = t" "ps_voted (ps_set_term t p) = None"
  "ps_term (ps_increment_term p) = ps_term p + 1" "ps_voted (ps_increment_term p) = None"
  "ps_term (ps_set_voted_for c p) = ps_term p" "ps_voted (ps_set_voted_for c p) = c"
  "ps_durable (ps_set_term t p) = ps_durable p" "ps_durable (ps_increment_term p) = ps_durable p"
  "ps_durable (ps_set_voted_for c p) = ps_durable p"
  by (simp_all add: ps_set_term_def ps_increment_term_def ps_set_voted_for_def ps_save_def)

definition ps_saved :: "persistent_state \<Rightarrow> bool" where
  \<comment> \<open>what a restart would read is what is in memory\<close>
  "ps_saved p \<longleftrightarrow> ps_durable p \<and> (ps_file p = Some (ps_term p, ps_voted p) \<or>
       ps_file p = None \<and> ps_term p = 0 \<and> ps_voted p = None)"

lemma ps_saved_steps:
  "ps_durable p \<Longrightarrow> ps_saved (ps_set_term t p)" "ps_durable p \<Longrightarrow> ps_saved (ps_increment_term p)"
  "ps_durable p \<Longrightarrow> ps_saved (ps_set_voted_for c p)"
  by (simp_all add: ps_saved_def ps_set_term_def ps_increment_term_def ps_set_voted_for_def ps_save_def)

lemma ps_saved_durable: "ps_saved p \<Longrightarrow> ps_durable p"
  by (simp add: ps_saved_def)

lemma ps_restart: "ps_saved p \<Longrightarrow> ps_init True (ps_file p) = p"
  by (cases p) (auto simp: ps_saved_def ps_init_def)

end
