(* ===== verification/Raft_Node.thy ===== *)
theory Raft_Node
  imports Raft_Log
begin

text \<open>
  One Raft member: \<open>modules/raft-kv/raft_kv/raft/node.py\<close>.  The RPC handlers run under the member's
  lock and are functions from state to answer and state.  The ticker thread releases the lock while
  it waits for a peer, so \<open>_start_election\<close>, \<open>_replicate\<close> and \<open>_apply_committed\<close> are given as one
  function per locked section; the thread's local variables travel in \<open>elect_next\<close> and in the
  arguments.  What \<open>time.monotonic()\<close> and \<open>random.uniform\<close> return is the argument \<open>clk\<close> (of several
  readings within one locked section only the last one is kept by the code).
\<close>

section \<open>State\<close>

datatype role = Follower | Candidate | Leader

record raft_node =
  rn_id :: string
  rn_peers :: "string list"
  rn_ps :: persistent_state
  rn_log :: raft_log
  rn_role :: role
  rn_leader :: "string option"
  rn_commit :: int
  rn_applied :: int
  rn_next :: "(string \<times> int) list"
  rn_match :: "(string \<times> int) list"
  rn_contact :: rat
  rn_timeout :: rat

type_synonym clk = "rat \<times> rat"

definition new_node :: "string \<Rightarrow> string list \<Rightarrow> persistent_state \<Rightarrow> raft_log \<Rightarrow> clk \<Rightarrow> raft_node" where
  "new_node i peers ps lg clk =
     \<lparr>rn_id = i, rn_peers = peers, rn_ps = ps, rn_log = lg, rn_role = Follower, rn_leader = None,
      rn_commit = 0, rn_applied = 0, rn_next = [], rn_match = [],
      rn_contact = fst clk, rn_timeout = snd clk\<rparr>"

definition rn_term :: "raft_node \<Rightarrow> int" where
  "rn_term n = ps_term (rn_ps n)"

definition rn_quorum :: "raft_node \<Rightarrow> int" where
  "rn_quorum n = (int (length (rn_peers n)) + 2) div 2"

definition reset_contact :: "clk \<Rightarrow> raft_node \<Rightarrow> raft_node" where
  "reset_contact clk n = n\<lparr>rn_contact := fst clk, rn_timeout := snd clk\<rparr>"

definition step_down :: "int \<Rightarrow> clk \<Rightarrow> raft_node \<Rightarrow> raft_node" where
  "step_down t clk n = reset_contact clk (n\<lparr>rn_ps := ps_set_term t (rn_ps n), rn_role := Follower\<rparr>)"

definition check_term :: "int \<Rightarrow> clk \<Rightarrow> raft_node \<Rightarrow> raft_node" where
  "check_term t clk n = (if t > rn_term n then step_down t clk n else n)"

section \<open>Client proposals\<close>

definition propose :: "string \<Rightarrow> raft_node \<Rightarrow> (bool \<times> int) \<times> raft_node" where
  "propose cmd n =
     (if rn_role n \<noteq> Leader then ((False, 0), n)
      else (let index = rl_last_index (rn_log n) + 1;
                entry = \<lparr>le_term = rn_term n, le_index = index, le_command = cmd\<rparr>
            in ((True, index),
                n\<lparr>rn_log := rl_append entry (rn_log n),
                  rn_match := AList.update (rn_id n) index (rn_match n)\<rparr>)))"

section \<open>RPC handlers\<close>

definition handle_request_vote ::
  "int \<Rightarrow> string \<Rightarrow> int \<Rightarrow> int \<Rightarrow> clk \<Rightarrow> raft_node \<Rightarrow> (int \<times> bool) \<times> raft_node" where
  "handle_request_vote t cand last_log_index last_log_term clk n0 =
     (let n = check_term t clk n0; my_term = rn_term n in
      if t < my_term then ((my_term, False), n)
      else if ps_voted (rn_ps n) \<noteq> None \<and> ps_voted (rn_ps n) \<noteq> Some cand then ((my_term, False), n)
      else if \<not> (last_log_term > rl_last_term (rn_log n) \<or>
                 last_log_term = rl_last_term (rn_log n) \<and> last_log_index \<ge> rl_last_index (rn_log n))
      then ((my_term, False), n)
      else ((my_term, True),
            reset_contact clk (n\<lparr>rn_ps := ps_set_voted_for (Some cand) (rn_ps n)\<rparr>)))"

text \<open>The loop over the received entries; \<open>i\<close> is \<open>first_new + i\<close> of the source.\<close>

fun merge_entries :: "int \<Rightarrow> log_entry list \<Rightarrow> raft_log \<Rightarrow> raft_log" where
  "merge_entries i [] l = l"
| "merge_entries i (e # es) l =
     (case rl_get i l of
        None \<Rightarrow> rl_append_all (e # es) l
      | Some stored \<Rightarrow>
          if le_term stored \<noteq> le_term e then rl_append_all (e # es) (rl_truncate_from i l)
          else merge_entries (i + 1) es l)"

definition handle_append_entries ::
  "int \<Rightarrow> string \<Rightarrow> int \<Rightarrow> int \<Rightarrow> log_entry list \<Rightarrow> int \<Rightarrow> clk \<Rightarrow> raft_node
     \<Rightarrow> (int \<times> bool \<times> int) \<times> raft_node" where
  "handle_append_entries t leader prev_index prev_term es leader_commit clk n0 =
     (let n1 = check_term t clk n0; my_term = rn_term n1 in
      if t < my_term then ((my_term, False, 0), n1)
      else
        (let n2 = reset_contact clk (n1\<lparr>rn_leader := Some leader\<rparr>);
             n3 = (if rn_role n2 = Candidate then n2\<lparr>rn_role := Follower\<rparr> else n2)
         in if prev_index > 0 \<and> rl_last_index (rn_log n3) < prev_index
            then ((my_term, False, rl_last_index (rn_log n3)), n3)
            else if prev_index > 0 \<and> rl_term_at prev_index (rn_log n3) \<noteq> prev_term
            then ((my_term, False, prev_index - 1),
                  n3\<lparr>rn_log := rl_truncate_from prev_index (rn_log n3)\<rparr>)
            else
              (let n4 = n3\<lparr>rn_log := merge_entries (prev_index + 1) es (rn_log n3)\<rparr>;
                   n5 = (if leader_commit > rn_commit n4
                         then n4\<lparr>rn_commit := min leader_commit (rl_last_index (rn_log n4))\<rparr>
                         else n4)
               in ((my_term, True, rl_last_index (rn_log n5)), n5))))"

section \<open>Elections\<close>

text \<open>What the candidate's loop over its peers does next.\<close>

datatype elect_next = Asking "string list" int | Won | Ended

definition election_begin :: "clk \<Rightarrow> raft_node \<Rightarrow> raft_node \<times> elect_next" where
  "election_begin clk n =
     (let n1 = n\<lparr>rn_role := Candidate,
                 rn_ps := ps_set_voted_for (Some (rn_id n)) (ps_increment_term (rn_ps n)),
                 rn_leader := None\<rparr>
      in (reset_contact clk n1, if rn_peers n = [] then Ended else Asking (rn_peers n) 1))"

text \<open>
  The answer of the peer that was asked; \<open>None\<close> is an exception of the RPC.  The first peer of the
  list is the one asked, \<open>rest\<close> the ones to come.
\<close>

definition election_answer ::
  "int \<Rightarrow> string list \<Rightarrow> int \<Rightarrow> (int \<times> bool) option \<Rightarrow> clk \<Rightarrow> raft_node \<Rightarrow> raft_node \<times> elect_next" where
  "election_answer new_term rest votes answer clk n =
     (let continue = (\<lambda>v. if rest = [] then Ended else Asking rest v) in
      case answer of
        None \<Rightarrow> (n, continue votes)
      | Some (r_term, granted) \<Rightarrow>
          if rn_term n \<noteq> new_term \<or> rn_role n \<noteq> Candidate then (n, Ended)
          else if r_term > new_term then (step_down r_term clk n, Ended)
          else if granted then
            (if votes + 1 \<ge> rn_quorum n then (n, Won) else (n, continue (votes + 1)))
          else (n, continue votes))"

definition become_leader :: "int \<Rightarrow> clk \<Rightarrow> raft_node \<Rightarrow> raft_node" where
  "become_leader t clk n =
     (if rn_term n \<noteq> t \<or> rn_role n \<noteq> Candidate then n
      else (let next_idx = rl_last_index (rn_log n) + 1
            in reset_contact clk
                 (n\<lparr>rn_role := Leader, rn_leader := Some (rn_id n),
                    rn_next := fold (\<lambda>p. AList.update p next_idx) (rn_peers n) (rn_next n),
                    rn_match := AList.update (rn_id n) (rl_last_index (rn_log n))
                                  (fold (\<lambda>p. AList.update p 0) (rn_peers n) (rn_match n))\<rparr>)))"

section \<open>Replication\<close>

text \<open>\<open>_replicate\<close> up to the loop: \<open>None\<close> when the member does not lead, else the term, the
  next indices and the commit index the loop works with.\<close>

definition replicate_begin :: "rat \<Rightarrow> raft_node \<Rightarrow> raft_node \<times> (int \<times> (string \<times> int) list \<times> int) option" where
  "replicate_begin now n =
     (if rn_role n \<noteq> Leader then (n, None)
      else (n\<lparr>rn_contact := now\<rparr>, Some (rn_term n, rn_next n, rn_commit n)))"

definition replicate_request ::
  "string \<Rightarrow> (string \<times> int) list \<Rightarrow> raft_node \<Rightarrow> int \<times> int \<times> log_entry list" where
  \<comment> \<open>\<open>prev_idx\<close>, \<open>prev_term\<close> and \<open>entries\<close> of the message to a peer\<close>
  "replicate_request p next_idx n =
     (let ni = (case map_of next_idx p of None \<Rightarrow> 1 | Some k \<Rightarrow> k)
      in (ni - 1, rl_term_at (ni - 1) (rn_log n), rl_entries_from ni (rn_log n)))"

function advance_from :: "int \<Rightarrow> int \<Rightarrow> raft_node \<Rightarrow> raft_node" where
  "advance_from t k n =
     (if k > rn_commit n then
        if rl_term_at k (rn_log n) = t \<and>
           int (length (filter (\<lambda>(_, m). m \<ge> k) (rn_match n))) \<ge> rn_quorum n
        then n\<lparr>rn_commit := k\<rparr>
        else advance_from t (k - 1) n
      else n)"
  by pat_completeness auto
termination by (relation "measure (\<lambda>(t, k, n). nat (k - rn_commit n))") auto

declare advance_from.simps [simp del]

definition advance_commit :: "int \<Rightarrow> raft_node \<Rightarrow> raft_node" where
  "advance_commit t n = advance_from t (rl_last_index (rn_log n)) n"

text \<open>One answer of a peer; the second component says whether the loop over the peers goes on.\<close>

definition replicate_answer ::
  "int \<Rightarrow> string \<Rightarrow> (int \<times> bool \<times> int) option \<Rightarrow> clk \<Rightarrow> raft_node \<Rightarrow> raft_node \<times> bool" where
  "replicate_answer t p answer clk n =
     (case answer of
        None \<Rightarrow> (n, True)
      | Some (r_term, success, match_idx) \<Rightarrow>
          if r_term > rn_term n then (step_down r_term clk n, False)
          else if rn_role n \<noteq> Leader then (n, False)
          else if success then
            (advance_commit t
               (n\<lparr>rn_match := AList.update (rn_id n) (rl_last_index (rn_log n))
                                (AList.update p match_idx (rn_match n)),
                  rn_next := AList.update p (match_idx + 1) (rn_next n)\<rparr>), True)
          else (n\<lparr>rn_next := AList.update p (max 1 (match_idx + 1)) (rn_next n)\<rparr>, True))"

section \<open>Applying committed entries\<close>

text \<open>
  \<open>_apply_committed\<close>: the bounds are read under the lock, the entries are handed to \<open>apply_fn\<close>
  without it, and the lock is taken again to move \<open>last_applied\<close>.  \<open>env i\<close> is what the other threads
  do to the member before entry \<open>i\<close> is read, and \<open>env\<close> of the index after the last one what they do
  before the final locked section.  An exception of \<open>apply_fn\<close> is logged and the loop goes on.
\<close>

fun apply_loop :: "(int \<Rightarrow> raft_node \<Rightarrow> raft_node) \<Rightarrow> int list \<Rightarrow> raft_node \<Rightarrow> log_entry list \<times> raft_node" where
  "apply_loop env [] n = ([], n)"
| "apply_loop env (i # is) n =
     (let n1 = env i n; (es, n2) = apply_loop env is n1
      in (case rl_get i (rn_log n1) of None \<Rightarrow> (es, n2) | Some e \<Rightarrow> (e # es, n2)))"

definition apply_committed ::
  "(int \<Rightarrow> raft_node \<Rightarrow> raft_node) \<Rightarrow> raft_node \<Rightarrow> log_entry list \<times> raft_node" where
  "apply_committed env n =
     (let ci = rn_commit n; la = rn_applied n;
          (es, n1) = apply_loop env [la + 1 .. ci] n;
          n2 = env (ci + 1) n1
      in (es, if rn_commit n2 > rn_applied n2 then n2\<lparr>rn_applied := rn_commit n2\<rparr> else n2))"

definition wait_for_commit :: "int \<Rightarrow> raft_node list \<Rightarrow> bool" where
  \<comment> \<open>the states the polling loop sees before its deadline\<close>
  "wait_for_commit index polls = (\<exists>n \<in> set polls. rn_commit n \<ge> index)"

datatype tick_action = NoTick | TickReplicate | TickElection

definition tick :: "rat \<Rightarrow> raft_node \<Rightarrow> tick_action" where
  "tick now n =
     (let elapsed = now - rn_contact n in
      if rn_role n = Leader then (if elapsed \<ge> 4 / 100 then TickReplicate else NoTick)
      else if elapsed \<ge> rn_timeout n then TickElection else NoTick)"

section \<open>Simplification rules\<close>

lemma rn_fields [simp]:
  "rn_term (reset_contact clk n) = rn_term n" "rn_ps (reset_contact clk n) = rn_ps n"
  "rn_log (reset_contact clk n) = rn_log n" "rn_role (reset_contact clk n) = rn_role n"
  "rn_commit (reset_contact clk n) = rn_commit n" "rn_id (reset_contact clk n) = rn_id n"
  "rn_peers (reset_contact clk n) = rn_peers n" "rn_applied (reset_contact clk n) = rn_applied n"
  "rn_match (reset_contact clk n) = rn_match n" "rn_next (reset_contact clk n) = rn_next n"
  "rn_term (n\<lparr>rn_log := l\<rparr>) = rn_term n" "rn_term (n\<lparr>rn_role := r\<rparr>) = rn_term n"
  "rn_term (n\<lparr>rn_commit := c\<rparr>) = rn_term n" "rn_term (n\<lparr>rn_leader := ld\<rparr>) = rn_term n"
  "rn_term (n\<lparr>rn_match := mm\<rparr>) = rn_term n" "rn_term (n\<lparr>rn_next := mm\<rparr>) = rn_term n"
  "rn_term (n\<lparr>rn_contact := x\<rparr>) = rn_term n" "rn_term (n\<lparr>rn_applied := c\<rparr>) = rn_term n"
  "rn_term (n\<lparr>rn_ps := p\<rparr>) = ps_term p"
  by (simp_all add: reset_contact_def rn_term_def)

lemma step_down_fields [simp]:
  "rn_term (step_down t clk n) = t" "rn_ps (step_down t clk n) = ps_set_term t (rn_ps n)"
  "rn_log (step_down t clk n) = rn_log n" "rn_role (step_down t clk n) = Follower"
  "rn_commit (step_down t clk n) = rn_commit n" "rn_id (step_down t clk n) = rn_id n"
  "rn_peers (step_down t clk n) = rn_peers n" "rn_applied (step_down t clk n) = rn_applied n"
  "rn_match (step_down t clk n) = rn_match n" "rn_next (step_down t clk n) = rn_next n"
  by (simp_all add: step_down_def)

lemma check_term_fields [simp]:
  "rn_term (check_term t clk n) = max t (rn_term n)"
  "rn_log (check_term t clk n) = rn_log n"
  "rn_commit (check_term t clk n) = rn_commit n" "rn_id (check_term t clk n) = rn_id n"
  "rn_peers (check_term t clk n) = rn_peers n" "rn_applied (check_term t clk n) = rn_applied n"
  "rn_match (check_term t clk n) = rn_match n" "rn_next (check_term t clk n) = rn_next n"
  by (simp_all add: check_term_def)

lemma advance_from_fields [simp]:
  "rn_ps (advance_from t k n) = rn_ps n" "rn_log (advance_from t k n) = rn_log n"
  "rn_role (advance_from t k n) = rn_role n" "rn_id (advance_from t k n) = rn_id n"
  "rn_peers (advance_from t k n) = rn_peers n" "rn_match (advance_from t k n) = rn_match n"
  "rn_next (advance_from t k n) = rn_next n" "rn_applied (advance_from t k n) = rn_applied n"
  by (induction t k n rule: advance_from.induct; subst advance_from.simps; simp)+

lemma advance_commit_fields [simp]:
  "rn_ps (advance_commit t n) = rn_ps n" "rn_log (advance_commit t n) = rn_log n"
  "rn_role (advance_commit t n) = rn_role n" "rn_id (advance_commit t n) = rn_id n"
  "rn_peers (advance_commit t n) = rn_peers n" "rn_term (advance_commit t n) = rn_term n"
  by (simp_all add: advance_commit_def rn_term_def)

end
