(* ===== verification/Raft_Node_Props.thy ===== *)
theory Raft_Node_Props
  imports Raft_Node
begin

text \<open>
  What the handlers of one Raft member do: the vote rule, the reconciliation of a follower's log
  with a leader's entries, the advance of the commit index, the hand-over of committed entries,
  and three places where the code departs from the algorithm.
\<close>

section \<open>Votes\<close>

text \<open>
  C7: the vote rule on every branch.  A member grants its vote exactly when the request's term is
  not behind its own, it has not voted for someone else in that term, and the candidate's log is at
  least as up to date as its own; a granted vote is in memory (and, for a member with a data
  directory, in its state file) under the request's term when the answer leaves, and a refusal
  changes nothing but the term.
\<close>

theorem request_vote_rule:
  "let (r, n') = handle_request_vote t cand lli llt clk n;
       granted = (t \<ge> rn_term n \<and>
                  (t > rn_term n \<or> ps_voted (rn_ps n) = None \<or> ps_voted (rn_ps n) = Some cand) \<and>
                  (llt > rl_last_term (rn_log n) \<or>
                   llt = rl_last_term (rn_log n) \<and> lli \<ge> rl_last_index (rn_log n)))
   in r = (max t (rn_term n), granted) \<and>
      rn_term n' = max t (rn_term n) \<and> rn_log n' = rn_log n \<and> rn_commit n' = rn_commit n \<and>
      ps_voted (rn_ps n') = (if granted then Some cand
                             else if t > rn_term n then None else ps_voted (rn_ps n)) \<and>
      rn_role n' = (if t > rn_term n then Follower else rn_role n) \<and>
      (granted \<and> ps_durable (rn_ps n) \<longrightarrow> ps_file (rn_ps n') = Some (t, Some cand))"
  by (simp add: handle_request_vote_def check_term_def Let_def ps_set_voted_for_def ps_save_def
      rn_term_def step_down_def ps_set_term_def)
    (auto simp: ps_set_voted_for_def ps_save_def reset_contact_def)

theorem request_vote_rule_witness:
  "fst (handle_request_vote 3 ''b'' 0 0 (0, 0)
     (new_node ''a'' [''b''] \<lparr>ps_term = 2, ps_voted = Some ''c'', ps_file = None, ps_durable = True\<rparr>
        \<lparr>rl_entries = [], rl_snap_index = 0, rl_snap_term = 0, rl_file = None\<rparr> (0, 0))) = (3, True)"
  using request_vote_rule [of 3 "''b''" 0 0 "(0, 0)" "new_node ''a'' [''b'']
     \<lparr>ps_term = 2, ps_voted = Some ''c'', ps_file = None, ps_durable = True\<rparr>
     \<lparr>rl_entries = [], rl_snap_index = 0, rl_snap_term = 0, rl_file = None\<rparr> (0, 0)"]
  by (auto simp: new_node_def rn_term_def rl_last_term_def rl_last_index_def Let_def split: prod.splits)

section \<open>Reconciling a follower's log\<close>

lemma rl_get_nth:
  "rl_snap_index l = 0 \<Longrightarrow>
     rl_get (int p + 1) l = (if p < length (rl_entries l) then Some (rl_entries l ! p) else None)"
  by (simp add: rl_get_def)

lemma rl_term_at_nth:
  assumes "rl_snap_index l = 0" "0 < p" "p \<le> length (rl_entries l)"
  shows "rl_term_at (int p) l = le_term (rl_entries l ! (p - 1))"
proof -
  have "rl_get (int (p - 1) + 1) l = Some (rl_entries l ! (p - 1))"
    using assms(2,3) by (subst rl_get_nth [OF assms(1)]) auto
  moreover have "int (p - 1) + 1 = int p" using assms(2) by simp
  ultimately show ?thesis using assms by (simp add: rl_term_at_def)
qed

lemma merge_match:
  assumes "rl_snap_index l = 0" "p < length (rl_entries l)" "le_term (rl_entries l ! p) = le_term e"
  shows "merge_entries (int p + 1) (e # es) l = merge_entries (int (Suc p) + 1) es l"
proof -
  have n: "int p + 1 + 1 = int (Suc p) + 1" by simp
  show ?thesis unfolding merge_entries.simps rl_get_nth [OF assms(1)] n using assms(2,3) by simp
qed

lemma log_ok_prefix_append:
  assumes "log_ok l" "rl_snap_index l = 0" "consecutive (int p + 1) es" "p \<le> length (rl_entries l)"
  shows "log_ok (rl_append_all es (rl_truncate_from (int p + 1) l))"
proof (rule log_ok_append_all)
  show ok: "log_ok (rl_truncate_from (int p + 1) l)" by (rule log_ok_truncate) (rule assms)
  show "consecutive (rl_last_index (rl_truncate_from (int p + 1) l) + 1) es"
    using last_index_eq [OF ok] assms by simp
qed

lemma merge_spec:
  assumes "log_ok l" "rl_snap_index l = 0" "consecutive (int p + 1) es" "p \<le> length (rl_entries l)"
  shows "log_ok (merge_entries (int p + 1) es l) \<and> rl_snap_index (merge_entries (int p + 1) es l) = 0 \<and>
     rl_snap_term (merge_entries (int p + 1) es l) = rl_snap_term l \<and>
     p + length es \<le> length (rl_entries (merge_entries (int p + 1) es l)) \<and>
     take p (rl_entries (merge_entries (int p + 1) es l)) = take p (rl_entries l) \<and>
     map le_term (take (length es) (drop p (rl_entries (merge_entries (int p + 1) es l)))) = map le_term es \<and>
     (rl_entries (merge_entries (int p + 1) es l) = rl_entries l \<or>
      (\<exists>k < length es. rl_entries (merge_entries (int p + 1) es l) = take (p + k) (rl_entries l) @ drop k es \<and>
         (p + k < length (rl_entries l) \<longrightarrow> le_term (rl_entries l ! (p + k)) \<noteq> le_term (es ! k))))"
  using assms(3,4)
proof (induction es arbitrary: p)
  case Nil
  then show ?case using assms(1,2) by simp
next
  case (Cons e es)
  show ?case
  proof (cases "p < length (rl_entries l)")
    case False
    then have p: "p = length (rl_entries l)" using Cons.prems by simp
    have "log_ok (rl_append_all (e # es) l)"
      using Cons.prems assms p last_index_eq [OF assms(1)] by (intro log_ok_append_all) auto
    with p assms(2) show ?thesis
      by (auto simp: rl_get_nth simp del: consecutive_Cons intro!: exI [of _ 0])
  next
    case True
    show ?thesis
    proof (cases "le_term (rl_entries l ! p) = le_term e")
      case False
      have "log_ok (rl_append_all (e # es) (rl_truncate_from (int p + 1) l))"
        using Cons.prems assms by (intro log_ok_prefix_append) auto
      with True False assms(2) show ?thesis
        by (auto simp: rl_get_nth intro!: exI [of _ 0])
    next
      case eq: True
      have m: "merge_entries (int p + 1) (e # es) l = merge_entries (int (Suc p) + 1) es l"
        by (rule merge_match) (use True eq assms(2) in auto)
      have ih: "log_ok (merge_entries (int (Suc p) + 1) es l) \<and>
        rl_snap_index (merge_entries (int (Suc p) + 1) es l) = 0 \<and>
        rl_snap_term (merge_entries (int (Suc p) + 1) es l) = rl_snap_term l \<and>
        Suc p + length es \<le> length (rl_entries (merge_entries (int (Suc p) + 1) es l)) \<and>
        take (Suc p) (rl_entries (merge_entries (int (Suc p) + 1) es l)) = take (Suc p) (rl_entries l) \<and>
        map le_term (take (length es) (drop (Suc p) (rl_entries (merge_entries (int (Suc p) + 1) es l)))) = map le_term es \<and>
        (rl_entries (merge_entries (int (Suc p) + 1) es l) = rl_entries l \<or>
        (\<exists>k < length es. rl_entries (merge_entries (int (Suc p) + 1) es l) = take (Suc p + k) (rl_entries l) @ drop k es \<and>
         (Suc p + k < length (rl_entries l) \<longrightarrow> le_term (rl_entries l ! (Suc p + k)) \<noteq> le_term (es ! k))))"
        using Cons.prems True by (intro Cons.IH) (auto simp: add.commute)
      let ?r = "rl_entries (merge_entries (int (Suc p) + 1) es l)"
      have len: "p < length ?r" using ih by simp
      have rp: "?r ! p = rl_entries l ! p"
        using ih by (metis lessI nth_take)
      have tp: "take p ?r = take p (rl_entries l)"
      proof -
        have "take p (take (Suc p) ?r) = take p (take (Suc p) (rl_entries l))" using ih by simp
        then show ?thesis by (simp add: min_def)
      qed
      have dp: "drop p ?r = (rl_entries l ! p) # drop (Suc p) ?r"
        using len rp by (metis Cons_nth_drop_Suc)
      have terms: "map le_term (take (length (e # es)) (drop p ?r)) = map le_term (e # es)"
        unfolding dp using ih eq by simp
      have shape: "?r = rl_entries l \<or> (\<exists>k < length (e # es). ?r = take (p + k) (rl_entries l) @ drop k (e # es) \<and>
         (p + k < length (rl_entries l) \<longrightarrow> le_term (rl_entries l ! (p + k)) \<noteq> le_term ((e # es) ! k)))"
      proof (cases "?r = rl_entries l")
        case False
        with ih obtain k where "k < length es" "?r = take (Suc p + k) (rl_entries l) @ drop k es"
          "Suc p + k < length (rl_entries l) \<longrightarrow> le_term (rl_entries l ! (Suc p + k)) \<noteq> le_term (es ! k)"
          by blast
        then show ?thesis by (intro disjI2 exI [of _ "Suc k"]) simp
      qed blast
      have "p + length (e # es) \<le> length ?r" using ih by simp
      with ih tp terms shape show ?thesis unfolding m by blast
    qed
  qed
qed

lemma merge_idempotent:
  assumes "rl_snap_index l = 0" "p + length es \<le> length (rl_entries l)"
    "map le_term (take (length es) (drop p (rl_entries l))) = map le_term es"
  shows "merge_entries (int p + 1) es l = l"
  using assms(2,3)
proof (induction es arbitrary: p)
  case (Cons e es)
  then have lt: "p < length (rl_entries l)" by simp
  then have d: "drop p (rl_entries l) = rl_entries l ! p # drop (Suc p) (rl_entries l)"
    by (simp add: Cons_nth_drop_Suc)
  from Cons.prems d have t: "le_term (rl_entries l ! p) = le_term e"
    "map le_term (take (length es) (drop (Suc p) (rl_entries l))) = map le_term es" by simp_all
  have "merge_entries (int (Suc p) + 1) es l = l" using Cons.prems t by (intro Cons.IH) simp_all
  with merge_match [OF assms(1) lt t(1)] show ?case by simp
qed simp

definition merged_log :: "nat \<Rightarrow> log_entry list \<Rightarrow> log_entry list \<Rightarrow> log_entry list \<Rightarrow> bool" where
  \<comment> \<open>\<open>new\<close> is \<open>old\<close> reconciled with \<open>es\<close> after the first \<open>p\<close> entries: the prefix is untouched, the
    terms are those of \<open>es\<close>, and entries of \<open>old\<close> were dropped only at a conflict\<close>
  "merged_log p es old new \<longleftrightarrow>
     take p new = take p old \<and> map le_term (take (length es) (drop p new)) = map le_term es \<and>
     (new = old \<or>
      (\<exists>k < length es. new = take (p + k) old @ drop k es \<and>
         (p + k < length old \<longrightarrow> le_term (old ! (p + k)) \<noteq> le_term (es ! k))))"

lemma append_entries_success_cases:
  assumes "handle_append_entries t ld prev pt es lc clk n = ((rt, True, m), n')"
  shows "rn_term n \<le> t \<and> rt = t \<and> rn_term n' = t \<and>
    rn_log n' = merge_entries (prev + 1) es (rn_log n) \<and> m = rl_last_index (rn_log n') \<and>
    rn_commit n' = (if lc > rn_commit n then min lc m else rn_commit n) \<and>
    (prev > 0 \<longrightarrow> prev \<le> rl_last_index (rn_log n) \<and> rl_term_at prev (rn_log n) = pt)"
  using assms
  by (auto simp: handle_append_entries_def Let_def max_def not_less split: if_splits)

text \<open>
  C8: log reconciliation.  Take a member whose log is numbered consecutively from 1 and a message
  whose entries are numbered from \<open>prev_log_index + 1\<close>.  When the member answers with success, its
  term is the message's, its log is still numbered consecutively, holds the leader's terms at every
  index the message covers, is unchanged up to \<open>prev_log_index\<close>, and lost entries only from the
  first index whose term conflicts; \<open>match_index\<close> is its last index, and the commit index moved to
  the smaller of the leader's and that index (or stayed).
\<close>

theorem append_entries_reconciles:
  assumes "log_ok (rn_log n)" "rl_snap_index (rn_log n) = 0" "0 \<le> prev" "consecutive (prev + 1) es"
    "handle_append_entries t ld prev pt es lc clk n = ((rt, True, m), n')"
  shows "rn_term n \<le> t \<and> rn_term n' = t \<and> log_ok (rn_log n') \<and> rl_snap_index (rn_log n') = 0 \<and>
    merged_log (nat prev) es (rl_entries (rn_log n)) (rl_entries (rn_log n')) \<and>
    m = int (length (rl_entries (rn_log n'))) \<and> prev + int (length es) \<le> m \<and>
    rn_commit n' = (if lc > rn_commit n then min lc m else rn_commit n)"
proof -
  note c = append_entries_success_cases [OF assms(5)]
  have "nat prev \<le> length (rl_entries (rn_log n))"
    using c last_index_eq [OF assms(1)] assms(2,3) by (cases "prev = 0") auto
  with merge_spec [OF assms(1,2), of "nat prev" es] assms(3,4) c
  have ms: "log_ok (rn_log n')" "rl_snap_index (rn_log n') = 0"
    "nat prev + length es \<le> length (rl_entries (rn_log n'))"
    "merged_log (nat prev) es (rl_entries (rn_log n)) (rl_entries (rn_log n'))"
    by (auto simp: merged_log_def)
  with c last_index_eq [OF ms(1)] assms(3) show ?thesis by auto
qed

definition demo_log :: "int list \<Rightarrow> raft_log" where
  \<comment> \<open>a log whose entries have the given terms\<close>
  "demo_log ts = \<lparr>rl_entries = map (\<lambda>(i, t). \<lparr>le_term = t, le_index = i, le_command = ''NOP''\<rparr>)
                                 (zip [1 .. int (length ts)] ts),
                  rl_snap_index = 0, rl_snap_term = 0, rl_file = None\<rparr>"

definition demo_node :: "string \<Rightarrow> string list \<Rightarrow> int \<Rightarrow> int list \<Rightarrow> raft_node" where
  "demo_node i peers t ts =
     new_node i peers \<lparr>ps_term = t, ps_voted = None, ps_file = None, ps_durable = True\<rparr> (demo_log ts) (0, 0)"

lemmas demo_defs = demo_node_def demo_log_def new_node_def rn_term_def upto.simps

theorem append_entries_reconciles_witness:
  "map le_term (rl_entries (rn_log (snd (handle_append_entries 3 ''b'' 1 1
      [\<lparr>le_term = 3, le_index = 2, le_command = ''x''\<rparr>] 2 (0, 0) (demo_node ''a'' [''b''] 2 [1, 2, 2])))))
     = [1, 3]"
proof -
  let ?n = "demo_node ''a'' [''b''] 2 [1, 2, 2]"
  let ?es = "[\<lparr>le_term = 3, le_index = 2, le_command = ''x''\<rparr>]"
  obtain n' where h: "handle_append_entries 3 ''b'' 1 1 ?es 2 (0, 0) ?n = ((3, True, 2), n')"
    by (simp add: handle_append_entries_def check_term_def step_down_def reset_contact_def demo_defs
        rl_last_index_def rl_term_at_def rl_get_def Let_def rl_truncate_from_def rl_rewrite_def
        rl_append_all_def rl_persist_entry_def ps_set_term_def ps_save_def)
  have l: "rl_entries (rn_log ?n) = [\<lparr>le_term = 1, le_index = 1, le_command = ''NOP''\<rparr>,
     \<lparr>le_term = 2, le_index = 2, le_command = ''NOP''\<rparr>, \<lparr>le_term = 2, le_index = 3, le_command = ''NOP''\<rparr>]"
    "rl_snap_index (rn_log ?n) = 0"
    by (simp_all add: demo_defs)
  have "merged_log (nat 1) ?es (rl_entries (rn_log ?n)) (rl_entries (rn_log n')) \<and>
      2 = int (length (rl_entries (rn_log n')))"
    using append_entries_reconciles [OF _ _ _ _ h] l
    by (auto simp: log_ok_def consecutive_def less_Suc_eq)
  then have "rl_entries (rn_log n') = [\<lparr>le_term = 1, le_index = 1, le_command = ''NOP''\<rparr>] @ ?es"
    unfolding merged_log_def l by auto
  with h show ?thesis by simp
qed

text \<open>
  A retransmitted message is harmless.  After a successful answer the same message, delivered
  again with the member still in that term, is answered in the same way and changes neither the log
  nor the commit index.
\<close>

theorem append_entries_idempotent:
  assumes "log_ok (rn_log n)" "rl_snap_index (rn_log n) = 0" "0 \<le> prev" "consecutive (prev + 1) es"
    "handle_append_entries t ld prev pt es lc clk n = ((rt, True, m), n')"
  shows "\<exists>n''. handle_append_entries t ld prev pt es lc clk' n' = ((rt, True, m), n'') \<and>
    rn_log n'' = rn_log n' \<and> rn_commit n'' = rn_commit n' \<and> rn_ps n'' = rn_ps n'"
proof -
  note c = append_entries_success_cases [OF assms(5)]
  define l where "l = rn_log n"
  define p where "p = nat prev"
  have prev: "prev = int p" using assms(3) by (simp add: p_def)
  have ple: "p \<le> length (rl_entries l)"
    using c last_index_eq [OF assms(1)] assms(2,3) unfolding l_def p_def by (cases "prev = 0") auto
  have cons: "consecutive (int p + 1) es" using assms(4) prev by simp
  note ms = merge_spec [OF assms(1,2) cons, folded l_def, OF ple]
  have l': "rn_log n' = merge_entries (int p + 1) es l" using c by (simp add: l_def prev)
  have same: "merge_entries (prev + 1) es (rn_log n') = rn_log n'"
    unfolding prev by (rule merge_idempotent) (use ms l' in simp_all)
  have tk: "take p (rl_entries (rn_log n')) = take p (rl_entries l)" using ms l' by simp
  have len: "p + length es \<le> length (rl_entries (rn_log n'))" using ms l' by simp
  have last: "rl_last_index (rn_log n') = int (length (rl_entries (rn_log n')))"
    using last_index_eq [of "rn_log n'"] ms l' by simp
  have term_prev: "rl_term_at prev (rn_log n') = pt" if pos: "prev > 0"
  proof -
    have q: "p - 1 < length (rl_entries l)" "p - 1 < length (rl_entries (rn_log n'))" "p > 0"
      using pos ple len prev by auto
    have "rl_entries (rn_log n') ! (p - 1) = rl_entries l ! (p - 1)"
      using tk q by (metis diff_less nth_take zero_less_one)
    moreover have "rl_term_at (int p) l = le_term (rl_entries l ! (p - 1))"
      by (rule rl_term_at_nth) (use q assms(2) in \<open>auto simp: l_def\<close>)
    moreover have "rl_term_at (int p) (rn_log n') = le_term (rl_entries (rn_log n') ! (p - 1))"
      by (rule rl_term_at_nth) (use q ms l' in auto)
    ultimately have "rl_term_at prev (rn_log n') = rl_term_at prev l" by (simp add: prev)
    with c pos show ?thesis by (simp add: l_def)
  qed
  have "prev \<le> rl_last_index (rn_log n')" using len last prev by simp
  with c same term_prev show ?thesis
    by (auto simp: handle_append_entries_def check_term_def Let_def rn_term_def)
qed

theorem append_entries_idempotent_witness:
  "\<exists>n' n''. handle_append_entries 3 ''b'' 0 0 [\<lparr>le_term = 3, le_index = 1, le_command = ''x''\<rparr>] 1 (0, 0)
        (demo_node ''a'' [''b''] 2 []) = ((3, True, 1), n') \<and>
     handle_append_entries 3 ''b'' 0 0 [\<lparr>le_term = 3, le_index = 1, le_command = ''x''\<rparr>] 1 (5, 1) n'
       = ((3, True, 1), n'')"
proof -
  obtain n' where h: "handle_append_entries 3 ''b'' 0 0 [\<lparr>le_term = 3, le_index = 1, le_command = ''x''\<rparr>]
      1 (0, 0) (demo_node ''a'' [''b''] 2 []) = ((3, True, 1), n')"
    by (simp add: handle_append_entries_def check_term_def step_down_def reset_contact_def demo_defs
        rl_last_index_def rl_term_at_def rl_get_def Let_def
        rl_append_all_def rl_persist_entry_def ps_set_term_def ps_save_def)
  have "log_ok (rn_log (demo_node ''a'' [''b''] 2 []))" "rl_snap_index (rn_log (demo_node ''a'' [''b''] 2 [])) = 0"
    by (simp_all add: demo_defs log_ok_def)
  with append_entries_idempotent [OF _ _ _ _ h, of "(5, 1)"] h show ?thesis
    by (auto simp: consecutive_def)
qed

section \<open>The commit index\<close>

definition replicated_on :: "int \<Rightarrow> raft_node \<Rightarrow> int" where
  \<comment> \<open>how many members the leader believes to hold the entries up to \<open>k\<close>\<close>
  "replicated_on k n = int (length (filter (\<lambda>(_, m). m \<ge> k) (rn_match n)))"

definition committable :: "int \<Rightarrow> int \<Rightarrow> raft_node \<Rightarrow> bool" where
  "committable t k n \<longleftrightarrow> rl_term_at k (rn_log n) = t \<and> replicated_on k n \<ge> rn_quorum n"

lemma advance_from_spec:
  "(\<exists>j. rn_commit n < j \<and> j \<le> k \<and> committable t j n \<and> (\<forall>i. j < i \<and> i \<le> k \<longrightarrow> \<not> committable t i n) \<and>
       advance_from t k n = n\<lparr>rn_commit := j\<rparr>) \<or>
   (\<forall>i. rn_commit n < i \<and> i \<le> k \<longrightarrow> \<not> committable t i n) \<and> advance_from t k n = n"
proof (induction t k n rule: advance_from.induct)
  case (1 t k n)
  show ?case
  proof (cases "k > rn_commit n")
    case False
    then show ?thesis by (subst advance_from.simps) auto
  next
    case gt: True
    show ?thesis
    proof (cases "committable t k n")
      case True
      with gt have "advance_from t k n = n\<lparr>rn_commit := k\<rparr>"
        by (subst advance_from.simps) (simp add: committable_def replicated_on_def)
      with gt True show ?thesis by auto
    next
      case False
      with gt have a: "advance_from t k n = advance_from t (k - 1) n"
        by (subst advance_from.simps) (auto simp: committable_def replicated_on_def)
      have split: "i \<le> k \<longleftrightarrow> i = k \<or> i \<le> k - 1" for i by auto
      from 1 [OF gt] False gt show ?thesis unfolding a
        by (auto simp: committable_def replicated_on_def split)
    qed
  qed
qed

text \<open>
  The commit rule.  The leader's scan moves the commit index to the largest index above it that
  carries an entry of the current term and that a quorum of \<open>match_index\<close> entries reaches; when there
  is none it stays, and nothing else of the member changes.  So the index never moves back and never
  passes the end of the log.
\<close>

theorem advance_commit_rule:
  "let n' = advance_commit t n; last = rl_last_index (rn_log n) in
     n' = n\<lparr>rn_commit := rn_commit n'\<rparr> \<and> rn_commit n \<le> rn_commit n' \<and>
     (\<forall>i. rn_commit n' < i \<and> i \<le> last \<longrightarrow> \<not> committable t i n) \<and>
     (rn_commit n' \<noteq> rn_commit n \<longrightarrow> rn_commit n' \<le> last \<and> committable t (rn_commit n') n)"
  using advance_from_spec [of n "rl_last_index (rn_log n)" t]
  by (auto simp: advance_commit_def Let_def)

theorem advance_commit_rule_witness:
  "rn_commit (advance_commit 2 (demo_node ''a'' [''b'', ''c''] 2 [1, 2]
      \<lparr>rn_match := [(''a'', 2), (''b'', 2), (''c'', 0)]\<rparr>)) = 2"
proof -
  let ?n = "demo_node ''a'' [''b'', ''c''] 2 [1, 2] \<lparr>rn_match := [(''a'', 2), (''b'', 2), (''c'', 0)]\<rparr>"
  have com: "committable 2 2 ?n" "rl_last_index (rn_log ?n) = 2"
    by (simp_all add: committable_def replicated_on_def rn_quorum_def demo_defs rl_term_at_def
        rl_get_def rl_last_index_def)
  from advance_commit_rule [of 2 ?n] have
    "\<not> rn_commit (advance_commit 2 ?n) < 2" "rn_commit (advance_commit 2 ?n) \<le> 2 \<or>
      rn_commit (advance_commit 2 ?n) = rn_commit ?n"
    using com unfolding Let_def by auto
  moreover have "rn_commit ?n = 0" by (simp add: demo_defs)
  ultimately show ?thesis by auto
qed

section \<open>Handing committed entries to the state machine\<close>

definition quiet :: "int \<Rightarrow> raft_node \<Rightarrow> raft_node" where
  \<comment> \<open>no other thread touches the member while the loop runs\<close>
  "quiet i n = n"

lemma apply_loop_quiet:
  "apply_loop quiet is n = (List.map_filter (\<lambda>i. rl_get i (rn_log n)) is, n)"
  by (induction "is") (auto simp: quiet_def List.map_filter_def split: option.splits)

text \<open>
  Every committed entry is handed over, in log order, once.  When no other thread moves the
  commit index in the meantime, the loop hands exactly the entries above \<open>last_applied\<close> up to the
  commit index to \<open>apply_fn\<close>, in the order of the log, and records them as applied.
\<close>

theorem apply_committed_in_order:
  assumes "rl_snap_index (rn_log n) = 0" "0 \<le> rn_applied n"
    "rn_commit n \<le> int (length (rl_entries (rn_log n)))" "rn_applied n \<le> rn_commit n"
  shows "apply_committed quiet n =
    (drop (nat (rn_applied n)) (take (nat (rn_commit n)) (rl_entries (rn_log n))),
     n\<lparr>rn_applied := rn_commit n\<rparr>)"
proof -
  let ?xs = "rl_entries (rn_log n)"
  have g: "List.map_filter (\<lambda>i. rl_get i (rn_log n)) [int a + 1 .. int b] = drop a (take b ?xs)"
    if "a \<le> b" "b \<le> length ?xs" for a b
    using that
  proof (induction b)
    case (Suc b)
    show ?case
    proof (cases "a = Suc b")
      case False
      then have "[int a + 1 .. int (Suc b)] = [int a + 1 .. int b] @ [int b + 1]"
        using Suc.prems upto_rec2 [of "int a + 1" "int (Suc b)"] by (simp add: add.commute)
      moreover have "rl_get (int b + 1) (rn_log n) = Some (?xs ! b)"
        using Suc.prems assms(1) by (simp add: rl_get_nth)
      ultimately show ?thesis
        using Suc False by (simp add: List.map_filter_def take_Suc_conv_app_nth)
    qed (simp add: List.map_filter_def)
  qed (simp add: List.map_filter_def)
  have "List.map_filter (\<lambda>i. rl_get i (rn_log n)) [rn_applied n + 1 .. rn_commit n] =
      drop (nat (rn_applied n)) (take (nat (rn_commit n)) ?xs)"
    using g [of "nat (rn_applied n)" "nat (rn_commit n)"] assms by simp
  with assms show ?thesis
    by (auto simp: apply_committed_def apply_loop_quiet Let_def) (simp_all add: quiet_def)
qed

theorem apply_committed_in_order_witness:
  "map le_index (fst (apply_committed quiet (demo_node ''a'' [''b''] 1 [1, 1, 1] \<lparr>rn_commit := 2, rn_applied := 1\<rparr>)))
     = [2]"
  by (subst apply_committed_in_order) (simp_all add: demo_defs)

section \<open>A whole election without interference\<close>

text \<open>\<open>_start_election\<close> run to its end: \<open>answers\<close> are what the peers answer, in the order asked.\<close>

fun election_loop ::
  "int \<Rightarrow> elect_next \<Rightarrow> (int \<times> bool) option list \<Rightarrow> clk \<Rightarrow> raft_node \<Rightarrow> raft_node \<times> elect_next" where
  "election_loop nt (Asking (p # ps) v) (a # as) clk n =
     (let (n', nx) = election_answer nt ps v a clk n in election_loop nt nx as clk n')"
| "election_loop nt nx as clk n = (n, nx)"

definition start_election :: "(int \<times> bool) option list \<Rightarrow> clk \<Rightarrow> raft_node \<Rightarrow> raft_node" where
  "start_election answers clk n =
     (let (n1, nx) = election_begin clk n;
          (n2, nx2) = election_loop (rn_term n1) nx answers clk n1
      in if nx2 = Won then become_leader (rn_term n1) clk n2 else n2)"

definition grants :: "(int \<times> bool) option list \<Rightarrow> nat" where
  "grants as = length (filter (\<lambda>a. case a of Some (_, g) \<Rightarrow> g | None \<Rightarrow> False) as)"

lemma grants_Cons [simp]:
  "grants (a # as) = (case a of Some (_, True) \<Rightarrow> 1 | _ \<Rightarrow> 0) + grants as" "grants [] = 0"
  by (auto simp: grants_def split: option.split bool.split)

lemma grants_le: "grants as \<le> length as"
  by (simp add: grants_def)

lemma election_loop_outcome:
  assumes "rn_role n = Candidate" "rn_term n = nt" "length as = length ps" "ps \<noteq> []"
    "\<forall>a \<in> set as. \<forall>r g. a = Some (r, g) \<longrightarrow> r \<le> nt"
  shows "election_loop nt (Asking ps v) as clk n =
    (n, if grants as \<ge> 1 \<and> v + int (grants as) \<ge> rn_quorum n then Won else Ended)"
  using assms(3-5)
proof (induction ps arbitrary: as v)
  case (Cons p ps)
  then obtain a as' where as: "as = a # as'" by (cases as) auto
  consider (refused) "a = None \<or> (\<exists>r. a = Some (r, False) \<and> r \<le> nt)" | (granted) r where "a = Some (r, True)" "r \<le> nt"
  proof (cases a)
    case (Some rg)
    then obtain r g where "a = Some (r, g)" by (cases rg) auto
    with that Cons.prems as show ?thesis by (cases g) auto
  qed (use that in blast)
  then show ?case
  proof cases
    case refused
    have ans: "election_answer nt ps v a clk n = (n, if ps = [] then Ended else Asking ps v)"
      using refused assms(1,2) by (auto simp: election_answer_def Let_def)
    from refused have "grants as = grants as'" by (auto simp: as)
    with ans Cons.prems Cons.IH [of as' v] show ?thesis by (cases "ps = []") (auto simp: as)
  next
    case granted
    have g: "grants as = Suc (grants as')" using granted by (simp add: as)
    show ?thesis
    proof (cases "v + 1 \<ge> rn_quorum n")
      case True
      with granted assms(1,2) g show ?thesis by (simp add: as election_answer_def Let_def)
    next
      case False
      with granted assms(1,2) have ans: "election_answer nt ps v a clk n =
          (n, if ps = [] then Ended else Asking ps (v + 1))"
        by (auto simp: election_answer_def Let_def)
      with Cons.prems Cons.IH [of as' "v + 1"] g False grants_le [of as'] show ?thesis
        by (cases "ps = []") (auto simp: as)
    qed
  qed
qed simp

text \<open>
  The outcome of an election.  When every peer either answers with a term not above the
  candidate's or cannot be reached, and nothing else happens to the candidate, it ends in the next
  term having voted for itself, and it leads exactly when at least one peer granted its vote and the
  grants with its own vote reach \<open>(number of peers + 2) div 2\<close>.
\<close>

theorem election_outcome:
  assumes "length answers = length (rn_peers n)"
    "\<forall>a \<in> set answers. \<forall>r g. a = Some (r, g) \<longrightarrow> r \<le> rn_term n + 1"
  shows "let n' = start_election answers clk n in
    rn_term n' = rn_term n + 1 \<and> ps_voted (rn_ps n') = Some (rn_id n) \<and> rn_log n' = rn_log n \<and>
    rn_role n' = (if grants answers \<ge> 1 \<and> 1 + int (grants answers) \<ge> rn_quorum n
                  then Leader else Candidate)"
proof -
  obtain n1 nx where b: "election_begin clk n = (n1, nx)" by fastforce
  then have n1: "rn_term n1 = rn_term n + 1" "ps_voted (rn_ps n1) = Some (rn_id n)" "rn_log n1 = rn_log n"
    "rn_role n1 = Candidate" "rn_quorum n1 = rn_quorum n" "rn_id n1 = rn_id n"
    "nx = (if rn_peers n = [] then Ended else Asking (rn_peers n) 1)"
    by (auto simp: election_begin_def Let_def rn_quorum_def reset_contact_def rn_term_def)
  show ?thesis
  proof (cases "rn_peers n = []")
    case True
    with assms n1 b show ?thesis by (simp add: start_election_def)
  next
    case False
    have "election_loop (rn_term n1) (Asking (rn_peers n) 1) answers clk n1 =
        (n1, if grants answers \<ge> 1 \<and> 1 + int (grants answers) \<ge> rn_quorum n1 then Won else Ended)"
      by (rule election_loop_outcome) (use assms n1 False in auto)
    with n1 b False show ?thesis
      by (simp add: start_election_def become_leader_def Let_def)
  qed
qed

theorem election_outcome_witness:
  "rn_role (start_election [None, Some (1, True)] (0, 0) (demo_node ''a'' [''b'', ''c''] 0 [])) = Leader"
  using election_outcome [of "[None, Some (1, True)]" "demo_node ''a'' [''b'', ''c''] 0 []" "(0, 0)"]
  by (simp add: demo_defs rn_quorum_def Let_def)

text \<open>
  A cluster of one never gets a leader.  A member without peers stays a candidate after each of
  its elections, however many it holds, and so refuses every proposal: the quorum test sits inside
  the loop over the peers.
\<close>

theorem lone_member_never_leads:
  "rn_role (((start_election [] clk) ^^ Suc k) (demo_node i [] t ts)) = Candidate \<and>
   fst (propose cmd (((start_election [] clk) ^^ Suc k) (demo_node i [] t ts))) = (False, 0)"
proof -
  have "rn_peers (((start_election [] clk) ^^ k) (demo_node i [] t ts)) = []" for k
    by (induction k) (simp_all add: start_election_def election_begin_def demo_defs reset_contact_def Let_def)
  then have "rn_role (((start_election [] clk) ^^ Suc k) (demo_node i [] t ts)) = Candidate"
    by (simp add: start_election_def election_begin_def reset_contact_def Let_def)
  then show ?thesis by (simp add: propose_def)
qed

section \<open>Two losses\<close>

text \<open>
  A committed entry can be skipped.  The commit index is read again when \<open>last_applied\<close> is moved,
  so when another thread commits entry 2 while entry 1 is handed over, entry 2 counts as applied and no
  later round hands it to the state machine.
\<close>

theorem apply_skips_committed_entry:
  "let n0 = demo_node ''a'' [''b'', ''c''] 1 [1, 1] \<lparr>rn_commit := 1\<rparr>;
       late = (\<lambda>i n. if i = 2 then n\<lparr>rn_commit := 2\<rparr> else n);
       (first, n1) = apply_committed late n0;
       (second, n2) = apply_committed quiet n1
   in map le_index first = [1] \<and> rn_applied n1 = 2 \<and> rn_commit n1 = 2 \<and> second = [] \<and> n2 = n1"
  by (simp add: apply_committed_def quiet_def demo_defs rl_get_def)

text \<open>
  An entry can be committed on one member of three.  The follower \<open>b\<close> still holds an entry of
  term 2 beyond the end of the leader's log and reports its own last index; the leader \<open>a\<close> of term 3
  appends an entry between sending its message and reading the answer, takes the answer for an
  acknowledgement of it and commits, although neither \<open>b\<close> nor \<open>c\<close> holds it.
\<close>

theorem commit_without_replication:
  "let a = become_leader 3 (0, 0) (demo_node ''a'' [''b'', ''c''] 3 [1] \<lparr>rn_role := Candidate\<rparr>);
       b = demo_node ''b'' [''a'', ''c''] 2 [1, 2];
       (a1, started) = replicate_begin 0 a;
       (t, nexts, commit) = the started;
       (prev, prev_term, es) = replicate_request ''b'' nexts a1;
       (answer, b1) = handle_append_entries t ''a'' prev prev_term es commit (0, 0) b;
       (accepted, a2) = propose ''SET x 1'' a1;
       (a3, goes_on) = replicate_answer t ''b'' (Some answer) (0, 0) a2
   in accepted = (True, 2) \<and> rn_commit a3 = 2 \<and>
      map le_term (rl_entries (rn_log a3)) = [1, 3] \<and> map le_term (rl_entries (rn_log b1)) = [1, 2]"
  by (simp add: demo_defs become_leader_def replicate_begin_def replicate_request_def propose_def
      handle_append_entries_def replicate_answer_def advance_commit_def advance_from.simps
      rn_quorum_def rl_append_def rl_persist_entry_def rl_last_index_def rl_term_at_def rl_get_def
      rl_entries_from_def check_term_def step_down_def reset_contact_def ps_set_term_def ps_save_def)

end
