(* ===== verification/Raft_Cluster.thy ===== *)
theory Raft_Cluster
  imports Raft_Node_Props
begin

text \<open>
  The members of a cluster together (\<open>bootstrap_cluster\<close> of
  \<open>modules/raft-kv/raft_kv/__init__.py\<close>): every interleaving of the locked sections of all members,
  with requests that are lost, late, repeated or made up, answers that are lost, made-up answers to
  replication requests, and members that crash and restart from their files, if they have any.  An
  answer to a vote request is the one its peer gave to this call.  The main theorem is that two members
  never lead the same term when their number is odd and they have a data directory; with four
  members, or without a directory, two of them can.
\<close>

section \<open>Quorums\<close>

locale quorum_system =
  fixes quorum :: "'v set \<Rightarrow> bool"
  assumes meet: "quorum Q \<Longrightarrow> quorum R \<Longrightarrow> \<exists>v. v \<in> Q \<and> v \<in> R"
begin

lemma chosen_unique:
  assumes "\<And>v c c'. ballot v c \<Longrightarrow> ballot v c' \<Longrightarrow> c = c'"
    "quorum Q" "\<forall>v \<in> Q. ballot v c" "quorum R" "\<forall>v \<in> R. ballot v c'"
  shows "c = c'"
  using meet [OF assms(2,4)] assms(1,3,5) by blast

end

definition majority :: "string list \<Rightarrow> string set \<Rightarrow> bool" where
  "majority ms Q \<longleftrightarrow> Q \<subseteq> set ms \<and> card (set ms) < 2 * card Q"

interpretation maj: quorum_system "majority ms" for ms
proof
  fix Q R assume q: "majority ms Q" "majority ms R"
  then have fin: "finite Q" "finite R" by (auto simp: majority_def intro: finite_subset)
  show "\<exists>v. v \<in> Q \<and> v \<in> R"
  proof (rule ccontr)
    assume "\<not> ?thesis"
    then have "card Q + card R = card (Q \<union> R)" using fin by (subst card_Un_disjoint) auto
    also have "\<dots> \<le> card (set ms)" using q by (intro card_mono) (auto simp: majority_def)
    finally show False using q by (simp add: majority_def)
  qed
qed

section \<open>The cluster\<close>

text \<open>
  A running election of a member: what the ticker thread keeps in local variables, the answer it is
  about to look at, and (for the proofs only) the peers whose votes it counted.
\<close>

record ballot =
  bl_term :: int
  bl_index :: int
  bl_last_term :: int
  bl_next :: elect_next
  bl_pending :: "(int \<times> bool) option option"
  bl_counted :: "string list"

text \<open>\<open>cs_grants\<close> and \<open>cs_leaders\<close> record history: who voted for whom in which term, and who led.\<close>

record cluster =
  cs_node :: "string \<Rightarrow> raft_node"
  cs_elect :: "string \<Rightarrow> ballot option"
  cs_grants :: "(string \<times> int \<times> string) set"
  cs_leaders :: "(int \<times> string) set"

datatype cevent =
    BeginElection string clk
  | AskPeer string clk
  | LoseAnswer string
  | CountAnswer string clk
  | TakeOffice string clk
  | VoteRequest string int string int int clk
  | AppendRequest string int string int int "log_entry list" int clk
  | ClientProposal string string
  | ReplicateRound string rat
  | PeerAnswer string int string "(int \<times> bool \<times> int) option" clk
  | ApplyRound string
  | Restart string clk

fun actor :: "cevent \<Rightarrow> string" where
  "actor (BeginElection i _) = i" | "actor (AskPeer i _) = i" | "actor (LoseAnswer i) = i"
| "actor (CountAnswer i _) = i" | "actor (TakeOffice i _) = i" | "actor (VoteRequest i _ _ _ _ _) = i"
| "actor (AppendRequest i _ _ _ _ _ _ _) = i" | "actor (ClientProposal i _) = i"
| "actor (ReplicateRound i _) = i" | "actor (PeerAnswer i _ _ _ _) = i" | "actor (ApplyRound i) = i"
| "actor (Restart i _) = i"

definition put_node :: "string \<Rightarrow> raft_node \<Rightarrow> cluster \<Rightarrow> cluster" where
  "put_node i n c = c\<lparr>cs_node := (cs_node c)(i := n)\<rparr>"

definition put_elect :: "string \<Rightarrow> ballot option \<Rightarrow> cluster \<Rightarrow> cluster" where
  "put_elect i b c = c\<lparr>cs_elect := (cs_elect c)(i := b)\<rparr>"

definition deliver_vote :: "string \<Rightarrow> int \<Rightarrow> string \<Rightarrow> int \<Rightarrow> int \<Rightarrow> clk \<Rightarrow> cluster \<Rightarrow> (int \<times> bool) \<times> cluster" where
  "deliver_vote j t cand lli llt clk c =
     (let ((r, g), n) = handle_request_vote t cand lli llt clk (cs_node c j)
      in ((r, g), (put_node j n c)\<lparr>cs_grants := cs_grants c \<union> (if g then {(j, t, cand)} else {})\<rparr>))"

definition restart_node :: "clk \<Rightarrow> raft_node \<Rightarrow> raft_node" where
  \<comment> \<open>the process starts again from its files; when the log cannot be read it stays down\<close>
  "restart_node clk n =
     (case rl_init (rl_file (rn_log n)) of
        Inl e \<Rightarrow> n
      | Inr l \<Rightarrow> new_node (rn_id n) (rn_peers n) (ps_init (ps_durable (rn_ps n)) (ps_file (rn_ps n))) l clk)"

fun c_do :: "cevent \<Rightarrow> cluster \<Rightarrow> cluster" where
  \<comment> \<open>the answer to a vote request is the one the peer's handler gives, or none\<close>
  "c_do (BeginElection i clk) c =
     (case cs_elect c i of
        Some _ \<Rightarrow> c
      | None \<Rightarrow>
          (let (n, nx) = election_begin clk (cs_node c i);
               b = \<lparr>bl_term = rn_term n, bl_index = rl_last_index (rn_log n),
                    bl_last_term = rl_last_term (rn_log n), bl_next = nx, bl_pending = None,
                    bl_counted = []\<rparr>
           in put_elect i (Some b)
                ((put_node i n c)\<lparr>cs_grants := insert (i, rn_term n, i) (cs_grants c)\<rparr>)))"
| "c_do (AskPeer i clk) c =
     (case cs_elect c i of
        None \<Rightarrow> c
      | Some b \<Rightarrow>
          (case (bl_next b, bl_pending b) of
             (Asking (p # ps) v, None) \<Rightarrow>
               (let (r, c1) = deliver_vote p (bl_term b) i (bl_index b) (bl_last_term b) clk c
                in put_elect i (Some (b\<lparr>bl_pending := Some (Some r)\<rparr>)) c1)
           | _ \<Rightarrow> c))"
| "c_do (LoseAnswer i) c =
     (case cs_elect c i of
        None \<Rightarrow> c
      | Some b \<Rightarrow> put_elect i (Some (b\<lparr>bl_pending := Some None\<rparr>)) c)"
| "c_do (CountAnswer i clk) c =
     (case cs_elect c i of
        None \<Rightarrow> c
      | Some b \<Rightarrow>
          (case (bl_next b, bl_pending b) of
             (Asking (p # ps) v, Some a) \<Rightarrow>
               (let (n, nx) = election_answer (bl_term b) ps v a clk (cs_node c i);
                    cnt = (case a of Some (_, True) \<Rightarrow> p # bl_counted b | _ \<Rightarrow> bl_counted b)
                in put_elect i (Some (b\<lparr>bl_next := nx, bl_pending := None, bl_counted := cnt\<rparr>))
                     (put_node i n c))
           | (Ended, _) \<Rightarrow> put_elect i None c
           | _ \<Rightarrow> c))"
| "c_do (TakeOffice i clk) c =
     (case cs_elect c i of
        None \<Rightarrow> c
      | Some b \<Rightarrow>
          if bl_next b = Won then
            (let n = become_leader (bl_term b) clk (cs_node c i)
             in put_elect i None ((put_node i n c)
                  \<lparr>cs_leaders := cs_leaders c \<union> (if rn_role n = Leader then {(rn_term n, i)} else {})\<rparr>))
          else c)"
| "c_do (VoteRequest j t cand lli llt clk) c = snd (deliver_vote j t cand lli llt clk c)"
| "c_do (AppendRequest j t ld prev pt es lc clk) c =
     put_node j (snd (handle_append_entries t ld prev pt es lc clk (cs_node c j))) c"
| "c_do (ClientProposal i cmd) c = put_node i (snd (propose cmd (cs_node c i))) c"
| "c_do (ReplicateRound i now) c = put_node i (fst (replicate_begin now (cs_node c i))) c"
| "c_do (PeerAnswer i t p a clk) c = put_node i (fst (replicate_answer t p a clk (cs_node c i))) c"
| "c_do (ApplyRound i) c = put_node i (snd (apply_committed quiet (cs_node c i))) c"
| "c_do (Restart i clk) c = put_elect i None (put_node i (restart_node clk (cs_node c i)) c)"

definition c_step :: "string list \<Rightarrow> cevent \<Rightarrow> cluster \<Rightarrow> cluster" where
  "c_step ms ev c = (if actor ev \<in> set ms then c_do ev c else c)"

text \<open>
  The data directory: for every member its state file, if there is one, and the lines of its log
  file (none, if there is no file).  Without one, which is the default, members are in memory only.
\<close>

type_synonym data_dir = "(string \<Rightarrow> (int \<times> string option) option \<times> log_line list) option"

definition start_node :: "data_dir \<Rightarrow> string list \<Rightarrow> clk \<Rightarrow> string \<Rightarrow> raft_node res" where
  "start_node data ms clk i =
     (let peers = filter (\<lambda>p. p \<noteq> i) ms in
      case data of
        None \<Rightarrow> ebind (rl_init None) (\<lambda>l. Inr (new_node i peers (ps_init False None) l clk))
      | Some dir \<Rightarrow> ebind (rl_init (Some (snd (dir i)))) (\<lambda>l. Inr (new_node i peers (ps_init True (fst (dir i))) l clk)))"

definition boot :: "string list \<Rightarrow> data_dir \<Rightarrow> clk \<Rightarrow> cluster res" where
  \<comment> \<open>a name that is no member has no node, its entry is never used\<close>
  "boot ms data clk =
     ebind (emap (start_node data ms clk) ms) (\<lambda>ns.
     Inr \<lparr>cs_node = (\<lambda>i. case map_of (zip ms ns) i of Some n \<Rightarrow> n
              | None \<Rightarrow> new_node i (filter (\<lambda>p. p \<noteq> i) ms) (ps_init (data \<noteq> None) None)
                  \<lparr>rl_entries = [], rl_snap_index = 0, rl_snap_term = 0, rl_file = None\<rparr> clk),
      cs_elect = (\<lambda>i. None), cs_grants = {}, cs_leaders = {}\<rparr>)"

inductive reach :: "string list \<Rightarrow> data_dir \<Rightarrow> cluster \<Rightarrow> bool" for ms data where
  start: "boot ms data clk = Inr c \<Longrightarrow> reach ms data c"
| step: "reach ms data c \<Longrightarrow> reach ms data (c_step ms ev c)"

section \<open>What every handler keeps\<close>

text \<open>A locked section keeps the member's identity and its promises, and does not make it a leader.\<close>

definition node_keeps :: "raft_node \<Rightarrow> raft_node \<Rightarrow> bool" where
  "node_keeps n n' \<longleftrightarrow> rn_id n' = rn_id n \<and> rn_peers n' = rn_peers n \<and>
     (ps_saved (rn_ps n) \<longrightarrow> ps_saved (rn_ps n')) \<and> rn_term n \<le> rn_term n' \<and>
     (rn_term n' = rn_term n \<and> ps_voted (rn_ps n) \<noteq> None \<longrightarrow> ps_voted (rn_ps n') = ps_voted (rn_ps n)) \<and>
     (rn_role n' = Leader \<longrightarrow> rn_role n = Leader \<and> rn_term n' = rn_term n)"

lemma node_keeps_refl [simp]: "node_keeps n n"
  by (simp add: node_keeps_def)

lemma node_keeps_trans: "node_keeps a b \<Longrightarrow> node_keeps b c \<Longrightarrow> node_keeps a c"
  unfolding node_keeps_def by (elim conjE) (intro conjI; force)

lemma node_keeps_same:
  "rn_id n' = rn_id n \<Longrightarrow> rn_peers n' = rn_peers n \<Longrightarrow> rn_ps n' = rn_ps n \<Longrightarrow>
     rn_role n' \<in> {rn_role n, Follower, Candidate} \<Longrightarrow> node_keeps n n'"
  by (auto simp: node_keeps_def rn_term_def)

lemma keeps_step_down: "rn_term n < t \<Longrightarrow> node_keeps n (step_down t clk n)"
  by (auto simp: node_keeps_def intro: ps_saved_steps ps_saved_durable)

lemma keeps_check_term: "node_keeps n (check_term t clk n)"
  by (auto simp: check_term_def intro: keeps_step_down)

lemma keeps_vote:
  "ps_voted (rn_ps n) = None \<or> ps_voted (rn_ps n) = Some c \<Longrightarrow>
     node_keeps n (reset_contact clk (n\<lparr>rn_ps := ps_set_voted_for (Some c) (rn_ps n)\<rparr>))"
  by (auto simp: node_keeps_def rn_term_def reset_contact_def intro: ps_saved_steps ps_saved_durable)

lemma keeps_request_vote: "node_keeps n (snd (handle_request_vote t cand lli llt clk n))"
proof -
  let ?n = "check_term t clk n"
  have "node_keeps ?n (snd (handle_request_vote t cand lli llt clk n))"
    using keeps_vote [of ?n cand clk] by (auto simp: handle_request_vote_def Let_def)
  then show ?thesis by (rule node_keeps_trans [OF keeps_check_term])
qed

lemma keeps_append_entries: "node_keeps n (snd (handle_append_entries t ld prev pt es lc clk n))"
proof -
  let ?n = "check_term t clk n"
  have "node_keeps ?n (snd (handle_append_entries t ld prev pt es lc clk n))"
    by (rule node_keeps_same) (auto simp: handle_append_entries_def Let_def)
  then show ?thesis by (rule node_keeps_trans [OF keeps_check_term])
qed

lemma keeps_election_begin: "node_keeps n (fst (election_begin clk n))"
  by (auto simp: election_begin_def Let_def node_keeps_def rn_term_def reset_contact_def
      intro: ps_saved_steps ps_saved_durable)

lemma keeps_election_answer: "node_keeps n (fst (election_answer nt ps v a clk n))"
  by (auto simp: election_answer_def Let_def intro: keeps_step_down split: option.split)

lemma keeps_propose: "node_keeps n (snd (propose cmd n))"
  by (rule node_keeps_same) (auto simp: propose_def Let_def)

lemma keeps_replicate_begin: "node_keeps n (fst (replicate_begin now n))"
  by (rule node_keeps_same) (auto simp: replicate_begin_def)

lemma keeps_replicate_answer: "node_keeps n (fst (replicate_answer t p a clk n))"
  by (auto simp: replicate_answer_def intro: keeps_step_down split: option.split)
    (rule node_keeps_same, auto)+

lemma keeps_apply: "node_keeps n (snd (apply_committed quiet n))"
  by (rule node_keeps_same)
    (auto simp: apply_committed_def apply_loop_quiet Let_def, simp_all add: quiet_def)

lemma keeps_restart: "ps_saved (rn_ps n) \<Longrightarrow> node_keeps n (restart_node clk n)"
  by (auto simp: restart_node_def node_keeps_def new_node_def rn_term_def ps_restart ps_saved_durable
      split: sum.split)

lemmas handler_keeps = keeps_request_vote keeps_append_entries keeps_election_begin
  keeps_election_answer keeps_propose keeps_replicate_begin keeps_replicate_answer keeps_apply

section \<open>The invariant\<close>

definition votes_ok :: "(string \<times> int \<times> string) set \<Rightarrow> (string \<Rightarrow> raft_node) \<Rightarrow> bool" where
  \<comment> \<open>a vote that was given is still remembered, or its term is over; at most one vote per term\<close>
  "votes_ok G N \<longleftrightarrow>
     (\<forall>v t c. (v, t, c) \<in> G \<longrightarrow> t \<le> rn_term (N v) \<and> (t = rn_term (N v) \<longrightarrow> ps_voted (rn_ps (N v)) = Some c)) \<and>
     (\<forall>v t c c'. (v, t, c) \<in> G \<longrightarrow> (v, t, c') \<in> G \<longrightarrow> c = c')"

definition ballot_ok :: "string list \<Rightarrow> string \<Rightarrow> (string \<times> int \<times> string) set \<Rightarrow> ballot \<Rightarrow> bool" where
  "ballot_ok ms i G b \<longleftrightarrow>
     i \<in> set ms \<and> (i, bl_term b, i) \<in> G \<and> (\<forall>p \<in> set (bl_counted b). (p, bl_term b, i) \<in> G) \<and>
     distinct (bl_counted b) \<and> i \<notin> set (bl_counted b) \<and> set (bl_counted b) \<subseteq> set ms \<and>
     (case bl_next b of
        Asking ps v \<Rightarrow> ps \<noteq> [] \<and> v = 1 + int (length (bl_counted b)) \<and> distinct ps \<and>
          set ps \<inter> set (bl_counted b) = {} \<and> i \<notin> set ps \<and> set ps \<subseteq> set ms \<and>
          (\<forall>r. bl_pending b = Some (Some (r, True)) \<longrightarrow> (hd ps, bl_term b, i) \<in> G)
      | Won \<Rightarrow> 2 * (1 + int (length (bl_counted b))) > int (length ms)
      | Ended \<Rightarrow> True)"

definition member_ok :: "string list \<Rightarrow> string \<Rightarrow> raft_node \<Rightarrow> bool" where
  "member_ok ms i n \<longleftrightarrow> rn_id n = i \<and> rn_peers n = filter (\<lambda>p. p \<noteq> i) ms \<and> ps_saved (rn_ps n)"

definition elected :: "string list \<Rightarrow> (string \<times> int \<times> string) set \<Rightarrow> int \<Rightarrow> string \<Rightarrow> bool" where
  "elected ms G t i \<longleftrightarrow> (\<exists>Q. majority ms Q \<and> (\<forall>v \<in> Q. (v, t, i) \<in> G))"

definition cluster_ok :: "string list \<Rightarrow> cluster \<Rightarrow> bool" where
  "cluster_ok ms c \<longleftrightarrow>
     (\<forall>i. member_ok ms i (cs_node c i)) \<and> votes_ok (cs_grants c) (cs_node c) \<and>
     (\<forall>i b. cs_elect c i = Some b \<longrightarrow> ballot_ok ms i (cs_grants c) b) \<and>
     (\<forall>t i. (t, i) \<in> cs_leaders c \<longrightarrow> elected ms (cs_grants c) t i) \<and>
     (\<forall>i. rn_role (cs_node c i) = Leader \<longrightarrow> (rn_term (cs_node c i), i) \<in> cs_leaders c)"

lemma elected_mono: "elected ms G t i \<Longrightarrow> G \<subseteq> G' \<Longrightarrow> elected ms G' t i"
  unfolding elected_def by blast

lemma ballot_ok_mono: "ballot_ok ms i G b \<Longrightarrow> G \<subseteq> G' \<Longrightarrow> ballot_ok ms i G' b"
  unfolding ballot_ok_def by (auto split: elect_next.splits)

lemma put_simps [simp]:
  "cs_node (put_node i n c) = (cs_node c)(i := n)" "cs_elect (put_node i n c) = cs_elect c"
  "cs_grants (put_node i n c) = cs_grants c" "cs_leaders (put_node i n c) = cs_leaders c"
  "cs_node (put_elect i b c) = cs_node c" "cs_elect (put_elect i b c) = (cs_elect c)(i := b)"
  "cs_grants (put_elect i b c) = cs_grants c" "cs_leaders (put_elect i b c) = cs_leaders c"
  by (simp_all add: put_node_def put_elect_def)

lemma votes_ok_update:
  assumes "votes_ok G N" "node_keeps (N i) n"
    "V \<subseteq> {(i, rn_term n, w) | w. ps_voted (rn_ps n) = Some w}"
  shows "votes_ok (G \<union> V) (N(i := n))"
proof -
  have old: "t \<le> rn_term n \<and> (t = rn_term n \<longrightarrow> ps_voted (rn_ps n) = Some c)" if "(i, t, c) \<in> G" for t c
  proof -
    have a: "t \<le> rn_term (N i)" "t = rn_term (N i) \<longrightarrow> ps_voted (rn_ps (N i)) = Some c"
      using assms(1) that unfolding votes_ok_def by blast+
    have b: "rn_term (N i) \<le> rn_term n" "rn_term n = rn_term (N i) \<and>
        ps_voted (rn_ps (N i)) \<noteq> None \<longrightarrow> ps_voted (rn_ps n) = ps_voted (rn_ps (N i))"
      using assms(2) unfolding node_keeps_def by blast+
    show ?thesis
    proof (intro conjI impI)
      show "t \<le> rn_term n" using a(1) b(1) by (rule order_trans)
      assume t: "t = rn_term n"
      then have e: "rn_term n = rn_term (N i)" using a(1) b(1) by linarith
      with a(2) t have v: "ps_voted (rn_ps (N i)) = Some c" by blast
      then have "ps_voted (rn_ps (N i)) \<noteq> None" by simp
      with b(2) e have "ps_voted (rn_ps n) = ps_voted (rn_ps (N i))" by blast
      then show "ps_voted (rn_ps n) = Some c" using v by (rule trans)
    qed
  qed
  have new: "v = i \<and> t = rn_term n \<and> ps_voted (rn_ps n) = Some c" if "(v, t, c) \<in> V" for v t c
    using assms(3) that by auto
  have now: "t \<le> rn_term ((N(i := n)) v) \<and> (t = rn_term ((N(i := n)) v) \<longrightarrow> ps_voted (rn_ps ((N(i := n)) v)) = Some c)"
    if "(v, t, c) \<in> G \<union> V" for v t c
  proof (cases "v = i")
    case True
    have "t \<le> rn_term n \<and> (t = rn_term n \<longrightarrow> ps_voted (rn_ps n) = Some c)"
    proof (cases "(v, t, c) \<in> V")
      case True
      from new [OF this] show ?thesis by (elim conjE) (simp only: order.refl simp_thms)
    next
      case False
      with that \<open>v = i\<close> have "(i, t, c) \<in> G" by blast
      then show ?thesis by (rule old)
    qed
    then show ?thesis unfolding True fun_upd_same .
  next
    case False
    with that new have "(v, t, c) \<in> G" by blast
    with assms(1) False show ?thesis by (auto simp: votes_ok_def)
  qed
  have uniq: "c = c'" if "(v, t, c) \<in> G \<union> V" "(v, t, c') \<in> G \<union> V" for v t c c'
  proof (cases "(v, t, c) \<in> V \<or> (v, t, c') \<in> V")
    case True
    with new have "v = i" "t = rn_term n" by blast+
    with now [OF that(1)] now [OF that(2)] show ?thesis by simp
  next
    case False
    with that assms(1) show ?thesis unfolding votes_ok_def by blast
  qed
  from now uniq show ?thesis unfolding votes_ok_def by blast
qed

lemma cluster_ok_node:
  assumes "cluster_ok ms c" "node_keeps (cs_node c i) n"
    "V \<subseteq> {(i, rn_term n, w) | w. ps_voted (rn_ps n) = Some w}"
  shows "cluster_ok ms ((put_node i n c)\<lparr>cs_grants := cs_grants c \<union> V\<rparr>)"
proof -
  have "votes_ok (cs_grants c \<union> V) ((cs_node c)(i := n))"
    using assms votes_ok_update by (auto simp: cluster_ok_def)
  moreover have "member_ok ms i n" using assms(1,2) by (auto simp: cluster_ok_def member_ok_def node_keeps_def)
  moreover have "rn_role n = Leader \<Longrightarrow> (rn_term n, i) \<in> cs_leaders c"
    using assms(1,2) by (auto simp: cluster_ok_def node_keeps_def)
  moreover have "elected ms (cs_grants c \<union> V) t j" if "(t, j) \<in> cs_leaders c" for t j
    using assms(1) that by (auto simp: cluster_ok_def intro: elected_mono [of _ "cs_grants c"])
  moreover have "ballot_ok ms j (cs_grants c \<union> V) b" if "cs_elect c j = Some b" for j b
    using assms(1) that by (auto simp: cluster_ok_def intro: ballot_ok_mono [of _ _ "cs_grants c"])
  ultimately show ?thesis using assms(1) by (simp add: cluster_ok_def)
qed

lemma cluster_ok_put:
  assumes "cluster_ok ms c" "node_keeps (cs_node c i) n"
  shows "cluster_ok ms (put_node i n c)"
  using cluster_ok_node [OF assms, of "{}"] by (simp add: put_node_def)

lemma cluster_ok_elect:
  "cluster_ok ms c \<Longrightarrow> (\<And>b'. b = Some b' \<Longrightarrow> ballot_ok ms i (cs_grants c) b') \<Longrightarrow>
     cluster_ok ms (put_elect i b c)"
  by (auto simp: cluster_ok_def)

lemma request_vote_grant:
  assumes "handle_request_vote t cand lli llt clk n = ((r, True), n')"
  shows "rn_term n' = t \<and> ps_voted (rn_ps n') = Some cand"
  using request_vote_rule [of t cand lli llt clk n] assms by (auto simp: Let_def split: if_splits)

lemma deliver_vote_ok:
  assumes "cluster_ok ms c" "deliver_vote j t cand lli llt clk c = ((r, g), c')"
  shows "cluster_ok ms c' \<and> cs_elect c' = cs_elect c \<and> cs_grants c \<subseteq> cs_grants c' \<and>
         (g \<longrightarrow> (j, t, cand) \<in> cs_grants c')"
proof -
  obtain n where h: "handle_request_vote t cand lli llt clk (cs_node c j) = ((r, g), n)"
    and c': "c' = (put_node j n c)\<lparr>cs_grants := cs_grants c \<union> (if g then {(j, t, cand)} else {})\<rparr>"
    using assms(2) by (auto simp: deliver_vote_def split: prod.splits)
  have "node_keeps (cs_node c j) n" using keeps_request_vote [of "cs_node c j" t cand lli llt clk] h by simp
  moreover have "(if g then {(j, t, cand)} else {}) \<subseteq> {(j, rn_term n, w) | w. ps_voted (rn_ps n) = Some w}"
    using request_vote_grant [of t cand lli llt clk "cs_node c j" r n] h by auto
  ultimately have "cluster_ok ms c'" unfolding c' by (intro cluster_ok_node assms(1))
  then show ?thesis unfolding c' by auto
qed

lemma begin_election_ok:
  assumes "cluster_ok ms c" "distinct ms" "i \<in> set ms"
  shows "cluster_ok ms (c_do (BeginElection i clk) c)"
proof (cases "cs_elect c i")
  case None
  obtain n nx where b: "election_begin clk (cs_node c i) = (n, nx)" by fastforce
  have id: "rn_id (cs_node c i) = i" "rn_peers (cs_node c i) = filter (\<lambda>p. p \<noteq> i) ms"
    using assms(1) by (simp_all add: cluster_ok_def member_ok_def)
  have n: "ps_voted (rn_ps n) = Some i" "nx = (if filter (\<lambda>p. p \<noteq> i) ms = [] then Ended
      else Asking (filter (\<lambda>p. p \<noteq> i) ms) 1)"
    using b id by (auto simp: election_begin_def Let_def reset_contact_def)
  let ?c1 = "(put_node i n c)\<lparr>cs_grants := cs_grants c \<union> {(i, rn_term n, i)}\<rparr>"
  have "cluster_ok ms ?c1"
    using keeps_election_begin [of "cs_node c i" clk] b n
    by (intro cluster_ok_node assms(1)) auto
  then have "cluster_ok ms (put_elect i (Some \<lparr>bl_term = rn_term n, bl_index = rl_last_index (rn_log n),
       bl_last_term = rl_last_term (rn_log n), bl_next = nx, bl_pending = None, bl_counted = []\<rparr>) ?c1)"
    by (rule cluster_ok_elect) (auto simp: ballot_ok_def n assms)
  with None b show ?thesis by simp
qed (simp add: assms)

lemma ask_peer_ok:
  assumes "cluster_ok ms c"
  shows "cluster_ok ms (c_do (AskPeer i clk) c)"
proof (cases "cs_elect c i")
  case (Some b)
  have bok: "ballot_ok ms i (cs_grants c) b" using assms Some by (simp add: cluster_ok_def)
  show ?thesis
  proof (cases "\<exists>p ps v. bl_next b = Asking (p # ps) v \<and> bl_pending b = None")
    case True
    then obtain p ps v where nx: "bl_next b = Asking (p # ps) v" "bl_pending b = None" by blast
    obtain r g c1 where d: "deliver_vote p (bl_term b) i (bl_index b) (bl_last_term b) clk c = ((r, g), c1)"
      by (metis prod.exhaust)
    note dv = deliver_vote_ok [OF assms d]
    have "ballot_ok ms i (cs_grants c1) (b\<lparr>bl_pending := Some (Some (r, g))\<rparr>)"
      using ballot_ok_mono [OF bok, of "cs_grants c1"] dv nx by (auto simp: ballot_ok_def)
    with dv have "cluster_ok ms (put_elect i (Some (b\<lparr>bl_pending := Some (Some (r, g))\<rparr>)) c1)"
      by (intro cluster_ok_elect) auto
    with Some nx d show ?thesis by simp
  next
    case False
    then have "c_do (AskPeer i clk) c = c"
      using Some by (auto split: elect_next.splits list.splits option.splits)
    then show ?thesis using assms by simp
  qed
qed (simp add: assms)

lemma lose_answer_ok:
  assumes "cluster_ok ms c"
  shows "cluster_ok ms (c_do (LoseAnswer i) c)"
proof (cases "cs_elect c i")
  case (Some b)
  then have "ballot_ok ms i (cs_grants c) b" using assms by (simp add: cluster_ok_def)
  then have "ballot_ok ms i (cs_grants c) (b\<lparr>bl_pending := Some None\<rparr>)"
    by (cases "bl_next b") (simp_all add: ballot_ok_def)
  then show ?thesis using Some assms by (auto intro: cluster_ok_elect)
qed (simp add: assms)

lemma election_answer_next:
  assumes "election_answer nt ps v a clk n = (n', nx)"
  shows "(nx = Ended \<or> (\<exists>r g v'. a = Some (r, g) \<and> v' = (if g then v + 1 else v) \<and>
            (nx = Won \<and> g \<and> v' \<ge> rn_quorum n \<or> nx = Asking ps v' \<and> ps \<noteq> [])) \<or>
          a = None \<and> nx = Asking ps v \<and> ps \<noteq> [])"
proof (cases a)
  case None
  with assms show ?thesis by (auto simp: election_answer_def Let_def)
next
  case (Some rg)
  obtain r g where "rg = (r, g)" by fastforce
  with Some assms show ?thesis
    by (cases g; cases "ps = []"; auto simp: election_answer_def Let_def split: if_splits)
qed

lemma quorum_is_majority:
  assumes "distinct ms" "i \<in> set ms" "odd (length ms)" "rn_peers n = filter (\<lambda>p. p \<noteq> i) ms"
    "v \<ge> rn_quorum n"
  shows "2 * v > int (length ms)"
proof -
  have "length (filter (\<lambda>p. p \<noteq> i) ms) = length ms - 1"
  proof -
    have "filter (\<lambda>p. p \<noteq> i) ms = remove1 i ms"
      using assms(1) by (simp add: distinct_remove1_removeAll removeAll_filter_not_eq eq_commute)
    then show ?thesis using assms(2) by (simp add: length_remove1)
  qed
  moreover have "int (length ms - 1) + 2 = int (length ms) + 1" using assms(2) by (cases ms) auto
  ultimately have "rn_quorum n = (int (length ms) + 1) div 2"
    by (simp only: rn_quorum_def assms(4))
  with assms(3,5) show ?thesis by (auto elim!: oddE)
qed

lemma count_ballot_ok:
  assumes bok: "ballot_ok ms i G b" and nx: "bl_next b = Asking (p # ps) v" and pend: "bl_pending b = Some a"
    and ans: "election_answer (bl_term b) ps v a clk n = (n', nx')"
    and ms: "distinct ms" "odd (length ms)" and peers: "rn_peers n = filter (\<lambda>p. p \<noteq> i) ms"
  shows "ballot_ok ms i G (b\<lparr>bl_next := nx', bl_pending := None,
           bl_counted := (case a of Some (_, True) \<Rightarrow> p # bl_counted b | _ \<Rightarrow> bl_counted b)\<rparr>)"
proof -
  define cnt where "cnt = (case a of Some (_, True) \<Rightarrow> p # bl_counted b | _ \<Rightarrow> bl_counted b)"
  from bok nx have b: "i \<in> set ms" "(i, bl_term b, i) \<in> G" "\<forall>q \<in> set (bl_counted b). (q, bl_term b, i) \<in> G"
    "distinct (bl_counted b)" "i \<notin> set (bl_counted b)" "set (bl_counted b) \<subseteq> set ms"
    "v = 1 + int (length (bl_counted b))" "p \<notin> set ps" "distinct ps" "i \<noteq> p" "i \<notin> set ps" "p \<in> set ms"
    "set ps \<subseteq> set ms" "p \<notin> set (bl_counted b)" "set ps \<inter> set (bl_counted b) = {}"
    by (auto simp: ballot_ok_def)
  have g: "(p, bl_term b, i) \<in> G" if "a = Some (r, True)" for r
    using bok nx pend that by (simp add: ballot_ok_def)
  have cnt: "distinct cnt" "i \<notin> set cnt" "set cnt \<subseteq> set ms" "set ps \<inter> set cnt = {}"
    "\<forall>q \<in> set cnt. (q, bl_term b, i) \<in> G"
    using b g by (auto simp: cnt_def split: option.splits bool.splits)
  consider (ended) "nx' = Ended" | (won) r where "a = Some (r, True)" "nx' = Won" "v + 1 \<ge> rn_quorum n"
    | (more) "nx' = Asking ps (1 + int (length cnt))" "ps \<noteq> []"
    using election_answer_next [OF ans] b(7) by (auto simp: cnt_def split: bool.splits if_splits)
  then show ?thesis unfolding cnt_def [symmetric]
  proof cases
    case ended
    with b cnt show "ballot_ok ms i G (b\<lparr>bl_next := nx', bl_pending := None, bl_counted := cnt\<rparr>)"
      by (simp add: ballot_ok_def)
  next
    case won
    have "2 * (v + 1) > int (length ms)"
      by (rule quorum_is_majority [OF ms(1) b(1) ms(2) peers won(3)])
    moreover have "1 + int (length cnt) = v + 1" using won(1) b(7) by (simp add: cnt_def)
    ultimately have "2 * (1 + int (length cnt)) > int (length ms)" by simp
    with won b cnt show "ballot_ok ms i G (b\<lparr>bl_next := nx', bl_pending := None, bl_counted := cnt\<rparr>)"
      by (simp add: ballot_ok_def)
  next
    case more
    with b cnt show "ballot_ok ms i G (b\<lparr>bl_next := nx', bl_pending := None, bl_counted := cnt\<rparr>)"
      by (simp add: ballot_ok_def)
  qed
qed

lemma count_answer_ok:
  assumes "cluster_ok ms c" "distinct ms" "odd (length ms)"
  shows "cluster_ok ms (c_do (CountAnswer i clk) c)"
proof (cases "cs_elect c i")
  case (Some b)
  have bok: "ballot_ok ms i (cs_grants c) b" using assms Some by (simp add: cluster_ok_def)
  consider (count) p ps v a where "bl_next b = Asking (p # ps) v" "bl_pending b = Some a"
    | (ended) "bl_next b = Ended" | (nothing) "c_do (CountAnswer i clk) c = c"
  proof (cases "bl_next b")
    case (Asking qs v)
    with that Some show ?thesis by (cases qs; cases "bl_pending b") auto
  qed (use that Some in auto)
  then show ?thesis
  proof cases
    case count
    obtain n nx where ans: "election_answer (bl_term b) ps v a clk (cs_node c i) = (n, nx)" by fastforce
    have keep: "node_keeps (cs_node c i) n"
      using keeps_election_answer [of "cs_node c i" "bl_term b" ps v a clk] ans by simp
    have "rn_peers (cs_node c i) = filter (\<lambda>p. p \<noteq> i) ms"
      using assms(1) by (simp add: cluster_ok_def member_ok_def)
    from count_ballot_ok [OF bok count ans assms(2,3) this] cluster_ok_put [OF assms(1) keep]
    have "cluster_ok ms (put_elect i (Some (b\<lparr>bl_next := nx, bl_pending := None,
        bl_counted := (case a of Some (_, True) \<Rightarrow> p # bl_counted b | _ \<Rightarrow> bl_counted b)\<rparr>)) (put_node i n c))"
      by (intro cluster_ok_elect) auto
    with Some count ans show ?thesis by simp
  next
    case ended
    then show ?thesis using Some assms(1) by (auto intro: cluster_ok_elect)
  next
    case nothing
    then show ?thesis using assms(1) by simp
  qed
qed (simp add: assms)

lemma take_office_ok:
  assumes "cluster_ok ms c" "distinct ms"
  shows "cluster_ok ms (c_do (TakeOffice i clk) c)"
proof (cases "cs_elect c i")
  case (Some b)
  show ?thesis
  proof (cases "bl_next b = Won")
    case True
    let ?n = "cs_node c i" and ?n' = "become_leader (bl_term b) clk (cs_node c i)"
    have bok: "ballot_ok ms i (cs_grants c) b" using assms Some by (simp add: cluster_ok_def)
    let ?Q = "insert i (set (bl_counted b))"
    have "card ?Q = Suc (length (bl_counted b))"
      using bok by (simp add: ballot_ok_def distinct_card)
    then have "majority ms ?Q" using bok True assms(2)
      by (auto simp: majority_def ballot_ok_def distinct_card)
    moreover have "\<forall>v \<in> ?Q. (v, bl_term b, i) \<in> cs_grants c" using bok by (auto simp: ballot_ok_def)
    ultimately have el: "elected ms (cs_grants c) (bl_term b) i" unfolding elected_def by blast
    have same: "rn_id ?n' = rn_id ?n" "rn_peers ?n' = rn_peers ?n" "rn_ps ?n' = rn_ps ?n"
      "rn_term ?n' = rn_term ?n"
      by (simp_all add: become_leader_def Let_def)
    have lead: "rn_role ?n' = Leader \<Longrightarrow> rn_role ?n = Leader \<or> rn_term ?n = bl_term b"
      by (auto simp: become_leader_def split: if_splits)
    have el2: "rn_role ?n' = Leader \<Longrightarrow> elected ms (cs_grants c) (rn_term ?n') i"
      using lead el assms(1) same by (auto simp: cluster_ok_def)
    have v: "votes_ok (cs_grants c) ((cs_node c)(i := ?n'))"
      using assms(1) same by (simp add: cluster_ok_def votes_ok_def)
    have "cluster_ok ms ((put_node i ?n' c)\<lparr>cs_leaders := cs_leaders c \<union>
        (if rn_role ?n' = Leader then {(rn_term ?n', i)} else {})\<rparr>)" (is "cluster_ok ms ?c'")
      using assms(1) same el2 v by (auto simp: cluster_ok_def member_ok_def)
    then have "cluster_ok ms (put_elect i None ?c')" by (rule cluster_ok_elect) simp
    with Some True show ?thesis by (simp add: Let_def)
  qed (use Some assms in simp)
qed (simp add: assms)

lemma restart_ok:
  assumes "cluster_ok ms c"
  shows "cluster_ok ms (c_do (Restart i clk) c)"
proof -
  have "node_keeps (cs_node c i) (restart_node clk (cs_node c i))"
    by (rule keeps_restart) (use assms in \<open>simp add: cluster_ok_def member_ok_def\<close>)
  then have "cluster_ok ms (put_node i (restart_node clk (cs_node c i)) c)" by (rule cluster_ok_put [OF assms])
  then show ?thesis by (auto intro: cluster_ok_elect)
qed

lemma start_node_ok: "start_node (Some dir) ms clk i = Inr n \<Longrightarrow> member_ok ms i n \<and> rn_role n = Follower"
  by (auto simp: start_node_def member_ok_def new_node_def ps_saved_def ps_init_def Let_def ebind_def split: sum.splits option.splits prod.splits)

lemma boot_ok: "boot ms (Some dir) clk = Inr c \<Longrightarrow> cluster_ok ms c"
proof -
  assume b: "boot ms (Some dir) clk = Inr c"
  obtain ns where ns: "emap (start_node (Some dir) ms clk) ms = Inr ns" using b by (auto simp: boot_def ebind_def split: sum.splits)
  have el: "emap f is = Inr ns \<Longrightarrow> map_of (zip is ns) i = Some n \<Longrightarrow> f i = Inr n" for f :: "string \<Rightarrow> raft_node res" and "is" ns i n
    by (induction "is" arbitrary: ns) (auto simp: ebind_def split: sum.splits if_splits)
  have m: "member_ok ms i (cs_node c i) \<and> rn_role (cs_node c i) = Follower" for i
  proof (cases "map_of (zip ms ns) i")
    case (Some n)
    from start_node_ok [OF el [OF ns Some]] Some b ns show ?thesis by (auto simp: boot_def)
  next
    case None
    with b ns show ?thesis by (auto simp: boot_def member_ok_def new_node_def ps_saved_def ps_init_def)
  qed
  moreover have "cs_elect c i = None" "cs_grants c = {}" "cs_leaders c = {}" for i
    using b ns by (auto simp: boot_def)
  ultimately show ?thesis by (simp add: cluster_ok_def votes_ok_def)
qed

lemma reach_ok:
  assumes "reach ms (Some dir) c" "distinct ms" "odd (length ms)"
  shows "cluster_ok ms c"
  using assms(1)
proof induction
  case (start clk c)
  then show ?case by (rule boot_ok)
next
  case (step c ev)
  have "cluster_ok ms (c_do ev c)" if "actor ev \<in> set ms"
  proof (cases ev)
    case (VoteRequest j t cand lli llt clk)
    then show ?thesis using deliver_vote_ok [OF step.IH] by (metis c_do.simps(6) prod.exhaust snd_conv)
  qed (use that step.IH assms begin_election_ok ask_peer_ok lose_answer_ok count_answer_ok take_office_ok
        restart_ok in \<open>auto simp del: c_do.simps(1-5,12) intro: cluster_ok_put handler_keeps\<close>)
  then show ?case using step.IH by (simp add: c_step_def)
qed

text \<open>
  C9: Election safety.  In a cluster of an odd number of members that is booted over a data directory, whatever
  is in it, after any interleaving of elections, proposals, replication rounds, crashes and restarts, at
  most one member has been made leader of a term since the boot, and two members that lead at the same
  moment in the same term are the same member.  Vote and replication requests may be lost, delayed,
  repeated or forged, and so may answers to replication requests; the answer to a vote request is lost or is
  the one its peer gave (a forged one could elect anybody).
\<close>

theorem election_safety:
  assumes "reach ms (Some dir) c" "distinct ms" "odd (length ms)"
  shows "((t, i) \<in> cs_leaders c \<and> (t, j) \<in> cs_leaders c \<longrightarrow> i = j) \<and>
    (rn_role (cs_node c i) = Leader \<and> rn_role (cs_node c j) = Leader \<and>
     rn_term (cs_node c i) = rn_term (cs_node c j) \<longrightarrow> i = j)"
proof -
  have ok: "cluster_ok ms c" by (rule reach_ok) (rule assms)+
  have one: "a = b" if ab: "(s, a) \<in> cs_leaders c" "(s, b) \<in> cs_leaders c" for s a b
  proof -
    from ok ab obtain Q R where q: "majority ms Q" "\<forall>v \<in> Q. (v, s, a) \<in> cs_grants c"
      "majority ms R" "\<forall>v \<in> R. (v, s, b) \<in> cs_grants c"
      by (auto simp: cluster_ok_def elected_def) metis
    show ?thesis
      by (rule maj.chosen_unique [where ballot = "\<lambda>v w. (v, s, w) \<in> cs_grants c", OF _ q])
        (use ok in \<open>auto simp: cluster_ok_def votes_ok_def\<close>)
  qed
  from ok one show ?thesis by (auto simp: cluster_ok_def) (metis one)
qed

definition c_run :: "string list \<Rightarrow> data_dir \<Rightarrow> cevent list \<Rightarrow> cluster" where
  "c_run ms data evs = fold (c_step ms) evs (projr (boot ms data (0, 0)))"

abbreviation empty_dir :: data_dir where
  "empty_dir \<equiv> Some (\<lambda>_. (None, []))"

lemma boot_demo: "\<exists>c. boot ms empty_dir clk = Inr c" "\<exists>c. boot ms None clk = Inr c"
proof -
  have a: "start_node empty_dir ms clk i = Inr (projr (start_node empty_dir ms clk i))"
    "start_node None ms clk i = Inr (projr (start_node None ms clk i))" for i
    by (simp_all add: start_node_def rl_init_def rl_load_def)
  show "\<exists>c. boot ms empty_dir clk = Inr c" "\<exists>c. boot ms None clk = Inr c"
    unfolding boot_def emap_total [of ms, OF a(1)] emap_total [of ms, OF a(2)] by simp_all
qed

lemma reach_run: "\<exists>c. boot ms data (0, 0) = Inr c \<Longrightarrow> reach ms data (c_run ms data evs)"
proof -
  have "reach ms data c \<Longrightarrow> reach ms data (fold (c_step ms) evs c)" for c
    by (induction evs arbitrary: c) (auto intro: reach.step)
  moreover assume "\<exists>c. boot ms data (0, 0) = Inr c"
  then obtain c where "boot ms data (0, 0) = Inr c" by blast
  ultimately show ?thesis using reach.start [of ms data "(0, 0)" c] by (simp add: c_run_def)
qed

definition win_first_vote :: "string \<Rightarrow> cevent list" where
  \<comment> \<open>an election won with the answer of the first peer\<close>
  "win_first_vote i = [BeginElection i (0, 0), AskPeer i (0, 0), CountAnswer i (0, 0), TakeOffice i (0, 0)]"

theorem election_safety_witness:
  "let c = c_run [''a'', ''b'', ''c''] empty_dir (win_first_vote ''a'') in
   rn_role (cs_node c ''a'') = Leader \<and> rn_term (cs_node c ''a'') = 1 \<and>
   (rn_role (cs_node c ''b'') = Leader \<and> rn_term (cs_node c ''b'') = 1 \<longrightarrow> ''a'' = ''b'')"
proof -
  let ?c = "c_run [''a'', ''b'', ''c''] empty_dir (win_first_vote ''a'')"
  have "rn_role (cs_node ?c ''a'') = Leader" "rn_term (cs_node ?c ''a'') = 1"
    by code_simp+
  moreover have "(rn_role (cs_node ?c ''a'') = Leader \<and> rn_role (cs_node ?c ''b'') = Leader \<and>
     rn_term (cs_node ?c ''a'') = rn_term (cs_node ?c ''b'') \<longrightarrow> ''a'' = ''b'')"
    using election_safety [OF reach_run [OF boot_demo(1)], of "[''a'', ''b'', ''c'']" 1 "''a''" "win_first_vote ''a''" "''b''"] by simp
  ultimately show ?thesis by (simp add: Let_def)
qed

text \<open>
  With four members two lead the same term.  The quorum of the code, \<open>(number of peers + 2) div 2\<close>,
  is two of four, which is no majority: \<open>a\<close> wins with the vote of \<open>b\<close>, \<open>c\<close> loses the answers of \<open>a\<close> and
  \<open>b\<close> and wins with the vote of \<open>d\<close>, both in term 1.
\<close>

theorem even_cluster_two_leaders:
  "let c = c_run [''a'', ''b'', ''c'', ''d''] empty_dir
        (win_first_vote ''a'' @
         [BeginElection ''c'' (0, 0), LoseAnswer ''c'', CountAnswer ''c'' (0, 0), LoseAnswer ''c'',
          CountAnswer ''c'' (0, 0), AskPeer ''c'' (0, 0), CountAnswer ''c'' (0, 0), TakeOffice ''c'' (0, 0)])
   in reach [''a'', ''b'', ''c'', ''d''] empty_dir c \<and>
      rn_role (cs_node c ''a'') = Leader \<and> rn_role (cs_node c ''c'') = Leader \<and>
      rn_term (cs_node c ''a'') = rn_term (cs_node c ''c'')"
  unfolding Let_def
  by (intro conjI reach_run boot_demo; code_simp)

text \<open>
  Without a data directory, the default of \<open>bootstrap_cluster\<close>, a restarted member votes again: \<open>a\<close> wins term 1
  with the vote of \<open>b\<close>, \<open>b\<close> restarts, and \<open>c\<close> wins term 1 with the vote of \<open>b\<close> too.
\<close>

theorem memory_cluster_two_leaders:
  "let c = c_run [''a'', ''b'', ''c''] None
        (win_first_vote ''a'' @
         [Restart ''b'' (0, 0), BeginElection ''c'' (0, 0), LoseAnswer ''c'', CountAnswer ''c'' (0, 0),
          AskPeer ''c'' (0, 0), CountAnswer ''c'' (0, 0), TakeOffice ''c'' (0, 0)])
   in reach [''a'', ''b'', ''c''] None c \<and>
      rn_role (cs_node c ''a'') = Leader \<and> rn_role (cs_node c ''c'') = Leader \<and>
      rn_term (cs_node c ''a'') = rn_term (cs_node c ''c'')"
  unfolding Let_def
  by (intro conjI reach_run boot_demo; code_simp)

end
