(* ===== verification/Raft_KV.thy ===== *)
theory Raft_KV
  imports Raft_Cluster
begin

text \<open>
  The key-value service on top of Raft: the state machine
  (\<open>modules/raft-kv/raft_kv/store/kv.py\<close>), the servicers of
  \<open>modules/raft-kv/raft_kv/rpc/server.py\<close> and the client of \<open>rpc/client.py\<close>.  gRPC transport is a
  parameter: what a member answers, or that the call fails.
\<close>

section \<open>The state machine\<close>

type_synonym kv_data = "(string, string) fmap"

definition kv_apply :: "string \<Rightarrow> kv_data \<Rightarrow> kv_data" where
  "kv_apply command d =
     (let parts = splitn_char 2 (CHR '' '') command; op = upper (hd parts) in
      if op = ''SET'' \<and> length parts \<ge> 3 then fmupd (parts ! 1) (parts ! 2) d
      else if op = ''DEL'' \<and> length parts \<ge> 2 then fmdrop (parts ! 1) d
      else d)"

definition kv_get :: "string \<Rightarrow> kv_data \<Rightarrow> string option" where
  "kv_get k d = fmlookup d k"

definition kv_snapshot :: "kv_data \<Rightarrow> kv_data" where
  "kv_snapshot d = d"

definition kv_restore :: "kv_data \<Rightarrow> kv_data \<Rightarrow> kv_data" where
  "kv_restore snap d = snap"

definition kv_len :: "kv_data \<Rightarrow> nat" where
  "kv_len d = fcard (fmdom d)"

definition set_command :: "string \<Rightarrow> string \<Rightarrow> string" where
  "set_command k v = ''SET '' @ k @ '' '' @ v"

definition del_command :: "string \<Rightarrow> string" where
  "del_command k = ''DEL '' @ k"

lemma partition_char_notin: "c \<notin> set a \<Longrightarrow> partition_char c a = (a, False, [])"
  by (induction a) (auto simp: partition_char_def)

lemma splitn_set:
  assumes "CHR '' '' \<notin> set k"
  shows "splitn_char 2 (CHR '' '') (set_command k v) = [''SET'', k, v]"
proof -
  have "partition_char (CHR '' '') (''SET'' @ CHR '' '' # k @ CHR '' '' # v)
      = (''SET'', True, k @ CHR '' '' # v)"
    by (rule partition_char_append) simp
  with assms show ?thesis
    by (simp add: set_command_def numeral_2_eq_2 partition_char_append)
qed

lemma splitn_del:
  assumes "CHR '' '' \<notin> set k"
  shows "splitn_char 2 (CHR '' '') (del_command (k @ CHR '' '' # r)) = [''DEL'', k, r]"
    "splitn_char 2 (CHR '' '') (del_command k) = [''DEL'', k]"
proof -
  have p: "partition_char (CHR '' '') (''DEL'' @ CHR '' '' # x) = (''DEL'', True, x)" for x
    by (rule partition_char_append) simp
  from p [of "k @ CHR '' '' # r"] assms
  show "splitn_char 2 (CHR '' '') (del_command (k @ CHR '' '' # r)) = [''DEL'', k, r]"
    by (simp add: del_command_def numeral_2_eq_2 partition_char_append)
  from p [of k] partition_char_notin [OF assms]
  show "splitn_char 2 (CHR '' '') (del_command k) = [''DEL'', k]"
    by (simp add: del_command_def numeral_2_eq_2)
qed

lemma upper_ops [simp]: "upper ''SET'' = ''SET''" "upper ''DEL'' = ''DEL''"
  by code_simp+

text \<open>
  What the commands of the service do to the table.  For a key without a space, \<open>SET\<close> binds the
  key to the value, whatever characters the value has, and \<open>DEL\<close> removes it; a no-op entry changes
  nothing.  For a key with a space the command is cut at the first space: deleting \<open>a b\<close> deletes the
  other key \<open>a\<close>, and setting it sets \<open>a\<close>.
\<close>

theorem kv_command_semantics:
  assumes "CHR '' '' \<notin> set k"
  shows "kv_apply (set_command k v) d = fmupd k v d \<and>
    kv_apply (del_command k) d = fmdrop k d \<and>
    kv_apply ''NOP'' d = d \<and>
    kv_apply (del_command (k @ CHR '' '' # r)) d = fmdrop k d \<and>
    kv_apply (set_command (k @ CHR '' '' # r) v) d = fmupd k (r @ CHR '' '' # v) d"
proof -
  have "set_command (k @ CHR '' '' # r) v = set_command k (r @ CHR '' '' # v)"
    by (simp add: set_command_def)
  moreover have "splitn_char 2 (CHR '' '') ''NOP'' = [''NOP'']" "upper ''NOP'' = ''NOP''" by code_simp+
  ultimately show ?thesis
    by (simp add: kv_apply_def splitn_set [OF assms] splitn_del [OF assms])
qed

theorem kv_command_semantics_witness:
  "kv_get ''a'' (kv_apply (del_command ''a b'') (fmupd ''a'' ''1'' fmempty)) = None"
  using kv_command_semantics [of "''a''" "''''" "fmupd ''a'' ''1'' fmempty" "''b''"]
  by (simp add: kv_get_def)

section \<open>The servicer\<close>

record write_response =
  wr_ok :: bool
  wr_hint :: string
  wr_error :: string

definition leader_addr :: "(string \<times> string) list \<Rightarrow> raft_node \<Rightarrow> string" where
  "leader_addr peers n =
     (if rn_leader n = Some (rn_id n) then []
      else (case map_of peers (case rn_leader n of None \<Rightarrow> [] | Some l \<Rightarrow> l) of
              None \<Rightarrow> [] | Some a \<Rightarrow> a))"

definition svc_get :: "string \<Rightarrow> (string \<times> string) list \<Rightarrow> raft_node \<Rightarrow> kv_data \<Rightarrow> string \<times> bool \<times> string" where
  "svc_get k peers n d =
     (case kv_get k d of
        None \<Rightarrow> ([], False, leader_addr peers n)
      | Some v \<Rightarrow> (v, True, leader_addr peers n))"

text \<open>
  \<open>Set\<close> and \<open>Del\<close> differ in the command only.  \<open>env\<close> is what happens to the member between the test for
  leadership and the proposal; \<open>later\<close> gives the states the polling loop sees before its deadline, as
  a function of the state after the proposal.
\<close>

definition svc_write ::
  "string \<Rightarrow> (string \<times> string) list \<Rightarrow> (raft_node \<Rightarrow> raft_node) \<Rightarrow> (raft_node \<Rightarrow> raft_node list)
     \<Rightarrow> raft_node \<Rightarrow> write_response \<times> raft_node" where
  "svc_write command peers env later n0 =
     (if rn_role n0 \<noteq> Leader
      then (\<lparr>wr_ok = False, wr_hint = leader_addr peers n0, wr_error = ''not leader''\<rparr>, n0)
      else (let ((ok, idx), n) = propose command (env n0) in
            if \<not> ok then (\<lparr>wr_ok = False, wr_hint = leader_addr peers n, wr_error = ''not leader''\<rparr>, n)
            else if wait_for_commit idx (later n)
            then (\<lparr>wr_ok = True, wr_hint = [], wr_error = []\<rparr>, n)
            else (\<lparr>wr_ok = False, wr_hint = [], wr_error = ''commit timeout''\<rparr>, n)))"

definition svc_set where
  "svc_set k v = svc_write (set_command k v)"

definition svc_del where
  "svc_del k = svc_write (del_command k)"

definition svc_leader :: "(string \<times> string) list \<Rightarrow> raft_node \<Rightarrow> string \<times> string" where
  "svc_leader peers n =
     (let lid = (case rn_leader n of None \<Rightarrow> [] | Some l \<Rightarrow> l) in
      (lid, if lid = rn_id n then [] else (case map_of peers lid of None \<Rightarrow> [] | Some a \<Rightarrow> a)))"

text \<open>
  What an answer of \<open>Set\<close> means.  It is positive exactly when the member led at both looks and a
  state it polled had a commit index at least the index it gave the command, which is one above the
  last index; then, and also after a timeout, the command is the last entry of the member's log
  with the member's term.  A refusal leaves the log alone.
\<close>

theorem svc_set_answers:
  "let (r, n) = svc_set k v peers env later n0; n1 = env n0;
       idx = rl_last_index (rn_log n1) + 1 in
   (wr_ok r \<longleftrightarrow> rn_role n0 = Leader \<and> rn_role n1 = Leader \<and> (\<exists>m \<in> set (later n). rn_commit m \<ge> idx)) \<and>
   (rn_role n0 = Leader \<and> rn_role n1 = Leader \<longrightarrow>
      rl_entries (rn_log n) = rl_entries (rn_log n1) @
        [\<lparr>le_term = rn_term n1, le_index = idx, le_command = set_command k v\<rparr>]) \<and>
   (rn_role n0 \<noteq> Leader \<longrightarrow> r = \<lparr>wr_ok = False, wr_hint = leader_addr peers n0, wr_error = ''not leader''\<rparr> \<and> n = n0) \<and>
   (rn_role n0 = Leader \<and> rn_role n1 \<noteq> Leader \<longrightarrow>
      r = \<lparr>wr_ok = False, wr_hint = leader_addr peers n1, wr_error = ''not leader''\<rparr> \<and> n = n1)"
  by (auto simp: svc_set_def svc_write_def propose_def Let_def wait_for_commit_def)

theorem svc_set_answers_witness:
  "let n0 = become_leader 1 (0, 0) (demo_node ''a'' [''b'', ''c''] 1 [] \<lparr>rn_role := Candidate\<rparr>) in
   map le_command (rl_entries (rn_log (snd (svc_set ''x'' ''1'' [] id (\<lambda>n. []) n0)))) = [''SET x 1'']"
proof -
  let ?n = "become_leader 1 (0, 0) (demo_node ''a'' [''b'', ''c''] 1 [] \<lparr>rn_role := Candidate\<rparr>)"
  have r: "rn_role ?n = Leader" "rl_entries (rn_log ?n) = []" "set_command ''x'' ''1'' = ''SET x 1''"
    by code_simp+
  show ?thesis
    using svc_set_answers [of "''x''" "''1''" "[]" id "\<lambda>n. []" ?n] r
    by (simp add: Let_def split: prod.splits)
qed

lemma merged_conflict:
  assumes "merged_log p es old new" "length old = Suc i" "p \<le> i" "i < p + length es" "le_term (old ! i) \<noteq> le_term (es ! (i - p))"
  shows "new ! i = es ! (i - p)"
proof -
  have t: "map le_term (take (length es) (drop p new)) = map le_term es"
    and shape: "new = old \<or> (\<exists>k < length es. new = take (p + k) old @ drop k es)"
    using assms(1) unfolding merged_log_def by blast+
  have at: "le_term (new ! i) = le_term (es ! (i - p))"
  proof -
    have "map le_term (take (length es) (drop p new)) ! (i - p) = map le_term es ! (i - p)" using t by simp
    moreover have "length (take (length es) (drop p new)) = length es" using t by (metis length_map)
    ultimately show ?thesis using assms(3,4) by simp
  qed
  from shape show ?thesis
  proof
    assume "new = old"
    with at assms(5) show ?thesis by simp
  next
    assume "\<exists>k < length es. new = take (p + k) old @ drop k es"
    then obtain k where k: "k < length es" "new = take (p + k) old @ drop k es" by blast
    show ?thesis
    proof (cases "p + k \<le> i")
      case True
      then have "new ! i = drop k es ! (i - (p + k))" using k assms(2) by (simp add: nth_append)
      also have "\<dots> = es ! (i - p)" using True k assms(3,4) by simp
      finally show ?thesis .
    next
      case False
      then have "new ! i = old ! i" using k assms(2) by (simp add: nth_append)
      with at assms(5) show ?thesis by simp
    qed
  qed
qed

text \<open>
  C10: A positive answer for a lost write.  \<open>Set\<close> waits for the index of its entry to be committed and
  never looks at the entry's term.  Whatever the leader's log is (not compacted yet), if during the wait it takes in any
  message of another leader that covers this index with an entry of another term and whose commit
  index reaches it, then the client is told that its write succeeded, while at the committed index the member's
  log holds the other leader's entry instead.
\<close>

theorem acknowledged_write_lost:
  assumes "rn_role n0 = Leader" "log_ok (rn_log n0)" "rl_snap_index (rn_log n0) = 0" "i = length (rl_entries (rn_log n0))"
    and "consecutive (int p + 1) es" "p \<le> i" "i < p + length es" "le_term (es ! (i - p)) \<noteq> rn_term n0" "int i + 1 \<le> lc"
    and "svc_set k v peers id (\<lambda>n. [snd (handle_append_entries t ld (int p) pt es lc clk n)]) n0 = (r, n)"
    and "handle_append_entries t ld (int p) pt es lc clk n = ((rt, True, m), final)"
  shows "wr_ok r \<and> rl_entries (rn_log n) ! i = \<lparr>le_term = rn_term n0, le_index = int i + 1, le_command = set_command k v\<rparr> \<and>
    int i + 1 \<le> rn_commit final \<and> rl_entries (rn_log final) ! i = es ! (i - p)"
proof -
  have idx: "rl_last_index (rn_log n0) = int i" using last_index_eq [OF assms(2)] assms(3,4) by simp
  define e where "e = \<lparr>le_term = rn_term n0, le_index = int i + 1, le_command = set_command k v\<rparr>"
  have n: "n = snd (propose (set_command k v) n0)" "rl_entries (rn_log n) = rl_entries (rn_log n0) @ [e]"
    "rl_snap_index (rn_log n) = 0"
    using assms(1,3,10) idx by (auto simp: svc_set_def svc_write_def propose_def Let_def e_def split: if_splits)
  have ok: "log_ok (rn_log n)" using assms(2,3,4) n(2,3)
    by (auto simp: log_ok_def nth_append e_def less_Suc_eq)
  have old: "rl_entries (rn_log n) ! i = e" "length (rl_entries (rn_log n)) = Suc i" using n(2) assms(4) by (simp_all add: nth_append)
  note c = append_entries_success_cases [OF assms(11)]
  have le: "p \<le> length (rl_entries (rn_log n))" using old(2) assms(6) by simp
  note ms = merge_spec [OF ok n(3) assms(5) le]
  have fl: "rn_log final = merge_entries (int p + 1) es (rn_log n)" using c by simp
  have merged: "merged_log p es (rl_entries (rn_log n)) (rl_entries (rn_log final))"
    unfolding merged_log_def fl using ms by blast
  have at: "rl_entries (rn_log final) ! i = es ! (i - p)"
    by (rule merged_conflict [OF merged old(2) assms(6,7)]) (use old(1) assms(8) in \<open>simp add: e_def\<close>)
  have "m = int (length (rl_entries (rn_log final)))" "p + length es \<le> length (rl_entries (rn_log final))"
    using c ms last_index_eq [of "rn_log final"] fl by auto
  then have cm: "int i + 1 \<le> rn_commit final" using c assms(7,9) by auto
  have "wr_ok r" using assms(1,10) cm assms(11) idx n(1)
    by (auto simp: svc_set_def svc_write_def propose_def Let_def wait_for_commit_def split: if_splits)
  with at cm old(1) show ?thesis by (simp add: e_def)
qed

theorem acknowledged_write_lost_witness:
  "let a = become_leader 1 (0, 0) (demo_node ''a'' [''b'', ''c''] 1 [] \<lparr>rn_role := Candidate\<rparr>);
       taken = (\<lambda>n. snd (handle_append_entries 2 ''b'' 0 0 [\<lparr>le_term = 2, le_index = 1, le_command = ''SET y 2''\<rparr>] 1 (0, 0) n));
       (r, n) = svc_set ''x'' ''1'' [] id (\<lambda>n. [taken n]) a
   in wr_ok r \<and> rn_commit (taken n) \<ge> 1 \<and> rl_entries (rn_log (taken n)) ! 0 = \<lparr>le_term = 2, le_index = 1, le_command = ''SET y 2''\<rparr>"
proof -
  let ?a = "become_leader 1 (0, 0) (demo_node ''a'' [''b'', ''c''] 1 [] \<lparr>rn_role := Candidate\<rparr>)"
  let ?es = "[\<lparr>le_term = 2, le_index = 1, le_command = ''SET y 2''\<rparr>]"
  let ?h = "handle_append_entries 2 ''b'' 0 0 ?es 1 (0, 0)"
  obtain r n where s: "svc_set ''x'' ''1'' [] id (\<lambda>n. [snd (?h n)]) ?a = (r, n)" by fastforce
  have a: "rn_role ?a = Leader" "rl_entries (rn_log ?a) = []" "rl_snap_index (rn_log ?a) = 0" "rn_term ?a = 1"
    by code_simp+
  have "fst (snd (fst (?h (snd (svc_set ''x'' ''1'' [] id (\<lambda>n. [snd (?h n)]) ?a)))))" by code_simp
  then have a5: "fst (snd (fst (?h n)))" using s by simp
  obtain rt m f where h: "?h n = ((rt, True, m), f)" using a5 by (metis prod.exhaust_sel)
  have l: "log_ok (rn_log ?a)" "consecutive (int 0 + 1) ?es" "0 = length (rl_entries (rn_log ?a))"
    "le_term (?es ! (0 - 0)) \<noteq> rn_term ?a" using a by (simp_all add: log_ok_def consecutive_def)
  from acknowledged_write_lost [OF a(1) l(1) a(3) l(3,2) _ _ l(4), of 1 "''x''" "''1''" "[]" 2 "''b''" 0 "(0, 0)" r n rt m f] h s show ?thesis by (simp add: Let_def)
qed

section \<open>The client\<close>

text \<open>
  \<open>KVClient.set\<close> and \<open>KVClient.delete\<close>: \<open>ask k a\<close> is what the member at address \<open>a\<close> answers to the
  call made with \<open>k\<close> attempts left, \<open>None\<close> an \<open>RpcError\<close>.  The second argument is \<open>_current\<close>.
\<close>

definition cl_rotate :: "string list \<Rightarrow> nat \<Rightarrow> nat" where
  "cl_rotate addrs cur = (cur + 1) mod length addrs"

definition cl_follow :: "string list \<Rightarrow> string \<Rightarrow> nat \<Rightarrow> nat" where
  "cl_follow addrs hint cur =
     (if hint \<in> set addrs then length (takeWhile (\<lambda>a. a \<noteq> hint) addrs) else cur)"

fun cl_write_loop ::
  "(nat \<Rightarrow> string \<Rightarrow> write_response option) \<Rightarrow> string list \<Rightarrow> nat \<Rightarrow> nat \<Rightarrow> bool \<times> nat" where
  "cl_write_loop ask addrs 0 cur = (False, cur)"
| "cl_write_loop ask addrs (Suc k) cur =
     (case ask k (addrs ! cur) of
        None \<Rightarrow> cl_write_loop ask addrs k (cl_rotate addrs cur)
      | Some r \<Rightarrow>
          if wr_ok r then (True, cur)
          else if wr_hint r \<noteq> [] then cl_write_loop ask addrs k (cl_follow addrs (wr_hint r) cur)
          else cl_write_loop ask addrs k (cl_rotate addrs cur))"

definition cl_set where
  "cl_set ask addrs cur = cl_write_loop ask addrs (length addrs) cur"

definition cl_delete where
  "cl_delete ask addrs cur = cl_write_loop ask addrs (length addrs) cur"

fun cl_get_loop ::
  "(nat \<Rightarrow> string \<Rightarrow> (string \<times> bool) option) \<Rightarrow> string list \<Rightarrow> nat \<Rightarrow> nat \<Rightarrow> string option \<times> nat" where
  "cl_get_loop ask addrs 0 cur = (None, cur)"
| "cl_get_loop ask addrs (Suc k) cur =
     (case ask k (addrs ! cur) of
        None \<Rightarrow> cl_get_loop ask addrs k (cl_rotate addrs cur)
      | Some (v, found) \<Rightarrow> (if found then Some v else None, cur))"

definition cl_get where
  "cl_get ask addrs cur = cl_get_loop ask addrs (length addrs) cur"

lemma cl_follow_nth: "hint \<in> set addrs \<Longrightarrow> addrs ! cl_follow addrs hint cur = hint"
  unfolding cl_follow_def by (induction addrs) auto

lemma cl_write_reaches:
  assumes "\<And>k. \<exists>r. ask k leader = Some r \<and> wr_ok r" "leader \<in> set addrs"
    "\<And>k a r. a \<noteq> leader \<Longrightarrow> ask k a = Some r \<Longrightarrow> \<not> wr_ok r \<and> wr_hint r \<in> {[], leader}"
    "leader \<noteq> []" "addrs ! ((cur + d) mod length addrs) = leader" "cur < length addrs" "d < k"
  shows "fst (cl_write_loop ask addrs k cur) \<and> addrs ! snd (cl_write_loop ask addrs k cur) = leader"
  using assms(5-7)
proof (induction d arbitrary: cur k)
  case 0
  then obtain k' where k: "k = Suc k'" by (cases k) auto
  obtain r where "ask k' leader = Some r" "wr_ok r" using assms(1) by blast
  with 0 k show ?case by simp
next
  case (Suc d)
  then obtain k' where k: "k = Suc (Suc k')" by (metis Suc_less_eq2 less_nat_zero_code not0_implies_Suc)
  obtain r1 where r1: "ask (Suc k') leader = Some r1" "wr_ok r1" using assms(1) by blast
  obtain r2 where r2: "ask k' leader = Some r2" "wr_ok r2" using assms(1) by blast
  have rot: "fst (cl_write_loop ask addrs (Suc k') (cl_rotate addrs cur)) \<and>
      addrs ! snd (cl_write_loop ask addrs (Suc k') (cl_rotate addrs cur)) = leader"
  proof (rule Suc.IH)
    show "addrs ! ((cl_rotate addrs cur + d) mod length addrs) = leader"
      using Suc.prems by (simp add: cl_rotate_def mod_simps)
    show "cl_rotate addrs cur < length addrs" using Suc.prems unfolding cl_rotate_def by (intro mod_less_divisor) linarith
    show "d < Suc k'" using Suc.prems k by simp
  qed
  show ?case
  proof (cases "addrs ! cur = leader")
    case True
    with k r1 show ?thesis by simp
  next
    case False
    show ?thesis
    proof (cases "ask (Suc k') (addrs ! cur)")
      case None
      with k rot show ?thesis by simp
    next
      case (Some r)
      with assms(3) [OF False] have "\<not> wr_ok r" "wr_hint r \<in> {[], leader}" by blast+
      with Some k rot cl_follow_nth [OF assms(2), of cur] r2 assms(4) show ?thesis by auto
    qed
  qed
qed

text \<open>
  The client finds the leader.  When one of its addresses answers writes positively, and every
  other one fails or refuses with that address as hint or with none, a write succeeds within one
  attempt per address wherever the client starts, and the client stays at the leader.
\<close>

theorem client_finds_leader:
  assumes "\<And>k. \<exists>r. ask k leader = Some r \<and> wr_ok r" "leader \<in> set addrs" "leader \<noteq> []"
    "\<And>k a r. a \<noteq> leader \<Longrightarrow> ask k a = Some r \<Longrightarrow> \<not> wr_ok r \<and> wr_hint r \<in> {[], leader}"
    "cur < length addrs"
  shows "fst (cl_set ask addrs cur) \<and> addrs ! snd (cl_set ask addrs cur) = leader"
proof -
  from assms(2) obtain j where j: "j < length addrs" "addrs ! j = leader" by (auto simp: in_set_conv_nth)
  let ?d = "if cur \<le> j then j - cur else length addrs - cur + j"
  have "(cur + ?d) mod length addrs = j" using j assms(5) by auto
  with j have at: "addrs ! ((cur + ?d) mod length addrs) = leader" by simp
  have "?d < length addrs" using j assms(5) by auto
  then show ?thesis unfolding cl_set_def
    by (rule cl_write_reaches [where leader = leader and ask = ask, rotated 6])
      (use assms at in blast)+
qed

theorem client_finds_leader_witness:
  "fst (cl_set (\<lambda>k a. if a = ''l'' then Some \<lparr>wr_ok = True, wr_hint = [], wr_error = []\<rparr>
                     else if a = ''f'' then Some \<lparr>wr_ok = False, wr_hint = ''l'', wr_error = ''not leader''\<rparr>
                     else None) [''d'', ''f'', ''x'', ''l''] 0)"
  by (rule client_finds_leader [where leader = "''l''", THEN conjunct1]) (auto split: if_splits)

end
