(* ===== verification/Work_Queue.thy ===== *)
theory Work_Queue
  imports Cluster_Store
begin

text \<open>
  The level-triggered controller runtime of \<open>modules/orchestrator/orchestrator/controller.py\<close>: the
  deduplicating work queue with delayed retry, the worker's handling of one key, and the ways keys
  enter the queue (watch events, the initial listing, the periodic resync).  Every method of the
  queue holds its condition, so one call is one step; \<open>now\<close> is what \<open>time.monotonic()\<close> returns.
\<close>

section \<open>The queue\<close>

record work_queue =
  wq_pending :: "string list"
  wq_queued :: "string set"
  wq_processing :: "string set"
  wq_dirty :: "string set"
  wq_delayed :: "(string \<times> rat) list"
  wq_failures :: "(string \<times> nat) list"
  wq_closed :: bool
  wq_added :: nat
  wq_deduplicated :: nat
  wq_processed :: nat
  wq_retries :: nat

definition empty_queue :: work_queue where
  "empty_queue = \<lparr>wq_pending = [], wq_queued = {}, wq_processing = {}, wq_dirty = {}, wq_delayed = [],
     wq_failures = [], wq_closed = False, wq_added = 0, wq_deduplicated = 0, wq_processed = 0, wq_retries = 0\<rparr>"

definition enqueue :: "string \<Rightarrow> work_queue \<Rightarrow> work_queue" where
  "enqueue k q = q\<lparr>wq_queued := insert k (wq_queued q), wq_pending := wq_pending q @ [k]\<rparr>"

definition wq_add :: "string \<Rightarrow> work_queue \<Rightarrow> work_queue" where
  "wq_add k q0 =
     (let q = q0\<lparr>wq_added := wq_added q0 + 1\<rparr> in
      if k \<in> wq_processing q then q\<lparr>wq_dirty := insert k (wq_dirty q)\<rparr>
      else if k \<in> wq_queued q then q\<lparr>wq_deduplicated := wq_deduplicated q + 1\<rparr>
      else enqueue k q)"

definition delay_until :: "string \<Rightarrow> rat \<Rightarrow> work_queue \<Rightarrow> work_queue" where
  \<comment> \<open>\<open>self._delayed[key] = min(self._delayed.get(key, due), due)\<close>\<close>
  "delay_until k due q =
     q\<lparr>wq_delayed := AList.update k
         (case map_of (wq_delayed q) k of None \<Rightarrow> due | Some d \<Rightarrow> min d due) (wq_delayed q)\<rparr>"

definition wq_add_after :: "string \<Rightarrow> rat \<Rightarrow> rat \<Rightarrow> work_queue \<Rightarrow> work_queue" where
  "wq_add_after k delay now q = delay_until k (now + delay) q"

text \<open>One pass of the loop of \<open>get\<close> over the delayed keys, on a copy of the dictionary.\<close>

definition release_one :: "rat \<Rightarrow> string \<times> rat \<Rightarrow> work_queue \<Rightarrow> work_queue" where
  "release_one now = (\<lambda>(k, due) q.
     if due \<le> now then
       (let q1 = q\<lparr>wq_delayed := AList.delete k (wq_delayed q)\<rparr>
        in if k \<notin> wq_queued q1 \<and> k \<notin> wq_processing q1 then enqueue k q1 else q1)
     else q)"

definition wq_release :: "rat \<Rightarrow> work_queue \<Rightarrow> work_queue" where
  "wq_release now q = fold (release_one now) (wq_delayed q) q"

definition wq_pop :: "work_queue \<Rightarrow> string option \<times> work_queue" where
  "wq_pop q =
     (case wq_pending q of
        [] \<Rightarrow> (None, q)
      | k # ks \<Rightarrow> (Some k, q\<lparr>wq_pending := ks, wq_queued := wq_queued q - {k},
                             wq_processing := insert k (wq_processing q)\<rparr>))"

definition wq_poll :: "rat \<Rightarrow> work_queue \<Rightarrow> string option \<times> work_queue" where
  "wq_poll now q = wq_pop (wq_release now q)"

text \<open>
  The whole of \<open>get\<close>: each element of \<open>clock\<close> is one turn of its loop (the reading at the top, the
  reading for \<open>remaining\<close>, and what other threads do while it waits).  \<open>None\<close> means that it still
  waits when the list ends.
\<close>

fun wq_get :: "rat \<Rightarrow> (rat \<times> rat \<times> (work_queue \<Rightarrow> work_queue)) list \<Rightarrow> work_queue
                 \<Rightarrow> (string option \<times> work_queue) option" where
  "wq_get deadline [] q = None"
| "wq_get deadline ((now, now2, others) # clock) q =
     (case wq_poll now q of
        (Some k, q1) \<Rightarrow> Some (Some k, q1)
      | (None, q1) \<Rightarrow>
          if wq_closed q1 then Some (None, q1)
          else if deadline - now2 \<le> 0 then Some (None, q1)
          else wq_get deadline clock (others q1))"

definition wq_done :: "string \<Rightarrow> rat option \<Rightarrow> rat \<Rightarrow> work_queue \<Rightarrow> work_queue" where
  "wq_done k requeue_after now q0 =
     (let q = q0\<lparr>wq_processing := wq_processing q0 - {k}, wq_processed := wq_processed q0 + 1\<rparr> in
      if k \<in> wq_dirty q then
        (let q1 = q\<lparr>wq_dirty := wq_dirty q - {k}\<rparr>
         in if k \<notin> wq_queued q1 then enqueue k q1 else q1)
      else (case requeue_after of None \<Rightarrow> q | Some d \<Rightarrow> delay_until k (now + d) q))"

definition fail_count :: "work_queue \<Rightarrow> string \<Rightarrow> nat" where
  \<comment> \<open>\<open>self._failures.get(key, 0)\<close>\<close>
  "fail_count q k = (case map_of (wq_failures q) k of None \<Rightarrow> 0 | Some c \<Rightarrow> c)"

definition wq_fail :: "string \<Rightarrow> rat \<Rightarrow> rat \<Rightarrow> rat \<Rightarrow> work_queue \<Rightarrow> rat res \<times> work_queue" where
  \<comment> \<open>\<open>base_delay\<close> is a float, so the power is converted to one, which raises from \<open>2 ** 1024\<close> on; by then the
     key is no longer in flight and its count is raised\<close>
  "wq_fail k base_delay max_delay now q0 =
     (let count = fail_count q0 k + 1;
          q = q0\<lparr>wq_processing := wq_processing q0 - {k}, wq_retries := wq_retries q0 + 1,
                 wq_failures := AList.update k count (wq_failures q0)\<rparr>
      in if count - 1 < 1024 then
           (let delay = min (base_delay * 2 ^ (count - 1)) max_delay
            in (Inr delay, q\<lparr>wq_delayed := AList.update k (now + delay) (wq_delayed q)\<rparr>))
         else (Inl (OverflowError ''int too large to convert to float''), q))"

definition wq_succeed :: "string \<Rightarrow> work_queue \<Rightarrow> work_queue" where
  "wq_succeed k q = q\<lparr>wq_failures := AList.delete k (wq_failures q)\<rparr>"

definition wq_close :: "work_queue \<Rightarrow> work_queue" where
  "wq_close q = q\<lparr>wq_closed := True\<rparr>"

definition wq_len :: "work_queue \<Rightarrow> nat" where
  "wq_len q = length (wq_pending q) + length (wq_delayed q)"

section \<open>The controller\<close>

text \<open>The queue of a controller, and whether its worker thread still runs.\<close>

type_synonym controller = "work_queue \<times> bool"

definition finish_key :: "string \<Rightarrow> rat option res \<Rightarrow> rat \<Rightarrow> work_queue \<Rightarrow> controller" where
  \<comment> \<open>\<open>_worker\<close> after \<open>reconcile\<close>: it returned a requeue delay or nothing, or raised; an exception of
     \<open>fail\<close> leaves the \<open>except\<close> clause and ends the thread\<close>
  "finish_key k outcome now q =
     (case outcome of
        Inr requeue \<Rightarrow> (wq_done k requeue now (wq_succeed k q), True)
      | Inl e \<Rightarrow> (case wq_fail k (5 / 100) 2 now q of (Inr d, q') \<Rightarrow> (q', True) | (Inl x, q') \<Rightarrow> (q', False)))"

definition on_event :: "(event \<Rightarrow> string list) \<Rightarrow> event \<Rightarrow> work_queue \<Rightarrow> work_queue" where
  "on_event interesting ev q = fold wq_add (interesting ev) q"

definition enqueue_listed ::
  "(event \<Rightarrow> string list) \<Rightarrow> event_type \<Rightarrow> obj list \<Rightarrow> work_queue \<Rightarrow> work_queue" where
  \<comment> \<open>the listing of \<open>start\<close> (\<open>ADDED\<close>) and of every round of \<open>_resync\<close> (\<open>SYNC\<close>)\<close>
  "enqueue_listed interesting ty objs q =
     fold (\<lambda>x. on_event interesting \<lparr>ev_type = ty, ev_object = x, ev_revision = m_rv (o_meta x)\<rparr>)
       objs q"


section \<open>Contracts\<close>

text \<open>What the sources of keys rely on: noting a key makes the queue owe it, and noting others keeps that.\<close>

locale notifier =
  fixes notify :: "'k \<Rightarrow> 'q \<Rightarrow> 'q" and owed :: "'k \<Rightarrow> 'q \<Rightarrow> bool" and inv :: "'q \<Rightarrow> bool"
  assumes note_inv: "inv q \<Longrightarrow> inv (notify k q)"
    and note_owed: "inv q \<Longrightarrow> owed k (notify k q)"
    and note_keeps: "inv q \<Longrightarrow> owed k q \<Longrightarrow> owed k (notify j q)"
begin

lemma fold_note_inv: "inv q \<Longrightarrow> inv (fold notify ks q)"
  by (induction ks arbitrary: q) (simp_all add: note_inv)

lemma fold_note_keeps: "inv q \<Longrightarrow> owed k q \<Longrightarrow> owed k (fold notify ks q)"
  by (induction ks arbitrary: q) (simp_all add: note_inv note_keeps)

lemma fold_note_owed: "inv q \<Longrightarrow> k \<in> set ks \<Longrightarrow> owed k (fold notify ks q)"
  by (induction ks arbitrary: q) (auto simp: note_inv note_owed intro: fold_note_keeps)

lemma fold_many:
  assumes "inv q" "x \<in> set xs" "k \<in> set (f x)"
  shows "owed k (fold (\<lambda>x. fold notify (f x)) xs q)"
  using assms
proof (induction xs arbitrary: q)
  case (Cons y ys)
  have keeps: "owed k (fold (\<lambda>x. fold notify (f x)) zs q)" if "inv q" "owed k q" for zs q
    using that by (induction zs arbitrary: q) (simp_all add: fold_note_inv fold_note_keeps)
  from Cons show ?case by (auto simp: fold_note_inv fold_note_owed intro: keeps)
qed simp

end

text \<open>And what the worker's side adds: a key that is owed stays owed until it is handed out, or given up.\<close>

locale delivering = notifier +
  fixes step :: "'e \<Rightarrow> 'q \<Rightarrow> 'k option \<times> 'q" and gives_up :: "'e \<Rightarrow> 'k \<Rightarrow> 'q \<Rightarrow> bool"
  assumes step_inv: "inv q \<Longrightarrow> inv (snd (step e q))"
    and step_owed: "inv q \<Longrightarrow> owed k q \<Longrightarrow> fst (step e q) \<noteq> Some k \<Longrightarrow> \<not> gives_up e k q \<Longrightarrow> owed k (snd (step e q))"
begin

abbreviation run :: "'e list \<Rightarrow> 'q \<Rightarrow> 'q" where
  "run es q \<equiv> fold (\<lambda>e q. snd (step e q)) es q"

lemma run_inv: "inv q \<Longrightarrow> inv (run es q)"
  by (induction es arbitrary: q) (simp_all add: step_inv)

lemma owed_or_handed_out:
  assumes "inv q" "owed k q"
  shows "owed k (run es q) \<or> (\<exists>i < length es. fst (step (es ! i) (run (take i es) q)) = Some k)
    \<or> (\<exists>i < length es. gives_up (es ! i) k (run (take i es) q))"
  using assms
proof (induction es arbitrary: q)
  case (Cons e es)
  show ?case
  proof (cases "fst (step e q) = Some k \<or> gives_up e k q")
    case True
    then have "\<exists>i < length (e # es). fst (step ((e # es) ! i) (run (take i (e # es)) q)) = Some k
        \<or> gives_up ((e # es) ! i) k (run (take i (e # es)) q)" by (intro exI [of _ 0]) simp
    then show ?thesis by blast
  next
    case False
    then have q: "inv (snd (step e q))" "owed k (snd (step e q))" using Cons.prems by (simp_all add: step_inv step_owed)
    have shift: "(\<exists>i < length es. P (es ! i) (run (take i es) (snd (step e q))))
      \<Longrightarrow> \<exists>i < length (e # es). P ((e # es) ! i) (run (take i (e # es)) q)" for P
      by (elim exE conjE, rule_tac x = "Suc i" in exI) simp
    from Cons.IH [OF q] show ?thesis
      using shift [of "\<lambda>x y. fst (step x y) = Some k"] shift [of "\<lambda>x. gives_up x k"] by auto
  qed
qed simp

end

section \<open>The queue keeps its contract\<close>

definition wq_wf :: "work_queue \<Rightarrow> bool" where
  "wq_wf q \<longleftrightarrow> distinct (wq_pending q) \<and> set (wq_pending q) = wq_queued q \<and>
     wq_queued q \<inter> wq_processing q = {} \<and> distinct (map fst (wq_delayed q)) \<and> (\<exists>k. wq_processing q \<subseteq> {k})"

definition wq_marks :: "work_queue \<Rightarrow> bool" where
  \<comment> \<open>what is marked to run again will run\<close>
  "wq_marks q \<longleftrightarrow> wq_dirty q \<subseteq> wq_processing q \<union> wq_queued q \<union> fst ` set (wq_delayed q)"

fun ctl_inv :: "controller \<Rightarrow> bool" where
  "ctl_inv (q, w) \<longleftrightarrow> wq_wf q \<and> (w \<longrightarrow> wq_marks q) \<and> (\<not> w \<longrightarrow> wq_processing q = {})"

definition wq_owed :: "string \<Rightarrow> work_queue \<Rightarrow> bool" where
  "wq_owed k q \<longleftrightarrow> k \<in> wq_queued q \<or> k \<in> fst ` set (wq_delayed q) \<or>
     k \<in> wq_processing q \<and> k \<in> wq_dirty q"

text \<open>The calls of everything around the queue; the one worker asks for a key only when it holds none.\<close>

datatype wq_event = Note string | NoteAfter string rat rat | Poll rat | Finish string "rat option res" rat

fun wq_step :: "wq_event \<Rightarrow> controller \<Rightarrow> string option \<times> controller" where
  "wq_step (Note k) (q, w) = (None, (wq_add k q, w))"
| "wq_step (NoteAfter k d now) (q, w) = (None, (wq_add_after k d now q, w))"
| "wq_step (Poll now) (q, w) =
     (if w \<and> wq_processing q = {} then (case wq_poll now q of (r, q') \<Rightarrow> (r, (q', w))) else (None, (q, w)))"
| "wq_step (Finish k outcome now) (q, w) =
     (None, if w \<and> k \<in> wq_processing q then finish_key k outcome now q else (q, w))"

fun wq_gives_up :: "wq_event \<Rightarrow> string \<Rightarrow> controller \<Rightarrow> bool" where
  \<comment> \<open>the key's reconcile raises, and it had failed 1024 times in a row before\<close>
  "wq_gives_up (Finish j (Inl e) now) k (q, w) \<longleftrightarrow> w \<and> j = k \<and> k \<in> wq_processing q \<and> 1024 \<le> fail_count q k"
| "wq_gives_up e k c \<longleftrightarrow> False"

lemma empty_queue_inv: "ctl_inv (empty_queue, True)"
  by (simp add: wq_wf_def wq_marks_def empty_queue_def)

lemma delay_until_simps [simp]:
  "wq_pending (delay_until k d q) = wq_pending q" "wq_queued (delay_until k d q) = wq_queued q"
  "wq_processing (delay_until k d q) = wq_processing q" "wq_dirty (delay_until k d q) = wq_dirty q"
  "wq_failures (delay_until k d q) = wq_failures q"
  "fst ` set (wq_delayed (delay_until k d q)) = insert k (fst ` set (wq_delayed q))"
  by (simp_all add: delay_until_def dom_update)

lemma delay_until_wf: "wq_wf q \<Longrightarrow> wq_wf (delay_until k d q)"
  by (auto simp: wq_wf_def) (simp_all add: delay_until_def distinct_update)

lemma delay_until_marks: "wq_marks q \<Longrightarrow> wq_marks (delay_until k d q)"
  by (auto simp: wq_marks_def)

lemma delay_until_owed: "wq_owed k q \<or> k = j \<Longrightarrow> wq_owed k (delay_until j d q)"
  by (auto simp: wq_owed_def)

lemma wq_add_wf: "wq_wf q \<Longrightarrow> wq_wf (wq_add k q)"
  by (auto simp: wq_wf_def wq_add_def enqueue_def Let_def)

lemma wq_add_marks: "wq_marks q \<Longrightarrow> wq_marks (wq_add k q)"
  by (auto simp: wq_marks_def wq_add_def enqueue_def Let_def)

lemma wq_add_processing [simp]: "wq_processing (wq_add k q) = wq_processing q"
  by (simp add: wq_add_def enqueue_def Let_def)

lemma wq_add_owed: "wq_owed k (wq_add k q)" "wq_owed k q \<Longrightarrow> wq_owed k (wq_add j q)"
  by (auto simp: wq_owed_def wq_add_def enqueue_def Let_def)

interpretation wq: notifier wq_add wq_owed "\<lambda>_. True"
  by unfold_locales (auto intro: wq_add_owed)

lemma release_one_keeps:
  "wq_wf q \<Longrightarrow> wq_processing q = {} \<Longrightarrow>
     wq_wf (release_one now p q) \<and> wq_processing (release_one now p q) = {} \<and> wq_failures (release_one now p q) = wq_failures q"
  by (cases p) (auto simp: wq_wf_def release_one_def enqueue_def Let_def alist_delete_distinct)

lemma release_one_marks: "wq_processing q = {} \<Longrightarrow> wq_marks q \<Longrightarrow> wq_marks (release_one now p q)"
  by (cases p) (auto simp: wq_marks_def release_one_def enqueue_def Let_def alist_delete_keys)

lemma release_one_owed:
  "wq_processing q = {} \<Longrightarrow> wq_owed k q \<Longrightarrow> wq_owed k (release_one now p q)"
  by (cases p) (auto simp: wq_owed_def release_one_def enqueue_def Let_def alist_delete_keys)

lemma release_keeps:
  assumes "wq_wf q" "wq_processing q = {}"
  shows "wq_wf (wq_release now q) \<and> wq_processing (wq_release now q) = {} \<and> wq_failures (wq_release now q) = wq_failures q \<and>
    (wq_marks q \<longrightarrow> wq_marks (wq_release now q)) \<and> (wq_owed k q \<longrightarrow> wq_owed k (wq_release now q))"
proof -
  have "wq_wf q \<Longrightarrow> wq_processing q = {} \<Longrightarrow>
    wq_wf (fold (release_one now) ps q) \<and> wq_processing (fold (release_one now) ps q) = {} \<and>
    wq_failures (fold (release_one now) ps q) = wq_failures q \<and>
    (wq_marks q \<longrightarrow> wq_marks (fold (release_one now) ps q)) \<and> (wq_owed k q \<longrightarrow> wq_owed k (fold (release_one now) ps q))" for ps
    by (induction ps arbitrary: q) (simp_all add: release_one_keeps release_one_marks release_one_owed)
  then show ?thesis using assms by (simp add: wq_release_def)
qed

lemma pop_wf: "wq_wf q \<Longrightarrow> wq_processing q = {} \<Longrightarrow> wq_wf (snd (wq_pop q))"
  by (auto simp: wq_wf_def wq_pop_def split: list.split)

lemma pop_marks: "wq_wf q \<Longrightarrow> wq_marks q \<Longrightarrow> wq_marks (snd (wq_pop q))"
  by (auto simp: wq_wf_def wq_marks_def wq_pop_def split: list.split)

lemma pop_owed: "wq_owed k q \<Longrightarrow> wq_processing q = {} \<Longrightarrow> fst (wq_pop q) \<noteq> Some k \<Longrightarrow> wq_owed k (snd (wq_pop q))"
  by (auto simp: wq_owed_def wq_pop_def split: list.split)

lemma fail_effect:
  "fst (wq_fail k b m now q) = (if fail_count q k < 1024 then Inr (min (b * 2 ^ fail_count q k) m)
     else Inl (OverflowError ''int too large to convert to float''))"
  "snd (wq_fail k b m now q) = q\<lparr>wq_processing := wq_processing q - {k}, wq_retries := wq_retries q + 1,
     wq_failures := AList.update k (fail_count q k + 1) (wq_failures q),
     wq_delayed := (if fail_count q k < 1024 then AList.update k (now + min (b * 2 ^ fail_count q k) m) (wq_delayed q)
                    else wq_delayed q)\<rparr>"
  by (simp_all add: wq_fail_def Let_def)

lemma finish_failed:
  "finish_key k (Inl e) now q = (snd (wq_fail k (5 / 100) 2 now q), fail_count q k < 1024)"
  by (simp add: finish_key_def wq_fail_def Let_def)

lemma finish_succeeded: "finish_key k (Inr d) now q = (wq_done k d now (wq_succeed k q), True)"
  by (simp add: finish_key_def)

lemma done_keeps:
  assumes "wq_wf q" "wq_marks q" "k \<in> wq_processing q"
  shows "wq_wf (wq_done k d now q) \<and> wq_marks (wq_done k d now q)"
proof -
  let ?p = "q\<lparr>wq_processing := wq_processing q - {k}, wq_processed := wq_processed q + 1\<rparr>"
  show ?thesis
  proof (cases "k \<in> wq_dirty q")
    case True
    with assms show ?thesis by (auto simp: wq_done_def Let_def wq_wf_def wq_marks_def enqueue_def)
  next
    case False
    with assms have "wq_wf ?p" "wq_marks ?p" by (auto simp: wq_wf_def wq_marks_def)
    with False show ?thesis
      by (auto simp: wq_done_def Let_def intro: delay_until_wf delay_until_marks split: option.split)
  qed
qed

lemma finish_inv:
  assumes "wq_wf q" "wq_marks q" "k \<in> wq_processing q"
  shows "ctl_inv (finish_key k r now q)"
proof (cases r)
  case (Inl e)
  have "wq_processing q - {k} = {}" using assms(1,3) by (auto simp: wq_wf_def)
  with assms Inl show ?thesis
    by (auto simp: finish_failed fail_effect wq_wf_def wq_marks_def distinct_update dom_update)
next
  case (Inr d)
  have "wq_wf (wq_succeed k q)" "wq_marks (wq_succeed k q)" "k \<in> wq_processing (wq_succeed k q)"
    using assms by (auto simp: wq_succeed_def wq_wf_def wq_marks_def)
  from done_keeps [OF this] Inr show ?thesis by (simp add: finish_succeeded)
qed

lemma finish_owed:
  assumes "wq_owed j q" "\<not> (\<exists>e. r = Inl e \<and> j = k \<and> 1024 \<le> fail_count q k)"
  shows "wq_owed j (fst (finish_key k r now q))"
proof (cases r)
  case (Inl e)
  with assms show ?thesis by (auto simp: finish_failed fail_effect wq_owed_def dom_update)
next
  case (Inr d)
  with assms show ?thesis
    by (auto simp: finish_succeeded wq_done_def wq_succeed_def Let_def wq_owed_def enqueue_def dom_update split: option.split)
qed

abbreviation ctl_owed :: "string \<Rightarrow> controller \<Rightarrow> bool" where
  "ctl_owed k c \<equiv> wq_owed k (fst c)"

abbreviation ctl_note :: "string \<Rightarrow> controller \<Rightarrow> controller" where
  "ctl_note k c \<equiv> (wq_add k (fst c), snd c)"

lemma poll_keeps:
  assumes "wq_wf q" "wq_marks q" "wq_processing q = {}" "wq_poll now q = (r, q')"
  shows "wq_wf q' \<and> wq_marks q' \<and> (wq_owed k q \<longrightarrow> r \<noteq> Some k \<longrightarrow> wq_owed k q')"
proof -
  note rel = release_keeps [OF assms(1,3), of now]
  have "r = fst (wq_pop (wq_release now q))" "q' = snd (wq_pop (wq_release now q))" using assms(4) by (simp_all add: wq_poll_def)
  then show ?thesis using rel [of k] assms(2) by (auto intro: pop_wf pop_marks pop_owed)
qed

lemma step_inv: "ctl_inv c \<Longrightarrow> ctl_inv (snd (wq_step e c))"
proof (induction e c rule: wq_step.induct)
  case (3 now q w)
  then show ?case using poll_keeps [of q now] by (auto split: prod.split)
next
  case (4 k outcome now q w)
  then show ?case using finish_inv [of q k outcome now] by auto
qed (auto simp: wq_add_after_def intro: wq_add_wf wq_add_marks delay_until_wf delay_until_marks)

lemma step_owed:
  "ctl_inv c \<Longrightarrow> ctl_owed k c \<Longrightarrow> fst (wq_step e c) \<noteq> Some k \<Longrightarrow> \<not> wq_gives_up e k c \<Longrightarrow> ctl_owed k (snd (wq_step e c))"
proof (induction e c rule: wq_step.induct)
  case (3 now q w)
  then show ?case using poll_keeps [of q now _ _ k] by (auto split: prod.splits if_splits)
next
  case (4 j outcome now q w)
  then show ?case using finish_owed [of k q outcome j now] by (cases outcome) auto
qed (auto simp: wq_add_after_def intro: wq_add_owed delay_until_owed)

interpretation ctl: delivering ctl_note ctl_owed ctl_inv wq_step wq_gives_up
proof
  show "ctl_inv c \<Longrightarrow> ctl_inv (ctl_note k c)" for c k by (cases c) (auto intro: wq_add_wf wq_add_marks)
qed (auto intro: wq_add_owed step_inv step_owed)

section \<open>Properties\<close>

abbreviation wq_run :: "wq_event list \<Rightarrow> controller \<Rightarrow> controller" where
  "wq_run es c \<equiv> fold (\<lambda>e c. snd (wq_step e c)) es c"

text \<open>
  C11: No notification is lost, but for one case.  Take any history of a controller, then note a key,
  then continue in any way: at the end either the worker was handed that key after the note, or the queue
  still owes it (it is queued, scheduled for later, or in flight and marked to run again), or in
  between a reconcile of this key raised that had failed 1024 times in a row before: then its back-off overflows
  a float, the key is dropped and the worker's thread ends.
\<close>

theorem no_notification_lost:
  "let c = snd (wq_step (Note k) (wq_run before (empty_queue, True))) in
   wq_owed k (fst (wq_run after c)) \<or>
   (\<exists>i < length after. fst (wq_step (after ! i) (wq_run (take i after) c)) = Some k) \<or>
   (\<exists>i < length after. wq_gives_up (after ! i) k (wq_run (take i after) c))"
proof -
  obtain q w where c: "wq_run before (empty_queue, True) = (q, w)" by fastforce
  have "ctl_inv (q, w)" using ctl.run_inv [OF empty_queue_inv, of before] c by simp
  then have "ctl_inv (snd (wq_step (Note k) (q, w)))" by (rule step_inv)
  moreover have "ctl_owed k (snd (wq_step (Note k) (q, w)))" by (simp add: wq_add_owed)
  ultimately show ?thesis unfolding Let_def c by (rule ctl.owed_or_handed_out)
qed

text \<open>
  The case that is left out.  The 1025th failure in a row of a key raises inside the handler: the key was
  in flight and is nowhere now, although it is marked to run again, and no key is handed out any more.
\<close>

theorem failing_key_ends_worker:
  assumes "ctl_inv (q, True)" "k \<in> wq_processing q" "1024 \<le> fail_count q k" "k \<notin> fst ` set (wq_delayed q)"
    and "wq_step (Finish k (Inl e) now) (q, True) = (r, c)"
  shows "\<not> ctl_owed k c \<and> (\<forall>es. \<forall>now. fst (wq_step (Poll now) (wq_run es c)) = None)"
proof -
  obtain q' where c: "c = (q', False)" "wq_processing q' = {}" "wq_queued q' = wq_queued q" "wq_delayed q' = wq_delayed q"
  proof -
    have "wq_processing q - {k} = {}" using assms(1,2) by (auto simp: wq_wf_def)
    then show thesis using assms that [of "snd (wq_fail k (5 / 100) 2 now q)"] by (auto simp: finish_failed fail_effect)
  qed
  have dead: "snd (wq_run es c) = False" if "snd c = False" for es c
    using that
  proof (induction es arbitrary: c)
    case (Cons e es)
    have "snd (snd (wq_step e c)) = False" using Cons.prems by (induction e c rule: wq_step.induct) simp_all
    from Cons.IH [OF this] show ?case by simp
  qed simp
  have "fst (wq_step (Poll t) (wq_run es c)) = None" for es t
    using dead [of c es] c(1) by (cases "wq_run es c") simp
  moreover have "k \<notin> wq_queued q" using assms(1,2) by (auto simp: wq_wf_def)
  ultimately show ?thesis using c assms(4) by (simp add: wq_owed_def)
qed

text \<open>
  The three states of a key.  After any history the waiting list has no duplicates and agrees
  with the set of queued keys, no key is queued and in flight at once, the worker holds at most one
  key, and while it runs, a key marked to run again is in flight, queued or scheduled.
\<close>

theorem queue_states_exclusive:
  "let (q, w) = wq_run es (empty_queue, True) in
   distinct (wq_pending q) \<and> set (wq_pending q) = wq_queued q \<and>
   wq_queued q \<inter> wq_processing q = {} \<and> (\<exists>k. wq_processing q \<subseteq> {k}) \<and>
   (\<not> w \<or> wq_dirty q \<subseteq> wq_processing q \<union> wq_queued q \<union> fst ` set (wq_delayed q))"
proof -
  have "ctl_inv (wq_run es (empty_queue, True))" by (rule ctl.run_inv) (rule empty_queue_inv)
  then show ?thesis by (cases "wq_run es (empty_queue, True)") (auto simp: wq_wf_def wq_marks_def)
qed

lemma add_queued_repeat:
  assumes "k \<notin> wq_processing q" "k \<in> wq_queued q"
  shows "(wq_add k ^^ n) q = q\<lparr>wq_added := wq_added q + n, wq_deduplicated := wq_deduplicated q + n\<rparr>"
  using assms by (induction n) (simp_all add: wq_add_def Let_def)

lemma add_processing_repeat:
  assumes "k \<in> wq_processing q"
  shows "(wq_add k ^^ Suc n) q = q\<lparr>wq_added := wq_added q + Suc n, wq_dirty := insert k (wq_dirty q)\<rparr>"
  using assms by (induction n) (simp_all add: wq_add_def Let_def)

text \<open>
  A burst of events for one object costs two reconciles.  However many notes of a key arrive
  while it is idle, the waiting list grows by that key once; however many arrive while it is being
  reconciled, its completion puts it on the list once more.
\<close>

theorem burst_costs_two:
  "k \<notin> wq_queued q \<Longrightarrow> k \<notin> wq_processing q \<Longrightarrow>
     wq_pending ((wq_add k ^^ Suc n) q) = wq_pending q @ [k]"
  "k \<in> wq_processing q \<Longrightarrow> k \<notin> wq_queued q \<Longrightarrow>
     wq_pending (fst (finish_key k (Inr requeue) now ((wq_add k ^^ Suc n) q))) = wq_pending q @ [k]"
proof -
  assume "k \<notin> wq_queued q" "k \<notin> wq_processing q"
  then show "wq_pending ((wq_add k ^^ Suc n) q) = wq_pending q @ [k]"
    unfolding funpow_Suc_right comp_def
    by (subst add_queued_repeat) (simp_all add: wq_add_def Let_def enqueue_def)
next
  assume "k \<in> wq_processing q" "k \<notin> wq_queued q"
  then show "wq_pending (fst (finish_key k (Inr requeue) now ((wq_add k ^^ Suc n) q))) = wq_pending q @ [k]"
    by (subst add_processing_repeat)
      (simp_all add: finish_key_def wq_succeed_def wq_done_def Let_def enqueue_def)
qed

theorem burst_costs_two_witness:
  "wq_pending ((wq_add ''k'' ^^ 50) empty_queue) = [''k''] \<and>
   wq_pending (fst (finish_key ''k'' (Inr None) 0
     ((wq_add ''k'' ^^ 50) (empty_queue\<lparr>wq_processing := {''k''}\<rparr>)))) = [''k'']"
  using burst_costs_two(1) [of "''k''" empty_queue 49]
    burst_costs_two(2) [of "''k''" "empty_queue\<lparr>wq_processing := {''k''}\<rparr>" None 0 49]
  by (simp add: empty_queue_def)

text \<open>
  Exponential backoff.  The \<open>n\<close>-th failure in a row of a key is retried after \<open>50 ms * 2^(n-1)\<close>,
  but never later than two seconds; a success in between starts again from 50 ms.  From \<open>n = 1025\<close> on
  the computation of the delay raises.
\<close>

theorem backoff_delay:
  assumes "map_of (wq_failures q) k = None"
  shows "fst (wq_fail k base limit now (fold (\<lambda>t q. snd (wq_fail k base limit t q)) ts q))
           = (if length ts < 1024 then Inr (min (base * 2 ^ length ts) limit)
              else Inl (OverflowError ''int too large to convert to float'')) \<and>
         map_of (wq_failures (wq_succeed k (fold (\<lambda>t q. snd (wq_fail k base limit t q)) ts q))) k = None"
proof -
  let ?f = "\<lambda>ts. fold (\<lambda>t q. snd (wq_fail k base limit t q)) ts q"
  have count: "fail_count (?f ts) k = length ts" for ts
  proof (induction ts rule: rev_induct)
    case (snoc t ts)
    then show ?case by (simp add: fail_effect fail_count_def update_conv')
  qed (use assms in \<open>simp add: fail_count_def\<close>)
  then show ?thesis by (simp add: fail_effect wq_succeed_def AList.delete_conv')
qed

theorem backoff_delay_witness:
  "fst (wq_fail ''k'' (5 / 100) 2 3 (fold (\<lambda>t q. snd (wq_fail ''k'' (5 / 100) 2 t q)) [0, 1, 2] empty_queue))
     = Inr (4 / 10)"
  using backoff_delay [of empty_queue "''k''" "5 / 100" 2 3 "[0, 1, 2]"] by (simp add: empty_queue_def)

text \<open>
  The resync repairs lost events.  After a round of \<open>_resync\<close> (and after the listing of \<open>start\<close>)
  every key that any listed object maps to is owed by the queue, whatever happened to the events.
\<close>

theorem resync_owes_everything:
  "x \<in> set objs \<Longrightarrow>
   k \<in> set (interesting \<lparr>ev_type = ty, ev_object = x, ev_revision = m_rv (o_meta x)\<rparr>) \<Longrightarrow>
     wq_owed k (enqueue_listed interesting ty objs (fst (wq_run es (empty_queue, True))))"
  unfolding enqueue_listed_def on_event_def
  by (rule wq.fold_many) auto

theorem resync_owes_everything_witness:
  "let x = \<lparr>o_kind = ''Pod'', o_meta = \<lparr>m_name = ''a'', m_namespace = ''n'', m_uid = [], m_rv = 1,
              m_generation = 1, m_labels = fmempty, m_annotations = fmempty, m_owner = [],
              m_created_at = 0, m_deleted_at = 0\<rparr>, o_spec = fmempty, o_status = fmempty\<rparr> in
   wq_owed ''Pod/n/a'' (enqueue_listed (\<lambda>ev. [ev_key ev]) SYNC [x] (fst (wq_run [] (empty_queue, True))))"
  unfolding Let_def by (rule resync_owes_everything) (auto simp: ev_key_def okey_def)

text \<open>One round of the worker: it takes a key if there is one and finishes it with some outcome.\<close>

definition worker_round :: "rat \<times> rat option res \<Rightarrow> controller \<Rightarrow> string option \<times> controller" where
  "worker_round = (\<lambda>(now, outcome) c.
     let (k, c1) = wq_step (Poll now) c
     in (k, case k of None \<Rightarrow> c1 | Some k \<Rightarrow> snd (wq_step (Finish k outcome now) c1)))"

lemma release_appends: "\<exists>ks. wq_pending (wq_release now q) = wq_pending q @ ks"
proof -
  have "\<exists>ks. wq_pending (fold (release_one now) ps q) = wq_pending q @ ks" for ps
  proof (induction ps arbitrary: q)
    case (Cons p ps)
    obtain k d where "p = (k, d)" by fastforce
    then have "\<exists>js. wq_pending (release_one now p q) = wq_pending q @ js"
      by (simp add: release_one_def Let_def enqueue_def)
    with Cons [of "release_one now p q"] show ?case by fastforce
  qed simp
  then show ?thesis by (simp add: wq_release_def)
qed

lemma done_effect:
  "\<exists>ks. wq_pending (wq_done k d now q) = wq_pending q @ ks" "wq_processing (wq_done k d now q) = wq_processing q - {k}"
  "wq_failures (wq_done k d now q) = wq_failures q"
  by (auto simp: wq_done_def Let_def enqueue_def split: option.split)

lemma finish_effect:
  assumes "finish_key k r now q = (q', w)"
  shows "\<exists>ks. wq_pending q' = wq_pending q @ ks" "wq_processing q' = wq_processing q - {k}"
    "j \<noteq> k \<Longrightarrow> fail_count q' j = fail_count q j" "w \<longleftrightarrow> \<not> (\<exists>e. r = Inl e \<and> 1024 \<le> fail_count q k)"
  using assms done_effect [of k _ now "wq_succeed k q"]
  by (cases r; auto simp: finish_failed finish_succeeded fail_effect wq_succeed_def fail_count_def update_conv' delete_conv')+

lemma worker_round_serves:
  assumes "ctl_inv (q, True)" "wq_processing q = {}" "wq_pending q = k # ks" "worker_round (now, outcome) (q, True) = (r, (q', w))"
  shows "r = Some k \<and> (\<exists>js. wq_pending q' = ks @ js) \<and> ctl_inv (q', w) \<and> wq_processing q' = {} \<and>
    (\<forall>j. j \<noteq> k \<longrightarrow> fail_count q' j = fail_count q j) \<and> (w \<longleftrightarrow> \<not> (\<exists>e. outcome = Inl e \<and> 1024 \<le> fail_count q k))"
proof -
  obtain js where js: "wq_pending (wq_release now q) = k # ks @ js"
    using release_appends [of now q] assms(3) by auto
  have wf: "wq_wf q" "wq_marks q" using assms(1) by simp_all
  note rel = release_keeps [OF wf(1) assms(2), of now]
  define q1 where "q1 = snd (wq_pop (wq_release now q))"
  have pop: "wq_pop (wq_release now q) = (Some k, q1)" "wq_pending q1 = ks @ js" "wq_processing q1 = {k}"
    "wq_failures q1 = wq_failures q"
    using js rel by (simp_all add: q1_def wq_pop_def)
  have inv: "wq_wf q1" "wq_marks q1" unfolding q1_def using rel wf by (auto intro: pop_wf pop_marks)
  have f: "r = Some k" "finish_key k outcome now q1 = (q', w)"
    using assms(2,4) pop by (simp_all add: worker_round_def wq_poll_def)
  have "fail_count q1 j = fail_count q j" for j using pop(4) by (simp add: fail_count_def)
  then show ?thesis
    using f(1) finish_effect [OF f(2)] finish_inv [OF inv, of k outcome now] pop(2,3) f(2) by fastforce
qed

lemma dead_worker_round: "worker_round r (q, False) = (None, (q, False))"
  by (cases r) (simp add: worker_round_def)

lemma dead_worker_rounds: "fold (\<lambda>r c. snd (worker_round r c)) rs (q, False) = (q, False)"
  by (induction rs) (simp_all add: dead_worker_round)

text \<open>
  C12: Every waiting key is served in its turn, unless an earlier one ends the worker.  A key at position
  \<open>i\<close> of the waiting list of an idle worker is handed out in round \<open>i\<close> (counted from 0), whatever delayed
  keys become due in the meantime, exactly if no reconcile of the keys before it raises for a key that
  had already failed 1024 times in a row; if one does, no key is handed out in round \<open>i\<close>.
\<close>

theorem waiting_key_served:
  assumes "ctl_inv (q, True)" "wq_processing q = {}" "i < length (wq_pending q)" "length rounds = i"
  shows "fst (worker_round r (fold (\<lambda>r c. snd (worker_round r c)) rounds (q, True)))
    = (if \<exists>j < i. \<exists>e. snd (rounds ! j) = Inl e \<and> 1024 \<le> fail_count q (wq_pending q ! j)
       then None else Some (wq_pending q ! i))"
  using assms
proof (induction rounds arbitrary: q i)
  case Nil
  then obtain k ks where p: "wq_pending q = k # ks" by (cases "wq_pending q") auto
  obtain now outcome where r: "r = (now, outcome)" by fastforce
  obtain a q' w where w: "worker_round (now, outcome) (q, True) = (a, (q', w))" by (metis prod.collapse)
  from worker_round_serves [OF Nil(1,2) p w] Nil w r p show ?case by simp
next
  case (Cons r1 rounds)
  then obtain k ks where p: "wq_pending q = k # ks" by (cases "wq_pending q") auto
  obtain now outcome where r: "r1 = (now, outcome)" by fastforce
  obtain a q' w where w: "worker_round (now, outcome) (q, True) = (a, (q', w))" by (metis prod.collapse)
  note s = worker_round_serves [OF Cons.prems(1,2) p w]
  obtain n where i: "i = Suc n" "length rounds = n" using Cons.prems(4) by auto
  show ?case
  proof (cases w)
    case False
    then have "\<exists>e. outcome = Inl e \<and> 1024 \<le> fail_count q k" using s by blast
    then have "\<exists>j < i. \<exists>e. snd ((r1 # rounds) ! j) = Inl e \<and> 1024 \<le> fail_count q (wq_pending q ! j)"
      using p r i by (intro exI [of _ 0]) simp
    then show ?thesis using False w r by (simp add: dead_worker_rounds dead_worker_round)
  next
    case True
    then obtain js where js: "wq_pending q' = ks @ js" using s by blast
    have len: "n < length (wq_pending q')" "n < length ks" using js p Cons.prems(3) i by simp_all
    have d: "distinct (k # ks)" using Cons.prems(1) p by (simp add: wq_wf_def)
    have nth: "wq_pending q' ! j = wq_pending q ! Suc j" if "j \<le> n" for j using js p len that by (simp add: nth_append)
    have cnt: "fail_count q' (wq_pending q' ! j) = fail_count q (wq_pending q ! Suc j)" if "j \<le> n" for j
    proof -
      have "ks ! j \<noteq> k" using d len that by (metis distinct.simps(2) le_less_trans nth_mem)
      then show ?thesis using s nth [OF that] p by simp
    qed
    have "ctl_inv (q', True)" "wq_processing q' = {}" using s True by simp_all
    from Cons.IH [OF this len(1) i(2)] have ih: "fst (worker_round r (fold (\<lambda>r c. snd (worker_round r c)) rounds (q', True)))
      = (if \<exists>j < n. \<exists>e. snd (rounds ! j) = Inl e \<and> 1024 \<le> fail_count q' (wq_pending q' ! j) then None else Some (wq_pending q' ! n))" .
    have z: "\<not> (\<exists>e. outcome = Inl e \<and> 1024 \<le> fail_count q k)" using s True by blast
    have ex: "(\<exists>j < i. \<exists>e. snd ((r1 # rounds) ! j) = Inl e \<and> 1024 \<le> fail_count q (wq_pending q ! j))
      \<longleftrightarrow> (\<exists>j < n. \<exists>e. snd (rounds ! j) = Inl e \<and> 1024 \<le> fail_count q (wq_pending q ! Suc j))"
      unfolding i(1) Ex_less_Suc2 using z by (auto simp: p r)
    show ?thesis unfolding ex using ih w r True i nth cnt by (simp cong: conj_cong)
  qed
qed

theorem waiting_key_served_witness:
  "fst (worker_round (9, Inr None) (fold (\<lambda>r c. snd (worker_round r c)) [(0, Inl (RuntimeError [])), (1, Inr (Some 5))]
      (wq_run [Note ''a'', Note ''b'', Note ''c''] (empty_queue, True)))) = Some ''c''"
proof -
  obtain q w where c: "wq_run [Note ''a'', Note ''b'', Note ''c''] (empty_queue, True) = (q, w)" by fastforce
  have q: "w" "wq_processing q = {}" "wq_pending q = [''a'', ''b'', ''c'']" "wq_failures q = []"
    using c by (auto simp: empty_queue_def wq_add_def enqueue_def Let_def)
  have inv: "ctl_inv (q, True)" using ctl.run_inv [OF empty_queue_inv, of "[Note ''a'', Note ''b'', Note ''c'']"] c q(1) by simp
  have len: "Suc (Suc 0) < length (wq_pending q)" using q by simp
  have "\<not> 1024 \<le> fail_count q k" for k using q(4) by (simp add: fail_count_def)
  with waiting_key_served [OF inv q(2) len, of "[(0, Inl (RuntimeError [])), (1, Inr (Some 5))]" "(9, Inr None)"] q c
  show ?thesis by simp
qed

end
