(* ===== verification/Store_Lists.thy ===== *)
theory Store_Lists
  imports Memory_Store_Props
begin

text \<open>
  How the listings of \<open>MemoryStore\<close> change under its writes.  The controllers read the store with
  \<open>list\<close> and write it with \<open>create\<close>, \<open>delete\<close> and \<open>update_with_retry\<close>; these lemmas are what their
  proofs share.
\<close>

section \<open>Membership\<close>

lemma tables_ok_view:
  "ms_tables_ok st \<Longrightarrow> ms_view st k = Some ob \<Longrightarrow> okey ob = k"
  by (auto simp: ms_tables_ok_def ms_view_def dest!: map_of_SomeD)

lemma tables_ok_key_inj:
  assumes "ms_tables_ok st" "a \<in> snd ` set (ms_objects st)" "b \<in> snd ` set (ms_objects st)" "okey a = okey b"
  shows "a = b"
proof -
  have d: "distinct (map fst (ms_objects st))" using assms(1) by (simp add: ms_tables_ok_def)
  from assms have "(okey a, a) \<in> set (ms_objects st)" "(okey a, b) \<in> set (ms_objects st)"
    by (auto simp: ms_tables_ok_def)
  then show ?thesis using d by (metis eq_key_imp_eq_value)
qed

lemma ms_list_set: "set (ms_list st kind sel) = {ob \<in> snd ` set (ms_objects st). selected kind sel ob}"
  by (auto simp: ms_list_def)

lemma ms_list_iff:
  assumes "ms_tables_ok st"
  shows "ob \<in> set (ms_list st kind sel) \<longleftrightarrow> ms_view st (okey ob) = Some ob \<and> selected kind sel ob"
proof -
  have "ob \<in> snd ` set (ms_objects st) \<longleftrightarrow> ms_view st (okey ob) = Some ob"
    using assms by (force simp: ms_tables_ok_def ms_view_def dest: map_of_SomeD intro: map_of_is_SomeI)
  then show ?thesis by (auto simp: ms_list_set)
qed

lemma ms_list_distinct_keys:
  assumes "ms_tables_ok st"
  shows "distinct (map okey (ms_list st kind sel))"
proof -
  have "map okey (map snd (ms_objects st)) = map fst (ms_objects st)"
    using assms by (auto simp: ms_tables_ok_def intro!: map_cong)
  then have "distinct (map okey (map snd (ms_objects st)))"
    using assms by (metis ms_tables_ok_def)
  then have "distinct (map okey (filter (selected kind sel) (map snd (ms_objects st))))"
    by (rule distinct_map_filter)
  then show ?thesis by (simp add: ms_list_def distinct_map)
qed

section \<open>Writes\<close>

lemma ms_delete_tables_ok: "ms_delete now k st = Inr st' \<Longrightarrow> ms_tables_ok st \<Longrightarrow> ms_tables_ok st'"
  by (auto simp: ms_delete_def Let_def intro: ms_tables_ok_delete split: option.splits)

lemma ms_update_tables_ok: "ms_update ob st = Inr (ob', st') \<Longrightarrow> ms_tables_ok st \<Longrightarrow> ms_tables_ok st'"
  by (auto simp: ms_update_def Let_def intro!: ms_tables_ok_write split: option.splits if_splits)

lemma ms_create_tables_ok: "ms_create now ob st = Inr (ob', st') \<Longrightarrow> ms_tables_ok st \<Longrightarrow> ms_tables_ok st'"
  by (auto simp: ms_create_def Let_def intro!: ms_tables_ok_write split: if_splits)

lemma alist_delete_vals:
  assumes "\<forall>(k', v) \<in> set al. g v = k'"
  shows "map snd (AList.delete k al) = filter (\<lambda>v. g v \<noteq> k) (map snd al)"
  using assms by (induction al) auto

lemma ms_list_delete:
  assumes "ms_delete now k st = Inr st'" "ms_tables_ok st"
  shows "ms_list st' kind sel = filter (\<lambda>ob. okey ob \<noteq> k) (ms_list st kind sel)"
proof -
  have "ms_objects st' = AList.delete k (ms_objects st)"
    using assms(1) by (auto simp: ms_delete_def Let_def split: option.splits)
  moreover have "map snd (AList.delete k (ms_objects st)) = filter (\<lambda>v. okey v \<noteq> k) (map snd (ms_objects st))"
    by (rule alist_delete_vals) (use assms(2) in \<open>auto simp: ms_tables_ok_def\<close>)
  ultimately show ?thesis by (simp add: ms_list_def filter_sort conj_commute)
qed

lemma filter_update_other:
  assumes "map_of al k = Some old" "\<not> P old" "\<not> P v"
  shows "filter P (map snd (AList.update k v al)) = filter P (map snd al)"
  using assms(1) by (induction al) (auto simp: assms(2,3))

lemma ms_update_InrD:
  assumes "ms_update ob st = Inr (ob', st')"
  obtains cur where "ms_view st (okey ob) = Some cur" "orv ob = orv cur"
    "ob' = committed cur ob (ms_revision st + 1)" "ms_revision st' = ms_revision st + 1"
    "ms_objects st' = AList.update (okey ob) ob' (ms_objects st)"
    "ms_view st' = (ms_view st)(okey ob \<mapsto> ob')"
proof -
  from assms obtain cur where c: "map_of (ms_objects st) (okey ob) = Some cur" "orv ob = orv cur"
    by (auto simp: ms_update_def split: option.splits if_splits)
  from assms ms_update_committed [OF c] c show ?thesis
    by (intro that [of cur]) (auto simp: ms_view_def update_conv')
qed

lemma ms_list_update_other:
  assumes "ms_update ob st = Inr (ob', st')" "o_kind ob \<noteq> kind" "kind \<noteq> []"
    "ms_view st (okey ob) = Some cur" "o_kind cur \<noteq> kind"
  shows "ms_list st' kind sel = ms_list st kind sel"
  using assms(1)
proof (rule ms_update_InrD)
  fix c assume c: "ob' = committed c ob (ms_revision st + 1)"
    "ms_objects st' = AList.update (okey ob) ob' (ms_objects st)"
  have "filter (selected kind sel) (map snd (AList.update (okey ob) ob' (ms_objects st)))
      = filter (selected kind sel) (map snd (ms_objects st))"
    by (rule filter_update_other [of _ _ cur]) (use assms c in \<open>auto simp: ms_view_def selected_def\<close>)
  with c show ?thesis by (simp add: ms_list_def)
qed

lemma ms_create_InrD:
  assumes "ms_create now ob st = Inr (ob', st')"
  shows "ms_view st (okey ob) = None \<and> ms_objects st' = ms_objects st @ [(okey ob, ob')] \<and>
    ms_view st' = (ms_view st)(okey ob \<mapsto> ob') \<and>
    ob' = ob\<lparr>o_meta := (o_meta ob)\<lparr>m_rv := ms_revision st + 1, m_created_at :=
             (if m_created_at (o_meta ob) = 0 then now else m_created_at (o_meta ob))\<rparr>\<rparr>"
proof -
  have new: "AList.update k v al = al @ [(k, v)]" if "map_of al k = None" for k :: string and v :: obj and al
    using that by (induction al) (auto split: if_splits)
  have app: "map_of (al @ [(k, v)]) = (map_of al)(k \<mapsto> v)" if "map_of al k = None" for k :: string and v :: obj and al
    using that by (auto simp: fun_eq_iff map_add_def split: option.split)
  from assms show ?thesis
    by (auto simp: ms_create_def Let_def ms_view_def new app simp del: map_of_append split: if_splits)
qed

lemma ms_list_create:
  assumes "ms_create now ob st = Inr (ob', st')"
  shows "mset (ms_list st' kind sel) = mset (ms_list st kind sel) + (if selected kind sel ob' then {#ob'#} else {#})"
  using ms_create_InrD [OF assms] by (auto simp: ms_list_def)

section \<open>Read-modify-write without interference\<close>

lemma ms_retry_quiet_cases:
  assumes "ms_tables_ok st" "keeps_identity mutate"
  shows "(case ms_view st key of
     None \<Rightarrow> ms_retry quiet key mutate attempts st = (Inr None, st)
   | Some cur \<Rightarrow>
       (case mutate cur of
          Inl e \<Rightarrow> ms_retry quiet key mutate attempts st = (Inl e, st)
        | Inr (False, _) \<Rightarrow> ms_retry quiet key mutate attempts st = (Inr (Some cur), st)
        | Inr (True, cand) \<Rightarrow>
            okey cand = key \<and> o_meta cand = o_meta cur \<and>
            (\<exists>st'. ms_update cand st = Inr (committed cur cand (ms_revision st + 1), st') \<and>
               ms_retry quiet key mutate attempts st =
                 (Inr (Some (committed cur cand (ms_revision st + 1))), st'))))"
proof (cases "ms_view st key")
  case None
  then show ?thesis by (simp add: retry_attempts mem.get_eq)
next
  case (Some cur)
  note view = Some
  show ?thesis
  proof (cases "mutate cur")
    case (Inl e)
    with view show ?thesis by (simp add: retry_attempts mem.get_eq)
  next
    case (Inr r)
    obtain b cand where r: "r = (b, cand)" by fastforce
    show ?thesis
    proof (cases b)
      case True
      have k: "okey cand = key" "o_meta cand = o_meta cur"
        using keeps_identityD [OF assms(2), of cur cand] Inr r True tables_ok_view [OF assms(1) view] by auto
      then have "map_of (ms_objects st) (okey cand) = Some cur" "orv cand = orv cur"
        using view by (simp_all add: ms_view_def)
      from ms_update_committed [OF this] obtain st' where
        "ms_update cand st = Inr (committed cur cand (ms_revision st + 1), st')" by blast
      with k view Inr r True show ?thesis by (simp add: retry_attempts mem.get_eq quiet_def)
    qed (use view Inr r in \<open>simp add: retry_attempts mem.get_eq\<close>)
  qed
qed

end
