(* ===== verification/Replica_Set.thy ===== *)
theory Replica_Set
  imports Store_Lists Work_Queue
begin

text \<open>
  \<open>ReplicaSetController\<close> of \<open>modules/orchestrator/orchestrator/workloads.py\<close>.  A reconcile is a pass
  over the store (here \<open>MemoryStore\<close>) in which no other thread writes; \<open>now\<close> is the reading of
  \<open>time.time()\<close>, \<open>clock i\<close> and \<open>uid i\<close> the reading and the identifier used for the \<open>i\<close>-th pod that the
  pass creates.
\<close>

section \<open>Reading the store\<close>

definition json_list :: "string \<Rightarrow> json \<Rightarrow> mem_store \<Rightarrow> obj list res" where
  \<comment> \<open>\<open>store.list(kind, selector)\<close> for a selector taken from a spec\<close>
  "json_list kind selector st =
     (case selector of
        JNull \<Rightarrow> Inr (ms_list st kind None)
      | JObj d \<Rightarrow> Inr (ms_list st kind (Some d))
      | _ \<Rightarrow> if ms_list st kind None = [] then Inr []
            else Inl (AttributeError ''object has no attribute items''))"

definition spec_int :: "string \<Rightarrow> int \<Rightarrow> obj \<Rightarrow> int res" where
  \<comment> \<open>\<open>int(obj.spec.get(k, default))\<close>\<close>
  "spec_int k dflt ob = py_int (dget (o_spec ob) k (JNum (of_int dflt)))"

definition py_num :: "json \<Rightarrow> rat res" where
  \<comment> \<open>a value used in arithmetic\<close>
  "py_num v = (case v of JNum r \<Rightarrow> Inr r | JBool b \<Rightarrow> Inr (of_bool b)
                | _ \<Rightarrow> Inl (TypeError ''unsupported operand''))"

definition is_available :: "rat \<Rightarrow> rat \<Rightarrow> obj \<Rightarrow> bool res" where
  "is_available now min_ready pod =
     (if phase_of pod \<noteq> JStr READY then Inr False
      else if min_ready \<le> 0 then Inr True
      else (let since = dget (o_status pod) ''readySince'' (JNum 0) in
            if \<not> truthy since then Inr False
            else ebind (py_num since) (\<lambda>t. Inr (now - t \<ge> min_ready))))"

section \<open>The controller\<close>

definition rs_interesting :: "event \<Rightarrow> string list" where
  "rs_interesting ev =
     (if o_kind (ev_object ev) = REPLICASET then [ev_key ev]
      else if o_kind (ev_object ev) = POD \<and> m_owner (o_meta (ev_object ev)) \<noteq> []
      then [m_owner (o_meta (ev_object ev))]
      else [])"

definition pad6 :: "string \<Rightarrow> string" where
  "pad6 s = replicate (6 - length s) (CHR ''0'') @ s"

definition pod_name :: "obj \<Rightarrow> rat \<Rightarrow> string" where
  \<comment> \<open>\<open>f"{rs.meta.name}-{int(time.time() * 1e6) % 1_000_000:06d}"\<close>\<close>
  "pod_name rs t = m_name (o_meta rs) @ ''-'' @ pad6 (str_int (trunc (t * 1000000) mod 1000000))"

definition make_pod :: "obj \<Rightarrow> rat \<Rightarrow> string \<Rightarrow> obj res" where
  "make_pod rs t uid =
     ebind (py_dict (dget (o_spec rs) ''template'' (JObj fmempty))) (\<lambda>template.
     ebind (py_dict (dget (o_spec rs) ''selector'' (JObj fmempty))) (\<lambda>selector.
     ebind (py_dict (dget template ''labels'' (JObj fmempty))) (\<lambda>tlabels.
     ebind (py_dict (dget template ''spec'' (JObj fmempty))) (\<lambda>spec.
       Inr ((new_object POD (pod_name rs t) spec (m_namespace (o_meta rs))
               (fmadd selector tlabels) (okey rs) uid t)
            \<lparr>o_status := fmap_of_list [(''phase'', JStr PENDING)]\<rparr>)))))"

definition create_pod :: "rat \<Rightarrow> string \<Rightarrow> obj \<Rightarrow> (unit, mem_store) act" where
  \<comment> \<open>an exception of \<open>store.create\<close> is swallowed\<close>
  "create_pod t uid rs =
     abind (alift (make_pod rs t uid)) (\<lambda>pod st.
       (Inr (), case ms_create t pod st of Inl _ \<Rightarrow> st | Inr (_, st') \<Rightarrow> st'))"

definition delete_pod :: "rat \<Rightarrow> obj \<Rightarrow> (unit, mem_store) act" where
  "delete_pod now pod st =
     (case ms_delete now (okey pod) st of
        Inl (NotFoundError _) \<Rightarrow> (Inr (), st)
      | Inl e \<Rightarrow> (Inl e, st)
      | Inr st' \<Rightarrow> (Inr (), st'))"

definition surplus_pods :: "int \<Rightarrow> obj list \<Rightarrow> obj list" where
  "surplus_pods desired alive =
     take (nat (int (length alive) - desired))
       (sort_key (\<lambda>p. (is_ready p, m_created_at (o_meta p))) alive)"

definition rs_status :: "nat \<Rightarrow> nat \<Rightarrow> mutator" where
  "rs_status alive ready ob =
     (let status = fmap_of_list [(''replicas'', JNum (of_nat alive)), (''readyReplicas'', JNum (of_nat ready)),
                                 (''observedGeneration'', JNum (of_int (m_generation (o_meta ob))))]
      in Inr (if o_status ob = status then (False, ob) else (True, ob\<lparr>o_status := status\<rparr>)))"

definition owned_pods :: "obj \<Rightarrow> mem_store \<Rightarrow> obj list res" where
  "owned_pods rs st =
     ebind (json_list POD (dget (o_spec rs) ''selector'' (JObj fmempty)) st)
       (\<lambda>ps. Inr (filter (\<lambda>p. m_owner (o_meta p) = okey rs) ps))"

definition rs_resize ::
  "rat \<Rightarrow> (nat \<Rightarrow> rat) \<Rightarrow> (nat \<Rightarrow> string) \<Rightarrow> int \<Rightarrow> obj list \<Rightarrow> obj \<Rightarrow> (unit, mem_store) act" where
  "rs_resize now clock uid desired alive rs =
     (if int (length alive) < desired then
        afold (\<lambda>i _. create_pod (clock i) (uid i) rs) [0 ..< nat (desired - int (length alive))] ()
      else if int (length alive) > desired then
        afold (\<lambda>p _. delete_pod now p) (surplus_pods desired alive) ()
      else aret ())"

definition rs_reconcile ::
  "rat \<Rightarrow> (nat \<Rightarrow> rat) \<Rightarrow> (nat \<Rightarrow> string) \<Rightarrow> string \<Rightarrow> (rat option, mem_store) act" where
  "rs_reconcile now clock uid key st0 =
     (case ms_get st0 key of
        Inl e \<Rightarrow> (Inr None, st0)
      | Inr rs \<Rightarrow>
          if o_kind rs \<noteq> REPLICASET then (Inr None, st0)
          else abind (alift (spec_int ''replicas'' 0 rs)) (\<lambda>desired.
               abind (\<lambda>st. (owned_pods rs st, st)) (\<lambda>pods.
                 let alive = filter (\<lambda>p. \<not> terminal p) pods; ready = filter is_ready alive in
                 abind (rs_resize now clock uid desired alive rs) (\<lambda>_.
                 abind (ms_retry quiet key (rs_status (length alive) (length ready)) attempts) (\<lambda>_.
                   aret None)))) st0)"

end
