(* ===== verification/Replica_Set_Props.thy ===== *)
theory Replica_Set_Props
  imports Replica_Set
begin

text \<open>
  A reconcile of a ReplicaSet brings the number of its live pods to the requested one in one pass,
  in both directions, never removes a ready pod while an unready one is left, and writes nothing
  when there is nothing to do.
\<close>

section \<open>The loops\<close>

lemma delete_pod_ok:
  assumes "ms_tables_ok st"
  obtains st' where "delete_pod now p st = (Inr (), st')" "ms_tables_ok st'"
    "\<And>kind sel. ms_list st' kind sel = filter (\<lambda>ob. okey ob \<noteq> okey p) (ms_list st kind sel)"
    "\<And>k. k \<noteq> okey p \<Longrightarrow> ms_view st' k = ms_view st k"
proof (cases "ms_view st (okey p)")
  case None
  then have "delete_pod now p st = (Inr (), st)"
    by (simp add: delete_pod_def ms_delete_def ms_view_def)
  moreover have "filter (\<lambda>ob. okey ob \<noteq> okey p) (ms_list st kind sel) = ms_list st kind sel" for kind sel
    using None ms_list_iff [OF assms] by (intro filter_True) fastforce
  ultimately show ?thesis using assms by (intro that [of st]) simp_all
next
  case (Some cur)
  then obtain st' where d: "ms_delete now (okey p) st = Inr st'" "ms_view st' = (ms_view st)(okey p := None)"
    using mem.del_present [of st "okey p" cur now] by blast
  then have "delete_pod now p st = (Inr (), st')" by (simp add: delete_pod_def)
  with d show ?thesis
    by (intro that [of st']) (simp_all add: ms_delete_tables_ok [OF d(1) assms] ms_list_delete [OF d(1) assms])
qed

lemma delete_loop:
  assumes "ms_tables_ok st"
  shows "\<exists>st'. afold (\<lambda>p _. delete_pod now p) ps () st = (Inr (), st') \<and> ms_tables_ok st' \<and>
    (\<forall>kind sel. ms_list st' kind sel = filter (\<lambda>ob. okey ob \<notin> okey ` set ps) (ms_list st kind sel)) \<and>
    (\<forall>k. k \<notin> okey ` set ps \<longrightarrow> ms_view st' k = ms_view st k)"
  using assms
proof (induction ps arbitrary: st)
  case (Cons p ps)
  obtain st1 where d: "delete_pod now p st = (Inr (), st1)" "ms_tables_ok st1"
    "\<And>kind sel. ms_list st1 kind sel = filter (\<lambda>ob. okey ob \<noteq> okey p) (ms_list st kind sel)"
    "\<And>k. k \<noteq> okey p \<Longrightarrow> ms_view st1 k = ms_view st k"
    by (rule delete_pod_ok [OF Cons.prems, of now p]) blast
  obtain st' where "afold (\<lambda>p _. delete_pod now p) ps () st1 = (Inr (), st')" "ms_tables_ok st'"
    "\<forall>kind sel. ms_list st' kind sel = filter (\<lambda>ob. okey ob \<notin> okey ` set ps) (ms_list st1 kind sel)"
    "\<forall>k. k \<notin> okey ` set ps \<longrightarrow> ms_view st' k = ms_view st1 k"
    using Cons.IH [OF d(2)] by blast
  with d show ?case
    by (intro exI [of _ st']) (auto simp: conj_commute intro!: filter_cong)
qed (simp add: aret_def)

lemma owned_pods_filter:
  assumes "owned_pods rs st = Inr pods"
    "\<And>kind sel. ms_list st' kind sel = filter P (ms_list st kind sel)"
  shows "owned_pods rs st' = Inr (filter P pods)"
proof (cases "dget (o_spec rs) ''selector'' (JObj fmempty)")
  case (JObj d)
  with assms show ?thesis by (auto simp: owned_pods_def json_list_def ebind_Inr_iff conj_commute)
next
  case JNull
  with assms show ?thesis by (auto simp: owned_pods_def json_list_def ebind_Inr_iff conj_commute)
qed (use assms in \<open>auto simp: owned_pods_def json_list_def ebind_Inr_iff split: if_splits\<close>)

lemma owned_pods_cong:
  assumes "\<And>sel. ms_list st' POD sel = ms_list st POD sel"
  shows "owned_pods rs st' = owned_pods rs st"
  by (simp add: owned_pods_def json_list_def assms split: json.split)

lemma rs_status_keeps: "keeps_identity (rs_status a r)"
  by (auto simp: keeps_identity_def rs_status_def Let_def split: if_splits)

text \<open>The status write at the end leaves the pods alone.\<close>

lemma rs_status_write:
  assumes "ms_tables_ok st" "ms_view st key = Some rs" "o_kind rs = REPLICASET"
  shows "\<exists>r st'. ms_retry quiet key (rs_status a b) attempts st = (Inr r, st') \<and> ms_tables_ok st' \<and>
    (\<forall>sel. ms_list st' POD sel = ms_list st POD sel) \<and>
    (\<exists>rs'. ms_view st' key = Some rs' \<and> o_spec rs' = o_spec rs \<and>
       o_status rs' = fmap_of_list [(''replicas'', JNum (of_nat a)), (''readyReplicas'', JNum (of_nat b)),
                                    (''observedGeneration'', JNum (of_int (m_generation (o_meta rs))))])"
proof (cases "fst (projr (rs_status a b rs))")
  case False
  then have m: "rs_status a b rs = Inr (False, rs)" "o_status rs = fmap_of_list [(''replicas'', JNum (of_nat a)), (''readyReplicas'', JNum (of_nat b)),
                                    (''observedGeneration'', JNum (of_int (m_generation (o_meta rs))))]"
    by (auto simp: rs_status_def Let_def split: if_splits)
  have "ms_retry quiet key (rs_status a b) attempts st = (Inr (Some rs), st)"
    using ms_retry_quiet_cases [OF assms(1) rs_status_keeps, of key a b] assms(2) m by simp
  with assms m show ?thesis by auto
next
  case True
  define cand where "cand = rs\<lparr>o_status := fmap_of_list [(''replicas'', JNum (of_nat a)), (''readyReplicas'', JNum (of_nat b)),
                                    (''observedGeneration'', JNum (of_int (m_generation (o_meta rs))))]\<rparr>"
  from True have m: "rs_status a b rs = Inr (True, cand)"
    by (auto simp: rs_status_def Let_def cand_def split: if_splits)
  obtain st' where u: "ms_update cand st = Inr (committed rs cand (ms_revision st + 1), st')"
    "ms_retry quiet key (rs_status a b) attempts st = (Inr (Some (committed rs cand (ms_revision st + 1))), st')"
    "okey cand = key"
    using ms_retry_quiet_cases [OF assms(1) rs_status_keeps, of key a b] assms(2) m by auto
  have "ms_list st' POD sel = ms_list st POD sel" for sel
    by (rule ms_list_update_other [OF u(1)]) (use assms u in \<open>auto simp: cand_def\<close>)
  moreover have "ms_view st' key = Some (committed rs cand (ms_revision st + 1))"
    using u by (auto elim: ms_update_InrD)
  ultimately show ?thesis using u ms_update_tables_ok [OF u(1) assms(1)]
    by (auto simp: cand_def)
qed

section \<open>Which pods go\<close>

lemma sorted_by_flag:
  assumes "sorted (map (\<lambda>p. (r p :: bool, c p :: rat)) xs)"
  shows "xs = filter (\<lambda>p. \<not> r p) xs @ filter r xs"
  using assms
proof (induction xs)
  case (Cons x xs)
  show ?case
  proof (cases "r x")
    case True
    with Cons.prems have "\<forall>y \<in> set xs. r y" by (auto simp: less_eq_prod_def less_bool_def)
    then have "filter (\<lambda>p. \<not> r p) xs = []" "filter r xs = xs" by auto
    with True show ?thesis by simp
  next
    case False
    with Cons show ?thesis by simp
  qed
qed simp

lemma surplus_props:
  fixes desired :: int
  assumes "distinct (map okey alive)" "0 \<le> desired" "desired \<le> int (length alive)"
  defines "K \<equiv> okey ` set (surplus_pods desired alive)"
  shows "int (length (filter (\<lambda>p. okey p \<notin> K) alive)) = desired"
    "int (length (filter (\<lambda>p. is_ready p \<and> okey p \<notin> K) alive)) = min desired (int (length (filter is_ready alive)))"
proof -
  define n where "n = nat (int (length alive) - desired)"
  define xs where "xs = sort_key (\<lambda>p. (is_ready p, m_created_at (o_meta p))) alive"
  have ms: "mset xs = mset alive" by (simp add: xs_def)
  have d: "distinct (map okey xs)"
    using assms(1) ms by (metis mset_map distinct_count_atmost_1 mset_eq_imp_distinct_iff)
  have len: "length xs = length alive" by (simp add: xs_def)
  have K: "K = okey ` set (take n xs)" by (simp add: K_def surplus_pods_def n_def xs_def)
  have out: "filter (\<lambda>p. okey p \<notin> K) xs = drop n xs"
  proof -
    have "distinct (map okey (take n xs @ drop n xs))" using d by simp
    then have "\<forall>p \<in> set (drop n xs). okey p \<notin> K" unfolding K map_append distinct_append by auto
    moreover have "\<forall>p \<in> set (take n xs). okey p \<in> K" by (simp add: K)
    ultimately have "filter (\<lambda>p. okey p \<notin> K) (take n xs @ drop n xs) = drop n xs"
      unfolding filter_append by simp
    then show ?thesis by simp
  qed
  have cnt: "length (filter P alive) = length (filter P xs)" for P
    using ms by (metis mset_filter size_mset)
  have dn: "n \<le> length xs" "int (length xs) - int n = desired" using assms(2,3) len by (auto simp: n_def)
  show "int (length (filter (\<lambda>p. okey p \<notin> K) alive)) = desired"
    unfolding cnt out using dn by simp
  have sp: "xs = filter (\<lambda>p. \<not> is_ready p) xs @ filter is_ready xs"
    by (rule sorted_by_flag [where c = "\<lambda>p. m_created_at (o_meta p)"]) (simp add: xs_def)
  define u where "u = length (filter (\<lambda>p. \<not> is_ready p) xs)"
  have lu: "length xs = u + length (filter is_ready xs)"
    by (subst sp) (simp add: u_def)
  have "filter is_ready (drop n xs) = drop (n - u) (filter is_ready xs)"
  proof -
    have "drop n xs = drop n (filter (\<lambda>p. \<not> is_ready p) xs) @ drop (n - u) (filter is_ready xs)"
      by (subst sp) (simp add: u_def)
    moreover have "filter is_ready (drop n (filter (\<lambda>p. \<not> is_ready p) xs)) = []"
      by (auto simp: filter_empty_conv dest: in_set_dropD)
    moreover have "filter is_ready (drop (n - u) (filter is_ready xs)) = drop (n - u) (filter is_ready xs)"
      by (auto simp: filter_id_conv dest: in_set_dropD)
    ultimately show ?thesis by (metis append_Nil filter_append)
  qed
  then have "length (filter is_ready (drop n xs)) = length (filter is_ready xs) - (n - u)" by simp
  moreover have "filter (\<lambda>p. is_ready p \<and> okey p \<notin> K) xs = filter is_ready (drop n xs)"
    unfolding out [symmetric] by (simp add: conj_commute)
  ultimately show "int (length (filter (\<lambda>p. is_ready p \<and> okey p \<notin> K) alive)) =
      min desired (int (length (filter is_ready alive)))"
    unfolding cnt using dn lu by auto
qed

section \<open>A pass of the controller\<close>

definition live :: "obj list \<Rightarrow> obj list" where
  "live ps = filter (\<lambda>p. \<not> terminal p) ps"

lemma pod_key_other:
  assumes "o_kind p = POD" "okey q = okey p"
  shows "o_kind q \<noteq> REPLICASET"
  using assms by (auto simp: okey_def)

lemma owned_pods_pod:
  assumes "owned_pods rs st = Inr pods"
  shows "\<forall>p \<in> set pods. o_kind p = POD" "\<exists>sel. set pods \<subseteq> set (ms_list st POD sel)"
    "ms_tables_ok st \<Longrightarrow> distinct (map okey pods)"
proof -
  obtain ps where ps: "json_list POD (dget (o_spec rs) ''selector'' (JObj fmempty)) st = Inr ps"
    "pods = filter (\<lambda>p. m_owner (o_meta p) = okey rs) ps"
    using assms by (auto simp: owned_pods_def ebind_Inr_iff)
  then obtain sel where sel: "ps = ms_list st POD sel \<or> ps = []"
    by (auto simp: json_list_def split: json.splits if_splits)
  then show "\<exists>sel. set pods \<subseteq> set (ms_list st POD sel)" using ps(2) by auto
  from sel show "\<forall>p \<in> set pods. o_kind p = POD"
    using ps(2) by (auto simp: ms_list_set selected_def)
  show "distinct (map okey pods)" if "ms_tables_ok st"
    using sel ps(2) ms_list_distinct_keys [OF that] by (auto intro: distinct_map_filter)
qed

lemma rs_reconcile_split:
  assumes "ms_view st key = Some rs" "o_kind rs = REPLICASET" "spec_int ''replicas'' 0 rs = Inr desired"
    "owned_pods rs st = Inr pods"
  shows "rs_reconcile now clock uid key st =
     abind (rs_resize now clock uid desired (live pods) rs) (\<lambda>_.
     abind (ms_retry quiet key (rs_status (length (live pods)) (length (filter is_ready (live pods)))) attempts)
       (\<lambda>_. aret None)) st"
  using assms by (simp add: rs_reconcile_def mem.get_eq Let_def live_def abind_def)

lemma make_pod_fields:
  "make_pod rs t uid = Inr pod \<Longrightarrow>
     o_kind pod = POD \<and> m_owner (o_meta pod) = okey rs \<and> \<not> terminal pod"
  by (auto simp: make_pod_def ebind_Inr_iff new_object_def terminal_def phase_of_def)

text \<open>
  C13: scaling down.  When a ReplicaSet owns at least as many live pods as it asks for, one pass
  leaves exactly the requested number, all of them pods it had before, and of the ready ones as many
  as the request allows: no ready pod is removed while an unready one is left.  The status records
  the counts the pass read.
\<close>

theorem replicaset_scale_down:
  assumes "ms_tables_ok st" "ms_view st key = Some rs" "o_kind rs = REPLICASET"
    "spec_int ''replicas'' 0 rs = Inr desired" "0 \<le> desired"
    "owned_pods rs st = Inr pods" "desired \<le> int (length (live pods))"
  shows "\<exists>st' pods'. rs_reconcile now clock uid key st = (Inr None, st') \<and> owned_pods rs st' = Inr pods' \<and>
    set pods' \<subseteq> set pods \<and> int (length (live pods')) = desired \<and>
    int (length (filter is_ready (live pods'))) = min desired (int (length (filter is_ready (live pods)))) \<and>
    ms_tables_ok st'"
proof -
  define ps where "ps = (if int (length (live pods)) > desired then surplus_pods desired (live pods) else [])"
  have resize: "rs_resize now clock uid desired (live pods) rs = afold (\<lambda>p _. delete_pod now p) ps ()"
    using assms(7) by (auto simp: rs_resize_def ps_def)
  obtain st1 where d: "afold (\<lambda>p _. delete_pod now p) ps () st = (Inr (), st1)" "ms_tables_ok st1"
    "\<And>kind sel. ms_list st1 kind sel = filter (\<lambda>ob. okey ob \<notin> okey ` set ps) (ms_list st kind sel)"
    "\<forall>k. k \<notin> okey ` set ps \<longrightarrow> ms_view st1 k = ms_view st k"
    using delete_loop [OF assms(1), of now ps] by blast
  have "set ps \<subseteq> set (live pods)"
    unfolding ps_def surplus_pods_def by (auto dest: in_set_takeD)
  then have "\<forall>p \<in> set ps. o_kind p = POD"
    using owned_pods_pod(1) [OF assms(6)] by (auto simp: live_def)
  then have "key \<notin> okey ` set ps"
    using pod_key_other assms(3) tables_ok_view [OF assms(1,2)] by fastforce
  then have "ms_view st1 key = Some rs" using d(4) assms(2) by simp
  from rs_status_write [OF d(2) this assms(3)] obtain r st' where
    w: "ms_retry quiet key (rs_status (length (live pods)) (length (filter is_ready (live pods)))) attempts st1 = (Inr r, st')"
    "ms_tables_ok st'" "\<And>sel. ms_list st' POD sel = ms_list st1 POD sel" by blast
  have run: "rs_reconcile now clock uid key st = (Inr None, st')"
    unfolding rs_reconcile_split [OF assms(2,3,4,6)] resize using d(1) w(1) by simp
  define pods' where "pods' = filter (\<lambda>ob. okey ob \<notin> okey ` set ps) pods"
  have owned: "owned_pods rs st' = Inr pods'"
    unfolding owned_pods_cong [OF w(3)] pods'_def by (rule owned_pods_filter [OF assms(6) d(3)])
  have dk: "distinct (map okey (live pods))"
    using owned_pods_pod(3) [OF assms(6,1)] by (simp add: live_def distinct_map_filter)
  have live': "live pods' = filter (\<lambda>p. okey p \<notin> okey ` set ps) (live pods)"
    by (simp add: live_def pods'_def conj_commute)
  have "int (length (live pods')) = desired \<and> int (length (filter is_ready (live pods'))) =
      min desired (int (length (filter is_ready (live pods))))"
  proof (cases "int (length (live pods)) > desired")
    case True
    then have "ps = surplus_pods desired (live pods)" by (simp add: ps_def)
    with surplus_props [OF dk assms(5,7)] show ?thesis by (simp add: live' conj_commute)
  next
    case False
    with assms(7) have "ps = []" "int (length (live pods)) = desired" by (simp_all add: ps_def)
    moreover have "int (length (filter is_ready (live pods))) \<le> int (length (live pods))" by simp
    ultimately show ?thesis by (simp add: live' min_absorb2)
  qed
  moreover have "set pods' \<subseteq> set pods" by (auto simp: pods'_def)
  ultimately show ?thesis using run owned w(2) by blast
qed

text \<open>
  Scaling up.  When fewer live pods are owned than requested and the names of the new pods are
  fresh and their labels satisfy the selector, one pass keeps every pod and ends with exactly the
  requested number of live ones.
\<close>

theorem replicaset_scale_up:
  assumes "ms_tables_ok st" "ms_view st key = Some rs" "o_kind rs = REPLICASET"
    "spec_int ''replicas'' 0 rs = Inr desired" "dget (o_spec rs) ''selector'' (JObj fmempty) = JObj sel"
    "owned_pods rs st = Inr pods" "int (length (live pods)) < desired"
    "\<And>i. int i < desired - int (length (live pods)) \<Longrightarrow> make_pod rs (clock i) (uid i) = Inr (mk i) \<and>
        ms_view st (okey (mk i)) = None \<and> matches (mk i) sel"
    "inj_on (\<lambda>i. okey (mk i)) {i. int i < desired - int (length (live pods))}"
  shows "\<exists>st' pods'. rs_reconcile now clock uid key st = (Inr None, st') \<and> owned_pods rs st' = Inr pods' \<and>
    set pods \<subseteq> set pods' \<and> int (length (live pods')) = desired \<and> ms_tables_ok st'"
proof -
  define m where "m = nat (desired - int (length (live pods)))"
  have lt: "i < m \<longleftrightarrow> int i < desired - int (length (live pods))" for i
    using assms(7) by (auto simp: m_def)
  have resize: "rs_resize now clock uid desired (live pods) rs =
      afold (\<lambda>i _. create_pod (clock i) (uid i) rs) [0 ..< m] ()"
    using assms(7) by (simp add: rs_resize_def m_def)
  have fresh: "make_pod rs (clock i) (uid i) = Inr (mk i)" "ms_view st (okey (mk i)) = None" "matches (mk i) sel"
    if "i < m" for i using assms(8) that lt by blast+
  have mk: "o_kind (mk i) = POD" "m_owner (o_meta (mk i)) = okey rs" "\<not> terminal (mk i)" if "i < m" for i
    using make_pod_fields [OF fresh(1) [OF that]] by simp_all
  have inj: "okey (mk i) \<noteq> okey (mk j)" if "i < m" "j < m" "i \<noteq> j" for i j
    using assms(9) that lt unfolding inj_on_def by blast
  have loop: "\<exists>st1 new. afold (\<lambda>i _. create_pod (clock i) (uid i) rs) [k ..< m] () st0 = (Inr (), st1) \<and>
      ms_tables_ok st1 \<and> ms_view st1 key = ms_view st0 key \<and>
      mset (ms_list st1 POD (Some sel)) = mset (ms_list st0 POD (Some sel)) + new \<and> size new = m - k \<and>
      (\<forall>p \<in># new. m_owner (o_meta p) = okey rs \<and> \<not> terminal p)"
    if "k \<le> m" "ms_tables_ok st0" "\<forall>i. k \<le> i \<and> i < m \<longrightarrow> ms_view st0 (okey (mk i)) = None" for k st0
    using that
  proof (induction "m - k" arbitrary: k st0)
    case 0
    then show ?case by (intro exI [of _ st0] exI [of _ "{#}"]) (simp add: aret_def)
  next
    case (Suc d)
    then have k: "k < m" by simp
    then have "ms_view st0 (okey (mk k)) = None" using Suc.prems(3) by simp
    then obtain ob st1 where c: "ms_create (clock k) (mk k) st0 = Inr (ob, st1)"
      using mem.create_fresh by blast
    note cd = ms_create_InrD [OF c]
    have one: "create_pod (clock k) (uid k) rs st0 = (Inr (), st1)"
      using fresh(1) [OF k] c by (simp add: create_pod_def abind_def)
    have sel: "selected POD (Some sel) ob" "m_owner (o_meta ob) = okey rs" "\<not> terminal ob"
      using mk [OF k] fresh(3) [OF k] cd by (auto simp: selected_def matches_def terminal_def phase_of_def)
    have keyne: "key \<noteq> okey (mk k)"
      using pod_key_other [OF mk(1) [OF k]] assms(3) tables_ok_view [OF assms(1,2)] by metis
    have still: "\<forall>i. Suc k \<le> i \<and> i < m \<longrightarrow> ms_view st1 (okey (mk i)) = None"
    proof (intro allI impI)
      fix i assume i: "Suc k \<le> i \<and> i < m"
      then have "okey (mk i) \<noteq> okey (mk k)" using inj [of i k] k by simp
      with cd Suc.prems(3) i show "ms_view st1 (okey (mk i)) = None" by simp
    qed
    have d: "d = m - Suc k" using Suc.hyps(2) by simp
    obtain st2 new where ih: "afold (\<lambda>i _. create_pod (clock i) (uid i) rs) [Suc k ..< m] () st1 = (Inr (), st2)"
      "ms_tables_ok st2" "ms_view st2 key = ms_view st1 key"
      "mset (ms_list st2 POD (Some sel)) = mset (ms_list st1 POD (Some sel)) + new" "size new = m - Suc k"
      "\<forall>p \<in># new. m_owner (o_meta p) = okey rs \<and> \<not> terminal p"
      using Suc.hyps(1) [OF d Suc_leI [OF k] ms_create_tables_ok [OF c Suc.prems(2)] still] by blast
    have "afold (\<lambda>i _. create_pod (clock i) (uid i) rs) [k ..< m] () st0 = (Inr (), st2)"
      using k one ih(1) by (simp add: upt_conv_Cons)
    moreover have "mset (ms_list st2 POD (Some sel)) = mset (ms_list st0 POD (Some sel)) + add_mset ob new"
      using ih(4) ms_list_create [OF c, of POD "Some sel"] sel(1) by simp
    moreover have "ms_view st2 key = ms_view st0 key" using ih(3) cd keyne by simp
    ultimately show ?case using ih k sel by (intro exI [of _ st2] exI [of _ "add_mset ob new"]) auto
  qed
  obtain st1 new where l: "afold (\<lambda>i _. create_pod (clock i) (uid i) rs) [0 ..< m] () st = (Inr (), st1)"
      "ms_tables_ok st1" "ms_view st1 key = Some rs"
      "mset (ms_list st1 POD (Some sel)) = mset (ms_list st POD (Some sel)) + new" "size new = m"
      "\<forall>p \<in># new. m_owner (o_meta p) = okey rs \<and> \<not> terminal p"
    using loop [of 0 st] assms(1,2) fresh(2) by auto
  from rs_status_write [OF l(2,3) assms(3)] obtain r st' where
    w: "ms_retry quiet key (rs_status (length (live pods)) (length (filter is_ready (live pods)))) attempts st1 = (Inr r, st')"
    "ms_tables_ok st'" "\<And>sel. ms_list st' POD sel = ms_list st1 POD sel" by blast
  have run: "rs_reconcile now clock uid key st = (Inr None, st')"
    unfolding rs_reconcile_split [OF assms(2,3,4,6)] resize using l(1) w(1) by simp
  have own: "owned_pods rs s = Inr (filter (\<lambda>p. m_owner (o_meta p) = okey rs) (ms_list s POD (Some sel)))" for s
    by (simp add: owned_pods_def json_list_def assms(5))
  define pods' where "pods' = filter (\<lambda>p. m_owner (o_meta p) = okey rs) (ms_list st' POD (Some sel))"
  have m': "mset pods' = mset pods + new"
  proof -
    have "filter_mset (\<lambda>p. m_owner (o_meta p) = okey rs) new = new"
      using l(6) by (intro filter_mset_eq_conv [THEN iffD2]) auto
    moreover have "pods = filter (\<lambda>p. m_owner (o_meta p) = okey rs) (ms_list st POD (Some sel))"
      using assms(6) own by simp
    ultimately show ?thesis by (simp add: pods'_def w(3) l(4) mset_filter)
  qed
  have "mset (live pods') = mset (live pods) + new"
  proof -
    have "filter_mset (\<lambda>p. \<not> terminal p) new = new"
      using l(6) by (intro filter_mset_eq_conv [THEN iffD2]) auto
    then show ?thesis by (simp add: live_def mset_filter m')
  qed
  then have "length (live pods') = length (live pods) + m" using l(5) by (metis size_mset size_union)
  then have "int (length (live pods')) = desired" using assms(7) by (simp add: m_def)
  moreover have "set pods \<subseteq> set pods'" using m' by (metis mset_subset_eq_add_left set_mset_mono set_mset_mset)
  moreover have "owned_pods rs st' = Inr pods'" by (simp add: own pods'_def)
  ultimately show ?thesis using run w(2) by blast
qed

text \<open>
  A converged ReplicaSet is left alone.  When the number of live pods is the requested one and the
  status already says so, a pass does not write to the store, so it wakes no watcher.
\<close>

theorem replicaset_steady:
  assumes "ms_tables_ok st" "ms_view st key = Some rs" "o_kind rs = REPLICASET"
    "spec_int ''replicas'' 0 rs = Inr desired" "owned_pods rs st = Inr pods"
    "int (length (live pods)) = desired"
    "o_status rs = fmap_of_list [(''replicas'', JNum (of_nat (length (live pods)))),
       (''readyReplicas'', JNum (of_nat (length (filter is_ready (live pods))))),
       (''observedGeneration'', JNum (of_int (m_generation (o_meta rs))))]"
  shows "rs_reconcile now clock uid key st = (Inr None, st)"
proof -
  let ?m = "rs_status (length (live pods)) (length (filter is_ready (live pods)))"
  have m: "?m rs = Inr (False, rs)"
    using assms(7) by (simp add: rs_status_def)
  have "ms_retry quiet key ?m attempts st = (Inr (Some rs), st)"
    using ms_retry_quiet_cases [OF assms(1) rs_status_keeps, of key "length (live pods)"
        "length (filter is_ready (live pods))"] assms(2) m by simp
  then show ?thesis
    using assms(6) by (simp add: rs_reconcile_split [OF assms(2-5)] rs_resize_def)
qed

section \<open>Concrete ReplicaSets\<close>

definition demo_rs :: "int \<Rightarrow> dict \<Rightarrow> obj" where
  "demo_rs n status =
     \<lparr>o_kind = REPLICASET,
      o_meta = \<lparr>m_name = ''web'', m_namespace = ''d'', m_uid = ''u'', m_rv = 1, m_generation = 1,
                m_labels = fmempty, m_annotations = fmempty, m_owner = [], m_created_at = 1, m_deleted_at = 0\<rparr>,
      o_spec = fmap_of_list [(''replicas'', JNum (of_int n)), (''selector'', JObj fmempty), (''template'', JObj fmempty)],
      o_status = status\<rparr>"

definition web_pod :: "string \<Rightarrow> int \<Rightarrow> string \<Rightarrow> obj" where
  "web_pod nm rv phase =
     \<lparr>o_kind = POD,
      o_meta = \<lparr>m_name = nm, m_namespace = ''d'', m_uid = ''u'', m_rv = rv, m_generation = 1,
                m_labels = fmempty, m_annotations = fmempty, m_owner = ''ReplicaSet/d/web'',
                m_created_at = of_int rv, m_deleted_at = 0\<rparr>,
      o_spec = fmempty, o_status = fmap_of_list [(''phase'', JStr phase)]\<rparr>"

definition store_of :: "obj list \<Rightarrow> mem_store" where
  "store_of obs = (ms_init 16)\<lparr>ms_objects := map (\<lambda>ob. (okey ob, ob)) obs, ms_revision := int (length obs)\<rparr>"

lemmas demo_rs_simps = demo_rs_def web_pod_def store_of_def ms_init_def okey_def ms_view_def spec_int_def
  owned_pods_def json_list_def ms_list_def selected_def terminal_def is_ready_def phase_of_def live_def

theorem replicaset_steady_witness:
  "rs_reconcile 9 (\<lambda>i. 9) (\<lambda>i. []) ''ReplicaSet/d/web''
     (store_of [demo_rs 1 (fmap_of_list [(''replicas'', JNum 1), (''readyReplicas'', JNum 1),
        (''observedGeneration'', JNum 1)]), web_pod ''a'' 2 READY])
   = (Inr None, store_of [demo_rs 1 (fmap_of_list [(''replicas'', JNum 1), (''readyReplicas'', JNum 1),
        (''observedGeneration'', JNum 1)]), web_pod ''a'' 2 READY])"
  by (rule replicaset_steady [where rs = "demo_rs 1 (fmap_of_list [(''replicas'', JNum 1), (''readyReplicas'', JNum 1),
        (''observedGeneration'', JNum 1)])" and pods = "[web_pod ''a'' 2 READY]" and desired = 1])
    (simp_all add: demo_rs_simps ms_tables_ok_def)

theorem replicaset_scale_down_witness:
  "\<exists>st' pods'. rs_reconcile 9 (\<lambda>i. 9) (\<lambda>i. []) ''ReplicaSet/d/web''
       (store_of [demo_rs 1 fmempty, web_pod ''a'' 2 READY, web_pod ''b'' 3 PENDING]) = (Inr None, st') \<and>
     owned_pods (demo_rs 1 fmempty) st' = Inr pods' \<and> length (filter is_ready (live pods')) = 1"
proof -
  let ?st = "store_of [demo_rs 1 fmempty, web_pod ''a'' 2 READY, web_pod ''b'' 3 PENDING]"
  have pods: "owned_pods (demo_rs 1 fmempty) ?st = Inr [web_pod ''a'' 2 READY, web_pod ''b'' 3 PENDING]"
    by (simp add: demo_rs_simps)
  have "\<exists>st' pods'. rs_reconcile 9 (\<lambda>i. 9) (\<lambda>i. []) ''ReplicaSet/d/web'' ?st = (Inr None, st') \<and>
     owned_pods (demo_rs 1 fmempty) st' = Inr pods' \<and>
     set pods' \<subseteq> set [web_pod ''a'' 2 READY, web_pod ''b'' 3 PENDING] \<and> int (length (live pods')) = 1 \<and>
     int (length (filter is_ready (live pods'))) =
       min 1 (int (length (filter is_ready (live [web_pod ''a'' 2 READY, web_pod ''b'' 3 PENDING])))) \<and> ms_tables_ok st'"
    by (rule replicaset_scale_down [OF _ _ _ _ _ pods])
      (simp_all add: demo_rs_simps ms_tables_ok_def)
  then show ?thesis by (fastforce simp: demo_rs_simps)
qed

theorem replicaset_scale_up_witness:
  "\<exists>st' pods'. rs_reconcile 9 (\<lambda>i. 9) (\<lambda>i. []) ''ReplicaSet/d/web'' (store_of [demo_rs 1 fmempty]) = (Inr None, st') \<and>
     owned_pods (demo_rs 1 fmempty) st' = Inr pods' \<and> int (length (live pods')) = 1"
proof -
  let ?st = "store_of [demo_rs 1 fmempty]"
  define mk where "mk = (\<lambda>i :: nat. projr (make_pod (demo_rs 1 fmempty) 9 []))"
  have mk: "make_pod (demo_rs 1 fmempty) 9 [] = Inr (mk i)" for i
    by (simp add: mk_def make_pod_def demo_rs_def)
  have pods: "owned_pods (demo_rs 1 fmempty) ?st = Inr []" by (simp add: demo_rs_simps)
  have "\<exists>st' pods'. rs_reconcile 9 (\<lambda>i. 9) (\<lambda>i. []) ''ReplicaSet/d/web'' ?st = (Inr None, st') \<and>
     owned_pods (demo_rs 1 fmempty) st' = Inr pods' \<and> set [] \<subseteq> set pods' \<and> int (length (live pods')) = 1 \<and> ms_tables_ok st'"
  proof (rule replicaset_scale_up [OF _ _ _ _ _ pods, where sel = fmempty and mk = mk])
    fix i :: nat
    have "okey (demo_rs 1 fmempty) \<noteq> okey (mk i)"
      using make_pod_fields [OF mk [of i]] pod_key_other [of "mk i" "demo_rs 1 fmempty"] by (auto simp: demo_rs_def)
    then show "make_pod (demo_rs 1 fmempty) 9 [] = Inr (mk i) \<and> ms_view ?st (okey (mk i)) = None \<and> matches (mk i) fmempty"
      using mk by (simp add: ms_view_def store_of_def)
  qed (simp_all add: demo_rs_simps ms_tables_ok_def inj_on_def)
  then show ?thesis by blast
qed

end
