(* ===== verification/Deployment.thy ===== *)
theory Deployment
  imports Replica_Set_Props
begin

text \<open>
  \<open>DeploymentController\<close> and the rollback operations of
  \<open>modules/orchestrator/orchestrator/workloads.py\<close>, statement by statement: the target ReplicaSet for
  the current template, the surge-bounded scale-up, the availability-bounded scale-down, the
  retirement of old ReplicaSets and the status.  Code outside the repository enters as parameters:
  \<open>digest\<close> is \<open>sha256(json.dumps(template)).hexdigest()[:10]\<close>, \<open>dumps\<close> and \<open>loads\<close> are the JSON
  library on the template annotation.
\<close>

section \<open>Auxiliary reads\<close>

abbreviation "REVISION_ANNOTATION \<equiv> ''orchestrator/revision''"
abbreviation "TEMPLATE_ANNOTATION \<equiv> ''orchestrator/template''"
abbreviation "TEMPLATE_HASH_LABEL \<equiv> ''orchestrator/template-hash''"

definition template_hash :: "(json \<Rightarrow> string) \<Rightarrow> json \<Rightarrow> string" where
  "template_hash digest template = digest template"

definition revision_of :: "obj \<Rightarrow> int res" where
  \<comment> \<open>\<open>int(rs.meta.annotations.get(REVISION_ANNOTATION, 0))\<close>\<close>
  "revision_of rs = py_int (dget (m_annotations (o_meta rs)) REVISION_ANNOTATION (JNum 0))"

definition replicas_of :: "obj \<Rightarrow> int res" where
  \<comment> \<open>\<open>int(rs.spec.get("replicas", 0))\<close>\<close>
  "replicas_of rs = spec_int ''replicas'' 0 rs"

definition owned_sets :: "string \<Rightarrow> mem_store \<Rightarrow> obj list res" where
  "owned_sets key st =
     esorted revision_of (filter (\<lambda>rs. m_owner (o_meta rs) = key) (ms_list st REPLICASET None))"

definition esum :: "('a \<Rightarrow> int res) \<Rightarrow> 'a list \<Rightarrow> int res" where
  "esum f xs = ebind (emap f xs) (\<lambda>ns. Inr (sum_list ns))"

definition pods_of :: "obj list \<Rightarrow> obj \<Rightarrow> obj list" where
  \<comment> \<open>\<open>by_owner.get(rs.key, [])\<close>\<close>
  "pods_of pods rs = filter (\<lambda>p. m_owner (o_meta p) = okey rs) pods"

definition available_for :: "rat \<Rightarrow> rat \<Rightarrow> obj list \<Rightarrow> obj \<Rightarrow> int res" where
  "available_for now min_ready pods rs =
     ebind (emap (is_available now min_ready) (pods_of pods rs))
       (\<lambda>bs. Inr (int (length (filter (\<lambda>b. b) bs))))"

definition alive_for :: "obj list \<Rightarrow> obj \<Rightarrow> int" where
  "alive_for pods rs = int (length (filter (\<lambda>p. \<not> terminal p) (pods_of pods rs)))"

definition clamped_available :: "rat \<Rightarrow> rat \<Rightarrow> obj list \<Rightarrow> obj \<Rightarrow> int res" where
  "clamped_available now min_ready pods rs =
     ebind (available_for now min_ready pods rs) (\<lambda>ready.
     ebind (replicas_of rs) (\<lambda>n. Inr (min ready n)))"

section \<open>Events\<close>

definition dp_interesting :: "event \<Rightarrow> string list" where
  "dp_interesting ev =
     (if o_kind (ev_object ev) = DEPLOYMENT then [ev_key ev]
      else if o_kind (ev_object ev) = REPLICASET \<and> m_owner (o_meta (ev_object ev)) \<noteq> []
      then [m_owner (o_meta (ev_object ev))]
      else [])"

section \<open>Writes\<close>

definition scale_mutator :: "int \<Rightarrow> mutator" where
  "scale_mutator n rs =
     ebind (replicas_of rs) (\<lambda>cur.
       Inr (if cur = n then (False, rs)
            else (True, rs\<lparr>o_spec := fmupd ''replicas'' (JNum (of_int n)) (o_spec rs)\<rparr>)))"

definition scale :: "string \<Rightarrow> int \<Rightarrow> (bool, mem_store) act" where
  "scale key n st =
     (case ms_get st key of
        Inl e \<Rightarrow> (Inl e, st)
      | Inr rs \<Rightarrow>
          abind (ms_retry quiet key (scale_mutator n) attempts)
            (\<lambda>_. aret (dget (o_spec rs) ''replicas'' JNull \<noteq> JNum (of_int n))) st)"

definition make_target ::
  "(json \<Rightarrow> string) \<Rightarrow> (json \<Rightarrow> string) \<Rightarrow> rat \<Rightarrow> string \<Rightarrow> obj \<Rightarrow> int \<Rightarrow> json \<Rightarrow> obj res" where
  "make_target digest dumps now uid deployment revision selector =
     (let template = dget (o_spec deployment) ''template'' (JObj fmempty);
          h = template_hash digest template
      in ebind (py_dict template) (\<lambda>tmpl.
         ebind (py_dict selector) (\<lambda>sel.
         ebind (py_dict (dget tmpl ''labels'' (JObj fmempty))) (\<lambda>tlabels.
           let labels = fmupd TEMPLATE_HASH_LABEL (JStr h) sel;
               rs = new_object REPLICASET (m_name (o_meta deployment) @ ''-'' @ h)
                 (fmap_of_list [(''replicas'', JNum 0), (''selector'', JObj labels),
                    (''template'', JObj (fmupd ''labels'' (JObj (fmadd tlabels labels)) tmpl))])
                 (m_namespace (o_meta deployment)) labels (okey deployment) uid now
           in Inr (rs\<lparr>o_meta := (o_meta rs)\<lparr>m_annotations := fmap_of_list
                 [(REVISION_ANNOTATION, JStr (str_int revision)),
                  (TEMPLATE_ANNOTATION, JStr (dumps template))]\<rparr>\<rparr>)))))"

definition ensure_target ::
  "(json \<Rightarrow> string) \<Rightarrow> (json \<Rightarrow> string) \<Rightarrow> rat \<Rightarrow> string \<Rightarrow> obj \<Rightarrow> obj list \<Rightarrow> json \<Rightarrow> (obj, mem_store) act" where
  "ensure_target digest dumps now uid deployment rss selector =
     (let h = template_hash digest (dget (o_spec deployment) ''template'' (JObj fmempty)) in
      case filter (\<lambda>rs. dget (m_labels (o_meta rs)) TEMPLATE_HASH_LABEL JNull = JStr h) rss of
        rs # _ \<Rightarrow> aret rs
      | [] \<Rightarrow>
          abind (alift (emap revision_of rss)) (\<lambda>revs.
          abind (alift (make_target digest dumps now uid deployment (foldl max 0 revs + 1) selector)) (\<lambda>rs st.
            (case ms_create now rs st of
               Inr (ob, st') \<Rightarrow> (Inr ob, st')
             | Inl _ \<Rightarrow> (ms_get st (okey rs), st)))))"

text \<open>The loop of step 2: retire capacity of old ReplicaSets, newest first, while there is surplus.\<close>

fun retire_loop :: "obj list \<Rightarrow> bool \<times> int \<Rightarrow> (bool \<times> int, mem_store) act" where
  "retire_loop [] acc = aret acc"
| "retire_loop (rs # rss) (changed, surplus) =
     (if surplus \<le> 0 then aret (changed, surplus)
      else abind (alift (replicas_of rs)) (\<lambda>current.
        if current = 0 then retire_loop rss (changed, surplus)
        else (let step = min current surplus in
              abind (scale (okey rs) (current - step)) (\<lambda>c.
                retire_loop rss (changed \<or> c, surplus - step)))))"

text \<open>The loop of step 3.\<close>

fun zero_loop :: "obj list \<Rightarrow> bool \<Rightarrow> (bool, mem_store) act" where
  "zero_loop [] changed = aret changed"
| "zero_loop (rs # rss) changed =
     abind (alift (replicas_of rs)) (\<lambda>n.
       if n \<noteq> 0 then abind (scale (okey rs) 0) (\<lambda>c. zero_loop rss (changed \<or> c))
       else zero_loop rss changed)"

section \<open>Status\<close>

definition py_or_now :: "rat \<Rightarrow> json \<Rightarrow> json" where
  \<comment> \<open>\<open>v or time.time()\<close>\<close>
  "py_or_now now v = (if truthy v then v else JNum now)"

definition dp_status :: "rat \<Rightarrow> obj \<Rightarrow> int \<Rightarrow> int \<Rightarrow> bool \<Rightarrow> rat \<Rightarrow> int \<Rightarrow> mutator" where
  "dp_status now target available alive finished deadline generation candidate =
     (if m_generation (o_meta candidate) \<noteq> generation then Inr (False, candidate)
      else
        (let old = o_status candidate;
             previous = dget old ''availableReplicas'' (JNum (- 1));
             started0 = py_or_now now (dget old ''rolloutStartedAt'' JNull);
             progressed0 = py_or_now now (dget old ''lastProgressAt'' JNull);
             progressed1 = (if JNum (of_int available) \<noteq> previous then JNum now else progressed0);
             (started, progressed) = (if finished then (JNum 0, JNum 0) else (started0, progressed1));
             status = fmap_of_list
               [(''replicas'', JNum (of_int alive)), (''availableReplicas'', JNum (of_int available)),
                (''updatedRevision'', dget (m_annotations (o_meta target)) REVISION_ANNOTATION (JStr ''0'')),
                (''observedGeneration'', JNum (of_int (m_generation (o_meta candidate)))),
                (''complete'', JBool finished), (''rolloutStartedAt'', started),
                (''lastProgressAt'', progressed)]
         in ebind (if \<not> finished \<and> truthy progressed
                   then ebind (py_num progressed) (\<lambda>t. Inr (now - t > deadline)) else Inr False)
              (\<lambda>stalled.
                let final = (if stalled then fmupd ''condition'' (JStr ''ProgressDeadlineExceeded'') status
                             else status)
                in Inr (if o_status candidate = final then (False, candidate)
                        else (True, candidate\<lparr>o_status := final\<rparr>)))))"

section \<open>The reconcile pass\<close>

record strategy =
  sg_surge :: int
  sg_unavailable :: int
  sg_min_ready :: rat
  sg_desired :: int

definition read_strategy :: "obj \<Rightarrow> strategy res" where
  \<comment> \<open>the deadline is read in \<open>_write_status\<close>; a bad value raises there\<close>
  "read_strategy deployment =
     ebind (py_dict (dget (o_spec deployment) ''strategy'' (JObj fmempty))) (\<lambda>s.
     ebind (py_int (dget s ''maxSurge'' (JNum 1))) (\<lambda>surge.
     ebind (py_int (dget s ''maxUnavailable'' (JNum 0))) (\<lambda>unavailable.
     ebind (py_float (dget s ''minReadySeconds'' (JNum 0))) (\<lambda>min_ready.
     ebind (spec_int ''replicas'' 0 deployment) (\<lambda>desired.
       Inr \<lparr>sg_surge = surge, sg_unavailable = unavailable, sg_min_ready = min_ready,
            sg_desired = desired\<rparr>)))))"

definition read_deadline :: "obj \<Rightarrow> rat res" where
  "read_deadline deployment =
     ebind (py_dict (dget (o_spec deployment) ''strategy'' (JObj fmempty))) (\<lambda>s.
       py_float (dget s ''progressDeadlineSeconds'' (JNum 30)))"

definition not_target :: "obj \<Rightarrow> obj list \<Rightarrow> obj list" where
  "not_target target rss = filter (\<lambda>rs. m_name (o_meta rs) \<noteq> m_name (o_meta target)) rss"

text \<open>Step 1: scale the target up within \<open>desired + maxSurge\<close>.\<close>

definition step_up :: "strategy \<Rightarrow> obj \<Rightarrow> int \<Rightarrow> int \<Rightarrow> (bool, mem_store) act" where
  "step_up sg target total_requested target_spec =
     (let room = (sg_desired sg + sg_surge sg) - total_requested in
      if room > 0 \<and> target_spec < sg_desired sg
      then scale (okey target) (target_spec + min room (sg_desired sg - target_spec))
      else aret False)"

text \<open>Step 2: scale old ReplicaSets down to the availability floor.\<close>

definition step_down_old :: "rat \<Rightarrow> strategy \<Rightarrow> string \<Rightarrow> obj \<Rightarrow> json \<Rightarrow> (bool \<times> obj list, mem_store) act" where
  "step_down_old now sg key target selector =
     (let floor = max (sg_desired sg - sg_unavailable sg) 0 in
      abind (\<lambda>st. (owned_sets key st, st)) (\<lambda>fresh.
      abind (\<lambda>st. (json_list POD selector st, st)) (\<lambda>fresh_pods.
      abind (alift (esum (clamped_available now (sg_min_ready sg) fresh_pods) fresh)) (\<lambda>total.
      abind (retire_loop (rev (not_target target fresh)) (False, total - floor)) (\<lambda>(changed, _).
        aret (changed, fresh_pods))))))"

definition all_zero :: "obj list \<Rightarrow> bool res" where
  "all_zero rss = ebind (emap replicas_of rss) (\<lambda>ns. Inr (list_all (\<lambda>n. n = 0) ns))"

definition dp_scale_steps ::
  "rat \<Rightarrow> strategy \<Rightarrow> string \<Rightarrow> obj \<Rightarrow> obj list \<Rightarrow> json \<Rightarrow> int \<Rightarrow> (obj list, mem_store) act" where
  \<comment> \<open>steps 1 to 4; returns the pods as read in step 2\<close>
  "dp_scale_steps now sg key target rss selector target_available =
     abind (alift (esum replicas_of rss)) (\<lambda>total_requested.
     abind (alift (replicas_of target)) (\<lambda>target_spec.
     abind (step_up sg target total_requested target_spec) (\<lambda>_.
     abind (step_down_old now sg key target selector) (\<lambda>(_, fresh_pods).
     abind (if target_available \<ge> sg_desired sg then zero_loop (not_target target rss) False
            else aret False) (\<lambda>_.
     abind (if target_spec > sg_desired sg then scale (okey target) (sg_desired sg)
            else aret False) (\<lambda>_.
       aret fresh_pods))))))"

definition dp_reconcile ::
  "(json \<Rightarrow> string) \<Rightarrow> (json \<Rightarrow> string) \<Rightarrow> rat \<Rightarrow> string \<Rightarrow> string \<Rightarrow> (rat option, mem_store) act" where
  "dp_reconcile digest dumps now uid key st0 =
     (case ms_get st0 key of
        Inl e \<Rightarrow> (Inr None, st0)
      | Inr deployment \<Rightarrow>
          if o_kind deployment \<noteq> DEPLOYMENT then (Inr None, st0)
          else
            (let selector = dget (o_spec deployment) ''selector'' (JObj fmempty) in
             abind (alift (read_strategy deployment)) (\<lambda>sg.
             abind (\<lambda>st. (owned_sets key st, st)) (\<lambda>before.
             abind (ensure_target digest dumps now uid deployment before selector) (\<lambda>target.
             abind (\<lambda>st. (owned_sets key st, st)) (\<lambda>rss.
             abind (\<lambda>st. (json_list POD selector st, st)) (\<lambda>pods.
             abind (alift (esum (available_for now (sg_min_ready sg) pods) rss)) (\<lambda>total_available.
             abind (alift (available_for now (sg_min_ready sg) pods target)) (\<lambda>target_available.
             abind (dp_scale_steps now sg key target rss selector target_available) (\<lambda>fresh_pods.
             abind (alift (all_zero (not_target target rss))) (\<lambda>zeros.
               let remaining = sum_list (map (alive_for fresh_pods) (not_target target rss));
                   finished = (target_available \<ge> sg_desired sg \<and> zeros \<and> remaining = 0);
                   total_alive = sum_list (map (alive_for pods) rss)
               in abind (alift (read_deadline deployment)) (\<lambda>deadline.
                  abind (ms_retry quiet (okey deployment)
                           (dp_status now target total_available total_alive finished deadline
                              (m_generation (o_meta deployment))) attempts) (\<lambda>_.
                    aret (if finished then None else Some (1 / 10))))))))))))) st0))"

section \<open>Rollback\<close>

definition revisions :: "mem_store \<Rightarrow> string \<Rightarrow> (int \<times> obj) list res" where
  "revisions st key =
     ebind (emap (\<lambda>rs. ebind (revision_of rs) (\<lambda>r. Inr (r, rs)))
              (filter (\<lambda>rs. m_owner (o_meta rs) = key) (ms_list st REPLICASET None)))
       (\<lambda>out. Inr (sort_key fst out))"

definition rollback_choice :: "string \<Rightarrow> int option \<Rightarrow> (int \<times> obj) list \<Rightarrow> (int \<times> obj) res" where
  "rollback_choice current_hash to_revision history =
     (case to_revision of
        None \<Rightarrow>
          (case filter (\<lambda>(rev, rs). dget (m_labels (o_meta rs)) TEMPLATE_HASH_LABEL JNull \<noteq> JStr current_hash) history of
             [] \<Rightarrow> Inl (ValueError ''nothing to roll back to'')
           | c # cs \<Rightarrow> Inr (last (c # cs)))
      | Some r \<Rightarrow>
          (case filter (\<lambda>(rev, rs). rev = r) history of
             [] \<Rightarrow> Inl (ValueError (''no revision '' @ str_int r))
           | m # _ \<Rightarrow> Inr m))"

definition set_template :: "json \<Rightarrow> mutator" where
  "set_template t ob = Inr (True, ob\<lparr>o_spec := fmupd ''template'' t (o_spec ob)\<rparr>)"

definition rollback ::
  "(json \<Rightarrow> string) \<Rightarrow> (string \<Rightarrow> json res) \<Rightarrow> string \<Rightarrow> int option \<Rightarrow> (int, mem_store) act" where
  "rollback digest loads key to_revision =
     abind (\<lambda>st. (revisions st key, st)) (\<lambda>history.
       if length history < 2 then alift (Inl (ValueError ''nothing to roll back to''))
       else
         abind (\<lambda>st. (ms_get st key, st)) (\<lambda>deployment.
         abind (alift (rollback_choice
             (template_hash digest (dget (o_spec deployment) ''template'' (JObj fmempty)))
             to_revision history)) (\<lambda>(revision, target).
           (case dget (m_annotations (o_meta target)) TEMPLATE_ANNOTATION JNull of
              JStr stored \<Rightarrow>
                if stored = [] then alift (Inl (ValueError ''predates template recording''))
                else abind (alift (loads stored)) (\<lambda>template.
                     abind (ms_retry quiet key (set_template template) attempts) (\<lambda>_.
                       aret revision))
            | _ \<Rightarrow> alift (Inl (ValueError ''predates template recording''))))))"

end
