(* ===== verification/Deployment_Props.thy ===== *)
theory Deployment_Props
  imports Deployment
begin

text \<open>
  The bounds of a rolling update.  What a pass does to the store is summarised by the replica counts
  it leaves requested: \<open>requested st k\<close> for the ReplicaSet under key \<open>k\<close>, over the keys \<open>owned_keys\<close>
  of the Deployment's ReplicaSets.
\<close>

section \<open>Requested replicas\<close>

definition owned_keys :: "string \<Rightarrow> mem_store \<Rightarrow> string set" where
  "owned_keys key st = {k. \<exists>rs. ms_view st k = Some rs \<and> o_kind rs = REPLICASET \<and> m_owner (o_meta rs) = key}"

definition requested :: "mem_store \<Rightarrow> string \<Rightarrow> int" where
  "requested st k = (case ms_view st k of None \<Rightarrow> 0
     | Some rs \<Rightarrow> (case replicas_of rs of Inl _ \<Rightarrow> 0 | Inr n \<Rightarrow> n))"

definition total_requested :: "string \<Rightarrow> mem_store \<Rightarrow> int" where
  "total_requested key st = (\<Sum>k \<in> owned_keys key st. requested st k)"

lemma finite_owned_keys: "finite (owned_keys key st)"
proof (rule finite_subset)
  show "owned_keys key st \<subseteq> dom (ms_view st)" by (auto simp: owned_keys_def)
qed (simp add: ms_view_def finite_dom_map_of)

lemma owned_sets_set:
  assumes "ms_tables_ok st" "owned_sets key st = Inr rss"
  shows "set rss = {rs. ms_view st (okey rs) = Some rs \<and> o_kind rs = REPLICASET \<and> m_owner (o_meta rs) = key}"
    "distinct (map okey rss)" "okey ` set rss = owned_keys key st"
proof -
  let ?l = "filter (\<lambda>rs. m_owner (o_meta rs) = key) (ms_list st REPLICASET None)"
  have m: "mset rss = mset ?l" using assms(2) unfolding owned_sets_def by (rule esorted_mset)
  then have "set rss = set ?l" by (metis set_mset_mset)
  then show s: "set rss = {rs. ms_view st (okey rs) = Some rs \<and> o_kind rs = REPLICASET \<and> m_owner (o_meta rs) = key}"
    by (auto simp: ms_list_iff [OF assms(1)] selected_def)
  have "distinct (map okey ?l)" by (rule distinct_map_filter) (rule ms_list_distinct_keys [OF assms(1)])
  moreover have "mset (map okey rss) = mset (map okey ?l)" using m by simp
  ultimately show "distinct (map okey rss)" using mset_eq_imp_distinct_iff by blast
  show "okey ` set rss = owned_keys key st"
  proof (intro set_eqI iffI)
    fix k assume "k \<in> owned_keys key st"
    then obtain rs where rs: "ms_view st k = Some rs" "o_kind rs = REPLICASET" "m_owner (o_meta rs) = key"
      by (auto simp: owned_keys_def)
    then have "okey rs = k" using tables_ok_view [OF assms(1)] by blast
    with rs s show "k \<in> okey ` set rss" by (intro image_eqI [of _ _ rs]) simp_all
  qed (use s in \<open>auto simp: owned_keys_def\<close>)
qed

lemma emap_vals:
  assumes "emap f xs = Inr ys" "\<And>x y. x \<in> set xs \<Longrightarrow> f x = Inr y \<Longrightarrow> g x = y"
  shows "ys = map g xs"
  using assms
proof (induction xs arbitrary: ys)
  case (Cons x xs)
  then obtain y ys' where "f x = Inr y" "emap f xs = Inr ys'" "ys = y # ys'"
    by (auto simp: ebind_Inr_iff)
  with Cons show ?case by simp
qed simp

lemma esum_owned:
  assumes "distinct (map okey rss)" "okey ` set rss = K" "esum f rss = Inr t"
    "\<And>rs n. rs \<in> set rss \<Longrightarrow> f rs = Inr n \<Longrightarrow> g (okey rs) = n"
  shows "t = (\<Sum>k \<in> K. g k)"
proof -
  obtain ns where ns: "emap f rss = Inr ns" "t = sum_list ns"
    using assms(3) by (auto simp: esum_def ebind_Inr_iff)
  have "ns = map (\<lambda>rs. g (okey rs)) rss" by (rule emap_vals [OF ns(1)]) (rule assms(4))
  then have "t = sum_list (map g (map okey rss))" using ns(2) by (simp add: comp_def)
  also have "\<dots> = sum g (set (map okey rss))" by (rule sum_list_distinct_conv_sum_set) (rule assms(1))
  finally show ?thesis using assms(2) by simp
qed

lemma emap_each: "emap f xs = Inr ys \<Longrightarrow> x \<in> set xs \<Longrightarrow> \<exists>y. f x = Inr y"
  by (induction xs arbitrary: ys) (auto simp: ebind_Inr_iff)

section \<open>Scaling one ReplicaSet\<close>

text \<open>\<open>reshaped st st'\<close>: only replica counts of ReplicaSets changed.\<close>

definition same_set :: "obj \<Rightarrow> obj \<Rightarrow> bool" where
  "same_set rs rs' \<longleftrightarrow> o_kind rs' = o_kind rs \<and> m_owner (o_meta rs') = m_owner (o_meta rs) \<and>
     m_name (o_meta rs') = m_name (o_meta rs) \<and> m_labels (o_meta rs') = m_labels (o_meta rs) \<and>
     m_annotations (o_meta rs') = m_annotations (o_meta rs)"

definition reshaped :: "mem_store \<Rightarrow> mem_store \<Rightarrow> bool" where
  "reshaped st st' \<longleftrightarrow> ms_tables_ok st' \<and>
     (\<forall>sel. ms_list st' POD sel = ms_list st POD sel) \<and>
     (\<forall>k. rel_option same_set (ms_view st k) (ms_view st' k))"

lemma same_set_refl [simp]: "same_set rs rs"
  by (simp add: same_set_def)

lemma same_set_trans: "same_set a b \<Longrightarrow> same_set b c \<Longrightarrow> same_set a c"
  by (simp add: same_set_def)

lemma reshaped_refl: "ms_tables_ok st \<Longrightarrow> reshaped st st"
  by (simp add: reshaped_def option.rel_refl)

lemma reshaped_Some:
  assumes "reshaped st st'" "ms_view st k = Some rs"
  shows "\<exists>rs'. ms_view st' k = Some rs' \<and> same_set rs rs'"
proof -
  have "rel_option same_set (ms_view st k) (ms_view st' k)" using assms(1) by (simp add: reshaped_def)
  then show ?thesis using assms(2) by (simp add: option_rel_Some1)
qed

lemma reshaped_Some_back:
  assumes "reshaped st st'" "ms_view st' k = Some rs'"
  shows "\<exists>rs. ms_view st k = Some rs \<and> same_set rs rs'"
proof -
  have "rel_option same_set (ms_view st k) (ms_view st' k)" using assms(1) by (simp add: reshaped_def)
  then show ?thesis using assms(2) by (simp add: option_rel_Some2)
qed

lemma reshaped_trans:
  assumes "reshaped a b" "reshaped b c"
  shows "reshaped a c"
proof -
  have "rel_option same_set (ms_view a k) (ms_view c k)" for k
  proof (cases "ms_view a k")
    case None
    then have "ms_view c k = None" using reshaped_Some_back [OF assms(1)] reshaped_Some_back [OF assms(2)]
      by (metis option.exhaust option.distinct(1))
    with None show ?thesis by simp
  next
    case (Some rs)
    then obtain rs1 where "ms_view b k = Some rs1" "same_set rs rs1" using reshaped_Some [OF assms(1)] by blast
    then obtain rs2 where "ms_view c k = Some rs2" "same_set rs1 rs2" using reshaped_Some [OF assms(2)] by blast
    with Some \<open>same_set rs rs1\<close> show ?thesis by (simp add: same_set_trans [of rs rs1 rs2])
  qed
  with assms show ?thesis by (simp add: reshaped_def)
qed

lemma reshaped_owned_keys:
  assumes "reshaped st st'"
  shows "owned_keys key st' = owned_keys key st"
proof (intro set_eqI iffI)
  fix k assume "k \<in> owned_keys key st'"
  then obtain rs' where "ms_view st' k = Some rs'" "o_kind rs' = REPLICASET" "m_owner (o_meta rs') = key"
    by (auto simp: owned_keys_def)
  with reshaped_Some_back [OF assms] show "k \<in> owned_keys key st" by (fastforce simp: owned_keys_def same_set_def)
next
  fix k assume "k \<in> owned_keys key st"
  then obtain rs where "ms_view st k = Some rs" "o_kind rs = REPLICASET" "m_owner (o_meta rs) = key"
    by (auto simp: owned_keys_def)
  with reshaped_Some [OF assms] show "k \<in> owned_keys key st'" by (fastforce simp: owned_keys_def same_set_def)
qed

lemma scale_mutator_keeps: "keeps_identity (scale_mutator n)"
  by (auto simp: keeps_identity_def scale_mutator_def ebind_Inr_iff split: if_splits)

lemma replicas_of_upd [simp]:
  "replicas_of (ob\<lparr>o_spec := fmupd ''replicas'' (JNum (of_int n)) d\<rparr>) = Inr n"
  by (simp add: replicas_of_def spec_int_def)

lemma scale_effect:
  assumes "ms_tables_ok st" "ms_view st k = Some rs" "o_kind rs = REPLICASET"
    "scale k n st = (Inr c, st')"
  shows "reshaped st st' \<and> requested st' = (requested st)(k := n)"
proof -
  have run: "abind (ms_retry quiet k (scale_mutator n) attempts)
      (\<lambda>_. aret (dget (o_spec rs) ''replicas'' JNull \<noteq> JNum (of_int n))) st = (Inr c, st')"
    using assms(2,4) by (simp add: scale_def mem.get_eq)
  note q = ms_retry_quiet_cases [OF assms(1) scale_mutator_keeps [of n], of k]
  show ?thesis
  proof (cases "replicas_of rs")
    case (Inl e)
    then have "ms_retry quiet k (scale_mutator n) attempts st = (Inl e, st)"
      using q assms(2) by (simp add: scale_mutator_def)
    with run show ?thesis by (simp add: abind_def)
  next
    case (Inr cur)
    show ?thesis
    proof (cases "cur = n")
      case True
      then have "ms_retry quiet k (scale_mutator n) attempts st = (Inr (Some rs), st)"
        using q assms(2) Inr by (simp add: scale_mutator_def)
      then have "st' = st" using run by simp
      moreover have "requested st = (requested st)(k := n)"
        using assms(2) Inr True by (auto simp: requested_def)
      ultimately show ?thesis using assms(1) by (simp add: reshaped_refl)
    next
      case False
      define cand where "cand = rs\<lparr>o_spec := fmupd ''replicas'' (JNum (of_int n)) (o_spec rs)\<rparr>"
      have mut: "scale_mutator n rs = Inr (True, cand)"
        using Inr False by (simp add: scale_mutator_def cand_def)
      obtain s1 where u: "ms_update cand st = Inr (committed rs cand (ms_revision st + 1), s1)"
        "ms_retry quiet k (scale_mutator n) attempts st = (Inr (Some (committed rs cand (ms_revision st + 1))), s1)"
        "okey cand = k"
        using q assms(2) mut by auto
      then have st': "st' = s1" using run by simp
      have view: "ms_view st' = (ms_view st)(k \<mapsto> committed rs cand (ms_revision st + 1))"
        using u st' by (auto elim: ms_update_InrD)
      have new: "replicas_of (committed rs cand (ms_revision st + 1)) = Inr n"
        by (simp add: replicas_of_def spec_int_def) (simp add: cand_def)
      have "ms_list st' POD sel = ms_list st POD sel" for sel
        unfolding st' by (rule ms_list_update_other [OF u(1)]) (use assms u in \<open>auto simp: cand_def\<close>)
      moreover have "same_set rs (committed rs cand (ms_revision st + 1))"
        by (simp add: same_set_def) (simp add: cand_def)
      ultimately have "reshaped st st'"
        using ms_update_tables_ok [OF u(1) assms(1)] view st' assms(2) by (simp add: reshaped_def option.rel_refl)
      moreover have "requested st' = (requested st)(k := n)"
        by (rule ext) (simp add: requested_def view new)
      ultimately show ?thesis by simp
    qed
  qed
qed


section \<open>The loops\<close>

text \<open>
  \<open>lowered st st' d\<close>: requests only went down, below no zero, and by at most \<open>d\<close> in total.
\<close>

definition lowered :: "string set \<Rightarrow> mem_store \<Rightarrow> mem_store \<Rightarrow> int \<Rightarrow> bool" where
  "lowered K st st' d \<longleftrightarrow> reshaped st st' \<and> (\<forall>k. requested st' k \<le> requested st k) \<and>
     (\<forall>k. k \<notin> K \<longrightarrow> requested st' k = requested st k) \<and>
     (\<forall>k \<in> K. 0 \<le> requested st k \<longrightarrow> 0 \<le> requested st' k) \<and>
     (\<Sum>k \<in> K. requested st k - requested st' k) \<le> d"

definition snapshot_of :: "mem_store \<Rightarrow> obj list \<Rightarrow> bool" where
  \<comment> \<open>a listing of ReplicaSets whose requests are still those of the store\<close>
  "snapshot_of st rss \<longleftrightarrow> distinct (map okey rss) \<and>
     (\<forall>rs \<in> set rss. (\<exists>rs'. ms_view st (okey rs) = Some rs' \<and> o_kind rs' = REPLICASET) \<and>
        (\<forall>n. replicas_of rs = Inr n \<longrightarrow> requested st (okey rs) = n))"

lemma snapshot_tail:
  assumes "snapshot_of st (rs # rss)" "reshaped st st'" "requested st' = (requested st)(okey rs := n)"
  shows "snapshot_of st' rss"
  unfolding snapshot_of_def
proof (intro conjI ballI)
  show "distinct (map okey rss)" using assms(1) by (simp add: snapshot_of_def)
  fix r assume r: "r \<in> set rss"
  have "okey rs \<notin> okey ` set rss" using assms(1) by (simp add: snapshot_of_def)
  with r have ne: "okey r \<noteq> okey rs" by (metis image_eqI)
  from r assms(1) obtain r' where "ms_view st (okey r) = Some r'" "o_kind r' = REPLICASET"
    by (auto simp: snapshot_of_def)
  with reshaped_Some [OF assms(2)] show "\<exists>r'. ms_view st' (okey r) = Some r' \<and> o_kind r' = REPLICASET"
    by (fastforce simp: same_set_def)
  show "\<forall>n. replicas_of r = Inr n \<longrightarrow> requested st' (okey r) = n"
    using assms(1,3) r ne by (auto simp: snapshot_of_def)
qed

lemma lowered_refl: "ms_tables_ok st \<Longrightarrow> 0 \<le> d \<Longrightarrow> lowered K st st d"
  by (simp add: lowered_def reshaped_refl)

lemma lowered_step:
  assumes "reshaped st s1" "requested s1 = (requested st)(k := n)" "n \<le> requested st k" "0 \<le> n"
    "requested st k - n \<le> d1" "lowered K s1 st' d2" "finite K" "k \<notin> K"
  shows "lowered (insert k K) st st' (d1 + d2)"
proof -
  have same: "(\<Sum>j \<in> K. requested st j - requested st' j) = (\<Sum>j \<in> K. requested s1 j - requested st' j)"
    using assms(2,8) by (intro sum.cong) auto
  have k: "requested st' k = n" using assms(2,6,8) by (simp add: lowered_def)
  have "(\<Sum>j \<in> insert k K. requested st j - requested st' j) \<le> d1 + d2"
    using assms same k by (simp add: lowered_def)
  moreover have "requested st' j \<le> requested st j" for j
    using assms(2,3,6) by (auto simp: lowered_def intro: order_trans [of _ "requested s1 j"])
  moreover have "0 \<le> requested st' j" if "j \<in> K" "0 \<le> requested st j" for j
  proof -
    have "j \<noteq> k" using assms(8) that(1) by blast
    then have "requested s1 j = requested st j" using assms(2) by simp
    with assms(6) that show ?thesis by (simp add: lowered_def)
  qed
  moreover have "requested st' j = requested st j" if "j \<notin> insert k K" for j
    using assms(2,6) that by (simp add: lowered_def)
  ultimately show ?thesis
    using reshaped_trans [OF assms(1)] assms(6) k assms(4) by (auto simp: lowered_def)
qed

lemma lowered_widen:
  assumes "lowered K st st' d" "finite K'" "K \<subseteq> K'"
  shows "lowered K' st st' d"
proof -
  have "(\<Sum>k \<in> K'. requested st k - requested st' k) = (\<Sum>k \<in> K. requested st k - requested st' k)"
    using assms by (intro sum.mono_neutral_right) (auto simp: lowered_def)
  with assms show ?thesis by (auto simp: lowered_def)
qed

lemma retire_loop_effect:
  assumes "ms_tables_ok st" "snapshot_of st rss" "\<forall>rs \<in> set rss. 0 \<le> requested st (okey rs)"
    "retire_loop rss (c, surplus) st = (Inr (c', surplus'), st')"
  shows "lowered (okey ` set rss) st st' (max 0 surplus)"
  using assms
proof (induction rss arbitrary: c surplus st)
  case Nil
  then show ?case by (simp add: aret_def lowered_refl)
next
  case (Cons rs rss)
  show ?case
  proof (cases "surplus \<le> 0")
    case True
    with Cons.prems show ?thesis by (simp add: lowered_refl)
  next
    case False
    then obtain cur where cur: "replicas_of rs = Inr cur"
      and run: "(if cur = 0 then retire_loop rss (c, surplus)
         else (let step = min cur surplus in
              abind (scale (okey rs) (cur - step)) (\<lambda>c'. retire_loop rss (c \<or> c', surplus - step)))) st
         = (Inr (c', surplus'), st')"
      using Cons.prems(4) by (auto simp: abind_lift_iff)
    have rq: "requested st (okey rs) = cur" using Cons.prems(2) cur by (simp add: snapshot_of_def)
    then have cur0: "0 \<le> cur" using Cons.prems(3) by simp
    have nin: "okey rs \<notin> okey ` set rss" using Cons.prems(2) by (simp add: snapshot_of_def)
    show ?thesis
    proof (cases "cur = 0")
      case True
      have "snapshot_of st rss" using Cons.prems(2) by (simp add: snapshot_of_def)
      with True run Cons have "lowered (okey ` set rss) st st' (max 0 surplus)" by simp
      then show ?thesis by (rule lowered_widen) auto
    next
      case cne: False
      define step where "step = min cur surplus"
      obtain x s1 where s1: "scale (okey rs) (cur - step) st = (Inr x, s1)"
        "retire_loop rss (c \<or> x, surplus - step) s1 = (Inr (c', surplus'), st')"
        using run cne by (auto simp: Let_def step_def elim: abindE)
      obtain rs' where "ms_view st (okey rs) = Some rs'" "o_kind rs' = REPLICASET"
        using Cons.prems(2) by (auto simp: snapshot_of_def)
      from scale_effect [OF Cons.prems(1) this s1(1)]
      have e: "reshaped st s1" "requested s1 = (requested st)(okey rs := cur - step)" by auto
      have "lowered (okey ` set rss) s1 st' (max 0 (surplus - step))"
      proof (rule Cons.IH [OF _ snapshot_tail [OF Cons.prems(2) e] _ s1(2)])
        show "ms_tables_ok s1" using e(1) by (simp add: reshaped_def)
        show "\<forall>r \<in> set rss. 0 \<le> requested s1 (okey r)"
          using Cons.prems(3) e(2) by (auto simp: step_def)
      qed
      then have "lowered (insert (okey rs) (okey ` set rss)) st st' (step + max 0 (surplus - step))"
        using False cur0 rq nin by (intro lowered_step [OF e]) (auto simp: step_def)
      moreover have "step + max 0 (surplus - step) = max 0 surplus" using False by (auto simp: step_def)
      ultimately show ?thesis by simp
    qed
  qed
qed

lemma zero_loop_effect:
  assumes "ms_tables_ok st" "distinct (map okey rss)"
    "\<forall>rs \<in> set rss. \<exists>rs'. ms_view st (okey rs) = Some rs' \<and> o_kind rs' = REPLICASET"
    "\<forall>rs \<in> set rss. 0 \<le> requested st (okey rs)" "zero_loop rss c st = (Inr c', st')"
  shows "\<exists>d. lowered (okey ` set rss) st st' d"
  using assms
proof (induction rss arbitrary: c st)
  case Nil
  then show ?case by (auto simp: aret_def intro!: lowered_refl exI [of _ 0])
next
  case (Cons rs rss)
  obtain n :: int where run: "(if n \<noteq> 0 then abind (scale (okey rs) 0) (\<lambda>x. zero_loop rss (c \<or> x))
      else zero_loop rss c) st = (Inr c', st')"
    using Cons.prems(5) unfolding zero_loop.simps abind_lift_iff by (elim exE conjE) (rule that)
  have nin: "okey rs \<notin> okey ` set rss" using Cons.prems(2) by simp
  show ?case
  proof (cases "n = 0")
    case True
    with run Cons have "\<exists>d. lowered (okey ` set rss) st st' d" by simp
    then show ?thesis using lowered_widen [of "okey ` set rss" st st' _ "okey ` set (rs # rss)"] by auto
  next
    case False
    obtain x s1 where s1: "scale (okey rs) 0 st = (Inr x, s1)" "zero_loop rss (c \<or> x) s1 = (Inr c', st')"
      using run False by (auto elim: abindE)
    obtain rs' where "ms_view st (okey rs) = Some rs'" "o_kind rs' = REPLICASET" using Cons.prems(3) by auto
    from scale_effect [OF Cons.prems(1) this s1(1)]
    have e: "reshaped st s1" "requested s1 = (requested st)(okey rs := 0)" by auto
    have "\<exists>d. lowered (okey ` set rss) s1 st' d"
    proof (rule Cons.IH [OF _ _ _ _ s1(2)])
      show "ms_tables_ok s1" using e(1) by (simp add: reshaped_def)
      show "\<forall>r \<in> set rss. \<exists>r'. ms_view s1 (okey r) = Some r' \<and> o_kind r' = REPLICASET"
        using Cons.prems(3) reshaped_Some [OF e(1)] by (fastforce simp: same_set_def)
      show "\<forall>r \<in> set rss. 0 \<le> requested s1 (okey r)" using Cons.prems(4) e(2) by auto
    qed (use Cons.prems(2) in simp)
    then obtain d where "lowered (okey ` set rss) s1 st' d" by blast
    then have "lowered (insert (okey rs) (okey ` set rss)) st st' (requested st (okey rs) + d)"
      using Cons.prems(4) nin by (intro lowered_step [OF e]) auto
    then show ?thesis by auto
  qed
qed

section \<open>The four steps\<close>

definition ready_count :: "rat \<Rightarrow> rat \<Rightarrow> obj list \<Rightarrow> string \<Rightarrow> int" where
  "ready_count now min_ready pods k =
     int (length (filter (\<lambda>p. m_owner (o_meta p) = k \<and> is_available now min_ready p = Inr True) pods))"

definition carried :: "string \<Rightarrow> rat \<Rightarrow> rat \<Rightarrow> obj list \<Rightarrow> mem_store \<Rightarrow> int" where
  \<comment> \<open>available replicas that their ReplicaSets still ask for\<close>
  "carried key now min_ready pods st =
     (\<Sum>k \<in> owned_keys key st. min (ready_count now min_ready pods k) (requested st k))"

lemma emap_count:
  "emap f xs = Inr bs \<Longrightarrow> length (filter (\<lambda>b. b) bs) = length (filter (\<lambda>x. f x = Inr True) xs)"
  by (induction xs arbitrary: bs) (auto simp: ebind_Inr_iff)

lemma available_for_count:
  "available_for now mr pods rs = Inr n \<Longrightarrow> n = ready_count now mr pods (okey rs)"
  by (auto simp: available_for_def ready_count_def pods_of_def ebind_Inr_iff conj_commute dest!: emap_count)

lemma requested_of: "ms_view st (okey rs) = Some rs \<Longrightarrow> replicas_of rs = Inr n \<Longrightarrow> requested st (okey rs) = n"
  by (simp add: requested_def)

lemma clamped_count:
  "clamped_available now mr pods rs = Inr n \<Longrightarrow> ms_view st (okey rs) = Some rs \<Longrightarrow>
     min (ready_count now mr pods (okey rs)) (requested st (okey rs)) = n"
  by (auto simp: clamped_available_def ebind_Inr_iff requested_of dest!: available_for_count)

lemma json_list_pods: "reshaped st st' \<Longrightarrow> json_list POD sel st' = json_list POD sel st"
  by (simp add: json_list_def reshaped_def split: json.split)

text \<open>A pass over the store with the target held fixed.\<close>

definition pass_ok :: "mem_store \<Rightarrow> string \<Rightarrow> obj \<Rightarrow> obj list \<Rightarrow> bool" where
  "pass_ok st key target rss \<longleftrightarrow> ms_tables_ok st \<and> ms_view st (okey target) = Some target \<and>
     o_kind target = REPLICASET \<and> owned_sets key st = Inr rss \<and>
     (\<forall>k \<in> owned_keys key st. 0 \<le> requested st k)"

lemma pass_okD:
  assumes "pass_ok st key target rss"
  shows "ms_tables_ok st" "ms_view st (okey target) = Some target" "o_kind target = REPLICASET"
    "owned_sets key st = Inr rss" "\<forall>k \<in> owned_keys key st. 0 \<le> requested st k"
  using assms by (simp_all add: pass_ok_def)

lemma not_target_keys:
  assumes pass: "pass_ok st key target rss" and "reshaped st s" "owned_sets key s = Inr l"
  shows "okey ` set (not_target target l) \<subseteq> owned_keys key st - {(okey target)}" "snapshot_of s (not_target target l)"
    "distinct (map okey (not_target target l))"
proof -
  have oks: "ms_tables_ok s" using assms(2) by (simp add: reshaped_def)
  note os = owned_sets_set [OF oks assms(3)]
  obtain t' where t': "ms_view s (okey target) = Some t'" "same_set target t'" using reshaped_Some [OF assms(2) pass_okD(2) [OF pass]] by blast
  have "okey rs \<noteq> (okey target)" if "rs \<in> set (not_target target l)" for rs
    using that os(1) t' by (auto simp: not_target_def same_set_def)
  then show "okey ` set (not_target target l) \<subseteq> owned_keys key st - {(okey target)}"
    using os(3) reshaped_owned_keys [OF assms(2)] by (auto simp: not_target_def)
  show d: "distinct (map okey (not_target target l))"
    unfolding not_target_def by (rule distinct_map_filter) (rule os(2))
  show "snapshot_of s (not_target target l)"
    using d os(1) by (auto simp: snapshot_of_def not_target_def requested_of)
qed

lemma step_up_effect:
  assumes pass: "pass_ok st key target rss" and "step_up sg target (total_requested key st) (requested st (okey target)) st = (Inr c, s1)"
  shows "reshaped st s1 \<and> (\<forall>k. k \<noteq> (okey target) \<longrightarrow> requested s1 k = requested st k) \<and>
    requested st (okey target) \<le> requested s1 (okey target) \<and>
    (requested s1 (okey target) = requested st (okey target) \<or> requested st (okey target) < sg_desired sg \<and>
       total_requested key st + (requested s1 (okey target) - requested st (okey target)) \<le> sg_desired sg + sg_surge sg)"
proof (cases "sg_desired sg + sg_surge sg - total_requested key st > 0 \<and> requested st (okey target) < sg_desired sg")
  case True
  then have "scale (okey target) (requested st (okey target) + min (sg_desired sg + sg_surge sg - total_requested key st)
      (sg_desired sg - requested st (okey target))) st = (Inr c, s1)"
    using assms by (simp add: step_up_def)
  from scale_effect [OF pass_okD(1-3) [OF pass] this] True show ?thesis by auto
next
  case False
  then have "s1 = st" using assms by (auto simp: step_up_def)
  then show ?thesis using pass_okD(1) [OF pass] by (simp add: reshaped_refl)
qed

lemma step_down_effect:
  assumes pass: "pass_ok st key target rss" and "reshaped st s1" "\<forall>k \<in> owned_keys key st. 0 \<le> requested s1 k" "json_list POD selector st = Inr pods"
    "step_down_old now sg key target selector s1 = (Inr (c, fp), s2)"
  shows "lowered (owned_keys key st - {okey target}) s1 s2 (max 0 (carried key now (sg_min_ready sg) pods s1 -
           max (sg_desired sg - sg_unavailable sg) 0))"
proof -
  have ok1: "ms_tables_ok s1" using assms(2) by (simp add: reshaped_def)
  obtain fresh where f: "owned_sets key s1 = Inr fresh"
    and run: "abind (\<lambda>st. (json_list POD selector st, st)) (\<lambda>fresh_pods.
      abind (alift (esum (clamped_available now (sg_min_ready sg) fresh_pods) fresh)) (\<lambda>total.
      abind (retire_loop (rev (not_target target fresh)) (False, total - max (sg_desired sg - sg_unavailable sg) 0))
        (\<lambda>(changed, _). aret (changed, fresh_pods)))) s1 = (Inr (c, fp), s2)"
    using assms(5) by (auto simp: step_down_old_def Let_def elim: abindE)
  have "json_list POD selector s1 = Inr pods" using json_list_pods [OF assms(2)] assms(4) by simp
  then obtain total c' sp where t: "esum (clamped_available now (sg_min_ready sg) pods) fresh = Inr total"
    and r: "retire_loop (rev (not_target target fresh)) (False, total - max (sg_desired sg - sg_unavailable sg) 0) s1
      = (Inr (c', sp), s2)"
    using run by (auto simp: abind_lift_iff elim!: abindE)
  note os = owned_sets_set [OF ok1 f] and nk = not_target_keys [OF pass assms(2) f]
  have tot: "total = carried key now (sg_min_ready sg) pods s1"
    unfolding carried_def
    by (rule esum_owned [OF os(2,3) t]) (use os(1) in \<open>auto intro: clamped_count\<close>)
  have snap: "snapshot_of s1 (rev (not_target target fresh))"
    using nk(2) by (simp add: snapshot_of_def rev_map [symmetric])
  have "\<forall>rs \<in> set (rev (not_target target fresh)). 0 \<le> requested s1 (okey rs)"
    using nk(1) assms(3) by auto
  from retire_loop_effect [OF ok1 snap this r] have
    "lowered (okey ` set (rev (not_target target fresh))) s1 s2 (max 0 (carried key now (sg_min_ready sg) pods s1 -
           max (sg_desired sg - sg_unavailable sg) 0))"
    by (simp add: tot)
  then show ?thesis by (rule lowered_widen) (use nk(1) finite_owned_keys in auto)
qed

lemma step_zero_effect:
  assumes pass: "pass_ok st key target rss" and "reshaped st s2" "\<forall>k \<in> owned_keys key st. 0 \<le> requested s2 k"
    "(if ta \<ge> sg_desired sg then zero_loop (not_target target rss) False else aret False) s2 = (Inr c, s3)"
  shows "\<exists>d. lowered (owned_keys key st - {okey target}) s2 s3 d \<and> (ta < sg_desired sg \<longrightarrow> s3 = s2)"
proof (cases "ta \<ge> sg_desired sg")
  case False
  moreover have "ms_tables_ok s2" using assms(2) by (simp add: reshaped_def)
  ultimately show ?thesis using assms(4) by (auto intro!: lowered_refl exI [of _ 0])
next
  case True
  note nk = not_target_keys [OF pass reshaped_refl [OF pass_okD(1) [OF pass]] pass_okD(4) [OF pass]]
  have "\<forall>rs \<in> set (not_target target rss). \<exists>rs'. ms_view s2 (okey rs) = Some rs' \<and> o_kind rs' = REPLICASET"
  proof
    fix rs assume "rs \<in> set (not_target target rss)"
    then obtain rs' where "ms_view st (okey rs) = Some rs'" "o_kind rs' = REPLICASET"
      using nk(2) by (auto simp: snapshot_of_def)
    with reshaped_Some [OF assms(2)] show "\<exists>rs'. ms_view s2 (okey rs) = Some rs' \<and> o_kind rs' = REPLICASET"
      by (fastforce simp: same_set_def)
  qed
  moreover have "\<forall>rs \<in> set (not_target target rss). 0 \<le> requested s2 (okey rs)" using nk(1) assms(3) by auto
  moreover have "ms_tables_ok s2" using assms(2) by (simp add: reshaped_def)
  ultimately obtain d where "lowered (okey ` set (not_target target rss)) s2 s3 d"
    using zero_loop_effect [OF _ nk(3)] assms(4) True by fastforce
  then have "lowered (owned_keys key st - {okey target}) s2 s3 d" by (rule lowered_widen) (use nk(1) finite_owned_keys in auto)
  with True show ?thesis by auto
qed

text \<open>The whole of steps 1 to 4.\<close>

lemma scale_steps_effect:
  assumes pass: "pass_ok st key target rss" and "dp_scale_steps now sg key target rss selector ta st = (Inr fp, st')"
    "json_list POD selector st = Inr pods"
  obtains s1 s2 s3 d where
    "reshaped st s1" "\<forall>k. k \<noteq> (okey target) \<longrightarrow> requested s1 k = requested st k" "requested st (okey target) \<le> requested s1 (okey target)"
    "requested s1 (okey target) = requested st (okey target) \<or> requested st (okey target) < sg_desired sg \<and>
       total_requested key st + (requested s1 (okey target) - requested st (okey target)) \<le> sg_desired sg + sg_surge sg"
    "lowered (owned_keys key st - {okey target}) s1 s2 (max 0 (carried key now (sg_min_ready sg) pods s1 -
           max (sg_desired sg - sg_unavailable sg) 0))"
    "lowered (owned_keys key st - {okey target}) s2 s3 d" "ta < sg_desired sg \<longrightarrow> s3 = s2"
    "reshaped s3 st'" "requested st' = (requested s3)((okey target) := if requested st (okey target) > sg_desired sg
        then sg_desired sg else requested s3 (okey target))"
proof -
  note os = owned_sets_set [OF pass_okD(1,4) [OF pass]]
  obtain total ts s1 where t: "esum replicas_of rss = Inr total" "replicas_of target = Inr ts"
    and u: "\<exists>c. step_up sg target total ts st = (Inr c, s1)"
    and rest: "abind (step_down_old now sg key target selector) (\<lambda>(_, fresh_pods).
     abind (if ta \<ge> sg_desired sg then zero_loop (not_target target rss) False else aret False) (\<lambda>_.
     abind (if ts > sg_desired sg then scale (okey target) (sg_desired sg) else aret False) (\<lambda>_.
       aret fresh_pods))) s1 = (Inr fp, st')"
    using assms(2) by (auto simp: dp_scale_steps_def abind_lift_iff elim!: abindE)
  have ts: "ts = requested st (okey target)" using requested_of [OF pass_okD(2) [OF pass]] t(2) by simp
  have total: "total = total_requested key st" unfolding total_requested_def
    by (rule esum_owned [OF os(2,3) t(1)]) (use os(1) in \<open>auto intro: requested_of\<close>)
  obtain c0 where "step_up sg target (total_requested key st) (requested st (okey target)) st = (Inr c0, s1)"
    using u unfolding ts total by blast
  note up = step_up_effect [OF pass this]
  have n1: "\<forall>k \<in> owned_keys key st. 0 \<le> requested s1 k"
  proof
    fix k assume "k \<in> owned_keys key st"
    then show "0 \<le> requested s1 k" using up pass_okD(5) [OF pass] by (cases "k = okey target") (auto intro: order_trans)
  qed
  obtain c fps s2 where d: "step_down_old now sg key target selector s1 = (Inr (c, fps), s2)"
    and rest2: "abind (if ta \<ge> sg_desired sg then zero_loop (not_target target rss) False else aret False) (\<lambda>_.
     abind (if ts > sg_desired sg then scale (okey target) (sg_desired sg) else aret False) (\<lambda>_.
       aret fps)) s2 = (Inr fp, st')"
    using rest by (auto elim!: abindE)
  have r1: "reshaped st s1" using up by blast
  note down = step_down_effect [OF pass r1 n1 assms(3) d]
  have r2: "reshaped st s2" using reshaped_trans [OF r1] down by (simp add: lowered_def)
  have n2: "\<forall>k \<in> owned_keys key st. 0 \<le> requested s2 k"
  proof
    fix k assume "k \<in> owned_keys key st"
    then show "0 \<le> requested s2 k" using down n1 by (cases "k = okey target") (auto simp: lowered_def)
  qed
  obtain c2 s3 where z: "(if ta \<ge> sg_desired sg then zero_loop (not_target target rss) False else aret False) s2 = (Inr c2, s3)"
    and rest3: "abind (if ts > sg_desired sg then scale (okey target) (sg_desired sg) else aret False) (\<lambda>_. aret fps) s3 = (Inr fp, st')"
    using rest2 by (auto elim!: abindE)
  obtain dd where zero: "lowered (owned_keys key st - {okey target}) s2 s3 dd" "ta < sg_desired sg \<longrightarrow> s3 = s2"
    using step_zero_effect [OF pass r2 n2 z] by blast
  have r3: "reshaped st s3" using reshaped_trans [OF r2] zero by (simp add: lowered_def)
  obtain c3 where last: "(if ts > sg_desired sg then scale (okey target) (sg_desired sg) else aret False) s3 = (Inr c3, st')"
    using rest3 by (auto elim!: abindE)
  have fin: "reshaped s3 st' \<and> requested st' = (requested s3)((okey target) := if requested st (okey target) > sg_desired sg
        then sg_desired sg else requested s3 (okey target))"
  proof (cases "ts > sg_desired sg")
    case True
    obtain t3 where "ms_view s3 (okey target) = Some t3" "o_kind t3 = REPLICASET"
      using reshaped_Some [OF r3 pass_okD(2) [OF pass]] pass_okD(3) [OF pass] by (auto simp: same_set_def)
    moreover have "ms_tables_ok s3" using r3 by (simp add: reshaped_def)
    ultimately show ?thesis using scale_effect [of s3 "okey target" t3 "sg_desired sg" c3 st'] last True ts by simp
  next
    case False
    moreover have "ms_tables_ok s3" using r3 by (simp add: reshaped_def)
    ultimately show ?thesis using last ts by (auto simp: reshaped_refl)
  qed
  show ?thesis
    by (rule that [of s1 s2 s3 dd]) (use up down zero fin in blast)+
qed

section \<open>The bounds\<close>

lemma lowered_sum:
  assumes "lowered A st st' d" "finite A" "A \<subseteq> B" "finite B"
  shows "(\<Sum>k \<in> B. requested st' k) \<le> (\<Sum>k \<in> B. requested st k)"
    "(\<Sum>k \<in> B. min (f k) (requested st k)) - d \<le> (\<Sum>k \<in> B. min (f k) (requested st' k))"
proof -
  show "(\<Sum>k \<in> B. requested st' k) \<le> (\<Sum>k \<in> B. requested st k)"
    by (rule sum_mono) (use assms(1) in \<open>simp add: lowered_def\<close>)
  have "(\<Sum>k \<in> B. min (f k) (requested st k)) - (\<Sum>k \<in> B. min (f k) (requested st' k))
      = (\<Sum>k \<in> B. min (f k) (requested st k) - min (f k) (requested st' k))"
    by (simp add: sum_subtractf)
  also have "\<dots> \<le> (\<Sum>k \<in> B. requested st k - requested st' k)"
  proof (rule sum_mono)
    fix k
    have "requested st' k \<le> requested st k" using assms(1) by (simp add: lowered_def)
    then show "min (f k) (requested st k) - min (f k) (requested st' k) \<le> requested st k - requested st' k"
      by (simp add: min_def)
  qed
  also have "\<dots> \<le> d" using lowered_widen [OF assms(1,4,3)] by (simp add: lowered_def)
  finally show "(\<Sum>k \<in> B. min (f k) (requested st k)) - d \<le> (\<Sum>k \<in> B. min (f k) (requested st' k))" by simp
qed

text \<open>
  C14: the surge bound.  A pass with all requests non-negative never leaves more replicas requested
  over all ReplicaSets of the Deployment than \<open>replicas + maxSurge\<close>, unless more were requested
  before, in which case it does not add any; and it never creates or deletes a pod.
\<close>

theorem surge_bound:
  assumes "pass_ok st key target rss" "json_list POD selector st = Inr pods"
    "dp_scale_steps now sg key target rss selector ta st = (Inr fp, st')"
  shows "total_requested key st' \<le> max (total_requested key st) (sg_desired sg + sg_surge sg) \<and>
    owned_keys key st' = owned_keys key st \<and> (\<forall>sel. ms_list st' POD sel = ms_list st POD sel)"
proof -
  note pass = pass_okD [OF assms(1)]
  let ?K = "owned_keys key st" and ?tk = "okey target"
  obtain s1 s2 s3 d where s: "reshaped st s1" "\<forall>k. k \<noteq> ?tk \<longrightarrow> requested s1 k = requested st k"
    "requested st ?tk \<le> requested s1 ?tk"
    "requested s1 ?tk = requested st ?tk \<or> requested st ?tk < sg_desired sg \<and>
       total_requested key st + (requested s1 ?tk - requested st ?tk) \<le> sg_desired sg + sg_surge sg"
    "lowered (?K - {?tk}) s1 s2 (max 0 (carried key now (sg_min_ready sg) pods s1 -
           max (sg_desired sg - sg_unavailable sg) 0))"
    "lowered (?K - {?tk}) s2 s3 d" "reshaped s3 st'"
    "requested st' = (requested s3)(?tk := if requested st ?tk > sg_desired sg
        then sg_desired sg else requested s3 ?tk)"
    by (rule scale_steps_effect [OF assms(1,3,2)]) blast
  have fin: "finite ?K" "finite (?K - {?tk})" by (simp_all add: finite_owned_keys)
  have r2: "reshaped st s2" using reshaped_trans [OF s(1)] s(5) by (simp add: lowered_def)
  have r3: "reshaped st s3" using reshaped_trans [OF r2] s(6) by (simp add: lowered_def)
  have rr: "reshaped st st'" by (rule reshaped_trans [OF r3 s(7)])
  have t3: "requested s3 ?tk = requested s1 ?tk" using s(5,6) by (simp add: lowered_def)
  have "(\<Sum>k \<in> ?K. requested st' k) \<le> (\<Sum>k \<in> ?K. requested s3 k)"
    using s(3,8) t3 by (intro sum_mono) auto
  also have "\<dots> \<le> (\<Sum>k \<in> ?K. requested s2 k)" by (rule lowered_sum(1) [OF s(6) fin(2) _ fin(1)]) auto
  also have "\<dots> \<le> (\<Sum>k \<in> ?K. requested s1 k)" by (rule lowered_sum(1) [OF s(5) fin(2) _ fin(1)]) auto
  also have "\<dots> \<le> max (total_requested key st) (sg_desired sg + sg_surge sg)"
  proof (cases "?tk \<in> ?K")
    case True
    have "(\<Sum>k \<in> ?K. requested s1 k) = requested s1 ?tk + (\<Sum>k \<in> ?K - {?tk}. requested s1 k)"
      by (rule sum.remove) (use fin True in auto)
    moreover have "(\<Sum>k \<in> ?K. requested st k) = requested st ?tk + (\<Sum>k \<in> ?K - {?tk}. requested st k)"
      by (rule sum.remove) (use fin True in auto)
    moreover have "(\<Sum>k \<in> ?K - {?tk}. requested s1 k) = (\<Sum>k \<in> ?K - {?tk}. requested st k)"
      using s(2) by (intro sum.cong) auto
    ultimately show ?thesis using s(4) by (auto simp: total_requested_def)
  next
    case False
    then have "(\<Sum>k \<in> ?K. requested s1 k) = (\<Sum>k \<in> ?K. requested st k)"
      using s(2) by (intro sum.cong refl) metis
    then show ?thesis by (simp add: total_requested_def)
  qed
  finally show ?thesis
    using rr reshaped_owned_keys [OF rr] by (simp add: total_requested_def reshaped_def)
qed

text \<open>C15: The availability floor, as far as it holds.  Count for every ReplicaSet the available pods that it still asks
  for.  Unless the target is fully available while it asks for fewer pods than \<open>replicas\<close>, a pass
  leaves the smaller of that count before the pass and \<open>replicas - maxUnavailable\<close>: it never takes
  the Deployment below the floor, nor further below it.  In the excluded case - a rollback to a
  ReplicaSet whose pods are still there - the floor can break, which the theorem
  \<open>fast_rollback_breaks_floor\<close> shows.\<close>

theorem availability_floor:
  assumes "pass_ok st key target rss" "json_list POD selector st = Inr pods"
    "dp_scale_steps now sg key target rss selector (ready_count now (sg_min_ready sg) pods (okey target)) st = (Inr fp, st')"
    "okey target \<in> owned_keys key st" "0 \<le> sg_desired sg" "0 \<le> sg_unavailable sg"
    "ready_count now (sg_min_ready sg) pods (okey target) \<ge> sg_desired sg \<longrightarrow>
       requested st (okey target) \<ge> sg_desired sg"
  shows "carried key now (sg_min_ready sg) pods st' \<ge>
     min (carried key now (sg_min_ready sg) pods st) (max (sg_desired sg - sg_unavailable sg) 0)"
proof -
  note pass = pass_okD [OF assms(1)]
  let ?K = "owned_keys key st" and ?tk = "okey target" and ?F = "max (sg_desired sg - sg_unavailable sg) 0"
  let ?av = "ready_count now (sg_min_ready sg) pods"
  obtain s1 s2 s3 d where s: "reshaped st s1" "\<forall>k. k \<noteq> ?tk \<longrightarrow> requested s1 k = requested st k"
    "requested st ?tk \<le> requested s1 ?tk"
    "requested s1 ?tk = requested st ?tk \<or> requested st ?tk < sg_desired sg \<and>
       total_requested key st + (requested s1 ?tk - requested st ?tk) \<le> sg_desired sg + sg_surge sg"
    "lowered (?K - {?tk}) s1 s2 (max 0 (carried key now (sg_min_ready sg) pods s1 - ?F))"
    "lowered (?K - {?tk}) s2 s3 d" "?av ?tk < sg_desired sg \<longrightarrow> s3 = s2" "reshaped s3 st'"
    "requested st' = (requested s3)(?tk := if requested st ?tk > sg_desired sg
        then sg_desired sg else requested s3 ?tk)"
    by (rule scale_steps_effect [OF assms(1,3,2)]) blast
  have fin: "finite ?K" "finite (?K - {?tk})" by (simp_all add: finite_owned_keys)
  have r2: "reshaped st s2" using reshaped_trans [OF s(1)] s(5) by (simp add: lowered_def)
  have r3: "reshaped st s3" using reshaped_trans [OF r2] s(6) by (simp add: lowered_def)
  have rr: "reshaped st st'" by (rule reshaped_trans [OF r3 s(8)])
  have C: "carried key now (sg_min_ready sg) pods s = (\<Sum>k \<in> ?K. min (?av k) (requested s k))" if "reshaped st s" for s
    by (simp add: carried_def reshaped_owned_keys [OF that])
  have av0: "0 \<le> ?av k" for k by (simp add: ready_count_def)
  have t3: "requested s3 ?tk = requested s1 ?tk" using s(5,6) by (simp add: lowered_def)
  have n3: "0 \<le> requested s3 k" if "k \<in> ?K" "k \<noteq> ?tk" for k
    using that s(2,5,6) pass(5) by (simp add: lowered_def)
  \<comment> \<open>once the target carries the whole load, the sum is at least the number of replicas\<close>
  have full: "?F \<le> (\<Sum>k \<in> ?K. min (?av k) (r k))"
    if "\<And>k. k \<in> ?K \<Longrightarrow> k \<noteq> ?tk \<Longrightarrow> 0 \<le> r k" "sg_desired sg \<le> ?av ?tk" "sg_desired sg \<le> r ?tk" for r
  proof -
    have "?F \<le> min (?av ?tk) (r ?tk)" using that assms(5,6) by auto
    also have "\<dots> \<le> min (?av ?tk) (r ?tk) + (\<Sum>k \<in> ?K - {?tk}. min (?av k) (r k))"
      using sum_nonneg [of "?K - {?tk}" "\<lambda>k. min (?av k) (r k)"] that(1) av0 by simp
    also have "\<dots> = (\<Sum>k \<in> ?K. min (?av k) (r k))"
      by (rule sum.remove [symmetric]) (use fin assms(4) in auto)
    finally show ?thesis .
  qed
  have up: "(\<Sum>k \<in> ?K. min (?av k) (requested st k)) \<le> (\<Sum>k \<in> ?K. min (?av k) (requested s1 k))"
  proof (rule sum_mono)
    fix k show "min (?av k) (requested st k) \<le> min (?av k) (requested s1 k)"
      using s(2,3) by (cases "k = ?tk") auto
  qed
  have down: "min (carried key now (sg_min_ready sg) pods st) ?F \<le> (\<Sum>k \<in> ?K. min (?av k) (requested s2 k))"
    using lowered_sum(2) [OF s(5) fin(2) _ fin(1), of ?av] up C [OF s(1)] C [OF reshaped_refl [OF pass(1)]] by auto
  show ?thesis
  proof (cases "sg_desired sg \<le> ?av ?tk")
    case True
    then have "sg_desired sg \<le> requested s3 ?tk" using assms(7) s(3) t3 by simp
    then have "?F \<le> (\<Sum>k \<in> ?K. min (?av k) (requested st' k))"
      using True n3 s(9) by (intro full) auto
    then show ?thesis unfolding C [OF rr] by (rule min.coboundedI2)
  next
    case False
    then have s32: "s3 = s2" using s(7) by simp
    have "(\<Sum>k \<in> ?K. min (?av k) (requested s2 k)) \<le> (\<Sum>k \<in> ?K. min (?av k) (requested st' k))"
      using False s(9) s32 by (intro sum_mono) auto
    with down C [OF rr] show ?thesis by simp
  qed
qed

section \<open>Concrete rollouts\<close>

definition demo_set :: "string \<Rightarrow> int \<Rightarrow> int \<Rightarrow> obj" where
  "demo_set nm rv n =
     \<lparr>o_kind = REPLICASET,
      o_meta = \<lparr>m_name = nm, m_namespace = ''d'', m_uid = ''u'', m_rv = rv, m_generation = 1,
                m_labels = fmempty, m_annotations = fmempty, m_owner = ''Deployment/d/web'',
                m_created_at = 1, m_deleted_at = 0\<rparr>,
      o_spec = fmap_of_list [(''replicas'', JNum (of_int n))], o_status = fmempty\<rparr>"

definition set_pod :: "string \<Rightarrow> string \<Rightarrow> int \<Rightarrow> obj" where
  "set_pod owner nm rv = (web_pod nm rv READY)\<lparr>o_meta := (o_meta (web_pod nm rv READY))\<lparr>m_owner := owner\<rparr>\<rparr>"

definition demo_strategy :: strategy where
  "demo_strategy = \<lparr>sg_surge = 1, sg_unavailable = 0, sg_min_ready = 0, sg_desired = 3\<rparr>"

definition rollout_store :: mem_store where
  \<comment> \<open>the new ReplicaSet is still empty, the old one carries the load\<close>
  "rollout_store = store_of ([demo_set ''a'' 1 0, demo_set ''b'' 2 3] @
     map (\<lambda>(nm, rv). set_pod ''ReplicaSet/d/b'' nm rv) [(''p'', 3), (''q'', 4), (''r'', 5)])"

lemma rollout_pass_ok:
  "pass_ok rollout_store ''Deployment/d/web'' (demo_set ''a'' 1 0) [demo_set ''a'' 1 0, demo_set ''b'' 2 3]"
proof -
  have view: "ms_view rollout_store = (\<lambda>k. map_of (ms_objects rollout_store) k)" by (simp add: ms_view_def)
  have "owned_sets ''Deployment/d/web'' rollout_store = Inr [demo_set ''a'' 1 0, demo_set ''b'' 2 3]"
    by code_simp
  moreover have "ms_tables_ok rollout_store"
    by (simp add: ms_tables_ok_def rollout_store_def demo_set_def set_pod_def web_pod_def store_of_def
        ms_init_def okey_def)
  moreover have "0 \<le> requested rollout_store k" for k
    by (simp add: requested_def rollout_store_def demo_set_def set_pod_def web_pod_def store_of_def
        ms_init_def okey_def ms_view_def replicas_of_def spec_int_def split: option.splits)
  moreover have "ms_view rollout_store (okey (demo_set ''a'' 1 0)) = Some (demo_set ''a'' 1 0)"
    by (simp add: rollout_store_def demo_set_def set_pod_def web_pod_def store_of_def ms_init_def okey_def ms_view_def)
  ultimately show ?thesis by (simp add: pass_ok_def) (simp add: demo_set_def)
qed

definition rollout_result :: "(obj list, mem_store) act \<Rightarrow> mem_store \<Rightarrow> mem_store" where
  "rollout_result m st = snd (m st)"

abbreviation "demo_steps ta \<equiv> dp_scale_steps 9 demo_strategy ''Deployment/d/web'' (demo_set ''a'' 1 0)
   [demo_set ''a'' 1 0, demo_set ''b'' 2 3] (JObj fmempty) ta"

lemma demo_steps_run: "demo_steps 0 rollout_store =
    (Inr (ms_list rollout_store POD None), rollout_result (demo_steps 0) rollout_store)"
proof -
  have "(case demo_steps 0 rollout_store of (Inr fp, _) \<Rightarrow> fp = ms_list rollout_store POD None | _ \<Rightarrow> False)"
    by code_simp
  then show ?thesis unfolding rollout_result_def
    by (cases "demo_steps 0 rollout_store"; cases "fst (demo_steps 0 rollout_store)") auto
qed

lemma demo_pods: "json_list POD (JObj fmempty) rollout_store = Inr (ms_list rollout_store POD (Some fmempty))"
  by (simp add: json_list_def)

theorem surge_bound_witness:
  "total_requested ''Deployment/d/web'' (rollout_result (demo_steps 0) rollout_store) \<le> 4"
proof -
  have "total_requested ''Deployment/d/web'' rollout_store \<le> 4"
  proof -
    have o: "owned_sets ''Deployment/d/web'' rollout_store = Inr [demo_set ''a'' 1 0, demo_set ''b'' 2 3]"
      using rollout_pass_ok by (simp add: pass_ok_def)
    have "3 = total_requested ''Deployment/d/web'' rollout_store"
      unfolding total_requested_def
      by (rule esum_owned [OF owned_sets_set(2,3) [OF _ o], where f = replicas_of])
        (use rollout_pass_ok owned_sets_set(1) [OF _ o] in \<open>auto simp: pass_ok_def esum_def intro!: requested_of\<close>,
         simp_all add: demo_set_def replicas_of_def spec_int_def)
    then show ?thesis by simp
  qed
  with surge_bound [OF rollout_pass_ok demo_pods demo_steps_run] show ?thesis
    by (simp add: demo_strategy_def)
qed

theorem availability_floor_witness:
  "carried ''Deployment/d/web'' 9 0 (ms_list rollout_store POD (Some fmempty)) (rollout_result (demo_steps 0) rollout_store)
     \<ge> min (carried ''Deployment/d/web'' 9 0 (ms_list rollout_store POD (Some fmempty)) rollout_store) 3"
proof -
  have r: "ready_count 9 (sg_min_ready demo_strategy) (ms_list rollout_store POD (Some fmempty)) (okey (demo_set ''a'' 1 0)) = 0"
    by code_simp
  have k: "okey (demo_set ''a'' 1 0) \<in> owned_keys ''Deployment/d/web'' rollout_store"
    using rollout_pass_ok by (auto simp: pass_ok_def owned_keys_def) (simp add: demo_set_def)
  show ?thesis
    using availability_floor [OF rollout_pass_ok demo_pods, of 9 demo_strategy, unfolded r, OF demo_steps_run k]
    by (simp add: demo_strategy_def)
qed

text \<open>
  A rollback in the middle of a rollout breaks the floor.  Three replicas, \<open>maxUnavailable\<close> 0:
  the ReplicaSet rolled back to asks for no pod, but its three pods have not been deleted yet and
  still count as available, so step 3 retires the ReplicaSet that carries the load although the
  target may only be scaled to one.  Three carried replicas become one.
\<close>

theorem fast_rollback_breaks_floor:
  "let st = store_of ([demo_set ''a'' 1 0, demo_set ''b'' 2 3] @
        map (\<lambda>(nm, rv). set_pod ''ReplicaSet/d/b'' nm rv) [(''p'', 3), (''q'', 4), (''r'', 5)] @
        map (\<lambda>(nm, rv). set_pod ''ReplicaSet/d/a'' nm rv) [(''x'', 6), (''y'', 7), (''z'', 8)]);
       ta = ready_count 9 0 (ms_list st POD None) ''ReplicaSet/d/a'';
       st' = rollout_result (demo_steps ta) st;
       carries = (\<lambda>s k. min (ready_count 9 0 (ms_list s POD None) k) (requested s k))
   in ta = 3 \<and> (carries st ''ReplicaSet/d/a'', carries st ''ReplicaSet/d/b'') = (0, 3) \<and>
      (carries st' ''ReplicaSet/d/a'', carries st' ''ReplicaSet/d/b'') = (1, 0)"
  by code_simp

section \<open>The target ReplicaSet and rollback\<close>

text \<open>
  A template that was rolled out before is re-selected.  When an owned ReplicaSet carries the hash
  of the Deployment's template, the pass picks one with that hash and writes nothing; otherwise it
  creates one at zero replicas with a revision above all existing ones, that carries the hash and the
  template it was made from.
\<close>

theorem ensure_target_reuses:
  assumes "ensure_target digest dumps now uid deployment rss selector st = (Inr target, st')"
    "h = digest (dget (o_spec deployment) ''template'' (JObj fmempty))"
    "ms_view st (''ReplicaSet/'' @ m_namespace (o_meta deployment) @ ''/'' @ m_name (o_meta deployment) @ ''-'' @ h) = None"
  shows "if \<exists>rs \<in> set rss. dget (m_labels (o_meta rs)) TEMPLATE_HASH_LABEL JNull = JStr h
    then target \<in> set rss \<and> dget (m_labels (o_meta target)) TEMPLATE_HASH_LABEL JNull = JStr h \<and> st' = st
    else \<exists>revs. emap revision_of rss = Inr revs \<and>
      revision_of target = Inr (foldl max 0 revs + 1) \<and> replicas_of target = Inr 0 \<and>
      m_owner (o_meta target) = okey deployment \<and>
      dget (m_labels (o_meta target)) TEMPLATE_HASH_LABEL JNull = JStr h \<and>
      dget (m_annotations (o_meta target)) TEMPLATE_ANNOTATION JNull =
        JStr (dumps (dget (o_spec deployment) ''template'' (JObj fmempty))) \<and>
      ms_view st' = (ms_view st)(okey target \<mapsto> target)"
proof (cases "filter (\<lambda>rs. dget (m_labels (o_meta rs)) TEMPLATE_HASH_LABEL JNull = JStr h) rss")
  case (Cons rs rest)
  then have "rs \<in> set (filter (\<lambda>rs. dget (m_labels (o_meta rs)) TEMPLATE_HASH_LABEL JNull = JStr h) rss)" by simp
  moreover have "target = rs" "st' = st"
    using assms(1) Cons by (simp_all add: ensure_target_def template_hash_def assms(2) [symmetric])
  ultimately show ?thesis by auto
next
  case Nil
  then have none: "\<not> (\<exists>rs \<in> set rss. dget (m_labels (o_meta rs)) TEMPLATE_HASH_LABEL JNull = JStr h)"
    by (auto simp: filter_empty_conv)
  from assms(1) Nil obtain revs rs where revs: "emap revision_of rss = Inr revs"
    and mk: "make_target digest dumps now uid deployment (foldl max 0 revs + 1) selector = Inr rs"
    and cr: "(case ms_create now rs st of Inr (ob, st') \<Rightarrow> (Inr ob, st') | Inl _ \<Rightarrow> (ms_get st (okey rs), st)) = (Inr target, st')"
    by (auto simp: ensure_target_def template_hash_def assms(2) [symmetric] abind_lift_iff)
  have rs: "okey rs = ''ReplicaSet/'' @ m_namespace (o_meta deployment) @ ''/'' @ m_name (o_meta deployment) @ ''-'' @ h"
    "revision_of rs = Inr (foldl max 0 revs + 1)" "replicas_of rs = Inr 0" "m_owner (o_meta rs) = okey deployment"
    "dget (m_labels (o_meta rs)) TEMPLATE_HASH_LABEL JNull = JStr h"
    "dget (m_annotations (o_meta rs)) TEMPLATE_ANNOTATION JNull =
        JStr (dumps (dget (o_spec deployment) ''template'' (JObj fmempty)))"
    using mk by (auto simp: make_target_def Let_def ebind_Inr_iff new_object_def okey_def template_hash_def
        assms(2) revision_of_def replicas_of_def spec_int_def)
  have "ms_view st (okey rs) = None" using assms(3) rs(1) by simp
  then obtain s1 ob where "ms_create now rs st = Inr (ob, s1)" using mem.create_fresh by blast
  with cr have c: "ms_create now rs st = Inr (target, st')" by simp
  note cd = ms_create_InrD [OF c]
  have "okey target = okey rs" using cd by simp
  with cd rs revs none show ?thesis by (auto simp: revision_of_def replicas_of_def spec_int_def)
qed

definition demo_deployment :: obj where
  "demo_deployment = \<lparr>o_kind = DEPLOYMENT,
      o_meta = \<lparr>m_name = ''web'', m_namespace = ''d'', m_uid = ''u'', m_rv = 1, m_generation = 1,
                m_labels = fmempty, m_annotations = fmempty, m_owner = [], m_created_at = 1, m_deleted_at = 0\<rparr>,
      o_spec = fmempty, o_status = fmempty\<rparr>"

theorem ensure_target_reuses_witness:
  "\<exists>target st'. ensure_target (\<lambda>t. ''h'') (\<lambda>t. ''{}'') 5 ''u2'' demo_deployment [] (JObj fmempty) (ms_init 4)
      = (Inr target, st') \<and> replicas_of target = Inr 0 \<and> revision_of target = Inr 1"
proof -
  let ?m = "ensure_target (\<lambda>t. ''h'') (\<lambda>t. ''{}'') 5 ''u2'' demo_deployment [] (JObj fmempty) (ms_init 4)"
  have "case fst ?m of Inr _ \<Rightarrow> True | Inl _ \<Rightarrow> False" by code_simp
  then obtain target st' where m: "?m = (Inr target, st')" by (cases ?m; cases "fst ?m") auto
  have "ms_view (ms_init 4) k = None" for k by (simp add: ms_view_def ms_init_def)
  from ensure_target_reuses [OF m refl this] m show ?thesis by auto
qed

lemma revisions_sound:
  assumes "revisions st key = Inr history" "(r, rs) \<in> set history" "ms_tables_ok st"
  shows "revision_of rs = Inr r \<and> ms_view st (okey rs) = Some rs \<and> o_kind rs = REPLICASET \<and> m_owner (o_meta rs) = key"
proof -
  let ?l = "filter (\<lambda>rs. m_owner (o_meta rs) = key) (ms_list st REPLICASET None)"
  obtain out where out: "emap (\<lambda>rs. ebind (revision_of rs) (\<lambda>r. Inr (r, rs))) ?l = Inr out" "history = sort_key fst out"
    using assms(1) by (auto simp: revisions_def ebind_Inr_iff)
  have "\<forall>r rs. (r, rs) \<in> set out \<longrightarrow> rs \<in> set xs \<and> revision_of rs = Inr r"
    if "emap (\<lambda>rs. ebind (revision_of rs) (\<lambda>r. Inr (r, rs))) xs = Inr out" for xs out
    using that by (induction xs arbitrary: out) (auto simp: ebind_Inr_iff)
  from this [OF out(1)] assms(2) out(2) have "rs \<in> set ?l" "revision_of rs = Inr r" by auto
  then show ?thesis by (auto simp: ms_list_iff [OF assms(3)] selected_def)
qed

lemma rollback_choice_in:
  "rollback_choice h to history = Inr (r, rs) \<Longrightarrow> (r, rs) \<in> set history \<and>
     (case to of None \<Rightarrow> dget (m_labels (o_meta rs)) TEMPLATE_HASH_LABEL JNull \<noteq> JStr h | Some v \<Rightarrow> r = v)"
proof (cases "to")
  case None
  assume c: "rollback_choice h to history = Inr (r, rs)"
  let ?f = "filter (\<lambda>(rev, rs). dget (m_labels (o_meta rs)) TEMPLATE_HASH_LABEL JNull \<noteq> JStr h) history"
  from c None have "?f \<noteq> []" "(r, rs) = last ?f"
    by (auto simp: rollback_choice_def split: list.splits)
  then have "(r, rs) \<in> set ?f" by (metis last_in_set)
  with None show ?thesis by auto
next
  case (Some v)
  assume c: "rollback_choice h to history = Inr (r, rs)"
  let ?f = "filter (\<lambda>(rev, rs). rev = v) history"
  from c Some obtain rest where "?f = (r, rs) # rest" by (auto simp: rollback_choice_def split: list.splits)
  then have "(r, rs) \<in> set ?f" by simp
  with Some show ?thesis by auto
qed

text \<open>
  C16: rollback restores the template of an existing revision.  When every ReplicaSet of the
  Deployment records the template it was made from next to its hash (as \<open>_ensure_target\<close> writes
  them) and the JSON library reads back what it wrote, a successful rollback leaves the Deployment
  with the template of an owned ReplicaSet of the returned revision, which carries exactly the hash
  that the next pass looks for; without an explicit revision it is not the current template.
\<close>

theorem rollback_restores_revision:
  assumes "ms_tables_ok st" "rollback digest loads key to_revision st = (Inr revision, st')"
    "ms_view st key = Some deployment"
    "\<And>rs. ms_view st (okey rs) = Some rs \<Longrightarrow> m_owner (o_meta rs) = key \<Longrightarrow> o_kind rs = REPLICASET \<Longrightarrow>
       \<exists>t. dget (m_annotations (o_meta rs)) TEMPLATE_ANNOTATION JNull = JStr (dumps t) \<and>
           dget (m_labels (o_meta rs)) TEMPLATE_HASH_LABEL JNull = JStr (digest t) \<and> loads (dumps t) = Inr t"
  shows "\<exists>rs t deployment'. ms_view st (okey rs) = Some rs \<and> m_owner (o_meta rs) = key \<and>
     revision_of rs = Inr revision \<and> dget (m_labels (o_meta rs)) TEMPLATE_HASH_LABEL JNull = JStr (digest t) \<and>
     ms_view st' = (ms_view st)(key \<mapsto> deployment') \<and>
     dget (o_spec deployment') ''template'' (JObj fmempty) = t \<and>
     (to_revision = None \<longrightarrow> digest t \<noteq> digest (dget (o_spec deployment) ''template'' (JObj fmempty))) \<and>
     (\<forall>v. to_revision = Some v \<longrightarrow> revision = v)"
proof -
  let ?h = "digest (dget (o_spec deployment) ''template'' (JObj fmempty))"
  obtain history where h: "revisions st key = Inr history" "\<not> length history < 2"
    and run: "abind (\<lambda>st. (ms_get st key, st)) (\<lambda>deployment.
         abind (alift (rollback_choice
             (template_hash digest (dget (o_spec deployment) ''template'' (JObj fmempty)))
             to_revision history)) (\<lambda>(revision, target).
           (case dget (m_annotations (o_meta target)) TEMPLATE_ANNOTATION JNull of
              JStr stored \<Rightarrow>
                if stored = [] then alift (Inl (ValueError ''predates template recording''))
                else abind (alift (loads stored)) (\<lambda>template.
                     abind (ms_retry quiet key (set_template template) attempts) (\<lambda>_.
                       aret revision))
            | _ \<Rightarrow> alift (Inl (ValueError ''predates template recording''))))) st = (Inr revision, st')"
    using assms(2) unfolding rollback_def by (auto elim!: abindE split: if_splits)
  have "ms_get st key = Inr deployment" using assms(3) by (simp add: mem.get_eq)
  with run obtain r rs where ch: "rollback_choice ?h to_revision history = Inr (r, rs)"
    and rest: "(case dget (m_annotations (o_meta rs)) TEMPLATE_ANNOTATION JNull of
              JStr stored \<Rightarrow>
                if stored = [] then alift (Inl (ValueError ''predates template recording''))
                else abind (alift (loads stored)) (\<lambda>template.
                     abind (ms_retry quiet key (set_template template) attempts) (\<lambda>_.
                       aret r))
            | _ \<Rightarrow> alift (Inl (ValueError ''predates template recording''))) st = (Inr revision, st')"
    by (simp add: template_hash_def abind_lift_iff) (elim exE conjE, rule that, assumption+)
  obtain stored template where
    ann: "dget (m_annotations (o_meta rs)) TEMPLATE_ANNOTATION JNull = JStr stored" "loads stored = Inr template"
    and wr: "abind (ms_retry quiet key (set_template template) attempts) (\<lambda>_. aret r) st = (Inr revision, st')"
    using rest by (cases "dget (m_annotations (o_meta rs)) TEMPLATE_ANNOTATION JNull")
      (auto simp: abind_lift_iff split: if_splits)
  note c = rollback_choice_in [OF ch]
  note rs = revisions_sound [OF h(1) conjunct1 [OF c] assms(1)]
  obtain t where t: "dget (m_annotations (o_meta rs)) TEMPLATE_ANNOTATION JNull = JStr (dumps t)"
    "dget (m_labels (o_meta rs)) TEMPLATE_HASH_LABEL JNull = JStr (digest t)" "loads (dumps t) = Inr t"
    using assms(4) rs by blast
  have tt: "template = t" using ann t(1,3) by simp
  have keeps: "keeps_identity (set_template template)"
    by (auto simp: keeps_identity_def set_template_def)
  define cand where "cand = deployment\<lparr>o_spec := fmupd ''template'' template (o_spec deployment)\<rparr>"
  obtain s1 where u: "ms_update cand st = Inr (committed deployment cand (ms_revision st + 1), s1)"
    "ms_retry quiet key (set_template template) attempts st = (Inr (Some (committed deployment cand (ms_revision st + 1))), s1)"
    "okey cand = key"
    using ms_retry_quiet_cases [OF assms(1) keeps, of key] assms(3) by (auto simp: set_template_def cand_def)
  have fin: "st' = s1" "revision = r" using wr u(2) by auto
  have view: "ms_view st' = (ms_view st)(key \<mapsto> committed deployment cand (ms_revision st + 1))"
    using u fin by (auto elim: ms_update_InrD)
  have "dget (o_spec (committed deployment cand (ms_revision st + 1))) ''template'' (JObj fmempty) = t"
    by (simp add: tt [symmetric]) (simp add: cand_def)
  moreover have "digest t \<noteq> ?h" if "to_revision = None" using c t(2) that by auto
  moreover have "revision = v" if "to_revision = Some v" for v using c fin that by auto
  ultimately show ?thesis using rs t(2) view fin by blast
qed


definition recorded_set :: "string \<Rightarrow> int \<Rightarrow> string \<Rightarrow> string \<Rightarrow> obj" where
  \<comment> \<open>a ReplicaSet with its revision, template text and hash\<close>
  "recorded_set nm rv text h = (demo_set nm rv 0)\<lparr>o_meta := (o_meta (demo_set nm rv 0))
     \<lparr>m_annotations := fmap_of_list [(REVISION_ANNOTATION, JStr (str_int rv)), (TEMPLATE_ANNOTATION, JStr text)],
      m_labels := fmap_of_list [(TEMPLATE_HASH_LABEL, JStr h)]\<rparr>\<rparr>"

definition toy_digest :: "json \<Rightarrow> string" where
  "toy_digest t = (if t = JBool True then ''h2'' else ''h1'')"

definition toy_dumps :: "json \<Rightarrow> string" where
  "toy_dumps t = (if t = JBool True then ''true'' else ''{}'')"

definition toy_loads :: "string \<Rightarrow> json res" where
  "toy_loads s = Inr (if s = ''true'' then JBool True else JObj fmempty)"

definition rollback_store :: mem_store where
  "rollback_store = store_of [recorded_set ''a'' 1 ''{}'' ''h1'', recorded_set ''b'' 2 ''true'' ''h2'',
     demo_deployment\<lparr>o_spec := fmap_of_list [(''template'', JBool True)],
                     o_meta := (o_meta demo_deployment)\<lparr>m_rv := 3\<rparr>\<rparr>]"

theorem rollback_restores_revision_witness:
  "case rollback toy_digest toy_loads ''Deployment/d/web'' None rollback_store of
     (Inr revision, st') \<Rightarrow> (\<exists>dep t. ms_view st' ''Deployment/d/web'' = Some dep \<and>
        dget (o_spec dep) ''template'' (JObj fmempty) = t \<and> toy_digest t \<noteq> ''h2'')
   | (Inl e, _) \<Rightarrow> False"
proof -
  let ?m = "rollback toy_digest toy_loads ''Deployment/d/web'' None rollback_store"
  have "case fst ?m of Inr _ \<Rightarrow> True | Inl _ \<Rightarrow> False" by code_simp
  then obtain revision st' where m: "?m = (Inr revision, st')" by (cases ?m; cases "fst ?m") auto
  have ok: "ms_tables_ok rollback_store"
    by (simp add: ms_tables_ok_def rollback_store_def recorded_set_def demo_set_def demo_deployment_def store_of_def
        ms_init_def okey_def)
  have objs: "\<exists>t. dget (m_annotations (o_meta rs)) TEMPLATE_ANNOTATION JNull = JStr (toy_dumps t) \<and>
      dget (m_labels (o_meta rs)) TEMPLATE_HASH_LABEL JNull = JStr (toy_digest t) \<and> toy_loads (toy_dumps t) = Inr t"
    if "ms_view rollback_store (okey rs) = Some rs" "o_kind rs = REPLICASET" for rs
  proof -
    from that(1) have "(okey rs, rs) \<in> set (ms_objects rollback_store)" by (simp add: ms_view_def map_of_SomeD)
    with that(2) consider "rs = recorded_set ''a'' 1 ''{}'' ''h1''" | "rs = recorded_set ''b'' 2 ''true'' ''h2''"
      by (auto simp: rollback_store_def store_of_def demo_deployment_def)
    then show ?thesis
      by cases (rule exI [of _ "JObj fmempty"], simp add: recorded_set_def toy_digest_def toy_dumps_def toy_loads_def,
          rule exI [of _ "JBool True"], simp add: recorded_set_def toy_digest_def toy_dumps_def toy_loads_def)
  qed
  have dep: "ms_view rollback_store ''Deployment/d/web'' =
      Some (demo_deployment\<lparr>o_spec := fmap_of_list [(''template'', JBool True)],
                     o_meta := (o_meta demo_deployment)\<lparr>m_rv := 3\<rparr>\<rparr>)"
    by (simp add: rollback_store_def store_of_def ms_view_def ms_init_def recorded_set_def demo_set_def
        demo_deployment_def okey_def)
  obtain t dep' where r: "ms_view st' = (ms_view rollback_store)(''Deployment/d/web'' \<mapsto> dep')"
    "dget (o_spec dep') ''template'' (JObj fmempty) = t"
    "toy_digest t \<noteq> toy_digest (dget (o_spec (demo_deployment\<lparr>o_spec := fmap_of_list [(''template'', JBool True)],
                     o_meta := (o_meta demo_deployment)\<lparr>m_rv := 3\<rparr>\<rparr>)) ''template'' (JObj fmempty))"
    using rollback_restores_revision [OF ok m dep, of toy_dumps] objs by blast
  have "toy_digest t \<noteq> ''h2''" using r(3) by (simp add: toy_digest_def)
  with m r(1,2) show ?thesis by simp
qed

end
