(* ===== verification/Task_Heap.thy ===== *)
theory Task_Heap
  imports Platform_Prelude
begin

text \<open>
  \<open>heapq\<close> of the standard library, which the task queue keeps its entries with: a list in which no
  element is below its parent.  \<open>heappush\<close> appends and sifts towards the root, \<open>heappop\<close> moves the last
  element to the root, sifts it down to a leaf along the smaller children and then back up, as the
  library does.  The interface that the queue relies on is the locale \<open>min_queue\<close>; it is
  interpreted on the list operations at the end.
\<close>

section \<open>The operations\<close>

definition parent :: "nat \<Rightarrow> nat" where
  "parent i = (i - 1) div 2"

lemma parent_less [termination_simp]: "0 < p \<Longrightarrow> parent p < p"
  by (auto simp: parent_def)

definition swap_at :: "'a list \<Rightarrow> nat \<Rightarrow> nat \<Rightarrow> 'a list" where
  "swap_at h i j = h[i := h ! j, j := h ! i]"

text \<open>\<open>_siftdown(heap, 0, pos)\<close>: the element at \<open>pos\<close> changes places with greater parents.\<close>

fun sift_to_root :: "('a \<Rightarrow> 'k::linorder) \<Rightarrow> nat \<Rightarrow> 'a list \<Rightarrow> 'a list" where
  "sift_to_root k p h =
     (if 0 < p \<and> k (h ! p) < k (h ! parent p)
      then sift_to_root k (parent p) (swap_at h p (parent p)) else h)"

declare sift_to_root.simps [simp del]

text \<open>The child of \<open>p\<close> that \<open>_siftup\<close> follows: the right one unless the left one is smaller.\<close>

definition small_child :: "('a \<Rightarrow> 'k::linorder) \<Rightarrow> nat \<Rightarrow> 'a list \<Rightarrow> nat" where
  "small_child k p h =
     (let l = 2 * p + 1; r = l + 1 in
      if r < length h \<and> \<not> k (h ! l) < k (h ! r) then r else l)"

function sift_to_leaf :: "('a \<Rightarrow> 'k::linorder) \<Rightarrow> nat \<Rightarrow> 'a list \<Rightarrow> nat \<times> 'a list" where
  "sift_to_leaf k p h =
     (if 2 * p + 1 < length h
      then sift_to_leaf k (small_child k p h) (swap_at h p (small_child k p h)) else (p, h))"
  by pat_completeness auto
termination
  by (relation "measure (\<lambda>(k, p, h). length h - p)") (auto simp: small_child_def swap_at_def Let_def)

declare sift_to_leaf.simps [simp del]

definition heappush :: "('a \<Rightarrow> 'k::linorder) \<Rightarrow> 'a \<Rightarrow> 'a list \<Rightarrow> 'a list" where
  "heappush k x h = sift_to_root k (length h) (h @ [x])"

definition heappop :: "('a \<Rightarrow> 'k::linorder) \<Rightarrow> 'a list \<Rightarrow> ('a \<times> 'a list) res" where
  "heappop k h =
     (if h = [] then Inl (IndexError ''index out of range'')
      else (let x = last h; rest = butlast h in
            if rest = [] then Inr (x, [])
            else (case sift_to_leaf k 0 (rest[0 := x]) of (p, h') \<Rightarrow>
                    Inr (hd rest, sift_to_root k p h'))))"

section \<open>Contents\<close>

lemma swap_length [simp]: "length (swap_at h i j) = length h"
  by (simp add: swap_at_def)

lemma swap_nth:
  "i < length h \<Longrightarrow> j < length h \<Longrightarrow> n < length h \<Longrightarrow>
   swap_at h i j ! n = (if n = j then h ! i else if n = i then h ! j else h ! n)"
  by (simp add: swap_at_def nth_list_update)

lemma swap_mset: "i < length h \<Longrightarrow> j < length h \<Longrightarrow> mset (swap_at h i j) = mset h"
  by (simp add: swap_at_def mset_swap)

lemma sift_to_root_mset: "p < length h \<Longrightarrow> mset (sift_to_root k p h) = mset h"
proof (induction k p h rule: sift_to_root.induct)
  case (1 k p h)
  show ?case
  proof (cases "0 < p \<and> k (h ! p) < k (h ! parent p)")
    case True
    then have "parent p < length h" using 1 parent_less [of p] by simp
    with 1 True show ?thesis by (subst sift_to_root.simps) (simp add: swap_mset)
  next
    case False
    then show ?thesis by (subst sift_to_root.simps) auto
  qed
qed

lemma small_child_cases:
  "2 * p + 1 < length h \<Longrightarrow> small_child k p h < length h \<and> parent (small_child k p h) = p \<and> 0 < small_child k p h"
  by (auto simp: small_child_def Let_def parent_def)

lemma small_child_least:
  "2 * p + 1 < length h \<Longrightarrow> 0 < i \<Longrightarrow> i < length h \<Longrightarrow> parent i = p \<Longrightarrow>
   k (h ! small_child k p h) \<le> k (h ! i)"
proof -
  assume a: "2 * p + 1 < length h" "0 < i" "i < length h" "parent i = p"
  then have "i = 2 * p + 1 \<or> i = 2 * p + 2" by (auto simp: parent_def)
  with a show ?thesis by (auto simp: small_child_def Let_def)
qed

lemma sift_to_leaf_mset:
  "p < length h \<Longrightarrow> sift_to_leaf k p h = (q, h') \<Longrightarrow> mset h' = mset h \<and> q < length h' \<and> \<not> 2 * q + 1 < length h'"
proof (induction k p h rule: sift_to_leaf.induct)
  case (1 k p h)
  show ?case
  proof (cases "2 * p + 1 < length h")
    case True
    then have c: "small_child k p h < length h" using small_child_cases by blast
    have "sift_to_leaf k (small_child k p h) (swap_at h p (small_child k p h)) = (q, h')"
      using 1(3) True by (subst (asm) sift_to_leaf.simps) simp
    with 1(1) [OF True] c have "mset h' = mset (swap_at h p (small_child k p h)) \<and> q < length h' \<and> \<not> 2 * q + 1 < length h'"
      by simp
    then show ?thesis using 1(2) c by (simp add: swap_mset)
  next
    case False
    with 1 show ?thesis by (subst (asm) sift_to_leaf.simps) simp
  qed
qed

section \<open>Heap order\<close>

definition is_heap :: "('a \<Rightarrow> 'k::linorder) \<Rightarrow> 'a list \<Rightarrow> bool" where
  "is_heap k h = (\<forall>i < length h. 0 < i \<longrightarrow> k (h ! parent i) \<le> k (h ! i))"

text \<open>Heap order except for the edges at \<open>p\<close>; the parent of \<open>p\<close> is below the children of \<open>p\<close>.\<close>

definition hole :: "('a \<Rightarrow> 'k::linorder) \<Rightarrow> nat \<Rightarrow> 'a list \<Rightarrow> bool" where
  "hole k p h =
     ((\<forall>i < length h. 0 < i \<longrightarrow> i \<noteq> p \<longrightarrow> parent i \<noteq> p \<longrightarrow> k (h ! parent i) \<le> k (h ! i)) \<and>
      (\<forall>i < length h. 0 < i \<longrightarrow> parent i = p \<longrightarrow> 0 < p \<longrightarrow> k (h ! parent p) \<le> k (h ! i)))"

definition below_children :: "('a \<Rightarrow> 'k::linorder) \<Rightarrow> nat \<Rightarrow> 'a list \<Rightarrow> bool" where
  "below_children k p h = (\<forall>i < length h. 0 < i \<longrightarrow> parent i = p \<longrightarrow> k (h ! p) \<le> k (h ! i))"

lemma heap_root_least: "is_heap k h \<Longrightarrow> i < length h \<Longrightarrow> k (h ! 0) \<le> k (h ! i)"
proof (induction i rule: less_induct)
  case (less i)
  show ?case
  proof (cases "i = 0")
    case False
    then have p: "parent i < i" by (simp add: parent_less)
    have "k (h ! 0) \<le> k (h ! parent i)" by (rule less.IH [OF p less.prems(1)]) (use p less.prems in simp)
    also have "\<dots> \<le> k (h ! i)" using less.prems False by (simp add: is_heap_def)
    finally show ?thesis .
  qed simp
qed

lemma heap_no_hole: "hole k p h \<Longrightarrow> below_children k p h \<Longrightarrow> p = 0 \<or> k (h ! parent p) \<le> k (h ! p) \<Longrightarrow> is_heap k h"
  unfolding is_heap_def hole_def below_children_def by (metis less_irrefl)

lemma sift_to_root_heap:
  "p < length h \<Longrightarrow> hole k p h \<Longrightarrow> below_children k p h \<Longrightarrow> is_heap k (sift_to_root k p h)"
proof (induction k p h rule: sift_to_root.induct)
  case (1 k p h)
  show ?case
  proof (cases "0 < p \<and> k (h ! p) < k (h ! parent p)")
    case False
    then have "p = 0 \<or> k (h ! parent p) \<le> k (h ! p)" by auto
    with heap_no_hole [OF 1(3,4)] False show ?thesis by (subst sift_to_root.simps) auto
  next
    case True
    let ?q = "parent p" and ?g = "swap_at h p (parent p)"
    have q: "?q < length h" "?q < p" using True 1(2) parent_less [of p] by auto
    note nth = swap_nth [OF 1(2) q(1)]
    have out: "k (h ! parent i) \<le> k (h ! i)" if "i < length h" "0 < i" "i \<noteq> p" "parent i \<noteq> p" for i
      using 1(3) that by (auto simp: hole_def)
    have kids: "k (h ! ?q) \<le> k (h ! i)" if "i < length h" "0 < i" "parent i = p" for i
      using 1(3) that True by (auto simp: hole_def)
    have "hole k ?q ?g"
      unfolding hole_def
    proof (intro conjI allI impI)
      fix i assume i: "i < length ?g" "0 < i" "i \<noteq> ?q" "parent i \<noteq> ?q"
      show "k (?g ! parent i) \<le> k (?g ! i)"
      proof (cases "i = p")
        case True then show ?thesis using i by simp
      next
        case ip: False
        have pl: "parent i < length h" using i parent_less [of i] by simp
        show ?thesis
          using i ip pl out [of i] kids [of i] by (cases "parent i = p") (auto simp: nth)
      qed
    next
      fix i assume i: "i < length ?g" "0 < i" "parent i = ?q" "0 < ?q"
      have pq: "parent ?q < length h" "parent ?q \<noteq> ?q" "parent ?q \<noteq> p"
        using parent_less [OF i(4)] q by auto
      have iq: "i \<noteq> ?q" using i parent_less [of i] by auto
      have up: "k (h ! parent ?q) \<le> k (h ! ?q)" by (rule out) (use q i(4) pq in auto)
      have "k (h ! ?q) \<le> k (h ! i)" if "i \<noteq> p" using out [of i] that i q by auto
      with up i iq pq show "k (?g ! parent ?q) \<le> k (?g ! i)" by (cases "i = p") (auto simp: nth intro: order_trans)
    qed
    moreover have "below_children k ?q ?g"
      unfolding below_children_def
    proof (intro allI impI)
      fix i assume i: "i < length ?g" "0 < i" "parent i = ?q"
      have iq: "i \<noteq> ?q" using i parent_less [of i] by auto
      have le: "k (h ! p) \<le> k (h ! ?q)" using True by (simp add: less_imp_le)
      have "k (h ! ?q) \<le> k (h ! i)" if "i \<noteq> p" using out [of i] that i q by auto
      with le i iq q show "k (?g ! ?q) \<le> k (?g ! i)" by (cases "i = p") (auto simp: nth intro: order_trans)
    qed
    ultimately have "is_heap k (sift_to_root k ?q ?g)" using 1(1) [OF True] q by simp
    then show ?thesis using True by (subst sift_to_root.simps) simp
  qed
qed

lemma sift_to_leaf_hole:
  "p < length h \<Longrightarrow> hole k p h \<Longrightarrow> sift_to_leaf k p h = (q, h') \<Longrightarrow> hole k q h'"
proof (induction k p h rule: sift_to_leaf.induct)
  case (1 k p h)
  show ?case
  proof (cases "2 * p + 1 < length h")
    case False
    with 1 show ?thesis by (subst (asm) sift_to_leaf.simps) simp
  next
    case True
    let ?c = "small_child k p h"
    let ?g = "swap_at h p ?c"
    have c: "?c < length h" "parent ?c = p" "0 < ?c" using small_child_cases [OF True, of k] by auto
    have pc: "p < ?c" using parent_less [OF c(3)] c(2) by simp
    note nth = swap_nth [OF 1(2) c(1)]
    have least: "k (h ! ?c) \<le> k (h ! i)" if "0 < i" "i < length h" "parent i = p" for i
      by (rule small_child_least [OF True that])
    have out: "k (h ! parent i) \<le> k (h ! i)" if "i < length h" "0 < i" "i \<noteq> p" "parent i \<noteq> p" for i
      using 1(3) that by (auto simp: hole_def)
    have "hole k ?c ?g"
      unfolding hole_def
    proof (intro conjI allI impI)
      fix i assume i: "i < length ?g" "0 < i" "i \<noteq> ?c" "parent i \<noteq> ?c"
      have pl: "parent i < length h" "parent i < i" using i parent_less [of i] by auto
      show "k (?g ! parent i) \<le> k (?g ! i)"
      proof (cases "i = p")
        case ip: True
        then have "k (h ! parent p) \<le> k (h ! ?c)" using 1(3) c i by (auto simp: hole_def)
        with ip i pl show ?thesis by (auto simp: nth)
      next
        case ip: False
        show ?thesis
          using i ip pl out [of i] least [of i] by (cases "parent i = p") (auto simp: nth)
      qed
    next
      fix i assume i: "i < length ?g" "0 < i" "parent i = ?c" "0 < ?c"
      have "i \<noteq> ?c" "i \<noteq> p" using i parent_less [of i] pc by auto
      moreover have "k (h ! parent i) \<le> k (h ! i)" by (rule out) (use i calculation pc in auto)
      ultimately show "k (?g ! parent ?c) \<le> k (?g ! i)" using i c pc 1(2) by (auto simp: nth)
    qed
    moreover have "sift_to_leaf k ?c ?g = (q, h')"
      using 1(4) True by (subst (asm) sift_to_leaf.simps) simp
    ultimately show ?thesis using 1(1) [OF True] c by simp
  qed
qed

lemma heappush_mset: "mset (heappush k x h) = add_mset x (mset h)"
  by (simp add: heappush_def sift_to_root_mset)

lemma heappush_heap: "is_heap k h \<Longrightarrow> is_heap k (heappush k x h)"
proof -
  assume a: "is_heap k h"
  have leaf: "\<not> (i < length (h @ [x]) \<and> 0 < i \<and> parent i = length h)" for i
    by (auto simp: parent_def)
  have "hole k (length h) (h @ [x])"
    unfolding hole_def
  proof (intro conjI allI impI)
    fix i assume i: "i < length (h @ [x])" "0 < i" "i \<noteq> length h" "parent i \<noteq> length h"
    then have "i < length h" "parent i < length h" using parent_less [of i] by auto
    with a i show "k ((h @ [x]) ! parent i) \<le> k ((h @ [x]) ! i)" by (simp add: nth_append is_heap_def)
  qed (use leaf in blast)
  moreover have "below_children k (length h) (h @ [x])" using leaf by (auto simp: below_children_def)
  ultimately show ?thesis unfolding heappush_def by (intro sift_to_root_heap) auto
qed

lemma heappop_spec:
  assumes "is_heap k h" "h \<noteq> []"
  shows "\<exists>h'. heappop k h = Inr (hd h, h') \<and> is_heap k h' \<and> mset h = add_mset (hd h) (mset h')"
proof (cases "butlast h = []")
  case True
  then have h1: "h = [hd h]" using assms(2) by (cases h) (auto split: if_splits)
  have "last h = hd h" by (subst h1) simp
  then show ?thesis using True assms(2) h1 by (auto simp: heappop_def is_heap_def)
next
  case False
  let ?r = "butlast h" and ?x = "last h"
  let ?g = "?r[0 := ?x]"
  obtain p h1 where s: "sift_to_leaf k 0 ?g = (p, h1)" by fastforce
  have h: "h = ?r @ [?x]" using assms(2) by simp
  have hd: "hd ?r = hd h" using False by (subst (2) h) simp
  have g: "0 < length ?g" using False by (simp only: length_list_update length_greater_0_conv not_False_eq_True)
  have "hole k 0 ?g"
    unfolding hole_def
  proof (intro conjI allI impI)
    fix i assume i: "i < length ?g" "0 < i" "i \<noteq> 0" "parent i \<noteq> 0"
    then have l: "i < length h" "i < length ?r" "parent i < length ?r" using parent_less [of i] by auto
    have "k (h ! parent i) \<le> k (h ! i)" using assms(1) l i by (auto simp: is_heap_def)
    moreover have "h ! n = ?r ! n" if "n < length ?r" for n using that by (simp add: nth_butlast)
    ultimately show "k (?g ! parent i) \<le> k (?g ! i)" using l i by (simp add: nth_list_update)
  qed simp
  then have hole: "hole k p h1" by (rule sift_to_leaf_hole [OF g _ s])
  have m: "mset h1 = mset ?g" "p < length h1" "\<not> 2 * p + 1 < length h1" using sift_to_leaf_mset [OF g s] by auto
  have "below_children k p h1" using m(3) by (auto simp: below_children_def parent_def)
  then have heap: "is_heap k (sift_to_root k p h1)" by (rule sift_to_root_heap [OF m(2) hole])
  have "mset ?g = add_mset ?x (mset ?r) - {#hd h#}"
    using False hd by (cases ?r) auto
  moreover have "add_mset ?x (mset ?r) = mset h" by (subst (3) h) simp
  moreover have "hd h \<in># mset h" using assms(2) by simp
  ultimately have "mset h = add_mset (hd h) (mset (sift_to_root k p h1))"
    using m by (simp add: sift_to_root_mset)
  then show ?thesis using False assms(2) s heap hd by (simp add: heappop_def Let_def)
qed

section \<open>The interface\<close>

locale min_queue =
  fixes key :: "'a \<Rightarrow> 'k::linorder"
    and push :: "'a \<Rightarrow> 'a list \<Rightarrow> 'a list"
    and pop :: "'a list \<Rightarrow> ('a \<times> 'a list) res"
    and good :: "'a list \<Rightarrow> bool"
  assumes good_empty: "good []"
    and push_good: "good h \<Longrightarrow> good (push x h)"
    and push_mset: "good h \<Longrightarrow> mset (push x h) = add_mset x (mset h)"
    and pop_head: "good h \<Longrightarrow> h \<noteq> [] \<Longrightarrow> \<exists>h'. pop h = Inr (hd h, h') \<and> good h' \<and> mset h = add_mset (hd h) (mset h')"
    and head_least: "good h \<Longrightarrow> x \<in> set h \<Longrightarrow> key (hd h) \<le> key x"
begin

lemma push_ne: "good h \<Longrightarrow> push x h \<noteq> []"
  using push_mset [of h x] by auto

lemma push_length: "good h \<Longrightarrow> length (push x h) = Suc (length h)"
  using push_mset [of h x] by (metis size_add_mset size_mset)

lemma pop_good: "good h \<Longrightarrow> pop h = Inr (x, h') \<Longrightarrow> h \<noteq> [] \<Longrightarrow>
    good h' \<and> x = hd h \<and> mset h = add_mset x (mset h') \<and> Suc (length h') = length h"
proof -
  assume a: "good h" "pop h = Inr (x, h')" "h \<noteq> []"
  obtain h2 where "pop h = Inr (hd h, h2)" "good h2" "mset h = add_mset (hd h) (mset h2)"
    using pop_head [OF a(1,3)] by blast
  moreover have "Suc (length h2) = length h" by (metis calculation(3) size_add_mset size_mset)
  ultimately show ?thesis using a by simp
qed

text \<open>Popping as long as there is something gives the contents in the order of their keys.\<close>

fun drain :: "nat \<Rightarrow> 'a list \<Rightarrow> 'a list" where
  "drain 0 h = []"
| "drain (Suc n) h = (case pop h of Inl e \<Rightarrow> [] | Inr (x, h') \<Rightarrow> x # drain n h')"

lemma drain_sorted:
  "good h \<Longrightarrow> n = length h \<Longrightarrow> mset (drain n h) = mset h \<and> sorted (map key (drain n h))"
proof (induction n h rule: drain.induct)
  case (2 n h)
  then have "h \<noteq> []" by auto
  with pop_head [OF 2(2)] obtain h' where p: "pop h = Inr (hd h, h')" "good h'" "mset h = add_mset (hd h) (mset h')"
    by blast
  have len: "n = length h'" using p(3) 2(3) by (metis size_add_mset size_mset nat.inject)
  have IH: "mset (drain n h') = mset h' \<and> sorted (map key (drain n h'))"
    using 2(1) [OF p(1) refl p(2) len] .
  have "set (drain n h') \<subseteq> set h" using IH p(3) by (metis mset_eq_setD set_mset_add_mset_insert set_mset_mset subset_insertI)
  then show ?case using IH p 2(2) head_least by (auto simp del: set_mset_mset)
qed simp

end

interpretation hq: min_queue k "heappush k" "heappop k" "is_heap k"
  for k :: "'a \<Rightarrow> 'k::linorder"
proof unfold_locales
  show "is_heap k []" by (simp add: is_heap_def)
  show "is_heap k h \<Longrightarrow> x \<in> set h \<Longrightarrow> k (hd h) \<le> k x" for h x
    using heap_root_least [of k h] by (metis hd_conv_nth in_set_conv_nth length_greater_0_conv length_pos_if_in_set)
qed (auto simp: heappush_heap heappush_mset intro: heappop_spec)

end
