(* ===== verification/Task_Queue.thy ===== *)
theory Task_Queue
  imports Task_Heap
begin

text \<open>
  The broker's priority queue, \<open>modules/taskqueue/taskqueue/broker/queue.py\<close>, and the \<open>Task\<close> of
  \<open>config.py\<close>: one heap per queue name with the count kept beside it, and the SQLite table that
  lets a broker recover its queues.  A table is the list of its rows in insertion order; rows that
  the \<open>ORDER BY\<close> does not separate come in that order.  A broker without a \<open>persist_path\<close> has no
  table.  The clock is an argument.  The part of an operation under the lock (\<open>tq_push\<close>, \<open>tq_take\<close>) and its
  write to the table after it (\<open>tq_persist\<close>, \<open>tq_forget\<close>) are separate steps; \<open>tq_enqueue\<close> and
  \<open>tq_dequeue\<close> are both without another thread in between.
\<close>

section \<open>Tasks\<close>

datatype task_state = PENDING | QUEUED | RUNNING | SUCCESS | FAILURE | RETRY | REVOKED

record task =
  t_id :: string
  t_name :: string
  t_args :: json
  t_kwargs :: json
  t_queue :: string
  t_priority :: rat
  t_retries :: rat
  t_max_retries :: rat
  t_retry_delay :: rat
  t_timeout :: json
  t_eta :: "rat option"
  t_created :: rat
  t_state :: task_state

text \<open>Reading a typed field out of a JSON value.\<close>

fun as_str :: "json \<Rightarrow> string res" where
  "as_str (JStr s) = Inr s" | "as_str _ = Inl (TypeError ''not a string'')"

fun as_num :: "json \<Rightarrow> rat res" where
  "as_num (JNum r) = Inr r" | "as_num _ = Inl (TypeError ''not a number'')"

fun as_opt_num :: "json \<Rightarrow> rat option res" where
  "as_opt_num JNull = Inr None" | "as_opt_num (JNum r) = Inr (Some r)"
| "as_opt_num _ = Inl (TypeError ''not a number'')"

definition opt_num :: "rat option \<Rightarrow> json" where
  "opt_num r = (case r of None \<Rightarrow> JNull | Some x \<Rightarrow> JNum x)"

lemma as_opt_num_opt_num [simp]: "as_opt_num (opt_num r) = Inr r"
  by (cases r) (simp_all add: opt_num_def)

definition dindex :: "dict \<Rightarrow> string \<Rightarrow> json res" where
  \<comment> \<open>\<open>d[k]\<close>\<close>
  "dindex d k = (case fmlookup d k of None \<Rightarrow> Inl (KeyError k) | Some v \<Rightarrow> Inr v)"

section \<open>Entries\<close>

type_synonym sort_key = "rat \<times> rat \<times> rat"

record queue_entry =
  e_key :: sort_key
  e_task :: task

definition eta_of :: "task \<Rightarrow> rat" where
  \<comment> \<open>\<open>task.eta or task.created_at\<close>\<close>
  "eta_of t = (case t_eta t of None \<Rightarrow> t_created t | Some e \<Rightarrow> if e = 0 then t_created t else e)"

definition entry_of :: "task \<Rightarrow> queue_entry" where
  "entry_of t = \<lparr>e_key = (t_priority t, eta_of t, t_created t), e_task = t\<rparr>"

lemma entry_of_sel [simp]:
  "e_task (entry_of t) = t" "e_key (entry_of t) = (t_priority t, eta_of t, t_created t)"
  by (simp_all add: entry_of_def)

section \<open>The table of queued tasks\<close>

record task_row =
  r_id :: string
  r_queue :: string
  r_priority :: rat
  r_eta :: rat
  r_created :: rat
  r_data :: json

definition task_data :: "task \<Rightarrow> json" where
  "task_data t = JObj (fmap_of_list
     [(''task_id'', JStr (t_id t)), (''name'', JStr (t_name t)),
      (''args'', t_args t), (''kwargs'', t_kwargs t),
      (''queue'', JStr (t_queue t)), (''priority'', JNum (t_priority t)),
      (''retries'', JNum (t_retries t)), (''max_retries'', JNum (t_max_retries t)),
      (''retry_delay'', JNum (t_retry_delay t)), (''timeout'', t_timeout t),
      (''eta'', opt_num (t_eta t)), (''created_at'', JNum (t_created t))])"

definition task_of_data :: "json \<Rightarrow> task res" where
  "task_of_data j =
     ebind (py_dict j) (\<lambda>d.
     ebind (ebind (dindex d ''task_id'') as_str) (\<lambda>i.
     ebind (ebind (dindex d ''name'') as_str) (\<lambda>nm.
     ebind (dindex d ''args'') (\<lambda>as.
     ebind (dindex d ''kwargs'') (\<lambda>kw.
     ebind (ebind (dindex d ''queue'') as_str) (\<lambda>q.
     ebind (ebind (dindex d ''priority'') as_num) (\<lambda>p.
     ebind (ebind (dindex d ''retries'') as_num) (\<lambda>r.
     ebind (ebind (dindex d ''max_retries'') as_num) (\<lambda>mr.
     ebind (ebind (dindex d ''retry_delay'') as_num) (\<lambda>rd.
     ebind (dindex d ''timeout'') (\<lambda>tm.
     ebind (ebind (dindex d ''eta'') as_opt_num) (\<lambda>e.
     ebind (ebind (dindex d ''created_at'') as_num) (\<lambda>c.
       Inr \<lparr>t_id = i, t_name = nm, t_args = as, t_kwargs = kw, t_queue = q, t_priority = p,
            t_retries = r, t_max_retries = mr, t_retry_delay = rd, t_timeout = tm, t_eta = e,
            t_created = c, t_state = QUEUED\<rparr>)))))))))))))"

definition row_of :: "task \<Rightarrow> task_row" where
  "row_of t = \<lparr>r_id = t_id t, r_queue = t_queue t, r_priority = t_priority t, r_eta = eta_of t,
               r_created = t_created t, r_data = task_data t\<rparr>"

lemma task_data_roundtrip [simp]: "task_of_data (task_data t) = Inr (t\<lparr>t_state := QUEUED\<rparr>)"
  by (simp add: task_of_data_def task_data_def dindex_def)

lemma row_of_sel [simp]: "r_id (row_of t) = t_id t" "r_data (row_of t) = task_data t"
  by (simp_all add: row_of_def)

definition persist_enqueue :: "task \<Rightarrow> task_row list \<Rightarrow> task_row list" where
  \<comment> \<open>\<open>INSERT OR REPLACE\<close>: the row with the same primary key goes, the new row comes last\<close>
  "persist_enqueue t rows = filter (\<lambda>r. r_id r \<noteq> t_id t) rows @ [row_of t]"

definition persist_dequeue :: "string \<Rightarrow> task_row list \<Rightarrow> task_row list" where
  "persist_dequeue i rows = filter (\<lambda>r. r_id r \<noteq> i) rows"

section \<open>The queue\<close>

record task_queue =
  q_heaps :: "(string \<times> queue_entry list) list"
  q_counts :: "(string \<times> int) list"
  q_db :: "task_row list option"

definition heap_of :: "task_queue \<Rightarrow> string \<Rightarrow> queue_entry list" where
  "heap_of q nm = (case map_of (q_heaps q) nm of None \<Rightarrow> [] | Some h \<Rightarrow> h)"

definition count_of :: "task_queue \<Rightarrow> string \<Rightarrow> int \<Rightarrow> int" where
  "count_of q nm dflt = (case map_of (q_counts q) nm of None \<Rightarrow> dflt | Some n \<Rightarrow> n)"

text \<open>
  \<open>enqueue\<close> and \<open>dequeue\<close> change the heap under the lock and the table after releasing it: two steps each,
  between which other threads may call.
\<close>

definition tq_push :: "task \<Rightarrow> task_queue \<Rightarrow> task_queue" where
  "tq_push t q = q
     \<lparr>q_heaps := AList.update (t_queue t) (heappush e_key (entry_of t) (heap_of q (t_queue t))) (q_heaps q),
      q_counts := AList.update (t_queue t) (count_of q (t_queue t) 0 + 1) (q_counts q)\<rparr>"

definition tq_persist :: "task \<Rightarrow> task_queue \<Rightarrow> task_queue" where
  "tq_persist t q = q\<lparr>q_db := map_option (persist_enqueue t) (q_db q)\<rparr>"

definition tq_enqueue :: "task \<Rightarrow> task_queue \<Rightarrow> task_queue" where
  "tq_enqueue t q = tq_persist t (tq_push t q)"

definition tq_take :: "string \<Rightarrow> rat \<Rightarrow> task_queue \<Rightarrow> task option \<times> task_queue" where
  "tq_take nm now q =
     (if heap_of q nm = [] then (None, q)
      else if fst (snd (e_key (hd (heap_of q nm)))) > now then (None, q)
      else (case heappop e_key (heap_of q nm) of
              Inl e \<Rightarrow> (None, q)
            | Inr (entry, h) \<Rightarrow>
                (Some (e_task entry),
                 q\<lparr>q_heaps := AList.update nm h (q_heaps q),
                   q_counts := AList.update nm (max 0 (count_of q nm 1 - 1)) (q_counts q)\<rparr>)))"

definition tq_forget :: "task \<Rightarrow> task_queue \<Rightarrow> task_queue" where
  "tq_forget t q = q\<lparr>q_db := map_option (persist_dequeue (t_id t)) (q_db q)\<rparr>"

definition tq_dequeue :: "string \<Rightarrow> rat \<Rightarrow> task_queue \<Rightarrow> task option \<times> task_queue" where
  "tq_dequeue nm now q =
     (case tq_take nm now q of (None, q1) \<Rightarrow> (None, q1) | (Some t, q1) \<Rightarrow> (Some t, tq_forget t q1))"

lemma tq_enqueue_eq: "tq_enqueue t q = q
     \<lparr>q_heaps := AList.update (t_queue t) (heappush e_key (entry_of t) (heap_of q (t_queue t))) (q_heaps q),
      q_counts := AList.update (t_queue t) (count_of q (t_queue t) 0 + 1) (q_counts q),
      q_db := map_option (persist_enqueue t) (q_db q)\<rparr>"
  by (simp add: tq_enqueue_def tq_push_def tq_persist_def)

lemma tq_dequeue_eq: "tq_dequeue nm now q =
     (if heap_of q nm = [] then (None, q)
      else if fst (snd (e_key (hd (heap_of q nm)))) > now then (None, q)
      else (case heappop e_key (heap_of q nm) of
              Inl e \<Rightarrow> (None, q)
            | Inr (entry, h) \<Rightarrow>
                (Some (e_task entry),
                 q\<lparr>q_heaps := AList.update nm h (q_heaps q),
                   q_counts := AList.update nm (max 0 (count_of q nm 1 - 1)) (q_counts q),
                   q_db := map_option (persist_dequeue (t_id (e_task entry))) (q_db q)\<rparr>)))"
  by (auto simp: tq_dequeue_def tq_take_def tq_forget_def split: sum.split prod.split)

definition retry_task :: "rat \<Rightarrow> rat \<Rightarrow> task \<Rightarrow> task" where
  "retry_task now delay t = t\<lparr>t_eta := Some (now + delay), t_state := RETRY\<rparr>"

definition tq_requeue :: "rat \<Rightarrow> rat \<Rightarrow> task \<Rightarrow> task_queue \<Rightarrow> task_queue" where
  "tq_requeue now delay t q = tq_enqueue (retry_task now delay t) q"

definition queue_size :: "string \<Rightarrow> task_queue \<Rightarrow> int" where
  "queue_size nm q = count_of q nm 0"

definition queue_names :: "task_queue \<Rightarrow> string list" where
  "queue_names q = map fst (q_heaps q)"

definition all_sizes :: "task_queue \<Rightarrow> (string \<times> int) list" where
  "all_sizes q = q_counts q"

definition row_key :: "task_row \<Rightarrow> sort_key" where
  "row_key r = (r_priority r, r_eta r, r_created r)"

definition load_from_db :: "task_row list \<Rightarrow> task_queue \<Rightarrow> task_queue res" where
  "load_from_db rows q =
     ebind (emap (\<lambda>r. task_of_data (r_data r)) (sort_key row_key rows)) (\<lambda>ts. Inr (fold tq_enqueue ts q))"

definition open_queue :: "task_row list option \<Rightarrow> task_queue res" where
  \<comment> \<open>\<open>TaskQueue(persist_path)\<close> on the table as it is on disk\<close>
  "open_queue db =
     (let q = \<lparr>q_heaps = [], q_counts = [], q_db = db\<rparr> in
      case db of None \<Rightarrow> Inr q | Some rows \<Rightarrow> load_from_db rows q)"

section \<open>The invariant\<close>

definition all_entries :: "task_queue \<Rightarrow> queue_entry multiset" where
  "all_entries q = mset (concat (map snd (q_heaps q)))"

definition all_tasks :: "task_queue \<Rightarrow> task multiset" where
  "all_tasks q = image_mset e_task (all_entries q)"

definition queue_ok :: "task_queue \<Rightarrow> bool" where
  "queue_ok q =
     (distinct (map fst (q_heaps q)) \<and>
      (\<forall>nm. is_heap e_key (heap_of q nm)) \<and>
      (\<forall>nm. \<forall>e \<in> set (heap_of q nm). e = entry_of (e_task e) \<and> t_queue (e_task e) = nm) \<and>
      (\<forall>nm. count_of q nm 0 = int (length (heap_of q nm))))"

lemma heap_of_update:
  "heap_of (q\<lparr>q_heaps := AList.update nm h (q_heaps q)\<rparr>) nm' = (if nm' = nm then h else heap_of q nm')"
  by (simp add: heap_of_def update_conv')

lemma heap_of_update' [simp]:
  "heap_of (q\<lparr>q_heaps := AList.update nm h (q_heaps q), q_counts := cs, q_db := d\<rparr>) nm' =
     (if nm' = nm then h else heap_of q nm')"
  by (simp add: heap_of_def update_conv')

lemma count_of_update' [simp]:
  "count_of (q\<lparr>q_heaps := hs, q_counts := AList.update nm n (q_counts q), q_db := d\<rparr>) nm' z =
     (if nm' = nm then n else count_of q nm' z)"
  by (simp add: count_of_def update_conv')

lemma concat_alist_update:
  "distinct (map fst al) \<Longrightarrow>
   mset (concat (map snd (AList.update k h al))) + mset (case map_of al k of None \<Rightarrow> [] | Some g \<Rightarrow> g)
   = mset (concat (map snd al)) + mset h"
proof (induction al)
  case (Cons p al)
  have "map_of al k = None" if "fst p = k" using Cons.prems that by (auto simp: map_of_eq_None_iff)
  with Cons show ?case by (cases p) (auto simp: ac_simps)
qed simp

lemma all_entries_update:
  "distinct (map fst (q_heaps q)) \<Longrightarrow>
   all_entries (q\<lparr>q_heaps := AList.update nm h (q_heaps q), q_counts := cs, q_db := d\<rparr>) + mset (heap_of q nm)
   = all_entries q + mset h"
  unfolding all_entries_def heap_of_def by (simp add: concat_alist_update)

lemma empty_queue_ok: "queue_ok \<lparr>q_heaps = [], q_counts = [], q_db = db\<rparr>"
  by (simp add: queue_ok_def heap_of_def count_of_def is_heap_def)

lemma enqueue_heap: "heap_of (tq_enqueue t q) nm =
    (if nm = t_queue t then heappush e_key (entry_of t) (heap_of q nm) else heap_of q nm)"
  by (simp add: tq_enqueue_eq)

lemma enqueue_ok: "queue_ok q \<Longrightarrow> queue_ok (tq_enqueue t q)"
proof -
  assume ok: "queue_ok q"
  have h: "is_heap e_key (heap_of q (t_queue t))" using ok by (simp add: queue_ok_def)
  have s: "set (heappush e_key (entry_of t) (heap_of q (t_queue t))) = insert (entry_of t) (set (heap_of q (t_queue t)))"
    by (metis heappush_mset set_mset_add_mset_insert set_mset_mset)
  have l: "length (heappush e_key (entry_of t) (heap_of q (t_queue t))) = Suc (length (heap_of q (t_queue t)))"
    by (metis hq.push_length [OF h])
  show ?thesis
    using ok s l heappush_heap [OF h] unfolding queue_ok_def
    by (auto simp: tq_enqueue_eq distinct_update)
qed

lemma enqueue_all: "queue_ok q \<Longrightarrow> all_tasks (tq_enqueue t q) = add_mset t (all_tasks q)"
proof -
  assume ok: "queue_ok q"
  let ?h = "heappush e_key (entry_of t) (heap_of q (t_queue t))"
  have "all_entries (tq_enqueue t q) + mset (heap_of q (t_queue t)) = all_entries q + mset ?h"
    unfolding tq_enqueue_eq by (rule all_entries_update) (use ok in \<open>simp add: queue_ok_def\<close>)
  then have "all_entries (tq_enqueue t q) = add_mset (entry_of t) (all_entries q)"
    by (simp add: heappush_mset)
  then show ?thesis by (simp add: all_tasks_def)
qed

lemma enqueue_db: "q_db (tq_enqueue t q) = map_option (persist_enqueue t) (q_db q)"
  by (simp add: tq_enqueue_eq)

text \<open>The two outcomes of \<open>dequeue\<close>.\<close>

lemma dequeue_None_iff:
  "queue_ok q \<Longrightarrow> fst (tq_dequeue nm now q) = None \<longleftrightarrow>
     heap_of q nm = [] \<or> fst (snd (e_key (hd (heap_of q nm)))) > now"
proof -
  assume ok: "queue_ok q"
  show ?thesis
  proof (cases "heap_of q nm = []")
    case False
    have "is_heap e_key (heap_of q nm)" using ok by (simp add: queue_ok_def)
    from hq.pop_head [OF this False] False show ?thesis by (auto simp: tq_dequeue_eq)
  qed (simp add: tq_dequeue_eq)
qed

lemma dequeue_None_same: "queue_ok q \<Longrightarrow> fst (tq_dequeue nm now q) = None \<Longrightarrow> tq_dequeue nm now q = (None, q)"
  by (drule (1) dequeue_None_iff [THEN iffD1]) (auto simp: tq_dequeue_eq)

lemma dequeue_Some:
  assumes ok: "queue_ok q" and d: "tq_dequeue nm now q = (Some t, q')"
  shows "hd (heap_of q nm) = entry_of t" "eta_of t \<le> now" "t_queue t = nm" "heap_of q nm \<noteq> []"
    "mset (heap_of q nm) = add_mset (entry_of t) (mset (heap_of q' nm))"
    "\<And>nm'. nm' \<noteq> nm \<Longrightarrow> heap_of q' nm' = heap_of q nm'"
    "q_db q' = map_option (persist_dequeue (t_id t)) (q_db q)"
    "queue_ok q'" "add_mset t (all_tasks q') = all_tasks q"
proof -
  have n: "heap_of q nm \<noteq> []" "\<not> fst (snd (e_key (hd (heap_of q nm)))) > now"
    using dequeue_None_iff [OF ok, of nm now] d by auto
  have h: "is_heap e_key (heap_of q nm)" using ok by (simp add: queue_ok_def)
  from hq.pop_head [OF h n(1)] obtain h' where p: "heappop e_key (heap_of q nm) = Inr (hd (heap_of q nm), h')"
    "is_heap e_key h'" "mset (heap_of q nm) = add_mset (hd (heap_of q nm)) (mset h')" by blast
  have t: "t = e_task (hd (heap_of q nm))" and q': "q' = q\<lparr>q_heaps := AList.update nm h' (q_heaps q),
      q_counts := AList.update nm (max 0 (count_of q nm 1 - 1)) (q_counts q),
      q_db := map_option (persist_dequeue (t_id t)) (q_db q)\<rparr>"
    using d n p(1) by (auto simp: tq_dequeue_eq)
  have "hd (heap_of q nm) \<in> set (heap_of q nm)" using n(1) by simp
  then have e: "hd (heap_of q nm) = entry_of t" "t_queue t = nm" using ok t by (auto simp: queue_ok_def)
  then show "hd (heap_of q nm) = entry_of t" "t_queue t = nm" "eta_of t \<le> now" "heap_of q nm \<noteq> []"
    using n by auto
  have h': "heap_of q' nm = h'" by (simp add: q')
  show "mset (heap_of q nm) = add_mset (entry_of t) (mset (heap_of q' nm))" using p(3) e h' by simp
  show other: "heap_of q' nm' = heap_of q nm'" if "nm' \<noteq> nm" for nm' using that by (simp add: q')
  show "q_db q' = map_option (persist_dequeue (t_id t)) (q_db q)" by (simp add: q')
  have len: "Suc (length h') = length (heap_of q nm)" using p(3) by (metis size_add_mset size_mset)
  have sub: "set h' \<subseteq> set (heap_of q nm)" using p(3) by (metis set_mset_add_mset_insert set_mset_mset subset_insertI)
  have c0: "count_of q nm 0 = int (length (heap_of q nm))" using ok by (simp add: queue_ok_def)
  have "map_of (q_counts q) nm \<noteq> None" using c0 n(1) by (cases "map_of (q_counts q) nm") (auto simp: count_of_def)
  then have c1: "count_of q nm 1 = int (length (heap_of q nm))" using c0 by (auto simp: count_of_def)
  have cs: "count_of q' nm' 0 = int (length (heap_of q' nm'))" for nm'
  proof (cases "nm' = nm")
    case True
    have "count_of q' nm 0 = max 0 (count_of q nm 1 - 1)" by (simp add: q')
    with True c1 len h' show ?thesis by simp
  next
    case False
    have "count_of q' nm' 0 = count_of q nm' 0" using False by (simp add: q')
    with False ok other show ?thesis by (simp add: queue_ok_def)
  qed
  show "queue_ok q'"
    unfolding queue_ok_def
  proof (intro conjI allI ballI)
    show "distinct (map fst (q_heaps q'))" using ok by (simp add: q' queue_ok_def distinct_update)
    fix nm' show "is_heap e_key (heap_of q' nm')"
      using ok p(2) h' other by (cases "nm' = nm") (auto simp: queue_ok_def)
    fix e assume "e \<in> set (heap_of q' nm')"
    then have "e \<in> set (heap_of q nm')" using sub h' other by (cases "nm' = nm") auto
    with ok show "e = entry_of (e_task e)" "t_queue (e_task e) = nm'" by (auto simp: queue_ok_def)
  qed (rule cs)
  have "all_entries q' + mset (heap_of q nm) = all_entries q + mset h'"
    unfolding q' by (rule all_entries_update) (use ok in \<open>simp add: queue_ok_def\<close>)
  then have "add_mset (entry_of t) (all_entries q') = all_entries q" using p(3) e by simp
  then have "image_mset e_task (add_mset (entry_of t) (all_entries q')) = all_tasks q" by (simp add: all_tasks_def)
  then show "add_mset t (all_tasks q') = all_tasks q" by (simp add: all_tasks_def)
qed

section \<open>Runs\<close>

definition queued_ids :: "task_queue \<Rightarrow> string set" where
  "queued_ids q = t_id ` set_mset (all_tasks q)"

text \<open>
  What a broker with a table can reach from an empty one: tasks are published and retried with an id
  that is not queued (clients draw UUIDs, and a retried task has left the queue), and taken.
\<close>

inductive queue_run :: "task_queue \<Rightarrow> bool" where
  start: "queue_run \<lparr>q_heaps = [], q_counts = [], q_db = Some []\<rparr>"
| put: "queue_run q \<Longrightarrow> t_id t \<notin> queued_ids q \<Longrightarrow> queue_run (tq_enqueue t q)"
| retry: "queue_run q \<Longrightarrow> t_id t \<notin> queued_ids q \<Longrightarrow> queue_run (tq_requeue now delay t q)"
| take: "queue_run q \<Longrightarrow> queue_run (snd (tq_dequeue nm now q))"

definition contents :: "string \<Rightarrow> task_queue \<Rightarrow> task multiset" where
  "contents nm q = image_mset e_task (mset (heap_of q nm))"

lemma entries_by_queue:
  "distinct (map fst al) \<Longrightarrow> (\<And>n h e. (n, h) \<in> set al \<Longrightarrow> e \<in> set h \<Longrightarrow> g e = n) \<Longrightarrow>
   filter_mset (\<lambda>e. g e = nm) (mset (concat (map snd al))) = mset (case map_of al nm of None \<Rightarrow> [] | Some h \<Rightarrow> h)"
proof (induction al)
  case (Cons p al)
  obtain n h where p: "p = (n, h)" by fastforce
  have h: "g e = n" if "e \<in> set h" for e using Cons.prems(2) [of n h e] that by (simp add: p)
  have IH: "filter_mset (\<lambda>e. g e = nm) (mset (concat (map snd al))) = mset (case map_of al nm of None \<Rightarrow> [] | Some h \<Rightarrow> h)"
    by (rule Cons.IH) (use Cons.prems in auto)
  have "filter (\<lambda>e. g e = nm) h = (if n = nm then h else [])"
    using h by (auto simp: filter_id_conv filter_empty_conv)
  then have "filter_mset (\<lambda>e. g e = nm) (mset h) = (if n = nm then mset h else {#})"
    by (metis mset.simps(1) mset_filter)
  moreover have "map_of al nm = None" if "n = nm" using Cons.prems(1) that by (auto simp: p map_of_eq_None_iff)
  ultimately show ?case using IH by (auto simp: p)
qed simp

lemma contents_filter:
  "queue_ok q \<Longrightarrow> contents nm q = filter_mset (\<lambda>t. t_queue t = nm) (all_tasks q)"
proof -
  assume ok: "queue_ok q"
  have "filter_mset (\<lambda>e. t_queue (e_task e) = nm) (mset (concat (map snd (q_heaps q)))) = mset (heap_of q nm)"
    unfolding heap_of_def
  proof (rule entries_by_queue)
    show d: "distinct (map fst (q_heaps q))" using ok by (simp add: queue_ok_def)
    fix n h e assume a: "(n, h) \<in> set (q_heaps q)" "e \<in> set h"
    then have "heap_of q n = h" using d by (simp add: heap_of_def)
    with a(2) ok show "t_queue (e_task e) = n" by (auto simp: queue_ok_def)
  qed
  then show ?thesis by (simp add: contents_def all_tasks_def all_entries_def filter_mset_image_mset flip: filter_mset_eq_conv)
qed

lemma size_contents: "queue_ok q \<Longrightarrow> queue_size nm q = int (size (contents nm q))"
  by (simp add: queue_size_def queue_ok_def contents_def)

definition table_ok :: "task_queue \<Rightarrow> bool" where
  "table_ok q = (\<exists>rows. q_db q = Some rows \<and> distinct (map r_id rows) \<and> mset rows = image_mset row_of (all_tasks q))"

lemma table_ids:
  "mset rows = image_mset row_of ts \<Longrightarrow> r_id ` set rows = t_id ` set_mset ts"
proof -
  assume "mset rows = image_mset row_of ts"
  then have "set rows = row_of ` set_mset ts" by (metis set_image_mset set_mset_mset)
  then show ?thesis by (simp add: image_image)
qed

lemma enqueue_table:
  assumes "queue_ok q" "table_ok q" "t_id t \<notin> queued_ids q" shows "table_ok (tq_enqueue t q)"
proof -
  obtain rows where r: "q_db q = Some rows" "distinct (map r_id rows)" "mset rows = image_mset row_of (all_tasks q)"
    using assms(2) by (auto simp: table_ok_def)
  have "t_id t \<notin> r_id ` set rows" using table_ids [OF r(3)] assms(3) by (simp add: queued_ids_def)
  then have "filter (\<lambda>r. r_id r \<noteq> t_id t) rows = rows" by (force simp: filter_id_conv)
  with r assms(1) \<open>t_id t \<notin> r_id ` set rows\<close> show ?thesis
    by (simp add: table_ok_def enqueue_db persist_enqueue_def enqueue_all)
qed

lemma dequeue_table:
  assumes "queue_ok q" "table_ok q" shows "table_ok (snd (tq_dequeue nm now q))"
proof (cases "fst (tq_dequeue nm now q)")
  case None
  show ?thesis using assms(2) by (simp add: dequeue_None_same [OF assms(1) None])
next
  case (Some t)
  then obtain q' where d: "tq_dequeue nm now q = (Some t, q')" by (metis prod.collapse)
  note s = dequeue_Some [OF assms(1) d]
  obtain rows where r: "q_db q = Some rows" "distinct (map r_id rows)" "mset rows = image_mset row_of (all_tasks q)"
    using assms(2) by (auto simp: table_ok_def)
  have m: "mset rows = add_mset (row_of t) (image_mset row_of (all_tasks q'))"
    using r(3) s(9) by (metis image_mset_add_mset)
  then have "row_of t \<in> set rows" by (metis union_single_eq_member set_mset_mset)
  then obtain l1 l2 where l: "rows = l1 @ row_of t # l2" by (meson split_list)
  have out: "t_id t \<notin> r_id ` set l1" "t_id t \<notin> r_id ` set l2" using r(2) by (auto simp: l)
  then have "filter (\<lambda>r. r_id r \<noteq> t_id t) l1 = l1" "filter (\<lambda>r. r_id r \<noteq> t_id t) l2 = l2"
    by (force simp: filter_id_conv)+
  then have "persist_dequeue (t_id t) rows = l1 @ l2" by (simp add: persist_dequeue_def l)
  moreover have "mset (l1 @ l2) = image_mset row_of (all_tasks q')" using m by (simp add: l)
  moreover have "distinct (map r_id (l1 @ l2))" using r(2) by (simp add: l)
  ultimately show ?thesis using d s(7) r(1) by (simp add: table_ok_def)
qed

lemma dequeue_ok: "queue_ok q \<Longrightarrow> queue_ok (snd (tq_dequeue nm now q))"
  using dequeue_None_same [of q nm now] dequeue_Some(8) [of q nm now]
  by (cases "fst (tq_dequeue nm now q)") (auto simp: prod_eq_iff intro: surjective_pairing)

lemma queue_run_ok: "queue_run q \<Longrightarrow> queue_ok q \<and> table_ok q"
proof (induction rule: queue_run.induct)
  case start
  then show ?case by (simp add: empty_queue_ok table_ok_def all_tasks_def all_entries_def)
next
  case (put q t)
  then show ?case by (simp add: enqueue_ok enqueue_table)
next
  case (retry q t now delay)
  then show ?case by (simp add: tq_requeue_def enqueue_ok enqueue_table retry_task_def)
next
  case (take q nm now)
  then show ?case by (simp add: dequeue_ok dequeue_table)
qed

section \<open>What a consumer gets\<close>

text \<open>
  C18: What \<open>dequeue\<close> gives, whatever was published, retried and taken before.  It looks at the least entry in
  the order (priority, ETA, creation) only.  If that one is due, it is given out: no task of the queue precedes
  it in that order, exactly this task leaves exactly this queue, and the reported size drops by one.  If
  the queue is empty or its least entries are not due, nothing is given and nothing changes, even
  if due tasks wait behind them: here the code departs from its documentation, which promises a task
  unless all are in the future.
\<close>

theorem dequeue_takes_least:
  assumes "queue_run q"
  shows "case tq_dequeue nm now q of
      (None, q') \<Rightarrow> q' = q \<and> (contents nm q = {#} \<or>
         (\<exists>t \<in># contents nm q. eta_of t > now \<and> (\<forall>u \<in># contents nm q. e_key (entry_of t) \<le> e_key (entry_of u)))) \<and>
         (\<forall>t \<in># contents nm q. (\<forall>u \<in># contents nm q. e_key (entry_of t) \<le> e_key (entry_of u)) \<longrightarrow> eta_of t > now)
    | (Some t, q') \<Rightarrow> eta_of t \<le> now \<and> contents nm q = add_mset t (contents nm q') \<and>
         (\<forall>u \<in># contents nm q. e_key (entry_of t) \<le> e_key (entry_of u)) \<and>
         (\<forall>nm'. nm' \<noteq> nm \<longrightarrow> contents nm' q' = contents nm' q) \<and> queue_size nm q' = queue_size nm q - 1"
proof -
  have ok: "queue_ok q" using queue_run_ok [OF assms] by blast
  have head: "e_key (hd (heap_of q nm)) \<le> e_key (entry_of u)" if "u \<in># contents nm q" for u
  proof -
    obtain e where "e \<in> set (heap_of q nm)" "u = e_task e" using \<open>u \<in># contents nm q\<close> by (auto simp: contents_def)
    with ok have m: "entry_of u \<in> set (heap_of q nm)" "is_heap e_key (heap_of q nm)" by (auto simp: queue_ok_def)
    show ?thesis by (rule hq.head_least [OF m(2,1)])
  qed
  show ?thesis
  proof (cases "fst (tq_dequeue nm now q)")
    case None
    have "\<exists>t \<in># contents nm q. eta_of t > now \<and> (\<forall>u \<in># contents nm q. e_key (entry_of t) \<le> e_key (entry_of u))"
      if "heap_of q nm \<noteq> []"
    proof
      have "hd (heap_of q nm) \<in> set (heap_of q nm)" using that by simp
      with ok have e: "hd (heap_of q nm) = entry_of (e_task (hd (heap_of q nm)))" by (auto simp: queue_ok_def)
      show "e_task (hd (heap_of q nm)) \<in># contents nm q" using that by (simp add: contents_def)
      have "fst (snd (e_key (hd (heap_of q nm)))) > now"
        using None dequeue_None_iff [OF ok, of nm now] that by blast
      with e have "eta_of (e_task (hd (heap_of q nm))) > now" by (metis entry_of_sel(2) fst_conv snd_conv)
      with head e show "eta_of (e_task (hd (heap_of q nm))) > now \<and>
          (\<forall>u \<in># contents nm q. e_key (entry_of (e_task (hd (heap_of q nm)))) \<le> e_key (entry_of u))" by metis
    qed
    moreover have "heap_of q nm = [] \<Longrightarrow> contents nm q = {#}" by (simp add: contents_def)
    ultimately have c: "contents nm q = {#} \<or>
      (\<exists>t \<in># contents nm q. eta_of t > now \<and> (\<forall>u \<in># contents nm q. e_key (entry_of t) \<le> e_key (entry_of u)))" by blast
    have all: "eta_of t > now" if "t \<in># contents nm q" "\<forall>u \<in># contents nm q. e_key (entry_of t) \<le> e_key (entry_of u)" for t
    proof -
      have "contents nm q \<noteq> {#}" using that(1) by auto
      then obtain s where s: "s \<in># contents nm q" "eta_of s > now" "\<forall>u \<in># contents nm q. e_key (entry_of s) \<le> e_key (entry_of u)"
        using c by blast
      have "e_key (entry_of s) = e_key (entry_of t)" using that s(1,3) by (intro order.antisym) auto
      then have "eta_of s = eta_of t" by simp
      with s(2) show ?thesis by simp
    qed
    from c all dequeue_None_same [OF ok None] show ?thesis by simp
  next
    case (Some t)
    then obtain q' where d: "tq_dequeue nm now q = (Some t, q')" by (metis prod.collapse)
    note s = dequeue_Some [OF ok d]
    have c: "contents nm q = add_mset t (contents nm q')" using s(5) by (simp add: contents_def)
    show ?thesis using d s head c size_contents [OF ok, of nm] size_contents [OF s(8), of nm]
      by (auto simp: contents_def)
  qed
qed

definition demo_task :: "string \<Rightarrow> rat \<Rightarrow> rat option \<Rightarrow> rat \<Rightarrow> task" where
  "demo_task i p e c = \<lparr>t_id = i, t_name = ''f'', t_args = JList [], t_kwargs = JObj fmempty, t_queue = ''default'',
     t_priority = p, t_retries = 0, t_max_retries = 3, t_retry_delay = 5, t_timeout = JNull, t_eta = e,
     t_created = c, t_state = QUEUED\<rparr>"

lemma demo_task_sel [simp]:
  "t_id (demo_task i p e c) = i" "t_queue (demo_task i p e c) = ''default''"
  by (simp_all add: demo_task_def)

definition demo_queue :: task_queue where
  "demo_queue = tq_enqueue (demo_task ''b'' 1 (Some 9) 2)
     (tq_enqueue (demo_task ''a'' 5 None 1) \<lparr>q_heaps = [], q_counts = [], q_db = Some []\<rparr>)"

lemma demo_queue_run: "queue_run demo_queue"
proof -
  let ?e = "\<lparr>q_heaps = [], q_counts = [], q_db = Some []\<rparr>"
  have e: "queue_ok ?e" by (rule empty_queue_ok)
  have z: "all_tasks ?e = {#}" by (simp add: all_tasks_def all_entries_def)
  show ?thesis
    unfolding demo_queue_def
    by (intro queue_run.put queue_run.start) (simp_all add: queued_ids_def enqueue_all [OF e] z)
qed

theorem dequeue_takes_least_witness:
  "map_option t_id (fst (tq_dequeue ''default'' 10 demo_queue)) = Some ''b'' \<and> queue_size ''default'' (snd (tq_dequeue ''default'' 10 demo_queue)) = 1"
proof -
  have s: "queue_size ''default'' demo_queue = 2" by code_simp
  have t: "map_option t_id (fst (tq_dequeue ''default'' 10 demo_queue)) = Some ''b''" by code_simp
  show ?thesis using dequeue_takes_least [OF demo_queue_run, of "''default''" 10] s t by (auto split: prod.splits option.splits)
qed

text \<open>
  The head of a queue blocks it.  The documentation of \<open>dequeue\<close> promises the most urgent task whose ETA
  has passed; a task that is due is not given out while a task of higher priority waits for its ETA.
\<close>

theorem future_head_blocks_due_task:
  "demo_task ''a'' 5 None 1 \<in># contents ''default'' demo_queue \<and> eta_of (demo_task ''a'' 5 None 1) \<le> 8 \<and>
   tq_dequeue ''default'' 8 demo_queue = (None, demo_queue)"
  by code_simp

text \<open>A consumer that calls \<open>dequeue\<close> \<open>n\<close> times.\<close>

fun serve :: "nat \<Rightarrow> string \<Rightarrow> rat \<Rightarrow> task_queue \<Rightarrow> task list" where
  "serve 0 nm now q = []"
| "serve (Suc n) nm now q =
     (case tq_dequeue nm now q of (None, q') \<Rightarrow> [] | (Some t, q') \<Rightarrow> t # serve n nm now q')"

lemma serve_all:
  "queue_ok q \<Longrightarrow> (\<And>t. t \<in># contents nm q \<Longrightarrow> eta_of t \<le> now) \<Longrightarrow> size (contents nm q) = n \<Longrightarrow>
   mset (serve n nm now q) = contents nm q \<and> sorted (map (\<lambda>t. e_key (entry_of t)) (serve n nm now q))"
proof (induction n arbitrary: q)
  case (Suc n)
  have ne: "heap_of q nm \<noteq> []" using Suc.prems(3) by (auto simp: contents_def)
  then have hd: "hd (heap_of q nm) \<in> set (heap_of q nm)" by simp
  with Suc.prems(1) have e: "hd (heap_of q nm) = entry_of (e_task (hd (heap_of q nm)))" by (auto simp: queue_ok_def)
  have "e_task (hd (heap_of q nm)) \<in># contents nm q" using hd by (simp add: contents_def)
  then have "eta_of (e_task (hd (heap_of q nm))) \<le> now" by (rule Suc.prems(2))
  then have "\<not> fst (snd (e_key (hd (heap_of q nm)))) > now" by (subst e) simp
  then have "fst (tq_dequeue nm now q) \<noteq> None" using dequeue_None_iff [OF Suc.prems(1)] ne by blast
  then obtain t q' where d: "tq_dequeue nm now q = (Some t, q')" by (metis not_None_eq prod.collapse)
  note s = dequeue_Some [OF Suc.prems(1) d]
  have c: "contents nm q = add_mset t (contents nm q')" using s(5) by (simp add: contents_def)
  have IH: "mset (serve n nm now q') = contents nm q' \<and> sorted (map (\<lambda>t. e_key (entry_of t)) (serve n nm now q'))"
    by (rule Suc.IH [OF s(8)]) (use Suc.prems c in auto)
  have "e_key (entry_of t) \<le> e_key (entry_of u)" if "u \<in> set (serve n nm now q')" for u
  proof -
    have "u \<in># contents nm q'" using IH that by (metis set_mset_mset)
    then have "entry_of u \<in># mset (heap_of q nm)"
      using s(5,8) unfolding contents_def queue_ok_def by auto
    moreover have "is_heap e_key (heap_of q nm)" using Suc.prems(1) by (simp add: queue_ok_def)
    ultimately show ?thesis using hq.head_least [of e_key "heap_of q nm" "entry_of u"] s(1) by simp
  qed
  with IH c d show ?case by simp
qed simp

text \<open>
  The order of service.  When everything in a queue is due, a consumer that empties it gets every
  task once, sorted by priority, then ETA, then time of creation.
\<close>

theorem served_in_key_order:
  assumes "queue_run q" "\<And>t. t \<in># contents nm q \<Longrightarrow> eta_of t \<le> now"
  shows "mset (serve (nat (queue_size nm q)) nm now q) = contents nm q \<and>
    sorted (map (\<lambda>t. (t_priority t, eta_of t, t_created t)) (serve (nat (queue_size nm q)) nm now q))"
proof -
  have ok: "queue_ok q" using queue_run_ok [OF assms(1)] by blast
  show ?thesis using serve_all [OF ok assms(2) refl] size_contents [OF ok, of nm] by simp
qed

theorem served_in_key_order_witness:
  "map t_id (serve 2 ''default'' 10 demo_queue) = [''b'', ''a''] \<and>
   sorted (map (\<lambda>t. (t_priority t, eta_of t, t_created t)) (serve 2 ''default'' 10 demo_queue))"
proof -
  have s: "nat (queue_size ''default'' demo_queue) = 2" by code_simp
  have "list_all (\<lambda>e. eta_of (e_task e) \<le> 10) (heap_of demo_queue ''default'')" by code_simp
  then have "eta_of t \<le> 10" if "t \<in># contents ''default'' demo_queue" for t
    using that by (auto simp: contents_def list_all_iff)
  then have "sorted (map (\<lambda>t. (t_priority t, eta_of t, t_created t))
      (serve (nat (queue_size ''default'' demo_queue)) ''default'' 10 demo_queue))"
    using served_in_key_order [OF demo_queue_run] by blast
  moreover have "map t_id (serve 2 ''default'' 10 demo_queue) = [''b'', ''a'']" by code_simp
  ultimately show ?thesis using s by simp
qed

section \<open>Recovery\<close>

lemma image_mset_list:
  "image_mset f M = mset ys \<Longrightarrow> \<exists>xs. mset xs = M \<and> map f xs = ys"
proof (induction ys arbitrary: M)
  case (Cons y ys)
  then have "y \<in># image_mset f M" by simp
  then obtain x where x: "x \<in># M" "f x = y" by auto
  then obtain N where N: "M = add_mset x N" by (meson multi_member_split)
  then have "image_mset f N = mset ys" using Cons.prems x(2) by simp
  from Cons.IH [OF this] obtain xs where "mset xs = N" "map f xs = ys" by blast
  with x N show ?case by (intro exI [of _ "x # xs"]) simp
qed simp

lemma row_of_state [simp]: "row_of (t\<lparr>t_state := s\<rparr>) = row_of t"
  by (cases "t_eta t") (simp_all add: row_of_def task_data_def eta_of_def)

lemma persist_again:
  assumes "distinct (map r_id rows)" "row_of t \<in> set rows"
  shows "mset (persist_enqueue t rows) = mset rows \<and> distinct (map r_id (persist_enqueue t rows))"
proof -
  obtain l1 l2 where l: "rows = l1 @ row_of t # l2" using assms(2) by (meson split_list)
  have out: "t_id t \<notin> r_id ` set l1" "t_id t \<notin> r_id ` set l2" using assms(1) by (auto simp: l)
  then have "filter (\<lambda>r. r_id r \<noteq> t_id t) l1 = l1" "filter (\<lambda>r. r_id r \<noteq> t_id t) l2 = l2"
    by (force simp: filter_id_conv)+
  then have "persist_enqueue t rows = l1 @ l2 @ [row_of t]" by (simp add: persist_enqueue_def l)
  with assms(1) show ?thesis by (simp add: l)
qed

lemma load_fold:
  "queue_ok q \<Longrightarrow> q_db q = Some rows \<Longrightarrow> distinct (map r_id rows) \<Longrightarrow> (\<And>t. t \<in> set ts \<Longrightarrow> row_of t \<in> set rows) \<Longrightarrow>
   queue_ok (fold tq_enqueue ts q) \<and> all_tasks (fold tq_enqueue ts q) = mset ts + all_tasks q \<and>
   (\<exists>rows'. q_db (fold tq_enqueue ts q) = Some rows' \<and> mset rows' = mset rows)"
proof (induction ts arbitrary: q rows)
  case (Cons t ts)
  have p: "mset (persist_enqueue t rows) = mset rows" "distinct (map r_id (persist_enqueue t rows))"
    using persist_again [OF Cons.prems(3)] Cons.prems(4) by auto
  have "set (persist_enqueue t rows) = set rows" using p(1) by (metis set_mset_mset)
  then have "queue_ok (fold tq_enqueue ts (tq_enqueue t q)) \<and> all_tasks (fold tq_enqueue ts (tq_enqueue t q)) = mset ts + all_tasks (tq_enqueue t q) \<and>
   (\<exists>rows'. q_db (fold tq_enqueue ts (tq_enqueue t q)) = Some rows' \<and> mset rows' = mset (persist_enqueue t rows))"
    by (intro Cons.IH) (use Cons.prems p in \<open>auto simp: enqueue_ok enqueue_db\<close>)
  with p Cons.prems(1) show ?case by (simp add: enqueue_all)
qed simp

lemma recovered:
  assumes "queue_run q" "q_db q = Some rows"
  shows "\<exists>q' rows'. open_queue (Some rows) = Inr q' \<and> queue_ok q' \<and> q_db q' = Some rows' \<and> mset rows' = mset rows \<and>
    all_tasks q' = image_mset (\<lambda>t. t\<lparr>t_state := QUEUED\<rparr>) (all_tasks q)"
proof -
  have r: "distinct (map r_id rows)" "mset rows = image_mset row_of (all_tasks q)"
    using queue_run_ok [OF assms(1)] assms(2) by (auto simp: table_ok_def)
  have "image_mset row_of (all_tasks q) = mset (sort_key row_key rows)" using r(2) by simp
  then obtain us where us: "mset us = all_tasks q" "map row_of us = sort_key row_key rows"
    using image_mset_list by metis
  let ?ts = "map (\<lambda>t. t\<lparr>t_state := QUEUED\<rparr>) us" and ?q0 = "\<lparr>q_heaps = [], q_counts = [], q_db = Some rows\<rparr>"
  have "emap (\<lambda>r. task_of_data (r_data r)) (map row_of us) = Inr ?ts"
    by (induction us) simp_all
  then have op: "open_queue (Some rows) = Inr (fold tq_enqueue ?ts ?q0)"
    using us(2) by (simp add: open_queue_def load_from_db_def)
  have sub: "row_of t \<in> set rows" if "t \<in> set ?ts" for t
  proof -
    have "row_of t \<in> set (map row_of us)" using that by auto
    then show ?thesis using us(2) by simp
  qed
  have f: "queue_ok (fold tq_enqueue ?ts ?q0) \<and> all_tasks (fold tq_enqueue ?ts ?q0) = mset ?ts + all_tasks ?q0 \<and>
      (\<exists>rows'. q_db (fold tq_enqueue ?ts ?q0) = Some rows' \<and> mset rows' = mset rows)"
    by (rule load_fold [OF empty_queue_ok _ r(1) sub]) simp_all
  have "all_tasks ?q0 = {#}" by (simp add: all_tasks_def all_entries_def)
  then have "all_tasks (fold tq_enqueue ?ts ?q0) = image_mset (\<lambda>t. t\<lparr>t_state := QUEUED\<rparr>) (all_tasks q)"
    using f us(1) by simp
  with op f show ?thesis by blast
qed

text \<open>
  Crash recovery.  A broker that opens the table of another one, whatever that one did before it
  stopped, has in every queue exactly the tasks that were in it, as freshly queued ones, with the same
  reported sizes, and leaves the table as it was.
\<close>

theorem queue_recovery:
  assumes "queue_run q" "q_db q = Some rows"
  shows "\<exists>q' rows'. open_queue (Some rows) = Inr q' \<and> q_db q' = Some rows' \<and> mset rows' = mset rows \<and>
    (\<forall>nm. contents nm q' = image_mset (\<lambda>t. t\<lparr>t_state := QUEUED\<rparr>) (contents nm q) \<and>
          queue_size nm q' = queue_size nm q)"
proof -
  have ok: "queue_ok q" using queue_run_ok [OF assms(1)] by blast
  obtain q' rows' where q': "open_queue (Some rows) = Inr q'" "queue_ok q'" "q_db q' = Some rows'" "mset rows' = mset rows"
    "all_tasks q' = image_mset (\<lambda>t. t\<lparr>t_state := QUEUED\<rparr>) (all_tasks q)"
    using recovered [OF assms] by blast
  have c: "contents nm q' = image_mset (\<lambda>t. t\<lparr>t_state := QUEUED\<rparr>) (contents nm q)" for nm
    using q' ok by (simp add: contents_filter filter_mset_image_mset)
  then have "queue_size nm q' = queue_size nm q" for nm using q' ok by (simp add: size_contents)
  with q' c show ?thesis by blast
qed

theorem queue_recovery_witness:
  "\<exists>q'. open_queue (q_db demo_queue) = Inr q' \<and> queue_size ''default'' q' = 2"
proof -
  have s: "queue_size ''default'' demo_queue = 2" "q_db demo_queue \<noteq> None" by code_simp+
  then obtain rows where r: "q_db demo_queue = Some rows" by auto
  show ?thesis using queue_recovery [OF demo_queue_run r] s(1) r by auto
qed

text \<open>
  A task that was taken is not recovered.  Its row is deleted when it is taken, before any worker
  has acknowledged it: a broker that restarts then does not know the task.
\<close>

theorem taken_task_not_recovered:
  assumes "queue_run q" "tq_dequeue nm now q = (Some t, q')"
  shows "\<exists>q2. open_queue (q_db q') = Inr q2 \<and> t_id t \<in> queued_ids q \<and> t_id t \<notin> queued_ids q2"
proof -
  have ok: "queue_ok q" "table_ok q" using queue_run_ok [OF assms(1)] by auto
  note s = dequeue_Some [OF ok(1) assms(2)]
  have run: "queue_run q'" using queue_run.take [OF assms(1), of nm now] assms(2) by simp
  then obtain rows where r: "q_db q' = Some rows" "mset rows = image_mset row_of (all_tasks q')" 
    using queue_run_ok by (auto simp: table_ok_def)
  obtain q2 where q2: "open_queue (Some rows) = Inr q2"
    "all_tasks q2 = image_mset (\<lambda>t. t\<lparr>t_state := QUEUED\<rparr>) (all_tasks q')"
    using recovered [OF run r(1)] by auto
  obtain rows0 where "q_db q = Some rows0" by (use ok(2) in \<open>auto simp: table_ok_def\<close>)
  then have "t_id t \<notin> r_id ` set rows" using s(7) r(1) by (auto simp: persist_dequeue_def)
  then have out: "t_id t \<notin> queued_ids q'" using table_ids [OF r(2)] by (simp add: queued_ids_def)
  have "queued_ids q2 = queued_ids q'" unfolding queued_ids_def q2(2) by (simp add: image_image)
  moreover have "t_id t \<in> queued_ids q" unfolding queued_ids_def s(9) [symmetric] by simp
  ultimately show ?thesis using q2 r out by auto
qed

theorem taken_task_not_recovered_witness:
  "\<exists>t q' q2. tq_dequeue ''default'' 10 demo_queue = (Some t, q') \<and> open_queue (q_db q') = Inr q2 \<and>
     t_id t = ''b'' \<and> ''b'' \<notin> queued_ids q2"
proof -
  have i: "map_option t_id (fst (tq_dequeue ''default'' 10 demo_queue)) = Some ''b''" by code_simp
  then obtain t q' where d: "tq_dequeue ''default'' 10 demo_queue = (Some t, q')" by (cases "tq_dequeue ''default'' 10 demo_queue") auto
  with i have "t_id t = ''b''" by simp
  with taken_task_not_recovered [OF demo_queue_run d] d show ?thesis by auto
qed

text \<open>
  A race with the table.  A task is pushed, and before its row is written another thread takes it and deletes the
  row that is not there yet: the row then stays behind, and a broker that opens the table queues the
  task again although it was given out.
\<close>

theorem raced_row_stays:
  assumes "queue_run q" "t_id t \<notin> queued_ids q" "tq_dequeue nm now (tq_push t q) = (Some t, q')"
  shows "t \<notin># contents nm q' \<and> (\<exists>rows. q_db (tq_persist t q') = Some rows \<and> row_of t \<in> set rows)"
proof -
  have ok: "queue_ok q" "table_ok q" using queue_run_ok [OF assms(1)] by auto
  then obtain rows where r: "q_db q = Some rows" by (auto simp: table_ok_def)
  define p where "p = tq_enqueue t q"
  have p: "tq_push t q = p\<lparr>q_db := q_db q\<rparr>" by (simp add: p_def tq_enqueue_def tq_persist_def tq_push_def)
  have pok: "queue_ok p" "all_tasks p = add_mset t (all_tasks q)" using ok by (simp_all add: p_def enqueue_ok enqueue_all)
  have h: "heap_of (p\<lparr>q_db := d\<rparr>) n = heap_of p n" "count_of (p\<lparr>q_db := d\<rparr>) n z = count_of p n z" for d n z
    by (simp_all add: heap_of_def count_of_def)
  have dok: "queue_ok (p\<lparr>q_db := q_db q\<rparr>)" using pok(1) by (simp add: queue_ok_def h)
  note s = dequeue_Some [OF dok assms(3) [unfolded p]]
  have "all_tasks (p\<lparr>q_db := q_db q\<rparr>) = all_tasks p" by (simp add: all_tasks_def all_entries_def)
  then have "all_tasks q' = all_tasks q" using s(9) pok(2) by simp
  then have "t \<notin># all_tasks q'" using assms(2) by (auto simp: queued_ids_def)
  then have "t \<notin># contents nm q'" using contents_filter [OF s(8), of nm] by simp
  moreover have "q_db q' = Some (persist_dequeue (t_id t) rows)" using s(7) r by simp
  ultimately show ?thesis by (simp add: tq_persist_def persist_enqueue_def)
qed

theorem raced_row_stays_witness:
  "\<exists>q'. tq_dequeue ''default'' 10 (tq_push (demo_task ''n'' 0 None 3) demo_queue) = (Some (demo_task ''n'' 0 None 3), q') \<and>
     (\<exists>rows. q_db (tq_persist (demo_task ''n'' 0 None 3) q') = Some rows \<and> row_of (demo_task ''n'' 0 None 3) \<in> set rows)"
proof -
  let ?t = "demo_task ''n'' 0 None 3"
  have "map_option t_id (fst (tq_dequeue ''default'' 10 (tq_push ?t demo_queue))) = Some ''n''"
    "fst (tq_dequeue ''default'' 10 (tq_push ?t demo_queue)) = Some ?t" by code_simp+
  then obtain q' where d: "tq_dequeue ''default'' 10 (tq_push ?t demo_queue) = (Some ?t, q')"
    by (cases "tq_dequeue ''default'' 10 (tq_push ?t demo_queue)") simp
  have "list_all (\<lambda>(n, h). list_all (\<lambda>e. t_id (e_task e) \<noteq> ''n'') h) (q_heaps demo_queue)" by code_simp
  then have "t_id ?t \<notin> queued_ids demo_queue"
    by (fastforce simp: queued_ids_def all_tasks_def all_entries_def list_all_iff)
  from raced_row_stays [OF demo_queue_run this d] d show ?thesis by blast
qed

end
