(* ===== verification/Task_Protocol.thy ===== *)
theory Task_Protocol
  imports Py_Text "HOL-Library.Word"
begin

text \<open>
  The wire protocol of the task queue: \<open>modules/taskqueue/taskqueue/broker/protocol.py\<close> and the
  message types of \<open>config.py\<close>.  A frame is the magic number, a big-endian 32-bit length and a JSON
  body.  JSON text and UTF-8 are library code: \<open>enc\<close> and \<open>dec\<close> are \<open>json.dumps\<close> with its encoding
  and \<open>json.loads\<close> with its decoding.  A socket is the list of chunks that \<open>recv\<close> will see, in order;
  when they are used up the peer has closed the connection.
\<close>

section \<open>Messages\<close>

datatype message_type =
    PUBLISH | ACK | NACK | RESULT | SUBSCRIBE | REVOKE | DELIVER | CONFIRM | ERROR | STATS | PING | PONG

fun type_value :: "message_type \<Rightarrow> string" where
  "type_value PUBLISH = ''PUBLISH''" | "type_value ACK = ''ACK''" | "type_value NACK = ''NACK''"
| "type_value RESULT = ''RESULT''" | "type_value SUBSCRIBE = ''SUBSCRIBE''" | "type_value REVOKE = ''REVOKE''"
| "type_value DELIVER = ''DELIVER''" | "type_value CONFIRM = ''CONFIRM''" | "type_value ERROR = ''ERROR''"
| "type_value STATS = ''STATS''" | "type_value PING = ''PING''" | "type_value PONG = ''PONG''"

definition all_types :: "message_type list" where
  "all_types = [PUBLISH, ACK, NACK, RESULT, SUBSCRIBE, REVOKE, DELIVER, CONFIRM, ERROR, STATS, PING, PONG]"

definition type_of_value :: "string \<Rightarrow> message_type res" where
  \<comment> \<open>\<open>MessageType(v)\<close>\<close>
  "type_of_value s = (case find (\<lambda>t. type_value t = s) all_types of
      None \<Rightarrow> Inl (ValueError s) | Some t \<Rightarrow> Inr t)"

record message =
  msg_type :: message_type
  msg_payload :: json

definition message_to_dict :: "message \<Rightarrow> json" where
  "message_to_dict m = JObj (fmap_of_list [(''type'', JStr (type_value (msg_type m))), (''payload'', msg_payload m)])"

definition message_from_dict :: "json \<Rightarrow> message res" where
  "message_from_dict j =
     (case j of
        JObj d \<Rightarrow>
          (case fmlookup d ''type'' of
             None \<Rightarrow> Inl (KeyError ''type'')
           | Some (JStr s) \<Rightarrow>
               ebind (type_of_value s) (\<lambda>t. Inr \<lparr>msg_type = t, msg_payload = dget d ''payload'' (JObj fmempty)\<rparr>)
           | Some _ \<Rightarrow> Inl (ValueError ''not a valid MessageType''))
      | _ \<Rightarrow> Inl (TypeError ''indices must be integers''))"

lemma type_roundtrip [simp]: "type_of_value (type_value t) = Inr t"
  by (cases t) (simp_all add: type_of_value_def all_types_def)

lemma message_roundtrip [simp]: "message_from_dict (message_to_dict m) = Inr m"
  by (simp add: message_from_dict_def message_to_dict_def dget_def)

section \<open>Frames\<close>

type_synonym byte = "8 word"

datatype frame_error = FramingError string | ConnectionClosed | Uncaught exc

definition MAGIC :: "byte list" where
  "MAGIC = [0x54, 0x53, 0x4B, 0x51]"

lemma MAGIC_length [simp]: "length MAGIC = 4" "take 4 MAGIC = MAGIC"
  by (simp_all add: MAGIC_def)

definition HEADER_SIZE :: nat where
  "HEADER_SIZE = 8"

definition MAX_MESSAGE_BYTES :: nat where
  "MAX_MESSAGE_BYTES = 10 * 1024 * 1024"

definition pack_u32 :: "nat \<Rightarrow> byte list" where
  \<comment> \<open>\<open>struct.pack(">I", n)\<close>\<close>
  "pack_u32 n = [of_nat (n div 2 ^ 24), of_nat (n div 2 ^ 16), of_nat (n div 2 ^ 8), of_nat n]"

definition unpack_u32 :: "byte list \<Rightarrow> nat" where
  "unpack_u32 bs = unat (bs ! 0) * 2 ^ 24 + unat (bs ! 1) * 2 ^ 16 + unat (bs ! 2) * 2 ^ 8 + unat (bs ! 3)"

lemma pack_u32_length [simp]: "length (pack_u32 n) = 4"
  by (simp add: pack_u32_def)

lemma digits_256:
  "b = 256 * a + x \<Longrightarrow> c = 256 * b + y \<Longrightarrow> n = 256 * c + z \<Longrightarrow>
     a * 2 ^ 24 + x * 2 ^ 16 + y * 2 ^ 8 + z = (n :: nat)"
  by simp

lemma unpack_pack_u32: "n < 2 ^ 32 \<Longrightarrow> unpack_u32 (pack_u32 n @ rest) = n"
proof -
  assume n: "n < 2 ^ 32"
  have d: "n div 2 ^ 24 < 256" using n by (simp add: less_mult_imp_div_less)
  have "n div 2 ^ 16 = 256 * (n div 2 ^ 24) + (n div 2 ^ 16) mod 256"
    using mult_div_mod_eq [of 256 "n div 2 ^ 16"] by (simp add: div_mult2_eq [symmetric])
  moreover have "n div 2 ^ 8 = 256 * (n div 2 ^ 16) + (n div 2 ^ 8) mod 256"
    using mult_div_mod_eq [of 256 "n div 2 ^ 8"] by (simp add: div_mult2_eq [symmetric])
  moreover have "n = 256 * (n div 2 ^ 8) + n mod 256"
    using mult_div_mod_eq [of 256 n] by simp
  moreover have "unpack_u32 (pack_u32 n @ rest) = (n div 2 ^ 24) * 2 ^ 24 + (n div 2 ^ 16 mod 256) * 2 ^ 16 +
      (n div 2 ^ 8 mod 256) * 2 ^ 8 + n mod 256"
    using d by (simp add: unpack_u32_def pack_u32_def unat_of_nat)
  ultimately show ?thesis by (metis digits_256)
qed

definition encode_message :: "(json \<Rightarrow> byte list) \<Rightarrow> message \<Rightarrow> frame_error + byte list" where
  "encode_message enc m =
     (let body = enc (message_to_dict m) in
      if length body > MAX_MESSAGE_BYTES then Inl (FramingError ''Message too large'')
      else Inr (MAGIC @ pack_u32 (length body) @ body))"

definition parse_body :: "(byte list \<Rightarrow> json res) \<Rightarrow> byte list \<Rightarrow> frame_error + message" where
  \<comment> \<open>\<open>Message.from_dict(json.loads(body))\<close>; \<open>KeyError\<close> and \<open>ValueError\<close> become \<open>FramingError\<close>\<close>
  "parse_body dec body =
     (case ebind (dec body) message_from_dict of
        Inr m \<Rightarrow> Inr m
      | Inl (KeyError s) \<Rightarrow> Inl (FramingError s)
      | Inl (ValueError s) \<Rightarrow> Inl (FramingError s)
      | Inl e \<Rightarrow> Inl (Uncaught e))"

definition decode_frame :: "(byte list \<Rightarrow> json res) \<Rightarrow> byte list \<Rightarrow> frame_error + message" where
  "decode_frame dec data =
     (if length data < HEADER_SIZE then Inl (FramingError ''Frame too short'')
      else if take 4 data \<noteq> MAGIC then Inl (FramingError ''Bad magic'')
      else parse_body dec (take (unpack_u32 (drop 4 data)) (drop HEADER_SIZE data)))"

section \<open>Reading from a socket\<close>

type_synonym socket = "byte list list"

definition write_message :: "(json \<Rightarrow> byte list) \<Rightarrow> socket \<Rightarrow> message \<Rightarrow> frame_error + socket" where
  \<comment> \<open>\<open>sendall\<close> puts the whole frame behind what the peer has not read yet\<close>
  "write_message enc s m = (case encode_message enc m of Inl e \<Rightarrow> Inl e | Inr frame \<Rightarrow> Inr (s @ [frame]))"

definition recv :: "nat \<Rightarrow> socket \<Rightarrow> byte list \<times> socket" where
  \<comment> \<open>at most \<open>n\<close> bytes of the next chunk; nothing at the end of the stream\<close>
  "recv n s = (case s of
      [] \<Rightarrow> ([], [])
    | c # cs \<Rightarrow> (take n c, if drop n c = [] then cs else drop n c # cs))"

function recv_loop :: "nat \<Rightarrow> byte list \<Rightarrow> socket \<Rightarrow> (frame_error + byte list) \<times> socket" where
  "recv_loop n buf s =
     (if length buf < n then
        (let (chunk, s') = recv (n - length buf) s in
         if chunk = [] then (Inl ConnectionClosed, s') else recv_loop n (buf @ chunk) s')
      else (Inr buf, s))"
  by pat_completeness auto
termination by (relation "measure (\<lambda>(n, buf, s). n - length buf)") (auto simp: recv_def min_def simp flip: length_greater_0_conv split: list.splits)

declare recv_loop.simps [simp del]

definition recv_exactly :: "nat \<Rightarrow> socket \<Rightarrow> (frame_error + byte list) \<times> socket" where
  "recv_exactly n s = recv_loop n [] s"

definition read_message :: "(byte list \<Rightarrow> json res) \<Rightarrow> socket \<Rightarrow> (frame_error + message) \<times> socket" where
  "read_message dec s =
     (case recv_exactly HEADER_SIZE s of
        (Inl e, s1) \<Rightarrow> (Inl e, s1)
      | (Inr header, s1) \<Rightarrow>
          if take 4 header \<noteq> MAGIC then (Inl (FramingError ''Bad magic''), s1)
          else (let n = unpack_u32 (drop 4 header) in
                if n > MAX_MESSAGE_BYTES then (Inl (FramingError ''Message too large''), s1)
                else (case recv_exactly n s1 of
                        (Inl e, s2) \<Rightarrow> (Inl e, s2)
                      | (Inr body, s2) \<Rightarrow> (parse_body dec body, s2))))"

fun read_messages :: "(byte list \<Rightarrow> json res) \<Rightarrow> nat \<Rightarrow> socket \<Rightarrow> (frame_error + message list) \<times> socket" where
  \<comment> \<open>the reading loop of a peer, for a given number of messages\<close>
  "read_messages dec 0 s = (Inr [], s)"
| "read_messages dec (Suc k) s =
     (case read_message dec s of
        (Inl e, s1) \<Rightarrow> (Inl e, s1)
      | (Inr m, s1) \<Rightarrow>
          (case read_messages dec k s1 of
             (Inl e, s2) \<Rightarrow> (Inl e, s2)
           | (Inr ms, s2) \<Rightarrow> (Inr (m # ms), s2)))"

section \<open>Framing is independent of fragmentation\<close>

definition flows :: "socket \<Rightarrow> byte list \<Rightarrow> bool" where
  \<comment> \<open>the chunks carry exactly these bytes; no chunk is empty\<close>
  "flows s bs \<longleftrightarrow> concat s = bs \<and> [] \<notin> set s"

lemma recv_flows:
  assumes "flows s bs" "0 < n" "bs \<noteq> []"
  shows "\<exists>k s'. recv n s = (take k bs, s') \<and> 0 < k \<and> k \<le> n \<and> k \<le> length bs \<and> flows s' (drop k bs)"
proof -
  from assms obtain c cs where s: "s = c # cs" "c \<noteq> []" "[] \<notin> set cs" "bs = c @ concat cs"
    by (cases s) (auto simp: flows_def)
  show ?thesis
    by (rule exI [of _ "min n (length c)"]) (use s assms(2) in \<open>auto simp: recv_def flows_def min_def\<close>)
qed

lemma recv_loop_flows:
  assumes "flows s (a @ b)" "length buf + length a = n"
  shows "\<exists>s'. recv_loop n buf s = (Inr (buf @ a), s') \<and> flows s' b"
  using assms
proof (induction "length a" arbitrary: a buf s rule: less_induct)
  case less
  show ?case
  proof (cases "a = []")
    case True
    with less.prems show ?thesis by (simp add: recv_loop.simps [of n buf])
  next
    case False
    then have n: "0 < n - length buf" "length buf < n" using less.prems(2) by auto
    obtain k s' where k: "recv (n - length buf) s = (take k (a @ b), s')" "0 < k" "k \<le> n - length buf"
      "k \<le> length (a @ b)" "flows s' (drop k (a @ b))"
      using recv_flows [OF less.prems(1) n(1)] False by auto
    have ka: "k \<le> length a" using k(3) less.prems(2) by simp
    have "length (drop k a) < length a" using k(2) ka by simp
    moreover have "flows s' (drop k a @ b)" using k(5) ka by simp
    moreover have "length (buf @ take k a) + length (drop k a) = n" using less.prems(2) ka by simp
    ultimately obtain s'' where "recv_loop n (buf @ take k a) s' = (Inr ((buf @ take k a) @ drop k a), s'')" "flows s'' b"
      using less.hyps by blast
    moreover have "take k a \<noteq> []" using k(2) False by simp
    ultimately show ?thesis
      using k(1) ka n(2) by (simp add: recv_loop.simps [of n buf])
  qed
qed

lemma recv_exactly_flows:
  "flows s (a @ b) \<Longrightarrow> \<exists>s'. recv_exactly (length a) s = (Inr a, s') \<and> flows s' b"
  using recv_loop_flows [of s a b "[]" "length a"] by (simp add: recv_exactly_def)

lemma read_message_flows:
  assumes "encode_message enc m = Inr frame" "dec (enc (message_to_dict m)) = Inr (message_to_dict m)"
    "flows s (frame @ rest)"
  shows "\<exists>s'. read_message dec s = (Inr m, s') \<and> flows s' rest"
proof -
  let ?body = "enc (message_to_dict m)"
  have len: "length ?body \<le> MAX_MESSAGE_BYTES" and frame: "frame = MAGIC @ pack_u32 (length ?body) @ ?body"
    using assms(1) by (auto simp: encode_message_def Let_def split: if_splits)
  let ?h = "MAGIC @ pack_u32 (length ?body)"
  have hl: "length ?h = HEADER_SIZE" by (simp add: MAGIC_def HEADER_SIZE_def)
  have "flows s (?h @ ?body @ rest)" using assms(3) frame by simp
  from recv_exactly_flows [OF this] obtain s1 where
    s1: "recv_exactly HEADER_SIZE s = (Inr ?h, s1)" "flows s1 (?body @ rest)" unfolding hl by blast
  from recv_exactly_flows [OF s1(2)] obtain s2 where
    s2: "recv_exactly (length ?body) s1 = (Inr ?body, s2)" "flows s2 rest" by blast
  have u: "unpack_u32 (pack_u32 (length ?body)) = length ?body"
    using unpack_pack_u32 [of "length ?body" "[]"] len by (simp add: MAX_MESSAGE_BYTES_def)
  have p: "parse_body dec ?body = Inr m" using assms(2) by (simp add: parse_body_def)
  show ?thesis using s1 s2 len by (simp add: read_message_def u p not_less)
qed

text \<open>
  C17: messages survive the network's fragmentation.  Whatever chunks the byte stream of a sequence of
  encoded messages arrives in, also with the start of further data behind it, reading as many messages
  gives exactly the messages that were sent, in order, and leaves exactly the bytes behind them.
\<close>

theorem framing_roundtrip:
  assumes "list_all2 (\<lambda>m f. encode_message enc m = Inr f) ms frames"
    "\<And>m. m \<in> set ms \<Longrightarrow> dec (enc (message_to_dict m)) = Inr (message_to_dict m)"
    "flows s (concat frames @ rest)"
  shows "\<exists>s'. read_messages dec (length ms) s = (Inr ms, s') \<and> flows s' rest"
  using assms
proof (induction ms arbitrary: frames s)
  case (Cons m ms)
  then obtain f fs where f: "frames = f # fs" "encode_message enc m = Inr f"
    "list_all2 (\<lambda>m f. encode_message enc m = Inr f) ms fs"
    by (auto simp: list_all2_Cons1)
  have "flows s (f @ concat fs @ rest)" using Cons.prems(3) f(1) by simp
  from read_message_flows [OF f(2) _ this] Cons.prems(2)
  obtain s1 where s1: "read_message dec s = (Inr m, s1)" "flows s1 (concat fs @ rest)" by auto
  obtain s2 where "read_messages dec (length ms) s1 = (Inr ms, s2)" "flows s2 rest"
    using Cons.IH [OF f(3) _ s1(2)] Cons.prems(2) by auto
  with s1 show ?case by simp
qed simp

theorem framing_roundtrip_witness:
  "\<exists>s'. read_messages (\<lambda>b. Inr (message_to_dict \<lparr>msg_type = PING, msg_payload = JNull\<rparr>)) 1
        [[0x54, 0x53], [0x4B, 0x51, 0, 0, 0], [2, 1], [7, 9]]
      = (Inr [\<lparr>msg_type = PING, msg_payload = JNull\<rparr>], s') \<and> flows s' [9]"
proof -
  let ?m = "\<lparr>msg_type = PING, msg_payload = JNull\<rparr>"
  have e: "encode_message (\<lambda>j. [1, 7]) ?m = Inr [0x54, 0x53, 0x4B, 0x51, 0, 0, 0, 2, 1, 7]"
    by (simp add: encode_message_def MAGIC_def pack_u32_def MAX_MESSAGE_BYTES_def)
  have "\<exists>s'. read_messages (\<lambda>b. Inr (message_to_dict ?m)) (length [?m])
        [[0x54, 0x53], [0x4B, 0x51, 0, 0, 0], [2, 1], [7, 9]] = (Inr [?m], s') \<and> flows s' [9]"
    by (rule framing_roundtrip [where enc = "\<lambda>j. [1, 7]" and
          frames = "[[0x54, 0x53, 0x4B, 0x51, 0, 0, 0, 2, 1, 7]]"]) (use e in \<open>auto simp: flows_def\<close>)
  then show ?thesis by simp
qed

text \<open>
  What the two decoders accept.  A frame decodes to the message it was made from; a message
  above the size limit is refused by the sender, and a header that announces more than the limit, or
  with a wrong magic number, is refused by the reader before it reads a body.
\<close>

theorem frame_limits:
  "(dec (enc (message_to_dict m)) = Inr (message_to_dict m) \<and> encode_message enc m = Inr frame
      \<longrightarrow> decode_frame dec frame = Inr m) \<and>
   (length (enc (message_to_dict m)) > MAX_MESSAGE_BYTES
      \<longrightarrow> encode_message enc m = Inl (FramingError ''Message too large'')) \<and>
   (length header = HEADER_SIZE \<and> flows s (header @ rest) \<and> take 4 header = MAGIC \<and>
      unpack_u32 (drop 4 header) > MAX_MESSAGE_BYTES
      \<longrightarrow> fst (read_message dec s) = Inl (FramingError ''Message too large'')) \<and>
   (length header = HEADER_SIZE \<and> flows s (header @ rest) \<and> take 4 header \<noteq> MAGIC
      \<longrightarrow> fst (read_message dec s) = Inl (FramingError ''Bad magic''))"
proof (intro conjI impI)
  assume a: "dec (enc (message_to_dict m)) = Inr (message_to_dict m) \<and> encode_message enc m = Inr frame"
  let ?body = "enc (message_to_dict m)"
  have len: "length ?body \<le> MAX_MESSAGE_BYTES" and frame: "frame = MAGIC @ pack_u32 (length ?body) @ ?body"
    using a by (auto simp: encode_message_def Let_def split: if_splits)
  have u: "unpack_u32 (pack_u32 (length ?body) @ ?body) = length ?body"
    by (rule unpack_pack_u32) (use len in \<open>simp add: MAX_MESSAGE_BYTES_def\<close>)
  have m4: "take 4 frame = MAGIC" "drop 4 frame = pack_u32 (length ?body) @ ?body"
    "drop HEADER_SIZE frame = ?body" "\<not> length frame < HEADER_SIZE"
    by (simp_all add: frame MAGIC_def HEADER_SIZE_def)
  show "decode_frame dec frame = Inr m" using a by (simp add: decode_frame_def m4 u parse_body_def)
next
  assume "length (enc (message_to_dict m)) > MAX_MESSAGE_BYTES"
  then show "encode_message enc m = Inl (FramingError ''Message too large'')" by (simp add: encode_message_def)
next
  assume a: "length header = HEADER_SIZE \<and> flows s (header @ rest) \<and> take 4 header = MAGIC \<and>
      unpack_u32 (drop 4 header) > MAX_MESSAGE_BYTES"
  with recv_exactly_flows [of s header rest] show "fst (read_message dec s) = Inl (FramingError ''Message too large'')"
    by (auto simp: read_message_def)
next
  assume a: "length header = HEADER_SIZE \<and> flows s (header @ rest) \<and> take 4 header \<noteq> MAGIC"
  with recv_exactly_flows [of s header rest] show "fst (read_message dec s) = Inl (FramingError ''Bad magic'')"
    by (auto simp: read_message_def)
qed

theorem frame_limits_witness:
  "fst (read_message (\<lambda>b. Inr JNull) [[1, 2, 3, 4], [0, 0, 0, 0]]) = Inl (FramingError ''Bad magic'')"
  using frame_limits [of "\<lambda>b. Inr JNull" "\<lambda>j. []" "\<lparr>msg_type = PING, msg_payload = JNull\<rparr>" "[]"
      "[1, 2, 3, 4, 0, 0, 0, 0]" "[[1, 2, 3, 4], [0, 0, 0, 0]]" "[]"]
  by (simp add: HEADER_SIZE_def flows_def MAGIC_def)

end
