(* ===== verification/Task_Broker.thy ===== *)
theory Task_Broker
  imports Task_Queue Task_Protocol
begin

text \<open>
  The broker, \<open>modules/taskqueue/taskqueue/broker/server.py\<close>: the handlers of the messages of a
  connection, the pass of the dispatch loop and the pass of the reaper loop.  Connections are numbers;
  \<open>alive\<close> tells for which of them a write does not raise \<open>OSError\<close>.  A \<open>WorkerConnection\<close> is an object
  that the registry and the thread of its connection share: objects live in \<open>b_objs\<close>, and \<open>b_workers\<close> and
  \<open>b_handler\<close> hold references to them.  A payload value whose type is not the one that the
  protocol gives it is a \<open>TypeError\<close> here; an exception of a handler ends its connection.
\<close>

section \<open>State\<close>

record worker_conn =
  wc_sock :: nat
  wc_id :: string
  wc_queues :: "string list"
  wc_busy :: bool
  wc_last_ping :: rat

record pending_delivery =
  pd_task :: task
  pd_worker :: string
  pd_at :: rat

record broker =
  b_queue :: task_queue
  b_objs :: "worker_conn list"
  b_workers :: "(string \<times> nat) list"
  b_handler :: "(nat \<times> nat) list"
  b_pending :: "(string \<times> pending_delivery) list"
  b_listeners :: "(string \<times> nat list) list"
  b_out :: "(nat \<times> message) list"

definition new_broker :: "task_queue \<Rightarrow> broker" where
  "new_broker q = \<lparr>b_queue = q, b_objs = [], b_workers = [], b_handler = [], b_pending = [], b_listeners = [], b_out = []\<rparr>"

definition send :: "(nat \<Rightarrow> bool) \<Rightarrow> nat \<Rightarrow> message \<Rightarrow> broker \<Rightarrow> broker" where
  \<comment> \<open>\<open>write_message\<close> in a \<open>try\<close> that ignores \<open>OSError\<close>\<close>
  "send alive c m b = (if alive c then b\<lparr>b_out := b_out b @ [(c, m)]\<rparr> else b)"

definition set_obj :: "nat \<Rightarrow> (worker_conn \<Rightarrow> worker_conn) \<Rightarrow> broker \<Rightarrow> broker" where
  "set_obj r f b = b\<lparr>b_objs := (b_objs b)[r := f (b_objs b ! r)]\<rparr>"

section \<open>Payloads\<close>

fun as_strs :: "json \<Rightarrow> string list res" where
  "as_strs (JList js) = emap as_str js" | "as_strs _ = Inl (TypeError ''not a list'')"

definition payload_of :: "message \<Rightarrow> dict res" where
  "payload_of m = py_dict (msg_payload m)"

text \<open>A key of \<open>_pending\<close>: only strings are keys; lists and dictionaries cannot be looked up.\<close>

fun pending_key :: "json \<Rightarrow> string option res" where
  "pending_key (JStr s) = Inr (Some s)"
| "pending_key (JList _) = Inl (TypeError ''unhashable type'')"
| "pending_key (JObj _) = Inl (TypeError ''unhashable type'')"
| "pending_key _ = Inr None"

section \<open>Message handlers\<close>

definition handle_subscribe :: "rat \<Rightarrow> nat \<Rightarrow> string \<Rightarrow> dict \<Rightarrow> (unit, broker) act" where
  "handle_subscribe now c port p =
     abind (alift (as_str (dget p ''worker_id'' (JStr (''worker-'' @ port))))) (\<lambda>wid.
     abind (alift (as_strs (dget p ''queues'' (JList [JStr ''default''])))) (\<lambda>qs b.
       (Inr (), b\<lparr>b_objs := b_objs b @ [\<lparr>wc_sock = c, wc_id = wid, wc_queues = qs, wc_busy = False, wc_last_ping = now\<rparr>],
                  b_workers := AList.update wid (length (b_objs b)) (b_workers b),
                  b_handler := AList.update c (length (b_objs b)) (b_handler b)\<rparr>)))"

definition task_of_payload :: "rat \<Rightarrow> dict \<Rightarrow> task res" where
  "task_of_payload now p =
     ebind (ebind (dindex p ''task_id'') as_str) (\<lambda>i.
     ebind (ebind (dindex p ''name'') as_str) (\<lambda>nm.
     ebind (as_str (dget p ''queue'' (JStr ''default''))) (\<lambda>q.
     ebind (as_num (dget p ''priority'' (JNum 5))) (\<lambda>pr.
     ebind (as_num (dget p ''retries'' (JNum 0))) (\<lambda>r.
     ebind (as_num (dget p ''max_retries'' (JNum 3))) (\<lambda>mr.
     ebind (as_num (dget p ''retry_delay'' (JNum 5))) (\<lambda>rd.
     ebind (as_opt_num (dget p ''eta'' JNull)) (\<lambda>e.
       Inr \<lparr>t_id = i, t_name = nm, t_args = dget p ''args'' (JList []), t_kwargs = dget p ''kwargs'' (JObj fmempty),
            t_queue = q, t_priority = pr, t_retries = r, t_max_retries = mr, t_retry_delay = rd,
            t_timeout = dget p ''timeout'' JNull, t_eta = e, t_created = now, t_state = QUEUED\<rparr>))))))))"

definition handle_publish :: "rat \<Rightarrow> (nat \<Rightarrow> bool) \<Rightarrow> nat \<Rightarrow> dict \<Rightarrow> (unit, broker) act" where
  "handle_publish now alive c p =
     abind (alift (task_of_payload now p)) (\<lambda>t b.
       (Inr (), send alive c \<lparr>msg_type = CONFIRM, msg_payload = JObj (fmap_of_list [(''task_id'', JStr (t_id t))])\<rparr>
          (b\<lparr>b_queue := tq_enqueue t (b_queue b)\<rparr>)))"

definition pop_pending :: "string option \<Rightarrow> broker \<Rightarrow> pending_delivery option \<times> broker" where
  "pop_pending k b = (case k of None \<Rightarrow> (None, b)
     | Some i \<Rightarrow> (map_of (b_pending b) i, b\<lparr>b_pending := AList.delete i (b_pending b)\<rparr>))"

definition handle_ack :: "dict \<Rightarrow> (unit, broker) act" where
  "handle_ack p = abind (alift (pending_key (dget p ''task_id'' JNull))) (\<lambda>k b. (Inr (), snd (pop_pending k b)))"

definition retried :: "task \<Rightarrow> task" where
  \<comment> \<open>\<open>task.retries += 1\<close>\<close>
  "retried t = t\<lparr>t_retries := t_retries t + 1\<rparr>"

definition handle_nack :: "rat \<Rightarrow> dict \<Rightarrow> (unit, broker) act" where
  "handle_nack now p = abind (alift (pending_key (dget p ''task_id'' JNull))) (\<lambda>k b.
     (case pop_pending k b of
        (None, b1) \<Rightarrow> (Inr (), b1)
      | (Some pd, b1) \<Rightarrow>
          if truthy (dget p ''requeue'' (JBool True)) \<and> t_retries (retried (pd_task pd)) \<le> t_max_retries (pd_task pd)
          then (Inr (), b1\<lparr>b_queue := tq_requeue now (t_retry_delay (pd_task pd)) (retried (pd_task pd)) (b_queue b1)\<rparr>)
          else (Inr (), b1)))"

definition handle_result :: "(nat \<Rightarrow> bool) \<Rightarrow> dict \<Rightarrow> (unit, broker) act" where
  "handle_result alive p = abind (alift (pending_key (dget p ''task_id'' JNull))) (\<lambda>k b.
     (let b1 = snd (pop_pending k b);
          ls = (case k of None \<Rightarrow> [] | Some i \<Rightarrow> (case map_of (b_listeners b) i of None \<Rightarrow> [] | Some l \<Rightarrow> l));
          b2 = b1\<lparr>b_listeners := (case k of None \<Rightarrow> b_listeners b | Some i \<Rightarrow> AList.delete i (b_listeners b))\<rparr>
      in (Inr (), fold (\<lambda>l. send alive l \<lparr>msg_type = RESULT, msg_payload = JObj p\<rparr>) ls b2)))"

definition handle_revoke :: "dict \<Rightarrow> (unit, broker) act" where
  "handle_revoke p = abind (alift (pending_key (dget p ''task_id'' JNull))) (\<lambda>k b.
     (Inr (), (case k of None \<Rightarrow> b | Some i \<Rightarrow>
        (case map_of (b_pending b) i of None \<Rightarrow> b
         | Some pd \<Rightarrow> b\<lparr>b_pending := AList.update i (pd\<lparr>pd_task := (pd_task pd)\<lparr>t_state := REVOKED\<rparr>\<rparr>) (b_pending b)\<rparr>))))"

definition stats_payload :: "broker \<Rightarrow> json" where
  "stats_payload b = JObj (fmap_of_list
     [(''queues'', JObj (fmap_of_list (map (\<lambda>(q, n). (q, JNum (of_int n))) (all_sizes (b_queue b))))),
      (''workers'', JNum (of_nat (length (b_workers b)))), (''pending_acks'', JNum (of_nat (length (b_pending b))))])"

definition handle_stats :: "(nat \<Rightarrow> bool) \<Rightarrow> nat \<Rightarrow> (unit, broker) act" where
  "handle_stats alive c b = (Inr (), send alive c \<lparr>msg_type = STATS, msg_payload = stats_payload b\<rparr> b)"

section \<open>A connection\<close>

text \<open>What one message does; \<open>False\<close> when the connection ends (a \<open>PONG\<close> that cannot be written).\<close>

definition handle_message :: "rat \<Rightarrow> (nat \<Rightarrow> bool) \<Rightarrow> nat \<Rightarrow> string \<Rightarrow> message \<Rightarrow> (bool, broker) act" where
  "handle_message now alive c port m =
     (let with_payload = (\<lambda>h. abind (alift (payload_of m)) (\<lambda>p. abind (h p) (\<lambda>_. aret True)))
      in case msg_type m of
        SUBSCRIBE \<Rightarrow> with_payload (handle_subscribe now c port)
      | PUBLISH \<Rightarrow> with_payload (handle_publish now alive c)
      | ACK \<Rightarrow> with_payload handle_ack
      | NACK \<Rightarrow> with_payload (handle_nack now)
      | RESULT \<Rightarrow> abind (with_payload (handle_result alive)) (\<lambda>g b.
          (Inr g, case map_of (b_handler b) c of None \<Rightarrow> b | Some r \<Rightarrow> set_obj r (\<lambda>w. w\<lparr>wc_busy := False\<rparr>) b))
      | REVOKE \<Rightarrow> with_payload handle_revoke
      | STATS \<Rightarrow> abind (handle_stats alive c) (\<lambda>_. aret True)
      | PING \<Rightarrow> (\<lambda>b. (Inr (alive c), send alive c \<lparr>msg_type = PONG, msg_payload = JObj fmempty\<rparr> b))
      | PONG \<Rightarrow> (\<lambda>b. (Inr True, case map_of (b_handler b) c of None \<Rightarrow> b
                                | Some r \<Rightarrow> set_obj r (\<lambda>w. w\<lparr>wc_last_ping := now\<rparr>) b))
      | _ \<Rightarrow> aret True)"

definition disconnect :: "nat \<Rightarrow> broker \<Rightarrow> broker" where
  "disconnect c b =
     (case map_of (b_handler b) c of None \<Rightarrow> b
      | Some r \<Rightarrow> b\<lparr>b_workers := AList.delete (wc_id (b_objs b ! r)) (b_workers b),
                    b_handler := AList.delete c (b_handler b)\<rparr>)"

definition serve_message :: "rat \<Rightarrow> (nat \<Rightarrow> bool) \<Rightarrow> nat \<Rightarrow> string \<Rightarrow> message \<Rightarrow> broker \<Rightarrow> broker" where
  "serve_message now alive c port m b =
     (case handle_message now alive c port m b of
        (Inr True, b') \<Rightarrow> b' | (Inr False, b') \<Rightarrow> disconnect c b' | (Inl e, b') \<Rightarrow> disconnect c b')"

section \<open>Dispatching\<close>

definition deliver_payload :: "task \<Rightarrow> json" where
  "deliver_payload t = JObj (fmap_of_list
     [(''task_id'', JStr (t_id t)), (''name'', JStr (t_name t)), (''args'', t_args t), (''kwargs'', t_kwargs t),
      (''queue'', JStr (t_queue t)), (''retries'', JNum (t_retries t)), (''max_retries'', JNum (t_max_retries t)),
      (''retry_delay'', JNum (t_retry_delay t)), (''timeout'', t_timeout t)])"

fun offer :: "rat \<Rightarrow> (nat \<Rightarrow> bool) \<Rightarrow> nat \<Rightarrow> string list \<Rightarrow> broker \<Rightarrow> bool \<times> broker" where
  \<comment> \<open>the loop over the queues of the worker with reference \<open>r\<close>: whether a task was dispatched\<close>
  "offer now alive r [] b = (False, b)"
| "offer now alive r (q # qs) b =
     (case tq_dequeue q now (b_queue b) of
        (None, q') \<Rightarrow> offer now alive r qs (b\<lparr>b_queue := q'\<rparr>)
      | (Some t, q') \<Rightarrow>
          (let w = b_objs b ! r; t' = t\<lparr>t_state := RUNNING\<rparr>; b1 = b\<lparr>b_queue := q'\<rparr> in
           if alive (wc_sock w)
           then (True, set_obj r (\<lambda>w. w\<lparr>wc_busy := True\<rparr>)
                   (b1\<lparr>b_out := b_out b1 @ [(wc_sock w, \<lparr>msg_type = DELIVER, msg_payload = deliver_payload t'\<rparr>)],
                       b_pending := AList.update (t_id t') \<lparr>pd_task = t', pd_worker = wc_id w, pd_at = now\<rparr> (b_pending b1)\<rparr>))
           else (False, b1\<lparr>b_queue := tq_requeue now 0 t' q', b_workers := AList.delete (wc_id w) (b_workers b1)\<rparr>)))"

fun dispatch_to :: "rat \<Rightarrow> (nat \<Rightarrow> bool) \<Rightarrow> nat list \<Rightarrow> broker \<Rightarrow> bool \<times> broker" where
  "dispatch_to now alive [] b = (False, b)"
| "dispatch_to now alive (r # rs) b =
     (if wc_busy (b_objs b ! r) then dispatch_to now alive rs b
      else (case offer now alive r (wc_queues (b_objs b ! r)) b of
              (d, b1) \<Rightarrow> (case dispatch_to now alive rs b1 of (d', b2) \<Rightarrow> (d \<or> d', b2))))"

definition dispatch_pass :: "rat \<Rightarrow> (nat \<Rightarrow> bool) \<Rightarrow> broker \<Rightarrow> bool \<times> broker" where
  "dispatch_pass now alive b = dispatch_to now alive (map snd (b_workers b)) b"

section \<open>Reaping\<close>

definition overdue :: "rat \<Rightarrow> rat \<Rightarrow> pending_delivery \<Rightarrow> bool" where
  "overdue now limit pd = (now - pd_at pd > limit)"

definition reap_one :: "rat \<Rightarrow> pending_delivery \<Rightarrow> task_queue \<Rightarrow> task_queue" where
  "reap_one now pd q =
     (let t = retried (pd_task pd) in
      if t_retries t \<le> t_max_retries t then tq_requeue now 0 t q else q)"

definition reaper_pass :: "rat \<Rightarrow> rat \<Rightarrow> broker \<Rightarrow> broker" where
  "reaper_pass now limit b =
     (let late = filter (overdue now limit) (map snd (b_pending b)) in
      b\<lparr>b_pending := filter (\<lambda>(i, pd). \<not> overdue now limit pd) (b_pending b),
        b_queue := fold (reap_one now) late (b_queue b)\<rparr>)"

end
