(* ===== verification/Task_Broker_Props.thy ===== *)
theory Task_Broker_Props
  imports Task_Broker
begin

text \<open>
  What the broker's passes and handlers guarantee: the invariant of reachable brokers, the effect of a
  dispatch pass and of a reaper pass, that no result is ever forwarded, and what a closing
  connection does to the registration of a worker that has reconnected.
\<close>

section \<open>Reachable brokers\<close>

inductive broker_reach :: "broker \<Rightarrow> bool" where
  start: "queue_ok q \<Longrightarrow> broker_reach (new_broker q)"
| message: "broker_reach b \<Longrightarrow> broker_reach (serve_message now alive c port m b)"
| dispatch: "broker_reach b \<Longrightarrow> broker_reach (snd (dispatch_pass now alive b))"
| reap: "broker_reach b \<Longrightarrow> broker_reach (reaper_pass now limit b)"
| close: "broker_reach b \<Longrightarrow> broker_reach (disconnect c b)"

definition quiet_result :: "(nat \<times> message) list \<Rightarrow> bool" where
  "quiet_result out = (\<forall>(c, m) \<in> set out. msg_type m \<noteq> RESULT)"

text \<open>Nothing listens for results, no result was written, the queue is well formed, references point to objects.\<close>

definition broker_ok :: "broker \<Rightarrow> bool" where
  "broker_ok b = (queue_ok (b_queue b) \<and> b_listeners b = [] \<and> quiet_result (b_out b) \<and>
     (\<forall>r \<in> snd ` set (b_workers b). r < length (b_objs b)))"

lemma requeue_ok [simp]: "queue_ok q \<Longrightarrow> queue_ok (tq_requeue now d t q)"
  by (simp add: tq_requeue_def enqueue_ok)

lemma requeue_all: "queue_ok q \<Longrightarrow> all_tasks (tq_requeue now d t q) = add_mset (retry_task now d t) (all_tasks q)"
  by (simp add: tq_requeue_def enqueue_all)

lemma send_sel [simp]:
  "b_queue (send alive c m b) = b_queue b" "b_listeners (send alive c m b) = b_listeners b"
  "b_workers (send alive c m b) = b_workers b" "b_objs (send alive c m b) = b_objs b"
  "b_pending (send alive c m b) = b_pending b" "b_handler (send alive c m b) = b_handler b"
  by (simp_all add: send_def)

lemma set_obj_sel [simp]:
  "b_queue (set_obj r f b) = b_queue b" "b_listeners (set_obj r f b) = b_listeners b"
  "b_workers (set_obj r f b) = b_workers b" "length (b_objs (set_obj r f b)) = length (b_objs b)"
  "b_pending (set_obj r f b) = b_pending b" "b_handler (set_obj r f b) = b_handler b"
  "b_out (set_obj r f b) = b_out b"
  by (simp_all add: set_obj_def)

lemma pop_pending_sel [simp]:
  "b_queue (snd (pop_pending k b)) = b_queue b" "b_listeners (snd (pop_pending k b)) = b_listeners b"
  "b_workers (snd (pop_pending k b)) = b_workers b" "b_objs (snd (pop_pending k b)) = b_objs b"
  "b_out (snd (pop_pending k b)) = b_out b" "b_handler (snd (pop_pending k b)) = b_handler b"
  by (simp_all add: pop_pending_def split: option.splits)

lemma quiet_send: "quiet_result (b_out b) \<Longrightarrow> msg_type m \<noteq> RESULT \<Longrightarrow> quiet_result (b_out (send alive c m b))"
  by (auto simp: quiet_result_def send_def)

lemma workers_update:
  "p \<in> set (AList.update w n ws) \<Longrightarrow> \<forall>r \<in> set ws. snd r < n \<Longrightarrow> snd p < Suc n"
  using set_alist_update_subset [of w n ws] by fastforce

lemma workers_delete:
  "p \<in> set (AList.delete w ws) \<Longrightarrow> p \<in> set ws"
  using set_alist_delete_subset [of w ws] by blast

lemma ok_subscribe: "keeps broker_ok (handle_subscribe now c port p)"
  unfolding handle_subscribe_def
  by (intro keeps_lift_bind keepsI) (auto simp: broker_ok_def dest: workers_update)

lemma ok_publish: "keeps broker_ok (handle_publish now alive c p)"
  unfolding handle_publish_def
  by (intro keeps_lift_bind keepsI) (simp add: broker_ok_def enqueue_ok quiet_send)

lemma ok_ack: "keeps broker_ok (handle_ack p)"
  unfolding handle_ack_def by (intro keeps_lift_bind keepsI) (simp add: broker_ok_def)

lemma ok_pop: "broker_ok b \<Longrightarrow> broker_ok (snd (pop_pending k b))"
  by (simp add: broker_ok_def)

lemma ok_nack: "keeps broker_ok (handle_nack now p)"
  unfolding handle_nack_def
proof (intro keeps_lift_bind keepsI)
  fix k b assume "broker_ok b"
  then have o: "broker_ok (snd (pop_pending k b))" by (rule ok_pop)
  then have "broker_ok ((snd (pop_pending k b))\<lparr>b_queue := tq_requeue now d t (b_queue (snd (pop_pending k b)))\<rparr>)" for d t
    unfolding broker_ok_def by simp
  with o show "broker_ok (snd (case pop_pending k b of
        (None, b1) \<Rightarrow> (Inr (), b1)
      | (Some pd, b1) \<Rightarrow>
          if truthy (dget p ''requeue'' (JBool True)) \<and> t_retries (retried (pd_task pd)) \<le> t_max_retries (pd_task pd)
          then (Inr (), b1\<lparr>b_queue := tq_requeue now (t_retry_delay (pd_task pd)) (retried (pd_task pd)) (b_queue b1)\<rparr>)
          else (Inr (), b1)))"
    by (cases "pop_pending k b"; cases "fst (pop_pending k b)") auto
qed

lemma ok_result: "keeps broker_ok (handle_result alive p)"
  unfolding handle_result_def
  by (intro keeps_lift_bind keepsI) (simp add: broker_ok_def Let_def split: option.splits)

lemma ok_revoke: "keeps broker_ok (handle_revoke p)"
  unfolding handle_revoke_def
  by (intro keeps_lift_bind keepsI) (simp add: broker_ok_def split: option.splits)

lemma ok_disconnect: "broker_ok b \<Longrightarrow> broker_ok (disconnect c b)"
  by (auto simp: disconnect_def broker_ok_def dest: workers_delete split: option.splits)

lemma ok_set_obj: "broker_ok b \<Longrightarrow> broker_ok (set_obj r f b)"
  by (simp add: broker_ok_def)

lemma ok_send: "broker_ok b \<Longrightarrow> msg_type m \<noteq> RESULT \<Longrightarrow> broker_ok (send alive c m b)"
  by (simp add: broker_ok_def quiet_send)

lemma ok_stats: "keeps broker_ok (handle_stats alive c)"
  by (rule keepsI) (simp add: handle_stats_def ok_send)

lemma ok_message: "keeps broker_ok (handle_message now alive c port m)"
proof -
  have obj: "keeps broker_ok (\<lambda>b. (Inr x, case map_of (b_handler b) c of None \<Rightarrow> b | Some r \<Rightarrow> set_obj r f b))" for x f
    by (rule keepsI) (simp add: ok_set_obj split: option.splits)
  have pong: "keeps broker_ok (\<lambda>b. (Inr x, send alive c \<lparr>msg_type = PONG, msg_payload = y\<rparr> b))" for x y
    by (rule keepsI) (simp add: ok_send)
  note parts = ok_subscribe ok_publish ok_ack ok_nack ok_result ok_revoke ok_stats obj pong
  show ?thesis
    unfolding handle_message_def Let_def
    by (cases "msg_type m") (simp_all add: keeps_bind parts)
qed

lemma ok_serve: "broker_ok b \<Longrightarrow> broker_ok (serve_message now alive c port m b)"
  using keepsD [OF ok_message, of b now alive c port m]
  by (auto simp: serve_message_def ok_disconnect split: prod.splits sum.splits bool.splits)

section \<open>The dispatch pass\<close>

type_synonym delivery = "nat \<times> task"

definition delivery_message :: "broker \<Rightarrow> delivery \<Rightarrow> nat \<times> message" where
  "delivery_message b d = (wc_sock (b_objs b ! fst d), \<lparr>msg_type = DELIVER, msg_payload = deliver_payload (snd d)\<rparr>)"

definition add_pending :: "broker \<Rightarrow> rat \<Rightarrow> delivery \<Rightarrow> (string \<times> pending_delivery) list \<Rightarrow> (string \<times> pending_delivery) list" where
  "add_pending b now d = AList.update (t_id (snd d)) \<lparr>pd_task = snd d, pd_worker = wc_id (b_objs b ! fst d), pd_at = now\<rparr>"

text \<open>The deliveries \<open>ds\<close> were made between \<open>b\<close> and \<open>b'\<close>, to idle workers among \<open>rs\<close>.\<close>

definition delivered :: "rat \<Rightarrow> (nat \<Rightarrow> bool) \<Rightarrow> nat set \<Rightarrow> broker \<Rightarrow> delivery list \<Rightarrow> broker \<Rightarrow> bool" where
  "delivered now alive rs b ds b' =
     (distinct (map fst ds) \<and>
      (\<forall>(r, t) \<in> set ds. r \<in> rs \<and> \<not> wc_busy (b_objs b ! r) \<and> alive (wc_sock (b_objs b ! r)) \<and>
          t_queue t \<in> set (wc_queues (b_objs b ! r)) \<and> eta_of t \<le> now \<and> t_state t = RUNNING) \<and>
      b_out b' = b_out b @ map (delivery_message b) ds \<and>
      b_pending b' = fold (add_pending b now) ds (b_pending b) \<and>
      length (b_objs b') = length (b_objs b) \<and>
      (\<forall>r < length (b_objs b). b_objs b' ! r =
          (if r \<in> fst ` set ds then (b_objs b ! r)\<lparr>wc_busy := True\<rparr> else b_objs b ! r)) \<and>
      image_mset t_id (all_tasks (b_queue b)) = image_mset t_id (all_tasks (b_queue b')) + mset (map (t_id \<circ> snd) ds))"

lemma delivered_none:
  "b_objs b' = b_objs b \<Longrightarrow> b_out b' = b_out b \<Longrightarrow> b_pending b' = b_pending b \<Longrightarrow>
   image_mset t_id (all_tasks (b_queue b')) = image_mset t_id (all_tasks (b_queue b)) \<Longrightarrow>
   delivered now alive rs b [] b'"
  by (simp add: delivered_def)

lemma offer_effect:
  "queue_ok (b_queue b) \<Longrightarrow> r < length (b_objs b) \<Longrightarrow> \<not> wc_busy (b_objs b ! r) \<Longrightarrow>
   set qs \<subseteq> set (wc_queues (b_objs b ! r)) \<Longrightarrow> offer now alive r qs b = (d, b') \<Longrightarrow>
   queue_ok (b_queue b') \<and> set (b_workers b') \<subseteq> set (b_workers b) \<and> b_listeners b' = b_listeners b \<and>
   (\<exists>ds. delivered now alive {r} b ds b' \<and> d = (ds \<noteq> []))"
proof (induction qs arbitrary: b)
  case Nil
  then show ?case by (auto intro!: exI [of _ "[]"] delivered_none)
next
  case (Cons q qs)
  show ?case
  proof (cases "fst (tq_dequeue q now (b_queue b))")
    case None
    have "b\<lparr>b_queue := b_queue b\<rparr> = b" by simp
    then have "offer now alive r qs b = (d, b')"
      using Cons.prems(5) dequeue_None_same [OF Cons.prems(1) None] by simp
    with Cons show ?thesis by simp
  next
    case (Some t)
    then obtain q' where dq: "tq_dequeue q now (b_queue b) = (Some t, q')" by (metis prod.collapse)
    note s = dequeue_Some [OF Cons.prems(1) dq]
    let ?t = "t\<lparr>t_state := RUNNING\<rparr>"
    have tasks: "image_mset t_id (all_tasks (b_queue b)) = add_mset (t_id t) (image_mset t_id (all_tasks q'))"
      unfolding s(9) [symmetric] by simp
    show ?thesis
    proof (cases "alive (wc_sock (b_objs b ! r))")
      case True
      have b': "d" "b_queue b' = q'" "b_workers b' = b_workers b" "b_listeners b' = b_listeners b"
        "b_out b' = b_out b @ [delivery_message b (r, ?t)]" "b_pending b' = add_pending b now (r, ?t) (b_pending b)"
        "b_objs b' = (b_objs b)[r := (b_objs b ! r)\<lparr>wc_busy := True\<rparr>]"
        using Cons.prems(5) True by (auto simp: dq Let_def set_obj_def delivery_message_def add_pending_def)
      have eta: "eta_of ?t = eta_of t" by (cases "t_eta t") (simp_all add: eta_of_def)
      have "delivered now alive {r} b [(r, ?t)] b'"
        using Cons.prems True s(2,3) b' tasks eta by (auto simp: delivered_def nth_list_update)
      with b' s(8) show ?thesis by auto
    next
      case False
      have b': "\<not> d" "b_queue b' = tq_requeue now 0 ?t q'" "b_workers b' = AList.delete (wc_id (b_objs b ! r)) (b_workers b)"
        "b_listeners b' = b_listeners b" "b_out b' = b_out b" "b_pending b' = b_pending b" "b_objs b' = b_objs b"
        using Cons.prems(5) False by (auto simp: dq Let_def)
      have "delivered now alive {r} b [] b'"
        by (rule delivered_none) (use b' s(8) tasks in \<open>auto simp: requeue_all retry_task_def\<close>)
      with b' s(8) set_alist_delete_subset [of "wc_id (b_objs b ! r)" "b_workers b"] show ?thesis by simp
    qed
  qed
qed

lemma delivered_trans:
  assumes d1: "delivered now alive rs1 b ds1 b1" and d2: "delivered now alive rs2 b1 ds2 b2"
    and len: "rs1 \<subseteq> {..< length (b_objs b)}" "rs2 \<subseteq> {..< length (b_objs b)}"
  shows "delivered now alive (rs1 \<union> rs2) b (ds1 @ ds2) b2"
proof -
  have obj: "r < length (b_objs b) \<Longrightarrow> b_objs b1 ! r =
      (if r \<in> fst ` set ds1 then (b_objs b ! r)\<lparr>wc_busy := True\<rparr> else b_objs b ! r)" for r
    using d1 by (simp add: delivered_def)
  have in2: "r < length (b_objs b) \<and> r \<notin> fst ` set ds1 \<and> b_objs b1 ! r = b_objs b ! r" if "r \<in> fst ` set ds2" for r
  proof -
    have "r \<in> rs2" "\<not> wc_busy (b_objs b1 ! r)" using d2 that by (auto simp: delivered_def)
    then have "r < length (b_objs b)" using len by auto
    with obj [OF this] \<open>\<not> wc_busy (b_objs b1 ! r)\<close> show ?thesis by (auto split: if_splits)
  qed
  have msgs: "map (delivery_message b1) ds2 = map (delivery_message b) ds2"
    using in2 by (auto simp: delivery_message_def)
  have pend: "fold (add_pending b1 now) ds2 z = fold (add_pending b now) ds2 z" for z
    by (rule fold_cong) (use in2 in \<open>auto simp: add_pending_def\<close>)
  have dist: "distinct (map fst (ds1 @ ds2))"
    using d1 d2 in2 by (auto simp: delivered_def)
  have each: "\<forall>(r, t) \<in> set (ds1 @ ds2). r \<in> rs1 \<union> rs2 \<and> \<not> wc_busy (b_objs b ! r) \<and> alive (wc_sock (b_objs b ! r)) \<and>
          t_queue t \<in> set (wc_queues (b_objs b ! r)) \<and> eta_of t \<le> now \<and> t_state t = RUNNING"
  proof (clarify)
    fix r t assume "(r, t) \<in> set (ds1 @ ds2)"
    then consider "(r, t) \<in> set ds1" | "(r, t) \<in> set ds2" by auto
    then show "r \<in> rs1 \<union> rs2 \<and> \<not> wc_busy (b_objs b ! r) \<and> alive (wc_sock (b_objs b ! r)) \<and>
          t_queue t \<in> set (wc_queues (b_objs b ! r)) \<and> eta_of t \<le> now \<and> t_state t = RUNNING"
    proof cases
      case 1 with d1 show ?thesis by (auto simp: delivered_def)
    next
      case 2
      then have "b_objs b1 ! r = b_objs b ! r" using in2 [of r] by force
      with 2 d2 show ?thesis by (auto simp: delivered_def)
    qed
  qed
  have objs: "\<forall>r < length (b_objs b). b_objs b2 ! r =
          (if r \<in> fst ` set (ds1 @ ds2) then (b_objs b ! r)\<lparr>wc_busy := True\<rparr> else b_objs b ! r)"
    using d1 d2 obj in2 by (auto simp: delivered_def)
  show ?thesis
    using d1 d2 dist each objs msgs pend unfolding delivered_def [of now alive "rs1 \<union> rs2"]
    by (simp add: delivered_def ac_simps)
qed

lemma delivered_mono: "delivered now alive rs b ds b' \<Longrightarrow> rs \<subseteq> rs' \<Longrightarrow> delivered now alive rs' b ds b'"
  by (auto simp: delivered_def)

lemma dispatch_to_effect:
  "queue_ok (b_queue b) \<Longrightarrow> set rs \<subseteq> {..< length (b_objs b)} \<Longrightarrow> dispatch_to now alive rs b = (d, b') \<Longrightarrow>
   queue_ok (b_queue b') \<and> set (b_workers b') \<subseteq> set (b_workers b) \<and> b_listeners b' = b_listeners b \<and>
   (\<exists>ds. delivered now alive (set rs) b ds b' \<and> d = (ds \<noteq> []))"
proof (induction rs arbitrary: b d)
  case Nil
  then show ?case by (auto intro!: exI [of _ "[]"] delivered_none)
next
  case (Cons r rs)
  show ?case
  proof (cases "wc_busy (b_objs b ! r)")
    case True
    then have "dispatch_to now alive rs b = (d, b')" using Cons.prems(3) by simp
    from Cons.IH [OF Cons.prems(1) _ this] Cons.prems(2) delivered_mono [of now alive "set rs" b _ b' "set (r # rs)"]
    show ?thesis by auto
  next
    case False
    obtain d1 b1 where o: "offer now alive r (wc_queues (b_objs b ! r)) b = (d1, b1)" by fastforce
    obtain d2 where t: "dispatch_to now alive rs b1 = (d2, b')" "d = (d1 \<or> d2)"
      using Cons.prems(3) False o by (auto split: prod.splits)
    have rl: "r < length (b_objs b)" using Cons.prems(2) by simp
    obtain ds1 where e1: "queue_ok (b_queue b1)" "set (b_workers b1) \<subseteq> set (b_workers b)" "b_listeners b1 = b_listeners b"
      "delivered now alive {r} b ds1 b1" "d1 = (ds1 \<noteq> [])"
      using offer_effect [OF Cons.prems(1) rl False subset_refl o] by blast
    then have len: "length (b_objs b1) = length (b_objs b)" by (simp add: delivered_def)
    obtain ds2 where e2: "queue_ok (b_queue b')" "set (b_workers b') \<subseteq> set (b_workers b1)" "b_listeners b' = b_listeners b1"
      "delivered now alive (set rs) b1 ds2 b'" "d2 = (ds2 \<noteq> [])"
      using Cons.IH [OF e1(1) _ t(1)] Cons.prems(2) len by auto
    have "delivered now alive ({r} \<union> set rs) b (ds1 @ ds2) b'"
      by (rule delivered_trans [OF e1(4) e2(4)]) (use Cons.prems(2) in auto)
    with e1 e2 t(2) show ?thesis by (auto intro!: exI [of _ "ds1 @ ds2"])
  qed
qed

lemma dispatch_effect:
  assumes "broker_ok b"
  shows "broker_ok (snd (dispatch_pass now alive b)) \<and>
    (\<exists>ds. delivered now alive (snd ` set (b_workers b)) b ds (snd (dispatch_pass now alive b)) \<and>
          fst (dispatch_pass now alive b) = (ds \<noteq> []))"
proof -
  obtain d b' where p: "dispatch_to now alive (map snd (b_workers b)) b = (d, b')" by fastforce
  have q: "queue_ok (b_queue b)" "set (map snd (b_workers b)) \<subseteq> {..< length (b_objs b)}"
    using assms by (auto simp: broker_ok_def)
  obtain ds where e: "queue_ok (b_queue b')" "set (b_workers b') \<subseteq> set (b_workers b)" "b_listeners b' = b_listeners b"
    "delivered now alive (set (map snd (b_workers b))) b ds b'" "d = (ds \<noteq> [])"
    using dispatch_to_effect [OF q p] by blast
  have "quiet_result (b_out b')"
    using e(4) assms by (auto simp: delivered_def broker_ok_def quiet_result_def delivery_message_def)
  moreover have "\<forall>r \<in> snd ` set (b_workers b'). r < length (b_objs b')"
    using e(2,4) q(2) by (auto simp: delivered_def)
  ultimately have "broker_ok b'" using e assms by (simp add: broker_ok_def)
  with e p show ?thesis by (auto simp: dispatch_pass_def)
qed

section \<open>The reaper pass\<close>

lemma reap_fold:
  "queue_ok q \<Longrightarrow> queue_ok (fold (reap_one now) pds q) \<and>
   all_tasks (fold (reap_one now) pds q) = all_tasks q +
     mset (map (retry_task now 0 \<circ> retried \<circ> pd_task) (filter (\<lambda>pd. t_retries (pd_task pd) + 1 \<le> t_max_retries (pd_task pd)) pds))"
proof (induction pds arbitrary: q)
  case (Cons pd pds)
  have "queue_ok (reap_one now pd q)" using Cons.prems by (simp add: reap_one_def Let_def)
  from Cons.IH [OF this] Cons.prems show ?case by (simp add: reap_one_def retried_def requeue_all)
qed simp

lemma ok_reap: "broker_ok b \<Longrightarrow> broker_ok (reaper_pass now limit b)"
  using reap_fold by (simp add: broker_ok_def reaper_pass_def Let_def)

lemma broker_reach_ok: "broker_reach b \<Longrightarrow> broker_ok b"
proof (induction rule: broker_reach.induct)
  case (start q)
  then show ?case by (simp add: broker_ok_def new_broker_def quiet_result_def)
qed (auto simp: ok_serve ok_reap ok_disconnect dispatch_effect)

section \<open>Theorems\<close>

text \<open>
  A dispatch pass.  In any reachable broker there are deliveries, at most one per worker, each to a
  registered worker that was idle and can be written to, of a due task of a queue the worker subscribed to; the
  pass writes exactly these messages, marks exactly these workers busy, records exactly these
  deliveries as unacknowledged, and the ids that leave the queues are those of the delivered
  tasks: a task taken for a dead connection is back in its queue.
\<close>

theorem dispatch_pass_effect:
  assumes "broker_reach b"
  shows "\<exists>ds. let b' = snd (dispatch_pass now alive b) in
    fst (dispatch_pass now alive b) = (ds \<noteq> []) \<and> distinct (map fst ds) \<and>
    (\<forall>(r, t) \<in> set ds. r \<in> snd ` set (b_workers b) \<and> \<not> wc_busy (b_objs b ! r) \<and> alive (wc_sock (b_objs b ! r)) \<and>
        t_queue t \<in> set (wc_queues (b_objs b ! r)) \<and> eta_of t \<le> now) \<and>
    b_out b' = b_out b @ map (\<lambda>(r, t). (wc_sock (b_objs b ! r), \<lparr>msg_type = DELIVER, msg_payload = deliver_payload t\<rparr>)) ds \<and>
    b_pending b' = fold (\<lambda>(r, t). AList.update (t_id t) \<lparr>pd_task = t, pd_worker = wc_id (b_objs b ! r), pd_at = now\<rparr>) ds (b_pending b) \<and>
    (\<forall>r < length (b_objs b). wc_busy (b_objs b' ! r) \<longleftrightarrow> wc_busy (b_objs b ! r) \<or> r \<in> fst ` set ds) \<and>
    image_mset t_id (all_tasks (b_queue b)) = image_mset t_id (all_tasks (b_queue b')) + mset (map (t_id \<circ> snd) ds)"
proof -
  obtain ds where d: "delivered now alive (snd ` set (b_workers b)) b ds (snd (dispatch_pass now alive b))"
    "fst (dispatch_pass now alive b) = (ds \<noteq> [])"
    using dispatch_effect [OF broker_reach_ok [OF assms]] by blast
  have m: "delivery_message b = (\<lambda>(r, t). (wc_sock (b_objs b ! r), \<lparr>msg_type = DELIVER, msg_payload = deliver_payload t\<rparr>))"
    by (auto simp: delivery_message_def fun_eq_iff)
  have p: "add_pending b now = (\<lambda>(r, t). AList.update (t_id t) \<lparr>pd_task = t, pd_worker = wc_id (b_objs b ! r), pd_at = now\<rparr>)"
    by (auto simp: add_pending_def fun_eq_iff)
  show ?thesis
    by (rule exI [of _ ds]) (use d in \<open>auto simp: delivered_def m p Let_def\<close>)
qed

definition demo_broker :: broker where
  "demo_broker = serve_message 1 (\<lambda>_. True) 7 ''7''
     \<lparr>msg_type = SUBSCRIBE, msg_payload = JObj (fmap_of_list [(''worker_id'', JStr ''w'')])\<rparr>
     (new_broker (tq_enqueue (demo_task ''a'' 5 None 1) \<lparr>q_heaps = [], q_counts = [], q_db = None\<rparr>))"

lemma demo_broker_reach: "broker_reach demo_broker"
  unfolding demo_broker_def
  by (intro broker_reach.message broker_reach.start enqueue_ok empty_queue_ok)

theorem dispatch_pass_effect_witness:
  "\<exists>t. b_out (snd (dispatch_pass 2 (\<lambda>_. True) demo_broker)) = [(7, \<lparr>msg_type = DELIVER, msg_payload = deliver_payload t\<rparr>)]"
proof -
  let ?b = "snd (dispatch_pass 2 (\<lambda>_. True) demo_broker)"
  have l: "length (b_out ?b) = 1" "b_out demo_broker = []" "wc_sock (b_objs demo_broker ! 0) = 7"
    "map snd (b_workers demo_broker) = [0]" by code_simp+
  obtain ds where ds: "\<forall>(r, t) \<in> set ds. r \<in> snd ` set (b_workers demo_broker) \<and> \<not> wc_busy (b_objs demo_broker ! r) \<and> True \<and>
      t_queue t \<in> set (wc_queues (b_objs demo_broker ! r)) \<and> eta_of t \<le> 2"
    "b_out ?b = b_out demo_broker @ map (\<lambda>(r, t). (wc_sock (b_objs demo_broker ! r), \<lparr>msg_type = DELIVER, msg_payload = deliver_payload t\<rparr>)) ds"
    using dispatch_pass_effect [OF demo_broker_reach, of 2 "\<lambda>_. True"] unfolding Let_def by blast
  then have "length ds = 1" using l by simp
  then obtain r t where "ds = [(r, t)]" by (cases ds) auto
  moreover have "snd ` set (b_workers demo_broker) = {0}" using l(4) by (metis list.set(1) list.set(2) list.set_map)
  ultimately show ?thesis using ds l by auto
qed

text \<open>
  The reaper.  A pass removes exactly the deliveries that have been unacknowledged for longer than
  the limit and puts exactly those of them back that have a retry left, each once, with one more
  retry counted, due at once, and never above its maximum.
\<close>

theorem reaper_pass_effect:
  assumes "broker_reach b"
  shows "let b' = reaper_pass now limit b; late = filter (overdue now limit) (map snd (b_pending b)) in
    b_pending b' = filter (\<lambda>(i, pd). now - pd_at pd \<le> limit) (b_pending b) \<and>
    all_tasks (b_queue b') = all_tasks (b_queue b) +
      mset (map (\<lambda>pd. (pd_task pd)\<lparr>t_retries := t_retries (pd_task pd) + 1, t_eta := Some now, t_state := RETRY\<rparr>)
        (filter (\<lambda>pd. t_retries (pd_task pd) + 1 \<le> t_max_retries (pd_task pd)) late)) \<and>
    b_objs b' = b_objs b \<and> b_out b' = b_out b"
proof -
  have q: "queue_ok (b_queue b)" using broker_reach_ok [OF assms] by (simp add: broker_ok_def)
  have f: "(\<lambda>pd. (pd_task pd)\<lparr>t_retries := t_retries (pd_task pd) + 1, t_eta := Some now, t_state := RETRY\<rparr>) =
      retry_task now 0 \<circ> retried \<circ> pd_task"
    by (auto simp: fun_eq_iff retry_task_def retried_def)
  show ?thesis
    using conjunct2 [OF reap_fold [OF q]]
    by (simp add: reaper_pass_def Let_def f overdue_def not_less case_prod_beta)
qed

theorem reaper_pass_effect_witness:
  "b_pending (reaper_pass 50 30 (snd (dispatch_pass 2 (\<lambda>_. True) demo_broker))) = [] \<and>
   image_mset t_retries (all_tasks (b_queue (reaper_pass 50 30 (snd (dispatch_pass 2 (\<lambda>_. True) demo_broker))))) = {#1#}"
proof -
  let ?b = "snd (dispatch_pass 2 (\<lambda>_. True) demo_broker)"
  have r: "broker_reach ?b" by (rule broker_reach.dispatch [OF demo_broker_reach])
  have p: "filter (\<lambda>(i, pd). 50 - pd_at pd \<le> 30) (b_pending ?b) = []" by code_simp
  have l: "map (\<lambda>pd. t_retries (pd_task pd) + 1) (filter (\<lambda>pd. t_retries (pd_task pd) + 1 \<le> t_max_retries (pd_task pd))
      (filter (overdue 50 30) (map snd (b_pending ?b)))) = [1]" by code_simp
  have z: "map t_retries (map e_task (concat (map snd (q_heaps (b_queue ?b))))) = []" by code_simp
  then have "image_mset t_retries (all_tasks (b_queue ?b)) = {#}" by (simp add: all_tasks_def all_entries_def)
  with reaper_pass_effect [OF r, of 50 30] p l show ?thesis
    by (simp add: Let_def comp_def flip: mset_map)
qed

text \<open>
  No result reaches a client.  Nothing ever registers a listener, so no reachable broker has written a
  \<open>RESULT\<close> message to any connection, whatever workers sent.
\<close>

theorem results_never_forwarded:
  assumes "broker_reach b" "(c, m) \<in> set (b_out b)"
  shows "msg_type m \<noteq> RESULT"
  using broker_reach_ok [OF assms(1)] assms(2) by (auto simp: broker_ok_def quiet_result_def)

theorem results_never_forwarded_witness:
  "msg_type (snd (b_out (serve_message 3 (\<lambda>_. True) 7 ''7'' \<lparr>msg_type = STATS, msg_payload = JNull\<rparr> demo_broker) ! 0)) \<noteq> RESULT"
proof -
  let ?b = "serve_message 3 (\<lambda>_. True) 7 ''7'' \<lparr>msg_type = STATS, msg_payload = JNull\<rparr> demo_broker"
  have r: "broker_reach ?b" by (rule broker_reach.message [OF demo_broker_reach])
  have "length (b_out ?b) = 1" by code_simp
  then have "b_out ?b ! 0 \<in> set (b_out ?b)" by simp
  then have "(fst (b_out ?b ! 0), snd (b_out ?b ! 0)) \<in> set (b_out ?b)" by simp
  from results_never_forwarded [OF r this] show ?thesis .
qed

text \<open>
  A worker that reconnects is unregistered when its old connection ends.  The second \<open>SUBSCRIBE\<close>
  replaces the registration; the thread of the first connection removes the registration by the worker's id
  when it ends, although that entry is now the new connection's: no task is ever dispatched to the
  worker again, while its connection stays open.
\<close>

theorem reconnect_loses_worker:
  assumes "as_str (dget p ''worker_id'' (JStr (''worker-'' @ porta))) = Inr w"
    "as_strs (dget p ''queues'' (JList [JStr ''default''])) = Inr qs"
    "as_str (dget p ''worker_id'' (JStr (''worker-'' @ portb))) = Inr w" "c1 \<noteq> c2"
  shows "let m = \<lparr>msg_type = SUBSCRIBE, msg_payload = JObj p\<rparr>;
       b1 = serve_message u alive c1 porta m b;
       b2 = serve_message v alive c2 portb m b1;
       b3 = disconnect c1 b2
    in map_of (b_workers b2) w = Some (length (b_objs b1)) \<and> wc_sock (b_objs b3 ! length (b_objs b1)) = c2 \<and>
       map_of (b_handler b3) c2 = Some (length (b_objs b1)) \<and> map_of (b_workers b3) w = None"
  using assms
  by (simp add: serve_message_def handle_message_def payload_of_def handle_subscribe_def disconnect_def abind_def
      Let_def update_conv' delete_conv' nth_append)

theorem reconnect_loses_worker_witness:
  "map_of (b_workers (disconnect 1 (serve_message 3 (\<lambda>_. True) 2 ''2'' \<lparr>msg_type = SUBSCRIBE,
      msg_payload = JObj (fmap_of_list [(''worker_id'', JStr ''w'')])\<rparr>
    (serve_message 2 (\<lambda>_. True) 1 ''1'' \<lparr>msg_type = SUBSCRIBE,
      msg_payload = JObj (fmap_of_list [(''worker_id'', JStr ''w'')])\<rparr> (new_broker \<lparr>q_heaps = [], q_counts = [], q_db = None\<rparr>))))) ''w'' = None"
proof -
  let ?p = "fmap_of_list [(''worker_id'', JStr ''w'')]"
  have p: "as_str (dget ?p ''worker_id'' (JStr (''worker-'' @ s))) = Inr ''w''"
    "as_strs (dget ?p ''queues'' (JList [JStr ''default''])) = Inr [''default'']" for s
    by (simp_all add: dget_def)
  have "(1 :: nat) \<noteq> 2" by simp
  from reconnect_loses_worker [where u = 2 and v = 3 and alive = "\<lambda>_. True" and porta = "''1''" and portb = "''2''"
      and b = "new_broker \<lparr>q_heaps = [], q_counts = [], q_db = None\<rparr>", OF p(1) p(2) p(1) this]
  show ?thesis by (simp only: Let_def)
qed

end
