(* ===== verification/Task_Worker.thy ===== *)
theory Task_Worker
  imports Task_Broker_Props
begin

text \<open>
  The two peers of the broker: the worker (\<open>worker/worker.py\<close>) and the client (\<open>client/client.py\<close>) of the
  task queue.  A task function is user code: it takes the JSON values of the arguments and gives
  a JSON result or an exception, of which the worker sees the text and the traceback.  Importing the task
  modules is a value of type \<open>registry res\<close>.  The process pool is a future whose outcome is an
  argument of the callback.
\<close>

section \<open>The registry\<close>

type_synonym task_fn = "json \<Rightarrow> json \<Rightarrow> (string \<times> string) + json"
type_synonym registry = "(string \<times> task_fn) list"

definition register_task :: "string option \<Rightarrow> string \<Rightarrow> string \<Rightarrow> task_fn \<Rightarrow> registry \<Rightarrow> registry" where
  \<comment> \<open>the decorator \<open>task(name)\<close> applied to a function of a module\<close>
  "register_task name modname qualname fn reg =
     AList.update (case name of Some (c # cs) \<Rightarrow> c # cs | _ \<Rightarrow> modname @ ''.'' @ qualname) fn reg"

definition get_task :: "string \<Rightarrow> registry \<Rightarrow> task_fn res" where
  "get_task name reg = (case map_of reg name of None \<Rightarrow> Inl (KeyError (''Unknown task: '' @ name)) | Some fn \<Rightarrow> Inr fn)"

definition execute_task :: "string \<Rightarrow> json \<Rightarrow> json \<Rightarrow> registry res \<Rightarrow> (json \<times> string \<times> string) res" where
  "execute_task name args kwargs modules =
     ebind modules (\<lambda>reg. ebind (get_task name reg) (\<lambda>fn.
       case fn args kwargs of Inl (err, tb) \<Rightarrow> Inr (JNull, err, tb) | Inr v \<Rightarrow> Inr (v, [], [])))"

section \<open>The worker\<close>

datatype outcome =
    Finished json string string  \<comment> \<open>what \<open>_execute_task\<close> returned\<close>
  | Raised string string         \<comment> \<open>text and traceback of what \<open>fut.result\<close> raised\<close>
  | TimedOut

fun state_value :: "task_state \<Rightarrow> string" where
  "state_value PENDING = ''PENDING''" | "state_value QUEUED = ''QUEUED''" | "state_value RUNNING = ''RUNNING''"
| "state_value SUCCESS = ''SUCCESS''" | "state_value FAILURE = ''FAILURE''" | "state_value RETRY = ''RETRY''"
| "state_value REVOKED = ''REVOKED''"

definition state_of_value :: "string \<Rightarrow> task_state res" where
  "state_of_value s = (case find (\<lambda>t. state_value t = s) [PENDING, QUEUED, RUNNING, SUCCESS, FAILURE, RETRY, REVOKED] of
      None \<Rightarrow> Inl (ValueError s) | Some t \<Rightarrow> Inr t)"

lemma state_roundtrip [simp]: "state_of_value (state_value t) = Inr t"
  by (cases t) (simp_all add: state_of_value_def)

record worker =
  wk_id :: string
  wk_futures :: "string list"
  wk_sent :: "message list"

definition wk_send :: "message \<Rightarrow> worker \<Rightarrow> worker" where
  "wk_send m w = w\<lparr>wk_sent := wk_sent w @ [m]\<rparr>"

record job =
  jb_id :: string
  jb_name :: string
  jb_args :: json
  jb_kwargs :: json
  jb_retries :: rat
  jb_max :: rat
  jb_started :: rat

definition ack :: "string \<Rightarrow> message" where
  "ack i = \<lparr>msg_type = ACK, msg_payload = JObj (fmap_of_list [(''task_id'', JStr i)])\<rparr>"

definition handle_deliver :: "rat \<Rightarrow> dict \<Rightarrow> (job, worker) act" where
  \<comment> \<open>acknowledges, then submits the job to the pool\<close>
  "handle_deliver now p =
     abind (alift (ebind (dindex p ''task_id'') as_str)) (\<lambda>i.
     abind (alift (ebind (dindex p ''name'') as_str)) (\<lambda>nm.
     abind (alift (as_num (dget p ''retries'' (JNum 0)))) (\<lambda>r.
     abind (alift (as_num (dget p ''max_retries'' (JNum 3)))) (\<lambda>mr w.
       (Inr \<lparr>jb_id = i, jb_name = nm, jb_args = dget p ''args'' (JList []), jb_kwargs = dget p ''kwargs'' (JObj fmempty),
             jb_retries = r, jb_max = mr, jb_started = now\<rparr>,
        (wk_send (ack i) w)
          \<lparr>wk_futures := List.insert i (wk_futures w)\<rparr>)))))"

definition nack :: "job \<Rightarrow> bool \<Rightarrow> string \<Rightarrow> message" where
  "nack j requeue reason = \<lparr>msg_type = NACK, msg_payload = JObj (fmap_of_list
     [(''task_id'', JStr (jb_id j)), (''requeue'', JBool requeue), (''reason'', JStr reason)])\<rparr>"

definition failure_result :: "string \<Rightarrow> rat \<Rightarrow> job \<Rightarrow> string \<Rightarrow> string \<Rightarrow> message" where
  "failure_result wid ended j err tb = \<lparr>msg_type = RESULT, msg_payload = JObj (fmap_of_list
     [(''task_id'', JStr (jb_id j)), (''state'', JStr (state_value FAILURE)), (''error'', JStr err),
      (''traceback'', JStr tb), (''started_at'', JNum (jb_started j)), (''ended_at'', JNum ended), (''worker_id'', JStr wid)])\<rparr>"

definition success_result :: "string \<Rightarrow> rat \<Rightarrow> job \<Rightarrow> json \<Rightarrow> message" where
  "success_result wid ended j v = \<lparr>msg_type = RESULT, msg_payload = JObj (fmap_of_list
     [(''task_id'', JStr (jb_id j)), (''state'', JStr (state_value SUCCESS)), (''result'', v), (''error'', JStr []),
      (''traceback'', JStr []), (''started_at'', JNum (jb_started j)), (''ended_at'', JNum ended), (''worker_id'', JStr wid)])\<rparr>"

definition on_done :: "rat \<Rightarrow> job \<Rightarrow> outcome \<Rightarrow> worker \<Rightarrow> worker" where
  \<comment> \<open>the callback of the future; after a timeout the future stays in the table\<close>
  "on_done ended j oc w =
     (let forget = (\<lambda>w. w\<lparr>wk_futures := remove1 (jb_id j) (wk_futures w)\<rparr>);
          failed = (\<lambda>err tb. forget (wk_send (if jb_retries j < jb_max j then nack j True err
                       else failure_result (wk_id w) ended j err tb) w))
      in case oc of
        TimedOut \<Rightarrow> wk_send (nack j (jb_retries j < jb_max j) ''timeout'') w
      | Raised err tb \<Rightarrow> if err \<noteq> [] then failed err tb else forget (wk_send (success_result (wk_id w) ended j JNull) w)
      | Finished v err tb \<Rightarrow> if err \<noteq> [] then failed err tb else forget (wk_send (success_result (wk_id w) ended j v) w))"

definition future_outcome :: "(exc \<Rightarrow> string \<times> string) \<Rightarrow> (json \<times> string \<times> string) res \<Rightarrow> outcome" where
  \<comment> \<open>\<open>text\<close> gives \<open>str(exc)\<close> and the traceback of an exception\<close>
  "future_outcome text r = (case r of Inl e \<Rightarrow> Raised (fst (text e)) (snd (text e)) | Inr (v, err, tb) \<Rightarrow> Finished v err tb)"

definition subscribe_message :: "string \<Rightarrow> string list \<Rightarrow> message" where
  "subscribe_message wid qs = \<lparr>msg_type = SUBSCRIBE, msg_payload = JObj (fmap_of_list
     [(''worker_id'', JStr wid), (''queues'', JList (map JStr qs))])\<rparr>"

definition worker_message :: "rat \<Rightarrow> message \<Rightarrow> (job option, worker) act" where
  \<comment> \<open>one round of the message loop: the submitted job, if any\<close>
  "worker_message now m =
     (case msg_type m of
        DELIVER \<Rightarrow> abind (alift (payload_of m)) (\<lambda>p. abind (handle_deliver now p) (\<lambda>j. aret (Some j)))
      | PING \<Rightarrow> (\<lambda>w. (Inr None, wk_send \<lparr>msg_type = PONG, msg_payload = JObj fmempty\<rparr> w))
      | _ \<Rightarrow> aret None)"

section \<open>The client\<close>

record task_result =
  tr_id :: string
  tr_state :: task_state
  tr_result :: json
  tr_error :: json
  tr_traceback :: json
  tr_started :: json
  tr_ended :: json
  tr_worker :: json

record client =
  cl_pending :: "string list"
  cl_results :: "(string \<times> task_result) list"
  cl_sent :: "message list"

definition or_else :: "json \<Rightarrow> json \<Rightarrow> json" where
  "or_else a b = (if truthy a then a else b)"

definition publish_payload ::
  "string \<Rightarrow> string \<Rightarrow> json \<Rightarrow> json \<Rightarrow> string \<Rightarrow> rat \<Rightarrow> rat \<Rightarrow> rat \<Rightarrow> json \<Rightarrow> rat option \<Rightarrow> dict" where
  "publish_payload i nm args kwargs q prio mr rd tmo eta = fmap_of_list
     [(''task_id'', JStr i), (''name'', JStr nm), (''args'', or_else args (JList [])),
      (''kwargs'', or_else kwargs (JObj fmempty)), (''queue'', JStr q), (''priority'', JNum prio),
      (''max_retries'', JNum mr), (''retry_delay'', JNum rd), (''timeout'', tmo), (''eta'', opt_num eta)]"

definition publish ::
  "string \<Rightarrow> string \<Rightarrow> json \<Rightarrow> json \<Rightarrow> string \<Rightarrow> rat \<Rightarrow> rat \<Rightarrow> rat \<Rightarrow> json \<Rightarrow> rat option \<Rightarrow> client \<Rightarrow> client" where
  \<comment> \<open>\<open>i\<close> is the fresh UUID\<close>
  "publish i nm args kwargs q prio mr rd tmo eta c = c
     \<lparr>cl_pending := List.insert i (cl_pending c),
      cl_sent := cl_sent c @ [\<lparr>msg_type = PUBLISH, msg_payload = JObj (publish_payload i nm args kwargs q prio mr rd tmo eta)\<rparr>]\<rparr>"

definition revoke :: "string \<Rightarrow> client \<Rightarrow> client" where
  "revoke i c = c\<lparr>cl_sent := cl_sent c @ [\<lparr>msg_type = REVOKE, msg_payload = JObj (fmap_of_list [(''task_id'', JStr i)])\<rparr>]\<rparr>"

definition result_of_payload :: "string \<Rightarrow> dict \<Rightarrow> task_result res" where
  "result_of_payload i p =
     ebind (as_str (dget p ''state'' (JStr ''FAILURE''))) (\<lambda>s. ebind (state_of_value s) (\<lambda>st.
       Inr \<lparr>tr_id = i, tr_state = st, tr_result = dget p ''result'' JNull, tr_error = dget p ''error'' (JStr []),
            tr_traceback = dget p ''traceback'' (JStr []), tr_started = dget p ''started_at'' (JNum 0),
            tr_ended = dget p ''ended_at'' (JNum 0), tr_worker = dget p ''worker_id'' (JStr [])\<rparr>))"

definition client_message :: "message \<Rightarrow> (unit, client) act" where
  \<comment> \<open>one round of the reader thread\<close>
  "client_message m =
     (case msg_type m of
        RESULT \<Rightarrow> abind (alift (payload_of m)) (\<lambda>p. abind (alift (pending_key (dget p ''task_id'' JNull))) (\<lambda>k c.
          (case k of
             None \<Rightarrow> (Inr (), c)
           | Some i \<Rightarrow>
               if i \<notin> set (cl_pending c) then (Inr (), c)
               else (let c1 = c\<lparr>cl_pending := remove1 i (cl_pending c)\<rparr> in
                     case result_of_payload i p of
                       Inl e \<Rightarrow> (Inl e, c1)
                     | Inr r \<Rightarrow> (Inr (), c1\<lparr>cl_results := AList.update i r (cl_results c1)\<rparr>)))))
      | PING \<Rightarrow> (\<lambda>c. (Inr (), c\<lparr>cl_sent := cl_sent c @ [\<lparr>msg_type = PONG, msg_payload = JObj fmempty\<rparr>]\<rparr>))
      | _ \<Rightarrow> aret ())"

definition async_get :: "string \<Rightarrow> client \<Rightarrow> task_result option" where
  \<comment> \<open>\<open>AsyncResult.get\<close> once the event is set or the timeout is over\<close>
  "async_get i c = map_of (cl_results c) i"

section \<open>What crosses the wire\<close>

text \<open>
  what a client publishes is what the broker queues: decoding the payload of \<open>publish\<close> in the broker
  gives the task with the client's fields, empty arguments for missing ones, no retries counted and the
  broker's clock as time of creation; and a worker decodes a delivery to the same name, arguments
  and retry counts.
\<close>

theorem publish_decodes:
  "task_of_payload now (publish_payload i nm args kwargs q prio mr rd tmo eta) =
     Inr \<lparr>t_id = i, t_name = nm, t_args = or_else args (JList []), t_kwargs = or_else kwargs (JObj fmempty), t_queue = q,
          t_priority = prio, t_retries = 0, t_max_retries = mr, t_retry_delay = rd, t_timeout = tmo, t_eta = eta,
          t_created = now, t_state = QUEUED\<rparr> \<and>
   fst (worker_message begun \<lparr>msg_type = DELIVER, msg_payload = deliver_payload t\<rparr> w) =
     Inr (Some \<lparr>jb_id = t_id t, jb_name = t_name t, jb_args = t_args t, jb_kwargs = t_kwargs t,
                jb_retries = t_retries t, jb_max = t_max_retries t, jb_started = begun\<rparr>)"
  by (simp add: task_of_payload_def publish_payload_def dindex_def dget_def worker_message_def payload_of_def
      deliver_payload_def handle_deliver_def)

section \<open>A delivered task\<close>

text \<open>The messages a worker sends for one delivered task.\<close>

definition job_of :: "rat \<Rightarrow> task \<Rightarrow> job" where
  "job_of begun t = \<lparr>jb_id = t_id t, jb_name = t_name t, jb_args = t_args t, jb_kwargs = t_kwargs t,
     jb_retries = t_retries t, jb_max = t_max_retries t, jb_started = begun\<rparr>"

definition task_messages :: "rat \<Rightarrow> rat \<Rightarrow> task \<Rightarrow> outcome \<Rightarrow> worker \<Rightarrow> message list" where
  "task_messages begun ended t oc w =
     (case worker_message begun \<lparr>msg_type = DELIVER, msg_payload = deliver_payload t\<rparr> (w\<lparr>wk_sent := []\<rparr>) of
        (Inr (Some j), w') \<Rightarrow> wk_sent (on_done ended j oc w')
      | (_, w') \<Rightarrow> wk_sent w')"

definition failed_outcome :: "outcome \<Rightarrow> string \<Rightarrow> bool" where
  "failed_outcome oc err = (err \<noteq> [] \<and> (\<exists>tb v. oc = Raised err tb \<or> oc = Finished v err tb))"

lemma task_messages_cases:
  "task_messages begun ended t oc w =
     ack (t_id t) #
     [case oc of
        TimedOut \<Rightarrow> nack (job_of begun t) (t_retries t < t_max_retries t) ''timeout''
      | Raised err tb \<Rightarrow> if err = [] then success_result (wk_id w) ended (job_of begun t) JNull
          else if t_retries t < t_max_retries t then nack (job_of begun t) True err
          else failure_result (wk_id w) ended (job_of begun t) err tb
      | Finished v err tb \<Rightarrow> if err = [] then success_result (wk_id w) ended (job_of begun t) v
          else if t_retries t < t_max_retries t then nack (job_of begun t) True err
          else failure_result (wk_id w) ended (job_of begun t) err tb]"
  by (cases oc)
    (simp_all add: task_messages_def worker_message_def payload_of_def deliver_payload_def handle_deliver_def dindex_def
      dget_def wk_send_def on_done_def job_of_def Let_def)

definition serve_all_messages :: "rat \<Rightarrow> (nat \<Rightarrow> bool) \<Rightarrow> nat \<Rightarrow> string \<Rightarrow> message list \<Rightarrow> broker \<Rightarrow> broker" where
  "serve_all_messages now alive c port ms b = fold (serve_message now alive c port) ms b"

lemma serve_ack:
  "serve_message now alive c port (ack i) b =
     b\<lparr>b_pending := AList.delete i (b_pending b)\<rparr>"
  by (simp add: ack_def serve_message_def handle_message_def payload_of_def handle_ack_def pop_pending_def dget_def abind_def)

lemma serve_nack_unknown:
  "map_of (b_pending b) (jb_id j) = None \<Longrightarrow>
   serve_message now alive c port (nack j rq reason) b = b\<lparr>b_pending := AList.delete (jb_id j) (b_pending b)\<rparr>"
  by (simp add: serve_message_def handle_message_def payload_of_def handle_nack_def nack_def pop_pending_def dget_def abind_def)

lemma serve_result:
  assumes "dget p ''task_id'' JNull = JStr i" "map_of (b_handler b) c = Some r" "b_listeners b = []"
  shows "serve_message now alive c port \<lparr>msg_type = RESULT, msg_payload = JObj p\<rparr> b =
     set_obj r (\<lambda>w. w\<lparr>wc_busy := False\<rparr>) (b\<lparr>b_pending := AList.delete i (b_pending b), b_listeners := []\<rparr>)"
  using assms
  by (simp add: serve_message_def handle_message_def payload_of_def handle_result_def pop_pending_def abind_def Let_def)

text \<open>
  A task that fails is never tried again.  The worker acknowledges a delivery before it runs the task,
  so the broker has forgotten the delivery when the \<open>NACK\<close> of the failure (or of a timeout) arrives:
  nothing is put back into a queue, although retries are left, and the worker, busy since the
  delivery, stays busy, so that no further task is dispatched to it.
\<close>

theorem failed_task_never_retried:
  assumes "failed_outcome oc err \<and> t_retries t < t_max_retries t \<or> oc = TimedOut"
  shows "let b' = serve_all_messages now alive c port (task_messages begun ended t oc w) b in
    b_queue b' = b_queue b \<and> b_objs b' = b_objs b \<and> b_workers b' = b_workers b \<and> map_of (b_pending b') (t_id t) = None"
proof -
  let ?n = "nack (job_of begun t) (if oc = TimedOut then t_retries t < t_max_retries t else True)
      (if oc = TimedOut then ''timeout'' else err)"
  have m: "task_messages begun ended t oc w =
      [ack (t_id t), ?n]"
    using assms by (auto simp: task_messages_cases failed_outcome_def)
  have id: "jb_id (job_of begun t) = t_id t" by (simp add: job_of_def)
  let ?b1 = "b\<lparr>b_pending := AList.delete (t_id t) (b_pending b)\<rparr>"
  have "map_of (b_pending ?b1) (jb_id (job_of begun t)) = None" by (simp add: id delete_conv')
  note nack = serve_nack_unknown [OF this]
  show ?thesis
    unfolding m serve_all_messages_def Let_def by (simp add: serve_ack nack id delete_conv')
qed

definition demo_worker :: worker where
  "demo_worker = \<lparr>wk_id = ''w'', wk_futures = [], wk_sent = []\<rparr>"

theorem failed_task_never_retried_witness:
  "let t = demo_task ''a'' 5 None 1; b = snd (dispatch_pass 2 (\<lambda>_. True) demo_broker);
       b' = serve_all_messages 4 (\<lambda>_. True) 7 ''7'' (task_messages 3 4 t (Finished JNull ''boom'' ''tb'') demo_worker) b
   in t_retries t < t_max_retries t \<and> wc_busy (b_objs b' ! 0) \<and> queue_size ''default'' (b_queue b') = 0"
proof -
  let ?t = "demo_task ''a'' 5 None 1" and ?b = "snd (dispatch_pass 2 (\<lambda>_. True) demo_broker)"
  have h: "failed_outcome (Finished JNull ''boom'' ''tb'') ''boom'' \<and> t_retries ?t < t_max_retries ?t
      \<or> Finished JNull ''boom'' ''tb'' = TimedOut"
    by (simp add: failed_outcome_def demo_task_def)
  have "wc_busy (b_objs ?b ! 0)" "queue_size ''default'' (b_queue ?b) = 0" by code_simp+
  with failed_task_never_retried [OF h, where b = ?b and now = 4 and alive = "\<lambda>_. True" and c = 7 and port = "''7''"
      and begun = 3 and ended = 4 and w = demo_worker] h
  show ?thesis by (simp add: Let_def)
qed

text \<open>
  A result frees the worker.  When the task succeeds, or fails with no retry left, the worker's connection
  is idle again, the delivery is forgotten, and the queues are as they were.
\<close>

theorem result_frees_worker:
  assumes "oc = Finished v [] tb \<or> failed_outcome oc err \<and> \<not> t_retries t < t_max_retries t"
    "map_of (b_handler b) c = Some r" "r < length (b_objs b)" "b_listeners b = []"
  shows "let b' = serve_all_messages now alive c port (task_messages begun ended t oc w) b in
    b_queue b' = b_queue b \<and> \<not> wc_busy (b_objs b' ! r) \<and> map_of (b_pending b') (t_id t) = None \<and>
    b_workers b' = b_workers b"
proof -
  obtain p where p: "task_messages begun ended t oc w =
      [ack (t_id t),
       \<lparr>msg_type = RESULT, msg_payload = JObj p\<rparr>]" "dget p ''task_id'' JNull = JStr (t_id t)"
    using assms(1) by (auto simp: task_messages_cases failed_outcome_def success_result_def failure_result_def job_of_def dget_def)
  let ?b1 = "b\<lparr>b_pending := AList.delete (t_id t) (b_pending b)\<rparr>"
  have "map_of (b_handler ?b1) c = Some r" "b_listeners ?b1 = []" using assms(2,4) by simp_all
  note result = serve_result [OF p(2) this]
  show ?thesis
    unfolding p(1) serve_all_messages_def Let_def
    using assms(3) by (simp add: serve_ack result set_obj_def delete_conv')
qed

theorem result_frees_worker_witness:
  "let b = snd (dispatch_pass 2 (\<lambda>_. True) demo_broker);
       b' = serve_all_messages 4 (\<lambda>_. True) 7 ''7'' (task_messages 3 4 (demo_task ''a'' 5 None 1) (Finished JNull [] []) demo_worker) b
   in wc_busy (b_objs b ! 0) \<and> \<not> wc_busy (b_objs b' ! 0)"
proof -
  let ?b = "snd (dispatch_pass 2 (\<lambda>_. True) demo_broker)" and ?oc = "Finished JNull [] []"
  have h: "?oc = Finished JNull [] [] \<or> failed_outcome ?oc [] \<and>
      \<not> t_retries (demo_task ''a'' 5 None 1) < t_max_retries (demo_task ''a'' 5 None 1)" by simp
  have "map_of (b_handler ?b) 7 = Some 0" "0 < length (b_objs ?b)" "b_listeners ?b = []" "wc_busy (b_objs ?b ! 0)" by code_simp+
  with result_frees_worker [OF h this(1-3), where now = 4 and alive = "\<lambda>_. True" and port = "''7''" and begun = 3
      and ended = 4 and w = demo_worker]
  show ?thesis by (simp add: Let_def)
qed

text \<open>
  A failure without a message counts as success.  A task function that raises an exception whose text is
  empty is reported to the broker as \<open>SUCCESS\<close> with a null result.
\<close>

theorem silent_failure_is_success:
  assumes "get_task (t_name t) reg = Inr fn" "fn (t_args t) (t_kwargs t) = Inl ([], tb)"
  shows "last (task_messages begun ended t (future_outcome text (execute_task (t_name t) (t_args t) (t_kwargs t) (Inr reg))) w) =
     success_result (wk_id w) ended (job_of begun t) JNull"
  by (simp add: execute_task_def assms future_outcome_def task_messages_cases)

theorem silent_failure_is_success_witness:
  "last (task_messages 3 4 (demo_task ''a'' 5 None 1)
     (future_outcome (\<lambda>e. ([], [])) (execute_task ''f'' (JList []) (JObj fmempty) (Inr (register_task None ''m'' ''f''
        (\<lambda>a k. Inl ([], ''assert False'')) [(''f'', \<lambda>a k. Inl ([], ''assert False''))])))) demo_worker) =
   success_result ''w'' 4 (job_of 3 (demo_task ''a'' 5 None 1)) JNull"
  using silent_failure_is_success [of "demo_task ''a'' 5 None 1"
      "register_task None ''m'' ''f'' (\<lambda>a k. Inl ([], ''assert False'')) [(''f'', \<lambda>a k. Inl ([], ''assert False''))]"
      "\<lambda>a k. Inl ([], ''assert False'')" "''assert False''" 3 4 "\<lambda>e. ([], [])" demo_worker]
  by (simp add: get_task_def register_task_def demo_task_def demo_worker_def)

end
