(* ===== verification/Task_Results.thy ===== *)
theory Task_Results
  imports Task_Worker
begin

text \<open>
  The result backend, \<open>modules/taskqueue/taskqueue/backend/sqlite_backend.py\<close>: a table of results keyed by
  task, read, listed, expired and polled.  The table is the list of its rows in insertion order.  \<open>wait\<close>
  polls until its deadline: \<open>clock k\<close> and \<open>table k\<close> are the time and the table at its \<open>k\<close>-th look, and
  whether it returns is a theorem about a clock that \<open>time.sleep\<close> advances.
\<close>

section \<open>The table\<close>

record result_row =
  rr_id :: string
  rr_data :: json
  rr_stored :: rat

definition result_data :: "task_result \<Rightarrow> json" where
  "result_data r = JObj (fmap_of_list
     [(''task_id'', JStr (tr_id r)), (''state'', JStr (state_value (tr_state r))), (''result'', tr_result r),
      (''error'', tr_error r), (''traceback'', tr_traceback r), (''started_at'', tr_started r),
      (''ended_at'', tr_ended r), (''worker_id'', tr_worker r)])"

definition store_result :: "rat \<Rightarrow> task_result \<Rightarrow> result_row list \<Rightarrow> result_row list" where
  "store_result now r rows =
     filter (\<lambda>x. rr_id x \<noteq> tr_id r) rows @ [\<lparr>rr_id = tr_id r, rr_data = result_data r, rr_stored = now\<rparr>]"

definition result_of_data :: "(dict \<Rightarrow> json res) \<Rightarrow> json \<Rightarrow> task_result res" where
  \<comment> \<open>\<open>result\<close> reads the \<open>result\<close> key: by index in \<open>get\<close>, with a default in \<open>all_recent\<close>\<close>
  "result_of_data result j =
     ebind (py_dict j) (\<lambda>d.
     ebind (ebind (dindex d ''task_id'') as_str) (\<lambda>i.
     ebind (ebind (dindex d ''state'') as_str) (\<lambda>s.
     ebind (state_of_value s) (\<lambda>st.
     ebind (result d) (\<lambda>v.
       Inr \<lparr>tr_id = i, tr_state = st, tr_result = v, tr_error = dget d ''error'' (JStr []),
            tr_traceback = dget d ''traceback'' (JStr []), tr_started = dget d ''started_at'' (JNum 0),
            tr_ended = dget d ''ended_at'' (JNum 0), tr_worker = dget d ''worker_id'' (JStr [])\<rparr>)))))"

definition get_result :: "string \<Rightarrow> result_row list \<Rightarrow> task_result option res" where
  "get_result i rows = (case find (\<lambda>x. rr_id x = i) rows of
      None \<Rightarrow> Inr None
    | Some x \<Rightarrow> ebind (result_of_data (\<lambda>d. dindex d ''result'') (rr_data x)) (\<lambda>r. Inr (Some r)))"

definition all_recent :: "int \<Rightarrow> result_row list \<Rightarrow> task_result list res" where
  \<comment> \<open>a negative \<open>LIMIT\<close> is no limit\<close>
  "all_recent limit rows =
     (let newest = sort_key (\<lambda>x. - rr_stored x) rows;
          picked = (if limit < 0 then newest else take (nat limit) newest)
      in emap (\<lambda>x. result_of_data (\<lambda>d. Inr (dget d ''result'' JNull)) (rr_data x)) picked)"

definition expire_results :: "rat \<Rightarrow> rat \<Rightarrow> result_row list \<Rightarrow> result_row list" where
  \<comment> \<open>one round of the expiry loop\<close>
  "expire_results now ttl rows = filter (\<lambda>x. \<not> rr_stored x < now - ttl) rows"

definition duration :: "task_result \<Rightarrow> rat res" where
  "duration r = (if truthy (tr_started r) \<and> truthy (tr_ended r)
     then ebind (as_num (tr_ended r)) (\<lambda>e. ebind (as_num (tr_started r)) (\<lambda>s. Inr (e - s))) else Inr 0)"

section \<open>Polling\<close>

definition final_result :: "task_result \<Rightarrow> bool" where
  "final_result r = (tr_state r \<in> {SUCCESS, FAILURE})"

definition look :: "string \<Rightarrow> result_row list \<Rightarrow> task_result option res option" where
  \<comment> \<open>what one look at the table makes \<open>wait\<close> return, if anything\<close>
  "look i rows = (case get_result i rows of
      Inl e \<Rightarrow> Some (Inl e)
    | Inr None \<Rightarrow> None
    | Inr (Some r) \<Rightarrow> if final_result r then Some (Inr (Some r)) else None)"

partial_function (option) wait_loop ::
  "(nat \<Rightarrow> rat) \<Rightarrow> (nat \<Rightarrow> result_row list) \<Rightarrow> string \<Rightarrow> rat \<Rightarrow> nat \<Rightarrow> task_result option res option" where
  "wait_loop clock table i deadline k =
     (if clock k < deadline
      then (case look i (table k) of Some r \<Rightarrow> Some r | None \<Rightarrow> wait_loop clock table i deadline (k + 1))
      else Some (Inr None))"

definition wait_result :: "(nat \<Rightarrow> rat) \<Rightarrow> (nat \<Rightarrow> result_row list) \<Rightarrow> string \<Rightarrow> rat \<Rightarrow> task_result option res option" where
  "wait_result clock table i timeout = wait_loop clock table i (clock 0 + timeout) 1"

section \<open>Theorems\<close>

lemma find_append_None: "find P (filter (\<lambda>x. \<not> P x) xs @ ys) = find P ys"
  by (induction xs) auto

lemma result_data_roundtrip [simp]:
  "result_of_data (\<lambda>d. dindex d ''result'') (result_data r) = Inr r"
  "result_of_data (\<lambda>d. Inr (dget d ''result'' JNull)) (result_data r) = Inr r"
  by (simp_all add: result_of_data_def result_data_def dindex_def dget_def)

lemma find_filter_other: "find (\<lambda>x. g x = j) (filter (\<lambda>x. g x \<noteq> i) xs) = (if i = j then None else find (\<lambda>x. g x = j) xs)"
  by (induction xs) auto

text \<open>
  What was stored is read.  After a result is stored, reading its task gives exactly that result,
  whatever was stored for the task before, and reading any other task gives what it gave; the entry is
  gone exactly when an expiry round runs more than the time to live later.
\<close>

theorem stored_result_read:
  "get_result i (store_result now r rows) = (if i = tr_id r then Inr (Some r) else get_result i rows) \<and>
   get_result (tr_id r) (expire_results later ttl (store_result now r rows)) = Inr (if now < later - ttl then None else Some r)"
proof -
  have f: "find (\<lambda>x. rr_id x = tr_id r) (filter (\<lambda>x. rr_id x \<noteq> tr_id r \<and> P x) rows) = None" for P
    by (induction rows) auto
  have app: "find P (xs @ ys) = (case find P xs of None \<Rightarrow> find P ys | Some x \<Rightarrow> Some x)" for P and xs ys :: "result_row list"
    by (induction xs) auto
  show ?thesis
    by (simp add: get_result_def store_result_def expire_results_def app find_filter_other f split: option.splits)
qed

lemma wait_loop_reaches:
  "(\<And>k. clock k + poll \<le> clock (Suc k)) \<Longrightarrow> 0 < poll \<Longrightarrow> deadline - clock k \<le> of_nat n * poll \<Longrightarrow>
   \<exists>m \<ge> k. \<exists>r. wait_loop clock table i deadline k = Some r \<and>
     (\<forall>j. k \<le> j \<longrightarrow> j < m \<longrightarrow> clock j < deadline \<and> look i (table j) = None) \<and>
     (if clock m < deadline then look i (table m) = Some r else r = Inr None)"
proof (induction n arbitrary: k)
  case 0
  then show ?case by (intro exI [of _ k]) (subst wait_loop.simps, simp)
next
  case (Suc n)
  show ?case
  proof (cases "clock k < deadline \<and> look i (table k) = None")
    case False
    then show ?thesis by (intro exI [of _ k]) (subst wait_loop.simps, auto)
  next
    case True
    have "deadline - clock (Suc k) \<le> of_nat n * poll"
      using Suc.prems(1) [of k] Suc.prems(3) by (simp add: algebra_simps)
    from Suc.IH [OF Suc.prems(1,2) this] obtain m r where m: "m \<ge> Suc k" "wait_loop clock table i deadline (Suc k) = Some r"
      "\<forall>j. Suc k \<le> j \<longrightarrow> j < m \<longrightarrow> clock j < deadline \<and> look i (table j) = None"
      "if clock m < deadline then look i (table m) = Some r else r = Inr None" by blast
    have "clock j < deadline \<and> look i (table j) = None" if "k \<le> j" "j < m" for j
      using that m(3) True by (cases "j = k") auto
    moreover have "wait_loop clock table i deadline k = Some r"
      using True m(2) by (subst wait_loop.simps) simp
    ultimately show ?thesis using m(1,4) by (intro exI [of _ m]) auto
  qed
qed

text \<open>
  \<open>wait\<close> returns.  If every sleep lasts at least the poll interval, \<open>wait\<close> returns within the timeout:
  at the first look before the deadline that finds a final result (or a row that cannot be read) with
  that, and with nothing when there is no such look.
\<close>

theorem wait_returns:
  assumes "0 < poll" "\<And>k. clock k + poll \<le> clock (Suc k)"
  shows "\<exists>m \<ge> 1. \<exists>r. wait_result clock table i timeout = Some r \<and>
    (\<forall>j. 1 \<le> j \<longrightarrow> j < m \<longrightarrow> clock j < clock 0 + timeout \<and> look i (table j) = None) \<and>
    (if clock m < clock 0 + timeout then look i (table m) = Some r else r = Inr None)"
proof -
  obtain n :: nat where "(clock 0 + timeout - clock 1) / poll \<le> of_nat n"
    using real_arch_simple [of "(clock 0 + timeout - clock 1) / poll"] by blast
  then have "clock 0 + timeout - clock 1 \<le> of_nat n * poll" using assms(1) by (simp add: field_simps)
  from wait_loop_reaches [OF assms(2,1) this] show ?thesis unfolding wait_result_def by blast
qed

definition demo_result :: task_result where
  "demo_result = \<lparr>tr_id = ''a'', tr_state = SUCCESS, tr_result = JNum 3, tr_error = JStr [], tr_traceback = JStr [],
     tr_started = JNum 1, tr_ended = JNum 4, tr_worker = JStr ''w''\<rparr>"

theorem wait_returns_witness:
  "wait_result of_nat (\<lambda>k. if k < 3 then [] else store_result 3 demo_result []) ''a'' 30 = Some (Inr (Some demo_result))"
proof -
  let ?t = "\<lambda>k. if k < (3 :: nat) then [] else store_result 3 demo_result []"
  have s: "look ''a'' [] = None" "look ''a'' (store_result 3 demo_result []) = Some (Inr (Some demo_result))"
    by (simp_all add: look_def get_result_def store_result_def final_result_def demo_result_def)
  have c: "0 < (1 :: rat)" "\<And>k. (of_nat k :: rat) + 1 \<le> of_nat (Suc k)" by simp_all
  from wait_returns [where clock = of_nat and poll = 1 and table = ?t and i = "''a''" and timeout = 30, OF c] obtain m r where m: "m \<ge> 1" "wait_result of_nat ?t ''a'' 30 = Some r"
    "\<forall>j. 1 \<le> j \<longrightarrow> j < m \<longrightarrow> (of_nat j :: rat) < of_nat 0 + 30 \<and> look ''a'' (?t j) = None"
    "if (of_nat m :: rat) < of_nat 0 + 30 then look ''a'' (?t m) = Some r else r = Inr None" by blast
  have "\<not> 3 < m" using spec [OF m(3), of 3] s(2) by auto
  then have "(of_nat m :: rat) < of_nat 0 + 30" by simp
  with m(4) s have "r = Inr (Some demo_result)" by (simp split: if_splits)
  with m(2) show ?thesis by simp
qed

end
