(* ===== verification/Scheduling.thy ===== *)
theory Scheduling
  imports Replica_Set
begin

text \<open>
  The scheduler, \<open>modules/orchestrator/orchestrator/scheduler.py\<close>: filtering and scoring the nodes for a
  pod and binding the pod to the best one.  \<open>env\<close> is what other threads write between the read and the write of
  \<open>update_with_retry\<close> (\<open>quiet\<close> when none does).  A controller's own fields are the first component of
  the state, the store the second.
\<close>

section \<open>Requests and commitments\<close>

definition requested :: "obj \<Rightarrow> (rat \<times> rat) res" where
  "requested pod =
     ebind (py_dict (dget (o_spec pod) ''resources'' (JObj fmempty))) (\<lambda>r.
     ebind (py_float (dget r ''cpu'' (JNum 0))) (\<lambda>c.
     ebind (py_float (dget r ''memoryMB'' (JNum 0))) (\<lambda>m. Inr (c, m))))"

definition assigned :: "string \<Rightarrow> obj \<Rightarrow> bool" where
  "assigned nm pod = (dget (o_spec pod) ''nodeName'' JNull = JStr nm \<and> \<not> terminal pod)"

definition allocated :: "obj list \<Rightarrow> string \<Rightarrow> (rat \<times> rat) res" where
  "allocated pods nm =
     ebind (emap requested (filter (assigned nm) pods)) (\<lambda>rs. Inr (sum_list (map fst rs), sum_list (map snd rs)))"

definition capacity :: "obj \<Rightarrow> (rat \<times> rat) res" where
  "capacity node =
     ebind (py_dict (dget (o_spec node) ''capacity'' (JObj fmempty))) (\<lambda>c.
     ebind (py_float (dget c ''cpu'' (JNum 0))) (\<lambda>cpu.
     ebind (py_float (dget c ''memoryMB'' (JNum 0))) (\<lambda>mem. Inr (cpu, mem))))"

section \<open>Filtering and scoring\<close>

record fit =
  f_node :: string
  f_feasible :: bool
  f_score :: rat
  f_reason :: string

definition misfit :: "obj \<Rightarrow> string \<Rightarrow> fit" where
  "misfit node reason = \<lparr>f_node = m_name (o_meta node), f_feasible = False, f_score = 0, f_reason = reason\<rparr>"

definition siblings :: "obj \<Rightarrow> obj list \<Rightarrow> obj \<Rightarrow> nat" where
  "siblings pod pods node = length (filter (\<lambda>p. m_owner (o_meta p) = m_owner (o_meta pod) \<and>
      dget (o_spec p) ''nodeName'' JNull = JStr (m_name (o_meta node)) \<and> m_name (o_meta p) \<noteq> m_name (o_meta pod)) pods)"

definition node_score :: "bool \<Rightarrow> obj \<Rightarrow> obj list \<Rightarrow> obj \<Rightarrow> rat \<times> rat \<Rightarrow> rat \<times> rat \<Rightarrow> rat \<times> rat \<Rightarrow> rat" where
  "node_score spread pod pods node need used cap =
     (let free_cpu = (if fst cap \<noteq> 0 then (fst cap - fst used - fst need) / fst cap else 0);
          free_memory = (if snd cap \<noteq> 0 then (snd cap - snd used - snd need) / snd cap else 0);
          balance = (free_cpu + free_memory) / 2
      in (if spread then balance else 1 - balance)
         - (if m_owner (o_meta pod) \<noteq> [] \<and> spread then of_nat (siblings pod pods node) * (3 / 2) else 0))"

definition selector_mismatch :: "obj \<Rightarrow> obj \<Rightarrow> bool res" where
  "selector_mismatch pod node =
     ebind (py_dict (dget (o_spec node) ''labels'' (JObj fmempty))) (\<lambda>nl.
     ebind (py_dict (or_empty (dget (o_spec pod) ''nodeSelector'' (JObj fmempty)))) (\<lambda>sel.
       Inr (\<not> fmpred (\<lambda>k v. dget (fmadd nl (m_labels (o_meta node))) k JNull = v) sel)))"

definition evaluate_node :: "bool \<Rightarrow> obj \<Rightarrow> obj list \<Rightarrow> rat \<times> rat \<Rightarrow> obj \<Rightarrow> fit res" where
  "evaluate_node spread pod pods need node =
     ebind (capacity node) (\<lambda>cap.
     ebind (allocated pods (m_name (o_meta node))) (\<lambda>used.
     if truthy (dget (o_spec node) ''unschedulable'' JNull) then Inr (misfit node ''node is cordoned'')
     else if \<not> truthy (dget (o_status node) ''ready'' (JBool True)) then Inr (misfit node ''node is not ready'')
     else ebind (selector_mismatch pod node) (\<lambda>mismatch.
       if mismatch then Inr (misfit node ''node selector does not match'')
       else if fst used + fst need > fst cap then Inr (misfit node ''insufficient cpu'')
       else if snd used + snd need > snd cap then Inr (misfit node ''insufficient memory'')
       else Inr \<lparr>f_node = m_name (o_meta node), f_feasible = True,
                 f_score = node_score spread pod pods node need used cap, f_reason = []\<rparr>)))"

definition evaluate :: "bool \<Rightarrow> obj \<Rightarrow> mem_store \<Rightarrow> fit list res" where
  "evaluate spread pod st =
     ebind (requested pod) (\<lambda>need.
       emap (evaluate_node spread pod (ms_list st POD None) need) (ms_list st NODE None))"

fun best_of :: "fit \<Rightarrow> fit list \<Rightarrow> fit" where
  \<comment> \<open>\<open>max(feasible, key=score)\<close>: the first one with the greatest score\<close>
  "best_of b [] = b"
| "best_of b (f # fs) = best_of (if f_score f > f_score b then f else b) fs"

section \<open>The controller\<close>

record scheduler =
  sc_spread :: bool
  sc_bound :: nat
  sc_unschedulable :: "(string \<times> string) list"

definition sched_interesting :: "event \<Rightarrow> mem_store \<Rightarrow> string list" where
  "sched_interesting ev st =
     (if o_kind (ev_object ev) = POD then [ev_key ev]
      else if o_kind (ev_object ev) = NODE
      then map okey (filter (\<lambda>p. \<not> truthy (dget (o_spec p) ''nodeName'' JNull)) (ms_list st POD None))
      else [])"

definition bind_to :: "string \<Rightarrow> mutator" where
  "bind_to node ob =
     Inr (if truthy (dget (o_spec ob) ''nodeName'' JNull) then (False, ob)
          else (True, ob\<lparr>o_spec := fmupd ''nodeName'' (JStr node) (o_spec ob),
                         o_status := fmupd ''conditions'' (JObj (fmap_of_list [(''scheduled'', JBool True)]))
                                       (fmupd ''phase'' (JStr SCHEDULED) (o_status ob))\<rparr>))"

definition mark_unschedulable :: "string \<Rightarrow> mutator" where
  "mark_unschedulable reason ob =
     Inr (if dget (o_status ob) ''unschedulableReason'' JNull = JStr reason then (False, ob)
          else (True, ob\<lparr>o_status := fmupd ''unschedulableReason'' (JStr reason)
                                      (fmupd ''phase'' (JStr PENDING) (o_status ob))\<rparr>))"

definition set_condition :: "(nat \<Rightarrow> mem_store \<Rightarrow> mem_store) \<Rightarrow> string \<Rightarrow> string \<Rightarrow> mem_store \<Rightarrow> mem_store" where
  \<comment> \<open>every exception is swallowed\<close>
  "set_condition env key reason st = snd (ms_retry env key (mark_unschedulable reason) attempts st)"

definition why_not :: "fit list \<Rightarrow> string" where
  "why_not fits = (case sort (remdups (map f_reason fits)) of
      [] \<Rightarrow> ''no nodes registered''
    | rs \<Rightarrow> if join ''; '' rs = [] then ''no nodes registered'' else join ''; '' rs)"

definition sched_reconcile ::
  "(nat \<Rightarrow> mem_store \<Rightarrow> mem_store) \<Rightarrow> string \<Rightarrow> (rat option, scheduler \<times> mem_store) act" where
  "sched_reconcile env key s =
     (let (c, st) = s in
      case ms_get st key of
        Inl _ \<Rightarrow> (Inr None, s)
      | Inr pod \<Rightarrow>
          if o_kind pod \<noteq> POD \<or> truthy (dget (o_spec pod) ''nodeName'' JNull) \<or> terminal pod then (Inr None, s)
          else (case evaluate (sc_spread c) pod st of
              Inl e \<Rightarrow> (Inl e, s)
            | Inr fits \<Rightarrow>
                (case filter f_feasible fits of
                   [] \<Rightarrow> (Inr (Some (1 / 2)),
                          (c\<lparr>sc_unschedulable := AList.update key (why_not fits) (sc_unschedulable c)\<rparr>,
                           set_condition env key (why_not fits) st))
                 | f # fs \<Rightarrow>
                     (let c1 = c\<lparr>sc_unschedulable := AList.delete key (sc_unschedulable c)\<rparr>
                      in case ms_retry env key (bind_to (f_node (best_of f fs))) attempts st of
                           (Inl e, st') \<Rightarrow> (Inl e, (c1, st'))
                         | (Inr None, st') \<Rightarrow> (Inr None, (c1, st'))
                         | (Inr (Some _), st') \<Rightarrow> (Inr None, (c1\<lparr>sc_bound := sc_bound c1 + 1\<rparr>, st'))))))"

section \<open>Lemmas\<close>

lemma best_of_max: "best_of b fs \<in> set (b # fs) \<and> (\<forall>f \<in> set (b # fs). f_score f \<le> f_score (best_of b fs))"
  by (induction b fs rule: best_of.induct) (auto intro: order_trans less_imp_le)

definition amount :: "obj \<Rightarrow> rat \<times> rat" where
  "amount p = (case requested p of Inl _ \<Rightarrow> (0, 0) | Inr r \<Rightarrow> r)"

definition commitment :: "string \<Rightarrow> obj multiset \<Rightarrow> rat \<times> rat" where
  "commitment nm ps = (\<Sum>p \<in># filter_mset (assigned nm) ps. fst (amount p), \<Sum>p \<in># filter_mset (assigned nm) ps. snd (amount p))"

lemma emap_amount: "emap requested ps = Inr rs \<Longrightarrow> rs = map amount ps \<and> (\<forall>p \<in> set ps. requested p = Inr (amount p))"
proof (induction ps arbitrary: rs)
  case (Cons p ps)
  then obtain r rs' where "requested p = Inr r" "emap requested ps = Inr rs'" "rs = r # rs'"
    by (auto simp: ebind_Inr_iff)
  with Cons.IH [of rs'] show ?case by (simp add: amount_def)
qed simp

lemma allocated_iff:
  "allocated pods nm = Inr u \<longleftrightarrow>
     u = commitment nm (mset pods) \<and> (\<forall>p \<in> set pods. assigned nm p \<longrightarrow> requested p = Inr (amount p))"
proof -
  have sums: "(\<Sum>p \<in># mset ps. g p) = sum_list (map g ps)" for g :: "obj \<Rightarrow> rat" and ps
    by (simp add: sum_mset_sum_list flip: mset_map)
  have com: "commitment nm (mset pods) =
      (sum_list (map (fst \<circ> amount) (filter (assigned nm) pods)), sum_list (map (snd \<circ> amount) (filter (assigned nm) pods)))"
    by (simp add: commitment_def sums comp_def flip: mset_filter)
  show ?thesis
  proof
    assume "allocated pods nm = Inr u"
    then obtain rs where rs: "emap requested (filter (assigned nm) pods) = Inr rs"
      "u = (sum_list (map fst rs), sum_list (map snd rs))"
      by (auto simp: allocated_def ebind_Inr_iff)
    with emap_amount [OF rs(1)] com show "u = commitment nm (mset pods) \<and>
        (\<forall>p \<in> set pods. assigned nm p \<longrightarrow> requested p = Inr (amount p))" by auto
  next
    assume a: "u = commitment nm (mset pods) \<and> (\<forall>p \<in> set pods. assigned nm p \<longrightarrow> requested p = Inr (amount p))"
    then have "emap requested (filter (assigned nm) pods) = Inr (map amount (filter (assigned nm) pods))"
      by (intro emap_total) auto
    with a com show "allocated pods nm = Inr u" by (simp add: allocated_def)
  qed
qed

lemma alist_update_vals_mset:
  "map_of al k = Some old \<Longrightarrow> distinct (map fst al) \<Longrightarrow> P old \<Longrightarrow> P v \<Longrightarrow>
   add_mset old (mset (filter P (map snd (AList.update k v al)))) = add_mset v (mset (filter P (map snd al)))"
proof (induction al)
  case (Cons p al)
  then show ?case by (cases p) (auto split: if_splits)
qed simp

lemma ms_list_update_same:
  assumes "ms_update ob st = Inr (ob', st')" "ms_tables_ok st" "ms_view st (okey ob) = Some cur"
    "selected kind sel cur" "selected kind sel ob'"
  shows "add_mset cur (mset (ms_list st' kind sel)) = add_mset ob' (mset (ms_list st kind sel))"
proof -
  have o: "ms_objects st' = AList.update (okey ob) ob' (ms_objects st)"
    using assms(1) by (rule ms_update_InrD)
  show ?thesis
    using alist_update_vals_mset [of "ms_objects st" "okey ob" cur "selected kind sel" ob'] assms(2-5)
    by (simp add: ms_list_def o ms_view_def ms_tables_ok_def)
qed

lemma evaluate_node_feasible:
  assumes "evaluate_node spread pod pods need node = Inr f" "f_feasible f"
  shows "\<exists>cap used. f_node f = m_name (o_meta node) \<and> capacity node = Inr cap \<and>
    allocated pods (m_name (o_meta node)) = Inr used \<and> fst used + fst need \<le> fst cap \<and> snd used + snd need \<le> snd cap \<and>
    \<not> truthy (dget (o_spec node) ''unschedulable'' JNull) \<and> truthy (dget (o_status node) ''ready'' (JBool True)) \<and>
    selector_mismatch pod node = Inr False"
  using assms by (auto simp: evaluate_node_def misfit_def ebind_Inr_iff not_less split: if_splits)

lemma bind_to_keeps: "keeps_identity (bind_to n)"
  by (auto simp: keeps_identity_def bind_to_def)

lemma mark_keeps: "keeps_identity (mark_unschedulable r)"
  by (auto simp: keeps_identity_def mark_unschedulable_def)

text \<open>The objects the two writes of the scheduler store.\<close>

definition bound_pod :: "string \<Rightarrow> obj \<Rightarrow> obj" where
  "bound_pod node ob = ob\<lparr>o_spec := fmupd ''nodeName'' (JStr node) (o_spec ob),
      o_status := fmupd ''conditions'' (JObj (fmap_of_list [(''scheduled'', JBool True)])) (fmupd ''phase'' (JStr SCHEDULED) (o_status ob))\<rparr>"

lemma bind_to_fresh: "\<not> truthy (dget (o_spec ob) ''nodeName'' JNull) \<Longrightarrow> bind_to n ob = Inr (True, bound_pod n ob)"
  by (simp add: bind_to_def bound_pod_def)

lemma sched_cases:
  assumes "ms_tables_ok st" "ms_view st key = Some pod" "o_kind pod = POD" "\<not> truthy (dget (o_spec pod) ''nodeName'' JNull)"
    "\<not> terminal pod" "evaluate (sc_spread c) pod st = Inr fits"
  shows "case filter f_feasible fits of
      [] \<Rightarrow> (\<exists>st'. sched_reconcile quiet key (c, st) =
               (Inr (Some (1 / 2)), (c\<lparr>sc_unschedulable := AList.update key (why_not fits) (sc_unschedulable c)\<rparr>, st')) \<and>
             (st' = st \<or> (\<exists>cand. mark_unschedulable (why_not fits) pod = Inr (True, cand) \<and>
                ms_update cand st = Inr (committed pod cand (ms_revision st + 1), st'))))
    | f # fs \<Rightarrow> (\<exists>st'. sched_reconcile quiet key (c, st) =
               (Inr None, (c\<lparr>sc_unschedulable := AList.delete key (sc_unschedulable c), sc_bound := sc_bound c + 1\<rparr>, st')) \<and>
             ms_update (bound_pod (f_node (best_of f fs)) pod) st =
               Inr (committed pod (bound_pod (f_node (best_of f fs)) pod) (ms_revision st + 1), st'))"
proof (cases "filter f_feasible fits")
  case Nil
  have get: "ms_get st key = Inr pod" using assms(2) by (simp add: ms_get_def ms_view_def)
  obtain b cand where m: "mark_unschedulable (why_not fits) pod = Inr (b, cand)"
    by (cases "mark_unschedulable (why_not fits) pod") (auto simp: mark_unschedulable_def)
  have "st' = st \<or> (mark_unschedulable (why_not fits) pod = Inr (True, cand) \<and>
         ms_update cand st = Inr (committed pod cand (ms_revision st + 1), st'))"
    if "st' = set_condition quiet key (why_not fits) st" for st'
    using ms_retry_quiet_cases [OF assms(1) mark_keeps [of "why_not fits"], of key] assms(2) m that
    by (cases b) (auto simp: set_condition_def)
  with Nil get assms(3-6) show ?thesis by (auto simp: sched_reconcile_def)
next
  case (Cons f fs)
  have get: "ms_get st key = Inr pod" using assms(2) by (simp add: ms_get_def ms_view_def)
  let ?n = "f_node (best_of f fs)"
  obtain st' where "ms_update (bound_pod ?n pod) st = Inr (committed pod (bound_pod ?n pod) (ms_revision st + 1), st')"
    "ms_retry quiet key (bind_to ?n) attempts st = (Inr (Some (committed pod (bound_pod ?n pod) (ms_revision st + 1))), st')"
    using ms_retry_quiet_cases [OF assms(1) bind_to_keeps [of ?n], of key] assms(2) bind_to_fresh [OF assms(4), of ?n]
    by auto
  with Cons get assms(3-6) show ?thesis by (auto simp: sched_reconcile_def)
qed

lemma amount_committed [simp]: "amount (committed cur cand r) = amount cand" "assigned nm (committed cur cand r) = assigned nm cand"
  by (simp_all add: amount_def requested_def assigned_def terminal_def phase_of_def)

lemma amount_bound [simp]: "requested (bound_pod n pod) = requested pod" "amount (bound_pod n pod) = amount pod"
  by (simp_all add: amount_def requested_def bound_pod_def)

lemma assigned_bound: "assigned nm (bound_pod n pod) = (nm = n)"
  by (auto simp: assigned_def bound_pod_def terminal_def phase_of_def)

lemma assigned_unbound: "\<not> truthy (dget (o_spec p) ''nodeName'' JNull) \<Longrightarrow> nm \<noteq> [] \<Longrightarrow> \<not> assigned nm p"
  by (auto simp: assigned_def)

lemma requested_committed [simp]: "requested (committed cur cand r) = requested cand"
  by (simp add: requested_def)

text \<open>How the commitments of a node change when one pod is replaced.\<close>

lemma allocated_replace:
  assumes "allocated pods nm = Inr u" "add_mset old (mset pods') = add_mset new (mset pods)" "\<not> assigned nm old"
  shows "\<not> assigned nm new \<Longrightarrow> allocated pods' nm = Inr u"
    "assigned nm new \<Longrightarrow> requested new = Inr r \<Longrightarrow> allocated pods' nm = Inr (fst u + fst r, snd u + snd r)"
proof -
  have u: "u = commitment nm (mset pods)" "\<And>p. p \<in> set pods \<Longrightarrow> assigned nm p \<Longrightarrow> requested p = Inr (amount p)"
    using assms(1) by (auto simp: allocated_iff)
  have c: "filter_mset (assigned nm) (mset pods') = filter_mset (assigned nm) (add_mset new (mset pods))"
    using arg_cong [OF assms(2), of "filter_mset (assigned nm)"] assms(3) by simp
  have mem: "p = new \<or> p \<in> set pods" if "p \<in> set pods'" for p
    using that assms(2) by (metis insert_iff set_mset_add_mset_insert set_mset_mset)
  show "allocated pods' nm = Inr u" if "\<not> assigned nm new"
    using that u c by (auto simp: allocated_iff commitment_def dest: mem)
  show "allocated pods' nm = Inr (fst u + fst r, snd u + snd r)" if "assigned nm new" "requested new = Inr r"
  proof -
    have "amount new = r" using that(2) by (simp add: amount_def)
    with that u c show ?thesis by (auto simp: allocated_iff commitment_def dest: mem)
  qed
qed

section \<open>Theorems\<close>

definition node_fits :: "mem_store \<Rightarrow> obj \<Rightarrow> bool" where
  "node_fits st node = (case (capacity node, allocated (ms_list st POD None) (m_name (o_meta node))) of
      (Inr cap, Inr used) \<Rightarrow> fst used \<le> fst cap \<and> snd used \<le> snd cap
    | _ \<Rightarrow> False)"

text \<open>
  C19: the scheduler never overcommits a node.  A reconcile that runs without interference, whatever it
  returns or raises, leaves every node whose committed pods fitted into its capacity with
  committed pods that fit, provided the nodes have different names.
\<close>

theorem scheduler_no_overcommit:
  assumes ok: "ms_tables_ok st" and run: "sched_reconcile quiet key (c, st) = (r, (c', st'))"
    and nodes: "distinct (map (\<lambda>n. m_name (o_meta n)) (ms_list st NODE None))"
    and node: "node \<in> set (ms_list st NODE None)" "m_name (o_meta node) \<noteq> []" and fits: "node_fits st node"
  shows "node \<in> set (ms_list st' NODE None) \<and> node_fits st' node"
proof (cases "st' = st")
  case True
  with node fits show ?thesis by simp
next
  case False
  then obtain pod where pod: "ms_view st key = Some pod" "o_kind pod = POD" "\<not> truthy (dget (o_spec pod) ''nodeName'' JNull)"
    "\<not> terminal pod"
    using run by (auto simp: sched_reconcile_def ms_get_def ms_view_def split: option.splits if_splits)
  obtain es where es: "evaluate (sc_spread c) pod st = Inr es"
    using run False pod by (auto simp: sched_reconcile_def ms_get_def ms_view_def split: sum.splits)
  note cs = sched_cases [OF ok pod es]
  obtain cap used where cu: "capacity node = Inr cap" "allocated (ms_list st POD None) (m_name (o_meta node)) = Inr used"
    "fst used \<le> fst cap" "snd used \<le> snd cap"
    using fits by (auto simp: node_fits_def split: sum.splits)
  let ?nm = "m_name (o_meta node)"
  have old: "\<not> assigned ?nm pod" by (rule assigned_unbound [OF pod(3) node(2)])
  have key: "okey pod = key" by (rule tables_ok_view [OF ok pod(1)])
  have step: "node \<in> set (ms_list st' NODE None) \<and>
      add_mset pod (mset (ms_list st' POD None)) = add_mset (committed pod cand (ms_revision st + 1)) (mset (ms_list st POD None))"
    if u: "ms_update cand st = Inr (committed pod cand (ms_revision st + 1), st')" and k: "okey cand = key" "o_kind cand = POD" for cand
  proof
    have "ms_list st' NODE None = ms_list st NODE None"
      by (rule ms_list_update_other [OF u]) (use k pod in auto)
    with node show "node \<in> set (ms_list st' NODE None)" by simp
    show "add_mset pod (mset (ms_list st' POD None)) = add_mset (committed pod cand (ms_revision st + 1)) (mset (ms_list st POD None))"
      by (rule ms_list_update_same [OF u ok]) (use k pod in \<open>auto simp: selected_def\<close>)
  qed
  show ?thesis
  proof (cases "filter f_feasible es")
    case Nil
    with cs run False obtain cand where cand: "mark_unschedulable (why_not es) pod = Inr (True, cand)"
      "ms_update cand st = Inr (committed pod cand (ms_revision st + 1), st')" by auto
    then have c: "okey cand = key" "o_kind cand = POD" "o_spec cand = o_spec pod"
      using key pod(2) by (auto simp: mark_unschedulable_def split: if_splits)
    then have "\<not> assigned ?nm cand" using assigned_unbound [of cand ?nm] pod(3) node(2) by simp
    then have "allocated (ms_list st' POD None) ?nm = Inr used"
      using allocated_replace(1) [OF cu(2) _ old] step [OF cand(2) c(1,2)] by simp
    with cu step [OF cand(2) c(1,2)] show ?thesis by (simp add: node_fits_def)
  next
    case (Cons f fs)
    let ?b = "best_of f fs" and ?bp = "bound_pod (f_node (best_of f fs)) pod"
    have u: "ms_update ?bp st = Inr (committed pod ?bp (ms_revision st + 1), st')" using cs run Cons by auto
    have k: "okey ?bp = key" "o_kind ?bp = POD" using key pod(2) by (auto simp: bound_pod_def okey_def)
    have "?b \<in> set (filter f_feasible es)" using best_of_max [of f fs] Cons by simp
    then have b: "?b \<in> set es" "f_feasible ?b" by auto
    obtain need where need: "requested pod = Inr need"
      "emap (evaluate_node (sc_spread c) pod (ms_list st POD None) need) (ms_list st NODE None) = Inr es"
      using es by (auto simp: evaluate_def ebind_Inr_iff)
    obtain n where n: "n \<in> set (ms_list st NODE None)" "evaluate_node (sc_spread c) pod (ms_list st POD None) need n = Inr ?b"
      using emap_mem [OF need(2) b(1)] by blast
    obtain ncap nused where fe: "f_node ?b = m_name (o_meta n)" "capacity n = Inr ncap"
      "allocated (ms_list st POD None) (m_name (o_meta n)) = Inr nused"
      "fst nused + fst need \<le> fst ncap" "snd nused + snd need \<le> snd ncap"
      using evaluate_node_feasible [OF n(2) b(2)] by blast
    show ?thesis
    proof (cases "?nm = f_node ?b")
      case True
      then have "n = node" using nodes n(1) node(1) fe(1) by (auto simp: distinct_map dest: inj_onD)
      have "allocated (ms_list st' POD None) ?nm = Inr (fst used + fst need, snd used + snd need)"
        using allocated_replace(2) [OF cu(2) _ old] step [OF u k] True need(1) by (simp add: assigned_bound)
      with fe cu \<open>n = node\<close> step [OF u k] show ?thesis by (simp add: node_fits_def)
    next
      case False
      have "allocated (ms_list st' POD None) ?nm = Inr used"
        using allocated_replace(1) [OF cu(2) _ old] step [OF u k] False by (simp add: assigned_bound)
      with cu step [OF u k] show ?thesis by (simp add: node_fits_def)
    qed
  qed
qed

definition demo_node_obj :: "string \<Rightarrow> rat \<Rightarrow> int \<Rightarrow> obj" where
  "demo_node_obj nm cpu rv = set_rv rv (new_object NODE nm (node_spec cpu 100 False fmempty) ''d'' fmempty [] nm 1)"

definition demo_pod_obj :: "string \<Rightarrow> rat \<Rightarrow> int \<Rightarrow> obj" where
  "demo_pod_obj nm cpu rv = set_rv rv (new_object POD nm (pod_spec ''img'' [] cpu 10 fmempty 0 False) ''d'' fmempty [] nm 1)"

definition demo_sched_store :: mem_store where
  "demo_sched_store = (ms_init 10)\<lparr>ms_revision := 3, ms_objects :=
     map (\<lambda>ob. (okey ob, ob)) [demo_node_obj ''n1'' 1 1, demo_node_obj ''n2'' 2 2, demo_pod_obj ''p'' (3 / 2) 3]\<rparr>"

definition demo_scheduler :: scheduler where
  "demo_scheduler = \<lparr>sc_spread = True, sc_bound = 0, sc_unschedulable = []\<rparr>"

lemma demo_sched_ok: "ms_tables_ok demo_sched_store"
  by (simp add: ms_tables_ok_def demo_sched_store_def ms_init_def demo_node_obj_def demo_pod_obj_def okey_def new_object_def)

theorem scheduler_no_overcommit_witness:
  "node_fits (snd (snd (sched_reconcile quiet ''Pod/d/p'' (demo_scheduler, demo_sched_store)))) (demo_node_obj ''n2'' 2 2) \<and>
   allocated (ms_list (snd (snd (sched_reconcile quiet ''Pod/d/p'' (demo_scheduler, demo_sched_store)))) POD None) ''n2'' = Inr (3 / 2, 10)"
proof -
  let ?s = "sched_reconcile quiet ''Pod/d/p'' (demo_scheduler, demo_sched_store)"
  obtain r c' st' where s: "?s = (r, (c', st'))" by (metis prod.collapse)
  have "distinct (map (\<lambda>n. m_name (o_meta n)) (ms_list demo_sched_store NODE None))"
    "demo_node_obj ''n2'' 2 2 \<in> set (ms_list demo_sched_store NODE None)"
    "m_name (o_meta (demo_node_obj ''n2'' 2 2)) \<noteq> []" "node_fits demo_sched_store (demo_node_obj ''n2'' 2 2)"
    by code_simp+
  from scheduler_no_overcommit [OF demo_sched_ok s this]
  have "node_fits (snd (snd ?s)) (demo_node_obj ''n2'' 2 2)" by (simp add: s)
  moreover have "allocated (ms_list (snd (snd ?s)) POD None) ''n2'' = Inr (3 / 2, 10)" by code_simp
  ultimately show ?thesis by blast
qed

text \<open>
  C20: what scheduling a pod does.  A pending pod whose evaluation raises nothing is bound, in one write
  that changes only its node name, phase and conditions, to a feasible node of greatest score: one that is not
  cordoned, ready, matches the selector and has the room; or, when no node is feasible, nothing
  about its placement changes, the reason is recorded and it is looked at again in half a second.
\<close>

theorem schedule_outcome:
  assumes "ms_tables_ok st" "ms_view st key = Some pod" "o_kind pod = POD" "\<not> truthy (dget (o_spec pod) ''nodeName'' JNull)"
    "\<not> terminal pod" "evaluate (sc_spread c) pod st = Inr fits" "sched_reconcile quiet key (c, st) = (r, (c', st'))"
  shows "(\<exists>n need f. n \<in> set (ms_list st NODE None) \<and> requested pod = Inr need \<and>
       evaluate_node (sc_spread c) pod (ms_list st POD None) need n = Inr f \<and> f_feasible f \<and>
       selector_mismatch pod n = Inr False \<and> \<not> truthy (dget (o_spec n) ''unschedulable'' JNull) \<and>
       truthy (dget (o_status n) ''ready'' (JBool True)) \<and>
       (\<forall>g \<in> set fits. f_feasible g \<longrightarrow> f_score g \<le> f_score f) \<and>
       r = Inr None \<and> sc_bound c' = sc_bound c + 1 \<and>
       ms_view st' = (ms_view st)(key \<mapsto> committed pod (bound_pod (m_name (o_meta n)) pod) (ms_revision st + 1))) \<or>
     (filter f_feasible fits = [] \<and> r = Inr (Some (1 / 2)) \<and> sc_bound c' = sc_bound c \<and>
       map_of (sc_unschedulable c') key = Some (why_not fits) \<and>
       (\<exists>p'. ms_view st' = (ms_view st)(key \<mapsto> p') \<and> o_spec p' = o_spec pod \<and>
             dget (o_status p') ''unschedulableReason'' JNull = JStr (why_not fits)))"
proof (cases "filter f_feasible fits")
  case Nil
  from sched_cases [OF assms(1-6)] Nil assms(7) have r: "r = Inr (Some (1 / 2))"
    "c' = c\<lparr>sc_unschedulable := AList.update key (why_not fits) (sc_unschedulable c)\<rparr>"
    and st: "st' = st \<or> (\<exists>cand. mark_unschedulable (why_not fits) pod = Inr (True, cand) \<and>
        ms_update cand st = Inr (committed pod cand (ms_revision st + 1), st'))" by auto
  have "\<exists>p'. ms_view st' = (ms_view st)(key \<mapsto> p') \<and> o_spec p' = o_spec pod \<and>
             dget (o_status p') ''unschedulableReason'' JNull = JStr (why_not fits)"
  proof (cases "\<exists>cand. ms_update cand st = Inr (committed pod cand (ms_revision st + 1), st') \<and> mark_unschedulable (why_not fits) pod = Inr (True, cand)")
    case True
    then obtain cand where cand: "ms_update cand st = Inr (committed pod cand (ms_revision st + 1), st')"
      "mark_unschedulable (why_not fits) pod = Inr (True, cand)" by blast
    have "ms_view st' = (ms_view st)(okey cand \<mapsto> committed pod cand (ms_revision st + 1))"
      using cand(1) by (rule ms_update_InrD) auto
    moreover have "okey cand = key" "o_spec cand = o_spec pod" "dget (o_status cand) ''unschedulableReason'' JNull = JStr (why_not fits)"
      using cand(2) tables_ok_view [OF assms(1,2)] by (auto simp: mark_unschedulable_def split: if_splits)
    ultimately show ?thesis by auto
  next
    case False
    then have "st' = st" using st by blast
    have d: "dget (o_status pod) ''unschedulableReason'' JNull = JStr (why_not fits)"
    proof (rule ccontr)
      assume "dget (o_status pod) ''unschedulableReason'' JNull \<noteq> JStr (why_not fits)"
      then have b: "fst (projr (mark_unschedulable (why_not fits) pod))" by (simp add: mark_unschedulable_def)
      have g: "ms_get st key = Inr pod" using assms(2) by (simp add: ms_get_def ms_view_def)
      have s: "st' = set_condition quiet key (why_not fits) st"
        using assms(3-7) Nil g by (auto simp: sched_reconcile_def)
      obtain cand where m: "mark_unschedulable (why_not fits) pod = Inr (True, cand)"
        using b by (cases "mark_unschedulable (why_not fits) pod") (auto simp: mark_unschedulable_def)
      from ms_retry_quiet_cases [OF assms(1) mark_keeps [of "why_not fits"], of key] assms(2) m
      have "\<exists>s1. ms_update cand st = Inr (committed pod cand (ms_revision st + 1), s1) \<and> set_condition quiet key (why_not fits) st = s1"
        by (auto simp: set_condition_def)
      with False s m show False by auto
    qed
    with \<open>st' = st\<close> assms(2) show ?thesis by (intro exI [of _ pod]) auto
  qed
  with Nil r show ?thesis by (simp add: update_conv')
next
  case (Cons f fs)
  let ?b = "best_of f fs"
  from sched_cases [OF assms(1-6)] Cons assms(7) have r: "r = Inr None" "sc_bound c' = sc_bound c + 1"
    and u: "ms_update (bound_pod (f_node ?b) pod) st = Inr (committed pod (bound_pod (f_node ?b) pod) (ms_revision st + 1), st')" by auto
  have bs: "?b \<in> set (filter f_feasible fits)" "\<forall>g \<in> set (filter f_feasible fits). f_score g \<le> f_score ?b"
    using best_of_max [of f fs] Cons by simp_all
  then have b: "?b \<in> set fits" "f_feasible ?b" by auto
  obtain need where need: "requested pod = Inr need"
    "emap (evaluate_node (sc_spread c) pod (ms_list st POD None) need) (ms_list st NODE None) = Inr fits"
    using assms(6) by (auto simp: evaluate_def ebind_Inr_iff)
  obtain n where n: "n \<in> set (ms_list st NODE None)" "evaluate_node (sc_spread c) pod (ms_list st POD None) need n = Inr ?b"
    using emap_mem [OF need(2) b(1)] by blast
  have view: "ms_view st' = (ms_view st)(okey (bound_pod (f_node ?b) pod) \<mapsto> committed pod (bound_pod (f_node ?b) pod) (ms_revision st + 1))"
    using u by (rule ms_update_InrD) auto
  have "okey (bound_pod (f_node ?b) pod) = key" using tables_ok_view [OF assms(1,2)] by (simp add: bound_pod_def okey_def)
  moreover have "f_node ?b = m_name (o_meta n)" "\<not> truthy (dget (o_spec n) ''unschedulable'' JNull)"
    "truthy (dget (o_status n) ''ready'' (JBool True))" "selector_mismatch pod n = Inr False"
    using evaluate_node_feasible [OF n(2) b(2)] by auto
  ultimately show ?thesis using n need(1) b(2) bs(2) r view by auto
qed

theorem schedule_outcome_witness:
  "map_option (\<lambda>p. dget (o_spec p) ''nodeName'' JNull) (ms_view (snd (snd (sched_reconcile quiet ''Pod/d/p'' (demo_scheduler, demo_sched_store)))) ''Pod/d/p'')
     = Some (JStr ''n2'') \<and> fst (sched_reconcile quiet ''Pod/d/p'' (demo_scheduler, demo_sched_store)) = Inr None"
proof -
  let ?s = "sched_reconcile quiet ''Pod/d/p'' (demo_scheduler, demo_sched_store)" and ?p = "demo_pod_obj ''p'' (3 / 2) 3"
  obtain r c' st' where s: "?s = (r, (c', st'))" by (metis prod.collapse)
  have h: "ms_view demo_sched_store ''Pod/d/p'' = Some ?p" "o_kind ?p = POD" "\<not> truthy (dget (o_spec ?p) ''nodeName'' JNull)"
    "\<not> terminal ?p" by code_simp+
  have e: "\<exists>fits. evaluate (sc_spread demo_scheduler) ?p demo_sched_store = Inr fits \<and> filter f_feasible fits \<noteq> []"
    by (rule exI [of _ "projr (evaluate (sc_spread demo_scheduler) ?p demo_sched_store)"]) code_simp
  then obtain fits where f: "evaluate (sc_spread demo_scheduler) ?p demo_sched_store = Inr fits" "filter f_feasible fits \<noteq> []" by blast
  have "fst ?s = Inr None" using schedule_outcome [OF demo_sched_ok h f(1) s] f(2) s by auto
  moreover have "map_option (\<lambda>p. dget (o_spec p) ''nodeName'' JNull) (ms_view (snd (snd ?s)) ''Pod/d/p'') = Some (JStr ''n2'')"
    by code_simp
  ultimately show ?thesis by blast
qed

end
