(* ===== verification/Node_Agents.thy ===== *)
theory Node_Agents
  imports Scheduling
begin

text \<open>
  Running pods on nodes: the simulated runtime of \<open>modules/orchestrator/orchestrator/runtime.py\<close>, and the node
  agent and the node monitor of \<open>node_agent.py\<close>.  The runtime a node agent drives is a \<open>Protocol\<close> in
  the code; here it is a record of its four operations on a state of its own, with the
  contract as the locale \<open>pod_runtime\<close>, interpreted on the simulated runtime.  \<open>now\<close> is the reading of
  the clock during a reconcile.
\<close>

section \<open>Runtimes\<close>

record handle =
  h_key :: string
  h_started :: rat
  h_pid :: int
  h_failed :: bool
  h_ready_at :: rat

record 'r runtime_ops =
  rt_start :: "rat \<Rightarrow> obj \<Rightarrow> (handle, 'r) act"
  rt_stop :: "handle \<Rightarrow> 'r \<Rightarrow> 'r"
  rt_alive :: "handle \<Rightarrow> 'r \<Rightarrow> bool"
  rt_ready :: "rat \<Rightarrow> handle \<Rightarrow> 'r \<Rightarrow> bool"

record sim_runtime =
  sr_running :: "(string \<times> handle) list"
  sr_started :: nat
  sr_stopped :: nat
  sr_crashed :: "string list"

definition sim_start :: "rat \<Rightarrow> obj \<Rightarrow> (handle, sim_runtime) act" where
  "sim_start now pod =
     abind (alift (py_float (dget (o_spec pod) ''readinessDelaySeconds'' (JNum 0)))) (\<lambda>d r.
       (let h = \<lparr>h_key = okey pod, h_started = now, h_pid = -1, h_failed = truthy (dget (o_spec pod) ''failOnStart'' JNull),
                 h_ready_at = now + d\<rparr>
        in (Inr h, r\<lparr>sr_running := AList.update (okey pod) h (sr_running r), sr_started := sr_started r + 1\<rparr>)))"

definition sim_stop :: "handle \<Rightarrow> sim_runtime \<Rightarrow> sim_runtime" where
  "sim_stop h r = r\<lparr>sr_running := AList.delete (h_key h) (sr_running r), sr_stopped := sr_stopped r + 1\<rparr>"

definition sim_alive :: "handle \<Rightarrow> sim_runtime \<Rightarrow> bool" where
  "sim_alive h r = (\<not> h_failed h \<and> h_key h \<notin> set (sr_crashed r))"

definition sim_ready :: "rat \<Rightarrow> handle \<Rightarrow> sim_runtime \<Rightarrow> bool" where
  "sim_ready now h r = (sim_alive h r \<and> now \<ge> h_ready_at h)"

definition sim_crash :: "string \<Rightarrow> sim_runtime \<Rightarrow> sim_runtime" where
  "sim_crash k r = r\<lparr>sr_crashed := List.insert k (sr_crashed r)\<rparr>"

definition simulated :: "sim_runtime runtime_ops" where
  "simulated = \<lparr>rt_start = sim_start, rt_stop = sim_stop, rt_alive = sim_alive, rt_ready = sim_ready\<rparr>"

section \<open>The node agent\<close>

record agent =
  na_node :: string
  na_handles :: "(string \<times> handle) list"

text \<open>The state of a reconcile: the agent, the runtime and the store.\<close>

type_synonym 'r node_state = "agent \<times> 'r \<times> mem_store"

definition agent_interesting :: "string \<Rightarrow> event \<Rightarrow> string list" where
  "agent_interesting node ev =
     (if o_kind (ev_object ev) = POD \<and> dget (o_spec (ev_object ev)) ''nodeName'' JNull = JStr node then [ev_key ev] else [])"

definition backoff_remaining :: "rat \<Rightarrow> obj \<Rightarrow> rat res" where
  "backoff_remaining now pod =
     ebind (py_float (dget (o_status pod) ''nextRestartAt'' (JNum 0))) (\<lambda>due. Inr (max 0 (due - now)))"

definition crash_delay :: "int \<Rightarrow> rat res" where
  \<comment> \<open>\<open>min(0.05 * (2 ** (restarts - 1)), 2.0)\<close>: the integer power is converted to a float\<close>
  "crash_delay restarts =
     (if restarts - 1 \<ge> 1024 then Inl (OverflowError ''int too large to convert to float'')
      else if restarts \<ge> 1 then Inr (min (1 / 20 * 2 ^ nat (restarts - 1)) 2)
      else Inr (min (1 / 20 / 2 ^ nat (1 - restarts)) 2))"

definition crash_mutator :: "rat \<Rightarrow> string \<Rightarrow> string \<Rightarrow> mutator" where
  "crash_mutator now node reason pod =
     ebind (py_int (dget (o_status pod) ''restartCount'' (JNum 0))) (\<lambda>n.
     ebind (crash_delay (n + 1)) (\<lambda>d.
       Inr (True, pod\<lparr>o_status :=
         fmupd ''node'' (JStr node) (fmdrop ''readySince''
        (fmupd ''nextRestartAt'' (JNum (now + d))
        (fmupd ''restartCount'' (JNum (of_int (n + 1)))
        (fmupd ''reason'' (JStr reason)
        (fmupd ''phase'' (JStr CRASHLOOP) (o_status pod))))))\<rparr>)))"

definition crashed :: "rat \<Rightarrow> string \<Rightarrow> string \<Rightarrow> string \<Rightarrow> mem_store \<Rightarrow> rat option res \<times> mem_store" where
  \<comment> \<open>the delay is that of the pod as it was read; a missing pod gives the initial delay\<close>
  "crashed now node key reason st =
     (case ms_retry quiet key (crash_mutator now node reason) attempts st of
        (Inl (NotFoundError _), st') \<Rightarrow> (Inr None, st')
      | (Inl e, st') \<Rightarrow> (Inl e, st')
      | (Inr None, st') \<Rightarrow> (Inr (Some (1 / 20)), st')
      | (Inr (Some p), st') \<Rightarrow>
          (case py_int (dget (o_status p) ''restartCount'' (JNum 0)) of
             Inl e \<Rightarrow> (Inl e, st') | Inr n \<Rightarrow> (ebind (crash_delay n) (\<lambda>d. Inr (Some d)), st')))"

definition phase_mutator :: "rat \<Rightarrow> string \<Rightarrow> string \<Rightarrow> mutator" where
  \<comment> \<open>\<open>_write_phase\<close> is only called without a reason\<close>
  "phase_mutator now node phase pod =
     Inr (if phase_of pod = JStr phase then (False, pod)
          else (let s1 = fmupd ''phase'' (JStr phase) (o_status pod);
                    s2 = (if phase = READY
                          then (if truthy (dget s1 ''readySince'' JNull) then s1 else fmupd ''readySince'' (JNum now) s1)
                          else fmdrop ''readySince'' s1)
                in (True, pod\<lparr>o_status := fmupd ''node'' (JStr node) s2\<rparr>)))"

definition write_phase :: "rat \<Rightarrow> string \<Rightarrow> string \<Rightarrow> string \<Rightarrow> (unit, mem_store) act" where
  "write_phase now node key phase st =
     (case ms_retry quiet key (phase_mutator now node phase) attempts st of
        (Inl (NotFoundError _), st') \<Rightarrow> (Inr (), st')
      | (Inl e, st') \<Rightarrow> (Inl e, st')
      | (Inr _, st') \<Rightarrow> (Inr (), st'))"

definition drop_handle :: "'r runtime_ops \<Rightarrow> string \<Rightarrow> 'r node_state \<Rightarrow> 'r node_state" where
  \<comment> \<open>\<open>handles.pop\<close>, and \<open>runtime.stop\<close> if there was one\<close>
  "drop_handle rt key s = (case s of (a, r, st) \<Rightarrow>
     (a\<lparr>na_handles := AList.delete key (na_handles a)\<rparr>,
      (case map_of (na_handles a) key of None \<Rightarrow> r | Some h \<Rightarrow> rt_stop rt h r), st))"

definition start_pod :: "'r runtime_ops \<Rightarrow> rat \<Rightarrow> string \<Rightarrow> obj \<Rightarrow> (rat option, 'r node_state) act" where
  "start_pod rt now key pod s = (case s of (a, r, st) \<Rightarrow>
     (case backoff_remaining now pod of
        Inl e \<Rightarrow> (Inl e, s)
      | Inr b \<Rightarrow>
          if b > 0 then (Inr (Some b), s)
          else (case rt_start rt now pod r of
              (Inl e, r1) \<Rightarrow> (Inl e, (a, r1, st))
            | (Inr h, r1) \<Rightarrow>
                if h_failed h
                then (case crashed now (na_node a) key ''container failed to start'' st of
                        (res, st') \<Rightarrow> (res, (a\<lparr>na_handles := AList.delete key (na_handles a)\<rparr>, rt_stop rt h r1, st')))
                else (case write_phase now (na_node a) key RUNNING st of
                        (Inl e, st') \<Rightarrow> (Inl e, (a\<lparr>na_handles := AList.update key h (na_handles a)\<rparr>, r1, st'))
                      | (Inr _, st') \<Rightarrow> (Inr (Some (1 / 50)), (a\<lparr>na_handles := AList.update key h (na_handles a)\<rparr>, r1, st'))))))"

definition probe_pod :: "'r runtime_ops \<Rightarrow> rat \<Rightarrow> string \<Rightarrow> obj \<Rightarrow> handle \<Rightarrow> (rat option, 'r node_state) act" where
  "probe_pod rt now key pod h s = (case s of (a, r, st) \<Rightarrow>
     if \<not> rt_alive rt h r
     then (case crashed now (na_node a) key ''process exited'' st of
             (res, st') \<Rightarrow> (res, (a\<lparr>na_handles := AList.delete key (na_handles a)\<rparr>, rt_stop rt h r, st')))
     else if rt_ready rt now h r
     then (if phase_of pod \<noteq> JStr READY
           then (case write_phase now (na_node a) key READY st of
                   (Inl e, st') \<Rightarrow> (Inl e, (a, r, st')) | (Inr _, st') \<Rightarrow> (Inr None, (a, r, st')))
           else (Inr None, s))
     else (Inr (Some (1 / 50)), s))"

definition agent_reconcile :: "'r runtime_ops \<Rightarrow> rat \<Rightarrow> string \<Rightarrow> (rat option, 'r node_state) act" where
  "agent_reconcile rt now key s = (case s of (a, r, st) \<Rightarrow>
     (case ms_get st key of
        Inl _ \<Rightarrow> (Inr None, drop_handle rt key s)
      | Inr pod \<Rightarrow>
          if dget (o_spec pod) ''nodeName'' JNull \<noteq> JStr (na_node a) \<or> terminal pod then (Inr None, drop_handle rt key s)
          else (case map_of (na_handles a) key of
                  None \<Rightarrow> start_pod rt now key pod s
                | Some h \<Rightarrow> probe_pod rt now key pod h s)))"

definition heartbeat_mutator :: "rat \<Rightarrow> agent \<Rightarrow> mutator" where
  "heartbeat_mutator now a node = Inr (True, node\<lparr>o_status :=
     fmupd ''pods'' (JNum (of_nat (length (na_handles a)))) (fmupd ''heartbeat'' (JNum now)
       (fmupd ''ready'' (JBool True) (o_status node)))\<rparr>)"

definition heartbeat :: "rat \<Rightarrow> agent \<Rightarrow> mem_store \<Rightarrow> mem_store" where
  \<comment> \<open>one round of the heartbeat loop; every exception is swallowed\<close>
  "heartbeat now a st = snd (ms_retry quiet (NODE @ ''/default/'' @ na_node a) (heartbeat_mutator now a) attempts st)"

definition stop_agent :: "'r runtime_ops \<Rightarrow> 'r node_state \<Rightarrow> 'r node_state" where
  "stop_agent rt s = (case s of (a, r, st) \<Rightarrow> (a\<lparr>na_handles := []\<rparr>, fold (rt_stop rt) (map snd (na_handles a)) r, st))"

section \<open>The node monitor\<close>

record monitor =
  nm_timeout :: rat
  nm_evicted :: nat
  nm_down :: "string list"

definition monitor_interesting :: "event \<Rightarrow> string list" where
  "monitor_interesting ev = (if o_kind (ev_object ev) = NODE then [ev_key ev] else [])"

definition down_mutator :: mutator where
  "down_mutator node = Inr (True, node\<lparr>o_status :=
     fmupd ''reason'' (JStr ''heartbeat timeout'') (fmupd ''ready'' (JBool False) (o_status node))\<rparr>)"

definition evict_one :: "rat \<Rightarrow> string \<Rightarrow> obj \<Rightarrow> nat \<times> mem_store \<Rightarrow> nat \<times> mem_store" where
  "evict_one now node pod s =
     (if dget (o_spec pod) ''nodeName'' JNull \<noteq> JStr node \<or> terminal pod then s
      else (case ms_delete now (okey pod) (snd s) of Inl _ \<Rightarrow> s | Inr st' \<Rightarrow> (fst s + 1, st')))"

definition evict_pods :: "rat \<Rightarrow> string \<Rightarrow> mem_store \<Rightarrow> nat \<times> mem_store" where
  "evict_pods now node st = fold (evict_one now node) (ms_list st POD None) (0, st)"

definition monitor_reconcile :: "rat \<Rightarrow> string \<Rightarrow> (rat option, monitor \<times> mem_store) act" where
  "monitor_reconcile now key s = (case s of (m, st) \<Rightarrow>
     (case ms_get st key of
        Inl _ \<Rightarrow> (Inr None, s)
      | Inr node \<Rightarrow>
          if o_kind node \<noteq> NODE then (Inr None, s)
          else (let hb = dget (o_status node) ''heartbeat'' (JNum 0); nm = m_name (o_meta node); again = Some (nm_timeout m / 2) in
            if \<not> truthy hb then (Inr again, s)
            else (case py_num hb of
                Inl e \<Rightarrow> (Inl e, s)
              | Inr t \<Rightarrow>
                  if now - t \<le> nm_timeout m then (Inr again, (m\<lparr>nm_down := removeAll nm (nm_down m)\<rparr>, st))
                  else (case (if truthy (dget (o_status node) ''ready'' (JBool True))
                              then ms_retry quiet key down_mutator attempts st else (Inr None, st)) of
                      (Inl e, st1) \<Rightarrow> (Inl e, (m, st1))
                    | (Inr _, st1) \<Rightarrow>
                        (case evict_pods now nm st1 of (k, st2) \<Rightarrow>
                           (Inr again, (m\<lparr>nm_down := List.insert nm (nm_down m), nm_evicted := nm_evicted m + k\<rparr>, st2))))))))"

end
