(* ===== verification/Node_Agents_Props.thy ===== *)
theory Node_Agents_Props
  imports Node_Agents
begin

text \<open>
  What holds on a node: the runtime runs exactly the pods the agent holds a handle of, a crash is recorded with
  a capped exponential backoff (until the power no longer fits a float), and the monitor evicts exactly the
  pods of a silent node.
\<close>

section \<open>The contract of a runtime\<close>

locale pod_runtime =
  fixes rt :: "'r runtime_ops" and running :: "'r \<Rightarrow> string set"
  assumes start_runs: "rt_start rt now pod r = (Inr h, r') \<Longrightarrow> h_key h = okey pod \<and> running r' = insert (okey pod) (running r)"
    and start_fails: "rt_start rt now pod r = (Inl e, r') \<Longrightarrow> running r' = running r"
    and stop_stops: "running (rt_stop rt h r) = running r - {h_key h}"
    and ready_alive: "rt_ready rt now h r \<Longrightarrow> rt_alive rt h r"
begin

text \<open>The agent's table and the runtime agree.\<close>

definition in_step :: "agent \<Rightarrow> 'r \<Rightarrow> bool" where
  "in_step a r = ((\<forall>(k, h) \<in> set (na_handles a). h_key h = k) \<and> running r = fst ` set (na_handles a))"

lemma in_step_handle: "in_step a r \<Longrightarrow> map_of (na_handles a) key = Some h \<Longrightarrow> h_key h = key"
  by (auto simp: in_step_def dest: map_of_SomeD)

lemma in_step_delete:
  assumes "in_step a r" "running r' = running r - {key}"
  shows "in_step (a\<lparr>na_handles := AList.delete key (na_handles a)\<rparr>) r'"
  using assms set_alist_delete_subset [of key "na_handles a"] by (auto simp: in_step_def alist_delete_keys)

lemma in_step_update:
  assumes "in_step a r" "running r' = insert key (running r)" "h_key h = key"
  shows "in_step (a\<lparr>na_handles := AList.update key h (na_handles a)\<rparr>) r'"
proof -
  have "\<forall>(k, x) \<in> set (AList.update key h (na_handles a)). h_key x = k"
    using assms set_alist_update_subset [of key h "na_handles a"] by (auto simp: in_step_def)
  with assms show ?thesis by (simp add: in_step_def alist_update_keys)
qed

lemma drop_in_step:
  assumes "in_step a r" "drop_handle rt key (a, r, st) = (a', r', st')"
  shows "in_step a' r' \<and> key \<notin> running r' \<and> st' = st"
proof (cases "map_of (na_handles a) key")
  case None
  then have "key \<notin> running r" using assms(1) by (auto simp: in_step_def map_of_eq_None_iff)
  with None assms in_step_delete [OF assms(1), of r key] show ?thesis by (auto simp: drop_handle_def)
next
  case (Some h)
  have "running (rt_stop rt h r) = running r - {key}" using stop_stops in_step_handle [OF assms(1) Some] by simp
  with Some assms in_step_delete [OF assms(1) this] show ?thesis by (auto simp: drop_handle_def)
qed

lemma start_in_step:
  assumes "in_step a r" "map_of (na_handles a) key = None" "okey pod = key"
    "start_pod rt now key pod (a, r, st) = (res, (a', r', st'))"
  shows "in_step a' r'"
proof (cases "rt_start rt now pod r")
  case (Pair out r1)
  have none: "key \<notin> running r" using assms(1,2) by (auto simp: in_step_def map_of_eq_None_iff)
  consider "(a', r') = (a, r)" | e where "out = Inl e" "(a', r') = (a, r1)"
    | h where "out = Inr h" "a' = a\<lparr>na_handles := AList.delete key (na_handles a)\<rparr>" "r' = rt_stop rt h r1"
    | h where "out = Inr h" "a' = a\<lparr>na_handles := AList.update key h (na_handles a)\<rparr>" "r' = r1"
    using assms(4) Pair by (auto simp: start_pod_def split: sum.splits if_splits prod.splits)
  then show ?thesis
  proof cases
    case 1 then show ?thesis using assms(1) by simp
  next
    case 2 then show ?thesis using assms(1) start_fails [of now pod r e r1] Pair by (simp add: in_step_def)
  next
    case 3
    have "h_key h = key" "running r1 = insert key (running r)" using start_runs [of now pod r h r1] Pair 3 assms(3) by auto
    then have "running (rt_stop rt h r1) = running r - {key}" using stop_stops [of h r1] none by auto
    from in_step_delete [OF assms(1) this] 3 show ?thesis by simp
  next
    case 4
    have "h_key h = key" "running r1 = insert key (running r)" using start_runs [of now pod r h r1] Pair 4 assms(3) by auto
    with in_step_update [OF assms(1)] 4 show ?thesis by simp
  qed
qed

lemma probe_in_step:
  assumes "in_step a r" "map_of (na_handles a) key = Some h"
    "probe_pod rt now key pod h (a, r, st) = (res, (a', r', st'))"
  shows "in_step a' r'"
proof -
  have "(a', r') = (a, r) \<or> a' = a\<lparr>na_handles := AList.delete key (na_handles a)\<rparr> \<and> r' = rt_stop rt h r"
    using assms(3) by (auto simp: probe_pod_def split: sum.splits if_splits prod.splits)
  moreover have "running (rt_stop rt h r) = running r - {key}" using stop_stops in_step_handle [OF assms(1,2)] by simp
  ultimately show ?thesis using assms(1) in_step_delete [OF assms(1)] by auto
qed

lemma reconcile_in_step:
  assumes "in_step a r" "ms_tables_ok st" "agent_reconcile rt now key (a, r, st) = (res, (a', r', st'))"
  shows "in_step a' r' \<and>
    (case ms_view st key of
       None \<Rightarrow> key \<notin> running r'
     | Some pod \<Rightarrow> dget (o_spec pod) ''nodeName'' JNull = JStr (na_node a) \<and> \<not> terminal pod \<or> key \<notin> running r')"
proof (cases "ms_view st key")
  case None
  then have "drop_handle rt key (a, r, st) = (a', r', st')"
    using assms(3) by (simp add: agent_reconcile_def ms_get_def ms_view_def)
  from drop_in_step [OF assms(1) this] None show ?thesis by simp
next
  case (Some pod)
  have get: "ms_get st key = Inr pod" using Some by (simp add: ms_get_def ms_view_def)
  have ok: "okey pod = key" by (rule tables_ok_view [OF assms(2) Some])
  show ?thesis
  proof (cases "dget (o_spec pod) ''nodeName'' JNull \<noteq> JStr (na_node a) \<or> terminal pod")
    case True
    then have "drop_handle rt key (a, r, st) = (a', r', st')" using assms(3) get by (simp add: agent_reconcile_def)
    from drop_in_step [OF assms(1) this] Some show ?thesis by simp
  next
    case False
    with get assms(3) start_in_step [OF assms(1) _ ok] probe_in_step [OF assms(1)] Some show ?thesis
      by (auto simp: agent_reconcile_def split: option.splits)
  qed
qed

lemma stop_all: "running (fold (rt_stop rt) hs r) = running r - h_key ` set hs"
  by (induction hs arbitrary: r) (auto simp: stop_stops)

lemma stop_in_step: "in_step a r \<Longrightarrow> stop_agent rt (a, r, st) = (a', r', st') \<Longrightarrow> in_step a' r' \<and> running r' = {}"
proof -
  assume a: "in_step a r" "stop_agent rt (a, r, st) = (a', r', st')"
  have "(\<lambda>p. h_key (snd p)) ` set (na_handles a) = fst ` set (na_handles a)"
    by (rule image_cong) (use a(1) in \<open>auto simp: in_step_def\<close>)
  then have "h_key ` set (map snd (na_handles a)) = fst ` set (na_handles a)" by (simp add: image_image)
  then have "running (fold (rt_stop rt) (map snd (na_handles a)) r) = {}"
    using a(1) by (simp add: stop_all in_step_def)
  with a(2) show ?thesis by (auto simp: in_step_def stop_agent_def)
qed

end

interpretation sim: pod_runtime simulated "\<lambda>r. fst ` set (sr_running r)"
proof
  fix now pod r h r' assume "rt_start simulated now pod r = (Inr h, r')"
  then have "h_key h = okey pod" "sr_running r' = AList.update (okey pod) h (sr_running r)"
    by (auto simp: simulated_def sim_start_def abind_def Let_def split: sum.splits)
  then show "h_key h = okey pod \<and> fst ` set (sr_running r') = insert (okey pod) (fst ` set (sr_running r))"
    by (simp add: alist_update_keys)
next
  fix now pod r e r' assume "rt_start simulated now pod r = (Inl e, r')"
  then show "fst ` set (sr_running r') = fst ` set (sr_running r)"
    by (auto simp: simulated_def sim_start_def abind_def Let_def split: sum.splits)
next
  show "fst ` set (sr_running (rt_stop simulated h r)) = fst ` set (sr_running r) - {h_key h}" for h r
    by (simp add: simulated_def sim_stop_def alist_delete_keys)
next
  show "rt_ready simulated now h r \<Longrightarrow> rt_alive simulated h r" for now h r
    by (simp add: simulated_def sim_ready_def)
qed

section \<open>What runs on a node\<close>

text \<open>
  The life of a node with the simulated runtime: reconciles of any key, whatever other components have made
  of the store in between, injected crashes, and a stop of the agent.
\<close>

inductive node_run :: "sim_runtime node_state \<Rightarrow> bool" where
  boot: "node_run (\<lparr>na_node = n, na_handles = []\<rparr>, \<lparr>sr_running = [], sr_started = 0, sr_stopped = 0, sr_crashed = []\<rparr>, st)"
| reconcile: "node_run (a, r, st0) \<Longrightarrow> ms_tables_ok st \<Longrightarrow> node_run (snd (agent_reconcile simulated now key (a, r, st)))"
| crash: "node_run (a, r, st) \<Longrightarrow> node_run (a, sim_crash k r, st)"
| stop: "node_run s \<Longrightarrow> node_run (stop_agent simulated s)"

lemma node_run_in_step: "node_run s \<Longrightarrow> sim.in_step (fst s) (fst (snd s))"
proof (induction rule: node_run.induct)
  case (boot n st)
  then show ?case by (simp add: sim.in_step_def)
next
  case (reconcile a r st0 st now key)
  obtain res a' r' st' where "agent_reconcile simulated now key (a, r, st) = (res, (a', r', st'))" by (metis prod.collapse)
  with sim.reconcile_in_step [OF _ reconcile(2) this] reconcile show ?case by simp
next
  case (crash a r st k)
  then show ?case by (simp add: sim.in_step_def sim_crash_def)
next
  case (stop s)
  obtain a r st where s: "s = (a, r, st)" by (metis prod.collapse)
  obtain a' r' st' where t: "stop_agent simulated (a, r, st) = (a', r', st')" by (metis prod.collapse)
  have "sim.in_step a r" using stop.IH s by simp
  from sim.stop_in_step [OF this t] s t show ?case by simp
qed

text \<open>C21: No pod leaks on a node with the simulated runtime.  At any time in the life of such a node its runtime runs
  exactly the pods that the agent holds a handle of, and after a reconcile of a key, whatever it
  returned or raised, a pod that no longer exists, is bound to another node or has finished does not
  run here.  The statement is about the simulated runtime only: the process and the container runtime
  can leave a process behind when a start fails (theorem \<open>failed_start_leaves_process\<close>).\<close>

theorem node_runs_only_its_pods:
  assumes "node_run (a, r, st0)" "ms_tables_ok st" "agent_reconcile simulated now key (a, r, st) = (res, (a', r', st'))"
  shows "fst ` set (sr_running r') = fst ` set (na_handles a') \<and>
    (key \<in> fst ` set (sr_running r') \<longrightarrow>
       (\<exists>pod. ms_view st key = Some pod \<and> dget (o_spec pod) ''nodeName'' JNull = JStr (na_node a) \<and> \<not> terminal pod))"
proof -
  have "sim.in_step a r" using node_run_in_step [OF assms(1)] by simp
  from sim.reconcile_in_step [OF this assms(2,3)] show ?thesis
    by (auto simp: sim.in_step_def split: option.splits)
qed

definition bound_demo_pod :: obj where
  "bound_demo_pod = bound_pod ''n'' (demo_pod_obj ''p'' 1 3)"

definition demo_node_store :: "obj list \<Rightarrow> mem_store" where
  "demo_node_store obs = (ms_init 10)\<lparr>ms_revision := 9, ms_objects := map (\<lambda>ob. (okey ob, ob)) obs\<rparr>"

definition demo_node_state :: "sim_runtime node_state" where
  "demo_node_state = snd (agent_reconcile simulated 5 ''Pod/d/p''
     (\<lparr>na_node = ''n'', na_handles = []\<rparr>, \<lparr>sr_running = [], sr_started = 0, sr_stopped = 0, sr_crashed = []\<rparr>, demo_node_store [bound_demo_pod]))"

lemma demo_node_store_ok: "ms_tables_ok (demo_node_store [])" "ms_tables_ok (demo_node_store [bound_demo_pod])"
  by (simp_all add: ms_tables_ok_def demo_node_store_def ms_init_def bound_demo_pod_def bound_pod_def demo_pod_obj_def okey_def new_object_def)

lemma demo_node_run: "node_run demo_node_state"
  unfolding demo_node_state_def by (rule node_run.reconcile [OF node_run.boot demo_node_store_ok(2)])

theorem node_runs_only_its_pods_witness:
  "map fst (sr_running (fst (snd demo_node_state))) = [''Pod/d/p''] \<and>
   fst ` set (sr_running (fst (snd (snd (agent_reconcile simulated 6 ''Pod/d/p''
      (fst demo_node_state, fst (snd demo_node_state), demo_node_store [])))))) = {}"
proof -
  let ?s = "agent_reconcile simulated 6 ''Pod/d/p'' (fst demo_node_state, fst (snd demo_node_state), demo_node_store [])"
  obtain res a' r' st' where s: "?s = (res, (a', r', st'))" by (metis prod.collapse)
  have run: "node_run (fst demo_node_state, fst (snd demo_node_state), snd (snd demo_node_state))" using demo_node_run by simp
  have "map fst (na_handles (fst (snd ?s))) = []" by code_simp
  with node_runs_only_its_pods [OF run demo_node_store_ok(1) s] s
  have "fst ` set (sr_running (fst (snd (snd ?s)))) = {}" by simp
  moreover have "map fst (sr_running (fst (snd demo_node_state))) = [''Pod/d/p'']" by code_simp
  ultimately show ?thesis by blast
qed

section \<open>Crashes\<close>

lemma crash_keeps: "keeps_identity (crash_mutator now node reason)"
  by (auto simp: keeps_identity_def crash_mutator_def ebind_Inr_iff okey_def)

text \<open>
  The backoff of a crashing pod.  When the agent finds a pod's process gone it stops it and
  writes, in one update, the crash loop phase, one more restart, no readiness, and a next restart after
  0.05 s doubled for every earlier crash, at most 2 s, which it also returns; until then a reconcile starts
  nothing.
\<close>

theorem crash_backoff:
  assumes "ms_tables_ok st" "ms_view st key = Some pod" "dget (o_spec pod) ''nodeName'' JNull = JStr (na_node a)" "\<not> terminal pod"
    "map_of (na_handles a) key = Some h" "\<not> rt_alive rt h r" "py_int (dget (o_status pod) ''restartCount'' (JNum 0)) = Inr (int n)"
    "n < 1024"
  shows "\<exists>p a' st'. let delay = min (1 / 20 * 2 ^ n) 2 in
     agent_reconcile rt now key (a, r, st) = (Inr (Some delay), (a', rt_stop rt h r, st')) \<and>
     map_of (na_handles a') key = None \<and> ms_view st' = (ms_view st)(key \<mapsto> p) \<and> o_spec p = o_spec pod \<and>
     phase_of p = JStr CRASHLOOP \<and> dget (o_status p) ''restartCount'' JNull = JNum (of_nat n + 1) \<and>
     dget (o_status p) ''readySince'' JNull = JNull \<and> dget (o_status p) ''nextRestartAt'' JNull = JNum (now + delay) \<and>
     (\<forall>later. later < now + delay \<longrightarrow>
        agent_reconcile rt later key (a', rr, st') = (Inr (Some (now + delay - later)), (a', rr, st')))"
proof -
  let ?d = "min (1 / 20 * 2 ^ n) 2 :: rat"
  have delay: "crash_delay (int n + 1) = Inr ?d" using assms(8) by (simp add: crash_delay_def)
  obtain cand where cand: "crash_mutator now (na_node a) ''process exited'' pod = Inr (True, cand)" "o_spec cand = o_spec pod"
    "dget (o_status cand) ''phase'' JNull = JStr CRASHLOOP" "dget (o_status cand) ''restartCount'' JNull = JNum (of_nat n + 1)"
    "dget (o_status cand) ''readySince'' JNull = JNull" "dget (o_status cand) ''nextRestartAt'' JNull = JNum (now + ?d)"
    "dget (o_status cand) ''restartCount'' (JNum 0) = JNum (of_nat n + 1)" "dget (o_status cand) ''nextRestartAt'' (JNum 0) = JNum (now + ?d)"
    using assms(7) delay by (auto simp: crash_mutator_def)
  from ms_retry_quiet_cases [OF assms(1) crash_keeps [of now "na_node a" "''process exited''"], of key] assms(2) cand(1)
  obtain st' where st': "okey cand = key" "o_meta cand = o_meta pod" "ms_update cand st = Inr (committed pod cand (ms_revision st + 1), st')"
    "ms_retry quiet key (crash_mutator now (na_node a) ''process exited'') attempts st = (Inr (Some (committed pod cand (ms_revision st + 1))), st')"
    by auto
  let ?p = "committed pod cand (ms_revision st + 1)" and ?a = "a\<lparr>na_handles := AList.delete key (na_handles a)\<rparr>"
  have view: "ms_view st' = (ms_view st)(key \<mapsto> ?p)" using st'(3) by (rule ms_update_InrD) (simp add: st'(1))
  have n1: "trunc (of_nat n + 1 :: rat) = int n + 1" using trunc_of_int [of "int n + 1"] by simp
  have cr: "crashed now (na_node a) key ''process exited'' st = (Inr (Some ?d), st')"
    by (simp add: crashed_def st'(4) cand(7) n1 delay)
  have get: "ms_get st key = Inr pod" using assms(2) by (simp add: ms_get_def ms_view_def)
  have rec: "agent_reconcile rt now key (a, r, st) = (Inr (Some ?d), (?a, rt_stop rt h r, st'))"
    using assms(3-6) get cr by (simp add: agent_reconcile_def probe_pod_def)
  have get': "ms_get st' key = Inr ?p" using view by (simp add: ms_get_def ms_view_def fun_eq_iff)
  have nt: "\<not> terminal ?p" using cand(3) by (simp add: terminal_def phase_of_def)
  have none: "map_of (na_handles ?a) key = None" by (simp add: delete_conv')
  have wait: "agent_reconcile rt later key (?a, rr, st') = (Inr (Some (now + ?d - later)), (?a, rr, st'))"
    if "later < now + ?d" for later
    using that get' nt none cand(2,8) assms(3)
    by (simp add: agent_reconcile_def start_pod_def backoff_remaining_def)
  have ph: "phase_of ?p = JStr CRASHLOOP" using cand(3) by (simp add: phase_of_def)
  show ?thesis
    unfolding Let_def
    by (rule exI [of _ ?p], rule exI [of _ ?a], rule exI [of _ st'])
      (use rec view none wait ph cand in simp)
qed

definition crashed_demo :: "agent \<times> sim_runtime" where
  "crashed_demo = (fst demo_node_state, sim_crash ''Pod/d/p'' (fst (snd demo_node_state)))"

theorem crash_backoff_witness:
  "fst (agent_reconcile simulated 7 ''Pod/d/p'' (fst crashed_demo, snd crashed_demo, snd (snd demo_node_state))) = Inr (Some (1 / 20))"
proof -
  let ?st = "snd (snd demo_node_state)"
  have ok: "ms_tables_ok ?st"
  proof -
    have "list_all (\<lambda>(k, ob). okey ob = k \<and> 1 \<le> orv ob \<and> orv ob \<le> ms_revision ?st) (ms_objects ?st)" "0 \<le> ms_revision ?st"
      "distinct (map fst (ms_objects ?st))" "distinct (map (\<lambda>p. orv (snd p)) (ms_objects ?st))" by code_simp+
    then show ?thesis by (auto simp: ms_tables_ok_def list_all_iff)
  qed
  have "ms_view ?st ''Pod/d/p'' \<noteq> None" by code_simp
  then obtain pod where pod: "ms_view ?st ''Pod/d/p'' = Some pod" by auto
  have "map_of (na_handles (fst crashed_demo)) ''Pod/d/p'' \<noteq> None" by code_simp
  then obtain h where h: "map_of (na_handles (fst crashed_demo)) ''Pod/d/p'' = Some h" by auto
  have p: "dget (o_spec (the (ms_view ?st ''Pod/d/p''))) ''nodeName'' JNull = JStr (na_node (fst crashed_demo))"
    "\<not> terminal (the (ms_view ?st ''Pod/d/p''))" "\<not> rt_alive simulated (the (map_of (na_handles (fst crashed_demo)) ''Pod/d/p'')) (snd crashed_demo)"
    "py_int (dget (o_status (the (ms_view ?st ''Pod/d/p''))) ''restartCount'' (JNum 0)) = Inr (int 0)" by code_simp+
  have "fst (agent_reconcile simulated 7 ''Pod/d/p'' (fst crashed_demo, snd crashed_demo, ?st)) = Inr (Some (min (1 / 20 * 2 ^ 0) 2))"
    using crash_backoff [OF ok pod, where a = "fst crashed_demo" and h = h and rt = simulated and r = "snd crashed_demo" and n = 0
        and now = 7 and rr = "snd crashed_demo"] p pod h unfolding Let_def by force
  then show ?thesis by simp
qed

text \<open>
  The backoff overflows.  From the 1025th crash on the power of two does not fit a float, the update
  raises, and nothing is recorded any more: the pod keeps its old status and its old restart time, which has
  passed, so that the next reconcile starts it without any backoff.
\<close>

theorem crash_backoff_overflows:
  assumes "ms_view st key = Some pod" "dget (o_spec pod) ''nodeName'' JNull = JStr (na_node a)" "\<not> terminal pod"
    "map_of (na_handles a) key = Some h" "\<not> rt_alive rt h r" "py_int (dget (o_status pod) ''restartCount'' (JNum 0)) = Inr n"
    "1024 \<le> n"
  shows "agent_reconcile rt now key (a, r, st) =
     (Inl (OverflowError ''int too large to convert to float''),
      (a\<lparr>na_handles := AList.delete key (na_handles a)\<rparr>, rt_stop rt h r, st))"
proof -
  have get: "ms_get st key = Inr pod" using assms(1) by (simp add: ms_get_def ms_view_def)
  have "crash_mutator now (na_node a) ''process exited'' pod = Inl (OverflowError ''int too large to convert to float'')"
    using assms(6,7) by (simp add: crash_mutator_def crash_delay_def)
  then have "crashed now (na_node a) key ''process exited'' st = (Inl (OverflowError ''int too large to convert to float''), st)"
    by (simp add: crashed_def retry_attempts get)
  with get assms(2-5) show ?thesis by (simp add: agent_reconcile_def probe_pod_def)
qed

definition tired_pod :: obj where
  "tired_pod = bound_demo_pod\<lparr>o_status := fmupd ''restartCount'' (JNum 1024) (o_status bound_demo_pod)\<rparr>"

theorem crash_backoff_overflows_witness:
  "fst (agent_reconcile simulated 7 ''Pod/d/p'' (fst crashed_demo, snd crashed_demo, demo_node_store [tired_pod])) =
     Inl (OverflowError ''int too large to convert to float'')"
proof -
  have "map_of (na_handles (fst crashed_demo)) ''Pod/d/p'' \<noteq> None" by code_simp
  then obtain h where h: "map_of (na_handles (fst crashed_demo)) ''Pod/d/p'' = Some h" by auto
  have "ms_view (demo_node_store [tired_pod]) ''Pod/d/p'' = Some tired_pod"
    "dget (o_spec tired_pod) ''nodeName'' JNull = JStr (na_node (fst crashed_demo))" "\<not> terminal tired_pod"
    "\<not> rt_alive simulated (the (map_of (na_handles (fst crashed_demo)) ''Pod/d/p'')) (snd crashed_demo)"
    "py_int (dget (o_status tired_pod) ''restartCount'' (JNum 0)) = Inr 1024" by code_simp+
  with crash_backoff_overflows [of "demo_node_store [tired_pod]" "''Pod/d/p''" tired_pod "fst crashed_demo" h simulated "snd crashed_demo" 1024 7] h
  show ?thesis by simp
qed

section \<open>Eviction\<close>

definition victim :: "string \<Rightarrow> obj \<Rightarrow> bool" where
  "victim node pod = (dget (o_spec pod) ''nodeName'' JNull = JStr node \<and> \<not> terminal pod)"

lemma evict_fold:
  "ms_tables_ok st \<Longrightarrow> set ps \<subseteq> set (ms_list st POD None) \<Longrightarrow> distinct (map okey ps) \<Longrightarrow>
   (case fold (evict_one now node) ps (k, st) of (k', st') \<Rightarrow>
      ms_tables_ok st' \<and> k' = k + length (filter (victim node) ps) \<and>
      (\<forall>kind sel. ms_list st' kind sel = filter (\<lambda>ob. okey ob \<notin> okey ` {p \<in> set ps. victim node p}) (ms_list st kind sel)))"
proof (induction ps arbitrary: k st)
  case (Cons p ps)
  show ?case
  proof (cases "victim node p")
    case False
    then have e: "evict_one now node p (k, st) = (k, st)" by (auto simp: evict_one_def victim_def)
    have "{x. (x = p \<or> x \<in> set ps) \<and> victim node x} = {x \<in> set ps. victim node x}" using False by auto
    with Cons.IH [OF Cons.prems(1), of k] Cons.prems(2,3) False e show ?thesis by simp
  next
    case True
    have "ms_view st (okey p) = Some p" using Cons.prems(1,2) by (simp add: ms_list_iff)
    then obtain st1 where d: "ms_delete now (okey p) st = Inr st1"
      by (auto simp: ms_delete_def ms_view_def Let_def)
    have e: "evict_one now node p (k, st) = (k + 1, st1)" using True d by (auto simp: evict_one_def victim_def)
    have l1: "ms_list st1 kind sel = filter (\<lambda>ob. okey ob \<noteq> okey p) (ms_list st kind sel)" for kind sel
      by (rule ms_list_delete [OF d Cons.prems(1)])
    have sub: "set ps \<subseteq> set (ms_list st1 POD None)"
    proof
      fix x assume x: "x \<in> set ps"
      have "okey x \<noteq> okey p" using Cons.prems(3) imageI [OF x, of okey] by auto
      with x Cons.prems(2) show "x \<in> set (ms_list st1 POD None)" by (auto simp: l1)
    qed
    from Cons.IH [OF ms_delete_tables_ok [OF d Cons.prems(1)] sub, of "k + 1"] Cons.prems(3)
    have IH: "case fold (evict_one now node) ps (k + 1, st1) of (k', st') \<Rightarrow>
      ms_tables_ok st' \<and> k' = k + 1 + length (filter (victim node) ps) \<and>
      (\<forall>kind sel. ms_list st' kind sel = filter (\<lambda>ob. okey ob \<notin> okey ` {p \<in> set ps. victim node p}) (ms_list st1 kind sel))"
      by simp
    have "{x. (x = p \<or> x \<in> set ps) \<and> victim node x} = insert p {x \<in> set ps. victim node x}" using True by auto
    with IH True e show ?thesis by (auto simp: l1 conj_commute split: prod.splits)
  qed
qed simp

lemma evict_effect:
  assumes "ms_tables_ok st"
  shows "case evict_pods now node st of (k, st') \<Rightarrow>
      ms_tables_ok st' \<and> k = length (filter (victim node) (ms_list st POD None)) \<and>
      (\<forall>kind sel. ms_list st' kind sel = filter (\<lambda>ob. \<not> (o_kind ob = POD \<and> victim node ob)) (ms_list st kind sel))"
proof -
  have d: "distinct (map okey (ms_list st POD None))" by (rule ms_list_distinct_keys [OF assms])
  have v: "okey ob \<in> okey ` {p \<in> set (ms_list st POD None). victim node p} \<longleftrightarrow> o_kind ob = POD \<and> victim node ob"
    if "ob \<in> set (ms_list st kind sel)" for ob kind sel
  proof -
    have ob: "ms_view st (okey ob) = Some ob" using that assms by (simp add: ms_list_iff)
    have "p = ob" if "p \<in> set (ms_list st POD None)" "okey p = okey ob" for p
      using that ob assms by (simp add: ms_list_iff)
    with ob show ?thesis using assms by (auto simp: ms_list_iff selected_def)
  qed
  have f: "filter (\<lambda>ob. okey ob \<notin> okey ` {p \<in> set (ms_list st POD None). victim node p}) (ms_list st kind sel) =
      filter (\<lambda>ob. \<not> (o_kind ob = POD \<and> victim node ob)) (ms_list st kind sel)" for kind sel
    by (rule filter_cong) (use v in auto)
  from evict_fold [OF assms subset_refl d, where now = now and node = node and k = 0] show ?thesis
    unfolding evict_pods_def by (auto simp: f)
qed

text \<open>
  C22: eviction from a silent node.  When the last heartbeat of a node is older than the timeout, the
  monitor marks the node as not ready and deletes exactly the unfinished pods bound to it: every
  other object of any kind stays, listed in the same order.
\<close>

theorem silent_node_evicted:
  assumes "ms_tables_ok st" "ms_view st key = Some node" "o_kind node = NODE"
    "dget (o_status node) ''heartbeat'' (JNum 0) = JNum t" "t \<noteq> 0" "now - t > nm_timeout m"
    "monitor_reconcile now key (m, st) = (r, (m', st'))"
  shows "r = Inr (Some (nm_timeout m / 2)) \<and>
    ms_list st' POD None = filter (\<lambda>p. \<not> victim (m_name (o_meta node)) p) (ms_list st POD None) \<and>
    nm_evicted m' = nm_evicted m + length (filter (victim (m_name (o_meta node))) (ms_list st POD None)) \<and>
    (\<forall>kind sel. kind \<noteq> POD \<longrightarrow> kind \<noteq> NODE \<longrightarrow> kind \<noteq> [] \<longrightarrow> ms_list st' kind sel = ms_list st kind sel) \<and>
    (\<exists>n'. ms_view st' key = Some n' \<and> \<not> truthy (dget (o_status n') ''ready'' (JBool True)))"
proof -
  let ?nm = "m_name (o_meta node)"
  have get: "ms_get st key = Inr node" using assms(2) by (simp add: ms_get_def ms_view_def)
  have key: "okey node = key" by (rule tables_ok_view [OF assms(1,2)])
  let ?mark = "if truthy (dget (o_status node) ''ready'' (JBool True)) then ms_retry quiet key down_mutator attempts st else (Inr None, st)"
  have keeps: "keeps_identity down_mutator" by (auto simp: keeps_identity_def down_mutator_def okey_def)
  obtain o1 st1 where mk: "?mark = (Inr o1, st1)" "ms_tables_ok st1"
    "\<And>kind sel. kind \<noteq> NODE \<Longrightarrow> kind \<noteq> [] \<Longrightarrow> ms_list st1 kind sel = ms_list st kind sel"
    "\<exists>n'. ms_view st1 key = Some n' \<and> o_kind n' = NODE \<and> okey n' = key \<and> \<not> truthy (dget (o_status n') ''ready'' (JBool True))"
  proof (cases "truthy (dget (o_status node) ''ready'' (JBool True))")
    case False
    with that [of None st] assms(1,2,3) key show ?thesis by auto
  next
    case True
    let ?c = "node\<lparr>o_status := fmupd ''reason'' (JStr ''heartbeat timeout'') (fmupd ''ready'' (JBool False) (o_status node))\<rparr>"
    have dm: "down_mutator node = Inr (True, ?c)" by (simp add: down_mutator_def)
    from ms_retry_quiet_cases [OF assms(1) keeps, of key] assms(2) dm obtain s1 where
      s1: "ms_update ?c st = Inr (committed node ?c (ms_revision st + 1), s1)"
      "ms_retry quiet key down_mutator attempts st = (Inr (Some (committed node ?c (ms_revision st + 1))), s1)" by auto
    have view: "ms_view s1 = (ms_view st)(key \<mapsto> committed node ?c (ms_revision st + 1))"
      using s1(1) by (rule ms_update_InrD) (simp add: key)
    show ?thesis
    proof (rule that [of "Some (committed node ?c (ms_revision st + 1))" s1])
      show "?mark = (Inr (Some (committed node ?c (ms_revision st + 1))), s1)" using True s1 by simp
      show "ms_tables_ok s1" by (rule ms_update_tables_ok [OF s1(1) assms(1)])
      show "kind \<noteq> NODE \<Longrightarrow> kind \<noteq> [] \<Longrightarrow> ms_list s1 kind sel = ms_list st kind sel" for kind sel
        by (rule ms_list_update_other [OF s1(1)]) (use assms(2,3) key in auto)
    qed (use view assms(3) key in auto)
  qed
  obtain k st2 where ev: "evict_pods now ?nm st1 = (k, st2)" by fastforce
  have e: "ms_tables_ok st2" "k = length (filter (victim ?nm) (ms_list st1 POD None))"
    "\<And>kind sel. ms_list st2 kind sel = filter (\<lambda>ob. \<not> (o_kind ob = POD \<and> victim ?nm ob)) (ms_list st1 kind sel)"
    using evict_effect [OF mk(2), where now = now and node = ?nm] ev by auto
  have run: "r = Inr (Some (nm_timeout m / 2))" "st' = st2" "nm_evicted m' = nm_evicted m + k"
    using assms(3-7) get mk(1) ev by (auto simp: monitor_reconcile_def Let_def py_num_def)
  have kinds: "o_kind ob = kind" if "ob \<in> set (ms_list s kind sel)" "kind \<noteq> []" for ob s kind sel
    using that by (auto simp: ms_list_set selected_def)
  obtain n' where n': "ms_view st1 key = Some n'" "o_kind n' = NODE" "okey n' = key" "\<not> truthy (dget (o_status n') ''ready'' (JBool True))"
    using mk(4) by blast
  have "n' \<in> set (ms_list st2 NODE None)" using n' mk(2) by (auto simp: e(3) ms_list_iff selected_def)
  then have "ms_view st2 key = Some n'" using e(1) n'(3) by (simp add: ms_list_iff)
  moreover have "ms_list st2 POD None = filter (\<lambda>p. \<not> victim ?nm p) (ms_list st1 POD None)"
    unfolding e(3) by (rule filter_cong) (use kinds in auto)
  moreover have "ms_list st2 kind sel = ms_list st kind sel" if "kind \<noteq> POD" "kind \<noteq> NODE" "kind \<noteq> []" for kind sel
    unfolding e(3) mk(3) [OF that(2,3)] using that kinds by (auto simp: filter_id_conv)
  ultimately show ?thesis using run e(2) mk(3) [of POD None] n'(4) by auto
qed

definition silent_store :: mem_store where
  "silent_store = demo_node_store [(demo_node_obj ''n'' 4 1)\<lparr>o_status := fmap_of_list [(''heartbeat'', JNum 1)]\<rparr>, bound_demo_pod]"

theorem silent_node_evicted_witness:
  "ms_list (snd (snd (monitor_reconcile 9 ''Node/d/n'' (\<lparr>nm_timeout = 1, nm_evicted = 0, nm_down = []\<rparr>, silent_store)))) POD None = []"
proof -
  let ?m = "\<lparr>nm_timeout = 1, nm_evicted = 0, nm_down = []\<rparr>"
  let ?s = "monitor_reconcile 9 ''Node/d/n'' (?m, silent_store)"
  let ?n = "(demo_node_obj ''n'' 4 1)\<lparr>o_status := fmap_of_list [(''heartbeat'', JNum 1)]\<rparr>"
  obtain r m' st' where s: "?s = (r, (m', st'))" by (metis prod.collapse)
  have ok: "ms_tables_ok silent_store"
    by (simp add: silent_store_def ms_tables_ok_def demo_node_store_def ms_init_def bound_demo_pod_def bound_pod_def demo_pod_obj_def
        demo_node_obj_def okey_def new_object_def)
  have h: "ms_view silent_store ''Node/d/n'' = Some ?n" "o_kind ?n = NODE" "dget (o_status ?n) ''heartbeat'' (JNum 0) = JNum 1"
    "(1 :: rat) \<noteq> 0" "(9 :: rat) - 1 > nm_timeout ?m" by code_simp+
  have "filter (\<lambda>p. \<not> victim (m_name (o_meta ?n)) p) (ms_list silent_store POD None) = []" by code_simp
  with silent_node_evicted [OF ok h s] s show ?thesis by simp
qed

end
