(* ===== verification/Control_Plane.thy ===== *)
theory Control_Plane
  imports Node_Agents_Props Deployment
begin

text \<open>
  The control plane's own operations, \<open>modules/orchestrator/orchestrator/cluster.py\<close>: adding and removing nodes,
  applying a deployment, and the observations that a caller waits for.  The controllers it starts are the
  other theories.  \<open>wait\<close> polls a predicate of the store: \<open>clock k\<close> and \<open>seen k\<close> are the time and the
  store at its \<open>k\<close>-th look.
\<close>

section \<open>Nodes\<close>

record plane =
  cp_store :: mem_store
  cp_agents :: "(string \<times> agent) list"

definition add_node :: "rat \<Rightarrow> string \<Rightarrow> string \<Rightarrow> rat \<Rightarrow> int \<Rightarrow> dict \<Rightarrow> (obj, plane) act" where
  "add_node now uid nm cpu memory_mb labels p =
     (let node = (new_object NODE nm (node_spec cpu memory_mb False labels) ''default'' labels [] uid now)
          \<lparr>o_status := fmap_of_list [(''ready'', JBool True), (''heartbeat'', JNum now)]\<rparr>
      in case ms_create now node (cp_store p) of
           Inl e \<Rightarrow> (Inl e, p)
         | Inr (created, st') \<Rightarrow>
             (Inr created, \<lparr>cp_store = st', cp_agents = AList.update nm \<lparr>na_node = nm, na_handles = []\<rparr> (cp_agents p)\<rparr>))"

definition node_key :: "string \<Rightarrow> string" where
  "node_key nm = NODE @ ''/default/'' @ nm"

definition remove_node :: "rat \<Rightarrow> string \<Rightarrow> bool \<Rightarrow> (unit, plane) act" where
  "remove_node now nm graceful p =
     (let p1 = p\<lparr>cp_agents := AList.delete nm (cp_agents p)\<rparr> in
      if \<not> graceful then (Inr (), p1)
      else (case ms_delete now (node_key nm) (cp_store p) of
              Inl (NotFoundError _) \<Rightarrow> (Inr (), p1)
            | Inl e \<Rightarrow> (Inl e, p1)
            | Inr st' \<Rightarrow> (Inr (), p1\<lparr>cp_store := st'\<rparr>)))"

fun with_nodes :: "(nat \<Rightarrow> rat) \<Rightarrow> (nat \<Rightarrow> string) \<Rightarrow> nat \<Rightarrow> rat \<Rightarrow> int \<Rightarrow> dict \<Rightarrow> (unit, plane) act" where
  "with_nodes clock uid 0 cpu memory_mb labels = aret ()"
| "with_nodes clock uid (Suc n) cpu memory_mb labels =
     abind (with_nodes clock uid n cpu memory_mb labels) (\<lambda>_.
     abind (add_node (clock n) (uid n) (''node-'' @ str_nat n) cpu memory_mb labels) (\<lambda>_. aret ()))"

section \<open>Deployments\<close>

definition deployment_key :: "string \<Rightarrow> string \<Rightarrow> string" where
  "deployment_key namespace nm = DEPLOYMENT @ ''/'' @ namespace @ ''/'' @ nm"

definition spec_mutator :: "dict \<Rightarrow> mutator" where
  "spec_mutator spec d = Inr (if o_spec d = spec then (False, d) else (True, d\<lparr>o_spec := spec\<rparr>))"

definition apply_deployment :: "rat \<Rightarrow> string \<Rightarrow> string \<Rightarrow> string \<Rightarrow> dict \<Rightarrow> (obj option, mem_store) act" where
  "apply_deployment now uid nm namespace spec st =
     (case ms_get st (deployment_key namespace nm) of
        Inl _ \<Rightarrow>
          (case py_dict (dget spec ''selector'' (JObj fmempty)) of
             Inl e \<Rightarrow> (Inl e, st)
           | Inr labels \<Rightarrow>
               (case ms_create now (new_object DEPLOYMENT nm spec namespace labels [] uid now) st of
                  Inl e \<Rightarrow> (Inl e, st) | Inr (d, st') \<Rightarrow> (Inr (Some d), st')))
      | Inr _ \<Rightarrow> ms_retry quiet (deployment_key namespace nm) (spec_mutator spec) attempts st)"

section \<open>Observation\<close>

definition available :: "rat \<Rightarrow> rat \<Rightarrow> json \<Rightarrow> mem_store \<Rightarrow> nat res" where
  "available now min_ready selector st =
     ebind (json_list POD selector st) (\<lambda>pods.
     ebind (emap (is_available now min_ready) pods) (\<lambda>bs. Inr (length (filter id bs))))"

definition placement :: "dict option \<Rightarrow> mem_store \<Rightarrow> (json \<times> nat) list" where
  \<comment> \<open>how many pods name each node\<close>
  "placement selector st =
     fold (\<lambda>pod counts. let node = dget (o_spec pod) ''nodeName'' JNull in
             if truthy node then AList.update node ((case map_of counts node of None \<Rightarrow> 0 | Some n \<Rightarrow> n) + 1) counts else counts)
       (ms_list st POD selector) []"

definition rollout_done :: "string \<Rightarrow> string \<Rightarrow> mem_store \<Rightarrow> bool" where
  \<comment> \<open>the predicate of \<open>wait_complete\<close>\<close>
  "rollout_done namespace nm st =
     (case ms_get st (deployment_key namespace nm) of
        Inl _ \<Rightarrow> False
      | Inr d \<Rightarrow> truthy (dget (o_status d) ''complete'' JNull) \<and>
          dget (o_status d) ''observedGeneration'' JNull = JNum (of_int (m_generation (o_meta d))))"

partial_function (option) wait_until ::
  "(nat \<Rightarrow> rat) \<Rightarrow> (nat \<Rightarrow> mem_store) \<Rightarrow> (mem_store \<Rightarrow> bool) \<Rightarrow> rat \<Rightarrow> nat \<Rightarrow> bool option" where
  "wait_until clock seen pred deadline k =
     (if clock k < deadline
      then (if pred (seen k) then Some True else wait_until clock seen pred deadline (k + 1))
      else Some False)"

definition wait :: "(nat \<Rightarrow> rat) \<Rightarrow> (nat \<Rightarrow> mem_store) \<Rightarrow> (mem_store \<Rightarrow> bool) \<Rightarrow> rat \<Rightarrow> bool option" where
  "wait clock seen pred timeout = wait_until clock seen pred (clock 0 + timeout) 1"

definition wait_complete :: "(nat \<Rightarrow> rat) \<Rightarrow> (nat \<Rightarrow> mem_store) \<Rightarrow> string \<Rightarrow> string \<Rightarrow> rat \<Rightarrow> bool option" where
  "wait_complete clock seen namespace nm timeout = wait clock seen (rollout_done namespace nm) timeout"

section \<open>Theorems\<close>

lemma spec_mutator_keeps: "keeps_identity (spec_mutator spec)"
  by (auto simp: keeps_identity_def spec_mutator_def okey_def)

text \<open>
  Applying a deployment.  Afterwards the deployment has exactly the spec that was applied; applying a spec
  that is there already writes nothing at all; a changed spec raises the generation by one, so that nobody
  who waits for completion takes the finished rollout of the old spec for the new one.
\<close>

theorem apply_deployment_effect:
  assumes "ms_tables_ok st" "ms_view st (deployment_key namespace nm) = Some d"
    "apply_deployment now uid nm namespace spec st = (r, st')"
  shows "\<exists>d'. r = Inr (Some d') \<and> ms_view st' = (ms_view st)(deployment_key namespace nm \<mapsto> d') \<and> o_spec d' = spec \<and>
    o_status d' = o_status d \<and>
    (if o_spec d = spec then st' = st
     else m_generation (o_meta d') = m_generation (o_meta d) + 1 \<and> ms_revision st' = ms_revision st + 1 \<and>
          (dget (o_status d) ''observedGeneration'' JNull = JNum (of_int (m_generation (o_meta d)))
             \<longrightarrow> \<not> rollout_done namespace nm st'))"
proof -
  let ?k = "deployment_key namespace nm"
  have get: "ms_get st ?k = Inr d" using assms(2) by (simp add: ms_get_def ms_view_def)
  have run: "ms_retry quiet ?k (spec_mutator spec) attempts st = (r, st')"
    using assms(3) get by (simp add: apply_deployment_def)
  note q = ms_retry_quiet_cases [OF assms(1) spec_mutator_keeps [of spec], of ?k]
  show ?thesis
  proof (cases "o_spec d = spec")
    case True
    then have "r = Inr (Some d)" "st' = st" using q run assms(2) by (auto simp: spec_mutator_def)
    with True assms(2) show ?thesis by (intro exI [of _ d]) auto
  next
    case False
    let ?c = "d\<lparr>o_spec := spec\<rparr>"
    let ?d = "committed d ?c (ms_revision st + 1)"
    from q assms(2) False obtain s1 where s1: "okey ?c = ?k" "ms_update ?c st = Inr (?d, s1)"
      "ms_retry quiet ?k (spec_mutator spec) attempts st = (Inr (Some ?d), s1)"
      by (auto simp: spec_mutator_def)
    have eq: "r = Inr (Some ?d)" "st' = s1" using run s1(3) by auto
    have view: "ms_view s1 = (ms_view st)(?k \<mapsto> ?d)" "ms_revision s1 = ms_revision st + 1"
      using s1(2) by (rule ms_update_InrD, simp only: s1(1))+
    have gen: "m_generation (o_meta ?d) = m_generation (o_meta d) + 1" using False by (simp add: committed_generation)
    have "ms_get s1 ?k = Inr ?d" using view(1) by (simp add: ms_get_def ms_view_def fun_eq_iff)
    then have "\<not> rollout_done namespace nm s1"
      if "dget (o_status d) ''observedGeneration'' JNull = JNum (of_int (m_generation (o_meta d)))"
      using that gen by (simp add: rollout_done_def)
    with False eq view gen show ?thesis by (intro exI [of _ ?d]) auto
  qed
qed

definition demo_deployment :: obj where
  "demo_deployment = set_rv 1 ((new_object DEPLOYMENT ''web'' fmempty ''d'' fmempty [] ''u'' 1)
     \<lparr>o_status := fmap_of_list [(''complete'', JBool True), (''observedGeneration'', JNum 1)]\<rparr>)"

theorem apply_deployment_effect_witness:
  "rollout_done ''d'' ''web'' (demo_node_store [demo_deployment]) \<and>
   \<not> rollout_done ''d'' ''web'' (snd (apply_deployment 2 ''v'' ''web'' ''d'' (fmap_of_list [(''replicas'', JNum 3)]) (demo_node_store [demo_deployment])))"
proof -
  let ?st = "demo_node_store [demo_deployment]" and ?spec = "fmap_of_list [(''replicas'', JNum 3)]"
  obtain r st' where s: "apply_deployment 2 ''v'' ''web'' ''d'' ?spec ?st = (r, st')" by fastforce
  have ok: "ms_tables_ok ?st"
    by (simp add: ms_tables_ok_def demo_node_store_def ms_init_def demo_deployment_def okey_def new_object_def)
  have h: "ms_view ?st (deployment_key ''d'' ''web'') = Some demo_deployment" "o_spec demo_deployment \<noteq> ?spec"
    "dget (o_status demo_deployment) ''observedGeneration'' JNull = JNum (of_int (m_generation (o_meta demo_deployment)))"
    "rollout_done ''d'' ''web'' ?st" by code_simp+
  from apply_deployment_effect [OF ok h(1) s] h s show ?thesis by auto
qed

lemma clock_mono:
  fixes clock :: "nat \<Rightarrow> rat"
  assumes "\<And>k. clock k + interval \<le> clock (Suc k)" "0 < interval" "k \<le> m"
  shows "clock k \<le> clock m"
proof -
  have "clock j \<le> clock (Suc j)" for j using assms(1) [of j] assms(2) by linarith
  then show ?thesis using assms(3) by (rule lift_Suc_mono_le)
qed

lemma wait_until_reaches:
  "(\<And>k. clock k + interval \<le> clock (Suc k)) \<Longrightarrow> 0 < interval \<Longrightarrow> deadline - clock k \<le> of_nat n * interval \<Longrightarrow>
   \<exists>b. wait_until clock seen pred deadline k = Some b \<and> (b \<longleftrightarrow> (\<exists>m \<ge> k. clock m < deadline \<and> pred (seen m)))"
proof (induction n arbitrary: k)
  case 0
  have "clock k \<le> clock m" if "k \<le> m" for m using clock_mono [of clock interval k m] 0(1,2) that by blast
  then have "\<not> clock m < deadline" if "k \<le> m" for m using 0(3) that by force
  then show ?case using 0 by (subst wait_until.simps) auto
next
  case (Suc n)
  show ?case
  proof (cases "clock k < deadline \<and> \<not> pred (seen k)")
    case False
    have "clock k \<le> clock m" if "k \<le> m" for m using clock_mono [of clock interval k m] Suc.prems(1,2) that by blast
    then have "\<not> clock m < deadline" if "\<not> clock k < deadline" "k \<le> m" for m using that by (meson leD le_less_trans not_less)
    with False show ?thesis by (subst wait_until.simps) (auto intro: exI [of _ k])
  next
    case True
    have "deadline - clock (Suc k) \<le> of_nat n * interval"
      using Suc.prems(1) [of k] Suc.prems(3) by (simp add: algebra_simps)
    from Suc.IH [OF Suc.prems(1,2) this] obtain b where
      b: "wait_until clock seen pred deadline (Suc k) = Some b" "b \<longleftrightarrow> (\<exists>m \<ge> Suc k. clock m < deadline \<and> pred (seen m))" by blast
    have "(\<exists>m \<ge> Suc k. clock m < deadline \<and> pred (seen m)) \<longleftrightarrow> (\<exists>m \<ge> k. clock m < deadline \<and> pred (seen m))"
      using True by (metis Suc_leD Suc_leI le_neq_implies_less)
    with b True show ?thesis by (subst wait_until.simps) simp
  qed
qed

text \<open>
  Waiting for a rollout ends.  If every sleep lasts at least the interval, \<open>wait_complete\<close> returns, and
  it returns true exactly when at some look before the deadline the deployment was complete for its current
  generation.
\<close>

theorem wait_complete_ends:
  assumes "0 < interval" "\<And>k. clock k + interval \<le> clock (Suc k)"
  shows "\<exists>b. wait_complete clock seen namespace nm timeout = Some b \<and>
    (b \<longleftrightarrow> (\<exists>k \<ge> 1. clock k < clock 0 + timeout \<and> rollout_done namespace nm (seen k)))"
proof -
  obtain n :: nat where "(clock 0 + timeout - clock 1) / interval \<le> of_nat n"
    using real_arch_simple [of "(clock 0 + timeout - clock 1) / interval"] by blast
  then have "clock 0 + timeout - clock 1 \<le> of_nat n * interval" using assms(1) by (simp add: field_simps)
  from wait_until_reaches [OF assms(2,1) this] show ?thesis unfolding wait_complete_def wait_def by blast
qed

theorem wait_complete_ends_witness:
  "wait_complete of_nat (\<lambda>k. demo_node_store [demo_deployment]) ''d'' ''web'' 5 = Some True"
proof -
  have c: "0 < (1 :: rat)" "\<And>k. (of_nat k :: rat) + 1 \<le> of_nat (Suc k)" by simp_all
  have d: "rollout_done ''d'' ''web'' (demo_node_store [demo_deployment])" by code_simp
  obtain b where b: "wait_complete of_nat (\<lambda>k. demo_node_store [demo_deployment]) ''d'' ''web'' 5 = Some b"
    "b \<longleftrightarrow> (\<exists>k \<ge> (1 :: nat). (of_nat k :: rat) < of_nat 0 + 5 \<and> rollout_done ''d'' ''web'' (demo_node_store [demo_deployment]))"
    using wait_complete_ends [where clock = of_nat and interval = 1 and seen = "\<lambda>k. demo_node_store [demo_deployment]"
        and namespace = "''d''" and nm = "''web''" and timeout = 5, OF c] by blast
  have "b" unfolding b(2) by (rule exI [of _ 1]) (simp add: d)
  with b(1) show ?thesis by simp
qed

end
