(* ===== verification/Host_Files.thy ===== *)
theory Host_Files
  imports Py_Text
begin

text \<open>
  The part of Python's \<open>os\<close>, \<open>os.path\<close>, \<open>shutil\<close> and \<open>tarfile\<close> that the image toolkit and the
  container runtime use, over a tree of directories, files, symbolic links and device nodes.  A
  path is the list of its components (\<open>..\<close> included, empty and \<open>.\<close> components dropped, so a trailing
  slash has no meaning); a file system maps the real path of every node, the root being the empty
  path, to the node.  Resolution follows symbolic links, at most 40 of them, as Linux does.  What
  a process creates gets the attributes \<open>new\<close> (\<open>new True\<close> for directories): its identity, umask and
  clock.  There are no hard links.
\<close>

section \<open>Paths\<close>

type_synonym path = "string list"

definition comps :: "string \<Rightarrow> path" where
  "comps s = filter (\<lambda>c. c \<noteq> [] \<and> c \<noteq> ''.'') (split_char CHR ''/'' s)"

definition path_join :: "string \<Rightarrow> string \<Rightarrow> string" where
  \<comment> \<open>\<open>os.path.join\<close>\<close>
  "path_join a b = (if starts_with b ''/'' then b
     else if a = [] \<or> ends_with a ''/'' then a @ b else a @ ''/'' @ b)"

definition path_split :: "string \<Rightarrow> string \<times> string" where
  \<comment> \<open>\<open>os.path.split\<close>\<close>
  "path_split s =
     (let t = rev (takeWhile (\<lambda>c. c \<noteq> CHR ''/'') (rev s));
          h = take (length s - length t) s
      in (if list_all (\<lambda>c. c = CHR ''/'') h then h else rstrip_char CHR ''/'' h, t))"

definition under :: "path \<Rightarrow> string \<Rightarrow> path" where
  \<comment> \<open>the path that \<open>os.path.join(base, s)\<close> names: an absolute \<open>s\<close> drops the root\<close>
  "under base s = (if starts_with s ''/'' then comps s else base @ comps s)"

definition rel_text :: "path \<Rightarrow> string" where
  "rel_text p = join ''/'' p"

fun normal_from :: "path \<Rightarrow> path \<Rightarrow> path" where
  "normal_from cur [] = cur"
| "normal_from cur (c # cs) = normal_from (if c = ''..'' then butlast cur else cur @ [c]) cs"

definition normal :: "path \<Rightarrow> path" where
  \<comment> \<open>\<open>os.path.abspath\<close>: lexical, it does not look at links\<close>
  "normal p = normal_from [] p"

definition at_or_below :: "path \<Rightarrow> path \<Rightarrow> bool" where
  "at_or_below q p = (take (length q) p = q)"

definition proper_name :: "string \<Rightarrow> bool" where
  \<comment> \<open>what a directory entry can be called\<close>
  "proper_name c = (c \<noteq> [] \<and> c \<noteq> ''.'' \<and> c \<noteq> ''..'' \<and> CHR ''/'' \<notin> set c)"

section \<open>Nodes\<close>

record fattr =
  fa_mode :: int
  fa_uid :: int
  fa_gid :: int
  fa_mtime :: int
  fa_opaque :: bool

datatype fnode = FDir fattr | FFile fattr string | FLink fattr string | FDev fattr

type_synonym fs = "(path, fnode) fmap"

fun node_attr :: "fnode \<Rightarrow> fattr" where
  "node_attr (FDir a) = a"
| "node_attr (FFile a _) = a"
| "node_attr (FLink a _) = a"
| "node_attr (FDev a) = a"

fun is_fdir :: "fnode option \<Rightarrow> bool" where
  "is_fdir (Some (FDir a)) = True"
| "is_fdir _ = False"

fun is_flink :: "fnode option \<Rightarrow> bool" where
  "is_flink (Some (FLink a t)) = True"
| "is_flink _ = False"

definition set_mode :: "int \<Rightarrow> fnode \<Rightarrow> fnode" where
  "set_mode m n =
     (case n of FDir a \<Rightarrow> FDir (a\<lparr>fa_mode := m\<rparr>) | FFile a d \<Rightarrow> FFile (a\<lparr>fa_mode := m\<rparr>) d
      | FLink a t \<Rightarrow> FLink (a\<lparr>fa_mode := m\<rparr>) t | FDev a \<Rightarrow> FDev (a\<lparr>fa_mode := m\<rparr>))"

section \<open>Resolution\<close>

fun walk :: "nat \<Rightarrow> fs \<Rightarrow> path \<Rightarrow> path \<Rightarrow> bool \<Rightarrow> path res" where
  \<comment> \<open>links left, the directory reached, the components to go, and whether a final link is followed\<close>
  "walk n fs cur [] follow = Inr cur"
| "walk n fs cur (c # cs) follow =
     (if c = ''..'' then walk n fs (butlast cur) cs follow
      else (case fmlookup fs (cur @ [c]) of
              None \<Rightarrow> if cs = [] then Inr (cur @ [c]) else Inl (FileNotFoundError c)
            | Some (FDir a) \<Rightarrow> walk n fs (cur @ [c]) cs follow
            | Some (FLink a t) \<Rightarrow>
                if cs = [] \<and> \<not> follow then Inr (cur @ [c])
                else (case n of 0 \<Rightarrow> Inl (OSError ''Too many levels of symbolic links'')
                      | Suc m \<Rightarrow> walk m fs (if starts_with t ''/'' then [] else cur) (comps t @ cs) follow)
            | Some _ \<Rightarrow> if cs = [] then Inr (cur @ [c]) else Inl (OSError ''Not a directory'')))"

definition resolve :: "fs \<Rightarrow> bool \<Rightarrow> path \<Rightarrow> path res" where
  "resolve fs follow p = walk 40 fs [] p follow"

fun real_from :: "nat \<Rightarrow> fs \<Rightarrow> path \<Rightarrow> path \<Rightarrow> path" where
  "real_from n fs cur [] = cur"
| "real_from n fs cur (c # cs) =
     (if c = ''..'' then real_from n fs (butlast cur) cs
      else (case (fmlookup fs (cur @ [c]), n) of
              (Some (FLink a t), Suc m) \<Rightarrow>
                real_from m fs (if starts_with t ''/'' then [] else cur) (comps t @ cs)
            | _ \<Rightarrow> real_from n fs (cur @ [c]) cs))"

definition realpath :: "fs \<Rightarrow> path \<Rightarrow> path" where
  "realpath fs p = real_from 40 fs [] p"

definition stat_at :: "fs \<Rightarrow> bool \<Rightarrow> path \<Rightarrow> fnode option" where
  \<comment> \<open>\<open>os.stat\<close> and \<open>os.lstat\<close>\<close>
  "stat_at fs follow p = (case resolve fs follow p of Inl e \<Rightarrow> None | Inr q \<Rightarrow> fmlookup fs q)"

definition lexists :: "fs \<Rightarrow> path \<Rightarrow> bool" where
  "lexists fs p = (stat_at fs False p \<noteq> None)"

definition path_exists :: "fs \<Rightarrow> path \<Rightarrow> bool" where
  "path_exists fs p = (stat_at fs True p \<noteq> None)"

definition isdir :: "fs \<Rightarrow> path \<Rightarrow> bool" where
  "isdir fs p = is_fdir (stat_at fs True p)"

definition islink :: "fs \<Rightarrow> path \<Rightarrow> bool" where
  "islink fs p = is_flink (stat_at fs False p)"

definition entry_names :: "fs \<Rightarrow> path \<Rightarrow> string list" where
  \<comment> \<open>the entries of a real directory, sorted\<close>
  "entry_names fs d =
     sorted_list_of_fset (last |`| ffilter (\<lambda>p. p \<noteq> [] \<and> butlast p = d) (fmdom fs))"

definition listdir :: "fs \<Rightarrow> path \<Rightarrow> string list" where
  "listdir fs p =
     (case resolve fs True p of Inl e \<Rightarrow> []
      | Inr q \<Rightarrow> if is_fdir (fmlookup fs q) then entry_names fs q else [])"

section \<open>Operations\<close>

definition on_node :: "bool \<Rightarrow> path \<Rightarrow> (path \<Rightarrow> fnode option \<Rightarrow> (unit, fs) act) \<Rightarrow> (unit, fs) act" where
  "on_node follow p f fs =
     (case resolve fs follow p of Inl e \<Rightarrow> (Inl e, fs) | Inr q \<Rightarrow> f q (fmlookup fs q) fs)"

definition fs_unlink :: "path \<Rightarrow> (unit, fs) act" where
  "fs_unlink p = on_node False p (\<lambda>q n fs.
     case n of None \<Rightarrow> (Inl (FileNotFoundError (rel_text p)), fs)
     | Some x \<Rightarrow> if is_fdir n then (Inl (OSError ''Is a directory''), fs) else (Inr (), fmdrop q fs))"

definition drop_tree :: "path \<Rightarrow> fs \<Rightarrow> fs" where
  "drop_tree q fs = fmfilter (\<lambda>k. \<not> at_or_below q k) fs"

definition rmtree :: "path \<Rightarrow> (unit, fs) act" where
  "rmtree p = on_node False p (\<lambda>q n fs.
     if \<not> is_fdir n then (Inl (OSError ''Not a directory''), fs)
     else if q = [] then (Inl (OSError ''Device or resource busy''), fmfilter (\<lambda>k. k = []) fs)
     else (Inr (), drop_tree q fs))"

definition fs_mkdir :: "(bool \<Rightarrow> fattr) \<Rightarrow> path \<Rightarrow> (unit, fs) act" where
  "fs_mkdir new p = on_node False p (\<lambda>q n fs.
     case n of Some x \<Rightarrow> (Inl (OSError ''File exists''), fs)
     | None \<Rightarrow> (Inr (), fmupd q (FDir (new True)) fs))"

definition mkdir_ok :: "(bool \<Rightarrow> fattr) \<Rightarrow> path \<Rightarrow> (unit, fs) act" where
  \<comment> \<open>\<open>mkdir\<close>, with an existing directory accepted\<close>
  "mkdir_ok new p fs =
     (case fs_mkdir new p fs of
        (Inr u, fs') \<Rightarrow> (Inr u, fs')
      | (Inl e, fs') \<Rightarrow> if isdir fs' p then (Inr (), fs') else (Inl e, fs'))"

function makedirs :: "(bool \<Rightarrow> fattr) \<Rightarrow> path \<Rightarrow> (unit, fs) act" where
  \<comment> \<open>\<open>os.makedirs(p, exist_ok=True)\<close>\<close>
  "makedirs new p fs =
     (if p = [] \<or> path_exists fs (butlast p) then mkdir_ok new p fs
      else abind (makedirs new (butlast p)) (\<lambda>_. mkdir_ok new p) fs)"
  by pat_completeness auto
termination by (relation "measure (\<lambda>(new, p, fs). length p)") auto

declare makedirs.simps [simp del]

definition write_file :: "(bool \<Rightarrow> fattr) \<Rightarrow> path \<Rightarrow> string \<Rightarrow> (unit, fs) act" where
  \<comment> \<open>\<open>open(p, "wb")\<close> and writing the data\<close>
  "write_file new p d = on_node True p (\<lambda>q n fs.
     case n of
       None \<Rightarrow> (Inr (), fmupd q (FFile (new False) d) fs)
     | Some (FFile a old) \<Rightarrow> (Inr (), fmupd q (FFile (a\<lparr>fa_mtime := fa_mtime (new False)\<rparr>) d) fs)
     | Some _ \<Rightarrow> (Inl (OSError ''Is a directory''), fs))"

definition fs_chmod :: "int \<Rightarrow> path \<Rightarrow> (unit, fs) act" where
  "fs_chmod m p = on_node True p (\<lambda>q n fs.
     case n of None \<Rightarrow> (Inl (FileNotFoundError (rel_text p)), fs) | Some x \<Rightarrow> (Inr (), fmupd q (set_mode m x) fs))"

definition fs_symlink :: "(bool \<Rightarrow> fattr) \<Rightarrow> string \<Rightarrow> path \<Rightarrow> (unit, fs) act" where
  "fs_symlink new t p = on_node False p (\<lambda>q n fs.
     case n of Some x \<Rightarrow> (Inl (OSError ''File exists''), fs)
     | None \<Rightarrow> (Inr (), fmupd q (FLink (new False) t) fs))"

fun os_walk :: "nat \<Rightarrow> fs \<Rightarrow> path \<Rightarrow> (path \<times> string list \<times> string list) list" where
  \<comment> \<open>\<open>os.walk\<close> with the names sorted: links to directories are listed with the directories and
    not entered; the first argument bounds the depth\<close>
  "os_walk 0 fs d = []"
| "os_walk (Suc n) fs d =
     (if isdir fs d then
        let ns = listdir fs d; ds = filter (\<lambda>x. isdir fs (d @ [x])) ns
        in (d, ds, filter (\<lambda>x. \<not> isdir fs (d @ [x])) ns)
           # concat (map (\<lambda>x. if islink fs (d @ [x]) then [] else os_walk n fs (d @ [x])) ds)
      else [])"

definition fs_depth :: "fs \<Rightarrow> nat" where
  "fs_depth fs = Suc (foldr max (map length (sorted_list_of_fset (fmdom fs))) 0)"

definition walk_tree :: "fs \<Rightarrow> path \<Rightarrow> (path \<times> string list \<times> string list) list" where
  "walk_tree fs d = os_walk (fs_depth fs) fs d"

section \<open>Archives\<close>

datatype tar_type = TReg | TDir | TSym | TOther

record tar_info =
  ti_name :: string
  ti_type :: tar_type
  ti_mode :: int
  ti_uid :: int
  ti_gid :: int
  ti_uname :: string
  ti_gname :: string
  ti_mtime :: int
  ti_link :: string
  ti_data :: string

definition new_tarinfo :: "string \<Rightarrow> tar_info" where
  \<comment> \<open>\<open>tarfile.TarInfo(name)\<close>\<close>
  "new_tarinfo name = \<lparr>ti_name = name, ti_type = TReg, ti_mode = 420, ti_uid = 0, ti_gid = 0,
     ti_uname = [], ti_gname = [], ti_mtime = 0, ti_link = [], ti_data = []\<rparr>"

definition gettarinfo :: "(int \<Rightarrow> string) \<Rightarrow> fs \<Rightarrow> path \<Rightarrow> string \<Rightarrow> tar_info res" where
  \<comment> \<open>\<open>tar.gettarinfo\<close> on a tree in which no file has a second name, so that it never gives a hard link; the
    first argument is the host's user and group data base\<close>
  "gettarinfo who fs p arcname =
     (case stat_at fs False p of
        None \<Rightarrow> Inl (FileNotFoundError (rel_text p))
      | Some n \<Rightarrow> Inr \<lparr>ti_name = lstrip_char CHR ''/'' arcname,
          ti_type = (case n of FDir a \<Rightarrow> TDir | FFile a d \<Rightarrow> TReg | FLink a t \<Rightarrow> TSym | FDev a \<Rightarrow> TOther),
          ti_mode = fa_mode (node_attr n), ti_uid = fa_uid (node_attr n), ti_gid = fa_gid (node_attr n),
          ti_uname = who (fa_uid (node_attr n)), ti_gname = who (fa_gid (node_attr n)),
          ti_mtime = fa_mtime (node_attr n), ti_link = (case n of FLink a t \<Rightarrow> t | _ \<Rightarrow> []),
          ti_data = (case n of FFile a d \<Rightarrow> d | _ \<Rightarrow> [])\<rparr>)"

definition tar_extract :: "(bool \<Rightarrow> fattr) \<Rightarrow> tar_info \<Rightarrow> path \<Rightarrow> (unit, fs) act" where
  \<comment> \<open>\<open>tar.extract(info, dest, set_attrs=False, filter="tar")\<close>\<close>
  "tar_extract new i dest fs =
     (let rel = comps (lstrip_char CHR ''/'' (ti_name i)); target = dest @ rel in
      if \<not> at_or_below (realpath fs dest) (realpath fs target)
      then (Inl (TarError ''outside the destination''), fs)
      else abind (\<lambda>fs. if path_exists fs (butlast target) then (Inr (), fs) else makedirs new (butlast target) fs)
        (\<lambda>_ fs. case ti_type i of
            TReg \<Rightarrow> write_file new target (ti_data i) fs
          | TDir \<Rightarrow> mkdir_ok new target fs
          | TSym \<Rightarrow> abind (\<lambda>fs. if lexists fs target then fs_unlink target fs else (Inr (), fs))
                     (\<lambda>_. fs_symlink new (ti_link i) target) fs
          | TOther \<Rightarrow> (Inl (OSError ''Operation not permitted''), fs)) fs)"

section \<open>Well-formed trees\<close>

text \<open>Names are proper and every proper ancestor of a node is a directory.\<close>

definition fs_wf :: "fs \<Rightarrow> bool" where
  "fs_wf fs \<longleftrightarrow> is_fdir (fmlookup fs [])
     \<and> (\<forall>p x. fmlookup fs p = Some x \<longrightarrow>
          list_all proper_name p \<and> (\<forall>i < length p. is_fdir (fmlookup fs (take i p))))"

text \<open>No symbolic link, file or device stands above a path.\<close>

definition clear_above :: "fs \<Rightarrow> path \<Rightarrow> bool" where
  "clear_above fs p \<longleftrightarrow> list_all proper_name p
     \<and> (\<forall>i < length p. fmlookup fs (take i p) = None \<or> is_fdir (fmlookup fs (take i p)))"

lemma is_fdirE: assumes "is_fdir n" obtains a where "n = Some (FDir a)"
  using assms by (cases n rule: is_fdir.cases) auto

lemma is_flinkE: assumes "is_flink n" obtains a t where "n = Some (FLink a t)"
  using assms by (cases n rule: is_flink.cases) auto

lemma fs_wf_root: "fs_wf fs \<Longrightarrow> is_fdir (fmlookup fs [])"
  by (simp add: fs_wf_def)

lemma fs_wf_nodeD:
  assumes "fs_wf fs" "fmlookup fs p = Some x"
  shows "list_all proper_name p" "i < length p \<Longrightarrow> is_fdir (fmlookup fs (take i p))"
  using assms unfolding fs_wf_def by blast+

text \<open>A check for trees that are written out.\<close>

definition fs_check :: "(path \<times> fnode) list \<Rightarrow> bool" where
  "fs_check xs = (is_fdir (map_of xs []) \<and> list_all (\<lambda>(p, n). list_all proper_name p
     \<and> list_all (\<lambda>i. is_fdir (map_of xs (take i p))) [0..<length p]) xs)"

lemma fs_wf_of_list: "fs_check xs \<Longrightarrow> fs_wf (fmap_of_list xs)"
  unfolding fs_check_def fs_wf_def by (auto simp: list_all_iff fmlookup_of_list dest!: map_of_SomeD)

lemma wf_clear_above: "fs_wf fs \<Longrightarrow> fmlookup fs p = Some x \<Longrightarrow> clear_above fs p"
  using fs_wf_nodeD [of fs p x] by (simp add: clear_above_def)

lemma walk_real:
  assumes "list_all proper_name cs" "\<And>i. 0 < i \<Longrightarrow> i < length cs \<Longrightarrow> is_fdir (fmlookup fs (cur @ take i cs))"
    and "follow \<Longrightarrow> \<not> is_flink (fmlookup fs (cur @ cs))"
  shows "walk n fs cur cs follow = Inr (cur @ cs)"
  using assms
proof (induction cs arbitrary: cur)
  case (Cons c cs)
  have pn: "c \<noteq> ''..''" using Cons.prems(1) by (simp add: proper_name_def)
  show ?case
  proof (cases "cs = []")
    case True
    then show ?thesis using pn Cons.prems(3) by (auto split: option.splits fnode.splits)
  next
    case False
    then obtain a where a: "fmlookup fs (cur @ [c]) = Some (FDir a)"
      using Cons.prems(2) [of 1] by (auto elim: is_fdirE)
    have "walk n fs (cur @ [c]) cs follow = Inr ((cur @ [c]) @ cs)"
    proof (rule Cons.IH)
      fix i :: nat assume "0 < i" "i < length cs"
      then show "is_fdir (fmlookup fs ((cur @ [c]) @ take i cs))" using Cons.prems(2) [of "Suc i"] by simp
    qed (use Cons.prems in auto)
    then show ?thesis using pn a by simp
  qed
qed simp

lemma resolve_real:
  assumes "list_all proper_name p" "\<And>i. i < length p \<Longrightarrow> is_fdir (fmlookup fs (take i p))"
    and "follow \<Longrightarrow> \<not> is_flink (fmlookup fs p)"
  shows "resolve fs follow p = Inr p"
  unfolding resolve_def by (subst walk_real) (use assms in auto)

lemma walk_missing:
  assumes "list_all proper_name cs" "k < length cs" "fmlookup fs (cur @ take (Suc k) cs) = None"
    and "\<And>i. i < k \<Longrightarrow> is_fdir (fmlookup fs (cur @ take (Suc i) cs))"
  shows "walk n fs cur cs follow = (if Suc k = length cs then Inr (cur @ cs) else Inl (FileNotFoundError (cs ! k)))"
  using assms
proof (induction cs arbitrary: cur k)
  case (Cons c cs)
  have pn: "c \<noteq> ''..''" using Cons.prems(1) by (simp add: proper_name_def)
  show ?case
  proof (cases k)
    case 0
    then show ?thesis using pn Cons.prems(3) by simp
  next
    case (Suc j)
    then obtain a where a: "fmlookup fs (cur @ [c]) = Some (FDir a)"
      using Cons.prems(4) [of 0] by (auto elim: is_fdirE)
    have "walk n fs (cur @ [c]) cs follow = (if Suc j = length cs then Inr ((cur @ [c]) @ cs) else Inl (FileNotFoundError (cs ! j)))"
    proof (rule Cons.IH)
      fix i assume "i < j"
      then show "is_fdir (fmlookup fs ((cur @ [c]) @ take (Suc i) cs))" using Cons.prems(4) [of "Suc i"] Suc by simp
    qed (use Cons.prems Suc in auto)
    then show ?thesis using pn a Suc by simp
  qed
qed simp

lemma clear_above_cases:
  assumes "fs_wf fs" "clear_above fs p"
  obtains "\<And>i. i < length p \<Longrightarrow> is_fdir (fmlookup fs (take i p))"
  | k where "Suc k < length p" "fmlookup fs (take (Suc k) p) = None" "fmlookup fs p = None"
      "\<And>i. i < k \<Longrightarrow> is_fdir (fmlookup fs (take (Suc i) p))"
proof (cases "\<forall>i < length p. is_fdir (fmlookup fs (take i p))")
  case True
  then show ?thesis using that(1) by blast
next
  case False
  define m where "m = (LEAST i. i < length p \<and> \<not> is_fdir (fmlookup fs (take i p)))"
  have m: "m < length p" "\<not> is_fdir (fmlookup fs (take m p))"
    using False LeastI_ex [of "\<lambda>i. i < length p \<and> \<not> is_fdir (fmlookup fs (take i p))"] by (auto simp: m_def)
  have less: "is_fdir (fmlookup fs (take i p))" if "i < m" for i
    using not_less_Least [of i "\<lambda>i. i < length p \<and> \<not> is_fdir (fmlookup fs (take i p))"] that m(1) by (simp add: m_def)
  have n: "fmlookup fs (take m p) = None" using assms(2) m by (auto simp: clear_above_def)
  then obtain k where k: "m = Suc k" using fs_wf_root [OF assms(1)] by (cases m) auto
  have "fmlookup fs p = None" using fs_wf_nodeD(2) [OF assms(1), of p _ m] m by (cases "fmlookup fs p") auto
  then show ?thesis using that(2) [of k] m n less k by auto
qed

lemma stat_clear:
  assumes "fs_wf fs" "clear_above fs p"
  shows "stat_at fs False p = fmlookup fs p"
    and "\<not> is_flink (fmlookup fs p) \<Longrightarrow> stat_at fs True p = fmlookup fs p"
proof -
  have pn: "list_all proper_name p" using assms(2) by (simp add: clear_above_def)
  have "stat_at fs f p = fmlookup fs p" if "f \<Longrightarrow> \<not> is_flink (fmlookup fs p)" for f
    using assms
  proof (rule clear_above_cases)
    assume "\<And>i. i < length p \<Longrightarrow> is_fdir (fmlookup fs (take i p))"
    then show ?thesis using resolve_real [OF pn, of fs f] that by (simp add: stat_at_def)
  next
    fix k assume k: "Suc k < length p" "fmlookup fs (take (Suc k) p) = None" "fmlookup fs p = None"
      "\<And>i. i < k \<Longrightarrow> is_fdir (fmlookup fs (take (Suc i) p))"
    then have "resolve fs f p = Inl (FileNotFoundError (p ! k))"
      using walk_missing [OF pn, of k fs "[]" 40 f] by (simp add: resolve_def)
    then show ?thesis using k(3) by (simp add: stat_at_def)
  qed
  then show "stat_at fs False p = fmlookup fs p" "\<not> is_flink (fmlookup fs p) \<Longrightarrow> stat_at fs True p = fmlookup fs p"
    by auto
qed

lemma real_from_real:
  assumes "list_all proper_name cs" "\<And>i. 0 < i \<Longrightarrow> i \<le> length cs \<Longrightarrow> \<not> is_flink (fmlookup fs (cur @ take i cs))"
  shows "real_from n fs cur cs = cur @ cs"
  using assms
proof (induction cs arbitrary: cur)
  case (Cons c cs)
  have pn: "c \<noteq> ''..''" using Cons.prems(1) by (simp add: proper_name_def)
  have nl: "\<not> is_flink (fmlookup fs (cur @ [c]))" using Cons.prems(2) [of 1] by simp
  have "real_from n fs (cur @ [c]) cs = (cur @ [c]) @ cs"
  proof (rule Cons.IH)
    fix i :: nat assume "0 < i" "i \<le> length cs"
    then show "\<not> is_flink (fmlookup fs ((cur @ [c]) @ take i cs))" using Cons.prems(2) [of "Suc i"] by simp
  qed (use Cons.prems in auto)
  then show ?case using pn nl by (auto split: option.splits fnode.splits nat.splits)
qed simp

lemma realpath_real:
  "list_all proper_name p \<Longrightarrow> (\<And>i. i \<le> length p \<Longrightarrow> \<not> is_flink (fmlookup fs (take i p))) \<Longrightarrow> realpath fs p = p"
  unfolding realpath_def by (subst real_from_real) auto

lemma normal_proper: "list_all proper_name p \<Longrightarrow> normal p = p"
proof -
  have "list_all proper_name p \<Longrightarrow> normal_from cur p = cur @ p" for cur
    by (induction p arbitrary: cur) (auto simp: proper_name_def)
  then show "list_all proper_name p \<Longrightarrow> normal p = p" by (simp add: normal_def)
qed

section \<open>Text and components\<close>

lemma comps_rel_text: "list_all proper_name p \<Longrightarrow> comps (rel_text p) = p"
proof (cases "p = []")
  case True
  then show ?thesis by (simp add: comps_def rel_text_def)
next
  case False
  assume a: "list_all proper_name p"
  have "split_char CHR ''/'' (join ''/'' p) = p"
    by (rule split_join) (use a False in \<open>auto simp: list_all_iff proper_name_def\<close>)
  moreover have "filter (\<lambda>c. c \<noteq> [] \<and> c \<noteq> ''.'') p = p"
    using a by (auto simp: filter_id_conv list_all_iff proper_name_def)
  ultimately show ?thesis by (simp add: comps_def rel_text_def)
qed

lemma rel_text_inject:
  "list_all proper_name p \<Longrightarrow> list_all proper_name q \<Longrightarrow> rel_text p = rel_text q \<longleftrightarrow> p = q"
  by (metis comps_rel_text)

lemma rel_text_snoc: "p \<noteq> [] \<Longrightarrow> rel_text (p @ [c]) = rel_text p @ ''/'' @ c"
  unfolding rel_text_def by (induction "''/''" p rule: join.induct) auto

lemma rel_text_append: "p \<noteq> [] \<Longrightarrow> q \<noteq> [] \<Longrightarrow> rel_text (p @ q) = rel_text p @ ''/'' @ rel_text q"
proof (induction q rule: rev_induct)
  case (snoc c q)
  then show ?case
    using rel_text_snoc [of "p @ q" c] rel_text_snoc [of q c] rel_text_snoc [of p c]
    by (cases "q = []") (auto simp: rel_text_def)
qed simp

lemma rel_text_no_slash_end:
  assumes "list_all proper_name p" "p \<noteq> []"
  shows "rel_text p \<noteq> []" "hd (rel_text p) \<noteq> CHR ''/''" "last (rel_text p) \<noteq> CHR ''/''"
proof -
  obtain c cs where p: "p = c # cs" using assms(2) by (cases p) auto
  obtain d ds where q: "p = ds @ [d]" using assms(2) by (cases p rule: rev_cases) auto
  have c: "c \<noteq> []" "CHR ''/'' \<notin> set c" using assms(1) by (simp_all add: p proper_name_def)
  have d: "d \<noteq> []" "CHR ''/'' \<notin> set d" using assms(1) by (simp_all add: q proper_name_def)
  have h: "hd (rel_text p) = hd c" "rel_text p \<noteq> []"
  proof -
    have "\<exists>ys. join ''/'' (c # cs) = c @ ys" by (cases cs) simp_all
    then obtain ys where "rel_text p = c @ ys" by (auto simp: p rel_text_def)
    then show "hd (rel_text p) = hd c" "rel_text p \<noteq> []" using c(1) by simp_all
  qed
  have "last (rel_text p) = last d"
  proof (cases "ds = []")
    case True
    then show ?thesis by (simp add: q rel_text_def)
  next
    case False
    then show ?thesis using d(1) by (simp add: q rel_text_snoc)
  qed
  then show "rel_text p \<noteq> []" "hd (rel_text p) \<noteq> CHR ''/''" "last (rel_text p) \<noteq> CHR ''/''"
    using h c d by - (blast, metis hd_in_set, metis last_in_set)
qed

lemma path_split_proper:
  assumes "list_all proper_name (p @ [c])"
  shows "path_split (rel_text (p @ [c])) = (rel_text p, c)"
proof -
  have c: "CHR ''/'' \<notin> set c" using assms by (simp add: proper_name_def)
  have tw: "takeWhile (\<lambda>x. x \<noteq> CHR ''/'') (rev c @ ys) = rev c @ takeWhile (\<lambda>x. x \<noteq> CHR ''/'') ys" for ys
    using c by (subst takeWhile_append2) auto
  have tw0: "takeWhile (\<lambda>x. x \<noteq> CHR ''/'') (rev c) = rev c" using tw [of "[]"] by simp
  show ?thesis
  proof (cases "p = []")
    case True
    then show ?thesis by (simp add: path_split_def rel_text_def tw0 del: takeWhile_eq_all_conv)
  next
    case False
    note l = rel_text_no_slash_end [of p]
    have "rstrip_char CHR ''/'' (rel_text p @ ''/'') = rel_text p"
      using l assms False by (cases "rel_text p" rule: rev_cases) (auto simp: rstrip_char_def)
    moreover have "\<not> list_all (\<lambda>x. x = CHR ''/'') (rel_text p)"
      using l assms False by (cases "rel_text p") auto
    ultimately show ?thesis
      using tw [of "''/'' @ rev (rel_text p)"] False by (simp add: path_split_def rel_text_snoc Let_def)
  qed
qed

lemma starts_with_slash: "starts_with s ''/'' \<longleftrightarrow> s \<noteq> [] \<and> hd s = CHR ''/''"
  by (cases s) (auto simp: starts_with_def)

lemma under_proper: "list_all proper_name p \<Longrightarrow> under base (rel_text p) = base @ p"
  using rel_text_no_slash_end [of p] comps_rel_text [of p]
  by (cases "p = []") (auto simp: under_def starts_with_slash rel_text_def comps_def)

lemma path_join_proper:
  "list_all proper_name p \<Longrightarrow> p \<noteq> [] \<Longrightarrow> proper_name c \<Longrightarrow> path_join (rel_text p) c = rel_text (p @ [c])"
proof -
  assume a: "list_all proper_name p" "p \<noteq> []" "proper_name c"
  have "\<not> starts_with c ''/''" using a(3) by (cases c) (auto simp: starts_with_def proper_name_def)
  moreover have "\<not> ends_with (rel_text p) ''/''"
    using rel_text_no_slash_end [OF a(1,2)] by (cases "rel_text p" rule: rev_cases) (auto simp: ends_with_def)
  ultimately show ?thesis using rel_text_no_slash_end [OF a(1,2)] by (simp add: path_join_def rel_text_snoc a(2))
qed

lemma rel_text_prefix_less: "p \<noteq> [] \<Longrightarrow> q \<noteq> [] \<Longrightarrow> rel_text p < rel_text (p @ q)"
proof -
  have l: "(xs::string) < xs @ y # ys" for xs y ys by (induction xs) auto
  assume "p \<noteq> []" "q \<noteq> []"
  then show ?thesis using l [of "rel_text p" "CHR ''/''" "rel_text q"] by (simp add: rel_text_append)
qed

end
