(* ===== verification/Image_Digest.thy ===== *)
theory Image_Digest
  imports Objects Host_Files
begin

text \<open>
  Content addressing and the two documents that tie an image together:
  \<open>modules/image-toolkit/imagekit/digest.py\<close> and \<open>manifest.py\<close>.  A byte string is a
  \<open>blob\<close>: \<open>Doc j\<close> is the canonical text (sorted keys, no spaces) of the JSON value \<open>j\<close>,
  \<open>Tar ms\<close> the GNU tar archive of the members \<open>ms\<close>, \<open>Gz level mtime b\<close> the gzip stream of \<open>b\<close> (with an
  empty file name and this time stamp), and \<open>Raw s\<close> every other byte string.  The two functions of the library that
  the format rests on are arguments: \<open>sha\<close> (\<open>hashlib.sha256(..).hexdigest()\<close>) and \<open>blen\<close>
  (\<open>len\<close> of the bytes).
\<close>

section \<open>Blobs and digests\<close>

datatype blob = Raw string | Doc json | Tar "tar_info list" | Gz nat int blob

type_synonym sha = "blob \<Rightarrow> string"

definition canonical_json :: "json \<Rightarrow> blob" where
  "canonical_json j = Doc j"

fun json_loads :: "blob \<Rightarrow> json res" where
  \<comment> \<open>\<open>json.loads\<close>; \<open>JSONDecodeError\<close> is a \<open>ValueError\<close>\<close>
  "json_loads (Doc j) = Inr j"
| "json_loads _ = Inl (ValueError ''Expecting value'')"

definition hex_digits :: string where
  "hex_digits = ''0123456789abcdef''"

definition sha_hex :: "sha \<Rightarrow> bool" where
  \<comment> \<open>what \<open>hexdigest()\<close> documents: 64 lower case hexadecimal digits\<close>
  "sha_hex sha = (\<forall>b. length (sha b) = 64 \<and> set (sha b) \<subseteq> set hex_digits)"

definition digest_of :: "sha \<Rightarrow> blob \<Rightarrow> string" where
  "digest_of sha b = ''sha256:'' @ sha b"

definition digest_path :: "string \<Rightarrow> (string \<times> string) res" where
  "digest_path dg =
     (case partition_char CHR '':'' dg of (algorithm, found, encoded) \<Rightarrow>
        if \<not> found then Inl (ValueError ''malformed digest'')
        else if algorithm \<noteq> ''sha256'' then Inl (ValueError ''unsupported digest algorithm'')
        else if length encoded \<noteq> 64 \<or> \<not> list_all (\<lambda>c. c \<in> set hex_digits) encoded
        then Inl (ValueError ''malformed sha256 digest'')
        else Inr (algorithm, encoded))"

lemma partition_char_iff:
  "partition_char c s = (a, True, b) \<longleftrightarrow> s = a @ c # b \<and> c \<notin> set a"
proof (induction s arbitrary: a)
  case (Cons x s)
  show ?case
  proof (cases a)
    case Nil
    then show ?thesis by (auto simp: partition_char_def)
  next
    case (Cons y ys)
    then show ?thesis using Cons.IH [of ys] by (auto simp: partition_char_def)
  qed
qed (simp add: partition_char_def)

lemma digest_path_Inr:
  "digest_path dg = Inr (alg, enc) \<longleftrightarrow>
     alg = ''sha256'' \<and> dg = ''sha256:'' @ enc \<and> length enc = 64 \<and> set enc \<subseteq> set hex_digits"
proof -
  obtain a f b where p: "partition_char CHR '':'' dg = (a, f, b)" by (metis prod_cases3)
  have "f \<and> a = ''sha256'' \<and> b = enc \<longleftrightarrow> dg = ''sha256:'' @ enc"
    using p partition_char_iff [of "CHR '':''" dg "''sha256''" enc] by auto
  then show ?thesis
    unfolding digest_path_def p by (auto simp: list_all_iff)
qed

lemma digest_path_error: "digest_path dg = Inl e \<Longrightarrow> \<exists>m. e = ValueError m"
  by (auto simp: digest_path_def split: prod.splits if_splits)

lemma digest_path_of: "sha_hex sha \<Longrightarrow> digest_path (digest_of sha b) = Inr (''sha256'', sha b)"
  by (simp add: digest_path_Inr sha_hex_def digest_of_def)

section \<open>Chain identities\<close>

fun chain_fold :: "sha \<Rightarrow> string \<Rightarrow> string list \<Rightarrow> string" where
  "chain_fold sha r [] = r"
| "chain_fold sha r (d # ds) = chain_fold sha (''sha256:'' @ sha (Raw (r @ '' '' @ d))) ds"

fun chain_id :: "sha \<Rightarrow> string list \<Rightarrow> string res" where
  "chain_id sha [] = Inl (ValueError ''chain_id requires at least one diff_id'')"
| "chain_id sha (d # ds) = Inr (chain_fold sha d ds)"

lemma chain_fold_append: "chain_fold sha r (xs @ ys) = chain_fold sha (chain_fold sha r xs) ys"
  by (induction xs arbitrary: r) simp_all

fun chain_preimages :: "sha \<Rightarrow> string \<Rightarrow> string list \<Rightarrow> string set" where
  \<comment> \<open>the texts that the fold hashes\<close>
  "chain_preimages sha r [] = {}"
| "chain_preimages sha r (d # ds) =
     insert (r @ '' '' @ d) (chain_preimages sha (''sha256:'' @ sha (Raw (r @ '' '' @ d))) ds)"

lemma chain_fold_inject:
  assumes "length xs = length ys" "list_all (\<lambda>d. CHR '' '' \<notin> set d) (xs @ ys)"
    and "chain_fold sha r xs = chain_fold sha s ys" "CHR '' '' \<notin> set r" "CHR '' '' \<notin> set s"
    and "\<And>b. CHR '' '' \<notin> set (sha b)"
    and "inj_on (\<lambda>t. sha (Raw t)) (chain_preimages sha r xs \<union> chain_preimages sha s ys)"
  shows "r = s \<and> xs = ys"
  using assms
proof (induction xs ys arbitrary: r s rule: list_induct2)
  case (Cons x xs y ys)
  let ?r = "''sha256:'' @ sha (Raw (r @ '' '' @ x))" and ?s = "''sha256:'' @ sha (Raw (s @ '' '' @ y))"
  have "?r = ?s \<and> xs = ys"
    by (rule Cons.IH) (use Cons.prems in \<open>auto intro: inj_on_subset\<close>)
  moreover from this have "r @ CHR '' '' # x = s @ CHR '' '' # y"
    using inj_onD [OF Cons.prems(6), of "r @ '' '' @ x" "s @ '' '' @ y"] by simp
  then have "(r, True, x) = (s, True, y)"
    using Cons.prems(3,4) by (metis partition_char_append)
  ultimately show ?case by simp
qed simp

section \<open>Descriptors\<close>

record descriptor =
  d_media :: string
  d_digest :: string
  d_size :: int
  d_annotations :: dict

definition mk_descriptor :: "string \<Rightarrow> string \<Rightarrow> int \<Rightarrow> descriptor" where
  "mk_descriptor m dg n = \<lparr>d_media = m, d_digest = dg, d_size = n, d_annotations = fmempty\<rparr>"

definition upd_if :: "bool \<Rightarrow> string \<Rightarrow> json \<Rightarrow> dict \<Rightarrow> dict" where
  \<comment> \<open>\<open>if c: out[k] = v\<close>\<close>
  "upd_if c k v d = (if c then fmupd k v d else d)"

lemma upd_if_simps [simp]:
  "jitem (upd_if c k v d) k' = (if c \<and> k = k' then Inr v else jitem d k')"
  "dget (upd_if c k v d) k' dflt = (if c \<and> k = k' then v else dget d k' dflt)"
  by (simp_all add: upd_if_def jitem_def dget_def)

fun dict_of :: "json \<Rightarrow> dict res" where
  \<comment> \<open>\<open>dict(v)\<close> on a dictionary or an empty iterable\<close>
  "dict_of (JObj d) = Inr d"
| "dict_of (JList []) = Inr fmempty"
| "dict_of (JStr []) = Inr fmempty"
| "dict_of _ = Inl (TypeError ''object is not iterable'')"

fun list_of :: "json \<Rightarrow> json list res" where
  \<comment> \<open>iterating over a JSON list\<close>
  "list_of (JList xs) = Inr xs"
| "list_of _ = Inl (TypeError ''object is not iterable'')"

fun obj_of :: "json \<Rightarrow> dict res" where
  \<comment> \<open>subscripting a value with a string key\<close>
  "obj_of (JObj d) = Inr d"
| "obj_of _ = Inl (TypeError ''indices must be integers'')"

definition descriptor_to_json :: "descriptor \<Rightarrow> json" where
  "descriptor_to_json d = JObj
     (upd_if (d_annotations d \<noteq> fmempty) ''annotations'' (JObj (d_annotations d)) (fmap_of_list
       [(''mediaType'', JStr (d_media d)), (''digest'', JStr (d_digest d)),
        (''size'', JNum (of_int (d_size d)))]))"

definition descriptor_from_json :: "json \<Rightarrow> descriptor res" where
  "descriptor_from_json j =
     ebind (obj_of j) (\<lambda>d.
     ebind (jitem d ''mediaType'') (\<lambda>v. ebind (jstr v) (\<lambda>mt.
     ebind (jitem d ''digest'') (\<lambda>v. ebind (jstr v) (\<lambda>dg.
     ebind (jitem d ''size'') (\<lambda>v. ebind (py_int v) (\<lambda>n.
     ebind (dict_of (dget d ''annotations'' (JObj fmempty))) (\<lambda>an.
     Inr \<lparr>d_media = mt, d_digest = dg, d_size = n, d_annotations = an\<rparr>))))))))"

lemma descriptor_roundtrip [simp]: "descriptor_from_json (descriptor_to_json d) = Inr d"
  by (simp add: descriptor_from_json_def descriptor_to_json_def jstr_def)

section \<open>Manifests\<close>

definition MEDIA_MANIFEST :: string where
  "MEDIA_MANIFEST = ''application/vnd.oci.image.manifest.v1+json''"

definition MEDIA_INDEX :: string where
  "MEDIA_INDEX = ''application/vnd.oci.image.index.v1+json''"

definition ANNOTATION_REF :: string where
  "ANNOTATION_REF = ''org.opencontainers.image.ref.name''"

record manifest =
  mf_config :: descriptor
  mf_layers :: "descriptor list"
  mf_annotations :: dict
  mf_subject :: "descriptor option"

definition manifest_to_json :: "manifest \<Rightarrow> json" where
  "manifest_to_json m = JObj
     (upd_if (mf_annotations m \<noteq> fmempty) ''annotations'' (JObj (mf_annotations m))
       (upd_if (mf_subject m \<noteq> None) ''subject'' (descriptor_to_json (the (mf_subject m))) (fmap_of_list
         [(''schemaVersion'', JNum 2), (''mediaType'', JStr MEDIA_MANIFEST),
          (''config'', descriptor_to_json (mf_config m)),
          (''layers'', JList (map descriptor_to_json (mf_layers m)))])))"

definition manifest_serialise :: "sha \<Rightarrow> (blob \<Rightarrow> nat) \<Rightarrow> manifest \<Rightarrow> blob \<times> descriptor" where
  "manifest_serialise sha blen m =
     (let b = canonical_json (manifest_to_json m)
      in (b, mk_descriptor MEDIA_MANIFEST (digest_of sha b) (int (blen b))))"

definition total_layer_bytes :: "manifest \<Rightarrow> int" where
  "total_layer_bytes m = sum_list (map d_size (mf_layers m))"

definition manifest_from_json :: "json \<Rightarrow> manifest res" where
  "manifest_from_json j =
     ebind (obj_of j) (\<lambda>d.
     ebind (jitem d ''config'') (\<lambda>v. ebind (descriptor_from_json v) (\<lambda>cf.
     ebind (list_of (dget d ''layers'' (JList []))) (\<lambda>ls. ebind (emap descriptor_from_json ls) (\<lambda>lds.
     ebind (dict_of (dget d ''annotations'' (JObj fmempty))) (\<lambda>an.
     ebind (if truthy (dget d ''subject'' JNull)
            then ebind (descriptor_from_json (dget d ''subject'' JNull)) (\<lambda>x. Inr (Some x))
            else Inr None) (\<lambda>sj.
     Inr \<lparr>mf_config = cf, mf_layers = lds, mf_annotations = an, mf_subject = sj\<rparr>)))))))"

lemma emap_roundtrip: "(\<And>x. f (g x) = Inr x) \<Longrightarrow> emap f (map g xs) = Inr xs"
  by (induction xs) simp_all

lemma descriptor_json_truthy [simp]: "truthy (descriptor_to_json d)"
proof -
  have "\<not> fmdom (upd_if c k v (fmap_of_list [(''mediaType'', x), y, z])) = {||}" for c k v x y z
    by (cases y; cases z) (auto simp: upd_if_def)
  then show ?thesis unfolding descriptor_to_json_def truthy.simps by (metis fmdom_empty)
qed

lemma manifest_roundtrip [simp]: "manifest_from_json (manifest_to_json m) = Inr m"
proof (cases "mf_subject m")
  case None
  then show ?thesis by (simp add: manifest_from_json_def manifest_to_json_def emap_roundtrip)
next
  case (Some d)
  then show ?thesis by (simp add: manifest_from_json_def manifest_to_json_def emap_roundtrip)
qed

section \<open>The index\<close>

record img_index =
  ix_manifests :: "descriptor list"
  ix_annotations :: dict

definition index_to_json :: "img_index \<Rightarrow> json" where
  "index_to_json x = JObj
     (upd_if (ix_annotations x \<noteq> fmempty) ''annotations'' (JObj (ix_annotations x)) (fmap_of_list
       [(''schemaVersion'', JNum 2), (''mediaType'', JStr MEDIA_INDEX),
        (''manifests'', JList (map descriptor_to_json (ix_manifests x)))]))"

definition index_serialise :: "sha \<Rightarrow> (blob \<Rightarrow> nat) \<Rightarrow> img_index \<Rightarrow> blob \<times> descriptor" where
  "index_serialise sha blen x =
     (let b = canonical_json (index_to_json x)
      in (b, mk_descriptor MEDIA_INDEX (digest_of sha b) (int (blen b))))"

definition index_from_json :: "json \<Rightarrow> img_index res" where
  "index_from_json j =
     ebind (obj_of j) (\<lambda>d.
     ebind (list_of (dget d ''manifests'' (JList []))) (\<lambda>ms. ebind (emap descriptor_from_json ms) (\<lambda>mds.
     ebind (dict_of (dget d ''annotations'' (JObj fmempty))) (\<lambda>an.
     Inr \<lparr>ix_manifests = mds, ix_annotations = an\<rparr>))))"

lemma index_roundtrip [simp]: "index_from_json (index_to_json x) = Inr x"
  by (simp add: index_from_json_def index_to_json_def emap_roundtrip)

definition tagged_as :: "string \<Rightarrow> descriptor \<Rightarrow> bool" where
  "tagged_as ref d = (fmlookup (d_annotations d) ANNOTATION_REF = Some (JStr ref))"

definition index_find :: "img_index \<Rightarrow> string \<Rightarrow> descriptor option" where
  "index_find x ref = find (tagged_as ref) (ix_manifests x)"

fun replace_tagged :: "string \<Rightarrow> descriptor \<Rightarrow> descriptor list \<Rightarrow> descriptor list" where
  \<comment> \<open>the loop of \<open>Index.upsert\<close>: the first binding of the tag is replaced, else appended\<close>
  "replace_tagged ref t [] = [t]"
| "replace_tagged ref t (d # ds) = (if tagged_as ref d then t # ds else d # replace_tagged ref t ds)"

definition index_upsert :: "string \<Rightarrow> descriptor \<Rightarrow> img_index \<Rightarrow> img_index" where
  "index_upsert ref d x =
     (let t = d\<lparr>d_annotations := fmupd ANNOTATION_REF (JStr ref) (d_annotations d)\<rparr>
      in x\<lparr>ix_manifests := replace_tagged ref t (ix_manifests x)\<rparr>)"

text \<open>Every tag is bound at most once.\<close>

definition tags_unique :: "img_index \<Rightarrow> bool" where
  "tags_unique x \<longleftrightarrow> (\<forall>ref. length (filter (tagged_as ref) (ix_manifests x)) \<le> 1)"

lemma tagged_as_fun: "tagged_as a d \<Longrightarrow> tagged_as b d \<longleftrightarrow> a = b"
  by (auto simp: tagged_as_def)

lemma replace_tagged_find:
  "tagged_as ref t \<Longrightarrow>
     find (tagged_as r) (replace_tagged ref t ds) = (if r = ref then Some t else find (tagged_as r) ds)"
  by (induction ds) (auto simp: tagged_as_fun)

lemma replace_tagged_count:
  "tagged_as ref t \<Longrightarrow>
     length (filter (tagged_as r) (replace_tagged ref t ds)) =
       (if r = ref then max 1 (length (filter (tagged_as r) ds)) else length (filter (tagged_as r) ds))"
proof (induction ds)
  case (Cons d ds)
  then show ?case by (cases "tagged_as ref d") (auto simp: tagged_as_fun)
qed (auto simp: tagged_as_fun)

lemma upsert_tag [simp]:
  "tagged_as ref (d\<lparr>d_annotations := fmupd ANNOTATION_REF (JStr ref) (d_annotations d)\<rparr>)"
  by (simp add: tagged_as_def)

lemma index_find_upsert [simp]:
  "index_find (index_upsert ref d x) r =
     (if r = ref then Some (d\<lparr>d_annotations := fmupd ANNOTATION_REF (JStr ref) (d_annotations d)\<rparr>)
      else index_find x r)"
  by (simp add: index_find_def index_upsert_def Let_def replace_tagged_find)

lemma upsert_tags_unique: "tags_unique x \<Longrightarrow> tags_unique (index_upsert ref d x)"
  by (auto simp: tags_unique_def index_upsert_def Let_def replace_tagged_count)

end
