(* ===== verification/Image_Config.thy ===== *)
theory Image_Config
  imports Image_Digest
begin

text \<open>
  The image configuration, \<open>modules/image-toolkit/imagekit/config.py\<close>: the process
  specification and the ordered identity of the file system, with its JSON form.  Environment
  and labels are dictionaries: the environment is an association list (its order does not
  matter to Python's equality; the text form sorts it), the labels a finite map.  A field that
  the dataclass declares as a string has that type, so a JSON value of another type is a
  \<open>TypeError\<close>.  Floats are exact rationals.
\<close>

section \<open>Records\<close>

record healthcheck =
  hc_test :: "string list"
  hc_interval :: rat
  hc_timeout :: rat
  hc_start_period :: rat
  hc_retries :: int

record history =
  he_created_by :: string
  he_empty_layer :: bool
  he_created :: string
  he_comment :: string

record image_config =
  ic_env :: "(string \<times> string) list"
  ic_entrypoint :: "string list"
  ic_cmd :: "string list"
  ic_user :: string
  ic_working_dir :: string
  ic_exposed_ports :: "string list"
  ic_labels :: dict
  ic_healthcheck :: "healthcheck option"
  ic_stop_signal :: string
  ic_architecture :: string
  ic_os_name :: string
  ic_created :: string
  ic_diff_ids :: "string list"
  ic_history :: "history list"

definition MEDIA_CONFIG :: string where
  "MEDIA_CONFIG = ''application/vnd.oci.image.config.v1+json''"

definition EPOCH :: string where
  "EPOCH = ''1970-01-01T00:00:00Z''"

definition new_config :: image_config where
  "new_config = \<lparr>ic_env = [], ic_entrypoint = [], ic_cmd = [], ic_user = [], ic_working_dir = ''/'',
     ic_exposed_ports = [], ic_labels = fmempty, ic_healthcheck = None, ic_stop_signal = [],
     ic_architecture = ''amd64'', ic_os_name = ''linux'', ic_created = EPOCH, ic_diff_ids = [],
     ic_history = []\<rparr>"

definition history_entry :: "string \<Rightarrow> bool \<Rightarrow> history" where
  \<comment> \<open>\<open>HistoryEntry(created_by=.., empty_layer=..)\<close>\<close>
  "history_entry txt nolayer =
     \<lparr>he_created_by = txt, he_empty_layer = nolayer, he_created = EPOCH, he_comment = []\<rparr>"

definition runs_as_root :: "image_config \<Rightarrow> bool" where
  "runs_as_root c = (ic_user c \<in> {[], ''0'', ''root'', ''0:0'', ''root:root''})"

definition config_copy :: "image_config \<Rightarrow> image_config" where
  \<comment> \<open>the value of the copy; values of the model are never shared\<close>
  "config_copy c = \<lparr>ic_env = ic_env c, ic_entrypoint = ic_entrypoint c, ic_cmd = ic_cmd c,
     ic_user = ic_user c, ic_working_dir = ic_working_dir c, ic_exposed_ports = ic_exposed_ports c,
     ic_labels = ic_labels c, ic_healthcheck = ic_healthcheck c, ic_stop_signal = ic_stop_signal c,
     ic_architecture = ic_architecture c, ic_os_name = ic_os_name c, ic_created = ic_created c,
     ic_diff_ids = ic_diff_ids c, ic_history = ic_history c\<rparr>"

section \<open>JSON form\<close>

definition nanos :: "rat \<Rightarrow> json" where
  "nanos r = JNum (of_int (trunc (r * 1000000000)))"

definition healthcheck_to_json :: "healthcheck \<Rightarrow> json" where
  "healthcheck_to_json h = JObj (fmap_of_list
     [(''Test'', JList (map JStr (hc_test h))),
      (''Interval'', nanos (hc_interval h)),
      (''Timeout'', nanos (hc_timeout h)),
      (''StartPeriod'', nanos (hc_start_period h)),
      (''Retries'', JNum (of_int (hc_retries h)))])"

fun secs :: "json \<Rightarrow> rat res" where
  \<comment> \<open>\<open>v / 1e9\<close>\<close>
  "secs (JNum r) = Inr (r / 1000000000)"
| "secs (JBool b) = Inr (of_bool b / 1000000000)"
| "secs _ = Inl (TypeError ''unsupported operand type(s) for /'')"

definition healthcheck_from_json :: "json \<Rightarrow> healthcheck res" where
  "healthcheck_from_json j =
     ebind (obj_of j) (\<lambda>d.
     ebind (jitem d ''Test'') (\<lambda>v. ebind (list_of v) (\<lambda>vs. ebind (emap jstr vs) (\<lambda>test.
     ebind (secs (dget d ''Interval'' (JNum 30000000000))) (\<lambda>iv.
     ebind (secs (dget d ''Timeout'' (JNum 5000000000))) (\<lambda>tm.
     ebind (secs (dget d ''StartPeriod'' (JNum 0))) (\<lambda>sp.
     ebind (py_int (dget d ''Retries'' (JNum 3))) (\<lambda>rt.
     Inr \<lparr>hc_test = test, hc_interval = iv, hc_timeout = tm, hc_start_period = sp,
          hc_retries = rt\<rparr>))))))))"

definition history_to_json :: "history \<Rightarrow> json" where
  "history_to_json h = JObj
     (upd_if (he_comment h \<noteq> []) ''comment'' (JStr (he_comment h))
       (upd_if (he_empty_layer h) ''empty_layer'' (JBool True)
         (fmap_of_list [(''created'', JStr (he_created h)), (''created_by'', JStr (he_created_by h))])))"

definition history_from_json :: "json \<Rightarrow> history res" where
  "history_from_json j =
     ebind (py_dict j) (\<lambda>h.
     ebind (jstr (dget h ''created_by'' (JStr []))) (\<lambda>txt.
     ebind (jstr (dget h ''created'' (JStr EPOCH))) (\<lambda>cr.
     ebind (jstr (dget h ''comment'' (JStr []))) (\<lambda>cm.
     Inr \<lparr>he_created_by = txt, he_empty_layer = truthy (dget h ''empty_layer'' (JBool False)),
          he_created = cr, he_comment = cm\<rparr>))))"

definition config_to_json :: "image_config \<Rightarrow> json" where
  "config_to_json c =
     (let process =
        upd_if (ic_stop_signal c \<noteq> []) ''StopSignal'' (JStr (ic_stop_signal c))
        (upd_if (ic_healthcheck c \<noteq> None) ''Healthcheck'' (healthcheck_to_json (the (ic_healthcheck c)))
        (upd_if (ic_labels c \<noteq> fmempty) ''Labels'' (JObj (ic_labels c))
        (upd_if (ic_exposed_ports c \<noteq> []) ''ExposedPorts''
           (JObj (fmap_of_list (map (\<lambda>p. (p, JObj fmempty)) (sort (ic_exposed_ports c)))))
        (upd_if (ic_user c \<noteq> []) ''User'' (JStr (ic_user c))
        (upd_if (ic_cmd c \<noteq> []) ''Cmd'' (JList (map JStr (ic_cmd c)))
        (upd_if (ic_entrypoint c \<noteq> []) ''Entrypoint'' (JList (map JStr (ic_entrypoint c)))
        (fmap_of_list
          [(''Env'', JList (map (\<lambda>(k, v). JStr (k @ ''='' @ v)) (sort (ic_env c)))),
           (''WorkingDir'', JStr (ic_working_dir c))])))))))
      in JObj (fmap_of_list
        [(''created'', JStr (ic_created c)), (''architecture'', JStr (ic_architecture c)),
         (''os'', JStr (ic_os_name c)), (''config'', JObj process),
         (''rootfs'', JObj (fmap_of_list
            [(''type'', JStr ''layers''), (''diff_ids'', JList (map JStr (ic_diff_ids c)))])),
         (''history'', JList (map history_to_json (ic_history c)))]))"

definition config_serialise :: "sha \<Rightarrow> (blob \<Rightarrow> nat) \<Rightarrow> image_config \<Rightarrow> blob \<times> descriptor" where
  "config_serialise sha blen c =
     (let b = canonical_json (config_to_json c)
      in (b, mk_descriptor MEDIA_CONFIG (digest_of sha b) (int (blen b))))"

definition or_list :: "json \<Rightarrow> json" where
  \<comment> \<open>\<open>v or []\<close>\<close>
  "or_list v = (if truthy v then v else JList [])"

definition str_list :: "json \<Rightarrow> string list res" where
  "str_list v = ebind (list_of v) (emap jstr)"

fun env_from :: "json list \<Rightarrow> (string \<times> string) list \<Rightarrow> (string \<times> string) list res" where
  \<comment> \<open>the loop over \<open>Env\<close> in \<open>ImageConfig.from_json\<close>\<close>
  "env_from [] env = Inr env"
| "env_from (v # vs) env =
     ebind (jstr v) (\<lambda>s. case partition_char CHR ''='' s of (key, _, val) \<Rightarrow>
       env_from vs (AList.update key val env))"

definition config_from_json :: "json \<Rightarrow> image_config res" where
  "config_from_json j =
     ebind (py_dict j) (\<lambda>ob.
     ebind (py_dict (or_empty (dget ob ''config'' (JObj fmempty)))) (\<lambda>p.
     ebind (list_of (or_list (dget p ''Env'' (JList [])))) (\<lambda>items. ebind (env_from items []) (\<lambda>env.
     ebind (str_list (or_list (dget p ''Entrypoint'' (JList [])))) (\<lambda>ep.
     ebind (str_list (or_list (dget p ''Cmd'' (JList [])))) (\<lambda>cmd.
     ebind (jstr (dget p ''User'' (JStr []))) (\<lambda>user.
     ebind (jstr (let w = dget p ''WorkingDir'' (JStr ''/'') in if truthy w then w else JStr ''/'')) (\<lambda>wd.
     ebind (py_dict (or_empty (dget p ''ExposedPorts'' (JObj fmempty)))) (\<lambda>ports.
     ebind (dict_of (or_empty (dget p ''Labels'' (JObj fmempty)))) (\<lambda>labels.
     ebind (let h = dget p ''Healthcheck'' JNull in
            if truthy h then ebind (healthcheck_from_json h) (\<lambda>x. Inr (Some x)) else Inr None) (\<lambda>hc.
     ebind (jstr (dget p ''StopSignal'' (JStr []))) (\<lambda>sig.
     ebind (jstr (dget ob ''architecture'' (JStr ''amd64''))) (\<lambda>arch.
     ebind (jstr (dget ob ''os'' (JStr ''linux''))) (\<lambda>os.
     ebind (jstr (dget ob ''created'' (JStr EPOCH))) (\<lambda>cr.
     ebind (py_dict (dget ob ''rootfs'' (JObj fmempty))) (\<lambda>rf.
     ebind (str_list (dget rf ''diff_ids'' (JList []))) (\<lambda>diffs.
     ebind (list_of (dget ob ''history'' (JList []))) (\<lambda>hs. ebind (emap history_from_json hs) (\<lambda>hist.
     Inr \<lparr>ic_env = env, ic_entrypoint = ep, ic_cmd = cmd, ic_user = user, ic_working_dir = wd,
          ic_exposed_ports = sorted_list_of_fset (fmdom ports), ic_labels = labels,
          ic_healthcheck = hc, ic_stop_signal = sig, ic_architecture = arch, ic_os_name = os,
          ic_created = cr, ic_diff_ids = diffs, ic_history = hist\<rparr>)))))))))))))))))))"

section \<open>Round trips\<close>

lemma str_list_strs [simp]: "str_list (JList (map JStr xs)) = Inr xs"
  by (simp add: str_list_def emap_roundtrip jstr_def)

lemma or_list_map [simp]: "or_list (JList xs) = JList xs"
  by (simp add: or_list_def)

lemma history_roundtrip [simp]: "history_from_json (history_to_json h) = Inr h"
  by (cases h) (auto simp: history_from_json_def history_to_json_def jstr_def dget_def upd_if_def)

text \<open>A duration that is a whole number of nanoseconds.\<close>

definition whole_nanos :: "rat \<Rightarrow> bool" where
  "whole_nanos r = (of_int (trunc (r * 1000000000)) = r * 1000000000)"

definition healthcheck_exact :: "healthcheck \<Rightarrow> bool" where
  "healthcheck_exact h =
     (whole_nanos (hc_interval h) \<and> whole_nanos (hc_timeout h) \<and> whole_nanos (hc_start_period h))"

lemma secs_nanos: "whole_nanos r \<Longrightarrow> secs (nanos r) = Inr r"
  by (simp add: nanos_def whole_nanos_def)

lemma healthcheck_roundtrip:
  "healthcheck_exact h \<Longrightarrow> healthcheck_from_json (healthcheck_to_json h) = Inr h"
  by (simp add: healthcheck_from_json_def healthcheck_to_json_def healthcheck_exact_def
      secs_nanos emap_roundtrip jstr_def)

lemma healthcheck_json_truthy [simp]: "truthy (healthcheck_to_json h)"
proof -
  have "\<not> fmdom (fmap_of_list [(''Test'', a), (''Interval'', b), (''Timeout'', c), (''StartPeriod'', d),
      (''Retries'', e)]) = {||}" for a b c d e
    by simp
  then show ?thesis unfolding healthcheck_to_json_def truthy.simps by (metis fmdom_empty)
qed

lemma env_from_pairs:
  assumes "distinct (map fst (env @ kvs))" "\<forall>(k, v) \<in> set kvs. CHR ''='' \<notin> set k"
  shows "env_from (map (\<lambda>(k, v). JStr (k @ ''='' @ v)) kvs) env = Inr (env @ kvs)"
  using assms
proof (induction kvs arbitrary: env)
  case (Cons p kvs)
  obtain k v where p: "p = (k, v)" by (cases p)
  have new: "AList.update k v env = env @ [(k, v)]" if "k \<notin> fst ` set env" for env :: "(string \<times> string) list"
    using that by (induction env) auto
  have "k \<notin> fst ` set env" using Cons.prems(1) p by auto
  moreover have "partition_char CHR ''='' (k @ CHR ''='' # v) = (k, True, v)"
    using Cons.prems(2) p by (simp add: partition_char_append)
  ultimately show ?case using Cons.IH [of "env @ [(k, v)]"] Cons.prems p
    by (simp add: jstr_def new)
qed simp

definition config_wf :: "image_config \<Rightarrow> bool" where
  "config_wf c = (distinct (map fst (ic_env c)) \<and> list_all (\<lambda>(k, v). CHR ''='' \<notin> set k) (ic_env c)
     \<and> ic_working_dir c \<noteq> [] \<and> pred_option healthcheck_exact (ic_healthcheck c))"

lemma env_parse:
  "config_wf c \<Longrightarrow>
     env_from (map (\<lambda>(k, v). JStr (k @ CHR ''='' # v)) (sort (ic_env c))) [] = Inr (sort (ic_env c))"
  using env_from_pairs [of "[]" "sort (ic_env c)"]
  by (auto simp: config_wf_def distinct_map list_all_iff split: prod.splits)

lemma ports_dom:
  "sorted_list_of_fset (fmdom (fmap_of_list (map (\<lambda>p. (p, JObj fmempty)) xs))) = sorted_list_of_set (set xs)"
  by (simp add: sorted_list_of_fset.rep_eq fset_of_list.rep_eq comp_def)

lemma omitted_defaults [simp]:
  "(if s \<noteq> [] then JStr s else JStr []) = JStr s"
  "(if xs \<noteq> [] then JList (map f xs) else JList []) = JList (map f xs)"
  "(if d \<noteq> fmempty then JObj d else JObj fmempty) = JObj d"
  "(if xs \<noteq> [] then JObj (fmap_of_list (map h (sort xs))) else JObj fmempty) = JObj (fmap_of_list (map h (sort xs)))"
  by auto

lemma config_roundtrip_aux:
  assumes "config_wf c"
  shows "config_from_json (config_to_json c) =
    Inr (c\<lparr>ic_env := sort (ic_env c), ic_exposed_ports := sorted_list_of_set (set (ic_exposed_ports c))\<rparr>)"
proof -
  have hc: "pred_option healthcheck_exact (ic_healthcheck c)" and wd: "ic_working_dir c \<noteq> []"
    using assms by (auto simp: config_wf_def)
  show ?thesis
  proof (cases "ic_healthcheck c")
    case None
    with env_parse [OF assms] wd show ?thesis
      unfolding config_from_json_def config_to_json_def Let_def
      by (simp add: emap_roundtrip ports_dom jstr_def del: fmdom_fmap_of_list cong: if_cong split del: if_split)
  next
    case (Some h)
    with hc have "healthcheck_from_json (healthcheck_to_json h) = Inr h"
      by (simp add: healthcheck_roundtrip)
    with Some env_parse [OF assms] wd show ?thesis
      unfolding config_from_json_def config_to_json_def Let_def
      by (simp add: emap_roundtrip ports_dom jstr_def del: fmdom_fmap_of_list cong: if_cong split del: if_split)
  qed
qed

text \<open>A configuration whose environment names contain no equals sign and whose healthcheck
  durations are whole nanoseconds is read back from its JSON form as the same configuration; the
  environment comes back sorted and the exposed ports sorted without repetitions.\<close>

theorem config_json_roundtrip:
  assumes "config_wf c"
  shows "config_from_json (config_to_json c) =
    Inr (c\<lparr>ic_env := sort (ic_env c), ic_exposed_ports := sorted_list_of_set (set (ic_exposed_ports c))\<rparr>)"
  by (rule config_roundtrip_aux) (rule assms)

definition demo_config :: image_config where
  "demo_config = new_config\<lparr>ic_env := [(''PATH'', ''/bin''), (''A'', ''x=y'')], ic_cmd := [''serve''],
     ic_exposed_ports := [''80/tcp'', ''80/tcp''],
     ic_healthcheck := Some \<lparr>hc_test = [''CMD'', ''true''], hc_interval = 1 / 2, hc_timeout = 5,
       hc_start_period = 0, hc_retries = 3\<rparr>\<rparr>"

theorem config_json_roundtrip_witness:
  "config_from_json (config_to_json demo_config) =
     Inr (demo_config\<lparr>ic_env := [(''A'', ''x=y''), (''PATH'', ''/bin'')], ic_exposed_ports := [''80/tcp'']\<rparr>)"
proof -
  have w: "config_wf demo_config"
    by (simp add: config_wf_def demo_config_def new_config_def healthcheck_exact_def whole_nanos_def)
  have "sort (ic_env demo_config) = [(''A'', ''x=y''), (''PATH'', ''/bin'')]"
    by (simp add: demo_config_def new_config_def)
  moreover have "sorted_list_of_set (set (ic_exposed_ports demo_config)) = [''80/tcp'']"
    by (simp add: demo_config_def)
  ultimately show ?thesis using config_json_roundtrip [OF w] by simp
qed

end
