(* ===== verification/Image_Store.thy ===== *)
theory Image_Store
  imports Image_Config
begin

text \<open>
  The OCI image layout and the transfer between two of them,
  \<open>modules/image-toolkit/imagekit/store.py\<close>: the directory \<open>blobs/sha256\<close> is a finite map
  from the encoded digest to the bytes, and \<open>index.json\<close> is kept as the JSON value it holds.
  Each file is replaced atomically, so a write is one update of the state.
\<close>

section \<open>The store\<close>

record img_store =
  is_blobs :: "(string, blob) fmap"
  is_index :: json

definition open_store :: "(string, blob) fmap \<Rightarrow> json option \<Rightarrow> img_store" where
  \<comment> \<open>\<open>ImageStore.__init__\<close>: a missing index file is created empty\<close>
  "open_store bs ix = \<lparr>is_blobs = bs,
     is_index = (case ix of Some j \<Rightarrow> j
                 | None \<Rightarrow> index_to_json \<lparr>ix_manifests = [], ix_annotations = fmempty\<rparr>)\<rparr>"

definition blob_path :: "string \<Rightarrow> string res" where
  "blob_path dg = ebind (digest_path dg) (\<lambda>(_, encoded). Inr encoded)"

definition has_blob :: "img_store \<Rightarrow> string \<Rightarrow> bool res" where
  "has_blob st dg = ebind (blob_path dg) (\<lambda>p. Inr (fmlookup (is_blobs st) p \<noteq> None))"

definition blob_size :: "(blob \<Rightarrow> nat) \<Rightarrow> img_store \<Rightarrow> string \<Rightarrow> nat res" where
  "blob_size blen st dg = ebind (blob_path dg) (\<lambda>p.
     case fmlookup (is_blobs st) p of None \<Rightarrow> Inl (FileNotFoundError p) | Some b \<Rightarrow> Inr (blen b))"

definition put_blob :: "sha \<Rightarrow> (blob \<Rightarrow> nat) \<Rightarrow> blob \<Rightarrow> (descriptor, img_store) act" where
  "put_blob sha blen b st =
     (let dg = digest_of sha b in
      case blob_path dg of
        Inl e \<Rightarrow> (Inl e, st)
      | Inr p \<Rightarrow>
          (Inr (mk_descriptor ''application/octet-stream'' dg (int (blen b))),
           if fmlookup (is_blobs st) p = None then st\<lparr>is_blobs := fmupd p b (is_blobs st)\<rparr> else st))"

definition get_blob :: "sha \<Rightarrow> img_store \<Rightarrow> string \<Rightarrow> blob res" where
  "get_blob sha st dg = ebind (blob_path dg) (\<lambda>p.
     case fmlookup (is_blobs st) p of
       None \<Rightarrow> Inl (FileNotFoundError p)
     | Some b \<Rightarrow> if digest_of sha b \<noteq> dg then Inl (ValueError ''blob failed digest verification'') else Inr b)"

definition read_index :: "img_store \<Rightarrow> img_index res" where
  "read_index st = index_from_json (is_index st)"

definition write_index :: "img_index \<Rightarrow> img_store \<Rightarrow> img_store" where
  "write_index x st = st\<lparr>is_index := index_to_json x\<rparr>"

definition image_tags :: "img_store \<Rightarrow> string list res" where
  "image_tags st = ebind (read_index st) (\<lambda>x.
     ebind (emap (\<lambda>d. jstr (the (fmlookup (d_annotations d) ANNOTATION_REF)))
       (filter (\<lambda>d. fmlookup (d_annotations d) ANNOTATION_REF \<noteq> None) (ix_manifests x))) (\<lambda>ts.
     Inr (sort ts)))"

section \<open>Images\<close>

fun check_layers :: "img_store \<Rightarrow> descriptor list \<Rightarrow> unit res" where
  "check_layers st [] = Inr ()"
| "check_layers st (l # ls) = ebind (has_blob st (d_digest l)) (\<lambda>ok.
     if ok then check_layers st ls else Inl (ValueError ''layer missing; push blobs before the manifest''))"

definition bind_tag :: "string \<Rightarrow> descriptor \<Rightarrow> (unit, img_store) act" where
  \<comment> \<open>read the index, \<open>upsert\<close>, write it back\<close>
  "bind_tag ref d = abind (\<lambda>st. (read_index st, st)) (\<lambda>x st. (Inr (), write_index (index_upsert ref d x) st))"

definition put_image :: "sha \<Rightarrow> (blob \<Rightarrow> nat) \<Rightarrow> string \<Rightarrow> manifest \<Rightarrow> (descriptor, img_store) act" where
  "put_image sha blen ref m =
     abind (\<lambda>st. (check_layers st (mf_layers m), st)) (\<lambda>_.
     abind (\<lambda>st. (has_blob st (d_digest (mf_config m)), st)) (\<lambda>ok.
     if \<not> ok then alift (Inl (ValueError ''config missing''))
     else (case manifest_serialise sha blen m of (b, d) \<Rightarrow>
       abind (put_blob sha blen b) (\<lambda>_. abind (bind_tag ref d) (\<lambda>_. aret d)))))"

definition load_manifest :: "sha \<Rightarrow> img_store \<Rightarrow> string \<Rightarrow> manifest res" where
  "load_manifest sha st dg = ebind (get_blob sha st dg) (\<lambda>b. ebind (json_loads b) manifest_from_json)"

definition get_manifest :: "sha \<Rightarrow> img_store \<Rightarrow> string \<Rightarrow> manifest res" where
  "get_manifest sha st ref =
     ebind (read_index st) (\<lambda>x.
     case index_find x ref of
       Some d \<Rightarrow> load_manifest sha st (d_digest d)
     | None \<Rightarrow>
         ebind (if starts_with ref ''sha256:'' then has_blob st ref else Inr False) (\<lambda>pinned.
         if pinned then load_manifest sha st ref
         else ebind (image_tags st) (\<lambda>_. Inl (KeyError ref))))"

definition get_config :: "sha \<Rightarrow> img_store \<Rightarrow> string \<Rightarrow> image_config res" where
  "get_config sha st ref =
     ebind (get_manifest sha st ref) (\<lambda>m.
     ebind (get_blob sha st (d_digest (mf_config m))) (\<lambda>b. ebind (json_loads b) config_from_json))"

definition image_size :: "sha \<Rightarrow> img_store \<Rightarrow> string \<Rightarrow> int res" where
  "image_size sha st ref =
     ebind (get_manifest sha st ref) (\<lambda>m. Inr (total_layer_bytes m + d_size (mf_config m)))"

section \<open>Transfer\<close>

record transfer =
  ts_blobs_sent :: nat
  ts_blobs_skipped :: nat
  ts_bytes_sent :: int
  ts_bytes_skipped :: int
  ts_sent_digests :: "string list"

definition no_transfer :: transfer where
  "no_transfer = \<lparr>ts_blobs_sent = 0, ts_blobs_skipped = 0, ts_bytes_sent = 0, ts_bytes_skipped = 0,
     ts_sent_digests = []\<rparr>"

definition ts_total_bytes :: "transfer \<Rightarrow> int" where
  "ts_total_bytes t = ts_bytes_sent t + ts_bytes_skipped t"

definition cache_hit_ratio :: "transfer \<Rightarrow> rat" where
  "cache_hit_ratio t =
     (if ts_total_bytes t = 0 then 1 else of_int (ts_bytes_skipped t) / of_int (ts_total_bytes t))"

fun copy_blobs :: "sha \<Rightarrow> (blob \<Rightarrow> nat) \<Rightarrow> img_store \<Rightarrow> descriptor list \<Rightarrow> transfer
    \<Rightarrow> (transfer, img_store) act" where
  \<comment> \<open>the loop of \<open>copy_image\<close>; the state is the destination\<close>
  "copy_blobs sha blen src [] t = aret t"
| "copy_blobs sha blen src (d # ds) t =
     abind (\<lambda>dst. (has_blob dst (d_digest d), dst)) (\<lambda>have_it.
     if have_it then
       copy_blobs sha blen src ds
         (t\<lparr>ts_blobs_skipped := ts_blobs_skipped t + 1, ts_bytes_skipped := ts_bytes_skipped t + d_size d\<rparr>)
     else
       abind (alift (get_blob sha src (d_digest d))) (\<lambda>b.
       abind (put_blob sha blen b) (\<lambda>_.
       copy_blobs sha blen src ds
         (t\<lparr>ts_blobs_sent := ts_blobs_sent t + 1, ts_bytes_sent := ts_bytes_sent t + d_size d,
            ts_sent_digests := ts_sent_digests t @ [d_digest d]\<rparr>))))"

definition copy_image :: "sha \<Rightarrow> (blob \<Rightarrow> nat) \<Rightarrow> img_store \<Rightarrow> string \<Rightarrow> (transfer, img_store) act" where
  "copy_image sha blen src ref =
     abind (alift (get_manifest sha src ref)) (\<lambda>m.
     abind (copy_blobs sha blen src (mf_layers m @ [mf_config m]) no_transfer) (\<lambda>t.
     case manifest_serialise sha blen m of (b, d) \<Rightarrow>
       abind (put_blob sha blen b) (\<lambda>_.
       abind (bind_tag ref (mk_descriptor MEDIA_MANIFEST (d_digest d) (d_size d))) (\<lambda>_.
       aret t))))"

section \<open>Laws of the blobs\<close>

text \<open>Every blob is stored under its own digest.\<close>

definition store_wf :: "sha \<Rightarrow> img_store \<Rightarrow> bool" where
  "store_wf sha st \<longleftrightarrow> (\<forall>p b. fmlookup (is_blobs st) p = Some b \<longrightarrow> sha b = p)"

definition stored :: "img_store \<Rightarrow> string \<Rightarrow> blob option" where
  \<comment> \<open>the abstract content of the store: digest to bytes\<close>
  "stored st dg = (case blob_path dg of Inl e \<Rightarrow> None | Inr p \<Rightarrow> fmlookup (is_blobs st) p)"

lemma blob_path_of: "sha_hex sha \<Longrightarrow> blob_path (digest_of sha b) = Inr (sha b)"
  by (simp add: blob_path_def digest_path_of)

lemma blob_path_Inr: "blob_path dg = Inr p \<Longrightarrow> dg = ''sha256:'' @ p"
  by (auto simp: blob_path_def ebind_Inr_iff digest_path_Inr)

lemma blob_path_digest: "blob_path (digest_of sha b) = Inr p \<Longrightarrow> p = sha b"
  by (drule blob_path_Inr) (simp add: digest_of_def)

lemma put_blob_path: "put_blob sha blen b st = (Inr x, st') \<Longrightarrow> blob_path (digest_of sha b) = Inr (sha b)"
  using blob_path_digest by (fastforce simp: put_blob_def Let_def split: sum.splits)

lemma put_blob_eq:
  "sha_hex sha \<Longrightarrow> put_blob sha blen b st =
     (Inr (mk_descriptor ''application/octet-stream'' (digest_of sha b) (int (blen b))),
      if fmlookup (is_blobs st) (sha b) = None then st\<lparr>is_blobs := fmupd (sha b) b (is_blobs st)\<rparr> else st)"
  by (simp add: put_blob_def blob_path_of)

lemma put_blob_wf: "store_wf sha st \<Longrightarrow> store_wf sha (snd (put_blob sha blen b st))"
  by (auto simp: store_wf_def put_blob_def Let_def digest_of_def dest!: blob_path_Inr split: sum.splits)

lemma bind_tag_blobs [simp]: "is_blobs (snd (bind_tag ref d st)) = is_blobs st"
  by (auto simp: bind_tag_def abind_def write_index_def split: sum.splits)

lemma bind_tag_wf: "store_wf sha st \<Longrightarrow> store_wf sha (snd (bind_tag ref d st))"
  by (simp add: store_wf_def)

lemma keeps_res: "keeps P (\<lambda>st. (f st, st))"
  by (simp add: keeps_def)

lemma keeps_put_blob: "keeps (store_wf sha) (put_blob sha blen b)"
  by (rule keepsI) (rule put_blob_wf)

lemma keeps_bind_tag: "keeps (store_wf sha) (bind_tag ref d)"
  by (rule keepsI) (rule bind_tag_wf)

lemmas store_keeps = keeps_bind keeps_lift_bind keeps_res keeps_put_blob keeps_bind_tag keeps_basic

lemma put_image_keeps: "keeps (store_wf sha) (put_image sha blen ref m)"
  unfolding put_image_def by (auto simp: split_def intro!: store_keeps)

lemma copy_blobs_keeps: "keeps (store_wf sha) (copy_blobs sha blen src ds t)"
proof (induction ds arbitrary: t)
  case Nil
  then show ?case by (simp del: act_simps)
next
  case (Cons d ds)
  then show ?case by (auto intro!: store_keeps simp del: act_simps)
qed

lemma copy_image_keeps: "keeps (store_wf sha) (copy_image sha blen src ref)"
  unfolding copy_image_def by (auto simp: split_def simp del: act_simps intro!: store_keeps copy_blobs_keeps)

lemma get_blob_Inr:
  "get_blob sha st dg = Inr b \<longleftrightarrow>
     dg = digest_of sha b \<and> blob_path dg = Inr (sha b) \<and> fmlookup (is_blobs st) (sha b) = Some b"
proof
  assume a: "get_blob sha st dg = Inr b"
  then obtain p where "blob_path dg = Inr p" "fmlookup (is_blobs st) p = Some b" "digest_of sha b = dg"
    by (auto simp: get_blob_def ebind_Inr_iff split: option.splits if_splits)
  then show "dg = digest_of sha b \<and> blob_path dg = Inr (sha b) \<and> fmlookup (is_blobs st) (sha b) = Some b"
    using blob_path_digest by blast
qed (auto simp: get_blob_def)

lemma has_blob_Inr:
  "has_blob st dg = Inr True \<longleftrightarrow> (\<exists>p b. blob_path dg = Inr p \<and> fmlookup (is_blobs st) p = Some b)"
  by (auto simp: has_blob_def ebind_Inr_iff)

section \<open>Growing stores\<close>

definition blobs_le :: "img_store \<Rightarrow> img_store \<Rightarrow> bool" where
  "blobs_le st st' \<longleftrightarrow> (\<forall>p b. fmlookup (is_blobs st) p = Some b \<longrightarrow> fmlookup (is_blobs st') p = Some b)"

lemma blobs_le_refl [simp]: "blobs_le st st"
  by (simp add: blobs_le_def)

lemma blobs_le_trans: "blobs_le a b \<Longrightarrow> blobs_le b c \<Longrightarrow> blobs_le a c"
  by (simp add: blobs_le_def)

lemma put_blob_le: "put_blob sha blen b st = (r, st') \<Longrightarrow> blobs_le st st'"
  by (auto simp: put_blob_def blobs_le_def Let_def split: sum.splits if_splits)

lemma get_blob_mono: "get_blob sha st dg = Inr b \<Longrightarrow> blobs_le st st' \<Longrightarrow> get_blob sha st' dg = Inr b"
  unfolding get_blob_Inr blobs_le_def by blast

lemma has_blob_mono: "has_blob st dg = Inr True \<Longrightarrow> blobs_le st st' \<Longrightarrow> has_blob st' dg = Inr True"
  unfolding has_blob_Inr blobs_le_def by blast

lemma load_manifest_mono:
  "load_manifest sha st dg = Inr m \<Longrightarrow> blobs_le st st' \<Longrightarrow> load_manifest sha st' dg = Inr m"
  by (auto simp: load_manifest_def ebind_Inr_iff dest: get_blob_mono)

lemma put_blob_present:
  assumes "put_blob sha blen b st = (Inr x, st')"
  shows "\<exists>y. fmlookup (is_blobs st') (sha b) = Some y"
  using assms put_blob_path [OF assms] by (auto simp: put_blob_def Let_def split: if_splits)

lemma put_blob_stored:
  assumes "put_blob sha blen b st = (Inr d, st')"
    and "\<And>b'. fmlookup (is_blobs st) (sha b) = Some b' \<Longrightarrow> b' = b"
  shows "get_blob sha st' (digest_of sha b) = Inr b"
  using assms put_blob_path [OF assms(1)]
  by (auto simp: put_blob_def Let_def get_blob_def split: if_splits)

lemma bind_tag_Inr:
  "bind_tag ref d st = (Inr u, st') \<longleftrightarrow>
     (\<exists>x. read_index st = Inr x \<and> st' = write_index (index_upsert ref d x) st)"
  by (auto simp: bind_tag_def abind_def split: sum.splits)

lemma read_write_index [simp]: "read_index (write_index x st) = Inr x"
  by (simp add: read_index_def write_index_def)

lemma write_index_blobs [simp]: "is_blobs (write_index x st) = is_blobs st"
  by (simp add: write_index_def)

lemma put_blob_index [simp]: "put_blob sha blen b st = (r, st') \<Longrightarrow> is_index st' = is_index st"
  by (auto simp: put_blob_def Let_def split: sum.splits if_splits)

lemma get_manifest_mono:
  assumes "get_manifest sha st r = Inr m" "blobs_le st st'"
    and "read_index st = Inr x" "read_index st' = Inr x'" "index_find x' r = index_find x r"
  shows "get_manifest sha st' r = Inr m"
  using assms
  by (auto simp: get_manifest_def ebind_Inr_iff split: option.splits if_splits
      intro: load_manifest_mono dest: has_blob_mono)

text \<open>What storing a manifest document and binding a tag to it does.\<close>

lemma publish_effect:
  assumes put: "put_blob sha blen b st = (Inr d0, mid)" and tag: "bind_tag ref d mid = (Inr u, st')"
    and b: "b = canonical_json (manifest_to_json m)" "d_digest d = digest_of sha b"
    and nc: "\<And>b'. fmlookup (is_blobs st) (sha b) = Some b' \<Longrightarrow> b' = b"
  shows "get_manifest sha st' ref = Inr m" "blobs_le st st'"
    "\<And>r m'. r \<noteq> ref \<Longrightarrow> get_manifest sha st r = Inr m' \<Longrightarrow> get_manifest sha st' r = Inr m'"
proof -
  from tag obtain x where x: "read_index mid = Inr x" "st' = write_index (index_upsert ref d x) mid"
    by (auto simp: bind_tag_Inr)
  have le: "blobs_le st mid" using put by (rule put_blob_le)
  then show le': "blobs_le st st'" by (simp add: x(2) blobs_le_def)
  have g: "get_blob sha mid (digest_of sha b) = Inr b" by (rule put_blob_stored [OF put nc])
  have "get_blob sha st' (digest_of sha b) = Inr b"
    by (rule get_blob_mono [OF g]) (simp add: x(2) blobs_le_def)
  then have "load_manifest sha st' (d_digest d) = Inr m"
    by (simp add: load_manifest_def b canonical_json_def)
  then show "get_manifest sha st' ref = Inr m" by (simp add: get_manifest_def x(2))
  fix r m' assume "r \<noteq> ref" "get_manifest sha st r = Inr m'"
  moreover have "read_index st = Inr x" using x(1) put by (simp add: read_index_def)
  ultimately show "get_manifest sha st' r = Inr m'"
    by (intro get_manifest_mono [OF _ le', where x = x and x' = "index_upsert ref d x"]) (simp_all add: x(2))
qed

lemma put_image_le: "put_image sha blen ref m st = (Inr d, st') \<Longrightarrow> blobs_le st st'"
  by (auto simp: put_image_def bind_tag_Inr split_def blobs_le_def dest!: put_blob_le elim!: abindE split: if_splits)

section \<open>Laws of the transfer\<close>

definition lacking :: "img_store \<Rightarrow> descriptor list \<Rightarrow> string set" where
  "lacking st ds = {dg \<in> d_digest ` set ds. stored st dg = None}"

lemma has_blob_stored: "has_blob st dg = Inr ok \<Longrightarrow> ok \<longleftrightarrow> stored st dg \<noteq> None"
  by (auto simp: has_blob_def stored_def ebind_Inr_iff)

lemma put_blob_stored_iff:
  assumes "put_blob sha blen b st = (Inr x, st')" "dg = digest_of sha b"
  shows "stored st' e = None \<longleftrightarrow> stored st e = None \<and> e \<noteq> dg"
proof (cases "blob_path e")
  case (Inr p)
  have d: "blob_path dg = Inr (sha b)" using put_blob_path [OF assms(1)] assms(2) by simp
  have "e = dg \<longleftrightarrow> p = sha b"
    using Inr d blob_path_Inr [OF d] blob_path_Inr [OF Inr] by auto
  then show ?thesis using assms Inr d by (auto simp: put_blob_def stored_def split: if_splits)
next
  case (Inl x)
  moreover have "e \<noteq> dg" using Inl put_blob_path [OF assms(1)] assms(2) by auto
  ultimately show ?thesis by (simp add: stored_def)
qed

lemma copy_blobs_effect:
  assumes "copy_blobs sha blen src ds t dst = (Inr t', dst')"
  shows "is_index dst' = is_index dst \<and> blobs_le dst dst' \<and> (\<forall>d \<in> set ds. has_blob dst' (d_digest d) = Inr True) \<and>
    (\<exists>new. ts_sent_digests t' = ts_sent_digests t @ new \<and> distinct new \<and> set new = lacking dst ds \<and>
      ts_blobs_sent t' = ts_blobs_sent t + length new) \<and>
    ts_blobs_sent t' + ts_blobs_skipped t' = ts_blobs_sent t + ts_blobs_skipped t + length ds \<and>
    ts_total_bytes t' = ts_total_bytes t + sum_list (map d_size ds)"
  using assms
proof (induction ds arbitrary: t dst)
  case Nil
  then show ?case by (auto simp: lacking_def)
next
  case (Cons d ds)
  from Cons.prems obtain ok where ok: "has_blob dst (d_digest d) = Inr ok"
    by (auto simp: abind_def split: sum.splits)
  show ?case
  proof (cases ok)
    case True
    with ok Cons.prems have "copy_blobs sha blen src ds (t\<lparr>ts_blobs_skipped := ts_blobs_skipped t + 1,
        ts_bytes_skipped := ts_bytes_skipped t + d_size d\<rparr>) dst = (Inr t', dst')"
      by (simp add: abind_def)
    note ih = Cons.IH [OF this]
    have "lacking dst (d # ds) = lacking dst ds" using has_blob_stored [OF ok] True by (auto simp: lacking_def)
    moreover have "has_blob dst (d_digest d) = Inr True" using ok True by simp
    then have "has_blob dst' (d_digest d) = Inr True" using ih has_blob_mono by blast
    ultimately show ?thesis using ih by (auto simp: ts_total_bytes_def)
  next
    case False
    with ok Cons.prems obtain b x mid where b: "get_blob sha src (d_digest d) = Inr b"
        and put: "put_blob sha blen b dst = (Inr x, mid)"
        and rest: "copy_blobs sha blen src ds (t\<lparr>ts_blobs_sent := ts_blobs_sent t + 1,
          ts_bytes_sent := ts_bytes_sent t + d_size d,
          ts_sent_digests := ts_sent_digests t @ [d_digest d]\<rparr>) mid = (Inr t', dst')"
      by (auto simp: abind_def split: sum.splits prod.splits)
    have dg: "d_digest d = digest_of sha b" using b by (simp add: get_blob_Inr)
    note st = put_blob_stored_iff [OF put dg]
    have lack: "lacking dst (d # ds) = insert (d_digest d) (lacking mid ds)" "d_digest d \<notin> lacking mid ds"
      using ok False has_blob_stored [OF ok] by (auto simp: lacking_def st)
    note ih = Cons.IH [OF rest]
    have "has_blob mid (d_digest d) = Inr True"
      using st [of "d_digest d"] b by (auto simp: has_blob_def stored_def get_blob_Inr)
    then have "has_blob dst' (d_digest d) = Inr True" using ih by (blast intro: has_blob_mono)
    moreover have "blobs_le dst dst'" using ih put_blob_le [OF put] by (blast intro: blobs_le_trans)
    moreover obtain new where "ts_sent_digests t' = ts_sent_digests t @ d_digest d # new" "distinct new"
        "set new = lacking mid ds" "ts_blobs_sent t' = ts_blobs_sent t + Suc (length new)"
      using ih by auto
    ultimately show ?thesis
      using ih lack put by (auto simp: ts_total_bytes_def intro!: exI [of _ "d_digest d # new"])
  qed
qed

lemma copy_blobs_total:
  assumes "sha_hex sha" "\<forall>d \<in> set ds. \<exists>b. get_blob sha src (d_digest d) = Inr b"
  shows "\<exists>t' dst'. copy_blobs sha blen src ds t dst = (Inr t', dst')"
  using assms(2)
proof (induction ds arbitrary: t dst)
  case (Cons d ds)
  then obtain b where b: "get_blob sha src (d_digest d) = Inr b" by auto
  then have "\<exists>ok. has_blob dst (d_digest d) = Inr ok" by (auto simp: get_blob_Inr has_blob_def)
  then obtain ok where "has_blob dst (d_digest d) = Inr ok" by blast
  with b Cons show ?case by (cases ok) (simp_all add: abind_def put_blob_eq [OF assms(1)])
qed simp

text \<open>The steps of a successful transfer.\<close>

lemma copy_imageE:
  assumes "copy_image sha blen src ref dst = (Inr t, dst')"
  obtains m b mid d0 mid' where
    "get_manifest sha src ref = Inr m" "b = canonical_json (manifest_to_json m)"
    "copy_blobs sha blen src (mf_layers m @ [mf_config m]) no_transfer dst = (Inr t, mid)"
    "put_blob sha blen b mid = (Inr d0, mid')"
    "bind_tag ref (mk_descriptor MEDIA_MANIFEST (digest_of sha b) (int (blen b))) mid' = (Inr (), dst')"
proof -
  from assms show thesis
    unfolding copy_image_def abind_lift_iff
    by (auto elim!: abindE simp: manifest_serialise_def Let_def mk_descriptor_def intro!: that)
qed

lemma upsert_twice: "index_upsert ref d (index_upsert ref d x) = index_upsert ref d x"
proof -
  have "tagged_as ref t \<Longrightarrow> replace_tagged ref t (replace_tagged ref t ds) = replace_tagged ref t ds" for t ds
    by (induction ds) auto
  then show ?thesis by (simp add: index_upsert_def Let_def)
qed

text \<open>Nothing is stored that the destination, the source or the manifest did not hold.\<close>

definition blob_set :: "img_store \<Rightarrow> blob set" where
  "blob_set st = {b. \<exists>p. fmlookup (is_blobs st) p = Some b}"

lemma blob_set_fmran: "blob_set st = fset (fmran (is_blobs st))"
  by (auto simp: blob_set_def fmlookup_ran_iff)

lemma put_blob_set: "put_blob sha blen b st = (r, st') \<Longrightarrow> blob_set st' \<subseteq> insert b (blob_set st)"
  by (fastforce simp: put_blob_def Let_def blob_set_def split: sum.splits if_splits)

lemma copy_blobs_set:
  "copy_blobs sha blen src ds t dst = (Inr t', dst') \<Longrightarrow> blob_set dst' \<subseteq> blob_set dst \<union> blob_set src"
proof (induction ds arbitrary: t dst)
  case (Cons d ds)
  from Cons.prems obtain ok where ok: "has_blob dst (d_digest d) = Inr ok"
    by (auto simp: abind_def split: sum.splits)
  show ?case
  proof (cases ok)
    case True
    with Cons.prems ok show ?thesis by (auto simp: abind_def dest!: Cons.IH)
  next
    case False
    with ok Cons.prems obtain b x mid u where b: "get_blob sha src (d_digest d) = Inr b"
        and put: "put_blob sha blen b dst = (Inr x, mid)"
        and rest: "copy_blobs sha blen src ds u mid = (Inr t', dst')"
      by (auto simp: abind_def split: sum.splits prod.splits)
    have "b \<in> blob_set src" using b by (auto simp: get_blob_Inr blob_set_def)
    with put_blob_set [OF put] Cons.IH [OF rest] show ?thesis by blast
  qed
qed simp

lemma copy_blobs_noop:
  "\<forall>d \<in> set ds. has_blob dst (d_digest d) = Inr True \<Longrightarrow>
     copy_blobs sha blen src ds t dst =
       (Inr (t\<lparr>ts_blobs_skipped := ts_blobs_skipped t + length ds,
               ts_bytes_skipped := ts_bytes_skipped t + sum_list (map d_size ds)\<rparr>), dst)"
  by (induction ds arbitrary: t) (simp_all add: abind_def ac_simps)

lemma same_blob:
  assumes "store_wf sha st" "inj_on sha S" "blob_set st \<subseteq> S" "b \<in> S"
    and "fmlookup (is_blobs st) (sha b) = Some b'"
  shows "b' = b"
proof -
  have "sha b' = sha b" using assms(1,5) by (simp add: store_wf_def)
  moreover have "b' \<in> S" using assms(3,5) by (auto simp: blob_set_def)
  ultimately show ?thesis using assms(2,4) by (auto dest: inj_onD)
qed

section \<open>Properties\<close>

text \<open>Content addressing: if every blob of the store is filed under its own digest, it stays so
  under put_blob, put_image and copy_image, whether they succeed or raise, and then a read
  never fails its digest verification: it returns exactly the stored bytes, or raises because the
  file is missing or the digest malformed.\<close>

theorem content_addressing:
  assumes "store_wf sha st"
  shows "store_wf sha (snd (put_blob sha blen b st))
    \<and> store_wf sha (snd (put_image sha blen ref m st))
    \<and> store_wf sha (snd (copy_image sha blen src ref st))
    \<and> get_blob sha st dg = (case digest_path dg of Inl e \<Rightarrow> Inl e
        | Inr (_, p) \<Rightarrow> (case fmlookup (is_blobs st) p of None \<Rightarrow> Inl (FileNotFoundError p) | Some x \<Rightarrow> Inr x))"
proof -
  have "get_blob sha st dg = (case digest_path dg of Inl e \<Rightarrow> Inl e
      | Inr (_, p) \<Rightarrow> (case fmlookup (is_blobs st) p of None \<Rightarrow> Inl (FileNotFoundError p) | Some x \<Rightarrow> Inr x))"
  proof (cases "digest_path dg")
    case (Inr q)
    obtain a p where q: "q = (a, p)" by (cases q)
    then have "dg = ''sha256:'' @ p" using Inr digest_path_Inr by blast
    then show ?thesis using assms Inr q
      by (auto simp: get_blob_def blob_path_def store_wf_def digest_of_def split: option.splits)
  qed (simp add: get_blob_def blob_path_def)
  with assms show ?thesis
    using keepsD [OF keeps_put_blob] keepsD [OF put_image_keeps] keepsD [OF copy_image_keeps] by blast
qed

lemma put_image_ok:
  assumes "put_image sha blen ref m st = (Inr d, st')"
    and "\<And>b. fmlookup (is_blobs st) (sha (Doc (manifest_to_json m))) = Some b \<Longrightarrow> b = Doc (manifest_to_json m)"
  shows "(\<forall>l \<in> set (mf_layers m @ [mf_config m]). has_blob st (d_digest l) = Inr True)
    \<and> get_manifest sha st' ref = Inr m
    \<and> (r \<noteq> ref \<longrightarrow> get_manifest sha st r = Inr m' \<longrightarrow> get_manifest sha st' r = Inr m')"
proof -
  have chk: "check_layers st ls = Inr u \<Longrightarrow> l \<in> set ls \<Longrightarrow> has_blob st (d_digest l) = Inr True" for ls u l
    by (induction ls) (auto simp: ebind_Inr_iff split: if_splits)
  let ?b = "Doc (manifest_to_json m)"
  from assms(1) obtain u mid d0 u' where s: "check_layers st (mf_layers m) = Inr u"
      "has_blob st (d_digest (mf_config m)) = Inr True"
      "put_blob sha blen ?b st = (Inr d0, mid)" "bind_tag ref d mid = (Inr u', st')"
      "d_digest d = digest_of sha ?b"
    by (auto simp: put_image_def manifest_serialise_def Let_def canonical_json_def mk_descriptor_def
        elim!: abindE split: if_splits)
  note pub = publish_effect [OF s(3,4), of m, unfolded canonical_json_def, OF refl s(5) assms(2)]
  show ?thesis using chk [OF s(1)] s(2) pub(1) pub(3) [of r m'] by auto
qed

text \<open>Publishing: when put_image succeeds, every layer and the configuration were already in the
  store, the tag resolves to exactly this manifest, and every other tag or pinned digest that
  resolved before resolves to the same manifest.\<close>

theorem put_image_publishes:
  assumes "put_image sha blen ref m st = (Inr d, st')"
    and "\<And>b. fmlookup (is_blobs st) (sha (Doc (manifest_to_json m))) = Some b \<Longrightarrow> b = Doc (manifest_to_json m)"
  shows "(\<forall>l \<in> set (mf_layers m @ [mf_config m]). has_blob st (d_digest l) = Inr True)
    \<and> get_manifest sha st' ref = Inr m
    \<and> (r \<noteq> ref \<longrightarrow> get_manifest sha st r = Inr m' \<longrightarrow> get_manifest sha st' r = Inr m')"
  by (rule put_image_ok) (fact assms)+

lemma copy_image_works:
  assumes "sha_hex sha" "get_manifest sha src ref = Inr m" "read_index dst = Inr x"
    and "\<forall>d \<in> set (mf_layers m @ [mf_config m]). \<exists>b. get_blob sha src (d_digest d) = Inr b"
    and "store_wf sha dst"
    and "inj_on sha (fset (fmran (is_blobs src)) \<union> fset (fmran (is_blobs dst)) \<union> {Doc (manifest_to_json m)})"
  shows "\<exists>t dst'. copy_image sha blen src ref dst = (Inr t, dst')
    \<and> distinct (ts_sent_digests t) \<and> set (ts_sent_digests t) = lacking dst (mf_layers m @ [mf_config m])
    \<and> ts_blobs_sent t = length (ts_sent_digests t)
    \<and> ts_blobs_sent t + ts_blobs_skipped t = length (mf_layers m) + 1
    \<and> Inr (ts_total_bytes t) = image_size sha src ref
    \<and> get_manifest sha dst' ref = Inr m
    \<and> (\<forall>d \<in> set (mf_layers m @ [mf_config m]). get_blob sha dst' (d_digest d) = get_blob sha src (d_digest d))
    \<and> blobs_le dst dst'"
proof -
  let ?ds = "mf_layers m @ [mf_config m]" and ?b = "Doc (manifest_to_json m)"
  let ?S = "blob_set src \<union> blob_set dst \<union> {?b}"
  have inj: "inj_on sha ?S" using assms(6) by (simp add: blob_set_fmran)
  obtain t mid where cp: "copy_blobs sha blen src ?ds no_transfer dst = (Inr t, mid)"
    using copy_blobs_total [OF assms(1,4)] by blast
  obtain d0 mid' where put: "put_blob sha blen ?b mid = (Inr d0, mid')"
    by (simp add: put_blob_eq [OF assms(1)])
  note eff = copy_blobs_effect [OF cp]
  have ix: "read_index mid' = Inr x" using assms(3) eff put by (simp add: read_index_def)
  define dst' where "dst' = write_index (index_upsert ref
    (mk_descriptor MEDIA_MANIFEST (digest_of sha ?b) (int (blen ?b))) x) mid'"
  have tag: "bind_tag ref (mk_descriptor MEDIA_MANIFEST (digest_of sha ?b) (int (blen ?b))) mid' = (Inr (), dst')"
    using ix by (simp add: bind_tag_Inr dst'_def)
  have ok: "copy_image sha blen src ref dst = (Inr t, dst')"
    using assms(2) cp put tag
    by (simp add: copy_image_def manifest_serialise_def Let_def canonical_json_def mk_descriptor_def abind_def)
  have wf: "store_wf sha mid" "store_wf sha mid'"
    using keepsD [OF copy_blobs_keeps assms(5)] keepsD [OF keeps_put_blob] cp put by (metis snd_conv)+
  have sub: "blob_set mid \<subseteq> ?S" "blob_set mid' \<subseteq> ?S"
    using copy_blobs_set [OF cp] put_blob_set [OF put] by blast+
  have nc: "b' = ?b" if "fmlookup (is_blobs mid) (sha ?b) = Some b'" for b'
    by (rule same_blob [OF wf(1) inj sub(1) _ that]) simp
  note pub = publish_effect [OF put tag, of m, unfolded canonical_json_def, OF refl _ nc]
  have le: "blobs_le mid' dst'" "blobs_le mid mid'"
    using put_blob_le [OF put] by (simp_all add: dst'_def blobs_le_def)
  have same: "get_blob sha dst' (d_digest d) = get_blob sha src (d_digest d)" if d: "d \<in> set ?ds" for d
  proof -
    obtain b where b: "get_blob sha src (d_digest d) = Inr b" using assms(4) d by blast
    obtain b' where b': "fmlookup (is_blobs mid') (sha b) = Some b'"
      using eff d le(2) b by (fastforce simp: has_blob_Inr blobs_le_def get_blob_Inr)
    have "b' = b"
      by (rule same_blob [OF wf(2) inj sub(2) _ b']) (use b in \<open>auto simp: get_blob_Inr blob_set_def\<close>)
    with b b' have "get_blob sha dst' (d_digest d) = Inr b"
      unfolding get_blob_Inr by (auto simp: dst'_def)
    with b show ?thesis by simp
  qed
  have "get_manifest sha dst' ref = Inr m" by (rule pub(1)) (simp add: mk_descriptor_def)
  moreover have "blobs_le dst dst'" using eff le blobs_le_trans by blast
  moreover have "Inr (ts_total_bytes t) = image_size sha src ref"
    using eff assms(2) by (simp add: image_size_def total_layer_bytes_def ts_total_bytes_def no_transfer_def)
  ultimately show ?thesis
    using ok same eff by (auto simp: no_transfer_def)
qed

text \<open>C23: Transfer: an image all of whose blobs are in the source is always copied when the
  destination's index is readable. Exactly the digests the destination lacked are sent, each once;
  the blobs sent and skipped are all blobs of the image and their bytes its size; the tag then
  resolves in the destination to the same manifest, every blob reads the same there as in the source, and
  what the destination had is kept.\<close>

theorem copy_image_complete:
  assumes "sha_hex sha" "get_manifest sha src ref = Inr m" "read_index dst = Inr x"
    and "\<forall>d \<in> set (mf_layers m @ [mf_config m]). \<exists>b. get_blob sha src (d_digest d) = Inr b"
    and "store_wf sha dst"
    and "inj_on sha (fset (fmran (is_blobs src)) \<union> fset (fmran (is_blobs dst)) \<union> {Doc (manifest_to_json m)})"
  shows "\<exists>t dst'. copy_image sha blen src ref dst = (Inr t, dst')
    \<and> distinct (ts_sent_digests t) \<and> set (ts_sent_digests t) = lacking dst (mf_layers m @ [mf_config m])
    \<and> ts_blobs_sent t = length (ts_sent_digests t)
    \<and> ts_blobs_sent t + ts_blobs_skipped t = length (mf_layers m) + 1
    \<and> Inr (ts_total_bytes t) = image_size sha src ref
    \<and> get_manifest sha dst' ref = Inr m
    \<and> (\<forall>d \<in> set (mf_layers m @ [mf_config m]). get_blob sha dst' (d_digest d) = get_blob sha src (d_digest d))
    \<and> blobs_le dst dst'"
  by (rule copy_image_works) (fact assms)+

text \<open>A second transfer of the same image is free: it sends no blob and leaves the destination as
  it is.\<close>

theorem copy_image_again:
  assumes "copy_image sha blen src ref dst = (Inr t, dst')"
  shows "\<exists>t'. copy_image sha blen src ref dst' = (Inr t', dst')
    \<and> ts_blobs_sent t' = 0 \<and> ts_sent_digests t' = [] \<and> ts_total_bytes t' = ts_total_bytes t"
proof -
  from assms obtain m b mid d0 mid' where s: "get_manifest sha src ref = Inr m"
      "b = canonical_json (manifest_to_json m)"
      "copy_blobs sha blen src (mf_layers m @ [mf_config m]) no_transfer dst = (Inr t, mid)"
      "put_blob sha blen b mid = (Inr d0, mid')"
      "bind_tag ref (mk_descriptor MEDIA_MANIFEST (digest_of sha b) (int (blen b))) mid' = (Inr (), dst')"
    by (rule copy_imageE)
  let ?d = "mk_descriptor MEDIA_MANIFEST (digest_of sha b) (int (blen b))"
  note eff = copy_blobs_effect [OF s(3)]
  from s(5) obtain x where x: "dst' = write_index (index_upsert ref ?d x) mid'" by (auto simp: bind_tag_Inr)
  let ?ds = "mf_layers m @ [mf_config m]"
  have "has_blob dst' (d_digest d) = Inr True" if "d \<in> set ?ds" for d
    using eff that put_blob_le [OF s(4)] by (fastforce simp: has_blob_Inr blobs_le_def x)
  then have cp: "copy_blobs sha blen src ?ds no_transfer dst' = (Inr (no_transfer\<lparr>ts_blobs_skipped := length ?ds,
      ts_bytes_skipped := sum_list (map d_size ?ds)\<rparr>), dst')"
    by (subst copy_blobs_noop) (auto simp: no_transfer_def)
  have "stored dst' (digest_of sha b) \<noteq> None"
    using put_blob_stored_iff [OF s(4) refl, of "digest_of sha b"] by (simp add: stored_def x split: sum.splits)
  then have "put_blob sha blen b dst' = (Inr (mk_descriptor ''application/octet-stream'' (digest_of sha b) (int (blen b))), dst')"
    by (auto simp: put_blob_def stored_def Let_def split: sum.splits)
  moreover have "bind_tag ref ?d dst' = (Inr (), dst')"
    by (simp add: bind_tag_Inr x upsert_twice) (simp add: write_index_def)
  ultimately have "copy_image sha blen src ref dst' =
      (Inr (no_transfer\<lparr>ts_blobs_skipped := length (mf_layers m) + 1,
         ts_bytes_skipped := sum_list (map d_size (mf_layers m @ [mf_config m]))\<rparr>), dst')"
    using s(1,2) cp by (simp add: copy_image_def manifest_serialise_def Let_def abind_def mk_descriptor_def)
  then show ?thesis using eff by (simp add: no_transfer_def ts_total_bytes_def)
qed

text \<open>A concrete image of one layer, and a hash that tells its three blobs apart.\<close>

definition demo_key :: "char \<Rightarrow> string" where
  "demo_key c = replicate 63 (CHR ''0'') @ [c]"

fun demo_sha :: sha where
  "demo_sha (Raw s) = demo_key CHR ''1''"
| "demo_sha (Doc (JObj d)) = (if fmlookup d ''layers'' = None then demo_key CHR ''2'' else demo_key CHR ''3'')"
| "demo_sha (Doc j) = demo_key CHR ''4''"
| "demo_sha (Tar ms) = demo_key CHR ''5''"
| "demo_sha (Gz level mtime b) = demo_key CHR ''6''"

lemma demo_key_eq [simp]: "demo_key a = demo_key b \<longleftrightarrow> a = b"
  by (simp add: demo_key_def)

definition demo_len :: "blob \<Rightarrow> nat" where
  "demo_len b = 7"

definition demo_layer :: blob where
  "demo_layer = Raw ''layer''"

definition demo_cfg :: blob where
  "demo_cfg = canonical_json (config_to_json new_config)"

definition demo_manifest :: manifest where
  "demo_manifest = \<lparr>mf_config = mk_descriptor MEDIA_CONFIG (digest_of demo_sha demo_cfg) 7,
     mf_layers = [mk_descriptor ''tar'' (digest_of demo_sha demo_layer) 7], mf_annotations = fmempty,
     mf_subject = None\<rparr>"

definition demo_src :: img_store where
  "demo_src = snd (put_image demo_sha demo_len ''app:v1'' demo_manifest
     (snd (put_blob demo_sha demo_len demo_cfg (snd (put_blob demo_sha demo_len demo_layer (open_store fmempty None))))))"

lemma demo_sha_hex [simp]: "sha_hex demo_sha"
proof -
  have "length (demo_sha b) = 64 \<and> set (demo_sha b) \<subseteq> set hex_digits" for b
    by (cases b rule: demo_sha.cases) (auto simp: hex_digits_def demo_key_def)
  then show ?thesis by (simp add: sha_hex_def)
qed

definition demo_first :: img_store where
  "demo_first = \<lparr>is_blobs = fmupd (demo_sha demo_cfg) demo_cfg (fmupd (demo_sha demo_layer) demo_layer fmempty),
     is_index = index_to_json \<lparr>ix_manifests = [], ix_annotations = fmempty\<rparr>\<rparr>"

lemma demo_shas [simp]:
  "demo_sha demo_layer = demo_key CHR ''1''" "demo_sha demo_cfg = demo_key CHR ''2''"
  "demo_sha (Doc (manifest_to_json m)) = demo_key CHR ''3''"
  by (simp_all add: demo_layer_def demo_cfg_def canonical_json_def config_to_json_def Let_def
      manifest_to_json_def upd_if_def)

lemma demo_first_eq: "snd (put_blob demo_sha demo_len demo_cfg
    (snd (put_blob demo_sha demo_len demo_layer (open_store fmempty None)))) = demo_first"
  by (simp add: put_blob_eq open_store_def demo_first_def)

definition demo_doc :: blob where
  "demo_doc = Doc (manifest_to_json demo_manifest)"

definition demo_desc :: descriptor where
  "demo_desc = mk_descriptor MEDIA_MANIFEST (digest_of demo_sha demo_doc) 7"

lemma demo_put: "put_image demo_sha demo_len ''app:v1'' demo_manifest demo_first = (Inr demo_desc, demo_src)"
  and demo_src_blobs: "is_blobs demo_src = fmupd (demo_key CHR ''3'') demo_doc (is_blobs demo_first)"
  and demo_src_index: "is_index demo_src =
    index_to_json (index_upsert ''app:v1'' demo_desc \<lparr>ix_manifests = [], ix_annotations = fmempty\<rparr>)"
proof -
  have a: "put_image demo_sha demo_len ''app:v1'' demo_manifest demo_first =
     (Inr demo_desc, write_index (index_upsert ''app:v1'' demo_desc \<lparr>ix_manifests = [], ix_annotations = fmempty\<rparr>)
        (demo_first\<lparr>is_blobs := fmupd (demo_key CHR ''3'') demo_doc (is_blobs demo_first)\<rparr>))"
    by (simp add: put_image_def abind_def demo_manifest_def mk_descriptor_def has_blob_def blob_path_of
        put_blob_eq manifest_serialise_def Let_def bind_tag_def canonical_json_def read_index_def
        demo_first_def demo_desc_def demo_doc_def demo_len_def)
  then show "put_image demo_sha demo_len ''app:v1'' demo_manifest demo_first = (Inr demo_desc, demo_src)"
    "is_blobs demo_src = fmupd (demo_key CHR ''3'') demo_doc (is_blobs demo_first)"
    "is_index demo_src =
      index_to_json (index_upsert ''app:v1'' demo_desc \<lparr>ix_manifests = [], ix_annotations = fmempty\<rparr>)"
    by (simp_all add: demo_src_def demo_first_eq write_index_def)
qed

theorem content_addressing_witness:
  "store_wf demo_sha (snd (put_blob demo_sha demo_len demo_layer demo_first))"
proof -
  have "store_wf demo_sha demo_first" by (auto simp: store_wf_def demo_first_def)
  from content_addressing [OF this] show ?thesis by blast
qed

theorem put_image_publishes_witness:
  "get_manifest demo_sha demo_src ''app:v1'' = Inr demo_manifest"
  by (rule put_image_publishes [OF demo_put, THEN conjunct2, THEN conjunct1]) (simp add: demo_first_def)

definition demo_dst :: img_store where
  "demo_dst = snd (put_blob demo_sha demo_len demo_layer (open_store fmempty None))"

text \<open>The layer is already there: one blob, the configuration, is sent; then nothing.\<close>

lemma demo_facts:
  "get_manifest demo_sha demo_src ''app:v1'' = Inr demo_manifest"
  "read_index demo_dst = Inr \<lparr>ix_manifests = [], ix_annotations = fmempty\<rparr>"
  "\<forall>d \<in> set (mf_layers demo_manifest @ [mf_config demo_manifest]).
      \<exists>b. get_blob demo_sha demo_src (d_digest d) = Inr b"
  "store_wf demo_sha demo_dst"
  "inj_on demo_sha (fset (fmran (is_blobs demo_src)) \<union> fset (fmran (is_blobs demo_dst))
      \<union> {Doc (manifest_to_json demo_manifest)})"
  "lacking demo_dst (mf_layers demo_manifest @ [mf_config demo_manifest]) = {digest_of demo_sha demo_cfg}"
proof -
  show "get_manifest demo_sha demo_src ''app:v1'' = Inr demo_manifest"
    by (rule put_image_ok [OF demo_put, THEN conjunct2, THEN conjunct1]) (simp add: demo_first_def)
  show "read_index demo_dst = Inr \<lparr>ix_manifests = [], ix_annotations = fmempty\<rparr>"
    by (simp add: demo_dst_def put_blob_eq open_store_def read_index_def)
  have b: "is_blobs demo_dst = fmupd (demo_key CHR ''1'') demo_layer fmempty"
    by (simp add: demo_dst_def put_blob_eq open_store_def)
  show "\<forall>d \<in> set (mf_layers demo_manifest @ [mf_config demo_manifest]).
      \<exists>b. get_blob demo_sha demo_src (d_digest d) = Inr b"
    by (simp add: demo_manifest_def mk_descriptor_def get_blob_def blob_path_of demo_src_blobs demo_first_def)
  show "store_wf demo_sha demo_dst" by (simp add: store_wf_def b)
  show "inj_on demo_sha (fset (fmran (is_blobs demo_src)) \<union> fset (fmran (is_blobs demo_dst))
      \<union> {Doc (manifest_to_json demo_manifest)})"
    by (auto simp: inj_on_def b demo_src_blobs demo_first_def demo_doc_def fmlookup_ran_iff split: if_splits)
  show "lacking demo_dst (mf_layers demo_manifest @ [mf_config demo_manifest]) = {digest_of demo_sha demo_cfg}"
    by (auto simp: lacking_def demo_manifest_def mk_descriptor_def stored_def blob_path_of b)
qed

theorem copy_image_complete_witness:
  "\<exists>t dst'. copy_image demo_sha demo_len demo_src ''app:v1'' demo_dst = (Inr t, dst')
    \<and> ts_sent_digests t = [digest_of demo_sha demo_cfg] \<and> get_manifest demo_sha dst' ''app:v1'' = Inr demo_manifest"
proof -
  obtain t dst' where t: "copy_image demo_sha demo_len demo_src ''app:v1'' demo_dst = (Inr t, dst')"
      "distinct (ts_sent_digests t)" "set (ts_sent_digests t) = {digest_of demo_sha demo_cfg}"
      "get_manifest demo_sha dst' ''app:v1'' = Inr demo_manifest"
    using copy_image_complete [OF demo_sha_hex demo_facts(1,2,3,4,5), of demo_len, unfolded demo_facts(6)] by auto
  have "ts_sent_digests t = [digest_of demo_sha demo_cfg]"
    using t(2,3) by (cases "ts_sent_digests t") (auto dest: subset_singletonD)
  with t show ?thesis by blast
qed

theorem copy_image_again_witness:
  "\<exists>t dst'. copy_image demo_sha demo_len demo_src ''app:v1'' dst' = (Inr t, dst') \<and> ts_blobs_sent t = 0"
proof -
  obtain t dst' where "copy_image demo_sha demo_len demo_src ''app:v1'' demo_dst = (Inr t, dst')"
    using copy_image_works [OF demo_sha_hex demo_facts(1,2,3,4,5), of demo_len] by blast
  from copy_image_again [OF this] show ?thesis by blast
qed

end
