(* ===== verification/Image_Layer.thy ===== *)
theory Image_Layer
  imports Image_Store
begin

text \<open>
  Layers, \<open>modules/image-toolkit/imagekit/layer.py\<close>: the deterministic archive of a file system
  difference, its two digests, and its application to a tree, whiteouts first; and the unpacking
  of an image by its layers, \<open>ImageStore.unpack\<close>.  Archives are those this writer produces.
\<close>

section \<open>Building a layer\<close>

definition WHITEOUT_PREFIX :: string where
  "WHITEOUT_PREFIX = ''.wh.''"

definition OPAQUE_MARKER :: string where
  "OPAQUE_MARKER = ''.wh..wh..opq''"

definition MEDIA_LAYER_GZIP :: string where
  "MEDIA_LAYER_GZIP = ''application/vnd.oci.image.layer.v1.tar+gzip''"

definition MEDIA_LAYER_TAR :: string where
  "MEDIA_LAYER_TAR = ''application/vnd.oci.image.layer.v1.tar''"

definition FIXED_MTIME :: int where
  "FIXED_MTIME = 0"

record layer =
  ly_diff_id :: string
  ly_digest :: string
  ly_size :: int
  ly_uncompressed_size :: int
  ly_blob :: blob
  ly_media_type :: string

definition compression_ratio :: "layer \<Rightarrow> rat" where
  "compression_ratio l =
     (if ly_uncompressed_size l = 0 then 1 else of_int (ly_size l) / of_int (ly_uncompressed_size l))"

definition executable :: "int \<Rightarrow> bool" where
  \<comment> \<open>\<open>mode & 0o100\<close>\<close>
  "executable m = odd (m div 64)"

definition normalise_info :: "int \<Rightarrow> tar_info \<Rightarrow> tar_info" where
  "normalise_info mtime i =
     i\<lparr>ti_uid := 0, ti_gid := 0, ti_uname := [], ti_gname := [], ti_mtime := mtime,
       ti_mode := (if ti_type i = TDir then 493 else if ti_type i = TSym then 511
                   else if executable (ti_mode i) then 493 else 420)\<rparr>"

definition sorted_walk :: "fs \<Rightarrow> path \<Rightarrow> (string \<times> path) list" where
  "sorted_walk fs base = sort_key fst (concat (map (\<lambda>(dirpath, dirnames, filenames).
       map (\<lambda>name. (rel_text (drop (length base) (dirpath @ [name])), dirpath @ [name])) (dirnames @ filenames))
     (walk_tree fs base)))"

definition whiteout_marker :: "int \<Rightarrow> string \<Rightarrow> tar_info" where
  "whiteout_marker mtime p =
     (case path_split p of (parent, name) \<Rightarrow>
        normalise_info mtime (new_tarinfo
          (if parent \<noteq> [] then path_join parent (WHITEOUT_PREFIX @ name) else WHITEOUT_PREFIX @ name))
          \<lparr>ti_mode := 420\<rparr>)"

definition write_tar ::
  "(int \<Rightarrow> string) \<Rightarrow> fs \<Rightarrow> (string \<times> path) list \<Rightarrow> string list \<Rightarrow> int \<Rightarrow> blob res" where
  "write_tar who fs members whiteouts mtime =
     ebind (emap (\<lambda>(archive_path, fs_path). ebind (gettarinfo who fs fs_path archive_path)
         (\<lambda>i. Inr (normalise_info mtime i))) members) (\<lambda>infos.
     Inr (Tar (infos @ map (whiteout_marker mtime) (sort whiteouts))))"

definition gzip_deterministic :: "nat \<Rightarrow> int \<Rightarrow> blob \<Rightarrow> blob" where
  "gzip_deterministic level mtime data = Gz level mtime data"

definition make_layer ::
  "sha \<Rightarrow> (blob \<Rightarrow> nat) \<Rightarrow> (int \<Rightarrow> string) \<Rightarrow> rat \<Rightarrow> fs \<Rightarrow> bool \<Rightarrow> nat \<Rightarrow> bool
    \<Rightarrow> (string \<times> path) list \<Rightarrow> string list \<Rightarrow> layer res" where
  \<comment> \<open>\<open>now\<close> is the clock, which only the non-deterministic variant reads\<close>
  "make_layer sha blen who now fs compress level deterministic members whiteouts =
     (let mtime = (if deterministic then FIXED_MTIME else \<lfloor>now\<rfloor>) in
      ebind (write_tar who fs members whiteouts mtime) (\<lambda>tar.
      let diff_id = ''sha256:'' @ sha tar in
      if \<not> compress then
        Inr \<lparr>ly_diff_id = diff_id, ly_digest = diff_id, ly_size = int (blen tar),
             ly_uncompressed_size = int (blen tar), ly_blob = tar, ly_media_type = MEDIA_LAYER_TAR\<rparr>
      else
        let b = gzip_deterministic level mtime tar in
        Inr \<lparr>ly_diff_id = diff_id, ly_digest = digest_of sha b, ly_size = int (blen b),
             ly_uncompressed_size = int (blen tar), ly_blob = b, ly_media_type = MEDIA_LAYER_GZIP\<rparr>))"

definition layer_from_directory ::
  "sha \<Rightarrow> (blob \<Rightarrow> nat) \<Rightarrow> (int \<Rightarrow> string) \<Rightarrow> rat \<Rightarrow> fs \<Rightarrow> bool \<Rightarrow> nat \<Rightarrow> bool \<Rightarrow> path \<Rightarrow> layer res" where
  "layer_from_directory sha blen who now fs compress level deterministic base =
     make_layer sha blen who now fs compress level deterministic (sorted_walk fs base) []"

section \<open>Applying a layer\<close>

definition is_within :: "path \<Rightarrow> path \<Rightarrow> bool" where
  \<comment> \<open>\<open>_within\<close>: nothing starts with the separator doubled, so below the root directory only itself is\<close>
  "is_within base p = (normal p = normal base
     \<or> (normal base \<noteq> [] \<and> normal p \<noteq> normal base \<and> at_or_below (normal base) (normal p)))"

definition remove_path :: "path \<Rightarrow> (unit, fs) act" where
  \<comment> \<open>\<open>_remove\<close>\<close>
  "remove_path p fs =
     (if \<not> lexists fs p then (Inr (), fs)
      else if isdir fs p \<and> \<not> islink fs p then rmtree p fs
      else fs_unlink p fs)"

definition apply_whiteout :: "path \<Rightarrow> tar_info \<Rightarrow> (unit, fs) act" where
  \<comment> \<open>the body of the first loop of \<open>extract_layer\<close>\<close>
  "apply_whiteout dest i fs =
     (case path_split (ti_name i) of (parent, name) \<Rightarrow>
        if name = OPAQUE_MARKER then
          (let target = (if parent \<noteq> [] then under dest parent else dest) in
           if isdir fs target then aeach (\<lambda>e. remove_path (target @ [e])) (listdir fs target) fs
           else (Inr (), fs))
        else if starts_with name WHITEOUT_PREFIX then
          remove_path (under dest
            (if parent \<noteq> [] then path_join parent (drop (length WHITEOUT_PREFIX) name)
             else drop (length WHITEOUT_PREFIX) name)) fs
        else (Inr (), fs))"

definition apply_member :: "(bool \<Rightarrow> fattr) \<Rightarrow> path \<Rightarrow> tar_info \<Rightarrow> (unit, fs) act" where
  \<comment> \<open>the body of the second loop\<close>
  "apply_member new dest i fs =
     (if starts_with (snd (path_split (ti_name i))) WHITEOUT_PREFIX then (Inr (), fs)
      else
        let target = under dest (ti_name i) in
        if \<not> is_within dest target then (Inl (ValueError (''layer escapes root: '' @ ti_name i)), fs)
        else
          abind (\<lambda>fs. if lexists fs target \<and> \<not> (ti_type i = TDir \<and> isdir fs target)
                      then remove_path target fs else (Inr (), fs)) (\<lambda>_.
          abind (tar_extract new i dest) (\<lambda>_.
          if ti_type i = TReg \<or> ti_type i = TDir then fs_chmod (ti_mode i) target else aret ())) fs)"

definition extract_layer :: "(bool \<Rightarrow> fattr) \<Rightarrow> blob \<Rightarrow> path \<Rightarrow> bool \<Rightarrow> (unit, fs) act" where
  "extract_layer new b dest compressed =
     abind (alift (if compressed then (case b of Gz level mtime r \<Rightarrow> Inr r | _ \<Rightarrow> Inl (OSError ''Not a gzipped file''))
                   else Inr b)) (\<lambda>raw.
     abind (makedirs new dest) (\<lambda>_.
     case raw of
       Tar members \<Rightarrow> abind (aeach (apply_whiteout dest) members) (\<lambda>_. aeach (apply_member new dest) members)
     | _ \<Rightarrow> alift (Inl (TarError ''file could not be opened successfully''))))"

definition unpack_image :: "sha \<Rightarrow> (bool \<Rightarrow> fattr) \<Rightarrow> img_store \<Rightarrow> string \<Rightarrow> path \<Rightarrow> (unit, fs) act" where
  \<comment> \<open>\<open>ImageStore.unpack\<close>\<close>
  "unpack_image sha new st ref dest =
     abind (alift (get_manifest sha st ref)) (\<lambda>m.
     abind (\<lambda>fs. if path_exists fs dest then rmtree dest fs else (Inr (), fs)) (\<lambda>_.
     abind (makedirs new dest) (\<lambda>_.
     aeach (\<lambda>d. abind (alift (get_blob sha st (d_digest d)))
       (\<lambda>b. extract_layer new b dest (d_media d = MEDIA_LAYER_GZIP))) (mf_layers m))))"

end
