(* ===== verification/Image_Dockerfile.thy ===== *)
theory Image_Dockerfile
  imports Objects
begin

text \<open>
  The Dockerfile parser, \<open>modules/image-toolkit/imagekit/dockerfile.py\<close>: logical lines, flags,
  stages and instructions, durations, the exec form and key/value arguments.  \<open>shlex.split\<close> and
  \<open>json.loads\<close> of a JSON array are arguments of the functions that call them.  Line ends are
  line feeds.
\<close>

section \<open>Instructions and stages\<close>

record instruction =
  in_op :: string
  in_args :: string
  in_flags :: "(string \<times> string) list"
  in_line :: nat

record stage =
  sg_base :: string
  sg_name :: "string option"
  sg_index :: nat
  sg_instructions :: "instruction list"

definition instr_text :: "instruction \<Rightarrow> string" where
  "instr_text i =
     strip (in_op i @ concat (map (\<lambda>(k, v). '' --'' @ k @ ''='' @ v) (sort (in_flags i)))
            @ '' '' @ in_args i)"

definition stage_label :: "stage \<Rightarrow> string" where
  "stage_label s = (case sg_name s of Some (c # cs) \<Rightarrow> c # cs | _ \<Rightarrow> ''stage-'' @ str_nat (sg_index s))"

definition known_ops :: "string list" where
  "known_ops = [''COPY'', ''RUN'', ''ENV'', ''ARG'', ''WORKDIR'', ''USER'', ''ENTRYPOINT'', ''CMD'',
     ''EXPOSE'', ''LABEL'', ''HEALTHCHECK'', ''STOPSIGNAL'']"

section \<open>Logical lines\<close>

definition splitlines :: "string \<Rightarrow> string list" where
  \<comment> \<open>\<open>s.splitlines()\<close>: no empty last line after a final line end\<close>
  "splitlines s =
     (let ls = split_char (CHR 0x0A) s in if last ls = [] then butlast ls else ls)"

definition join_parts :: "string list \<Rightarrow> string" where
  "join_parts buf = join '' '' (filter (\<lambda>p. p \<noteq> []) buf)"

fun logical_lines :: "(nat \<times> string) list \<Rightarrow> string list \<Rightarrow> nat \<Rightarrow> (nat \<times> string) list" where
  \<comment> \<open>the numbered raw lines, the buffer and the line it started at\<close>
  "logical_lines [] buf start = (if buf \<noteq> [] then [(start, join_parts buf)] else [])"
| "logical_lines ((number, raw) # rest) buf start =
     (let stripped = strip raw in
      if buf = [] \<and> (stripped = [] \<or> starts_with stripped ''#'') then logical_lines rest buf start
      else if buf \<noteq> [] \<and> starts_with stripped ''#'' then logical_lines rest buf start
      else if ends_with stripped [CHR 0x5C] then
        logical_lines rest (buf @ [strip (butlast stripped)]) (if buf = [] then number else start)
      else if buf \<noteq> [] then (start, join_parts (buf @ [stripped])) # logical_lines rest [] start
      else (number, stripped) # logical_lines rest [] start)"

definition numbered_lines :: "string \<Rightarrow> (nat \<times> string) list" where
  "numbered_lines source = (let ls = splitlines source in zip [1..<Suc (length ls)] ls)"

section \<open>Flags\<close>

definition flag_char :: "char \<Rightarrow> bool" where
  "flag_char c = (is_digit c \<or> (65 \<le> code_of c \<and> code_of c \<le> 90) \<or> (97 \<le> code_of c \<and> code_of c \<le> 122)
     \<or> c = CHR ''_'' \<or> c = CHR ''-'')"

definition match_flag :: "string \<Rightarrow> (string \<times> string) option" where
  \<comment> \<open>the pattern \<open>--NAME\<close> or \<open>--NAME=VALUE\<close>; a flag without value is \<open>true\<close>\<close>
  "match_flag token =
     (if \<not> starts_with token ''--'' then None
      else (let name = takeWhile flag_char (drop 2 token); rest = dropWhile flag_char (drop 2 token)
            in if name = [] then None
               else if rest = [] then Some (name, ''true'')
               else if hd rest = CHR ''='' then Some (name, tl rest)
               else None))"

fun take_flags :: "(string \<times> string) list \<Rightarrow> string list \<Rightarrow> (string \<times> string) list \<times> string list" where
  "take_flags flags [] = (flags, [])"
| "take_flags flags (token # tokens) =
     (case match_flag token of
        None \<Rightarrow> (flags, token # tokens)
      | Some (k, v) \<Rightarrow> take_flags (AList.update k v flags) tokens)"

definition split_flags :: "string \<Rightarrow> (string \<times> string) list \<times> string" where
  "split_flags args =
     (case take_flags [] (py_split args) of (flags, rest) \<Rightarrow> (flags, join '' '' rest))"

section \<open>The parser\<close>

definition from_stage :: "string \<Rightarrow> nat \<Rightarrow> stage res" where
  \<comment> \<open>the \<open>FROM\<close> branch of \<open>parse\<close>\<close>
  "from_stage args idx =
     (case py_split args of
        [] \<Rightarrow> Inl (IndexError ''list index out of range'')
      | base # parts \<Rightarrow>
          (case parts of
             as # name # _ \<Rightarrow>
               if upper as = ''AS''
               then Inr \<lparr>sg_base = base, sg_name = Some name, sg_index = idx, sg_instructions = []\<rparr>
               else Inl (ValueError ''malformed FROM'')
           | [] \<Rightarrow> Inr \<lparr>sg_base = base, sg_name = None, sg_index = idx, sg_instructions = []\<rparr>
           | _ \<Rightarrow> Inl (ValueError ''malformed FROM'')))"

definition add_instruction :: "instruction \<Rightarrow> stage list \<Rightarrow> stage list" where
  \<comment> \<open>\<open>stages[-1].instructions.append(..)\<close>\<close>
  "add_instruction i ss =
     butlast ss @ [(last ss)\<lparr>sg_instructions := sg_instructions (last ss) @ [i]\<rparr>]"

fun parse_lines :: "(nat \<times> string) list \<Rightarrow> stage list \<Rightarrow> stage list res" where
  "parse_lines [] stages =
     (if stages = [] then Inl (ValueError ''Dockerfile contains no FROM instruction'') else Inr stages)"
| "parse_lines ((number, line) # rest) stages =
     (case partition_char CHR '' '' line of (op0, _, rest0) \<Rightarrow>
      let op = upper op0; (flags, args) = split_flags (strip rest0) in
      if op = ''FROM'' then
        ebind (from_stage args (length stages)) (\<lambda>s. parse_lines rest (stages @ [s]))
      else if stages = [] then
        (if op = ''ARG'' then parse_lines rest stages else Inl (ValueError (op @ '' before any FROM'')))
      else if op \<notin> set known_ops then Inl (ValueError (''unsupported instruction '' @ op))
      else parse_lines rest (add_instruction
             \<lparr>in_op = op, in_args = args, in_flags = flags, in_line = number\<rparr> stages))"

definition parse_dockerfile :: "string \<Rightarrow> stage list res" where
  "parse_dockerfile source = parse_lines (logical_lines (numbered_lines source) [] 0) []"

section \<open>Arguments\<close>

definition unit_at :: "string \<Rightarrow> (rat \<times> nat) option" where
  \<comment> \<open>the alternatives of the pattern in order: \<open>ms\<close>, \<open>s\<close>, \<open>m\<close>, \<open>h\<close>; the factor in seconds and the length\<close>
  "unit_at s = (if starts_with s ''ms'' then Some (1 / 1000, 2)
     else if starts_with s ''s'' then Some (1, 1)
     else if starts_with s ''m'' then Some (60, 1)
     else if starts_with s ''h'' then Some (3600, 1) else None)"

definition decimal_at :: "string \<Rightarrow> (rat \<times> string) option" where
  \<comment> \<open>digits, then a point and digits if there are any: the value and the rest\<close>
  "decimal_at s =
     (let whole = takeWhile is_digit s; rest = dropWhile is_digit s;
          frac = takeWhile is_digit (tl rest)
      in if whole = [] then None
         else if rest \<noteq> [] \<and> hd rest = CHR ''.'' \<and> frac \<noteq> []
         then Some (of_nat (digits_val whole) + of_nat (digits_val frac) / 10 ^ length frac,
                    dropWhile is_digit (tl rest))
         else Some (of_nat (digits_val whole), rest))"

function durations :: "string \<Rightarrow> rat list" where
  \<comment> \<open>\<open>re.findall\<close>: from the left, a position without a match is skipped\<close>
  "durations s =
     (case s of
        [] \<Rightarrow> []
      | c # cs \<Rightarrow>
          (case decimal_at s of
             None \<Rightarrow> durations cs
           | Some (r, rest) \<Rightarrow>
               (case unit_at rest of
                  None \<Rightarrow> durations cs
                | Some (f, n) \<Rightarrow> r * f # durations (drop n rest))))"
  by auto

lemma decimal_at_shorter: "decimal_at s = Some (r, rest) \<Longrightarrow> length rest \<le> length s"
proof -
  assume a: "decimal_at s = Some (r, rest)"
  have "length (dropWhile is_digit (tl (dropWhile is_digit s))) \<le> length s"
    using length_dropWhile_le [of is_digit "tl (dropWhile is_digit s)"] length_dropWhile_le [of is_digit s]
    by simp
  with a show ?thesis
    using length_dropWhile_le [of is_digit s] by (auto simp: decimal_at_def Let_def split: if_splits)
qed

lemma starts_with_length: "starts_with s p \<Longrightarrow> length p \<le> length s"
  unfolding starts_with_def by (metis length_take min.absorb_iff2 min.commute)

lemma unit_at_length: "unit_at s = Some (f, n) \<Longrightarrow> 0 < n \<and> n \<le> length s"
  by (auto simp: unit_at_def split: if_splits dest!: starts_with_length)

termination durations
proof (relation "measure length")
  fix s c cs p r rest q f n
  assume "s = c # cs" "decimal_at s = Some p" "(r, rest) = p" "unit_at rest = Some q" "(f, n) = q"
  then show "(drop n rest, s) \<in> measure length"
    using decimal_at_shorter [of s r rest] unit_at_length [of rest f n] by auto
qed auto

declare durations.simps [simp del]

definition parse_duration :: "string \<Rightarrow> rat res" where
  "parse_duration txt =
     (let parts = durations txt in
      if parts = [] then Inl (ValueError ''unparseable duration'') else Inr (sum_list parts))"

definition parse_exec_form :: "(string \<Rightarrow> string list res) \<Rightarrow> string \<Rightarrow> (string list \<times> bool) res" where
  \<comment> \<open>\<open>jarr\<close>: \<open>json.loads\<close> of the text, with \<open>str\<close> of each element\<close>
  "parse_exec_form jarr args =
     (let txt = strip args in
      if starts_with txt ''['' then ebind (jarr txt) (\<lambda>vs. Inr (vs, True))
      else Inr ([''/bin/sh'', ''-c'', txt], False))"

fun add_tokens :: "string list \<Rightarrow> (string \<times> string) list \<Rightarrow> (string \<times> string) list" where
  "add_tokens [] kvs = kvs"
| "add_tokens (token # tokens) kvs =
     (case partition_char CHR ''='' token of (key, _, val) \<Rightarrow> add_tokens tokens (AList.update key val kvs))"

definition parse_key_values :: "(string \<Rightarrow> string list res) \<Rightarrow> string \<Rightarrow> (string \<times> string) list res" where
  \<comment> \<open>\<open>shsplit\<close> is \<open>shlex.split\<close>\<close>
  "parse_key_values shsplit args =
     (let txt = strip args in
      if CHR ''='' \<notin> set (hd (splitn_char 1 CHR '' '' txt)) then
        (case partition_char CHR '' '' txt of (key, _, val) \<Rightarrow> Inr [(key, strip val)])
      else ebind (shsplit txt) (\<lambda>tokens. Inr (add_tokens tokens [])))"

section \<open>Well-formed results\<close>

definition stage_wf :: "nat \<Rightarrow> stage \<Rightarrow> bool" where
  "stage_wf k s = (sg_index s = k \<and> sg_base s \<noteq> [] \<and> list_all (\<lambda>i. in_op i \<in> set known_ops) (sg_instructions s))"

definition stages_wf :: "stage list \<Rightarrow> bool" where
  "stages_wf ss = (\<forall>k < length ss. stage_wf k (ss ! k))"

lemma words_nonempty: "w \<in> set (words_aux acc s) \<Longrightarrow> w \<noteq> []"
  by (induction acc s rule: words_aux.induct) (auto split: if_splits)

lemma from_stage_wf: "from_stage args k = Inr s \<Longrightarrow> stage_wf k s"
proof -
  have "[] \<notin> set (py_split args)" unfolding py_split_def using words_nonempty by blast
  then show "from_stage args k = Inr s \<Longrightarrow> stage_wf k s"
    by (auto simp: from_stage_def stage_wf_def split: list.splits if_splits)
qed

lemma stages_wf_snoc: "stages_wf ss \<Longrightarrow> stage_wf (length ss) s \<Longrightarrow> stages_wf (ss @ [s])"
  by (auto simp: stages_wf_def nth_append less_Suc_eq)

lemma stages_wf_add:
  assumes "stages_wf ss" "ss \<noteq> []" "in_op i \<in> set known_ops"
  shows "stages_wf (add_instruction i ss)"
proof -
  have ss: "ss = butlast ss @ [last ss]" using assms(2) by simp
  have "stages_wf (butlast ss)" "stage_wf (length (butlast ss)) (last ss)"
    using assms(1,2) by (auto simp: stages_wf_def nth_butlast last_conv_nth)
  then show ?thesis
    unfolding add_instruction_def using assms(3) by (auto simp: stage_wf_def intro: stages_wf_snoc)
qed

lemma parse_lines_wf:
  "parse_lines ls ss = Inr r \<Longrightarrow> stages_wf ss \<Longrightarrow> r \<noteq> [] \<and> stages_wf r"
proof (induction ls ss rule: parse_lines.induct)
  case (2 number line rest stages)
  obtain op0 f rest0 where p: "partition_char CHR '' '' line = (op0, f, rest0)" by (metis prod_cases3)
  obtain flags args where q: "split_flags (strip rest0) = (flags, args)" by (cases "split_flags (strip rest0)")
  let ?op = "upper op0"
  consider (from') s where "?op = ''FROM''" "from_stage args (length stages) = Inr s"
      "parse_lines rest (stages @ [s]) = Inr r"
    | (arg) "?op \<noteq> ''FROM''" "stages = []" "?op = ''ARG''" "parse_lines rest stages = Inr r"
    | (inst) "?op \<noteq> ''FROM''" "stages \<noteq> []" "?op \<in> set known_ops"
      "parse_lines rest (add_instruction
         \<lparr>in_op = ?op, in_args = args, in_flags = flags, in_line = number\<rparr> stages) = Inr r"
    using 2(4) p q by (auto simp: Let_def ebind_Inr_iff split: if_splits)
  then show ?case
  proof cases
    case from'
    then have "stages_wf (stages @ [s])" using 2(5) by (auto intro: stages_wf_snoc from_stage_wf)
    then show ?thesis using from' 2 p q by auto
  next
    case arg
    then show ?thesis using 2 p q by auto
  next
    case inst
    let ?i = "\<lparr>in_op = upper op0, in_args = args, in_flags = flags, in_line = number\<rparr>"
    have "stages_wf (add_instruction ?i stages)" using inst 2(5) by (intro stages_wf_add) simp_all
    then show ?thesis using inst 2 p q by auto
  qed
qed (auto split: if_splits)

section \<open>Durations\<close>

definition unit_text :: "nat \<Rightarrow> string" where
  "unit_text u = (if u = 0 then ''ms'' else if u = 1 then ''s'' else if u = 2 then ''m'' else ''h'')"

definition unit_secs :: "nat \<Rightarrow> rat" where
  "unit_secs u = (if u = 0 then 1 / 1000 else if u = 1 then 1 else if u = 2 then 60 else 3600)"

fun show_duration :: "(nat \<times> nat) list \<Rightarrow> string" where
  \<comment> \<open>the reference text: whole numbers with their units, as in \<open>1m30s\<close>\<close>
  "show_duration [] = []"
| "show_duration ((n, u) # ps) = str_nat n @ unit_text u @ show_duration ps"

lemma digits_prefix:
  "list_all is_digit ds \<Longrightarrow> r = [] \<or> \<not> is_digit (hd r) \<Longrightarrow>
     takeWhile is_digit (ds @ r) = ds \<and> dropWhile is_digit (ds @ r) = r"
  by (induction ds) (auto simp: takeWhile_eq_Nil_iff dropWhile_eq_self_iff)

lemma decimal_at_str: "r \<noteq> [] \<Longrightarrow> \<not> is_digit (hd r) \<Longrightarrow> hd r \<noteq> CHR ''.'' \<Longrightarrow>
    decimal_at (str_nat n @ r) = Some (of_nat n, r)"
  using digits_prefix [of "str_nat n" r] str_nat_digits [of n] by (simp add: decimal_at_def Let_def)

lemma show_duration_hd: "show_duration ps = [] \<or> is_digit (hd (show_duration ps))"
proof (cases ps)
  case (Cons p qs)
  obtain n u where p: "p = (n, u)" by (cases p)
  obtain c cs where c: "str_nat n = c # cs" using str_nat_digits [of n] by (cases "str_nat n") auto
  then have "is_digit c" using str_nat_digits [of n] by simp
  then show ?thesis using Cons p c by simp
qed simp

lemma unit_at_text: "unit_at (unit_text u @ show_duration ps) = Some (unit_secs u, length (unit_text u))"
proof -
  have "\<not> (\<exists>cs. show_duration ps = CHR ''s'' # cs)"
    using show_duration_hd [of ps] by (auto simp: is_digit_def code_of_def)
  then show ?thesis
    by (cases "show_duration ps") (auto simp: unit_at_def unit_text_def unit_secs_def starts_with_def)
qed

lemma durations_show: "durations (show_duration ps) = map (\<lambda>(n, u). of_nat n * unit_secs u) ps"
proof (induction ps)
  case Nil
  then show ?case by (subst durations.simps) simp
next
  case (Cons p ps)
  obtain n u where p: "p = (n, u)" by (cases p)
  let ?r = "unit_text u @ show_duration ps"
  have r: "?r \<noteq> []" "\<not> is_digit (hd ?r)" "hd ?r \<noteq> CHR ''.''"
    by (auto simp: unit_text_def is_digit_def code_of_def)
  obtain c cs where c: "str_nat n @ ?r = c # cs" using r(1) by (cases "str_nat n @ ?r") auto
  have "durations (str_nat n @ ?r) = (of_nat n * unit_secs u) # durations (show_duration ps)"
    unfolding c using decimal_at_str [OF r, of n] unit_at_text [of u ps]
    by (subst durations.simps) (simp add: c)
  with p Cons show ?case by simp
qed

section \<open>Properties\<close>

text \<open>C29: A parsed Dockerfile has at least one stage, the stages are numbered in order, each has a
  base image, and every instruction of every stage is one of the supported ones.\<close>

theorem parse_dockerfile_type:
  assumes "parse_dockerfile source = Inr ss"
  shows "ss \<noteq> [] \<and> (\<forall>k < length ss. sg_index (ss ! k) = k \<and> sg_base (ss ! k) \<noteq> []
    \<and> (\<forall>i \<in> set (sg_instructions (ss ! k)). in_op i \<in> set known_ops))"
proof -
  have "stages_wf []" by (simp add: stages_wf_def)
  with assms have "ss \<noteq> [] \<and> stages_wf ss" unfolding parse_dockerfile_def by (blast dest: parse_lines_wf)
  then show ?thesis by (auto simp: stages_wf_def stage_wf_def list_all_iff)
qed

theorem parse_dockerfile_type_witness:
  "\<exists>ss. parse_dockerfile (''FROM a AS b'' @ [CHR 0x0A] @ ''RUN x'') = Inr ss \<and> sg_base (ss ! 0) \<noteq> []"
proof -
  have a: "parse_dockerfile (''FROM a AS b'' @ [CHR 0x0A] @ ''RUN x'') =
     Inr [\<lparr>sg_base = ''a'', sg_name = Some ''b'', sg_index = 0, sg_instructions =
       [\<lparr>in_op = ''RUN'', in_args = ''x'', in_flags = [], in_line = 2\<rparr>]\<rparr>]"
    by code_simp
  from parse_dockerfile_type [OF a] a show ?thesis by auto
qed

text \<open>Durations written as numbers with units, in any order and number, parse to the sum of their
  values in seconds; a text without any is refused.\<close>

theorem parse_duration_sum:
  "parse_duration (show_duration ps) =
     (if ps = [] then Inl (ValueError ''unparseable duration'')
      else Inr (\<Sum>(n, u) \<leftarrow> ps. of_nat n * unit_secs u))"
  by (simp add: parse_duration_def durations_show Let_def)

definition quoted :: "string \<Rightarrow> string" where
  "quoted s = CHR 0x27 # s @ [CHR 0x27]"

text \<open>The arguments of every instruction are split at white space and joined by single blanks,
  so that blanks inside quotes are lost, and a duration is searched for anywhere in the text, so
  that the unit-less rest of it is dropped without an error.\<close>

theorem dockerfile_text_lost:
  "parse_dockerfile (''FROM scratch'' @ [CHR 0x0A] @ ''RUN echo '' @ quoted ''a  b'') =
     Inr [\<lparr>sg_base = ''scratch'', sg_name = None, sg_index = 0, sg_instructions =
       [\<lparr>in_op = ''RUN'', in_args = ''echo '' @ quoted ''a b'', in_flags = [], in_line = 2\<rparr>]\<rparr>]
   \<and> parse_duration ''1h30'' = Inr 3600"
  by code_simp

end
