(* ===== verification/Image_Build.thy ===== *)
theory Image_Build
  imports Image_Layer Image_Dockerfile
begin

text \<open>
  The image builder, \<open>modules/image-toolkit/imagekit/build.py\<close>: the chained cache keys, the
  build cache, the effect of every instruction on the image configuration, the recording of a
  built and of a cached layer, the last step that publishes the image, the comparison of file
  system snapshots, and the packaging checks.  What copies, runs or unpacks files is not part
  of this theory; the built \<open>Layer\<close> is a value.
\<close>

section \<open>Cache keys\<close>

abbreviation LF :: char where
  "LF \<equiv> CHR 0x0A"

definition chain_text :: "string \<Rightarrow> string \<Rightarrow> string \<Rightarrow> string" where
  "chain_text parent_key instruction_text input_hash =
     parent_key @ [LF] @ instruction_text @ [LF] @ input_hash"

definition chain_key :: "sha \<Rightarrow> string \<Rightarrow> string \<Rightarrow> string \<Rightarrow> string" where
  \<comment> \<open>\<open>_chain\<close>\<close>
  "chain_key sha parent_key instruction_text input_hash =
     sha (Raw (chain_text parent_key instruction_text input_hash))"

section \<open>The build cache\<close>

record build_cache =
  bc_entries :: dict
  bc_file_hashes :: dict

definition load_cache :: "json res option \<Rightarrow> build_cache res" where
  \<comment> \<open>\<open>BuildCache.__init__\<close>: no file, an unreadable or undecodable file, or a decoded one\<close>
  "load_cache file =
     (case file of
        None \<Rightarrow> Inr \<lparr>bc_entries = fmempty, bc_file_hashes = fmempty\<rparr>
      | Some (Inl e) \<Rightarrow> Inr \<lparr>bc_entries = fmempty, bc_file_hashes = fmempty\<rparr>
      | Some (Inr j) \<Rightarrow>
          ebind (py_dict j) (\<lambda>b.
          ebind (dict_of (dget b ''entries'' (JObj fmempty))) (\<lambda>en.
          ebind (dict_of (dget b ''file_hashes'' (JObj fmempty))) (\<lambda>fs.
          Inr \<lparr>bc_entries = en, bc_file_hashes = fs\<rparr>))))"

definition cache_json :: "build_cache \<Rightarrow> json" where
  \<comment> \<open>what \<open>BuildCache.save\<close> writes\<close>
  "cache_json c = JObj (fmap_of_list
     [(''entries'', JObj (bc_entries c)), (''file_hashes'', JObj (bc_file_hashes c))])"

definition cache_get :: "string \<Rightarrow> build_cache \<Rightarrow> json option" where
  "cache_get key c = fmlookup (bc_entries c) key"

definition cache_put :: "string \<Rightarrow> json \<Rightarrow> build_cache \<Rightarrow> build_cache" where
  "cache_put key v c = c\<lparr>bc_entries := fmupd key v (bc_entries c)\<rparr>"

record host_file =
  hf_size :: int
  hf_mtime_ns :: int
  hf_data :: string

fun memo_hit :: "json \<Rightarrow> host_file \<Rightarrow> string option res" where
  \<comment> \<open>\<open>cached[0] == size and cached[1] == mtime_ns\<close>, then \<open>cached[2]\<close>\<close>
  "memo_hit (JList (a # b # rest)) f =
     (if a = JNum (of_int (hf_size f)) \<and> b = JNum (of_int (hf_mtime_ns f))
      then (case rest of x # _ \<Rightarrow> ebind (jstr x) (\<lambda>d. Inr (Some d))
            | [] \<Rightarrow> Inl (IndexError ''list index out of range''))
      else Inr None)"
| "memo_hit (JList [a]) f =
     (if a = JNum (of_int (hf_size f)) then Inl (IndexError ''list index out of range'') else Inr None)"
| "memo_hit v f = (if truthy v then Inl (TypeError ''object is not subscriptable'') else Inr None)"

definition content_hash :: "sha \<Rightarrow> (string \<Rightarrow> host_file option) \<Rightarrow> string \<Rightarrow> (string, build_cache) act" where
  "content_hash sha host path c =
     (case host path of
        None \<Rightarrow> (Inl (FileNotFoundError path), c)
      | Some f \<Rightarrow>
          (case memo_hit (dget (bc_file_hashes c) path JNull) f of
             Inl e \<Rightarrow> (Inl e, c)
           | Inr (Some d) \<Rightarrow> (Inr d, c)
           | Inr None \<Rightarrow>
               (let d = sha (Raw (hf_data f)) in
                (Inr d, c\<lparr>bc_file_hashes := fmupd path
                   (JList [JNum (of_int (hf_size f)), JNum (of_int (hf_mtime_ns f)), JStr d])
                   (bc_file_hashes c)\<rparr>))))"

text \<open>The memo is right wherever it would be used: an entry that has the size and the time stamp of
  the file has the hash of its content.\<close>

definition memo_ok :: "sha \<Rightarrow> (string \<Rightarrow> host_file option) \<Rightarrow> build_cache \<Rightarrow> bool" where
  "memo_ok sha host c \<longleftrightarrow> (\<forall>path f. host path = Some f \<longrightarrow>
     memo_hit (dget (bc_file_hashes c) path JNull) f \<in> {Inr None, Inr (Some (sha (Raw (hf_data f))))})"

section \<open>Steps and results\<close>

record step_result =
  sr_instruction :: string
  sr_cached :: bool
  sr_layer_digest :: "string option"
  sr_layer_size :: int
  sr_duration :: rat

definition produces_layer :: "step_result \<Rightarrow> bool" where
  "produces_layer s = (sr_layer_digest s \<noteq> None)"

record build_result =
  br_reference :: string
  br_manifest :: manifest
  br_config :: image_config
  br_steps :: "step_result list"
  br_stages_built :: nat

definition br_image_size :: "build_result \<Rightarrow> int" where
  "br_image_size r = total_layer_bytes (br_manifest r) + d_size (mf_config (br_manifest r))"

definition layer_steps :: "build_result \<Rightarrow> step_result list" where
  "layer_steps r = filter produces_layer (br_steps r)"

definition cache_hits :: "build_result \<Rightarrow> nat" where
  "cache_hits r = length (filter sr_cached (layer_steps r))"

definition bytes_rebuilt :: "build_result \<Rightarrow> int" where
  "bytes_rebuilt r = sum_list (map sr_layer_size (filter (\<lambda>s. \<not> sr_cached s) (layer_steps r)))"

definition layer_sizes :: "build_result \<Rightarrow> int list" where
  "layer_sizes r = map d_size (mf_layers (br_manifest r))"

definition step_result_of :: "instruction \<Rightarrow> descriptor option \<Rightarrow> rat \<Rightarrow> step_result" where
  \<comment> \<open>the \<open>StepResult\<close> that \<open>build\<close> records after an instruction\<close>
  "step_result_of i d elapsed =
     \<lparr>sr_instruction = take 100 (instr_text i),
      sr_cached = (case d of None \<Rightarrow> False | Some x \<Rightarrow> fmlookup (d_annotations x) ''cached'' = Some (JStr ''1'')),
      sr_layer_digest = (case d of None \<Rightarrow> None | Some x \<Rightarrow> Some (d_digest x)),
      sr_layer_size = (case d of None \<Rightarrow> 0 | Some x \<Rightarrow> d_size x),
      sr_duration = elapsed\<rparr>"

section \<open>Instructions that change the configuration\<close>

definition flag_or :: "instruction \<Rightarrow> string \<Rightarrow> string \<Rightarrow> string" where
  \<comment> \<open>\<open>instruction.flags.get(k, default)\<close>\<close>
  "flag_or i k dflt = (case map_of (in_flags i) k of None \<Rightarrow> dflt | Some v \<Rightarrow> v)"

definition env_update :: "(string \<times> string) list \<Rightarrow> (string \<times> string) list \<Rightarrow> (string \<times> string) list" where
  \<comment> \<open>\<open>d.update(kvs)\<close>\<close>
  "env_update kvs d = fold (\<lambda>(k, v). AList.update k v) kvs d"

definition labels_update :: "(string \<times> string) list \<Rightarrow> dict \<Rightarrow> dict" where
  "labels_update kvs d = fold (\<lambda>(k, v). fmupd k (JStr v)) kvs d"

definition healthcheck_of :: "(string \<Rightarrow> string list res) \<Rightarrow> instruction \<Rightarrow> healthcheck option res" where
  \<comment> \<open>the \<open>HEALTHCHECK\<close> branch\<close>
  "healthcheck_of jarr i =
     (if upper (strip (in_args i)) = ''NONE'' then Inr None
      else (case partition_char CHR '' '' (in_args i) of (keyword, _, command) \<Rightarrow>
        if upper keyword \<noteq> ''CMD'' then Inl (BuildError (''HEALTHCHECK expects CMD, got '' @ keyword))
        else
          ebind (parse_exec_form jarr command) (\<lambda>(test, was_json).
          ebind (parse_duration (flag_or i ''interval'' ''30s'')) (\<lambda>iv.
          ebind (parse_duration (flag_or i ''timeout'' ''5s'')) (\<lambda>tm.
          ebind (parse_duration (flag_or i ''start-period'' ''0s'')) (\<lambda>sp.
          ebind (py_int (JStr (flag_or i ''retries'' ''3''))) (\<lambda>rt.
          Inr (Some \<lparr>hc_test = (if was_json then ''CMD'' # test else [''CMD-SHELL'', strip command]),
                    hc_interval = iv, hc_timeout = tm, hc_start_period = sp, hc_retries = rt\<rparr>))))))))"

definition apply_metadata ::
  "(string \<Rightarrow> string list res) \<Rightarrow> (string \<Rightarrow> string list res) \<Rightarrow> instruction \<Rightarrow> image_config \<Rightarrow> image_config res" where
  "apply_metadata jarr shsplit i c =
     (let op = in_op i; args = in_args i in
      if op = ''ENV'' \<or> op = ''ARG'' then
        ebind (parse_key_values shsplit args) (\<lambda>kvs. Inr (c\<lparr>ic_env := env_update kvs (ic_env c)\<rparr>))
      else if op = ''WORKDIR'' then
        Inr (c\<lparr>ic_working_dir := if starts_with args ''/'' then args else path_join (ic_working_dir c) args\<rparr>)
      else if op = ''USER'' then Inr (c\<lparr>ic_user := strip args\<rparr>)
      else if op = ''ENTRYPOINT'' then
        ebind (parse_exec_form jarr args) (\<lambda>(v, _). Inr (c\<lparr>ic_entrypoint := v\<rparr>))
      else if op = ''CMD'' then ebind (parse_exec_form jarr args) (\<lambda>(v, _). Inr (c\<lparr>ic_cmd := v\<rparr>))
      else if op = ''EXPOSE'' then
        Inr (c\<lparr>ic_exposed_ports := ic_exposed_ports c
          @ map (\<lambda>p. if CHR ''/'' \<in> set p then p else p @ ''/tcp'') (py_split args)\<rparr>)
      else if op = ''LABEL'' then
        ebind (parse_key_values shsplit args) (\<lambda>kvs. Inr (c\<lparr>ic_labels := labels_update kvs (ic_labels c)\<rparr>))
      else if op = ''STOPSIGNAL'' then Inr (c\<lparr>ic_stop_signal := strip args\<rparr>)
      else if op = ''HEALTHCHECK'' then
        ebind (healthcheck_of jarr i) (\<lambda>h. Inr (c\<lparr>ic_healthcheck := h\<rparr>))
      else Inr c)"

section \<open>Recording layers\<close>

record builder =
  bd_store :: img_store
  bd_cache :: build_cache
  bd_config :: image_config
  bd_layers :: "descriptor list"

definition record_config :: "string \<Rightarrow> instruction \<Rightarrow> image_config \<Rightarrow> image_config" where
  \<comment> \<open>one more diff and its history entry\<close>
  "record_config diff i c =
     c\<lparr>ic_diff_ids := ic_diff_ids c @ [diff], ic_history := ic_history c @ [history_entry (instr_text i) False]\<rparr>"

definition record_layer ::
  "sha \<Rightarrow> (blob \<Rightarrow> nat) \<Rightarrow> string \<Rightarrow> layer \<Rightarrow> instruction \<Rightarrow> (descriptor, builder) act" where
  "record_layer sha blen key l i bd =
     (case put_blob sha blen (ly_blob l) (bd_store bd) of
        (Inl e, st) \<Rightarrow> (Inl e, bd\<lparr>bd_store := st\<rparr>)
      | (Inr _, st) \<Rightarrow>
          (let d = mk_descriptor (ly_media_type l) (ly_digest l) (ly_size l) in
           (Inr d, bd\<lparr>bd_store := st,
              bd_cache := cache_put key (JObj (fmap_of_list
                [(''digest'', JStr (ly_digest l)), (''diff_id'', JStr (ly_diff_id l)),
                 (''size'', JNum (of_int (ly_size l)))])) (bd_cache bd),
              bd_layers := bd_layers bd @ [d],
              bd_config := record_config (ly_diff_id l) i (bd_config bd)\<rparr>)))"

definition cached_usable :: "string \<Rightarrow> builder \<Rightarrow> dict option res" where
  \<comment> \<open>\<open>cached = cache.get(key); if cached and store.has_blob(cached["digest"])\<close>\<close>
  "cached_usable key bd =
     (case cache_get key (bd_cache bd) of
        None \<Rightarrow> Inr None
      | Some v \<Rightarrow>
          if \<not> truthy v then Inr None
          else ebind (obj_of v) (\<lambda>d. ebind (jitem d ''digest'') (\<lambda>x. ebind (jstr x) (\<lambda>dg.
               ebind (has_blob (bd_store bd) dg) (\<lambda>ok. Inr (if ok then Some d else None))))))"

definition record_cached :: "dict \<Rightarrow> instruction \<Rightarrow> (descriptor, builder) act" where
  "record_cached cached i bd =
     (case ebind (jitem cached ''digest'') (\<lambda>x. ebind (jstr x) (\<lambda>dg.
           ebind (jitem cached ''size'') (\<lambda>y. ebind (py_int y) (\<lambda>n. Inr (dg, n))))) of
        Inl e \<Rightarrow> (Inl e, bd)
      | Inr (dg, n) \<Rightarrow>
          (let bd1 = bd\<lparr>bd_layers := bd_layers bd @ [mk_descriptor MEDIA_LAYER_GZIP dg n]\<rparr> in
           case ebind (jitem cached ''diff_id'') jstr of
             Inl e \<Rightarrow> (Inl e, bd1)
           | Inr diff \<Rightarrow>
               (Inr (mk_descriptor MEDIA_LAYER_GZIP dg n
                   \<lparr>d_annotations := fmap_of_list [(''cached'', JStr ''1'')]\<rparr>),
                bd1\<lparr>bd_config := record_config diff i (bd_config bd)\<rparr>)))"

definition metadata_step ::
  "(string \<Rightarrow> string list res) \<Rightarrow> (string \<Rightarrow> string list res) \<Rightarrow> sha \<Rightarrow> string \<Rightarrow> instruction
    \<Rightarrow> (string, builder) act" where
  \<comment> \<open>the first branch of \<open>_apply\<close>: the new key, and no layer\<close>
  "metadata_step jarr shsplit sha parent_key i bd =
     (case apply_metadata jarr shsplit i (bd_config bd) of
        Inl e \<Rightarrow> (Inl e, bd)
      | Inr c \<Rightarrow> (Inr (chain_key sha parent_key (instr_text i) []),
          bd\<lparr>bd_config := c\<lparr>ic_history := ic_history c @ [history_entry (instr_text i) True]\<rparr>\<rparr>))"

definition finalise :: "sha \<Rightarrow> (blob \<Rightarrow> nat) \<Rightarrow> string \<Rightarrow> (manifest, builder) act" where
  "finalise sha blen ref bd =
     (let cfg = (bd_config bd)\<lparr>ic_created := EPOCH\<rparr>;
          (cb, cd) = config_serialise sha blen cfg;
          m = \<lparr>mf_config = cd, mf_layers = map (\<lambda>l. mk_descriptor (d_media l) (d_digest l) (d_size l)) (bd_layers bd),
               mf_annotations = fmempty, mf_subject = None\<rparr>
      in case abind (put_blob sha blen cb) (\<lambda>_. put_image sha blen ref m) (bd_store bd) of
           (Inl e, st) \<Rightarrow> (Inl e, bd\<lparr>bd_store := st, bd_config := cfg\<rparr>)
         | (Inr _, st) \<Rightarrow> (Inr m, bd\<lparr>bd_store := st, bd_config := cfg\<rparr>))"

section \<open>Snapshots, paths and the ignore file\<close>

definition diff_snapshots :: "(string, 'm) fmap \<Rightarrow> (string, 'm) fmap \<Rightarrow> string list \<times> string list" where
  "diff_snapshots before after =
     (filter (\<lambda>p. fmlookup before p \<noteq> fmlookup after p) (sorted_list_of_fset (fmdom after)),
      filter (\<lambda>p. fmlookup after p = None) (sorted_list_of_fset (fmdom before)))"

definition parents :: "string \<Rightarrow> string list" where
  "parents path =
     (let parts = filter (\<lambda>p. p \<noteq> []) (split_char CHR ''/'' path)
      in map (\<lambda>i. join ''/'' (take (Suc i) parts)) [0..<length parts])"

definition read_ignore :: "string option \<Rightarrow> string list" where
  "read_ignore file = (case file of None \<Rightarrow> [] | Some txt \<Rightarrow>
     map strip (filter (\<lambda>l. strip l \<noteq> [] \<and> \<not> starts_with l ''#'') (splitlines txt)))"

section \<open>Packaging checks\<close>

datatype lint_finding =
    RunsAsRoot | NoHealthcheck | ShellEntrypoint | NotRunnable
  | BehindSmaller nat int "nat list"

definition LARGE_LAYER_BYTES :: int where
  "LARGE_LAYER_BYTES = 32 * 1024 * 1024"

definition preceding_small :: "int list \<Rightarrow> nat \<Rightarrow> nat list" where
  "preceding_small sizes i = filter (\<lambda>j. sizes ! j < LARGE_LAYER_BYTES) [0..<i]"

definition lint :: "build_result \<Rightarrow> lint_finding list" where
  "lint r =
     (let c = br_config r; sizes = layer_sizes r in
      (if runs_as_root c then [RunsAsRoot] else [])
      @ (if ic_healthcheck c = None then [NoHealthcheck] else [])
      @ (if take 2 (ic_entrypoint c) = [''/bin/sh'', ''-c''] then [ShellEntrypoint] else [])
      @ (if ic_entrypoint c = [] \<and> ic_cmd c = [] then [NotRunnable] else [])
      @ concat (map (\<lambda>i. if sizes ! i < LARGE_LAYER_BYTES then []
                         else if preceding_small sizes i \<noteq> [] then [BehindSmaller i (sizes ! i) (preceding_small sizes i)]
                         else []) [0..<length sizes]))"

section \<open>Properties\<close>

text \<open>A layer as \<open>make_layer\<close> returns it: named by the hash of its gzipped bytes.\<close>

definition layer_wf :: "sha \<Rightarrow> layer \<Rightarrow> bool" where
  "layer_wf sha l = (ly_digest l = digest_of sha (ly_blob l) \<and> ly_media_type l = MEDIA_LAYER_GZIP)"

text \<open>The entry a built layer leaves in the cache, as a later build finds it.\<close>

lemma record_then_cached:
  assumes "sha_hex sha" "layer_wf sha l"
    and "record_layer sha blen key l i bd = (Inr d, bd')"
    and "blobs_le (bd_store bd') (bd_store bd2)" "cache_get key (bd_cache bd2) = cache_get key (bd_cache bd')"
  shows "\<exists>en. cached_usable key bd2 = Inr (Some en) \<and> jitem en ''digest'' = Inr (JStr (ly_digest l))
    \<and> record_cached en i' bd2 = (Inr (d\<lparr>d_annotations := fmap_of_list [(''cached'', JStr ''1'')]\<rparr>),
        bd2\<lparr>bd_layers := bd_layers bd2 @ [d], bd_config := record_config (ly_diff_id l) i' (bd_config bd2)\<rparr>)"
    and "d = mk_descriptor MEDIA_LAYER_GZIP (ly_digest l) (ly_size l)" "bd_layers bd' = bd_layers bd @ [d]"
    and "bd_config bd' = record_config (ly_diff_id l) i (bd_config bd)"
    and "put_blob sha blen (ly_blob l) (bd_store bd) = (Inr (mk_descriptor ''application/octet-stream'' (ly_digest l) (int (blen (ly_blob l)))), bd_store bd')"
proof -
  let ?e = "fmap_of_list [(''digest'', JStr (ly_digest l)), (''diff_id'', JStr (ly_diff_id l)),
      (''size'', JNum (of_int (ly_size l)))]"
  let ?d = "mk_descriptor MEDIA_LAYER_GZIP (ly_digest l) (ly_size l)"
  have r: "d = ?d" "bd_layers bd' = bd_layers bd @ [?d]"
      "bd_config bd' = record_config (ly_diff_id l) i (bd_config bd)"
      "cache_get key (bd_cache bd') = Some (JObj ?e)"
      "put_blob sha blen (ly_blob l) (bd_store bd) = (Inr (mk_descriptor ''application/octet-stream'' (ly_digest l) (int (blen (ly_blob l)))), bd_store bd')"
    using assms(2,3) by (auto simp: record_layer_def layer_wf_def put_blob_eq [OF assms(1)] Let_def
        cache_get_def cache_put_def split: if_splits)
  have "fmlookup (is_blobs (bd_store bd')) (sha (ly_blob l)) \<noteq> None"
    using put_blob_present [OF r(5)] by simp
  then have "has_blob (bd_store bd2) (ly_digest l) = Inr True"
    using assms(2,4) by (auto simp: has_blob_Inr layer_wf_def blob_path_of [OF assms(1)] blobs_le_def)
  then have u: "cached_usable key bd2 = Inr (Some ?e)"
    using assms(5) r(4) by (simp add: cached_usable_def jstr_def)
  have "record_cached ?e i' bd2 = (Inr (?d\<lparr>d_annotations := fmap_of_list [(''cached'', JStr ''1'')]\<rparr>),
      bd2\<lparr>bd_layers := bd_layers bd2 @ [?d], bd_config := record_config (ly_diff_id l) i' (bd_config bd2)\<rparr>)"
    by (simp add: record_cached_def jstr_def Let_def)
  moreover have "jitem ?e ''digest'' = Inr (JStr (ly_digest l))" by simp
  ultimately show "\<exists>en. cached_usable key bd2 = Inr (Some en) \<and> jitem en ''digest'' = Inr (JStr (ly_digest l))
    \<and> record_cached en i' bd2 = (Inr (d\<lparr>d_annotations := fmap_of_list [(''cached'', JStr ''1'')]\<rparr>),
        bd2\<lparr>bd_layers := bd_layers bd2 @ [d], bd_config := record_config (ly_diff_id l) i' (bd_config bd2)\<rparr>)"
    using u unfolding r(1) by blast
qed (use assms(2,3) in \<open>auto simp: record_layer_def layer_wf_def put_blob_eq [OF assms(1)] Let_def split: if_splits\<close>)

text \<open>A cache hit adds the same layer descriptor, the same diff_id and the same history entry as the miss
  that filled the cache; the step is reported as cached, and was not when it was built.\<close>

theorem cache_hit_same_layer:
  assumes "sha_hex sha" "layer_wf sha l"
    and "record_layer sha blen key l i bd = (Inr d, bd')"
    and "blobs_le (bd_store bd') (bd_store bd2)" "cache_get key (bd_cache bd2) = cache_get key (bd_cache bd')"
  shows "\<exists>e d2 bd3. cached_usable key bd2 = Inr (Some e) \<and> record_cached e i bd2 = (Inr d2, bd3)
    \<and> bd_layers bd3 = bd_layers bd2 @ [d] \<and> bd_layers bd' = bd_layers bd @ [d]
    \<and> bd_config bd3 = record_config (ly_diff_id l) i (bd_config bd2)
    \<and> bd_config bd' = record_config (ly_diff_id l) i (bd_config bd)
    \<and> sr_cached (step_result_of i (Some d2) elapsed) \<and> \<not> sr_cached (step_result_of i (Some d) elapsed)
    \<and> sr_layer_digest (step_result_of i (Some d2) elapsed) = sr_layer_digest (step_result_of i (Some d) elapsed)"
  using record_then_cached(1) [OF assms, of i] record_then_cached(2-4) [OF assms] by (force simp: step_result_of_def mk_descriptor_def)

fun chain_keys :: "sha \<Rightarrow> string \<Rightarrow> (string \<times> string) list \<Rightarrow> string" where
  \<comment> \<open>the key after the steps, each an instruction text and an input hash\<close>
  "chain_keys sha key [] = key"
| "chain_keys sha key ((t, h) # steps) = chain_keys sha (chain_key sha key t h) steps"

fun chain_texts :: "sha \<Rightarrow> string \<Rightarrow> (string \<times> string) list \<Rightarrow> string set" where
  "chain_texts sha key [] = {}"
| "chain_texts sha key ((t, h) # steps) =
     insert (chain_text key t h) (chain_texts sha (chain_key sha key t h) steps)"

lemma chain_text_inject:
  assumes "chain_text k t h = chain_text k' t' h'"
    and "LF \<notin> set k" "LF \<notin> set k'" "LF \<notin> set t" "LF \<notin> set t'"
  shows "k = k' \<and> t = t' \<and> h = h'"
proof -
  have "partition_char LF (k @ LF # (t @ LF # h)) = partition_char LF (k' @ LF # (t' @ LF # h'))"
    using assms(1) by (simp add: chain_text_def)
  then have k: "k = k' \<and> t @ LF # h = t' @ LF # h'"
    using assms(2,3) by (simp add: partition_char_append)
  moreover from this have "(t, True, h) = (t', True, h')"
    using assms(4,5) by (metis partition_char_append)
  ultimately show ?thesis by simp
qed

lemma chain_keys_inject:
  assumes "length xs = length ys" "\<forall>(t, h) \<in> set (xs @ ys). LF \<notin> set t" "LF \<notin> set k" "LF \<notin> set k'"
    and "sha_hex sha" "chain_keys sha k xs = chain_keys sha k' ys"
    and "inj_on (\<lambda>t. sha (Raw t)) (chain_texts sha k xs \<union> chain_texts sha k' ys)"
  shows "k = k' \<and> xs = ys"
  using assms
proof (induction xs ys arbitrary: k k' rule: list_induct2)
  case (Cons x xs y ys)
  obtain t h t' h' where xy: "x = (t, h)" "y = (t', h')" by (cases x; cases y)
  have lf: "LF \<notin> set (chain_key sha q r u)" for q r u
    using Cons.prems(4) by (auto simp: sha_hex_def hex_digits_def chain_key_def)
  have "chain_key sha k t h = chain_key sha k' t' h' \<and> xs = ys"
    by (rule Cons.IH) (use Cons.prems xy lf in \<open>auto intro: inj_on_subset\<close>)
  moreover from this have "chain_text k t h = chain_text k' t' h'"
    using inj_onD [OF Cons.prems(6), of "chain_text k t h" "chain_text k' t' h'"] xy
    by (simp add: chain_key_def)
  then have "k = k' \<and> t = t' \<and> h = h'"
    by (rule chain_text_inject) (use Cons.prems xy in auto)
  ultimately show ?case using xy by simp
qed simp

text \<open>Changing one step of a Dockerfile changes the cache key of every later step: two builds
  whose steps agree in number and whose last keys are equal started from the same base and ran the
  same instructions on the same inputs, as long as the hash does not collide on the texts hashed
  along the two chains.\<close>

theorem chain_key_propagates:
  assumes "length xs = length ys" "\<forall>(t, h) \<in> set (xs @ ys). LF \<notin> set t" "LF \<notin> set k" "LF \<notin> set k'"
    and "sha_hex sha" "chain_keys sha k xs = chain_keys sha k' ys"
    and "inj_on (\<lambda>t. sha (Raw t)) (chain_texts sha k xs \<union> chain_texts sha k' ys)"
  shows "k = k' \<and> xs = ys"
  by (rule chain_keys_inject [OF assms(1)]) (fact assms)+

theorem chain_key_propagates_witness:
  "chain_keys demo_sha ''scratch'' [(''RUN x'', [])] = demo_key CHR ''1''
   \<and> (''scratch'', [(''RUN x'', [])]) = (''scratch'', [(''RUN x'', [] :: string)])"
proof -
  have "''scratch'' = ''scratch'' \<and> [(''RUN x'', [])] = [(''RUN x'', [] :: string)]"
    by (rule chain_key_propagates [of "[(''RUN x'', [])]" "[(''RUN x'', [])]" "''scratch''" "''scratch''" demo_sha])
       simp_all
  then show ?thesis by (simp add: chain_key_def)
qed

section \<open>Publishing\<close>

lemma serialise_parts:
  "config_serialise sha blen c = (Doc (config_to_json c), mk_descriptor MEDIA_CONFIG (digest_of sha (Doc (config_to_json c))) (int (blen (Doc (config_to_json c)))))"
  by (simp add: config_serialise_def Let_def canonical_json_def)

text \<open>When the last build step succeeds, the tag resolves to the manifest it returns, whose layers
  are the recorded ones in order, and the configuration read back through the tag is the built
  one: the same diff_ids, process and user, with the environment sorted and the fixed creation time.\<close>

theorem finalise_publishes:
  assumes "sha_hex sha" "finalise sha blen ref bd = (Inr m, bd')" "config_wf (bd_config bd)"
    and "store_wf sha (bd_store bd)"
    and "inj_on sha (blob_set (bd_store bd) \<union> {Doc (config_to_json (bd_config bd')), Doc (manifest_to_json m)})"
  shows "get_manifest sha (bd_store bd') ref = Inr m
    \<and> map d_digest (mf_layers m) = map d_digest (bd_layers bd)
    \<and> (\<exists>c. get_config sha (bd_store bd') ref = Inr c
        \<and> ic_diff_ids c = ic_diff_ids (bd_config bd) \<and> ic_entrypoint c = ic_entrypoint (bd_config bd)
        \<and> ic_cmd c = ic_cmd (bd_config bd) \<and> ic_user c = ic_user (bd_config bd)
        \<and> ic_env c = sort (ic_env (bd_config bd)) \<and> ic_created c = EPOCH)"
proof -
  let ?cfg = "(bd_config bd)\<lparr>ic_created := EPOCH\<rparr>"
  let ?cb = "Doc (config_to_json ?cfg)"
  let ?S = "blob_set (bd_store bd) \<union> {?cb, Doc (manifest_to_json m)}"
  from assms(2) obtain d0 st d1 where p: "put_blob sha blen ?cb (bd_store bd) = (Inr d0, st)"
      "put_image sha blen ref m st = (Inr d1, bd_store bd')" "bd_config bd' = ?cfg"
      "d_digest (mf_config m) = digest_of sha ?cb" "map d_digest (mf_layers m) = map d_digest (bd_layers bd)"
    by (auto simp: finalise_def serialise_parts Let_def mk_descriptor_def elim!: abindE split: sum.splits prod.splits)
  have inj: "inj_on sha ?S" using assms(5) by (simp add: p(3))
  have "store_wf sha st" using keepsD [OF keeps_put_blob assms(4)] p(1) by (metis snd_conv)
  note wf = this
  have sub: "blob_set st \<subseteq> ?S" using put_blob_set [OF p(1)] by blast
  have nc: "b = Doc (manifest_to_json m)" if "fmlookup (is_blobs st) (sha (Doc (manifest_to_json m))) = Some b" for b
    by (rule same_blob [OF wf inj sub _ that]) simp
  have gm: "get_manifest sha (bd_store bd') ref = Inr m"
    using put_image_ok [OF p(2) nc] by blast
  have "get_blob sha st (digest_of sha ?cb) = Inr ?cb"
    by (rule put_blob_stored [OF p(1)]) (rule same_blob [OF assms(4) inj], auto)
  moreover have "blobs_le st (bd_store bd')" by (rule put_image_le [OF p(2)])
  ultimately have "get_blob sha (bd_store bd') (digest_of sha ?cb) = Inr ?cb" by (rule get_blob_mono)
  moreover have "config_wf ?cfg" using assms(3) by (simp add: config_wf_def)
  ultimately show ?thesis using gm p(4,5) config_roundtrip_aux [of ?cfg] by (simp add: get_config_def)
qed

definition demo_builder :: builder where
  "demo_builder = \<lparr>bd_store = open_store fmempty None,
     bd_cache = \<lparr>bc_entries = fmempty, bc_file_hashes = fmempty\<rparr>,
     bd_config = demo_config, bd_layers = []\<rparr>"

definition demo_built :: layer where
  "demo_built = \<lparr>ly_diff_id = ''d'', ly_digest = digest_of demo_sha demo_layer, ly_size = 7,
     ly_uncompressed_size = 9, ly_blob = demo_layer, ly_media_type = MEDIA_LAYER_GZIP\<rparr>"

definition demo_instr :: instruction where
  "demo_instr = \<lparr>in_op = ''RUN'', in_args = ''x'', in_flags = [], in_line = 2\<rparr>"

theorem cache_hit_same_layer_witness:
  "\<exists>d bd'. record_layer demo_sha demo_len ''k'' demo_built demo_instr demo_builder = (Inr d, bd')
    \<and> (\<exists>e. cached_usable ''k'' bd' = Inr (Some e))"
proof -
  obtain d bd' where r: "record_layer demo_sha demo_len ''k'' demo_built demo_instr demo_builder = (Inr d, bd')"
    by (simp add: record_layer_def put_blob_eq Let_def)
  have "layer_wf demo_sha demo_built" by (simp add: layer_wf_def demo_built_def)
  from cache_hit_same_layer [OF demo_sha_hex this r blobs_le_refl refl] r show ?thesis by blast
qed

theorem finalise_publishes_witness:
  "\<exists>m bd'. finalise demo_sha demo_len ''app'' demo_builder = (Inr m, bd')
    \<and> get_manifest demo_sha (bd_store bd') ''app'' = Inr m"
proof -
  have sha: "demo_sha (Doc (config_to_json c)) = demo_key CHR ''2''" for c
    by (simp add: config_to_json_def Let_def)
  obtain m bd' where f: "finalise demo_sha demo_len ''app'' demo_builder = (Inr m, bd')"
    by (simp add: finalise_def serialise_parts Let_def abind_def put_blob_eq demo_builder_def open_store_def
        put_image_def mk_descriptor_def has_blob_def blob_path_of sha manifest_serialise_def canonical_json_def
        bind_tag_def read_index_def)
  have "config_wf (bd_config demo_builder)"
    by (simp add: demo_builder_def config_wf_def demo_config_def new_config_def healthcheck_exact_def whole_nanos_def)
  moreover have "store_wf demo_sha (bd_store demo_builder)" "blob_set (bd_store demo_builder) = {}"
    by (auto simp: demo_builder_def store_wf_def open_store_def blob_set_def)
  ultimately show ?thesis
    using finalise_publishes [OF demo_sha_hex f] f by (auto simp: inj_on_def sha)
qed

text \<open>The comparison of two snapshots loses nothing: removing the paths it reports as removed from
  the first and taking the second's entry for those it reports as changed gives the second.\<close>

definition apply_diff :: "(string, 'm) fmap \<Rightarrow> (string, 'm) fmap \<Rightarrow> string list \<times> string list \<Rightarrow> (string, 'm) fmap" where
  "apply_diff before after d =
     fmfilter (\<lambda>p. p \<notin> set (snd d)) before ++\<^sub>f fmfilter (\<lambda>p. p \<in> set (fst d)) after"

theorem diff_snapshots_complete:
  "apply_diff before after (diff_snapshots before after) = after
   \<and> sorted (fst (diff_snapshots before after)) \<and> sorted (snd (diff_snapshots before after))
   \<and> (\<forall>p. p \<notin> set (fst (diff_snapshots before after)) \<and> p \<notin> set (snd (diff_snapshots before after))
       \<longleftrightarrow> fmlookup before p = fmlookup after p)"
proof -
  have s: "set (sorted_list_of_fset (fmdom m)) = {p. fmlookup m p \<noteq> None}" for m :: "(string, 'a) fmap"
    by (auto simp: sorted_list_of_fset.rep_eq fmlookup_dom_iff)
  have "apply_diff before after (diff_snapshots before after) = after"
    by (rule fmap_ext) (auto simp: apply_diff_def diff_snapshots_def s fmlookup_dom_iff split: if_splits)
  moreover have "sorted (sorted_list_of_fset (fmdom m))" for m :: "(string, 'a) fmap"
    by (simp add: sorted_list_of_fset.rep_eq)
  moreover have "p \<notin> set (fst (diff_snapshots before after)) \<and> p \<notin> set (snd (diff_snapshots before after))
      \<longleftrightarrow> fmlookup before p = fmlookup after p" for p
    by (cases "fmlookup before p"; cases "fmlookup after p") (auto simp: diff_snapshots_def fmlookup_dom_iff)
  ultimately show ?thesis by (auto simp: diff_snapshots_def intro: sorted_wrt_filter)
qed

text \<open>A memoised content hash is the hash of the content: as long as no file was rewritten with the
  same size and time stamp, the result is the hash of the file as it is, and the memo stays right
  for every file.\<close>

theorem content_hash_correct:
  assumes "memo_ok sha host c" "host path = Some f"
  shows "fst (content_hash sha host path c) = Inr (sha (Raw (hf_data f)))
    \<and> memo_ok sha host (snd (content_hash sha host path c))"
proof -
  have "memo_hit (dget (bc_file_hashes c) path JNull) f \<in> {Inr None, Inr (Some (sha (Raw (hf_data f))))}"
    using assms unfolding memo_ok_def by blast
  then consider (miss) "memo_hit (dget (bc_file_hashes c) path JNull) f = Inr None"
    | (hit) "memo_hit (dget (bc_file_hashes c) path JNull) f = Inr (Some (sha (Raw (hf_data f))))" by auto
  then show ?thesis
  proof cases
    case miss
    then show ?thesis using assms by (auto simp: content_hash_def Let_def memo_ok_def jstr_def)
  next
    case hit
    then show ?thesis using assms by (simp add: content_hash_def)
  qed
qed

theorem content_hash_correct_witness:
  "fst (content_hash demo_sha (\<lambda>_. Some \<lparr>hf_size = 1, hf_mtime_ns = 2, hf_data = ''x''\<rparr>) ''f''
     \<lparr>bc_entries = fmempty, bc_file_hashes = fmempty\<rparr>) = Inr (demo_key CHR ''1'')"
  using content_hash_correct [of demo_sha "\<lambda>_. Some \<lparr>hf_size = 1, hf_mtime_ns = 2, hf_data = ''x''\<rparr>"
      "\<lparr>bc_entries = fmempty, bc_file_hashes = fmempty\<rparr>" "''f''"]
  by (simp add: memo_ok_def)

text \<open>The ordering check reports nothing exactly when no small layer precedes a large one.\<close>

theorem lint_ordering:
  "(\<forall>i n js. BehindSmaller i n js \<notin> set (lint r)) \<longleftrightarrow>
     (\<forall>i < length (layer_sizes r). \<forall>j < i. LARGE_LAYER_BYTES \<le> layer_sizes r ! i \<longrightarrow> LARGE_LAYER_BYTES \<le> layer_sizes r ! j)"
proof -
  have m: "BehindSmaller i n js \<in> set (lint r) \<longleftrightarrow> i < length (layer_sizes r) \<and> \<not> layer_sizes r ! i < LARGE_LAYER_BYTES
      \<and> js = preceding_small (layer_sizes r) i \<and> js \<noteq> [] \<and> n = layer_sizes r ! i" for i n js
    by (auto simp: lint_def Let_def split: if_splits)
  have e: "preceding_small xs i = [] \<longleftrightarrow> (\<forall>j < i. \<not> xs ! j < LARGE_LAYER_BYTES)" for xs i
    by (auto simp: preceding_small_def filter_empty_conv)
  show ?thesis unfolding m using e by (auto simp: not_less)
qed

text \<open>A cache file that holds JSON other than an object is not ignored like a corrupt one: opening
  it raises.\<close>

theorem corrupt_cache_raises:
  "load_cache (Some (Inr (JList []))) = Inl (AttributeError ''object has no attribute get'')
   \<and> (\<exists>c. load_cache (Some (Inl e)) = Inr c)"
  by (simp add: load_cache_def)

end
