(* ===== verification/Container_Image.thy ===== *)
theory Container_Image
  imports Image_Build
begin

text \<open>
  The container runtime's own reader of the image format, \<open>modules/container-runtime/minicon/image.py\<close>:
  images and the read-only store.  The layout is the one of the image toolkit (\<open>blobs/sha256\<close> as a map,
  \<open>index.json\<close> as the value it holds); the runtime does not verify digests.
\<close>

section \<open>Images\<close>

record mc_image =
  mi_reference :: string
  mi_manifest :: json
  mi_config :: json

definition layer_digests :: "mc_image \<Rightarrow> string list res" where
  "layer_digests im =
     ebind (obj_of (mi_manifest im)) (\<lambda>d. ebind (jitem d ''layers'') (\<lambda>ls. ebind (list_of ls)
       (emap (\<lambda>l. ebind (obj_of l) (\<lambda>ld. ebind (jitem ld ''digest'') jstr)))))"

definition mc_diff_ids :: "mc_image \<Rightarrow> string list res" where
  "mc_diff_ids im =
     ebind (py_dict (mi_config im)) (\<lambda>c. ebind (py_dict (dget c ''rootfs'' (JObj fmempty))) (\<lambda>rf.
     str_list (dget rf ''diff_ids'' (JList []))))"

definition mc_process :: "mc_image \<Rightarrow> json res" where
  "mc_process im = ebind (py_dict (mi_config im)) (\<lambda>c. Inr (or_empty (dget c ''config'' (JObj fmempty))))"

definition process_field :: "mc_image \<Rightarrow> string \<Rightarrow> json \<Rightarrow> json res" where
  \<comment> \<open>\<open>self.process.get(key, default)\<close>\<close>
  "process_field im key dflt = ebind (mc_process im) (\<lambda>p. ebind (py_dict p) (\<lambda>d. Inr (dget d key dflt)))"

definition mc_entrypoint :: "mc_image \<Rightarrow> string list res" where
  "mc_entrypoint im = ebind (process_field im ''Entrypoint'' (JList [])) (\<lambda>v. str_list (or_list v))"

definition mc_cmd :: "mc_image \<Rightarrow> string list res" where
  "mc_cmd im = ebind (process_field im ''Cmd'' (JList [])) (\<lambda>v. str_list (or_list v))"

definition mc_argv :: "mc_image \<Rightarrow> string list res" where
  "mc_argv im = ebind (mc_entrypoint im) (\<lambda>e. ebind (mc_cmd im) (\<lambda>c. Inr (e @ c)))"

definition mc_env :: "mc_image \<Rightarrow> (string \<times> string) list res" where
  "mc_env im = ebind (process_field im ''Env'' (JList [])) (\<lambda>v. ebind (list_of (or_list v)) (\<lambda>items. env_from items []))"

definition str_or :: "string \<Rightarrow> json \<Rightarrow> string res" where
  \<comment> \<open>\<open>v or default\<close> of a string field\<close>
  "str_or dflt v = jstr (if truthy v then v else JStr dflt)"

definition mc_user :: "mc_image \<Rightarrow> string res" where
  "mc_user im = ebind (process_field im ''User'' (JStr [])) (str_or [])"

definition mc_working_dir :: "mc_image \<Rightarrow> string res" where
  "mc_working_dir im = ebind (process_field im ''WorkingDir'' (JStr ''/'')) (str_or ''/'')"

definition mc_healthcheck :: "mc_image \<Rightarrow> json res" where
  "mc_healthcheck im = process_field im ''Healthcheck'' JNull"

definition mc_stop_signal :: "mc_image \<Rightarrow> string res" where
  "mc_stop_signal im = ebind (process_field im ''StopSignal'' (JStr [])) (str_or [])"

definition total_size :: "mc_image \<Rightarrow> int res" where
  "total_size im =
     ebind (obj_of (mi_manifest im)) (\<lambda>d. ebind (jitem d ''layers'') (\<lambda>ls. ebind (list_of ls) (\<lambda>xs.
     ebind (emap (\<lambda>l. ebind (obj_of l) (\<lambda>ld. ebind (jitem ld ''size'') py_int)) xs) (\<lambda>ns. Inr (sum_list ns)))))"

section \<open>The read-only store\<close>

definition read_blob :: "img_store \<Rightarrow> string \<Rightarrow> blob res" where
  "read_blob st dg =
     (case partition_char CHR '':'' dg of (algorithm, found, encoded) \<Rightarrow>
        if \<not> found then Inl (ValueError ''not enough values to unpack'')
        else case (if algorithm = ''sha256'' then fmlookup (is_blobs st) encoded else None) of
               None \<Rightarrow> Inl (FileNotFoundError dg)
             | Some b \<Rightarrow> Inr b)"

fun find_tag :: "string \<Rightarrow> json list \<Rightarrow> string option res" where
  \<comment> \<open>the loop of \<open>ImageStore.get\<close>\<close>
  "find_tag ref [] = Inr None"
| "find_tag ref (j # js) =
     ebind (py_dict j) (\<lambda>d. ebind (py_dict (dget d ''annotations'' (JObj fmempty))) (\<lambda>an.
     if fmlookup an ANNOTATION_REF = Some (JStr ref)
     then ebind (jitem d ''digest'') (\<lambda>x. ebind (jstr x) (\<lambda>dg. Inr (Some dg)))
     else find_tag ref js))"

definition mc_get :: "img_store \<Rightarrow> string \<Rightarrow> mc_image res" where
  "mc_get st ref =
     ebind (py_dict (is_index st)) (\<lambda>ix. ebind (list_of (dget ix ''manifests'' (JList []))) (\<lambda>ms.
     ebind (find_tag ref ms) (\<lambda>tagged.
     ebind (case tagged of Some dg \<Rightarrow> Inr dg
            | None \<Rightarrow> if starts_with ref ''sha256:'' then Inr ref else Inl (KeyError ref)) (\<lambda>dg.
     ebind (read_blob st dg) (\<lambda>b. ebind (json_loads b) (\<lambda>m.
     ebind (obj_of m) (\<lambda>md. ebind (jitem md ''config'') (\<lambda>c. ebind (obj_of c) (\<lambda>cd. ebind (jitem cd ''digest'') (\<lambda>x.
     ebind (jstr x) (\<lambda>cdg. ebind (read_blob st cdg) (\<lambda>cb. ebind (json_loads cb) (\<lambda>cfg.
     Inr \<lparr>mi_reference = ref, mi_manifest = m, mi_config = cfg\<rparr>)))))))))))))"

section \<open>Properties\<close>

lemma read_blob_of_get: "get_blob sha st dg = Inr b \<Longrightarrow> read_blob st dg = Inr b"
proof -
  assume a: "get_blob sha st dg = Inr b"
  then have p: "blob_path dg = Inr (sha b)" "fmlookup (is_blobs st) (sha b) = Some b" by (auto simp: get_blob_Inr)
  then have "dg = ''sha256'' @ CHR '':'' # sha b" using blob_path_Inr [OF p(1)] by simp
  then have "partition_char CHR '':'' dg = (''sha256'', True, sha b)" unfolding partition_char_iff by simp
  then show ?thesis using p(2) by (simp add: read_blob_def)
qed

lemma find_tag_descriptors:
  "find_tag ref (map descriptor_to_json ds) = Inr (map_option d_digest (find (tagged_as ref) ds))"
  by (induction ds) (auto simp: descriptor_to_json_def tagged_as_def jstr_def)

lemma emap_fields:
  "emap (\<lambda>l. ebind (obj_of l) (\<lambda>ld. ebind (jitem ld ''digest'') jstr)) (map descriptor_to_json ds) = Inr (map d_digest ds)"
  "emap (\<lambda>l. ebind (obj_of l) (\<lambda>ld. ebind (jitem ld ''size'') py_int)) (map descriptor_to_json ds) = Inr (map d_size ds)"
  by (induction ds) (simp_all add: descriptor_to_json_def jstr_def)

lemma str_or_omitted [simp]: "str_or dflt (if s \<noteq> [] then JStr s else JStr dflt) = Inr (if s \<noteq> [] then s else dflt)"
  by (simp add: str_or_def jstr_def)

lemma process_fields:
  fixes ref :: string and mj :: json
  assumes "config_wf c"
  defines "im \<equiv> \<lparr>mi_reference = ref, mi_manifest = mj, mi_config = config_to_json c\<rparr>"
  shows "mc_diff_ids im = Inr (ic_diff_ids c) \<and> mc_argv im = Inr (ic_entrypoint c @ ic_cmd c)
    \<and> mc_env im = Inr (sort (ic_env c)) \<and> mc_user im = Inr (ic_user c)
    \<and> mc_working_dir im = Inr (ic_working_dir c) \<and> mc_stop_signal im = Inr (ic_stop_signal c)"
proof -
  note defs = mc_argv_def mc_entrypoint_def mc_cmd_def mc_env_def mc_user_def mc_working_dir_def mc_stop_signal_def
    process_field_def mc_process_def mc_diff_ids_def im_def config_to_json_def Let_def
  have wd: "ic_working_dir c \<noteq> []" using assms(1) by (simp add: config_wf_def)
  have "mc_diff_ids im = Inr (ic_diff_ids c)" by (simp add: defs)
  moreover have "mc_argv im = Inr (ic_entrypoint c @ ic_cmd c)"
    by (simp add: defs cong: if_cong split del: if_split)
  moreover have "mc_env im = Inr (sort (ic_env c))"
    using env_parse [OF assms(1)] by (simp add: defs cong: if_cong split del: if_split)
  moreover have "mc_user im = Inr (ic_user c)" "mc_stop_signal im = Inr (ic_stop_signal c)"
    by (auto simp: defs str_or_def jstr_def)
  moreover have "mc_working_dir im = Inr (ic_working_dir c)"
    using wd by (simp add: defs str_or_def jstr_def)
  ultimately show ?thesis by blast
qed

text \<open>C30: The runtime and the builder read the same image: an image the builder published under a tag,
  whose documents are stored, is found by the runtime's own reader, with the same layers in the same
  order, the same diff_ids, and the process the builder configured: arguments, environment, user,
  working directory and stop signal.\<close>

theorem reader_agrees_with_builder:
  assumes "read_index st = Inr x" "is_index st = index_to_json x" "index_find x ref = Some d"
    and "get_blob sha st (d_digest d) = Inr (Doc (manifest_to_json m))"
    and "get_blob sha st (d_digest (mf_config m)) = Inr (Doc (config_to_json c))" "config_wf c"
  shows "\<exists>im. mc_get st ref = Inr im \<and> layer_digests im = Inr (map d_digest (mf_layers m))
    \<and> total_size im = Inr (total_layer_bytes m) \<and> mc_diff_ids im = Inr (ic_diff_ids c)
    \<and> mc_argv im = Inr (ic_entrypoint c @ ic_cmd c) \<and> mc_env im = Inr (sort (ic_env c))
    \<and> mc_user im = Inr (ic_user c) \<and> mc_working_dir im = Inr (ic_working_dir c)
    \<and> mc_stop_signal im = Inr (ic_stop_signal c)"
proof -
  let ?im = "\<lparr>mi_reference = ref, mi_manifest = manifest_to_json m, mi_config = config_to_json c\<rparr>"
  have "mc_get st ref = Inr ?im"
    using assms(3) read_blob_of_get [OF assms(4)] read_blob_of_get [OF assms(5)]
    by (simp add: mc_get_def assms(2) index_to_json_def find_tag_descriptors index_find_def
        manifest_to_json_def descriptor_to_json_def jstr_def)
  moreover have "layer_digests ?im = Inr (map d_digest (mf_layers m))"
    "total_size ?im = Inr (total_layer_bytes m)"
    by (simp_all add: layer_digests_def total_size_def manifest_to_json_def emap_fields total_layer_bytes_def)
  ultimately show ?thesis using process_fields [OF assms(6)] by blast
qed

theorem reader_agrees_with_builder_witness:
  "\<exists>im. mc_get demo_src ''app:v1'' = Inr im \<and> mc_argv im = Inr [] \<and> mc_user im = Inr []
     \<and> layer_digests im = Inr [digest_of demo_sha demo_layer]"
proof -
  let ?x = "index_upsert ''app:v1'' demo_desc \<lparr>ix_manifests = [], ix_annotations = fmempty\<rparr>"
  have i: "is_index demo_src = index_to_json ?x" by (rule demo_src_index)
  then have r: "read_index demo_src = Inr ?x" by (simp add: read_index_def)
  have d: "index_find ?x ''app:v1'' = Some (demo_desc\<lparr>d_annotations := fmupd ANNOTATION_REF (JStr ''app:v1'') (d_annotations demo_desc)\<rparr>)"
    by simp
  have g: "get_blob demo_sha demo_src (d_digest (demo_desc\<lparr>d_annotations := fmupd ANNOTATION_REF (JStr ''app:v1'') (d_annotations demo_desc)\<rparr>))
      = Inr (Doc (manifest_to_json demo_manifest))"
    by (simp add: demo_desc_def mk_descriptor_def get_blob_def blob_path_of demo_src_blobs demo_doc_def)
  have h: "get_blob demo_sha demo_src (d_digest (mf_config demo_manifest)) = Inr (Doc (config_to_json new_config))"
    by (simp add: demo_manifest_def mk_descriptor_def get_blob_def blob_path_of demo_src_blobs demo_first_def)
       (simp add: demo_cfg_def canonical_json_def)
  have w: "config_wf new_config" by (simp add: config_wf_def new_config_def)
  show ?thesis
    using reader_agrees_with_builder [OF r i d g h w]
    by (auto simp: new_config_def demo_manifest_def mk_descriptor_def)
qed

end
