(* ===== verification/Image_Layer_Props.thy ===== *)
theory Image_Layer_Props
  imports Image_Layer
begin

text \<open>
  What a layer does to a tree: removal of a path, application of one member, and the main result,
  that the layer of a difference, applied to the tree before, gives the tree after.  Reproducible
  bytes, and the two ways in which a layer reaches outside its directory.
\<close>

section \<open>Removing a path\<close>

lemma at_or_below_append: "at_or_below q p \<longleftrightarrow> (\<exists>r. p = q @ r)"
  unfolding at_or_below_def by (metis append_eq_conv_conj append_take_drop_id)

lemma wf_no_descendant:
  assumes "fs_wf fs" "\<not> is_fdir (fmlookup fs p)" "at_or_below p k" "k \<noteq> p"
  shows "fmlookup fs k = None"
proof (rule ccontr)
  obtain r where k: "k = p @ r" "r \<noteq> []" using assms(3,4) by (auto simp: at_or_below_append)
  assume "fmlookup fs k \<noteq> None"
  then obtain y where "fmlookup fs k = Some y" by auto
  then have "is_fdir (fmlookup fs (take (length p) k))"
    using fs_wf_nodeD(2) [OF assms(1), of k y "length p"] k by simp
  then show False using assms(2) k by simp
qed

lemma drop_tree_lookup [simp]: "fmlookup (drop_tree p fs) k = (if at_or_below p k then None else fmlookup fs k)"
  by (simp add: drop_tree_def)

lemma drop_tree_wf: "fs_wf fs \<Longrightarrow> p \<noteq> [] \<Longrightarrow> fs_wf (drop_tree p fs)"
proof -
  assume a: "fs_wf fs" "p \<noteq> []"
  have "\<not> at_or_below p (take i k)" if "\<not> at_or_below p k" for i k
    using that by (metis append_assoc append_take_drop_id at_or_below_append)
  moreover have "\<not> at_or_below p []" using a(2) by (simp add: at_or_below_def)
  ultimately show ?thesis using a(1) unfolding fs_wf_def by auto
qed

lemma clear_above_drop: "clear_above fs p \<Longrightarrow> clear_above (drop_tree q fs) p"
  by (auto simp: clear_above_def)

lemma remove_clear:
  assumes "fs_wf fs" "clear_above fs p" "p \<noteq> []"
  shows "remove_path p fs = (Inr (), drop_tree p fs)"
proof (cases "fmlookup fs p")
  case None
  have "drop_tree p fs = fs"
  proof (rule fmap_ext)
    fix k
    show "fmlookup (drop_tree p fs) k = fmlookup fs k"
      using None wf_no_descendant [OF assms(1), of p k] by (cases "k = p") auto
  qed
  then show ?thesis using stat_clear [OF assms(1,2)] None by (simp add: remove_path_def lexists_def)
next
  case (Some x)
  have r: "resolve fs False p = Inr p"
    by (rule resolve_real) (use fs_wf_nodeD [OF assms(1) Some] in auto)
  have dt: "drop_tree p fs = fmdrop p fs" if "\<not> is_fdir (Some x)"
    using wf_no_descendant [OF assms(1), of p] that Some by (intro fmap_ext) (auto simp: at_or_below_append)
  note st = stat_clear [OF assms(1,2)]
  show ?thesis
  proof (cases x)
    case (FDir a)
    then show ?thesis using st Some r assms(3)
      by (simp add: remove_path_def lexists_def isdir_def islink_def rmtree_def on_node_def)
  next
    case (FFile a d)
    then show ?thesis using st Some r dt
      by (simp add: remove_path_def lexists_def isdir_def islink_def fs_unlink_def on_node_def)
  next
    case (FLink a t)
    then show ?thesis using st(1) Some r dt
      by (simp add: remove_path_def lexists_def islink_def fs_unlink_def on_node_def)
  next
    case (FDev a)
    then show ?thesis using st Some r dt
      by (simp add: remove_path_def lexists_def isdir_def islink_def fs_unlink_def on_node_def)
  qed
qed

lemma remove_all:
  assumes "fs_wf fs" "\<And>p. p \<in> set ps \<Longrightarrow> p \<noteq> [] \<and> clear_above fs p"
  shows "\<exists>fs'. aeach remove_path ps fs = (Inr (), fs') \<and> fs_wf fs'
    \<and> (\<forall>k. fmlookup fs' k = (if \<exists>p \<in> set ps. at_or_below p k then None else fmlookup fs k))"
  using assms
proof (induction ps arbitrary: fs)
  case (Cons p ps)
  have p: "remove_path p fs = (Inr (), drop_tree p fs)" using remove_clear Cons.prems by simp
  have "\<exists>fs'. aeach remove_path ps (drop_tree p fs) = (Inr (), fs') \<and> fs_wf fs'
    \<and> (\<forall>k. fmlookup fs' k = (if \<exists>p \<in> set ps. at_or_below p k then None else fmlookup (drop_tree p fs) k))"
    by (rule Cons.IH) (use Cons.prems drop_tree_wf clear_above_drop in auto)
  then show ?case using p by auto
qed simp

section \<open>Markers\<close>

definition plain_name :: "string \<Rightarrow> bool" where
  \<comment> \<open>a name that is no whiteout marker\<close>
  "plain_name c = (proper_name c \<and> \<not> starts_with c WHITEOUT_PREFIX)"

lemma proper_marker: "proper_name c \<Longrightarrow> proper_name (WHITEOUT_PREFIX @ c)"
  by (simp add: proper_name_def WHITEOUT_PREFIX_def)

lemma whiteout_marker_name:
  "list_all proper_name (p @ [c]) \<Longrightarrow> ti_name (whiteout_marker m (rel_text (p @ [c]))) = rel_text (p @ [WHITEOUT_PREFIX @ c])"
proof -
  assume a: "list_all proper_name (p @ [c])"
  have e: "rel_text p = [] \<longleftrightarrow> p = []" using rel_text_no_slash_end(1) [of p] a by (auto simp: rel_text_def)
  show ?thesis
    using path_split_proper [OF a] path_join_proper [of p "WHITEOUT_PREFIX @ c"] proper_marker a e
    by (auto simp: whiteout_marker_def normalise_info_def new_tarinfo_def rel_text_def)
qed

lemma apply_whiteout_marker:
  assumes "list_all proper_name (p @ [c])" "plain_name c"
  shows "apply_whiteout base (whiteout_marker m (rel_text (p @ [c]))) = remove_path (base @ p @ [c])"
proof (rule ext)
  fix fs
  have m: "list_all proper_name (p @ [WHITEOUT_PREFIX @ c])" using assms proper_marker by simp
  have e: "rel_text p = [] \<longleftrightarrow> p = []" using rel_text_no_slash_end(1) [of p] assms(1) by (auto simp: rel_text_def)
  have no: "WHITEOUT_PREFIX @ c \<noteq> OPAQUE_MARKER"
    using assms(2) by (auto simp: plain_name_def WHITEOUT_PREFIX_def OPAQUE_MARKER_def starts_with_def)
  have u: "under base (if rel_text p \<noteq> [] then path_join (rel_text p) c else c) = base @ p @ [c]"
    using path_join_proper [of p c] under_proper [of "p @ [c]" base] assms(1) e
    by (cases "p = []") (auto simp: rel_text_def)
  show "apply_whiteout base (whiteout_marker m (rel_text (p @ [c]))) fs = remove_path (base @ p @ [c]) fs"
    using u no by (cases "rel_text p = []")
      (simp_all add: apply_whiteout_def whiteout_marker_name [OF assms(1)] path_split_proper [OF m])
qed

lemma apply_whiteout_plain:
  "ti_name i = rel_text (p @ [c]) \<Longrightarrow> list_all proper_name (p @ [c]) \<Longrightarrow> plain_name c \<Longrightarrow> apply_whiteout base i = aret ()"
  by (rule ext) (auto simp: apply_whiteout_def path_split_proper plain_name_def OPAQUE_MARKER_def WHITEOUT_PREFIX_def
      starts_with_def)

lemma apply_member_marker: "list_all proper_name (p @ [c]) \<Longrightarrow>
    apply_member new base (whiteout_marker m (rel_text (p @ [c]))) = aret ()"
  using proper_marker by (intro ext) (simp add: apply_member_def whiteout_marker_name path_split_proper)

lemma aeach_skip: "(\<And>x. x \<in> set xs \<Longrightarrow> f x = aret ()) \<Longrightarrow> aeach f xs = aret ()"
  by (induction xs) (auto intro!: ext simp: abind_def)

section \<open>Applying a member\<close>

definition made :: "(bool \<Rightarrow> fattr) \<Rightarrow> tar_info \<Rightarrow> fnode option \<Rightarrow> fnode" where
  \<comment> \<open>the node a member leaves where there was \<open>old\<close>\<close>
  "made new i old =
     (case ti_type i of
        TReg \<Rightarrow> FFile ((new False)\<lparr>fa_mode := ti_mode i\<rparr>) (ti_data i)
      | TSym \<Rightarrow> FLink (new False) (ti_link i)
      | _ \<Rightarrow> FDir ((case old of Some (FDir a) \<Rightarrow> a | _ \<Rightarrow> new True)\<lparr>fa_mode := ti_mode i\<rparr>))"

lemma clear_parent:
  assumes "fs_wf fs" "is_fdir (fmlookup fs d)" "proper_name c"
  shows "clear_above fs (d @ [c])" "i < length (d @ [c]) \<Longrightarrow> is_fdir (fmlookup fs (take i (d @ [c])))"
proof -
  obtain a where a: "fmlookup fs d = Some (FDir a)" using assms(2) by (rule is_fdirE)
  have "is_fdir (fmlookup fs (take i d))" for i
    using fs_wf_nodeD(2) [OF assms(1) a] assms(2) by (cases "i < length d") auto
  then show "clear_above fs (d @ [c])" "i < length (d @ [c]) \<Longrightarrow> is_fdir (fmlookup fs (take i (d @ [c])))"
    using fs_wf_nodeD(1) [OF assms(1) a] assms(3) by (auto simp: clear_above_def)
qed

lemma wf_add_child:
  assumes "fs_wf fs" "is_fdir (fmlookup fs d)" "proper_name c" "is_fdir (Some x) \<or> (\<forall>r \<noteq> []. fmlookup fs (d @ c # r) = None)"
  shows "fs_wf (fmupd (d @ [c]) x fs)"
proof -
  note cp = clear_parent [OF assms(1-3)]
  have "is_fdir (fmlookup (fmupd (d @ [c]) x fs) (take i k))"
    if "fmlookup (fmupd (d @ [c]) x fs) k = Some y" "i < length k" for k y i
  proof (cases "k = d @ [c]")
    case True
    then have "take i k \<noteq> d @ [c]" using that(2) by (metis length_take less_irrefl min.absorb4)
    then show ?thesis using cp(2) [of i] that(2) True by simp
  next
    case False
    then have k: "fmlookup fs k = Some y" using that(1) by simp
    show ?thesis
    proof (cases "take i k = d @ [c]")
      case True
      then have e: "k = (d @ [c]) @ drop i k" by (metis append_take_drop_id)
      then obtain r where r: "k = d @ c # r" "r \<noteq> []" using False by (cases "drop i k") auto
      then show ?thesis using assms(4) k True by auto
    next
      case False
      then show ?thesis using fs_wf_nodeD(2) [OF assms(1) k that(2)] by simp
    qed
  qed
  moreover have "list_all proper_name k" if "fmlookup (fmupd (d @ [c]) x fs) k = Some y" for k y
    using that fs_wf_nodeD(1) [OF assms(1)] cp(1) by (auto simp: clear_above_def split: if_splits)
  ultimately show ?thesis using fs_wf_root [OF assms(1)] unfolding fs_wf_def by auto
qed

text \<open>The final step of extraction where the parent is a directory and what stood in the way is gone.\<close>

lemma extract_ready:
  assumes "fs_wf fs" "is_fdir (fmlookup fs base)" "is_fdir (fmlookup fs (base @ p))" "proper_name c"
    and "list_all proper_name p" "ti_name i = rel_text (p @ [c])" "ti_type i \<noteq> TOther"
    and "fmlookup fs (base @ p @ [c]) = None \<or> (ti_type i = TDir \<and> is_fdir (fmlookup fs (base @ p @ [c])))"
  shows "abind (tar_extract new i base) (\<lambda>_. if ti_type i = TReg \<or> ti_type i = TDir then fs_chmod (ti_mode i) (base @ p @ [c]) else aret ()) fs
    = (Inr (), fmupd (base @ p @ [c]) (made new i (fmlookup fs (base @ p @ [c]))) fs)"
proof -
  let ?t = "base @ p @ [c]"
  have pn: "list_all proper_name (p @ [c])" using assms(4,5) by simp
  have rel: "comps (lstrip_char CHR ''/'' (ti_name i)) = p @ [c]"
    using rel_text_no_slash_end(1,2) [OF pn] comps_rel_text [OF pn] assms(6)
    by (cases "rel_text (p @ [c])") (simp_all add: lstrip_char_def)
  note cp = clear_parent [OF assms(1,3,4)]
  have ca: "clear_above fs ?t" using cp(1) by simp
  have anc: "is_fdir (fmlookup fs (take j ?t))" if "j < length ?t" for j using cp(2) [of j] that by simp
  have nl: "\<not> is_flink (fmlookup fs ?t)" using assms(8) by (auto elim: is_fdirE)
  have rt: "realpath fs ?t = ?t"
  proof (rule realpath_real)
    fix j assume "j \<le> length ?t"
    then show "\<not> is_flink (fmlookup fs (take j ?t))"
      using anc [of j] nl by (cases "j = length ?t") (auto elim!: is_fdirE simp del: length_append take_append)
  qed (use ca in \<open>simp add: clear_above_def\<close>)
  have rb: "realpath fs base = base"
  proof (rule realpath_real)
    fix j assume "j \<le> length base"
    then show "\<not> is_flink (fmlookup fs (take j base))" using anc [of j] by (auto elim!: is_fdirE)
  qed (use ca in \<open>simp add: clear_above_def\<close>)
  have res: "resolve g f ?t = Inr ?t" if "\<And>k. k \<noteq> ?t \<Longrightarrow> fmlookup g k = fmlookup fs k" "\<not> is_flink (fmlookup g ?t)" for g f
  proof (rule resolve_real)
    fix j assume j: "j < length ?t"
    then have "take j ?t \<noteq> ?t" by (metis length_take less_irrefl min.absorb4)
    then show "is_fdir (fmlookup g (take j ?t))" using anc [OF j] that(1) by simp
  qed (use ca that in \<open>simp_all add: clear_above_def\<close>)
  note r = res [OF refl nl]
  have pe: "path_exists fs (butlast ?t)"
  proof -
    have "clear_above fs (base @ p)"
      using assms(3) wf_clear_above [OF assms(1)] by (auto elim: is_fdirE)
    then have "stat_at fs True (base @ p) = fmlookup fs (base @ p)"
      using stat_clear(2) [OF assms(1)] assms(3) by (auto elim: is_fdirE)
    then show ?thesis using assms(3) by (auto simp: path_exists_def butlast_append elim: is_fdirE)
  qed
  have w: "at_or_below base ?t" by (simp add: at_or_below_append)
  have upd: "fmupd ?t y (fmupd ?t x fs) = fmupd ?t y fs" for x y by (rule fmap_ext) simp
  have chm: "fs_chmod m ?t (fmupd ?t x fs) = (Inr (), fmupd ?t (set_mode m x) fs)" if "\<not> is_flink (Some x)" for m x
    using res [of "fmupd ?t x fs" True] that by (simp add: fs_chmod_def on_node_def upd)
  have step: "tar_extract new i base fs = (case ti_type i of
            TReg \<Rightarrow> write_file new ?t (ti_data i) fs
          | TDir \<Rightarrow> mkdir_ok new ?t fs
          | TSym \<Rightarrow> abind (\<lambda>fs. if lexists fs ?t then fs_unlink ?t fs else (Inr (), fs))
                     (\<lambda>_. fs_symlink new (ti_link i) ?t) fs
          | TOther \<Rightarrow> (Inl (OSError ''Operation not permitted''), fs))"
    using rt rb w pe by (simp add: tar_extract_def rel Let_def abind_def)
  show ?thesis
  proof (cases "ti_type i")
    case TReg
    then show ?thesis using assms(8) r chm
      by (simp add: step write_file_def on_node_def made_def set_mode_def)
  next
    case TDir
    show ?thesis
    proof (cases "fmlookup fs ?t")
      case None
      then show ?thesis using TDir r chm
        by (simp add: step mkdir_ok_def fs_mkdir_def on_node_def made_def set_mode_def)
    next
      case (Some x)
      then obtain a where x: "x = FDir a" using assms(8) by (auto elim: is_fdirE)
      have "isdir fs ?t" using r [of True] Some x by (simp add: isdir_def stat_at_def)
      then show ?thesis using TDir r [of False] r [of True] Some x
        by (simp add: step mkdir_ok_def fs_mkdir_def on_node_def made_def set_mode_def fs_chmod_def abind_def)
    qed
  next
    case TSym
    then have n: "fmlookup fs ?t = None" using assms(8) by simp
    then have "\<not> lexists fs ?t" using r [of False] by (simp add: lexists_def stat_at_def)
    then show ?thesis using TSym r [of False] n
      by (simp add: step fs_symlink_def on_node_def made_def abind_def)
  next
    case TOther
    then show ?thesis using assms(7) by simp
  qed
qed

lemma apply_member_ready:
  assumes "fs_wf fs" "base \<noteq> []" "is_fdir (fmlookup fs base)" "is_fdir (fmlookup fs (base @ p))" "plain_name c"
    and "list_all proper_name p" "ti_name i = rel_text (p @ [c])" "ti_type i \<noteq> TOther"
    and "ti_type i = TDir \<Longrightarrow> \<not> is_flink (fmlookup fs (base @ p @ [c]))"
    and "ti_type i \<noteq> TDir \<Longrightarrow> \<forall>r \<noteq> []. fmlookup fs (base @ p @ c # r) = None"
  shows "apply_member new base i fs
    = (Inr (), fmupd (base @ p @ [c]) (made new i (fmlookup fs (base @ p @ [c]))) fs)"
proof -
  let ?t = "base @ p @ [c]"
  have c: "proper_name c" using assms(5) by (simp add: plain_name_def)
  have pn: "list_all proper_name (p @ [c])" using assms(6) c by simp
  have ca: "clear_above fs ?t" using clear_parent(1) [OF assms(1,4) c] by simp
  have bn: "list_all proper_name base" using ca by (simp add: clear_above_def)
  have w: "is_within base ?t"
    using normal_proper [of base] normal_proper [of ?t] bn pn
    by (simp add: is_within_def at_or_below_append assms(2))
  have nw: "\<not> starts_with (snd (path_split (ti_name i))) WHITEOUT_PREFIX"
    using path_split_proper [OF pn] assms(5,7) by (simp add: plain_name_def)
  have u: "under base (ti_name i) = ?t" using under_proper [OF pn] assms(7) by simp
  note st = stat_clear [OF assms(1) ca]
  define rest where "rest = (\<lambda>_::unit. abind (tar_extract new i base)
      (\<lambda>_. if ti_type i = TReg \<or> ti_type i = TDir then fs_chmod (ti_mode i) ?t else aret ()))"
  have am: "apply_member new base i fs = abind (\<lambda>fs. if lexists fs ?t \<and> \<not> (ti_type i = TDir \<and> isdir fs ?t)
                      then remove_path ?t fs else (Inr (), fs)) rest fs"
    using nw w by (simp add: apply_member_def u rest_def Let_def)
  show ?thesis
  proof (cases "fmlookup fs ?t = None \<or> (ti_type i = TDir \<and> is_fdir (fmlookup fs ?t))")
    case True
    then have n: "(lexists fs ?t \<and> \<not> (ti_type i = TDir \<and> isdir fs ?t)) = False"
      using st by (auto simp: lexists_def isdir_def elim!: is_fdirE)
    have "apply_member new base i fs = rest () fs"
      unfolding am abind_def by (simp only: n if_False prod.case sum.case)
    then show ?thesis
      using extract_ready [OF assms(1,3,4) c assms(6-8) True] by (simp add: rest_def)
  next
    case False
    let ?g = "drop_tree ?t fs"
    have "lexists fs ?t \<and> \<not> (ti_type i = TDir \<and> isdir fs ?t)"
      using st False assms(9) by (auto simp: lexists_def isdir_def)
    moreover have "remove_path ?t fs = (Inr (), ?g)" using remove_clear [OF assms(1) ca] by simp
    ultimately have e: "apply_member new base i fs = rest () ?g" unfolding am by (simp add: abind_def)
    have "?t \<noteq> base" "?t \<noteq> base @ p" by simp_all
    then have b: "\<not> at_or_below ?t base" "\<not> at_or_below ?t (base @ p)" by (auto simp: at_or_below_append)
    have g: "fs_wf ?g" "is_fdir (fmlookup ?g base)" "is_fdir (fmlookup ?g (base @ p))" "fmlookup ?g ?t = None"
      using drop_tree_wf [OF assms(1)] assms(3,4) b by (auto simp: at_or_below_append)
    have "fmlookup fs k = None" if "at_or_below ?t k" "k \<noteq> ?t" for k
    proof (cases "ti_type i = TDir")
      case True
      then show ?thesis using wf_no_descendant [OF assms(1) _ that] False by blast
    next
      case False
      then show ?thesis using assms(10) that by (auto simp: at_or_below_append)
    qed
    then have gk: "fmupd ?t x ?g = fmupd ?t x fs" for x by (intro fmap_ext) auto
    have m: "made new i None = made new i (fmlookup fs ?t)"
      using False assms(8) by (auto simp: made_def split: tar_type.splits option.splits fnode.splits)
    show ?thesis
      using extract_ready [OF g(1-3) c assms(6-8)] g(4) e m gk by (simp add: rest_def)
  qed
qed

section \<open>Applying a difference\<close>

definition info_of :: "(int \<Rightarrow> string) \<Rightarrow> int \<Rightarrow> path \<Rightarrow> fnode \<Rightarrow> tar_info" where
  \<comment> \<open>the member for a node\<close>
  "info_of who mtime p n = normalise_info mtime
     \<lparr>ti_name = rel_text p,
      ti_type = (case n of FDir a \<Rightarrow> TDir | FFile a d \<Rightarrow> TReg | FLink a t \<Rightarrow> TSym | FDev a \<Rightarrow> TOther),
      ti_mode = fa_mode (node_attr n), ti_uid = fa_uid (node_attr n), ti_gid = fa_gid (node_attr n),
      ti_uname = who (fa_uid (node_attr n)), ti_gname = who (fa_gid (node_attr n)),
      ti_mtime = fa_mtime (node_attr n), ti_link = (case n of FLink a t \<Rightarrow> t | _ \<Rightarrow> []),
      ti_data = (case n of FFile a d \<Rightarrow> d | _ \<Rightarrow> [])\<rparr>"

fun same_content :: "fnode \<Rightarrow> fnode \<Rightarrow> bool" where
  \<comment> \<open>equal up to what the archive does not carry: owners, times, and mode bits other than the executable one\<close>
  "same_content (FDir a) (FDir b) = True"
| "same_content (FFile a d) (FFile b e) = (d = e \<and> executable (fa_mode a) = executable (fa_mode b))"
| "same_content (FLink a t) (FLink b u) = (t = u)"
| "same_content _ _ = False"

lemma gettarinfo_member:
  assumes "fs_wf fs" "fmlookup fs (base @ p) = Some n" "p \<noteq> []"
  shows "gettarinfo who fs (base @ p) (rel_text p) = Inr i \<Longrightarrow> normalise_info mtime i = info_of who mtime p n"
    and "\<exists>i. gettarinfo who fs (base @ p) (rel_text p) = Inr i"
proof -
  have s: "stat_at fs False (base @ p) = Some n"
    using stat_clear(1) [OF assms(1) wf_clear_above [OF assms(1,2)]] assms(2) by simp
  have "list_all proper_name p" using fs_wf_nodeD(1) [OF assms(1,2)] by simp
  then have l: "lstrip_char CHR ''/'' (rel_text p) = rel_text p"
    using rel_text_no_slash_end(1,2) [of p] assms(3) by (cases "rel_text p") (simp_all add: lstrip_char_def)
  show "gettarinfo who fs (base @ p) (rel_text p) = Inr i \<Longrightarrow> normalise_info mtime i = info_of who mtime p n"
    "\<exists>i. gettarinfo who fs (base @ p) (rel_text p) = Inr i"
    by (auto simp: gettarinfo_def s l info_of_def normalise_info_def)
qed

lemma write_tar_members:
  assumes "fs_wf fs" "\<And>p. p \<in> set ps \<Longrightarrow> p \<noteq> [] \<and> fmlookup fs (base @ p) \<noteq> None"
  shows "write_tar who fs (map (\<lambda>p. (rel_text p, base @ p)) ps) wh mtime
    = Inr (Tar (map (\<lambda>p. info_of who mtime p (the (fmlookup fs (base @ p)))) ps @ map (whiteout_marker mtime) (sort wh)))"
proof -
  have "emap (\<lambda>(archive_path, fs_path). ebind (gettarinfo who fs fs_path archive_path) (\<lambda>i. Inr (normalise_info mtime i)))
      (map (\<lambda>p. (rel_text p, base @ p)) ps) = Inr (map (\<lambda>p. info_of who mtime p (the (fmlookup fs (base @ p)))) ps)"
    using assms(2)
  proof (induction ps)
    case (Cons p ps)
    then obtain n where n: "fmlookup fs (base @ p) = Some n" "p \<noteq> []" by force
    obtain i where "gettarinfo who fs (base @ p) (rel_text p) = Inr i" "normalise_info mtime i = info_of who mtime p n"
      using gettarinfo_member [OF assms(1) n] by blast
    then show ?case using Cons n by simp
  qed simp
  then show ?thesis by (simp add: write_tar_def)
qed

lemma info_of_type:
  "\<forall>a. n \<noteq> FDev a \<Longrightarrow> ti_type (info_of who m p n) \<noteq> TOther"
  "ti_type (info_of who m p n) = TDir \<longleftrightarrow> is_fdir (Some n)" "ti_name (info_of who m p n) = rel_text p"
proof -
  show "\<forall>a. n \<noteq> FDev a \<Longrightarrow> ti_type (info_of who m p n) \<noteq> TOther"
    by (cases n) (auto simp: info_of_def normalise_info_def)
  show "ti_type (info_of who m p n) = TDir \<longleftrightarrow> is_fdir (Some n)"
    by (cases n) (simp_all add: info_of_def normalise_info_def)
qed (simp add: info_of_def normalise_info_def)

lemma made_same:
  "ti_type (info_of who m p n) \<noteq> TOther \<Longrightarrow> same_content (made new (info_of who m p n) old) n"
  by (cases n) (auto simp: made_def info_of_def normalise_info_def executable_def)

lemma made_dir: "ti_type (info_of who m p n) \<noteq> TOther \<Longrightarrow> is_fdir (Some (made new (info_of who m p n) old)) \<longleftrightarrow> is_fdir (Some n)"
  by (cases n) (auto simp: made_def info_of_def normalise_info_def)

text \<open>The members of the difference, parents first, over a tree that has no other paths than the target.\<close>

lemma apply_members:
  fixes target :: fs and who :: "int \<Rightarrow> string" and mtime :: int
  assumes "fs_wf fs" "fs_wf target" "base \<noteq> []" "is_fdir (fmlookup fs base)"
    and "sorted (map rel_text ps)" "distinct ps"
    and "\<And>p. p \<in> set ps \<Longrightarrow> p \<noteq> [] \<and> plain_name (last p) \<and> fmlookup target (base @ p) \<noteq> None"
    and "\<And>p a. p \<in> set ps \<Longrightarrow> fmlookup target (base @ p) \<noteq> Some (FDev a)"
    and "\<And>p. p \<noteq> [] \<Longrightarrow> fmlookup fs (base @ p) \<noteq> None \<Longrightarrow> fmlookup target (base @ p) \<noteq> None"
    and "\<And>p. p \<noteq> [] \<Longrightarrow> is_fdir (fmlookup target (base @ p)) \<Longrightarrow> p \<notin> set ps \<Longrightarrow> is_fdir (fmlookup fs (base @ p))"
    and "\<And>p. p \<in> set ps \<Longrightarrow> is_fdir (fmlookup target (base @ p)) \<Longrightarrow> \<not> is_flink (fmlookup fs (base @ p))"
  defines "info \<equiv> \<lambda>p. info_of who mtime p (the (fmlookup target (base @ p)))"
  shows "\<exists>fs'. aeach (apply_member new base) (map info ps) fs = (Inr (), fs') \<and> fs_wf fs'
    \<and> (\<forall>k. fmlookup fs' k = (if \<exists>p \<in> set ps. k = base @ p
          then Some (made new (info (drop (length base) k)) (fmlookup fs k)) else fmlookup fs k))"
  using assms(1,4-11)
proof (induction ps arbitrary: fs)
  case (Cons q ps)
  have q: "q \<noteq> []" "plain_name (last q)" "fmlookup target (base @ q) \<noteq> None" using Cons.prems(5) by auto
  obtain p c where pc: "q = p @ [c]" using q(1) by (cases q rule: rev_cases) auto
  obtain n where n: "fmlookup target (base @ q) = Some n" using q(3) by auto
  have pn: "list_all proper_name (p @ [c])" using fs_wf_nodeD(1) [OF assms(2) n] by (simp add: pc)
  have iq: "info q = info_of who mtime q n" by (simp add: info_def n)
  have nd: "\<forall>a. n \<noteq> FDev a" using Cons.prems(6) [of q] n by auto
  have ty: "ti_type (info q) \<noteq> TOther" "ti_type (info q) = TDir \<longleftrightarrow> is_fdir (Some n)" "ti_name (info q) = rel_text q"
    unfolding iq using info_of_type(1) [OF nd] info_of_type(2,3) by simp_all
  have par: "is_fdir (fmlookup fs (base @ p))"
  proof (cases "p = []")
    case False
    have "is_fdir (fmlookup target (take (length base + length p) (base @ q)))"
      by (rule fs_wf_nodeD(2) [OF assms(2) n]) (simp add: pc)
    then have d: "is_fdir (fmlookup target (base @ p))" by (simp add: pc)
    have "rel_text p < rel_text q" using rel_text_prefix_less [OF False, of "[c]"] by (simp add: pc)
    then have "p \<notin> set (q # ps)" using Cons.prems(3) by (auto simp: pc)
    then show ?thesis using Cons.prems(8) False d by blast
  qed (use Cons.prems(2) in simp)
  have none: "fmlookup fs (base @ p @ c # r) = None" if "\<not> is_fdir (Some n)" "r \<noteq> []" for r
  proof (rule ccontr)
    assume "fmlookup fs (base @ p @ c # r) \<noteq> None"
    then have "fmlookup target (base @ p @ c # r) \<noteq> None" using Cons.prems(7) [of "p @ c # r"] by simp
    moreover have "fmlookup target (base @ p @ c # r) = None"
      by (rule wf_no_descendant [OF assms(2), of "base @ q"]) (use n that in \<open>auto simp: pc at_or_below_append\<close>)
    ultimately show False by simp
  qed
  let ?g = "fmupd (base @ q) (made new (info q) (fmlookup fs (base @ q))) fs"
  have step: "apply_member new base (info q) fs = (Inr (), ?g)"
    using apply_member_ready [OF Cons.prems(1) assms(3) Cons.prems(2) par _ _ _ ty(1), of c new] q(2) pn ty none
      Cons.prems(9) [of q] n
    by (simp add: pc)
  have wg: "fs_wf ?g"
  proof -
    have "is_fdir (Some (made new (info q) (fmlookup fs (base @ q)))) \<or> (\<forall>r \<noteq> []. fmlookup fs ((base @ p) @ c # r) = None)"
      using none made_dir [of who mtime q n new] ty(1) by (cases "is_fdir (Some n)") (auto simp: iq)
    from wf_add_child [OF Cons.prems(1) par _ this] pn show ?thesis by (simp add: pc)
  qed
  have "\<exists>fs'. aeach (apply_member new base) (map info ps) ?g = (Inr (), fs') \<and> fs_wf fs'
    \<and> (\<forall>k. fmlookup fs' k = (if \<exists>p \<in> set ps. k = base @ p
          then Some (made new (info (drop (length base) k)) (fmlookup ?g k)) else fmlookup ?g k))"
  proof (rule Cons.IH [OF wg])
    show "is_fdir (fmlookup ?g base)" using Cons.prems(2) q(1) by simp
    show "sorted (map rel_text ps)" "distinct ps" using Cons.prems(3,4) by simp_all
    show "fmlookup target (base @ r) \<noteq> None" if "r \<noteq> []" "fmlookup ?g (base @ r) \<noteq> None" for r
      using that Cons.prems(7) [of r] n by (auto split: if_splits)
    show "is_fdir (fmlookup ?g (base @ r))" if "r \<noteq> []" "is_fdir (fmlookup target (base @ r))" "r \<notin> set ps" for r
      using that Cons.prems(8) [of r] made_dir [of who mtime q n new] ty(1) n by (auto simp: iq)
    show "\<not> is_flink (fmlookup ?g (base @ r))" if "r \<in> set ps" "is_fdir (fmlookup target (base @ r))" for r
      using that Cons.prems(9) [of r] Cons.prems(4) by auto
  qed (use Cons.prems(5,6) in auto)
  then obtain fs' where f: "aeach (apply_member new base) (map info ps) ?g = (Inr (), fs')" "fs_wf fs'"
    and l: "\<And>k. fmlookup fs' k = (if \<exists>p \<in> set ps. k = base @ p
          then Some (made new (info (drop (length base) k)) (fmlookup ?g k)) else fmlookup ?g k)" by blast
  have "aeach (apply_member new base) (map info (q # ps)) fs = (Inr (), fs')" using step f(1) by simp
  moreover have "fmlookup fs' k = (if \<exists>p \<in> set (q # ps). k = base @ p
          then Some (made new (info (drop (length base) k)) (fmlookup fs k)) else fmlookup fs k)" for k
    using Cons.prems(4) by (auto simp: l)
  ultimately show ?case using f(2) by blast
qed simp

text \<open>A layer built from what changed and what disappeared, applied to the tree as it was before.\<close>

lemma makedirs_dir: "fs_wf fs \<Longrightarrow> is_fdir (fmlookup fs d) \<Longrightarrow> makedirs new d fs = (Inr (), fs)"
proof -
  assume a: "fs_wf fs" "is_fdir (fmlookup fs d)"
  obtain x where x: "fmlookup fs d = Some (FDir x)" using a(2) by (rule is_fdirE)
  note ca = wf_clear_above [OF a(1) x]
  have st: "stat_at fs True d = Some (FDir x)" "stat_at fs False d = Some (FDir x)"
    using stat_clear [OF a(1) ca] x by simp_all
  have r: "resolve fs False d = Inr d"
    by (rule resolve_real) (use fs_wf_nodeD [OF a(1) x] in auto)
  have m: "mkdir_ok new d fs = (Inr (), fs)"
    using r x st by (simp add: mkdir_ok_def fs_mkdir_def on_node_def isdir_def)
  have "path_exists fs (butlast d)" if "d \<noteq> []"
  proof -
    have "is_fdir (fmlookup fs (take (length d - 1) d))"
      by (rule fs_wf_nodeD(2) [OF a(1) x]) (use that in auto)
    then obtain y where y: "fmlookup fs (butlast d) = Some (FDir y)" by (auto simp: butlast_conv_take elim: is_fdirE)
    then show ?thesis
      using stat_clear(2) [OF a(1) wf_clear_above [OF a(1) y]] by (simp add: path_exists_def)
  qed
  then have c: "d = [] \<or> path_exists fs (butlast d)" by blast
  show ?thesis by (subst makedirs.simps) (simp only: c m if_True)
qed

definition diff_layer_of :: "fs \<Rightarrow> fs \<Rightarrow> path \<Rightarrow> path list \<Rightarrow> path list \<Rightarrow> bool" where
  \<comment> \<open>the paths that changed, parents first, and those that disappeared, between two trees below \<open>base\<close>\<close>
  "diff_layer_of before after base changed removed \<longleftrightarrow>
     sorted (map rel_text changed) \<and> distinct changed
     \<and> (\<forall>p \<in> set changed. p \<noteq> [] \<and> fmlookup after (base @ p) \<noteq> None)
     \<and> (\<forall>p. p \<noteq> [] \<and> p \<notin> set changed \<and> fmlookup after (base @ p) \<noteq> None \<longrightarrow>
           (\<exists>m. fmlookup before (base @ p) = Some m \<and> same_content m (the (fmlookup after (base @ p)))))
     \<and> (\<forall>p. p \<in> set removed \<longleftrightarrow> p \<noteq> [] \<and> fmlookup before (base @ p) \<noteq> None \<and> fmlookup after (base @ p) = None)"

lemma diff_layer_ofD:
  assumes "diff_layer_of before after base changed removed"
  shows "\<forall>p \<in> set changed. p \<noteq> [] \<and> fmlookup after (base @ p) \<noteq> None"
    "\<forall>p. p \<noteq> [] \<and> p \<notin> set changed \<and> fmlookup after (base @ p) \<noteq> None \<longrightarrow>
           (\<exists>m. fmlookup before (base @ p) = Some m \<and> same_content m (the (fmlookup after (base @ p))))"
    "\<forall>p. p \<in> set removed \<longleftrightarrow> p \<noteq> [] \<and> fmlookup before (base @ p) \<noteq> None \<and> fmlookup after (base @ p) = None"
    "sorted (map rel_text changed)" "distinct changed"
proof -
  note d = assms [unfolded diff_layer_of_def]
  note d4 = d [THEN conjunct2, THEN conjunct2, THEN conjunct2]
  show "sorted (map rel_text changed)" by (rule d [THEN conjunct1])
  show "distinct changed" by (rule d [THEN conjunct2, THEN conjunct1])
  show "\<forall>p \<in> set changed. p \<noteq> [] \<and> fmlookup after (base @ p) \<noteq> None"
    by (rule d [THEN conjunct2, THEN conjunct2, THEN conjunct1])
  show "\<forall>p. p \<noteq> [] \<and> p \<notin> set changed \<and> fmlookup after (base @ p) \<noteq> None \<longrightarrow>
           (\<exists>m. fmlookup before (base @ p) = Some m \<and> same_content m (the (fmlookup after (base @ p))))"
    by (rule d4 [THEN conjunct1])
  show "\<forall>p. p \<in> set removed \<longleftrightarrow> p \<noteq> [] \<and> fmlookup before (base @ p) \<noteq> None \<and> fmlookup after (base @ p) = None"
    by (rule d4 [THEN conjunct2])
qed

lemma diff_layer_ofI:
  assumes "sorted (map rel_text changed)" "distinct changed"
    and "\<And>p. p \<in> set changed \<Longrightarrow> p \<noteq> [] \<and> fmlookup after (base @ p) \<noteq> None"
    and "\<And>p. p \<noteq> [] \<Longrightarrow> p \<notin> set changed \<Longrightarrow> fmlookup after (base @ p) \<noteq> None \<Longrightarrow>
           \<exists>m. fmlookup before (base @ p) = Some m \<and> same_content m (the (fmlookup after (base @ p)))"
    and "\<And>p. p \<in> set removed \<longleftrightarrow> p \<noteq> [] \<and> fmlookup before (base @ p) \<noteq> None \<and> fmlookup after (base @ p) = None"
  shows "diff_layer_of before after base changed removed"
  unfolding diff_layer_of_def
  by (intro conjI ballI allI impI, (rule assms(1,2))+, use assms(3) in blast, use assms(3) in blast,
      rule assms(4), blast, blast, blast, rule assms(5))

definition no_markers :: "fs \<Rightarrow> path \<Rightarrow> bool" where
  \<comment> \<open>no entry below \<open>base\<close> is called like a whiteout, and none is a device\<close>
  "no_markers fs base \<longleftrightarrow> (\<forall>p n. p \<noteq> [] \<and> fmlookup fs (base @ p) = Some n \<longrightarrow> plain_name (last p) \<and> (\<forall>a. n \<noteq> FDev a))"

definition no_link_becomes_dir :: "fs \<Rightarrow> fs \<Rightarrow> path \<Rightarrow> bool" where
  "no_link_becomes_dir before after base \<longleftrightarrow>
     (\<forall>p. is_flink (fmlookup before (base @ p)) \<longrightarrow> \<not> is_fdir (fmlookup after (base @ p)))"

lemma extract_diff:
  assumes "fs_wf before" "fs_wf after" "base \<noteq> []" "is_fdir (fmlookup before base)"
    and d: "diff_layer_of before after base changed removed"
    and nm: "no_markers before base" "no_markers after base" and nl: "no_link_becomes_dir before after base"
    and wt: "write_tar who after (map (\<lambda>p. (rel_text p, base @ p)) changed) (map rel_text removed) mtime = Inr tar"
  shows "\<exists>fs'. extract_layer new (Gz level mt tar) base True before = (Inr (), fs') \<and> fs_wf fs'
    \<and> (\<forall>p. p \<noteq> [] \<longrightarrow> rel_option same_content (fmlookup fs' (base @ p)) (fmlookup after (base @ p)))
    \<and> (\<forall>k. \<not> (at_or_below base k \<and> k \<noteq> base) \<longrightarrow> fmlookup fs' k = fmlookup before k)"
proof -
  let ?node = "\<lambda>p. the (fmlookup after (base @ p))"
  let ?info = "\<lambda>p. info_of who mtime p (?node p)"
  let ?infos = "map ?info changed"
  let ?marks = "map (whiteout_marker mtime) (sort (map rel_text removed))"
  have ch: "p \<noteq> []" "\<exists>n. fmlookup after (base @ p) = Some n" if "p \<in> set changed" for p
    using diff_layer_ofD(1) [OF d] that by auto
  have rm: "p \<in> set removed \<longleftrightarrow> p \<noteq> [] \<and> fmlookup before (base @ p) \<noteq> None \<and> fmlookup after (base @ p) = None" for p
    using diff_layer_ofD(3) [OF d] by blast
  have unch: "\<exists>m. fmlookup before (base @ p) = Some m \<and> same_content m (the (fmlookup after (base @ p)))"
    if "p \<noteq> []" "p \<notin> set changed" "fmlookup after (base @ p) \<noteq> None" for p
    using diff_layer_ofD(2) [OF d] that by blast
  have tar: "tar = Tar (?infos @ ?marks)" using write_tar_members [OF assms(2), of changed base] ch wt by fastforce
  have pl: "list_all proper_name p \<and> plain_name (last p)" if "p \<noteq> []" "fmlookup fs (base @ p) = Some n" "fs_wf fs" "no_markers fs base" for fs p n
    using fs_wf_nodeD(1) [OF that(3,2)] that unfolding no_markers_def by auto
  define rs where "rs = map comps (sort (map rel_text removed))"
  have rset: "set rs = set removed"
  proof -
    have "comps (rel_text p) = p" if "p \<in> set removed" for p
      using that rm comps_rel_text pl [OF _ _ assms(1) nm(1)] by fastforce
    then show ?thesis by (force simp: rs_def)
  qed
  have marks: "?marks = map (\<lambda>p. whiteout_marker mtime (rel_text p)) rs"
  proof -
    have "rel_text (comps t) = t" if "t \<in> set (sort (map rel_text removed))" for t
      using that rm comps_rel_text pl [OF _ _ assms(1) nm(1)] by fastforce
    then show ?thesis by (simp add: rs_def)
  qed
  have rp: "\<exists>q c. p = q @ [c] \<and> list_all proper_name (q @ [c]) \<and> plain_name c" if "p \<in> set rs" for p
    using that pl [OF _ _ assms(1) nm(1), of p] rm [of p] rset by (cases p rule: rev_cases) auto
  have cp: "\<exists>q c. p = q @ [c] \<and> list_all proper_name (q @ [c]) \<and> plain_name c" if "p \<in> set changed" for p
    using pl [OF _ _ assms(2) nm(2), of p] ch [OF that] by (cases p rule: rev_cases) auto
  have i1: "aeach (apply_whiteout base) ?infos = aret ()"
    by (rule aeach_skip) (use cp apply_whiteout_plain in \<open>fastforce simp: info_of_type(3)\<close>)
  have "aeach (apply_whiteout base) (map (\<lambda>p. whiteout_marker mtime (rel_text p)) xs) = aeach remove_path (map (\<lambda>p. base @ p) xs)"
    if "set xs \<subseteq> set rs" for xs
    using that
  proof (induction xs)
    case (Cons p xs)
    obtain q c where "p = q @ [c]" "list_all proper_name (q @ [c])" "plain_name c" using rp [of p] Cons.prems by auto
    then show ?case using Cons apply_whiteout_marker [of q c base mtime] by (intro ext) (simp add: abind_def)
  qed simp
  then have i2: "aeach (apply_whiteout base) ?marks = aeach remove_path (map (\<lambda>p. base @ p) rs)"
    unfolding marks by simp
  have i3: "aeach (apply_member new base) ?marks = aret ()"
    unfolding marks by (rule aeach_skip) (use rp apply_member_marker in fastforce)
  obtain g where g: "aeach remove_path (map (\<lambda>p. base @ p) rs) before = (Inr (), g)" "fs_wf g"
    and gl: "\<And>k. fmlookup g k = (if \<exists>p \<in> set rs. at_or_below (base @ p) k then None else fmlookup before k)"
    using remove_all [OF assms(1), of "map (\<lambda>p. base @ p) rs"] rm rset assms(3) wf_clear_above [OF assms(1)] by fastforce
  have out: "\<not> at_or_below (base @ p) k" if "\<not> (at_or_below base k \<and> k \<noteq> base)" "p \<in> set rs" for p k
    using that rm rset by (auto simp: at_or_below_append)
  have gin: "fmlookup g (base @ p) = (if fmlookup after (base @ p) = None then None else fmlookup before (base @ p))"
    if "p \<noteq> []" for p
  proof (cases "fmlookup after (base @ p)")
    case None
    then show ?thesis using rm [of p] rset that unfolding gl by (auto simp: at_or_below_append)
  next
    case (Some n)
    have "\<not> at_or_below (base @ q) (base @ p)" if q: "q \<in> set rs" for q
    proof
      assume a: "at_or_below (base @ q) (base @ p)"
      moreover have "fmlookup after (base @ q) = None" using q rm rset by auto
      ultimately show False
        using wf_no_descendant [OF assms(2), of "base @ q" "base @ p"] Some by (cases "q = p") auto
    qed
    then show ?thesis using Some unfolding gl by auto
  qed
  have gout: "fmlookup g k = fmlookup before k" if "\<not> (at_or_below base k \<and> k \<noteq> base)" for k
    using out [OF that] unfolding gl by auto
  have "\<exists>fs'. aeach (apply_member new base) ?infos g = (Inr (), fs') \<and> fs_wf fs'
    \<and> (\<forall>k. fmlookup fs' k = (if \<exists>p \<in> set changed. k = base @ p
          then Some (made new (?info (drop (length base) k)) (fmlookup g k)) else fmlookup g k))"
  proof (rule apply_members [OF g(2) assms(2,3)])
    show "is_fdir (fmlookup g base)" using gout [of base] assms(4) by simp
    show "sorted (map rel_text changed)" "distinct changed" using diff_layer_ofD(4,5) [OF d] by simp_all
    show "p \<noteq> [] \<and> plain_name (last p) \<and> fmlookup after (base @ p) \<noteq> None" if "p \<in> set changed" for p
      using ch [OF that] pl [OF _ _ assms(2) nm(2)] by auto
    show "fmlookup after (base @ p) \<noteq> Some (FDev a)" if "p \<in> set changed" for p a
      using ch [OF that] nm(2) unfolding no_markers_def by blast
    show "fmlookup after (base @ p) \<noteq> None" if "p \<noteq> []" "fmlookup g (base @ p) \<noteq> None" for p
      using gin that by (auto split: if_splits)
    show "is_fdir (fmlookup g (base @ p))" if a: "p \<noteq> []" "is_fdir (fmlookup after (base @ p))" "p \<notin> set changed" for p
    proof -
      obtain x where x: "fmlookup after (base @ p) = Some (FDir x)" using a(2) by (rule is_fdirE)
      then obtain m where "fmlookup before (base @ p) = Some m" "same_content m (FDir x)"
        using unch [OF a(1,3)] by auto
      then show ?thesis using gin [OF a(1)] x by (cases m) auto
    qed
    show "\<not> is_flink (fmlookup g (base @ p))" if "p \<in> set changed" "is_fdir (fmlookup after (base @ p))" for p
      proof -
      have "\<not> is_flink (fmlookup before (base @ p))" using nl that(2) unfolding no_link_becomes_dir_def by blast
      then show ?thesis using gin [of p] ch(1) [OF that(1)] by simp
    qed
  qed
  then obtain fs' where f: "aeach (apply_member new base) ?infos g = (Inr (), fs')" "fs_wf fs'"
    and fl: "\<And>k. fmlookup fs' k = (if \<exists>p \<in> set changed. k = base @ p
          then Some (made new (?info (drop (length base) k)) (fmlookup g k)) else fmlookup g k)" by blast
  have "extract_layer new (Gz level mt tar) base True before = (Inr (), fs')"
    using makedirs_dir [OF assms(1,4)] i1 i2 i3 g(1) f(1)
    by (simp add: extract_layer_def tar abind_def aeach_append)
  moreover have "rel_option same_content (fmlookup fs' (base @ p)) (fmlookup after (base @ p))" if "p \<noteq> []" for p
  proof (cases "p \<in> set changed")
    case True
    then obtain n where n: "fmlookup after (base @ p) = Some n" using ch by blast
    then have "\<forall>a. n \<noteq> FDev a" using nm(2) that unfolding no_markers_def by blast
    then show ?thesis using True n made_same [of who mtime p n new] info_of_type(1) [of n] by (simp add: fl)
  next
    case False
    then have e: "fmlookup fs' (base @ p) = fmlookup g (base @ p)" by (simp add: fl)
    show ?thesis
    proof (cases "fmlookup after (base @ p)")
      case (Some n)
      then show ?thesis using unch [OF that False] gin [OF that] unfolding e by auto
    qed (use e gin [OF that] in simp)
  qed
  moreover have "fmlookup fs' k = fmlookup before k" if "\<not> (at_or_below base k \<and> k \<noteq> base)" for k
  proof -
    have "\<not> (\<exists>p \<in> set changed. k = base @ p)" using that ch by (auto simp: at_or_below_append)
    then show ?thesis using gout [OF that] unfolding fl by auto
  qed
  ultimately show ?thesis using f(2) by blast
qed

section \<open>Layers in sequence\<close>

lemma same_content_sym: "same_content m n \<Longrightarrow> same_content n m"
  by (induction m n rule: same_content.induct) auto

lemma same_content_trans: "same_content l m \<Longrightarrow> same_content m n \<Longrightarrow> same_content l n"
  by (induction l m rule: same_content.induct) (cases n; auto)+

lemma same_content_kind:
  "same_content m n \<Longrightarrow> is_fdir (Some m) \<longleftrightarrow> is_fdir (Some n)"
  "same_content m n \<Longrightarrow> is_flink (Some m) \<longleftrightarrow> is_flink (Some n)"
  "same_content m n \<Longrightarrow> m \<noteq> FDev a"
  by (cases m; cases n; simp)+

text \<open>Two trees agree below \<open>base\<close> on everything an archive carries.\<close>

definition same_tree :: "fs \<Rightarrow> fs \<Rightarrow> path \<Rightarrow> bool" where
  "same_tree f g base \<longleftrightarrow> (\<forall>p. p \<noteq> [] \<longrightarrow> rel_option same_content (fmlookup f (base @ p)) (fmlookup g (base @ p)))"

lemma same_treeD: "same_tree f g base \<Longrightarrow> p \<noteq> [] \<Longrightarrow> rel_option same_content (fmlookup f (base @ p)) (fmlookup g (base @ p))"
  by (simp add: same_tree_def)

text \<open>The layers of a sequence of trees: each is the difference from the tree before it.\<close>

fun layer_chain :: "(int \<Rightarrow> string) \<Rightarrow> path \<Rightarrow> fs \<Rightarrow> fs list \<Rightarrow> blob list \<Rightarrow> bool" where
  "layer_chain who base before [] [] = True"
| "layer_chain who base before (after # ts) (b # bs) =
     ((\<exists>changed removed mtime level mt tar. b = Gz level mt tar \<and> diff_layer_of before after base changed removed
         \<and> write_tar who after (map (\<lambda>p. (rel_text p, base @ p)) changed) (map rel_text removed) mtime = Inr tar)
      \<and> fs_wf after \<and> no_markers after base \<and> no_link_becomes_dir before after base
      \<and> layer_chain who base after ts bs)"
| "layer_chain who base before _ _ = False"

lemma layer_chainI:
  assumes "diff_layer_of before after base changed removed"
    "write_tar who after (map (\<lambda>p. (rel_text p, base @ p)) changed) (map rel_text removed) mtime = Inr tar"
    "fs_wf after" "no_markers after base" "no_link_becomes_dir before after base" "layer_chain who base after ts bs"
  shows "layer_chain who base before (after # ts) (Gz level mt tar # bs)"
  using assms by simp blast

lemma diff_layer_same:
  assumes "same_tree fs before base" "diff_layer_of before after base changed removed"
  shows "diff_layer_of fs after base changed removed"
proof -
  have r: "rel_option same_content (fmlookup fs (base @ p)) (fmlookup before (base @ p))" if "p \<noteq> []" for p
    using assms(1) that by (simp add: same_tree_def)
  have n: "fmlookup fs (base @ p) = None \<longleftrightarrow> fmlookup before (base @ p) = None" if "p \<noteq> []" for p
    using r [OF that] by (cases "fmlookup fs (base @ p)"; cases "fmlookup before (base @ p)") simp_all
  have s: "\<exists>l. fmlookup fs (base @ p) = Some l \<and> same_content l y"
    if "p \<noteq> []" "fmlookup before (base @ p) = Some m" "same_content m y" for p m y
    using r [OF that(1)] that(2,3) same_content_trans by (auto simp: option_rel_Some2)
  have u: "\<exists>m. fmlookup before (base @ p) = Some m \<and> same_content m (the (fmlookup after (base @ p)))"
    if "p \<noteq> []" "p \<notin> set changed" "fmlookup after (base @ p) \<noteq> None" for p
    using diff_layer_ofD(2) [OF assms(2)] that by blast
  show ?thesis
  proof (rule diff_layer_ofI)
    show "sorted (map rel_text changed)" "distinct changed" by (rule diff_layer_ofD(4,5) [OF assms(2)])+
    show "p \<noteq> [] \<and> fmlookup after (base @ p) \<noteq> None" if "p \<in> set changed" for p
      using diff_layer_ofD(1) [OF assms(2)] that by blast
    show "\<exists>m. fmlookup fs (base @ p) = Some m \<and> same_content m (the (fmlookup after (base @ p)))"
      if "p \<noteq> []" "p \<notin> set changed" "fmlookup after (base @ p) \<noteq> None" for p
      using u [OF that] s [OF that(1)] by blast
    show "p \<in> set removed \<longleftrightarrow> p \<noteq> [] \<and> fmlookup fs (base @ p) \<noteq> None \<and> fmlookup after (base @ p) = None" for p
      unfolding spec [OF diff_layer_ofD(3) [OF assms(2)], of p] using n [of p] by (cases "p = []") simp_all
  qed
qed

lemma chain_step_ok:
  assumes "same_tree fs before base" "no_markers before base" "no_link_becomes_dir before after base"
    and "is_fdir (fmlookup fs base)"
  shows "no_markers fs base" "no_link_becomes_dir fs after base"
proof -
  have r: "rel_option same_content (fmlookup fs (base @ p)) (fmlookup before (base @ p))" if "p \<noteq> []" for p
    using assms(1) that by (simp add: same_tree_def)
  show "no_markers fs base"
    unfolding no_markers_def
  proof (intro allI impI)
    fix p n assume a: "p \<noteq> [] \<and> fmlookup fs (base @ p) = Some n"
    then obtain m where "fmlookup before (base @ p) = Some m" "same_content n m"
      using r [of p] by (auto simp: option_rel_Some1)
    then show "plain_name (last p) \<and> (\<forall>x. n \<noteq> FDev x)"
      using assms(2) a same_content_kind(3) unfolding no_markers_def by blast
  qed
  show "no_link_becomes_dir fs after base"
    unfolding no_link_becomes_dir_def
  proof (intro allI impI)
    fix p assume a: "is_flink (fmlookup fs (base @ p))"
    then have p: "p \<noteq> []" using assms(4) by (auto elim: is_fdirE)
    obtain x where x: "fmlookup fs (base @ p) = Some x" using a by (auto elim: is_flinkE)
    obtain m where m: "fmlookup before (base @ p) = Some m" "same_content x m"
      using r [OF p] x by (auto simp: option_rel_Some1)
    have "is_flink (fmlookup before (base @ p))" using m a x same_content_kind(2) by simp
    then show "\<not> is_fdir (fmlookup after (base @ p))" using assms(3) unfolding no_link_becomes_dir_def by blast
  qed
qed

lemma extract_chain:
  assumes "layer_chain who base before ts bs" "base \<noteq> []" "fs_wf fs" "is_fdir (fmlookup fs base)"
    and "same_tree fs before base" "no_markers before base"
  shows "\<exists>fs'. aeach (\<lambda>b. extract_layer new b base True) bs fs = (Inr (), fs') \<and> fs_wf fs'
    \<and> same_tree fs' (last (before # ts)) base
    \<and> (\<forall>k. \<not> (at_or_below base k \<and> k \<noteq> base) \<longrightarrow> fmlookup fs' k = fmlookup fs k)"
  using assms
proof (induction who base before ts bs arbitrary: fs rule: layer_chain.induct)
  case (2 who base before after ts b bs)
  from "2.prems"(1) obtain changed removed mtime level mt tar where
    c: "b = Gz level mt tar" "diff_layer_of before after base changed removed"
      "write_tar who after (map (\<lambda>p. (rel_text p, base @ p)) changed) (map rel_text removed) mtime = Inr tar"
    and a: "fs_wf after" "no_markers after base" "no_link_becomes_dir before after base" "layer_chain who base after ts bs"
    by auto
  note ok = chain_step_ok [OF "2.prems"(5,6) a(3) "2.prems"(4)]
  obtain g where g: "extract_layer new b base True fs = (Inr (), g)" "fs_wf g" "same_tree g after base"
      "\<forall>k. \<not> (at_or_below base k \<and> k \<noteq> base) \<longrightarrow> fmlookup g k = fmlookup fs k"
    using extract_diff [OF "2.prems"(3) a(1) "2.prems"(2,4) diff_layer_same [OF "2.prems"(5) c(2)] ok(1) a(2) ok(2) c(3),
        of new level mt]
    unfolding c(1) same_tree_def by blast
  have "is_fdir (fmlookup g base)" using g(4) "2.prems"(4) by simp
  from "2.IH" [OF a(4) "2.prems"(2) g(2) this g(3) a(2)] g(1,4) show ?case by auto
qed (auto simp: same_tree_def)

end
