(* ===== verification/Container_Unpack.thy ===== *)
theory Container_Unpack
  imports Container_Image Image_Layer_Props
begin

text \<open>
  Unpacking in the container runtime: \<open>modules/container-runtime/minicon/image.py\<close> (one layer into a
  directory of its own, whiteouts translated for overlayfs, and the cache of unpacked layers) and
  \<open>minicon/nshelper.py\<close> (the process inside a user namespace that does it, one layer at a time under
  a lock).  In the file system a character device 0:0 is \<open>FDev\<close>, the opaque attribute is
  \<open>fa_opaque\<close>.  What overlayfs shows for a stack of directories is a parameter of the development, with the rules of
  the kernel's documentation as the predicate \<open>overlay_rules\<close>.
\<close>

section \<open>One layer\<close>

definition mc_within :: "path \<Rightarrow> path \<Rightarrow> bool" where
  \<comment> \<open>\<open>_within\<close>: the image toolkit's text again\<close>
  "mc_within base p = is_within base p"

definition remove_quiet :: "path \<Rightarrow> (unit, fs) act" where
  \<comment> \<open>\<open>_remove\<close>, which ignores errors\<close>
  "remove_quiet p fs = (Inr (), snd ((if isdir fs p \<and> \<not> islink fs p then rmtree p else fs_unlink p) fs))"

definition fs_mknod :: "(bool \<Rightarrow> fattr) \<Rightarrow> path \<Rightarrow> (unit, fs) act" where
  \<comment> \<open>\<open>os.mknod(p, 0o600 | S_IFCHR, makedev(0, 0))\<close>\<close>
  "fs_mknod new p = on_node False p (\<lambda>q n fs.
     case n of Some x \<Rightarrow> (Inl (OSError ''File exists''), fs)
     | None \<Rightarrow> (Inr (), fmupd q (FDev ((new False)\<lparr>fa_mode := 384\<rparr>)) fs))"

definition make_whiteout :: "(bool \<Rightarrow> fattr) \<Rightarrow> bool \<Rightarrow> path \<Rightarrow> (unit, fs) act" where
  \<comment> \<open>\<open>_make_whiteout\<close>; \<open>may\<close> tells whether the process has \<open>CAP_MKNOD\<close>\<close>
  "make_whiteout new may p =
     abind (\<lambda>fs. if lexists fs p then remove_quiet p fs else (Inr (), fs)) (\<lambda>_ fs.
     case (if may then fs_mknod new p fs else (Inl (OSError ''Operation not permitted''), fs)) of
       (Inl (OSError t), fs') \<Rightarrow> (Inl (NotSupported (''cannot create an overlayfs whiteout at /'' @ rel_text p @ '' ('' @ t
           @ ''). mknod needs CAP_MKNOD, which requires being inside a user namespace ''
           @ ''this process created -- see run_in_userns().'')), fs')
     | r \<Rightarrow> r)"

definition set_opaque :: "path \<Rightarrow> (unit, fs) act" where
  \<comment> \<open>\<open>_set_opaque\<close>: a file system that refuses is ignored\<close>
  "set_opaque p fs = (Inr (), snd (on_node True p (\<lambda>q n fs.
     case n of Some (FDir a) \<Rightarrow> (Inr (), fmupd q (FDir (a\<lparr>fa_opaque := True\<rparr>)) fs)
     | _ \<Rightarrow> (Inl (OSError []), fs)) fs))"

record unpack_counts =
  uc_files :: nat
  uc_whiteouts :: nat
  uc_opaque :: nat

definition unpack_member ::
  "(bool \<Rightarrow> fattr) \<Rightarrow> bool \<Rightarrow> path \<Rightarrow> tar_info \<Rightarrow> unpack_counts \<Rightarrow> (unpack_counts, fs) act" where
  \<comment> \<open>the body of the loop of \<open>unpack_layer\<close>\<close>
  "unpack_member new may dest i c =
     (let name = snd (path_split (ti_name i)); target = under dest (ti_name i) in
      if \<not> mc_within dest target then alift (Inl (ValueError (''layer escapes its directory: '' @ ti_name i)))
      else if name = OPAQUE_MARKER then
        abind (makedirs new (butlast target)) (\<lambda>_. abind (set_opaque (butlast target)) (\<lambda>_.
        aret (c\<lparr>uc_opaque := uc_opaque c + 1\<rparr>)))
      else if starts_with name WHITEOUT_PREFIX then
        abind (makedirs new (butlast target)) (\<lambda>_.
        abind (make_whiteout new may (under (butlast target) (drop (length WHITEOUT_PREFIX) name))) (\<lambda>_.
        aret (c\<lparr>uc_whiteouts := uc_whiteouts c + 1\<rparr>)))
      else
        abind (\<lambda>fs. if lexists fs target \<and> \<not> (ti_type i = TDir \<and> isdir fs target)
                    then remove_quiet target fs else (Inr (), fs)) (\<lambda>_.
        abind (tar_extract new i dest) (\<lambda>_.
        abind (if ti_type i = TReg \<or> ti_type i = TDir then fs_chmod (ti_mode i) target else aret ()) (\<lambda>_.
        aret (c\<lparr>uc_files := uc_files c + 1\<rparr>)))))"

fun unpack_members ::
  "(bool \<Rightarrow> fattr) \<Rightarrow> bool \<Rightarrow> path \<Rightarrow> tar_info list \<Rightarrow> unpack_counts \<Rightarrow> (unpack_counts, fs) act" where
  "unpack_members new may dest [] c = aret c"
| "unpack_members new may dest (i # is) c =
     abind (unpack_member new may dest i c) (\<lambda>c'. unpack_members new may dest is c')"

definition unpack_layer :: "(bool \<Rightarrow> fattr) \<Rightarrow> bool \<Rightarrow> blob \<Rightarrow> path \<Rightarrow> (unpack_counts, fs) act" where
  "unpack_layer new may b dest =
     (case (case b of Gz level mtime r \<Rightarrow> r | _ \<Rightarrow> b) of
        Tar members \<Rightarrow> unpack_members new may dest members \<lparr>uc_files = 0, uc_whiteouts = 0, uc_opaque = 0\<rparr>
      | _ \<Rightarrow> alift (Inl (TarError ''file could not be opened successfully'')))"

section \<open>The layer cache\<close>

record layer_cache =
  lc_root :: string
  lc_unpacked :: "string list"
  lc_reused :: "string list"

definition path_for :: "layer_cache \<Rightarrow> string \<Rightarrow> string" where
  "path_for lc dg = path_join (lc_root lc) (replace_char CHR '':'' CHR ''_'' dg)"

definition marker_for :: "layer_cache \<Rightarrow> string \<Rightarrow> string" where
  "marker_for lc dg = path_for lc dg @ ''.done''"

definition lock_for :: "layer_cache \<Rightarrow> string \<Rightarrow> string" where
  "lock_for lc dg = path_for lc dg @ ''.lock''"

definition layer_ready :: "layer_cache \<Rightarrow> fs \<Rightarrow> string \<Rightarrow> bool" where
  \<comment> \<open>\<open>is_ready\<close>\<close>
  "layer_ready lc fs dg = path_exists fs (comps (marker_for lc dg))"

definition lowerdirs :: "layer_cache \<Rightarrow> string list \<Rightarrow> string list" where
  "lowerdirs lc digests = map (path_for lc) digests"

definition unpack_fresh :: "(bool \<Rightarrow> fattr) \<Rightarrow> bool \<Rightarrow> img_store \<Rightarrow> layer_cache \<Rightarrow> string \<Rightarrow> (unit, fs) act" where
  \<comment> \<open>the body of \<open>_unpack_layers\<close>, and the end of that of the helper's \<open>_unpack\<close>: the marker comes last\<close>
  "unpack_fresh new may st lc dg =
     (let target = comps (path_for lc dg) in
      abind (\<lambda>fs. (Inr (), snd (rmtree target fs))) (\<lambda>_.
      abind (makedirs new target) (\<lambda>_.
      abind (alift (read_blob st dg)) (\<lambda>b.
      abind (unpack_layer new may b target) (\<lambda>_.
      write_file new (comps (marker_for lc dg)) dg)))))"

definition unpack_layers :: "(bool \<Rightarrow> fattr) \<Rightarrow> bool \<Rightarrow> img_store \<Rightarrow> layer_cache \<Rightarrow> string list \<Rightarrow> (unit, fs) act" where
  \<comment> \<open>\<open>_unpack_layers\<close>\<close>
  "unpack_layers new may st lc = aeach (unpack_fresh new may st lc)"

section \<open>The helper process\<close>

definition unpack_one :: "(bool \<Rightarrow> fattr) \<Rightarrow> bool \<Rightarrow> img_store \<Rightarrow> layer_cache \<Rightarrow> string \<Rightarrow> (unit, fs) act" where
  \<comment> \<open>the body of the loop of the helper's \<open>_unpack\<close>; from the lock on, nobody else works on the layer\<close>
  "unpack_one new may st lc dg =
     abind (makedirs new (butlast (comps (path_for lc dg)))) (\<lambda>_.
     abind (write_file new (comps (lock_for lc dg)) []) (\<lambda>_ fs.
     if layer_ready lc fs dg then (Inr (), fs) else unpack_fresh new may st lc dg fs))"

datatype helper_spec = Unpack layer_cache "string list" | Remove "path list" | BadRequest string

definition helper_operation :: "(bool \<Rightarrow> fattr) \<Rightarrow> bool \<Rightarrow> img_store \<Rightarrow> helper_spec \<Rightarrow> (unit, fs) act" where
  \<comment> \<open>\<open>OPERATIONS\<close>: \<open>_unpack\<close> and \<open>_remove\<close>\<close>
  "helper_operation new may st spec =
     (case spec of
        Unpack lc digests \<Rightarrow> aeach (unpack_one new may st lc) digests
      | Remove ps \<Rightarrow> aeach (\<lambda>p fs. (Inr (), snd (rmtree p fs))) ps
      | BadRequest t \<Rightarrow> aret ())"

record helper_host =
  hh_unshare :: "unit res"
  hh_maps :: "unit res"
  hh_private :: "unit res"
  hh_may_mknod :: bool
  hh_new :: "bool \<Rightarrow> fattr"
  hh_show :: "exc \<Rightarrow> string"

definition helper_main :: "helper_host \<Rightarrow> img_store \<Rightarrow> helper_spec \<Rightarrow> fs \<Rightarrow> (int \<times> string) \<times> fs" where
  \<comment> \<open>\<open>main\<close>: the exit status and the error text\<close>
  "helper_main h st spec fs =
     (case spec of
        BadRequest t \<Rightarrow> ((2, ''nshelper: bad request: '' @ t), fs)
      | _ \<Rightarrow>
        (case hh_unshare h of
           Inl e \<Rightarrow> ((1, ''nshelper: '' @ hh_show h e), fs)
         | Inr _ \<Rightarrow>
           (case abind (alift (hh_maps h)) (\<lambda>_. abind (alift (hh_private h)) (\<lambda>_.
                  helper_operation (hh_new h) (hh_may_mknod h) st spec)) fs of
              (Inl e, fs') \<Rightarrow> ((1, hh_show h e), fs')
            | (Inr _, fs') \<Rightarrow> ((0, []), fs'))))"

definition run_helper :: "helper_host \<Rightarrow> img_store \<Rightarrow> helper_spec \<Rightarrow> (unit, fs) act" where
  \<comment> \<open>the exit status is the whole protocol\<close>
  "run_helper h st spec fs =
     (case helper_main h st spec fs of ((code, err), fs') \<Rightarrow>
        if code \<noteq> 0 then
          (Inl (RuntimeError (if strip err \<noteq> [] then strip err
             else ''user namespace helper failed ('' @ str_int code @ '')'')), fs')
        else (Inr (), fs'))"

definition cache_ensure :: "helper_host \<Rightarrow> img_store \<Rightarrow> mc_image \<Rightarrow> (string list, layer_cache \<times> fs) act" where
  \<comment> \<open>\<open>LayerCache.ensure\<close>\<close>
  "cache_ensure h st im s =
     (case s of (lc0, fs0) \<Rightarrow>
      case makedirs (hh_new h) (comps (lc_root lc0)) fs0 of
        (Inl e, fs1) \<Rightarrow> (Inl e, (lc0, fs1))
      | (Inr _, fs1) \<Rightarrow>
        (case layer_digests im of
           Inl e \<Rightarrow> (Inl e, (lc0, fs1))
         | Inr digests \<Rightarrow>
           (let missing = filter (\<lambda>d. \<not> layer_ready lc0 fs1 d) digests;
                lc1 = lc0\<lparr>lc_reused := filter (\<lambda>d. d \<notin> set missing) digests\<rparr>
            in case (if missing = [] then (Inr (), (lc1, fs1))
                     else (case run_helper h st (Unpack lc1 missing) fs1 of
                             (Inl e, fs2) \<Rightarrow> (Inl e, (lc1, fs2))
                           | (Inr _, fs2) \<Rightarrow> (Inr (), (lc1\<lparr>lc_unpacked := missing\<rparr>, fs2)))) of
                 (Inl e, s2) \<Rightarrow> (Inl e, s2)
               | (Inr _, (lc2, fs2)) \<Rightarrow>
                   (case find (\<lambda>d. \<not> layer_ready lc2 fs2 d) digests of
                      Some d \<Rightarrow> (Inl (RuntimeError (''layer '' @ d @ '' failed to unpack'')), (lc2, fs2))
                    | None \<Rightarrow> (Inr (lowerdirs lc2 digests), (lc2, fs2))))))"

section \<open>What overlayfs shows\<close>

type_synonym tree_view = "path \<Rightarrow> fnode option"

text \<open>What overlayfs shows for a stack of directories, the uppermost first, is the kernel's: a parameter of the
  development, of which the kernel's documentation states these rules.  An object of the upper directory is
  visible and hides the one below it, except that directories are merged and that a whiteout hides
  the lower object and is not shown itself; a name that the upper directory does not have is looked
  up below it, unless the way to it leads through an object that is not a directory or through an
  opaque directory.\<close>

fun shuts_off :: "fnode option \<Rightarrow> bool" where
  \<comment> \<open>the entry keeps what is below it in the lower layers from being seen\<close>
  "shuts_off None = False"
| "shuts_off (Some (FDir a)) = fa_opaque a"
| "shuts_off (Some _) = True"

definition hides_below :: "tree_view \<Rightarrow> path \<Rightarrow> bool" where
  "hides_below v p \<longleftrightarrow> (\<exists>i. 0 < i \<and> i < length p \<and> shuts_off (v (take i p)))"

definition dir_tree :: "tree_view \<Rightarrow> bool" where
  "dir_tree v \<longleftrightarrow> (\<forall>q r. r \<noteq> [] \<and> v (q @ r) \<noteq> None \<longrightarrow> is_fdir (v q))"

definition overlay_rules :: "(tree_view list \<Rightarrow> tree_view) \<Rightarrow> bool" where
  \<comment> \<open>the documented behaviour of the merged view\<close>
  "overlay_rules merged \<longleftrightarrow> (\<forall>p. merged [] p = None)
     \<and> (\<forall>v vs p. dir_tree v \<and> p \<noteq> [] \<longrightarrow> merged (v # vs) p =
          (case v p of Some (FDev a) \<Rightarrow> None | Some n \<Rightarrow> Some n
           | None \<Rightarrow> if hides_below v p then None else merged vs p))"

section \<open>The cache\<close>

text \<open>The layer directories are returned only when every layer is unpacked, and the helper was asked for exactly
  the missing ones.\<close>

theorem cache_ensure_ready:
  "cache_ensure h st im s = (Inr dirs, (lc, fs)) \<Longrightarrow>
     \<exists>digests. layer_digests im = Inr digests \<and> dirs = map (path_for lc) digests \<and> (\<forall>d \<in> set digests. layer_ready lc fs d)"
  by (auto simp: cache_ensure_def Let_def find_None_iff lowerdirs_def split: sum.splits prod.splits option.splits if_splits)

end
