(* ===== verification/Container_Unpack_Props.thy ===== *)
theory Container_Unpack_Props
  imports Container_Unpack
begin

text \<open>
  What unpacking a layer into a fresh directory leaves there, and what a stack of such directories
  shows through overlayfs: the tree that the image was built from.
\<close>

section \<open>Creating missing parents\<close>

text \<open>\<open>fills fs p g\<close>: \<open>g\<close> is \<open>fs\<close> with the missing directories on the way to \<open>p\<close>, and \<open>p\<close> itself.\<close>

definition fills :: "fattr \<Rightarrow> fs \<Rightarrow> path \<Rightarrow> fs \<Rightarrow> bool" where
  "fills a fs p g \<longleftrightarrow> fs_wf g \<and> (\<forall>k. fmlookup g k = (if at_or_below k p \<and> fmlookup fs k = None then Some (FDir a) else fmlookup fs k))"

lemma fillsD: "fills a fs p g \<Longrightarrow> fmlookup g k = (if at_or_below k p \<and> fmlookup fs k = None then Some (FDir a) else fmlookup fs k)"
  "fills a fs p g \<Longrightarrow> fs_wf g"
  by (simp_all add: fills_def)

lemma clear_above_butlast: "clear_above fs (p @ [c]) \<Longrightarrow> clear_above fs p \<and> (fmlookup fs p = None \<or> is_fdir (fmlookup fs p))"
proof -
  assume a: "clear_above fs (p @ [c])"
  have "fmlookup fs (take i p) = None \<or> is_fdir (fmlookup fs (take i p))" if "i \<le> length p" for i
  proof -
    have "take i (p @ [c]) = take i p" using that by simp
    then show ?thesis using a that unfolding clear_above_def by (metis le_imp_less_Suc length_append_singleton)
  qed
  from this this [of "length p"] show ?thesis using a by (auto simp: clear_above_def)
qed

lemma wf_dir_above:
  assumes "fs_wf fs" "fmlookup fs p = Some x" "at_or_below k p"
  shows "fmlookup fs k \<noteq> None"
proof (cases "k = p")
  case False
  then obtain r where "p = k @ r" "r \<noteq> []" using assms(3) by (auto simp: at_or_below_append)
  then show ?thesis using fs_wf_nodeD(2) [OF assms(1,2), of "length k"] by (auto elim: is_fdirE)
qed (use assms(2) in simp)

lemma mkdir_ready:
  assumes "fs_wf fs" "is_fdir (fmlookup fs d)" "proper_name c" "fmlookup fs (d @ [c]) = None"
  shows "mkdir_ok new (d @ [c]) fs = (Inr (), fmupd (d @ [c]) (FDir (new True)) fs)"
    "fs_wf (fmupd (d @ [c]) (FDir (new True)) fs)"
proof -
  note cp = clear_parent [OF assms(1-3)]
  have "resolve fs False (d @ [c]) = Inr (d @ [c])"
    by (rule resolve_real) (use cp in \<open>auto simp: clear_above_def\<close>)
  then show "mkdir_ok new (d @ [c]) fs = (Inr (), fmupd (d @ [c]) (FDir (new True)) fs)"
    using assms(4) by (simp add: mkdir_ok_def fs_mkdir_def on_node_def)
  show "fs_wf (fmupd (d @ [c]) (FDir (new True)) fs)"
    by (rule wf_add_child [OF assms(1-3)]) simp
qed

lemma makedirs_fill:
  assumes "fs_wf fs" "clear_above fs p" "fmlookup fs p = None \<or> is_fdir (fmlookup fs p)"
  shows "\<exists>g. makedirs new p fs = (Inr (), g) \<and> fills (new True) fs p g"
  using assms(2,3)
proof (induction p rule: rev_induct)
  case Nil
  have "is_fdir (fmlookup fs [])" by (rule fs_wf_root [OF assms(1)])
  then show ?case using makedirs_dir [OF assms(1), of "[]" new] assms(1)
    by (auto simp: fills_def at_or_below_append elim: is_fdirE)
next
  case (snoc c p)
  note cb = clear_above_butlast [OF snoc.prems(1)]
  have pc: "proper_name c" using snoc.prems(1) by (simp add: clear_above_def)
  show ?case
  proof (cases "fmlookup fs (p @ [c])")
    case (Some x)
    then have "makedirs new (p @ [c]) fs = (Inr (), fs)" using makedirs_dir [OF assms(1)] snoc.prems(2) by simp
    moreover have "fills (new True) fs (p @ [c]) fs"
      using wf_dir_above [OF assms(1) Some] assms(1) by (auto simp: fills_def)
    ultimately show ?thesis by blast
  next
    case None
    have nl: "\<not> is_flink (fmlookup fs p)" using cb by (auto elim: is_fdirE)
    then have pe: "path_exists fs p \<longleftrightarrow> fmlookup fs p \<noteq> None"
      using stat_clear(2) [OF assms(1)] cb by (simp add: path_exists_def)
    obtain g where g: "makedirs new p fs = (Inr (), g)" "fills (new True) fs p g" using snoc.IH cb by blast
    have gd: "is_fdir (fmlookup g p)" using cb fillsD(1) [OF g(2), of p] by (auto simp: at_or_below_def)
    have gn: "fmlookup g (p @ [c]) = None" using None fillsD(1) [OF g(2), of "p @ [c]"] by (simp add: at_or_below_def)
    note mk = mkdir_ready [OF fillsD(2) [OF g(2)] gd pc gn, of new]
    let ?h = "fmupd (p @ [c]) (FDir (new True)) g"
    have "makedirs new (p @ [c]) fs = (Inr (), ?h)"
    proof (cases "fmlookup fs p")
      case (Some x)
      have "g = fs" using fillsD(1) [OF g(2)] wf_dir_above [OF assms(1) Some] by (intro fmap_ext) auto
      then show ?thesis using pe Some mk(1) by (subst makedirs.simps) simp
    next
      case N: None
      then show ?thesis using pe g(1) mk(1) by (subst makedirs.simps) (simp add: abind_def)
    qed
    moreover have "fills (new True) fs (p @ [c]) ?h"
      using mk(2) None fillsD(1) [OF g(2)] by (auto simp: fills_def at_or_below_append append_eq_append_conv2 Cons_eq_append_conv)
    ultimately show ?thesis by blast
  qed
qed

section \<open>One entry of a fresh directory\<close>

text \<open>\<open>puts a base p n fs g\<close>: \<open>g\<close> is \<open>fs\<close> with \<open>n\<close> at \<open>p\<close> below \<open>base\<close> and the missing parents.\<close>

definition puts :: "fattr \<Rightarrow> path \<Rightarrow> path \<Rightarrow> fnode \<Rightarrow> fs \<Rightarrow> fs \<Rightarrow> bool" where
  "puts a base p n fs g \<longleftrightarrow> fs_wf g \<and> (\<forall>k. fmlookup g k =
     (if k = base @ p then Some n
      else if at_or_below k (base @ p) \<and> fmlookup fs k = None then Some (FDir a) else fmlookup fs k))"

definition ready_for :: "path \<Rightarrow> path \<Rightarrow> fs \<Rightarrow> bool" where
  "ready_for base p fs \<longleftrightarrow> fs_wf fs \<and> base \<noteq> [] \<and> p \<noteq> [] \<and> is_fdir (fmlookup fs base)
     \<and> clear_above fs (base @ p) \<and> fmlookup fs (base @ p) = None"

lemma ready_parent:
  assumes "ready_for base (p @ [c]) fs"
  obtains g where "makedirs new (base @ p) fs = (Inr (), g)" "fills (new True) fs (base @ p) g" "fs_wf g"
    "is_fdir (fmlookup g base)" "is_fdir (fmlookup g (base @ p))" "fmlookup g (base @ p @ [c]) = None"
    "fmlookup fs (base @ p) \<noteq> None \<Longrightarrow> g = fs" "path_exists fs (base @ p) \<longleftrightarrow> fmlookup fs (base @ p) \<noteq> None"
    "realpath fs (base @ p @ [c]) = base @ p @ [c]" "realpath fs base = base"
proof -
  have r: "fs_wf fs" "is_fdir (fmlookup fs base)" "clear_above fs (base @ p @ [c])" "fmlookup fs (base @ p @ [c]) = None"
    using assms by (simp_all add: ready_for_def)
  have cb: "clear_above fs (base @ p)" "fmlookup fs (base @ p) = None \<or> is_fdir (fmlookup fs (base @ p))"
    using clear_above_butlast [of fs "base @ p" c] r(3) by simp_all
  obtain g where g: "makedirs new (base @ p) fs = (Inr (), g)" "fills (new True) fs (base @ p) g"
    using makedirs_fill [OF r(1) cb] by blast
  have d: "is_fdir (fmlookup g (base @ p))" using cb(2) fillsD(1) [OF g(2), of "base @ p"] by (auto simp: at_or_below_def)
  have b: "is_fdir (fmlookup g base)" using r(2) fillsD(1) [OF g(2), of base] by (auto simp: at_or_below_def elim: is_fdirE)
  have n: "fmlookup g (base @ p @ [c]) = None" using r(4) fillsD(1) [OF g(2), of "base @ p @ [c]"] by (simp add: at_or_below_def)
  have e: "g = fs" if "fmlookup fs (base @ p) \<noteq> None"
    using fillsD(1) [OF g(2)] wf_dir_above [OF r(1)] that by (intro fmap_ext) auto
  have "\<not> is_flink (fmlookup fs (base @ p))" using cb by (auto elim: is_fdirE)
  then have pe: "path_exists fs (base @ p) \<longleftrightarrow> fmlookup fs (base @ p) \<noteq> None"
    using stat_clear(2) [OF r(1) cb(1)] by (simp add: path_exists_def)
  have nl: "\<not> is_flink (fmlookup fs (take i (base @ p @ [c])))" if "i \<le> length (base @ p @ [c])" for i
  proof (cases "i = length (base @ p @ [c])")
    case True
    then show ?thesis using r(4) by simp
  next
    case False
    then have "fmlookup fs (take i (base @ p @ [c])) = None \<or> is_fdir (fmlookup fs (take i (base @ p @ [c])))"
      using r(3) that unfolding clear_above_def by simp
    then show ?thesis by (auto elim: is_fdirE simp del: take_append)
  qed
  have pn: "list_all proper_name (base @ p @ [c])" using r(3) by (simp add: clear_above_def)
  have "realpath fs (base @ p @ [c]) = base @ p @ [c]" by (rule realpath_real [OF pn nl])
  moreover have "realpath fs base = base"
  proof (rule realpath_real)
    show "\<not> is_flink (fmlookup fs (take i base))" if "i \<le> length base" for i using nl [of i] that by simp
  qed (use pn in simp)
  ultimately show ?thesis using that g d b n e pe fillsD(2) [OF g(2)] by blast
qed

lemma puts_of_fills:
  assumes "fills a fs (base @ p) g" "proper_name c" "fmlookup g (base @ p @ [c]) = None" "is_fdir (fmlookup g (base @ p))"
  shows "puts a base (p @ [c]) n fs (fmupd (base @ p @ [c]) n g)"
proof -
  have "fmlookup g ((base @ p) @ c # r) = None" if "r \<noteq> []" for r
  proof -
    have "fmlookup g ((base @ p @ [c]) @ r) = None"
      by (rule wf_no_descendant [OF fillsD(2) [OF assms(1)], of "base @ p @ [c]"]) (use assms(3) that in \<open>auto simp: at_or_below_append\<close>)
    then show ?thesis by simp
  qed
  then have "fs_wf (fmupd ((base @ p) @ [c]) n g)"
    by (intro wf_add_child [OF fillsD(2) [OF assms(1)] assms(4,2)]) blast
  moreover have "at_or_below k (base @ p @ [c]) \<longleftrightarrow> k = base @ p @ [c] \<or> at_or_below k (base @ p)" for k
    by (auto simp: at_or_below_append append_eq_append_conv2 append_eq_Cons_conv Cons_eq_append_conv)
  ultimately show ?thesis using fillsD(1) [OF assms(1)] by (auto simp: puts_def)
qed

lemma within_below: "base \<noteq> [] \<Longrightarrow> list_all proper_name (base @ p) \<Longrightarrow> mc_within base (base @ p)"
  using normal_proper [of base] normal_proper [of "base @ p"] by (simp add: mc_within_def is_within_def at_or_below_append)

lemma unpack_plain:
  assumes "ready_for base (p @ [c]) fs" "plain_name c" "ti_name i = rel_text (p @ [c])" "ti_type i \<noteq> TOther"
  shows "\<exists>g. unpack_member new may base i u fs = (Inr (u\<lparr>uc_files := uc_files u + 1\<rparr>), g)
    \<and> puts (new True) base (p @ [c]) (made new i None) fs g"
proof -
  let ?t = "base @ p @ [c]"
  have f: "fs_wf fs" "base \<noteq> []" "clear_above fs ?t" "fmlookup fs ?t = None" using assms(1) by (simp_all add: ready_for_def)
  have pn: "list_all proper_name (p @ [c])" "list_all proper_name ?t" "proper_name c"
    using f(3) by (simp_all add: clear_above_def)
  obtain g where g: "makedirs new (base @ p) fs = (Inr (), g)" "fills (new True) fs (base @ p) g" "fs_wf g"
    "is_fdir (fmlookup g base)" "is_fdir (fmlookup g (base @ p))" "fmlookup g ?t = None"
    "fmlookup fs (base @ p) \<noteq> None \<Longrightarrow> g = fs" "path_exists fs (base @ p) \<longleftrightarrow> fmlookup fs (base @ p) \<noteq> None"
    "realpath fs ?t = ?t" "realpath fs base = base"
    using ready_parent [OF assms(1)] by blast
  have "ready_for base (p @ [c]) g"
    using g(3,4,6) f(2) clear_parent(1) [OF g(3,5) pn(3)] by (simp add: ready_for_def)
  then have rg: "path_exists g (base @ p) \<longleftrightarrow> fmlookup g (base @ p) \<noteq> None" "realpath g ?t = ?t" "realpath g base = base"
    using ready_parent by blast+
  have rel: "comps (lstrip_char CHR ''/'' (ti_name i)) = p @ [c]"
    using rel_text_no_slash_end(1,2) [OF pn(1)] comps_rel_text [OF pn(1)] assms(3)
    by (cases "rel_text (p @ [c])") (simp_all add: lstrip_char_def)
  have bl: "butlast ?t = base @ p" by (simp add: butlast_append)
  have w: "at_or_below base ?t" by (simp add: at_or_below_append)
  have te: "tar_extract new i base fs = tar_extract new i base g"
  proof (cases "fmlookup fs (base @ p)")
    case (Some x)
    then show ?thesis using g(7) by simp
  next
    case None
    then have "\<not> path_exists fs (base @ p)" "path_exists g (base @ p)" using g(5,8) rg(1) by auto
    then show ?thesis using g(1,9,10) rg(2,3) w by (simp add: tar_extract_def rel Let_def bl abind_def)
  qed
  have mt: "made new i (fmlookup g ?t) = made new i None" by (simp add: g(6))
  let ?rest = "\<lambda>_. if ti_type i = TReg \<or> ti_type i = TDir then fs_chmod (ti_mode i) ?t else aret ()"
  have ex: "abind (tar_extract new i base) ?rest fs = (Inr (), fmupd ?t (made new i None) g)"
    using extract_ready [OF g(3-5) pn(3) _ assms(3,4), of new] pn(1) g(6) te by (simp add: abind_def mt)
  have e2: "abind (tar_extract new i base) (\<lambda>_. abind (?rest ()) (\<lambda>_. aret v)) fs = (Inr v, fmupd ?t (made new i None) g)" for v
    using ex by (auto simp: abind_def split: prod.splits sum.splits)
  have nx: "\<not> lexists fs ?t" using stat_clear(1) [OF f(1,3)] f(4) by (simp add: lexists_def)
  have nm: "\<not> starts_with c WHITEOUT_PREFIX" "c \<noteq> OPAQUE_MARKER"
    using assms(2) by (auto simp: plain_name_def OPAQUE_MARKER_def WHITEOUT_PREFIX_def starts_with_def)
  have "unpack_member new may base i u fs
      = abind (tar_extract new i base) (\<lambda>_. abind (?rest ()) (\<lambda>_. aret (u\<lparr>uc_files := uc_files u + 1\<rparr>))) fs"
    using nx nm under_proper [OF pn(1), of base] within_below [OF f(2) pn(2)] path_split_proper [OF pn(1)]
    by (simp add: unpack_member_def Let_def assms(3) abind_def split del: if_split)
  then have "unpack_member new may base i u fs = (Inr (u\<lparr>uc_files := uc_files u + 1\<rparr>), fmupd ?t (made new i None) g)"
    by (simp only: e2)
  then show ?thesis using puts_of_fills [OF g(2) pn(3) g(6,5), of "made new i None"] by blast
qed

definition whiteout_node :: "(bool \<Rightarrow> fattr) \<Rightarrow> fnode" where
  "whiteout_node new = FDev ((new False)\<lparr>fa_mode := 384\<rparr>)"

lemma unpack_whiteout:
  assumes "ready_for base (p @ [c]) fs" "plain_name c"
  shows "\<exists>g. unpack_member new True base (whiteout_marker m (rel_text (p @ [c]))) u fs
      = (Inr (u\<lparr>uc_whiteouts := uc_whiteouts u + 1\<rparr>), g) \<and> puts (new True) base (p @ [c]) (whiteout_node new) fs g"
proof -
  let ?t = "base @ p @ [c]"
  have f: "fs_wf fs" "base \<noteq> []" "clear_above fs ?t" using assms(1) by (simp_all add: ready_for_def)
  have pn: "list_all proper_name (p @ [c])" "list_all proper_name ?t" "proper_name c"
    using f(3) by (simp_all add: clear_above_def)
  have pm: "list_all proper_name (p @ [WHITEOUT_PREFIX @ c])" using pn(1) proper_marker by simp
  obtain g where g: "makedirs new (base @ p) fs = (Inr (), g)" "fills (new True) fs (base @ p) g" "fs_wf g"
    "is_fdir (fmlookup g (base @ p))" "fmlookup g ?t = None"
    using ready_parent [OF assms(1)] by blast
  note cp = clear_parent [OF g(3,4) pn(3)]
  have r: "resolve g False ?t = Inr ?t"
    by (rule resolve_real) (use cp pn(2) g(5) in auto)
  have nx: "\<not> lexists g ?t" using r g(5) by (simp add: lexists_def stat_at_def)
  have no: "WHITEOUT_PREFIX @ c \<noteq> OPAQUE_MARKER"
    using assms(2) by (auto simp: plain_name_def WHITEOUT_PREFIX_def OPAQUE_MARKER_def starts_with_def)
  have u: "under base (rel_text (p @ [WHITEOUT_PREFIX @ c])) = base @ p @ [WHITEOUT_PREFIX @ c]"
    by (rule under_proper [OF pm])
  have bl: "butlast (base @ p @ [WHITEOUT_PREFIX @ c]) = base @ p" by (simp add: butlast_append)
  have uc: "under (base @ p) c = ?t" using under_proper [of "[c]" "base @ p"] pn(3) by (simp add: rel_text_def)
  have w: "mc_within base (base @ p @ [WHITEOUT_PREFIX @ c])"
    by (rule within_below [OF f(2)]) (use pn(2) pm in simp)
  have mk: "make_whiteout new True ?t g = (Inr (), fmupd ?t (whiteout_node new) g)"
    using nx r g(5) by (simp add: make_whiteout_def abind_def fs_mknod_def on_node_def whiteout_node_def)
  have "unpack_member new True base (whiteout_marker m (rel_text (p @ [c]))) u fs
      = (Inr (u\<lparr>uc_whiteouts := uc_whiteouts u + 1\<rparr>), fmupd ?t (whiteout_node new) g)"
    using g(1) mk no w
    by (simp add: unpack_member_def Let_def whiteout_marker_name [OF pn(1)] path_split_proper [OF pm] u bl uc abind_def)
  then show ?thesis using puts_of_fills [OF g(2) pn(3) g(5,4)] by blast
qed

section \<open>All entries\<close>

type_synonym entries = "(path \<times> fnode) list"

definition entry_view :: "fattr \<Rightarrow> entries \<Rightarrow> tree_view" where
  \<comment> \<open>the entries, and the directories on the way to them\<close>
  "entry_view a xs q = (case map_of xs q of Some n \<Rightarrow> Some n
     | None \<Rightarrow> if \<exists>p \<in> fst ` set xs. at_or_below q p then Some (FDir a) else None)"

definition holds :: "fattr \<Rightarrow> path \<Rightarrow> fs \<Rightarrow> entries \<Rightarrow> fs \<Rightarrow> bool" where
  \<comment> \<open>below \<open>base\<close> there is exactly the view of the entries; elsewhere the tree is \<open>fs\<close>\<close>
  "holds a base fs xs g \<longleftrightarrow> fs_wf g
     \<and> (\<forall>q. q \<noteq> [] \<longrightarrow> fmlookup g (base @ q) = entry_view a xs q)
     \<and> (\<forall>k. \<not> (at_or_below base k \<and> k \<noteq> base) \<longrightarrow> fmlookup g k = fmlookup fs k)"

definition fits :: "path \<times> fnode \<Rightarrow> path \<times> fnode \<Rightarrow> bool" where
  \<comment> \<open>the first entry can stand before the second\<close>
  "fits x y \<longleftrightarrow> \<not> at_or_below (fst y) (fst x) \<and> (at_or_below (fst x) (fst y) \<longrightarrow> is_fdir (Some (snd x)))"

lemma take_above: "at_or_below (take i p) p"
  by (metis append_take_drop_id at_or_below_append)

lemma holds_ready:
  assumes "holds a base fs xs g" "base \<noteq> []" "is_fdir (fmlookup fs base)" "fs_wf fs" "p \<noteq> []" "list_all proper_name p"
    and "\<And>x. x \<in> set xs \<Longrightarrow> fits x (p, n)"
  shows "ready_for base p g"
proof -
  have wf: "fs_wf g" and inside: "\<And>q. q \<noteq> [] \<Longrightarrow> fmlookup g (base @ q) = entry_view a xs q"
    and outside: "\<And>k. \<not> (at_or_below base k \<and> k \<noteq> base) \<Longrightarrow> fmlookup g k = fmlookup fs k"
    using assms(1) unfolding holds_def by blast+
  have fb: "is_fdir (fmlookup g base)" using outside [of base] assms(3) by simp
  then obtain b where b: "fmlookup g base = Some (FDir b)" by (rule is_fdirE)
  have nob: "\<not> at_or_below p (fst x)" if "x \<in> set xs" for x using assms(7) [OF that] by (simp add: fits_def)
  have "map_of xs p = None"
  proof (rule ccontr)
    assume "map_of xs p \<noteq> None"
    then obtain m where "(p, m) \<in> set xs" by (auto dest: map_of_SomeD)
    then show False using nob [of "(p, m)"] by (simp add: at_or_below_def)
  qed
  then have none: "fmlookup g (base @ p) = None" using inside [OF assms(5)] nob by (auto simp: entry_view_def)
  have dir: "entry_view a xs q = None \<or> is_fdir (entry_view a xs q)" if "at_or_below q p" for q
  proof (cases "map_of xs q")
    case (Some m)
    then have "(q, m) \<in> set xs" by (rule map_of_SomeD)
    then show ?thesis using assms(7) that Some by (fastforce simp: fits_def entry_view_def)
  qed (simp add: entry_view_def)
  have "fmlookup g (take i (base @ p)) = None \<or> is_fdir (fmlookup g (take i (base @ p)))" if "i < length (base @ p)" for i
  proof (cases "i \<le> length base")
    case True
    then have "is_fdir (fmlookup g (take i base))"
      using fs_wf_nodeD(2) [OF wf b, of i] fb by (cases "i = length base") auto
    then show ?thesis using True by simp
  next
    case False
    then have "take i (base @ p) = base @ take (i - length base) p" "take (i - length base) p \<noteq> []" using assms(5) by auto
    then show ?thesis using inside [of "take (i - length base) p"] dir [OF take_above [of "i - length base" p]] by simp
  qed
  moreover have "list_all proper_name base" using fs_wf_nodeD(1) [OF wf b] .
  ultimately show ?thesis using wf assms(2,5,6) fb none by (simp add: ready_for_def clear_above_def)
qed

lemma holds_step:
  assumes "holds a base fs xs g" "ready_for base p g" "puts a base p n g h" "\<And>x. x \<in> set xs \<Longrightarrow> fits x (p, n)"
  shows "holds a base fs ((p, n) # xs) h"
proof -
  have inside: "\<And>q. q \<noteq> [] \<Longrightarrow> fmlookup g (base @ q) = entry_view a xs q"
    and outside: "\<And>k. \<not> (at_or_below base k \<and> k \<noteq> base) \<Longrightarrow> fmlookup g k = fmlookup fs k"
    using assms(1) unfolding holds_def by blast+
  have h: "fs_wf h" "fmlookup h k = (if k = base @ p then Some n
      else if at_or_below k (base @ p) \<and> fmlookup g k = None then Some (FDir a) else fmlookup g k)" for k
    using assms(3) by (simp_all add: puts_def)
  have p: "p \<noteq> []" using assms(2) by (simp add: ready_for_def)
  have "fmlookup h (base @ q) = entry_view a ((p, n) # xs) q" if q: "q \<noteq> []" for q
    using inside [OF q] unfolding h(2) by (auto simp: entry_view_def at_or_below_append split: option.splits)
  moreover have "fmlookup h k = fmlookup fs k" if k: "\<not> (at_or_below base k \<and> k \<noteq> base)" for k
  proof -
    have kp: "k \<noteq> base @ p" using k p by (auto simp: at_or_below_append)
    show ?thesis
    proof (cases "at_or_below k (base @ p)")
      case True
      have "at_or_below k base"
      proof -
        obtain r where r: "base @ p = k @ r" using True by (auto simp: at_or_below_append)
        have "length k \<le> length base"
        proof (rule ccontr)
          assume "\<not> length k \<le> length base"
          then have "at_or_below base k" "k \<noteq> base" using r by (auto simp: at_or_below_def) (metis append_eq_append_conv_if less_or_eq_imp_le not_less_iff_gr_or_eq)
          then show False using k by blast
        qed
        then show ?thesis using r by (auto simp: at_or_below_def) (metis append_eq_append_conv_if)
      qed
      moreover obtain b where "fmlookup g base = Some (FDir b)" using assms(2) by (auto simp: ready_for_def elim: is_fdirE)
      ultimately have "fmlookup g k \<noteq> None"
        using wf_dir_above [of g base "FDir b" k] assms(2) by (simp add: ready_for_def)
      then show ?thesis using outside [OF k] kp unfolding h(2) by simp
    qed (use outside [OF k] kp h(2) in simp)
  qed
  ultimately show ?thesis using h(1) by (simp add: holds_def)
qed

fun bump :: "bool \<Rightarrow> unpack_counts \<Rightarrow> unpack_counts" where
  "bump True u = u\<lparr>uc_whiteouts := uc_whiteouts u + 1\<rparr>"
| "bump False u = u\<lparr>uc_files := uc_files u + 1\<rparr>"

lemma unpack_list:
  fixes items :: "(tar_info \<times> bool \<times> path \<times> fnode) list"
  assumes "holds a base fs xs g" "base \<noteq> []" "is_fdir (fmlookup fs base)" "fs_wf fs"
    and "\<And>i w p n. (i, w, p, n) \<in> set items \<Longrightarrow> p \<noteq> [] \<and> list_all proper_name p"
    and "\<And>i w p n f u. (i, w, p, n) \<in> set items \<Longrightarrow> ready_for base p f \<Longrightarrow>
        \<exists>h. unpack_member new may base i u f = (Inr (bump w u), h) \<and> puts a base p n f h"
    and "\<And>x y. x \<in> set xs \<Longrightarrow> y \<in> set (map (snd \<circ> snd) items) \<Longrightarrow> fits x y"
    and "sorted_wrt fits (map (snd \<circ> snd) items)"
  shows "\<exists>h. unpack_members new may base (map fst items) u g = (Inr (fold (\<lambda>(i, w, e). bump w) items u), h)
    \<and> holds a base fs (rev (map (snd \<circ> snd) items) @ xs) h"
  using assms(1,5-8)
proof (induction items arbitrary: xs g u)
  case (Cons it items)
  obtain i w p n where it: "it = (i, w, p, n)" by (cases it)
  have fx: "fits x (p, n)" if "x \<in> set xs" for x using Cons.prems(4) that by (simp add: it)
  have p: "p \<noteq> []" "list_all proper_name p" using Cons.prems(2) [of i w p n] by (simp_all add: it)
  have r: "ready_for base p g" by (rule holds_ready [OF Cons.prems(1) assms(2-4) p fx])
  obtain h where h: "unpack_member new may base i u g = (Inr (bump w u), h)" "puts a base p n g h"
    using Cons.prems(3) [of i w p n g u] r by (auto simp: it)
  have hh: "holds a base fs ((p, n) # xs) h" by (rule holds_step [OF Cons.prems(1) r h(2) fx])
  have "\<exists>k. unpack_members new may base (map fst items) (bump w u) h = (Inr (fold (\<lambda>(i, w, e). bump w) items (bump w u)), k)
    \<and> holds a base fs (rev (map (snd \<circ> snd) items) @ (p, n) # xs) k"
  proof (rule Cons.IH [OF hh])
    show "fits x y" if "x \<in> set ((p, n) # xs)" "y \<in> set (map (snd \<circ> snd) items)" for x y
      using that Cons.prems(4) [of x y] Cons.prems(5) by (auto simp: it)
    show "sorted_wrt fits (map (snd \<circ> snd) items)" using Cons.prems(5) by (simp add: comp_def)
  qed (use Cons.prems(2,3) in auto)
  then show ?case using h(1) by (simp add: it abind_def comp_def)
qed simp

section \<open>A layer in a directory of its own\<close>

text \<open>What disappeared, disappeared from directories that are still there.\<close>

definition parents_kept :: "fs \<Rightarrow> path \<Rightarrow> path list \<Rightarrow> bool" where
  "parents_kept after base removed \<longleftrightarrow> (\<forall>p \<in> set removed. butlast p = [] \<or> is_fdir (fmlookup after (base @ butlast p)))"

definition shows_diff :: "fattr \<Rightarrow> fs \<Rightarrow> path \<Rightarrow> path list \<Rightarrow> path list \<Rightarrow> entries \<Rightarrow> bool" where
  \<comment> \<open>the entries of an unpacked difference\<close>
  "shows_diff a after base changed removed xs \<longleftrightarrow> fst ` set xs = set changed \<union> set removed \<and> distinct (map fst xs)
     \<and> (\<forall>(p, n) \<in> set xs. if p \<in> set removed then \<exists>a. n = FDev a else same_content n (the (fmlookup after (base @ p))))
     \<and> (\<forall>(p, n) \<in> set xs. \<forall>b. n = FDir b \<longrightarrow> fa_opaque b = fa_opaque a)"

lemma shows_diffD:
  assumes "shows_diff a after base changed removed xs"
  shows "fst ` set xs = set changed \<union> set removed" "distinct (map fst xs)"
    "(p, n) \<in> set xs \<Longrightarrow> p \<in> set removed \<Longrightarrow> \<exists>a. n = FDev a"
    "(p, n) \<in> set xs \<Longrightarrow> p \<notin> set removed \<Longrightarrow> same_content n (the (fmlookup after (base @ p)))"
    "(p, FDir b) \<in> set xs \<Longrightarrow> fa_opaque b = fa_opaque a"
proof -
  note d = assms [unfolded shows_diff_def]
  show "fst ` set xs = set changed \<union> set removed" by (rule d [THEN conjunct1])
  show "distinct (map fst xs)" by (rule d [THEN conjunct2, THEN conjunct1])
  note e = d [THEN conjunct2, THEN conjunct2]
  show "(p, n) \<in> set xs \<Longrightarrow> p \<in> set removed \<Longrightarrow> \<exists>a. n = FDev a"
    "(p, n) \<in> set xs \<Longrightarrow> p \<notin> set removed \<Longrightarrow> same_content n (the (fmlookup after (base @ p)))"
    using bspec [OF e [THEN conjunct1], of "(p, n)"] by simp_all
  show "(p, FDir b) \<in> set xs \<Longrightarrow> fa_opaque b = fa_opaque a"
    using bspec [OF e [THEN conjunct2], of "(p, FDir b)"] by simp
qed

lemma sorted_map_distinct: "sorted (map f xs) \<Longrightarrow> distinct xs \<Longrightarrow> sorted_wrt (\<lambda>x y. f x \<le> f y \<and> x \<noteq> y) xs"
  by (induction xs) auto

lemma below_parent: "at_or_below q p \<Longrightarrow> q \<noteq> p \<Longrightarrow> at_or_below q (butlast p)"
  by (auto simp: at_or_below_append butlast_append)

lemma fold_bump: "fold (\<lambda>(i, w, e). bump w) (map (\<lambda>p. (f p, False, h p)) xs @ map (\<lambda>p. (g p, True, k p)) ys) u
    = u\<lparr>uc_files := uc_files u + length xs, uc_whiteouts := uc_whiteouts u + length ys\<rparr>"
proof -
  have "fold (\<lambda>(i, w, e). bump w) (map (\<lambda>p. (f p, False, h p)) xs) u = u\<lparr>uc_files := uc_files u + length xs\<rparr>" for u
    by (induction xs arbitrary: u) simp_all
  moreover have "fold (\<lambda>(i, w, e). bump w) (map (\<lambda>p. (g p, True, k p)) ys) u = u\<lparr>uc_whiteouts := uc_whiteouts u + length ys\<rparr>" for u
    by (induction ys arbitrary: u) simp_all
  ultimately show ?thesis by simp
qed

lemma diff_tar:
  assumes "fs_wf before" "fs_wf after" "no_markers before base"
    and d: "diff_layer_of before after base changed removed" "distinct removed"
    and wt: "write_tar who after (map (\<lambda>p. (rel_text p, base @ p)) changed) (map rel_text removed) mtime = Inr tar"
  defines "rs \<equiv> map comps (sort (map rel_text removed))"
  shows "tar = Tar (map (\<lambda>p. info_of who mtime p (the (fmlookup after (base @ p)))) changed
      @ map (\<lambda>p. whiteout_marker mtime (rel_text p)) rs)"
    "set rs = set removed" "distinct rs" "length rs = length removed" "sorted (map rel_text rs)"
proof -
  have ch: "p \<noteq> []" "\<exists>n. fmlookup after (base @ p) = Some n" if "p \<in> set changed" for p
    using diff_layer_ofD(1) [OF d(1)] that by auto
  have rm: "p \<in> set removed \<longleftrightarrow> p \<noteq> [] \<and> fmlookup before (base @ p) \<noteq> None \<and> fmlookup after (base @ p) = None" for p
    using diff_layer_ofD(3) [OF d(1)] by blast
  have pr: "list_all proper_name p" if "p \<in> set removed" for p
    using rm [of p] that fs_wf_nodeD(1) [OF assms(1), of "base @ p"] by auto
  have inv: "comps (rel_text p) = p" if "p \<in> set removed" for p using pr [OF that] comps_rel_text by blast
  then show rset: "set rs = set removed" by (force simp: rs_def)
  have ms: "mset rs = mset removed"
  proof -
    have "mset rs = image_mset comps (image_mset rel_text (mset removed))" by (simp add: rs_def)
    also have "\<dots> = mset removed" using inv by (simp add: image_mset.compositionality comp_def) (metis (no_types, lifting) image_mset_cong multiset.map_ident set_mset_mset)
    finally show ?thesis .
  qed
  then show "distinct rs" "length rs = length removed" using d(2) mset_eq_imp_distinct_iff mset_eq_length by blast+
  have marks: "map (whiteout_marker mtime) (sort (map rel_text removed)) = map (\<lambda>p. whiteout_marker mtime (rel_text p)) rs"
    using inv by (simp add: rs_def)
  show "tar = Tar (map (\<lambda>p. info_of who mtime p (the (fmlookup after (base @ p)))) changed
      @ map (\<lambda>p. whiteout_marker mtime (rel_text p)) rs)"
    using write_tar_members [OF assms(2), of changed base] ch wt unfolding marks [symmetric] by fastforce
  have "map rel_text rs = sort (map rel_text removed)" using inv by (auto simp: rs_def intro!: map_idI)
  then show "sorted (map rel_text rs)" by simp
qed

lemma unpack_prefix:
  assumes "fs_wf before" "fs_wf after" "no_markers before base" "no_markers after base"
    and d: "diff_layer_of before after base changed removed"
    and rs: "set rs \<subseteq> set removed" "distinct rs" "parents_kept after base rs"
    and t: "fs_wf fs" "dest \<noteq> []" "is_fdir (fmlookup fs dest)" "\<And>q. q \<noteq> [] \<Longrightarrow> fmlookup fs (dest @ q) = None"
  shows "\<exists>h xs. unpack_members new True dest (map (\<lambda>p. info_of who mtime p (the (fmlookup after (base @ p)))) changed
        @ map (\<lambda>p. whiteout_marker mtime (rel_text p)) rs) \<lparr>uc_files = 0, uc_whiteouts = 0, uc_opaque = 0\<rparr> fs
      = (Inr \<lparr>uc_files = length changed, uc_whiteouts = length rs, uc_opaque = 0\<rparr>, h)
    \<and> holds (new True) dest fs xs h \<and> shows_diff (new True) after base changed rs xs"
proof -
  let ?node = "\<lambda>p. the (fmlookup after (base @ p))"
  let ?info = "\<lambda>p. info_of who mtime p (?node p)"
  have ch: "p \<noteq> []" "\<exists>n. fmlookup after (base @ p) = Some n" if "p \<in> set changed" for p
    using diff_layer_ofD(1) [OF d] that by auto
  have rm: "p \<in> set removed \<longleftrightarrow> p \<noteq> [] \<and> fmlookup before (base @ p) \<noteq> None \<and> fmlookup after (base @ p) = None" for p
    using diff_layer_ofD(3) [OF d] by blast
  have pl: "list_all proper_name p \<and> plain_name (last p)" if "p \<noteq> []" "fmlookup f (base @ p) = Some n" "fs_wf f" "no_markers f base" for f p n
    using fs_wf_nodeD(1) [OF that(3,2)] that unfolding no_markers_def by auto
  have pr: "list_all proper_name p \<and> plain_name (last p)" if "p \<in> set removed" for p
    using rm [of p] that pl [OF _ _ assms(1,3)] by blast
  have pc: "list_all proper_name p \<and> plain_name (last p)" if "p \<in> set changed" for p
    using ch [OF that] pl [OF _ _ assms(2,4)] by blast
  have nd: "\<forall>a. ?node p \<noteq> FDev a" if "p \<in> set changed" for p
    using ch [OF that] assms(4) unfolding no_markers_def by force
  let ?items = "map (\<lambda>p. (?info p, False, p, made new (?info p) None)) changed
    @ map (\<lambda>p. (whiteout_marker mtime (rel_text p), True, p, whiteout_node new)) rs"
  have up: "fmlookup after (base @ q) \<noteq> None \<and> (q \<noteq> p \<longrightarrow> is_fdir (fmlookup after (base @ q)))"
    if qp: "at_or_below q p" "fmlookup after (base @ p) \<noteq> None" for q p
  proof (cases "q = p")
    case False
    then obtain r where "p = q @ r" "r \<noteq> []" using qp(1) by (auto simp: at_or_below_append)
    moreover obtain y where "fmlookup after (base @ p) = Some y" using qp(2) by auto
    ultimately have "is_fdir (fmlookup after (base @ q))"
      using fs_wf_nodeD(2) [OF assms(2), of "base @ p" y "length (base @ q)"] by simp
    then show ?thesis by (auto elim: is_fdirE)
  qed (use qp in simp)
  have above: "is_fdir (fmlookup after (base @ q))" if q: "q \<noteq> []" "at_or_below q p" "q \<noteq> p" "p \<in> set rs" for q p
  proof -
    have b: "at_or_below q (butlast p)" by (rule below_parent [OF q(2,3)])
    then have "butlast p \<noteq> []" using q(1) by (auto simp: at_or_below_append)
    then have "is_fdir (fmlookup after (base @ butlast p))" using rs(3) q(4) unfolding parents_kept_def by blast
    then show ?thesis using up [OF b] by (cases "q = butlast p") (auto elim: is_fdirE)
  qed
  have mdir: "is_fdir (Some (made new (?info p) None))" if "p \<in> set changed" "is_fdir (fmlookup after (base @ p))" for p
    using made_dir [OF info_of_type(1) [OF nd [OF that(1)]]] that(2) by (auto elim: is_fdirE)
  have s1: "sorted_wrt fits (map (\<lambda>p. (p, made new (?info p) None)) changed)"
    unfolding sorted_wrt_map
  proof (rule sorted_wrt_mono_rel [OF _ sorted_map_distinct [OF diff_layer_ofD(4,5) [OF d]]])
    fix x y assume xy: "x \<in> set changed" "y \<in> set changed" "rel_text x \<le> rel_text y \<and> x \<noteq> y"
    have "\<not> at_or_below y x"
    proof
      assume "at_or_below y x"
      then obtain r where "x = y @ r" "r \<noteq> []" using xy(3) by (auto simp: at_or_below_append)
      then show False using rel_text_prefix_less [of y r] ch(1) [OF xy(2)] xy(3) by (auto simp: not_less)
    qed
    then show "fits (x, made new (?info x) None) (y, made new (?info y) None)"
      using up [of x y] ch(2) [OF xy(2)] mdir [OF xy(1)] xy(3) by (auto simp: fits_def)
  qed
  have s2: "sorted_wrt fits (map (\<lambda>p. (p, whiteout_node new)) rs)"
    unfolding sorted_wrt_map
  proof (rule sorted_wrt_mono_rel [of _ "\<lambda>x y. x \<noteq> y"])
    fix x y assume xy: "x \<in> set rs" "y \<in> set rs" "x \<noteq> y"
    then have "\<not> is_fdir (fmlookup after (base @ x))" "\<not> is_fdir (fmlookup after (base @ y))" "x \<noteq> []" "y \<noteq> []"
      using rm rs(1) by (auto simp: subset_iff)
    then show "fits (x, whiteout_node new) (y, whiteout_node new)"
      using above [of x y] above [of y x] xy by (auto simp: fits_def)
  qed (use rs(2) in \<open>simp add: distinct_conv_nth sorted_wrt_iff_nth_less\<close>)
  have s3: "fits (x, made new (?info x) None) (y, whiteout_node new)" if xy: "x \<in> set changed" "y \<in> set rs" for x y
  proof -
    have y: "y \<in> set rs" "fmlookup after (base @ y) = None" using xy(2) rs(1) rm by auto
    have "\<not> at_or_below y x" using up [of y x] ch(2) [OF xy(1)] y by auto
    moreover have "x \<noteq> y" using ch(2) [OF xy(1)] y by auto
    ultimately show ?thesis using above [OF ch(1) [OF xy(1)] _ _ y(1)] mdir [OF xy(1)] by (auto simp: fits_def)
  qed
  have srt: "sorted_wrt fits (map (snd \<circ> snd) ?items)"
    using s1 s2 s3 by (simp add: sorted_wrt_append comp_def)
  have h0: "holds (new True) dest fs [] fs" using t(1,4) by (simp add: holds_def entry_view_def)
  have pps: "p \<noteq> [] \<and> list_all proper_name p" if "(i, w, p, n) \<in> set ?items" for i w p n
    using that pc ch(1) pr rs(1) rm by auto
  have step: "\<exists>h. unpack_member new True dest i u f = (Inr (bump w u), h) \<and> puts (new True) dest p n f h"
    if it: "(i, w, p, n) \<in> set ?items" and r: "ready_for dest p f" for i w p n f u
  proof -
    obtain q c where q: "p = q @ [c]" using pps [OF it] by (cases p rule: rev_cases) auto
    consider "i = ?info p" "w = False" "n = made new (?info p) None" "p \<in> set changed"
      | "i = whiteout_marker mtime (rel_text p)" "w = True" "n = whiteout_node new" "p \<in> set rs"
      using it by auto
    then show ?thesis
    proof cases
      case 1
      then have "plain_name c" using pc q by fastforce
      from unpack_plain [OF r [unfolded q] this, of i new True u] 1 q show ?thesis
        using info_of_type(1) [OF nd [OF 1(4)]] info_of_type(3) by simp
    next
      case 2
      then have "plain_name c" using pr rs(1) q by fastforce
      from unpack_whiteout [OF r [unfolded q] this, of new mtime u] 2 q show ?thesis by simp
    qed
  qed
  let ?u0 = "\<lparr>uc_files = 0, uc_whiteouts = 0, uc_opaque = 0\<rparr>"
  have "\<exists>h. unpack_members new True dest (map fst ?items) ?u0 fs = (Inr (fold (\<lambda>(i, w, e). bump w) ?items ?u0), h)
    \<and> holds (new True) dest fs (rev (map (snd \<circ> snd) ?items) @ []) h"
  proof (rule unpack_list [OF h0 t(2,3,1)])
    show "p \<noteq> [] \<and> list_all proper_name p" if "(i, w, p, n) \<in> set ?items" for i w p n by (rule pps [OF that])
    show "\<exists>h. unpack_member new True dest i u f = (Inr (bump w u), h) \<and> puts (new True) dest p n f h"
      if "(i, w, p, n) \<in> set ?items" "ready_for dest p f" for i w p n f u by (rule step [OF that])
    show "sorted_wrt fits (map (snd \<circ> snd) ?items)" by (rule srt)
  qed simp
  then obtain h where h: "unpack_members new True dest (map fst ?items) ?u0 fs = (Inr (fold (\<lambda>(i, w, e). bump w) ?items ?u0), h)"
    "holds (new True) dest fs (rev (map (snd \<circ> snd) ?items) @ []) h" by blast
  let ?xs = "rev (map (snd \<circ> snd) ?items)"
  have sd: "shows_diff (new True) after base changed rs ?xs"
  proof -
    have "same_content (made new (?info p) None) (?node p)" if "p \<in> set changed" for p
      using made_same [OF info_of_type(1) [OF nd [OF that]]] .
    moreover have "p \<notin> set rs" if "p \<in> set changed" for p
    proof
      assume "p \<in> set rs"
      then have "p \<in> set removed" using rs(1) by blast
      then show False using ch(2) [OF that] rm [of p] by simp
    qed
    moreover have "fa_opaque b = fa_opaque (new True)" if "made new i None = FDir b" for i b
      using that by (auto simp: made_def split: tar_type.splits)
    ultimately show ?thesis
      using rs(2) diff_layer_ofD(5) [OF d]
      by (auto simp: shows_diff_def comp_def whiteout_node_def image_Un image_image rev_map)
  qed
  have e: "map fst ?items = map ?info changed @ map (\<lambda>p. whiteout_marker mtime (rel_text p)) rs" by simp
  note h1 = h(1) [unfolded fold_bump e]
  show ?thesis
  proof (intro exI conjI)
    show "unpack_members new True dest (map ?info changed @ map (\<lambda>p. whiteout_marker mtime (rel_text p)) rs) ?u0 fs
        = (Inr \<lparr>uc_files = length changed, uc_whiteouts = length rs, uc_opaque = 0\<rparr>, h)"
      using h1 by simp
    show "holds (new True) dest fs ?xs h" using h(2) by (simp only: append_Nil2)
  qed (rule sd)
qed

lemma unpack_diff:
  assumes "fs_wf before" "fs_wf after" "no_markers before base" "no_markers after base"
    and d: "diff_layer_of before after base changed removed" "distinct removed" "parents_kept after base removed"
    and wt: "write_tar who after (map (\<lambda>p. (rel_text p, base @ p)) changed) (map rel_text removed) mtime = Inr tar"
    and t: "fs_wf fs" "dest \<noteq> []" "is_fdir (fmlookup fs dest)" "\<And>q. q \<noteq> [] \<Longrightarrow> fmlookup fs (dest @ q) = None"
  shows "\<exists>h xs. unpack_layer new True (Gz level mt tar) dest fs
      = (Inr \<lparr>uc_files = length changed, uc_whiteouts = length removed, uc_opaque = 0\<rparr>, h)
    \<and> holds (new True) dest fs xs h \<and> shows_diff (new True) after base changed removed xs"
proof -
  let ?rs = "map comps (sort (map rel_text removed))"
  note tar = diff_tar [OF assms(1-3) d(1,2) wt]
  have pk: "parents_kept after base ?rs" using d(3) tar(2) by (simp only: parents_kept_def)
  have sd: "shows_diff a after base changed ?rs xs = shows_diff a after base changed removed xs" for a xs
    by (simp only: shows_diff_def tar(2))
  from unpack_prefix [OF assms(1-4) d(1) equalityD1 [OF tar(2)] tar(3) pk t, of new who mtime]
  show ?thesis unfolding sd tar(4) by (simp add: unpack_layer_def tar(1) del: set_map length_map)
qed

section \<open>When a layer cannot be unpacked\<close>

lemma makedirs_blocked:
  assumes "fs_wf fs" "fmlookup fs p = Some x" "\<not> is_fdir (Some x)" "\<not> is_flink (Some x)"
  shows "makedirs new p fs = (Inl (OSError ''File exists''), fs)"
proof -
  have p: "p \<noteq> []" using assms(2,3) fs_wf_root [OF assms(1)] by auto
  note ca = wf_clear_above [OF assms(1,2)]
  have r: "resolve fs f p = Inr p" for f
    by (rule resolve_real) (use fs_wf_nodeD [OF assms(1,2)] assms(2,4) in auto)
  have "is_fdir (fmlookup fs (take (length p - 1) p))"
    by (rule fs_wf_nodeD(2) [OF assms(1,2)]) (use p in auto)
  then obtain y where y: "fmlookup fs (butlast p) = Some (FDir y)" by (auto simp: butlast_conv_take elim: is_fdirE)
  then have "path_exists fs (butlast p)"
    using stat_clear(2) [OF assms(1) wf_clear_above [OF assms(1) y]] by (simp add: path_exists_def)
  moreover have "mkdir_ok new p fs = (Inl (OSError ''File exists''), fs)"
    using r assms(2,3) by (simp add: mkdir_ok_def fs_mkdir_def on_node_def isdir_def stat_at_def)
  ultimately show ?thesis by (subst makedirs.simps) simp
qed

lemma unpack_members_append:
  "unpack_members new may d (xs @ ys) u = abind (unpack_members new may d xs u) (\<lambda>v. unpack_members new may d ys v)"
proof (induction xs arbitrary: u)
  case (Cons x xs)
  then show ?case by (auto simp: abind_def split: prod.splits sum.splits intro!: ext)
qed (simp add: abind_def fun_eq_iff)

lemma unpack_members_prefix:
  "unpack_members new may d xs u fs = (Inr v, h) \<Longrightarrow> unpack_members new may d (xs @ ys) u fs = unpack_members new may d ys v h"
  by (simp add: unpack_members_append)

lemma whiteout_blocked:
  assumes "fs_wf fs" "base \<noteq> []" "list_all proper_name (base @ p @ [c])" "plain_name c" "fmlookup fs (base @ p) = Some x"
    "\<not> is_fdir (Some x)" "\<not> is_flink (Some x)"
  shows "unpack_member new may base (whiteout_marker m (rel_text (p @ [c]))) u fs = (Inl (OSError ''File exists''), fs)"
proof -
  have pn: "list_all proper_name (p @ [c])" "list_all proper_name (p @ [WHITEOUT_PREFIX @ c])" using assms(3) proper_marker by simp_all
  have w: "mc_within base (base @ p @ [WHITEOUT_PREFIX @ c])"
    by (rule within_below [OF assms(2)]) (use assms(3) proper_marker in simp)
  have no: "WHITEOUT_PREFIX @ c \<noteq> OPAQUE_MARKER"
    using assms(4) by (auto simp: plain_name_def WHITEOUT_PREFIX_def OPAQUE_MARKER_def starts_with_def)
  have "butlast (base @ p @ [WHITEOUT_PREFIX @ c]) = base @ p" by (simp add: butlast_append)
  then show ?thesis
    using w no makedirs_blocked [OF assms(1,5-7)]
    by (simp add: unpack_member_def Let_def whiteout_marker_name [OF pn(1)] path_split_proper [OF pn(2)] under_proper [OF pn(2)] abind_def)
qed

lemma unpack_blocked:
  assumes "fs_wf before" "fs_wf after" "no_markers before base" "no_markers after base"
    and d: "diff_layer_of before after base changed removed" "distinct removed" "\<not> parents_kept after base removed"
    and nl: "\<forall>p \<in> set removed. \<not> is_flink (fmlookup after (base @ butlast p))"
    and wt: "write_tar who after (map (\<lambda>p. (rel_text p, base @ p)) changed) (map rel_text removed) mtime = Inr tar"
    and t: "fs_wf fs" "dest \<noteq> []" "is_fdir (fmlookup fs dest)" "\<And>q. q \<noteq> [] \<Longrightarrow> fmlookup fs (dest @ q) = None"
  shows "\<exists>h. unpack_layer new True (Gz level mt tar) dest fs = (Inl (OSError ''File exists''), h)"
proof -
  let ?rs = "map comps (sort (map rel_text removed))"
  let ?bad = "\<lambda>p. butlast p \<noteq> [] \<and> \<not> is_fdir (fmlookup after (base @ butlast p))"
  let ?mark = "\<lambda>p. whiteout_marker mtime (rel_text p)"
  let ?infos = "map (\<lambda>p. info_of who mtime p (the (fmlookup after (base @ p)))) changed"
  note tar = diff_tar [OF assms(1-3) d(1,2) wt]
  have "\<exists>p \<in> set ?rs. ?bad p" unfolding tar(2) using d(3) by (auto simp: parents_kept_def)
  then obtain rs1 r rs2 where rs: "?rs = rs1 @ r # rs2" "?bad r" "\<forall>p \<in> set rs1. \<not> ?bad p"
    using split_list_first_prop [of ?rs ?bad] by blast
  have r: "r \<in> set removed" using rs(1) tar(2) by auto
  have rm: "p \<in> set removed \<longleftrightarrow> p \<noteq> [] \<and> fmlookup before (base @ p) \<noteq> None \<and> fmlookup after (base @ p) = None" for p
    using diff_layer_ofD(3) [OF d(1)] by blast
  have "set rs1 \<subseteq> set removed" "distinct rs1" "parents_kept after base rs1"
    using tar(2,3) rs(1,3) by (auto simp: parents_kept_def)
  from unpack_prefix [OF assms(1-4) d(1) this t, of new who mtime]
  obtain h xs where h: "unpack_members new True dest (?infos @ map ?mark rs1) \<lparr>uc_files = 0, uc_whiteouts = 0, uc_opaque = 0\<rparr> fs
      = (Inr \<lparr>uc_files = length changed, uc_whiteouts = length rs1, uc_opaque = 0\<rparr>, h)"
    "holds (new True) dest fs xs h" "shows_diff (new True) after base changed rs1 xs" by blast
  obtain q c where q: "r = q @ [c]" using rm r by (cases r rule: rev_cases) auto
  have qn: "q \<noteq> []" "\<not> is_fdir (fmlookup after (base @ q))" using rs(2) q by auto
  obtain y where y: "fmlookup before (base @ q @ [c]) = Some y" using rm [of r] r by (auto simp: q)
  have "is_fdir (fmlookup before (take (length (base @ q)) (base @ q @ [c])))"
    by (rule fs_wf_nodeD(2) [OF assms(1) y]) simp
  then have bq: "is_fdir (fmlookup before (base @ q))" by simp
  have "\<exists>n. (q, n) \<in> set xs \<and> \<not> is_fdir (Some n) \<and> \<not> is_flink (Some n)"
  proof (cases "fmlookup after (base @ q)")
    case None
    then have qr: "q \<in> set ?rs" unfolding tar(2) rm using qn(1) bq by (auto elim: is_fdirE)
    have "q \<notin> set (r # rs2)"
    proof
      assume "q \<in> set (r # rs2)"
      then have "rel_text r \<le> rel_text q" using tar(5) unfolding rs(1) by (auto simp: sorted_append)
      then show False using rel_text_prefix_less [OF qn(1), of "[c]"] by (simp add: q)
    qed
    then have "q \<in> set rs1" using qr unfolding rs(1) by simp
    then have "q \<in> fst ` set xs" unfolding shows_diffD(1) [OF h(3)] by simp
    then obtain n where n: "(q, n) \<in> set xs" by auto
    have "\<exists>a. n = FDev a" by (rule shows_diffD(3) [OF h(3) n \<open>q \<in> set rs1\<close>])
    then show ?thesis using n by auto
  next
    case (Some m)
    have qc: "q \<in> set changed"
    proof (rule ccontr)
      assume "q \<notin> set changed"
      then obtain x where "fmlookup before (base @ q) = Some x" "same_content x m"
        using diff_layer_ofD(2) [OF d(1)] qn(1) Some by auto
      then show False using bq qn(2) same_content_kind(1) [of x m] Some by simp
    qed
    have nr: "q \<notin> set rs1" using \<open>set rs1 \<subseteq> set removed\<close> rm [of q] Some by auto
    have "q \<in> fst ` set xs" unfolding shows_diffD(1) [OF h(3)] using qc by simp
    then obtain n where n: "(q, n) \<in> set xs" by auto
    have "same_content n m" using shows_diffD(4) [OF h(3) n nr] Some by simp
    moreover have "\<not> is_flink (Some m)" using nl r Some by (auto simp: q)
    ultimately show ?thesis using n same_content_kind [of n m] qn(2) Some by auto
  qed
  then obtain n where n: "(q, n) \<in> set xs" "\<not> is_fdir (Some n)" "\<not> is_flink (Some n)" by blast
  have "map_of xs q = Some n" using n(1) shows_diffD(2) [OF h(3)] by simp
  then have hw: "fs_wf h" "fmlookup h (dest @ q) = Some n"
    using h(2) qn(1) by (simp_all add: holds_def entry_view_def)
  have bn: "list_all proper_name (base @ q @ [c])" by (rule fs_wf_nodeD(1) [OF assms(1) y])
  have pc: "plain_name c" using assms(3) y unfolding no_markers_def by (metis last_snoc snoc_eq_iff_butlast)
  have "list_all proper_name dest" using fs_wf_nodeD(1) [OF hw] by simp
  then have "unpack_member new True dest (?mark (q @ [c])) u h = (Inl (OSError ''File exists''), h)" for u
    using whiteout_blocked [OF hw(1) t(2) _ pc hw(2) n(2,3), of new True mtime u] bn by simp
  then have "unpack_members new True dest (?mark r # map ?mark rs2) u h = (Inl (OSError ''File exists''), h)" for u
    by (simp add: abind_def q)
  then have "unpack_members new True dest ((?infos @ map ?mark rs1) @ ?mark r # map ?mark rs2)
      \<lparr>uc_files = 0, uc_whiteouts = 0, uc_opaque = 0\<rparr> fs = (Inl (OSError ''File exists''), h)"
    by (rule trans [OF unpack_members_prefix [OF h(1)]])
  moreover have "map ?mark ?rs = map ?mark rs1 @ ?mark r # map ?mark rs2" by (simp only: rs(1) map_append list.map)
  ultimately show ?thesis by (simp only: unpack_layer_def tar(1) blob.case append_assoc) blast
qed

section \<open>The merged view\<close>

lemma overlay_rulesD:
  assumes "overlay_rules m"
  shows "m [] p = None"
    "dir_tree v \<Longrightarrow> p \<noteq> [] \<Longrightarrow> m (v # vs) p = (case v p of Some (FDev a) \<Rightarrow> None | Some n \<Rightarrow> Some n
       | None \<Rightarrow> if hides_below v p then None else m vs p)"
  using assms unfolding overlay_rules_def by (blast, simp)

lemma dir_tree_below: "dir_tree v \<Longrightarrow> v (q @ r) \<noteq> None \<Longrightarrow> r \<noteq> [] \<Longrightarrow> is_fdir (v q)"
  unfolding dir_tree_def by blast

lemma dir_tree_of_fs: "fs_wf fs \<Longrightarrow> dir_tree (\<lambda>q. fmlookup fs (d @ q))"
proof -
  assume wf: "fs_wf fs"
  have "is_fdir (fmlookup fs (d @ q))" if "r \<noteq> []" "fmlookup fs (d @ q @ r) = Some y" for q r y
    using fs_wf_nodeD(2) [OF wf that(2), of "length (d @ q)"] that(1) by simp
  then show ?thesis by (auto simp: dir_tree_def)
qed

lemma overlay_step:
  assumes "overlay_rules m" "fs_wf after" "diff_layer_of before after base changed removed" "parents_kept after base removed"
    and "shows_diff a after base changed removed xs" "\<not> fa_opaque a"
    and below: "\<And>p. p \<noteq> [] \<Longrightarrow> rel_option same_content (m vs p) (fmlookup before (base @ p))"
    and v: "\<And>q. q \<noteq> [] \<Longrightarrow> v q = entry_view a xs q" "v [] = Some (FDir b)" "\<not> fa_opaque b"
    and dt: "dir_tree v" and p: "p \<noteq> []"
  shows "rel_option same_content (m (v # vs) p) (fmlookup after (base @ p))"
proof -
  have xs: "fst ` set xs = set changed \<union> set removed" "distinct (map fst xs)"
    "\<And>p n. (p, n) \<in> set xs \<Longrightarrow> p \<in> set removed \<Longrightarrow> \<exists>a. n = FDev a"
    "\<And>p n. (p, n) \<in> set xs \<Longrightarrow> p \<notin> set removed \<Longrightarrow> same_content n (the (fmlookup after (base @ p)))"
    "\<And>p b. (p, FDir b) \<in> set xs \<Longrightarrow> \<not> fa_opaque b"
    using shows_diffD [OF assms(5)] assms(6) by blast+
  have ch: "p \<noteq> []" "\<exists>n. fmlookup after (base @ p) = Some n" if "p \<in> set changed" for p
    using diff_layer_ofD(1) [OF assms(3)] that by auto
  have rm: "p \<in> set removed \<longleftrightarrow> p \<noteq> [] \<and> fmlookup before (base @ p) \<noteq> None \<and> fmlookup after (base @ p) = None" for p
    using diff_layer_ofD(3) [OF assms(3)] by blast
  have up: "is_fdir (fmlookup after (base @ q))" if qp: "at_or_below q p" "q \<noteq> p" "fmlookup after (base @ p) \<noteq> None" for q p
  proof -
    obtain r where "p = q @ r" "r \<noteq> []" using qp(1,2) by (auto simp: at_or_below_append)
    moreover obtain y where "fmlookup after (base @ p) = Some y" using qp(3) by auto
    ultimately show ?thesis using fs_wf_nodeD(2) [OF assms(2), of "base @ p" y "length (base @ q)"] by simp
  qed
  have ev: "entry_view a xs q = Some n \<longleftrightarrow> (q, n) \<in> set xs
      \<or> (q \<notin> fst ` set xs \<and> n = FDir a \<and> (\<exists>p \<in> fst ` set xs. at_or_below q p))" for q n
    using map_of_eq_Some_iff [OF xs(2), of q] map_of_eq_None_iff [of xs q]
    by (cases "map_of xs q") (auto simp: entry_view_def dest: weak_map_of_SomeI)
  have vdir: "is_fdir (fmlookup after (base @ q))" if q: "q \<noteq> []" "q \<notin> fst ` set xs" "\<exists>p \<in> fst ` set xs. at_or_below q p" for q
  proof -
    obtain p where p: "p \<in> set changed \<union> set removed" "at_or_below q p" using q(3) xs(1) by auto
    have qp: "q \<noteq> p" using q(2) p(1) xs(1) by auto
    show ?thesis
    proof (cases "p \<in> set removed")
      case True
      have b: "at_or_below q (butlast p)" by (rule below_parent [OF p(2) qp])
      then have "butlast p \<noteq> []" using q(1) by (auto simp: at_or_below_append)
      then have "is_fdir (fmlookup after (base @ butlast p))" using assms(4) True unfolding parents_kept_def by blast
      then show ?thesis using up [OF b] by (cases "q = butlast p") (auto elim: is_fdirE)
    next
      case False
      then show ?thesis using up [OF p(2) qp] ch(2) [of p] p(1) by auto
    qed
  qed
  have vn: "v q = None \<or> (q \<in> set removed \<and> (\<exists>a. v q = Some (FDev a)))
      \<or> (\<exists>n m. v q = Some n \<and> fmlookup after (base @ q) = Some m \<and> same_content n m)" if q: "q \<noteq> []" for q
  proof (cases "entry_view a xs q")
    case (Some n)
    then consider "(q, n) \<in> set xs" | "q \<notin> fst ` set xs" "n = FDir a" "\<exists>p \<in> fst ` set xs. at_or_below q p" unfolding ev by blast
    then show ?thesis
    proof cases
      case 1
      then have "q \<in> set changed \<union> set removed" using xs(1) by force
      then show ?thesis using xs(3,4) [OF 1] ch(2) [of q] v(1) [OF q] Some by (cases "q \<in> set removed") auto
    next
      case 2
      then obtain c where "fmlookup after (base @ q) = Some (FDir c)" using vdir [OF q 2(1,3)] by (auto elim: is_fdirE)
      then show ?thesis using v(1) [OF q] Some 2(2) by auto
    qed
  qed (use v(1) [OF q] in simp)
  have nonopaque: "\<not> fa_opaque c" if "v q = Some (FDir c)" for q c
    using that v xs(5) assms(6) ev [of q "FDir c"] by (cases "q = []") auto
  note ov = overlay_rulesD(2) [OF assms(1) dt p]
  show ?thesis
  proof (cases "\<exists>i. 0 < i \<and> i < length p \<and> v (take i p) \<noteq> None \<and> \<not> is_fdir (v (take i p))")
    case True
    then obtain i where i: "0 < i" "i < length p" "v (take i p) \<noteq> None" "\<not> is_fdir (v (take i p))" by blast
    have "\<not> is_fdir (fmlookup after (base @ take i p))"
      using vn [of "take i p"] i rm [of "take i p"] p same_content_kind(1) by auto
    moreover have "take i p \<noteq> p" using i(2) by (metis length_take less_irrefl min.absorb4)
    ultimately have "fmlookup after (base @ p) = None" using up [OF take_above, of i p] by blast
    moreover have "v p = None" using dir_tree_below [OF dt, of "take i p" "drop i p"] i(2,4) by fastforce
    moreover have "hides_below v p"
      using i nonopaque unfolding hides_below_def by (intro exI [of _ i]) (cases "v (take i p)" rule: shuts_off.cases; auto)
    ultimately show ?thesis using ov by simp
  next
    case False
    have "\<not> shuts_off (v (take i p))" if "0 < i" "i < length p" for i
      using False that nonopaque [of "take i p"] by (cases "v (take i p)" rule: shuts_off.cases) fastforce+
    then have "\<not> hides_below v p" by (auto simp: hides_below_def)
    then have o1: "m (v # vs) p = (case v p of None \<Rightarrow> m vs p | Some (FDev a) \<Rightarrow> None | Some n \<Rightarrow> Some n)"
      using ov by simp
    from vn [OF p] consider "v p = None" | c where "p \<in> set removed" "v p = Some (FDev c)"
      | n m where "v p = Some n" "fmlookup after (base @ p) = Some m" "same_content n m" by metis
    then show ?thesis
    proof cases
      case 1
      then have "p \<notin> set changed" "p \<notin> set removed"
        using v(1) [OF p] xs(1) by (auto simp: entry_view_def map_of_eq_None_iff split: option.splits)
      then have "rel_option same_content (fmlookup before (base @ p)) (fmlookup after (base @ p))"
        using rm [of p] p diff_layer_ofD(2) [OF assms(3)] by (cases "fmlookup after (base @ p)") auto
      moreover note below [OF p]
      ultimately show ?thesis
        using same_content_trans unfolding o1 1
        by (cases "m vs p"; cases "fmlookup before (base @ p)"; cases "fmlookup after (base @ p)") auto
    next
      case 2
      then show ?thesis using o1 rm [of p] by simp
    next
      case 3
      then show ?thesis using o1 same_content_kind(3) [OF 3(3)] by (auto split: fnode.splits)
    qed
  qed
qed

section \<open>The cache on disk\<close>

definition digest_name :: "string \<Rightarrow> bool" where
  \<comment> \<open>what a digest looks like: no dot, no slash\<close>
  "digest_name dg = (dg \<noteq> [] \<and> CHR ''.'' \<notin> set dg \<and> CHR ''/'' \<notin> set dg)"

definition cache_name :: "string \<Rightarrow> string" where
  "cache_name dg = replace_char CHR '':'' CHR ''_'' dg"

lemma cache_name_ok:
  assumes "digest_name dg"
  shows "CHR ''.'' \<notin> set (cache_name dg)" "CHR ''/'' \<notin> set (cache_name dg)" "cache_name dg \<noteq> []"
    "proper_name (cache_name dg)" "proper_name (cache_name dg @ ''.done'')" "proper_name (cache_name dg @ ''.lock'')"
proof -
  show 1: "CHR ''.'' \<notin> set (cache_name dg)" "CHR ''/'' \<notin> set (cache_name dg)" "cache_name dg \<noteq> []"
    using assms by (auto simp: digest_name_def cache_name_def replace_char_def split: if_splits)
  then show "proper_name (cache_name dg)" "proper_name (cache_name dg @ ''.done'')" "proper_name (cache_name dg @ ''.lock'')"
    by (auto simp: proper_name_def)
qed

lemma comps_absolute: "list_all proper_name p \<Longrightarrow> comps (CHR ''/'' # rel_text p) = p"
proof -
  assume a: "list_all proper_name p"
  have "comps (CHR ''/'' # s) = comps s" for s by (simp add: comps_def)
  then show ?thesis using comps_rel_text [OF a] by simp
qed

lemma cache_paths:
  assumes "lc_root lc = CHR ''/'' # rel_text cdir" "list_all proper_name cdir" "cdir \<noteq> []" "digest_name dg"
  shows "comps (path_for lc dg) = cdir @ [cache_name dg]" "comps (marker_for lc dg) = cdir @ [cache_name dg @ ''.done'']"
    "comps (lock_for lc dg) = cdir @ [cache_name dg @ ''.lock'']"
proof -
  note ok = cache_name_ok [OF assms(4)]
  have j: "path_join (CHR ''/'' # rel_text cdir) x = CHR ''/'' # rel_text (cdir @ [x])" if "proper_name x" for x
  proof -
    have "\<not> starts_with x ''/''" using that by (cases x) (auto simp: starts_with_def proper_name_def)
    moreover have "\<not> ends_with (CHR ''/'' # rel_text cdir) ''/''"
      using rel_text_no_slash_end [OF assms(2,3)] by (cases "rel_text cdir" rule: rev_cases) (auto simp: ends_with_def Suc_diff_le)
    ultimately show ?thesis by (simp add: path_join_def rel_text_snoc assms(3))
  qed
  have p: "path_for lc dg = CHR ''/'' # rel_text (cdir @ [cache_name dg])"
    using j [OF ok(4)] by (simp add: path_for_def assms(1) cache_name_def)
  have x: "rel_text (cdir @ [c]) @ s = rel_text (cdir @ [c @ s])" for c s
    by (simp add: rel_text_snoc [OF assms(3)])
  show "comps (path_for lc dg) = cdir @ [cache_name dg]"
    unfolding p by (rule comps_absolute) (use assms(2) ok in simp)
  show "comps (marker_for lc dg) = cdir @ [cache_name dg @ ''.done'']"
    unfolding marker_for_def p append_Cons x by (rule comps_absolute) (use assms(2) ok in simp)
  show "comps (lock_for lc dg) = cdir @ [cache_name dg @ ''.lock'']"
    unfolding lock_for_def p append_Cons x by (rule comps_absolute) (use assms(2) ok in simp)
qed

lemma write_file_ready:
  assumes "fs_wf fs" "is_fdir (fmlookup fs d)" "proper_name c"
    and "fmlookup fs (d @ [c]) = None \<or> (\<exists>a t. fmlookup fs (d @ [c]) = Some (FFile a t))"
  shows "\<exists>a. write_file new (d @ [c]) x fs = (Inr (), fmupd (d @ [c]) (FFile a x) fs) \<and> fs_wf (fmupd (d @ [c]) (FFile a x) fs)"
proof -
  note cp = clear_parent [OF assms(1-3)]
  have r: "resolve fs True (d @ [c]) = Inr (d @ [c])"
    by (rule resolve_real) (use cp assms(4) in \<open>auto simp: clear_above_def\<close>)
  have "fmlookup fs ((d @ [c]) @ r) = None" if "r \<noteq> []" for r
    by (rule wf_no_descendant [OF assms(1), of "d @ [c]"]) (use assms(4) that in \<open>auto simp: at_or_below_append\<close>)
  then have "fs_wf (fmupd (d @ [c]) (FFile a x) fs)" for a
    by (intro wf_add_child [OF assms(1-3)]) simp
  then show ?thesis using r assms(4) by (auto simp: write_file_def on_node_def)
qed

text \<open>What one layer occupies in the cache, and when the place is free.\<close>

definition area :: "path \<Rightarrow> string \<Rightarrow> path set" where
  "area cdir dg = {k. at_or_below (cdir @ [cache_name dg]) k} \<union> {cdir @ [cache_name dg @ ''.done''], cdir @ [cache_name dg @ ''.lock'']}"

definition place_free :: "fs \<Rightarrow> path \<Rightarrow> string \<Rightarrow> bool" where
  "place_free fs cdir dg \<longleftrightarrow>
     (fmlookup fs (cdir @ [cache_name dg]) = None \<or> is_fdir (fmlookup fs (cdir @ [cache_name dg])))
     \<and> fmlookup fs (cdir @ [cache_name dg @ ''.done'']) = None
     \<and> (fmlookup fs (cdir @ [cache_name dg @ ''.lock'']) = None
          \<or> (\<exists>a t. fmlookup fs (cdir @ [cache_name dg @ ''.lock'']) = Some (FFile a t)))"

lemma replace_char_inj: "cache_name x = cache_name y \<Longrightarrow> CHR ''_'' \<notin> set x \<Longrightarrow> CHR ''_'' \<notin> set y \<Longrightarrow> x = y"
proof (induction x arbitrary: y)
  case (Cons a x)
  then show ?case by (cases y) (auto simp: cache_name_def replace_char_def split: if_splits)
qed (simp add: cache_name_def replace_char_def)

lemma area_disjoint:
  assumes "digest_name x" "digest_name y" "cache_name x \<noteq> cache_name y"
  shows "area cdir x \<inter> area cdir y = {}"
proof -
  note ox = cache_name_ok(1) [OF assms(1)] and oy = cache_name_ok(1) [OF assms(2)]
  have "cache_name x \<noteq> cache_name y @ CHR ''.'' # s" "cache_name y \<noteq> cache_name x @ CHR ''.'' # s" for s
    using ox oy by (metis in_set_conv_decomp)+
  from this [of "''done''"] this [of "''lock''"] show ?thesis
    using assms(3) by (auto simp: area_def at_or_below_append)
qed

lemma ready_of_marker:
  assumes "fs_wf fs" "lc_root lc = CHR ''/'' # rel_text cdir" "cdir \<noteq> []" "digest_name dg" "is_fdir (fmlookup fs cdir)"
  shows "fmlookup fs (cdir @ [cache_name dg @ ''.done'']) = Some (FFile a t) \<Longrightarrow> layer_ready lc fs dg"
    and "fmlookup fs (cdir @ [cache_name dg @ ''.done'']) = None \<Longrightarrow> \<not> layer_ready lc fs dg"
proof -
  obtain r where r: "fmlookup fs cdir = Some (FDir r)" using assms(5) by (rule is_fdirE)
  note cp = cache_paths [OF assms(2) fs_wf_nodeD(1) [OF assms(1) r] assms(3,4)]
  note st = stat_clear(2) [OF assms(1) clear_parent(1) [OF assms(1,5) cache_name_ok(5) [OF assms(4)]]]
  show "fmlookup fs (cdir @ [cache_name dg @ ''.done'']) = Some (FFile a t) \<Longrightarrow> layer_ready lc fs dg"
    "fmlookup fs (cdir @ [cache_name dg @ ''.done'']) = None \<Longrightarrow> \<not> layer_ready lc fs dg"
    using st by (simp_all add: layer_ready_def cp(2) path_exists_def)
qed

lemma unpack_one_ok:
  assumes "fs_wf fs" "lc_root lc = CHR ''/'' # rel_text cdir" "cdir \<noteq> []" "is_fdir (fmlookup fs cdir)"
    and "digest_name dg" "place_free fs cdir dg" "read_blob st dg = Inr (Gz level mt tar)"
    and "fs_wf before" "fs_wf after" "no_markers before base" "no_markers after base"
    and "diff_layer_of before after base changed removed" "distinct removed" "parents_kept after base removed"
    and "write_tar who after (map (\<lambda>p. (rel_text p, base @ p)) changed) (map rel_text removed) mtime = Inr tar"
  shows "\<exists>h xs. unpack_one new True st lc dg fs = (Inr (), h) \<and> fs_wf h
    \<and> fmlookup h (cdir @ [cache_name dg]) = Some (FDir (new True))
    \<and> (\<forall>q. q \<noteq> [] \<longrightarrow> fmlookup h (cdir @ [cache_name dg] @ q) = entry_view (new True) xs q)
    \<and> shows_diff (new True) after base changed removed xs
    \<and> (\<exists>a. fmlookup h (cdir @ [cache_name dg @ ''.done'']) = Some (FFile a dg))
    \<and> (\<forall>k. k \<notin> area cdir dg \<longrightarrow> fmlookup h k = fmlookup fs k)"
proof -
  let ?n = "cache_name dg"
  let ?T = "cdir @ [?n]" and ?M = "cdir @ [?n @ ''.done'']" and ?L = "cdir @ [?n @ ''.lock'']"
  obtain r where r: "fmlookup fs cdir = Some (FDir r)" using assms(4) by (rule is_fdirE)
  have cn: "list_all proper_name cdir" using fs_wf_nodeD(1) [OF assms(1) r] .
  note cp = cache_paths [OF assms(2) cn assms(3,5)] and nm = cache_name_ok [OF assms(5)]
  note free = assms(6) [unfolded place_free_def]
  obtain a f1 where f1: "write_file new ?L [] fs = (Inr (), f1)" "f1 = fmupd ?L (FFile a []) fs" "fs_wf f1"
    using write_file_ready [OF assms(1,4) nm(6), of new "[]"] free by blast
  have d1: "is_fdir (fmlookup f1 cdir)" using assms(4) by (simp add: f1(2))
  have m1: "fmlookup f1 ?M = None" using free by (simp add: f1(2))
  have nr: "\<not> layer_ready lc f1 dg" by (rule ready_of_marker(2) [OF f1(3) assms(2,3,5) d1 m1])
  have t1: "fmlookup f1 ?T = None \<or> is_fdir (fmlookup f1 ?T)" using free by (simp add: f1(2))
  define f2 where "f2 = drop_tree ?T f1"
  have rt: "snd (rmtree ?T f1) = f2"
  proof -
    note c1 = clear_parent [OF f1(3) d1 nm(4)]
    have res: "resolve f1 False ?T = Inr ?T"
      by (rule resolve_real) (use c1 in \<open>auto simp: clear_above_def\<close>)
    show ?thesis
    proof (cases "fmlookup f1 ?T")
      case None
      have "fmlookup f2 k = fmlookup f1 k" for k
        using None wf_no_descendant [OF f1(3), of ?T k] by (cases "k = ?T") (auto simp: f2_def)
      then have "f2 = f1" by (rule fmap_ext)
      then show ?thesis using res None by (simp add: rmtree_def on_node_def)
    qed (use res t1 in \<open>simp add: rmtree_def on_node_def f2_def\<close>)
  qed
  have f2: "fs_wf f2" "fmlookup f2 ?T = None" "is_fdir (fmlookup f2 cdir)"
    using drop_tree_wf [OF f1(3), of ?T] d1 by (simp_all add: f2_def at_or_below_append)
  note mk = mkdir_ready [OF f2(1,3) nm(4) f2(2), of new]
  let ?f3 = "fmupd ?T (FDir (new True)) f2"
  have m3: "makedirs new ?T f2 = (Inr (), ?f3)"
  proof -
    obtain b where b: "fmlookup f2 cdir = Some (FDir b)" using f2(3) by (rule is_fdirE)
    have "path_exists f2 cdir"
      using stat_clear(2) [OF f2(1) wf_clear_above [OF f2(1) b]] b by (simp add: path_exists_def)
    then show ?thesis using mk(1) by (subst makedirs.simps) simp
  qed
  have e3: "fmlookup ?f3 (?T @ q) = None" if "q \<noteq> []" for q
    using that by (simp add: f2_def at_or_below_append)
  obtain h xs where h: "unpack_layer new True (Gz level mt tar) ?T ?f3
      = (Inr \<lparr>uc_files = length changed, uc_whiteouts = length removed, uc_opaque = 0\<rparr>, h)"
    "holds (new True) ?T ?f3 xs h" "shows_diff (new True) after base changed removed xs"
    using unpack_diff [OF assms(8-15) mk(2) _ _ e3, of new level mt] by auto
  have hw: "fs_wf h" and hin: "\<And>q. q \<noteq> [] \<Longrightarrow> fmlookup h (?T @ q) = entry_view (new True) xs q"
    and hout: "\<And>k. \<not> (at_or_below ?T k \<and> k \<noteq> ?T) \<Longrightarrow> fmlookup h k = fmlookup ?f3 k"
    using h(2) unfolding holds_def by blast+
  have nbelow: "\<not> at_or_below ?T cdir" "\<not> at_or_below ?T ?M" by (simp_all add: at_or_below_append)
  have hd: "is_fdir (fmlookup h cdir)" using hout [of cdir] nbelow(1) f2(3) by simp
  have hm: "fmlookup h ?M = None" using hout [of ?M] nbelow(2) m1 by (simp add: f2_def)
  obtain c where c: "write_file new ?M dg h = (Inr (), fmupd ?M (FFile c dg) h)" "fs_wf (fmupd ?M (FFile c dg) h)"
    using write_file_ready [OF hw hd nm(5), of new dg] hm by blast
  let ?h = "fmupd ?M (FFile c dg) h"
  have md: "makedirs new cdir fs = (Inr (), fs)" by (rule makedirs_dir [OF assms(1,4)])
  have "unpack_one new True st lc dg fs = (Inr (), ?h)"
    using md f1(1) nr rt m3 assms(7) h(1) c(1)
    by (simp add: unpack_one_def unpack_fresh_def cp abind_def Let_def alift_def)
  moreover have "fmlookup ?h ?T = Some (FDir (new True))" using hout [of ?T] by simp
  moreover have "fmlookup ?h (cdir @ [?n] @ q) = entry_view (new True) xs q" if "q \<noteq> []" for q
    using hin [OF that] by simp
  moreover have "fmlookup ?h k = fmlookup fs k" if "k \<notin> area cdir dg" for k
  proof -
    have k: "\<not> at_or_below ?T k" "k \<noteq> ?M" "k \<noteq> ?L" using that by (simp_all add: area_def)
    moreover from this have "k \<noteq> ?T" by (auto simp: at_or_below_def)
    ultimately show ?thesis using hout [of k] by (simp add: f2_def f1(2))
  qed
  ultimately show ?thesis using c(2) h(3) by (intro exI [of _ ?h] exI [of _ xs]) simp
qed

section \<open>An image\<close>

fun unpack_chain :: "(int \<Rightarrow> string) \<Rightarrow> path \<Rightarrow> fs \<Rightarrow> fs list \<Rightarrow> blob list \<Rightarrow> bool" where
  \<comment> \<open>the layers of a sequence of trees, in each of which things disappear one by one from directories that stay\<close>
  "unpack_chain who base before [] [] = True"
| "unpack_chain who base before (after # ts) (b # bs) =
     ((\<exists>changed removed mtime level mt tar. b = Gz level mt tar \<and> diff_layer_of before after base changed removed
         \<and> distinct removed \<and> parents_kept after base removed
         \<and> write_tar who after (map (\<lambda>p. (rel_text p, base @ p)) changed) (map rel_text removed) mtime = Inr tar)
      \<and> fs_wf after \<and> no_markers after base \<and> unpack_chain who base after ts bs)"
| "unpack_chain who base before _ _ = False"

lemma unpack_chainI:
  assumes "diff_layer_of before after base changed removed" "distinct removed" "parents_kept after base removed"
    "write_tar who after (map (\<lambda>p. (rel_text p, base @ p)) changed) (map rel_text removed) mtime = Inr tar"
    "fs_wf after" "no_markers after base" "unpack_chain who base after ts bs"
  shows "unpack_chain who base before (after # ts) (Gz level mt tar # bs)"
  using assms by simp blast

definition layer_view :: "layer_cache \<Rightarrow> fs \<Rightarrow> string \<Rightarrow> tree_view" where
  "layer_view lc fs dg q = fmlookup fs (comps (path_for lc dg) @ q)"

lemma unpack_all:
  assumes "unpack_chain who base before ts bs" "list_all2 (\<lambda>dg b. read_blob st dg = Inr b) digests bs"
    and "lc_root lc = CHR ''/'' # rel_text cdir" "cdir \<noteq> []" "fs_wf fs" "is_fdir (fmlookup fs cdir)"
    and "\<forall>dg \<in> set digests. digest_name dg \<and> place_free fs cdir dg" "distinct (map cache_name digests)"
    and "fs_wf before" "no_markers before base" "\<not> fa_opaque (new True)"
    and "overlay_rules m" and "\<And>p. p \<noteq> [] \<Longrightarrow> rel_option same_content (m vs p) (fmlookup before (base @ p))"
  shows "\<exists>h. aeach (unpack_one new True st lc) digests fs = (Inr (), h)
    \<and> (\<forall>dg \<in> set digests. layer_ready lc h dg)
    \<and> (\<forall>p. p \<noteq> [] \<longrightarrow> rel_option same_content (m (rev (map (layer_view lc h) digests) @ vs) p)
          (fmlookup (last (before # ts)) (base @ p)))
    \<and> (\<forall>k. (\<forall>dg \<in> set digests. k \<notin> area cdir dg) \<longrightarrow> fmlookup h k = fmlookup fs k)
    \<and> fs_wf h \<and> is_fdir (fmlookup h cdir)"
  using assms(1,2,5-10,13)
proof (induction who base before ts bs arbitrary: digests fs vs rule: unpack_chain.induct)
  case (1 who base before)
  then show ?case by auto
next
  case (2 who base before after ts b bs)
  from "2.prems"(1) obtain changed removed mtime level mt tar where
    c: "b = Gz level mt tar" "diff_layer_of before after base changed removed" "distinct removed" "parents_kept after base removed"
      "write_tar who after (map (\<lambda>p. (rel_text p, base @ p)) changed) (map rel_text removed) mtime = Inr tar"
    and a: "fs_wf after" "no_markers after base" "unpack_chain who base after ts bs"
    by auto
  obtain dg dgs where dd: "digests = dg # dgs" "read_blob st dg = Inr b" "list_all2 (\<lambda>dg b. read_blob st dg = Inr b) dgs bs"
    using "2.prems"(2) by (auto simp: list_all2_Cons2)
  have ok: "digest_name dg" "place_free fs cdir dg" using "2.prems"(5) by (simp_all add: dd(1))
  obtain f1 xs where f1: "unpack_one new True st lc dg fs = (Inr (), f1)" "fs_wf f1"
      "fmlookup f1 (cdir @ [cache_name dg]) = Some (FDir (new True))"
      "\<forall>q. q \<noteq> [] \<longrightarrow> fmlookup f1 (cdir @ [cache_name dg] @ q) = entry_view (new True) xs q"
      "shows_diff (new True) after base changed removed xs" "\<exists>a. fmlookup f1 (cdir @ [cache_name dg @ ''.done'']) = Some (FFile a dg)"
      "\<forall>k. k \<notin> area cdir dg \<longrightarrow> fmlookup f1 k = fmlookup fs k"
    using unpack_one_ok [OF "2.prems"(3) assms(3,4) "2.prems"(4) ok dd(2) [unfolded c(1)] "2.prems"(7) a(1) "2.prems"(8) a(2) c(2-5)]
    by blast
  have dis: "area cdir d \<inter> area cdir dg = {}" if "d \<in> set dgs" for d
  proof (rule area_disjoint)
    show "cache_name d \<noteq> cache_name dg" using that "2.prems"(6) by (metis dd(1) distinct.simps(2) image_eqI list.map(2) set_map)
  qed (use that "2.prems"(5) in \<open>simp_all add: dd(1)\<close>)
  have nd: "cdir \<notin> area cdir d" for d by (auto simp: area_def at_or_below_append)
  have d1: "is_fdir (fmlookup f1 cdir)" using f1(7) nd "2.prems"(4) by simp
  have pf: "place_free f1 cdir d" if d: "d \<in> set dgs" for d
  proof -
    have "fmlookup f1 k = fmlookup fs k" if "k \<in> area cdir d" for k using f1(7) dis [OF d] that by blast
    then have "place_free f1 cdir d = place_free fs cdir d" unfolding place_free_def area_def by (simp add: at_or_below_def)
    then show ?thesis using "2.prems"(5) d by (simp add: dd(1))
  qed
  let ?v = "layer_view lc f1 dg"
  obtain r where r: "fmlookup fs cdir = Some (FDir r)" using "2.prems"(4) by (rule is_fdirE)
  note cp = cache_paths [OF assms(3) fs_wf_nodeD(1) [OF "2.prems"(3) r] assms(4)]
  have vs1: "rel_option same_content (m (?v # vs) p) (fmlookup after (base @ p))" if "p \<noteq> []" for p
  proof (rule overlay_step [OF assms(12) a(1) c(2,4) f1(5) assms(11) "2.prems"(9) _ _ assms(11) _ that])
    show "?v q = entry_view (new True) xs q" if "q \<noteq> []" for q
      using f1(4) that by (simp add: layer_view_def cp(1) [OF ok(1)])
    show "dir_tree ?v" using dir_tree_of_fs [OF f1(2), of "comps (path_for lc dg)"] by (simp add: layer_view_def [abs_def])
    show "?v [] = Some (FDir (new True))" using f1(3) by (simp add: layer_view_def cp(1) [OF ok(1)])
  qed
  have "\<exists>h. aeach (unpack_one new True st lc) dgs f1 = (Inr (), h)
    \<and> (\<forall>dg \<in> set dgs. layer_ready lc h dg)
    \<and> (\<forall>p. p \<noteq> [] \<longrightarrow> rel_option same_content (m (rev (map (layer_view lc h) dgs) @ ?v # vs) p)
          (fmlookup (last (after # ts)) (base @ p)))
    \<and> (\<forall>k. (\<forall>dg \<in> set dgs. k \<notin> area cdir dg) \<longrightarrow> fmlookup h k = fmlookup f1 k)
    \<and> fs_wf h \<and> is_fdir (fmlookup h cdir)"
  proof (rule "2.IH" [OF a(3) dd(3) f1(2) d1 _ _ a(1,2)])
    show "\<forall>dg \<in> set dgs. digest_name dg \<and> place_free f1 cdir dg" using pf "2.prems"(5) by (simp add: dd(1))
    show "distinct (map cache_name dgs)" using "2.prems"(6) by (simp add: dd(1))
  qed (rule vs1)
  then obtain h where h: "aeach (unpack_one new True st lc) dgs f1 = (Inr (), h)" "\<forall>dg \<in> set dgs. layer_ready lc h dg"
    "\<forall>p. p \<noteq> [] \<longrightarrow> rel_option same_content (m (rev (map (layer_view lc h) dgs) @ ?v # vs) p)
          (fmlookup (last (after # ts)) (base @ p))"
    "\<forall>k. (\<forall>dg \<in> set dgs. k \<notin> area cdir dg) \<longrightarrow> fmlookup h k = fmlookup f1 k" "fs_wf h" "is_fdir (fmlookup h cdir)"
    by blast
  have same: "fmlookup h k = fmlookup f1 k" if "k \<in> area cdir dg" for k using h(4) dis that by blast
  have view: "layer_view lc h dg = ?v"
    by (rule ext) (auto simp: layer_view_def cp(1) [OF ok(1)] area_def at_or_below_append intro!: same)
  have ready: "layer_ready lc h dg"
  proof -
    obtain a where "fmlookup f1 (cdir @ [cache_name dg @ ''.done'']) = Some (FFile a dg)" using f1(6) by blast
    then have "fmlookup h (cdir @ [cache_name dg @ ''.done'']) = Some (FFile a dg)" using same by (simp add: area_def)
    then show ?thesis by (rule ready_of_marker(1) [OF h(5) assms(3,4) ok(1) h(6)])
  qed
  have "aeach (unpack_one new True st lc) digests fs = (Inr (), h)" using f1(1) h(1) by (simp add: dd(1) abind_def)
  moreover have "fmlookup h k = fmlookup fs k" if "\<forall>d \<in> set digests. k \<notin> area cdir d" for k
    using that h(4) f1(7) by (simp add: dd(1))
  ultimately show ?case using h(2,3,5,6) ready view by (simp add: dd(1))
qed auto

end
