(* ===== verification/Image_Layer_Safety.thy ===== *)
theory Image_Layer_Safety
  imports Image_Layer_Props
begin

text \<open>
  Reproducible layers, unpacking an image by its layers, and how far extraction reaches: it stays
  inside its directory for members with plain relative names and no links, and for members whose path
  leads out of it, which are refused; it does not for three kinds of archives.
\<close>

section \<open>Reproducible bytes\<close>

lemma gettarinfo_normalised:
  assumes "stat_at fs False p = Some m" "stat_at gs False q = Some n" "same_content m n"
  shows "ebind (gettarinfo who fs p a) (\<lambda>i. Inr (normalise_info t i)) = ebind (gettarinfo who' gs q a) (\<lambda>i. Inr (normalise_info t i))"
  using assms by (cases m; cases n) (simp_all add: gettarinfo_def normalise_info_def)

text \<open>C26: Layers are reproducible: two hosts on which the members have the same content, executable bit
  and link target produce the same layer, byte for byte, with the same two digests; users, groups,
  file times, umask, the clock, the user data bases and the order of the whiteouts do not matter.\<close>

theorem layer_reproducible:
  assumes "list_all2 (\<lambda>(a, p) (b, q). a = b \<and> (\<exists>m n. stat_at fs False p = Some m \<and> stat_at gs False q = Some n
      \<and> same_content m n)) ms ns" "mset wh = mset vh"
  shows "make_layer sha blen who now fs compress level True ms wh
    = make_layer sha blen who' now' gs compress level True ns vh"
proof -
  have "emap (\<lambda>(a, p). ebind (gettarinfo who fs p a) (\<lambda>i. Inr (normalise_info t i))) ms
      = emap (\<lambda>(a, p). ebind (gettarinfo who' gs p a) (\<lambda>i. Inr (normalise_info t i))) ns" for t
    using assms(1)
  proof (induction ms ns rule: list_all2_induct)
    case (Cons x ms y ns)
    obtain a p q where xy: "x = (a, p)" "y = (a, q)" using Cons(1) by (cases x; cases y) auto
    have "ebind (gettarinfo who fs p a) (\<lambda>i. Inr (normalise_info t i)) = ebind (gettarinfo who' gs q a) (\<lambda>i. Inr (normalise_info t i))"
      using Cons(1) gettarinfo_normalised by (auto simp: xy)
    with Cons show ?case by (simp add: xy)
  qed simp
  moreover have "sort wh = sort vh" using assms(2) by (metis mset_sort properties_for_sort sorted_sort)
  ultimately show ?thesis by (simp add: make_layer_def write_tar_def)
qed

definition demo_attr :: "int \<Rightarrow> fattr" where
  "demo_attr n = \<lparr>fa_mode = 420, fa_uid = n, fa_gid = n, fa_mtime = n, fa_opaque = False\<rparr>"

definition demo_host_tree :: "int \<Rightarrow> fs" where
  "demo_host_tree n = fmap_of_list
     [([], FDir (demo_attr 0)), ([''r''], FDir (demo_attr n)), ([''r'', ''f''], FFile (demo_attr n) ''data'')]"

theorem layer_reproducible_witness:
  "make_layer demo_sha demo_len (\<lambda>_. ''alice'') 5 (demo_host_tree 1) True 6 True [(''f'', [''r'', ''f''])] [''b'', ''a'']
   = make_layer demo_sha demo_len (\<lambda>_. ''bob'') 9 (demo_host_tree 2) True 6 True [(''f'', [''r'', ''f''])] [''a'', ''b'']"
proof -
  have s: "stat_at (demo_host_tree n) False [''r'', ''f''] = Some (FFile (demo_attr n) ''data'')" for n
    by (simp add: stat_at_def resolve_def demo_host_tree_def)
  show ?thesis by (rule layer_reproducible) (simp_all add: s demo_attr_def)
qed

section \<open>Unpacking an image\<close>

text \<open>C24: Unpacking rebuilds the tree: an image whose layers are the successive differences of a sequence of
  trees, starting from an empty one, unpacks to the last of them: the same paths, contents, link
  targets and executable bits below the destination, and nothing outside the destination changes.
  The conditions on the sequence are those of \<open>layer_chain\<close>: between two consecutive trees no link
  becomes a directory (such a step is not replayed, theorem \<open>link_becoming_dir_not_replayed\<close>), no
  entry is a device or has a name that begins like a whiteout marker, and each layer is packed with
  gzip; the destination is absent or a directory, with anything in it.\<close>

theorem unpack_rebuilds_tree:
  assumes "get_manifest sha st ref = Inr m" "list_all2 (\<lambda>d b. get_blob sha st (d_digest d) = Inr b \<and> d_media d = MEDIA_LAYER_GZIP) (mf_layers m) bs"
    and "layer_chain who (d @ [c]) before ts bs" "\<forall>p. p \<noteq> [] \<longrightarrow> fmlookup before (d @ c # p) = None"
    and "fs_wf fs" "is_fdir (fmlookup fs d)" "proper_name c"
    and "fmlookup fs (d @ [c]) = None \<or> is_fdir (fmlookup fs (d @ [c]))"
  shows "\<exists>fs'. unpack_image sha new st ref (d @ [c]) fs = (Inr (), fs') \<and> same_tree fs' (last (before # ts)) (d @ [c])
    \<and> (\<forall>k. \<not> at_or_below (d @ [c]) k \<longrightarrow> fmlookup fs' k = fmlookup fs k)"
proof -
  let ?b = "d @ [c]"
  note cp = clear_parent [OF assms(5-7)]
  define g where "g = drop_tree ?b fs"
  have nd: "\<not> at_or_below ?b d" by (auto simp: at_or_below_append)
  have g: "fs_wf g" "is_fdir (fmlookup g d)" "fmlookup g ?b = None"
    using drop_tree_wf [OF assms(5)] assms(6) nd by (simp_all add: g_def) (simp add: at_or_below_append)
  have nl: "\<not> is_flink (fmlookup fs ?b)" using assms(8) by (auto elim: is_fdirE)
  have pe: "path_exists fs ?b \<longleftrightarrow> is_fdir (fmlookup fs ?b)"
    using stat_clear(2) [OF assms(5) cp(1) nl] assms(8) by (auto simp: path_exists_def elim: is_fdirE)
  have s1: "(if path_exists fs ?b then rmtree ?b fs else (Inr (), fs)) = (Inr (), g)"
  proof (cases "is_fdir (fmlookup fs ?b)")
    case True
    have "resolve fs False ?b = Inr ?b" by (rule resolve_real) (use cp in \<open>auto simp: clear_above_def\<close>)
    then show ?thesis using True pe by (simp add: rmtree_def on_node_def g_def)
  next
    case False
    have "g = fs"
    proof (rule fmap_ext)
      fix k show "fmlookup g k = fmlookup fs k"
        using False assms(8) wf_no_descendant [OF assms(5) False, of k] by (cases "k = ?b") (auto simp: g_def)
    qed
    then show ?thesis using False pe by simp
  qed
  note cg = clear_parent [OF g(1,2) assms(7)]
  let ?h = "fmupd ?b (FDir (new True)) g"
  have rg: "resolve g False ?b = Inr ?b" by (rule resolve_real) (use cg g(3) in \<open>auto simp: clear_above_def\<close>)
  have pg: "path_exists g (butlast ?b)"
  proof -
    obtain y where y: "fmlookup g d = Some (FDir y)" using g(2) by (rule is_fdirE)
    show ?thesis using stat_clear(2) [OF g(1) wf_clear_above [OF g(1) y]] y by (simp add: path_exists_def)
  qed
  have s2: "makedirs new ?b g = (Inr (), ?h)"
    using pg rg g(3) by (subst makedirs.simps) (simp add: mkdir_ok_def fs_mkdir_def on_node_def)
  have h: "fs_wf ?h" by (rule wf_add_child [OF g(1,2) assms(7)]) simp
  have "same_tree ?h before ?b"
    using assms(4) by (auto simp: same_tree_def g_def at_or_below_append)
  moreover have "no_markers before ?b" using assms(4) by (auto simp: no_markers_def)
  ultimately obtain fs' where e: "aeach (\<lambda>b. extract_layer new b ?b True) bs ?h = (Inr (), fs')"
      "same_tree fs' (last (before # ts)) ?b" "\<forall>k. \<not> (at_or_below ?b k \<and> k \<noteq> ?b) \<longrightarrow> fmlookup fs' k = fmlookup ?h k"
    using extract_chain [OF assms(3) _ h, of new] by auto
  have lp: "aeach (\<lambda>d. abind (alift (get_blob sha st (d_digest d)))
       (\<lambda>b. extract_layer new b ?b (d_media d = MEDIA_LAYER_GZIP))) ls s = aeach (\<lambda>b. extract_layer new b ?b True) bs s"
    if "list_all2 (\<lambda>d b. get_blob sha st (d_digest d) = Inr b \<and> d_media d = MEDIA_LAYER_GZIP) ls bs" for ls s
    using that
  proof (induction ls bs arbitrary: s rule: list_all2_induct)
    case (Cons l ls b bs)
    then show ?case by (simp add: abind_def split: prod.splits sum.splits)
  qed simp
  have "unpack_image sha new st ref ?b fs = (Inr (), fs')"
    using assms(1) s1 s2 e(1) lp [OF assms(2)] by (simp add: unpack_image_def abind_def)
  moreover have "fmlookup fs' k = fmlookup fs k" if "\<not> at_or_below ?b k" for k
    using e(3) that by (auto simp: g_def at_or_below_append)
  ultimately show ?thesis using e(2) by blast
qed

definition demo_tree :: "(path \<times> fnode) list" where
  "demo_tree = [([], FDir (demo_attr 0)), ([''r''], FDir (demo_attr 1)), ([''r'', ''f''], FFile (demo_attr 1) ''data'')]"

definition demo_gz :: blob where
  "demo_gz = Gz 6 0 (Tar [info_of (\<lambda>_. []) 0 [''f''] (FFile (demo_attr 1) ''data'')])"

definition demo_gz_manifest :: manifest where
  "demo_gz_manifest = \<lparr>mf_config = mk_descriptor MEDIA_CONFIG (digest_of demo_sha demo_cfg) 7,
     mf_layers = [mk_descriptor MEDIA_LAYER_GZIP (digest_of demo_sha demo_gz) 7], mf_annotations = fmempty, mf_subject = None\<rparr>"

definition demo_gz_store :: img_store where
  "demo_gz_store = \<lparr>is_blobs = fmap_of_list [(demo_key CHR ''6'', demo_gz), (demo_key CHR ''3'', Doc (manifest_to_json demo_gz_manifest))],
     is_index = index_to_json (index_upsert ''app'' (mk_descriptor MEDIA_MANIFEST (digest_of demo_sha (Doc (manifest_to_json demo_gz_manifest))) 7)
       \<lparr>ix_manifests = [], ix_annotations = fmempty\<rparr>)\<rparr>"

theorem unpack_rebuilds_tree_witness:
  "\<exists>fs'. unpack_image demo_sha (\<lambda>_. demo_attr 9) demo_gz_store ''app'' ([] @ [''x'']) (fmap_of_list (take 1 demo_tree)) = (Inr (), fs')
     \<and> rel_option same_content (fmlookup fs' [''x'', ''f'']) (Some (FFile (demo_attr 1) ''data''))"
proof -
  let ?after = "fmap_of_list [([], FDir (demo_attr 0)), ([''x''], FDir (demo_attr 1)), ([''x'', ''f''], FFile (demo_attr 1) ''data'')]"
  let ?before = "fmap_of_list (take 1 demo_tree)"
  have m: "get_manifest demo_sha demo_gz_store ''app'' = Inr demo_gz_manifest"
    by (simp add: get_manifest_def read_index_def demo_gz_store_def load_manifest_def get_blob_def mk_descriptor_def
        blob_path_of fmlookup_of_list)
  have g: "get_blob demo_sha demo_gz_store (digest_of demo_sha demo_gz) = Inr demo_gz"
    by (simp add: get_blob_def blob_path_of demo_gz_store_def demo_gz_def fmlookup_of_list)
  have dom: "p = [''f'']" if "p \<noteq> []" "fmlookup ?after ([''x''] @ p) = Some n" for p n
    using that by (auto simp: fmlookup_of_list split: if_splits)
  have nb: "fmlookup ?before ([''x''] @ p) = None" for p by (simp add: demo_tree_def)
  have wa: "fs_wf ?after" by (rule fs_wf_of_list) code_simp
  have wt: "write_tar (\<lambda>_. []) ?after (map (\<lambda>p. (rel_text p, [''x''] @ p)) [[''f'']]) (map rel_text []) 0
      = Inr (Tar [info_of (\<lambda>_. []) 0 [''f''] (FFile (demo_attr 1) ''data'')])"
    using write_tar_members [OF wa, of "[[''f'']]" "[''x'']" "\<lambda>_. []" "[]" 0] by (simp add: fmlookup_of_list)
  have dl: "diff_layer_of ?before ?after [''x''] [[''f'']] []"
    by (rule diff_layer_ofI) (use dom nb in \<open>auto simp: fmlookup_of_list\<close>)
  have nm: "no_markers ?after [''x'']"
    unfolding no_markers_def using dom
    by (auto simp: fmlookup_of_list plain_name_def proper_name_def WHITEOUT_PREFIX_def starts_with_def)
  have nl: "no_link_becomes_dir ?before ?after [''x'']"
    using nb unfolding no_link_becomes_dir_def by (metis is_flink.simps(2))
  have "layer_chain (\<lambda>_. []) ([] @ [''x'']) ?before [?after] [demo_gz]"
    using layer_chainI [OF dl wt wa nm nl, of "[]" "[]" 6 0] by (simp only: demo_gz_def append_Nil layer_chain.simps simp_thms)
  moreover have "list_all2 (\<lambda>d b. get_blob demo_sha demo_gz_store (d_digest d) = Inr b \<and> d_media d = MEDIA_LAYER_GZIP)
      (mf_layers demo_gz_manifest) [demo_gz]"
    using g by (simp add: demo_gz_manifest_def mk_descriptor_def)
  moreover have "fs_wf ?before" by (rule fs_wf_of_list) code_simp
  moreover have "is_fdir (fmlookup ?before [])" by code_simp
  moreover have "proper_name ''x''" by code_simp
  ultimately obtain fs' where "unpack_image demo_sha (\<lambda>_. demo_attr 9) demo_gz_store ''app'' ([] @ [''x'']) ?before = (Inr (), fs')"
      "same_tree fs' (last (?before # [?after])) ([] @ [''x''])"
    using unpack_rebuilds_tree [OF m, of "[demo_gz]" "\<lambda>_. []" "[]" "''x''" ?before "[?after]" ?before "\<lambda>_. demo_attr 9"] nb by auto
  moreover from same_treeD [OF this(2), of "[''f'']"]
  have "rel_option same_content (fmlookup fs' [''x'', ''f'']) (Some (FFile (demo_attr 1) ''data''))" by simp
  ultimately show ?thesis by blast
qed

section \<open>How far extraction reaches\<close>

text \<open>A root without links in it, reached through directories.\<close>

definition sealed :: "path \<Rightarrow> fs \<Rightarrow> bool" where
  "sealed base fs \<longleftrightarrow> base \<noteq> [] \<and> list_all proper_name base \<and> (\<forall>i < length base. is_fdir (fmlookup fs (take i base)))
     \<and> (\<forall>k x. at_or_below base k \<and> fmlookup fs k = Some x \<longrightarrow> list_all proper_name k \<and> \<not> is_flink (Some x))"

definition inside :: "fs \<Rightarrow> path \<Rightarrow> fs \<Rightarrow> bool" where
  \<comment> \<open>still sealed, and the same outside the root as in the first tree\<close>
  "inside fs0 base fs \<longleftrightarrow> sealed base fs \<and> (\<forall>k. \<not> at_or_below base k \<longrightarrow> fmlookup fs k = fmlookup fs0 k)"

definition safe_member :: "tar_info \<Rightarrow> bool" where
  \<comment> \<open>no link; a relative name of proper components, the last one an entry or a well-formed marker\<close>
  "safe_member i \<longleftrightarrow> ti_type i \<noteq> TSym \<and> (\<exists>p c. ti_name i = rel_text (p @ [c]) \<and> list_all proper_name (p @ [c])
     \<and> (plain_name c \<or> c = OPAQUE_MARKER \<or> (\<exists>e. c = WHITEOUT_PREFIX @ e \<and> proper_name e)))"

definition refused :: "path \<Rightarrow> tar_info \<Rightarrow> bool" where
  \<comment> \<open>an entry of any type that is no marker and whose path, whatever it is, leads outside\<close>
  "refused base i \<longleftrightarrow> \<not> starts_with (snd (path_split (ti_name i))) WHITEOUT_PREFIX
     \<and> \<not> is_within base (under base (ti_name i))"

lemma walk_nolink:
  assumes "list_all proper_name cs" "\<And>i. 0 < i \<Longrightarrow> i \<le> length cs \<Longrightarrow> \<not> is_flink (fmlookup fs (cur @ take i cs))"
    and "walk n fs cur cs follow = Inr q"
  shows "q = cur @ cs"
  using assms
proof (induction cs arbitrary: cur)
  case (Cons c cs)
  have pn: "c \<noteq> ''..''" using Cons.prems(1) by (simp add: proper_name_def)
  have nl: "\<not> is_flink (fmlookup fs (cur @ [c]))" using Cons.prems(2) [of 1] by simp
  show ?case
  proof (cases "is_fdir (fmlookup fs (cur @ [c]))")
    case True
    have "q = (cur @ [c]) @ cs"
    proof (rule Cons.IH)
      fix i :: nat assume "0 < i" "i \<le> length cs"
      then show "\<not> is_flink (fmlookup fs ((cur @ [c]) @ take i cs))" using Cons.prems(2) [of "Suc i"] by simp
    qed (use Cons.prems True pn in \<open>auto elim: is_fdirE\<close>)
    then show ?thesis by simp
  next
    case False
    then show ?thesis using Cons.prems(3) pn nl by (auto split: option.splits fnode.splits if_splits)
  qed
qed simp

lemma sealed_no_link:
  assumes "sealed base fs" "i \<le> length (base @ r)"
  shows "\<not> is_flink (fmlookup fs (take i (base @ r)))"
proof (cases "i < length base")
  case True
  then show ?thesis using assms(1) unfolding sealed_def by (auto elim!: is_fdirE)
next
  case False
  then have "at_or_below base (take i (base @ r))" by (auto simp: at_or_below_append)
  then show ?thesis using assms(1) unfolding sealed_def by (cases "fmlookup fs (take i (base @ r))") auto
qed

lemma resolve_inside:
  assumes "inside fs0 base fs" "list_all proper_name r" "resolve fs follow (base @ r) = Inr q"
  shows "q = base @ r"
proof -
  have s: "sealed base fs" using assms(1) by (simp add: inside_def)
  have "q = [] @ (base @ r)"
    by (rule walk_nolink [OF _ _ assms(3) [unfolded resolve_def]])
       (use s assms(2) sealed_no_link [OF s] in \<open>auto simp: sealed_def simp del: take_append\<close>)
  then show ?thesis by simp
qed

lemma inside_upd:
  assumes "inside fs0 base fs" "list_all proper_name r" "\<not> is_flink (Some x)"
  shows "inside fs0 base (fmupd (base @ r) x fs)"
proof -
  have "\<not> at_or_below base (take i base)" if "i < length base" for i
    using that by (auto simp: at_or_below_def)
  moreover have "at_or_below base (base @ r)" by (simp add: at_or_below_append)
  ultimately show ?thesis using assms unfolding inside_def sealed_def by (auto split: if_splits)
qed

lemma inside_drop:
  assumes "inside fs0 base fs"
  shows "inside fs0 base (fmdrop (base @ r) fs)" "inside fs0 base (drop_tree (base @ r) fs)"
proof -
  have n: "\<not> at_or_below (base @ r) k" if "\<not> at_or_below base k" for k
    using that by (auto simp: at_or_below_append)
  have b: "\<not> at_or_below base (take i base)" if "i < length base" for i
    using that by (auto simp: at_or_below_def)
  have e: "at_or_below (base @ r) (base @ r)" by (simp add: at_or_below_append)
  show "inside fs0 base (drop_tree (base @ r) fs)" using assms n b unfolding inside_def sealed_def by auto
  show "inside fs0 base (fmdrop (base @ r) fs)"
    using assms n b e unfolding inside_def sealed_def by (metis (no_types, lifting) fmlookup_drop option.distinct(1))
qed

lemma keeps_on_node:
  assumes "list_all proper_name r" "\<And>fs n. inside fs0 base fs \<Longrightarrow> n = fmlookup fs (base @ r) \<Longrightarrow> inside fs0 base (snd (f (base @ r) n fs))"
  shows "keeps (inside fs0 base) (on_node follow (base @ r) f)"
proof (rule keepsI)
  fix fs assume a: "inside fs0 base fs"
  show "inside fs0 base (snd (on_node follow (base @ r) f fs))"
  proof (cases "resolve fs follow (base @ r)")
    case (Inr q)
    then have "q = base @ r" by (rule resolve_inside [OF a assms(1)])
    then show ?thesis using Inr assms(2) [OF a refl] by (simp add: on_node_def)
  qed (simp add: on_node_def a)
qed

lemma keeps_unlink: "list_all proper_name r \<Longrightarrow> keeps (inside fs0 base) (fs_unlink (base @ r))"
  unfolding fs_unlink_def by (rule keeps_on_node) (auto simp: inside_drop split: option.splits)

lemma inside_base: "inside fs0 base fs \<Longrightarrow> base \<noteq> []"
  by (simp add: inside_def sealed_def)

lemma keeps_rmtree: "list_all proper_name r \<Longrightarrow> keeps (inside fs0 base) (rmtree (base @ r))"
  unfolding rmtree_def by (rule keeps_on_node) (use inside_drop inside_base in auto)

lemma keeps_mkdir: "list_all proper_name r \<Longrightarrow> keeps (inside fs0 base) (fs_mkdir new (base @ r))"
  unfolding fs_mkdir_def by (rule keeps_on_node) (auto simp: inside_upd split: option.splits)

lemma keeps_mkdir_ok: "list_all proper_name r \<Longrightarrow> keeps (inside fs0 base) (mkdir_ok new (base @ r))"
  using keepsD [OF keeps_mkdir [of r fs0 base new]]
  by (intro keepsI) (auto simp: mkdir_ok_def split: prod.splits sum.splits, (metis snd_conv)+)

lemma keeps_write: "list_all proper_name r \<Longrightarrow> keeps (inside fs0 base) (write_file new (base @ r) d)"
  unfolding write_file_def by (rule keeps_on_node) (auto simp: inside_upd split: option.splits fnode.splits)

lemma keeps_chmod:
  assumes "list_all proper_name r"
  shows "keeps (inside fs0 base) (fs_chmod m (base @ r))"
  unfolding fs_chmod_def
proof (rule keeps_on_node [OF assms])
  fix fs n assume a: "inside fs0 base fs" "n = fmlookup fs (base @ r)"
  have "\<not> is_flink n"
    using sealed_no_link [of base fs "length (base @ r)" r] a by (simp add: inside_def)
  then have "\<not> is_flink (Some (set_mode m x))" if "n = Some x" for x
    using that by (cases x) (auto simp: set_mode_def)
  then show "inside fs0 base (snd (case n of None \<Rightarrow> (Inl (FileNotFoundError (rel_text (base @ r))), fs)
      | Some x \<Rightarrow> (Inr (), fmupd (base @ r) (set_mode m x) fs)))"
    using a inside_upd [OF a(1) assms] by (auto split: option.splits)
qed

lemma keeps_remove: "list_all proper_name r \<Longrightarrow> keeps (inside fs0 base) (remove_path (base @ r))"
  using keepsD [OF keeps_unlink] keepsD [OF keeps_rmtree] by (intro keepsI) (simp add: remove_path_def)

lemma keeps_if: "(c \<Longrightarrow> keeps P m) \<Longrightarrow> (\<not> c \<Longrightarrow> keeps P n) \<Longrightarrow> keeps P (if c then m else n)"
  by simp

lemma keeps_cond: "keeps P m \<Longrightarrow> keeps P (\<lambda>s. if c s then m s else (Inr (), s))"
  by (simp add: keeps_def)

lemma keeps_aeach: "(\<And>x. x \<in> set xs \<Longrightarrow> keeps P (f x)) \<Longrightarrow> keeps P (aeach f xs)"
  by (induction xs) (auto intro: keeps_bind)

lemma keeps_makedirs:
  assumes "list_all proper_name r"
  shows "keeps (inside fs0 base) (makedirs new (base @ r))"
  using assms
proof (induction r rule: rev_induct)
  case Nil
  show ?case
  proof (rule keepsI)
    fix fs assume a: "inside fs0 base fs"
    then have s: "sealed base fs" "base \<noteq> []" by (auto simp: inside_def sealed_def)
    have anc: "is_fdir (fmlookup fs (take i base))" if "i < length base" for i using s that by (auto simp: sealed_def)
    have d: "is_fdir (fmlookup fs (butlast base))" using anc [of "length base - 1"] s(2) by (simp add: butlast_conv_take)
    have "resolve fs True (butlast base) = Inr (butlast base)"
      by (rule resolve_real) (use s d anc in \<open>auto simp: sealed_def list_all_iff in_set_butlastD take_butlast elim: is_fdirE\<close>)
    then have "path_exists fs (butlast base)" using d by (auto simp: path_exists_def stat_at_def elim: is_fdirE)
    then show "inside fs0 base (snd (makedirs new (base @ []) fs))"
      using keepsD [OF keeps_mkdir_ok [of "[]" fs0 base new] a] by (subst makedirs.simps) simp
  qed
next
  case (snoc c r)
  have "keeps (inside fs0 base) (\<lambda>fs. if path_exists fs (base @ r) then mkdir_ok new (base @ r @ [c]) fs
      else abind (makedirs new (base @ r)) (\<lambda>_. mkdir_ok new (base @ r @ [c])) fs)"
    using keepsD [OF keeps_mkdir_ok [OF snoc.prems, of fs0 base new]]
      keepsD [OF keeps_bind [OF snoc.IH keeps_mkdir_ok [OF snoc.prems, of fs0 base new]]] snoc.prems
    by (intro keepsI) simp
  moreover have "makedirs new (base @ r @ [c]) = (\<lambda>fs. if path_exists fs (base @ r) then mkdir_ok new (base @ r @ [c]) fs
      else abind (makedirs new (base @ r)) (\<lambda>_. mkdir_ok new (base @ r @ [c])) fs)"
    by (rule ext, subst makedirs.simps) (simp add: butlast_append)
  ultimately show ?case by simp
qed

lemma path_split_at:
  assumes "CHR ''/'' \<notin> set c" "h \<noteq> []" "last h \<noteq> CHR ''/''"
  shows "path_split (h @ ''/'' @ c) = (h, c)"
proof -
  have tw: "takeWhile (\<lambda>x. x \<noteq> CHR ''/'') (rev c @ ys) = rev c @ takeWhile (\<lambda>x. x \<noteq> CHR ''/'') ys" for ys
    using assms(1) by (subst takeWhile_append2) auto
  have "last h \<in> set h" using assms(2) by simp
  then have "\<not> list_all (\<lambda>x. x = CHR ''/'') h" using assms(3) unfolding list_all_iff by blast
  moreover have "rstrip_char CHR ''/'' (h @ ''/'') = h"
    using assms(2,3) by (cases h rule: rev_cases) (auto simp: rstrip_char_def)
  ultimately show ?thesis using tw [of "''/'' @ rev h"] by (simp add: path_split_def Let_def)
qed

lemma keeps_whiteout:
  assumes "safe_member i"
  shows "keeps (inside fs0 base) (apply_whiteout base i)"
proof -
  obtain p c where pc: "ti_name i = rel_text (p @ [c])" "list_all proper_name (p @ [c])"
      and c: "plain_name c \<or> c = OPAQUE_MARKER \<or> (\<exists>e. c = WHITEOUT_PREFIX @ e \<and> proper_name e)"
    using assms unfolding safe_member_def by blast
  have e: "rel_text p = [] \<longleftrightarrow> p = []" using rel_text_no_slash_end(1) [of p] pc(2) by (auto simp: rel_text_def)
  note ps = path_split_proper [OF pc(2)]
  have d: "(if rel_text p \<noteq> [] then under base (rel_text p) else base) = base @ p"
    using under_proper [of p base] pc(2) e by auto
  from c consider (plain) "plain_name c" | (opq) "c = OPAQUE_MARKER"
    | (wh) x where "c = WHITEOUT_PREFIX @ x" "proper_name x" "c \<noteq> OPAQUE_MARKER" by blast
  then show ?thesis
  proof cases
    case plain
    then show ?thesis using apply_whiteout_plain [OF pc plain] by simp
  next
    case opq
    then have ps': "path_split (ti_name i) = (rel_text p, OPAQUE_MARKER)" using ps pc(1) by simp
    show ?thesis
    proof (rule keepsI)
      fix fs assume a: "inside fs0 base fs"
      have "list_all proper_name (p @ [x])" if x: "x \<in> set (listdir fs (base @ p))" for x
      proof -
        obtain q where q: "resolve fs True (base @ p) = Inr q" "x \<in> set (entry_names fs q)"
          using x by (cases "resolve fs True (base @ p)") (auto simp: listdir_def split: if_splits)
        have qb: "q = base @ p" by (rule resolve_inside [OF a _ q(1)]) (use pc(2) in simp)
        obtain k where k: "k \<noteq> []" "butlast k = q" "last k = x" "k \<in> fset (fmdom fs)"
          using q(2) by (auto simp: entry_names_def)
        then obtain n where "fmlookup fs (base @ p @ [x]) = Some n"
          using qb append_butlast_last_id [OF k(1)] by (auto simp: fmlookup_dom_iff)
        moreover have "at_or_below base (base @ p @ [x])" by (simp add: at_or_below_append)
        ultimately have "list_all proper_name (base @ p @ [x])" using a unfolding inside_def sealed_def by blast
        then show ?thesis by simp
      qed
      then have "keeps (inside fs0 base) (aeach (\<lambda>x. remove_path ((base @ p) @ [x])) (listdir fs (base @ p)))"
        using keeps_remove by (intro keeps_aeach) simp
      then show "inside fs0 base (snd (apply_whiteout base i fs))"
        using a ps' d by (simp add: apply_whiteout_def Let_def keeps_def)
    qed
  next
    case wh
    have u: "under base (if rel_text p \<noteq> [] then path_join (rel_text p) x else x) = base @ p @ [x]"
      using path_join_proper [of p x] under_proper [of "p @ [x]" base] pc(2) wh(2) e
      by (cases "p = []") (auto simp: rel_text_def)
    have "apply_whiteout base i = remove_path (base @ p @ [x])"
    proof (rule ext)
      fix fs
      have "path_split (ti_name i) = (rel_text p, WHITEOUT_PREFIX @ x)" using ps pc(1) wh(1) by simp
      then show "apply_whiteout base i fs = remove_path (base @ p @ [x]) fs"
        using u wh(1,3) by (cases "rel_text p = []") (simp_all add: apply_whiteout_def)
    qed
    then show ?thesis using keeps_remove [of "p @ [x]" fs0 base] pc(2) wh(2) by simp
  qed
qed

lemma keeps_extract:
  assumes "list_all proper_name (p @ [c])" "ti_name i = rel_text (p @ [c])" "ti_type i \<noteq> TSym"
  shows "keeps (inside fs0 base) (tar_extract new i base)"
proof -
  have rel: "comps (lstrip_char CHR ''/'' (ti_name i)) = p @ [c]"
    using rel_text_no_slash_end(1,2) [OF assms(1)] comps_rel_text [OF assms(1)] assms(2)
    by (cases "rel_text (p @ [c])") (simp_all add: lstrip_char_def)
  have b: "butlast (base @ p @ [c]) = base @ p" by (simp add: butlast_append)
  have m: "keeps (inside fs0 base) (\<lambda>fs. if path_exists fs (base @ p) then (Inr (), fs) else makedirs new (base @ p) fs)"
    using keepsD [OF keeps_makedirs [of p fs0 base new]] assms(1) by (intro keepsI) simp
  have k: "keeps (inside fs0 base) (\<lambda>fs. case ti_type i of
            TReg \<Rightarrow> write_file new (base @ p @ [c]) (ti_data i) fs
          | TDir \<Rightarrow> mkdir_ok new (base @ p @ [c]) fs
          | TSym \<Rightarrow> abind (\<lambda>fs. if lexists fs (base @ p @ [c]) then fs_unlink (base @ p @ [c]) fs else (Inr (), fs))
                     (\<lambda>_. fs_symlink new (ti_link i) (base @ p @ [c])) fs
          | TOther \<Rightarrow> (Inl (OSError ''Operation not permitted''), fs))"
    using assms(3) keepsD [OF keeps_write [OF assms(1), of fs0 base new "ti_data i"]]
      keepsD [OF keeps_mkdir_ok [OF assms(1), of fs0 base new]]
    by (intro keepsI) (cases "ti_type i"; simp)
  show ?thesis
    using keepsD [OF keeps_bind [OF m k]] unfolding tar_extract_def rel Let_def b by (intro keepsI) simp
qed

lemma keeps_member:
  assumes "safe_member i"
  shows "keeps (inside fs0 base) (apply_member new base i)"
proof (cases "starts_with (snd (path_split (ti_name i))) WHITEOUT_PREFIX")
  case True
  then show ?thesis by (simp add: keeps_def apply_member_def)
next
  case False
  obtain p c where pc: "ti_name i = rel_text (p @ [c])" "list_all proper_name (p @ [c])" and ns: "ti_type i \<noteq> TSym"
    using assms unfolding safe_member_def by blast
  have u: "under base (ti_name i) = base @ p @ [c]" using under_proper [OF pc(2)] pc(1) by simp
  have "keeps (inside fs0 base) (abind (\<lambda>fs. if lexists fs (base @ p @ [c]) \<and> \<not> (ti_type i = TDir \<and> isdir fs (base @ p @ [c]))
                      then remove_path (base @ p @ [c]) fs else (Inr (), fs)) (\<lambda>_.
          abind (tar_extract new i base) (\<lambda>_.
          if ti_type i = TReg \<or> ti_type i = TDir then fs_chmod (ti_mode i) (base @ p @ [c]) else aret ())))"
    by (intro keeps_bind keeps_cond keeps_remove [OF pc(2)] keeps_extract [OF pc(2,1) ns] keeps_if keeps_chmod [OF pc(2)] keeps_basic)
  from keepsD [OF this] show ?thesis
    using False by (intro keepsI) (simp add: apply_member_def u Let_def)
qed

lemma extract_layer_tar:
  "extract_layer new (Gz level mt (Tar ms)) base True =
     abind (makedirs new base) (\<lambda>_. abind (aeach (apply_whiteout base) ms) (\<lambda>_. aeach (apply_member new base) ms))"
  by (rule ext) (simp add: extract_layer_def abind_def)

lemma refused_whiteout: "refused base i \<Longrightarrow> apply_whiteout base i = aret ()"
  by (rule ext) (auto simp: refused_def apply_whiteout_def OPAQUE_MARKER_def WHITEOUT_PREFIX_def starts_with_def split: prod.split)

lemma refused_member: "refused base i \<Longrightarrow> apply_member new base i = alift (Inl (ValueError (''layer escapes root: '' @ ti_name i)))"
  by (rule ext) (simp add: refused_def apply_member_def Let_def)

lemma aeach_fails: "x \<in> set xs \<Longrightarrow> (\<And>s. \<exists>e. fst (f x s) = Inl e) \<Longrightarrow> \<exists>e. fst (aeach f xs s) = Inl e"
proof (induction xs arbitrary: s)
  case (Cons y xs)
  show ?case
  proof (cases "f y s")
    case (Pair r s')
    show ?thesis
    proof (cases r)
      case (Inl e)
      with Pair show ?thesis by (simp add: abind_def)
    next
      case (Inr u)
      then have "x \<in> set xs" using Pair Cons.prems by (metis fst_conv old.sum.distinct(2) set_ConsD)
      from Cons.IH [OF this Cons.prems(2), of s'] Pair Inr show ?thesis by (simp add: abind_def)
    qed
  qed
qed simp

lemma abind_fails: "(\<And>s. \<exists>e. fst (g s) = Inl e) \<Longrightarrow> \<exists>e. fst (abind m (\<lambda>_. g) s) = Inl e"
  by (cases "m s"; cases "fst (m s)") (auto simp: abind_def)

text \<open>C25: Extraction stays inside its directory: take a directory without links, and a layer each of whose
  entries is either a plain one (no link, a relative name without dots, or a whiteout marker of
  such a name) or has a path, relative or absolute, that leads out of the directory.  Extraction
  changes nothing outside the directory, whether or not it raises; and it raises if there is an
  entry of the second kind.  Not covered, and not confined: links, markers that lead out, and names that
  lead out and back in.\<close>

theorem extraction_stays_inside:
  assumes "sealed base fs" "\<forall>i \<in> set ms. safe_member i \<or> refused base i"
  shows "(\<forall>k. \<not> at_or_below base k \<longrightarrow>
      fmlookup (snd (extract_layer new (Gz level mt (Tar ms)) base True fs)) k = fmlookup fs k)
    \<and> ((\<exists>i \<in> set ms. refused base i) \<longrightarrow> (\<exists>e. fst (extract_layer new (Gz level mt (Tar ms)) base True fs) = Inl e))"
proof (intro conjI impI)
  have "inside fs base fs" using assms(1) by (simp add: inside_def)
  moreover have "keeps (inside fs base) (apply_whiteout base i)" "keeps (inside fs base) (apply_member new base i)"
    if "i \<in> set ms" for i
    using assms(2) that keeps_whiteout keeps_member
    by (auto simp: refused_whiteout refused_member keeps_def alift_def aret_def)
  then have "keeps (inside fs base) (extract_layer new (Gz level mt (Tar ms)) base True)"
    unfolding extract_layer_tar using keeps_makedirs [of "[]" fs base new]
    by (intro keeps_bind keeps_aeach) auto
  ultimately have "inside fs base (snd (extract_layer new (Gz level mt (Tar ms)) base True fs))" by (rule keepsD [rotated])
  then show "\<forall>k. \<not> at_or_below base k \<longrightarrow>
      fmlookup (snd (extract_layer new (Gz level mt (Tar ms)) base True fs)) k = fmlookup fs k" unfolding inside_def by blast
next
  assume "\<exists>i \<in> set ms. refused base i"
  then obtain i where i: "i \<in> set ms" "refused base i" by blast
  have "\<exists>e. fst (apply_member new base i s) = Inl e" for s by (simp add: refused_member [OF i(2)] alift_def)
  then show "\<exists>e. fst (extract_layer new (Gz level mt (Tar ms)) base True fs) = Inl e"
    unfolding extract_layer_tar by (intro abind_fails aeach_fails [OF i(1)])
qed

theorem extraction_stays_inside_witness:
  "let r = extract_layer (\<lambda>_. demo_attr 0) (Gz 6 0 (Tar [new_tarinfo ''.wh.f'', new_tarinfo ''g'', new_tarinfo ''../s''])) [''r''] True
     (fmap_of_list [([], FDir (demo_attr 0)), ([''r''], FDir (demo_attr 1)), ([''s''], FFile (demo_attr 3) ''secret'')])
   in fmlookup (snd r) [''s''] = Some (FFile (demo_attr 3) ''secret'') \<and> (\<exists>e. fst r = Inl e)"
proof -
  let ?fs = "fmap_of_list [([], FDir (demo_attr 0)), ([''r''], FDir (demo_attr 1)), ([''s''], FFile (demo_attr 3) ''secret'')]"
  let ?ms = "[new_tarinfo ''.wh.f'', new_tarinfo ''g'', new_tarinfo ''../s'']"
  have k: "k = [''r'']" if "at_or_below [''r''] k" "fmlookup ?fs k = Some x" for k x
    using that by (auto simp: at_or_below_append split: if_splits)
  have "sealed [''r''] ?fs"
    unfolding sealed_def using k by (auto simp: proper_name_def)
  moreover have "\<forall>i \<in> set ?ms. safe_member i \<or> refused [''r''] i"
  proof -
    have "safe_member (new_tarinfo ''g'')"
      unfolding safe_member_def by (intro conjI exI [of _ "[]"] exI [of _ "''g''"])
        (simp_all add: new_tarinfo_def rel_text_def plain_name_def proper_name_def WHITEOUT_PREFIX_def starts_with_def)
    moreover have "safe_member (new_tarinfo ''.wh.f'')"
      unfolding safe_member_def by (intro conjI exI [of _ "[]"] exI [of _ "''.wh.f''"])
        (simp_all add: new_tarinfo_def rel_text_def proper_name_def WHITEOUT_PREFIX_def)
    moreover have "refused [''r''] (new_tarinfo ''../s'')" by code_simp
    ultimately show ?thesis by simp
  qed
  moreover have "refused [''r''] (new_tarinfo ''../s'')" by code_simp
  ultimately show ?thesis
    using extraction_stays_inside [of "[''r'']" ?fs ?ms "\<lambda>_. demo_attr 0" 6 0]
    unfolding Let_def by (auto simp: at_or_below_def)
qed

lemma walk_prefix:
  assumes "list_all proper_name p" "\<And>i. 0 < i \<Longrightarrow> i \<le> length p \<Longrightarrow> is_fdir (fmlookup fs (cur @ take i p))"
  shows "walk n fs cur (p @ r) follow = walk n fs (cur @ p) r follow"
  using assms
proof (induction p arbitrary: cur)
  case (Cons c p)
  have pn: "c \<noteq> ''..''" using Cons.prems(1) by (simp add: proper_name_def)
  obtain a where a: "fmlookup fs (cur @ [c]) = Some (FDir a)" using Cons.prems(2) [of 1] by (auto elim: is_fdirE)
  have "walk n fs (cur @ [c]) (p @ r) follow = walk n fs ((cur @ [c]) @ p) r follow"
  proof (rule Cons.IH)
    fix i :: nat assume "0 < i" "i \<le> length p"
    then show "is_fdir (fmlookup fs ((cur @ [c]) @ take i p))" using Cons.prems(2) [of "Suc i"] by simp
  qed (use Cons.prems in auto)
  then show ?case using pn a by simp
qed simp

text \<open>The whiteout pass is not confined: one entry of a layer, the marker of a path that leaves the root with
  two dots, deletes any file or tree beside the root directory, and extraction reports success.\<close>

theorem whiteout_escapes_root:
  assumes "fs_wf fs" "is_fdir (fmlookup fs (d @ [c]))" "plain_name x"
  shows "extract_layer new (Gz level mt (Tar [new_tarinfo (''../.wh.'' @ x)])) (d @ [c]) True fs
    = (Inr (), drop_tree (d @ [x]) fs)"
proof -
  let ?b = "d @ [c]"
  obtain a where a: "fmlookup fs ?b = Some (FDir a)" using assms(2) by (rule is_fdirE)
  note nd = fs_wf_nodeD [OF assms(1) a]
  have dd: "is_fdir (fmlookup fs d)" using nd(2) [of "length d"] by simp
  have x: "proper_name x" using assms(3) by (simp add: plain_name_def)
  have anc: "is_fdir (fmlookup fs ([] @ take i ?b))" if "i \<le> length ?b" for i
    using nd(2) [of i] assms(2) that by (cases "i = length ?b") (auto simp del: take_append length_append)
  have same: "resolve fs f (?b @ [''..'', x]) = resolve fs f (d @ [x])" for f
  proof -
    have "walk 40 fs [] (?b @ [''..'', x]) f = walk 40 fs ?b [''..'', x] f"
      using walk_prefix [OF nd(1), of fs "[]"] anc by simp
    also have "\<dots> = walk 40 fs d [x] f" by simp
    also have "\<dots> = walk 40 fs [] (d @ [x]) f"
    proof -
      have "is_fdir (fmlookup fs ([] @ take i d))" if "i \<le> length d" for i using anc [of i] that by simp
      then show ?thesis using walk_prefix [of d fs "[]"] nd(1) by simp
    qed
    finally show ?thesis by (simp add: resolve_def)
  qed
  have st: "stat_at fs f (?b @ [''..'', x]) = stat_at fs f (d @ [x])" for f by (simp only: stat_at_def same)
  have "remove_path (?b @ [''..'', x]) fs = remove_path (d @ [x]) fs"
  proof (cases "lexists fs (d @ [x])")
    case True
    then obtain n where "stat_at fs False (d @ [x]) = Some n" by (auto simp: lexists_def)
    then obtain q where "resolve fs False (d @ [x]) = Inr q" "fmlookup fs q = Some n"
      by (auto simp: stat_at_def split: sum.splits)
    then show ?thesis
      unfolding remove_path_def lexists_def isdir_def islink_def rmtree_def fs_unlink_def on_node_def st same by simp
  next
    case False
    then show ?thesis unfolding remove_path_def lexists_def st by simp
  qed
  also have "\<dots> = (Inr (), drop_tree (d @ [x]) fs)"
    by (rule remove_clear [OF assms(1)]) (use clear_parent(1) [OF assms(1) dd x] in auto)
  finally have rm: "remove_path (?b @ [''..'', x]) fs = (Inr (), drop_tree (d @ [x]) fs)" .
  have ps: "path_split (''../.wh.'' @ x) = (''..'', ''.wh.'' @ x)"
    using path_split_at [of "''.wh.'' @ x" "''..''"] x by (simp add: proper_name_def)
  have no: "''.wh.'' @ x \<noteq> OPAQUE_MARKER"
    using assms(3) by (auto simp: plain_name_def OPAQUE_MARKER_def WHITEOUT_PREFIX_def starts_with_def)
  have j: "path_join ''..'' x = ''../'' @ x"
    using x by (cases x) (auto simp: path_join_def starts_with_def ends_with_def proper_name_def)
  have cm: "comps (''../'' @ x) = [''..'', x]"
  proof -
    have "split_char CHR ''/'' (''..'' @ CHR ''/'' # x) = ''..'' # split_char CHR ''/'' x"
      by (rule split_char_append) simp
    then show ?thesis using x split_char_notin [of "CHR ''/''" x] by (simp add: comps_def proper_name_def)
  qed
  have u: "under ?b (''../'' @ x) = ?b @ [''..'', x]" using cm by (simp add: under_def starts_with_def)
  have "apply_whiteout ?b (new_tarinfo (''../.wh.'' @ x)) fs = (Inr (), drop_tree (d @ [x]) fs)"
    using ps no j u rm by (simp add: apply_whiteout_def new_tarinfo_def WHITEOUT_PREFIX_def starts_with_def)
  moreover have "apply_member new ?b (new_tarinfo (''../.wh.'' @ x)) = aret ()"
    using ps by (intro ext) (simp add: apply_member_def new_tarinfo_def WHITEOUT_PREFIX_def starts_with_def)
  ultimately show ?thesis
    unfolding extract_layer_tar using makedirs_dir [OF assms(1,2)] by (simp add: abind_def)
qed

definition demo_secret_tree :: "(path \<times> fnode) list" where
  "demo_secret_tree = [([], FDir (demo_attr 0)), ([''r''], FDir (demo_attr 1)), ([''s''], FFile (demo_attr 3) ''secret'')]"

theorem whiteout_escapes_root_witness:
  "fmlookup (snd (extract_layer (\<lambda>_. demo_attr 0) (Gz 6 0 (Tar [new_tarinfo (''../.wh.'' @ ''s'')])) ([] @ [''r'']) True
     (fmap_of_list demo_secret_tree))) [''s''] = None \<and> fmlookup (fmap_of_list demo_secret_tree) [''s''] \<noteq> None"
proof -
  have "fs_wf (fmap_of_list demo_secret_tree)" by (rule fs_wf_of_list) code_simp
  moreover have "is_fdir (fmlookup (fmap_of_list demo_secret_tree) ([] @ [''r'']))" by code_simp
  moreover have "plain_name ''s''" by code_simp
  ultimately show ?thesis
    by (simp only: whiteout_escapes_root) (simp add: at_or_below_def demo_secret_tree_def)
qed

text \<open>A link member opens the way out: a layer that first adds a link and then a file below it is refused
  by the archive library, but only after the file of that name where the link points to was deleted
  from the host.\<close>

definition demo_link_tree :: "(path \<times> fnode) list" where
  "demo_link_tree = [([], FDir (demo_attr 0)), ([''r''], FDir (demo_attr 1)), ([''etc''], FDir (demo_attr 0)),
     ([''etc'', ''passwd''], FFile (demo_attr 0) ''root'')]"

definition demo_link_layer :: blob where
  "demo_link_layer = Gz 6 0 (Tar [(new_tarinfo ''a'')\<lparr>ti_type := TSym, ti_link := ''/etc''\<rparr>, new_tarinfo ''a/passwd''])"

theorem link_member_deletes_outside:
  "fst (extract_layer (\<lambda>_. demo_attr 0) demo_link_layer [''r''] True (fmap_of_list demo_link_tree))
     = Inl (TarError ''outside the destination'')
   \<and> fmlookup (fmap_of_list demo_link_tree) [''etc'', ''passwd''] \<noteq> None
   \<and> fmlookup (snd (extract_layer (\<lambda>_. demo_attr 0) demo_link_layer [''r''] True (fmap_of_list demo_link_tree)))
       [''etc'', ''passwd''] = None"
  by code_simp

text \<open>An entry whose name leads out of the directory and back in passes both checks, which look at the whole path:
  the directories on the way are created, one of them outside.\<close>

theorem dotdot_member_creates_outside:
  "let fs = fmap_of_list (take 2 demo_link_tree);
       r = extract_layer (\<lambda>_. demo_attr 0) (Gz 6 0 (Tar [new_tarinfo ''x/../../q/../r/f''])) [''r''] True fs
   in fst r = Inr () \<and> fmlookup fs [''q''] = None \<and> is_fdir (fmlookup (snd r) [''q'']) \<and> fmlookup (snd r) [''r'', ''f''] \<noteq> None"
  by code_simp

text \<open>The difference between two trees is not replayed where a link to a directory becomes a directory:
  the link stays, and the new entry appears in the directory it points to.\<close>

definition demo_before_tree :: "(path \<times> fnode) list" where
  "demo_before_tree = [([], FDir (demo_attr 0)), ([''r''], FDir (demo_attr 1)), ([''r'', ''b''], FDir (demo_attr 1)),
     ([''r'', ''a''], FLink (demo_attr 1) ''b'')]"

definition demo_after_tree :: "(path \<times> fnode) list" where
  "demo_after_tree = [([], FDir (demo_attr 0)), ([''r''], FDir (demo_attr 1)), ([''r'', ''b''], FDir (demo_attr 1)),
     ([''r'', ''a''], FDir (demo_attr 1)), ([''r'', ''a'', ''f''], FFile (demo_attr 1) ''x'')]"

theorem link_becoming_dir_not_replayed:
  "case write_tar (\<lambda>_. []) (fmap_of_list demo_after_tree) [(''a'', [''r'', ''a'']), (''a/f'', [''r'', ''a'', ''f''])] [] 0 of
     Inl e \<Rightarrow> False
   | Inr tar \<Rightarrow> (case extract_layer (\<lambda>_. demo_attr 0) (Gz 6 0 tar) [''r''] True (fmap_of_list demo_before_tree) of
       (r, fs) \<Rightarrow> r = Inr () \<and> is_flink (fmlookup fs [''r'', ''a'']) \<and> fmlookup fs [''r'', ''a'', ''f''] = None
         \<and> fmlookup fs [''r'', ''b'', ''f''] \<noteq> None)"
  by code_simp

end
