(* ===== verification/Container_Overlay.thy ===== *)
theory Container_Overlay
  imports Container_Unpack_Props Image_Layer_Safety
begin

text \<open>
  The runtime's use of an image: after \<open>LayerCache.ensure\<close> the stack of layer directories shows, through
  overlayfs, the tree the image was built from; exactly which layers can be unpacked; and a whiteout
  that leaves the layer's directory.
\<close>

section \<open>Which layers can be unpacked\<close>

text \<open>C32: Which layers the runtime can unpack: the layer of a difference is unpacked into a fresh directory if and
  only if everything that disappeared, disappeared from directories that are still there; when a
  directory was removed with its contents, or replaced by a file, the translation of the whiteouts
  below it fails.\<close>

theorem unpackable_iff_parents_kept:
  assumes "fs_wf before" "fs_wf after" "no_markers before base" "no_markers after base"
    and "diff_layer_of before after base changed removed" "distinct removed"
    and "\<forall>p \<in> set removed. \<not> is_flink (fmlookup after (base @ butlast p))"
    and "write_tar who after (map (\<lambda>p. (rel_text p, base @ p)) changed) (map rel_text removed) mtime = Inr tar"
    and "fs_wf fs" "dest \<noteq> []" "is_fdir (fmlookup fs dest)" "\<forall>q. q \<noteq> [] \<longrightarrow> fmlookup fs (dest @ q) = None"
  shows "fst (unpack_layer new True (Gz level mt tar) dest fs) =
    (if parents_kept after base removed
     then Inr \<lparr>uc_files = length changed, uc_whiteouts = length removed, uc_opaque = 0\<rparr> else Inl (OSError ''File exists''))"
proof (cases "parents_kept after base removed")
  case True
  have e: "fmlookup fs (dest @ q) = None" if "q \<noteq> []" for q using assms(12) that by blast
  from unpack_diff [OF assms(1-6) True assms(8-11) e, of new level mt] True show ?thesis by fastforce
next
  case False
  have e: "fmlookup fs (dest @ q) = None" if "q \<noteq> []" for q using assms(12) that by blast
  from unpack_blocked [OF assms(1-6) False assms(7-11) e, of new level mt] False show ?thesis by fastforce
qed

definition demo_dir_tree :: "(path \<times> fnode) list" where
  "demo_dir_tree = [([], FDir (demo_attr 0)), ([''x''], FDir (demo_attr 1)), ([''x'', ''d''], FDir (demo_attr 1)),
     ([''x'', ''d'', ''f''], FFile (demo_attr 1) ''data'')]"

theorem unpackable_iff_parents_kept_witness:
  "fst (unpack_layer (\<lambda>_. demo_attr 9) True (Gz 6 0 (Tar (map (whiteout_marker 0) [''d'', ''d/f'']))) [''x'']
     (fmap_of_list (take 2 demo_dir_tree))) = Inl (OSError ''File exists'')"
proof -
  let ?before = "fmap_of_list demo_dir_tree" and ?after = "fmap_of_list (take 2 demo_dir_tree)"
  have b: "p = [''d''] \<or> p = [''d'', ''f'']" if "p \<noteq> []" "fmlookup ?before ([''x''] @ p) = Some n" for p n
    using that by (auto simp: demo_dir_tree_def split: if_splits)
  have a: "fmlookup ?after ([''x''] @ p) = None" if "p \<noteq> []" for p using that by (simp add: demo_dir_tree_def)
  have bb: "fmlookup ?before ([''x''] @ [''d'']) = Some (FDir (demo_attr 1))"
    "fmlookup ?before ([''x''] @ [''d'', ''f'']) = Some (FFile (demo_attr 1) ''data'')"
    by (simp_all add: demo_dir_tree_def)
  have wf: "fs_wf ?before" "fs_wf ?after" by (rule fs_wf_of_list, code_simp)+
  have pl: "plain_name ''d''" "plain_name ''f''" by code_simp+
  have nm: "no_markers ?before [''x'']" "no_markers ?after [''x'']"
    unfolding no_markers_def using a b bb pl by fastforce+
  have dl: "diff_layer_of ?before ?after [''x''] [] [[''d''], [''d'', ''f'']]"
    by (rule diff_layer_ofI) (use a b bb in auto)
  have wt: "write_tar (\<lambda>_. []) ?after (map (\<lambda>p. (rel_text p, [''x''] @ p)) []) (map rel_text [[''d''], [''d'', ''f'']]) 0
      = Inr (Tar (map (whiteout_marker 0) [''d'', ''d/f'']))"
    by (simp add: write_tar_def rel_text_def)
  have pk: "\<not> parents_kept ?after [''x''] [[''d''], [''d'', ''f'']]"
    using a [of "[''d'']"] by (simp add: parents_kept_def)
  have d: "is_fdir (fmlookup ?after [''x''])" by (simp add: demo_dir_tree_def)
  have nl: "\<forall>p \<in> set [[''d''], [''d'', ''f'']]. \<not> is_flink (fmlookup ?after ([''x''] @ butlast p))"
    using a [of "[''d'']"] d by (auto elim: is_fdirE)
  from unpackable_iff_parents_kept [OF wf nm dl _ nl wt wf(2) _ d, of "\<lambda>_. demo_attr 9" 6 0] a pk
  show ?thesis by (simp del: append.simps add: append_Cons [symmetric])
qed

section \<open>The image through overlayfs\<close>

text \<open>A lookup that meets the rules: component by component, through the layers that contribute to each merged
  directory.  It stands for the kernel in the concrete runs below.\<close>

fun dir_run :: "path \<Rightarrow> tree_view list \<Rightarrow> tree_view list" where
  \<comment> \<open>the layers that contribute to a merged directory, the uppermost first\<close>
  "dir_run p [] = []"
| "dir_run p (v # vs) =
     (case v p of
        None \<Rightarrow> dir_run p vs
      | Some (FDir a) \<Rightarrow> v # (if fa_opaque a then [] else dir_run p vs)
      | Some _ \<Rightarrow> [])"

fun entry_of_stack :: "path \<Rightarrow> tree_view list \<Rightarrow> fnode option" where
  \<comment> \<open>the entry of the uppermost layer that has one; a whiteout hides it\<close>
  "entry_of_stack p [] = None"
| "entry_of_stack p (v # vs) =
     (case v p of None \<Rightarrow> entry_of_stack p vs | Some (FDev a) \<Rightarrow> None | Some n \<Rightarrow> Some n)"

fun overlay_from :: "path \<Rightarrow> tree_view list \<Rightarrow> path \<Rightarrow> fnode option" where
  "overlay_from pre vs [] = entry_of_stack pre vs"
| "overlay_from pre vs [c] = entry_of_stack (pre @ [c]) vs"
| "overlay_from pre vs (c # cs) = overlay_from (pre @ [c]) (dir_run (pre @ [c]) vs) cs"

definition overlay_at :: "tree_view list \<Rightarrow> path \<Rightarrow> fnode option" where
  \<comment> \<open>the merged view of a stack of directories, the uppermost first\<close>
  "overlay_at vs p = overlay_from [] vs p"

lemma overlay_none: "overlay_from pre [] cs = None"
proof (induction cs arbitrary: pre)
  case (Cons c cs)
  then show ?case by (cases cs) auto
qed simp

lemma hides_below_Cons: "hides_below v (c # cs) \<longleftrightarrow> cs \<noteq> [] \<and> (shuts_off (v [c]) \<or> hides_below (\<lambda>q. v (c # q)) cs)"
proof -
  have "(\<exists>i. 0 < i \<and> i < length (c # cs) \<and> P i) \<longleftrightarrow> cs \<noteq> [] \<and> (P 1 \<or> (\<exists>i. 0 < i \<and> i < length cs \<and> P (Suc i)))" for P
    by (auto simp: gr0_conv_Suc length_Suc_conv) (metis Suc_less_eq gr0_conv_Suc not_gr0)+
  from this [of "\<lambda>i. shuts_off (v (take i (c # cs)))"] show ?thesis by (simp add: hides_below_def)
qed

lemma overlay_cons:
  assumes "dir_tree v"
  shows "cs \<noteq> [] \<Longrightarrow> overlay_from pre (v # vs) cs =
    (case v (pre @ cs) of Some (FDev a) \<Rightarrow> None | Some n \<Rightarrow> Some n
     | None \<Rightarrow> if hides_below (\<lambda>q. v (pre @ q)) cs then None else overlay_from pre vs cs)"
proof (induction cs arbitrary: pre vs)
  case (Cons c cs)
  show ?case
  proof (cases cs)
    case Nil
    then show ?thesis by (auto simp: hides_below_Cons split: option.splits fnode.splits)
  next
    case C: (Cons d ds)
    have IH: "overlay_from (pre @ [c]) (v # ws) cs = (case v (pre @ c # cs) of Some (FDev a) \<Rightarrow> None | Some n \<Rightarrow> Some n
       | None \<Rightarrow> if hides_below (\<lambda>q. v (pre @ c # q)) cs then None else overlay_from (pre @ [c]) ws cs)" for ws
      using Cons.IH [of "pre @ [c]" ws] C by simp
    have e: "overlay_from pre ws (c # cs) = overlay_from (pre @ [c]) (dir_run (pre @ [c]) ws) cs" for ws by (simp add: C)
    have hc: "hides_below (\<lambda>q. v (pre @ q)) (c # cs)
        \<longleftrightarrow> shuts_off (v (pre @ [c])) \<or> hides_below (\<lambda>q. v (pre @ c # q)) cs"
      unfolding hides_below_Cons [of _ c cs] using C by simp
    consider "v (pre @ [c]) = None" | b where "v (pre @ [c]) = Some (FDir b)" "\<not> fa_opaque b"
      | b where "v (pre @ [c]) = Some (FDir b)" "fa_opaque b"
      | "v (pre @ [c]) \<noteq> None" "\<not> is_fdir (v (pre @ [c]))"
      by (cases "v (pre @ [c])" rule: is_fdir.cases) auto
    then show ?thesis
    proof cases
      case 1
      then have n: "v (pre @ c # r) = None" for r
        using dir_tree_below [OF assms, of "pre @ [c]" r] by (cases "r = []"; cases "v (pre @ c # r)") auto
      then have "\<not> hides_below (\<lambda>q. v (pre @ c # q)) cs" by (simp add: hides_below_def)
      then show ?thesis unfolding e hc using 1 n by simp
    next
      case 2
      then show ?thesis unfolding e hc by (simp add: IH)
    next
      case 3
      then show ?thesis unfolding e hc by (simp add: IH overlay_none split: option.split fnode.split)
    next
      case 4
      then have "v (pre @ c # cs) = None" using dir_tree_below [OF assms, of "pre @ [c]" cs] C by fastforce
      moreover have "dir_run (pre @ [c]) (v # vs) = []" "shuts_off (v (pre @ [c]))"
        using 4 by (cases "v (pre @ [c])" rule: shuts_off.cases; simp)+
      ultimately show ?thesis unfolding e hc by (simp add: overlay_none del: dir_run.simps)
    qed
  qed
qed simp

lemma overlay_rules_at: "overlay_rules overlay_at"
  unfolding overlay_rules_def overlay_at_def
  using overlay_cons [where pre = "[]"] by (auto simp: overlay_none)

text \<open>C31: The container sees the image that was built: when the layers of an image are the successive differences
  of a sequence of trees and none of them is in the cache, preparing it succeeds, returns the layer
  directories bottom first, and the stack of these directories, uppermost first as the mount options
  list them, shows through overlayfs the last tree of the sequence - the one the image toolkit's own
  extraction gives.  The layers are those of \<open>unpack_chain\<close>: whatever disappears between two trees
  disappears from a directory that is still there - a layer that removes a directory with its
  contents does not satisfy this, and the runtime cannot unpack it (lemma \<open>unpack_blocked\<close>) -; no entry is a device or has the name of a whiteout marker; and
  each is packed with gzip.  Overlayfs is the kernel's: any lookup that follows its documented rules.\<close>

theorem runtime_shows_image:
  assumes "overlay_rules merged" and "layer_digests im = Inr digests" "digests \<noteq> []" "list_all2 (\<lambda>dg b. read_blob st dg = Inr b) digests bs"
    and "unpack_chain who base before ts bs" "fs_wf before" "\<forall>p. p \<noteq> [] \<longrightarrow> fmlookup before (base @ p) = None"
    and "hh_unshare h = Inr ()" "hh_maps h = Inr ()" "hh_private h = Inr ()" "hh_may_mknod h" "\<not> fa_opaque (hh_new h True)"
    and "lc_root lc = CHR ''/'' # rel_text cdir" "cdir \<noteq> []" "fs_wf fs" "is_fdir (fmlookup fs cdir)"
    and "\<forall>dg \<in> set digests. digest_name dg \<and> place_free fs cdir dg" "distinct (map cache_name digests)"
  shows "\<exists>lc' fs'. cache_ensure h st im (lc, fs) = (Inr (map (path_for lc) digests), (lc', fs')) \<and> lc_unpacked lc' = digests
    \<and> (\<forall>p. p \<noteq> [] \<longrightarrow> rel_option same_content (merged (rev (map (layer_view lc fs') digests)) p)
          (fmlookup (last (before # ts)) (base @ p)))"
proof -
  obtain r where r: "fmlookup fs cdir = Some (FDir r)" using assms(16) by (rule is_fdirE)
  have cn: "list_all proper_name cdir" by (rule fs_wf_nodeD(1) [OF assms(15) r])
  have md: "makedirs (hh_new h) (comps (lc_root lc)) fs = (Inr (), fs)"
    using makedirs_dir [OF assms(15,16)] comps_absolute [OF cn] by (simp add: assms(13))
  have nr: "\<not> layer_ready lc fs d" if "d \<in> set digests" for d
    using ready_of_marker(2) [OF assms(15,13,14) _ assms(16)] assms(17) that by (simp add: place_free_def)
  define lc1 where "lc1 = lc\<lparr>lc_reused := []\<rparr>"
  have pf: "path_for lc1 = path_for lc" "lc_root lc1 = lc_root lc" by (simp_all add: fun_eq_iff path_for_def lc1_def)
  have lr: "layer_ready (lc1\<lparr>lc_unpacked := ds\<rparr>) = layer_ready lc1" for ds
    by (simp add: fun_eq_iff layer_ready_def marker_for_def path_for_def)
  have lv: "layer_view lc1 = layer_view lc" by (simp add: fun_eq_iff layer_view_def pf)
  have lp: "path_for (lc1\<lparr>lc_unpacked := ds\<rparr>) = path_for lc" for ds by (simp add: fun_eq_iff path_for_def lc1_def)
  have nm: "no_markers before base" unfolding no_markers_def using assms(7) by auto
  have "merged [] p = None" for p by (rule overlay_rulesD(1) [OF assms(1)])
  then have vs: "rel_option same_content (merged [] p) (fmlookup before (base @ p))" if "p \<noteq> []" for p
    using assms(7) that by simp
  obtain g where g: "aeach (unpack_one (hh_new h) True st lc1) digests fs = (Inr (), g)"
    "\<forall>dg \<in> set digests. layer_ready lc1 g dg"
    "\<forall>p. p \<noteq> [] \<longrightarrow> rel_option same_content (merged (rev (map (layer_view lc1 g) digests) @ []) p)
          (fmlookup (last (before # ts)) (base @ p))"
    using unpack_all [of who base before ts bs st digests lc1 cdir fs "hh_new h" merged "[]", OF assms(5,4) _ assms(14-18,6) nm assms(12,1) vs]
      assms(13) pf(2) by auto
  have miss: "filter (\<lambda>d. \<not> layer_ready lc fs d) digests = digests" using nr by simp
  have reuse: "filter (\<lambda>d. d \<notin> set digests) digests = []" by simp
  have rh: "run_helper h st (Unpack lc1 digests) fs = (Inr (), g)"
    using g(1) assms(8-11) by (simp add: run_helper_def helper_main_def helper_operation_def abind_def alift_def)
  have fn: "find (\<lambda>d. \<not> layer_ready (lc1\<lparr>lc_unpacked := digests\<rparr>) g d) digests = None"
    using g(2) by (simp add: find_None_iff lr)
  have "cache_ensure h st im (lc, fs) = (Inr (map (path_for lc) digests), (lc1\<lparr>lc_unpacked := digests\<rparr>, g))"
    unfolding cache_ensure_def Let_def prod.case md sum.case assms(2) miss reuse lc1_def [symmetric]
    using rh fn assms(3) by (simp add: lowerdirs_def lp)
  then show ?thesis using g(3) by (intro exI [of _ "lc1\<lparr>lc_unpacked := digests\<rparr>"] exI [of _ g]) (simp add: lv)
qed

definition demo_mc_image :: mc_image where
  "demo_mc_image = \<lparr>mi_reference = ''app'', mi_manifest = JObj (fmap_of_list [(''layers'',
     JList [JObj (fmap_of_list [(''digest'', JStr (digest_of demo_sha demo_gz))])])]), mi_config = JNull\<rparr>"

definition demo_helper :: helper_host where
  "demo_helper = \<lparr>hh_unshare = Inr (), hh_maps = Inr (), hh_private = Inr (), hh_may_mknod = True,
     hh_new = (\<lambda>_. demo_attr 9), hh_show = (\<lambda>_. [])\<rparr>"

definition demo_cache :: layer_cache where
  "demo_cache = \<lparr>lc_root = ''/c'', lc_unpacked = [], lc_reused = []\<rparr>"

theorem runtime_shows_image_witness:
  "\<exists>lc' fs'. cache_ensure demo_helper demo_gz_store demo_mc_image (demo_cache, fmap_of_list [([], FDir (demo_attr 0)), ([''c''], FDir (demo_attr 0))])
      = (Inr [path_for demo_cache (digest_of demo_sha demo_gz)], (lc', fs'))
    \<and> rel_option same_content (overlay_at [layer_view demo_cache fs' (digest_of demo_sha demo_gz)] [''f'']) (Some (FFile (demo_attr 1) ''data''))"
proof -
  let ?after = "fmap_of_list [([], FDir (demo_attr 0)), ([''x''], FDir (demo_attr 1)), ([''x'', ''f''], FFile (demo_attr 1) ''data'')]"
  let ?before = "fmap_of_list (take 1 demo_tree)"
  let ?fs = "fmap_of_list [([], FDir (demo_attr 0)), ([''c''], FDir (demo_attr 0))]"
  let ?dg = "digest_of demo_sha demo_gz"
  have g: "get_blob demo_sha demo_gz_store ?dg = Inr demo_gz"
    by (simp add: get_blob_def blob_path_of demo_gz_store_def demo_gz_def fmlookup_of_list)
  have dom: "p = [''f'']" if "p \<noteq> []" "fmlookup ?after ([''x''] @ p) = Some n" for p n
    using that by (auto simp: fmlookup_of_list split: if_splits)
  have nb: "fmlookup ?before ([''x''] @ p) = None" for p by (simp add: demo_tree_def)
  have wa: "fs_wf ?after" "fs_wf ?before" "fs_wf ?fs" by (rule fs_wf_of_list, code_simp)+
  have wt: "write_tar (\<lambda>_. []) ?after (map (\<lambda>p. (rel_text p, [''x''] @ p)) [[''f'']]) (map rel_text []) 0
      = Inr (Tar [info_of (\<lambda>_. []) 0 [''f''] (FFile (demo_attr 1) ''data'')])"
    using write_tar_members [OF wa(1), of "[[''f'']]" "[''x'']" "\<lambda>_. []" "[]" 0] by (simp add: fmlookup_of_list)
  have dl: "diff_layer_of ?before ?after [''x''] [[''f'']] []"
    by (rule diff_layer_ofI) (use dom nb in \<open>auto simp: fmlookup_of_list\<close>)
  have nm: "no_markers ?after [''x'']"
    unfolding no_markers_def using dom
    by (auto simp: fmlookup_of_list plain_name_def proper_name_def WHITEOUT_PREFIX_def starts_with_def)
  have "parents_kept ?after [''x''] []" by (simp add: parents_kept_def)
  then have ch: "unpack_chain (\<lambda>_. []) [''x''] ?before [?after] [demo_gz]"
    unfolding demo_gz_def by (rule unpack_chainI [OF dl _ _ wt wa(1) nm, rotated]) simp_all
  have ld: "layer_digests demo_mc_image = Inr [?dg]"
    by (simp add: layer_digests_def demo_mc_image_def jitem_def jstr_def)
  have rb: "list_all2 (\<lambda>dg b. read_blob demo_gz_store dg = Inr b) [?dg] [demo_gz]" using read_blob_of_get [OF g] by simp
  have ok: "\<forall>dg \<in> set [?dg]. digest_name dg \<and> place_free ?fs [''c''] dg"
    by (auto simp: digest_name_def place_free_def digest_of_def demo_gz_def demo_key_def)
  have rt: "lc_root demo_cache = CHR ''/'' # rel_text [''c'']" "is_fdir (fmlookup ?fs [''c''])"
    by (simp_all add: demo_cache_def rel_text_def)
  have hh: "hh_unshare demo_helper = Inr ()" "hh_maps demo_helper = Inr ()" "hh_private demo_helper = Inr ()"
    "hh_may_mknod demo_helper" "\<not> fa_opaque (hh_new demo_helper True)" by (simp_all add: demo_helper_def demo_attr_def)
  have nb': "\<forall>p. p \<noteq> [] \<longrightarrow> fmlookup ?before ([''x''] @ p) = None" using nb by blast
  from runtime_shows_image [OF overlay_rules_at ld _ rb ch wa(2) nb' hh rt(1) _ wa(3) rt(2) ok]
  obtain lc' fs' where r: "cache_ensure demo_helper demo_gz_store demo_mc_image (demo_cache, ?fs) = (Inr (map (path_for demo_cache) [?dg]), (lc', fs'))"
    "\<forall>p. p \<noteq> [] \<longrightarrow> rel_option same_content (overlay_at (rev (map (layer_view demo_cache fs') [?dg])) p)
        (fmlookup (last [?before, ?after]) ([''x''] @ p))" by auto
  from r(2) have "rel_option same_content (overlay_at [layer_view demo_cache fs' ?dg] [''f'']) (fmlookup ?after [''x'', ''f''])"
    by (auto dest: spec [of _ "[''f'']"])
  then show ?thesis using r(1) by (intro exI [of _ lc'] exI [of _ fs']) simp
qed

section \<open>A whiteout through a link\<close>

definition demo_unpack_tree :: "(path \<times> fnode) list" where
  "demo_unpack_tree = [([], FDir (demo_attr 0)), ([''w''], FDir (demo_attr 1)), ([''home''], FDir (demo_attr 0)),
     ([''home'', ''key''], FFile (demo_attr 0) ''secret'')]"

definition demo_link_layer :: blob where
  "demo_link_layer = Tar [(new_tarinfo ''a'')\<lparr>ti_type := TSym, ti_link := ''/home''\<rparr>, new_tarinfo ''a/.wh.key'']"

text \<open>A layer with a link and a whiteout below it replaces a file of the host, wherever the link points, by a
  whiteout device, and is counted as unpacked.\<close>

theorem whiteout_through_link:
  "case unpack_layer (\<lambda>_. demo_attr 0) True demo_link_layer [''w''] (fmap_of_list demo_unpack_tree) of
     (r, fs) \<Rightarrow> r = Inr \<lparr>uc_files = 1, uc_whiteouts = 1, uc_opaque = 0\<rparr>
       \<and> fmlookup fs [''home'', ''key''] = Some (whiteout_node (\<lambda>_. demo_attr 0))"
  by code_simp

end
