(* ===== verification/Net_Link.thy ===== *)
theory Net_Link
  imports Py_Text "HOL-Library.Word"
begin

text \<open>
  The rtnetlink client of the container runtime,
  \<open>modules/container-runtime/minicon/netlink.py\<close>: attributes (type-length-value with padding),
  messages, the request/acknowledgement loop and the operations on links, addresses and routes.
  Native byte order is little endian.  A socket is the list of datagrams the kernel will deliver
  and the list of those sent to it; a call that would block for ever, or that loops for ever, is
  \<open>None\<close>.  Names are ASCII.
\<close>

unbundle bit_operations_syntax

section \<open>Integers in native byte order\<close>

type_synonym bytes = "8 word list"

fun le_enc :: "nat \<Rightarrow> nat \<Rightarrow> bytes" where
  "le_enc 0 n = []"
| "le_enc (Suc k) n = of_nat n # le_enc k (n div 256)"

fun le_dec :: "bytes \<Rightarrow> nat" where
  "le_dec [] = 0"
| "le_dec (b # bs) = unat b + 256 * le_dec bs"

lemma le_enc_length [simp]: "length (le_enc k n) = k"
  by (induction k arbitrary: n) simp_all

lemma le_dec_enc [simp]: "le_dec (le_enc k n) = n mod 256 ^ k"
proof (induction k arbitrary: n)
  case (Suc k)
  have "n mod (256 * 256 ^ k) = n mod 256 + 256 * (n div 256 mod 256 ^ k)"
    by (simp add: mod_mult2_eq)
  with Suc show ?case by (simp add: unat_of_nat)
qed simp

definition pack_uint :: "nat \<Rightarrow> int \<Rightarrow> bytes res" where
  \<comment> \<open>\<open>struct.pack\<close> with \<open>B\<close>, \<open>H\<close>, \<open>I\<close>: one, two, four bytes\<close>
  "pack_uint k n = (if 0 \<le> n \<and> n < 256 ^ k then Inr (le_enc k (nat n))
                    else Inl (StructError ''argument out of range''))"

definition pack_sint :: "int \<Rightarrow> bytes res" where
  \<comment> \<open>\<open>struct.pack\<close> with \<open>i\<close>\<close>
  "pack_sint n = (if - (2 ^ 31) \<le> n \<and> n < 2 ^ 31 then Inr (le_enc 4 (nat (n mod 2 ^ 32)))
                  else Inl (StructError ''argument out of range''))"

definition take_uint :: "nat \<Rightarrow> nat \<Rightarrow> bytes \<Rightarrow> nat" where
  \<comment> \<open>\<open>k\<close> bytes at the offset\<close>
  "take_uint k off bs = le_dec (take k (drop off bs))"

definition signed32 :: "nat \<Rightarrow> int" where
  "signed32 u = (if u < 2 ^ 31 then int u else int u - 2 ^ 32)"

lemma le_dec_take_enc: "le_dec (take k (le_enc k n @ rest)) = n mod 256 ^ k"
  by simp

section \<open>Attributes\<close>

definition align :: "int \<Rightarrow> int" where
  "align n = (n + 3) AND (NOT 3)"

lemma align_eq: "align n = (n + 3) div 4 * 4"
proof -
  have m: "(3 :: int) = mask 2" by (simp add: mask_eq_exp_minus_1)
  have "(n + 3) AND (NOT 3) = (n + 3) - take_bit 2 (n + 3)"
  proof -
    have "NOT (n + 3) AND take_bit 2 (n + 3) = 0"
      by (auto simp: bit_eq_iff bit_simps)
    moreover have "(n + 3) AND (NOT 3) = (n + 3) AND NOT (take_bit 2 (n + 3))"
      unfolding m by (auto simp: bit_eq_iff bit_simps)
    ultimately show ?thesis by (simp add: disjunctive_diff_eq_and_not)
  qed
  then show ?thesis by (simp add: align_def take_bit_eq_mod minus_mod_eq_div_mult)
qed

lemma align_bounds: "n \<le> align n" "align n < n + 4" "4 dvd align n"
  unfolding align_eq by presburger+

definition attribute :: "int \<Rightarrow> bytes \<Rightarrow> bytes res" where
  "attribute kind payload =
     ebind (pack_uint 2 (int (length payload) + 4)) (\<lambda>a.
     ebind (pack_uint 2 kind) (\<lambda>b.
     let body = a @ b @ payload in
     Inr (body @ replicate (nat (align (int (length body)) - int (length body))) 0)))"

function parse_attrs :: "bytes \<Rightarrow> nat \<Rightarrow> (nat \<times> bytes) list \<Rightarrow> (nat \<times> bytes) list" where
  \<comment> \<open>the loop of \<open>parse_attributes\<close>: the offset and the dictionary built so far\<close>
  "parse_attrs data off out =
     (if off + 4 \<le> length data then
        (let len = take_uint 2 off data; kind = take_uint 2 (off + 2) data in
         if len < 4 \<or> off + len > length data then out
         else parse_attrs data (off + nat (align (int len)))
                (AList.update kind (drop (off + 4) (take (off + len) data)) out))
      else out)"
  by auto
termination
proof (relation "measure (\<lambda>(data, off, out). length data - off)")
  fix data :: bytes and off out len kind
  assume "off + 4 \<le> length data" "\<not> (len < (4 :: nat) \<or> length data < off + len)"
  moreover have "int len \<le> align (int len)" by (rule align_bounds)
  ultimately show "((data, off + nat (align (int len)), AList.update kind (drop (off + 4) (take (off + len) data)) out),
      data, off, out) \<in> measure (\<lambda>(data, off, out). length data - off)"
    by auto
qed simp

declare parse_attrs.simps [simp del]

definition parse_attributes :: "bytes \<Rightarrow> (nat \<times> bytes) list" where
  "parse_attributes data = parse_attrs data 0 []"

section \<open>The socket\<close>

record nl_sock =
  nl_sequence :: int
  nl_sent :: "bytes list"
  nl_recv :: "bytes list"

definition NLMSG_ERROR :: nat where "NLMSG_ERROR = 2"
definition NLMSG_DONE :: nat where "NLMSG_DONE = 3"
definition NLM_F_REQUEST :: int where "NLM_F_REQUEST = 1"
definition NLM_F_MULTI :: int where "NLM_F_MULTI = 2"
definition NLM_F_ACK :: int where "NLM_F_ACK = 4"
definition NLM_F_EXCL :: int where "NLM_F_EXCL = 0x200"
definition NLM_F_CREATE :: int where "NLM_F_CREATE = 0x400"
definition NLM_F_DUMP :: int where "NLM_F_DUMP = 0x100 OR 0x200"

datatype scan = Answer "bytes list res" | More "bytes list"

function scan_replies :: "int \<Rightarrow> bool \<Rightarrow> bytes \<Rightarrow> nat \<Rightarrow> bytes list \<Rightarrow> scan option" where
  \<comment> \<open>the inner loop of \<open>_read_replies\<close> over one datagram; \<open>None\<close> when it never ends\<close>
  "scan_replies sq expect data off replies =
     (if off + 16 \<le> length data then
        (let len = take_uint 4 off data; kind = take_uint 2 (off + 4) data;
             flags = int (take_uint 2 (off + 6) data); s = int (take_uint 4 (off + 8) data);
             body = drop (off + 16) (take (off + len) data);
             next = off + nat (align (int len)) in
         if s \<noteq> sq then (if len = 0 then None else scan_replies sq expect data next replies)
         else if kind = NLMSG_ERROR then
           Some (Answer (if length body < 4 then Inl (StructError ''unpack_from requires a buffer of at least 4 bytes'')
                         else let code = signed32 (take_uint 4 0 body) in
                           if code = 0 then Inr replies else Inl (NetlinkError (- code))))
         else if kind = NLMSG_DONE then Some (Answer (Inr replies))
         else if flags AND NLM_F_MULTI = 0 \<and> expect then Some (Answer (Inr (replies @ [body])))
         else if len = 0 then None
         else scan_replies sq expect data next (replies @ [body]))
      else Some (More replies))"
  by auto
termination
proof -
  have step: "(off + nat (align (int len)), off) \<in> measure (\<lambda>o'. n - o')"
    if "off + 16 \<le> n" "len \<noteq> 0" for n off len :: nat
    using that align_bounds(1) [of "int len"] by auto
  show ?thesis
    by (relation "measure (\<lambda>(sq, expect, data, off, replies). length data - off)")
       (use step in \<open>auto simp: in_measure\<close>)
qed

declare scan_replies.simps [simp del]

fun read_replies :: "int \<Rightarrow> bool \<Rightarrow> bytes list \<Rightarrow> bytes list \<Rightarrow> (bytes list res \<times> bytes list) option" where
  \<comment> \<open>the outer loop over what each \<open>recv(65536)\<close> returned - of a longer datagram its first 65536 bytes -;
    with nothing left \<open>recv\<close> blocks\<close>
  "read_replies sq expect replies [] = None"
| "read_replies sq expect replies (data # rest) =
     (case scan_replies sq expect data 0 replies of
        None \<Rightarrow> None
      | Some (Answer r) \<Rightarrow> Some (r, rest)
      | Some (More replies') \<Rightarrow> read_replies sq expect replies' rest)"

definition message_bytes :: "int \<Rightarrow> int \<Rightarrow> int \<Rightarrow> bytes \<Rightarrow> bytes res" where
  \<comment> \<open>the header (length, type, flags, sequence, pid 0) and the payload\<close>
  "message_bytes typ flags sq payload =
     ebind (pack_uint 4 (16 + int (length payload))) (\<lambda>a. ebind (pack_uint 2 typ) (\<lambda>b.
     ebind (pack_uint 2 flags) (\<lambda>c. ebind (pack_uint 4 sq) (\<lambda>d.
     Inr (a @ b @ c @ d @ le_enc 4 0 @ payload)))))"

definition nl_request :: "int \<Rightarrow> int \<Rightarrow> bytes \<Rightarrow> bool \<Rightarrow> nl_sock \<Rightarrow> (bytes list res \<times> nl_sock) option" where
  "nl_request typ flags payload expect sk0 =
     (let sk = sk0\<lparr>nl_sequence := nl_sequence sk0 + 1\<rparr> in
      case message_bytes typ (flags OR NLM_F_REQUEST) (nl_sequence sk) payload of
        Inl e \<Rightarrow> Some (Inl e, sk)
      | Inr msg \<Rightarrow>
          (case read_replies (nl_sequence sk) expect [] (nl_recv sk) of
             None \<Rightarrow> None
           | Some (r, rest) \<Rightarrow> Some (r, sk\<lparr>nl_sent := nl_sent sk @ [msg], nl_recv := rest\<rparr>)))"

section \<open>Operations\<close>

type_synonym 'a nl = "nl_sock \<Rightarrow> ('a res \<times> nl_sock) option"

definition nlift :: "'a res \<Rightarrow> 'a nl" where
  "nlift r sk = Some (r, sk)"

definition nbind :: "'a nl \<Rightarrow> ('a \<Rightarrow> 'b nl) \<Rightarrow> 'b nl" where
  "nbind m f sk = (case m sk of None \<Rightarrow> None | Some (Inl e, sk') \<Rightarrow> Some (Inl e, sk') | Some (Inr x, sk') \<Rightarrow> f x sk')"

definition ifinfo :: "int \<Rightarrow> int \<Rightarrow> int \<Rightarrow> bytes res" where
  \<comment> \<open>\<open>struct.pack("=BBHiII", AF_UNSPEC, 0, 0, index, flags, change)\<close>\<close>
  "ifinfo index flags change =
     ebind (pack_sint index) (\<lambda>i. ebind (pack_uint 4 flags) (\<lambda>f. ebind (pack_uint 4 change) (\<lambda>c.
     Inr ([0, 0] @ le_enc 2 0 @ i @ f @ c))))"

definition name_bytes :: "string \<Rightarrow> bytes" where
  "name_bytes s = map (\<lambda>c. of_nat (code_of c)) s @ [0]"

definition bytes_text :: "bytes \<Rightarrow> string" where
  \<comment> \<open>\<open>b.rstrip(b"\0").decode()\<close>\<close>
  "bytes_text bs = map (\<lambda>b. char_of (unat b)) (rev (dropWhile (\<lambda>b. b = 0) (rev bs)))"

definition link_query :: "string \<Rightarrow> bytes list nl" where
  \<comment> \<open>the request of \<open>link_index\<close> and \<open>link_mtu\<close>\<close>
  "link_query name =
     nbind (nlift (ebind (ifinfo 0 0 0) (\<lambda>h. ebind (attribute 3 (name_bytes name)) (\<lambda>a. Inr (h @ a)))))
       (\<lambda>payload. nl_request 18 NLM_F_ACK payload True)"

definition first_reply :: "int \<Rightarrow> bytes list \<Rightarrow> bytes res" where
  "first_reply errno replies = (case replies of [] \<Rightarrow> Inl (NetlinkError errno) | r # _ \<Rightarrow> Inr r)"

definition link_index :: "string \<Rightarrow> int nl" where
  "link_index name = nbind (link_query name) (\<lambda>replies. nlift (ebind (first_reply 19 replies) (\<lambda>r.
     if length r < 16 then Inl (StructError ''unpack_from requires a buffer of at least 16 bytes'')
     else Inr (signed32 (take_uint 4 4 r)))))"

fun names_of :: "bytes list \<Rightarrow> (int \<times> string) list \<Rightarrow> (int \<times> string) list res" where
  \<comment> \<open>the loop of \<open>link_names\<close>\<close>
  "names_of [] out = Inr out"
| "names_of (body # bodies) out =
     (if length body < 16 then Inl (StructError ''unpack_from requires a buffer of at least 16 bytes'')
      else case map_of (parse_attributes (drop 16 body)) 3 of
             None \<Rightarrow> names_of bodies out
           | Some nm \<Rightarrow> names_of bodies (AList.update (signed32 (take_uint 4 4 body)) (bytes_text nm) out))"

definition link_names :: "(int \<times> string) list nl" where
  "link_names = nbind (nlift (ifinfo 0 0 0)) (\<lambda>payload.
     nbind (nl_request 18 NLM_F_DUMP payload True) (\<lambda>bodies. nlift (names_of bodies [])))"

definition veth_payload :: "string \<Rightarrow> string \<Rightarrow> bytes res" where
  "veth_payload name peer =
     ebind (ifinfo 0 0 0) (\<lambda>h.
     ebind (attribute 3 (name_bytes peer)) (\<lambda>pn.
     ebind (attribute 1 (h @ pn)) (\<lambda>pa. ebind (attribute 2 pa) (\<lambda>info_data.
     ebind (attribute 1 (name_bytes ''veth'')) (\<lambda>kd. ebind (attribute 18 (kd @ info_data)) (\<lambda>link_info.
     ebind (attribute 3 (name_bytes name)) (\<lambda>nm. Inr (h @ nm @ link_info))))))))"

definition create_veth :: "string \<Rightarrow> string \<Rightarrow> unit nl" where
  "create_veth name peer = nbind (nlift (veth_payload name peer)) (\<lambda>payload.
     nbind (nl_request 16 (NLM_F_CREATE OR NLM_F_EXCL OR NLM_F_ACK) payload False) (\<lambda>_. nlift (Inr ())))"

definition change_link :: "string \<Rightarrow> (int \<Rightarrow> bytes res) \<Rightarrow> unit nl" where
  \<comment> \<open>look the index up, then send \<open>RTM_NEWLINK\<close> with the payload for it\<close>
  "change_link name payload_of = nbind (link_index name) (\<lambda>index. nbind (nlift (payload_of index)) (\<lambda>payload.
     nbind (nl_request 16 NLM_F_ACK payload False) (\<lambda>_. nlift (Inr ()))))"

definition with_attr :: "int \<Rightarrow> bytes res \<Rightarrow> int \<Rightarrow> bytes res" where
  "with_attr kind payload index =
     ebind (ifinfo index 0 0) (\<lambda>h. ebind payload (\<lambda>p. ebind (attribute kind p) (\<lambda>a. Inr (h @ a))))"

definition move_link_to_netns :: "string \<Rightarrow> int \<Rightarrow> unit nl" where
  "move_link_to_netns name netns_fd = change_link name (with_attr 28 (pack_uint 4 netns_fd))"

definition set_link_up :: "string \<Rightarrow> unit nl" where
  "set_link_up name = change_link name (\<lambda>index. ifinfo index 1 1)"

definition set_mtu :: "string \<Rightarrow> int \<Rightarrow> unit nl" where
  "set_mtu name mtu = change_link name (with_attr 4 (pack_uint 4 mtu))"

definition rename_link :: "string \<Rightarrow> string \<Rightarrow> unit nl" where
  "rename_link name new_name = change_link name (with_attr 3 (Inr (name_bytes new_name)))"

definition link_mtu :: "string \<Rightarrow> int nl" where
  "link_mtu name = nbind (link_query name) (\<lambda>replies. nlift (ebind (first_reply 19 replies) (\<lambda>r.
     case map_of (parse_attributes (drop 16 r)) 4 of
       None \<Rightarrow> Inl (NetlinkError 61)
     | Some v \<Rightarrow> if length v = 4 then Inr (int (le_dec v))
                 else Inl (StructError ''unpack requires a buffer of 4 bytes''))))"

definition inet_aton :: "string \<Rightarrow> bytes res" where
  \<comment> \<open>four decimal numbers; the library's other forms are refused here\<close>
  "inet_aton s =
     (let ps = split_char CHR ''.'' s in
      if length ps = 4 \<and> list_all (\<lambda>p. p \<noteq> [] \<and> list_all is_digit p \<and> digits_val p < 256) ps
      then Inr (map (\<lambda>p. of_nat (digits_val p)) ps)
      else Inl (OSError ''illegal IP address string passed to inet_aton''))"

definition inet_ntoa :: "bytes \<Rightarrow> string res" where
  "inet_ntoa bs =
     (if length bs = 4 then Inr (join ''.'' (map (\<lambda>b. str_nat (unat b)) bs))
      else Inl (OSError ''packed IP wrong length''))"

definition add_address :: "string \<Rightarrow> string \<Rightarrow> int \<Rightarrow> unit nl" where
  "add_address name address prefix = nbind (link_index name) (\<lambda>index.
     nbind (nlift (ebind (inet_aton address) (\<lambda>packed. ebind (pack_uint 1 prefix) (\<lambda>p. ebind (pack_sint index) (\<lambda>i.
        ebind (attribute 2 packed) (\<lambda>a. ebind (attribute 1 packed) (\<lambda>b. Inr ([2] @ p @ [0, 0] @ i @ a @ b)))))))) (\<lambda>payload.
     nbind (nl_request 20 (NLM_F_CREATE OR NLM_F_EXCL OR NLM_F_ACK) payload False) (\<lambda>_. nlift (Inr ()))))"

definition add_default_route :: "string \<Rightarrow> unit nl" where
  "add_default_route gateway =
     nbind (nlift (ebind (inet_aton gateway) (\<lambda>packed. ebind (attribute 5 packed) (\<lambda>a.
        Inr ([2, 0, 0, 0, 254, 3, 0, 1] @ le_enc 4 0 @ a))))) (\<lambda>payload.
     nbind (nl_request 24 (NLM_F_CREATE OR NLM_F_ACK) payload False) (\<lambda>_. nlift (Inr ())))"

fun addresses_of :: "(int \<times> string) list \<Rightarrow> bytes list \<Rightarrow> (string \<times> string list) list \<Rightarrow> (string \<times> string list) list res" where
  \<comment> \<open>the loop of \<open>addresses\<close>\<close>
  "addresses_of names [] out = Inr out"
| "addresses_of names (body # bodies) out =
     (if length body < 8 then Inl (StructError ''unpack_from requires a buffer of at least 8 bytes'')
      else
        (let prefix = take_uint 1 1 body; index = signed32 (take_uint 4 4 body);
             attrs = parse_attributes (drop 8 body);
             raw = (case map_of attrs 2 of Some (b # bs) \<Rightarrow> Some (b # bs) | _ \<Rightarrow> map_of attrs 1)
         in case (raw, map_of names index) of
              (Some r, Some nm) \<Rightarrow>
                ebind (inet_ntoa r) (\<lambda>a.
                  addresses_of names bodies
                    (AList.update nm ((case map_of out nm of None \<Rightarrow> [] | Some l \<Rightarrow> l) @ [a @ ''/'' @ str_nat prefix]) out))
            | _ \<Rightarrow> addresses_of names bodies out))"

definition nl_addresses :: "string option \<Rightarrow> (string \<times> string list) list nl" where
  "nl_addresses name = nbind link_names (\<lambda>names.
     nbind (nl_request 22 NLM_F_DUMP ([2, 0, 0, 0] @ le_enc 4 0) True) (\<lambda>bodies.
     nlift (ebind (addresses_of names bodies []) (\<lambda>out.
       Inr (filter (\<lambda>(k, v). name = None \<or> Some k = name) out)))))"

section \<open>Laws of the attributes\<close>

lemma le_enc_zero: "le_enc k 0 = replicate k 0"
  by (induction k) simp_all

lemma ifinfo_zero: "ifinfo 0 0 0 = Inr (replicate 16 0)"
proof -
  have "[0, 0] @ replicate 2 0 @ replicate 4 0 @ replicate 4 0 @ replicate 4 0 = replicate 16 (0 :: 8 word)"
    by (simp add: numeral_eq_Suc)
  then show ?thesis by (simp add: ifinfo_def pack_uint_def pack_sint_def le_enc_zero)
qed

definition enc_attr :: "nat \<times> bytes \<Rightarrow> bytes" where
  "enc_attr kp = (case kp of (k, p) \<Rightarrow>
     le_enc 2 (length p + 4) @ le_enc 2 k @ p @ replicate (nat (align (int (length p + 4))) - (length p + 4)) 0)"

definition attr_ok :: "nat \<times> bytes \<Rightarrow> bool" where
  "attr_ok kp = (fst kp < 65536 \<and> length (snd kp) \<le> 65531)"

lemma attribute_ok:
  assumes "attr_ok (k, p)"
  shows "attribute (int k) p = Inr (enc_attr (k, p))"
proof -
  let ?n = "length p + 4"
  have "nat (align (int ?n) - int ?n) = nat (align (int ?n)) - ?n"
    using align_bounds(1) [of "int ?n"] by linarith
  moreover have "pack_uint 2 (int (length p) + 4) = Inr (le_enc 2 ?n)" "pack_uint 2 (int k) = Inr (le_enc 2 k)"
    using assms by (auto simp: pack_uint_def attr_ok_def nat_add_distrib)
  moreover have "int (length (le_enc 2 ?n @ le_enc 2 k @ p)) = int ?n" by simp
  ultimately show ?thesis by (simp only: attribute_def ebind_simps Let_def enc_attr_def prod.case append_assoc)
qed

lemma enc_attr_length: "length (enc_attr (k, p)) = nat (align (int (length p + 4)))"
  using align_bounds(1) [of "int (length p + 4)"] by (simp add: enc_attr_def)

lemma take_uint_at: "take_uint k (length pre) (pre @ le_enc k n @ rest) = n mod 256 ^ k"
  by (simp add: take_uint_def)

lemma parse_attrs_step:
  assumes "attr_ok (k, p)"
  shows "parse_attrs (pre @ enc_attr (k, p) @ rest) (length pre) out =
    parse_attrs (pre @ enc_attr (k, p) @ rest) (length (pre @ enc_attr (k, p))) (AList.update k p out)"
proof -
  let ?data = "pre @ enc_attr (k, p) @ rest"
  let ?pad = "replicate (nat (align (int (length p + 4))) - (length p + 4)) (0 :: 8 word)"
  have d: "?data = pre @ le_enc 2 (length p + 4) @ (le_enc 2 k @ p @ ?pad @ rest)"
    by (simp add: enc_attr_def)
  have d2: "?data = (pre @ le_enc 2 (length p + 4)) @ le_enc 2 k @ (p @ ?pad @ rest)"
    by (simp add: enc_attr_def)
  have len: "take_uint 2 (length pre) ?data = length p + 4"
    unfolding d take_uint_at using assms by (simp add: attr_ok_def)
  have kind: "take_uint 2 (length pre + 2) ?data = k"
    using take_uint_at [of 2 "pre @ le_enc 2 (length p + 4)" k "p @ ?pad @ rest"] assms
    unfolding d2 by (simp add: attr_ok_def)
  have body: "drop (length pre + 4) (take (length pre + (length p + 4)) ?data) = p"
    unfolding d2 by simp
  have fits: "length pre + (length p + 4) \<le> length ?data" unfolding d2 by simp
  show ?thesis
    by (subst parse_attrs.simps) (use len kind body fits in \<open>simp add: enc_attr_length Let_def\<close>)
qed

lemma parse_attrs_concat:
  "list_all attr_ok kps \<Longrightarrow>
     parse_attrs (pre @ concat (map enc_attr kps)) (length pre) out = fold (\<lambda>(k, p). AList.update k p) kps out"
proof (induction kps arbitrary: pre out)
  case Nil
  then show ?case by (subst parse_attrs.simps) simp
next
  case (Cons kp kps)
  obtain k p where kp: "kp = (k, p)" by (cases kp)
  have "parse_attrs (pre @ enc_attr (k, p) @ concat (map enc_attr kps)) (length pre) out =
      parse_attrs ((pre @ enc_attr (k, p)) @ concat (map enc_attr kps)) (length (pre @ enc_attr (k, p))) (AList.update k p out)"
    using parse_attrs_step [of k p pre "concat (map enc_attr kps)" out] Cons.prems kp by simp
  also have "\<dots> = fold (\<lambda>(k, p). AList.update k p) kps (AList.update k p out)"
    using Cons.IH [of "pre @ enc_attr (k, p)" "AList.update k p out"] Cons.prems by simp
  finally show ?case using kp by simp
qed

lemma parse_attributes_concat:
  "list_all attr_ok kps \<Longrightarrow>
     parse_attributes (concat (map enc_attr kps)) = fold (\<lambda>(k, p). AList.update k p) kps []"
  using parse_attrs_concat [of kps "[]" "[]"] by (simp add: parse_attributes_def)

section \<open>Laws of the replies\<close>

record nl_msg =
  nm_kind :: nat
  nm_flags :: nat
  nm_seq :: nat
  nm_body :: bytes

definition msg_ok :: "nl_msg \<Rightarrow> bool" where
  "msg_ok m = (nm_kind m < 65536 \<and> nm_flags m < 65536 \<and> nm_seq m < 2 ^ 32 \<and> length (nm_body m) < 2 ^ 31)"

definition enc_msg :: "nl_msg \<Rightarrow> bytes" where
  "enc_msg m = (let n = 16 + length (nm_body m) in
     le_enc 4 n @ le_enc 2 (nm_kind m) @ le_enc 2 (nm_flags m) @ le_enc 4 (nm_seq m) @ le_enc 4 0
     @ nm_body m @ replicate (nat (align (int n)) - n) 0)"

text \<open>What the loop is meant to answer, over messages instead of bytes.\<close>

fun answer_of :: "int \<Rightarrow> bool \<Rightarrow> nl_msg list \<Rightarrow> bytes list \<Rightarrow> scan" where
  "answer_of sq expect [] replies = More replies"
| "answer_of sq expect (m # ms) replies =
     (if int (nm_seq m) \<noteq> sq then answer_of sq expect ms replies
      else if nm_kind m = NLMSG_ERROR then
        Answer (if length (nm_body m) < 4 then Inl (StructError ''unpack_from requires a buffer of at least 4 bytes'')
                else let code = signed32 (take_uint 4 0 (nm_body m)) in
                  if code = 0 then Inr replies else Inl (NetlinkError (- code)))
      else if nm_kind m = NLMSG_DONE then Answer (Inr replies)
      else if int (nm_flags m) AND NLM_F_MULTI = 0 \<and> expect then Answer (Inr (replies @ [nm_body m]))
      else answer_of sq expect ms (replies @ [nm_body m]))"

lemma enc_msg_length: "length (enc_msg m) = nat (align (int (16 + length (nm_body m))))"
  using align_bounds(1) [of "int (16 + length (nm_body m))"] by (simp add: enc_msg_def Let_def)

lemma take_uint_after: "length pre = off \<Longrightarrow> n < 256 ^ k \<Longrightarrow> take_uint k off (pre @ le_enc k n @ rest) = n"
  using take_uint_at [of k pre n rest] by simp

lemma enc_msg_fields:
  fixes pre rest :: bytes
  assumes "msg_ok m"
  defines "d \<equiv> pre @ enc_msg m @ rest" and "off \<equiv> length pre" and "n \<equiv> 16 + length (nm_body m)"
  shows "take_uint 4 off d = n" "take_uint 2 (off + 4) d = nm_kind m" "take_uint 2 (off + 6) d = nm_flags m"
    "take_uint 4 (off + 8) d = nm_seq m" "drop (off + 16) (take (off + n) d) = nm_body m" "off + 16 \<le> length d"
proof -
  note ok = assms(1)[unfolded msg_ok_def]
  let ?a = "le_enc 4 n" and ?b = "le_enc 2 (nm_kind m)" and ?c = "le_enc 2 (nm_flags m)" and ?e = "le_enc 4 (nm_seq m)"
  let ?t = "replicate (nat (align (int n)) - n) 0 @ rest"
  have d: "d = pre @ ?a @ (?b @ ?c @ ?e @ le_enc 4 0 @ nm_body m @ ?t)"
    by (simp add: d_def enc_msg_def Let_def n_def)
  show "take_uint 4 off d = n"
    unfolding d by (rule take_uint_after) (use ok in \<open>simp_all add: off_def n_def\<close>)
  have "d = (pre @ ?a) @ ?b @ (?c @ ?e @ le_enc 4 0 @ nm_body m @ ?t)" by (simp add: d)
  then show "take_uint 2 (off + 4) d = nm_kind m"
    by (simp only:, intro take_uint_after) (use ok in \<open>simp_all add: off_def\<close>)
  have "d = (pre @ ?a @ ?b) @ ?c @ (?e @ le_enc 4 0 @ nm_body m @ ?t)" by (simp add: d)
  then show "take_uint 2 (off + 6) d = nm_flags m"
    by (simp only:, intro take_uint_after) (use ok in \<open>simp_all add: off_def\<close>)
  have "d = (pre @ ?a @ ?b @ ?c) @ ?e @ (le_enc 4 0 @ nm_body m @ ?t)" by (simp add: d)
  then show "take_uint 4 (off + 8) d = nm_seq m"
    by (simp only:, intro take_uint_after) (use ok in \<open>simp_all add: off_def\<close>)
  have "d = (pre @ ?a @ ?b @ ?c @ ?e @ le_enc 4 0) @ nm_body m @ ?t" by (simp add: d)
  then show "drop (off + 16) (take (off + n) d) = nm_body m" by (simp add: off_def n_def)
  show "off + 16 \<le> length d" by (simp add: d off_def)
qed

lemma scan_messages:
  "list_all msg_ok ms \<Longrightarrow>
     scan_replies sq expect (pre @ concat (map enc_msg ms)) (length pre) replies = Some (answer_of sq expect ms replies)"
proof (induction ms arbitrary: pre replies)
  case Nil
  then show ?case by (subst scan_replies.simps) simp
next
  case (Cons m ms)
  let ?rest = "concat (map enc_msg ms)"
  let ?n = "16 + length (nm_body m)"
  have ok: "msg_ok m" using Cons.prems by simp
  note f = enc_msg_fields [OF ok, of pre ?rest]
  have next': "length pre + nat (align (int ?n)) = length (pre @ enc_msg m)" by (simp add: enc_msg_length)
  note ih = Cons.IH [of "pre @ enc_msg m", unfolded append_assoc]
  have data: "pre @ concat (map enc_msg (m # ms)) = pre @ enc_msg m @ ?rest" by simp
  have ih': "scan_replies sq expect (pre @ enc_msg m @ ?rest) (length pre + nat (align (int ?n))) reps =
      Some (answer_of sq expect ms reps)" for reps
    unfolding next' using ih Cons.prems by simp
  show ?case
    unfolding data
    by (subst scan_replies.simps) (simp only: f ih' Let_def answer_of.simps if_True simp_thms split: if_split, auto)
qed

fun answer_datagrams :: "int \<Rightarrow> bool \<Rightarrow> bytes list \<Rightarrow> nl_msg list list \<Rightarrow> bytes list res option" where
  "answer_datagrams sq expect replies [] = None"
| "answer_datagrams sq expect replies (ms # rest) =
     (case answer_of sq expect ms replies of
        Answer r \<Rightarrow> Some r
      | More replies' \<Rightarrow> answer_datagrams sq expect replies' rest)"

lemma answer_of_append:
  "answer_of sq expect (xs @ ys) replies =
     (case answer_of sq expect xs replies of Answer r \<Rightarrow> Answer r | More rs \<Rightarrow> answer_of sq expect ys rs)"
  by (induction xs arbitrary: replies) (simp_all add: Let_def)

lemma answer_datagrams_concat:
  "answer_datagrams sq expect replies mss =
     (case answer_of sq expect (concat mss) replies of Answer r \<Rightarrow> Some r | More rs \<Rightarrow> None)"
  by (induction mss arbitrary: replies) (auto simp: answer_of_append split: scan.splits)

lemma read_datagrams:
  "list_all (list_all msg_ok) mss \<Longrightarrow>
     map_option fst (read_replies sq expect replies (map (\<lambda>ms. concat (map enc_msg ms)) mss)) =
       answer_datagrams sq expect replies mss"
proof (induction mss arbitrary: replies)
  case (Cons ms mss)
  then show ?case
    using scan_messages [of ms sq expect "[]" replies] by (auto split: scan.splits)
qed simp

section \<open>Properties\<close>

text \<open>Attributes survive the wire: a buffer of attributes with kinds below 65536 and payloads of at
  most 65531 bytes, each padded to a multiple of four bytes, parses to exactly these kinds and
  payloads (the last of a repeated kind), whatever the lengths of the payloads; a payload that does not
  fit the 16-bit length is refused.\<close>

theorem attributes_roundtrip:
  assumes "list_all attr_ok kps"
  shows "emap (\<lambda>(k, p). attribute (int k) p) kps = Inr (map enc_attr kps)
    \<and> parse_attributes (concat (map enc_attr kps)) = fold (\<lambda>(k, p). AList.update k p) kps []
    \<and> (\<forall>b \<in> set (map enc_attr kps). 4 dvd length b)
    \<and> (length big > 65531 \<longrightarrow> (\<exists>m. attribute (int k) big = Inl (StructError m)))"
proof -
  have "emap (\<lambda>(k, p). attribute (int k) p) kps = Inr (map enc_attr kps)"
    by (rule emap_total) (use assms attribute_ok in \<open>fastforce simp: list_all_iff\<close>)
  moreover have "4 dvd length (enc_attr kp)" for kp
  proof -
    have "0 \<le> z \<Longrightarrow> 4 dvd z \<Longrightarrow> 4 dvd nat z" for z by presburger
    then show ?thesis using align_bounds(1,3) [of "int (length (snd kp) + 4)"]
      by (cases kp) (simp add: enc_attr_length)
  qed
  moreover have "length big > 65531 \<Longrightarrow> \<exists>m. attribute (int k) big = Inl (StructError m)"
    by (simp add: attribute_def pack_uint_def)
  ultimately show ?thesis using parse_attributes_concat [OF assms] by auto
qed

theorem attributes_roundtrip_witness:
  "parse_attributes (concat (map enc_attr [(3, [101, 0]), (4, [1, 2, 3, 4])])) = [(3, [101, 0]), (4, [1, 2, 3, 4])]"
  using attributes_roundtrip [of "[(3, [101, 0]), (4, [1, 2, 3, 4])]"] by (simp add: attr_ok_def)

text \<open>The nested message that creates a veth pair means what it is meant to: read back attribute by
  attribute it is a link header, the name of the link, and the link information of kind veth whose
  data holds the peer: another header and the peer's name.\<close>

theorem veth_message_meaning:
  assumes "length name \<le> 65000" "length peer \<le> 65000"
  shows "\<exists>payload info data peer_spec. veth_payload name peer = Inr payload
    \<and> take 16 payload = replicate 16 0
    \<and> parse_attributes (drop 16 payload) = [(3, name_bytes name), (18, info)]
    \<and> parse_attributes info = [(1, name_bytes ''veth''), (2, data)]
    \<and> parse_attributes data = [(1, peer_spec)]
    \<and> take 16 peer_spec = replicate 16 0 \<and> parse_attributes (drop 16 peer_spec) = [(3, name_bytes peer)]"
proof -
  let ?h = "replicate 16 (0 :: 8 word)"
  let ?spec = "?h @ enc_attr (3, name_bytes peer)"
  let ?data = "enc_attr (1, ?spec)"
  let ?info = "enc_attr (1, name_bytes ''veth'') @ enc_attr (2, ?data)"
  have h: "ifinfo 0 0 0 = Inr ?h"
    by (rule ifinfo_zero)
  have al: "nat (align (int n)) \<le> n + 3" for n
    using align_bounds(2) [of "int n"] by linarith
  have nm: "length (name_bytes s) = length s + 1" for s by (simp add: name_bytes_def)
  have lp: "length (enc_attr (3, name_bytes peer)) \<le> 65008"
    using al [of "length (name_bytes peer) + 4"] assms(2) by (simp only: enc_attr_length nm)
  have ld: "length ?data \<le> 65031"
    using al [of "length ?spec + 4"] lp by (simp only: enc_attr_length length_append length_replicate)
  have l2: "length (enc_attr (2, ?data)) \<le> 65038"
    using al [of "length ?data + 4"] ld by (simp only: enc_attr_length)
  have lv: "length (enc_attr (1, name_bytes ''veth'')) \<le> 12"
    using al [of "length (name_bytes ''veth'') + 4"] by (simp only: enc_attr_length nm) simp
  have ok: "attr_ok (3, name_bytes peer)" "attr_ok (3, name_bytes name)" "attr_ok (1, ?spec)" "attr_ok (2, ?data)"
      "attr_ok (1, name_bytes ''veth'')" "attr_ok (18, ?info)"
    using assms lp ld l2 lv by (simp_all add: attr_ok_def nm)
  have "veth_payload name peer = Inr (?h @ enc_attr (3, name_bytes name) @ enc_attr (18, ?info))"
    using ok attribute_ok [of 3 "name_bytes peer"] attribute_ok [of 3 "name_bytes name"] attribute_ok [of 1 ?spec]
      attribute_ok [of 2 ?data] attribute_ok [of 1 "name_bytes ''veth''"] attribute_ok [of 18 ?info]
    by (simp add: veth_payload_def h)
  moreover have "parse_attributes (enc_attr (3, name_bytes name) @ enc_attr (18, ?info)) = [(3, name_bytes name), (18, ?info)]"
    using parse_attributes_concat [of "[(3, name_bytes name), (18, ?info)]"] ok by simp
  moreover have "parse_attributes ?info = [(1, name_bytes ''veth''), (2, ?data)]"
    using parse_attributes_concat [of "[(1, name_bytes ''veth''), (2, ?data)]"] ok by simp
  moreover have "parse_attributes ?data = [(1, ?spec)]"
    using parse_attributes_concat [of "[(1, ?spec)]"] ok by simp
  moreover have "parse_attributes (enc_attr (3, name_bytes peer)) = [(3, name_bytes peer)]"
    using parse_attributes_concat [of "[(3, name_bytes peer)]"] ok by simp
  ultimately show ?thesis
    by (intro exI [of _ "?h @ enc_attr (3, name_bytes name) @ enc_attr (18, ?info)"] exI [of _ ?info]
        exI [of _ ?data] exI [of _ ?spec]) simp
qed

theorem veth_message_meaning_witness:
  "\<exists>payload. veth_payload ''e0'' ''e1'' = Inr payload
     \<and> map_of (parse_attributes (drop 16 payload)) 3 = Some [101, 48, 0]"
proof -
  have "name_bytes ''e0'' = [101, 48, 0]" by (simp add: name_bytes_def code_of_def)
  then show ?thesis using veth_message_meaning [of "''e0''" "''e1''"] by fastforce
qed

text \<open>C33: The answer to a request does not depend on how the kernel packs its messages into datagrams:
  it is what the messages say one by one, where those of another sequence number are skipped, an
  error of code zero is the acknowledgement, any other error is raised with its number, and without
  a final message the call blocks.\<close>

theorem replies_refine_messages:
  assumes "list_all (list_all msg_ok) mss"
  shows "map_option fst (read_replies sq expect [] (map (\<lambda>ms. concat (map enc_msg ms)) mss)) =
    (case answer_of sq expect (concat mss) [] of Answer r \<Rightarrow> Some r | More rs \<Rightarrow> None)"
  using read_datagrams [OF assms] by (simp add: answer_datagrams_concat)

theorem replies_refine_messages_witness:
  "map_option fst (read_replies 7 True []
     (map (\<lambda>ms. concat (map enc_msg ms))
       [[\<lparr>nm_kind = 2, nm_flags = 0, nm_seq = 6, nm_body = [0, 0, 0, 0]\<rparr>],
        [\<lparr>nm_kind = 16, nm_flags = 0, nm_seq = 7, nm_body = [1, 2, 3]\<rparr>]])) = Some (Inr [[1, 2, 3]])"
  by (subst replies_refine_messages)
     (simp_all add: msg_ok_def NLMSG_ERROR_def NLMSG_DONE_def NLM_F_MULTI_def)

end
