(* ===== verification/Container_Host.thy ===== *)
theory Container_Host
  imports Net_Link
begin

text \<open>
  What the container runtime computes before and around its system calls: the addresses of the members of
  a network and the order in which a pair is wired (\<open>modules/container-runtime/minicon/network.py\<close>), the
  overlay options and the list of mounts of a root (\<open>mounts.py\<close>), and the limits of a control group
  (\<open>cgroups.py\<close>); what is done with them is in \<open>Container_Setup\<close>.  Which files refuse a write is an argument, and
  the writes are logged in order.
\<close>

section \<open>Networks\<close>

record endpoint =
  ep_name :: string
  ep_address :: string
  ep_prefix :: int

definition cidr :: "endpoint \<Rightarrow> string" where
  "cidr e = ep_address e @ ''/'' @ str_int (ep_prefix e)"

record bridge =
  bg_subnet :: string
  bg_prefix :: int
  bg_members :: "(string \<times> endpoint) list"
  bg_next :: nat

definition new_bridge :: bridge where
  "new_bridge = \<lparr>bg_subnet = ''10.88.0'', bg_prefix = 24, bg_members = [], bg_next = 1\<rparr>"

definition host_address :: "bridge \<Rightarrow> nat \<Rightarrow> string" where
  "host_address b n = bg_subnet b @ ''.'' @ str_nat n"

definition allocate :: "string \<Rightarrow> bridge \<Rightarrow> ((endpoint \<times> endpoint) res \<times> bridge)" where
  "allocate name b =
     (if map_of (bg_members b) name \<noteq> None then (Inl (ValueError (name @ '' is already attached'')), b)
      else
        (let host_side = \<lparr>ep_name = ''veth'' @ str_nat (length (bg_members b)) @ ''h'',
               ep_address = host_address b (bg_next b), ep_prefix = bg_prefix b\<rparr>;
             container_side = \<lparr>ep_name = ''eth0'', ep_address = host_address b (bg_next b + 1),
               ep_prefix = bg_prefix b\<rparr>
         in (Inr (host_side, container_side),
             b\<lparr>bg_next := bg_next b + 2, bg_members := AList.update name container_side (bg_members b)\<rparr>)))"

definition connect :: "endpoint \<Rightarrow> endpoint \<Rightarrow> int \<Rightarrow> unit nl" where
  "connect host_side container_side netns_fd =
     nbind (create_veth (ep_name host_side) (ep_name container_side)) (\<lambda>_.
     nbind (move_link_to_netns (ep_name container_side) netns_fd) (\<lambda>_.
     nbind (add_address (ep_name host_side) (ep_address host_side) (ep_prefix host_side)) (\<lambda>_.
     set_link_up (ep_name host_side))))"

definition configure_inside :: "string \<Rightarrow> endpoint \<Rightarrow> string option \<Rightarrow> unit nl" where
  \<comment> \<open>on a new socket inside the namespace\<close>
  "configure_inside interface e gateway =
     nbind (set_link_up ''lo'') (\<lambda>_.
     nbind (add_address interface (ep_address e) (ep_prefix e)) (\<lambda>_.
     nbind (set_link_up interface) (\<lambda>_.
     case gateway of Some (c # cs) \<Rightarrow> add_default_route (c # cs) | _ \<Rightarrow> nlift (Inr ()))))"

section \<open>Mounts\<close>

record overlay =
  ov_merged :: string
  ov_upper :: string
  ov_work :: string
  ov_lowers :: "string list"

definition overlay_options :: "overlay \<Rightarrow> string res" where
  "overlay_options r =
     (if ov_lowers r = [] then Inl (ValueError ''overlay needs at least one lower directory'')
      else case find (\<lambda>p. CHR '':'' \<in> set p \<or> CHR '','' \<in> set p) (ov_lowers r) of
             Some p \<Rightarrow> Inl (ValueError (''overlayfs cannot express a layer path: '' @ p))
           | None \<Rightarrow> Inr (''lowerdir='' @ join '':'' (rev (ov_lowers r)) @ '',upperdir='' @ ov_upper r
               @ '',workdir='' @ ov_work r))"

record mount_entry =
  mo_source :: string
  mo_target :: string
  mo_fstype :: "string option"
  mo_flags :: int
  mo_data :: "string option"
  mo_optional :: bool

definition MS_RDONLY :: int where "MS_RDONLY = 1"
definition MS_NOSUID :: int where "MS_NOSUID = 2"
definition MS_NODEV :: int where "MS_NODEV = 4"
definition MS_NOEXEC :: int where "MS_NOEXEC = 8"
definition MS_BIND :: int where "MS_BIND = 4096"
definition PSEUDO_FLAGS :: int where "PSEUDO_FLAGS = MS_NOSUID OR MS_NODEV OR MS_NOEXEC"

definition DEFAULT_DEVICES :: "string list" where
  "DEFAULT_DEVICES = [''null'', ''zero'', ''full'', ''random'', ''urandom'', ''tty'']"

definition default_mounts :: "string \<Rightarrow> mount_entry list" where
  "default_mounts tmpfs_size =
     [\<lparr>mo_source = ''proc'', mo_target = ''/proc'', mo_fstype = Some ''proc'',
        mo_flags = PSEUDO_FLAGS AND (NOT MS_NOEXEC), mo_data = None, mo_optional = False\<rparr>,
      \<lparr>mo_source = ''tmpfs'', mo_target = ''/dev'', mo_fstype = Some ''tmpfs'', mo_flags = MS_NOSUID,
        mo_data = Some (''size='' @ tmpfs_size @ '',mode=755''), mo_optional = False\<rparr>,
      \<lparr>mo_source = ''devpts'', mo_target = ''/dev/pts'', mo_fstype = Some ''devpts'', mo_flags = MS_NOSUID OR MS_NOEXEC,
        mo_data = Some ''newinstance,ptmxmode=0666,mode=620'', mo_optional = True\<rparr>,
      \<lparr>mo_source = ''tmpfs'', mo_target = ''/dev/shm'', mo_fstype = Some ''tmpfs'', mo_flags = PSEUDO_FLAGS,
        mo_data = Some (''size='' @ tmpfs_size), mo_optional = False\<rparr>,
      \<lparr>mo_source = ''tmpfs'', mo_target = ''/tmp'', mo_fstype = Some ''tmpfs'', mo_flags = MS_NOSUID OR MS_NODEV,
        mo_data = Some (''size='' @ tmpfs_size), mo_optional = False\<rparr>,
      \<lparr>mo_source = ''sysfs'', mo_target = ''/sys'', mo_fstype = Some ''sysfs'', mo_flags = PSEUDO_FLAGS OR MS_RDONLY,
        mo_data = None, mo_optional = True\<rparr>]
     @ map (\<lambda>d. \<lparr>mo_source = ''/dev/'' @ d, mo_target = ''/dev/'' @ d, mo_fstype = None, mo_flags = MS_BIND,
                 mo_data = None, mo_optional = True\<rparr>) DEFAULT_DEVICES"

fun apply_mounts :: "(mount_entry \<Rightarrow> 's \<Rightarrow> bool res \<times> 's) \<Rightarrow> mount_entry list \<Rightarrow> string list \<Rightarrow> (string list, 's) act" where
  \<comment> \<open>\<open>apply\<close> is \<open>Mount.apply\<close>, which only issues system calls\<close>
  "apply_mounts apply [] skipped = aret skipped"
| "apply_mounts apply (m # ms) skipped =
     abind (apply m) (\<lambda>ok. apply_mounts apply ms (if ok then skipped else skipped @ [mo_target m]))"

definition hosts_text :: "string \<Rightarrow> (string \<times> string) list \<Rightarrow> string" where
  "hosts_text hostname extra =
     join [CHR 0x0A] ([''127.0.0.1'' @ [CHR 0x09] @ ''localhost'', ''127.0.1.1'' @ [CHR 0x09] @ hostname,
       ''::1'' @ [CHR 0x09] @ ''localhost ip6-localhost ip6-loopback'']
       @ map (\<lambda>(name, address). address @ [CHR 0x09] @ name) extra) @ [CHR 0x0A]"

section \<open>Control groups\<close>

record limits =
  li_memory :: "int option"
  li_memory_high :: "int option"
  li_memory_swap :: "int option"
  li_cpu_quota :: "rat option"
  li_cpu_weight :: "int option"
  li_pids_max :: "int option"
  li_io_weight :: "int option"

definition limits_empty :: "limits \<Rightarrow> bool" where
  "limits_empty l = (li_memory l = None \<and> li_memory_high l = None \<and> li_memory_swap l = None \<and> li_cpu_quota l = None
     \<and> li_cpu_weight l = None \<and> li_pids_max l = None \<and> li_io_weight l = None)"

record cgroup =
  cg_enabled :: "string list"
  cg_log :: "(string \<times> string) list"

definition cg_write :: "(string \<Rightarrow> string \<Rightarrow> bool) \<Rightarrow> string \<Rightarrow> string \<Rightarrow> (unit, cgroup) act" where
  \<comment> \<open>\<open>_write\<close> and \<open>_write_leaf\<close>\<close>
  "cg_write refuses file value g =
     (if refuses file value then (Inl (OSError file), g) else (Inr (), g\<lparr>cg_log := cg_log g @ [(file, value)]\<rparr>))"

definition settings :: "limits \<Rightarrow> (string \<times> string \<times> string option) list" where
  \<comment> \<open>controller, file and the rendered value\<close>
  "settings l =
     [(''memory'', ''memory.max'', map_option str_int (li_memory l)),
      (''memory'', ''memory.high'', map_option str_int (li_memory_high l)),
      (''memory'', ''memory.swap.max'', map_option str_int (li_memory_swap l)),
      (''cpu'', ''cpu.max'', map_option (\<lambda>v. str_int (trunc (v * 100000)) @ '' 100000'') (li_cpu_quota l)),
      (''cpu'', ''cpu.weight'', map_option str_int (li_cpu_weight l)),
      (''pids'', ''pids.max'', map_option str_int (li_pids_max l)),
      (''io'', ''io.weight'', map_option str_int (li_io_weight l))]"

fun apply_settings ::
  "(string \<Rightarrow> string \<Rightarrow> bool) \<Rightarrow> (string \<times> string \<times> string option) list \<Rightarrow> string list \<Rightarrow> cgroup
    \<Rightarrow> string list \<times> cgroup" where
  \<comment> \<open>the loop of \<open>Cgroup.apply\<close>; a skipped setting is named by its file\<close>
  "apply_settings refuses [] skipped g = (skipped, g)"
| "apply_settings refuses ((controller, file, value) # rest) skipped g =
     (case value of
        None \<Rightarrow> apply_settings refuses rest skipped g
      | Some v \<Rightarrow>
          if controller \<notin> set (cg_enabled g) then apply_settings refuses rest (skipped @ [file]) g
          else (case cg_write refuses file v g of
                  (Inl e, g') \<Rightarrow> apply_settings refuses rest (skipped @ [file]) g'
                | (Inr _, g') \<Rightarrow> apply_settings refuses rest skipped g'))"

definition cg_apply :: "(string \<Rightarrow> string \<Rightarrow> bool) \<Rightarrow> limits \<Rightarrow> cgroup \<Rightarrow> string list \<times> cgroup" where
  "cg_apply refuses l g = apply_settings refuses (settings l) [] g"

fun enable_each :: "(string \<Rightarrow> string \<Rightarrow> bool) \<Rightarrow> string list \<Rightarrow> cgroup \<Rightarrow> cgroup" where
  "enable_each refuses [] g = g"
| "enable_each refuses (c # cs) g =
     (case cg_write refuses ''cgroup.subtree_control'' (''+'' @ c) g of
        (Inl e, g') \<Rightarrow> enable_each refuses cs g'
      | (Inr _, g') \<Rightarrow> enable_each refuses cs (g'\<lparr>cg_enabled := cg_enabled g' @ [c]\<rparr>))"

definition cg_create :: "(string \<Rightarrow> string \<Rightarrow> bool) \<Rightarrow> string list \<Rightarrow> limits option \<Rightarrow> cgroup \<Rightarrow> cgroup" where
  \<comment> \<open>\<open>Cgroup.create\<close> with the sorted controllers that are available\<close>
  "cg_create refuses wanted lims g0 =
     (let g1 = (if wanted = [] then g0
                else (case cg_write refuses ''cgroup.subtree_control'' (join '' '' (map (\<lambda>c. ''+'' @ c) wanted)) g0 of
                        (Inr _, g) \<Rightarrow> g\<lparr>cg_enabled := wanted\<rparr>
                      | (Inl _, g) \<Rightarrow> enable_each refuses wanted g))
      in case lims of
           Some l \<Rightarrow> if limits_empty l then g1 else snd (cg_apply refuses l g1)
         | None \<Rightarrow> g1)"

definition cg_read_int :: "string option \<Rightarrow> int" where
  "cg_read_int file =
     (case file of None \<Rightarrow> 0 | Some txt \<Rightarrow>
        if strip txt = ''max'' then 0 else (case parse_int (strip txt) of None \<Rightarrow> 0 | Some i \<Rightarrow> i))"

fun read_keyed :: "string list \<Rightarrow> (string \<times> int) list \<Rightarrow> (string \<times> int) list" where
  "read_keyed [] out = out"
| "read_keyed (line # rest) out =
     (case py_split line of
        [k, v] \<Rightarrow> (case parse_int v of Some i \<Rightarrow> read_keyed rest (AList.update k i out) | None \<Rightarrow> read_keyed rest out)
      | _ \<Rightarrow> read_keyed rest out)"

section \<open>Properties\<close>

fun allocate_all :: "string list \<Rightarrow> bridge \<Rightarrow> (endpoint \<times> endpoint) list res" where
  \<comment> \<open>the members of a network attached one after the other\<close>
  "allocate_all [] b = Inr []"
| "allocate_all (n # ns) b =
     (case allocate n b of
        (Inl e, _) \<Rightarrow> Inl e
      | (Inr p, b') \<Rightarrow> ebind (allocate_all ns b') (\<lambda>ps. Inr (p # ps)))"

lemma allocate_all_from:
  assumes "distinct ns" "\<forall>n \<in> set ns. map_of (bg_members b) n = None" "bg_next b = 2 * length (bg_members b) + 1"
  shows "allocate_all ns b = Inr (map (\<lambda>i.
    (\<lparr>ep_name = ''veth'' @ str_nat (length (bg_members b) + i) @ ''h'',
      ep_address = host_address b (bg_next b + 2 * i), ep_prefix = bg_prefix b\<rparr>,
     \<lparr>ep_name = ''eth0'', ep_address = host_address b (bg_next b + 2 * i + 1), ep_prefix = bg_prefix b\<rparr>)) [0..<length ns])"
  using assms
proof (induction ns arbitrary: b)
  case (Cons n ns)
  have new: "AList.update n e (bg_members b) = bg_members b @ [(n, e)]" for e
  proof -
    have "n \<notin> fst ` set al \<Longrightarrow> AList.update n e al = al @ [(n, e)]" for al by (induction al) auto
    then show ?thesis using Cons.prems(2) by (simp add: map_of_eq_None_iff)
  qed
  obtain p b' where a: "allocate n b = (Inr p, b')" using Cons.prems(2) by (simp add: allocate_def Let_def)
  have b': "bg_next b' = bg_next b + 2" "length (bg_members b') = length (bg_members b) + 1"
      "bg_prefix b' = bg_prefix b" "bg_subnet b' = bg_subnet b"
      "\<forall>k \<in> set ns. map_of (bg_members b') k = None"
    using a Cons.prems by (auto simp: allocate_def Let_def new map_add_def)
  have "allocate_all ns b' = Inr (map (\<lambda>i.
    (\<lparr>ep_name = ''veth'' @ str_nat (length (bg_members b') + i) @ ''h'',
      ep_address = host_address b' (bg_next b' + 2 * i), ep_prefix = bg_prefix b'\<rparr>,
     \<lparr>ep_name = ''eth0'', ep_address = host_address b' (bg_next b' + 2 * i + 1), ep_prefix = bg_prefix b'\<rparr>)) [0..<length ns])"
    by (rule Cons.IH) (use Cons.prems b' in auto)
  moreover have "[0..<length (n # ns)] = 0 # map Suc [0..<length ns]"
    by (simp add: map_Suc_upt upt_conv_Cons del: upt_Suc)
  ultimately show ?case
    using a Cons.prems(2) by (simp add: b' host_address_def comp_def allocate_def Let_def)
qed simp

lemma str_nat_digits_only: "CHR ''.'' \<notin> set (str_nat n)"
  using str_nat_digits [of n] by (auto simp: list_all_iff is_digit_def code_of_def)

lemma host_address_valid: "bg_subnet b = ''10.88.0'' \<Longrightarrow>
    inet_aton (host_address b n) = (if n < 256 then Inr [10, 88, 0, of_nat n]
      else Inl (OSError ''illegal IP address string passed to inet_aton''))"
  using split_char_notin [OF str_nat_digits_only, of n] str_nat_digits [of n] digits_val_str_nat [of n]
  by (simp add: host_address_def inet_aton_def Let_def is_digit_def digit_val_def digits_val_def code_of_def)

text \<open>The capacity of a network: members attached one after the other get consecutive pairs of
  addresses, the i-th (from 0) the hosts 2i+1 and 2i+2, all different; they are addresses of the
  network exactly for the first 127 members, and nothing refuses the next ones: the 128th gets the
  broadcast address and 256.\<close>

theorem bridge_capacity:
  assumes "distinct ns" "i < length ns"
  shows "\<exists>ps. allocate_all ns new_bridge = Inr ps \<and> length ps = length ns
    \<and> ep_address (fst (ps ! i)) = host_address new_bridge (2 * i + 1)
    \<and> ep_address (snd (ps ! i)) = host_address new_bridge (2 * i + 2)
    \<and> (inet_aton (host_address new_bridge (2 * i + 1)) = Inr [10, 88, 0, of_nat (2 * i + 1)] \<longleftrightarrow> i < 128)
    \<and> (inet_aton (host_address new_bridge (2 * i + 2)) = Inr [10, 88, 0, of_nat (2 * i + 2)] \<longleftrightarrow> i < 127)"
proof -
  have nb: "bg_next new_bridge = 1" "bg_members new_bridge = []" "bg_subnet new_bridge = ''10.88.0''"
    by (simp_all add: new_bridge_def)
  have "inet_aton (host_address new_bridge n) = Inr [10, 88, 0, of_nat n] \<longleftrightarrow> n < 256" for n
    using host_address_valid [OF nb(3), of n] by simp
  then have v: "inet_aton (host_address new_bridge (2 * i + 1)) = Inr [10, 88, 0, of_nat (2 * i + 1)] \<longleftrightarrow> i < 128"
    "inet_aton (host_address new_bridge (2 * i + 2)) = Inr [10, 88, 0, of_nat (2 * i + 2)] \<longleftrightarrow> i < 127"
    by (simp_all only:) linarith+
  show ?thesis
    unfolding v using allocate_all_from [of ns new_bridge] assms nb by simp
qed

theorem bridge_capacity_witness:
  "\<exists>ps. allocate_all [''a'', ''b''] new_bridge = Inr ps \<and> ep_address (snd (ps ! 1)) = ''10.88.0.4''"
proof -
  have "host_address new_bridge 4 = ''10.88.0.4''" by code_simp
  then show ?thesis using bridge_capacity [of "[''a'', ''b'']" 1] by (auto simp del: One_nat_def)
qed

text \<open>The overlay options list the layers top first: split at the separators they give back the
  layers in reverse, the upper and the work directory, when those two have no comma; a layer path with a
  separator and an empty list of layers are refused.\<close>

theorem overlay_options_meaning:
  "overlay_options r = Inr s \<Longrightarrow> CHR '','' \<notin> set (ov_upper r) \<Longrightarrow> CHR '','' \<notin> set (ov_work r) \<Longrightarrow>
     \<exists>l. split_char CHR '','' s = [''lowerdir='' @ l, ''upperdir='' @ ov_upper r, ''workdir='' @ ov_work r]
       \<and> split_char CHR '':'' l = rev (ov_lowers r)"
proof -
  assume o': "overlay_options r = Inr s" and u: "CHR '','' \<notin> set (ov_upper r)" "CHR '','' \<notin> set (ov_work r)"
  let ?l = "join '':'' (rev (ov_lowers r))"
  have ne: "ov_lowers r \<noteq> []" and ok: "\<forall>p \<in> set (ov_lowers r). CHR '':'' \<notin> set p \<and> CHR '','' \<notin> set p"
    and s: "s = (''lowerdir='' @ ?l) @ CHR '','' # (''upperdir='' @ ov_upper r) @ CHR '','' # (''workdir='' @ ov_work r)"
    using o' by (auto simp: overlay_options_def find_None_iff split: if_splits option.splits)
  have "set (join '':'' xs) \<subseteq> insert CHR '':'' (\<Union> (set ` set xs))" for xs
    by (induction "'':''" xs rule: join.induct) auto
  then have "CHR '','' \<notin> set ?l" using ok by fastforce
  then have "split_char CHR '','' s = [''lowerdir='' @ ?l, ''upperdir='' @ ov_upper r, ''workdir='' @ ov_work r]"
    unfolding s using u by (subst split_char_append) (simp_all add: split_char_append split_char_notin)
  moreover have "split_char CHR '':'' ?l = rev (ov_lowers r)"
    by (rule split_join) (use ne ok in auto)
  ultimately show ?thesis by blast
qed

lemma apply_settings_eq:
  "apply_settings refuses ss skipped g =
    (skipped @ map (\<lambda>(c, f, v). f) (filter (\<lambda>(c, f, v). v \<noteq> None \<and> (c \<notin> set (cg_enabled g) \<or> refuses f (the v))) ss),
     g\<lparr>cg_log := cg_log g @ map (\<lambda>(c, f, v). (f, the v))
        (filter (\<lambda>(c, f, v). v \<noteq> None \<and> c \<in> set (cg_enabled g) \<and> \<not> refuses f (the v)) ss)\<rparr>)"
  by (induction refuses ss skipped g rule: apply_settings.induct) (auto simp: cg_write_def split: option.splits)

text \<open>Applying limits loses none: every limit that is set is written, in the order of the table, when
  its controller was delegated and the file accepts the value, and is reported as skipped otherwise;
  nothing else is written.\<close>

theorem apply_limits_accounts:
  "cg_apply refuses l g =
    (map (\<lambda>(c, f, v). f) (filter (\<lambda>(c, f, v). v \<noteq> None \<and> (c \<notin> set (cg_enabled g) \<or> refuses f (the v))) (settings l)),
     g\<lparr>cg_log := cg_log g @ map (\<lambda>(c, f, v). (f, the v))
        (filter (\<lambda>(c, f, v). v \<noteq> None \<and> c \<in> set (cg_enabled g) \<and> \<not> refuses f (the v)) (settings l))\<rparr>)"
  by (simp add: cg_apply_def apply_settings_eq)

text \<open>The controllers that count as enabled are available ones, whichever writes are refused.\<close>

lemma enable_each_subset: "set (cg_enabled (enable_each refuses cs g)) \<subseteq> set cs \<union> set (cg_enabled g)"
  by (induction refuses cs g rule: enable_each.induct) (auto simp: cg_write_def)

theorem enabled_are_available:
  assumes "cg_enabled g = []"
  shows "set (cg_enabled (cg_create refuses wanted lims g)) \<subseteq> set wanted"
proof -
  have "cg_enabled (snd (cg_apply refuses l g')) = cg_enabled g'" for l g'
    by (simp add: apply_limits_accounts)
  then show ?thesis
    using enable_each_subset [of refuses wanted g] assms
    by (auto simp: cg_create_def cg_write_def Let_def split: option.splits if_splits)
qed

end
