(* ===== verification/Container_Setup.thy ===== *)
theory Container_Setup
  imports Container_Host Host_Files
begin

text \<open>
  The system calls of the container runtime (\<open>modules/container-runtime/minicon/linux.py\<close>), mounting, pivoting
  and cleaning up of a root (\<open>mounts.py\<close>), and finding, creating, emptying and removing a control group
  (\<open>cgroups.py\<close>).  A process is the log of the calls it has made with their success; the kernel is a
  record of functions that answer a call by its error number and a question about the file system,
  each from the log so far, so it may answer the same call differently each time.
\<close>

unbundle bit_operations_syntax

section \<open>System calls\<close>

datatype sys_call =
    SUnshare int
  | SMount string string "string option" int "string option"
  | SUmount string int
  | SPivot string string
  | SHostname string
  | SSetns int int
  | SMakedirs string
  | SRmdir string
  | SRmtree string
  | SRemoveHelper "string list"
  | SChdir string
  | SCreate string
  | SWrite string string
  | SReplace string string
  | SOpenOut string
  | SJoin int
  | SLinkUp string
  | SReport json
  | SDup nat
  | SExec "string list" "(string \<times> string) list"

type_synonym sys_log = "(sys_call \<times> bool) list"

record kernel =
  kn_call :: "sys_log \<Rightarrow> sys_call \<Rightarrow> int"
  kn_strerror :: "int \<Rightarrow> string"
  kn_exists :: "sys_log \<Rightarrow> string \<Rightarrow> bool"
  kn_isdir :: "sys_log \<Rightarrow> string \<Rightarrow> bool"
  kn_read :: "sys_log \<Rightarrow> string \<Rightarrow> string option"

fun hex_digits_of :: "nat \<Rightarrow> string" where
  "hex_digits_of n = (if n < 16 then [''0123456789abcdef'' ! n] else hex_digits_of (n div 16) @ [''0123456789abcdef'' ! (n mod 16)])"

declare hex_digits_of.simps [simp del]

definition hex_text :: "int \<Rightarrow> string" where
  "hex_text n = (if n < 0 then ''-0x'' else ''0x'') @ hex_digits_of (nat \<bar>n\<bar>)"

fun call_context :: "sys_call \<Rightarrow> (string \<times> string option list) option" where
  \<comment> \<open>the name and the context that a wrapper of libc gives to \<open>_check\<close>\<close>
  "call_context (SUnshare flags) = Some (''unshare'', [Some (hex_text flags)])"
| "call_context (SMount source target fstype flags data) =
     Some (''mount'', [Some source, Some target, fstype, data])"
| "call_context (SUmount target flags) = Some (''umount2'', [Some target])"
| "call_context (SPivot new_root put_old) = Some (''pivot_root'', [Some new_root, Some put_old])"
| "call_context (SHostname name) = Some (''sethostname'', [Some name])"
| "call_context (SSetns fd nstype) = Some (''setns'', [Some (str_int fd), Some (hex_text nstype)])"
| "call_context _ = None"

fun os_error :: "exc \<Rightarrow> bool" where
  \<comment> \<open>\<open>OSError\<close> and its subclasses\<close>
  "os_error (OSError _) = True"
| "os_error (FileNotFoundError _) = True"
| "os_error (ChildProcessError _) = True"
| "os_error (ProcessLookupError _) = True"
| "os_error (TimeoutError _) = True"
| "os_error (NetlinkError _) = True"
| "os_error _ = False"

definition os_exc :: "int \<Rightarrow> string \<Rightarrow> exc" where
  \<comment> \<open>\<open>OSError(code, text)\<close> is an instance of the subclass for its code\<close>
  "os_exc code txt =
     (if code = 2 then FileNotFoundError txt else if code = 3 then ProcessLookupError txt
      else if code = 10 then ChildProcessError txt else OSError txt)"

lemma os_error_exc [simp]: "os_error (os_exc code txt)"
  by (simp add: os_exc_def)

definition check_error :: "kernel \<Rightarrow> sys_call \<Rightarrow> int \<Rightarrow> exc" where
  \<comment> \<open>the error of \<open>_check\<close>, and of Python's own wrappers for the other calls\<close>
  "check_error k c code = os_exc code (case call_context c of
      Some (nm, ctx) \<Rightarrow> nm @ ''('' @ join '' '' (List.map_filter id ctx) @ '') failed: '' @ kn_strerror k code
    | None \<Rightarrow> kn_strerror k code)"

definition sys :: "kernel \<Rightarrow> sys_call \<Rightarrow> (unit, sys_log) act" where
  "sys k c lg =
     (let code = kn_call k lg c in
      if code \<noteq> 0 then (Inl (check_error k c code), lg @ [(c, False)]) else (Inr (), lg @ [(c, True)]))"

definition except_os :: "('a, 's) act \<Rightarrow> (exc \<Rightarrow> ('a, 's) act) \<Rightarrow> ('a, 's) act" where
  \<comment> \<open>\<open>try: m except OSError as e: h\<close>\<close>
  "except_os m h s = (case m s of (Inl e, s') \<Rightarrow> if os_error e then h e s' else (Inl e, s') | r \<Rightarrow> r)"

section \<open>Flags\<close>

definition CLONE_NEWNS :: int where "CLONE_NEWNS = 0x00020000"
definition CLONE_NEWCGROUP :: int where "CLONE_NEWCGROUP = 0x02000000"
definition CLONE_NEWUTS :: int where "CLONE_NEWUTS = 0x04000000"
definition CLONE_NEWIPC :: int where "CLONE_NEWIPC = 0x08000000"
definition CLONE_NEWUSER :: int where "CLONE_NEWUSER = 0x10000000"
definition CLONE_NEWPID :: int where "CLONE_NEWPID = 0x20000000"
definition CLONE_NEWNET :: int where "CLONE_NEWNET = 0x40000000"

definition MS_REMOUNT :: int where "MS_REMOUNT = 32"
definition MS_REC :: int where "MS_REC = 16384"
definition MS_PRIVATE :: int where "MS_PRIVATE = push_bit 18 1"
definition MNT_DETACH :: int where "MNT_DETACH = 2"

definition NAMESPACES :: "(string \<times> int) list" where
  "NAMESPACES = [(''mnt'', CLONE_NEWNS), (''cgroup'', CLONE_NEWCGROUP), (''uts'', CLONE_NEWUTS), (''ipc'', CLONE_NEWIPC),
     (''user'', CLONE_NEWUSER), (''pid'', CLONE_NEWPID), (''net'', CLONE_NEWNET)]"

section \<open>Wrappers\<close>

definition linux_unshare :: "kernel \<Rightarrow> int \<Rightarrow> (unit, sys_log) act" where
  "linux_unshare k flags = sys k (SUnshare flags)"

definition linux_mount :: "kernel \<Rightarrow> string \<Rightarrow> string \<Rightarrow> string option \<Rightarrow> int \<Rightarrow> string option \<Rightarrow> (unit, sys_log) act" where
  "linux_mount k source target fstype flags data = sys k (SMount source target fstype flags data)"

definition linux_umount :: "kernel \<Rightarrow> string \<Rightarrow> int \<Rightarrow> (unit, sys_log) act" where
  "linux_umount k target flags = sys k (SUmount target flags)"

definition linux_pivot_root :: "kernel \<Rightarrow> string \<Rightarrow> string \<Rightarrow> (unit, sys_log) act" where
  "linux_pivot_root k new_root put_old = sys k (SPivot new_root put_old)"

definition linux_sethostname :: "kernel \<Rightarrow> string \<Rightarrow> (unit, sys_log) act" where
  "linux_sethostname k name = sys k (SHostname name)"

definition linux_setns :: "kernel \<Rightarrow> int \<Rightarrow> int \<Rightarrow> (unit, sys_log) act" where
  "linux_setns k fd nstype = sys k (SSetns fd nstype)"

definition make_root_private :: "kernel \<Rightarrow> (unit, sys_log) act" where
  "make_root_private k = linux_mount k ''none'' ''/'' None (MS_REC OR MS_PRIVATE) None"

section \<open>What the kernel supports\<close>

definition namespace_ids :: "(string \<Rightarrow> string option) \<Rightarrow> (string \<times> string) list" where
  \<comment> \<open>the argument is the target of a link below \<open>/proc/<pid>/ns\<close>, if it can be read\<close>
  "namespace_ids links = List.map_filter (\<lambda>nm. map_option (Pair nm) (links nm))
     [''user'', ''mnt'', ''pid'', ''net'', ''uts'', ''ipc'', ''cgroup'']"

definition hex_digit_val :: "char \<Rightarrow> nat option" where
  "hex_digit_val c =
     (if is_digit c then Some (digit_val c)
      else if CHR ''a'' \<le> c \<and> c \<le> CHR ''f'' then Some (code_of c - 87)
      else if CHR ''A'' \<le> c \<and> c \<le> CHR ''F'' then Some (code_of c - 55) else None)"

fun parse_hex :: "string \<Rightarrow> int \<Rightarrow> int option" where
  "parse_hex [] n = Some n"
| "parse_hex (c # cs) n = (case hex_digit_val c of Some d \<Rightarrow> parse_hex cs (16 * n + int d) | None \<Rightarrow> None)"

fun effective_capabilities :: "string list \<Rightarrow> int res" where
  \<comment> \<open>the loop over the lines of \<open>/proc/<pid>/status\<close>; the kernel writes plain hexadecimal digits\<close>
  "effective_capabilities [] = Inr 0"
| "effective_capabilities (line # rest) =
     (if starts_with line ''CapEff:'' then
        (case py_split line of
           f # v # _ \<Rightarrow> (case parse_hex v 0 of Some n \<Rightarrow> Inr n | None \<Rightarrow> Inl (ValueError ''invalid literal for int()''))
         | _ \<Rightarrow> Inl (IndexError ''list index out of range''))
      else effective_capabilities rest)"

definition has_capability :: "nat \<Rightarrow> string list \<Rightarrow> bool res" where
  "has_capability b status = ebind (effective_capabilities status) (\<lambda>caps. Inr (caps AND push_bit b 1 \<noteq> 0))"

definition userns_available :: "(string \<Rightarrow> string option) \<Rightarrow> (bool \<times> string) res" where
  \<comment> \<open>the argument is the text of a file, if it can be read\<close>
  "userns_available files =
     (let knob = (\<lambda>p. case files p of None \<Rightarrow> None | Some txt \<Rightarrow> parse_int (strip txt));
          clone = ''/proc/sys/kernel/unprivileged_userns_clone'';
          apparmor = ''/proc/sys/kernel/apparmor_restrict_unprivileged_userns'';
          rest = (if knob clone = Some 0 then (False, ''kernel.unprivileged_userns_clone is 0'')
             else if knob apparmor = Some 1 then (False, ''AppArmor restricts unprivileged user namespaces'')
             else (True, ''available''))
      in case files ''/proc/sys/user/max_user_namespaces'' of
           None \<Rightarrow> Inr rest
         | Some txt \<Rightarrow> (case parse_int (strip txt) of
             None \<Rightarrow> Inl (ValueError ''invalid literal for int()'')
           | Some n \<Rightarrow> if n = 0 then Inr (False, ''user.max_user_namespaces is 0'') else Inr rest))"

definition fork_thread_hazard :: "bool \<Rightarrow> string option \<Rightarrow> bool \<times> string" where
  \<comment> \<open>whether gRPC is loaded, and the variable \<open>GRPC_ENABLE_FORK_SUPPORT\<close>\<close>
  "fork_thread_hazard grpc_loaded support =
     (if grpc_loaded \<and> support \<noteq> Some ''0''
      then (True, ''gRPC is loaded in this process with fork support enabled, so its ''
        @ ''pthread_atfork handler starts threads in every forked child, and ''
        @ ''unshare(CLONE_NEWUSER) then fails with EINVAL. Set GRPC_ENABLE_FORK_SUPPORT=0 before importing grpc'')
      else (False, []))"

definition overlayfs_in_userns :: "string option \<Rightarrow> bool" where
  \<comment> \<open>the text of \<open>/proc/version\<close>\<close>
  "overlayfs_in_userns version =
     (case version of None \<Rightarrow> False | Some txt \<Rightarrow>
       (case py_split txt of
          _ # _ # release # _ \<Rightarrow>
            (case map parse_int (take 2 (split_char CHR ''.'' release)) of
               [Some major, Some minor] \<Rightarrow> 5 < major \<or> (major = 5 \<and> 11 \<le> minor)
             | _ \<Rightarrow> False)
        | _ \<Rightarrow> False))"

section \<open>Mounting\<close>

definition if_exists :: "kernel \<Rightarrow> string \<Rightarrow> (bool \<Rightarrow> ('a, sys_log) act) \<Rightarrow> ('a, sys_log) act" where
  "if_exists k p f lg = f (kn_exists k lg p) lg"

definition path_dirname :: "string \<Rightarrow> string" where
  "path_dirname p = fst (path_split p)"

definition mount_body :: "kernel \<Rightarrow> string \<Rightarrow> mount_entry \<Rightarrow> (bool, sys_log) act" where
  \<comment> \<open>the \<open>try\<close> of \<open>Mount.apply\<close>\<close>
  "mount_body k cdir m =
     (let target = path_join cdir (lstrip_char CHR ''/'' (mo_target m));
          fix_target = abind (sys k (SMakedirs target)) (\<lambda>_. aret True)
      in abind (if mo_flags m AND MS_BIND \<noteq> 0 then
             if_exists k (mo_source m) (\<lambda>there.
               if \<not> there then
                 (if mo_optional m then aret False else alift (Inl (FileNotFoundError (mo_source m))))
               else (\<lambda>lg. if kn_isdir k lg (mo_source m) then fix_target lg
                 else abind (sys k (SMakedirs (path_dirname target))) (\<lambda>_.
                   if_exists k target (\<lambda>made. if made then aret True
                     else abind (sys k (SCreate target)) (\<lambda>_. aret True))) lg))
           else fix_target)
         (\<lambda>go. if go then abind (linux_mount k (mo_source m) target (mo_fstype m) (mo_flags m) (mo_data m)) (\<lambda>_. aret True)
               else aret False))"

definition mount_apply :: "kernel \<Rightarrow> string \<Rightarrow> mount_entry \<Rightarrow> (bool, sys_log) act" where
  \<comment> \<open>\<open>Mount.apply\<close>\<close>
  "mount_apply k cdir m = except_os (mount_body k cdir m) (\<lambda>e. if mo_optional m then aret False else alift (Inl e))"

definition overlay_prepare :: "kernel \<Rightarrow> string \<Rightarrow> string list \<Rightarrow> (overlay, sys_log) act" where
  "overlay_prepare k base lowers =
     (let r = \<lparr>ov_merged = path_join base ''merged'', ov_upper = path_join base ''upper'',
               ov_work = path_join base ''work'', ov_lowers = lowers\<rparr>
      in abind (aeach (\<lambda>p. sys k (SMakedirs p)) [ov_merged r, ov_upper r, ov_work r]) (\<lambda>_. aret r))"

fun strerror_of :: "exc \<Rightarrow> string" where
  "strerror_of (OSError t) = t"
| "strerror_of (FileNotFoundError t) = t"
| "strerror_of (ChildProcessError t) = t"
| "strerror_of (ProcessLookupError t) = t"
| "strerror_of _ = []"

definition overlay_mount :: "kernel \<Rightarrow> overlay \<Rightarrow> (unit, sys_log) act" where
  "overlay_mount k r =
     except_os (abind (alift (overlay_options r)) (\<lambda>options.
         linux_mount k ''overlay'' (ov_merged r) (Some ''overlay'') 0 (Some options)))
       (\<lambda>e. alift (Inl (NotSupported (''overlayfs mount failed ('' @ strerror_of e @ ''). Unprivileged overlayfs needs ''
          @ ''Linux 5.11+ and a user namespace; on older kernels a runtime must fall ''
          @ ''back to copying each layer into a private rootfs.''))))"

definition overlay_unmount :: "kernel \<Rightarrow> overlay \<Rightarrow> (unit, sys_log) act" where
  "overlay_unmount k r = except_os (linux_umount k (ov_merged r) MNT_DETACH) (\<lambda>e. aret ())"

definition overlay_diff :: "fs \<Rightarrow> path \<Rightarrow> string list" where
  \<comment> \<open>\<open>OverlayRoot.diff\<close> of the upper directory\<close>
  "overlay_diff fs up =
     sort (concat (map (\<lambda>(d, dirs, names). map (\<lambda>n. ''/'' @ rel_text (drop (length up) d @ [n])) names) (walk_tree fs up)))"

definition overlay_cleanup :: "kernel \<Rightarrow> overlay \<Rightarrow> (unit, sys_log) act" where
  \<comment> \<open>\<open>run_helper\<close> raises \<open>RuntimeError\<close> when the helper fails, which is ignored\<close>
  "overlay_cleanup k r =
     (let targets = [ov_upper r, ov_work r, ov_merged r] in
      abind (overlay_unmount k r) (\<lambda>_.
      abind (aeach (\<lambda>p. except_os (sys k (SRmtree p)) (\<lambda>e. aret ())) targets) (\<lambda>_ lg.
      let remaining = filter (kn_exists k lg) targets in
      if remaining = [] then (Inr (), lg) else (Inr (), snd (sys k (SRemoveHelper remaining) lg)))))"

definition remount_root_readonly :: "kernel \<Rightarrow> (unit, sys_log) act" where
  "remount_root_readonly k = linux_mount k ''none'' ''/'' None (MS_REMOUNT OR MS_BIND OR MS_RDONLY) None"

definition enter_root :: "kernel \<Rightarrow> string \<Rightarrow> (unit, sys_log) act" where
  "enter_root k cdir =
     (let old_root = path_join cdir ''.oldroot'' in
      abind (linux_mount k cdir cdir None (MS_BIND OR MS_REC) None) (\<lambda>_.
      abind (sys k (SMakedirs old_root)) (\<lambda>_.
      abind (linux_pivot_root k cdir old_root) (\<lambda>_.
      abind (sys k (SChdir ''/'')) (\<lambda>_.
      abind (linux_umount k ''/.oldroot'' MNT_DETACH) (\<lambda>_.
      except_os (sys k (SRmdir ''/.oldroot'')) (\<lambda>e. aret ())))))))"

definition write_if_absent :: "kernel \<Rightarrow> string \<Rightarrow> string \<Rightarrow> (unit, sys_log) act" where
  "write_if_absent k p content =
     if_exists k p (\<lambda>there. if there then aret () else except_os (sys k (SWrite p content)) (\<lambda>e. aret ()))"

definition write_container_files :: "kernel \<Rightarrow> string \<Rightarrow> string \<Rightarrow> (string \<times> string) list \<Rightarrow> (unit, sys_log) act" where
  "write_container_files k cdir hostname extra =
     (let etc = path_join cdir ''etc''; fallback = ''nameserver 1.1.1.1'' @ [CHR 0x0A] in
      abind (sys k (SMakedirs etc)) (\<lambda>_.
      abind (write_if_absent k (path_join etc ''hosts'') (hosts_text hostname extra)) (\<lambda>_.
      abind (write_if_absent k (path_join etc ''hostname'') (hostname @ [CHR 0x0A])) (\<lambda>_ lg.
      let content = (if kn_exists k lg ''/etc/resolv.conf''
             then (case kn_read k lg ''/etc/resolv.conf'' of Some t \<Rightarrow> t | None \<Rightarrow> fallback) else fallback)
      in write_if_absent k (path_join etc ''resolv.conf'') content lg))))"

section \<open>Control groups\<close>

definition CGROUP_ROOT :: string where "CGROUP_ROOT = ''/sys/fs/cgroup''"

record cgroup_host =
  ch_uid :: int
  ch_own :: "string list option"
  ch_writable :: "string \<Rightarrow> bool"
  ch_mkdir :: "string \<Rightarrow> unit res"
  ch_controllers :: "string \<Rightarrow> string option"
  ch_refuses :: "string \<Rightarrow> string \<Rightarrow> bool"

definition own_cgroup :: "string list option \<Rightarrow> string option" where
  \<comment> \<open>the lines of \<open>/proc/self/cgroup\<close>\<close>
  "own_cgroup file =
     (case file of None \<Rightarrow> None
      | Some ls \<Rightarrow> map_option (\<lambda>l. path_join CGROUP_ROOT (lstrip_char CHR ''/'' (drop 3 (strip l))))
          (find (\<lambda>l. starts_with l ''0::'') ls))"

definition delegated_root :: "cgroup_host \<Rightarrow> string res" where
  "delegated_root h =
     (let uid = str_int (ch_uid h);
          candidates = (CGROUP_ROOT @ ''/user.slice/user-'' @ uid @ ''.slice/user@'' @ uid @ ''.service'')
            # (case own_cgroup (ch_own h) of Some p \<Rightarrow> [p] | None \<Rightarrow> [])
      in case find (\<lambda>c. c \<noteq> [] \<and> ch_writable h (path_join c ''cgroup.procs'')) candidates of
           Some c \<Rightarrow> Inr c
         | None \<Rightarrow> Inl (CgroupUnavailable (''no writable cgroup v2 directory for uid '' @ uid)))"

definition available_controllers :: "cgroup_host \<Rightarrow> string \<Rightarrow> string list" where
  \<comment> \<open>sorted, as every reader sorts them\<close>
  "available_controllers h p = (case ch_controllers h p of None \<Rightarrow> [] | Some t \<Rightarrow> sort (remdups (py_split t)))"

record group =
  gr_name :: string
  gr_path :: string
  gr_leaf :: string
  gr_cg :: cgroup

definition new_group :: "cgroup_host \<Rightarrow> string \<Rightarrow> string option \<Rightarrow> group res" where
  \<comment> \<open>\<open>Cgroup(name, parent)\<close>\<close>
  "new_group h name parent =
     ebind (case parent of Some (c # cs) \<Rightarrow> Inr (c # cs) | _ \<Rightarrow> delegated_root h) (\<lambda>p.
     let d = path_join p name in
     Inr \<lparr>gr_name = name, gr_path = d, gr_leaf = path_join d ''leaf'', gr_cg = \<lparr>cg_enabled = [], cg_log = []\<rparr>\<rparr>)"

definition group_create :: "cgroup_host \<Rightarrow> limits option \<Rightarrow> group \<Rightarrow> group res" where
  \<comment> \<open>\<open>Cgroup.create\<close> with its directories\<close>
  "group_create h lims gr =
     ebind (ch_mkdir h (gr_path gr)) (\<lambda>_.
     let g = cg_create (ch_refuses h) (available_controllers h (gr_path gr)) None (gr_cg gr) in
     ebind (ch_mkdir h (gr_leaf gr)) (\<lambda>_.
     Inr (gr\<lparr>gr_cg := (case lims of Some l \<Rightarrow> if limits_empty l then g else snd (cg_apply (ch_refuses h) l g) | None \<Rightarrow> g)\<rparr>)))"

definition group_apply :: "cgroup_host \<Rightarrow> limits \<Rightarrow> group \<Rightarrow> string list \<times> group" where
  "group_apply h l gr = (case cg_apply (ch_refuses h) l (gr_cg gr) of (skipped, g) \<Rightarrow> (skipped, gr\<lparr>gr_cg := g\<rparr>))"

record usage =
  us_memory_current :: int
  us_memory_peak :: int
  us_memory_max_events :: int
  us_cpu_usage_us :: int
  us_pids_current :: int
  us_memory_events :: "(string \<times> int) list option"

definition no_usage :: usage where
  "no_usage = \<lparr>us_memory_current = 0, us_memory_peak = 0, us_memory_max_events = 0, us_cpu_usage_us = 0,
     us_pids_current = 0, us_memory_events = None\<rparr>"

definition event_count :: "string \<Rightarrow> usage \<Rightarrow> int" where
  "event_count nm u = (case map_of (case us_memory_events u of Some m \<Rightarrow> m | None \<Rightarrow> []) nm of Some n \<Rightarrow> n | None \<Rightarrow> 0)"

definition oom_kills :: "usage \<Rightarrow> int" where "oom_kills u = event_count ''oom_kill'' u"

definition throttled_high :: "usage \<Rightarrow> int" where "throttled_high u = event_count ''high'' u"

definition group_usage :: "(string \<Rightarrow> string option) \<Rightarrow> usage" where
  \<comment> \<open>the argument is the text of a file of the leaf, if it can be read\<close>
  "group_usage files =
     (let keyed = (\<lambda>f. case files f of None \<Rightarrow> [] | Some t \<Rightarrow> read_keyed (split_char CHR 0x0A t) []);
          entry = (\<lambda>f key. case map_of (keyed f) key of Some n \<Rightarrow> n | None \<Rightarrow> 0)
      in \<lparr>us_memory_current = cg_read_int (files ''memory.current''), us_memory_peak = cg_read_int (files ''memory.peak''),
          us_memory_max_events = entry ''memory.events'' ''max'', us_cpu_usage_us = entry ''cpu.stat'' ''usage_usec'',
          us_pids_current = cg_read_int (files ''pids.current''), us_memory_events = Some (keyed ''memory.events'')\<rparr>)"

definition group_processes :: "string option \<Rightarrow> int list res" where
  \<comment> \<open>the text of \<open>cgroup.procs\<close> of the leaf\<close>
  "group_processes file =
     (case file of None \<Rightarrow> Inr []
      | Some t \<Rightarrow> emap (\<lambda>l. py_int (JStr l)) (filter (\<lambda>l. strip l \<noteq> []) (split_char CHR 0x0A t)))"

definition group_kill_all :: "cgroup_host \<Rightarrow> string option \<Rightarrow> group \<Rightarrow> int list option res \<times> group" where
  \<comment> \<open>\<open>kill_all\<close>: \<open>None\<close> when \<open>cgroup.kill\<close> took every process at once, otherwise the processes that are sent
    \<open>SIGKILL\<close> one by one\<close>
  "group_kill_all h procs gr =
     (case cg_write (ch_refuses h) ''cgroup.kill'' ''1'' (gr_cg gr) of
        (Inr _, g) \<Rightarrow> (Inr None, gr\<lparr>gr_cg := g\<rparr>)
      | (Inl e, g) \<Rightarrow> (ebind (group_processes procs) (\<lambda>ps. Inr (Some ps)), gr\<lparr>gr_cg := g\<rparr>))"

fun destroy_loop :: "unit res list \<Rightarrow> bool" where
  \<comment> \<open>the attempts at removing the leaf before the deadline; whether the loop ends before it\<close>
  "destroy_loop [] = False"
| "destroy_loop (Inr _ # rest) = True"
| "destroy_loop (Inl (FileNotFoundError _) # rest) = True"
| "destroy_loop (Inl _ # rest) = destroy_loop rest"

definition group_destroy :: "unit res list \<Rightarrow> unit res \<Rightarrow> bool \<times> bool" where
  \<comment> \<open>whether the leaf and the group are gone; errors are ignored\<close>
  "group_destroy attempts path_removal = (destroy_loop attempts, path_removal = Inr ())"

end
