(* ===== verification/Container_Init.thy ===== *)
theory Container_Init
  imports Container_Setup Container_Image
begin

text \<open>
  The two inner processes of a container, \<open>modules/container-runtime/minicon/container.py\<close>: C, which creates the
  namespaces and supervises (\<open>_child\<close>), and G, process 1 inside (\<open>_init\<close>, \<open>_exec\<close>, \<open>_run_as_init\<close>).  A process is
  a run over the kernel of \<open>Container_Setup\<close>; its end is the status that its parent reaps.
\<close>

section \<open>Configuration\<close>

record container_config =
  cc_image :: string
  cc_name :: string
  cc_argv :: "string list"
  cc_env :: "(string \<times> string) list"
  cc_workdir :: string
  cc_user :: string
  cc_hostname :: string
  cc_limits :: limits
  cc_readonly_root :: bool
  cc_use_init :: bool
  cc_network :: string
  cc_tmpfs_size :: string
  cc_extra_hosts :: "(string \<times> string) list"
  cc_stdout_path :: string
  cc_stderr_path :: string

definition CONTAINER_NAMESPACES :: int where
  "CONTAINER_NAMESPACES = CLONE_NEWUSER OR CLONE_NEWNS OR CLONE_NEWPID OR CLONE_NEWNET OR CLONE_NEWUTS
     OR CLONE_NEWIPC OR CLONE_NEWCGROUP"

section \<open>Wait statuses\<close>

datatype wstatus = Exited nat | Signaled nat

fun exit_code :: "wstatus \<Rightarrow> nat" where
  \<comment> \<open>\<open>os.WEXITSTATUS(status) if os.WIFEXITED(status) else 128 + os.WTERMSIG(status)\<close>\<close>
  "exit_code (Exited n) = n"
| "exit_code (Signaled s) = 128 + s"

definition exits :: "nat \<Rightarrow> wstatus" where
  \<comment> \<open>\<open>os._exit(code)\<close>: the kernel keeps eight bits\<close>
  "exits code = Exited (code mod 256)"

section \<open>Process 1\<close>

definition open_outputs :: "kernel \<Rightarrow> container_config \<Rightarrow> (bool list, sys_log) act" where
  \<comment> \<open>which outputs have a file\<close>
  "open_outputs k cfg = afold (\<lambda>p fds. if p \<noteq> [] then abind (sys k (SOpenOut p)) (\<lambda>_. aret (fds @ [True]))
       else aret (fds @ [False])) [cc_stdout_path cfg, cc_stderr_path cfg] []"

fun dup_outputs :: "kernel \<Rightarrow> nat \<Rightarrow> bool list \<Rightarrow> (unit, sys_log) act" where
  "dup_outputs k target [] = aret ()"
| "dup_outputs k target (fd # fds) =
     abind (if fd then sys k (SDup target) else aret ()) (\<lambda>_. dup_outputs k (Suc target) fds)"

definition container_env :: "container_config \<Rightarrow> string \<Rightarrow> (string \<times> string) list \<Rightarrow> (string \<times> string) list" where
  \<comment> \<open>the image's environment, updated, with defaults\<close>
  "container_env cfg hostname image_env =
     (let env = foldl (\<lambda>m (n, v). AList.update n v m) image_env (cc_env cfg);
          dflt = (\<lambda>n v m. if map_of m n = None then AList.update n v m else m)
      in dflt ''HOSTNAME'' hostname (dflt ''HOME'' ''/root'' env))"

definition enter_workdir :: "kernel \<Rightarrow> string \<Rightarrow> (unit, sys_log) act" where
  "enter_workdir k wd =
     except_os (sys k (SChdir wd)) (\<lambda>e. abind (sys k (SMakedirs wd)) (\<lambda>_. sys k (SChdir wd)))"

definition init_report :: "rat \<times> rat \<times> rat \<Rightarrow> string list \<Rightarrow> json" where
  "init_report spent skipped = (case spent of (o_s, m_s, p_s) \<Rightarrow>
     JObj (fmap_of_list [(''overlay_s'', JNum o_s), (''mounts_s'', JNum m_s), (''pivot_s'', JNum p_s),
       (''skipped_mounts'', JList (map JStr skipped))]))"

definition init_process ::
  "kernel \<Rightarrow> container_config \<Rightarrow> string \<Rightarrow> mc_image \<Rightarrow> overlay \<Rightarrow> rat \<times> rat \<times> rat \<Rightarrow> ((string \<times> string) list, sys_log) act" where
  \<comment> \<open>\<open>_init\<close> up to the choice of how to run the workload; the measured times are an argument\<close>
  "init_process k cfg name im ov spent =
     (let hostname = (if cc_hostname cfg \<noteq> [] then cc_hostname cfg else name) in
      abind (open_outputs k cfg) (\<lambda>fds.
      abind (make_root_private k) (\<lambda>_.
      abind (overlay_mount k ov) (\<lambda>_.
      abind (write_container_files k (ov_merged ov) hostname (cc_extra_hosts cfg)) (\<lambda>_.
      abind (apply_mounts (mount_apply k (ov_merged ov)) (default_mounts (cc_tmpfs_size cfg)) []) (\<lambda>skipped.
      abind (enter_root k (ov_merged ov)) (\<lambda>_.
      abind (linux_sethostname k hostname) (\<lambda>_.
      abind (if cc_readonly_root cfg then remount_root_readonly k else aret ()) (\<lambda>_.
      abind (if cc_network cfg = ''private'' then except_os (sys k (SLinkUp ''lo'')) (\<lambda>e. aret ()) else aret ()) (\<lambda>_.
      abind (alift (mc_env im)) (\<lambda>ienv.
      abind (alift (if cc_workdir cfg \<noteq> [] then Inr (cc_workdir cfg) else mc_working_dir im)) (\<lambda>wd.
      abind (enter_workdir k (if wd \<noteq> [] then wd else ''/'')) (\<lambda>_.
      abind (sys k (SReport (init_report spent skipped))) (\<lambda>_.
      abind (dup_outputs k 1 fds) (\<lambda>_.
      aret (container_env cfg hostname ienv))))))))))))))))"

datatype image_run = Workload | Ends wstatus

definition exec_workload :: "kernel \<Rightarrow> string list \<Rightarrow> (string \<times> string) list \<Rightarrow> sys_log \<Rightarrow> image_run \<times> sys_log" where
  \<comment> \<open>\<open>_exec\<close>: what the process becomes, or how it ends\<close>
  "exec_workload k argv env lg =
     (case sys k (SExec argv env) lg of
        (Inr _, lg') \<Rightarrow> (Workload, lg')
      | (Inl (FileNotFoundError t), lg') \<Rightarrow> (Ends (exits 127), lg')
      | (Inl e, lg') \<Rightarrow> (Ends (exits 126), lg'))"

definition init_main ::
  "kernel \<Rightarrow> container_config \<Rightarrow> string \<Rightarrow> mc_image \<Rightarrow> overlay \<Rightarrow> rat \<times> rat \<times> rat \<Rightarrow> string list \<Rightarrow> sys_log \<Rightarrow> image_run \<times> sys_log" where
  \<comment> \<open>G, or with \<open>use_init\<close> the child it forks for the workload; an exception ends G inside the \<open>try\<close> of \<open>_child\<close>\<close>
  "init_main k cfg name im ov spent argv lg =
     (case init_process k cfg name im ov spent lg of
        (Inl e, lg') \<Rightarrow> (Ends (exits 125), lg')
      | (Inr env, lg') \<Rightarrow> exec_workload k argv env lg')"

section \<open>Process 1 as a supervisor\<close>

datatype wait_event = Reaps int wstatus | NoChildren | Interrupted

fun supervise :: "int \<Rightarrow> wait_event list \<Rightarrow> wstatus option" where
  \<comment> \<open>the outer loop of \<open>_run_as_init\<close> over the answers of \<open>os.wait\<close>; \<open>None\<close>: still waiting\<close>
  "supervise child [] = None"
| "supervise child (NoChildren # rest) = Some (exits 0)"
| "supervise child (Interrupted # rest) = supervise child rest"
| "supervise child (Reaps pid st # rest) =
     (if pid = child then Some (exits (exit_code st)) else supervise child rest)"

fun reap_pending :: "int res list \<Rightarrow> nat" where
  \<comment> \<open>the inner loop over the answers of \<open>os.waitpid(-1, WNOHANG)\<close>: how many were reaped\<close>
  "reap_pending [] = 0"
| "reap_pending (Inl _ # rest) = 0"
| "reap_pending (Inr pid # rest) = (if pid = 0 then 0 else Suc (reap_pending rest))"

definition forwarded :: "nat list" where
  \<comment> \<open>\<open>SIGTERM\<close>, \<open>SIGINT\<close>, \<open>SIGHUP\<close>, \<open>SIGQUIT\<close>, \<open>SIGUSR1\<close>, \<open>SIGUSR2\<close>\<close>
  "forwarded = [15, 2, 1, 3, 10, 12]"

section \<open>The child that owns the namespaces\<close>

definition child_prepare ::
  "kernel \<Rightarrow> (exc \<Rightarrow> string) \<Rightarrow> bool \<Rightarrow> int \<Rightarrow> bool \<times> string \<Rightarrow> sys_log \<Rightarrow> (string \<times> wstatus option) \<times> sys_log" where
  \<comment> \<open>\<open>_child\<close> up to the wait for "go": what it writes to the pipe, and its end if it ends\<close>
  "child_prepare k show has_cgroup pid hazard lg =
     (case (if has_cgroup then sys k (SJoin pid) lg else (Inr (), lg)) of
        (Inl e, lg1) \<Rightarrow> (([], Some (exits 125)), lg1)
      | (Inr _, lg1) \<Rightarrow>
        (case linux_unshare k CONTAINER_NAMESPACES lg1 of
           (Inl e, lg2) \<Rightarrow>
             ((''E'' @ take 3000 (show e @ (if snd hazard \<noteq> [] then '' - '' @ snd hazard else [])), Some (exits 125)), lg2)
         | (Inr _, lg2) \<Rightarrow> ((''R'', None), lg2)))"

definition child_end :: "string \<Rightarrow> wstatus \<Rightarrow> wstatus" where
  \<comment> \<open>the rest of \<open>_child\<close>: the byte read from the pipe, then the status of G that it reaps\<close>
  "child_end go st = (if go \<noteq> ''G'' then exits 126 else exits (exit_code st))"

fun relay :: "int \<Rightarrow> bool \<Rightarrow> nat \<Rightarrow> (nat \<times> int) list" where
  \<comment> \<open>the signals a handler sends on; \<open>ProcessLookupError\<close> is ignored\<close>
  "relay target gone signum = (if gone then [] else [(signum, target)])"

section \<open>The report\<close>

fun read_chunks :: "nat \<Rightarrow> string list \<Rightarrow> string \<Rightarrow> string" where
  \<comment> \<open>the loop of \<open>_read_line\<close> over what \<open>os.read\<close> returns, nothing at the end of the pipe\<close>
  "read_chunks limit [] buffer = buffer"
| "read_chunks limit (chunk # rest) buffer =
     (if CHR 0x0A \<in> set buffer \<or> length buffer \<ge> limit \<or> chunk = [] then buffer
      else read_chunks limit rest (buffer @ chunk))"

definition read_line :: "(string \<Rightarrow> json res) \<Rightarrow> string list \<Rightarrow> json res" where
  \<comment> \<open>\<open>_read_line\<close>; \<open>loads\<close> is \<open>json.loads\<close>, \<open>JSONDecodeError\<close> a \<open>ValueError\<close>\<close>
  "read_line loads chunks =
     (let buffer = read_chunks 65536 chunks [] in
      if strip buffer = [] then Inr (JObj fmempty)
      else (case loads (hd (split_char CHR 0x0A buffer)) of
              Inl (ValueError t) \<Rightarrow> Inr (JObj fmempty)
            | r \<Rightarrow> r))"

end
