(* ===== verification/Id_Map.thy ===== *)
theory Id_Map
  imports Py_Text
begin

text \<open>
  Identity maps of user namespaces, \<open>modules/container-runtime/minicon/idmap.py\<close>: the ranges, the three
  strategies, the choice for an image's \<open>USER\<close>, and what is written to install a map.  The host (own
  identity, the \<open>subuid\<close>/\<open>subgid\<close> files, whether the setuid helpers are installed) is a record; the
  files of \<open>/proc\<close> that refuse a write and the exit of a helper are arguments, and every write and every
  command is logged in order.
\<close>

section \<open>Ranges and mappings\<close>

record id_range =
  ir_inside :: int
  ir_outside :: int
  ir_count :: int

definition range_render :: "id_range \<Rightarrow> string" where
  "range_render r = str_int (ir_inside r) @ '' '' @ str_int (ir_outside r) @ '' '' @ str_int (ir_count r)"

record id_mapping =
  im_uids :: "id_range list"
  im_gids :: "id_range list"
  im_strategy :: string

definition needs_helper :: "id_mapping \<Rightarrow> bool" where
  "needs_helper m = (length (im_uids m) > 1 \<or> length (im_gids m) > 1)"

definition container_root_uid :: "id_mapping \<Rightarrow> int res" where
  "container_root_uid m =
     (case im_uids m of [] \<Rightarrow> Inl (IndexError ''list index out of range'') | r # _ \<Rightarrow> Inr (ir_inside r))"

definition in_range :: "int \<Rightarrow> id_range \<Rightarrow> bool" where
  "in_range u r = (ir_inside r \<le> u \<and> u < ir_inside r + ir_count r)"

definition maps_uid :: "id_mapping \<Rightarrow> int \<Rightarrow> bool" where
  "maps_uid m u = list_ex (in_range u) (im_uids m)"

definition mapping_describe :: "id_mapping \<Rightarrow> string" where
  "mapping_describe m = im_strategy m @ '': uid '' @ join '', '' (map range_render (im_uids m))
     @ '' | gid '' @ join '', '' (map range_render (im_gids m))"

section \<open>The host\<close>

record host =
  ho_uid :: int
  ho_gid :: int
  ho_username :: string
  ho_helper :: bool
  ho_subuid :: "string list option"
  ho_subgid :: "string list option"

fun read_subid :: "host \<Rightarrow> string \<Rightarrow> string list \<Rightarrow> (int \<times> int) res" where
  \<comment> \<open>the loop of \<open>_read_subid\<close>\<close>
  "read_subid h user [] = Inl (LookupError user)"
| "read_subid h user (line # rest) =
     (case split_char CHR '':'' (strip line) of
        [nm, start, cnt] \<Rightarrow>
          if nm = user \<or> nm = str_int (ho_uid h) then
            ebind (py_int (JStr start)) (\<lambda>s. ebind (py_int (JStr cnt)) (\<lambda>c. Inr (s, c)))
          else read_subid h user rest
      | _ \<Rightarrow> read_subid h user rest)"

definition subid_of :: "host \<Rightarrow> string list option \<Rightarrow> string \<Rightarrow> (int \<times> int) res" where
  \<comment> \<open>\<open>_read_subid\<close> with the opening of the file\<close>
  "subid_of h file user =
     (case file of None \<Rightarrow> Inl (FileNotFoundError user) | Some ls \<Rightarrow> read_subid h user ls)"

section \<open>Strategies\<close>

abbreviation idr :: "int \<Rightarrow> int \<Rightarrow> int \<Rightarrow> id_range" where
  "idr i o' n \<equiv> \<lparr>ir_inside = i, ir_outside = o', ir_count = n\<rparr>"

definition root_mapping :: "host \<Rightarrow> id_mapping" where
  "root_mapping h = \<lparr>im_uids = [idr 0 (ho_uid h) 1], im_gids = [idr 0 (ho_gid h) 1], im_strategy = ''root''\<rparr>"

definition single_mapping :: "int \<Rightarrow> int \<Rightarrow> host \<Rightarrow> id_mapping" where
  "single_mapping u g h =
     \<lparr>im_uids = [idr u (ho_uid h) 1], im_gids = [idr g (ho_gid h) 1], im_strategy = ''single''\<rparr>"

definition subid_mapping :: "int \<Rightarrow> host \<Rightarrow> id_mapping res" where
  "subid_mapping sz h =
     ebind (subid_of h (ho_subuid h) (ho_username h)) (\<lambda>(us, uc).
     ebind (subid_of h (ho_subgid h) (ho_username h)) (\<lambda>(gs, gc).
     let cnt = min sz (min uc gc) in
     Inr \<lparr>im_uids = [idr 0 (ho_uid h) 1, idr 1 us (cnt - 1)],
          im_gids = [idr 0 (ho_gid h) 1, idr 1 gs (cnt - 1)], im_strategy = ''subid''\<rparr>))"

fun os_or_lookup :: "exc \<Rightarrow> bool" where
  \<comment> \<open>\<open>except (OSError, LookupError)\<close>\<close>
  "os_or_lookup (FileNotFoundError _) = True"
| "os_or_lookup (OSError _) = True"
| "os_or_lookup (LookupError _) = True"
| "os_or_lookup (KeyError _) = True"
| "os_or_lookup (IndexError _) = True"
| "os_or_lookup _ = False"

definition subid_available :: "host \<Rightarrow> bool res" where
  "subid_available h =
     (case ebind (subid_of h (ho_subuid h) (ho_username h)) (\<lambda>_. subid_of h (ho_subgid h) (ho_username h)) of
        Inr _ \<Rightarrow> Inr True
      | Inl e \<Rightarrow> if os_or_lookup e then Inr False else Inl e)"

definition parse_user :: "string \<Rightarrow> (int \<times> int) res" where
  "parse_user user =
     (let txt = strip (if user = [] then ''0'' else user) in
      if txt = [] \<or> txt = ''root'' \<or> txt = ''root:root'' then Inr (0, 0)
      else (case partition_char CHR '':'' txt of (uid_text, _, gid_text) \<Rightarrow>
        ebind (case py_int (JStr uid_text) of
                 Inl (ValueError _) \<Rightarrow> Inl (ValueError ''names cannot be resolved before the rootfs exists'')
               | r \<Rightarrow> r) (\<lambda>uid.
        ebind (if gid_text = [] then Inr uid else py_int (JStr gid_text)) (\<lambda>gid.
        Inr (uid, gid)))))"

definition plan_for_user :: "bool \<Rightarrow> string \<Rightarrow> host \<Rightarrow> id_mapping res" where
  "plan_for_user allow_helper user h =
     ebind (parse_user user) (\<lambda>(u, g).
     if u = 0 then Inr (root_mapping h)
     else if allow_helper \<and> ho_helper h then
       ebind (subid_available h) (\<lambda>ok. if ok then subid_mapping 65536 h else Inr (single_mapping u g h))
     else Inr (single_mapping u g h))"

section \<open>Installing a map\<close>

record effects =
  ef_writes :: "(string \<times> string) list"
  ef_runs :: "string list list"

definition proc_file :: "int \<Rightarrow> string \<Rightarrow> string" where
  "proc_file pid nm = ''/proc/'' @ str_int pid @ ''/'' @ nm"

definition write_file :: "(string \<Rightarrow> bool) \<Rightarrow> string \<Rightarrow> string \<Rightarrow> (unit, effects) act" where
  \<comment> \<open>\<open>_write\<close>: a file that refuses raises \<open>OSError\<close>\<close>
  "write_file refuses path data ef =
     (if refuses path then (Inl (OSError path), ef)
      else (Inr (), ef\<lparr>ef_writes := ef_writes ef @ [(path, data)]\<rparr>))"

definition map_text :: "id_range list \<Rightarrow> string" where
  "map_text rs = join [CHR 0x0A] (map range_render rs) @ [CHR 0x0A]"

definition helper_argv :: "string \<Rightarrow> int \<Rightarrow> id_range list \<Rightarrow> string list" where
  "helper_argv command pid rs =
     [command, str_int pid]
     @ concat (map (\<lambda>r. [str_int (ir_inside r), str_int (ir_outside r), str_int (ir_count r)]) rs)"

definition run_helper_cmd :: "(string list \<Rightarrow> bool) \<Rightarrow> string list \<Rightarrow> (unit, effects) act" where
  "run_helper_cmd succeeds argv ef =
     (let ef' = ef\<lparr>ef_runs := ef_runs ef @ [argv]\<rparr> in
      if succeeds argv then (Inr (), ef') else (Inl (RuntimeError (join '' '' argv @ '' failed'')), ef'))"

definition write_maps ::
  "(string \<Rightarrow> bool) \<Rightarrow> (string list \<Rightarrow> bool) \<Rightarrow> host \<Rightarrow> int \<Rightarrow> id_mapping \<Rightarrow> (unit, effects) act" where
  "write_maps refuses succeeds h pid m =
     (if needs_helper m then
        (if \<not> ho_helper h then alift (Inl (RuntimeError ''newuidmap/newgidmap are not installed''))
         else abind (run_helper_cmd succeeds (helper_argv ''newuidmap'' pid (im_uids m))) (\<lambda>_.
              run_helper_cmd succeeds (helper_argv ''newgidmap'' pid (im_gids m))))
      else
        abind (\<lambda>ef. (Inr (), snd (write_file refuses (proc_file pid ''setgroups'') ''deny'' ef))) (\<lambda>_.
        abind (write_file refuses (proc_file pid ''uid_map'') (map_text (im_uids m))) (\<lambda>_.
        write_file refuses (proc_file pid ''gid_map'') (map_text (im_gids m)))))"

section \<open>Properties\<close>

lemma subid_maps: "maps_uid \<lparr>im_uids = [idr 0 a 1, idr 1 b (n - 1)], im_gids = gs, im_strategy = s\<rparr> u
    \<longleftrightarrow> u = 0 \<or> (1 \<le> u \<and> u < n)"
  by (auto simp: maps_uid_def in_range_def)

text \<open>C34: The plan for a user maps that user: with root or a single identity always, and with a
  delegated range exactly when the user lies below the size of the range.  Without the helper every
  plan is one line that maps the caller's own identity, which is what the kernel allows.\<close>

theorem plan_maps_user:
  assumes "plan_for_user allow user h = Inr m" "parse_user user = Inr (u, g)"
  shows "(maps_uid m u \<longleftrightarrow> (im_strategy m = ''subid'' \<longrightarrow> u = 0 \<or> (\<exists>us uc gs gc.
           subid_of h (ho_subuid h) (ho_username h) = Inr (us, uc) \<and> subid_of h (ho_subgid h) (ho_username h) = Inr (gs, gc)
           \<and> 1 \<le> u \<and> u < min 65536 (min uc gc)))) \<and>
      (needs_helper m \<longrightarrow> allow \<and> ho_helper h \<and> im_strategy m = ''subid'') \<and>
      (\<not> needs_helper m \<longrightarrow> (\<exists>i j. im_uids m = [idr i (ho_uid h) 1] \<and> im_gids m = [idr j (ho_gid h) 1]))"
proof -
  from assms consider (root) "u = 0" "m = root_mapping h" | (single) "m = single_mapping u g h"
    | (subid) "allow" "ho_helper h" "subid_mapping 65536 h = Inr m" "u \<noteq> 0"
    by (auto simp: plan_for_user_def ebind_Inr_iff split: if_splits)
  then show ?thesis
  proof cases
    case root
    then show ?thesis by (simp add: root_mapping_def maps_uid_def in_range_def needs_helper_def)
  next
    case single
    then show ?thesis by (simp add: single_mapping_def maps_uid_def in_range_def needs_helper_def)
  next
    case subid
    then obtain us uc gs gc where s: "subid_of h (ho_subuid h) (ho_username h) = Inr (us, uc)"
        "subid_of h (ho_subgid h) (ho_username h) = Inr (gs, gc)"
        "m = \<lparr>im_uids = [idr 0 (ho_uid h) 1, idr 1 us (min 65536 (min uc gc) - 1)],
          im_gids = [idr 0 (ho_gid h) 1, idr 1 gs (min 65536 (min uc gc) - 1)], im_strategy = ''subid''\<rparr>"
      by (auto simp: subid_mapping_def ebind_Inr_iff Let_def)
    then show ?thesis using subid by (auto simp: subid_maps needs_helper_def)
  qed
qed

definition demo_host :: host where
  "demo_host = \<lparr>ho_uid = 1000, ho_gid = 1000, ho_username = ''u'', ho_helper = True,
     ho_subuid = Some [''u:100000:65536''], ho_subgid = Some [''u:100000:65536'']\<rparr>"

lemma demo_ints [simp]:
  "parse_int ''70000'' = Some 70000" "parse_int ''100000'' = Some 100000" "parse_int ''65536'' = Some 65536"
  by (simp_all add: parse_int_def strip_def is_space_def is_digit_def code_of_def digits_val_def digit_val_def)

lemma demo_plan:
  "parse_user ''70000'' = Inr (70000, 70000)"
  "subid_of demo_host (ho_subuid demo_host) ''u'' = Inr (100000, 65536)"
  "subid_of demo_host (ho_subgid demo_host) ''u'' = Inr (100000, 65536)"
  by (simp_all add: parse_user_def Let_def partition_char_def subid_of_def demo_host_def strip_def is_space_def)

text \<open>The plan for a user outside the delegated range does not map that user at all.\<close>

theorem plan_maps_user_witness:
  "\<exists>m. plan_for_user True ''70000'' demo_host = Inr m \<and> \<not> maps_uid m 70000"
proof -
  have h: "ho_helper demo_host" "ho_username demo_host = ''u''" by (simp_all add: demo_host_def)
  obtain m where m: "plan_for_user True ''70000'' demo_host = Inr m" "im_strategy m = ''subid''"
    using demo_plan h by (simp add: plan_for_user_def subid_available_def subid_mapping_def Let_def)
  show ?thesis
    using plan_maps_user [OF m(1) demo_plan(1)] demo_plan(2,3) h m by auto
qed

text \<open>Without more than one line to install, the map is written in the order the kernel requires:
  groups are denied first, even where that file is missing, then the user map, then the group map, and a
  refused map ends the installation; with more lines the helpers are run for users, then groups,
  and nothing is written.\<close>

theorem write_maps_order:
  "write_maps refuses succeeds h pid m ef =
    (if needs_helper m then
       (if \<not> ho_helper h then (Inl (RuntimeError ''newuidmap/newgidmap are not installed''), ef)
        else let u = helper_argv ''newuidmap'' pid (im_uids m); g = helper_argv ''newgidmap'' pid (im_gids m) in
          if \<not> succeeds u then (Inl (RuntimeError (join '' '' u @ '' failed'')), ef\<lparr>ef_runs := ef_runs ef @ [u]\<rparr>)
          else (if succeeds g then Inr () else Inl (RuntimeError (join '' '' g @ '' failed'')),
                ef\<lparr>ef_runs := ef_runs ef @ [u, g]\<rparr>))
     else let d = (if refuses (proc_file pid ''setgroups'') then [] else [(proc_file pid ''setgroups'', ''deny'')]);
              u = proc_file pid ''uid_map''; g = proc_file pid ''gid_map'' in
       if refuses u then (Inl (OSError u), ef\<lparr>ef_writes := ef_writes ef @ d\<rparr>)
       else if refuses g then (Inl (OSError g), ef\<lparr>ef_writes := ef_writes ef @ d @ [(u, map_text (im_uids m))]\<rparr>)
       else (Inr (), ef\<lparr>ef_writes := ef_writes ef @ d @ [(u, map_text (im_uids m)), (g, map_text (im_gids m))]\<rparr>))"
  by (auto simp: write_maps_def abind_def write_file_def run_helper_cmd_def Let_def)

end
