(* ===== verification/Container_Life.thy ===== *)
theory Container_Life
  imports Container_Init Container_Unpack Id_Map
begin

text \<open>
  The runtime's side of a container, \<open>modules/container-runtime/minicon/container.py\<close>: \<open>create\<close>, \<open>start\<close>, \<open>wait\<close>,
  \<open>kill\<close>, \<open>delete\<close> over the object, the host and the two processes it depends on.  \<open>start\<close> runs the models of
  both inner processes (\<open>Container_Init\<close>), each over its own kernel.  A process ends on its own, C reaps
  G and the runtime reaps C; what happens between two looks of a polling loop is an argument.  Times and
  measured durations are arguments.
\<close>

section \<open>State\<close>

record phases =
  ph_resolve :: rat
  ph_unpack :: rat
  ph_cgroup :: rat
  ph_namespace :: rat
  ph_idmap :: rat
  ph_setup :: rat
  ph_overlay :: rat
  ph_mounts :: rat
  ph_pivot :: rat

definition total_s :: "phases \<Rightarrow> rat" where
  "total_s p = ph_resolve p + ph_unpack p + ph_cgroup p + ph_namespace p + ph_idmap p + ph_setup p"

definition phases_to_json :: "phases \<Rightarrow> json" where
  "phases_to_json p = JObj (fmap_of_list [(''resolve_s'', JNum (ph_resolve p)), (''unpack_s'', JNum (ph_unpack p)),
     (''cgroup_s'', JNum (ph_cgroup p)), (''namespace_s'', JNum (ph_namespace p)), (''idmap_s'', JNum (ph_idmap p)),
     (''setup_s'', JNum (ph_setup p)), (''overlay_s'', JNum (ph_overlay p)), (''mounts_s'', JNum (ph_mounts p)),
     (''pivot_s'', JNum (ph_pivot p))])"

record container_state =
  cs_id :: string
  cs_name :: string
  cs_image :: string
  cs_status :: string
  cs_pid :: int
  cs_init_pid :: int
  cs_exit_code :: "nat option"
  cs_created_at :: rat
  cs_started_at :: rat
  cs_finished_at :: rat
  cs_bundle :: string
  cs_cgroup :: string
  cs_argv :: "string list"
  cs_id_mapping :: string
  cs_phases :: json

definition state_to_json :: "container_state \<Rightarrow> json" where
  "state_to_json s = JObj (fmap_of_list [(''id'', JStr (cs_id s)), (''name'', JStr (cs_name s)), (''image'', JStr (cs_image s)),
     (''status'', JStr (cs_status s)), (''pid'', JNum (of_int (cs_pid s))), (''init_pid'', JNum (of_int (cs_init_pid s))),
     (''exit_code'', case cs_exit_code s of None \<Rightarrow> JNull | Some n \<Rightarrow> JNum (of_nat n)),
     (''created_at'', JNum (cs_created_at s)), (''started_at'', JNum (cs_started_at s)),
     (''finished_at'', JNum (cs_finished_at s)), (''bundle'', JStr (cs_bundle s)), (''cgroup'', JStr (cs_cgroup s)),
     (''argv'', JList (map JStr (cs_argv s))), (''id_mapping'', JStr (cs_id_mapping s)), (''phases'', cs_phases s)])"

record container =
  ct_config :: container_config
  ct_workspace :: string
  ct_id :: string
  ct_name :: string
  ct_bundle :: string
  ct_phases :: phases
  ct_image :: "mc_image option"
  ct_overlay :: "overlay option"
  ct_cgroup :: "group option"
  ct_mapping :: "id_mapping option"
  ct_child_pid :: int
  ct_state :: container_state
  ct_skipped_mounts :: "string list"
  ct_skipped_limits :: "string list"

definition new_container :: "container_config \<Rightarrow> string \<Rightarrow> string \<Rightarrow> container" where
  \<comment> \<open>\<open>__init__\<close>: the absolute workspace and the random identity are arguments\<close>
  "new_container cfg workspace cid =
     (let name = (if cc_name cfg \<noteq> [] then cc_name cfg else ''minicon-'' @ take 8 cid);
          bundle = path_join (path_join workspace ''containers'') name
      in \<lparr>ct_config = cfg, ct_workspace = workspace, ct_id = cid, ct_name = name, ct_bundle = bundle,
          ct_phases = \<lparr>ph_resolve = 0, ph_unpack = 0, ph_cgroup = 0, ph_namespace = 0, ph_idmap = 0, ph_setup = 0,
            ph_overlay = 0, ph_mounts = 0, ph_pivot = 0\<rparr>,
          ct_image = None, ct_overlay = None, ct_cgroup = None, ct_mapping = None, ct_child_pid = 0,
          ct_state = \<lparr>cs_id = cid, cs_name = name, cs_image = cc_image cfg, cs_status = ''created'', cs_pid = 0,
            cs_init_pid = 0, cs_exit_code = None, cs_created_at = 0, cs_started_at = 0, cs_finished_at = 0,
            cs_bundle = bundle, cs_cgroup = [], cs_argv = [], cs_id_mapping = [], cs_phases = JObj fmempty\<rparr>,
          ct_skipped_mounts = [], ct_skipped_limits = []\<rparr>)"

text \<open>A process as its parent sees it; one that is gone keeps the status it was reaped with.\<close>

datatype proc = NoProc | Alive | Zombie wstatus | Gone wstatus

record world =
  wo_fs :: fs
  wo_calls :: sys_log
  wo_maps :: effects
  wo_saved :: "json option"
  wo_child :: proc
  wo_init :: proc
  wo_init_pid :: int
  wo_signals :: "(nat \<times> int) list"

text \<open>What the runtime asks of its host.\<close>

record life_host =
  lh_kernel :: kernel
  lh_store :: img_store
  lh_helper :: helper_host
  lh_cg :: cgroup_host
  lh_procs :: "string option"
  lh_ids :: host
  lh_dumps :: "json \<Rightarrow> string"
  lh_loads :: "string \<Rightarrow> json res"
  lh_show :: "exc \<Rightarrow> string"
  lh_knobs :: "string \<Rightarrow> string option"
  lh_hazard :: "bool \<times> string"

type_synonym cw = "container \<times> world"

definition calls :: "('a, sys_log) act \<Rightarrow> ('a, cw) act" where
  "calls m cw = (case m (wo_calls (snd cw)) of (r, lg) \<Rightarrow> (r, (fst cw, (snd cw)\<lparr>wo_calls := lg\<rparr>)))"

definition upd :: "(container \<Rightarrow> container) \<Rightarrow> (unit, cw) act" where
  "upd f cw = (Inr (), (f (fst cw), snd cw))"

definition set_state :: "(container_state \<Rightarrow> container_state) \<Rightarrow> (unit, cw) act" where
  "set_state f = upd (\<lambda>c. c\<lparr>ct_state := f (ct_state c)\<rparr>)"

definition write_state :: "life_host \<Rightarrow> (unit, cw) act" where
  \<comment> \<open>\<open>_write_state\<close>: what is saved changes only when the file is replaced\<close>
  "write_state h cw =
     (let k = lh_kernel h; c = fst cw; target = path_join (ct_bundle c) ''state.json''; tmp = target @ ''.tmp'';
          v = state_to_json (ct_state c)
      in abind (calls (sys k (SMakedirs (ct_bundle c)))) (\<lambda>_.
         abind (calls (sys k (SWrite tmp (lh_dumps h v)))) (\<lambda>_.
         abind (calls (sys k (SReplace tmp target))) (\<lambda>_ cw'.
         (Inr (), (fst cw', (snd cw')\<lparr>wo_saved := Some v\<rparr>))))) cw)"

section \<open>Create\<close>

definition make_cgroup :: "life_host \<Rightarrow> string \<Rightarrow> limits \<Rightarrow> (group \<times> string list) res" where
  "make_cgroup h name lims =
     ebind (new_group (lh_cg h) (''minicon-'' @ name) None) (\<lambda>g.
     ebind (group_create (lh_cg h) None g) (\<lambda>g'.
     case group_apply (lh_cg h) lims g' of (skipped, g'') \<Rightarrow> Inr (g'', skipped)))"

fun no_cgroup_error :: "exc \<Rightarrow> bool" where
  \<comment> \<open>\<open>except (CgroupUnavailable, OSError)\<close>\<close>
  "no_cgroup_error (CgroupUnavailable _) = True"
| "no_cgroup_error e = os_error e"

definition cgroup_step :: "life_host \<Rightarrow> (unit, cw) act" where
  "cgroup_step h cw =
     (case make_cgroup h (ct_name (fst cw)) (cc_limits (ct_config (fst cw))) of
        Inr (g, skipped) \<Rightarrow> upd (\<lambda>c. c\<lparr>ct_cgroup := Some g, ct_skipped_limits := skipped,
            ct_state := (ct_state c)\<lparr>cs_cgroup := gr_leaf g\<rparr>\<rparr>) cw
      | Inl e \<Rightarrow>
          if no_cgroup_error e
          then upd (\<lambda>c. c\<lparr>ct_cgroup := None, ct_skipped_limits := [''cgroup unavailable: '' @ lh_show h e]\<rparr>) cw
          else (Inl e, cw))"

definition ensure_layers :: "life_host \<Rightarrow> mc_image \<Rightarrow> (string list, cw) act" where
  "ensure_layers h im cw =
     (case cache_ensure (lh_helper h) (lh_store h) im
             (\<lparr>lc_root = path_join (ct_workspace (fst cw)) ''layers'', lc_unpacked = [], lc_reused = []\<rparr>, wo_fs (snd cw)) of
        (r, (lc, fs)) \<Rightarrow> (r, (fst cw, (snd cw)\<lparr>wo_fs := fs\<rparr>)))"

definition create :: "life_host \<Rightarrow> rat \<Rightarrow> rat \<times> rat \<times> rat \<Rightarrow> (unit, cw) act" where
  "create h now spent cw =
     (let k = lh_kernel h; cfg = ct_config (fst cw) in
      abind (alift (mc_get (lh_store h) (cc_image cfg))) (\<lambda>im.
      abind (upd (\<lambda>c. c\<lparr>ct_image := Some im, ct_phases := (ct_phases c)\<lparr>ph_resolve := fst spent\<rparr>\<rparr>)) (\<lambda>_.
      abind (calls (sys k (SMakedirs (ct_bundle (fst cw))))) (\<lambda>_.
      abind (ensure_layers h im) (\<lambda>lowers.
      abind (upd (\<lambda>c. c\<lparr>ct_phases := (ct_phases c)\<lparr>ph_unpack := fst (snd spent)\<rparr>\<rparr>)) (\<lambda>_.
      abind (calls (overlay_prepare k (ct_bundle (fst cw)) lowers)) (\<lambda>ov.
      abind (upd (\<lambda>c. c\<lparr>ct_overlay := Some ov\<rparr>)) (\<lambda>_.
      abind (cgroup_step h) (\<lambda>_.
      abind (upd (\<lambda>c. c\<lparr>ct_phases := (ct_phases c)\<lparr>ph_cgroup := snd (snd spent)\<rparr>\<rparr>)) (\<lambda>_.
      abind (alift (if cc_user cfg \<noteq> [] then Inr (cc_user cfg) else mc_user im)) (\<lambda>user.
      abind (alift (plan_for_user True user (lh_ids h))) (\<lambda>m.
      abind (upd (\<lambda>c. c\<lparr>ct_mapping := Some m, ct_state := (ct_state c)\<lparr>cs_id_mapping := mapping_describe m\<rparr>\<rparr>)) (\<lambda>_.
      abind (alift (if cc_argv cfg \<noteq> [] then Inr (cc_argv cfg) else mc_argv im)) (\<lambda>argv.
      abind (set_state (\<lambda>s. s\<lparr>cs_argv := argv, cs_created_at := now\<rparr>)) (\<lambda>_.
      write_state h)))))))))))))) cw)"

section \<open>Start\<close>

text \<open>How one start goes: the kernels of C and G, the identities of the processes, how the pipe cuts the report,
  which map files refuse a write, how the helpers exit, and the durations.\<close>

record dance =
  da_child_kernel :: kernel
  da_init_kernel :: kernel
  da_pid :: int
  da_init_pid :: int
  da_cut :: "string \<Rightarrow> string list"
  da_refuses :: "string \<Rightarrow> bool"
  da_succeeds :: "string list \<Rightarrow> bool"
  da_namespace :: rat
  da_idmap :: rat
  da_setup :: rat
  da_inner :: "rat \<times> rat \<times> rat"

definition set_child :: "proc \<Rightarrow> (unit, cw) act" where
  "set_child p cw = (Inr (), (fst cw, (snd cw)\<lparr>wo_child := p\<rparr>))"

definition set_init :: "proc \<Rightarrow> int \<Rightarrow> (unit, cw) act" where
  "set_init p pid cw = (Inr (), (fst cw, (snd cw)\<lparr>wo_init := p, wo_init_pid := pid\<rparr>))"

definition await_namespaces :: "string \<Rightarrow> wstatus option \<Rightarrow> (unit, cw) act" where
  \<comment> \<open>what the pipe from C carries until C closes it; on an error the runtime reaps C\<close>
  "await_namespaces answer ended =
     (if take 1 answer = ''R'' then aret ()
      else abind (set_child (case ended of Some st \<Rightarrow> Gone st | None \<Rightarrow> Alive)) (\<lambda>_.
           let detail = (if take 1 answer = ''E'' then drop 1 answer else []) in
           alift (Inl (ContainerError (if detail \<noteq> [] then detail
             else ''container child died before creating its namespaces'')))))"

definition install_maps :: "life_host \<Rightarrow> dance \<Rightarrow> id_mapping option \<Rightarrow> (unit, cw) act" where
  \<comment> \<open>a refused write ends C; any other exception, as of a failing helper, leaves it waiting\<close>
  "install_maps h d mapping cw =
     (case mapping of None \<Rightarrow> (Inl (AttributeError ''NoneType object has no attribute needs_helper''), cw) | Some m \<Rightarrow>
      case write_maps (da_refuses d) (da_succeeds d) (lh_ids h) (da_pid d) m (wo_maps (snd cw)) of
        (Inr _, ef) \<Rightarrow> (Inr (), (fst cw, (snd cw)\<lparr>wo_maps := ef\<rparr>))
      | (Inl e, ef) \<Rightarrow>
          (let cw1 = (fst cw, (snd cw)\<lparr>wo_maps := ef\<rparr>) in
           if \<not> os_error e then (Inl e, cw1)
           else abind (set_child (Gone (Signaled 9))) (\<lambda>_.
                abind (alift (userns_available (lh_knobs h))) (\<lambda>(available, reason).
                alift (Inl (ContainerError (''could not write the ID mapping ('' @ strerror_of e @ ''). ''
                  @ (if available then [] else ''User namespaces are unavailable: '' @ reason @ ''.'')))))) cw1))"

fun reported :: "sys_log \<Rightarrow> json option" where
  \<comment> \<open>the report that process 1 managed to write\<close>
  "reported [] = None"
| "reported ((SReport v, True) # lg) = Some v"
| "reported (e # lg) = reported lg"

definition report_text :: "life_host \<Rightarrow> json option \<Rightarrow> string" where
  "report_text h v = (case v of Some j \<Rightarrow> lh_dumps h j @ [CHR 0x0A] | None \<Rightarrow> [])"

definition take_report :: "life_host \<Rightarrow> json \<Rightarrow> (unit, cw) act" where
  \<comment> \<open>the phases and the skipped mounts of the report\<close>
  "take_report h report =
     abind (alift (py_dict report)) (\<lambda>d.
     abind (alift (py_float (dget d ''overlay_s'' (JNum 0)))) (\<lambda>o_s.
     abind (upd (\<lambda>c. c\<lparr>ct_phases := (ct_phases c)\<lparr>ph_overlay := o_s\<rparr>\<rparr>)) (\<lambda>_.
     abind (alift (py_float (dget d ''mounts_s'' (JNum 0)))) (\<lambda>m_s.
     abind (upd (\<lambda>c. c\<lparr>ct_phases := (ct_phases c)\<lparr>ph_mounts := m_s\<rparr>\<rparr>)) (\<lambda>_.
     abind (alift (py_float (dget d ''pivot_s'' (JNum 0)))) (\<lambda>p_s.
     abind (upd (\<lambda>c. c\<lparr>ct_phases := (ct_phases c)\<lparr>ph_pivot := p_s\<rparr>\<rparr>)) (\<lambda>_.
     abind (alift (str_list (dget d ''skipped_mounts'' (JList [])))) (\<lambda>skipped.
     upd (\<lambda>c. c\<lparr>ct_skipped_mounts := skipped\<rparr>)))))))))"

definition after_report :: "life_host \<Rightarrow> rat \<Rightarrow> dance \<Rightarrow> json \<Rightarrow> (int, cw) act" where
  "after_report h now d report =
     (if \<not> truthy report then
        abind (set_state (\<lambda>s. s\<lparr>cs_status := ''failed''\<rparr>)) (\<lambda>_.
        abind (write_state h) (\<lambda>_.
        alift (Inl (ContainerError ''container init exited before exec.''))))
      else
        abind (take_report h report) (\<lambda>_.
        abind (upd (\<lambda>c. c\<lparr>ct_state := (ct_state c)\<lparr>cs_pid := da_pid d, cs_status := ''running'',
            cs_started_at := now, cs_phases := phases_to_json (ct_phases c)\<rparr>\<rparr>)) (\<lambda>_.
        abind (write_state h) (\<lambda>_.
        aret (da_pid d)))))"

definition after_go :: "life_host \<Rightarrow> rat \<Rightarrow> dance \<Rightarrow> image_run \<times> sys_log \<Rightarrow> (int, cw) act" where
  \<comment> \<open>what G did, and the report as the runtime reads it\<close>
  "after_go h now d outcome =
     abind (set_init (case fst outcome of Workload \<Rightarrow> Alive | Ends st \<Rightarrow> Zombie st) (da_init_pid d)) (\<lambda>_.
     abind (alift (read_line (lh_loads h) (da_cut d (report_text h (reported (snd outcome)))))) (\<lambda>report.
     abind (upd (\<lambda>c. c\<lparr>ct_phases := (ct_phases c)\<lparr>ph_setup := da_setup d\<rparr>\<rparr>)) (\<lambda>_.
     after_report h now d report)))"

definition after_fork :: "life_host \<Rightarrow> rat \<Rightarrow> dance \<Rightarrow> id_mapping option \<Rightarrow> string \<times> wstatus option \<Rightarrow> image_run \<times> sys_log \<Rightarrow> (int, cw) act" where
  \<comment> \<open>the parent's side of the fork\<close>
  "after_fork h now d m child outcome =
     abind (set_child Alive) (\<lambda>_.
     abind (upd (\<lambda>c. c\<lparr>ct_child_pid := da_pid d\<rparr>)) (\<lambda>_.
     abind (await_namespaces (fst child) (snd child)) (\<lambda>_.
     abind (upd (\<lambda>c. c\<lparr>ct_phases := (ct_phases c)\<lparr>ph_namespace := da_namespace d\<rparr>\<rparr>)) (\<lambda>_.
     abind (install_maps h d m) (\<lambda>_.
     abind (upd (\<lambda>c. c\<lparr>ct_phases := (ct_phases c)\<lparr>ph_idmap := da_idmap d\<rparr>\<rparr>)) (\<lambda>_.
     after_go h now d outcome))))))"

definition start :: "life_host \<Rightarrow> rat \<Rightarrow> dance \<Rightarrow> (int, cw) act" where
  "start h now d cw =
     (let c = fst cw; cfg = ct_config c in
      case (ct_image c, ct_overlay c) of
        (Some im, Some ov) \<Rightarrow>
          abind (alift (if cc_argv cfg \<noteq> [] then Inr (cc_argv cfg) else mc_argv im)) (\<lambda>argv.
          if argv = [] then alift (Inl (ContainerError (cc_image cfg @ '' has no entrypoint and none was given'')))
          else after_fork h now d (ct_mapping c)
            (fst (child_prepare (da_child_kernel d) (lh_show h) (ct_cgroup c \<noteq> None) (da_pid d) (lh_hazard h) []))
            (init_main (da_init_kernel d) cfg (ct_name c) im ov (da_inner d) argv [])) cw
      | _ \<Rightarrow> (Inl (ContainerError ''create() must run before start()''), cw))"

section \<open>Wait\<close>

datatype turn_answer = Done nat | Broken | Again

definition finish :: "life_host \<Rightarrow> wstatus \<Rightarrow> (container_state \<Rightarrow> container_state) \<Rightarrow> (turn_answer, cw) act" where
  \<comment> \<open>C has been reaped\<close>
  "finish h st f =
     abind (set_child (Gone st)) (\<lambda>_.
     abind (set_state (\<lambda>s. f (s\<lparr>cs_exit_code := Some (exit_code st), cs_status := ''exited''\<rparr>))) (\<lambda>_.
     abind (write_state h) (\<lambda>_.
     aret (Done (exit_code st)))))"

definition wait_look :: "life_host \<Rightarrow> rat \<Rightarrow> rat option \<Rightarrow> (turn_answer, cw) act" where
  \<comment> \<open>one turn of the loop of \<open>wait\<close>; without a deadline \<open>Again\<close> means that \<open>waitpid\<close> blocks\<close>
  "wait_look h now deadline cw =
     (case wo_child (snd cw) of
        Zombie st \<Rightarrow> finish h st (\<lambda>s. s\<lparr>cs_finished_at := now\<rparr>) cw
      | Alive \<Rightarrow>
          (case deadline of
             Some t \<Rightarrow> if now > t then (Inl (TimeoutError (''container '' @ ct_name (fst cw) @ '' still running'')), cw)
                       else (Inr Again, cw)
           | None \<Rightarrow> (Inr Again, cw))
      | _ \<Rightarrow> (Inl (ChildProcessError ''No child processes''), cw))"

type_synonym turns = "(rat \<times> (world \<Rightarrow> world)) list"

fun wait_turns :: "life_host \<Rightarrow> rat option \<Rightarrow> turns \<Rightarrow> cw \<Rightarrow> (nat res \<times> cw) option" where
  \<comment> \<open>the time of a look and what happens after it; \<open>None\<close>: still waiting\<close>
  "wait_turns h deadline [] cw = None"
| "wait_turns h deadline ((now, env) # rest) cw =
     (case wait_look h now deadline cw of
        (Inr (Done n), cw') \<Rightarrow> Some (Inr n, cw')
      | (Inr l, cw') \<Rightarrow> wait_turns h deadline rest (fst cw', env (snd cw'))
      | (Inl e, cw') \<Rightarrow> Some (Inl e, cw'))"

definition wait_container :: "life_host \<Rightarrow> rat \<Rightarrow> rat option \<Rightarrow> turns \<Rightarrow> cw \<Rightarrow> (nat res \<times> cw) option" where
  \<comment> \<open>\<open>wait\<close>\<close>
  "wait_container h now timeout turns cw =
     (if ct_child_pid (fst cw) = 0 then Some (Inl (ContainerError ''container is not running''), cw)
      else wait_turns h (case timeout of None \<Rightarrow> None | Some t \<Rightarrow> if now + t = 0 then None else Some (now + t)) turns cw)"

section \<open>Kill and delete\<close>

definition ended_by :: "nat \<Rightarrow> proc \<Rightarrow> proc" where
  "ended_by s p = (case p of Alive \<Rightarrow> Zombie (Signaled s) | _ \<Rightarrow> p)"

definition deliver :: "nat \<Rightarrow> world \<Rightarrow> world" where
  \<comment> \<open>a signal to C once it supervises: six are relayed to G, those that are ignored or stop a process by default change nothing\<close>
  "deliver s w =
     (if wo_child w \<noteq> Alive then w
      else if s \<in> set forwarded then
        w\<lparr>wo_signals := wo_signals w @ relay (wo_init_pid w) (wo_init w \<noteq> Alive) s\<rparr>
      else if s \<in> {17, 18, 19, 20, 21, 22, 23, 28} then w
      else w\<lparr>wo_child := ended_by s (wo_child w)\<rparr>)"

definition cgroup_kill :: "life_host \<Rightarrow> (unit, cw) act" where
  \<comment> \<open>\<open>kill_all\<close> where there is a group\<close>
  "cgroup_kill h cw =
     (case ct_cgroup (fst cw) of
        None \<Rightarrow> (Inr (), cw)
      | Some g \<Rightarrow>
        (case group_kill_all (lh_cg h) (lh_procs h) g of
           (r, g') \<Rightarrow>
             (let c = (fst cw)\<lparr>ct_cgroup := Some g'\<rparr>; w = snd cw in
              case r of
                Inl e \<Rightarrow> (Inl e, (c, w))
              | Inr None \<Rightarrow> (Inr (), (c, w\<lparr>wo_child := ended_by 9 (wo_child w), wo_init := ended_by 9 (wo_init w)\<rparr>))
              | Inr (Some ps) \<Rightarrow> (Inr (), (c, w\<lparr>
                  wo_child := (if ct_child_pid c \<in> set ps then ended_by 9 (wo_child w) else wo_child w),
                  wo_init := (if wo_init_pid w \<in> set ps then ended_by 9 (wo_init w) else wo_init w)\<rparr>)))))"

definition kill_look :: "life_host \<Rightarrow> (turn_answer, cw) act" where
  \<comment> \<open>one turn of the loop of \<open>kill\<close>\<close>
  "kill_look h cw =
     (case wo_child (snd cw) of
        Zombie st \<Rightarrow> finish h st (\<lambda>s. s) cw
      | Alive \<Rightarrow> (Inr Again, cw)
      | _ \<Rightarrow> (Inr Broken, cw))"

definition reap_killed :: "(unit, cw) act" where
  \<comment> \<open>\<open>SIGKILL\<close> and \<open>waitpid\<close>; a child that is gone is an \<open>OSError\<close>, which is ignored\<close>
  "reap_killed cw =
     (case wo_child (snd cw) of
        Alive \<Rightarrow> set_child (Gone (Signaled 9)) cw
      | Zombie st \<Rightarrow> set_child (Gone st) cw
      | _ \<Rightarrow> (Inr (), cw))"

definition kill_force :: "life_host \<Rightarrow> (nat, cw) act" where
  \<comment> \<open>\<open>kill\<close> after its loop\<close>
  "kill_force h =
     abind (cgroup_kill h) (\<lambda>_.
     abind reap_killed (\<lambda>_.
     abind (set_state (\<lambda>s. s\<lparr>cs_status := ''killed''\<rparr>)) (\<lambda>_.
     abind (write_state h) (\<lambda>_.
     aret 137))))"

fun kill_loop :: "life_host \<Rightarrow> rat \<Rightarrow> turns \<Rightarrow> cw \<Rightarrow> (nat res \<times> cw) option" where
  "kill_loop h deadline [] cw = None"
| "kill_loop h deadline ((now, env) # rest) cw =
     (if now < deadline then
        (case kill_look h cw of
           (Inr (Done n), cw') \<Rightarrow> Some (Inr n, cw')
         | (Inr Broken, cw') \<Rightarrow> Some (kill_force h cw')
         | (Inr Again, cw') \<Rightarrow> kill_loop h deadline rest (fst cw', env (snd cw'))
         | (Inl e, cw') \<Rightarrow> Some (Inl e, cw'))
      else Some (kill_force h cw))"

definition kill_container :: "life_host \<Rightarrow> rat \<Rightarrow> nat \<Rightarrow> rat \<Rightarrow> turns \<Rightarrow> cw \<Rightarrow> (nat res \<times> cw) option" where
  \<comment> \<open>\<open>kill\<close>; \<open>None\<close>: still in the grace period\<close>
  "kill_container h now sig grace turns cw =
     (if ct_child_pid (fst cw) = 0 then Some (Inr 0, cw)
      else kill_loop h (now + grace) turns (fst cw, deliver sig (snd cw)))"

definition delete_container :: "life_host \<Rightarrow> unit res list \<Rightarrow> unit res \<Rightarrow> ((bool \<times> bool) option, cw) act" where
  \<comment> \<open>\<open>delete\<close>: whether the leaf and the group are gone, where there is a group\<close>
  "delete_container h attempts removal cw =
     (let k = lh_kernel h; c0 = fst cw in
      abind (cgroup_kill h) (\<lambda>_.
      abind (case ct_overlay c0 of Some ov \<Rightarrow> calls (overlay_cleanup k ov) | None \<Rightarrow> aret ()) (\<lambda>_.
      abind (calls (except_os (sys k (SRmtree (ct_bundle c0))) (\<lambda>e. aret ()))) (\<lambda>_.
      aret (map_option (\<lambda>g. group_destroy attempts removal) (ct_cgroup c0))))) cw)"

definition container_usage :: "(string \<Rightarrow> string option) \<Rightarrow> container \<Rightarrow> usage" where
  "container_usage files c = (if ct_cgroup c \<noteq> None then group_usage files else no_usage)"

definition exit_context :: "life_host \<Rightarrow> rat \<Rightarrow> turns \<Rightarrow> unit res list \<Rightarrow> unit res \<Rightarrow> cw \<Rightarrow> ((bool \<times> bool) option res \<times> cw) option" where
  \<comment> \<open>\<open>__exit__\<close>\<close>
  "exit_context h now turns attempts removal cw =
     (if cs_status (ct_state (fst cw)) = ''running'' then
        (case kill_container h now 15 10 turns cw of
           None \<Rightarrow> None
         | Some (Inl e, cw') \<Rightarrow> Some (Inl e, cw')
         | Some (Inr n, cw') \<Rightarrow> Some (delete_container h attempts removal cw'))
      else Some (delete_container h attempts removal cw))"

end
