(* ===== verification/Container_Init_Props.thy ===== *)
theory Container_Init_Props
  imports Container_Init
begin

text \<open>
  What the processes of \<open>Container_Init\<close> guarantee whatever the kernel answers: the workload is only executed
  in an isolated root, the status of the workload is the one the runtime reads, and the report survives
  the way the pipe cuts it.
\<close>

section \<open>Which calls an action makes\<close>

text \<open>Every call of the action satisfies a predicate, whether or not it raises.\<close>

definition makes :: "(sys_call \<Rightarrow> bool) \<Rightarrow> ('a, sys_log) act \<Rightarrow> bool" where
  "makes P m \<longleftrightarrow> (\<forall>s. \<exists>l. snd (m s) = s @ l \<and> (\<forall>c b. (c, b) \<in> set l \<longrightarrow> P c))"

lemma makesE:
  assumes "makes P m" "m s = (r, s')"
  obtains l where "s' = s @ l" "\<forall>c b. (c, b) \<in> set l \<longrightarrow> P c"
  using assms unfolding makes_def by (metis snd_conv)

lemma makes_basic [simp]: "makes P (aret x)" "makes P (alift r)"
  by (auto simp: makes_def)

lemma makes_sys [simp]: "P c \<Longrightarrow> makes P (sys k c)"
  by (auto simp: makes_def sys_def Let_def)

lemma makes_wrappers [simp]:
  "P (SMount s t f fl d) \<Longrightarrow> makes P (linux_mount k s t f fl d)" "P (SUmount t fl) \<Longrightarrow> makes P (linux_umount k t fl)"
  "P (SPivot n o') \<Longrightarrow> makes P (linux_pivot_root k n o')" "P (SHostname h) \<Longrightarrow> makes P (linux_sethostname k h)"
  by (simp_all add: linux_mount_def linux_umount_def linux_pivot_root_def linux_sethostname_def)

lemma makes_bind: assumes "makes P m" "\<And>x. makes P (f x)" shows "makes P (abind m f)"
  unfolding makes_def
proof
  fix s
  obtain r s1 where r: "m s = (r, s1)" by fastforce
  from makesE [OF assms(1) r] obtain l where l: "s1 = s @ l" "\<forall>c b. (c, b) \<in> set l \<longrightarrow> P c" .
  show "\<exists>l. snd (abind m f s) = s @ l \<and> (\<forall>c b. (c, b) \<in> set l \<longrightarrow> P c)"
  proof (cases r)
    case (Inl e)
    then show ?thesis using r l by (auto simp: abind_def)
  next
    case (Inr x)
    obtain l2 where "snd (f x s1) = s1 @ l2" "\<forall>c b. (c, b) \<in> set l2 \<longrightarrow> P c"
      using assms(2) unfolding makes_def by blast
    then show ?thesis using r l Inr by (intro exI [of _ "l @ l2"]) auto
  qed
qed

lemma makes_except: assumes "makes P m" "\<And>e. makes P (h e)" shows "makes P (except_os m h)"
  unfolding makes_def
proof
  fix s
  obtain r s1 where r: "m s = (r, s1)" by fastforce
  from makesE [OF assms(1) r] obtain l where l: "s1 = s @ l" "\<forall>c b. (c, b) \<in> set l \<longrightarrow> P c" .
  show "\<exists>l. snd (except_os m h s) = s @ l \<and> (\<forall>c b. (c, b) \<in> set l \<longrightarrow> P c)"
  proof (cases "\<exists>e. r = Inl e \<and> os_error e")
    case True
    then obtain e where e: "r = Inl e" "os_error e" by blast
    obtain l2 where "snd (h e s1) = s1 @ l2" "\<forall>c b. (c, b) \<in> set l2 \<longrightarrow> P c"
      using assms(2) unfolding makes_def by blast
    then show ?thesis using r l e by (intro exI [of _ "l @ l2"]) (auto simp: except_os_def)
  next
    case False
    then show ?thesis using r l by (auto simp: except_os_def split: sum.splits)
  qed
qed

lemma makes_if_exists: "(\<And>b. makes P (f b)) \<Longrightarrow> makes P (if_exists k p f)"
  unfolding makes_def if_exists_def by blast

lemma makes_dep: "(\<And>lg. makes P (f lg)) \<Longrightarrow> makes P (\<lambda>lg. f lg lg)"
  unfolding makes_def by blast

lemma makes_guard: "(b \<Longrightarrow> makes P m) \<Longrightarrow> (\<not> b \<Longrightarrow> makes P n) \<Longrightarrow> makes P (if b then m else n)"
  by simp

lemma makes_mono: "makes P m \<Longrightarrow> (\<And>c. P c \<Longrightarrow> Q c) \<Longrightarrow> makes Q m"
  unfolding makes_def by blast

lemma makes_apply_mounts: "(\<And>m. m \<in> set ms \<Longrightarrow> makes P (f m)) \<Longrightarrow> makes P (apply_mounts f ms skipped)"
  by (induction ms arbitrary: skipped) (auto intro!: makes_bind)

lemma sys_ok: "sys k c lg = (Inr u, lg') \<Longrightarrow> lg' = lg @ [(c, True)]"
  by (auto simp: sys_def Let_def split: if_splits)

lemma except_os_last: "except_os (sys k c) (\<lambda>e. aret ()) lg = (r, lg') \<Longrightarrow> \<exists>b. lg' = lg @ [(c, b)]"
  by (auto simp: except_os_def sys_def Let_def split: if_splits)

lemmas wrapper_ok = sys_ok [of k "SMount s t f fl d", folded linux_mount_def] sys_ok [of k "SUmount t fl", folded linux_umount_def]
  sys_ok [of k "SPivot n p", folded linux_pivot_root_def] sys_ok [of k "SHostname h", folded linux_sethostname_def]
  for k s t f fl d n p h

section \<open>Calls below a directory\<close>

fun inside_root :: "string \<Rightarrow> sys_call \<Rightarrow> bool" where
  \<comment> \<open>the path of the call begins with \<open>d/\<close>, as a text: links on the way are not followed\<close>
  "inside_root d (SMakedirs p) = starts_with p (d @ ''/'')"
| "inside_root d (SWrite p t) = starts_with p (d @ ''/'')"
| "inside_root d (SCreate p) = starts_with p (d @ ''/'')"
| "inside_root d (SMount s p f fl t) = starts_with p (d @ ''/'')"
| "inside_root d _ = False"

lemma join_below: "d \<noteq> [] \<Longrightarrow> last d \<noteq> CHR ''/'' \<Longrightarrow> \<not> starts_with p ''/'' \<Longrightarrow> path_join d p = d @ ''/'' @ p"
  by (cases d rule: rev_cases) (auto simp: path_join_def ends_with_def)

lemma dirname_below:
  assumes "a \<noteq> []" "last a \<noteq> CHR ''/''" "CHR ''/'' \<notin> set n"
  shows "path_dirname (a @ CHR ''/'' # n) = a"
proof -
  let ?s = "a @ CHR ''/'' # n" and ?ns = "\<lambda>c. c \<noteq> CHR ''/''"
  have "takeWhile ?ns (rev n @ CHR ''/'' # rev a) = rev n"
    using assms(3) by (subst takeWhile_append2) auto
  then have t: "rev (takeWhile ?ns (rev ?s)) = n" by simp
  have h: "take (length ?s - length n) ?s = a @ ''/''" by simp
  have "\<not> list_all (\<lambda>c. c = CHR ''/'') (a @ ''/'')" using assms(1,2) by (auto simp: list_all_iff dest: last_in_set)
  moreover have "rstrip_char CHR ''/'' (a @ ''/'') = a"
    using assms(1,2) by (cases a rule: rev_cases) (auto simp: rstrip_char_def)
  ultimately show ?thesis unfolding path_dirname_def path_split_def t Let_def h by simp
qed

lemma makes_write_if_absent: "starts_with p (d @ ''/'') \<Longrightarrow> makes (inside_root d) (write_if_absent k p content)"
  unfolding write_if_absent_def by (intro makes_if_exists) (auto intro!: makes_except)

lemma makes_container_files:
  assumes "d \<noteq> []" "last d \<noteq> CHR ''/''"
  shows "makes (inside_root d) (write_container_files k d hostname extra)"
proof -
  have e: "path_join d ''etc'' = d @ ''/etc''" using join_below [OF assms, of "''etc''"] by (simp add: starts_with_def)
  have j: "starts_with (path_join (d @ ''/etc'') n) (d @ ''/'')" if "\<not> starts_with n ''/''" for n
    using join_below [of "d @ ''/etc''" n] that by (simp add: starts_with_def)
  have f: "makes (inside_root d) (write_if_absent k (path_join (d @ ''/etc'') n) t)" if "\<not> starts_with n ''/''" for n t
    by (rule makes_write_if_absent) (rule j [OF that])
  have m: "makes (inside_root d) (sys k (SMakedirs (d @ ''/etc'')))" by (rule makes_sys) (simp add: starts_with_def)
  show ?thesis
    unfolding write_container_files_def Let_def e
    apply (rule makes_bind [OF m])
    apply (rule makes_bind [OF f], simp add: starts_with_def)
    apply (rule makes_bind [OF f], simp add: starts_with_def)
    apply (rule makes_dep, rule f, simp add: starts_with_def)
    done
qed

lemma makes_mount_apply:
  assumes "d \<noteq> []" "last d \<noteq> CHR ''/''" "lstrip_char CHR ''/'' (mo_target m) = t" "\<not> starts_with t ''/''"
    and "mo_flags m AND MS_BIND \<noteq> 0 \<Longrightarrow> \<exists>b n. t = b @ CHR ''/'' # n \<and> b \<noteq> [] \<and> last b \<noteq> CHR ''/'' \<and> CHR ''/'' \<notin> set n"
  shows "makes (inside_root d) (mount_apply k d m)"
proof -
  have t: "path_join d t = d @ ''/'' @ t" by (rule join_below [OF assms(1,2,4)])
  let ?t = "d @ ''/'' @ t"
  have dn: "makes (inside_root d) (sys k (SMakedirs (path_dirname ?t)))" if "mo_flags m AND MS_BIND \<noteq> 0"
  proof -
    from assms(5) [OF that] obtain b n where b: "t = b @ CHR ''/'' # n" "b \<noteq> []" "last b \<noteq> CHR ''/''" "CHR ''/'' \<notin> set n" by blast
    then have "path_dirname ?t = d @ ''/'' @ b" using dirname_below [of "d @ CHR ''/'' # b" n] by simp
    then show ?thesis by (simp add: starts_with_def)
  qed
  have s: "makes (inside_root d) (sys k (SMakedirs ?t))" "makes (inside_root d) (sys k (SCreate ?t))"
    "makes (inside_root d) (linux_mount k a ?t b c e)" for a b c e by (simp_all add: starts_with_def)
  have fix': "makes (inside_root d) (abind (sys k (SMakedirs ?t)) (\<lambda>_. aret True))" by (rule makes_bind [OF s(1)]) simp
  have body: "makes (inside_root d) (mount_body k d m)"
    unfolding mount_body_def Let_def assms(3) t
  proof (rule makes_bind)
    fix go :: bool
    show "makes (inside_root d) (if go then abind (linux_mount k (mo_source m) ?t (mo_fstype m) (mo_flags m) (mo_data m)) (\<lambda>_. aret True) else aret False)"
      by (cases go) (simp_all only: if_True if_False makes_bind [OF s(3)] makes_basic)
  next
    have c: "makes (inside_root d) (if_exists k ?t (\<lambda>made. if made then aret True else abind (sys k (SCreate ?t)) (\<lambda>_. aret True)))"
      by (intro makes_if_exists makes_guard makes_bind [OF s(2)] makes_basic)
    show "makes (inside_root d) (if mo_flags m AND MS_BIND \<noteq> 0 then if_exists k (mo_source m) (\<lambda>there.
        if \<not> there then if mo_optional m then aret False else alift (Inl (FileNotFoundError (mo_source m)))
        else (\<lambda>lg. if kn_isdir k lg (mo_source m) then abind (sys k (SMakedirs ?t)) (\<lambda>_. aret True) lg
          else abind (sys k (SMakedirs (path_dirname ?t))) (\<lambda>_. if_exists k ?t (\<lambda>made. if made then aret True
            else abind (sys k (SCreate ?t)) (\<lambda>_. aret True))) lg))
      else abind (sys k (SMakedirs ?t)) (\<lambda>_. aret True))"
    proof (cases "mo_flags m AND MS_BIND \<noteq> 0")
      case True
      have "makes (inside_root d) (\<lambda>lg. if kn_isdir k lg (mo_source m) then abind (sys k (SMakedirs ?t)) (\<lambda>_. aret True) lg
          else abind (sys k (SMakedirs (path_dirname ?t))) (\<lambda>_. if_exists k ?t (\<lambda>made. if made then aret True
            else abind (sys k (SCreate ?t)) (\<lambda>_. aret True))) lg)"
        using fix' makes_bind [OF dn [OF True] c] unfolding makes_def by presburger
      with True show ?thesis by (simp add: makes_if_exists)
    next
      case False
      with fix' show ?thesis by simp
    qed
  qed
  show ?thesis unfolding mount_apply_def by (rule makes_except [OF body]) simp
qed

lemma bind_flags: "(m :: mount_entry) \<in> set (default_mounts size') \<Longrightarrow>
    mo_target m \<in> {''/proc'', ''/dev'', ''/tmp'', ''/sys'', ''/dev/pts'', ''/dev/shm''} \<and> mo_flags m AND MS_BIND = 0
    \<or> (\<exists>n. mo_target m = ''/dev/'' @ n \<and> CHR ''/'' \<notin> set n)"
  by (auto simp: default_mounts_def DEFAULT_DEVICES_def MS_BIND_def PSEUDO_FLAGS_def MS_NOSUID_def MS_NODEV_def MS_NOEXEC_def MS_RDONLY_def)

lemma makes_default_mounts:
  assumes "d \<noteq> []" "last d \<noteq> CHR ''/''"
  shows "makes (inside_root d) (apply_mounts (mount_apply k d) (default_mounts size') [])"
proof (rule makes_apply_mounts)
  fix m assume "m \<in> set (default_mounts size')"
  from bind_flags [OF this] show "makes (inside_root d) (mount_apply k d m)"
  proof (elim disjE exE conjE)
    assume "mo_target m \<in> {''/proc'', ''/dev'', ''/tmp'', ''/sys'', ''/dev/pts'', ''/dev/shm''}" "mo_flags m AND MS_BIND = 0"
    then show ?thesis
      by (intro makes_mount_apply [OF assms refl]) (auto simp: lstrip_char_def starts_with_def)
  next
    fix n assume n: "mo_target m = ''/dev/'' @ n" "CHR ''/'' \<notin> set n"
    then have t: "lstrip_char CHR ''/'' (mo_target m) = ''dev'' @ CHR ''/'' # n" by (simp add: lstrip_char_def)
    show ?thesis
      by (rule makes_mount_apply [OF assms t])
        (simp add: starts_with_def, rule exI [of _ "''dev''"], rule exI [of _ n], use n(2) in simp)
  qed
qed

section \<open>Isolation\<close>

text \<open>Every step of \<open>enter_root\<close> succeeded when it returns, except the removal of the empty directory.\<close>

lemma enter_root_ok:
  assumes "enter_root k d lg = (Inr u, lg')"
  shows "\<exists>b. lg' = lg @ [(SMount d d None (MS_BIND OR MS_REC) None, True), (SMakedirs (path_join d ''.oldroot''), True),
    (SPivot d (path_join d ''.oldroot''), True), (SChdir ''/'', True), (SUmount ''/.oldroot'' MNT_DETACH, True),
    (SRmdir ''/.oldroot'', b)]"
  using assms unfolding enter_root_def Let_def
  by (elim abindE) (drule except_os_last, auto dest!: sys_ok wrapper_ok)

lemma overlay_mount_ok:
  assumes "overlay_mount k r lg = (Inr u, lg')"
  shows "\<exists>options. overlay_options r = Inr options \<and> lg' = lg @ [(SMount ''overlay'' (ov_merged r) (Some ''overlay'') 0 (Some options), True)]"
proof (cases "overlay_options r")
  case (Inl e)
  then show ?thesis using assms by (auto simp: overlay_mount_def except_os_def abind_def split: if_splits)
next
  case (Inr options)
  then show ?thesis using assms
    by (auto simp: overlay_mount_def except_os_def abind_def split: if_splits sum.splits prod.splits dest!: wrapper_ok)
qed

lemma makes_open_outputs: "makes (\<lambda>c. \<exists>p \<in> {cc_stdout_path cfg, cc_stderr_path cfg}. c = SOpenOut p) (open_outputs k cfg)"
  unfolding open_outputs_def by (auto intro!: makes_bind)

lemma makes_dup_outputs: "makes (\<lambda>c. \<exists>n. c = SDup n) (dup_outputs k target fds)"
proof (induction k target fds rule: dup_outputs.induct)
  case (2 k target fd fds)
  then show ?case unfolding dup_outputs.simps by (intro makes_bind makes_guard makes_basic) auto
qed (simp only: dup_outputs.simps makes_basic)

lemma makes_enter_workdir: "makes (\<lambda>c. c = SChdir wd \<or> c = SMakedirs wd) (enter_workdir k wd)"
  unfolding enter_workdir_def by (auto intro!: makes_bind makes_except)

definition entering :: "container_config \<Rightarrow> string \<Rightarrow> overlay \<Rightarrow> bool \<Rightarrow> sys_log" where
  \<comment> \<open>the calls that replace the root, in their order\<close>
  "entering cfg hostname ov b =
     [(SMount (ov_merged ov) (ov_merged ov) None (MS_BIND OR MS_REC) None, True),
      (SMakedirs (path_join (ov_merged ov) ''.oldroot''), True),
      (SPivot (ov_merged ov) (path_join (ov_merged ov) ''.oldroot''), True), (SChdir ''/'', True),
      (SUmount ''/.oldroot'' MNT_DETACH, True), (SRmdir ''/.oldroot'', b), (SHostname hostname, True)]
     @ (if cc_readonly_root cfg then [(SMount ''none'' ''/'' None (MS_REMOUNT OR MS_BIND OR MS_RDONLY) None, True)] else [])"

fun within_root :: "container_config \<Rightarrow> sys_call \<Rightarrow> bool" where
  \<comment> \<open>what is done after the old root is gone\<close>
  "within_root cfg (SLinkUp i) = (cc_network cfg = ''private'' \<and> i = ''lo'')"
| "within_root cfg (SChdir p) = True"
| "within_root cfg (SMakedirs p) = True"
| "within_root cfg _ = False"

lemma init_process_trace:
  assumes "init_process k cfg name im ov spent lg0 = (Inr env, lg)" "ov_merged ov \<noteq> []" "last (ov_merged ov) \<noteq> CHR ''/''"
    and "hostname = (if cc_hostname cfg \<noteq> [] then cc_hostname cfg else name)"
  shows "\<exists>options outs files b rest skipped dups. overlay_options ov = Inr options
    \<and> lg = lg0 @ outs @ [(SMount ''none'' ''/'' None (MS_REC OR MS_PRIVATE) None, True),
         (SMount ''overlay'' (ov_merged ov) (Some ''overlay'') 0 (Some options), True)]
         @ files @ entering cfg hostname ov b @ rest @ [(SReport (init_report spent skipped), True)] @ dups
    \<and> (\<forall>c b. (c, b) \<in> set outs \<longrightarrow> (\<exists>p \<in> {cc_stdout_path cfg, cc_stderr_path cfg}. c = SOpenOut p))
    \<and> (\<forall>c b. (c, b) \<in> set files \<longrightarrow> inside_root (ov_merged ov) c)
    \<and> (\<forall>c b. (c, b) \<in> set rest \<longrightarrow> within_root cfg c)
    \<and> (\<forall>c b. (c, b) \<in> set dups \<longrightarrow> (\<exists>n. c = SDup n))"
proof -
  let ?d = "ov_merged ov"
  have net: "makes (within_root cfg) (if cc_network cfg = ''private'' then except_os (sys k (SLinkUp ''lo'')) (\<lambda>e. aret ()) else aret ())"
    by (auto intro!: makes_except)
  have wdm: "makes (within_root cfg) (enter_workdir k wd)" for wd
    by (rule makes_mono [OF makes_enter_workdir]) auto
  obtain fds l1 l2 l3 l4 l5 l6 l7 l8 l9 l10 l11 skipped wd ienv u where s:
    "open_outputs k cfg lg0 = (Inr fds, l1)" "make_root_private k l1 = (Inr u, l2)" "overlay_mount k ov l2 = (Inr u, l3)"
    "write_container_files k ?d hostname (cc_extra_hosts cfg) l3 = (Inr u, l4)"
    "apply_mounts (mount_apply k ?d) (default_mounts (cc_tmpfs_size cfg)) [] l4 = (Inr skipped, l5)"
    "enter_root k ?d l5 = (Inr u, l6)" "linux_sethostname k hostname l6 = (Inr u, l7)"
    "(if cc_readonly_root cfg then remount_root_readonly k else aret ()) l7 = (Inr u, l8)"
    "(if cc_network cfg = ''private'' then except_os (sys k (SLinkUp ''lo'')) (\<lambda>e. aret ()) else aret ()) l8 = (Inr u, l9)"
    "enter_workdir k wd l9 = (Inr u, l10)"
    "sys k (SReport (init_report spent skipped)) l10 = (Inr u, l11)" "dup_outputs k 1 fds l11 = (Inr u, lg)"
    using assms(1) unfolding init_process_def Let_def assms(4) [symmetric]
    by (elim abindE) (auto simp: abind_lift_iff)
  have l2: "l2 = l1 @ [(SMount ''none'' ''/'' None (MS_REC OR MS_PRIVATE) None, True)]"
    using s(2) unfolding make_root_private_def by (rule wrapper_ok(1))
  obtain outs where outs: "l1 = lg0 @ outs" "\<forall>c b. (c, b) \<in> set outs \<longrightarrow> (\<exists>p \<in> {cc_stdout_path cfg, cc_stderr_path cfg}. c = SOpenOut p)"
    by (rule makesE [OF makes_open_outputs s(1)])
  obtain options where ov: "overlay_options ov = Inr options"
      "l3 = l2 @ [(SMount ''overlay'' ?d (Some ''overlay'') 0 (Some options), True)]"
    using overlay_mount_ok [OF s(3)] by blast
  obtain f1 where f1: "l4 = l3 @ f1" "\<forall>c b. (c, b) \<in> set f1 \<longrightarrow> inside_root ?d c"
    by (rule makesE [OF makes_container_files [OF assms(2,3)] s(4)])
  obtain f2 where f2: "l5 = l4 @ f2" "\<forall>c b. (c, b) \<in> set f2 \<longrightarrow> inside_root ?d c"
    by (rule makesE [OF makes_default_mounts [OF assms(2,3)] s(5)])
  obtain b where "l6 = l5 @ [(SMount ?d ?d None (MS_BIND OR MS_REC) None, True), (SMakedirs (path_join ?d ''.oldroot''), True),
    (SPivot ?d (path_join ?d ''.oldroot''), True), (SChdir ''/'', True), (SUmount ''/.oldroot'' MNT_DETACH, True),
    (SRmdir ''/.oldroot'', b)]" using enter_root_ok [OF s(6)] by blast
  moreover have "l7 = l6 @ [(SHostname hostname, True)]" using s(7) by (rule wrapper_ok(4))
  moreover have "l8 = l7 @ (if cc_readonly_root cfg then [(SMount ''none'' ''/'' None (MS_REMOUNT OR MS_BIND OR MS_RDONLY) None, True)] else [])"
    using s(8) unfolding remount_root_readonly_def by (auto split: if_splits dest!: wrapper_ok)
  ultimately have l8: "l8 = l5 @ entering cfg hostname ov b" by (simp add: entering_def)
  obtain r1 where r1: "l9 = l8 @ r1" "\<forall>c b. (c, b) \<in> set r1 \<longrightarrow> within_root cfg c" by (rule makesE [OF net s(9)])
  obtain r2 where r2: "l10 = l9 @ r2" "\<forall>c b. (c, b) \<in> set r2 \<longrightarrow> within_root cfg c" by (rule makesE [OF wdm s(10)])
  have l11: "l11 = l10 @ [(SReport (init_report spent skipped), True)]" using s(11) by (rule sys_ok)
  obtain dups where dups: "lg = l11 @ dups" "\<forall>c b. (c, b) \<in> set dups \<longrightarrow> (\<exists>n. c = SDup n)"
    by (rule makesE [OF makes_dup_outputs s(12)])
  show ?thesis
    by (rule exI [of _ options], rule exI [of _ outs], rule exI [of _ "f1 @ f2"], rule exI [of _ b], rule exI [of _ "r1 @ r2"],
        rule exI [of _ skipped], rule exI [of _ dups])
      (use outs ov f1 f2 r1 r2 dups in \<open>auto simp: l2 l8 l11\<close>)
qed

fun is_exec :: "sys_call \<Rightarrow> bool" where
  "is_exec (SExec argv env) = True"
| "is_exec _ = False"

lemma merged_path: "path_join base ''merged'' \<noteq> [] \<and> last (path_join base ''merged'') \<noteq> CHR ''/''"
  by (simp add: path_join_def starts_with_def)

lemma init_process_no_exec:
  assumes "ov_merged ov \<noteq> []" "last (ov_merged ov) \<noteq> CHR ''/''"
  shows "makes (\<lambda>c. \<not> is_exec c) (init_process k cfg name im ov spent)"
proof -
  have w: "\<not> is_exec c" if "inside_root d c" for c d using that by (cases "(d, c)" rule: inside_root.cases) auto
  have a: "makes (\<lambda>c. \<not> is_exec c) (open_outputs k cfg)" by (rule makes_mono [OF makes_open_outputs]) auto
  have b: "makes (\<lambda>c. \<not> is_exec c) (dup_outputs k n fds)" for n fds by (rule makes_mono [OF makes_dup_outputs]) auto
  have c: "makes (\<lambda>c. \<not> is_exec c) (enter_workdir k wd)" for wd by (rule makes_mono [OF makes_enter_workdir]) auto
  have d: "makes (\<lambda>c. \<not> is_exec c) (write_container_files k (ov_merged ov) hn ex)" for hn ex
    by (rule makes_mono [OF makes_container_files [OF assms] w])
  have e: "makes (\<lambda>c. \<not> is_exec c) (apply_mounts (mount_apply k (ov_merged ov)) (default_mounts z) [])" for z
    by (rule makes_mono [OF makes_default_mounts [OF assms] w])
  have f: "makes (\<lambda>c. \<not> is_exec c) (overlay_mount k ov)" unfolding overlay_mount_def
    by (intro makes_except makes_bind makes_basic makes_wrappers) simp
  have g: "makes (\<lambda>c. \<not> is_exec c) (enter_root k x)" for x unfolding enter_root_def Let_def
    by (intro makes_except makes_bind makes_basic makes_wrappers makes_sys) simp_all
  have h: "makes (\<lambda>c. \<not> is_exec c) (make_root_private k)" "makes (\<lambda>c. \<not> is_exec c) (remount_root_readonly k)"
    unfolding make_root_private_def remount_root_readonly_def by simp_all
  show ?thesis unfolding init_process_def Let_def
    by (intro makes_except makes_bind makes_guard makes_basic makes_wrappers makes_sys a b c d e f g h) simp_all
qed

text \<open>C35: The workload only runs in an isolated root, whatever the kernel answers: if process 1 asks for the
  workload to be executed, then before it - in this order and successfully - it opened the outputs,
  made its mounts private, mounted the overlay with the layers top first, wrote and mounted only at
  paths that begin with the merged directory, pivoted into it, moved its working directory, detached
  the old root and, if the configuration asks for it, sealed the new one; the outputs are only
  duplicated after that, no file is opened any more, and the request is the last call and carries the
  given arguments.  What is bounded are the paths of the calls, as texts: the configured output files
  are files of the host, created and truncated first, and a link in the image below the merged
  directory can still lead a write before the pivot out of it, since the code does not resolve it.\<close>

theorem workload_runs_isolated:
  assumes "init_main k cfg name im (ov\<lparr>ov_merged := path_join base ''merged''\<rparr>) spent argv [] = (r, lg)"
    and "(c, e) \<in> set lg" "is_exec c"
  shows "\<exists>options outs files b rest skipped dups env. overlay_options (ov\<lparr>ov_merged := path_join base ''merged''\<rparr>) = Inr options
    \<and> c = SExec argv env \<and> (e \<longleftrightarrow> r = Workload)
    \<and> lg = outs @ [(SMount ''none'' ''/'' None (MS_REC OR MS_PRIVATE) None, True),
         (SMount ''overlay'' (path_join base ''merged'') (Some ''overlay'') 0 (Some options), True)]
         @ files @ entering cfg (if cc_hostname cfg \<noteq> [] then cc_hostname cfg else name) (ov\<lparr>ov_merged := path_join base ''merged''\<rparr>) b
         @ rest @ [(SReport (init_report spent skipped), True)] @ dups @ [(c, e)]
    \<and> (\<forall>c b. (c, b) \<in> set outs \<longrightarrow> (\<exists>p \<in> {cc_stdout_path cfg, cc_stderr_path cfg}. c = SOpenOut p))
    \<and> (\<forall>c b. (c, b) \<in> set files \<longrightarrow> inside_root (path_join base ''merged'') c)
    \<and> (\<forall>c b. (c, b) \<in> set rest \<longrightarrow> within_root cfg c)
    \<and> (\<forall>c b. (c, b) \<in> set dups \<longrightarrow> (\<exists>n. c = SDup n))"
proof -
  let ?ov = "ov\<lparr>ov_merged := path_join base ''merged''\<rparr>" and ?m = "path_join base ''merged''"
  have m: "ov_merged ?ov \<noteq> []" "last (ov_merged ?ov) \<noteq> CHR ''/''" using merged_path [of base] by simp_all
  obtain q l1 where i: "init_process k cfg name im ?ov spent [] = (q, l1)" by fastforce
  obtain l where l: "l1 = [] @ l" "\<forall>c b. (c, b) \<in> set l \<longrightarrow> \<not> is_exec c"
    by (rule makesE [OF init_process_no_exec [OF m] i])
  show ?thesis
  proof (cases q)
    case (Inl x)
    then have "lg = l1" using assms(1) i by (simp add: init_main_def)
    then show ?thesis using l assms(2,3) by auto
  next
    case (Inr env)
    obtain e' where x: "lg = l1 @ [(SExec argv env, e')]" "e' \<longleftrightarrow> r = Workload"
      using assms(1) i Inr by (auto simp: init_main_def exec_workload_def sys_def Let_def check_error_def os_exc_def split: if_splits)
    with l assms(2,3) have ce: "c = SExec argv env" "e = e'" by auto
    from init_process_trace [OF i [unfolded Inr] m refl] obtain options outs files b rest skipped dups where t:
      "overlay_options ?ov = Inr options"
      "l1 = [] @ outs @ [(SMount ''none'' ''/'' None (MS_REC OR MS_PRIVATE) None, True),
         (SMount ''overlay'' (ov_merged ?ov) (Some ''overlay'') 0 (Some options), True)]
         @ files @ entering cfg (if cc_hostname cfg \<noteq> [] then cc_hostname cfg else name) ?ov b @ rest
         @ [(SReport (init_report spent skipped), True)] @ dups"
      "\<forall>c b. (c, b) \<in> set outs \<longrightarrow> (\<exists>p \<in> {cc_stdout_path cfg, cc_stderr_path cfg}. c = SOpenOut p)"
      "\<forall>c b. (c, b) \<in> set files \<longrightarrow> inside_root (ov_merged ?ov) c" "\<forall>c b. (c, b) \<in> set rest \<longrightarrow> within_root cfg c"
      "\<forall>c b. (c, b) \<in> set dups \<longrightarrow> (\<exists>n. c = SDup n)" by blast
    show ?thesis
      by (rule exI [of _ options], rule exI [of _ outs], rule exI [of _ files], rule exI [of _ b], rule exI [of _ rest],
          rule exI [of _ skipped], rule exI [of _ dups], rule exI [of _ env])
        (use t x ce in simp)
  qed
qed

section \<open>The status of the workload\<close>

fun proper_status :: "wstatus \<Rightarrow> bool" where
  \<comment> \<open>what the kernel reports: eight bits of exit code, or a signal up to 64\<close>
  "proper_status (Exited n) = (n < 256)"
| "proper_status (Signaled s) = (s \<le> 64)"

lemma exit_code_exits: "proper_status st \<Longrightarrow> exit_code (exits (exit_code st)) = exit_code st"
  by (cases st) (simp_all add: exits_def)

text \<open>The code of the workload reaches the runtime through both supervisors: process 1 reaps whatever is
  re-parented to it and keeps waiting until its own child ends, and C passes the code on; a death by
  signal n arrives as 128 + n.\<close>

theorem workload_code_passes:
  assumes "\<forall>ev \<in> set others. ev = Interrupted \<or> (\<exists>pid s. ev = Reaps pid s \<and> pid \<noteq> child)" "proper_status st"
  shows "\<exists>w. supervise child (others @ Reaps child st # rest) = Some w \<and> exit_code w = exit_code st
    \<and> exit_code (child_end ''G'' w) = exit_code st \<and> exit_code (child_end ''G'' st) = exit_code st"
proof -
  have "supervise child (others @ Reaps child st # rest) = Some (exits (exit_code st))"
    using assms(1) by (induction child others rule: supervise.induct) auto
  moreover have "proper_status (exits (exit_code st))" by (simp add: exits_def)
  ultimately show ?thesis using assms(2) by (auto simp: child_end_def exit_code_exits)
qed

theorem workload_code_passes_witness:
  "\<exists>w. supervise 2 [Reaps 7 (Exited 0), Interrupted, Reaps 2 (Signaled 9)] = Some w \<and> exit_code (child_end ''G'' w) = 137"
proof -
  have o': "\<forall>ev \<in> set [Reaps 7 (Exited 0), Interrupted]. ev = Interrupted \<or> (\<exists>pid s. ev = Reaps pid s \<and> pid \<noteq> 2)"
    and s: "proper_status (Signaled 9)" by auto
  from workload_code_passes [OF o' s, of "[]"] show ?thesis by simp
qed

section \<open>The report\<close>

lemma read_chunks_line:
  assumes "\<forall>c \<in> set chunks. c \<noteq> []" "CHR 0x0A \<in> set (buffer @ concat chunks)"
    and "length (takeWhile (\<lambda>c. c \<noteq> CHR 0x0A) (buffer @ concat chunks)) < limit"
  shows "\<exists>r. read_chunks limit chunks buffer
    = takeWhile (\<lambda>c. c \<noteq> CHR 0x0A) (buffer @ concat chunks) @ CHR 0x0A # r"
  using assms
proof (induction limit chunks buffer rule: read_chunks.induct)
  case (1 limit buffer)
  then have "dropWhile (\<lambda>c. c \<noteq> CHR 0x0A) buffer \<noteq> []" by (auto simp: dropWhile_eq_Nil_conv)
  then obtain x r where d: "dropWhile (\<lambda>c. c \<noteq> CHR 0x0A) buffer = x # r" by (cases "dropWhile (\<lambda>c. c \<noteq> CHR 0x0A) buffer") auto
  then have "x = CHR 0x0A" by (metis (mono_tags) hd_dropWhile list.sel(1) list.distinct(1))
  then show ?case using d takeWhile_dropWhile_id [of "\<lambda>c. c \<noteq> CHR 0x0A" buffer] by (intro exI [of _ r]) simp
next
  case (2 limit chunk rest buffer)
  show ?case
  proof (cases "CHR 0x0A \<in> set buffer")
    case True
    then have "dropWhile (\<lambda>c. c \<noteq> CHR 0x0A) buffer \<noteq> []" by (auto simp: dropWhile_eq_Nil_conv)
    then obtain x r where d: "dropWhile (\<lambda>c. c \<noteq> CHR 0x0A) buffer = x # r" by (cases "dropWhile (\<lambda>c. c \<noteq> CHR 0x0A) buffer") auto
    then have "x = CHR 0x0A" by (metis (mono_tags) hd_dropWhile list.sel(1) list.distinct(1))
    moreover have "takeWhile (\<lambda>c. c \<noteq> CHR 0x0A) (buffer @ concat (chunk # rest)) = takeWhile (\<lambda>c. c \<noteq> CHR 0x0A) buffer"
      using True by (auto simp: takeWhile_append1)
    ultimately show ?thesis
      using True d takeWhile_dropWhile_id [of "\<lambda>c. c \<noteq> CHR 0x0A" buffer] by (intro exI [of _ r]) simp
  next
    case False
    then have "takeWhile (\<lambda>c. c \<noteq> CHR 0x0A) (buffer @ concat (chunk # rest))
        = buffer @ takeWhile (\<lambda>c. c \<noteq> CHR 0x0A) (concat (chunk # rest))" by (subst takeWhile_append2) auto
    then have "\<not> length buffer \<ge> limit" using "2.prems"(3) by simp
    with False "2.prems" have "\<not> (CHR 0x0A \<in> set buffer \<or> length buffer \<ge> limit \<or> chunk = [])" by simp
    moreover from "2.IH" [OF this] "2.prems" have "\<exists>r. read_chunks limit rest (buffer @ chunk)
      = takeWhile (\<lambda>c. c \<noteq> CHR 0x0A) ((buffer @ chunk) @ concat rest) @ CHR 0x0A # r" by simp
    ultimately show ?thesis by simp
  qed
qed

lemma strip_Nil_iff: "strip s = [] \<longleftrightarrow> (\<forall>c \<in> set s. is_space c)"
proof -
  have "dropWhile is_space s = [] \<longleftrightarrow> (\<forall>c \<in> set (dropWhile is_space s). is_space c)"
    by (metis dropWhile_eq_Nil_conv dropWhile_idem)
  then show ?thesis by (auto simp: strip_def dropWhile_eq_Nil_conv)
qed

text \<open>The readiness report is read whole, however the pipe cuts it: when the bytes that arrive are a line that is
  the text of a report, a newline and anything after it, the runtime gets that report; when
  nothing arrives before the pipe closes it gets the empty one.\<close>

theorem report_read_whole:
  assumes "\<forall>c \<in> set chunks. c \<noteq> []" "concat chunks = line @ CHR 0x0A # rest" "CHR 0x0A \<notin> set line" "length line < 65536"
    and "loads line = Inr v" "strip line \<noteq> []"
  shows "read_line loads chunks = Inr v \<and> read_line loads [] = Inr (JObj fmempty)"
proof -
  have t: "takeWhile (\<lambda>c. c \<noteq> CHR 0x0A) (concat chunks) = line"
    unfolding assms(2) using assms(3) by (subst takeWhile_append2) auto
  obtain r where r: "read_chunks 65536 chunks [] = line @ CHR 0x0A # r"
    using read_chunks_line [of chunks "[]" 65536] assms t by auto
  have "strip (line @ CHR 0x0A # r) \<noteq> []" using assms(6) by (auto simp: strip_Nil_iff)
  moreover have "hd (split_char CHR 0x0A (line @ CHR 0x0A # r)) = line" by (simp add: split_char_append [OF assms(3)])
  ultimately show ?thesis using r assms(5) by (simp add: read_line_def Let_def strip_Nil_iff) auto
qed

theorem report_read_whole_witness:
  "read_line (\<lambda>t. if t = ''{}'' then Inr (JBool True) else Inl (ValueError [])) [''{'', ''}'' @ [CHR 0x0A], ''x''] = Inr (JBool True)"
proof -
  have a: "\<forall>c \<in> set [''{'', ''}'' @ [CHR 0x0A], ''x'']. c \<noteq> []" "concat [''{'', ''}'' @ [CHR 0x0A], ''x''] = ''{}'' @ CHR 0x0A # ''x''"
    "CHR 0x0A \<notin> set ''{}''" "length ''{}'' < 65536" "strip ''{}'' \<noteq> []" by (simp_all add: strip_Nil_iff is_space_def code_of_def)
  show ?thesis
    using report_read_whole [OF a(1-4) _ a(5), of "\<lambda>t. if t = ''{}'' then Inr (JBool True) else Inl (ValueError [])" "JBool True"] by simp
qed

section \<open>A run\<close>

definition demo_kernel :: kernel where
  \<comment> \<open>answers every call with success; nothing exists\<close>
  "demo_kernel = \<lparr>kn_call = (\<lambda>_ _. 0), kn_strerror = (\<lambda>_. []), kn_exists = (\<lambda>_ _. False), kn_isdir = (\<lambda>_ _. False),
     kn_read = (\<lambda>_ _. None)\<rparr>"

definition demo_cont_config :: container_config where
  "demo_cont_config = \<lparr>cc_image = ''app'', cc_name = ''c'', cc_argv = [''/bin/true''], cc_env = [(''A'', ''1'')], cc_workdir = ''/srv'',
     cc_user = [], cc_hostname = [], cc_limits = \<lparr>li_memory = None, li_memory_high = None, li_memory_swap = None,
       li_cpu_quota = None, li_cpu_weight = None, li_pids_max = None, li_io_weight = None\<rparr>, cc_readonly_root = True,
     cc_use_init = False, cc_network = ''private'', cc_tmpfs_size = ''64m'', cc_extra_hosts = [], cc_stdout_path = ''/tmp/out'',
     cc_stderr_path = []\<rparr>"

definition demo_image :: mc_image where
  "demo_image = \<lparr>mi_reference = ''app'', mi_manifest = JNull, mi_config = JObj fmempty\<rparr>"

definition demo_overlay :: overlay where
  "demo_overlay = \<lparr>ov_merged = [], ov_upper = ''/w/c/upper'', ov_work = ''/w/c/work'', ov_lowers = [''/l/a'', ''/l/b'']\<rparr>"

abbreviation demo_init :: "image_run \<times> sys_log" where
  "demo_init \<equiv> init_main demo_kernel demo_cont_config ''c'' demo_image (demo_overlay\<lparr>ov_merged := path_join ''/w/c'' ''merged''\<rparr>)
    (0, 0, 0) [''/bin/true''] []"

theorem workload_runs_isolated_witness:
  "fst demo_init = Workload \<and> (\<exists>lowers lg1 lg2 env. snd demo_init = lg1 @ (SPivot ''/w/c/merged'' ''/w/c/merged/.oldroot'', True) # lg2
     @ [(SExec [''/bin/true''] env, True)]
     \<and> overlay_options (demo_overlay\<lparr>ov_merged := path_join ''/w/c'' ''merged''\<rparr>) = Inr lowers
     \<and> (SMount ''overlay'' ''/w/c/merged'' (Some ''overlay'') 0 (Some lowers), True) \<in> set lg1
     \<and> (SMount ''none'' ''/'' None (MS_REMOUNT OR MS_BIND OR MS_RDONLY) None, True) \<in> set lg2)"
proof -
  have f: "fst demo_init = Workload" and l: "is_exec (fst (last (snd demo_init)))" "snd (last (snd demo_init))" "snd demo_init \<noteq> []"
    by code_simp+
  obtain lg where i: "demo_init = (Workload, lg)" using f by (metis prod.collapse)
  obtain c where c: "(c, True) \<in> set lg" "is_exec c" using l i by (metis last_in_set prod.collapse snd_conv)
  have p: "path_join ''/w/c'' ''merged'' = ''/w/c/merged''" "path_join ''/w/c/merged'' ''.oldroot'' = ''/w/c/merged/.oldroot''" by code_simp+
  have r: "cc_readonly_root demo_cont_config" by (simp add: demo_cont_config_def)
  from workload_runs_isolated [OF i c] obtain options outs files b rest skipped dups env where
    t: "overlay_options (demo_overlay\<lparr>ov_merged := path_join ''/w/c'' ''merged''\<rparr>) = Inr options" "c = SExec [''/bin/true''] env"
    "lg = outs @ [(SMount ''none'' ''/'' None (MS_REC OR MS_PRIVATE) None, True),
         (SMount ''overlay'' ''/w/c/merged'' (Some ''overlay'') 0 (Some options), True)]
         @ files @ entering demo_cont_config (if cc_hostname demo_cont_config \<noteq> [] then cc_hostname demo_cont_config else ''c'')
             (demo_overlay\<lparr>ov_merged := ''/w/c/merged''\<rparr>) b
         @ rest @ [(SReport (init_report (0, 0, 0) skipped), True)] @ dups @ [(c, True)]" unfolding p by blast
  let ?lg1 = "outs @ [(SMount ''none'' ''/'' None (MS_REC OR MS_PRIVATE) None, True),
         (SMount ''overlay'' ''/w/c/merged'' (Some ''overlay'') 0 (Some options), True)] @ files
         @ [(SMount ''/w/c/merged'' ''/w/c/merged'' None (MS_BIND OR MS_REC) None, True), (SMakedirs ''/w/c/merged/.oldroot'', True)]"
  let ?lg2 = "[(SChdir ''/'', True), (SUmount ''/.oldroot'' MNT_DETACH, True), (SRmdir ''/.oldroot'', b),
         (SHostname (if cc_hostname demo_cont_config \<noteq> [] then cc_hostname demo_cont_config else ''c''), True),
         (SMount ''none'' ''/'' None (MS_REMOUNT OR MS_BIND OR MS_RDONLY) None, True)]
         @ rest @ [(SReport (init_report (0, 0, 0) skipped), True)] @ dups"
  have "lg = ?lg1 @ (SPivot ''/w/c/merged'' ''/w/c/merged/.oldroot'', True) # ?lg2 @ [(SExec [''/bin/true''] env, True)]"
    by (subst t(3)) (simp add: entering_def p r t(2))
  then show ?thesis using i t(1)
    by (intro conjI exI [of _ options] exI [of _ ?lg1] exI [of _ ?lg2] exI [of _ env]) simp_all
qed

end
