(* ===== verification/Container_Life_Props.thy ===== *)
theory Container_Life_Props
  imports Container_Life Container_Init_Props
begin

text \<open>
  The life of a container as a step relation: the operations of the runtime, turn by turn, interleaved with
  what the processes do.  Its invariant gives what \<open>wait\<close> returns and what \<open>kill\<close> leaves; the start is
  characterised by what the inner processes achieved.
\<close>

section \<open>Steps\<close>

inductive env_step :: "world \<Rightarrow> world \<Rightarrow> bool" where
  workload_ends: "wo_init w = Alive \<Longrightarrow> proper_status st \<Longrightarrow> env_step w (w\<lparr>wo_init := Zombie st\<rparr>)"
| child_reaps: "wo_init w = Zombie st \<Longrightarrow> wo_child w = Alive \<Longrightarrow>
    env_step w (w\<lparr>wo_init := Gone st, wo_child := Zombie (child_end ''G'' st)\<rparr>)"
| child_killed: "wo_child w = Alive \<Longrightarrow> s \<le> 64 \<Longrightarrow> env_step w (w\<lparr>wo_child := Zombie (Signaled s)\<rparr>)"
| orphan_reaped: "wo_init w = Zombie st \<Longrightarrow> wo_child w \<noteq> Alive \<Longrightarrow> env_step w (w\<lparr>wo_init := Gone st\<rparr>)"

inductive life :: "life_host \<Rightarrow> cw \<Rightarrow> cw \<Rightarrow> bool" for h where
  env: "env_step w w' \<Longrightarrow> life h (c, w) (c, w')"
| creates: "create h now spent cw = (r, cw') \<Longrightarrow> life h cw cw'"
| starts: "cs_status (ct_state (fst cw)) = ''created'' \<Longrightarrow> wo_child (snd cw) \<noteq> Alive \<Longrightarrow> \<forall>st. wo_child (snd cw) \<noteq> Zombie st \<Longrightarrow>
    da_pid d \<noteq> 0 \<Longrightarrow> start h now d cw = (q, cw') \<Longrightarrow> life h cw cw'"
| waits: "ct_child_pid (fst cw) \<noteq> 0 \<Longrightarrow> wait_look h now deadline cw = (l, cw') \<Longrightarrow> life h cw cw'"
| signals: "ct_child_pid c \<noteq> 0 \<Longrightarrow> s \<le> 64 \<Longrightarrow> life h (c, w) (c, deliver s w)"
| kill_looks: "ct_child_pid (fst cw) \<noteq> 0 \<Longrightarrow> kill_look h cw = (l, cw') \<Longrightarrow> life h cw cw'"
| kill_forces: "ct_child_pid (fst cw) \<noteq> 0 \<Longrightarrow> kill_force h cw = (n, cw') \<Longrightarrow> life h cw cw'"
| deletes: "delete_container h attempts removal cw = (u, cw') \<Longrightarrow> life h cw cw'"

inductive_cases env_stepE: "env_step w w'"

section \<open>What an operation can change\<close>

type_synonym view = "string \<times> nat option \<times> int \<times> proc \<times> proc"

definition view :: "cw \<Rightarrow> view" where
  \<comment> \<open>status, exit code, child, and both processes\<close>
  "view cw = (cs_status (ct_state (fst cw)), cs_exit_code (ct_state (fst cw)), ct_child_pid (fst cw),
     wo_child (snd cw), wo_init (snd cw))"

definition triple :: "(view \<Rightarrow> bool) \<Rightarrow> ('a, cw) act \<Rightarrow> (view \<Rightarrow> bool) \<Rightarrow> (view \<Rightarrow> bool) \<Rightarrow> bool" where
  \<comment> \<open>after a result and after an exception\<close>
  "triple P m Q E \<longleftrightarrow> (\<forall>cw. P (view cw) \<longrightarrow> (case m cw of (Inr x, cw') \<Rightarrow> Q (view cw') | (Inl e, cw') \<Rightarrow> E (view cw')))"

lemma tripleI:
  assumes "\<And>cw x cw'. P (view cw) \<Longrightarrow> m cw = (Inr x, cw') \<Longrightarrow> Q (view cw')"
    and "\<And>cw e cw'. P (view cw) \<Longrightarrow> m cw = (Inl e, cw') \<Longrightarrow> E (view cw')"
  shows "triple P m Q E"
  unfolding triple_def
proof (intro allI impI)
  fix cw assume P: "P (view cw)"
  obtain r cw1 where m: "m cw = (r, cw1)" by (cases "m cw")
  show "case m cw of (Inr x, cw') \<Rightarrow> Q (view cw') | (Inl e, cw') \<Rightarrow> E (view cw')"
    using assms(1,2) [OF P] m by (cases r) simp_all
qed

lemma tripleD:
  assumes "triple P m Q E" "P (view cw)"
  shows "m cw = (Inr x, cw') \<Longrightarrow> Q (view cw')" "m cw = (Inl e, cw') \<Longrightarrow> E (view cw')"
proof -
  have "case m cw of (Inr x, cw') \<Rightarrow> Q (view cw') | (Inl e, cw') \<Rightarrow> E (view cw')"
    by (rule assms(1) [unfolded triple_def, rule_format, OF assms(2)])
  then show "m cw = (Inr x, cw') \<Longrightarrow> Q (view cw')" "m cw = (Inl e, cw') \<Longrightarrow> E (view cw')" by simp_all
qed

lemma triple_bind:
  assumes "triple P m R E" "\<And>x. triple R (f x) Q E" shows "triple P (abind m f) Q E"
proof (rule tripleI)
  fix cw y cw' assume P: "P (view cw)" and a: "abind m f cw = (Inr y, cw')"
  from a obtain x cw1 where x: "m cw = (Inr x, cw1)" "f x cw1 = (Inr y, cw')" by (rule abindE)
  show "Q (view cw')" by (rule tripleD(1) [OF assms(2) tripleD(1) [OF assms(1) P x(1)] x(2)])
next
  fix cw e cw' assume a: "P (view cw)" "abind m f cw = (Inl e, cw')"
  obtain r cw1 where m: "m cw = (r, cw1)" by (cases "m cw")
  show "E (view cw')"
  proof (cases r)
    case (Inl e')
    then show ?thesis using a m tripleD(2) [OF assms(1) a(1)] by (simp add: abind_def)
  next
    case (Inr x)
    then show ?thesis using a m tripleD(1) [OF assms(1) a(1)] tripleD(2) [OF assms(2)] by simp
  qed
qed

lemma triple_weaken:
  assumes "triple P' m Q' E'" "\<And>v. P v \<Longrightarrow> P' v" "\<And>v. Q' v \<Longrightarrow> Q v" "\<And>v. E' v \<Longrightarrow> E v"
  shows "triple P m Q E"
  by (rule tripleI) (use assms tripleD [OF assms(1)] in blast)+

lemma triple_basic: "(\<And>v. P v \<Longrightarrow> Q v) \<Longrightarrow> triple P (aret x) Q E"
  "(\<And>v. P v \<Longrightarrow> Q v) \<Longrightarrow> (\<And>v. P v \<Longrightarrow> E v) \<Longrightarrow> triple P (alift r) Q E"
  "(\<And>v. P v \<Longrightarrow> E v) \<Longrightarrow> triple P (alift (Inl e)) Q E"
  by (auto simp: triple_def split: sum.splits)

lemma triple_if: "(b \<Longrightarrow> triple P m Q E) \<Longrightarrow> (\<not> b \<Longrightarrow> triple P n Q E) \<Longrightarrow> triple P (if b then m else n) Q E"
  by simp

lemma triple_dep: assumes "\<And>cw. triple P (f cw) Q E" shows "triple P (\<lambda>cw. f cw cw) Q E"
proof (rule tripleI)
  fix cw x cw' assume "P (view cw)" "f cw cw = (Inr x, cw')"
  then show "Q (view cw')" using tripleD(1) [OF assms] by blast
next
  fix cw e cw' assume "P (view cw)" "f cw cw = (Inl e, cw')"
  then show "E (view cw')" using tripleD(2) [OF assms] by blast
qed

text \<open>Actions that the view does not see.\<close>

definition unseen :: "('a, cw) act \<Rightarrow> bool" where
  "unseen m \<longleftrightarrow> (\<forall>cw. view (snd (m cw)) = view cw)"

lemma quiet_triple: "unseen m \<Longrightarrow> (\<And>v. P v \<Longrightarrow> Q v) \<Longrightarrow> (\<And>v. P v \<Longrightarrow> E v) \<Longrightarrow> triple P m Q E"
  unfolding triple_def unseen_def by (metis (no_types, lifting) prod.case_eq_if sum.case_eq_if)

lemma quiet_bind: "unseen m \<Longrightarrow> (\<And>x. unseen (f x)) \<Longrightarrow> unseen (abind m f)"
  unfolding unseen_def by (auto simp: abind_def split: prod.splits sum.splits) (metis snd_conv)+

lemma quiet_basic [simp]: "unseen (aret x)" "unseen (alift r)" "unseen (calls m)"
  by (auto simp: unseen_def calls_def view_def split: prod.splits)

lemma quiet_upd: "(\<And>c. cs_status (ct_state (f c)) = cs_status (ct_state c) \<and> cs_exit_code (ct_state (f c)) = cs_exit_code (ct_state c)
    \<and> ct_child_pid (f c) = ct_child_pid c) \<Longrightarrow> unseen (upd f)"
  by (simp add: unseen_def upd_def view_def)

lemma quiet_dep: "(\<And>cw. unseen (f cw)) \<Longrightarrow> unseen (\<lambda>cw. f cw cw)"
  unfolding unseen_def by blast

lemma quiet_write_state: "unseen (write_state h)"
  unfolding write_state_def Let_def
  by (rule quiet_dep, intro quiet_bind quiet_basic) (simp add: unseen_def view_def)

lemma quiet_cgroup_step: "unseen (cgroup_step h)"
  by (auto simp: unseen_def cgroup_step_def upd_def view_def split: sum.splits)

lemma quiet_ensure: "unseen (ensure_layers h im)"
  by (auto simp: unseen_def ensure_layers_def view_def split: prod.splits)

lemma quiet_create: "unseen (create h now spent)"
  unfolding create_def Let_def
  by (rule quiet_dep, intro quiet_bind quiet_basic quiet_cgroup_step quiet_ensure quiet_write_state)
    (auto simp: set_state_def intro!: quiet_upd)

lemma quiet_take_report: "unseen (take_report h report)"
  unfolding take_report_def by (intro quiet_bind quiet_basic) (auto intro!: quiet_upd)

section \<open>The invariant\<close>

fun came :: "wstatus \<Rightarrow> proc \<Rightarrow> bool" where
  \<comment> \<open>how C can have ended with a status: by a signal, or with the code of the G that it reaped\<close>
  "came (Signaled s) ini = (s \<le> 64)"
| "came st (Gone g) = (proper_status g \<and> st = exits (exit_code g))"
| "came st ini = False"

fun life_inv :: "view \<Rightarrow> bool" where
  "life_inv (stt, ec, pid, ch, ini) =
     ((pid \<noteq> 0 \<longrightarrow> ch \<noteq> NoProc)
      \<and> (stt = ''running'' \<longrightarrow> pid \<noteq> 0 \<and> (ch = Alive \<or> (\<exists>st. ch = Zombie st)))
      \<and> (stt = ''exited'' \<longrightarrow> (\<exists>st. ch = Gone st \<and> came st ini \<and> ec = Some (exit_code st)))
      \<and> (stt = ''killed'' \<longrightarrow> (\<exists>st. ch = Gone st))
      \<and> (\<forall>st. ch = Zombie st \<longrightarrow> came st ini)
      \<and> (\<forall>g. ini = Zombie g \<or> ini = Gone g \<longrightarrow> proper_status g))"

definition waiting :: "view \<Rightarrow> bool" where
  \<comment> \<open>a start that has a live child\<close>
  "waiting v = (case v of (stt, ec, pid, ch, ini) \<Rightarrow> life_inv v \<and> stt = ''created'' \<and> pid \<noteq> 0 \<and> ch = Alive)"

lemma proper_exits [simp]: "proper_status (exits n)"
  by (simp add: exits_def)

lemma child_prepare_end: "fst (child_prepare k sh g pid hz lg) = (answer, ended) \<Longrightarrow>
    (answer = ''R'' \<and> ended = None) \<or> (take 1 answer \<noteq> ''R'' \<and> ended = Some (exits 125))"
  by (auto simp: child_prepare_def split: prod.splits sum.splits if_splits)

lemma init_main_end: "init_main k cfg nm im ov spent argv lg = (Ends st, lg') \<Longrightarrow> proper_status st"
  by (auto simp: init_main_def exec_workload_def split: prod.splits sum.splits exc.splits)

lemma view_sets:
  "view (snd (set_child p cw)) = (case view cw of (a, b, c, d, e) \<Rightarrow> (a, b, c, p, e))"
  "view (snd (set_init q n cw)) = (case view cw of (a, b, c, d, e) \<Rightarrow> (a, b, c, d, q))"
  by (simp_all add: view_def set_child_def set_init_def)

lemma triple_total: "(\<And>cw. \<exists>x. fst (m cw) = Inr x) \<Longrightarrow> (\<And>cw. P (view cw) \<Longrightarrow> Q (view (snd (m cw)))) \<Longrightarrow> triple P m Q E"
  unfolding triple_def by (metis (no_types, lifting) prod.case_eq_if old.sum.simps(6))

lemma triple_sets:
  "(\<And>a b c d e. P (a, b, c, d, e) \<Longrightarrow> Q (a, b, c, p, e)) \<Longrightarrow> triple P (set_child p) Q E"
  "(\<And>a b c d e. P (a, b, c, d, e) \<Longrightarrow> Q (a, b, c, d, q)) \<Longrightarrow> triple P (set_init q n) Q E"
  "(\<And>a b c d e. P (a, b, c, d, e) \<Longrightarrow> Q (a, b, n', d, e)) \<Longrightarrow> triple P (upd (\<lambda>c. c\<lparr>ct_child_pid := n'\<rparr>)) Q E"
proof -
  show "triple P (set_child p) Q E" if "\<And>a b c d e. P (a, b, c, d, e) \<Longrightarrow> Q (a, b, c, p, e)"
    by (rule triple_total) (use that in \<open>auto simp: set_child_def view_def\<close>)
  show "triple P (set_init q n) Q E" if "\<And>a b c d e. P (a, b, c, d, e) \<Longrightarrow> Q (a, b, c, d, q)"
    by (rule triple_total) (use that in \<open>auto simp: set_init_def view_def\<close>)
  show "triple P (upd (\<lambda>c. c\<lparr>ct_child_pid := n'\<rparr>)) Q E" if "\<And>a b c d e. P (a, b, c, d, e) \<Longrightarrow> Q (a, b, n', d, e)"
    by (rule triple_total) (use that in \<open>auto simp: upd_def view_def\<close>)
qed

lemma triple_upd_state:
  assumes "\<And>a b c d e x. P (a, b, c, d, e) \<Longrightarrow> Q (s', b, c, d, e)"
    and "\<And>c. cs_status (ct_state (f c)) = s' \<and> cs_exit_code (ct_state (f c)) = cs_exit_code (ct_state c) \<and> ct_child_pid (f c) = ct_child_pid c"
  shows "triple P (upd f) Q E"
  by (rule triple_total) (use assms in \<open>auto simp: upd_def view_def\<close>)

lemma waiting_inv: "waiting v \<Longrightarrow> life_inv v"
  by (cases v) (simp add: waiting_def)

lemma install_maps_keeps: "triple waiting (install_maps h d m) waiting life_inv"
proof (rule tripleI)
  fix cw x cw' assume "waiting (view cw)" "install_maps h d m cw = (Inr x, cw')"
  then show "waiting (view cw')"
    by (auto simp: install_maps_def view_def abind_def set_child_def Let_def split: option.splits prod.splits sum.splits if_splits)
next
  fix cw e cw' assume w: "waiting (view cw)" and i: "install_maps h d m cw = (Inl e, cw')"
  have "view cw' = view cw \<or> view cw' = (case view cw of (a, b, c, d, e) \<Rightarrow> (a, b, c, Gone (Signaled 9), e))"
    using i by (auto simp: install_maps_def view_def abind_def set_child_def Let_def split: option.splits prod.splits sum.splits if_splits)
  then show "life_inv (view cw')" using w by (cases "view cw") (auto simp: waiting_def)
qed

definition runs :: "view \<Rightarrow> bool" where
  "runs v = (life_inv v \<and> fst v = ''running'')"

lemma runs_inv: "runs v \<Longrightarrow> life_inv v"
  by (simp add: runs_def)

lemma after_report_keeps: "triple waiting (after_report h now d report) runs life_inv"
proof -
  have ws: "triple life_inv (write_state h) life_inv life_inv" "triple runs (write_state h) runs life_inv"
    by (rule quiet_triple [OF quiet_write_state]; auto intro: runs_inv)+
  have run: "triple waiting (upd (\<lambda>c. c\<lparr>ct_state := (ct_state c)\<lparr>cs_pid := da_pid d, cs_status := ''running'',
            cs_started_at := now, cs_phases := phases_to_json (ct_phases c)\<rparr>\<rparr>)) runs life_inv"
    by (rule triple_upd_state) (auto simp: waiting_def runs_def)
  have fl: "triple waiting (set_state (\<lambda>s. s\<lparr>cs_status := ''failed''\<rparr>)) life_inv life_inv"
    unfolding set_state_def by (rule triple_upd_state) (auto simp: waiting_def)
  have tr: "triple waiting (take_report h report) waiting life_inv"
    by (rule quiet_triple [OF quiet_take_report]) (auto intro: waiting_inv)
  show ?thesis unfolding after_report_def
    by (intro triple_if triple_bind [OF fl] triple_bind [OF ws(1)] triple_bind [OF tr] triple_bind [OF run] triple_bind [OF ws(2)] triple_basic) simp_all
qed

lemma after_go_keeps:
  assumes "\<And>st. fst outcome = Ends st \<Longrightarrow> proper_status st"
  shows "triple waiting (after_go h now d outcome) runs life_inv"
proof -
  have si: "triple waiting (set_init (case fst outcome of Workload \<Rightarrow> Alive | Ends st \<Rightarrow> Zombie st) n) waiting life_inv" for n
    by (rule triple_sets) (use assms in \<open>auto simp: waiting_def split: image_run.splits\<close>)
  have rl: "triple waiting (alift r) waiting life_inv" for r :: "json res" by (rule triple_basic) (auto intro: waiting_inv)
  have ph: "triple waiting (upd (\<lambda>c. c\<lparr>ct_phases := (ct_phases c)\<lparr>ph_setup := x\<rparr>\<rparr>)) waiting life_inv" for x
    by (rule quiet_triple [OF quiet_upd]) (auto intro: waiting_inv)
  show ?thesis unfolding after_go_def
    by (intro triple_bind [OF si] triple_bind [OF rl] triple_bind [OF ph] after_report_keeps)
qed

definition startable :: "view \<Rightarrow> bool" where
  "startable v = (case v of (stt, ec, pid, ch, ini) \<Rightarrow> life_inv v \<and> stt = ''created'' \<and> ch \<noteq> Alive \<and> (\<forall>st. ch \<noteq> Zombie st))"

lemma after_fork_keeps:
  assumes "\<And>st. fst outcome = Ends st \<Longrightarrow> proper_status st" "da_pid d \<noteq> 0"
    and "(fst child = ''R'' \<and> snd child = None) \<or> (take 1 (fst child) \<noteq> ''R'' \<and> snd child = Some (exits 125))"
  shows "triple startable (after_fork h now d m child outcome) runs life_inv"
proof -
  define Q where "Q v = (case v of (stt, ec, pid, ch, ini) \<Rightarrow> life_inv v \<and> stt = ''created'' \<and> ch = Alive)" for v :: view
  have q: "life_inv v" if "Q v" for v using that by (cases v) (simp add: Q_def)
  have a: "triple startable (set_child Alive) Q life_inv" by (rule triple_sets) (auto simp: startable_def Q_def)
  have b: "triple Q (upd (\<lambda>c. c\<lparr>ct_child_pid := da_pid d\<rparr>)) waiting life_inv"
    by (rule triple_sets) (use assms(2) in \<open>auto simp: waiting_def Q_def\<close>)
  have c: "triple waiting (await_namespaces (fst child) (snd child)) waiting life_inv"
  proof (cases "take 1 (fst child) = ''R''")
    case True
    then show ?thesis unfolding await_namespaces_def by (simp add: triple_basic)
  next
    case False
    then have e: "snd child = Some (exits 125)" using assms(3) by auto
    have "triple waiting (set_child (Gone (exits 125))) life_inv life_inv" by (rule triple_sets) (auto simp: waiting_def)
    then show ?thesis unfolding await_namespaces_def e Let_def
      using False by (auto intro!: triple_bind triple_basic)
  qed
  have p: "triple waiting (upd (\<lambda>c. c\<lparr>ct_phases := f (ct_phases c)\<rparr>)) waiting life_inv" for f
    by (rule quiet_triple [OF quiet_upd]) (auto intro: waiting_inv)
  show ?thesis unfolding after_fork_def
    by (intro triple_bind [OF a] triple_bind [OF b] triple_bind [OF c] triple_bind [OF p] triple_bind [OF install_maps_keeps]
        after_go_keeps assms(1))
qed

lemma startable_inv: "startable v \<Longrightarrow> life_inv v"
  by (cases v) (simp add: startable_def)

lemma start_keeps: assumes "da_pid d \<noteq> 0" shows "triple startable (start h now d) runs life_inv"
proof -
  have fk: "triple startable (after_fork h now d m (fst (child_prepare k sh g pid hz [])) (init_main k' cfg nm im ov sp argv [])) runs life_inv"
    for m k sh g pid hz k' nm im ov sp argv cfg
  proof (rule after_fork_keeps [OF _ assms])
    show "proper_status st" if "fst (init_main k' cfg nm im ov sp argv []) = Ends st" for st
      using that init_main_end by (metis prod.collapse)
    show "(fst (fst (child_prepare k sh g pid hz [])) = ''R'' \<and> snd (fst (child_prepare k sh g pid hz [])) = None)
        \<or> (take 1 (fst (fst (child_prepare k sh g pid hz []))) \<noteq> ''R'' \<and> snd (fst (child_prepare k sh g pid hz [])) = Some (exits 125))"
      by (rule child_prepare_end) (rule prod.collapse [symmetric])
  qed
  have ar: "triple startable (alift r) startable life_inv" for r :: "string list res"
    by (rule triple_basic) (auto intro: startable_inv)
  define M where "M c = (case (ct_image c, ct_overlay c) of
        (Some im, Some ov) \<Rightarrow> abind (alift (if cc_argv (ct_config c) \<noteq> [] then Inr (cc_argv (ct_config c)) else mc_argv im)) (\<lambda>argv.
          if argv = [] then alift (Inl (ContainerError (cc_image (ct_config c) @ '' has no entrypoint and none was given'')))
          else after_fork h now d (ct_mapping c)
            (fst (child_prepare (da_child_kernel d) (lh_show h) (ct_cgroup c \<noteq> None) (da_pid d) (lh_hazard h) []))
            (init_main (da_init_kernel d) (ct_config c) (ct_name c) im ov (da_inner d) argv []))
      | _ \<Rightarrow> alift (Inl (ContainerError ''create() must run before start()'')))" for c :: container
  have eq: "start h now d cw = M (fst cw) cw" for cw
    by (simp add: start_def M_def Let_def split: option.split)
  have t: "triple startable (M c) runs life_inv" for c
    by (cases "ct_image c"; cases "ct_overlay c")
      (auto simp: M_def intro!: triple_bind [OF ar] triple_basic fk intro: startable_inv)
  show ?thesis
    by (rule tripleI) (unfold eq, (erule (1) tripleD [OF t])+)
qed

lemma env_step_inv: "env_step w w' \<Longrightarrow> life_inv (view (c, w)) \<Longrightarrow> life_inv (view (c, w'))"
proof (induction rule: env_step.induct)
  case (workload_ends w st)
  have "came x Alive \<Longrightarrow> came x (Zombie st)" for x by (cases x) auto
  then show ?case using workload_ends by (auto simp: view_def)
next
  case (child_reaps w st)
  then show ?case by (auto simp: view_def child_end_def exits_def)
next
  case (child_killed w s)
  then show ?case by (auto simp: view_def)
next
  case (orphan_reaped w st)
  have "came x (Zombie st) \<Longrightarrow> came x (Gone st)" for x by (cases x) auto
  then show ?case using orphan_reaped by (auto simp: view_def)
qed

lemma write_state_view: "view (snd (write_state h cw)) = view cw"
  using quiet_write_state unfolding unseen_def by blast

lemma abind_snd: "view (snd (abind m f cw)) = (case m cw of (Inl e, cw') \<Rightarrow> view cw' | (Inr x, cw') \<Rightarrow> view (snd (f x cw')))"
  by (auto simp: abind_def split: prod.splits sum.splits)

lemma finish_view:
  assumes "\<And>s. cs_status (f s) = cs_status s \<and> cs_exit_code (f s) = cs_exit_code s"
  shows "view (snd (finish h st f cw)) = (''exited'', Some (exit_code st), ct_child_pid (fst cw), Gone st, wo_init (snd cw))"
proof -
  have w: "view (snd (abind (write_state h) (\<lambda>_. aret (Done n)) cw')) = view cw'" for cw' n
    using write_state_view [of h cw'] by (auto simp: abind_def split: prod.splits sum.splits)
  show ?thesis unfolding finish_def set_child_def set_state_def upd_def abind_def [of "\<lambda>cw. (Inr (), _ cw)"]
    using assms by (simp add: w) (simp add: view_def)
qed

lemma wait_look_inv:
  assumes "life_inv (view cw)" "wait_look h now deadline cw = (l, cw')"
  shows "life_inv (view cw')"
proof (cases "wo_child (snd cw)")
  case (Zombie st)
  then have "view cw' = (''exited'', Some (exit_code st), ct_child_pid (fst cw), Gone st, wo_init (snd cw))"
    using assms(2) finish_view [of "\<lambda>s. s\<lparr>cs_finished_at := now\<rparr>" h st cw] by (simp add: wait_look_def)
  then show ?thesis using assms(1) Zombie by (simp add: view_def)
qed (use assms in \<open>auto simp: wait_look_def split: option.splits if_splits\<close>)

lemma kill_look_inv:
  assumes "life_inv (view cw)" "kill_look h cw = (l, cw')"
  shows "life_inv (view cw')"
proof (cases "wo_child (snd cw)")
  case (Zombie st)
  then have "view cw' = (''exited'', Some (exit_code st), ct_child_pid (fst cw), Gone st, wo_init (snd cw))"
    using assms(2) finish_view [of "\<lambda>s. s" h st cw] by (simp add: kill_look_def)
  then show ?thesis using assms(1) Zombie by (simp add: view_def)
qed (use assms in \<open>auto simp: kill_look_def\<close>)

lemma ended_by_came: "came st ini \<Longrightarrow> came st (ended_by 9 ini)"
  by (cases ini; cases st) (auto simp: ended_by_def exits_def)

lemma cgroup_kill_inv:
  assumes "life_inv (view cw)" "cgroup_kill h cw = (r, cw')"
  shows "life_inv (view cw') \<and> ct_child_pid (fst cw') = ct_child_pid (fst cw)"
proof -
  have "\<exists>f g. view cw' = (cs_status (ct_state (fst cw)), cs_exit_code (ct_state (fst cw)), ct_child_pid (fst cw),
      f (wo_child (snd cw)), g (wo_init (snd cw))) \<and> f \<in> {id, ended_by 9} \<and> g \<in> {id, ended_by 9}"
  proof (cases "ct_cgroup (fst cw)")
    case None
    then show ?thesis using assms(2) by (intro exI [of _ id]) (auto simp: cgroup_kill_def view_def)
  next
    case (Some gr)
    obtain q gr' where q: "group_kill_all (lh_cg h) (lh_procs h) gr = (q, gr')" by (cases "group_kill_all (lh_cg h) (lh_procs h) gr")
    consider e where "q = Inl e" | "q = Inr None" | ps where "q = Inr (Some ps)" by (metis old.sum.exhaust option.exhaust)
    then show ?thesis
    proof cases
      case 1
      then show ?thesis using assms(2) Some q by (intro exI [of _ id]) (auto simp: cgroup_kill_def view_def Let_def)
    next
      case 2
      then show ?thesis using assms(2) Some q by (intro exI [of _ "ended_by 9"]) (auto simp: cgroup_kill_def view_def Let_def)
    next
      case 3
      then show ?thesis using assms(2) Some q
        by (intro exI [of _ "if ct_child_pid (fst cw) \<in> set ps then ended_by 9 else id"]
            exI [of _ "if wo_init_pid (snd cw) \<in> set ps then ended_by 9 else id"]) (auto simp: cgroup_kill_def view_def Let_def)
    qed
  qed
  then obtain f g where v: "view cw' = (cs_status (ct_state (fst cw)), cs_exit_code (ct_state (fst cw)), ct_child_pid (fst cw),
      f (wo_child (snd cw)), g (wo_init (snd cw)))" "f \<in> {id, ended_by 9}" "g \<in> {id, ended_by 9}" by blast
  have e: "came st (wo_init (snd cw)) \<Longrightarrow> came st (g (wo_init (snd cw)))" for st using v(3) ended_by_came by auto
  have p: "\<forall>x. wo_init (snd cw) = Zombie x \<or> wo_init (snd cw) = Gone x \<longrightarrow> proper_status x" using assms(1) by (simp add: view_def)
  then have p': "\<forall>x. g (wo_init (snd cw)) = Zombie x \<or> g (wo_init (snd cw)) = Gone x \<longrightarrow> proper_status x"
    using v(3) by (auto simp: ended_by_def split: proc.splits)
  have "life_inv (view cw')" using assms(1) v(1,2) e p' by (auto simp: view_def ended_by_def split: proc.splits)
  then show ?thesis using v(1) by (simp add: view_def)
qed

lemma reap_killed_view:
  assumes "wo_child (snd cw) \<noteq> NoProc" "reap_killed cw = (r, cw')"
  shows "r = Inr ()" "\<exists>st. view cw' = (cs_status (ct_state (fst cw)), cs_exit_code (ct_state (fst cw)), ct_child_pid (fst cw), Gone st, wo_init (snd cw))"
  using assms by (auto simp: reap_killed_def set_child_def view_def split: proc.splits)

lemma kill_force_view:
  assumes "life_inv (view cw)" "ct_child_pid (fst cw) \<noteq> 0" "cgroup_kill h cw = (Inr (), cw1)"
  shows "\<exists>st. view (snd (kill_force h cw)) = (''killed'', cs_exit_code (ct_state (fst cw1)), ct_child_pid (fst cw), Gone st, wo_init (snd cw1))"
proof -
  have i: "life_inv (view cw1)" "ct_child_pid (fst cw1) = ct_child_pid (fst cw)" using cgroup_kill_inv [OF assms(1,3)] by auto
  obtain r cw2 where k: "reap_killed cw1 = (r, cw2)" by (cases "reap_killed cw1")
  have "wo_child (snd cw1) \<noteq> NoProc" using i assms(2) by (simp add: view_def)
  from reap_killed_view [OF this k] obtain st where r: "r = Inr ()"
    and v: "view cw2 = (cs_status (ct_state (fst cw1)), cs_exit_code (ct_state (fst cw1)), ct_child_pid (fst cw1), Gone st, wo_init (snd cw1))"
    by blast
  define cw3 where "cw3 = (fst cw2\<lparr>ct_state := (ct_state (fst cw2))\<lparr>cs_status := ''killed''\<rparr>\<rparr>, snd cw2)"
  have "kill_force h cw = abind (write_state h) (\<lambda>_. aret 137) cw3"
    unfolding kill_force_def cw3_def using assms(3) k r by (simp add: set_state_def upd_def abind_def)
  moreover have "view (snd (abind (write_state h) (\<lambda>_. aret (137 :: nat)) cw3)) = view cw3"
    using write_state_view [of h cw3] by (auto simp: abind_def split: prod.splits sum.splits)
  moreover have "view cw3 = (''killed'', cs_exit_code (ct_state (fst cw1)), ct_child_pid (fst cw), Gone st, wo_init (snd cw1))"
    using v i(2) by (simp add: cw3_def view_def)
  ultimately show ?thesis by auto
qed

lemma kill_force_inv:
  assumes "life_inv (view cw)" "ct_child_pid (fst cw) \<noteq> 0" "kill_force h cw = (r, cw')"
  shows "life_inv (view cw')"
proof -
  obtain q cw1 where q: "cgroup_kill h cw = (q, cw1)" by (cases "cgroup_kill h cw")
  have i: "life_inv (view cw1)" using cgroup_kill_inv [OF assms(1) q] by auto
  show ?thesis
  proof (cases q)
    case (Inl e)
    then show ?thesis using assms(3) q i by (simp add: kill_force_def abind_def)
  next
    case (Inr u)
    then show ?thesis using kill_force_view [OF assms(1,2), of h cw1] q i assms(3) by (auto simp: view_def)
  qed
qed

lemma delete_inv:
  assumes "life_inv (view cw)" "delete_container h attempts removal cw = (r, cw')"
  shows "life_inv (view cw')"
proof -
  obtain q cw1 where q: "cgroup_kill h cw = (q, cw1)" by (cases "cgroup_kill h cw")
  have i: "life_inv (view cw1)" using cgroup_kill_inv [OF assms(1) q] by auto
  let ?rest = "abind (case ct_overlay (fst cw) of Some ov \<Rightarrow> calls (overlay_cleanup (lh_kernel h) ov) | None \<Rightarrow> aret ()) (\<lambda>_.
      abind (calls (except_os (sys (lh_kernel h) (SRmtree (ct_bundle (fst cw)))) (\<lambda>e. aret ()))) (\<lambda>_.
      aret (map_option (\<lambda>g. group_destroy attempts removal) (ct_cgroup (fst cw)))))"
  have "unseen ?rest" by (intro quiet_bind quiet_basic) (simp split: option.split)
  then have "view (snd (?rest cw1)) = view cw1" unfolding unseen_def by blast
  then show ?thesis using assms(2) q i
    by (cases q) (simp_all add: delete_container_def Let_def abind_def)
qed

lemma deliver_inv: "s \<le> 64 \<Longrightarrow> life_inv (view (c, w)) \<Longrightarrow> life_inv (view (c, deliver s w))"
  by (auto simp: deliver_def view_def ended_by_def)

lemma life_keeps: "life h cw cw' \<Longrightarrow> life_inv (view cw) \<Longrightarrow> life_inv (view cw')"
proof (induction rule: life.induct)
  case (env w w' c)
  then show ?case by (rule env_step_inv)
next
  case (creates now spent cw r cw')
  then show ?case using quiet_create unfolding unseen_def by (metis snd_conv)
next
  case (starts cw d now q cw')
  have "startable (view cw)" using starts by (simp add: startable_def view_def)
  then show ?case using tripleD [OF start_keeps [OF starts(4)]] starts(5) by (cases q) (blast intro: runs_inv)+
next
  case (waits cw now deadline l cw')
  then show ?case using wait_look_inv by blast
next
  case (signals c s w)
  then show ?case using deliver_inv by blast
next
  case (kill_looks cw l cw')
  then show ?case using kill_look_inv by blast
next
  case (kill_forces cw n cw')
  then show ?case using kill_force_inv by blast
next
  case (deletes attempts removal cw u cw')
  then show ?case using delete_inv by blast
qed

definition fresh :: "cw \<Rightarrow> bool" where
  "fresh cw \<longleftrightarrow> (\<exists>cfg ws cid. fst cw = new_container cfg ws cid) \<and> wo_child (snd cw) = NoProc \<and> wo_init (snd cw) = NoProc"

lemma reachable_inv: "(life h)\<^sup>*\<^sup>* cw cw' \<Longrightarrow> fresh cw \<Longrightarrow> life_inv (view cw')"
proof (induction rule: rtranclp_induct)
  case base
  then show ?case by (auto simp: fresh_def new_container_def Let_def view_def)
next
  case (step cw1 cw2)
  then show ?case using life_keeps by blast
qed

lemma came_code: "came st ini \<Longrightarrow> (\<exists>s \<le> 64. st = Signaled s \<and> exit_code st = 128 + s)
    \<or> (\<exists>g. ini = Gone g \<and> proper_status g \<and> exit_code st = exit_code g)"
  by (cases "(st, ini)" rule: came.cases) (auto simp: exit_code_exits)

text \<open>C36: What the state of a container says about its processes, after any sequence of operations interleaved with
  whatever the processes do: a running container has a child that nobody reaped; an exited one has been
  reaped, and its exit code is that of the workload's process 1, unless the supervising child itself died by a
  signal; of a killed one the child is gone.\<close>

theorem container_life_invariant:
  assumes "(life h)\<^sup>*\<^sup>* cw (c, w)" "fresh cw"
  shows "(cs_status (ct_state c) = ''running'' \<longrightarrow> ct_child_pid c \<noteq> 0 \<and> (wo_child w = Alive \<or> (\<exists>st. wo_child w = Zombie st)))
    \<and> (cs_status (ct_state c) = ''exited'' \<longrightarrow> (\<exists>st n. wo_child w = Gone st \<and> cs_exit_code (ct_state c) = Some n
        \<and> ((\<exists>s \<le> 64. st = Signaled s \<and> n = 128 + s) \<or> (\<exists>g. wo_init w = Gone g \<and> proper_status g \<and> n = exit_code g))))
    \<and> (cs_status (ct_state c) = ''killed'' \<longrightarrow> (\<exists>st. wo_child w = Gone st))"
proof -
  have i: "life_inv (view (c, w))" by (rule reachable_inv [OF assms])
  show ?thesis
  proof (intro conjI impI)
    assume "cs_status (ct_state c) = ''exited''"
    with i obtain st where "wo_child w = Gone st" "came st (wo_init w)" "cs_exit_code (ct_state c) = Some (exit_code st)"
      by (auto simp: view_def)
    with came_code [of st "wo_init w"] show "\<exists>st n. wo_child w = Gone st \<and> cs_exit_code (ct_state c) = Some n
        \<and> ((\<exists>s \<le> 64. st = Signaled s \<and> n = 128 + s) \<or> (\<exists>g. wo_init w = Gone g \<and> proper_status g \<and> n = exit_code g))"
      by blast
  qed (use i in \<open>auto simp: view_def\<close>)
qed

section \<open>Wait\<close>

definition lives :: "turns \<Rightarrow> bool" where
  \<comment> \<open>between two looks the processes only do what processes do\<close>
  "lives turns \<longleftrightarrow> (\<forall>(now, f) \<in> set turns. \<forall>w. env_step\<^sup>*\<^sup>* w (f w))"

lemma env_life: "env_step\<^sup>*\<^sup>* w w' \<Longrightarrow> (life h)\<^sup>*\<^sup>* (c, w) (c, w')"
  by (induction rule: rtranclp_induct) (auto intro: life.env rtranclp.rtrancl_into_rtrancl)

lemma wait_turns_reach:
  assumes "wait_turns h deadline turns cw = Some (r, cw')" "lives turns" "ct_child_pid (fst cw) \<noteq> 0"
  shows "(life h)\<^sup>*\<^sup>* cw cw' \<and> (\<forall>n. r = Inr n \<longrightarrow> (\<exists>st. n = exit_code st \<and> cs_status (ct_state (fst cw')) = ''exited''
    \<and> cs_exit_code (ct_state (fst cw')) = Some n \<and> wo_child (snd cw') = Gone st))"
  using assms
proof (induction turns arbitrary: cw)
  case (Cons t rest)
  obtain now env where t: "t = (now, env)" by (cases t)
  obtain l cw1 where l: "wait_look h now deadline cw = (l, cw1)" by (cases "wait_look h now deadline cw")
  have s: "life h cw cw1" by (rule life.waits [OF Cons.prems(3) l])
  consider e where "l = Inl e" | n where "l = Inr (Done n)" | "l = Inr Again \<or> l = Inr Broken"
    by (metis turn_answer.exhaust old.sum.exhaust)
  then show ?case
  proof cases
    case 1
    then show ?thesis using Cons.prems(1) t l s by auto
  next
    case 2
    then obtain st where z: "wo_child (snd cw) = Zombie st"
      using l by (auto simp: wait_look_def split: proc.splits option.splits if_splits)
    then have f: "finish h st (\<lambda>s. s\<lparr>cs_finished_at := now\<rparr>) cw = (Inr (Done n), cw1)" using l 2 by (simp add: wait_look_def)
    have v: "view cw1 = (''exited'', Some (exit_code st), ct_child_pid (fst cw), Gone st, wo_init (snd cw))"
      using finish_view [of "\<lambda>s. s\<lparr>cs_finished_at := now\<rparr>" h st cw] f by simp
    have "n = exit_code st" using f by (auto simp: finish_def elim!: abindE)
    then show ?thesis using Cons.prems(1) t l 2 v s by (auto simp: view_def)
  next
    case 3
    then have l': "cw1 = cw" "l = Inr Again" using l
      by (auto simp: wait_look_def finish_def split: proc.splits option.splits if_splits elim!: abindE)
    have lv: "lives rest" "env_step\<^sup>*\<^sup>* (snd cw) (env (snd cw))" using Cons.prems(2) t by (auto simp: lives_def)
    have r: "wait_turns h deadline rest (fst cw, env (snd cw)) = Some (r, cw')" using Cons.prems(1) t l l' by simp
    have e: "(life h)\<^sup>*\<^sup>* cw (fst cw, env (snd cw))" using env_life [OF lv(2), of h "fst cw"] by simp
    from Cons.IH [OF r lv(1)] Cons.prems(3) have
      "(life h)\<^sup>*\<^sup>* (fst cw, env (snd cw)) cw' \<and> (\<forall>n. r = Inr n \<longrightarrow> (\<exists>st. n = exit_code st \<and> cs_status (ct_state (fst cw')) = ''exited''
        \<and> cs_exit_code (ct_state (fst cw')) = Some n \<and> wo_child (snd cw') = Gone st))" by simp
    with e show ?thesis by (meson rtranclp_trans)
  qed
qed simp

text \<open>C37: What \<open>wait\<close> returns is the code of the workload: when it returns a code, the container was reaped, its state
  says exited with that code, and the code is the one process 1 ended with (or 128 plus the signal by which
  the supervising child died).\<close>

theorem wait_returns_workload_code:
  assumes "(life h)\<^sup>*\<^sup>* cw0 cw" "fresh cw0" "lives turns" "wait_container h now timeout turns cw = Some (Inr n, cw')"
  shows "(life h)\<^sup>*\<^sup>* cw0 cw' \<and> cs_status (ct_state (fst cw')) = ''exited'' \<and> cs_exit_code (ct_state (fst cw')) = Some n
    \<and> ((\<exists>s \<le> 64. wo_child (snd cw') = Gone (Signaled s) \<and> n = 128 + s)
       \<or> (\<exists>g. wo_init (snd cw') = Gone g \<and> proper_status g \<and> n = exit_code g))"
proof -
  have p: "ct_child_pid (fst cw) \<noteq> 0" using assms(4) by (auto simp: wait_container_def split: if_splits)
  obtain dl where "wait_turns h dl turns cw = Some (Inr n, cw')" using assms(4) p by (auto simp: wait_container_def)
  from wait_turns_reach [OF this assms(3) p] obtain st where r: "(life h)\<^sup>*\<^sup>* cw cw'" "n = exit_code st"
    "cs_status (ct_state (fst cw')) = ''exited''" "cs_exit_code (ct_state (fst cw')) = Some n" "wo_child (snd cw') = Gone st" by blast
  have a: "(life h)\<^sup>*\<^sup>* cw0 cw'" using assms(1) r(1) by simp
  have "life_inv (view cw')" by (rule reachable_inv [OF a assms(2)])
  then have "came st (wo_init (snd cw'))" using r(3,5) by (auto simp: view_def)
  with a r came_code [of st "wo_init (snd cw')"] show ?thesis by auto
qed

section \<open>Kill\<close>

definition no_errors :: "kernel \<Rightarrow> bool" where
  "no_errors k \<longleftrightarrow> (\<forall>lg c. kn_call k lg c = 0)"

lemma write_state_ok:
  assumes "no_errors (lh_kernel h)"
  shows "\<exists>w. write_state h cw = (Inr (), (fst cw, w)) \<and> wo_saved w = Some (state_to_json (ct_state (fst cw)))"
  using assms by (simp add: write_state_def Let_def calls_def sys_def no_errors_def)

lemma finish_ok:
  assumes "no_errors (lh_kernel h)"
  shows "fst (finish h st f cw) = Inr (Done (exit_code st))"
proof -
  have "fst (abind (write_state h) (\<lambda>_. aret (Done n)) cw') = Inr (Done n)" for cw' n
    using write_state_ok [OF assms, of cw'] by auto
  then show ?thesis by (simp add: finish_def set_child_def set_state_def upd_def abind_def [of "\<lambda>cw. (Inr (), _ cw)"])
qed

lemma kill_force_ok:
  assumes "life_inv (view cw)" "ct_child_pid (fst cw) \<noteq> 0" "no_errors (lh_kernel h)" "cgroup_kill h cw = (Inr (), cw1)"
  shows "\<exists>cw' st. kill_force h cw = (Inr 137, cw') \<and> view cw' = (''killed'', cs_exit_code (ct_state (fst cw1)), ct_child_pid (fst cw), Gone st, wo_init (snd cw1))"
proof -
  obtain st where v: "view (snd (kill_force h cw)) = (''killed'', cs_exit_code (ct_state (fst cw1)), ct_child_pid (fst cw), Gone st, wo_init (snd cw1))"
    using kill_force_view [OF assms(1,2,4)] by blast
  have i: "life_inv (view cw1)" "ct_child_pid (fst cw1) = ct_child_pid (fst cw)" using cgroup_kill_inv [OF assms(1,4)] by auto
  then have np: "wo_child (snd cw1) \<noteq> NoProc" using assms(2) by (simp add: view_def)
  obtain r cw2 where k: "reap_killed cw1 = (r, cw2)" by (cases "reap_killed cw1")
  have "fst (abind (write_state h) (\<lambda>_. aret n) cw') = Inr n" for cw' and n :: nat
    using write_state_ok [OF assms(3), of cw'] by auto
  then have "fst (kill_force h cw) = Inr 137" unfolding kill_force_def
    using assms(4) k reap_killed_view(1) [OF np k] by (simp add: set_state_def upd_def abind_def [of "\<lambda>cw. (Inr (), _ cw)"])
  then show ?thesis using v by (metis prod.collapse)
qed

lemma cgroup_kill_ends:
  assumes "ct_cgroup (fst cw) = Some g" "\<not> ch_refuses (lh_cg h) ''cgroup.kill'' ''1''"
  shows "\<exists>cw1. cgroup_kill h cw = (Inr (), cw1) \<and> wo_init (snd cw1) \<noteq> Alive \<and> wo_child (snd cw1) \<noteq> Alive"
  using assms by (auto simp: cgroup_kill_def group_kill_all_def cg_write_def Let_def ended_by_def split: proc.splits)

lemma kill_loop_ends:
  assumes "life_inv (view cw)" "ct_child_pid (fst cw) \<noteq> 0" "no_errors (lh_kernel h)" "ct_cgroup (fst cw) = Some g"
    and "\<not> ch_refuses (lh_cg h) ''cgroup.kill'' ''1''" "lives turns" "\<exists>(now, f) \<in> set turns. deadline \<le> now"
  shows "\<exists>n cw' st. kill_loop h deadline turns cw = Some (Inr n, cw') \<and> wo_child (snd cw') = Gone st
    \<and> (cs_status (ct_state (fst cw')) = ''exited'' \<and> came st (wo_init (snd cw')) \<and> n = exit_code st
       \<or> cs_status (ct_state (fst cw')) = ''killed'' \<and> n = 137 \<and> wo_init (snd cw') \<noteq> Alive)"
  using assms(1,2,4,6,7)
proof (induction turns arbitrary: cw)
  case (Cons t rest)
  obtain now env where t: "t = (now, env)" by (cases t)
  have force: "\<exists>n cw' st. kill_force h cw = (Inr n, cw') \<and> wo_child (snd cw') = Gone st
       \<and> cs_status (ct_state (fst cw')) = ''killed'' \<and> n = 137 \<and> wo_init (snd cw') \<noteq> Alive"
  proof -
    obtain cw1 where c: "cgroup_kill h cw = (Inr (), cw1)" "wo_init (snd cw1) \<noteq> Alive"
      using cgroup_kill_ends [OF Cons.prems(3) assms(5)] by blast
    from kill_force_ok [OF Cons.prems(1,2) assms(3) c(1)] c(2) show ?thesis by (auto simp: view_def)
  qed
  show ?case
  proof (cases "now < deadline")
    case False
    with force show ?thesis by (auto simp: t)
  next
    case True
    show ?thesis
    proof (cases "wo_child (snd cw)")
      case NoProc
      then show ?thesis using Cons.prems(1,2) by (simp add: view_def)
    next
      case (Gone st)
      then have "kill_look h cw = (Inr Broken, cw)" by (simp add: kill_look_def)
      with force True show ?thesis by (auto simp: t)
    next
      case (Zombie st)
      then have k: "kill_look h cw = finish h st (\<lambda>s. s) cw" by (simp add: kill_look_def)
      obtain cw1 where f: "finish h st (\<lambda>s. s) cw = (Inr (Done (exit_code st)), cw1)"
        using finish_ok [OF assms(3)] by (metis prod.collapse)
      have v: "view cw1 = (''exited'', Some (exit_code st), ct_child_pid (fst cw), Gone st, wo_init (snd cw))"
        using finish_view [of "\<lambda>s. s" h st cw] f by simp
      have "came st (wo_init (snd cw))" using Cons.prems(1) Zombie by (simp add: view_def)
      then show ?thesis using True k f v by (auto simp: t view_def)
    next
      case Alive
      then have k: "kill_look h cw = (Inr Again, cw)" by (simp add: kill_look_def)
      have e: "lives rest" "env_step\<^sup>*\<^sup>* (snd cw) (env (snd cw))" using Cons.prems(4) t by (auto simp: lives_def)
      have "life_inv (view (fst cw, env (snd cw)))" using e(2)
        by (induction rule: rtranclp_induct) (use Cons.prems(1) env_step_inv in auto)
      moreover have "\<exists>(now, f) \<in> set rest. deadline \<le> now" using Cons.prems(5) True t by auto
      ultimately obtain n cw' st where "kill_loop h deadline rest (fst cw, env (snd cw)) = Some (Inr n, cw') \<and> wo_child (snd cw') = Gone st
        \<and> (cs_status (ct_state (fst cw')) = ''exited'' \<and> came st (wo_init (snd cw')) \<and> n = exit_code st
          \<or> cs_status (ct_state (fst cw')) = ''killed'' \<and> n = 137 \<and> wo_init (snd cw') \<noteq> Alive)"
        using Cons.IH [of "(fst cw, env (snd cw))"] Cons.prems(2,3) e(1) by auto
      then show ?thesis using k True by (auto simp: t)
    qed
  qed
qed simp

text \<open>C38: \<open>kill\<close> ends the container: with a control group that can be killed, it returns by the first look at or after the end
  of the grace period, whatever the processes do meanwhile; then the supervising child is gone.  Either
  the child had ended by itself: the state says exited and its code is returned, which is process 1's
  own code unless the child died by a signal - then process 1 may still run, as the theorem
  \<open>sigkill_leaves_workload\<close> shows.  Or the state says killed, 137 is returned, and process 1 does not run
  any more.  Of the processes in the container only process 1 is modelled.\<close>

theorem kill_ends_container:
  assumes "(life h)\<^sup>*\<^sup>* cw0 cw" "fresh cw0" "ct_child_pid (fst cw) \<noteq> 0" "no_errors (lh_kernel h)" "ct_cgroup (fst cw) = Some g"
    and "\<not> ch_refuses (lh_cg h) ''cgroup.kill'' ''1''" "sig \<le> 64" "lives turns" "\<exists>(t, f) \<in> set turns. now + grace \<le> t"
  shows "\<exists>n cw' st. kill_container h now sig grace turns cw = Some (Inr n, cw') \<and> wo_child (snd cw') = Gone st
    \<and> (cs_status (ct_state (fst cw')) = ''exited'' \<and> n = exit_code st
         \<and> ((\<exists>s \<le> 64. st = Signaled s) \<or> (\<exists>g. wo_init (snd cw') = Gone g \<and> n = exit_code g))
       \<or> cs_status (ct_state (fst cw')) = ''killed'' \<and> n = 137 \<and> wo_init (snd cw') \<noteq> Alive)"
proof -
  have "life_inv (view (fst cw, deliver sig (snd cw)))"
    using deliver_inv [OF assms(7), of "fst cw" "snd cw"] reachable_inv [OF assms(1,2)] by simp
  from kill_loop_ends [OF this _ assms(4) _ assms(6,8,9), of g] assms(3,5) obtain n cw' st where k:
    "kill_loop h (now + grace) turns (fst cw, deliver sig (snd cw)) = Some (Inr n, cw')" "wo_child (snd cw') = Gone st"
    "cs_status (ct_state (fst cw')) = ''exited'' \<and> came st (wo_init (snd cw')) \<and> n = exit_code st
       \<or> cs_status (ct_state (fst cw')) = ''killed'' \<and> n = 137 \<and> wo_init (snd cw') \<noteq> Alive" by auto
  have "kill_container h now sig grace turns cw = Some (Inr n, cw')" using k(1) assms(3) by (simp add: kill_container_def)
  with k(2,3) came_code [of st "wo_init (snd cw')"] show ?thesis by fastforce
qed

section \<open>Create\<close>

lemma sys_no_errors: "no_errors k \<Longrightarrow> sys k c lg = (Inr (), lg @ [(c, True)])"
  by (simp add: no_errors_def sys_def)

lemma create_ok:
  assumes "no_errors (lh_kernel h)" "mc_get (lh_store h) (cc_image (ct_config c)) = Inr im"
    and "cache_ensure (lh_helper h) (lh_store h) im (\<lparr>lc_root = path_join (ct_workspace c) ''layers'', lc_unpacked = [], lc_reused = []\<rparr>, wo_fs w)
      = (Inr lowers, (lc, fs))"
    and "make_cgroup h (ct_name c) (cc_limits (ct_config c)) = Inr (g, sk)"
    and "(if cc_user (ct_config c) \<noteq> [] then Inr (cc_user (ct_config c)) else mc_user im) = Inr user"
    and "plan_for_user True user (lh_ids h) = Inr m"
    and "(if cc_argv (ct_config c) \<noteq> [] then Inr (cc_argv (ct_config c)) else mc_argv im) = Inr argv"
  shows "\<exists>c' w'. create h now spent (c, w) = (Inr (), (c', w')) \<and> view (c', w') = view (c, w) \<and> ct_image c' = Some im
    \<and> ct_overlay c' = Some \<lparr>ov_merged = path_join (ct_bundle c) ''merged'', ov_upper = path_join (ct_bundle c) ''upper'',
        ov_work = path_join (ct_bundle c) ''work'', ov_lowers = lowers\<rparr>
    \<and> ct_mapping c' = Some m \<and> ct_cgroup c' = Some g \<and> ct_config c' = ct_config c \<and> ct_name c' = ct_name c"
proof -
  have a: "abind (alift (if cc_user (ct_config c) \<noteq> [] then Inr (cc_user (ct_config c)) else mc_user im)) f = f user"
    "abind (alift (if cc_argv (ct_config c) \<noteq> [] then Inr (cc_argv (ct_config c)) else mc_argv im)) f' = f' argv"
    "abind (alift (plan_for_user True user (lh_ids h))) f'' = f'' m"
    "abind (alift (mc_get (lh_store h) (cc_image (ct_config c)))) f3 = f3 im"
    for f f' and f'' :: "id_mapping \<Rightarrow> (unit, cw) act" and f3
    unfolding assms(2,5-7) by (simp_all add: abind_def fun_eq_iff)
  show ?thesis unfolding create_def Let_def fst_conv a
    by (simp add: abind_def upd_def calls_def sys_no_errors [OF assms(1)] ensure_layers_def assms(3) overlay_prepare_def Let_def
      cgroup_step_def assms(4) set_state_def write_state_def view_def aret_def del: act_simps)
qed

section \<open>A life\<close>

definition demo_life_store :: img_store where
  "demo_life_store = open_store (fmap_of_list
     [(''m'', Doc (JObj (fmap_of_list [(''config'', JObj (fmap_of_list [(''digest'', JStr ''sha256:c'')])),
         (''layers'', JList [JObj (fmap_of_list [(''digest'', JStr ''sha256:l'')])])]))),
      (''c'', Doc (JObj fmempty))]) None"

definition demo_files :: fs where
  \<comment> \<open>the only layer is in the cache\<close>
  "demo_files = (let a = \<lparr>fa_mode = 493, fa_uid = 0, fa_gid = 0, fa_mtime = 0, fa_opaque = False\<rparr> in
     fmap_of_list [([], FDir a), ([''w''], FDir a), ([''w'', ''layers''], FDir a), ([''w'', ''layers'', ''sha256_l''], FDir a),
       ([''w'', ''layers'', ''sha256_l.done''], FFile a ''sha256:l'')])"

definition demo_life :: life_host where
  "demo_life = \<lparr>lh_kernel = demo_kernel, lh_store = demo_life_store,
     lh_helper = \<lparr>hh_unshare = Inr (), hh_maps = Inr (), hh_private = Inr (), hh_may_mknod = True,
       hh_new = (\<lambda>_. \<lparr>fa_mode = 493, fa_uid = 0, fa_gid = 0, fa_mtime = 0, fa_opaque = False\<rparr>), hh_show = (\<lambda>_. [])\<rparr>,
     lh_cg = \<lparr>ch_uid = 1000, ch_own = None, ch_writable = (\<lambda>_. True), ch_mkdir = (\<lambda>_. Inr ()), ch_controllers = (\<lambda>_. None),
       ch_refuses = (\<lambda>_ _. False)\<rparr>, lh_procs = None, lh_ids = demo_host, lh_dumps = (\<lambda>_. ''r''),
     lh_loads = (\<lambda>_. Inr (init_report (0, 0, 0) [])), lh_show = (\<lambda>_. []), lh_knobs = (\<lambda>_. None), lh_hazard = (False, [])\<rparr>"

definition demo_dance :: dance where
  "demo_dance = \<lparr>da_child_kernel = demo_kernel, da_init_kernel = demo_kernel, da_pid = 7, da_init_pid = 8, da_cut = (\<lambda>s. [s]),
     da_refuses = (\<lambda>_. False), da_succeeds = (\<lambda>_. True), da_namespace = 0, da_idmap = 0, da_setup = 0, da_inner = (0, 0, 0)\<rparr>"

definition demo_new :: cw where
  "demo_new = (new_container (demo_cont_config\<lparr>cc_image := ''sha256:m''\<rparr>) ''/w'' ''0123456789'',
     \<lparr>wo_fs = demo_files, wo_calls = [], wo_maps = \<lparr>ef_writes = [], ef_runs = []\<rparr>, wo_saved = None, wo_child = NoProc,
      wo_init = NoProc, wo_init_pid = 0, wo_signals = []\<rparr>)"

definition demo_created :: cw where
  "demo_created = snd (create demo_life 0 (0, 0, 0) demo_new)"

definition demo_running :: cw where
  "demo_running = snd (start demo_life 0 demo_dance demo_created)"

definition demo_im :: mc_image where "demo_im = \<lparr>mi_reference = ''sha256:m'', mi_manifest = JObj (fmap_of_list [(''config'', JObj (fmap_of_list [(''digest'', JStr ''sha256:c'')])), (''layers'', JList [JObj (fmap_of_list [(''digest'', JStr ''sha256:l'')])])]), mi_config = JObj fmempty\<rparr>"
lemma demo_get: "mc_get demo_life_store ''sha256:m'' = Inr demo_im" by (simp add: demo_im_def) code_simp
definition demo_group :: group where "demo_group = fst (projr (make_cgroup demo_life ''c'' (cc_limits demo_cont_config)))"
lemma demo_make_cgroup: "make_cgroup demo_life ''c'' (cc_limits demo_cont_config) = Inr (demo_group, [])"
 unfolding demo_group_def by code_simp
lemma demo_ensure: "cache_ensure (lh_helper demo_life) demo_life_store demo_im (\<lparr>lc_root = path_join ''/w'' ''layers'', lc_unpacked = [], lc_reused = []\<rparr>, demo_files)
  = (Inr [''/w/layers/sha256_l''], (\<lparr>lc_root = ''/w/layers'', lc_unpacked = [], lc_reused = [''sha256:l'']\<rparr>, demo_files))"
  by code_simp
lemma demo_user: "mc_user demo_im = Inr []" by code_simp
lemma demo_plan_root: "plan_for_user True [] demo_host = Inr (root_mapping demo_host)" by code_simp

lemma demo_life_fields:
  "lh_kernel demo_life = demo_kernel" "lh_store demo_life = demo_life_store" "lh_ids demo_life = demo_host"
  "sys demo_kernel c lg = (Inr (), lg @ [(c, True)])"
  by (simp_all add: demo_life_def demo_kernel_def sys_def Let_def)

lemma demo_new_fields:
  "ct_config (fst demo_new) = demo_cont_config\<lparr>cc_image := ''sha256:m''\<rparr>" "ct_workspace (fst demo_new) = ''/w''" "ct_name (fst demo_new) = ''c''"
  "ct_child_pid (fst demo_new) = 0" "cs_status (ct_state (fst demo_new)) = ''created''" "cs_exit_code (ct_state (fst demo_new)) = None"
  "wo_fs (snd demo_new) = demo_files" "wo_child (snd demo_new) = NoProc" "wo_init (snd demo_new) = NoProc"
  by (simp_all add: demo_new_def new_container_def Let_def demo_cont_config_def)

lemma demo_config_fields: "cc_user demo_cont_config = []" "cc_argv demo_cont_config = [''/bin/true'']" by (simp_all add: demo_cont_config_def)

definition demo_ov :: overlay where
  "demo_ov = \<lparr>ov_merged = path_join (ct_bundle (fst demo_new)) ''merged'', ov_upper = path_join (ct_bundle (fst demo_new)) ''upper'',
     ov_work = path_join (ct_bundle (fst demo_new)) ''work'', ov_lowers = [''/w/layers/sha256_l'']\<rparr>"

lemma demo_no_errors: "no_errors demo_kernel"
  by (simp add: no_errors_def demo_kernel_def)

lemma demo_created:
  "fst (create demo_life 0 (0, 0, 0) demo_new) = Inr () \<and> view demo_created = (''created'', None, 0, NoProc, NoProc)
   \<and> ct_image (fst demo_created) = Some demo_im \<and> ct_overlay (fst demo_created) = Some demo_ov
   \<and> ct_mapping (fst demo_created) = Some (root_mapping demo_host) \<and> ct_cgroup (fst demo_created) = Some demo_group
   \<and> ct_config (fst demo_created) = demo_cont_config\<lparr>cc_image := ''sha256:m''\<rparr> \<and> ct_name (fst demo_created) = ''c''"
proof -
  obtain c w where n: "demo_new = (c, w)" by (cases demo_new)
  note f = demo_new_fields [unfolded n fst_conv snd_conv]
  have "\<exists>c' w'. create demo_life 0 (0, 0, 0) (c, w) = (Inr (), (c', w')) \<and> view (c', w') = view (c, w) \<and> ct_image c' = Some demo_im
    \<and> ct_overlay c' = Some \<lparr>ov_merged = path_join (ct_bundle c) ''merged'', ov_upper = path_join (ct_bundle c) ''upper'',
        ov_work = path_join (ct_bundle c) ''work'', ov_lowers = [''/w/layers/sha256_l'']\<rparr>
    \<and> ct_mapping c' = Some (root_mapping demo_host) \<and> ct_cgroup c' = Some demo_group \<and> ct_config c' = ct_config c \<and> ct_name c' = ct_name c"
    by (rule create_ok [where user = "[]" and sk = "[]" and argv = "[''/bin/true'']" and fs = demo_files
        and lc = "\<lparr>lc_root = ''/w/layers'', lc_unpacked = [], lc_reused = [''sha256:l'']\<rparr>"])
      (simp_all add: demo_no_errors f demo_life_fields demo_get demo_ensure demo_make_cgroup demo_config_fields demo_user demo_plan_root)
  then show ?thesis using f by (auto simp: demo_created_def n demo_ov_def view_def)
qed

lemma demo_child: "fst (child_prepare (da_child_kernel demo_dance) (lh_show demo_life) True (da_pid demo_dance) (lh_hazard demo_life) []) = (''R'', None)"
  by code_simp
definition demo_outcome :: "image_run \<times> sys_log" where
  "demo_outcome = init_main (da_init_kernel demo_dance) (demo_cont_config\<lparr>cc_image := ''sha256:m''\<rparr>) ''c'' demo_im demo_ov (da_inner demo_dance) [''/bin/true''] []"


lemma demo_outcome: "fst demo_outcome = Workload" "reported (snd demo_outcome) \<noteq> None" by code_simp+

lemma demo_read: "read_line (lh_loads demo_life) (da_cut demo_dance (report_text demo_life (Some v))) = Inr (init_report (0, 0, 0) [])"
  by (simp add: demo_life_def demo_dance_def report_text_def read_line_def Let_def strip_Nil_iff is_space_def code_of_def)

lemma demo_maps: "\<exists>ef'. write_maps (da_refuses demo_dance) (da_succeeds demo_dance) demo_host (da_pid demo_dance) (root_mapping demo_host) ef = (Inr (), ef')"
  by (simp add: write_maps_def root_mapping_def needs_helper_def abind_def Id_Map.write_file_def demo_dance_def)

lemma demo_truthy: "truthy (init_report (0,0,0) [])" by (simp add: init_report_def)

lemma take_report_ok:
  "take_report h (init_report (a, b, p) sk) cw = (Inr (), ((fst cw)\<lparr>ct_phases := (ct_phases (fst cw))\<lparr>ph_overlay := a, ph_mounts := b, ph_pivot := p\<rparr>,
     ct_skipped_mounts := sk\<rparr>, snd cw))"
  by (simp add: take_report_def init_report_def abind_def upd_def str_list_strs dget_def fmlookup_of_list)

lemma demo_started: "fst (start demo_life 0 demo_dance demo_created) = Inr 7 \<and> view demo_running = (''running'', None, 7, Alive, Alive)
   \<and> ct_cgroup (fst demo_running) = Some demo_group"
proof -
  obtain v where v: "reported (snd demo_outcome) = Some v" using demo_outcome(2) by blast
  obtain c w where cw: "demo_created = (c, w)" by (cases demo_created)
  obtain ef where ef: "write_maps (da_refuses demo_dance) (da_succeeds demo_dance) demo_host (da_pid demo_dance) (root_mapping demo_host) (wo_maps w) = (Inr (), ef)"
    using demo_maps by blast
  have f: "ct_image c = Some demo_im" "ct_overlay c = Some demo_ov" "ct_mapping c = Some (root_mapping demo_host)" "ct_cgroup c = Some demo_group"
    "ct_config c = demo_cont_config\<lparr>cc_image := ''sha256:m''\<rparr>" "ct_name c = ''c''" "view (c, w) = (''created'', None, 0, NoProc, NoProc)"
    using demo_created unfolding cw demo_ov_def by simp_all
  have eq: "start demo_life 0 demo_dance (c, w)
      = after_fork demo_life 0 demo_dance (Some (root_mapping demo_host)) (''R'', None) demo_outcome (c, w)"
    using demo_child by (simp add: start_def Let_def f demo_config_fields abind_def demo_outcome_def)
  have n: "da_pid demo_dance = 7" "cs_exit_code (ct_state c) = None" using f(7) by (simp_all add: demo_dance_def view_def)
  show ?thesis unfolding demo_running_def cw eq
    by (simp add: after_fork_def abind_def set_child_def upd_def await_namespaces_def install_maps_def f demo_life_fields ef [unfolded n] after_go_def
      set_init_def demo_read v demo_outcome after_report_def demo_truthy take_report_ok aret_def alift_def view_def write_state_def Let_def calls_def n del: act_simps)
qed

lemma two_steps: "r a b \<Longrightarrow> r b c \<Longrightarrow> r\<^sup>*\<^sup>* a c"
  by (rule rtranclp.rtrancl_into_rtrancl, rule r_into_rtranclp)

lemma demo_reach: "(life demo_life)\<^sup>*\<^sup>* demo_new demo_running" "fresh demo_new" "ct_child_pid (fst demo_running) = 7"
  "wo_child (snd demo_running) = Alive" "wo_init (snd demo_running) = Alive"
proof -
  have c: "view demo_created = (''created'', None, 0, NoProc, NoProc)" using demo_created by blast
  have a: "life demo_life demo_new demo_created"
    unfolding demo_created_def by (rule life.creates [OF prod.collapse [symmetric]])
  have b: "life demo_life demo_created demo_running"
    unfolding demo_running_def
  proof (rule life.starts [OF _ _ _ _ prod.collapse [symmetric]])
    show "cs_status (ct_state (fst demo_created)) = ''created''" "wo_child (snd demo_created) \<noteq> Alive"
      "\<forall>st. wo_child (snd demo_created) \<noteq> Zombie st" using c by (simp_all add: view_def)
  qed (simp add: demo_dance_def)
  show "(life demo_life)\<^sup>*\<^sup>* demo_new demo_running"
    by (rule two_steps [of "life demo_life", OF a b])
  show "fresh demo_new" by (auto simp: fresh_def demo_new_def)
  show "ct_child_pid (fst demo_running) = 7" "wo_child (snd demo_running) = Alive" "wo_init (snd demo_running) = Alive"
    using demo_started by (simp_all add: view_def)
qed

definition demo_moves :: "world \<Rightarrow> world" where
  "demo_moves w = (if wo_init w = Alive \<and> wo_child w = Alive
     then w\<lparr>wo_init := Gone (Exited 3), wo_child := Zombie (child_end ''G'' (Exited 3))\<rparr> else w)"

lemma demo_lives: "lives [(0, demo_moves), (1, demo_moves)]"
proof -
  have "env_step\<^sup>*\<^sup>* w (demo_moves w)" for w
  proof (cases "wo_init w = Alive \<and> wo_child w = Alive")
    case True
    have a: "env_step w (w\<lparr>wo_init := Zombie (Exited 3)\<rparr>)" by (rule workload_ends) (use True in simp_all)
    have b: "env_step (w\<lparr>wo_init := Zombie (Exited 3)\<rparr>) (demo_moves w)"
      using child_reaps [of "w\<lparr>wo_init := Zombie (Exited 3)\<rparr>" "Exited 3"] True by (simp add: demo_moves_def)
    show ?thesis by (rule two_steps [of env_step, OF a b])
  qed (auto simp: demo_moves_def)
  then show ?thesis by (simp add: lives_def)
qed

lemma demo_wait: "\<exists>cw'. wait_container demo_life 0 None [(0, demo_moves), (1, demo_moves)] demo_running = Some (Inr 3, cw')"
proof -
  have "no_errors (lh_kernel demo_life)" by (simp add: no_errors_def demo_life_def demo_kernel_def)
  from finish_ok [OF this, of "Exited 3" "\<lambda>s. s\<lparr>cs_finished_at := 1\<rparr>" "(fst demo_running, demo_moves (snd demo_running))"]
  obtain cw' where "finish demo_life (Exited 3) (\<lambda>s. s\<lparr>cs_finished_at := 1\<rparr>) (fst demo_running, demo_moves (snd demo_running)) = (Inr (Done 3), cw')"
    by (metis exit_code.simps(1) prod.collapse)
  then show ?thesis using demo_reach by (simp add: wait_container_def wait_look_def demo_moves_def child_end_def exits_def)
qed

theorem wait_returns_workload_code_witness:
  "\<exists>cw'. wait_container demo_life 0 None [(0, demo_moves), (1, demo_moves)] demo_running = Some (Inr 3, cw')
     \<and> cs_exit_code (ct_state (fst cw')) = Some 3 \<and> (\<exists>g. wo_init (snd cw') = Gone g \<and> exit_code g = 3)"
proof -
  obtain cw' where w: "wait_container demo_life 0 None [(0, demo_moves), (1, demo_moves)] demo_running = Some (Inr 3, cw')"
    using demo_wait by blast
  from wait_returns_workload_code [OF demo_reach(1,2) demo_lives w] w show ?thesis by auto
qed

theorem container_life_invariant_witness:
  "\<exists>c w. (life demo_life)\<^sup>*\<^sup>* demo_new (c, w) \<and> cs_status (ct_state c) = ''exited'' \<and> cs_exit_code (ct_state c) \<noteq> None"
proof -
  obtain c w where w: "wait_turns demo_life None [(0, demo_moves), (1, demo_moves)] demo_running = Some (Inr 3, (c, w))"
    using demo_wait demo_reach(3) by (auto simp: wait_container_def)
  from wait_turns_reach [OF w demo_lives] demo_reach(1,3) have r: "(life demo_life)\<^sup>*\<^sup>* demo_new (c, w)"
    and e: "cs_status (ct_state c) = ''exited''" by auto
  from container_life_invariant [OF r demo_reach(2)] e r show ?thesis by auto
qed

theorem kill_ends_container_witness:
  "\<exists>n cw' st. kill_container demo_life 0 15 10 [(0, demo_moves), (10, demo_moves)] demo_running = Some (Inr n, cw') \<and> wo_child (snd cw') = Gone st"
proof -
  have k: "ct_child_pid (fst demo_running) \<noteq> 0" "no_errors (lh_kernel demo_life)" "ct_cgroup (fst demo_running) = Some demo_group"
    "\<not> ch_refuses (lh_cg demo_life) ''cgroup.kill'' ''1''" "(15 :: nat) \<le> 64"
    using demo_reach(3) demo_started by (simp_all add: no_errors_def demo_life_def demo_kernel_def)
  have l: "lives [(0, demo_moves), (10, demo_moves)]" using demo_lives by (simp add: lives_def)
  have t: "\<exists>(t, f) \<in> set [(0 :: rat, demo_moves), (10, demo_moves)]. 0 + 10 \<le> t" by simp
  from kill_ends_container [OF demo_reach(1,2) k l t] show ?thesis by blast
qed

end
