(* ===== verification/Container_Runs.thy ===== *)
theory Container_Runs
  imports Container_Life_Props
begin

text \<open>
  How a start goes, as a function of what the two inner processes achieved, and what the operations do where the
  processes do not behave as their order suggests.
\<close>

section \<open>What process 1 reports\<close>

lemma init_process_calls:
  assumes "ov_merged ov \<noteq> []" "last (ov_merged ov) \<noteq> CHR ''/''"
  shows "makes (\<lambda>c. \<not> is_exec c \<and> (\<forall>v. c = SReport v \<longrightarrow> (\<exists>sk. v = init_report spent sk))) (init_process k cfg name im ov spent)"
    (is "makes ?P _")
proof -
  have w: "?P c" if "inside_root d c" for c d using that by (cases "(d, c)" rule: inside_root.cases) auto
  have a: "makes ?P (open_outputs k cfg)" by (rule makes_mono [OF makes_open_outputs]) auto
  have b: "makes ?P (dup_outputs k n fds)" for n fds by (rule makes_mono [OF makes_dup_outputs]) auto
  have c: "makes ?P (enter_workdir k wd)" for wd by (rule makes_mono [OF makes_enter_workdir]) auto
  have d: "makes ?P (write_container_files k (ov_merged ov) hn ex)" for hn ex
    by (rule makes_mono [OF makes_container_files [OF assms] w])
  have e: "makes ?P (apply_mounts (mount_apply k (ov_merged ov)) (default_mounts z) [])" for z
    by (rule makes_mono [OF makes_default_mounts [OF assms] w])
  have f: "makes ?P (overlay_mount k ov)" unfolding overlay_mount_def
    by (intro makes_except makes_bind makes_basic makes_wrappers) simp
  have g: "makes ?P (enter_root k x)" for x unfolding enter_root_def Let_def
    by (intro makes_except makes_bind makes_basic makes_wrappers makes_sys) simp_all
  have h: "makes ?P (make_root_private k)" "makes ?P (remount_root_readonly k)"
    unfolding make_root_private_def remount_root_readonly_def by simp_all
  show ?thesis unfolding init_process_def Let_def
    by (intro makes_except makes_bind makes_guard makes_basic makes_wrappers makes_sys a b c d e f g h) auto
qed

lemma reported_mem: "reported lg = Some v \<Longrightarrow> (SReport v, True) \<in> set lg"
  by (induction lg rule: reported.induct) auto

lemma reported_None_iff: "reported lg = None \<longleftrightarrow> (\<forall>v. (SReport v, True) \<notin> set lg)"
  by (induction lg rule: reported.induct) auto

lemma init_main_report:
  assumes "ov_merged ov \<noteq> []" "last (ov_merged ov) \<noteq> CHR ''/''" "init_main k cfg name im ov spent argv [] = (r, lg)"
  shows "reported lg = Some v \<Longrightarrow> \<exists>sk. v = init_report spent sk"
    and "reported lg = None \<Longrightarrow> r = Ends (exits 125) \<and> (\<forall>c b. (c, b) \<in> set lg \<longrightarrow> \<not> is_exec c)"
proof -
  obtain q l1 where i: "init_process k cfg name im ov spent [] = (q, l1)" by fastforce
  obtain l where l: "l1 = [] @ l" "\<forall>c b. (c, b) \<in> set l \<longrightarrow> \<not> is_exec c \<and> (\<forall>v. c = SReport v \<longrightarrow> (\<exists>sk. v = init_report spent sk))"
    by (rule makesE [OF init_process_calls [OF assms(1,2)] i])
  have e: "lg = l1 \<and> r = Ends (exits 125)" if "q = Inl x" for x using assms(3) i that by (simp add: init_main_def)
  have x: "\<exists>b. lg = l1 @ [(SExec argv env, b)]" if "q = Inr env" for env
    using assms(3) i that by (auto simp: init_main_def exec_workload_def sys_def Let_def check_error_def os_exc_def split: if_splits)
  show "\<exists>sk. v = init_report spent sk" if "reported lg = Some v"
  proof -
    have "(SReport v, True) \<in> set lg" by (rule reported_mem [OF that])
    then have "(SReport v, True) \<in> set l1" using e x by (cases q) auto
    then show ?thesis using l by auto
  qed
  show "r = Ends (exits 125) \<and> (\<forall>c b. (c, b) \<in> set lg \<longrightarrow> \<not> is_exec c)" if n: "reported lg = None"
  proof (cases q)
    case (Inl y)
    then show ?thesis using e l by auto
  next
    case (Inr env)
    from init_process_trace [OF i [unfolded Inr] assms(1,2) refl] obtain before sk dups where
      "l1 = before @ [(SReport (init_report spent sk), True)] @ dups" by (metis append.assoc)
    then have "(SReport (init_report spent sk), True) \<in> set l1" by simp
    then show ?thesis using x [OF Inr] n by (auto simp: reported_None_iff)
  qed
qed

section \<open>The parent's side\<close>

lemma read_line_report:
  assumes "\<forall>c \<in> set chunks. c \<noteq> []" "concat chunks = line @ [CHR 0x0A]" "CHR 0x0A \<notin> set line" "length line < 65536"
    and "loads line = Inr v" "strip line \<noteq> []"
  shows "read_line loads chunks = Inr v"
proof -
  have t: "takeWhile (\<lambda>c. c \<noteq> CHR 0x0A) (concat chunks) = line" unfolding assms(2) using assms(3) by (subst takeWhile_append2) auto
  obtain r where r: "read_chunks 65536 chunks [] = line @ CHR 0x0A # r"
    using read_chunks_line [of chunks "[]" 65536] assms t by auto
  have "strip (line @ CHR 0x0A # r) \<noteq> []" using assms(6) by (auto simp: strip_Nil_iff)
  moreover have "hd (split_char CHR 0x0A (line @ CHR 0x0A # r)) = line" by (simp add: split_char_append [OF assms(3)])
  ultimately show ?thesis using r assms(5) by (simp add: read_line_def Let_def)
qed

definition pipe_ok :: "life_host \<Rightarrow> dance \<Rightarrow> json option \<Rightarrow> bool" where
  \<comment> \<open>a pipe loses nothing, and the report is one line that parses to itself\<close>
  "pipe_ok h d report \<longleftrightarrow> (\<forall>s. concat (da_cut d s) = s \<and> (\<forall>c \<in> set (da_cut d s). c \<noteq> []))
     \<and> (\<forall>v. report = Some v \<longrightarrow> lh_loads h (lh_dumps h v) = Inr v \<and> CHR 0x0A \<notin> set (lh_dumps h v)
          \<and> length (lh_dumps h v) < 65536 \<and> strip (lh_dumps h v) \<noteq> [])"

lemma pipe_read: "pipe_ok h d report \<Longrightarrow>
    read_line (lh_loads h) (da_cut d (report_text h report)) = Inr (case report of Some v \<Rightarrow> v | None \<Rightarrow> JObj fmempty)"
proof (cases report)
  case None
  assume p: "pipe_ok h d report"
  have "da_cut d [] = []"
  proof (cases "da_cut d []")
    case (Cons c cs)
    have "concat (da_cut d []) = []" "\<forall>c \<in> set (da_cut d []). c \<noteq> []" using p unfolding pipe_ok_def by blast+
    then show ?thesis using Cons by simp
  qed simp
  then show ?thesis using None by (simp add: report_text_def read_line_def strip_Nil_iff)
next
  case (Some v)
  assume p: "pipe_ok h d report"
  then have c: "\<forall>c \<in> set (da_cut d (lh_dumps h v @ [CHR 0x0A])). c \<noteq> []"
    "concat (da_cut d (lh_dumps h v @ [CHR 0x0A])) = lh_dumps h v @ [CHR 0x0A]" unfolding pipe_ok_def by blast+
  have "lh_loads h (lh_dumps h v) = Inr v" "CHR 0x0A \<notin> set (lh_dumps h v)" "length (lh_dumps h v) < 65536" "strip (lh_dumps h v) \<noteq> []"
    using p Some unfolding pipe_ok_def by blast+
  from read_line_report [of "da_cut d (lh_dumps h v @ [CHR 0x0A])" "lh_dumps h v" "lh_loads h" v, OF c this(2,3,1,4)] show ?thesis using Some by (simp add: report_text_def)
qed

lemma start_eq:
  assumes "ct_image c = Some im" "ct_overlay c = Some ov" "ct_mapping c = Some m"
    and "(if cc_argv (ct_config c) \<noteq> [] then Inr (cc_argv (ct_config c)) else mc_argv im) = Inr argv" "argv \<noteq> []"
  shows "start h now d (c, w) = after_fork h now d (Some m)
    (fst (child_prepare (da_child_kernel d) (lh_show h) (ct_cgroup c \<noteq> None) (da_pid d) (lh_hazard h) []))
    (init_main (da_init_kernel d) (ct_config c) (ct_name c) im ov (da_inner d) argv []) (c, w)"
proof -
  have a: "abind (alift (if cc_argv (ct_config c) \<noteq> [] then Inr (cc_argv (ct_config c)) else mc_argv im)) f (c, w) = f argv (c, w)" for f :: "string list \<Rightarrow> (int, cw) act"
    unfolding assms(4) by (simp add: abind_def)
  show ?thesis unfolding start_def Let_def fst_conv assms(1-3) option.case prod.case a using assms(5) by simp
qed

definition maps_ok :: "life_host \<Rightarrow> dance \<Rightarrow> id_mapping \<Rightarrow> world \<Rightarrow> bool" where
  "maps_ok h d m w \<longleftrightarrow> fst (write_maps (da_refuses d) (da_succeeds d) (lh_ids h) (da_pid d) m (wo_maps w)) = Inr ()"

lemma after_fork_fails:
  assumes "take 1 (fst child) \<noteq> ''R'' \<or> \<not> maps_ok h d m w"
  shows "\<exists>e. fst (after_fork h now d (Some m) child outcome (c, w)) = Inl e"
proof (cases "take 1 (fst child) = ''R''")
  case False
  then show ?thesis
    by (simp add: after_fork_def set_child_def upd_def await_namespaces_def abind_def Let_def)
next
  case True
  obtain e ef where w': "write_maps (da_refuses d) (da_succeeds d) (lh_ids h) (da_pid d) m (wo_maps w) = (Inl e, ef)"
    using assms True unfolding maps_ok_def
    by (cases "write_maps (da_refuses d) (da_succeeds d) (lh_ids h) (da_pid d) m (wo_maps w)"; case_tac a) auto
  have "\<exists>e'. fst (install_maps h d (Some m) (c', w2)) = Inl e'" if "wo_maps w2 = wo_maps w" for c' w2
    using w' that by (auto simp: install_maps_def Let_def set_child_def abind_def split: sum.splits prod.splits)
  then obtain e' where i: "fst (install_maps h d (Some m) (c\<lparr>ct_child_pid := da_pid d,
      ct_phases := (ct_phases c)\<lparr>ph_namespace := da_namespace d\<rparr>\<rparr>, w\<lparr>wo_child := Alive\<rparr>)) = Inl e'" by fastforce
  have "fst (abind (install_maps h d (Some m)) f cw) = Inl e'" if "fst (install_maps h d (Some m) cw) = Inl e'" for f :: "unit \<Rightarrow> (int, cw) act" and cw
    using that by (auto simp: abind_def split: prod.splits)
  note i' = this [OF i]
  show ?thesis using True i'
    by (simp add: after_fork_def set_child_def upd_def await_namespaces_def abind_def [of "\<lambda>cw. (Inr (), _ cw)"])
qed

lemma after_fork_goes:
  assumes "take 1 (fst child) = ''R''" "maps_ok h d m w"
  shows "\<exists>ef. after_fork h now d (Some m) child outcome (c, w) = after_go h now d outcome
    (c\<lparr>ct_child_pid := da_pid d, ct_phases := (ct_phases c)\<lparr>ph_namespace := da_namespace d, ph_idmap := da_idmap d\<rparr>\<rparr>,
     w\<lparr>wo_child := Alive, wo_maps := ef\<rparr>)"
proof -
  obtain ef where "write_maps (da_refuses d) (da_succeeds d) (lh_ids h) (da_pid d) m (wo_maps w) = (Inr (), ef)"
    using assms(2) unfolding maps_ok_def by (metis prod.collapse)
  then show ?thesis using assms(1)
    by (intro exI [of _ ef]) (simp add: after_fork_def set_child_def upd_def await_namespaces_def abind_def install_maps_def)
qed

lemma after_go_fails:
  assumes "no_errors (lh_kernel h)" "pipe_ok h d None" "reported (snd outcome) = None"
  shows "\<exists>e cw'. after_go h now d outcome (c, w) = (Inl e, cw') \<and> cs_status (ct_state (fst cw')) = ''failed''
    \<and> wo_saved (snd cw') = Some (state_to_json (ct_state (fst cw')))"
proof -
  let ?c = "c\<lparr>ct_phases := (ct_phases c)\<lparr>ph_setup := da_setup d\<rparr>, ct_state := (ct_state c)\<lparr>cs_status := ''failed''\<rparr>\<rparr>"
  let ?w = "w\<lparr>wo_init := (case fst outcome of Workload \<Rightarrow> Alive | Ends st \<Rightarrow> Zombie st), wo_init_pid := da_init_pid d\<rparr>"
  obtain w' where w': "write_state h (?c, ?w) = (Inr (), (?c, w'))" "wo_saved w' = Some (state_to_json (ct_state ?c))"
    using write_state_ok [OF assms(1), of "(?c, ?w)"] by auto
  have r: "read_line (lh_loads h) (da_cut d (report_text h (reported (snd outcome)))) = Inr (JObj fmempty)"
    using pipe_read [OF assms(2)] assms(3) by simp
  have "after_go h now d outcome (c, w) = (Inl (ContainerError ''container init exited before exec.''), (?c, w'))"
    using w'(1) by (simp add: after_go_def abind_def set_init_def r upd_def after_report_def set_state_def)
  then show ?thesis using w'(2) by simp
qed

lemma after_go_runs:
  assumes "no_errors (lh_kernel h)" "pipe_ok h d (Some (init_report spent sk))" "reported (snd outcome) = Some (init_report spent sk)"
  shows "\<exists>cw'. after_go h now d outcome (c, w) = (Inr (da_pid d), cw') \<and> cs_status (ct_state (fst cw')) = ''running''
    \<and> wo_saved (snd cw') = Some (state_to_json (ct_state (fst cw'))) \<and> ct_skipped_mounts (fst cw') = sk
    \<and> (ph_overlay (ct_phases (fst cw')), ph_mounts (ct_phases (fst cw')), ph_pivot (ct_phases (fst cw'))) = spent
    \<and> wo_init (snd cw') = (case fst outcome of Workload \<Rightarrow> Alive | Ends st \<Rightarrow> Zombie st) \<and> wo_child (snd cw') = wo_child w"
proof -
  obtain a b p where sp: "spent = (a, b, p)" by (cases spent)
  let ?c = "c\<lparr>ct_phases := (ct_phases c)\<lparr>ph_setup := da_setup d, ph_overlay := a, ph_mounts := b, ph_pivot := p\<rparr>, ct_skipped_mounts := sk\<rparr>"
  let ?c2 = "?c\<lparr>ct_state := (ct_state c)\<lparr>cs_pid := da_pid d, cs_status := ''running'', cs_started_at := now,
    cs_phases := phases_to_json (ct_phases ?c)\<rparr>\<rparr>"
  let ?w = "w\<lparr>wo_init := (case fst outcome of Workload \<Rightarrow> Alive | Ends st \<Rightarrow> Zombie st), wo_init_pid := da_init_pid d\<rparr>"
  obtain w' where w': "write_state h (?c2, ?w) = (Inr (), (?c2, w'))" "wo_saved w' = Some (state_to_json (ct_state ?c2))"
    using write_state_ok [OF assms(1), of "(?c2, ?w)"] by auto
  have v: "wo_init w' = wo_init ?w" "wo_child w' = wo_child w" using write_state_view [of h "(?c2, ?w)"] w'(1) by (simp_all add: view_def)
  have r: "read_line (lh_loads h) (da_cut d (report_text h (reported (snd outcome)))) = Inr (init_report spent sk)"
    using pipe_read [OF assms(2)] assms(3) by simp
  have t: "truthy (init_report (a, b, p) sk)" by (simp add: init_report_def)
  have "after_go h now d outcome (c, w) = (Inr (da_pid d), (?c2, w'))"
    using w'(1) by (simp add: after_go_def abind_def set_init_def r [unfolded sp] upd_def after_report_def t take_report_ok)
  then show ?thesis using w'(2) v sp by simp
qed

text \<open>C39: A start succeeds exactly when all three processes did their part: C joined the group and made the namespaces, the
  runtime installed the identity map, and process 1 got as far as its report.  Then the state says
  running and is saved, the phases and skipped mounts are those process 1 reported, and process 1 either is the
  workload or has ended with the code of the failed execution.  When only the report is missing, the
  state says failed and the workload was never executed.\<close>

theorem start_outcome:
  assumes "ct_image c = Some im" "ct_overlay c = Some ov" "ct_mapping c = Some m" "ov_merged ov = path_join base ''merged''"
    and "(if cc_argv (ct_config c) \<noteq> [] then Inr (cc_argv (ct_config c)) else mc_argv im) = Inr argv" "argv \<noteq> []"
    and "init_main (da_init_kernel d) (ct_config c) (ct_name c) im ov (da_inner d) argv [] = (run, lg)"
    and "child_prepare (da_child_kernel d) (lh_show h) (ct_cgroup c \<noteq> None) (da_pid d) (lh_hazard h) [] = ((answer, ended), clog)"
    and "no_errors (lh_kernel h)" "pipe_ok h d (reported lg)" "start h now d (c, w) = (r, cw')"
  shows "(r = Inr (da_pid d) \<longleftrightarrow> ended = None \<and> maps_ok h d m w \<and> reported lg \<noteq> None)
    \<and> (r = Inr (da_pid d) \<longrightarrow> cs_status (ct_state (fst cw')) = ''running'' \<and> wo_saved (snd cw') = Some (state_to_json (ct_state (fst cw')))
        \<and> reported lg = Some (init_report (ph_overlay (ct_phases (fst cw')), ph_mounts (ct_phases (fst cw')), ph_pivot (ct_phases (fst cw')))
             (ct_skipped_mounts (fst cw')))
        \<and> wo_init (snd cw') = (case run of Workload \<Rightarrow> Alive | Ends st \<Rightarrow> Zombie st))
    \<and> (ended = None \<and> maps_ok h d m w \<and> reported lg = None \<longrightarrow> cs_status (ct_state (fst cw')) = ''failed''
        \<and> (\<forall>c b. (c, b) \<in> set lg \<longrightarrow> \<not> is_exec c))"
proof -
  have m: "ov_merged ov \<noteq> []" "last (ov_merged ov) \<noteq> CHR ''/''" using merged_path [of base] assms(4) by simp_all
  have s: "after_fork h now d (Some m) (answer, ended) (run, lg) (c, w) = (r, cw')"
    using start_eq [OF assms(1-3,5,6)] assms(7,8,11) by simp
  have ans: "(answer = ''R'' \<and> ended = None) \<or> (take 1 answer \<noteq> ''R'' \<and> ended = Some (exits 125))"
    by (rule child_prepare_end [OF arg_cong [OF assms(8), of fst, unfolded fst_conv]])
  show ?thesis
  proof (cases "ended = None \<and> maps_ok h d m w")
    case False
    then have "take 1 (fst (answer, ended)) \<noteq> ''R'' \<or> \<not> maps_ok h d m w" using ans by auto
    from after_fork_fails [OF this] s False show ?thesis by (metis fst_conv old.sum.distinct(1))
  next
    case True
    then have "take 1 (fst (answer, ended)) = ''R''" "maps_ok h d m w" using ans by auto
    from after_fork_goes [OF this, of now "(run, lg)" c] s obtain c1 w1 where g: "after_go h now d (run, lg) (c1, w1) = (r, cw')" by auto
    show ?thesis
    proof (cases "reported lg")
      case None
      have p: "pipe_ok h d None" using assms(10) None by simp
      from after_go_fails [OF assms(9) p, of "(run, lg)" now c1 w1] g None obtain e where
        "r = Inl e" "cs_status (ct_state (fst cw')) = ''failed''" by auto
      with init_main_report(2) [OF m assms(7) None] None True show ?thesis by simp
    next
      case (Some v)
      obtain sk where v: "v = init_report (da_inner d) sk" using init_main_report(1) [OF m assms(7) Some] by blast
      from after_go_runs [OF assms(9), of d "da_inner d" sk "(run, lg)" now c1 w1] g Some assms(10) v
      show ?thesis using True by auto
    qed
  qed
qed

definition demo_no_exec :: dance where
  \<comment> \<open>the entrypoint does not exist in the image\<close>
  "demo_no_exec = demo_dance\<lparr>da_init_kernel := demo_kernel\<lparr>kn_call := (\<lambda>_ c. if is_exec c then 2 else 0)\<rparr>, da_cut := (\<lambda>s. if s = [] then [] else [s])\<rparr>"

definition demo_failed :: "image_run \<times> sys_log" where
  "demo_failed = init_main (da_init_kernel demo_no_exec) (demo_cont_config\<lparr>cc_image := ''sha256:m''\<rparr>) ''c'' demo_im demo_ov (da_inner demo_no_exec) [''/bin/true''] []"

lemma demo_failed_run: "fst demo_failed = Ends (Exited 127)" "reported (snd demo_failed) \<noteq> None"
  by code_simp+

definition demo_faithful :: life_host where
  "demo_faithful = demo_life\<lparr>lh_loads := (\<lambda>_. Inr (the (reported (snd demo_failed))))\<rparr>"

text \<open>A missing entrypoint is not noticed by the start: it succeeds, the state says running, and process 1 has ended with 127.\<close>

theorem start_outcome_witness:
  "fst (start demo_faithful 0 demo_no_exec demo_created) = Inr 7
   \<and> cs_status (ct_state (fst (snd (start demo_faithful 0 demo_no_exec demo_created)))) = ''running''
   \<and> wo_init (snd (snd (start demo_faithful 0 demo_no_exec demo_created))) = Zombie (Exited 127)"
proof -
  obtain c w where cw: "demo_created = (c, w)" by (cases demo_created)
  have f: "ct_image c = Some demo_im" "ct_overlay c = Some demo_ov" "ct_mapping c = Some (root_mapping demo_host)" "ct_cgroup c = Some demo_group"
    "ct_config c = demo_cont_config\<lparr>cc_image := ''sha256:m''\<rparr>" "ct_name c = ''c''"
    using demo_created unfolding cw demo_ov_def by simp_all
  have m: "ov_merged demo_ov = path_join (ct_bundle (fst demo_new)) ''merged''" by (simp add: demo_ov_def)
  have a: "(if cc_argv (ct_config c) \<noteq> [] then Inr (cc_argv (ct_config c)) else mc_argv demo_im) = Inr [''/bin/true'']" "[''/bin/true''] \<noteq> []"
    by (simp_all add: f demo_config_fields)
  obtain run lg where i: "demo_failed = (run, lg)" by (cases demo_failed)
  have i': "init_main (da_init_kernel demo_no_exec) (ct_config c) (ct_name c) demo_im demo_ov (da_inner demo_no_exec) [''/bin/true''] [] = (run, lg)"
    using i by (simp add: demo_failed_def f)
  obtain clog where ch: "child_prepare (da_child_kernel demo_no_exec) (lh_show demo_faithful) (ct_cgroup c \<noteq> None) (da_pid demo_no_exec) (lh_hazard demo_faithful) []
      = ((''R'', None), clog)"
    using demo_child by (simp add: demo_no_exec_def demo_faithful_def f) (metis prod.collapse)
  have k: "no_errors (lh_kernel demo_faithful)" by (simp add: no_errors_def demo_faithful_def demo_life_def demo_kernel_def)
  have p: "pipe_ok demo_faithful demo_no_exec (reported lg)"
    by (simp add: pipe_ok_def demo_faithful_def demo_no_exec_def i) (simp add: demo_life_def strip_Nil_iff is_space_def code_of_def)
  obtain r cw' where s: "start demo_faithful 0 demo_no_exec (c, w) = (r, cw')" by (cases "start demo_faithful 0 demo_no_exec (c, w)")
  have mo: "maps_ok demo_faithful demo_no_exec (root_mapping demo_host) w"
    using demo_maps [of "wo_maps w"] by (auto simp: maps_ok_def demo_faithful_def demo_no_exec_def demo_life_fields)
  have rn: "run = Ends (Exited 127)" "reported lg \<noteq> None" using demo_failed_run unfolding i by simp_all
  have pid: "da_pid demo_no_exec = 7" by (simp add: demo_no_exec_def demo_dance_def)
  from start_outcome [OF f(1-3) m a i' ch k p s] mo rn pid show ?thesis unfolding cw s by simp
qed

section \<open>Where the order of the processes is not what the code expects\<close>

text \<open>C joins the group after the fork: when the group refuses it - as it does for a runtime outside the delegated tree, which could
  make the group nevertheless - the start fails with the message of a child that died, whatever the limits are.\<close>

theorem refused_join_fails:
  assumes "ct_image c = Some im" "ct_overlay c = Some ov" "ct_mapping c = Some m" "cc_argv (ct_config c) \<noteq> []"
    and "ct_cgroup c = Some g" "kn_call (da_child_kernel d) [] (SJoin (da_pid d)) \<noteq> 0"
  shows "fst (start h now d (c, w)) = Inl (ContainerError ''container child died before creating its namespaces'')"
proof -
  have ch: "fst (child_prepare (da_child_kernel d) (lh_show h) (ct_cgroup c \<noteq> None) (da_pid d) (lh_hazard h) []) = ([], Some (exits 125))"
    using assms(5,6) by (simp add: child_prepare_def sys_def Let_def)
  have a: "(if cc_argv (ct_config c) \<noteq> [] then Inr (cc_argv (ct_config c)) else mc_argv im) = Inr (cc_argv (ct_config c))"
    using assms(4) by simp
  show ?thesis unfolding start_eq [OF assms(1-3) a assms(4)] ch
    by (simp add: after_fork_def set_child_def upd_def await_namespaces_def abind_def Let_def)
qed

text \<open>Without a group, \<open>kill\<close> ends only C: the workload goes on, and the state says killed.\<close>

theorem kill_without_group_leaves_workload:
  assumes "life_inv (view cw)" "ct_child_pid (fst cw) \<noteq> 0" "no_errors (lh_kernel h)" "ct_cgroup (fst cw) = None" "wo_child (snd cw) = Alive"
    and "wo_init (snd cw) = Alive"
  shows "\<exists>cw'. kill_container h now 15 grace [(now + grace, f)] cw = Some (Inr 137, cw') \<and> cs_status (ct_state (fst cw')) = ''killed''
    \<and> wo_init (snd cw') = Alive"
proof -
  let ?cw = "(fst cw, deliver 15 (snd cw))"
  have c: "cgroup_kill h ?cw = (Inr (), ?cw)" using assms(4) by (simp add: cgroup_kill_def)
  have i: "life_inv (view ?cw)" using deliver_inv [of 15 "fst cw" "snd cw"] assms(1) by simp
  have p: "ct_child_pid (fst ?cw) \<noteq> 0" using assms(2) by simp
  from kill_force_ok [OF i p assms(3) c] obtain cw' st where k: "kill_force h ?cw = (Inr 137, cw')"
    "view cw' = (''killed'', cs_exit_code (ct_state (fst ?cw)), ct_child_pid (fst ?cw), Gone st, wo_init (snd ?cw))" by blast
  have "wo_init (snd ?cw) = Alive" using assms(6) by (simp add: deliver_def)
  then show ?thesis using k assms(2) by (auto simp: kill_container_def view_def)
qed

text \<open>With \<open>SIGKILL\<close> as its signal, \<open>kill\<close> reaps C at its first look and returns, group or not: the workload goes on.\<close>

theorem sigkill_leaves_workload:
  assumes "ct_child_pid (fst cw) \<noteq> 0" "no_errors (lh_kernel h)" "wo_child (snd cw) = Alive" "0 < grace"
  shows "\<exists>cw'. kill_container h now 9 grace ((now, f) # turns) cw = Some (Inr 137, cw') \<and> cs_status (ct_state (fst cw')) = ''exited''
    \<and> wo_init (snd cw') = wo_init (snd cw)"
proof -
  let ?cw = "(fst cw, deliver 9 (snd cw))"
  have z: "wo_child (snd ?cw) = Zombie (Signaled 9)" "wo_init (snd ?cw) = wo_init (snd cw)"
    using assms(3) by (simp_all add: deliver_def forwarded_def ended_by_def)
  have fo: "fst (finish h (Signaled 9) (\<lambda>s. s) ?cw) = Inr (Done 137)" using finish_ok [OF assms(2), of "Signaled 9"] by simp
  have "view (snd (finish h (Signaled 9) (\<lambda>s. s) ?cw)) = (''exited'', Some 137, ct_child_pid (fst ?cw), Gone (Signaled 9), wo_init (snd ?cw))"
    using finish_view [of "\<lambda>s. s" h "Signaled 9" ?cw] by simp
  moreover obtain cw' where f: "finish h (Signaled 9) (\<lambda>s. s) ?cw = (Inr (Done 137), cw')" using fo by (metis prod.collapse)
  ultimately have v: "cs_status (ct_state (fst cw')) = ''exited''" "wo_init (snd cw') = wo_init (snd cw)" using z(2) by (simp_all add: view_def)
  have "kill_look h ?cw = (Inr (Done 137), cw')" using f z(1) by (simp add: kill_look_def)
  then show ?thesis using v assms(1,4) by (simp add: kill_container_def)
qed

text \<open>After \<open>wait\<close> has reaped the child, a second \<open>wait\<close> raises, and \<open>kill\<close> rewrites the record of a container that ended by itself.\<close>

theorem wait_twice_raises:
  "ct_child_pid (fst cw) \<noteq> 0 \<Longrightarrow> wo_child (snd cw) = Gone st \<Longrightarrow>
     wait_container h now timeout ((t, f) # turns) cw = Some (Inl (ChildProcessError ''No child processes''), cw)"
  by (simp add: wait_container_def wait_look_def)

theorem kill_rewrites_exited:
  assumes "life_inv (view cw)" "ct_child_pid (fst cw) \<noteq> 0" "no_errors (lh_kernel h)" "ct_cgroup (fst cw) = None" "wo_child (snd cw) = Gone st"
    and "0 < grace"
  shows "\<exists>cw'. kill_container h now 15 grace ((now, f) # turns) cw = Some (Inr 137, cw') \<and> cs_status (ct_state (fst cw')) = ''killed''
    \<and> cs_exit_code (ct_state (fst cw')) = cs_exit_code (ct_state (fst cw))"
proof -
  have d: "(fst cw, deliver 15 (snd cw)) = cw" using assms(5) by (simp add: deliver_def)
  have c: "cgroup_kill h cw = (Inr (), cw)" using assms(4) by (simp add: cgroup_kill_def)
  from kill_force_ok [OF assms(1-3) c] obtain cw' s where k: "kill_force h cw = (Inr 137, cw')"
    "view cw' = (''killed'', cs_exit_code (ct_state (fst cw)), ct_child_pid (fst cw), Gone s, wo_init (snd cw))" by blast
  have "kill_look h cw = (Inr Broken, cw)" using assms(5) by (simp add: kill_look_def)
  then show ?thesis using k assms(2,6) by (auto simp: kill_container_def d view_def)
qed

end
