(* ===== verification/Pod_Containers.thy ===== *)
theory Pod_Containers
  imports Node_Agents_Props Container_Runs
begin

text \<open>
  The runtimes of \<open>modules/orchestrator/orchestrator/runtime.py\<close> that run real processes: a subprocess per pod,
  and a container per pod over the container runtime (\<open>Container_Life\<close>).  A handle names its process by
  its identity.  What the host does - whether a command can be spawned, whether a process heeds \<open>SIGTERM\<close>,
  how a start goes - is an argument or part of the state of the runtime.
\<close>

section \<open>Subprocesses\<close>

record process_runtime =
  pr_procs :: "(int \<times> proc) list"
  pr_started :: nat
  pr_stopped :: nat

definition env_items :: "json \<Rightarrow> (string \<times> string) list res" where
  \<comment> \<open>a dictionary of strings; only what is looked up in it matters\<close>
  "env_items v = ebind (py_dict v) (\<lambda>d. emap (\<lambda>k. ebind (jstr (dget d k JNull)) (\<lambda>t. Inr (k, t))) (sorted_list_of_fset (fmdom d)))"

definition process_command :: "obj \<Rightarrow> string list res" where
  \<comment> \<open>\<open>pod.spec.get("command") or ["sleep", "3600"]\<close>\<close>
  "process_command pod =
     (let v = dget (o_spec pod) ''command'' JNull in
      if truthy v then str_list v else Inr [''sleep'', ''3600''])"

definition process_start ::
  "(string list \<Rightarrow> (string \<times> string) list \<Rightarrow> int res) \<Rightarrow> (string \<times> string) list \<Rightarrow> rat \<Rightarrow> obj \<Rightarrow> (handle, process_runtime) act" where
  \<comment> \<open>\<open>spawn\<close> is \<open>subprocess.Popen\<close>, the second argument the environment of the agent\<close>
  "process_start spawn environ now pod =
     abind (alift (process_command pod)) (\<lambda>command.
     abind (alift (env_items (dget (o_spec pod) ''env'' (JObj fmempty)))) (\<lambda>items.
     abind (alift (spawn command (foldl (\<lambda>m (n, v). AList.update n v m) environ items))) (\<lambda>pid.
     abind (\<lambda>r. (Inr (), r\<lparr>pr_procs := AList.update pid Alive (pr_procs r), pr_started := pr_started r + 1\<rparr>)) (\<lambda>_.
     abind (alift (py_float (dget (o_spec pod) ''readinessDelaySeconds'' (JNum 0)))) (\<lambda>delay.
     aret \<lparr>h_key = okey pod, h_started = now, h_pid = pid, h_failed = False, h_ready_at = now + delay\<rparr>)))))"

definition process_of :: "handle \<Rightarrow> process_runtime \<Rightarrow> proc" where
  "process_of h r = (case map_of (pr_procs r) (h_pid h) of Some p \<Rightarrow> p | None \<Rightarrow> NoProc)"

definition process_stop :: "(int \<Rightarrow> bool) \<Rightarrow> handle \<Rightarrow> process_runtime \<Rightarrow> process_runtime" where
  \<comment> \<open>\<open>heeds\<close>: the process ends within five seconds of \<open>SIGTERM\<close>\<close>
  "process_stop heeds h r =
     (case process_of h r of
        NoProc \<Rightarrow> r
      | p \<Rightarrow> r\<lparr>pr_stopped := pr_stopped r + 1, pr_procs := AList.update (h_pid h)
          (case p of Alive \<Rightarrow> Gone (Signaled (if heeds (h_pid h) then 15 else 9)) | Zombie st \<Rightarrow> Gone st | q \<Rightarrow> q) (pr_procs r)\<rparr>)"

definition process_alive :: "handle \<Rightarrow> process_runtime \<Rightarrow> bool" where
  \<comment> \<open>\<open>poll\<close> reaps the process if it ended, which no later answer depends on\<close>
  "process_alive h r = (process_of h r = Alive)"

definition process_ready :: "rat \<Rightarrow> handle \<Rightarrow> process_runtime \<Rightarrow> bool" where
  "process_ready now h r = (process_alive h r \<and> now \<ge> h_ready_at h)"

definition process_rt ::
  "(string list \<Rightarrow> (string \<times> string) list \<Rightarrow> int res) \<Rightarrow> (string \<times> string) list \<Rightarrow> (int \<Rightarrow> bool) \<Rightarrow> process_runtime runtime_ops" where
  "process_rt spawn environ heeds = \<lparr>rt_start = process_start spawn environ, rt_stop = process_stop heeds,
     rt_alive = process_alive, rt_ready = process_ready\<rparr>"

section \<open>Containers\<close>

record container_runtime =
  cr_workspace :: string
  cr_fs :: fs
  cr_containers :: "(int \<times> cw) list"
  cr_started :: nat
  cr_stopped :: nat

text \<open>What the host does: the identity of the next container, how its start goes, and what happens during a kill.\<close>

record pod_host =
  ph_life :: life_host
  ph_id :: string
  ph_dance :: dance
  ph_turns :: turns
  ph_removal :: "unit res list \<times> unit res"

definition pod_config :: "obj \<Rightarrow> container_config res" where
  "pod_config pod =
     (let spec = o_spec pod; none = \<lparr>li_memory = None, li_memory_high = None, li_memory_swap = None, li_cpu_quota = None,
          li_cpu_weight = None, li_pids_max = None, li_io_weight = None\<rparr> in
      ebind (jitem spec ''image'') (\<lambda>image. ebind (jstr image) (\<lambda>img.
      ebind (let v = dget spec ''command'' JNull in if truthy v then str_list v else Inr []) (\<lambda>argv.
      ebind (env_items (dget spec ''env'' (JObj fmempty))) (\<lambda>env.
      ebind (py_dict (dget spec ''resources'' (JObj fmempty))) (\<lambda>res.
      ebind (py_float (dget res ''memoryMB'' (JNum 64))) (\<lambda>mb.
      ebind (py_float (dget res ''cpu'' (JNum (1 / 10)))) (\<lambda>cpu.
      Inr \<lparr>cc_image = img, cc_name = m_name (o_meta pod), cc_argv = argv, cc_env = env, cc_workdir = [], cc_user = [],
           cc_hostname = [], cc_limits = none\<lparr>li_memory := Some (trunc (mb * 1048576)), li_cpu_quota := Some cpu,
             li_pids_max := Some 128\<rparr>, cc_readonly_root = False, cc_use_init = True, cc_network = ''private'',
           cc_tmpfs_size = ''64m'', cc_extra_hosts = [], cc_stdout_path = [], cc_stderr_path = []\<rparr>))))))))"

definition container_start :: "pod_host \<Rightarrow> rat \<Rightarrow> obj \<Rightarrow> (handle, container_runtime) act" where
  \<comment> \<open>a container whose start fails is dropped as it is\<close>
  "container_start p now pod r =
     (case pod_config pod of
        Inl e \<Rightarrow> (Inl e, r)
      | Inr cfg \<Rightarrow>
        (let cw0 = (new_container cfg (cr_workspace r) (ph_id p),
               \<lparr>wo_fs = cr_fs r, wo_calls = [], wo_maps = \<lparr>ef_writes = [], ef_runs = []\<rparr>, wo_saved = None, wo_child = NoProc,
                wo_init = NoProc, wo_init_pid = 0, wo_signals = []\<rparr>)
         in case abind (create (ph_life p) now (0, 0, 0)) (\<lambda>_. start (ph_life p) now (ph_dance p)) cw0 of
              (Inl e, cw) \<Rightarrow> (Inl e, r\<lparr>cr_fs := wo_fs (snd cw)\<rparr>)
            | (Inr pid, cw) \<Rightarrow>
                (let r' = r\<lparr>cr_fs := wo_fs (snd cw), cr_started := cr_started r + 1,
                            cr_containers := AList.update pid cw (cr_containers r)\<rparr>
                 in case py_float (dget (o_spec pod) ''readinessDelaySeconds'' (JNum 0)) of
                      Inl e \<Rightarrow> (Inl e, r')
                    | Inr delay \<Rightarrow> (Inr \<lparr>h_key = okey pod, h_started = now, h_pid = pid, h_failed = False,
                                       h_ready_at = now + delay\<rparr>, r'))))"

definition container_stop :: "pod_host \<Rightarrow> rat \<Rightarrow> handle \<Rightarrow> container_runtime \<Rightarrow> container_runtime" where
  \<comment> \<open>\<open>kill(grace=5.0)\<close>, then \<open>delete\<close>; an exception of either leaves the counter\<close>
  "container_stop p now h r =
     (case map_of (cr_containers r) (h_pid h) of
        None \<Rightarrow> r
      | Some cw \<Rightarrow>
        (case kill_container (ph_life p) now 15 5 (ph_turns p) cw of
           None \<Rightarrow> r
         | Some (Inl e, cw1) \<Rightarrow> r\<lparr>cr_containers := AList.update (h_pid h) cw1 (cr_containers r)\<rparr>
         | Some (Inr n, cw1) \<Rightarrow>
             (case delete_container (ph_life p) (fst (ph_removal p)) (snd (ph_removal p)) cw1 of
                (Inl e, cw2) \<Rightarrow> r\<lparr>cr_containers := AList.update (h_pid h) cw2 (cr_containers r)\<rparr>
              | (Inr u, cw2) \<Rightarrow> r\<lparr>cr_containers := AList.update (h_pid h) cw2 (cr_containers r), cr_stopped := cr_stopped r + 1\<rparr>)))"

definition process_exists :: "proc \<Rightarrow> bool" where
  \<comment> \<open>\<open>os.kill(pid, 0)\<close> succeeds: the process has not been reaped\<close>
  "process_exists p = (case p of Alive \<Rightarrow> True | Zombie st \<Rightarrow> True | _ \<Rightarrow> False)"

definition container_alive :: "handle \<Rightarrow> container_runtime \<Rightarrow> bool" where
  "container_alive h r =
     (case map_of (cr_containers r) (h_pid h) of
        None \<Rightarrow> False
      | Some cw \<Rightarrow> process_exists (wo_child (snd cw)))"

definition container_ready :: "rat \<Rightarrow> handle \<Rightarrow> container_runtime \<Rightarrow> bool" where
  "container_ready now h r = (container_alive h r \<and> now \<ge> h_ready_at h)"

definition container_rt :: "pod_host \<Rightarrow> rat \<Rightarrow> container_runtime runtime_ops" where
  "container_rt p t = \<lparr>rt_start = container_start p, rt_stop = container_stop p t, rt_alive = container_alive, rt_ready = container_ready\<rparr>"

definition container_available :: "bool \<Rightarrow> (string \<Rightarrow> string option) \<Rightarrow> bool res" where
  \<comment> \<open>\<open>available\<close>: whether the container runtime can be imported, and the texts of the files it looks at\<close>
  "container_available importable files =
     (if \<not> importable then Inr False
      else ebind (userns_available files) (\<lambda>(ok, reason). Inr (ok \<and> overlayfs_in_userns (files ''/proc/version''))))"

section \<open>Properties\<close>

text \<open>What the processes of a started container can do while nobody looks.\<close>

definition goes_on :: "handle \<Rightarrow> container_runtime \<Rightarrow> container_runtime \<Rightarrow> bool" where
  "goes_on h r r' \<longleftrightarrow> (\<exists>c w w'. map_of (cr_containers r) (h_pid h) = Some (c, w) \<and> env_step\<^sup>*\<^sup>* w w'
     \<and> r' = r\<lparr>cr_containers := AList.update (h_pid h) (c, w') (cr_containers r)\<rparr>)"

lemma env_steps_exist: "env_step\<^sup>*\<^sup>* w w' \<Longrightarrow> process_exists (wo_child w) \<Longrightarrow> process_exists (wo_child w')"
  by (induction rule: rtranclp_induct) (auto simp: process_exists_def elim!: env_stepE)

lemma started_exists:
  assumes "container_start p now pod r = (Inr h, r')" "da_pid (ph_dance p) \<noteq> 0"
  shows "\<exists>cw. map_of (cr_containers r') (h_pid h) = Some cw \<and> process_exists (wo_child (snd cw))"
proof -
  obtain cfg where cfg: "pod_config pod = Inr cfg" using assms(1) by (auto simp: container_start_def split: sum.splits)
  let ?cw0 = "(new_container cfg (cr_workspace r) (ph_id p),
               \<lparr>wo_fs = cr_fs r, wo_calls = [], wo_maps = \<lparr>ef_writes = [], ef_runs = []\<rparr>, wo_saved = None, wo_child = NoProc,
                wo_init = NoProc, wo_init_pid = 0, wo_signals = []\<rparr>)"
  obtain q cw where q: "abind (create (ph_life p) now (0, 0, 0)) (\<lambda>_. start (ph_life p) now (ph_dance p)) ?cw0 = (q, cw)"
    by (cases "abind (create (ph_life p) now (0, 0, 0)) (\<lambda>_. start (ph_life p) now (ph_dance p)) ?cw0")
  obtain pid where pid: "q = Inr pid"
    using assms(1) q by (cases q) (auto simp: container_start_def cfg Let_def)
  note s = q [unfolded pid]
  have m: "h_pid h = pid" "cr_containers r' = AList.update pid cw (cr_containers r)"
    using assms(1) s by (auto simp: container_start_def cfg Let_def split: sum.splits)
  from s obtain cw1 where c: "create (ph_life p) now (0, 0, 0) ?cw0 = (Inr (), cw1)" "start (ph_life p) now (ph_dance p) cw1 = (Inr pid, cw)"
    by (auto elim: abindE)
  have "view cw1 = view ?cw0" using quiet_create c(1) unfolding unseen_def by (metis snd_conv)
  then have "startable (view cw1)" by (simp add: startable_def view_def new_container_def Let_def)
  then have "runs (view cw)" using tripleD(1) [OF start_keeps [OF assms(2)]] c(2) by blast
  then have "process_exists (wo_child (snd cw))" by (auto simp: runs_def view_def process_exists_def)
  then show ?thesis using m by (intro exI [of _ cw]) (simp add: AList.update_conv')
qed

text \<open>C40: With the container runtime a pod that is Ready stays Ready whatever its container does: nothing reaps the child
  that supervises it, so after the workload has ended the child is a zombie, the runtime still takes it for
  alive, and the agent's probe changes nothing - neither a crash nor a restart is recorded.\<close>

theorem ended_container_stays_ready:
  assumes "container_start p now0 pod0 r = (Inr h, r1)" "da_pid (ph_dance p) \<noteq> 0" "goes_on h r1 r2"
    and "phase_of pod = JStr READY" "h_ready_at h \<le> now"
  shows "container_alive h r2 \<and> probe_pod (container_rt p t) now key pod h (a, r2, st) = (Inr None, (a, r2, st))"
proof -
  obtain cw where cw: "map_of (cr_containers r1) (h_pid h) = Some cw" "process_exists (wo_child (snd cw))"
    using started_exists [OF assms(1,2)] by blast
  obtain c w w' where g: "map_of (cr_containers r1) (h_pid h) = Some (c, w)" "env_step\<^sup>*\<^sup>* w w'"
    "r2 = r1\<lparr>cr_containers := AList.update (h_pid h) (c, w') (cr_containers r1)\<rparr>"
    using assms(3) unfolding goes_on_def by blast
  have "process_exists (wo_child w')" using env_steps_exist [OF g(2)] g(1) cw by simp
  then have al: "container_alive h r2" using g(3) by (simp add: container_alive_def AList.update_conv')
  then show ?thesis using assms(4,5) by (simp add: probe_pod_def container_rt_def container_ready_def)
qed

section \<open>Subprocesses that ended\<close>

text \<open>A subprocess that ended is noticed: \<open>poll\<close> reaps it.\<close>

theorem ended_process_not_alive:
  "map_of (pr_procs r) (h_pid h) = Some (Zombie st) \<Longrightarrow> \<not> rt_alive (process_rt spawn environ heeds) h r"
  by (simp add: process_rt_def process_alive_def process_of_def)

text \<open>A start that raises on the readiness delay has already spawned its process: no handle names it, and it runs on.\<close>

theorem failed_start_leaves_process:
  assumes "process_command pod = Inr command" "env_items (dget (o_spec pod) ''env'' (JObj fmempty)) = Inr items"
    and "spawn command (foldl (\<lambda>m (n, v). AList.update n v m) environ items) = Inr pid"
    and "py_float (dget (o_spec pod) ''readinessDelaySeconds'' (JNum 0)) = Inl e"
  shows "\<exists>r'. process_start spawn environ now pod r = (Inl e, r') \<and> map_of (pr_procs r') pid = Some Alive"
  using assms by (simp add: process_start_def abind_def AList.update_conv')

section \<open>A container at work\<close>

text \<open>A pod whose container runs; then its workload exits with 3 and the child that supervises it follows.\<close>

definition demo_cpod :: obj where
  "demo_cpod = \<lparr>o_kind = POD, o_meta = \<lparr>m_name = ''c'', m_namespace = ''d'', m_uid = ''u'', m_rv = 1, m_generation = 1,
       m_labels = fmempty, m_annotations = fmempty, m_owner = '''', m_created_at = 0, m_deleted_at = 0\<rparr>,
     o_spec = fmap_of_list [(''image'', JStr ''sha256:m''), (''command'', JList [JStr ''/bin/true''])],
     o_status = fmap_of_list [(''phase'', JStr READY)]\<rparr>"

definition demo_cpod_config :: container_config where
  "demo_cpod_config = \<lparr>cc_image = ''sha256:m'', cc_name = ''c'', cc_argv = [''/bin/true''], cc_env = [], cc_workdir = [], cc_user = [],
     cc_hostname = [], cc_limits = \<lparr>li_memory = Some 67108864, li_memory_high = None, li_memory_swap = None, li_cpu_quota = Some (1 / 10),
       li_cpu_weight = None, li_pids_max = Some 128, li_io_weight = None\<rparr>, cc_readonly_root = False, cc_use_init = True,
     cc_network = ''private'', cc_tmpfs_size = ''64m'', cc_extra_hosts = [], cc_stdout_path = [], cc_stderr_path = []\<rparr>"

lemma demo_cpod_config: "pod_config demo_cpod = Inr demo_cpod_config"
  by (simp add: pod_config_def demo_cpod_def demo_cpod_config_def Let_def jitem_def dget_def env_items_def fmlookup_of_list jstr_def
    str_list_strs [of "[''/bin/true'']", simplified] sorted_list_of_fset_def)

lemma init_main_limits: "init_main k (cfg\<lparr>cc_limits := l\<rparr>) = init_main k cfg"
  by (intro ext) (simp add: init_main_def init_process_def open_outputs_def Let_def container_env_def cong: if_cong)

lemma make_cgroup_limits: "make_cgroup h n l = Inr x \<Longrightarrow> \<exists>g sk. make_cgroup h n l' = Inr (g, sk)"
  by (auto simp: make_cgroup_def split: sum.splits prod.splits simp: ebind_def)

definition demo_plain_config :: container_config where
  "demo_plain_config = \<lparr>cc_image = ''sha256:m'', cc_name = ''c'', cc_argv = [''/bin/true''], cc_env = [], cc_workdir = [], cc_user = [],
     cc_hostname = [], cc_limits = \<lparr>li_memory = None, li_memory_high = None, li_memory_swap = None, li_cpu_quota = None,
       li_cpu_weight = None, li_pids_max = None, li_io_weight = None\<rparr>, cc_readonly_root = False, cc_use_init = True,
     cc_network = ''private'', cc_tmpfs_size = ''64m'', cc_extra_hosts = [], cc_stdout_path = [], cc_stderr_path = []\<rparr>"

definition demo_cpod_run :: "image_run \<times> sys_log" where
  "demo_cpod_run = init_main demo_kernel demo_plain_config ''c'' demo_im demo_ov (0, 0, 0) [''/bin/true''] []"

lemma demo_cpod_run: "fst demo_cpod_run = Workload"
  by code_simp

lemma demo_cpod_reported: "\<exists>sk. reported (snd demo_cpod_run) = Some (init_report (0, 0, 0) sk)"
proof -
  obtain r lg where o: "demo_cpod_run = (r, lg)" by (cases demo_cpod_run)
  have m: "ov_merged demo_ov \<noteq> []" "last (ov_merged demo_ov) \<noteq> CHR ''/''"
    using merged_path [of "ct_bundle (fst demo_new)"] by (simp_all add: demo_ov_def)
  note r = init_main_report [OF m o [unfolded demo_cpod_run_def]]
  show ?thesis using r demo_cpod_run unfolding o by (cases "reported lg") auto
qed

definition demo_cpod_host :: pod_host where
  "demo_cpod_host = \<lparr>ph_life = demo_life\<lparr>lh_loads := (\<lambda>_. Inr (the (reported (snd demo_cpod_run))))\<rparr>, ph_id = ''0123456789'',
     ph_dance = demo_dance\<lparr>da_cut := (\<lambda>s. if s = [] then [] else [s])\<rparr>, ph_turns = [], ph_removal = ([], Inr ())\<rparr>"

definition demo_containers :: container_runtime where
  "demo_containers = \<lparr>cr_workspace = ''/w'', cr_fs = demo_files, cr_containers = [], cr_started = 0, cr_stopped = 0\<rparr>"

lemma demo_cpod_limits: "demo_plain_config\<lparr>cc_limits := cc_limits demo_cpod_config\<rparr> = demo_cpod_config"
  by (simp add: demo_plain_config_def demo_cpod_config_def)

lemma demo_cpod_fields:
  "cc_image demo_cpod_config = ''sha256:m''" "cc_argv demo_cpod_config = [''/bin/true'']" "cc_user demo_cpod_config = []"
  "cc_name demo_cpod_config = ''c''"
  by (simp_all add: demo_cpod_config_def)

lemma demo_host_fields:
  "lh_kernel (ph_life demo_cpod_host) = demo_kernel" "lh_store (ph_life demo_cpod_host) = demo_life_store"
  "lh_ids (ph_life demo_cpod_host) = demo_host" "lh_helper (ph_life demo_cpod_host) = lh_helper demo_life"
  "lh_cg (ph_life demo_cpod_host) = lh_cg demo_life" "lh_show (ph_life demo_cpod_host) = lh_show demo_life"
  "lh_hazard (ph_life demo_cpod_host) = lh_hazard demo_life" "ph_id demo_cpod_host = ''0123456789''"
  "da_init_kernel (ph_dance demo_cpod_host) = demo_kernel" "da_child_kernel (ph_dance demo_cpod_host) = da_child_kernel demo_dance"
  "da_pid (ph_dance demo_cpod_host) = 7" "da_inner (ph_dance demo_cpod_host) = (0, 0, 0)"
  "da_refuses (ph_dance demo_cpod_host) = da_refuses demo_dance" "da_succeeds (ph_dance demo_cpod_host) = da_succeeds demo_dance"
  by (simp_all add: demo_cpod_host_def demo_life_fields) (simp_all add: demo_dance_def)

definition demo_cpod_new :: cw where
  "demo_cpod_new = (new_container demo_cpod_config ''/w'' ''0123456789'', snd demo_new)"

lemma demo_cpod_new:
  "ct_config (fst demo_cpod_new) = demo_cpod_config" "ct_workspace (fst demo_cpod_new) = ''/w''" "ct_name (fst demo_cpod_new) = ''c''"
  "ct_bundle (fst demo_cpod_new) = ct_bundle (fst demo_new)" "wo_fs (snd demo_cpod_new) = demo_files"
  by (simp_all add: demo_cpod_new_def demo_new_def new_container_def Let_def demo_cpod_fields demo_cont_config_def)

lemma demo_cpod_pipe: "pipe_ok (ph_life demo_cpod_host) (ph_dance demo_cpod_host) (reported (snd demo_cpod_run))"
  by (simp add: pipe_ok_def demo_cpod_host_def) (simp add: demo_life_def strip_Nil_iff is_space_def code_of_def)

lemma demo_cpod_created: "\<exists>c w g. create (ph_life demo_cpod_host) 0 (0, 0, 0) demo_cpod_new = (Inr (), (c, w)) \<and> ct_image c = Some demo_im
  \<and> ct_overlay c = Some demo_ov \<and> ct_mapping c = Some (root_mapping demo_host) \<and> ct_cgroup c = Some g \<and> ct_config c = demo_cpod_config
  \<and> ct_name c = ''c''"
proof -
  obtain c w where n: "demo_cpod_new = (c, w)" by (cases demo_cpod_new)
  note f = demo_cpod_new [unfolded n fst_conv snd_conv]
  obtain g sk where "make_cgroup demo_life ''c'' (cc_limits demo_cpod_config) = Inr (g, sk)"
    using make_cgroup_limits [OF demo_make_cgroup] by blast
  then have g: "make_cgroup (ph_life demo_cpod_host) ''c'' (cc_limits demo_cpod_config) = Inr (g, sk)"
    by (simp add: make_cgroup_def demo_host_fields)
  have "\<exists>c' w'. create (ph_life demo_cpod_host) 0 (0, 0, 0) (c, w) = (Inr (), (c', w')) \<and> view (c', w') = view (c, w) \<and> ct_image c' = Some demo_im
    \<and> ct_overlay c' = Some \<lparr>ov_merged = path_join (ct_bundle c) ''merged'', ov_upper = path_join (ct_bundle c) ''upper'',
        ov_work = path_join (ct_bundle c) ''work'', ov_lowers = [''/w/layers/sha256_l'']\<rparr>
    \<and> ct_mapping c' = Some (root_mapping demo_host) \<and> ct_cgroup c' = Some g \<and> ct_config c' = ct_config c \<and> ct_name c' = ct_name c"
    by (rule create_ok [where user = "[]" and sk = sk and argv = "[''/bin/true'']" and fs = demo_files
        and lc = "\<lparr>lc_root = ''/w/layers'', lc_unpacked = [], lc_reused = [''sha256:l'']\<rparr>"])
      (simp_all add: demo_no_errors f g demo_host_fields demo_get demo_ensure demo_cpod_fields demo_user demo_plan_root)
  then show ?thesis using f by (auto simp: n demo_ov_def)
qed

lemma demo_cpod_started: "\<exists>cw. container_start demo_cpod_host 0 demo_cpod demo_containers
    = (Inr \<lparr>h_key = okey demo_cpod, h_started = 0, h_pid = 7, h_failed = False, h_ready_at = 0\<rparr>,
       demo_containers\<lparr>cr_fs := wo_fs (snd cw), cr_started := 1, cr_containers := [(7, cw)]\<rparr>)
    \<and> wo_init (snd cw) = Alive \<and> wo_child (snd cw) = Alive"
proof -
  let ?p = demo_cpod_host
  obtain c w g where cr: "create (ph_life ?p) 0 (0, 0, 0) demo_cpod_new = (Inr (), (c, w))" "ct_image c = Some demo_im"
    "ct_overlay c = Some demo_ov" "ct_mapping c = Some (root_mapping demo_host)" "ct_cgroup c = Some g" "ct_config c = demo_cpod_config"
    "ct_name c = ''c''" using demo_cpod_created by blast
  have a: "(if cc_argv (ct_config c) \<noteq> [] then Inr (cc_argv (ct_config c)) else mc_argv demo_im) = Inr [''/bin/true'']" "[''/bin/true''] \<noteq> []"
    by (simp_all add: cr(6) demo_cpod_fields)
  have run: "init_main demo_kernel demo_cpod_config ''c'' demo_im demo_ov (0, 0, 0) [''/bin/true''] [] = demo_cpod_run"
    using init_main_limits [of demo_kernel "cc_limits demo_cpod_config" demo_plain_config] by (simp only: demo_cpod_limits demo_cpod_run_def)
  have ch: "fst (child_prepare (da_child_kernel demo_dance) (lh_show demo_life) True 7 (lh_hazard demo_life) []) = (''R'', None)"
    using demo_child by (simp add: demo_dance_def)
  have eq: "start (ph_life ?p) 0 (ph_dance ?p) (c, w) = after_fork (ph_life ?p) 0 (ph_dance ?p) (Some (root_mapping demo_host)) (''R'', None) demo_cpod_run (c, w)"
    using start_eq [OF cr(2-4) a, of "ph_life ?p" 0 "ph_dance ?p" w] by (simp add: cr demo_host_fields run ch)
  have mo: "maps_ok (ph_life ?p) (ph_dance ?p) (root_mapping demo_host) w"
    using demo_maps [of "wo_maps w"] by (auto simp: maps_ok_def demo_host_fields demo_dance_def)
  have t: "take 1 (fst (''R'', None :: wstatus option)) = ''R''" by simp
  obtain ef where go: "start (ph_life ?p) 0 (ph_dance ?p) (c, w) = after_go (ph_life ?p) 0 (ph_dance ?p) demo_cpod_run
    (c\<lparr>ct_child_pid := da_pid (ph_dance ?p), ct_phases := (ct_phases c)\<lparr>ph_namespace := da_namespace (ph_dance ?p), ph_idmap := da_idmap (ph_dance ?p)\<rparr>\<rparr>,
     w\<lparr>wo_child := Alive, wo_maps := ef\<rparr>)" using after_fork_goes [OF t mo, of 0 demo_cpod_run c] eq by metis
  obtain sk where sk: "reported (snd demo_cpod_run) = Some (init_report (0, 0, 0) sk)" using demo_cpod_reported by blast
  have k: "no_errors (lh_kernel (ph_life ?p))" by (simp add: demo_host_fields demo_no_errors)
  from after_go_runs [OF k demo_cpod_pipe [unfolded sk] sk, of 0] go obtain cw where
    st: "start (ph_life ?p) 0 (ph_dance ?p) (c, w) = (Inr 7, cw)" "wo_init (snd cw) = Alive" "wo_child (snd cw) = Alive"
    using demo_cpod_run by (fastforce simp: demo_host_fields)
  have "abind (create (ph_life ?p) 0 (0, 0, 0)) (\<lambda>_. start (ph_life ?p) 0 (ph_dance ?p)) demo_cpod_new = (Inr 7, cw)"
    by (simp add: abind_def cr(1) st(1))
  then show ?thesis using st(2,3)
    by (intro exI [of _ cw]) (simp add: container_start_def demo_cpod_config demo_containers_def demo_host_fields
      demo_cpod_new_def demo_new_def Let_def, simp add: demo_cpod_def dget_def fmlookup_of_list)
qed

definition demo_cpod_agent :: agent where
  "demo_cpod_agent = \<lparr>na_node = ''n'', na_handles = []\<rparr>"

theorem ended_container_stays_ready_witness:
  "\<exists>h r1 c w w'. container_start demo_cpod_host 0 demo_cpod demo_containers = (Inr h, r1)
     \<and> map_of (cr_containers r1) (h_pid h) = Some (c, w) \<and> w' = w\<lparr>wo_init := Gone (Exited 3), wo_child := Zombie (child_end ''G'' (Exited 3))\<rparr>
     \<and> probe_pod (container_rt demo_cpod_host 1) 1 (okey demo_cpod) demo_cpod h
         (demo_cpod_agent, r1\<lparr>cr_containers := [(7, (c, w'))]\<rparr>, ms_init 1)
       = (Inr None, (demo_cpod_agent, r1\<lparr>cr_containers := [(7, (c, w'))]\<rparr>, ms_init 1))"
proof -
  let ?h = "\<lparr>h_key = okey demo_cpod, h_started = 0, h_pid = 7, h_failed = False, h_ready_at = 0\<rparr>"
  obtain c w where cw: "container_start demo_cpod_host 0 demo_cpod demo_containers
      = (Inr ?h, demo_containers\<lparr>cr_fs := wo_fs w, cr_started := 1, cr_containers := [(7, (c, w))]\<rparr>)" "wo_init w = Alive" "wo_child w = Alive"
    using demo_cpod_started by force
  let ?r = "demo_containers\<lparr>cr_fs := wo_fs w, cr_started := 1, cr_containers := [(7, (c, w))]\<rparr>"
  let ?w = "w\<lparr>wo_init := Gone (Exited 3), wo_child := Zombie (child_end ''G'' (Exited 3))\<rparr>"
  have "env_step w (w\<lparr>wo_init := Zombie (Exited 3)\<rparr>)" by (rule workload_ends) (use cw in simp_all)
  moreover have "env_step (w\<lparr>wo_init := Zombie (Exited 3)\<rparr>) ?w"
    using child_reaps [of "w\<lparr>wo_init := Zombie (Exited 3)\<rparr>" "Exited 3"] cw by simp
  ultimately have "env_step\<^sup>*\<^sup>* w ?w" by (rule two_steps)
  then have g: "goes_on ?h ?r (?r\<lparr>cr_containers := [(7, (c, ?w))]\<rparr>)"
    unfolding goes_on_def by (intro exI [of _ c] exI [of _ w] exI [of _ ?w]) simp
  have p: "da_pid (ph_dance demo_cpod_host) \<noteq> 0" by (simp add: demo_host_fields)
  have ph: "phase_of demo_cpod = JStr READY" by (simp add: phase_of_def demo_cpod_def dget_def fmlookup_of_list)
  have t: "h_ready_at ?h \<le> 1" by simp
  from ended_container_stays_ready [OF cw(1) p g ph t, of 1 "okey demo_cpod" demo_cpod_agent "ms_init 1"] cw(1)
  show ?thesis by (intro exI [of _ ?h] exI [of _ ?r] exI [of _ c] exI [of _ w] exI [of _ ?w]) simp
qed

end
