(* ===== verification/Image_Copy.thy ===== *)
theory Image_Copy
  imports Image_Layer_Safety Image_Build
begin

text \<open>
  The file system half of the builder, \<open>modules/image-toolkit/imagekit/build.py\<close>: snapshots of a
  tree, the ignore patterns, the sources of a COPY and their hash, the copying itself, and the
  layer of a list of paths.  The build context, the staging roots and the rest of the host are one
  file system; a source tree is listed before it is copied.
\<close>

section \<open>Snapshots\<close>

datatype snap = SnapLink string | SnapDir int | SnapFile int int int

definition snap_of :: "fs \<Rightarrow> path \<Rightarrow> snap option" where
  \<comment> \<open>the entry of one path, none if it has vanished\<close>
  "snap_of fs p =
     (case stat_at fs False p of
        None \<Rightarrow> None
      | Some (FLink a t) \<Rightarrow> Some (SnapLink t)
      | Some (FDir a) \<Rightarrow> Some (SnapDir (fa_mode a mod 4096))
      | Some (FFile a d) \<Rightarrow> Some (SnapFile (fa_mode a mod 4096) (int (length d)) (fa_mtime a))
      | Some (FDev a) \<Rightarrow> Some (SnapFile (fa_mode a mod 4096) 0 (fa_mtime a)))"

definition snapshot :: "fs \<Rightarrow> path \<Rightarrow> (string, snap) fmap" where
  "snapshot fs base = fold (\<lambda>p out. case snap_of fs p of None \<Rightarrow> out | Some m \<Rightarrow> fmupd (rel_text (drop (length base) p)) m out)
     (concat (map (\<lambda>(dirpath, dirnames, filenames). map (\<lambda>name. dirpath @ [name]) (dirnames @ filenames)) (walk_tree fs base)))
     fmempty"

section \<open>Patterns\<close>

definition class_split :: "string \<Rightarrow> (string \<times> string) option" where
  \<comment> \<open>after an opening bracket: the class and what follows its closing bracket, which is not the first character\<close>
  "class_split s =
     (let neg = (if starts_with s ''!'' then 1 else 0);
          from = (if starts_with (drop neg s) '']'' then Suc neg else neg);
          body = takeWhile (\<lambda>c. c \<noteq> CHR '']'') (drop from s);
          j = from + length body
      in if length s \<le> j then None else Some (take j s, drop (Suc j) s))"

fun class_has :: "string \<Rightarrow> char \<Rightarrow> bool" where
  "class_has (a # b # c # rest) x =
     (if b = CHR ''-'' then (code_of a \<le> code_of x \<and> code_of x \<le> code_of c) \<or> class_has rest x
      else a = x \<or> class_has (b # c # rest) x)"
| "class_has (a # rest) x = (a = x \<or> class_has rest x)"
| "class_has [] x = False"

definition class_match :: "string \<Rightarrow> char \<Rightarrow> bool" where
  "class_match cl x = (if starts_with cl ''!'' then \<not> class_has (drop 1 cl) x else class_has cl x)"

function fnmatch :: "string \<Rightarrow> string \<Rightarrow> bool" where
  \<comment> \<open>\<open>fnmatch.fnmatch(name, pattern)\<close>; a star also matches slashes\<close>
  "fnmatch s [] = (s = [])"
| "fnmatch s (p # ps) =
     (if p = CHR ''*'' then fnmatch s ps \<or> (if s = [] then False else fnmatch (tl s) (p # ps))
      else if p = CHR ''?'' then s \<noteq> [] \<and> fnmatch (tl s) ps
      else if p = CHR ''['' then
        (case class_split ps of
           None \<Rightarrow> s \<noteq> [] \<and> hd s = p \<and> fnmatch (tl s) ps
         | Some (cl, rest) \<Rightarrow> s \<noteq> [] \<and> class_match cl (hd s) \<and> fnmatch (tl s) rest)
      else s \<noteq> [] \<and> hd s = p \<and> fnmatch (tl s) ps)"
  by pat_completeness auto
termination
  by (relation "measure (\<lambda>(s, p). length s + length p)")
     (auto simp: class_split_def Let_def neq_Nil_conv split: if_splits)

definition ignored :: "string list \<Rightarrow> string \<Rightarrow> bool" where
  \<comment> \<open>\<open>_ignored\<close>\<close>
  "ignored patterns rel = list_ex (\<lambda>pat. fnmatch rel pat \<or> starts_with rel (rstrip_char CHR ''/'' pat @ ''/'')) patterns"

definition has_magic :: "string \<Rightarrow> bool" where
  "has_magic s = list_ex (\<lambda>c. c = CHR ''*'' \<or> c = CHR ''?'' \<or> c = CHR ''['') s"

fun glob_from :: "fs \<Rightarrow> path \<Rightarrow> path \<Rightarrow> path list" where
  "glob_from fs cur [] = [cur]"
| "glob_from fs cur (c # cs) =
     (if has_magic c then
        concat (map (\<lambda>n. glob_from fs (cur @ [n]) cs)
          (filter (\<lambda>n. fnmatch n c \<and> (starts_with c ''.'' \<or> \<not> starts_with n ''.'')) (listdir fs cur)))
      else if lexists fs (cur @ [c]) then glob_from fs (cur @ [c]) cs else [])"

definition glob :: "fs \<Rightarrow> path \<Rightarrow> string \<Rightarrow> path list" where
  \<comment> \<open>\<open>sorted(glob.glob(os.path.join(base, pattern)))\<close>: the base is part of the pattern\<close>
  "glob fs base pat =
     sort_key rel_text (filter (\<lambda>p. \<not> ends_with pat ''/'' \<or> isdir fs p) (glob_from fs [] (base @ comps pat)))"

fun common_prefix :: "path \<Rightarrow> path \<Rightarrow> nat" where
  "common_prefix (x # xs) (y # ys) = (if x = y then Suc (common_prefix xs ys) else 0)"
| "common_prefix _ _ = 0"

definition relpath :: "path \<Rightarrow> path \<Rightarrow> string" where
  \<comment> \<open>\<open>os.path.relpath(p, base)\<close>\<close>
  "relpath p base =
     (let a = normal p; b = normal base; n = common_prefix a b;
          r = replicate (length b - n) ''..'' @ drop n a
      in if r = [] then ''.'' else rel_text r)"

section \<open>The sources of a COPY\<close>

definition host_view :: "fs \<Rightarrow> string \<Rightarrow> host_file option" where
  \<comment> \<open>what \<open>content_hash\<close> sees at an absolute path\<close>
  "host_view fs path =
     (case stat_at fs True (comps path) of
        Some (FFile a d) \<Rightarrow> Some \<lparr>hf_size = int (length d), hf_mtime_ns = fa_mtime a, hf_data = d\<rparr>
      | _ \<Rightarrow> None)"

definition abs_text :: "path \<Rightarrow> string" where
  "abs_text p = CHR ''/'' # rel_text p"

fun tree_text :: "sha \<Rightarrow> fs \<Rightarrow> (path \<Rightarrow> bool) \<Rightarrow> path \<Rightarrow> path list \<Rightarrow> (string, build_cache) act" where
  \<comment> \<open>what the files of a source directory contribute to the hash\<close>
  "tree_text sha fs skip base [] = aret []"
| "tree_text sha fs skip base (p # ps) =
     (if skip p then tree_text sha fs skip base ps
      else abind (content_hash sha (host_view fs) (abs_text p)) (\<lambda>h.
           abind (tree_text sha fs skip base ps) (\<lambda>rest. aret (relpath p base @ h @ rest))))"

definition tree_files :: "fs \<Rightarrow> path \<Rightarrow> path list" where
  \<comment> \<open>the files below a directory in the order of \<open>os.walk\<close> with sorted names\<close>
  "tree_files fs d = concat (map (\<lambda>(dirpath, dirnames, filenames). map (\<lambda>n. dirpath @ [n]) filenames) (walk_tree fs d))"

fun hash_text :: "sha \<Rightarrow> fs \<Rightarrow> (path \<Rightarrow> bool) \<Rightarrow> path \<Rightarrow> (string \<times> path) list \<Rightarrow> (string, build_cache) act" where
  "hash_text sha fs skip base [] = aret []"
| "hash_text sha fs skip base ((rel, p) # rest) =
     abind (if isdir fs p then tree_text sha fs skip base (tree_files fs p)
            else (case stat_at fs False p of
                    Some (FLink a t) \<Rightarrow> aret t
                  | _ \<Rightarrow> content_hash sha (host_view fs) (abs_text p))) (\<lambda>txt.
     abind (hash_text sha fs skip base rest) (\<lambda>more. aret (rel @ txt @ more)))"

fun match_sources :: "fs \<Rightarrow> (string \<Rightarrow> bool) \<Rightarrow> path \<Rightarrow> string list \<Rightarrow> (string \<times> path) list res" where
  "match_sources fs skip base [] = Inr []"
| "match_sources fs skip base (pat # pats) =
     (let ms = glob fs base (lstrip_char CHR ''/'' pat) in
      if ms = [] then Inl (BuildError (''COPY source not found: '' @ pat))
      else ebind (match_sources fs skip base pats) (\<lambda>rest.
           Inr (filter (\<lambda>(rel, p). \<not> skip rel) (map (\<lambda>m. (relpath m base, m)) ms) @ rest)))"

definition resolve_copy ::
  "sha \<Rightarrow> fs \<Rightarrow> path \<Rightarrow> string list \<Rightarrow> (string \<times> path) list \<Rightarrow> instruction
    \<Rightarrow> ((string \<times> path) list \<times> string, build_cache) act" where
  \<comment> \<open>\<open>_resolve_copy\<close>: the ignore patterns apply to the context only\<close>
  "resolve_copy sha fs ctx ignore stage_roots i =
     (let parts = py_split (in_args i) in
      if length parts < 2 then alift (Inl (BuildError (''COPY needs a source and a destination: '' @ in_args i)))
      else
        let from_stage = map_of (in_flags i) ''from'' in
        abind (alift (case from_stage of
                 None \<Rightarrow> Inr ctx
               | Some s \<Rightarrow> (case map_of stage_roots s of
                             Some r \<Rightarrow> Inr r
                           | None \<Rightarrow> Inl (BuildError (''COPY --from='' @ s @ '': no such stage''))))) (\<lambda>base.
        abind (alift (match_sources fs (\<lambda>rel. from_stage = None \<and> ignored ignore rel) base (butlast parts))) (\<lambda>resolved.
        abind (hash_text sha fs (\<lambda>p. from_stage = None \<and> ignored ignore (relpath p base)) base resolved) (\<lambda>txt.
        aret (resolved, sha (Raw txt))))))"

section \<open>Copying\<close>

definition copy2 :: "(bool \<Rightarrow> fattr) \<Rightarrow> path \<Rightarrow> path \<Rightarrow> (unit, fs) act" where
  \<comment> \<open>\<open>shutil.copy2\<close>: into a directory under the source's name; the mode and the time are copied\<close>
  "copy2 new src dst fs =
     (case stat_at fs True src of
        Some (FFile a d) \<Rightarrow>
          (let t = (if isdir fs dst then dst @ [last src] else dst) in
           abind (write_file new t d) (\<lambda>_. on_node True t (\<lambda>q n fs.
             case n of Some (FFile b e) \<Rightarrow> (Inr (), fmupd q (FFile (b\<lparr>fa_mode := fa_mode a, fa_mtime := fa_mtime a\<rparr>) e) fs)
             | _ \<Rightarrow> (Inl (FileNotFoundError (rel_text t)), fs))) fs)
      | Some (FDir a) \<Rightarrow> (Inl (OSError ''Is a directory''), fs)
      | Some (FDev a) \<Rightarrow> (Inl (OSError ''No such device or address''), fs)
      | _ \<Rightarrow> (Inl (FileNotFoundError (rel_text src)), fs))"

definition copy_file :: "(bool \<Rightarrow> fattr) \<Rightarrow> path \<Rightarrow> path \<Rightarrow> (unit, fs) act" where
  \<comment> \<open>\<open>_copy_file\<close>\<close>
  "copy_file new src dst =
     abind (makedirs new (butlast dst)) (\<lambda>_ fs.
       case stat_at fs False src of
         Some (FLink a t) \<Rightarrow>
           abind (\<lambda>fs. if lexists fs dst then fs_unlink dst fs else (Inr (), fs)) (\<lambda>_. fs_symlink new t dst) fs
       | _ \<Rightarrow> copy2 new src dst fs)"

fun make_parents :: "(bool \<Rightarrow> fattr) \<Rightarrow> path \<Rightarrow> string list \<Rightarrow> (string list, fs) act" where
  \<comment> \<open>the missing ancestors of the destination, created and recorded\<close>
  "make_parents new rootfs [] = aret []"
| "make_parents new rootfs (p # ps) =
     (\<lambda>fs. if path_exists fs (under rootfs p) then make_parents new rootfs ps fs
           else abind (makedirs new (under rootfs p)) (\<lambda>_.
                abind (make_parents new rootfs ps) (\<lambda>w. aret (p # w))) fs)"

fun copy_entries :: "(bool \<Rightarrow> fattr) \<Rightarrow> path \<Rightarrow> (path \<times> string) list \<Rightarrow> (string list, fs) act" where
  \<comment> \<open>the entries of a source directory, each with its path in the image\<close>
  "copy_entries new rootfs [] = aret []"
| "copy_entries new rootfs ((child, child_rel) # rest) =
     abind (\<lambda>fs. if isdir fs child \<and> \<not> islink fs child then makedirs new (under rootfs child_rel) fs
                 else copy_file new child (under rootfs child_rel) fs) (\<lambda>_.
     abind (copy_entries new rootfs rest) (\<lambda>w. aret (child_rel # w)))"

definition dir_entries :: "fs \<Rightarrow> (path \<Rightarrow> bool) \<Rightarrow> path \<Rightarrow> string \<Rightarrow> (path \<times> string) list" where
  \<comment> \<open>the walk over a source directory, without the ignored entries; it is taken before the copying, so the
    destination is meant to lie outside the source\<close>
  "dir_entries fs skip p dest_rel =
     map (\<lambda>child. (child, path_join dest_rel (relpath child p)))
       (filter (\<lambda>child. \<not> skip child)
         (concat (map (\<lambda>(dirpath, dirnames, filenames). map (\<lambda>n. dirpath @ [n]) (dirnames @ filenames)) (walk_tree fs p))))"

fun copy_sources ::
  "(bool \<Rightarrow> fattr) \<Rightarrow> path \<Rightarrow> (path \<Rightarrow> bool) \<Rightarrow> bool \<Rightarrow> string \<Rightarrow> (string \<times> path) list \<Rightarrow> (string list, fs) act" where
  "copy_sources new rootfs skip dest_is_dir dest_rel [] = aret []"
| "copy_sources new rootfs skip dest_is_dir dest_rel ((rel, p) # rest) =
     abind (\<lambda>fs. if isdir fs p
            then abind (copy_entries new rootfs (dir_entries fs skip p dest_rel))
                   (\<lambda>w. aret (w @ (if dest_rel \<noteq> [] then [dest_rel] else []))) fs
            else (let archive_rel = (if dest_is_dir then path_join dest_rel (snd (path_split rel)) else dest_rel) in
                  abind (copy_file new p (under rootfs archive_rel)) (\<lambda>_. aret [archive_rel]) fs)) (\<lambda>w.
     abind (copy_sources new rootfs skip dest_is_dir dest_rel rest) (\<lambda>ws. aret (w @ ws)))"

definition copy_dest :: "image_config \<Rightarrow> instruction \<Rightarrow> string" where
  \<comment> \<open>the destination relative to the root\<close>
  "copy_dest c i =
     (let dest = last (py_split (in_args i)) in
      lstrip_char CHR ''/'' (if starts_with dest ''/'' then dest else path_join (ic_working_dir c) dest))"

definition do_copy ::
  "(bool \<Rightarrow> fattr) \<Rightarrow> path \<Rightarrow> string list \<Rightarrow> path \<Rightarrow> image_config \<Rightarrow> instruction \<Rightarrow> (string \<times> path) list
    \<Rightarrow> (string list, fs) act" where
  "do_copy new ctx ignore rootfs c i sources fs =
     (let dest = last (py_split (in_args i));
          dest_rel = copy_dest c i;
          dest_is_dir = (ends_with dest ''/'' \<or> 1 < length sources \<or> list_ex (\<lambda>(rel, p). isdir fs p) sources
            \<or> isdir fs (under rootfs dest_rel));
          from_ctx = (map_of (in_flags i) ''from'' = None)
      in abind (make_parents new rootfs (parents (if dest_is_dir then dest_rel else fst (path_split dest_rel)))) (\<lambda>w1.
         abind (copy_sources new rootfs (\<lambda>child. from_ctx \<and> ignored ignore (relpath child ctx)) dest_is_dir dest_rel sources) (\<lambda>w2.
         aret (sort (remdups (w1 @ w2))))) fs)"

definition copy_labels :: "instruction \<Rightarrow> image_config \<Rightarrow> image_config" where
  \<comment> \<open>the label that records \<open>--chown\<close>\<close>
  "copy_labels i c =
     (case map_of (in_flags i) ''chown'' of
        None \<Rightarrow> c
      | Some who \<Rightarrow>
          if who = [] then c
          else let k = ''imagekit.chown.'' @ replace_char CHR ''/'' CHR ''_'' (copy_dest c i) in
            if fmlookup (ic_labels c) k = None then c\<lparr>ic_labels := fmupd k (JStr who) (ic_labels c)\<rparr> else c)"

definition layer_from_paths ::
  "sha \<Rightarrow> (blob \<Rightarrow> nat) \<Rightarrow> (int \<Rightarrow> string) \<Rightarrow> rat \<Rightarrow> nat \<Rightarrow> bool \<Rightarrow> fs \<Rightarrow> path \<Rightarrow> string list \<Rightarrow> string list \<Rightarrow> layer res" where
  "layer_from_paths sha blen who now level deterministic fs rootfs paths whiteouts =
     make_layer sha blen who now fs True level deterministic
       (map (\<lambda>p. (p, under rootfs p)) (filter (\<lambda>p. lexists fs (under rootfs p)) (sort (remdups paths)))) whiteouts"

section \<open>Paths that leave the context and the root\<close>

definition demo_copy_tree :: "(path \<times> fnode) list" where
  "demo_copy_tree = [([], FDir (demo_attr 0)), ([''ctx''], FDir (demo_attr 0)), ([''s''], FFile (demo_attr 0) ''top''),
     ([''r''], FDir (demo_attr 0))]"

definition demo_copy :: instruction where
  "demo_copy = \<lparr>in_op = ''COPY'', in_args = ''../s /../x'', in_flags = [], in_line = 1\<rparr>"

text \<open>A COPY whose source and destination start with two dots reads beside the context and writes beside the root.\<close>

theorem copy_escapes:
  "match_sources (fmap_of_list demo_copy_tree) (\<lambda>_. False) [''ctx''] [''../s''] = Inr [(''../s'', [''ctx'', ''..'', ''s''])]
    \<and> (case do_copy (\<lambda>_. demo_attr 0) [''ctx''] [] [''r''] new_config demo_copy [(''../s'', [''ctx'', ''..'', ''s''])]
         (fmap_of_list demo_copy_tree) of
        (r, fs) \<Rightarrow> r = Inr [''../x''] \<and> fmlookup fs [''x''] = Some (FFile (demo_attr 0) ''top''))"
  by code_simp

end
