(* ===== verification/Image_Builder.thy ===== *)
theory Image_Builder
  imports Image_Copy
begin

text \<open>
  The builder, \<open>modules/image-toolkit/imagekit/build.py\<close>: commands on the host, the start of a
  stage, one instruction (from the cache or executed), the whole build, and its report.  The state is
  the host's file system and the \<open>builder\<close> (store, cache, configuration and layers of the current
  stage); the parameters of a build are a record.
\<close>

section \<open>State and parameters\<close>

record build_state =
  bs_fs :: fs
  bs_builder :: builder
  bs_saved :: "json option"

type_synonym executor = "string \<Rightarrow> path \<Rightarrow> (string \<times> string) list \<Rightarrow> string \<Rightarrow> string \<Rightarrow> (unit, fs) act"

record build_env =
  be_sha :: sha
  be_blen :: "blob \<Rightarrow> nat"
  be_who :: "int \<Rightarrow> string"
  be_now :: rat
  be_elapsed :: "instruction \<Rightarrow> rat"
  be_new :: "bool \<Rightarrow> fattr"
  be_level :: nat
  be_deterministic :: bool
  be_executor :: executor
  be_context :: path
  be_ignore :: "string list"
  be_workdir_root :: path
  be_jarr :: "string \<Rightarrow> string list res"
  be_shsplit :: "string \<Rightarrow> string list res"

definition on_fs :: "('a, fs) act \<Rightarrow> ('a, build_state) act" where
  "on_fs m s = (case m (bs_fs s) of (r, f) \<Rightarrow> (r, s\<lparr>bs_fs := f\<rparr>))"

definition on_builder :: "('a, builder) act \<Rightarrow> ('a, build_state) act" where
  "on_builder m s = (case m (bs_builder s) of (r, b) \<Rightarrow> (r, s\<lparr>bs_builder := b\<rparr>))"

definition on_cache :: "('a, build_cache) act \<Rightarrow> ('a, build_state) act" where
  "on_cache m = on_builder (\<lambda>b. case m (bd_cache b) of (r, c) \<Rightarrow> (r, b\<lparr>bd_cache := c\<rparr>))"

section \<open>Commands on the host\<close>

definition host_run ::
  "(string list \<Rightarrow> path \<Rightarrow> (string \<times> string) list \<Rightarrow> (int \<times> string \<times> string, fs) act) \<Rightarrow> (bool \<Rightarrow> fattr) \<Rightarrow> string list
    \<Rightarrow> executor" where
  \<comment> \<open>\<open>HostExecutor.run\<close>; the first argument is \<open>subprocess.run\<close>\<close>
  "host_run proc new shell command rootfs env workdir user =
     (let cwd = under rootfs (lstrip_char CHR ''/'' workdir);
          merged = AList.update ''IMAGEKIT_ROOTFS'' (abs_text rootfs)
            (env_update env [(''PATH'', ''/usr/local/bin:/usr/bin:/bin''), (''HOME'', ''/root'')])
      in abind (makedirs new cwd) (\<lambda>_.
         abind (proc (shell @ [command]) cwd merged) (\<lambda>(returncode, out, err).
         if returncode \<noteq> 0 then
           alift (Inl (BuildError (''RUN failed (exit '' @ str_int returncode @ ''): '' @ command @ [LF]
             @ ''--- stdout ---'' @ [LF] @ out @ [LF] @ ''--- stderr ---'' @ [LF] @ err)))
         else aret ())))"

section \<open>One instruction\<close>

definition metadata_ops :: "string list" where
  "metadata_ops = [''ENV'', ''ARG'', ''WORKDIR'', ''USER'', ''ENTRYPOINT'', ''CMD'', ''EXPOSE'', ''LABEL'', ''HEALTHCHECK'', ''STOPSIGNAL'']"

definition usable_now :: "string \<Rightarrow> (dict option, build_state) act" where
  "usable_now key s = (cached_usable key (bs_builder s), s)"

definition replay_layer :: "build_env \<Rightarrow> path \<Rightarrow> dict \<Rightarrow> instruction \<Rightarrow> (descriptor, build_state) act" where
  \<comment> \<open>a cache hit: the stored layer is applied to the root and recorded\<close>
  "replay_layer e rootfs cached i =
     abind (\<lambda>s. (ebind (jitem cached ''digest'') (\<lambda>x. ebind (jstr x) (\<lambda>dg. get_blob (be_sha e) (bd_store (bs_builder s)) dg)), s)) (\<lambda>b.
     abind (on_fs (extract_layer (be_new e) b rootfs True)) (\<lambda>_.
     on_builder (record_cached cached i)))"

definition store_layer ::
  "build_env \<Rightarrow> path \<Rightarrow> string \<Rightarrow> string list \<Rightarrow> string list \<Rightarrow> instruction \<Rightarrow> (descriptor, build_state) act" where
  \<comment> \<open>the layer of the paths as they are now, stored, cached and recorded\<close>
  "store_layer e rootfs key paths whiteouts i =
     abind (\<lambda>s. (layer_from_paths (be_sha e) (be_blen e) (be_who e) (be_now e) (be_level e) (be_deterministic e)
              (bs_fs s) rootfs paths whiteouts, s)) (\<lambda>l.
     on_builder (record_layer (be_sha e) (be_blen e) key l i))"

definition run_copy ::
  "build_env \<Rightarrow> path \<Rightarrow> (string \<times> path) list \<Rightarrow> string \<Rightarrow> instruction \<Rightarrow> (string \<times> descriptor option, build_state) act" where
  "run_copy e rootfs stage_roots parent_key i =
     abind (\<lambda>s. on_cache (resolve_copy (be_sha e) (bs_fs s) (be_context e) (be_ignore e) stage_roots i) s) (\<lambda>(sources, input_hash).
     let key = chain_key (be_sha e) parent_key (instr_text i) input_hash in
     abind (usable_now key) (\<lambda>cached.
     abind (case cached of
              Some d \<Rightarrow> replay_layer e rootfs d i
            | None \<Rightarrow>
                abind (\<lambda>s. on_fs (do_copy (be_new e) (be_context e) (be_ignore e) rootfs (bd_config (bs_builder s)) i sources) s) (\<lambda>written.
                abind (on_builder (\<lambda>b. (Inr (), b\<lparr>bd_config := copy_labels i (bd_config b)\<rparr>))) (\<lambda>_.
                store_layer e rootfs key written [] i))) (\<lambda>d.
     aret (key, Some d))))"

definition run_command ::
  "build_env \<Rightarrow> path \<Rightarrow> string \<Rightarrow> instruction \<Rightarrow> (string \<times> descriptor option, build_state) act" where
  "run_command e rootfs parent_key i =
     (let key = chain_key (be_sha e) parent_key (instr_text i) [] in
      abind (usable_now key) (\<lambda>cached.
      abind (case cached of
               Some d \<Rightarrow> replay_layer e rootfs d i
             | None \<Rightarrow>
                 abind (\<lambda>s. (Inr (snapshot (bs_fs s) rootfs), s)) (\<lambda>before.
                 abind (\<lambda>s. let c = bd_config (bs_builder s) in
                    on_fs (be_executor e (in_args i) rootfs (ic_env c) (ic_working_dir c) (ic_user c)) s) (\<lambda>_ s.
                 case diff_snapshots before (snapshot (bs_fs s) rootfs) of
                   (changed, removed) \<Rightarrow> store_layer e rootfs key changed removed i s))) (\<lambda>d.
      aret (key, Some d))))"

definition apply_instruction ::
  "build_env \<Rightarrow> path \<Rightarrow> (string \<times> path) list \<Rightarrow> string \<Rightarrow> instruction \<Rightarrow> (string \<times> descriptor option, build_state) act" where
  \<comment> \<open>\<open>_apply\<close>\<close>
  "apply_instruction e rootfs stage_roots parent_key i =
     (if in_op i \<in> set metadata_ops then
        abind (on_builder (metadata_step (be_jarr e) (be_shsplit e) (be_sha e) parent_key i)) (\<lambda>key. aret (key, None))
      else if in_op i = ''COPY'' then run_copy e rootfs stage_roots parent_key i
      else if in_op i = ''RUN'' then run_command e rootfs parent_key i
      else alift (Inl (BuildError (''unhandled instruction '' @ in_op i))))"

section \<open>The build\<close>

definition init_stage :: "build_env \<Rightarrow> stage \<Rightarrow> path \<Rightarrow> (string, build_state) act" where
  \<comment> \<open>\<open>_init_stage\<close>: the configuration and the layers the stage starts from, and its first cache key\<close>
  "init_stage e st rootfs =
     (if sg_base st = ''scratch'' \<or> sg_base st = ''SCRATCH'' then
        abind (on_builder (\<lambda>b. (Inr (), b\<lparr>bd_config := new_config, bd_layers := []\<rparr>))) (\<lambda>_. aret ''scratch'')
      else
        abind (\<lambda>s. (get_manifest (be_sha e) (bd_store (bs_builder s)) (sg_base st), s)) (\<lambda>m.
        abind (\<lambda>s. (get_config (be_sha e) (bd_store (bs_builder s)) (sg_base st), s)) (\<lambda>c.
        abind (\<lambda>s. on_fs (unpack_image (be_sha e) (be_new e) (bd_store (bs_builder s)) (sg_base st) rootfs) s) (\<lambda>_.
        abind (on_builder (\<lambda>b. (Inr (), b\<lparr>bd_config := config_copy c, bd_layers := mf_layers m\<rparr>))) (\<lambda>_.
        aret (d_digest (snd (manifest_serialise (be_sha e) (be_blen e) m))))))))"

fun run_instructions ::
  "build_env \<Rightarrow> path \<Rightarrow> (string \<times> path) list \<Rightarrow> string \<Rightarrow> instruction list \<Rightarrow> (step_result list, build_state) act" where
  "run_instructions e rootfs stage_roots key [] = aret []"
| "run_instructions e rootfs stage_roots key (i # is) =
     abind (apply_instruction e rootfs stage_roots key i) (\<lambda>(key', d).
     abind (run_instructions e rootfs stage_roots key' is) (\<lambda>rest.
     aret (step_result_of i d (be_elapsed e i) # rest)))"

definition stage_root :: "build_env \<Rightarrow> string \<Rightarrow> stage \<Rightarrow> path" where
  "stage_root e ref st = under (be_workdir_root e) (replace_char CHR '':'' CHR ''_'' ref @ ''-'' @ stage_label st)"

definition note_stage :: "stage \<Rightarrow> path \<Rightarrow> (string \<times> path) list \<Rightarrow> (string \<times> path) list" where
  \<comment> \<open>a stage is known by its label, by its name and by its index\<close>
  "note_stage st rootfs roots =
     AList.update (str_nat (sg_index st)) rootfs
       ((case sg_name st of Some (c # cs) \<Rightarrow> AList.update (c # cs) rootfs | _ \<Rightarrow> id)
         (AList.update (stage_label st) rootfs roots))"

definition run_stage ::
  "build_env \<Rightarrow> string \<Rightarrow> (string \<times> path) list \<Rightarrow> stage \<Rightarrow> (step_result list, build_state) act" where
  \<comment> \<open>the body of the loop of \<open>build\<close>, in a fresh root\<close>
  "run_stage e ref stage_roots st =
     (let rootfs = stage_root e ref st in
      abind (on_fs (\<lambda>fs. if path_exists fs rootfs then rmtree rootfs fs else (Inr (), fs))) (\<lambda>_.
      abind (on_fs (makedirs (be_new e) rootfs)) (\<lambda>_.
      abind (init_stage e st rootfs) (\<lambda>key.
      run_instructions e rootfs stage_roots key (sg_instructions st)))))"

fun run_stages ::
  "build_env \<Rightarrow> string \<Rightarrow> (string \<times> path) list \<Rightarrow> stage list \<Rightarrow> (step_result list, build_state) act" where
  "run_stages e ref stage_roots [] = aret []"
| "run_stages e ref stage_roots (st # sts) =
     abind (run_stage e ref stage_roots st) (\<lambda>steps.
     abind (run_stages e ref (note_stage st (stage_root e ref st) stage_roots) sts) (\<lambda>rest.
     aret (steps @ rest)))"

definition build :: "build_env \<Rightarrow> string \<Rightarrow> string \<Rightarrow> (build_result \<times> lint_finding list, build_state) act" where
  "build e dockerfile_text ref =
     abind (alift (parse_dockerfile dockerfile_text)) (\<lambda>stages.
     abind (on_fs (makedirs (be_new e) (be_workdir_root e))) (\<lambda>_.
     abind (run_stages e ref [] stages) (\<lambda>steps.
     if stages = [] then alift (Inl (AssertionError []))
     else
       abind (on_builder (finalise (be_sha e) (be_blen e) ref)) (\<lambda>m.
       abind (\<lambda>s. (Inr (), s\<lparr>bs_saved := Some (cache_json (bd_cache (bs_builder s)))\<rparr>)) (\<lambda>_ s.
       let r = \<lparr>br_reference = ref, br_manifest = m, br_config = bd_config (bs_builder s), br_steps = steps,
                br_stages_built = length stages\<rparr>
       in (Inr (r, lint r), s))))))"

section \<open>The report\<close>

definition round_even :: "rat \<Rightarrow> int" where
  \<comment> \<open>to the nearest integer, ties to even\<close>
  "round_even r =
     (let f = r - of_int \<lfloor>r\<rfloor> in
      if f < 1 / 2 then \<lfloor>r\<rfloor> else if 1 / 2 < f then \<lfloor>r\<rfloor> + 1 else if even \<lfloor>r\<rfloor> then \<lfloor>r\<rfloor> else \<lfloor>r\<rfloor> + 1)"

definition one_decimal :: "rat \<Rightarrow> string" where
  \<comment> \<open>\<open>f"{r:.1f}"\<close> of a non-negative number\<close>
  "one_decimal r = (let n = round_even (r * 10) in str_int (n div 10) @ ''.'' @ str_int (n mod 10))"

fun human_unit :: "rat \<Rightarrow> string list \<Rightarrow> string" where
  "human_unit n [] = one_decimal n @ '' GB''"
| "human_unit n (u # us) =
     (if \<bar>n\<bar> < 1024 \<or> u = ''GB''
      then (if u = ''B'' then str_int (round_even n) @ '' B'' else one_decimal n @ '' '' @ u)
      else human_unit (n / 1024) us)"

definition human :: "int \<Rightarrow> string" where
  "human n = human_unit (of_int n) [''B'', ''KB'', ''MB'', ''GB'']"

definition list_text :: "nat list \<Rightarrow> string" where
  "list_text xs = ''['' @ join '', '' (map str_nat xs) @ '']''"

fun lint_text :: "lint_finding \<Rightarrow> string" where
  "lint_text RunsAsRoot = ''image runs as root: no USER instruction (a compromised handler owns the container)''"
| "lint_text NoHealthcheck = ''no HEALTHCHECK: an orchestrator cannot tell 'process alive' from 'model loaded'' @ [CHR 0x27]"
| "lint_text ShellEntrypoint = ''shell-form ENTRYPOINT: PID 1 is /bin/sh, which does not forward SIGTERM -- every shutdown becomes a 10s SIGKILL timeout''"
| "lint_text NotRunnable = ''no ENTRYPOINT or CMD: image is not runnable''"
| "lint_text (BehindSmaller i n js) = ''layer '' @ str_nat i @ '' ('' @ human n @ '') sits behind smaller layer(s) '' @ list_text js
     @ '': editing any of those invalidates this one too, re-pushing '' @ human n
     @ '' for a source-code change. Copy weights before code.''"

definition summary :: "build_result \<Rightarrow> lint_finding list \<Rightarrow> string" where
  "summary r findings = join [LF]
     ([br_reference r @ ''  '' @ str_nat (length (mf_layers (br_manifest r))) @ '' layers  '' @ human (br_image_size r),
       ''  cache: '' @ str_nat (cache_hits r) @ ''/'' @ str_nat (length (layer_steps r)) @ '' layer steps hit, ''
         @ human (bytes_rebuilt r) @ '' rebuilt'']
      @ map (\<lambda>f. ''  lint: '' @ lint_text f) findings)"

end
