(* ===== verification/Image_Builder_Props.thy ===== *)
theory Image_Builder_Props
  imports Image_Builder
begin

text \<open>
  What the builder guarantees: the walk over a tree finds every entry once, so a snapshot is exactly the
  tree's metadata; a RUN taken from the cache leaves the tree the command left; layers, diff_ids
  and history stay aligned through every instruction; and where cached and fresh steps differ.
\<close>

section \<open>Walking a tree\<close>

lemma entry_names_set: "set (entry_names fs d) = {c. \<exists>x. fmlookup fs (d @ [c]) = Some x}"
proof -
  have "c \<in> set (entry_names fs d) \<longleftrightarrow> (\<exists>p. p \<noteq> [] \<and> butlast p = d \<and> last p = c \<and> p |\<in>| fmdom fs)" for c
    by (auto simp: entry_names_def sorted_list_of_fset.rep_eq image_iff)
  also have "\<dots> c \<longleftrightarrow> (\<exists>x. fmlookup fs (d @ [c]) = Some x)" for c
    by (metis append_butlast_last_id butlast_snoc fmdomE fmdomI last_snoc snoc_eq_iff_butlast)
  finally show ?thesis by blast
qed

lemma entry_names_distinct: "distinct (entry_names fs d)"
  by (simp add: entry_names_def sorted_list_of_fset.rep_eq)

lemma listdir_real:
  assumes "fs_wf fs" "fmlookup fs d = Some (FDir a)"
  shows "listdir fs d = entry_names fs d" "isdir fs d"
proof -
  note ca = wf_clear_above [OF assms]
  have r: "resolve fs True d = Inr d"
    by (rule resolve_real) (use fs_wf_nodeD [OF assms] assms(2) in auto)
  then show "listdir fs d = entry_names fs d" "isdir fs d"
    using assms(2) by (simp_all add: listdir_def isdir_def stat_at_def)
qed

definition walk_paths :: "(path \<times> string list \<times> string list) list \<Rightarrow> path list" where
  \<comment> \<open>the entries of a walk\<close>
  "walk_paths w = concat (map (\<lambda>(dirpath, dirnames, filenames). map (\<lambda>name. dirpath @ [name]) (dirnames @ filenames)) w)"

lemma walk_paths_simps [simp]:
  "walk_paths [] = []" "walk_paths ((d, ds, fl) # w) = map (\<lambda>n. d @ [n]) (ds @ fl) @ walk_paths w"
  "walk_paths (u @ w) = walk_paths u @ walk_paths w"
  "walk_paths (concat us) = concat (map walk_paths us)"
  by (simp_all add: walk_paths_def) (induction us, auto simp: walk_paths_def)

lemma descends:
  assumes "fs_wf fs" "fmlookup fs (d @ [x]) = Some n"
  shows "isdir fs (d @ [x]) \<and> \<not> islink fs (d @ [x]) \<longleftrightarrow> is_fdir (Some n)"
proof -
  note st = stat_clear [OF assms(1) wf_clear_above [OF assms]]
  show ?thesis
    using st assms(2) by (cases n) (auto simp: isdir_def islink_def)
qed

lemma os_walk_covers:
  assumes "fs_wf fs" "fmlookup fs d = Some (FDir a)" "\<And>k x. fmlookup fs k = Some x \<Longrightarrow> at_or_below d k \<Longrightarrow> length k < length d + n"
  shows "set (walk_paths (os_walk n fs d)) = {k. at_or_below d k \<and> k \<noteq> d \<and> fmlookup fs k \<noteq> None}"
  using assms(2,3)
proof (induction n arbitrary: d a)
  case 0
  then have False using "0.prems"(2) [OF "0.prems"(1)] by (simp add: at_or_below_def)
  then show ?case ..
next
  case (Suc n)
  let ?ns = "entry_names fs d"
  let ?ds = "filter (\<lambda>x. isdir fs (d @ [x])) ?ns"
  note ld = listdir_real [OF assms(1) Suc.prems(1)]
  have w: "os_walk (Suc n) fs d = (d, ?ds, filter (\<lambda>x. \<not> isdir fs (d @ [x])) ?ns)
      # concat (map (\<lambda>x. if islink fs (d @ [x]) then [] else os_walk n fs (d @ [x])) ?ds)"
    using ld by (simp add: Let_def)
  have sub: "set (walk_paths (if islink fs (d @ [x]) then [] else os_walk n fs (d @ [x])))
      = {k. at_or_below (d @ [x]) k \<and> k \<noteq> d @ [x] \<and> fmlookup fs k \<noteq> None}" if x: "x \<in> set ?ds" for x
  proof -
    obtain m where m: "fmlookup fs (d @ [x]) = Some m" using x by (auto simp: entry_names_set)
    show ?thesis
    proof (cases "is_fdir (Some m)")
      case True
      then obtain b where b: "fmlookup fs (d @ [x]) = Some (FDir b)" using m by (cases m) auto
      have "\<not> islink fs (d @ [x])" using descends [OF assms(1) m] True by simp
      moreover have "set (walk_paths (os_walk n fs (d @ [x]))) = {k. at_or_below (d @ [x]) k \<and> k \<noteq> d @ [x] \<and> fmlookup fs k \<noteq> None}"
      proof (rule Suc.IH [OF b])
        fix k y assume "fmlookup fs k = Some y" "at_or_below (d @ [x]) k"
        then show "length k < length (d @ [x]) + n"
          using Suc.prems(2) [of k y] by (auto simp: at_or_below_append)
      qed
      ultimately show ?thesis by simp
    next
      case False
      then have "islink fs (d @ [x])" using descends [OF assms(1) m] x by auto
      moreover have "{k. at_or_below (d @ [x]) k \<and> k \<noteq> d @ [x] \<and> fmlookup fs k \<noteq> None} = {}"
      proof -
        have "k = d @ [x]" if k: "at_or_below (d @ [x]) k" "fmlookup fs k \<noteq> None" for k
          by (rule ccontr) (use wf_no_descendant [OF assms(1) _ k(1)] False m k(2) in simp)
        then show ?thesis by blast
      qed
      ultimately show ?thesis by simp
    qed
  qed
  have "set (walk_paths (os_walk (Suc n) fs d))
      = (\<lambda>x. d @ [x]) ` set ?ns \<union> (\<Union>x \<in> set ?ds. {k. at_or_below (d @ [x]) k \<and> k \<noteq> d @ [x] \<and> fmlookup fs k \<noteq> None})"
    unfolding w using sub by (auto simp: image_iff)
  also have "\<dots> = {k. at_or_below d k \<and> k \<noteq> d \<and> fmlookup fs k \<noteq> None}"
  proof (intro equalityI subsetI)
    fix k assume k: "k \<in> {k. at_or_below d k \<and> k \<noteq> d \<and> fmlookup fs k \<noteq> None}"
    then obtain x r where xr: "k = (d @ [x]) @ r" by (cases "drop (length d) k") (auto simp: at_or_below_append)
    show "k \<in> (\<lambda>x. d @ [x]) ` set ?ns \<union> (\<Union>x \<in> set ?ds. {k. at_or_below (d @ [x]) k \<and> k \<noteq> d @ [x] \<and> fmlookup fs k \<noteq> None})"
    proof (cases "r = []")
      case True
      then show ?thesis using k xr by (auto simp: entry_names_set)
    next
      case False
      obtain y where y: "fmlookup fs k = Some y" using k by auto
      have "is_fdir (fmlookup fs (take (length (d @ [x])) k))"
        by (rule fs_wf_nodeD(2) [OF assms(1) y]) (use xr False in auto)
      then obtain b where b: "fmlookup fs (d @ [x]) = Some (FDir b)" by (auto simp: xr elim: is_fdirE)
      then have "x \<in> set ?ds" using descends [OF assms(1) b] by (auto simp: entry_names_set)
      then show ?thesis using k xr False by (auto simp: at_or_below_append)
    qed
  qed (auto simp: entry_names_set at_or_below_append)
  finally show ?case .
qed

lemma fs_depth_bound: "fmlookup fs k = Some x \<Longrightarrow> length k < fs_depth fs"
proof -
  assume "fmlookup fs k = Some x"
  then have "length k \<in> set (map length (sorted_list_of_fset (fmdom fs)))"
    by (auto simp: sorted_list_of_fset.rep_eq fmlookup_dom_iff)
  moreover have "n \<in> set ns \<Longrightarrow> n \<le> foldr max ns 0" for n :: nat and ns by (induction ns) auto
  ultimately show ?thesis unfolding fs_depth_def by (meson le_imp_less_Suc)
qed

lemma walk_tree_covers:
  assumes "fs_wf fs" "fmlookup fs d = Some (FDir a)"
  shows "set (walk_paths (walk_tree fs d)) = {k. at_or_below d k \<and> k \<noteq> d \<and> fmlookup fs k \<noteq> None}"
  unfolding walk_tree_def
  by (rule os_walk_covers [OF assms]) (use fs_depth_bound in \<open>fastforce dest: trans_less_add2\<close>)

section \<open>Snapshots\<close>

lemma snap_fold:
  assumes that: "list_all proper_name q" and "\<And>p. p \<in> set ps \<Longrightarrow> \<exists>r. p = base @ r \<and> list_all proper_name r"
  shows "fmlookup (fold (\<lambda>p out. case snap_of fs p of None \<Rightarrow> out | Some m \<Rightarrow> fmupd (rel_text (drop (length base) p)) m out) ps out) (rel_text q)
    = (if list_all proper_name q \<and> base @ q \<in> set ps \<and> snap_of fs (base @ q) \<noteq> None then snap_of fs (base @ q)
       else fmlookup out (rel_text q))"
  using assms(2)
proof (induction ps arbitrary: out)
  case (Cons p ps)
  obtain r where r: "p = base @ r" "list_all proper_name r" using Cons.prems [of p] by auto
  have e: "rel_text r = rel_text q \<longleftrightarrow> r = q" by (rule rel_text_inject [OF r(2) that])
  show ?case using Cons that r e by (auto split: option.splits)
qed simp

lemma snap_of_node:
  assumes "fs_wf fs" "fmlookup fs p = Some n"
  shows "\<exists>m. snap_of fs p = Some m"
proof -
  have "stat_at fs False p = Some n" using stat_clear(1) [OF assms(1) wf_clear_above [OF assms]] assms(2) by simp
  then show ?thesis by (cases n) (simp_all add: snap_of_def)
qed

lemma snapshot_lookup:
  assumes "fs_wf fs" "fmlookup fs base = Some (FDir a)" "list_all proper_name q"
  shows "fmlookup (snapshot fs base) (rel_text q) = (if q \<noteq> [] \<and> fmlookup fs (base @ q) \<noteq> None then snap_of fs (base @ q) else None)"
proof -
  have w: "base @ q \<in> set (walk_paths (walk_tree fs base)) \<longleftrightarrow> q \<noteq> [] \<and> fmlookup fs (base @ q) \<noteq> None"
    using walk_tree_covers [OF assms(1,2)] by (auto simp: at_or_below_append)
  have "\<exists>r. p = base @ r \<and> list_all proper_name r" if "p \<in> set (walk_paths (walk_tree fs base))" for p
  proof -
    have p: "at_or_below base p" "fmlookup fs p \<noteq> None" using that walk_tree_covers [OF assms(1,2)] by auto
    then obtain r y where "p = base @ r" "fmlookup fs p = Some y" by (auto simp: at_or_below_append)
    moreover from this have "list_all proper_name (base @ r)" using fs_wf_nodeD(1) [OF assms(1)] by blast
    ultimately show ?thesis by auto
  qed
  from snap_fold [OF assms(3) this, of "walk_paths (walk_tree fs base)" fs fmempty]
  show ?thesis
    unfolding snapshot_def walk_paths_def [symmetric] using w assms(3) snap_of_node [OF assms(1)] by auto
qed

lemma snapshot_keys:
  assumes "fs_wf fs" "fmlookup fs base = Some (FDir a)" "fmlookup (snapshot fs base) t = Some m"
  shows "\<exists>q. t = rel_text q \<and> list_all proper_name q \<and> q \<noteq> [] \<and> fmlookup fs (base @ q) \<noteq> None"
proof -
  have "fmlookup (fold (\<lambda>p out. case snap_of fs p of None \<Rightarrow> out | Some m \<Rightarrow> fmupd (rel_text (drop (length base) p)) m out) ps out) t = Some m
      \<Longrightarrow> fmlookup out t = None \<Longrightarrow> \<exists>p \<in> set ps. t = rel_text (drop (length base) p)" for ps out
  proof (induction ps arbitrary: out)
    case (Cons p ps)
    then show ?case by (cases "t = rel_text (drop (length base) p)") (auto split: option.splits)
  qed simp
  then obtain p where p: "p \<in> set (walk_paths (walk_tree fs base))" "t = rel_text (drop (length base) p)"
    using assms(3) unfolding snapshot_def walk_paths_def [symmetric] by fastforce
  then obtain q y where "p = base @ q" "q \<noteq> []" "fmlookup fs p = Some y"
    using walk_tree_covers [OF assms(1,2)] by (auto simp: at_or_below_append)
  moreover from this have "list_all proper_name (base @ q)" using fs_wf_nodeD(1) [OF assms(1)] by blast
  ultimately show ?thesis using p(2) by auto
qed

section \<open>The layer of a command\<close>

definition times_tell :: "fs \<Rightarrow> fs \<Rightarrow> path \<Rightarrow> bool" where
  \<comment> \<open>no file was rewritten with the same size and the same time\<close>
  "times_tell before after base \<longleftrightarrow> (\<forall>p a d b e. fmlookup before (base @ p) = Some (FFile a d)
     \<and> fmlookup after (base @ p) = Some (FFile b e) \<and> length d = length e \<and> fa_mtime a = fa_mtime b \<longrightarrow> d = e)"

lemma executable_mod: "m mod 4096 = n mod 4096 \<Longrightarrow> executable m = executable n"
proof -
  have "executable m = bit (m mod 4096) 6" for m
  proof -
    have "m mod 4096 = take_bit 12 m" by (simp add: take_bit_eq_mod)
    moreover have "bit (take_bit 12 m) 6 = bit m 6" by (simp add: bit_take_bit_iff)
    moreover have "executable m = bit m 6" by (simp add: executable_def bit_iff_odd)
    ultimately show ?thesis by simp
  qed
  then show "m mod 4096 = n mod 4096 \<Longrightarrow> executable m = executable n" by simp
qed

lemma snap_same:
  assumes "fs_wf before" "fs_wf after" "times_tell before after base" "no_markers before base" "no_markers after base" "p \<noteq> []"
    and "snap_of before (base @ p) = snap_of after (base @ p)" "fmlookup after (base @ p) = Some n"
    and "fmlookup before (base @ p) = Some m"
  shows "same_content m n"
proof -
  have s: "stat_at before False (base @ p) = Some m" "stat_at after False (base @ p) = Some n"
    using stat_clear(1) [OF assms(1) wf_clear_above [OF assms(1,9)]] stat_clear(1) [OF assms(2) wf_clear_above [OF assms(2,8)]]
      assms(8,9) by simp_all
  have nd: "m \<noteq> FDev a" "n \<noteq> FDev a" for a using assms(4-6,8,9) unfolding no_markers_def by blast+
  have t: "length d = length e \<Longrightarrow> fa_mtime a = fa_mtime b \<Longrightarrow> d = e" if "m = FFile a d" "n = FFile b e" for a b d e
    using assms(3,8,9) that unfolding times_tell_def by blast
  note e = assms(7) [unfolded snap_of_def s option.case]
  show ?thesis
  proof (cases m)
    case (FFile a d)
    have "\<forall>a. n \<noteq> FDev a" using nd(2) by blast
    then obtain b c where n: "n = FFile b c" using e by (cases n) (auto simp: FFile)
    have "length d = length c" "fa_mtime a = fa_mtime b" "fa_mode a mod 4096 = fa_mode b mod 4096"
      using e by (simp_all add: FFile n)
    then show ?thesis using t [OF FFile n] executable_mod [of "fa_mode a" "fa_mode b"] by (simp add: FFile n)
  next
    case (FDev a)
    then show ?thesis using nd(1) by blast
  next
    case (FDir a)
    then show ?thesis using e by (cases n) simp_all
  next
    case (FLink a u)
    then show ?thesis using e by (cases n) simp_all
  qed
qed

lemma layer_of_diff:
  assumes "fs_wf before" "fs_wf after" "base \<noteq> []" "is_fdir (fmlookup before base)" "is_fdir (fmlookup after base)"
    and "no_markers before base" "no_markers after base" "times_tell before after base"
    and d: "diff_snapshots (snapshot before base) (snapshot after base) = (changed, removed)"
    and l: "layer_from_paths sha blen who now level det after base changed removed = Inr l"
  shows "\<exists>ps rs mt tar. ly_blob l = Gz level mt tar \<and> diff_layer_of before after base ps rs
    \<and> write_tar who after (map (\<lambda>p. (rel_text p, base @ p)) ps) (map rel_text rs) mt = Inr tar"
    and "layer_wf sha l"
proof -
  obtain a where a: "fmlookup before base = Some (FDir a)" using assms(4) by (rule is_fdirE)
  obtain b where b: "fmlookup after base = Some (FDir b)" using assms(5) by (rule is_fdirE)
  note sb = snapshot_lookup [OF assms(1) a] and sa = snapshot_lookup [OF assms(2) b]
  note kb = snapshot_keys [OF assms(1) a] and ka = snapshot_keys [OF assms(2) b]
  have keys: "set (sorted_list_of_fset (fmdom m)) = {t. fmlookup m t \<noteq> None}" for m :: "(string, snap) fmap"
    by (auto simp: sorted_list_of_fset.rep_eq fmlookup_dom_iff)
  have ord: "sorted (sorted_list_of_fset (fmdom m)) \<and> distinct (sorted_list_of_fset (fmdom m))" for m :: "(string, snap) fmap"
    by (simp add: sorted_list_of_fset.rep_eq)
  have c: "changed = filter (\<lambda>t. fmlookup (snapshot before base) t \<noteq> fmlookup (snapshot after base) t) (sorted_list_of_fset (fmdom (snapshot after base)))"
    and r: "removed = filter (\<lambda>t. fmlookup (snapshot after base) t = None) (sorted_list_of_fset (fmdom (snapshot before base)))"
    using d by (simp_all add: diff_snapshots_def)
  have cs: "sorted changed" "distinct changed" using ord unfolding c by (auto intro: sorted_wrt_filter)
  have cset: "t \<in> set changed \<longleftrightarrow> fmlookup (snapshot after base) t \<noteq> None \<and> fmlookup (snapshot before base) t \<noteq> fmlookup (snapshot after base) t" for t
    unfolding c using keys by auto
  have rset: "t \<in> set removed \<longleftrightarrow> fmlookup (snapshot before base) t \<noteq> None \<and> fmlookup (snapshot after base) t = None" for t
    unfolding r using keys by auto
  define ps where "ps = map comps changed"
  define rs where "rs = map comps removed"
  have cq: "\<exists>q. t = rel_text q \<and> comps t = q \<and> list_all proper_name q \<and> q \<noteq> [] \<and> fmlookup after (base @ q) \<noteq> None" if t: "t \<in> set changed" for t
  proof -
    obtain m where "fmlookup (snapshot after base) t = Some m" using t cset by blast
    from ka [OF this] show ?thesis using comps_rel_text by blast
  qed
  have rq: "\<exists>q. t = rel_text q \<and> comps t = q \<and> list_all proper_name q" if t: "t \<in> set removed" for t
  proof -
    obtain m where "fmlookup (snapshot before base) t = Some m" using t rset by blast
    from kb [OF this] show ?thesis using comps_rel_text by blast
  qed
  have pt: "map rel_text ps = changed" "map rel_text rs = removed"
    unfolding ps_def rs_def using cq rq by (auto simp: map_idI)
  have proper: "list_all proper_name q" if "fmlookup f (base @ q) = Some x" "fs_wf f" for f q x
    using fs_wf_nodeD(1) [OF that(2,1)] by simp
  have in_ps: "q \<in> set ps \<longleftrightarrow> rel_text q \<in> set changed" if "list_all proper_name q" for q
    unfolding ps_def using cq comps_rel_text that by (force simp: image_iff)
  have in_rs: "q \<in> set rs \<longleftrightarrow> rel_text q \<in> set removed" if "list_all proper_name q" for q
    unfolding rs_def using rq comps_rel_text that by (force simp: image_iff)
  have dl: "diff_layer_of before after base ps rs"
  proof (rule diff_layer_ofI)
    show "sorted (map rel_text ps)" using cs(1) by (simp only: pt)
    show "distinct ps" using cs(2) pt(1) by (metis distinct_map)
    show "p \<noteq> [] \<and> fmlookup after (base @ p) \<noteq> None" if "p \<in> set ps" for p
      using that cq unfolding ps_def by auto
    show "\<exists>m. fmlookup before (base @ p) = Some m \<and> same_content m (the (fmlookup after (base @ p)))"
      if p: "p \<noteq> []" "p \<notin> set ps" "fmlookup after (base @ p) \<noteq> None" for p
    proof -
      obtain n where n: "fmlookup after (base @ p) = Some n" using p(3) by auto
      have pr: "list_all proper_name p" by (rule proper [OF n assms(2)])
      obtain m where m: "snap_of after (base @ p) = Some m" using snap_of_node [OF assms(2) n] by blast
      have e: "fmlookup (snapshot before base) (rel_text p) = fmlookup (snapshot after base) (rel_text p)"
        using in_ps [OF pr] p cset [of "rel_text p"] sa [OF pr] m by auto
      then have "fmlookup before (base @ p) \<noteq> None" "snap_of before (base @ p) = snap_of after (base @ p)"
        using sa [OF pr] sb [OF pr] p n m by (auto split: if_splits)
      then show ?thesis
        using snap_same [OF assms(1,2,8,6,7) p(1) _ n] n by auto
    qed
    show "p \<in> set rs \<longleftrightarrow> p \<noteq> [] \<and> fmlookup before (base @ p) \<noteq> None \<and> fmlookup after (base @ p) = None" for p
    proof (cases "list_all proper_name p")
      case True
      show ?thesis
        unfolding in_rs [OF True] rset using sa [OF True] sb [OF True] snap_of_node [OF assms(1), of "base @ p"]
          snap_of_node [OF assms(2), of "base @ p"] by (cases "p = []") auto
    next
      case False
      then have "fmlookup before (base @ p) = None" using proper [OF _ assms(1), of p] by (cases "fmlookup before (base @ p)") auto
      moreover have "p \<notin> set rs" using False rq unfolding rs_def by auto
      ultimately show ?thesis by simp
    qed
  qed
  have lx: "lexists after (under base t) \<and> under base t = base @ comps t" if t: "t \<in> set changed" for t
  proof -
    obtain q x where q: "t = rel_text q" "comps t = q" "list_all proper_name q" "fmlookup after (base @ q) = Some x"
      using cq [OF t] by blast
    then show ?thesis
      using under_proper [OF q(3), of base] stat_clear(1) [OF assms(2) wf_clear_above [OF assms(2) q(4)]]
      by (simp add: lexists_def)
  qed
  have "sort (remdups changed) = changed" using cs by (simp add: distinct_remdups_id sorted_sort_id)
  then have mem: "map (\<lambda>p. (p, under base p)) (filter (\<lambda>p. lexists after (under base p)) (sort (remdups changed)))
      = map (\<lambda>p. (rel_text p, base @ p)) ps"
  proof -
    assume so: "sort (remdups changed) = changed"
    have "filter (\<lambda>p. lexists after (under base p)) changed = changed" by (intro filter_True ballI) (use lx in blast)
    moreover have "map (\<lambda>p. (p, under base p)) changed = map ((\<lambda>p. (rel_text p, base @ p)) \<circ> comps) changed"
    proof (rule map_cong [OF refl])
      fix t assume t: "t \<in> set changed"
      show "(t, under base t) = ((\<lambda>p. (rel_text p, base @ p)) \<circ> comps) t"
        using lx [OF t] cq [OF t] by auto
    qed
    ultimately show ?thesis unfolding so ps_def by simp
  qed
  show "\<exists>ps rs mt tar. ly_blob l = Gz level mt tar \<and> diff_layer_of before after base ps rs
    \<and> write_tar who after (map (\<lambda>p. (rel_text p, base @ p)) ps) (map rel_text rs) mt = Inr tar"
  proof -
    obtain mt tar where "write_tar who after (map (\<lambda>p. (rel_text p, base @ p)) ps) (map rel_text rs) mt = Inr tar"
        "ly_blob l = Gz level mt tar"
      using l unfolding layer_from_paths_def mem pt(2) [symmetric] make_layer_def Let_def
      by (fastforce simp: ebind_Inr_iff gzip_deterministic_def)
    with dl show ?thesis by blast
  qed
  show "layer_wf sha l"
    using l unfolding layer_from_paths_def
    by (auto simp: make_layer_def ebind_Inr_iff Let_def layer_wf_def)
qed

section \<open>A command from the cache\<close>

lemma extract_same:
  assumes "fs_wf fs" "same_tree fs before base" "is_fdir (fmlookup fs base)" "base \<noteq> []"
    and "diff_layer_of before after base ps rs" "write_tar who after (map (\<lambda>p. (rel_text p, base @ p)) ps) (map rel_text rs) mt = Inr tar"
    and "fs_wf after" "no_markers before base" "no_markers after base" "no_link_becomes_dir before after base"
  shows "\<exists>fs'. extract_layer new (Gz level mt tar) base True fs = (Inr (), fs') \<and> fs_wf fs' \<and> same_tree fs' after base
    \<and> (\<forall>k. \<not> (at_or_below base k \<and> k \<noteq> base) \<longrightarrow> fmlookup fs' k = fmlookup fs k)"
  using extract_chain [OF layer_chainI [OF assms(5,6,7,9,10), of "[]" "[]" level mt] assms(4,1,3,2,8), of new]
  by (auto simp: abind_def split: prod.splits sum.splits)

lemma on_simps:
  "on_fs m s = (fst (m (bs_fs s)), s\<lparr>bs_fs := snd (m (bs_fs s))\<rparr>)"
  "on_builder n s = (fst (n (bs_builder s)), s\<lparr>bs_builder := snd (n (bs_builder s))\<rparr>)"
  by (simp_all add: on_fs_def on_builder_def split: prod.split)

lemma run_command_miss:
  assumes "run_command e base k i s = (Inr (key, d'), s1)" "cached_usable key (bs_builder s) = Inr None"
  shows "key = chain_key (be_sha e) k (instr_text i) [] \<and> (\<exists>f changed removed l d bd. d' = Some d
    \<and> diff_snapshots (snapshot (bs_fs s) base) (snapshot f base) = (changed, removed)
    \<and> layer_from_paths (be_sha e) (be_blen e) (be_who e) (be_now e) (be_level e) (be_deterministic e) f base changed removed = Inr l
    \<and> record_layer (be_sha e) (be_blen e) key l i (bs_builder s) = (Inr d, bd) \<and> s1 = s\<lparr>bs_fs := f, bs_builder := bd\<rparr>)"
proof -
  let ?key = "chain_key (be_sha e) k (instr_text i) []"
  have k: "key = ?key" using assms(1) by (auto simp: run_command_def Let_def elim!: abindE)
  have u: "usable_now ?key s = (Inr None, s)" using assms(2) k by (simp add: usable_now_def)
  show ?thesis
    using assms(1) u k
    by (auto simp: run_command_def Let_def store_layer_def on_simps elim!: abindE split: prod.splits)
       (auto simp: prod_eq_iff)
qed

definition command_ready :: "fs \<Rightarrow> fs \<Rightarrow> path \<Rightarrow> bool" where
  \<comment> \<open>a root before and after a command: no names like whiteouts, no rewrite that the time stamps hide, no
    link that became a directory\<close>
  "command_ready before after base \<longleftrightarrow> base \<noteq> [] \<and> fs_wf before \<and> fs_wf after \<and> is_fdir (fmlookup before base)
     \<and> is_fdir (fmlookup after base) \<and> no_markers before base \<and> no_markers after base \<and> times_tell before after base
     \<and> no_link_becomes_dir before after base"

definition command_layer :: "build_env \<Rightarrow> path \<Rightarrow> fs \<Rightarrow> fs \<Rightarrow> layer res" where
  \<comment> \<open>the layer of what a command changed\<close>
  "command_layer e base before after =
     (case diff_snapshots (snapshot before base) (snapshot after base) of (changed, removed) \<Rightarrow>
        layer_from_paths (be_sha e) (be_blen e) (be_who e) (be_now e) (be_level e) (be_deterministic e) after base changed removed)"

text \<open>C27: A command from the cache leaves what running it left: after a RUN was executed and its layer recorded, a
  later build at the same key, whose root has the same content as the first had and whose store still
  has the blobs, does not run the command; it applies the stored layer, which makes its root the same
  tree as the command made (contents, links, executable bits, deletions), changes nothing outside the
  root, and records the same layer and the same diff_id.  The conditions on what the command did are
  those of \<open>command_ready\<close>: it turned no link into a directory (such a layer replays to another
  tree, theorem \<open>link_becoming_dir_not_replayed\<close>), every file it rewrote at the same size has
  another time stamp, and neither root has a device or a name that begins like a whiteout marker; and
  the digest function has no collision among the stored blobs and the new layer.\<close>

theorem run_cached_equals_run:
  assumes "sha_hex (be_sha e)" "run_command e base k i s = (Inr (key, Some d), s1)" "cached_usable key (bs_builder s) = Inr None"
    and "command_ready (bs_fs s) (bs_fs s1) base"
    and "store_wf (be_sha e) (bd_store (bs_builder s))" "command_layer e base (bs_fs s) (bs_fs s1) = Inr l"
    and "inj_on (be_sha e) (blob_set (bd_store (bs_builder s)) \<union> {ly_blob l})"
    and "fs_wf (bs_fs s2)" "is_fdir (fmlookup (bs_fs s2) base)" "same_tree (bs_fs s2) (bs_fs s) base"
    and "blobs_le (bd_store (bs_builder s1)) (bd_store (bs_builder s2))"
    and "cache_get key (bd_cache (bs_builder s2)) = cache_get key (bd_cache (bs_builder s1))"
  shows "\<exists>d2 s3. run_command (e\<lparr>be_executor := ex\<rparr>) base k i s2 = (Inr (key, Some d2), s3)
    \<and> same_tree (bs_fs s3) (bs_fs s1) base
    \<and> (\<forall>p. \<not> at_or_below base p \<longrightarrow> fmlookup (bs_fs s3) p = fmlookup (bs_fs s2) p)
    \<and> d_digest d2 = d_digest d \<and> bd_layers (bs_builder s3) = bd_layers (bs_builder s2) @ [d]
    \<and> (\<exists>diff. ic_diff_ids (bd_config (bs_builder s1)) = ic_diff_ids (bd_config (bs_builder s)) @ [diff]
          \<and> ic_diff_ids (bd_config (bs_builder s3)) = ic_diff_ids (bd_config (bs_builder s2)) @ [diff])"
proof -
  let ?sha = "be_sha e"
  obtain f changed removed l' bd where key: "key = chain_key ?sha k (instr_text i) []"
    and ds: "diff_snapshots (snapshot (bs_fs s) base) (snapshot f base) = (changed, removed)"
    and lp: "layer_from_paths ?sha (be_blen e) (be_who e) (be_now e) (be_level e) (be_deterministic e) f base changed removed = Inr l'"
    and rl': "record_layer ?sha (be_blen e) key l' i (bs_builder s) = (Inr d, bd)" and s1: "s1 = s\<lparr>bs_fs := f, bs_builder := bd\<rparr>"
    using run_command_miss [OF assms(2,3)] by auto
  have f: "bs_fs s1 = f" "bs_builder s1 = bd" by (simp_all add: s1)
  have "l' = l" using assms(6) ds lp f by (simp add: command_layer_def)
  then have lp: "layer_from_paths ?sha (be_blen e) (be_who e) (be_now e) (be_level e) (be_deterministic e) f base changed removed = Inr l"
    and rl: "record_layer ?sha (be_blen e) key l i (bs_builder s) = (Inr d, bd)" using lp rl' by simp_all
  note rdy = assms(4) [unfolded command_ready_def f]
  have lw: "layer_wf ?sha l" and "\<exists>ps rs mt tar. ly_blob l = Gz (be_level e) mt tar \<and> diff_layer_of (bs_fs s) f base ps rs
    \<and> write_tar (be_who e) f (map (\<lambda>p. (rel_text p, base @ p)) ps) (map rel_text rs) mt = Inr tar"
    using layer_of_diff [OF _ _ _ _ _ _ _ _ ds lp] rdy by blast+
  then obtain ps rs mt tar where t: "ly_blob l = Gz (be_level e) mt tar" "diff_layer_of (bs_fs s) f base ps rs"
      "write_tar (be_who e) f (map (\<lambda>p. (rel_text p, base @ p)) ps) (map rel_text rs) mt = Inr tar" by blast
  obtain g where g: "extract_layer (be_new e) (ly_blob l) base True (bs_fs s2) = (Inr (), g)" "same_tree g f base"
      "\<forall>p. \<not> (at_or_below base p \<and> p \<noteq> base) \<longrightarrow> fmlookup g p = fmlookup (bs_fs s2) p"
    using extract_same [OF assms(8,10,9) _ t(2,3)] rdy unfolding t(1) by blast
  note rc = record_then_cached [OF assms(1) lw rl assms(11,12) [unfolded f]]
  obtain en where en: "cached_usable key (bs_builder s2) = Inr (Some en)" "jitem en ''digest'' = Inr (JStr (ly_digest l))"
      "record_cached en i (bs_builder s2) = (Inr (d\<lparr>d_annotations := fmap_of_list [(''cached'', JStr ''1'')]\<rparr>),
        (bs_builder s2)\<lparr>bd_layers := bd_layers (bs_builder s2) @ [d],
          bd_config := record_config (ly_diff_id l) i (bd_config (bs_builder s2))\<rparr>)"
    using rc(1) [of i] by blast
  have dg: "ly_digest l = digest_of ?sha (ly_blob l)" using lw by (simp add: layer_wf_def)
  have "get_blob ?sha (bd_store bd) (ly_digest l) = Inr (ly_blob l)"
    unfolding dg
  proof (rule put_blob_stored [OF rc(5)])
    fix b' assume b: "fmlookup (is_blobs (bd_store (bs_builder s))) (?sha (ly_blob l)) = Some b'"
    show "b' = ly_blob l" by (rule same_blob [OF assms(5,7) _ _ b]) auto
  qed
  then have gb: "get_blob ?sha (bd_store (bs_builder s2)) (ly_digest l) = Inr (ly_blob l)"
    using get_blob_mono [OF _ assms(11) [unfolded f]] by blast
  let ?d2 = "d\<lparr>d_annotations := fmap_of_list [(''cached'', JStr ''1'')]\<rparr>"
  let ?s3 = "s2\<lparr>bs_fs := g, bs_builder := (bs_builder s2)\<lparr>bd_layers := bd_layers (bs_builder s2) @ [d],
          bd_config := record_config (ly_diff_id l) i (bd_config (bs_builder s2))\<rparr>\<rparr>"
  have "replay_layer (e\<lparr>be_executor := ex\<rparr>) base en i s2 = (Inr ?d2, ?s3)"
    using en gb g(1) by (simp add: replay_layer_def abind_def on_simps jstr_def)
  then have "run_command (e\<lparr>be_executor := ex\<rparr>) base k i s2 = (Inr (key, Some ?d2), ?s3)"
    using en(1) by (simp add: run_command_def Let_def usable_now_def key [symmetric] abind_def)
  moreover have "same_tree (bs_fs ?s3) (bs_fs s1) base" using g(2) f by simp
  moreover have "\<forall>p. \<not> at_or_below base p \<longrightarrow> fmlookup (bs_fs ?s3) p = fmlookup (bs_fs s2) p" using g(3) by simp
  ultimately show ?thesis
    using rc(4) f by (intro exI [of _ ?d2] exI [of _ ?s3]) (auto simp: record_config_def)
qed

text \<open>The layer of paths that may have vanished never fails, so a command that returns gets its layer.\<close>

lemma layer_from_paths_total: "\<exists>l. layer_from_paths sha blen who now level det fs base paths whiteouts = Inr l"
proof -
  let ?t = "if det then FIXED_MTIME else \<lfloor>now\<rfloor>"
  have "\<exists>js. emap (\<lambda>(a, p). ebind (gettarinfo who fs p a) (\<lambda>i. Inr (normalise_info ?t i))) xs = Inr js"
    if "\<forall>(a, p) \<in> set xs. lexists fs p" for xs
    using that
  proof (induction xs)
    case (Cons x xs)
    then show ?case by (cases x) (auto simp: gettarinfo_def lexists_def)
  qed simp
  then obtain js where "emap (\<lambda>(a, p). ebind (gettarinfo who fs p a) (\<lambda>i. Inr (normalise_info ?t i)))
      (map (\<lambda>p. (p, under base p)) (filter (\<lambda>p. lexists fs (under base p)) (sort (remdups paths)))) = Inr js"
    by fastforce
  then show ?thesis unfolding layer_from_paths_def make_layer_def write_tar_def Let_def by simp
qed

lemma run_command_fresh:
  assumes "sha_hex (be_sha e)" "cached_usable (chain_key (be_sha e) k (instr_text i) []) (bs_builder s) = Inr None"
    and "be_executor e (in_args i) base (ic_env (bd_config (bs_builder s))) (ic_working_dir (bd_config (bs_builder s)))
      (ic_user (bd_config (bs_builder s))) (bs_fs s) = (Inr (), f)"
  shows "\<exists>l d bd. command_layer e base (bs_fs s) f = Inr l
    \<and> run_command e base k i s = (Inr (chain_key (be_sha e) k (instr_text i) [], Some d), s\<lparr>bs_fs := f, bs_builder := bd\<rparr>)"
proof -
  obtain changed removed where ds: "diff_snapshots (snapshot (bs_fs s) base) (snapshot f base) = (changed, removed)"
    by (cases "diff_snapshots (snapshot (bs_fs s) base) (snapshot f base)")
  obtain l where l: "layer_from_paths (be_sha e) (be_blen e) (be_who e) (be_now e) (be_level e) (be_deterministic e) f base changed removed = Inr l"
    using layer_from_paths_total by blast
  obtain d bd where r: "record_layer (be_sha e) (be_blen e) (chain_key (be_sha e) k (instr_text i) []) l i (bs_builder s) = (Inr d, bd)"
    by (simp add: record_layer_def put_blob_eq [OF assms(1)] Let_def)
  have "run_command e base k i s = (Inr (chain_key (be_sha e) k (instr_text i) [], Some d), s\<lparr>bs_fs := f, bs_builder := bd\<rparr>)"
    using assms(2,3) l r ds by (simp add: run_command_def Let_def abind_def usable_now_def on_simps store_layer_def)
  then show ?thesis using l ds by (auto simp: command_layer_def)
qed

definition demo_run_tree :: "(path \<times> fnode) list" where
  "demo_run_tree = [([], FDir (demo_attr 0)), ([''r''], FDir (demo_attr 1)), ([''r'', ''g''], FFile (demo_attr 2) ''new'')]"

definition demo_env :: build_env where
  "demo_env = \<lparr>be_sha = demo_sha, be_blen = demo_len, be_who = (\<lambda>_. []), be_now = 0, be_elapsed = (\<lambda>_. 1),
     be_new = (\<lambda>_. demo_attr 0), be_level = 6, be_deterministic = True,
     be_executor = (\<lambda>cmd base env wd user fs. (Inr (), fmap_of_list demo_run_tree)), be_context = [''ctx''], be_ignore = [],
     be_workdir_root = [''w''], be_jarr = (\<lambda>_. Inl (ValueError [])), be_shsplit = (\<lambda>s. Inr [s])\<rparr>"

definition demo_state :: build_state where
  "demo_state = \<lparr>bs_fs = fmap_of_list demo_tree, bs_builder = demo_builder, bs_saved = None\<rparr>"

theorem run_cached_equals_run_witness:
  "\<exists>key d s1 d2 s3. run_command demo_env [''r''] ''k'' demo_instr demo_state = (Inr (key, Some d), s1)
    \<and> run_command (demo_env\<lparr>be_executor := \<lambda>_ _ _ _ _ fs. (Inl (BuildError []), fs)\<rparr>) [''r''] ''k'' demo_instr
        (s1\<lparr>bs_fs := fmap_of_list demo_tree\<rparr>) = (Inr (key, Some d2), s3) \<and> same_tree (bs_fs s3) (bs_fs s1) [''r'']"
proof -
  let ?key = "chain_key demo_sha ''k'' (instr_text demo_instr) []"
  have u: "cached_usable key demo_builder = Inr None" for key
    by (simp add: cached_usable_def demo_builder_def cache_get_def)
  obtain l d bd where l: "command_layer demo_env [''r''] (bs_fs demo_state) (fmap_of_list demo_run_tree) = Inr l"
    and r: "run_command demo_env [''r''] ''k'' demo_instr demo_state
      = (Inr (?key, Some d), demo_state\<lparr>bs_fs := fmap_of_list demo_run_tree, bs_builder := bd\<rparr>)"
    using run_command_fresh [of demo_env "''k''" demo_instr demo_state "[''r'']" "fmap_of_list demo_run_tree"] u
    by (auto simp: demo_env_def demo_state_def)
  have wf: "fs_wf (fmap_of_list demo_tree)" "fs_wf (fmap_of_list demo_run_tree)" by (rule fs_wf_of_list, code_simp)+
  have dirs: "is_fdir (fmlookup (fmap_of_list demo_tree) [''r''])" "is_fdir (fmlookup (fmap_of_list demo_run_tree) [''r''])"
    by (simp_all add: demo_tree_def demo_run_tree_def)
  have p1: "p = [''f''] \<and> n = FFile (demo_attr 1) ''data''" if "p \<noteq> []" "fmlookup (fmap_of_list demo_tree) ([''r''] @ p) = Some n" for p n
    using that by (auto simp: demo_tree_def split: if_splits)
  have p2: "p = [''g''] \<and> n = FFile (demo_attr 2) ''new''" if "p \<noteq> []" "fmlookup (fmap_of_list demo_run_tree) ([''r''] @ p) = Some n" for p n
    using that by (auto simp: demo_run_tree_def split: if_splits)
  have pl: "plain_name ''f''" "plain_name ''g''" by code_simp+
  have nm: "no_markers (fmap_of_list demo_tree) [''r'']" "no_markers (fmap_of_list demo_run_tree) [''r'']"
    unfolding no_markers_def using p1 p2 pl by fastforce+
  have tt: "times_tell (fmap_of_list demo_tree) (fmap_of_list demo_run_tree) [''r'']"
    unfolding times_tell_def
  proof (intro allI impI, elim conjE)
    fix p a d b e assume a: "fmlookup (fmap_of_list demo_tree) ([''r''] @ p) = Some (FFile a d)"
      "fmlookup (fmap_of_list demo_run_tree) ([''r''] @ p) = Some (FFile b e)"
    then have "p \<noteq> []" using dirs by auto
    then show "d = e" using p1 [OF _ a(1)] p2 [OF _ a(2)] by auto
  qed
  have nl: "no_link_becomes_dir (fmap_of_list demo_tree) (fmap_of_list demo_run_tree) [''r'']"
    unfolding no_link_becomes_dir_def
  proof (intro allI impI)
    fix p assume a: "is_flink (fmlookup (fmap_of_list demo_tree) ([''r''] @ p))"
    then obtain b t where b: "fmlookup (fmap_of_list demo_tree) ([''r''] @ p) = Some (FLink b t)" by (rule is_flinkE)
    have "p \<noteq> []" using b dirs by auto
    then show "\<not> is_fdir (fmlookup (fmap_of_list demo_run_tree) ([''r''] @ p))" using p1 [OF _ b] by simp
  qed
  let ?s1 = "demo_state\<lparr>bs_fs := fmap_of_list demo_run_tree, bs_builder := bd\<rparr>"
  let ?s2 = "?s1\<lparr>bs_fs := fmap_of_list demo_tree\<rparr>"
  have ready: "command_ready (bs_fs demo_state) (bs_fs ?s1) [''r'']"
    using wf dirs nm tt nl by (simp add: command_ready_def demo_state_def)
  have st: "same_tree (bs_fs ?s2) (bs_fs demo_state) [''r'']"
    unfolding same_tree_def
  proof (intro allI impI)
    fix p :: path assume "p \<noteq> []"
    then show "rel_option same_content (fmlookup (bs_fs ?s2) ([''r''] @ p)) (fmlookup (bs_fs demo_state) ([''r''] @ p))"
      using p1 [of p] by (cases "fmlookup (fmap_of_list demo_tree) ([''r''] @ p)") (auto simp: demo_state_def)
  qed
  have sw: "store_wf demo_sha (bd_store demo_builder)" "blob_set (bd_store demo_builder) = {}"
    by (auto simp: demo_builder_def store_wf_def open_store_def blob_set_def)
  have "sha_hex (be_sha demo_env)" by (simp add: demo_env_def)
  from run_cached_equals_run [OF this r _ ready _ _ _ _ _ st, of l "\<lambda>_ _ _ _ _ fs. (Inl (BuildError []), fs)"] u sw wf dirs l r
  show ?thesis by (fastforce simp: demo_state_def demo_env_def)
qed

section \<open>Layers, diff_ids and history\<close>

definition count_layers :: "image_config \<Rightarrow> nat" where
  "count_layers c = length (filter (\<lambda>h. \<not> he_empty_layer h) (ic_history c))"

definition aligned :: "builder \<Rightarrow> bool" where
  \<comment> \<open>one diff_id and one history entry that is not empty for every layer\<close>
  "aligned b \<longleftrightarrow> length (ic_diff_ids (bd_config b)) = length (bd_layers b) \<and> count_layers (bd_config b) = length (bd_layers b)"

lemma record_layer_effect:
  assumes "record_layer sha blen key l i b = (Inr d, b')"
  shows "bd_layers b' = bd_layers b @ [d]" "bd_config b' = record_config (ly_diff_id l) i (bd_config b)" "d_annotations d = fmempty"
  using assms by (auto simp: record_layer_def Let_def mk_descriptor_def split: prod.splits sum.splits)

lemma record_cached_effect:
  assumes "record_cached c i b = (Inr d, b')"
  shows "bd_layers b' = bd_layers b @ [d\<lparr>d_annotations := fmempty\<rparr>]" "\<exists>diff. bd_config b' = record_config diff i (bd_config b)"
    "fmlookup (d_annotations d) ''cached'' = Some (JStr ''1'')"
  using assms by (auto simp: record_cached_def Let_def mk_descriptor_def split: prod.splits sum.splits)

lemma apply_metadata_keeps:
  "apply_metadata jarr shsplit i c = Inr c' \<Longrightarrow> ic_diff_ids c' = ic_diff_ids c \<and> ic_history c' = ic_history c"
  unfolding apply_metadata_def Let_def
  by (simp add: ebind_Inr_iff cong: if_cong split: if_split_asm) (auto split: prod.splits)

text \<open>What one instruction does to the layers and the history.\<close>

definition one_step :: "descriptor option \<Rightarrow> builder \<Rightarrow> builder \<Rightarrow> bool" where
  "one_step d b b' \<longleftrightarrow>
     bd_layers b' = bd_layers b @ (case d of None \<Rightarrow> [] | Some x \<Rightarrow> [x\<lparr>d_annotations := fmempty\<rparr>])
     \<and> length (ic_history (bd_config b')) = Suc (length (ic_history (bd_config b)))
     \<and> count_layers (bd_config b') = count_layers (bd_config b) + (if d = None then 0 else 1)
     \<and> length (ic_diff_ids (bd_config b')) = length (ic_diff_ids (bd_config b)) + (if d = None then 0 else 1)"

lemma record_config_counts:
  "length (ic_history (record_config x i c)) = Suc (length (ic_history c))"
  "count_layers (record_config x i c) = Suc (count_layers c)"
  "length (ic_diff_ids (record_config x i c)) = Suc (length (ic_diff_ids c))"
  by (simp_all add: record_config_def count_layers_def history_entry_def)

lemma replay_step: "replay_layer e base c i s = (Inr d, s') \<Longrightarrow> one_step (Some d) (bs_builder s) (bs_builder s')
    \<and> ic_labels (bd_config (bs_builder s')) = ic_labels (bd_config (bs_builder s)) \<and> fmlookup (d_annotations d) ''cached'' = Some (JStr ''1'')"
proof -
  assume r: "replay_layer e base c i s = (Inr d, s')"
  obtain b' where b: "record_cached c i (bs_builder s) = (Inr d, b')" "bs_builder s' = b'"
    using r by (auto simp: replay_layer_def on_fs_def on_builder_def elim!: abindE split: prod.splits)
  obtain diff where "bd_config b' = record_config diff i (bd_config (bs_builder s))" using record_cached_effect(2) [OF b(1)] by blast
  then show ?thesis
    using record_cached_effect(1,3) [OF b(1)] b(2) by (simp add: one_step_def record_config_counts) (simp add: record_config_def)
qed

lemma store_step: "store_layer e base key ps wh i s = (Inr d, s') \<Longrightarrow> one_step (Some d) (bs_builder s) (bs_builder s')
    \<and> ic_labels (bd_config (bs_builder s')) = ic_labels (bd_config (bs_builder s)) \<and> d_annotations d = fmempty"
proof -
  assume r: "store_layer e base key ps wh i s = (Inr d, s')"
  obtain l b' where b: "record_layer (be_sha e) (be_blen e) key l i (bs_builder s) = (Inr d, b')" "bs_builder s' = b'"
    using r by (auto simp: store_layer_def on_builder_def elim!: abindE split: prod.splits)
  have "d\<lparr>d_annotations := fmempty\<rparr> = d" using record_layer_effect(3) [OF b(1)] by (cases d) simp
  then show ?thesis
    using record_layer_effect [OF b(1)] b(2) by (simp add: one_step_def record_config_counts) (simp add: record_config_def)
qed

lemma run_command_step:
  "run_command e base k i s = (Inr (key, d), s') \<Longrightarrow> one_step d (bs_builder s) (bs_builder s') \<and> d \<noteq> None"
  by (auto simp: run_command_def Let_def usable_now_def on_fs_def elim!: abindE split: option.splits prod.splits
      dest!: replay_step store_step)

text \<open>What a cached COPY leaves out: the configuration label that records \<open>--chown\<close> is set when the files are
  copied, and only then; the step that takes its layer from the cache leaves the labels as they were,
  so the second build of the same Dockerfile publishes another image.\<close>

theorem cached_copy_drops_label:
  assumes "run_copy e base roots k i s = (Inr (key, Some d), s')"
  shows "ic_labels (bd_config (bs_builder s')) =
    (if fmlookup (d_annotations d) ''cached'' = Some (JStr ''1'') then ic_labels (bd_config (bs_builder s))
     else ic_labels (copy_labels i (bd_config (bs_builder s))))"
  using assms
  by (auto simp: run_copy_def Let_def usable_now_def on_fs_def on_builder_def on_cache_def elim!: abindE
      split: option.splits prod.splits dest!: replay_step store_step)

lemma run_copy_step:
  "run_copy e base roots k i s = (Inr (key, d), s') \<Longrightarrow> one_step d (bs_builder s) (bs_builder s') \<and> d \<noteq> None"
  by (auto simp: run_copy_def Let_def usable_now_def on_fs_def on_builder_def on_cache_def copy_labels_def one_step_def
      count_layers_def elim!: abindE split: option.splits prod.splits if_splits dest!: replay_step store_step)

lemma metadata_instruction_step:
  assumes "metadata_step jarr shsplit sha k i b = (Inr key, b')"
  shows "one_step None b b'"
proof -
  obtain c where c: "apply_metadata jarr shsplit i (bd_config b) = Inr c"
    "b' = b\<lparr>bd_config := c\<lparr>ic_history := ic_history c @ [history_entry (instr_text i) True]\<rparr>\<rparr>"
    using assms by (auto simp: metadata_step_def split: sum.splits)
  then show ?thesis using apply_metadata_keeps [OF c(1)] by (simp add: one_step_def count_layers_def history_entry_def)
qed

lemma apply_instruction_step:
  assumes "apply_instruction e base roots k i s = (Inr (key, d), s')"
  shows "one_step d (bs_builder s) (bs_builder s') \<and> (d = None \<longleftrightarrow> in_op i \<in> set metadata_ops)"
proof (cases "in_op i \<in> set metadata_ops")
  case True
  then show ?thesis
    using assms by (auto simp: apply_instruction_def on_builder_def elim!: abindE split: prod.splits
        dest!: metadata_instruction_step)
next
  case False
  then show ?thesis
    using assms run_copy_step [of e base roots k i s key d s'] run_command_step [of e base k i s key d s']
    by (auto simp: apply_instruction_def split: if_splits)
qed

definition layer_digests_of :: "builder \<Rightarrow> string list" where
  "layer_digests_of b = map d_digest (bd_layers b)"

text \<open>C28: The bookkeeping of a stage.  When the instructions of a stage have run, every instruction has one
  step and one history entry; exactly the instructions that are not metadata have a layer digest, and
  the stage's layers are the base image's followed by those digests, in order, whichever of them came
  from the cache; and the layers, the diff_ids and the history entries that are not empty stay equally many.\<close>

theorem steps_account_for_layers:
  assumes "run_instructions e base roots key is s = (Inr steps, s')"
  shows "list_all2 (\<lambda>i r. sr_instruction r = take 100 (instr_text i)
      \<and> (sr_layer_digest r = None \<longleftrightarrow> in_op i \<in> set metadata_ops)) is steps
    \<and> layer_digests_of (bs_builder s') = layer_digests_of (bs_builder s) @ List.map_filter sr_layer_digest steps
    \<and> length (ic_history (bd_config (bs_builder s'))) = length (ic_history (bd_config (bs_builder s))) + length is
    \<and> (aligned (bs_builder s) \<longrightarrow> aligned (bs_builder s'))"
  using assms
proof (induction "is" arbitrary: key s steps)
  case Nil
  then show ?case by (simp add: map_filter_simps)
next
  case (Cons i "is")
  obtain key' d t rest where a: "apply_instruction e base roots key i s = (Inr (key', d), t)"
    and r: "run_instructions e base roots key' is t = (Inr rest, s')" and st: "steps = step_result_of i d (be_elapsed e i) # rest"
    using Cons.prems by (auto elim!: abindE)
  note one = apply_instruction_step [OF a] and IH = Cons.IH [OF r]
  have "sr_instruction (step_result_of i d (be_elapsed e i)) = take 100 (instr_text i)"
    "sr_layer_digest (step_result_of i d (be_elapsed e i)) = map_option d_digest d"
    by (auto simp: step_result_of_def split: option.splits)
  then show ?case
    using one IH unfolding st one_step_def
    by (auto simp: layer_digests_of_def aligned_def map_filter_simps split: option.splits if_splits)
qed

definition first_state :: build_state where
  "first_state = demo_state\<lparr>bs_builder := demo_builder\<lparr>bd_config := new_config\<rparr>\<rparr>"

theorem steps_account_for_layers_witness:
  "\<exists>steps s'. run_instructions demo_env [''r''] [] ''k'' [demo_instr] first_state = (Inr steps, s') \<and> length steps = 1
    \<and> List.map_filter sr_layer_digest steps \<noteq> [] \<and> layer_digests_of (bs_builder s') = List.map_filter sr_layer_digest steps
    \<and> aligned (bs_builder s')"
proof -
  have u: "cached_usable key (demo_builder\<lparr>bd_config := new_config\<rparr>) = Inr None" for key
    by (simp add: cached_usable_def demo_builder_def cache_get_def)
  obtain d bd where "run_command demo_env [''r''] ''k'' demo_instr first_state
      = (Inr (chain_key demo_sha ''k'' (instr_text demo_instr) [], Some d), first_state\<lparr>bs_fs := fmap_of_list demo_run_tree, bs_builder := bd\<rparr>)"
    using run_command_fresh [of demo_env "''k''" demo_instr first_state "[''r'']" "fmap_of_list demo_run_tree"] u
    by (auto simp: demo_env_def first_state_def demo_state_def)
  then obtain steps s' where r: "run_instructions demo_env [''r''] [] ''k'' [demo_instr] first_state = (Inr steps, s')"
    by (simp add: abind_def apply_instruction_def demo_instr_def metadata_ops_def)
  have a: "aligned (bs_builder first_state)" "layer_digests_of (bs_builder first_state) = []"
    by (simp_all add: aligned_def layer_digests_of_def first_state_def demo_state_def demo_builder_def count_layers_def new_config_def)
  note t = steps_account_for_layers [OF r]
  then obtain x where x: "steps = [x]" "sr_layer_digest x \<noteq> None"
    by (auto simp: list_all2_Cons1 demo_instr_def metadata_ops_def)
  have "aligned (bs_builder s')" "layer_digests_of (bs_builder s') = List.map_filter sr_layer_digest steps"
    using t a by simp_all
  moreover have "List.map_filter sr_layer_digest steps \<noteq> []" using x by (auto simp: map_filter_simps)
  ultimately show ?thesis using r x(1) by (intro exI [of _ steps] exI [of _ s']) simp
qed

end
