(* ===== verification/Spec2Isabelle.thy ===== *)
theory Spec2Isabelle
  imports Memory_Store_Props Object_Machine Raft_KV Work_Queue Deployment_Props Task_Results Control_Plane
    Container_Overlay Container_Runs Pod_Containers Image_Builder_Props
begin

text \<open>
  A verification library of the container platform: an orchestrator over a replicated key-value store, a task
  queue, an image toolkit and a rootless container runtime.  Sources are given relative to \<open>src/modules\<close>.

  \<^bold>\<open>The parts and how they interact.\<close>  Controllers (\<open>orchestrator/orchestrator\<close>) keep objects in a cluster
  store, either in memory or behind a Raft group (\<open>raft-kv/raft_kv\<close>); every store gives versions to objects,
  refuses stale writes and hands out events.  The controller runtime turns events into keys of a work queue;
  the Deployment and ReplicaSet controllers turn keys into objects, the scheduler binds pods to nodes, node
  agents run them and the node monitor evicts those of silent nodes.  The task queue (\<open>taskqueue/taskqueue\<close>)
  is a broker between clients and workers that speak framed JSON, with a result table beside it.  The image
  toolkit (\<open>image-toolkit/imagekit\<close>) builds content-addressed images, which the container runtime
  (\<open>container-runtime/minicon\<close>) reads and unpacks with code of its own and runs, each container in namespaces with
  an identity map, an overlay root and a control group; bridges and links are planned apart.  The orchestrator's
  container runtime starts pods through it.

  \<^bold>\<open>Shared theories.\<close>  \<open>Platform_Prelude\<close>: exceptions as values, sequencing with and without state (\<open>res\<close> and
  \<open>act\<close>, with \<open>keeps\<close> for invariants), association lists as Python dictionaries, JSON values.  \<open>Py_Text\<close>:
  the string operations of Python that the code uses.  \<open>Objects\<close>: \<open>objects.py\<close>.

  \<^bold>\<open>Orchestrator.\<close>  \<open>Cluster_Store\<close> (interface of \<open>store.py\<close>, events, \<open>update_with_retry\<close>),
  \<open>Memory_Store\<close> and \<open>Memory_Store_Props\<close> (the in-memory store: compare and swap, no lost update, no gap in a
  watch, a watch rebuilds the table), \<open>Object_Machine\<close> (the state machine and client of the replicated store;
  both back ends hold the same objects after any history), \<open>Work_Queue\<close> (\<open>controller.py\<close>: no notification is
  lost and every waiting key is served, as long as no key fails 1025 times in a row - the delay then overflows
  and ends the worker), \<open>Store_Lists\<close>, \<open>Replica_Set\<close>, \<open>Replica_Set_Props\<close>, \<open>Deployment\<close>,
  \<open>Deployment_Props\<close> (\<open>workloads.py\<close>: convergence, surge bound, the
  availability floor as far as it holds, rollback), \<open>Scheduling\<close>
  (\<open>scheduler.py\<close>: no overcommitment, greatest score), \<open>Node_Agents\<close>, \<open>Node_Agents_Props\<close> (\<open>node_agent.py\<close>,
  \<open>runtime.py\<close>), \<open>Control_Plane\<close> (\<open>cluster.py\<close>).

  \<^bold>\<open>Raft.\<close>  \<open>Raft_Log\<close> (\<open>raft/log.py\<close>, \<open>state.py\<close>: what a crash leaves on disk), \<open>Raft_Node\<close> and
  \<open>Raft_Node_Props\<close> (\<open>raft/node.py\<close>: one function per RPC and timer), \<open>Raft_Cluster\<close> (the cluster as a step
  relation with lost, repeated and forged requests, lost vote answers, lost and forged replication answers, and crashes:
  at most one leader per term for odd sizes over a data directory),
  \<open>Raft_KV\<close> (\<open>store/kv.py\<close>, \<open>rpc/server.py\<close>, \<open>rpc/client.py\<close>).

  \<^bold>\<open>Task queue.\<close>  \<open>Task_Protocol\<close> (framing over fragmented streams), \<open>Task_Heap\<close> (\<open>heapq\<close>), \<open>Task_Queue\<close>
  (\<open>broker/queue.py\<close>: priority order, ETA, recovery; the section under the lock and the write to the table
  after it are separate steps), \<open>Task_Broker\<close>, \<open>Task_Broker_Props\<close>
  (\<open>broker/server.py\<close>: dispatch and reaper passes), \<open>Task_Worker\<close> (worker and client), \<open>Task_Results\<close> (the
  result table; waiting is a \<open>partial_function\<close>, proved to return).

  \<^bold>\<open>Images.\<close>  \<open>Host_Files\<close> (a file system of directories, files, links and device nodes, and what Python's
  \<open>os\<close>, \<open>shutil\<close> and \<open>tarfile\<close> do on it), \<open>Image_Digest\<close> (\<open>digest.py\<close>, \<open>manifest.py\<close>), \<open>Image_Config\<close>
  (\<open>config.py\<close>), \<open>Image_Store\<close> (\<open>store.py\<close>: content addressing, publishing, transfer of exactly the missing
  blobs), \<open>Image_Layer\<close>, \<open>Image_Layer_Props\<close>, \<open>Image_Layer_Safety\<close> (\<open>layer.py\<close>: unpacking rebuilds the
  tree unless a link becomes a directory, layers are reproducible, how far extraction reaches), \<open>Image_Dockerfile\<close> (\<open>dockerfile.py\<close>),
  \<open>Image_Build\<close>, \<open>Image_Copy\<close>, \<open>Image_Builder\<close>, \<open>Image_Builder_Props\<close> (\<open>build.py\<close>: chained cache keys, COPY
  and RUN on the file system, a cached RUN equals the run, layers and history stay aligned).  A blob is the
  canonical text of a JSON value, an archive or its compression, or other bytes; SHA-256 is an argument, of which
  statements use that it yields 64 hexadecimal digits and, where content is compared, that it does not collide
  on the finitely many blobs at hand.

  \<^bold>\<open>Container runtime.\<close>  \<open>Net_Link\<close> (\<open>netlink.py\<close>: bytes are \<open>8 word\<close>s in little-endian order), \<open>Id_Map\<close>
  (\<open>idmap.py\<close>), \<open>Container_Host\<close> (\<open>network.py\<close>, the pure parts of \<open>mounts.py\<close> and \<open>cgroups.py\<close>), \<open>Container_Image\<close>,
  \<open>Container_Unpack\<close>, \<open>Container_Unpack_Props\<close>, \<open>Container_Overlay\<close> (\<open>image.py\<close>, \<open>nshelper.py\<close>: its reader agrees with
  the builder's documents, and its stack of unpacked layers shows the tree the image was built from; overlayfs is the kernel's, a
  parameter with its documented rules, \<open>overlay_rules\<close>, as hypothesis).
  \<open>Container_Setup\<close> (\<open>linux.py\<close> and the rest of \<open>mounts.py\<close> and \<open>cgroups.py\<close>): a process is the log of its system calls,
  and the kernel answers each from the log so far.  \<open>Container_Init\<close>, \<open>Container_Init_Props\<close> (\<open>container.py\<close>, the
  two inner processes: the workload only runs in an isolated root, as far as the paths of the calls tell), \<open>Container_Life\<close>, \<open>Container_Life_Props\<close>,
  \<open>Container_Runs\<close> (\<open>container.py\<close>, the runtime's side: \<open>create\<close>, \<open>start\<close>, \<open>wait\<close>, \<open>kill\<close>, \<open>delete\<close>, interleaved with the
  processes by the step relations \<open>env_step\<close> and \<open>life\<close>; when a start succeeds, what \<open>wait\<close> returns, that \<open>kill\<close> ends).
  \<open>Pod_Containers\<close> joins both halves: the subprocess and container runtimes of the orchestrator's \<open>runtime.py\<close>.

  \<^bold>\<open>Interfaces\<close> are locales, interpreted on the model's own definitions in the theory that provides them: the
  stores, the work queue, the priority queue of the broker (on \<open>heapq\<close>), the quorums of a Raft cluster, and the pod
  runtime (on the simulated runtime; the other two do not keep its law that a failed start runs nothing).

  \<^bold>\<open>Conventions and bounds.\<close>  Floats are exact rationals (where the code converts a huge integer to a
  float, the exception is modelled); random identifiers and clock readings are arguments;
  one section that holds its object's lock is one step, and threads interleave between calls.  Loops
  that end are recursive functions with a measure; loops that read an unbounded environment (datagrams, clock
  readings, other threads' writes) recurse over the list of what the environment gives, and the result for an
  exhausted list is \<open>None\<close> or explicit.  Retry loops have the code's own bound as fuel.

  \<^bold>\<open>Kernels and processes.\<close>  What a system call answers, whether a process ends, and how a pipe cuts its bytes are
  arguments, so a statement holds for every answer unless a hypothesis restricts it.  A polling loop (\<open>wait\<close>,
  \<open>kill\<close>) takes the list of its looks - the clock, and what the processes did since the last one - and gives
  \<open>None\<close> when the list ends first; for \<open>kill\<close> one look after the grace period is enough.

  \<^bold>\<open>Not modelled.\<close>  Starting and stopping threads, servers and process pools; text that is only rendered (tables,
  summaries, statistics); \<open>run_in_userns\<close>, the forking alternative to the helper process; probing the kernel for
  network capabilities; cold-start measurement, dashboards, command lines, generated gRPC code and transport, the
  \<open>ctl\<close> tool, examples, benchmarks and tests.
\<close>

end
